(* ===== verification/Cave_Prelude.thy ===== *)
theory Cave_Prelude
  imports Main "HOL-Library.Word" "HOL-Library.AList" "HOL-Library.List_Lexorder"
begin

text \<open>
  Shared vocabulary of the development: the machine types of the Rust sources, the pieces of the
  Rust standard library the modelled crates use (saturating arithmetic, big- and little-endian
  conversion, \<open>HashMap\<close>, \<open>str::from_utf8\<close>, \<open>str::split\<close>, decimal formatting) and the generic
  lemmas about them. A Rust \<open>Result<T, E>\<close> is a sum \<open>'e + 'a\<close> with the error on the left, a Rust
  \<open>String\<close> is the list of its UTF-8 bytes (a HOL \<open>string\<close>), a \<open>Vec<u8>\<close> or \<open>Bytes\<close> is a
  list of 8-bit words.

  The named collections are filled by the component theories: \<open>wire_simps\<close> holds the
  encode/decode round trips, \<open>inv_intros\<close> the preservation facts of the component invariants and
  \<open>frame_simps\<close> the fields an operation leaves alone.
\<close>

named_theorems wire_simps "round trips of the wire primitives"
named_theorems inv_intros "operations keep the component invariant"
named_theorems frame_simps "state components an operation does not change"

unbundle bit_operations_syntax

type_synonym u8 = "8 word"
type_synonym u16 = "16 word"
type_synonym u32 = "32 word"
type_synonym u64 = "64 word"

section \<open>Machine integers\<close>

text \<open>\<open>saturating_add\<close> and \<open>saturating_sub\<close> on the unsigned types.\<close>

definition saturating_add :: "'a::len word \<Rightarrow> 'a word \<Rightarrow> 'a word" where
  "saturating_add x y = (if unat x + unat y < 2 ^ LENGTH('a) then x + y else - 1)"

definition saturating_sub :: "'a::len word \<Rightarrow> 'a word \<Rightarrow> 'a word" where
  "saturating_sub x y = (if y \<le> x then x - y else 0)"

text \<open>\<open>i64\<close> values are integers in range; \<open>i64::saturating_add\<close> clamps to the range.\<close>

definition i64_max :: int where
  "i64_max = 9223372036854775807"

definition i64_min :: int where
  "i64_min = - 9223372036854775808"

definition i64_saturating_add :: "int \<Rightarrow> int \<Rightarrow> int" where
  "i64_saturating_add x y = max i64_min (min i64_max (x + y))"

text \<open>\<open>u16::to_be_bytes\<close> / \<open>from_be_bytes\<close>, the same at \<open>u32\<close>, and \<open>u64::to_le_bytes\<close>.\<close>

definition u16_to_be_bytes :: "u16 \<Rightarrow> u8 list" where
  "u16_to_be_bytes w = [ucast (drop_bit 8 w), ucast w]"

definition u16_from_be_bytes :: "u8 \<Rightarrow> u8 \<Rightarrow> u16" where
  "u16_from_be_bytes a b = push_bit 8 (ucast a) OR ucast b"

definition u64_to_le_bytes :: "u64 \<Rightarrow> u8 list" where
  "u64_to_le_bytes w = map (\<lambda>i. ucast (drop_bit (8 * i) w)) [0..<8]"

definition u32_to_be_bytes :: "u32 \<Rightarrow> u8 list" where
  "u32_to_be_bytes w = [ucast (drop_bit 24 w), ucast (drop_bit 16 w), ucast (drop_bit 8 w), ucast w]"

definition u32_from_be_bytes :: "u8 \<Rightarrow> u8 \<Rightarrow> u8 \<Rightarrow> u8 \<Rightarrow> u32" where
  "u32_from_be_bytes a b c d =
     push_bit 24 (ucast a) OR push_bit 16 (ucast b) OR push_bit 8 (ucast c) OR ucast d"

section \<open>Strings\<close>

text \<open>The bytes of a string, and the string of a byte sequence (\<open>as_bytes\<close>, \<open>to_owned\<close>).\<close>

definition as_bytes :: "string \<Rightarrow> u8 list" where
  "as_bytes s = map of_char s"

definition of_bytes :: "u8 list \<Rightarrow> string" where
  "of_bytes bs = map (\<lambda>b. char_of (unat b)) bs"

definition is_ascii_digit :: "u8 \<Rightarrow> bool" where
  "is_ascii_digit b \<longleftrightarrow> 48 \<le> b \<and> b \<le> 57"

text \<open>\<open>str::split(c)\<close>: the fields between the separators, at least one.\<close>

fun split_on :: "char \<Rightarrow> string \<Rightarrow> string list" where
  "split_on c [] = [[]]"
| "split_on c (x # xs) =
     (if x = c then [] # split_on c xs
      else (case split_on c xs of [] \<Rightarrow> [[x]] | f # fs \<Rightarrow> (x # f) # fs))"

fun join_with :: "char \<Rightarrow> string list \<Rightarrow> string" where
  "join_with c [] = []"
| "join_with c [f] = f"
| "join_with c (f # fs) = f @ c # join_with c fs"

text \<open>Decimal formatting of an unsigned integer, as \<open>format!\<close> does it.\<close>

definition digit_char :: "nat \<Rightarrow> char" where
  "digit_char d = char_of (48 + d)"

fun show_nat :: "nat \<Rightarrow> string" where
  "show_nat n = (if n < 10 then [digit_char n] else show_nat (n div 10) @ [digit_char (n mod 10)])"

declare show_nat.simps [simp del]

text \<open>
  \<open>std::str::from_utf8\<close>: the well-formed byte sequences of the Unicode standard (table 3-7), which
  exclude over-long forms, surrogates and code points above 10FFFF.
\<close>

definition utf8_cont :: "u8 \<Rightarrow> bool" where
  "utf8_cont b \<longleftrightarrow> 0x80 \<le> b \<and> b \<le> 0xBF"

fun utf8_valid :: "u8 list \<Rightarrow> bool" where
  "utf8_valid [] = True"
| "utf8_valid (a # bs) =
     (if a \<le> 0x7F then utf8_valid bs
      else if 0xC2 \<le> a \<and> a \<le> 0xDF then
        (case bs of b # r \<Rightarrow> utf8_cont b \<and> utf8_valid r | _ \<Rightarrow> False)
      else if 0xE0 \<le> a \<and> a \<le> 0xEF then
        (case bs of b # c # r \<Rightarrow>
           (if a = 0xE0 then 0xA0 \<le> b \<and> b \<le> 0xBF
            else if a = 0xED then 0x80 \<le> b \<and> b \<le> 0x9F else utf8_cont b)
           \<and> utf8_cont c \<and> utf8_valid r
         | _ \<Rightarrow> False)
      else if 0xF0 \<le> a \<and> a \<le> 0xF4 then
        (case bs of b # c # d # r \<Rightarrow>
           (if a = 0xF0 then 0x90 \<le> b \<and> b \<le> 0xBF
            else if a = 0xF4 then 0x80 \<le> b \<and> b \<le> 0x8F else utf8_cont b)
           \<and> utf8_cont c \<and> utf8_cont d \<and> utf8_valid r
         | _ \<Rightarrow> False)
      else False)"

text \<open>\<open>starts_with\<close> on slices and strings.\<close>

definition starts_with :: "'a list \<Rightarrow> 'a list \<Rightarrow> bool" where
  "starts_with xs p \<longleftrightarrow> take (length p) xs = p"

section \<open>Finite maps\<close>

text \<open>
  A \<open>HashMap\<close> is an association list with distinct keys. Its iteration order is unspecified in
  Rust; the list order stands for one such order, and the theorems about iterating code are stated
  on what does not depend on it. \<open>insert\<close> keeps the position of an existing key.
\<close>

type_synonym ('k, 'v) hashmap = "('k \<times> 'v) list"

abbreviation hm_ok :: "('k, 'v) hashmap \<Rightarrow> bool" where
  "hm_ok m \<equiv> distinct (map fst m)"

abbreviation hm_get :: "('k, 'v) hashmap \<Rightarrow> 'k \<Rightarrow> 'v option" where
  "hm_get m k \<equiv> map_of m k"

abbreviation hm_insert :: "'k \<Rightarrow> 'v \<Rightarrow> ('k, 'v) hashmap \<Rightarrow> ('k, 'v) hashmap" where
  "hm_insert k v m \<equiv> AList.update k v m"

abbreviation hm_remove :: "'k \<Rightarrow> ('k, 'v) hashmap \<Rightarrow> ('k, 'v) hashmap" where
  "hm_remove k m \<equiv> AList.delete k m"

text \<open>A \<open>BTreeMap\<close> is an association list in ascending key order.\<close>

type_synonym ('k, 'v) btreemap = "('k \<times> 'v) list"

definition bt_ok :: "('k::linorder, 'v) btreemap \<Rightarrow> bool" where
  "bt_ok m \<longleftrightarrow> sorted_wrt (<) (map fst m)"

definition bt_insert :: "'k::linorder \<Rightarrow> 'v \<Rightarrow> ('k, 'v) btreemap \<Rightarrow> ('k, 'v) btreemap" where
  "bt_insert k v m = filter (\<lambda>e. fst e < k) m @ (k, v) # filter (\<lambda>e. k < fst e) m"

definition bt_remove :: "'k::linorder \<Rightarrow> ('k, 'v) btreemap \<Rightarrow> ('k, 'v) btreemap" where
  "bt_remove k m = filter (\<lambda>e. fst e \<noteq> k) m"

text \<open>The contract of a finite map, and what its clients derive from it.\<close>

locale finite_map =
  fixes empty :: 'm
    and get :: "'m \<Rightarrow> 'k \<Rightarrow> 'v option"
    and insert :: "'k \<Rightarrow> 'v \<Rightarrow> 'm \<Rightarrow> 'm"
    and remove :: "'k \<Rightarrow> 'm \<Rightarrow> 'm"
    and ok :: "'m \<Rightarrow> bool"
  assumes get_empty: "get empty k = None"
    and get_insert: "get (insert k v m) k' = (if k' = k then Some v else get m k')"
    and get_remove: "get (remove k m) k' = (if k' = k then None else get m k')"
    and ok_empty: "ok empty"
    and ok_insert: "ok m \<Longrightarrow> ok (insert k v m)"
    and ok_remove: "ok m \<Longrightarrow> ok (remove k m)"
begin

lemma get_insert_same: "get (insert k v m) k = Some v"
  by (simp add: get_insert)

lemma get_remove_same: "get (remove k m) k = None"
  by (simp add: get_remove)

lemma insert_shadows: "get (insert k v (insert k w m)) k' = get (insert k v m) k'"
  by (simp add: get_insert)

lemma remove_insert: "get (remove k (insert k v m)) k' = get (remove k m) k'"
  by (simp add: get_insert get_remove)

lemma get_foldr_insert:
  "get (foldr (\<lambda>(k, v). insert k v) kvs m) k' =
     (case map_of kvs k' of Some v \<Rightarrow> Some v | None \<Rightarrow> get m k')"
  by (induction kvs) (auto simp: get_insert split: option.splits)

end

section \<open>Lemmas\<close>

lemma unat_saturating_add:
  "unat (saturating_add x y) = min (unat x + unat y) (2 ^ LENGTH('a) - 1)"
  for x y :: "'a::len word"
proof -
  have "unat (- 1 :: 'a word) = 2 ^ LENGTH('a) - 1"
    by (simp add: unsigned_minus_1_eq_mask mask_eq_exp_minus_1)
  then show ?thesis
    by (auto simp: saturating_add_def unat_word_ariths min_def)
qed

lemma unat_lt_u32: "unat (x :: u32) < 4294967296"
  using unsigned_less [of x] by simp

lemma unat_lt_u16: "unat (x :: u16) < 65536"
  using unsigned_less [of x] by simp

lemma unat_lt_u8: "unat (x :: u8) < 256"
  using unsigned_less [of x] by simp

lemma unat_saturating_sub: "unat (saturating_sub x y) = unat x - unat y"
  by (auto simp: saturating_sub_def unat_sub_if_size word_le_nat_alt)

lemma u16_be_bytes_len [simp]: "length (u16_to_be_bytes w) = 2"
  by (simp add: u16_to_be_bytes_def)

lemma u16_be_round [wire_simps]:
  "u16_from_be_bytes (ucast (drop_bit 8 w)) (ucast w) = w"
  by (rule bit_word_eqI)
    (auto simp: u16_from_be_bytes_def bit_or_iff bit_push_bit_iff bit_ucast_iff bit_drop_bit_eq
      not_less dest: bit_imp_le_length)

lemma u16_be_inv:
  "u16_to_be_bytes (u16_from_be_bytes a b) = [a, b]"
proof -
  have "\<not> bit b (8 + n)" for n
    using bit_imp_le_length [of b "8 + n"] by auto
  then show ?thesis
    by (auto simp: u16_to_be_bytes_def u16_from_be_bytes_def bit_or_iff bit_push_bit_iff
        bit_ucast_iff bit_drop_bit_eq intro!: bit_word_eqI)
qed

lemma u32_be_round:
  "u32_from_be_bytes (ucast (drop_bit 24 w)) (ucast (drop_bit 16 w)) (ucast (drop_bit 8 w)) (ucast w) = w"
proof (rule bit_word_eqI)
  fix n assume "n < LENGTH(32)"
  then have "n < 8 \<or> 8 \<le> n \<and> n < 16 \<or> 16 \<le> n \<and> n < 24 \<or> 24 \<le> n \<and> n < 32" by auto
  then show "bit (u32_from_be_bytes (ucast (drop_bit 24 w)) (ucast (drop_bit 16 w)) (ucast (drop_bit 8 w)) (ucast w)) n =
      bit w n"
    by (auto simp: u32_from_be_bytes_def bit_or_iff bit_push_bit_iff bit_ucast_iff bit_drop_bit_eq)
qed

lemma as_bytes_len [simp]: "length (as_bytes s) = length s"
  by (simp add: as_bytes_def)

lemma of_bytes_len [simp]: "length (of_bytes s) = length s"
  by (simp add: of_bytes_def)

lemma char_of_byte [simp]: "char_of (unat (of_char c :: u8)) = c"
proof -
  have "(of_char c :: u8) = of_nat (of_char c)" by (rule of_nat_of_char [symmetric])
  moreover have "unat (of_nat n :: u8) = n" if "n < 256" for n
    using that by (simp add: unat_of_nat)
  moreover have "of_char c < (256 :: nat)" by simp
  ultimately have "unat (of_char c :: u8) = of_char c" by metis
  then show ?thesis by simp
qed

lemma of_bytes_as_bytes [simp]: "of_bytes (as_bytes s) = s"
  by (simp add: of_bytes_def as_bytes_def comp_def)

lemma as_bytes_append [simp]: "as_bytes (s @ t) = as_bytes s @ as_bytes t"
  by (simp add: as_bytes_def)

lemma split_on_not_Nil [simp]: "split_on c s \<noteq> []"
  by (induction s) (auto split: list.splits)

lemma join_with_Cons: "fs \<noteq> [] \<Longrightarrow> join_with c (f # fs) = f @ c # join_with c fs"
  by (cases fs) auto

lemma join_split: "join_with c (split_on c s) = s"
proof (induction s)
  case (Cons x xs)
  obtain f fs where ffs: "split_on c xs = f # fs"
    by (meson neq_Nil_conv split_on_not_Nil)
  with Cons.IH have "join_with c (f # fs) = xs" by simp
  then have "join_with c ((x # f) # fs) = x # xs"
    by (cases fs) auto
  with ffs Cons.IH show ?case by (simp add: join_with_Cons)
qed simp

lemma split_on_clean: "f \<in> set (split_on c s) \<Longrightarrow> c \<notin> set f"
  by (induction s arbitrary: f) (auto split: list.splits if_splits)

lemma split_on_id: "c \<notin> set s \<Longrightarrow> split_on c s = [s]"
  by (induction s) auto

lemma split_on_append: "c \<notin> set f \<Longrightarrow> split_on c (f @ c # s) = f # split_on c s"
  by (induction f) auto

lemma split_join: "fs \<noteq> [] \<Longrightarrow> \<forall>f \<in> set fs. c \<notin> set f \<Longrightarrow> split_on c (join_with c fs) = fs"
  by (induction fs rule: induct_list012) (auto simp: split_on_id split_on_append)

text \<open>Two strings are equal exactly when their levels are.\<close>

lemma split_on_inject: "split_on c s = split_on c t \<longleftrightarrow> s = t"
  by (metis join_split)

interpretation hm: finite_map "[]" "hm_get" "hm_insert" "hm_remove" "hm_ok"
  by unfold_locales (auto simp: update_conv' delete_conv' distinct_update distinct_delete)

lemmas hm_simps [simp] = hm.get_insert hm.get_remove

lemma hm_ok_insert [simp, intro]: "hm_ok m \<Longrightarrow> hm_ok (hm_insert k v m)"
  by (rule hm.ok_insert)

lemma hm_ok_remove [simp, intro]: "hm_ok m \<Longrightarrow> hm_ok (hm_remove k m)"
  by (rule hm.ok_remove)

lemma in_set_hm: "hm_ok m \<Longrightarrow> (k, v) \<in> set m \<longleftrightarrow> hm_get m k = Some v"
  by (metis map_of_SomeD map_of_is_SomeI)

lemma keys_hm_insert: "fst ` set (hm_insert k v m) = insert k (fst ` set m)"
  using dom_update [of k v m] by simp

lemma map_of_filter_fst: "map_of (filter (\<lambda>e. P (fst e)) m) k = (if P k then map_of m k else None)"
  by (induction m) auto

lemma sorted_wrt_filter_fst:
  "sorted_wrt (<) (map fst m) \<Longrightarrow> sorted_wrt (<) (map fst (filter P m))"
  by (induction m) auto

interpretation bt: finite_map "[]" "map_of" "bt_insert" "bt_remove" "bt_ok"
proof (unfold_locales, goal_cases)
  case (2 k v m k')
  show ?case
    by (auto simp: bt_insert_def map_add_def map_of_filter_fst [of "\<lambda>x. x < k"]
        map_of_filter_fst [of "\<lambda>x. k < x"] split: option.splits)
next
  case (3 k m k')
  show ?case by (simp add: bt_remove_def map_of_filter_fst [of "\<lambda>x. x \<noteq> k"])
next
  case (5 m k v)
  then show ?case
    by (auto simp: bt_ok_def bt_insert_def sorted_wrt_append sorted_wrt_filter_fst)
next
  case (6 m k)
  then show ?case by (simp add: bt_ok_def bt_remove_def sorted_wrt_filter_fst)
qed (simp_all add: bt_ok_def)

lemma bt_ok_distinct: "bt_ok m \<Longrightarrow> distinct (map fst m)"
  by (simp add: bt_ok_def strict_sorted_iff)

section \<open>Searching a list\<close>

lemma find_SomeD: "find P xs = Some x \<Longrightarrow> x \<in> set xs \<and> P x"
  by (induction xs) (auto split: if_splits)

lemma find_eq_None: "find P xs = None \<longleftrightarrow> (\<forall>x \<in> set xs. \<not> P x)"
  by (induction xs) auto

lemma starts_with_simps [simp]:
  "starts_with xs []" "\<not> starts_with [] (y # ys)"
  "starts_with (x # xs) (y # ys) \<longleftrightarrow> x = y \<and> starts_with xs ys"
  by (auto simp: starts_with_def)

lemma option_eqI: "(\<And>x. a = Some x \<longleftrightarrow> b = Some x) \<Longrightarrow> a = b"
  by (cases a; cases b) auto

end
