(* ===== verification/Keypad_Spec.thy ===== *)
theory Keypad_Spec
  imports Cave_Prelude
begin

text \<open>
  The contract both keypads (\<open>cave-home-alarm\<close> and \<open>cave-home-lock\<close>) promise their state
  machines: a stored credential counts consecutive wrong codes and refuses every code once the
  count reaches its limit. The lemmas about sequences of attempts are proved once, from the
  contract alone, and reach the two code modules through their interpretations. The second part is
  the arithmetic of the code digest, which the two modules share as well.
\<close>

section \<open>Sequences of attempts\<close>

fun attempts :: "('c \<Rightarrow> 'k \<Rightarrow> 'c \<times> 'v) \<Rightarrow> 'c \<Rightarrow> 'k list \<Rightarrow> 'c \<times> 'v list" where
  "attempts verify c [] = (c, [])"
| "attempts verify c (k # ks) =
     (let (c1, v) = verify c k; (c2, vs) = attempts verify c1 ks in (c2, v # vs))"

lemma attempts_Cons:
  "attempts verify c (k # ks) =
     (fst (attempts verify (fst (verify c k)) ks),
      snd (verify c k) # snd (attempts verify (fst (verify c k)) ks))"
  by (simp add: case_prod_unfold Let_def)

lemma attempts_append:
  "attempts verify c (ks @ ks') =
     (fst (attempts verify (fst (attempts verify c ks)) ks'),
      snd (attempts verify c ks) @ snd (attempts verify (fst (attempts verify c ks)) ks'))"
  by (induction ks arbitrary: c) (simp_all add: attempts_Cons del: attempts.simps(2))

locale keypad =
  fixes verify :: "'c \<Rightarrow> 'k \<Rightarrow> 'c \<times> 'v"
    and accepted :: 'v
    and locked_out :: "'c \<Rightarrow> bool"
    and holds :: "'c \<Rightarrow> 'k \<Rightarrow> bool"
    and failures :: "'c \<Rightarrow> nat"
    and limit :: "'c \<Rightarrow> nat"
  assumes locked_iff: "locked_out c \<longleftrightarrow> limit c \<le> failures c"
    and verify_locked: "locked_out c \<Longrightarrow> fst (verify c k) = c \<and> snd (verify c k) \<noteq> accepted"
    and verify_right: "\<not> locked_out c \<Longrightarrow> holds c k \<Longrightarrow>
      snd (verify c k) = accepted \<and> failures (fst (verify c k)) = 0"
    and verify_wrong: "\<not> locked_out c \<Longrightarrow> \<not> holds c k \<Longrightarrow>
      snd (verify c k) \<noteq> accepted \<and> failures (fst (verify c k)) = Suc (failures c)"
    and holds_verify: "holds (fst (verify c k)) = holds c"
    and limit_verify: "limit (fst (verify c k)) = limit c"
begin

lemma accepted_iff: "snd (verify c k) = accepted \<longleftrightarrow> \<not> locked_out c \<and> holds c k"
  using verify_locked verify_right verify_wrong by blast

lemma locked_forever:
  "locked_out c \<Longrightarrow> fst (attempts verify c ks) = c \<and> accepted \<notin> set (snd (attempts verify c ks))"
proof (induction ks)
  case (Cons k ks)
  with verify_locked [of c k] show ?case
    by (auto simp add: attempts_Cons simp del: attempts.simps(2))
qed simp

lemma holds_attempts: "holds (fst (attempts verify c ks)) = holds c"
  by (induction ks arbitrary: c)
    (simp_all add: attempts_Cons holds_verify del: attempts.simps(2))

lemma limit_attempts: "limit (fst (attempts verify c ks)) = limit c"
  by (induction ks arbitrary: c)
    (simp_all add: attempts_Cons limit_verify del: attempts.simps(2))

lemma wrong_guesses:
  assumes "\<forall>k \<in> set ks. \<not> holds c k" and "failures c \<le> limit c"
  shows "accepted \<notin> set (snd (attempts verify c ks)) \<and>
    failures (fst (attempts verify c ks)) = min (limit c) (failures c + length ks)"
  using assms
proof (induction ks arbitrary: c)
  case (Cons k ks)
  show ?case
  proof (cases "locked_out c")
    case True
    then show ?thesis
      using locked_forever [of c "k # ks"] locked_iff [of c] Cons.prems(2) by simp
  next
    case False
    let ?c = "fst (verify c k)"
    from False Cons.prems(1) have v: "snd (verify c k) \<noteq> accepted" "failures ?c = Suc (failures c)"
      using verify_wrong [of c k] by auto
    have "failures ?c \<le> limit ?c"
      using False v(2) locked_iff [of c] limit_verify [of c k] by simp
    moreover have "\<forall>x \<in> set ks. \<not> holds ?c x"
      using Cons.prems(1) by (simp add: holds_verify)
    ultimately have "accepted \<notin> set (snd (attempts verify ?c ks)) \<and>
      failures (fst (attempts verify ?c ks)) = min (limit ?c) (failures ?c + length ks)"
      by (intro Cons.IH)
    with v show ?thesis
      by (auto simp add: attempts_Cons limit_verify simp del: attempts.simps(2))
  qed
qed simp

text \<open>The lock-out: enough wrong codes, and no code is ever accepted again.\<close>

lemma lock_out_after_wrong_guesses:
  assumes "\<forall>k \<in> set ks. \<not> holds c k" and "failures c \<le> limit c"
    and "limit c \<le> failures c + length ks"
  shows "locked_out (fst (attempts verify c ks)) \<and>
    accepted \<notin> set (snd (attempts verify c (ks @ ks')))"
proof -
  let ?d = "fst (attempts verify c ks)"
  from wrong_guesses [OF assms(1,2)] assms(3) have "failures ?d = limit c" by simp
  then have "locked_out ?d" by (simp add: locked_iff limit_attempts)
  moreover from this have "accepted \<notin> set (snd (attempts verify ?d ks'))"
    using locked_forever by blast
  ultimately show ?thesis
    using wrong_guesses [OF assms(1,2)] by (simp add: attempts_append)
qed

lemma unlocked_before_limit:
  assumes "\<forall>k \<in> set ks. \<not> holds c k" and "failures c + length ks < limit c" and "holds c k"
  shows "snd (verify (fst (attempts verify c ks)) k) = accepted"
proof -
  let ?d = "fst (attempts verify c ks)"
  have "failures ?d < limit ?d"
    using wrong_guesses [OF assms(1)] assms(2) by (simp add: limit_attempts)
  then show ?thesis
    by (simp add: accepted_iff locked_iff holds_attempts assms(3))
qed

end

section \<open>The digest fold\<close>

text \<open>Multiplication by an odd constant loses nothing modulo a power of two.\<close>

lemma odd_mult_inject:
  fixes m x y :: "'a::len word"
  assumes "odd m" and "x * m = y * m"
  shows "x = y"
proof -
  have "odd (uint m)"
    using assms(1) bit_uint_iff [of m 0] by (simp add: bit_0)
  then have "coprime (uint m) (2 ^ LENGTH('a))"
    by (simp add: coprime_right_2_iff_odd)
  moreover have "uint x * uint m mod 2 ^ LENGTH('a) = uint y * uint m mod 2 ^ LENGTH('a)"
    using assms(2) by (simp add: word_uint_eq_iff uint_word_ariths)
  ultimately have "2 ^ LENGTH('a) dvd uint x - uint y"
    by (simp add: mod_eq_dvd_iff left_diff_distrib [symmetric] coprime_dvd_mult_left_iff
        coprime_commute)
  then have "uint x mod 2 ^ LENGTH('a) = uint y mod 2 ^ LENGTH('a)"
    by (simp only: mod_eq_dvd_iff)
  then show ?thesis by (simp add: word_uint_eq_iff)
qed

lemma xor_cancel_right: "a XOR b = c XOR b \<longleftrightarrow> a = (c :: 'a::len word)"
  by (metis xor.assoc xor.right_neutral xor_self_eq)

lemma xor_cancel_left: "b XOR a = b XOR c \<longleftrightarrow> a = (c :: 'a::len word)"
  by (metis xor.commute xor_cancel_right)

lemma or_xor_zero: "d OR (a XOR b) = 0 \<longleftrightarrow> d = 0 \<and> a = (b :: 'a::len word)"
  by (metis or_eq_0_iff xor_self_eq xor_cancel_right xor.left_neutral)

lemma u64_le_bytes_len [simp]: "length (u64_to_le_bytes w) = 8"
  by (simp add: u64_to_le_bytes_def)

lemma u64_le_bytes_inject: "u64_to_le_bytes v = u64_to_le_bytes w \<longleftrightarrow> v = w"
proof
  assume eq: "u64_to_le_bytes v = u64_to_le_bytes w"
  have "bit v n = bit w n" if "n < 64" for n
  proof -
    from that have i: "n div 8 < 8" and n: "8 * (n div 8) + n mod 8 = n" by auto
    from eq i have "(ucast (drop_bit (8 * (n div 8)) v) :: u8) = ucast (drop_bit (8 * (n div 8)) w)"
      by (simp add: u64_to_le_bytes_def list_eq_iff_nth_eq)
    then have "bit (ucast (drop_bit (8 * (n div 8)) v) :: u8) (n mod 8) =
        bit (ucast (drop_bit (8 * (n div 8)) w) :: u8) (n mod 8)"
      by simp
    with n show ?thesis by (simp add: bit_ucast_iff bit_drop_bit_eq)
  qed
  then show "v = w" by (intro bit_word_eqI) simp
qed simp

end
