(* ===== verification/Alarm_Code.thy ===== *)
theory Alarm_Code
  imports Keypad_Spec
begin

text \<open>
  The keypad user code of the alarm panel (\<open>cave-home-alarm/src/code.rs\<close>): the validated value
  object, its digest and the credential with its failed-attempt accounting.
\<close>

section \<open>The user code\<close>

definition MIN_CODE_LEN :: nat where
  "MIN_CODE_LEN = 4"

definition MAX_CODE_LEN :: nat where
  "MAX_CODE_LEN = 12"

datatype CodeError = Empty | TooShort | TooLong | NotDigits

record UserCode =
  digits :: "u8 list"

fun collect_digits :: "u8 list \<Rightarrow> u8 list \<Rightarrow> CodeError + u8 list" where
  "collect_digits ds [] = Inr ds"
| "collect_digits ds (b # bs) =
     (if \<not> is_ascii_digit b then Inl NotDigits else collect_digits (ds @ [b]) bs)"

definition UserCode_parse :: "string \<Rightarrow> CodeError + UserCode" where
  "UserCode_parse raw =
     (if raw = [] then Inl Empty
      else if length raw < MIN_CODE_LEN then Inl TooShort
      else if length raw > MAX_CODE_LEN then Inl TooLong
      else (case collect_digits [] (as_bytes raw) of
              Inl e \<Rightarrow> Inl e
            | Inr ds \<Rightarrow> Inr \<lparr>digits = ds\<rparr>))"

definition UserCode_len :: "UserCode \<Rightarrow> nat" where
  "UserCode_len c = length (digits c)"

definition UserCode_is_empty :: "UserCode \<Rightarrow> bool" where
  "UserCode_is_empty c \<longleftrightarrow> digits c = []"

section \<open>The digest\<close>

datatype CodeDigest = CodeDigest "u8 list"

definition fnv_prime :: u64 where
  "fnv_prime = 0x100000001b3"

fun fnv_fold :: "u64 \<Rightarrow> u8 list \<Rightarrow> u64" where
  "fnv_fold hash [] = hash"
| "fnv_fold hash (b # bs) = fnv_fold ((hash XOR ucast b) * fnv_prime) bs"

definition CodeDigest_of :: "u8 list \<Rightarrow> CodeDigest" where
  "CodeDigest_of bytes =
     (let hash = fnv_fold 0xcbf29ce484222325 bytes;
          hash = hash XOR of_nat (length bytes);
          hash = hash * fnv_prime
      in CodeDigest (u64_to_le_bytes hash))"

definition UserCode_digest :: "UserCode \<Rightarrow> CodeDigest" where
  "UserCode_digest c = CodeDigest_of (digits c)"

fun ct_eq :: "CodeDigest \<Rightarrow> CodeDigest \<Rightarrow> bool" where
  "ct_eq (CodeDigest a) (CodeDigest b) =
     (fold (\<lambda>i diff. diff OR (a ! i XOR b ! i)) [0..<length a] 0 = 0)"

section \<open>The credential\<close>

datatype CodeVerdict = Accepted | Rejected | LockedOut

record CodeCredential =
  expected :: CodeDigest
  failures :: u32
  max_failures :: u32

definition DEFAULT_MAX_FAILURES :: u32 where
  "DEFAULT_MAX_FAILURES = 5"

definition enroll_with_limit :: "UserCode \<Rightarrow> u32 \<Rightarrow> CodeCredential" where
  "enroll_with_limit code limit =
     \<lparr>expected = UserCode_digest code, failures = 0, max_failures = limit\<rparr>"

definition enroll :: "UserCode \<Rightarrow> CodeCredential" where
  "enroll code = enroll_with_limit code DEFAULT_MAX_FAILURES"

definition is_locked_out :: "CodeCredential \<Rightarrow> bool" where
  "is_locked_out c \<longleftrightarrow> failures c \<ge> max_failures c"

definition failure_count :: "CodeCredential \<Rightarrow> u32" where
  "failure_count c = failures c"

definition verify :: "CodeCredential \<Rightarrow> UserCode \<Rightarrow> CodeCredential \<times> CodeVerdict" where
  "verify c presented =
     (if is_locked_out c then (c, LockedOut)
      else if ct_eq (UserCode_digest presented) (expected c) then
        (c\<lparr>failures := 0\<rparr>, Accepted)
      else
        (let c' = c\<lparr>failures := saturating_add (failures c) 1\<rparr>
         in (c', if is_locked_out c' then LockedOut else Rejected)))"

definition reset :: "CodeCredential \<Rightarrow> CodeCredential" where
  "reset c = c\<lparr>failures := 0\<rparr>"

section \<open>Parsing\<close>

lemma collect_digits_eq:
  "collect_digits ds bs = (if list_all is_ascii_digit bs then Inr (ds @ bs) else Inl NotDigits)"
  by (induction bs arbitrary: ds) auto

text \<open>Whether \<open>code\<close> is a value that \<open>UserCode::parse\<close> can construct.\<close>

definition code_wf :: "UserCode \<Rightarrow> bool" where
  "code_wf c \<longleftrightarrow> MIN_CODE_LEN \<le> length (digits c) \<and> length (digits c) \<le> MAX_CODE_LEN \<and>
     list_all is_ascii_digit (digits c)"

lemma UserCode_parse_Inr:
  "UserCode_parse raw = Inr c \<longleftrightarrow> code_wf c \<and> digits c = as_bytes raw"
  by (cases c) (auto simp: UserCode_parse_def code_wf_def collect_digits_eq MIN_CODE_LEN_def
      MAX_CODE_LEN_def)

section \<open>The digest compares codes\<close>

lemma ct_diff_zero:
  "fold (\<lambda>i diff. diff OR (a ! i XOR b ! i)) [0..<n] d = (0 :: u8) \<longleftrightarrow>
     d = 0 \<and> (\<forall>i < n. a ! i = b ! i)"
proof (induction n)
  case (Suc n)
  have "fold (\<lambda>i diff. diff OR (a ! i XOR b ! i)) [0..<Suc n] d =
      fold (\<lambda>i diff. diff OR (a ! i XOR b ! i)) [0..<n] d OR (a ! n XOR b ! n)"
    by simp
  then have step: "fold (\<lambda>i diff. diff OR (a ! i XOR b ! i)) [0..<Suc n] d = 0 \<longleftrightarrow>
      (d = 0 \<and> (\<forall>i < n. a ! i = b ! i)) \<and> a ! n = b ! n"
    by (simp only: or_xor_zero Suc.IH)
  have "(\<forall>i < Suc n. a ! i = b ! i) \<longleftrightarrow> a ! n = b ! n \<and> (\<forall>i < n. a ! i = b ! i)"
    by (rule All_less_Suc)
  with step show ?case by argo
qed simp

lemma ct_eq_iff: "length a = length b \<Longrightarrow> ct_eq (CodeDigest a) (CodeDigest b) \<longleftrightarrow> a = b"
  by (simp only: ct_eq.simps ct_diff_zero list_eq_iff_nth_eq simp_thms)

lemma ct_eq_digest: "ct_eq (CodeDigest_of xs) (CodeDigest_of ys) \<longleftrightarrow> CodeDigest_of xs = CodeDigest_of ys"
  by (simp add: CodeDigest_of_def Let_def ct_eq_iff del: ct_eq.simps)

lemma odd_fnv_prime: "odd fnv_prime"
  by (simp add: fnv_prime_def)

lemma fnv_step_inject: "(h XOR b) * fnv_prime = (h' XOR b) * fnv_prime \<longleftrightarrow> h = h'"
  using odd_mult_inject [OF odd_fnv_prime] xor_cancel_right by metis

lemma fnv_fold_inject: "fnv_fold h bs = fnv_fold h' bs \<longleftrightarrow> h = h'"
  by (induction bs arbitrary: h h') (simp_all add: fnv_step_inject)

lemma fnv_fold_append: "fnv_fold h (xs @ ys) = fnv_fold (fnv_fold h xs) ys"
  by (induction xs arbitrary: h) simp_all

lemma ucast_u8_u64_inject: "(ucast (a :: u8) :: u64) = ucast b \<longleftrightarrow> a = b"
proof
  assume eq: "(ucast a :: u64) = ucast b"
  show "a = b"
  proof (rule bit_word_eqI)
    fix n assume "n < LENGTH(8)"
    then have "bit (ucast x :: u64) n = bit x n" for x :: u8
      by (simp add: bit_ucast_iff)
    with eq show "bit a n = bit b n" by metis
  qed
qed simp

lemma fnv_byte_inject: "(h XOR ucast a) * fnv_prime = (h XOR ucast b) * fnv_prime \<longleftrightarrow> a = (b :: u8)"
  using odd_mult_inject [OF odd_fnv_prime] xor_cancel_left ucast_u8_u64_inject by metis

lemma CodeDigest_of_inject:
  assumes "length xs = length ys"
  shows "CodeDigest_of xs = CodeDigest_of ys \<longleftrightarrow>
    fnv_fold 0xcbf29ce484222325 xs = fnv_fold 0xcbf29ce484222325 ys"
  using assms by (simp add: CodeDigest_of_def Let_def u64_le_bytes_inject fnv_step_inject)

lemma digest_one_digit:
  "CodeDigest_of (xs @ a # ys) = CodeDigest_of (xs @ b # ys) \<longleftrightarrow> a = b"
  by (simp add: CodeDigest_of_inject fnv_fold_append fnv_fold_inject fnv_byte_inject)

section \<open>The credential is a keypad\<close>

text \<open>The secret a credential holds: the codes whose digest is the enrolled one.\<close>

definition matches :: "CodeCredential \<Rightarrow> UserCode \<Rightarrow> bool" where
  "matches c k \<longleftrightarrow> ct_eq (UserCode_digest k) (expected c)"

lemma unat_failures_Suc:
  "\<not> is_locked_out c \<Longrightarrow> unat (saturating_add (failures c) 1) = Suc (unat (failures c))"
  using unat_lt_u32 [of "max_failures c"]
  by (simp add: is_locked_out_def unat_saturating_add word_le_nat_alt not_le)

lemma verify_when_locked: "is_locked_out c \<Longrightarrow> verify c k = (c, LockedOut)"
  by (simp add: verify_def)

lemma verify_when_right: "\<not> is_locked_out c \<Longrightarrow> matches c k \<Longrightarrow> verify c k = (c\<lparr>failures := 0\<rparr>, Accepted)"
  by (simp add: verify_def matches_def)

interpretation alarm_keypad: keypad verify Accepted is_locked_out matches
  "\<lambda>c. unat (failures c)" "\<lambda>c. unat (max_failures c)"
proof (unfold_locales, goal_cases)
  case (1 c) show ?case by (simp add: is_locked_out_def word_le_nat_alt)
next
  case (2 c k) then show ?case by (simp add: verify_when_locked)
next
  case (3 c k) then show ?case by (simp add: verify_when_right)
next
  case (4 c k) then show ?case
    by (simp add: verify_def matches_def Let_def unat_failures_Suc)
next
  case (5 c k) show ?case by (simp add: verify_def matches_def Let_def fun_eq_iff)
next
  case (6 c k) show ?case by (simp add: verify_def Let_def)
qed

lemma matches_enroll: "matches (enroll_with_limit code n) k \<longleftrightarrow>
    UserCode_digest k = UserCode_digest code"
  by (simp add: matches_def enroll_with_limit_def UserCode_digest_def ct_eq_digest)

end
