(* ===== verification/Lock_Code.thy ===== *)
theory Lock_Code
  imports Alarm_Code
begin

text \<open>
  The PIN of a door lock (\<open>cave-home-lock/src/code.rs\<close>). The crate carries its own copy of the
  keypad code module; it is modelled on its own here, and the digest lemmas are carried over by
  showing that the two copies compute the same bytes.
\<close>

section \<open>The PIN\<close>

definition MIN_CODE_LEN_lock :: nat where
  "MIN_CODE_LEN_lock = 4"

definition MAX_CODE_LEN_lock :: nat where
  "MAX_CODE_LEN_lock = 12"

datatype CodeError_lock = Empty_lock | TooShort_lock | TooLong_lock | NotDigits_lock

record LockCode =
  digits_lock :: "u8 list"

fun collect_digits_lock :: "u8 list \<Rightarrow> u8 list \<Rightarrow> CodeError_lock + u8 list" where
  "collect_digits_lock ds [] = Inr ds"
| "collect_digits_lock ds (b # bs) =
     (if \<not> is_ascii_digit b then Inl NotDigits_lock else collect_digits_lock (ds @ [b]) bs)"

definition LockCode_parse :: "string \<Rightarrow> CodeError_lock + LockCode" where
  "LockCode_parse raw =
     (if raw = [] then Inl Empty_lock
      else if length raw < MIN_CODE_LEN_lock then Inl TooShort_lock
      else if length raw > MAX_CODE_LEN_lock then Inl TooLong_lock
      else (case collect_digits_lock [] (as_bytes raw) of
              Inl e \<Rightarrow> Inl e
            | Inr ds \<Rightarrow> Inr \<lparr>digits_lock = ds\<rparr>))"

definition LockCode_len :: "LockCode \<Rightarrow> nat" where
  "LockCode_len c = length (digits_lock c)"

definition LockCode_is_empty :: "LockCode \<Rightarrow> bool" where
  "LockCode_is_empty c \<longleftrightarrow> digits_lock c = []"

section \<open>The digest\<close>

datatype CodeDigest_lock = CodeDigest_lock "u8 list"

fun fnv_fold_lock :: "u64 \<Rightarrow> u8 list \<Rightarrow> u64" where
  "fnv_fold_lock hash [] = hash"
| "fnv_fold_lock hash (b # bs) = fnv_fold_lock ((hash XOR ucast b) * 0x100000001b3) bs"

definition CodeDigest_of_lock :: "u8 list \<Rightarrow> CodeDigest_lock" where
  "CodeDigest_of_lock bytes =
     (let hash = fnv_fold_lock 0xcbf29ce484222325 bytes;
          hash = hash XOR of_nat (length bytes);
          hash = hash * 0x100000001b3
      in CodeDigest_lock (u64_to_le_bytes hash))"

definition LockCode_digest :: "LockCode \<Rightarrow> CodeDigest_lock" where
  "LockCode_digest c = CodeDigest_of_lock (digits_lock c)"

fun ct_eq_lock :: "CodeDigest_lock \<Rightarrow> CodeDigest_lock \<Rightarrow> bool" where
  "ct_eq_lock (CodeDigest_lock a) (CodeDigest_lock b) =
     (fold (\<lambda>i diff. diff OR (a ! i XOR b ! i)) [0..<length a] 0 = 0)"

section \<open>The credential\<close>

datatype CodeVerdict_lock = Accepted_lock | Rejected_lock | LockedOut_lock

record CodeCredential_lock =
  expected_lock :: CodeDigest_lock
  failures_lock :: u32
  max_failures_lock :: u32

definition DEFAULT_MAX_FAILURES_lock :: u32 where
  "DEFAULT_MAX_FAILURES_lock = 5"

definition enroll_with_limit_lock :: "LockCode \<Rightarrow> u32 \<Rightarrow> CodeCredential_lock" where
  "enroll_with_limit_lock code limit =
     \<lparr>expected_lock = LockCode_digest code, failures_lock = 0, max_failures_lock = limit\<rparr>"

definition enroll_lock :: "LockCode \<Rightarrow> CodeCredential_lock" where
  "enroll_lock code = enroll_with_limit_lock code DEFAULT_MAX_FAILURES_lock"

definition is_locked_out_lock :: "CodeCredential_lock \<Rightarrow> bool" where
  "is_locked_out_lock c \<longleftrightarrow> failures_lock c \<ge> max_failures_lock c"

definition failure_count_lock :: "CodeCredential_lock \<Rightarrow> u32" where
  "failure_count_lock c = failures_lock c"

definition verify_lock :: "CodeCredential_lock \<Rightarrow> LockCode \<Rightarrow> CodeCredential_lock \<times> CodeVerdict_lock" where
  "verify_lock c presented =
     (if is_locked_out_lock c then (c, LockedOut_lock)
      else if ct_eq_lock (LockCode_digest presented) (expected_lock c) then
        (c\<lparr>failures_lock := 0\<rparr>, Accepted_lock)
      else
        (let c' = c\<lparr>failures_lock := saturating_add (failures_lock c) 1\<rparr>
         in (c', if is_locked_out_lock c' then LockedOut_lock else Rejected_lock)))"

definition reset_lock :: "CodeCredential_lock \<Rightarrow> CodeCredential_lock" where
  "reset_lock c = c\<lparr>failures_lock := 0\<rparr>"

section \<open>The two copies agree\<close>

lemma collect_digits_alarm:
  "collect_digits_lock ds bs = map_sum (\<lambda>_. NotDigits_lock) id (collect_digits ds bs)"
  by (induction bs arbitrary: ds) simp_all

lemma fnv_fold_alarm: "fnv_fold_lock h bs = fnv_fold h bs"
  by (induction bs arbitrary: h) (simp_all add: fnv_prime_def)

lemma CodeDigest_of_alarm:
  "CodeDigest_of_lock xs = CodeDigest_lock b \<longleftrightarrow> CodeDigest_of xs = CodeDigest b"
  by (simp add: CodeDigest_of_lock_def CodeDigest_of_def fnv_fold_alarm
      fnv_prime_def Let_def)

lemma CodeDigest_of_eq_alarm:
  "CodeDigest_of_lock xs = CodeDigest_of_lock ys \<longleftrightarrow>
     CodeDigest_of xs = CodeDigest_of ys"
  by (cases "CodeDigest_of_lock ys"; cases "CodeDigest_of ys")
    (metis CodeDigest_of_alarm)

lemma ct_eq_digest_lock: "ct_eq_lock (CodeDigest_of_lock xs) (CodeDigest_of_lock ys) \<longleftrightarrow> CodeDigest_of_lock xs = CodeDigest_of_lock ys"
proof -
  obtain a b where ab: "CodeDigest_of_lock xs = CodeDigest_lock a" "CodeDigest_of_lock ys = CodeDigest_lock b"
    by (meson CodeDigest_lock.exhaust)
  then have "CodeDigest_of xs = CodeDigest a"
    "CodeDigest_of ys = CodeDigest b"
    by (simp_all add: CodeDigest_of_alarm)
  with ct_eq_digest [of xs ys] ab show ?thesis
    by (simp only: ct_eq_lock.simps ct_eq.simps CodeDigest_lock.inject
        CodeDigest.inject)
qed

section \<open>The credential is a keypad\<close>

definition matches_lock :: "CodeCredential_lock \<Rightarrow> LockCode \<Rightarrow> bool" where
  "matches_lock c k \<longleftrightarrow> ct_eq_lock (LockCode_digest k) (expected_lock c)"

lemma unat_failures_Suc_lock:
  "\<not> is_locked_out_lock c \<Longrightarrow> unat (saturating_add (failures_lock c) 1) = Suc (unat (failures_lock c))"
  using unat_lt_u32 [of "max_failures_lock c"]
  by (simp add: is_locked_out_lock_def unat_saturating_add word_le_nat_alt not_le)

interpretation lock_keypad: keypad verify_lock Accepted_lock is_locked_out_lock matches_lock
  "\<lambda>c. unat (failures_lock c)" "\<lambda>c. unat (max_failures_lock c)"
proof (unfold_locales, goal_cases)
  case (1 c) show ?case by (simp add: is_locked_out_lock_def word_le_nat_alt)
next
  case (2 c k) then show ?case by (simp add: verify_lock_def)
next
  case (3 c k) then show ?case by (simp add: verify_lock_def matches_lock_def)
next
  case (4 c k) then show ?case
    by (simp add: verify_lock_def matches_lock_def Let_def unat_failures_Suc_lock)
next
  case (5 c k) show ?case by (simp add: verify_lock_def matches_lock_def Let_def fun_eq_iff)
next
  case (6 c k) show ?case by (simp add: verify_lock_def Let_def)
qed

lemma matches_enroll_lock: "matches_lock (enroll_with_limit_lock code n) k \<longleftrightarrow>
    LockCode_digest k = LockCode_digest code"
  by (simp add: matches_lock_def enroll_with_limit_lock_def LockCode_digest_def ct_eq_digest_lock)

end
