(* ===== verification/Lock_Machine.thy ===== *)
theory Lock_Machine
  imports Lock_Code
begin

text \<open>
  The door lock: its states and commands (\<open>cave-home-lock/src/state.rs\<close>) and the state machine
  with its capability gate, keypad gate and jam handling (\<open>machine.rs\<close>). The keypad credential is
  an argument of \<open>Lock::apply_with_code\<close>, so a door is modelled as the pair of a lock and the
  credential its keypad uses.
\<close>

section \<open>States, commands and capabilities\<close>

datatype LockState = Locked | Unlocked | Locking | Unlocking | Jammed | Open | Unknown

fun is_transient_lock :: "LockState \<Rightarrow> bool" where
  "is_transient_lock Locking = True"
| "is_transient_lock Unlocking = True"
| "is_transient_lock _ = False"

definition is_secure :: "LockState \<Rightarrow> bool" where
  "is_secure s \<longleftrightarrow> s = Locked"

fun needs_attention :: "LockState \<Rightarrow> bool" where
  "needs_attention Jammed = True"
| "needs_attention Unknown = True"
| "needs_attention _ = False"

datatype LockCommand = LockCmd | UnlockCmd | OpenCmd

fun in_flight_state :: "LockCommand \<Rightarrow> LockState option" where
  "in_flight_state LockCmd = Some Locking"
| "in_flight_state UnlockCmd = Some Unlocking"
| "in_flight_state OpenCmd = None"

record LockFeatures =
  supports_open :: bool

definition deadbolt :: LockFeatures where
  "deadbolt = \<lparr>supports_open = False\<rparr>"

definition with_open :: LockFeatures where
  "with_open = \<lparr>supports_open = True\<rparr>"

datatype TransitionError = Unsupported | IllegalTransition_lock | CodeRejected_lock

section \<open>The machine\<close>

record Lock =
  lock_state :: LockState
  lock_features :: LockFeatures

definition Lock_new :: "LockFeatures \<Rightarrow> Lock" where
  "Lock_new features = \<lparr>lock_state = Unknown, lock_features = features\<rparr>"

definition Lock_with_state :: "LockFeatures \<Rightarrow> LockState \<Rightarrow> Lock" where
  "Lock_with_state features state = \<lparr>lock_state = state, lock_features = features\<rparr>"

definition is_legal :: "Lock \<Rightarrow> LockCommand \<Rightarrow> TransitionError + unit" where
  "is_legal l command =
     (if command = OpenCmd \<and> \<not> supports_open (lock_features l) then Inl Unsupported
      else if lock_state l = Jammed then Inl IllegalTransition_lock
      else (case (lock_state l, command) of
              (Locking, LockCmd) \<Rightarrow> Inl IllegalTransition_lock
            | (Unlocking, UnlockCmd) \<Rightarrow> Inl IllegalTransition_lock
            | _ \<Rightarrow> Inr ()))"

definition apply_lock :: "Lock \<Rightarrow> LockCommand \<Rightarrow> Lock \<times> (TransitionError + LockState)" where
  "apply_lock l command =
     (case is_legal l command of
        Inl e \<Rightarrow> (l, Inl e)
      | Inr _ \<Rightarrow>
          (let l' = l\<lparr>lock_state := (case in_flight_state command of Some s \<Rightarrow> s | None \<Rightarrow> Open)\<rparr>
           in (l', Inr (lock_state l'))))"

definition apply_with_code_lock ::
  "Lock \<Rightarrow> LockCommand \<Rightarrow> CodeCredential_lock \<Rightarrow> LockCode \<Rightarrow>
     (Lock \<times> CodeCredential_lock) \<times> (TransitionError + LockState)" where
  "apply_with_code_lock l command credential presented =
     (case is_legal l command of
        Inl e \<Rightarrow> ((l, credential), Inl e)
      | Inr _ \<Rightarrow>
          (case verify_lock credential presented of
             (credential', Accepted_lock) \<Rightarrow>
               (let (l', res) = apply_lock l command in ((l', credential'), res))
           | (credential', _) \<Rightarrow> ((l, credential'), Inl CodeRejected_lock)))"

definition confirm :: "Lock \<Rightarrow> Lock" where
  "confirm l =
     l\<lparr>lock_state := (case lock_state l of
         Locking \<Rightarrow> Locked | Unlocking \<Rightarrow> Unlocked | other \<Rightarrow> other)\<rparr>"

definition fail :: "Lock \<Rightarrow> Lock" where
  "fail l = l\<lparr>lock_state := Jammed\<rparr>"

definition clear_jam :: "Lock \<Rightarrow> LockState \<Rightarrow> Lock \<times> (TransitionError + unit)" where
  "clear_jam l observed =
     (if lock_state l \<noteq> Jammed then (l, Inl IllegalTransition_lock)
      else if is_transient_lock observed \<or> observed = Jammed then (l, Inl IllegalTransition_lock)
      else (l\<lparr>lock_state := observed\<rparr>, Inr ()))"

section \<open>Runs of a door\<close>

type_synonym door = "Lock \<times> CodeCredential_lock"

datatype lock_event =
    AppCommand LockCommand
  | KeypadCommand LockCommand LockCode
  | HwConfirm
  | HwFail
  | ClearJam LockState

fun door_step :: "door \<Rightarrow> lock_event \<Rightarrow> door" where
  "door_step (l, c) (AppCommand cmd) = (fst (apply_lock l cmd), c)"
| "door_step (l, c) (KeypadCommand cmd k) = fst (apply_with_code_lock l cmd c k)"
| "door_step (l, c) HwConfirm = (confirm l, c)"
| "door_step (l, c) HwFail = (fail l, c)"
| "door_step (l, c) (ClearJam observed) = (fst (clear_jam l observed), c)"

definition door_after :: "door \<Rightarrow> lock_event list \<Rightarrow> door" where
  "door_after d es = fold (\<lambda>e d. door_step d e) es d"

abbreviation door_state :: "door \<Rightarrow> LockState" where
  "door_state d \<equiv> lock_state (fst d)"

text \<open>A door to run: a keypad with the code 1234 on a lock of the given kind and state.\<close>

definition demo_door :: "LockFeatures \<Rightarrow> LockState \<Rightarrow> door" where
  "demo_door features s =
     (Lock_with_state features s, enroll_lock \<lparr>digits_lock = [49, 50, 51, 52]\<rparr>)"

section \<open>One step\<close>

lemma door_after_simps [simp]:
  "door_after d [] = d" "door_after d (es @ [e]) = door_step (door_after d es) e"
  by (simp_all add: door_after_def)

lemma is_legal_iff:
  "is_legal l c = Inr () \<longleftrightarrow> (c = OpenCmd \<longrightarrow> supports_open (lock_features l)) \<and>
     lock_state l \<noteq> Jammed \<and> (lock_state l, c) \<notin> {(Locking, LockCmd), (Unlocking, UnlockCmd)}"
  by (cases c; cases "lock_state l") (auto simp: is_legal_def)

lemma apply_lock_fst:
  "fst (apply_lock l c) = (if is_legal l c = Inr ()
     then l\<lparr>lock_state := (case c of LockCmd \<Rightarrow> Locking | UnlockCmd \<Rightarrow> Unlocking | OpenCmd \<Rightarrow> Open)\<rparr>
     else l)"
  by (cases c) (auto simp: apply_lock_def Let_def split: sum.splits)

lemma apply_lock_snd:
  "is_legal l c = Inr () \<Longrightarrow> snd (apply_lock l c) = Inr (lock_state (fst (apply_lock l c)))"
  by (simp add: apply_lock_def Let_def)

lemma apply_with_code_lock_fst:
  "fst (apply_with_code_lock l c cr k) =
     (if is_legal l c \<noteq> Inr () then (l, cr)
      else (if snd (verify_lock cr k) = Accepted_lock then fst (apply_lock l c) else l,
            fst (verify_lock cr k)))"
  by (auto simp: apply_with_code_lock_def case_prod_unfold Let_def
      split: sum.splits CodeVerdict_lock.splits)

lemma door_step_state:
  "door_state (door_step d e) =
     (case e of
        AppCommand c \<Rightarrow> lock_state (fst (apply_lock (fst d) c))
      | KeypadCommand c k \<Rightarrow>
          (if snd (verify_lock (snd d) k) = Accepted_lock
           then lock_state (fst (apply_lock (fst d) c)) else door_state d)
      | HwConfirm \<Rightarrow> lock_state (confirm (fst d))
      | HwFail \<Rightarrow> Jammed
      | ClearJam s \<Rightarrow> lock_state (fst (clear_jam (fst d) s)))"
  by (cases d; cases e) (auto simp: apply_with_code_lock_fst apply_lock_fst fail_def)

lemma door_step_features: "lock_features (fst (door_step d e)) = lock_features (fst d)"
  by (cases d; cases e)
    (auto simp: apply_with_code_lock_fst apply_lock_fst fail_def confirm_def clear_jam_def)

lemma door_after_features: "lock_features (fst (door_after d es)) = lock_features (fst d)"
  by (induction es rule: rev_induct) (simp_all add: door_step_features)

text \<open>What brings a door into the states that matter.\<close>

lemma step_to_Locked:
  assumes "door_state (door_step d e) = Locked"
  shows "door_state d = Locked \<or> (e = HwConfirm \<and> door_state d = Locking) \<or>
    (e = ClearJam Locked \<and> door_state d = Jammed)"
  using assms
  by (auto simp: door_step_state apply_lock_fst confirm_def clear_jam_def
      split: lock_event.splits if_splits LockCommand.splits LockState.splits)

lemma step_to_Open:
  assumes "door_state (door_step d e) = Open"
  shows "door_state d = Open \<or> supports_open (lock_features (fst d)) \<or>
    (e = ClearJam Open \<and> door_state d = Jammed)"
  using assms
  by (auto simp: door_step_state apply_lock_fst is_legal_iff confirm_def clear_jam_def
      split: lock_event.splits if_splits LockCommand.splits LockState.splits)

lemma step_from_Jammed:
  assumes "door_state d = Jammed"
  shows "door_state (door_step d e) = Jammed \<or>
    (\<exists>s. e = ClearJam s \<and> door_state (door_step d e) = s \<and> \<not> is_transient_lock s \<and> s \<noteq> Jammed)"
  using assms
  by (auto simp: door_step_state apply_lock_fst is_legal_iff confirm_def clear_jam_def
      split: lock_event.splits)

lemma run_to_Locked:
  assumes "door_state (door_after d es) = Locked" and "door_state d \<noteq> Locked"
  shows "\<exists>es1 e es2. es = es1 @ e # es2 \<and>
    (e = HwConfirm \<and> door_state (door_after d es1) = Locking \<or>
     e = ClearJam Locked \<and> door_state (door_after d es1) = Jammed) \<and>
    (\<forall>n. door_state (door_after d (es1 @ e # take n es2)) = Locked)"
  using assms
proof (induction es rule: rev_induct)
  case (snoc e es)
  then have now: "door_state (door_step (door_after d es) e) = Locked" by simp
  show ?case
  proof (cases "door_state (door_after d es) = Locked")
    case True
    with snoc obtain es1 e1 es2 where split: "es = es1 @ e1 # es2"
      and entry: "e1 = HwConfirm \<and> door_state (door_after d es1) = Locking \<or>
        e1 = ClearJam Locked \<and> door_state (door_after d es1) = Jammed"
      and stays: "\<And>n. door_state (door_after d (es1 @ e1 # take n es2)) = Locked"
      by blast
    have "door_state (door_after d (es1 @ e1 # take n (es2 @ [e]))) = Locked" for n
    proof (cases "n \<le> length es2")
      case True
      with stays [of n] show ?thesis by simp
    next
      case False
      then have "es1 @ e1 # take n (es2 @ [e]) = es @ [e]" using split by simp
      then show ?thesis by (metis door_after_simps(2) now)
    qed
    with split entry show ?thesis
      by (intro exI [of _ es1] exI [of _ e1] exI [of _ "es2 @ [e]"]) simp
  next
    case False
    with step_to_Locked [OF now] show ?thesis
      using now by (intro exI [of _ es] exI [of _ e] exI [of _ "[]"]) simp
  qed
qed simp

section \<open>Properties of the door lock\<close>

text \<open>
  C5. A door is reported secure only for a reason: if it was not locked at the start of a run and is
  locked at the end, then either the hardware confirmed a lock move that was in flight, or a
  person cleared a jam and reported the bolt thrown, and from that moment to the end the door was
  locked throughout.
\<close>

theorem secure_is_earned:
  assumes "is_secure (door_state (door_after d es))" and "\<not> is_secure (door_state d)"
  shows "\<exists>es1 e es2. es = es1 @ e # es2 \<and>
    (e = HwConfirm \<and> door_state (door_after d es1) = Locking \<or>
     e = ClearJam Locked \<and> door_state (door_after d es1) = Jammed) \<and>
    (\<forall>n. is_secure (door_state (door_after d (es1 @ e # take n es2))))"
  using run_to_Locked assms by (simp add: is_secure_def)

theorem secure_is_earned_witness:
  "\<exists>es1 e es2. [AppCommand LockCmd, HwConfirm] = es1 @ e # es2 \<and>
    (e = HwConfirm \<and> door_state (door_after (demo_door deadbolt Unknown) es1) = Locking \<or>
     e = ClearJam Locked \<and> door_state (door_after (demo_door deadbolt Unknown) es1) = Jammed) \<and>
    (\<forall>n. is_secure (door_state (door_after (demo_door deadbolt Unknown) (es1 @ e # take n es2))))"
  by (rule secure_is_earned)
    (simp_all add: door_after_def demo_door_def Lock_with_state_def apply_lock_def is_legal_def confirm_def is_secure_def)

text \<open>
  A jam is cleared by a person and by nothing else: whatever commands, right codes, confirmations
  and failures arrive, a jammed lock that is no longer jammed was given an observed state through
  \<open>clear_jam\<close>, and took exactly that settled state.
\<close>

theorem jam_cleared_only_by_hand:
  assumes "door_state d = Jammed" and "door_state (door_after d es) \<noteq> Jammed"
  shows "\<exists>es1 s es2. es = es1 @ ClearJam s # es2 \<and> door_state (door_after d es1) = Jammed \<and>
    door_state (door_after d (es1 @ [ClearJam s])) = s \<and> \<not> is_transient_lock s"
  using assms
proof (induction es rule: rev_induct)
  case (snoc e es)
  show ?case
  proof (cases "door_state (door_after d es) = Jammed")
    case True
    with step_from_Jammed [OF True, of e] snoc.prems obtain s where
      "e = ClearJam s" "door_state (door_step (door_after d es) e) = s" "\<not> is_transient_lock s"
      by auto
    with True show ?thesis by auto
  next
    case False
    with snoc obtain es1 s es2 where "es = es1 @ ClearJam s # es2"
      "door_state (door_after d es1) = Jammed"
      "door_state (door_after d (es1 @ [ClearJam s])) = s" "\<not> is_transient_lock s" by blast
    then show ?thesis by (intro exI [of _ es1] exI [of _ s] exI [of _ "es2 @ [e]"]) simp
  qed
qed simp

theorem jam_cleared_only_by_hand_witness:
  "\<exists>es1 s es2. [HwConfirm, ClearJam Unlocked] = es1 @ ClearJam s # es2 \<and>
    door_state (door_after (demo_door with_open Jammed) es1) = Jammed \<and>
    door_state (door_after (demo_door with_open Jammed) (es1 @ [ClearJam s])) = s \<and>
    \<not> is_transient_lock s"
  by (rule jam_cleared_only_by_hand)
    (simp_all add: door_after_def demo_door_def Lock_with_state_def confirm_def clear_jam_def)

text \<open>
  The keypad gate: a command the lock would refuse anyway costs no attempt and changes nothing;
  a refused code leaves the lock alone and counts one failure unless the keypad is already locked
  out; the right code clears the counter and starts the move the command asks for.
\<close>

theorem keypad_gate:
  "case apply_with_code_lock l cmd cr k of ((l', cr'), res) \<Rightarrow>
     if is_legal l cmd \<noteq> Inr () then l' = l \<and> cr' = cr \<and> is_legal l cmd = map_sum id (\<lambda>_. ()) res
     else if \<not> is_locked_out_lock cr \<and> matches_lock cr k
     then failures_lock cr' = 0 \<and> matches_lock cr' = matches_lock cr \<and> res = Inr (lock_state l') \<and>
       lock_state l' = (case cmd of LockCmd \<Rightarrow> Locking | UnlockCmd \<Rightarrow> Unlocking | OpenCmd \<Rightarrow> Open)
     else l' = l \<and> res = Inl CodeRejected_lock \<and> matches_lock cr' = matches_lock cr \<and>
       unat (failures_lock cr') =
         unat (failures_lock cr) + (if is_locked_out_lock cr then 0 else 1)"
proof (cases "is_legal l cmd")
  case (Inl e)
  then show ?thesis by (simp add: apply_with_code_lock_def)
next
  case (Inr u)
  then have legal: "is_legal l cmd = Inr ()" by simp
  show ?thesis
  proof (cases "is_locked_out_lock cr \<or> \<not> matches_lock cr k")
    case True
    with lock_keypad.accepted_iff [of cr k] lock_keypad.verify_wrong [of cr k]
      lock_keypad.verify_locked [of cr k] lock_keypad.holds_verify [of cr k]
    show ?thesis
      using legal by (cases "verify_lock cr k"; cases "snd (verify_lock cr k)")
        (auto simp: apply_with_code_lock_def)
  next
    case False
    with lock_keypad.verify_right [of cr k] lock_keypad.accepted_iff [of cr k]
      lock_keypad.holds_verify [of cr k] legal
    show ?thesis
      by (cases "verify_lock cr k"; cases cmd)
        (auto simp: apply_with_code_lock_def apply_lock_def Let_def unat_0_iff)
  qed
qed

text \<open>
  A lock without the latch capability never retracts its latch on command: it is open at the end
  of a run only if it was open from the start or a person cleared a jam and reported it open.
\<close>

theorem open_needs_capability:
  assumes "\<not> supports_open (lock_features (fst d))" and "door_state d \<noteq> Open"
    and "ClearJam Open \<notin> set es"
  shows "door_state (door_after d es) \<noteq> Open"
  using assms(3)
proof (induction es rule: rev_induct)
  case (snoc e es)
  with step_to_Open [of "door_after d es" e] assms(1) show ?case
    by (auto simp: door_after_features)
qed (simp add: assms(2))

theorem open_needs_capability_witness:
  "door_state (door_after (demo_door deadbolt Unknown) [AppCommand OpenCmd]) \<noteq> Open"
  by (rule open_needs_capability) (simp_all add: demo_door_def Lock_with_state_def deadbolt_def)

text \<open>
  A plain deadbolt can all the same end up \<open>Open\<close>: \<open>clear_jam\<close> takes the observed state without
  looking at the lock's capabilities.
\<close>

theorem deadbolt_reaches_open:
  "door_state (door_after (Lock_new deadbolt, c) [HwFail, ClearJam Open]) = Open"
  by (simp add: door_after_def fail_def clear_jam_def)

end
