(* ===== verification/Alarm_Panel.thy ===== *)
theory Alarm_Panel
  imports Alarm_Code
begin

text \<open>
  The alarm control panel: its states and commands (\<open>cave-home-alarm/src/state.rs\<close>), its
  validated configuration (\<open>config.rs\<close>) and the state machine (\<open>machine.rs\<close>). A method that
  takes \<open>&mut self\<close> returns the new panel beside its result. The machine is closed into a step
  function over the four ways the outside world can reach a panel, and an inductive relation of its
  runs carries the invariants.
\<close>

section \<open>States and commands\<close>

datatype AlarmState =
    Disarmed | ArmedHome | ArmedAway | ArmedNight | ArmedVacation | ArmedCustomBypass
  | Arming | Pending | Triggered

fun is_armed :: "AlarmState \<Rightarrow> bool" where
  "is_armed ArmedHome = True"
| "is_armed ArmedAway = True"
| "is_armed ArmedNight = True"
| "is_armed ArmedVacation = True"
| "is_armed ArmedCustomBypass = True"
| "is_armed _ = False"

fun is_transient :: "AlarmState \<Rightarrow> bool" where
  "is_transient Arming = True"
| "is_transient Pending = True"
| "is_transient _ = False"

fun is_triggered :: "AlarmState \<Rightarrow> bool" where
  "is_triggered Triggered = True"
| "is_triggered _ = False"

datatype AlarmCommand = Disarm | ArmHome | ArmAway | ArmNight | ArmVacation | Trigger

fun target_armed_state :: "AlarmCommand \<Rightarrow> AlarmState option" where
  "target_armed_state ArmHome = Some ArmedHome"
| "target_armed_state ArmAway = Some ArmedAway"
| "target_armed_state ArmNight = Some ArmedNight"
| "target_armed_state ArmVacation = Some ArmedVacation"
| "target_armed_state Disarm = None"
| "target_armed_state Trigger = None"

definition is_arm :: "AlarmCommand \<Rightarrow> bool" where
  "is_arm c \<longleftrightarrow> target_armed_state c \<noteq> None"

section \<open>Configuration\<close>

type_synonym Seconds = u32

datatype ConfigError = ZeroTriggerTime | DelayTooLong

record PanelConfig =
  exit_delay :: Seconds
  entry_delay :: Seconds
  trigger_time :: Seconds
  arm_requires_code :: bool
  home_instant :: bool
  night_instant :: bool
  stay_triggered :: bool

definition MAX_DELAY :: Seconds where
  "MAX_DELAY = 3600"

definition PanelConfig_new ::
  "Seconds \<Rightarrow> Seconds \<Rightarrow> Seconds \<Rightarrow> bool \<Rightarrow> bool \<Rightarrow> bool \<Rightarrow> bool \<Rightarrow> ConfigError + PanelConfig" where
  "PanelConfig_new ex en tr arm home night stay =
     (if tr = 0 then Inl ZeroTriggerTime
      else if ex > MAX_DELAY \<or> en > MAX_DELAY \<or> tr > MAX_DELAY then Inl DelayTooLong
      else Inr \<lparr>exit_delay = ex, entry_delay = en, trigger_time = tr, arm_requires_code = arm,
                home_instant = home, night_instant = night, stay_triggered = stay\<rparr>)"

definition residential_default :: PanelConfig where
  "residential_default =
     (case PanelConfig_new 60 30 240 True False False False of
        Inr c \<Rightarrow> c
      | Inl _ \<Rightarrow> \<lparr>exit_delay = 0, entry_delay = 0, trigger_time = 1, arm_requires_code = True,
                  home_instant = True, night_instant = True, stay_triggered = True\<rparr>)"

definition is_instant_for :: "PanelConfig \<Rightarrow> bool \<Rightarrow> bool \<Rightarrow> bool" where
  "is_instant_for c instant_home instant_night \<longleftrightarrow>
     (instant_home \<and> home_instant c) \<or> (instant_night \<and> night_instant c)"

section \<open>The machine\<close>

datatype AlarmError = IllegalTransition | CodeRejected

datatype Zone = Perimeter | Interior

record AlarmPanel =
  panel_state :: AlarmState
  panel_config :: PanelConfig
  panel_code :: CodeCredential
  elapsed :: Seconds
  pending_arm :: "AlarmState option"
  prior_armed :: "AlarmState option"

definition AlarmPanel_new :: "PanelConfig \<Rightarrow> CodeCredential \<Rightarrow> AlarmPanel" where
  "AlarmPanel_new config code =
     \<lparr>panel_state = Disarmed, panel_config = config, panel_code = code, elapsed = 0,
      pending_arm = None, prior_armed = None\<rparr>"

definition panel_is_locked_out :: "AlarmPanel \<Rightarrow> bool" where
  "panel_is_locked_out p = is_locked_out (panel_code p)"

definition command_requires_code :: "AlarmPanel \<Rightarrow> AlarmCommand \<Rightarrow> bool" where
  "command_requires_code p command =
     (case command of Disarm \<Rightarrow> True | Trigger \<Rightarrow> False
      | _ \<Rightarrow> arm_requires_code (panel_config p))"

definition check_legal :: "AlarmPanel \<Rightarrow> AlarmCommand \<Rightarrow> AlarmError + unit" where
  "check_legal p command =
     (case command of
        Disarm \<Rightarrow> (if panel_state p = Disarmed then Inl IllegalTransition else Inr ())
      | Trigger \<Rightarrow> (if panel_state p = Triggered then Inl IllegalTransition else Inr ())
      | _ \<Rightarrow>
          (let target = target_armed_state command in
           if panel_state p = Pending \<or> panel_state p = Triggered then Inl IllegalTransition
           else if is_armed (panel_state p) \<and>
               panel_state p = (case target of Some t \<Rightarrow> t | None \<Rightarrow> panel_state p)
             then Inl IllegalTransition
           else Inr ()))"

definition apply_validated ::
  "AlarmPanel \<Rightarrow> AlarmCommand \<Rightarrow> AlarmPanel \<times> (AlarmError + AlarmState)" where
  "apply_validated p command =
     (case check_legal p command of
        Inl e \<Rightarrow> (p, Inl e)
      | Inr _ \<Rightarrow>
          (let p' =
             (case command of
                Disarm \<Rightarrow>
                  p\<lparr>panel_state := Disarmed, elapsed := 0, pending_arm := None,
                    prior_armed := None, panel_code := reset (panel_code p)\<rparr>
              | Trigger \<Rightarrow>
                  (let p1 = (if is_armed (panel_state p)
                             then p\<lparr>prior_armed := Some (panel_state p)\<rparr> else p)
                   in p1\<lparr>panel_state := Triggered, elapsed := 0\<rparr>)
              | _ \<Rightarrow>
                  (let target = (case target_armed_state command of
                                   Some t \<Rightarrow> t | None \<Rightarrow> ArmedAway);
                       p1 = p\<lparr>pending_arm := Some target, elapsed := 0\<rparr>
                   in if exit_delay (panel_config p) = 0
                      then p1\<lparr>panel_state := target, pending_arm := None\<rparr>
                      else p1\<lparr>panel_state := Arming\<rparr>))
           in (p', Inr (panel_state p'))))"

definition apply_panel ::
  "AlarmPanel \<Rightarrow> AlarmCommand \<Rightarrow> AlarmPanel \<times> (AlarmError + AlarmState)" where
  "apply_panel p command =
     (if command_requires_code p command then (p, Inl CodeRejected)
      else apply_validated p command)"

definition apply_with_code ::
  "AlarmPanel \<Rightarrow> AlarmCommand \<Rightarrow> UserCode \<Rightarrow> AlarmPanel \<times> (AlarmError + AlarmState)" where
  "apply_with_code p command presented =
     (case check_legal p command of
        Inl e \<Rightarrow> (p, Inl e)
      | Inr _ \<Rightarrow>
          (let (c', verdict) = verify (panel_code p) presented; p' = p\<lparr>panel_code := c'\<rparr> in
           case verdict of
             Accepted \<Rightarrow> apply_validated p' command
           | Rejected \<Rightarrow> (p', Inl CodeRejected)
           | LockedOut \<Rightarrow> (p', Inl CodeRejected)))"

definition zone_is_instant :: "AlarmPanel \<Rightarrow> AlarmState \<Rightarrow> Zone \<Rightarrow> bool" where
  "zone_is_instant p armed zone =
     (let instant_home = (armed = ArmedHome \<and> home_instant (panel_config p));
          instant_night = (armed = ArmedNight \<and> night_instant (panel_config p))
      in instant_home \<or> instant_night)"

definition sensor_trip :: "AlarmPanel \<Rightarrow> Zone \<Rightarrow> AlarmPanel \<times> AlarmState" where
  "sensor_trip p zone =
     (if \<not> is_armed (panel_state p) then (p, panel_state p)
      else
        (let armed = panel_state p; instant = zone_is_instant p armed zone in
         if zone = Interior \<and> armed = ArmedHome \<and> \<not> instant then (p, panel_state p)
         else
           (let p1 = p\<lparr>prior_armed := Some armed, elapsed := 0\<rparr>;
                p2 = (if instant \<or> entry_delay (panel_config p) = 0
                      then p1\<lparr>panel_state := Triggered\<rparr>
                      else p1\<lparr>panel_state := Pending\<rparr>)
            in (p2, panel_state p2))))"

definition tick :: "AlarmPanel \<Rightarrow> Seconds \<Rightarrow> AlarmPanel \<times> AlarmState" where
  "tick p secs =
     (if \<not> is_transient (panel_state p) \<and> \<not> is_triggered (panel_state p) then (p, panel_state p)
      else
        (let p1 = p\<lparr>elapsed := saturating_add (elapsed p) secs\<rparr>;
             p2 =
               (case panel_state p1 of
                  Arming \<Rightarrow>
                    (if elapsed p1 \<ge> exit_delay (panel_config p1)
                     then p1\<lparr>panel_state := (case pending_arm p1 of Some s \<Rightarrow> s | None \<Rightarrow> ArmedAway),
                             pending_arm := None, elapsed := 0\<rparr>
                     else p1)
                | Pending \<Rightarrow>
                    (if elapsed p1 \<ge> entry_delay (panel_config p1)
                     then p1\<lparr>panel_state := Triggered, elapsed := 0\<rparr>
                     else p1)
                | Triggered \<Rightarrow>
                    (if elapsed p1 \<ge> trigger_time (panel_config p1)
                     then (case (stay_triggered (panel_config p1), prior_armed p1) of
                             (False, Some prior) \<Rightarrow>
                               p1\<lparr>panel_state := prior, prior_armed := None, elapsed := 0\<rparr>
                           | _ \<Rightarrow> p1)
                     else p1)
                | _ \<Rightarrow> p1)
         in (p2, panel_state p2)))"

section \<open>Runs of a panel\<close>

text \<open>What can happen to a panel: the public methods that take \<open>&mut self\<close>.\<close>

datatype panel_event =
    Command AlarmCommand
  | CodedCommand AlarmCommand UserCode
  | SensorTrip Zone
  | Tick Seconds

fun panel_step :: "AlarmPanel \<Rightarrow> panel_event \<Rightarrow> AlarmPanel" where
  "panel_step p (Command c) = fst (apply_panel p c)"
| "panel_step p (CodedCommand c k) = fst (apply_with_code p c k)"
| "panel_step p (SensorTrip z) = fst (sensor_trip p z)"
| "panel_step p (Tick t) = fst (tick p t)"

inductive panel_run :: "AlarmPanel \<Rightarrow> panel_event list \<Rightarrow> AlarmPanel \<Rightarrow> bool" where
  run_nil: "panel_run p [] p"
| run_snoc: "panel_run p es q \<Longrightarrow> panel_run p (es @ [e]) (panel_step q e)"

inductive_cases panel_run_nilE: "panel_run p [] q"

definition ticks :: "AlarmPanel \<Rightarrow> Seconds list \<Rightarrow> AlarmPanel" where
  "ticks p ts = fold (\<lambda>t q. fst (tick q t)) ts p"

section \<open>Well-formed panels\<close>

definition config_ok :: "PanelConfig \<Rightarrow> bool" where
  "config_ok c \<longleftrightarrow> trigger_time c \<noteq> 0 \<and> exit_delay c \<le> MAX_DELAY \<and> entry_delay c \<le> MAX_DELAY \<and>
     trigger_time c \<le> MAX_DELAY"

definition panel_inv :: "AlarmPanel \<Rightarrow> bool" where
  "panel_inv p \<longleftrightarrow>
     config_ok (panel_config p) \<and>
     (case panel_state p of
        Arming \<Rightarrow> (\<exists>s. pending_arm p = Some s \<and> is_armed s) \<and> prior_armed p = None \<and>
          elapsed p < exit_delay (panel_config p)
      | Pending \<Rightarrow> (\<exists>s. prior_armed p = Some s \<and> is_armed s) \<and> pending_arm p = None \<and>
          elapsed p < entry_delay (panel_config p)
      | Triggered \<Rightarrow> (\<forall>s. prior_armed p = Some s \<longrightarrow> is_armed s \<and> pending_arm p = None)
      | _ \<Rightarrow> pending_arm p = None \<and> prior_armed p = None \<and> elapsed p = 0)"

lemma PanelConfig_new_Inr:
  "PanelConfig_new ex en tr arm home night stay = Inr c \<longleftrightarrow>
     config_ok c \<and> c = \<lparr>exit_delay = ex, entry_delay = en, trigger_time = tr,
       arm_requires_code = arm, home_instant = home, night_instant = night, stay_triggered = stay\<rparr>"
  by (auto simp: PanelConfig_new_def config_ok_def not_less)

lemma is_armed_cases:
  assumes "is_armed s"
  obtains "s = ArmedHome" | "s = ArmedAway" | "s = ArmedNight" | "s = ArmedVacation"
    | "s = ArmedCustomBypass"
  using assms by (cases s) auto

lemma panel_inv_settled:
  "is_armed (panel_state p) \<or> panel_state p = Disarmed \<Longrightarrow> panel_inv p \<longleftrightarrow>
     config_ok (panel_config p) \<and> pending_arm p = None \<and> prior_armed p = None \<and> elapsed p = 0"
  by (auto simp: panel_inv_def elim!: is_armed_cases)

lemma panel_inv_Arming:
  "panel_state p = Arming \<Longrightarrow> panel_inv p \<longleftrightarrow>
     config_ok (panel_config p) \<and> (\<exists>s. pending_arm p = Some s \<and> is_armed s) \<and>
     prior_armed p = None \<and> elapsed p < exit_delay (panel_config p)"
  by (simp add: panel_inv_def)

lemma panel_inv_Pending:
  "panel_state p = Pending \<Longrightarrow> panel_inv p \<longleftrightarrow>
     config_ok (panel_config p) \<and> (\<exists>s. prior_armed p = Some s \<and> is_armed s) \<and>
     pending_arm p = None \<and> elapsed p < entry_delay (panel_config p)"
  by (simp add: panel_inv_def)

lemma panel_inv_Triggered:
  "panel_state p = Triggered \<Longrightarrow> panel_inv p \<longleftrightarrow>
     config_ok (panel_config p) \<and>
     (\<forall>s. prior_armed p = Some s \<longrightarrow> is_armed s \<and> pending_arm p = None)"
  by (simp add: panel_inv_def)

lemmas panel_inv_state = panel_inv_settled panel_inv_Arming panel_inv_Pending panel_inv_Triggered

lemma panel_inv_config: "panel_inv p \<Longrightarrow> config_ok (panel_config p)"
  by (simp add: panel_inv_def)

lemma target_is_armed: "target_armed_state c = Some s \<Longrightarrow> is_armed s"
  by (cases c) auto

lemma panel_inv_code [simp]: "panel_inv (p\<lparr>panel_code := c\<rparr>) \<longleftrightarrow> panel_inv p"
  by (cases "panel_state p") (simp_all add: panel_inv_def)

end
