(* ===== verification/Alarm_Safety.thy ===== *)
theory Alarm_Safety
  imports Alarm_Panel
begin

text \<open>
  What the alarm panel guarantees: the invariant of every reachable panel, the code gate on
  disarming, the timing of the entry delay and the siren, and the keypad lock-out.
\<close>

section \<open>One operation at a time\<close>

lemma tick_pending:
  "panel_state p = Pending \<Longrightarrow> fst (tick p t) =
     (if saturating_add (elapsed p) t \<ge> entry_delay (panel_config p)
      then p\<lparr>panel_state := Triggered, elapsed := 0\<rparr>
      else p\<lparr>elapsed := saturating_add (elapsed p) t\<rparr>)"
  by (simp add: tick_def Let_def)

lemma tick_arming:
  "panel_state p = Arming \<Longrightarrow> fst (tick p t) =
     (if saturating_add (elapsed p) t \<ge> exit_delay (panel_config p)
      then p\<lparr>panel_state := (case pending_arm p of Some s \<Rightarrow> s | None \<Rightarrow> ArmedAway),
             pending_arm := None, elapsed := 0\<rparr>
      else p\<lparr>elapsed := saturating_add (elapsed p) t\<rparr>)"
  by (simp add: tick_def Let_def)

lemma tick_triggered:
  "panel_state p = Triggered \<Longrightarrow> fst (tick p t) =
     (if saturating_add (elapsed p) t \<ge> trigger_time (panel_config p) \<and>
         \<not> stay_triggered (panel_config p) \<and> prior_armed p \<noteq> None
      then p\<lparr>panel_state := the (prior_armed p), prior_armed := None, elapsed := 0\<rparr>
      else p\<lparr>elapsed := saturating_add (elapsed p) t\<rparr>)"
  by (auto simp: tick_def Let_def split: option.splits bool.splits)

lemma tick_settled:
  "is_armed (panel_state p) \<or> panel_state p = Disarmed \<Longrightarrow> tick p t = (p, panel_state p)"
  by (auto simp: tick_def elim!: is_armed_cases)

lemmas tick_cases = tick_pending tick_arming tick_triggered tick_settled

lemma apply_validated_Disarm:
  "fst (apply_validated p Disarm) =
     (if panel_state p = Disarmed then p
      else p\<lparr>panel_state := Disarmed, elapsed := 0, pending_arm := None, prior_armed := None,
             panel_code := reset (panel_code p)\<rparr>)"
  by (simp add: apply_validated_def check_legal_def)

lemma apply_validated_Trigger:
  "fst (apply_validated p Trigger) =
     (if panel_state p = Triggered then p
      else p\<lparr>prior_armed := (if is_armed (panel_state p) then Some (panel_state p)
                              else prior_armed p),
             panel_state := Triggered, elapsed := 0\<rparr>)"
  by (simp add: apply_validated_def check_legal_def Let_def)

text \<open>A legal arm command: at once without an exit delay, through \<open>Arming\<close> with one.\<close>

lemma apply_validated_arm:
  assumes "target_armed_state c = Some s"
  shows "fst (apply_validated p c) =
    (if check_legal p c \<noteq> Inr () then p
     else if exit_delay (panel_config p) = 0
     then p\<lparr>panel_state := s, pending_arm := None, elapsed := 0\<rparr>
     else p\<lparr>panel_state := Arming, pending_arm := Some s, elapsed := 0\<rparr>)"
  using assms by (cases c; cases "check_legal p c") (auto simp: apply_validated_def Let_def)

lemma command_cases:
  obtains (disarm) "c = Disarm" | (trigger) "c = Trigger" | (arm) s where "target_armed_state c = Some s"
  by (cases c) auto

lemma check_legal_arm:
  "target_armed_state c = Some s \<Longrightarrow> check_legal p c = Inr () \<longleftrightarrow>
     panel_state p \<noteq> Pending \<and> panel_state p \<noteq> Triggered \<and> panel_state p \<noteq> s"
  by (cases c; cases "panel_state p") (auto simp: check_legal_def)

lemma apply_with_code_fst:
  "fst (apply_with_code p c k) =
     (if check_legal p c \<noteq> Inr () then p
      else if snd (verify (panel_code p) k) = Accepted
      then fst (apply_validated (p\<lparr>panel_code := fst (verify (panel_code p) k)\<rparr>) c)
      else p\<lparr>panel_code := fst (verify (panel_code p) k)\<rparr>)"
  by (auto simp: apply_with_code_def case_prod_unfold Let_def split: sum.splits CodeVerdict.splits)

lemma sensor_trip_fst:
  "fst (sensor_trip p z) =
     (if \<not> is_armed (panel_state p) \<or>
         z = Interior \<and> panel_state p = ArmedHome \<and> \<not> zone_is_instant p ArmedHome z then p
      else p\<lparr>prior_armed := Some (panel_state p), elapsed := 0,
             panel_state := (if zone_is_instant p (panel_state p) z \<or>
                               entry_delay (panel_config p) = 0 then Triggered else Pending)\<rparr>)"
  by (auto simp: sensor_trip_def Let_def)

section \<open>The invariant\<close>

lemma panel_inv_apply_validated [inv_intros]:
  assumes "panel_inv p"
  shows "panel_inv (fst (apply_validated p c))"
proof (cases c rule: command_cases)
  case disarm
  with assms panel_inv_config [OF assms] show ?thesis
    by (auto simp: apply_validated_Disarm panel_inv_settled)
next
  case trigger
  with assms panel_inv_config [OF assms] show ?thesis
    by (cases "panel_state p") (auto simp: apply_validated_Trigger panel_inv_state)
next
  case (arm s)
  show ?thesis
  proof (cases "check_legal p c = Inr ()")
    case True
    with check_legal_arm [OF arm] have "panel_state p \<noteq> Pending" "panel_state p \<noteq> Triggered"
      by auto
    with assms have "config_ok (panel_config p)" "prior_armed p = None"
      by (cases "panel_state p"; simp add: panel_inv_state)+
    then show ?thesis
      using True target_is_armed [OF arm]
      by (auto simp: apply_validated_arm [OF arm] panel_inv_state word_neq_0_conv)
  next
    case False
    then show ?thesis using assms by (simp add: apply_validated_arm [OF arm])
  qed
qed

lemma panel_inv_apply_panel [inv_intros]: "panel_inv p \<Longrightarrow> panel_inv (fst (apply_panel p c))"
  by (simp add: apply_panel_def panel_inv_apply_validated)

lemma panel_inv_apply_with_code [inv_intros]:
  "panel_inv p \<Longrightarrow> panel_inv (fst (apply_with_code p c k))"
  by (simp add: apply_with_code_fst panel_inv_apply_validated)

lemma panel_inv_sensor_trip [inv_intros]: "panel_inv p \<Longrightarrow> panel_inv (fst (sensor_trip p z))"
  by (auto simp: sensor_trip_fst panel_inv_state word_neq_0_conv)

lemma panel_inv_tick [inv_intros]: "panel_inv p \<Longrightarrow> panel_inv (fst (tick p t))"
  by (cases "panel_state p") (auto simp: tick_cases panel_inv_state not_le)

lemma panel_inv_step [inv_intros]: "panel_inv p \<Longrightarrow> panel_inv (panel_step p e)"
  by (cases e) (simp_all add: inv_intros)

lemma panel_inv_new: "config_ok c \<Longrightarrow> panel_inv (AlarmPanel_new c k)"
  by (simp add: AlarmPanel_new_def panel_inv_settled)

lemma panel_inv_run: "panel_run p es q \<Longrightarrow> panel_inv p \<Longrightarrow> panel_inv q"
  by (induction rule: panel_run.induct) (auto intro: inv_intros)

section \<open>What a step leaves alone\<close>

lemma step_config [frame_simps]: "panel_config (panel_step p e) = panel_config p"
proof -
  have av: "panel_config (fst (apply_validated q c)) = panel_config q" for q c
    by (cases c rule: command_cases)
      (auto simp: apply_validated_Disarm apply_validated_Trigger apply_validated_arm)
  show ?thesis
    by (cases e; cases "panel_state p")
      (auto simp: apply_panel_def apply_with_code_fst sensor_trip_fst tick_cases av)
qed

lemma apply_validated_code:
  "panel_code (fst (apply_validated p c)) =
     (if c = Disarm \<and> panel_state p \<noteq> Disarmed then reset (panel_code p) else panel_code p)"
  by (cases c rule: command_cases)
    (auto simp: apply_validated_Disarm apply_validated_Trigger apply_validated_arm)

lemma step_code:
  "panel_code (panel_step p e) = panel_code p \<or>
   (\<exists>c k. e = CodedCommand c k \<and> check_legal p c = Inr () \<and>
      (panel_code (panel_step p e) = fst (verify (panel_code p) k) \<or>
       c = Disarm \<and> snd (verify (panel_code p) k) = Accepted \<and>
       panel_code (panel_step p e) = reset (fst (verify (panel_code p) k))))"
proof (cases e)
  case (Command c)
  then show ?thesis
    by (auto simp: apply_panel_def apply_validated_code command_requires_code_def)
next
  case (CodedCommand c k)
  then show ?thesis by (auto simp: apply_with_code_fst apply_validated_code)
next
  case (SensorTrip z)
  then show ?thesis by (simp add: sensor_trip_fst)
next
  case (Tick t)
  then show ?thesis by (cases "panel_state p") (auto simp: tick_cases)
qed

lemma matches_reset [simp]: "matches (reset c) = matches c"
  by (simp add: reset_def matches_def fun_eq_iff)

lemma step_matches [frame_simps]: "matches (panel_code (panel_step p e)) = matches (panel_code p)"
  using step_code [of p e] by (auto simp: alarm_keypad.holds_verify)

lemma run_matches: "panel_run p es q \<Longrightarrow> matches (panel_code q) = matches (panel_code p)"
  by (induction rule: panel_run.induct) (simp_all add: step_matches)

lemma check_legal_code: "check_legal (p\<lparr>panel_code := k\<rparr>) c = check_legal p c"
  by (cases c) (simp_all add: check_legal_def)

lemma apply_validated_result:
  "check_legal p c = Inr () \<Longrightarrow>
     snd (apply_validated p c) = Inr (panel_state (fst (apply_validated p c)))"
  by (simp add: apply_validated_def Let_def)

section \<open>Disarming\<close>

lemma apply_validated_not_disarmed:
  "panel_state p \<noteq> Disarmed \<Longrightarrow> c \<noteq> Disarm \<Longrightarrow> panel_state (fst (apply_validated p c)) \<noteq> Disarmed"
  by (cases c rule: command_cases)
    (auto simp: apply_validated_Trigger apply_validated_arm dest: target_is_armed)

lemma apply_panel_not_disarmed:
  "panel_state p \<noteq> Disarmed \<Longrightarrow> panel_state (fst (apply_panel p c)) \<noteq> Disarmed"
  by (cases "c = Disarm")
    (simp_all add: apply_panel_def command_requires_code_def apply_validated_not_disarmed)

lemma tick_not_disarmed:
  "panel_inv p \<Longrightarrow> panel_state p \<noteq> Disarmed \<Longrightarrow> panel_state (fst (tick p t)) \<noteq> Disarmed"
  by (cases "panel_state p") (auto simp: tick_cases panel_inv_state)

lemma apply_with_code_disarms:
  assumes "panel_state p \<noteq> Disarmed" and "panel_state (fst (apply_with_code p c k)) = Disarmed"
  shows "c = Disarm \<and> \<not> is_locked_out (panel_code p) \<and> matches (panel_code p) k"
proof -
  from assms have acc: "snd (verify (panel_code p) k) = Accepted"
    by (auto simp: apply_with_code_fst split: if_splits)
  moreover from assms have "c = Disarm"
    using apply_validated_not_disarmed
      [of "p\<lparr>panel_code := fst (verify (panel_code p) k)\<rparr>" c]
    by (auto simp: apply_with_code_fst split: if_splits)
  ultimately show ?thesis by (simp add: alarm_keypad.accepted_iff)
qed

lemma step_disarms:
  assumes "panel_inv p" and "panel_state p \<noteq> Disarmed"
    and "panel_state (panel_step p e) = Disarmed"
  shows "\<exists>k. e = CodedCommand Disarm k \<and> \<not> is_locked_out (panel_code p) \<and>
    matches (panel_code p) k"
proof (cases e)
  case (Command c)
  with assms apply_panel_not_disarmed show ?thesis by auto
next
  case (CodedCommand c k)
  with assms apply_with_code_disarms [of p c k] show ?thesis by auto
next
  case (SensorTrip z)
  with assms show ?thesis by (auto simp: sensor_trip_fst split: if_splits)
next
  case (Tick t)
  with assms tick_not_disarmed show ?thesis by auto
qed

lemma panel_run_Cons: "panel_run (panel_step p e) es q \<Longrightarrow> panel_run p (e # es) q"
proof (induction "panel_step p e" es q rule: panel_run.induct)
  case run_nil
  show ?case using panel_run.run_snoc [OF panel_run.run_nil, of p e] by simp
next
  case (run_snoc es q e')
  then show ?case using panel_run.run_snoc [of p "e # es" q e'] by simp
qed

section \<open>Countdowns\<close>

lemma unat_saturating_add_small:
  "d \<le> MAX_DELAY \<Longrightarrow> d \<le> saturating_add x y \<longleftrightarrow> unat d \<le> unat x + unat y"
  using unat_lt_u32 [of d]
  by (auto simp: word_le_nat_alt unat_saturating_add MAX_DELAY_def)

lemma unat_saturating_add_below:
  "\<not> d \<le> saturating_add x y \<Longrightarrow> unat (saturating_add x y) = unat x + unat y" for d :: u32
  using unat_lt_u32 [of d] by (simp add: word_le_nat_alt unat_saturating_add not_le)

lemma ticks_simps [simp]:
  "ticks p [] = p" "ticks p (t # ts) = ticks (fst (tick p t)) ts"
  by (simp_all add: ticks_def)

lemma tick_not_pending:
  "panel_inv p \<Longrightarrow> panel_state p \<noteq> Pending \<Longrightarrow> panel_state (fst (tick p t)) \<noteq> Pending"
  by (cases "panel_state p") (auto simp: tick_cases panel_inv_state)

lemma ticks_not_pending:
  "panel_inv p \<Longrightarrow> panel_state p \<noteq> Pending \<Longrightarrow> panel_state (ticks p ts) \<noteq> Pending"
  by (induction ts arbitrary: p) (simp_all add: tick_not_pending panel_inv_tick)

lemma entry_countdown:
  assumes "panel_inv p" and "panel_state p = Pending"
  shows "if unat (elapsed p) + sum_list (map unat ts) < unat (entry_delay (panel_config p))
    then panel_state (ticks p ts) = Pending
    else panel_state (ticks p ts) \<noteq> Pending \<and>
      (\<exists>n. panel_state (ticks p (take n ts)) = Triggered)"
  using assms
proof (induction ts arbitrary: p)
  case Nil
  then show ?case by (simp add: panel_inv_Pending word_less_nat_alt)
next
  case (Cons t ts)
  let ?p = "fst (tick p t)" and ?d = "entry_delay (panel_config p)"
  have small: "?d \<le> MAX_DELAY"
    using panel_inv_config [OF Cons.prems(1)] by (simp add: config_ok_def)
  show ?case
  proof (cases "?d \<le> saturating_add (elapsed p) t")
    case True
    with Cons.prems have p: "?p = p\<lparr>panel_state := Triggered, elapsed := 0\<rparr>" by (simp add: tick_pending)
    have "panel_state (ticks p (t # ts)) \<noteq> Pending"
      using ticks_not_pending [of ?p ts] panel_inv_tick [OF Cons.prems(1), of t] p by simp
    moreover have "\<exists>n. panel_state (ticks p (take n (t # ts))) = Triggered"
      using p by (intro exI [of _ 1]) simp
    ultimately show ?thesis
      using True unat_saturating_add_small [OF small, of "elapsed p" t] by auto
  next
    case False
    with Cons.prems have p: "?p = p\<lparr>elapsed := saturating_add (elapsed p) t\<rparr>" by (simp add: tick_pending)
    then have "panel_state ?p = Pending" "panel_config ?p = panel_config p"
      "unat (elapsed ?p) = unat (elapsed p) + unat t"
      using Cons.prems(2) unat_saturating_add_below [OF False] by simp_all
    moreover note Cons.IH [OF panel_inv_tick [OF Cons.prems(1), of t]]
    moreover have "\<exists>m. panel_state (ticks p (take m (t # ts))) = Triggered"
      if "panel_state (ticks ?p (take n ts)) = Triggered" for n
      using that by (intro exI [of _ "Suc n"]) simp
    ultimately show ?thesis by (auto simp: add.assoc split: if_splits)
  qed
qed

lemma siren_countdown:
  assumes "panel_inv p" and "panel_state p = Triggered" and "prior_armed p = Some s"
    and "\<not> stay_triggered (panel_config p)" and "elapsed p < trigger_time (panel_config p)"
  shows "panel_state (ticks p ts) =
    (if unat (elapsed p) + sum_list (map unat ts) < unat (trigger_time (panel_config p))
     then Triggered else s)"
  using assms
proof (induction ts arbitrary: p)
  case Nil
  then show ?case by (simp add: word_less_nat_alt)
next
  case (Cons t ts)
  let ?p = "fst (tick p t)" and ?d = "trigger_time (panel_config p)"
  have small: "?d \<le> MAX_DELAY"
    using panel_inv_config [OF Cons.prems(1)] by (simp add: config_ok_def)
  show ?case
  proof (cases "?d \<le> saturating_add (elapsed p) t")
    case True
    with Cons.prems have p: "?p = p\<lparr>panel_state := s, prior_armed := None, elapsed := 0\<rparr>"
      by (simp add: tick_triggered)
    have "ticks q us = q" if "is_armed (panel_state q)" for q us
      using that by (induction us) (simp_all add: tick_settled)
    moreover have "is_armed s" using Cons.prems by (simp add: panel_inv_Triggered)
    ultimately have "panel_state (ticks p (t # ts)) = s" using p by simp
    with True unat_saturating_add_small [OF small, of "elapsed p" t] show ?thesis by simp
  next
    case False
    with Cons.prems have p: "?p = p\<lparr>elapsed := saturating_add (elapsed p) t\<rparr>"
      by (simp add: tick_triggered)
    then have "unat (elapsed ?p) = unat (elapsed p) + unat t"
      using unat_saturating_add_below [OF False] by simp
    with Cons.IH [OF panel_inv_tick [OF Cons.prems(1), of t]] Cons.prems False p show ?thesis
      by (simp add: add.assoc not_le)
  qed
qed

section \<open>Coded commands\<close>

lemma coded_command_effect:
  fixes p k c
  defines "q \<equiv> fst (apply_with_code p c k)" and "res \<equiv> snd (apply_with_code p c k)"
    and "ok \<equiv> \<not> panel_is_locked_out p \<and> matches (panel_code p) k"
  shows "if check_legal p c \<noteq> Inr () then q = p \<and> res = Inl IllegalTransition
    else if \<not> ok then q = p\<lparr>panel_code := panel_code q\<rparr> \<and> res = Inl CodeRejected \<and>
      unat (failures (panel_code q)) =
        unat (failures (panel_code p)) + (if panel_is_locked_out p then 0 else 1)
    else res = Inr (panel_state q) \<and> failures (panel_code q) = 0"
proof (cases "check_legal p c")
  case (Inl e)
  then have "e = IllegalTransition"
    by (cases c) (auto simp: check_legal_def Let_def split: if_splits)
  with Inl show ?thesis by (simp add: q_def res_def apply_with_code_def)
next
  case (Inr u)
  then have legal: "check_legal p c = Inr ()" by simp
  show ?thesis
  proof (cases ok)
    case True
    let ?r = "p\<lparr>panel_code := panel_code p\<lparr>failures := 0\<rparr>\<rparr>"
    have "verify (panel_code p) k = (panel_code p\<lparr>failures := 0\<rparr>, Accepted)"
      using True by (simp add: ok_def panel_is_locked_out_def verify_when_right)
    then have "q = fst (apply_validated ?r c)" "res = snd (apply_validated ?r c)"
      using legal by (simp_all add: q_def res_def apply_with_code_def)
    moreover have "check_legal ?r c = Inr ()" using legal by (simp add: check_legal_code)
    ultimately show ?thesis
      using legal True by (simp add: apply_validated_result apply_validated_code reset_def)
  next
    case False
    then show ?thesis
      using legal alarm_keypad.accepted_iff [of "panel_code p" k]
        alarm_keypad.verify_wrong [of "panel_code p" k] verify_when_locked [of "panel_code p" k]
      by (auto simp: q_def res_def ok_def apply_with_code_def panel_is_locked_out_def
          case_prod_unfold Let_def split: CodeVerdict.splits)
  qed
qed

section \<open>A panel to run\<close>

text \<open>The default panel of a new home with the code 1234, used by the worked instances below.\<close>

definition demo_code :: UserCode where
  "demo_code = \<lparr>digits = [49, 50, 51, 52]\<rparr>"

definition demo_panel :: AlarmPanel where
  "demo_panel = AlarmPanel_new residential_default (enroll demo_code)"

lemma residential_default_simps:
  "PanelConfig_new 60 30 240 True False False False = Inr residential_default"
  "exit_delay residential_default = 60" "entry_delay residential_default = 30"
  "trigger_time residential_default = 240" "\<not> stay_triggered residential_default"
  "config_ok residential_default"
  by (simp_all add: residential_default_def PanelConfig_new_def MAX_DELAY_def config_ok_def)

lemma demo_panel_simps:
  "panel_state demo_panel = Disarmed" "panel_config demo_panel = residential_default"
  "panel_code demo_panel = enroll demo_code" "elapsed demo_panel = 0"
  "pending_arm demo_panel = None" "prior_armed demo_panel = None"
  by (simp_all add: demo_panel_def AlarmPanel_new_def)

lemma demo_matches: "matches (enroll demo_code) demo_code" "\<not> is_locked_out (enroll demo_code)"
  "matches (enroll_with_limit demo_code n) demo_code"
  by (simp_all add: matches_enroll enroll_def)
    (simp add: is_locked_out_def enroll_with_limit_def DEFAULT_MAX_FAILURES_def)

lemmas demo_simps = residential_default_simps demo_panel_simps demo_matches panel_inv_state

lemma panel_run_single: "panel_run p [e] (panel_step p e)"
  using panel_run.run_snoc [OF panel_run.run_nil, of p e] by simp

section \<open>Properties of the alarm panel\<close>

text \<open>
  C1. Every panel that starts from \<open>AlarmPanel::new\<close> with a validated configuration and runs through
  any sequence of commands, coded commands, sensor trips and ticks is well formed: its
  configuration is still in range, an \<open>Arming\<close> panel knows the armed state it is heading to and has
  not used up its exit delay, a \<open>Pending\<close> panel remembers the armed state it left and has not used
  up its entry delay, and a settled panel carries no leftover countdown state.
\<close>

theorem reachable_panel_well_formed:
  assumes "PanelConfig_new ex en tr arm home night stay = Inr cfg"
    and "panel_run (AlarmPanel_new cfg cred) es p"
  shows "panel_inv p \<and> panel_config p = cfg"
proof -
  have "config_ok cfg" using assms(1) PanelConfig_new_Inr by blast
  then have "panel_inv p" using assms(2) panel_inv_new panel_inv_run by blast
  moreover have "panel_config q = panel_config r" if "panel_run r es' q" for r es' q
    using that by (induction rule: panel_run.induct) (simp_all add: step_config)
  ultimately show ?thesis using assms(2) by (simp add: AlarmPanel_new_def)
qed

theorem reachable_panel_well_formed_witness:
  "panel_inv (panel_step demo_panel (CodedCommand ArmAway demo_code))"
  using reachable_panel_well_formed [OF residential_default_simps(1), of "enroll demo_code",
      OF panel_run_single [of _ "CodedCommand ArmAway demo_code"]] by (simp add: demo_panel_def)

text \<open>
  C2. A panel that is armed, counting down or sounding becomes disarmed only through a coded
  \<open>Disarm\<close> whose code has the enrolled digest, presented while the keypad was not locked out:
  no command without a code, no sensor trip and no passing of time turns the alarm off.
\<close>

theorem disarm_needs_code:
  assumes "panel_run p es q" and "panel_inv p"
    and "panel_state p \<noteq> Disarmed" and "panel_state q = Disarmed"
  shows "\<exists>es1 k es2 r. es = es1 @ CodedCommand Disarm k # es2 \<and> panel_run p es1 r \<and>
    \<not> panel_is_locked_out r \<and> matches (panel_code p) k"
  using assms
proof (induction rule: panel_run.induct)
  case (run_snoc p es q e)
  show ?case
  proof (cases "panel_state q = Disarmed")
    case True
    with run_snoc obtain es1 k es2 r where "es = es1 @ CodedCommand Disarm k # es2"
      "panel_run p es1 r" "\<not> panel_is_locked_out r" "matches (panel_code p) k"
      by blast
    then show ?thesis by (metis append_Cons append_assoc)
  next
    case False
    with run_snoc.prems run_snoc.hyps obtain k where "e = CodedCommand Disarm k"
      "\<not> is_locked_out (panel_code q)" "matches (panel_code q) k"
      using step_disarms [of q e] panel_inv_run by blast
    with run_snoc.hyps show ?thesis
      using run_matches by (metis panel_is_locked_out_def)
  qed
qed simp

theorem disarm_needs_code_witness:
  "\<exists>es1 k es2 r. [CodedCommand Disarm demo_code] = es1 @ CodedCommand Disarm k # es2 \<and>
     panel_run (demo_panel\<lparr>panel_state := ArmedAway\<rparr>) es1 r \<and> \<not> panel_is_locked_out r \<and>
     matches (enroll demo_code) k"
proof -
  let ?p = "demo_panel\<lparr>panel_state := ArmedAway\<rparr>"
  have "panel_state (panel_step ?p (CodedCommand Disarm demo_code)) = Disarmed"
    by (simp add: apply_with_code_fst check_legal_def demo_simps verify_when_right
        apply_validated_Disarm)
  with disarm_needs_code [of ?p, OF panel_run_single] show ?thesis by (simp add: demo_simps)
qed

text \<open>
  The keypad lock-out of the panel is permanent. Once the credential is locked out while the
  alarm is on, no sequence of events, right codes included, disarms the panel or clears the
  lock-out: \<open>AlarmPanel\<close> offers no way to reset the credential except the disarm that the lock-out
  itself refuses.
\<close>

theorem lock_out_is_permanent:
  assumes "panel_run p es q" and "panel_inv p" and "panel_is_locked_out p"
    and "panel_state p \<noteq> Disarmed"
  shows "panel_is_locked_out q \<and> panel_state q \<noteq> Disarmed"
  using assms
proof (induction rule: panel_run.induct)
  case (run_snoc p es q e)
  then have q: "is_locked_out (panel_code q)" "panel_state q \<noteq> Disarmed"
    by (simp_all add: panel_is_locked_out_def)
  with step_disarms [of q e] run_snoc panel_inv_run have "panel_state (panel_step q e) \<noteq> Disarmed"
    by blast
  moreover have "panel_code (panel_step q e) = panel_code q"
    using step_code [of q e] q(1) by (auto simp: verify_when_locked)
  ultimately show ?case using q by (simp add: panel_is_locked_out_def)
qed simp

theorem lock_out_is_permanent_witness:
  "panel_is_locked_out (panel_step
     (demo_panel\<lparr>panel_state := Triggered, panel_code := (enroll demo_code)\<lparr>failures := 5\<rparr>\<rparr>)
     (CodedCommand Disarm demo_code))"
proof -
  let ?p = "demo_panel\<lparr>panel_state := Triggered, panel_code := (enroll demo_code)\<lparr>failures := 5\<rparr>\<rparr>"
  have "panel_is_locked_out ?p"
    by (simp add: panel_is_locked_out_def is_locked_out_def enroll_def enroll_with_limit_def
        DEFAULT_MAX_FAILURES_def)
  with lock_out_is_permanent [of ?p, OF panel_run_single [of _ "CodedCommand Disarm demo_code"]] show ?thesis by (simp add: demo_simps)
qed

text \<open>
  C3. The entry delay is exact. While a panel is \<open>Pending\<close>, ticks whose seconds add up to less than
  what is left of the entry delay keep it \<open>Pending\<close>; as soon as they add up to it, however they
  are split, the alarm has sounded.
\<close>

theorem entry_delay_exact:
  assumes "panel_inv p" and "panel_state p = Pending"
  shows "(panel_state (ticks p ts) = Pending \<longleftrightarrow>
      unat (elapsed p) + sum_list (map unat ts) < unat (entry_delay (panel_config p))) \<and>
    (unat (entry_delay (panel_config p)) \<le> unat (elapsed p) + sum_list (map unat ts) \<longrightarrow>
      (\<exists>n. panel_state (ticks p (take n ts)) = Triggered))"
  using entry_countdown [OF assms, of ts] by (auto split: if_splits)

theorem entry_delay_exact_witness:
  "panel_state (ticks (demo_panel\<lparr>panel_state := Pending, prior_armed := Some ArmedAway\<rparr>) [10, 19])
     = Pending"
  using entry_delay_exact
    [of "demo_panel\<lparr>panel_state := Pending, prior_armed := Some ArmedAway\<rparr>" "[10, 19]"]
  by (simp add: demo_simps)

fun seconds_of :: "panel_event \<Rightarrow> nat" where
  "seconds_of (Tick t) = unat t"
| "seconds_of _ = 0"

text \<open>
  While an entry is pending, every event either sounds the alarm or leaves the countdown where the
  time that has passed puts it, except the enrolled code with a disarm.
\<close>

lemma pending_apply_validated:
  assumes "panel_state p = Pending" and "c \<noteq> Disarm"
  shows "fst (apply_validated p c) = p \<or> panel_state (fst (apply_validated p c)) = Triggered"
  using assms check_legal_arm [of c _ p]
  by (cases c rule: command_cases) (auto simp: apply_validated_Trigger apply_validated_arm)

lemma pending_event:
  assumes "panel_inv p" and "panel_state p = Pending"
    and "\<And>k. e = CodedCommand Disarm k \<Longrightarrow> \<not> matches (panel_code p) k"
  shows "panel_state (panel_step p e) = Triggered \<or> panel_state (panel_step p e) = Pending \<and>
    unat (elapsed (panel_step p e)) = unat (elapsed p) + seconds_of e"
proof (cases e)
  case (Command c)
  show ?thesis
  proof (cases "command_requires_code p c")
    case False
    then have "c \<noteq> Disarm" by (auto simp: command_requires_code_def)
    with False show ?thesis using pending_apply_validated [OF assms(2), of c] assms(2) Command
      by (auto simp: apply_panel_def)
  qed (use assms(2) Command in \<open>simp add: apply_panel_def\<close>)
next
  case (CodedCommand c k)
  let ?p = "p\<lparr>panel_code := fst (verify (panel_code p) k)\<rparr>"
  have "snd (verify (panel_code p) k) \<noteq> Accepted" if "c = Disarm"
    using assms(3) [of k] that CodedCommand by (simp add: alarm_keypad.accepted_iff)
  moreover have "fst (apply_validated ?p c) = ?p \<or> panel_state (fst (apply_validated ?p c)) = Triggered"
    if "c \<noteq> Disarm"
    using that assms(2) by (intro pending_apply_validated) simp_all
  ultimately show ?thesis using CodedCommand assms(2)
    by (cases "c = Disarm") (auto simp: apply_with_code_fst)
next
  case (SensorTrip z)
  then show ?thesis using assms(2) by (simp add: sensor_trip_fst)
next
  case (Tick t)
  then show ?thesis using assms(2) unat_saturating_add_below [of "entry_delay (panel_config p)" "elapsed p" t]
    by (auto simp: tick_pending)
qed

lemma pending_sounds:
  assumes "panel_inv p" and "panel_state p = Pending"
    and "\<forall>e \<in> set es. \<forall>k. e = CodedCommand Disarm k \<longrightarrow> \<not> matches (panel_code p) k"
    and "unat (entry_delay (panel_config p)) \<le> unat (elapsed p) + sum_list (map seconds_of es)"
  shows "\<exists>n \<le> length es. panel_state (foldl panel_step p (take n es)) = Triggered"
  using assms
proof (induction es arbitrary: p)
  case Nil
  then show ?case by (simp add: panel_inv_Pending word_less_nat_alt)
next
  case (Cons e es)
  let ?p = "panel_step p e"
  from pending_event [OF Cons.prems(1,2), of e] Cons.prems(3) consider "panel_state ?p = Triggered"
    | "panel_state ?p = Pending" "unat (elapsed ?p) = unat (elapsed p) + seconds_of e"
    by (metis list.set_intros(1))
  then show ?case
  proof cases
    case 1
    then show ?thesis by (intro exI [of _ 1]) simp
  next
    case 2
    then obtain n where "n \<le> length es" "panel_state (foldl panel_step ?p (take n es)) = Triggered"
      using Cons.IH [OF panel_inv_step [OF Cons.prems(1)] 2(1)] Cons.prems(3,4)
      by (auto simp: frame_simps add.assoc)
    then show ?thesis by (intro exI [of _ "Suc n"]) simp
  qed
qed

text \<open>
  C4. A break-in is reported. Let a watched zone (any zone, except the interior in a home mode that is
  not instant) trip on a well-formed armed panel. If the mode is instant or the entry delay is zero
  the alarm sounds with the trip itself; otherwise the panel is pending. In both cases, whatever
  happens next - ticks, further trips, commands, wrong codes - the alarm has sounded at some point by
  the time the ticks add up to the entry delay, unless someone disarms with the enrolled code.
\<close>

theorem trip_sounds_alarm:
  assumes "panel_inv p" and "is_armed (panel_state p)"
    and "z = Interior \<Longrightarrow> panel_state p = ArmedHome \<Longrightarrow> home_instant (panel_config p)"
  shows "panel_state (panel_step p (SensorTrip z)) =
      (if panel_state p = ArmedHome \<and> home_instant (panel_config p) \<or>
          panel_state p = ArmedNight \<and> night_instant (panel_config p) \<or> entry_delay (panel_config p) = 0
       then Triggered else Pending) \<and>
    (\<forall>es. (\<forall>e \<in> set es. \<forall>k. e = CodedCommand Disarm k \<longrightarrow> \<not> matches (panel_code p) k) \<longrightarrow>
       unat (entry_delay (panel_config p)) \<le> sum_list (map seconds_of es) \<longrightarrow>
       (\<exists>n \<le> length es. panel_state (foldl panel_step (panel_step p (SensorTrip z)) (take n es)) = Triggered))"
proof -
  let ?p = "panel_step p (SensorTrip z)"
  have now: "panel_state ?p =
      (if panel_state p = ArmedHome \<and> home_instant (panel_config p) \<or>
          panel_state p = ArmedNight \<and> night_instant (panel_config p) \<or> entry_delay (panel_config p) = 0
       then Triggered else Pending)" and zero: "elapsed ?p = 0"
    using assms(2,3) by (auto simp: sensor_trip_fst zone_is_instant_def)
  have "\<exists>n \<le> length es. panel_state (foldl panel_step ?p (take n es)) = Triggered"
    if "\<forall>e \<in> set es. \<forall>k. e = CodedCommand Disarm k \<longrightarrow> \<not> matches (panel_code p) k"
      "unat (entry_delay (panel_config p)) \<le> sum_list (map seconds_of es)" for es
  proof (cases "panel_state ?p = Pending")
    case True
    then show ?thesis using pending_sounds [OF panel_inv_step [OF assms(1)] True, of es] that zero
      by (simp only: frame_simps unsigned_0 add_0_left)
  next
    case False
    then have "panel_state ?p = Triggered" using now by presburger
    then show ?thesis by (intro exI [of _ 0]) simp
  qed
  with now show ?thesis by blast
qed

theorem trip_sounds_alarm_witness:
  "panel_state (panel_step (demo_panel\<lparr>panel_state := ArmedAway\<rparr>) (SensorTrip Perimeter)) = Pending \<and>
   (\<exists>n. panel_state (foldl panel_step (panel_step (demo_panel\<lparr>panel_state := ArmedAway\<rparr>) (SensorTrip Perimeter))
     (take n [Tick 10, SensorTrip Interior, Tick 20])) = Triggered)"
proof -
  let ?p = "demo_panel\<lparr>panel_state := ArmedAway\<rparr>"
  have "panel_inv ?p" "is_armed (panel_state ?p)" by (simp_all add: demo_simps)
  from trip_sounds_alarm [OF this, of Perimeter] show ?thesis
    by (fastforce dest!: spec [where x = "[Tick 10, SensorTrip Interior, Tick 20]"] simp: demo_simps simp del: panel_step.simps)
qed

text \<open>
  The siren stops by itself. A sounding panel that remembers the armed state it left, and is not
  configured to stay triggered, keeps sounding exactly until the trigger time has passed and then
  is back in that armed state.
\<close>

theorem siren_returns_to_armed:
  assumes "panel_inv p" and "panel_state p = Triggered" and "prior_armed p = Some s"
    and "\<not> stay_triggered (panel_config p)" and "elapsed p < trigger_time (panel_config p)"
  shows "panel_state (ticks p ts) =
    (if unat (elapsed p) + sum_list (map unat ts) < unat (trigger_time (panel_config p))
     then Triggered else s)"
  using assms by (rule siren_countdown)

theorem siren_returns_to_armed_witness:
  "panel_state (ticks (demo_panel\<lparr>panel_state := Triggered, prior_armed := Some ArmedNight\<rparr>)
     [200, 40]) = ArmedNight"
  using siren_returns_to_armed
    [of "demo_panel\<lparr>panel_state := Triggered, prior_armed := Some ArmedNight\<rparr>" ArmedNight "[200, 40]"]
  by (simp add: demo_simps)

text \<open>
  What a coded command costs. An illegal command leaves the panel untouched, the failure counter
  included. A legal one with a refused code changes nothing but the counter, which grows by one
  unless the keypad is already locked out. A legal one with the enrolled code is carried out and
  clears the counter.
\<close>

theorem coded_command_accounting:
  "case apply_with_code p c k of (q, res) \<Rightarrow>
     if check_legal p c \<noteq> Inr () then q = p \<and> res = Inl IllegalTransition
     else if \<not> panel_is_locked_out p \<and> matches (panel_code p) k
     then res = Inr (panel_state q) \<and> failures (panel_code q) = 0
     else q = p\<lparr>panel_code := panel_code q\<rparr> \<and> res = Inl CodeRejected \<and>
       unat (failures (panel_code q)) =
         unat (failures (panel_code p)) + (if panel_is_locked_out p then 0 else 1)"
  using coded_command_effect [of p c k] by (auto simp only: case_prod_unfold split: if_splits)

text \<open>
  Guessing does not work: against any credential, as many wrong codes as the limit still allows
  lock the keypad, none of them is accepted, and neither is any code tried afterwards.
\<close>

theorem wrong_codes_lock_out:
  assumes "\<forall>k \<in> set ks. \<not> matches c k" and "failures c \<le> max_failures c"
    and "unat (max_failures c) \<le> unat (failures c) + length ks"
  shows "is_locked_out (fst (attempts verify c ks)) \<and>
    Accepted \<notin> set (snd (attempts verify c (ks @ ks')))"
  using alarm_keypad.lock_out_after_wrong_guesses [of ks c ks'] assms
  by (simp add: word_le_nat_alt)

theorem wrong_codes_lock_out_witness:
  "Accepted \<notin> set (snd (attempts verify (enroll_with_limit demo_code 2)
     ([\<lparr>digits = [49, 50, 51, 53]\<rparr>, \<lparr>digits = [49, 50, 51, 54]\<rparr>] @ [demo_code])))"
proof -
  have "\<not> matches (enroll_with_limit demo_code 2) \<lparr>digits = [49, 50, 51, b]\<rparr>" if "b \<noteq> 52" for b
    using that digest_one_digit [of "[49, 50, 51]" b "[]" 52]
    by (simp add: matches_enroll UserCode_digest_def demo_code_def)
  then show ?thesis
    using wrong_codes_lock_out [of "[\<lparr>digits = [49, 50, 51, 53]\<rparr>, \<lparr>digits = [49, 50, 51, 54]\<rparr>]"
        "enroll_with_limit demo_code 2" "[demo_code]"]
    by (simp add: enroll_with_limit_def)
qed

text \<open>
  A near miss is never accepted: a code that differs from the enrolled one in exactly one digit
  has a different digest, so the keypad refuses it whatever the limit.
\<close>

theorem near_miss_refused:
  assumes "digits enrolled = xs @ a # ys" and "digits tried = xs @ b # ys" and "a \<noteq> b"
  shows "snd (verify (enroll_with_limit enrolled n) tried) \<noteq> Accepted"
proof -
  have "UserCode_digest tried \<noteq> UserCode_digest enrolled"
    using assms digest_one_digit [of xs b ys a] by (simp add: UserCode_digest_def)
  then show ?thesis by (simp add: alarm_keypad.accepted_iff matches_enroll)
qed

theorem near_miss_refused_witness:
  "snd (verify (enroll_with_limit demo_code 5) \<lparr>digits = [49, 50, 57, 52]\<rparr>) \<noteq> Accepted"
  by (rule near_miss_refused [of _ "[49, 50]" 51 "[52]" _ 57]) (simp_all add: demo_code_def)

text \<open>
  \<open>UserCode::parse\<close> accepts exactly the strings of four to twelve ASCII digits, and the code it
  builds holds exactly the bytes of the string.
\<close>

theorem parse_accepts_exactly_digits:
  "UserCode_parse raw = Inr c \<longleftrightarrow>
     4 \<le> length raw \<and> length raw \<le> 12 \<and> list_all is_ascii_digit (as_bytes raw) \<and>
     c = \<lparr>digits = as_bytes raw\<rparr>"
  by (auto simp: UserCode_parse_Inr code_wf_def MIN_CODE_LEN_def MAX_CODE_LEN_def)

end
