(* ===== verification/Kine_Store.thy ===== *)
theory Kine_Store
  imports Cave_Prelude
begin

text \<open>
  The revisioned key/value store that emulates etcd (\<open>cave-home-kine-rs\<close>): the revision clock
  (\<open>revision.rs\<close>), the append-only row log with its four writes (\<open>store.rs\<close>) and the error
  vocabulary (\<open>error.rs\<close>). Revisions are \<open>i64\<close>: integers, with the clock's saturation written
  out. Keys and values are byte lists, compared lexicographically as Rust compares slices.
\<close>

section \<open>Errors and the revision clock\<close>

type_synonym Revision = int
type_synonym kbytes = "u8 list"

datatype KineError =
    Compacted Revision Revision
  | FutureRevision Revision Revision
  | NegativeRevision Revision
  | CompactionNotForward Revision Revision
  | CompactFutureRevision Revision Revision
  | EmptyKey
  | InvalidRange
  | NegativeLimit int
  | InvalidLeaseId
  | InvalidTtl int
  | Backend string
  | TxnCompareTypeMismatch
  | TxnDuplicateKey

definition CURRENT :: Revision where
  "CURRENT = 0"

record Clock =
  current :: Revision

definition Clock_new :: Clock where
  "Clock_new = \<lparr>current = 0\<rparr>"

definition Clock_next :: "Clock \<Rightarrow> Clock \<times> Revision" where
  "Clock_next c = (let c' = c\<lparr>current := i64_saturating_add (current c) 1\<rparr> in (c', current c'))"

definition resolve_read :: "Clock \<Rightarrow> Revision \<Rightarrow> KineError + Revision" where
  "resolve_read c requested =
     (if requested < 0 then Inl (NegativeRevision requested)
      else if requested = CURRENT then Inr (current c)
      else if requested > current c then Inl (FutureRevision requested (current c))
      else Inr requested)"

section \<open>Rows and the store\<close>

record Row =
  row_key :: kbytes
  create_revision :: Revision
  mod_revision :: Revision
  row_value :: kbytes
  row_lease :: int
  deleted :: bool

definition is_live :: "Row \<Rightarrow> bool" where
  "is_live r = (\<not> deleted r)"

record Store =
  clock :: Clock
  rows :: "Row list"
  compacted :: Revision

definition Store_new :: Store where
  "Store_new = \<lparr>clock = Clock_new, rows = [], compacted = 0\<rparr>"

definition current_revision :: "Store \<Rightarrow> Revision" where
  "current_revision s = current (clock s)"

definition latest_row :: "Store \<Rightarrow> kbytes \<Rightarrow> Row option" where
  "latest_row s key = find (\<lambda>r. row_key r = key) (rev (rows s))"

definition get_live :: "Store \<Rightarrow> kbytes \<Rightarrow> Row option" where
  "get_live s key =
     (case latest_row s key of Some r \<Rightarrow> if is_live r then Some r else None | None \<Rightarrow> None)"

definition kine_create ::
  "Store \<Rightarrow> kbytes \<Rightarrow> kbytes \<Rightarrow> int \<Rightarrow> Store \<times> (KineError + Revision option)" where
  "kine_create s key value lease =
     (if key = [] then (s, Inl EmptyKey)
      else if get_live s key \<noteq> None then (s, Inr None)
      else
        (let (c, rv) = Clock_next (clock s) in
         (s\<lparr>clock := c,
            rows := rows s @ [\<lparr>row_key = key, create_revision = rv, mod_revision = rv,
                               row_value = value, row_lease = lease, deleted = False\<rparr>]\<rparr>,
          Inr (Some rv))))"

definition kine_update ::
  "Store \<Rightarrow> kbytes \<Rightarrow> kbytes \<Rightarrow> int \<Rightarrow> Store \<times> (KineError + Revision option)" where
  "kine_update s key value lease =
     (if key = [] then (s, Inl EmptyKey)
      else
        (case map_option create_revision (get_live s key) of
           None \<Rightarrow> (s, Inr None)
         | Some create_rev \<Rightarrow>
             (let (c, rv) = Clock_next (clock s) in
              (s\<lparr>clock := c,
                 rows := rows s @ [\<lparr>row_key = key, create_revision = create_rev, mod_revision = rv,
                                    row_value = value, row_lease = lease, deleted = False\<rparr>]\<rparr>,
               Inr (Some rv)))))"

definition kine_put ::
  "Store \<Rightarrow> kbytes \<Rightarrow> kbytes \<Rightarrow> int \<Rightarrow> Store \<times> (KineError + Revision)" where
  "kine_put s key value lease =
     (if key = [] then (s, Inl EmptyKey)
      else
        (let create_rev = map_option create_revision (get_live s key);
             (c, rv) = Clock_next (clock s)
         in (s\<lparr>clock := c,
               rows := rows s @ [\<lparr>row_key = key,
                                  create_revision = (case create_rev of Some cr \<Rightarrow> cr | None \<Rightarrow> rv),
                                  mod_revision = rv, row_value = value, row_lease = lease,
                                  deleted = False\<rparr>]\<rparr>,
             Inr rv)))"

definition kine_delete :: "Store \<Rightarrow> kbytes \<Rightarrow> Store \<times> (KineError + Revision option)" where
  "kine_delete s key =
     (if key = [] then (s, Inl EmptyKey)
      else
        (case map_option create_revision (get_live s key) of
           None \<Rightarrow> (s, Inr None)
         | Some create_rev \<Rightarrow>
             (let (c, rv) = Clock_next (clock s) in
              (s\<lparr>clock := c,
                 rows := rows s @ [\<lparr>row_key = key, create_revision = create_rev, mod_revision = rv,
                                    row_value = [], row_lease = 0, deleted = True\<rparr>]\<rparr>,
               Inr (Some rv)))))"

definition install_compacted :: "Store \<Rightarrow> Row list \<Rightarrow> Revision \<Rightarrow> Store" where
  "install_compacted s rs floor = s\<lparr>rows := rs, compacted := floor\<rparr>"

fun live_keys_loop :: "Store \<Rightarrow> kbytes list \<Rightarrow> kbytes list \<Rightarrow> kbytes list" where
  "live_keys_loop s keys [] = keys"
| "live_keys_loop s keys (k # ks) =
     (if get_live s k \<noteq> None \<and> \<not> List.member keys k
      then live_keys_loop s (keys @ [k]) ks
      else live_keys_loop s keys ks)"

definition live_keys :: "Store \<Rightarrow> kbytes list" where
  "live_keys s = sort (live_keys_loop s [] (map row_key (rows s)))"

section \<open>Well-formed stores\<close>

text \<open>
  The log is in ascending revision order, every row carries a revision the clock has issued and a
  key, tombstones carry no value and no lease, and the compaction floor is behind the clock.
\<close>

definition row_ok :: "Row \<Rightarrow> bool" where
  "row_ok r \<longleftrightarrow> row_key r \<noteq> [] \<and> 0 < create_revision r \<and> create_revision r \<le> mod_revision r \<and>
     (deleted r \<longrightarrow> row_value r = [] \<and> row_lease r = 0)"

definition store_wf :: "Store \<Rightarrow> bool" where
  "store_wf s \<longleftrightarrow>
     0 \<le> compacted s \<and> compacted s \<le> current_revision s \<and> current_revision s \<le> i64_max \<and>
     (\<forall>r \<in> set (rows s). row_ok r \<and> mod_revision r \<le> current_revision s) \<and>
     sorted_wrt (\<lambda>r r'. mod_revision r < mod_revision r') (rows s)"

text \<open>The clock has room for one more revision.\<close>

abbreviation can_write :: "Store \<Rightarrow> bool" where
  "can_write s \<equiv> current_revision s < i64_max"

text \<open>The row a write appends, and the store it leaves.\<close>

definition append_row :: "Store \<Rightarrow> Row \<Rightarrow> Store" where
  "append_row s r = s\<lparr>clock := \<lparr>current = mod_revision r\<rparr>, rows := rows s @ [r]\<rparr>"

lemma Clock_next_eq:
  "Clock_next c = (\<lparr>current = i64_saturating_add (current c) 1\<rparr>, i64_saturating_add (current c) 1)"
  by (simp add: Clock_next_def Let_def)

lemma saturating_succ: "0 \<le> n \<Longrightarrow> n < i64_max \<Longrightarrow> i64_saturating_add n 1 = n + 1"
  by (simp add: i64_saturating_add_def i64_max_def i64_min_def)

lemma saturating_succ_bounds:
  "0 \<le> n \<Longrightarrow> n \<le> i64_max \<Longrightarrow> n \<le> i64_saturating_add n 1 \<and> i64_saturating_add n 1 \<le> i64_max"
  by (auto simp: i64_saturating_add_def i64_max_def i64_min_def)

section \<open>Reading the log\<close>

lemma latest_row_append:
  "latest_row (append_row s r) k = (if row_key r = k then Some r else latest_row s k)"
  by (simp add: latest_row_def append_row_def)

lemma get_live_append:
  "get_live (append_row s r) k =
     (if row_key r = k then (if is_live r then Some r else None) else get_live s k)"
  by (simp add: get_live_def latest_row_append)

lemma latest_row_Some:
  assumes "latest_row s k = Some r"
  shows "r \<in> set (rows s)" and "row_key r = k"
  using find_SomeD [OF assms [unfolded latest_row_def]] by simp_all

lemma get_live_Some:
  assumes "get_live s k = Some r"
  shows "r \<in> set (rows s)" and "row_key r = k" and "is_live r" and "latest_row s k = Some r"
  using assms latest_row_Some by (auto simp: get_live_def split: option.splits if_splits)

lemma store_wf_row:
  assumes "store_wf s" and "r \<in> set (rows s)"
  shows "row_key r \<noteq> []" and "0 < create_revision r" and "create_revision r \<le> mod_revision r"
    and "mod_revision r \<le> current_revision s"
  using assms by (auto simp: store_wf_def row_ok_def)

lemma sorted_rows_inject:
  assumes "sorted_wrt (\<lambda>r r'. mod_revision r < mod_revision r') rs"
    and "a \<in> set rs" and "b \<in> set rs" and "mod_revision a = mod_revision b"
  shows "a = b"
  using assms by (induction rs) auto

text \<open>The latest row of a key is the one with the greatest revision.\<close>

lemma find_rev_sorted:
  assumes "sorted_wrt (\<lambda>r r'. mod_revision r < mod_revision r') rs"
  shows "find P (rev rs) = Some r \<longleftrightarrow>
    r \<in> set rs \<and> P r \<and> (\<forall>r' \<in> set rs. P r' \<longrightarrow> mod_revision r' \<le> mod_revision r)"
  using assms
proof (induction rs rule: rev_induct)
  case (snoc x rs)
  then have less: "\<And>y. y \<in> set rs \<Longrightarrow> mod_revision y < mod_revision x"
    and IH: "find P (rev rs) = Some r \<longleftrightarrow>
      r \<in> set rs \<and> P r \<and> (\<forall>r' \<in> set rs. P r' \<longrightarrow> mod_revision r' \<le> mod_revision r)"
    by (auto simp: sorted_wrt_append)
  show ?case
  proof (cases "P x")
    case True
    then show ?thesis using less by fastforce
  next
    case False
    with IH show ?thesis by auto
  qed
qed simp

section \<open>What a write does\<close>

text \<open>The row each operation appends.\<close>

definition new_row :: "Store \<Rightarrow> kbytes \<Rightarrow> kbytes \<Rightarrow> int \<Rightarrow> bool \<Rightarrow> Row" where
  "new_row s k v l d =
     (let rv = i64_saturating_add (current_revision s) 1 in
      \<lparr>row_key = k,
       create_revision = (case get_live s k of Some r \<Rightarrow> create_revision r | None \<Rightarrow> rv),
       mod_revision = rv, row_value = v, row_lease = l, deleted = d\<rparr>)"

lemma new_row_simps [simp]:
  "row_key (new_row s k v l d) = k" "row_value (new_row s k v l d) = v"
  "row_lease (new_row s k v l d) = l" "deleted (new_row s k v l d) = d"
  "mod_revision (new_row s k v l d) = i64_saturating_add (current_revision s) 1"
  by (simp_all add: new_row_def Let_def)

lemma kine_put_eq:
  "kine_put s k v l = (if k = [] then (s, Inl EmptyKey)
     else (append_row s (new_row s k v l False), Inr (i64_saturating_add (current_revision s) 1)))"
  by (auto simp: kine_put_def append_row_def new_row_def Clock_next_eq current_revision_def
      Let_def split: option.splits)

lemma kine_create_eq:
  "kine_create s k v l = (if k = [] then (s, Inl EmptyKey)
     else if get_live s k \<noteq> None then (s, Inr None)
     else (append_row s (new_row s k v l False),
           Inr (Some (i64_saturating_add (current_revision s) 1))))"
  by (auto simp: kine_create_def append_row_def new_row_def Clock_next_eq current_revision_def
      Let_def)

lemma kine_update_eq:
  "kine_update s k v l = (if k = [] then (s, Inl EmptyKey)
     else if get_live s k = None then (s, Inr None)
     else (append_row s (new_row s k v l False),
           Inr (Some (i64_saturating_add (current_revision s) 1))))"
  by (auto simp: kine_update_def append_row_def new_row_def Clock_next_eq current_revision_def
      Let_def)

lemma kine_delete_eq:
  "kine_delete s k = (if k = [] then (s, Inl EmptyKey)
     else if get_live s k = None then (s, Inr None)
     else (append_row s (new_row s k [] 0 True),
           Inr (Some (i64_saturating_add (current_revision s) 1))))"
  by (auto simp: kine_delete_def append_row_def new_row_def Clock_next_eq current_revision_def
      Let_def)

lemmas kine_write_eqs = kine_put_eq kine_create_eq kine_update_eq kine_delete_eq

lemma append_row_simps [simp]:
  "rows (append_row s r) = rows s @ [r]" "compacted (append_row s r) = compacted s"
  "current_revision (append_row s r) = mod_revision r"
  by (simp_all add: append_row_def current_revision_def)

lemma store_wf_append:
  assumes "store_wf s" and "can_write s" and "k \<noteq> []" and "d \<longrightarrow> v = [] \<and> l = 0"
  shows "store_wf (append_row s (new_row s k v l d))"
proof -
  have nonneg: "0 \<le> current_revision s" using assms(1) by (simp add: store_wf_def)
  then have rv: "i64_saturating_add (current_revision s) 1 = current_revision s + 1"
    using assms(2) by (simp add: saturating_succ)
  have "0 < create_revision (new_row s k v l d) \<and>
      create_revision (new_row s k v l d) \<le> current_revision s + 1"
  proof (cases "get_live s k")
    case None
    then show ?thesis using nonneg rv by (simp add: new_row_def Let_def)
  next
    case (Some r)
    with store_wf_row [OF assms(1) get_live_Some(1) [OF Some]] show ?thesis
      by (simp add: new_row_def Let_def)
  qed
  then show ?thesis
    using assms rv by (fastforce simp: store_wf_def row_ok_def sorted_wrt_append)
qed

lemma store_wf_put [inv_intros]: "store_wf s \<Longrightarrow> can_write s \<Longrightarrow> store_wf (fst (kine_put s k v l))"
  by (simp add: kine_put_eq store_wf_append)

lemma store_wf_create [inv_intros]: "store_wf s \<Longrightarrow> can_write s \<Longrightarrow> store_wf (fst (kine_create s k v l))"
  by (simp add: kine_create_eq store_wf_append)

lemma store_wf_update [inv_intros]: "store_wf s \<Longrightarrow> can_write s \<Longrightarrow> store_wf (fst (kine_update s k v l))"
  by (simp add: kine_update_eq store_wf_append)

lemma store_wf_delete [inv_intros]: "store_wf s \<Longrightarrow> can_write s \<Longrightarrow> store_wf (fst (kine_delete s k))"
  by (simp add: kine_delete_eq store_wf_append)

lemma store_wf_new: "store_wf Store_new"
  by (simp add: store_wf_def Store_new_def current_revision_def Clock_new_def i64_max_def)

end
