(* ===== verification/Kine_Range.thy ===== *)
theory Kine_Range
  imports Kine_Store
begin

text \<open>
  Range reads of the kine store (\<open>cave-home-kine-rs/src/range.rs\<close>): the request and response
  types, the read plan \<open>execute\<close> and the prefix successor. The view of a store at a revision,
  \<open>state_at\<close>, is the specification the read plan is measured against.
\<close>

section \<open>Requests and responses\<close>

datatype RangeEnd = Single | Prefix | Explicit kbytes | AllKeys

record RangeRequest =
  rq_key :: kbytes
  rq_end :: RangeEnd
  rq_revision :: Revision
  rq_limit :: int

definition RangeRequest_key :: "kbytes \<Rightarrow> RangeRequest" where
  "RangeRequest_key k = \<lparr>rq_key = k, rq_end = Single, rq_revision = 0, rq_limit = 0\<rparr>"

definition RangeRequest_prefix :: "kbytes \<Rightarrow> RangeRequest" where
  "RangeRequest_prefix k = \<lparr>rq_key = k, rq_end = Prefix, rq_revision = 0, rq_limit = 0\<rparr>"

definition RangeRequest_interval :: "kbytes \<Rightarrow> kbytes \<Rightarrow> RangeRequest" where
  "RangeRequest_interval k e = \<lparr>rq_key = k, rq_end = Explicit e, rq_revision = 0, rq_limit = 0\<rparr>"

definition RangeRequest_all :: RangeRequest where
  "RangeRequest_all = \<lparr>rq_key = [], rq_end = AllKeys, rq_revision = 0, rq_limit = 0\<rparr>"

definition at_revision :: "RangeRequest \<Rightarrow> Revision \<Rightarrow> RangeRequest" where
  "at_revision req revision = req\<lparr>rq_revision := revision\<rparr>"

definition with_limit :: "RangeRequest \<Rightarrow> int \<Rightarrow> RangeRequest" where
  "with_limit req limit = req\<lparr>rq_limit := limit\<rparr>"

definition range_contains :: "RangeRequest \<Rightarrow> kbytes \<Rightarrow> bool" where
  "range_contains req candidate =
     (case rq_end req of
        Single \<Rightarrow> candidate = rq_key req
      | Prefix \<Rightarrow> starts_with candidate (rq_key req)
      | AllKeys \<Rightarrow> True
      | Explicit e \<Rightarrow> candidate \<ge> rq_key req \<and> candidate < e)"

record RangeResponse =
  rs_revision :: Revision
  kvs :: "Row list"
  rs_more :: bool
  rs_count :: int

section \<open>The read plan\<close>

definition range_validate :: "RangeRequest \<Rightarrow> KineError + unit" where
  "range_validate req =
     (if rq_limit req < 0 then Inl (NegativeLimit (rq_limit req))
      else
        (case rq_end req of
           AllKeys \<Rightarrow> Inr ()
         | Single \<Rightarrow> if rq_key req = [] then Inl EmptyKey else Inr ()
         | Prefix \<Rightarrow> if rq_key req = [] then Inl EmptyKey else Inr ()
         | Explicit e \<Rightarrow>
             if rq_key req = [] then Inl EmptyKey
             else if e \<le> rq_key req then Inl InvalidRange
             else Inr ()))"

definition distinct_keys_in_order :: "Store \<Rightarrow> kbytes list" where
  "distinct_keys_in_order s =
     foldl (\<lambda>keys row. if List.member keys (row_key row) then keys else keys @ [row_key row])
       [] (rows s)"

definition latest_at :: "Store \<Rightarrow> kbytes \<Rightarrow> Revision \<Rightarrow> Row option" where
  "latest_at s key read_rev =
     find (\<lambda>r. row_key r = key \<and> mod_revision r \<le> read_rev) (rev (rows s))"

definition collect_latest :: "Store \<Rightarrow> RangeRequest \<Rightarrow> Revision \<Rightarrow> Row list" where
  "collect_latest s req read_rev =
     foldl (\<lambda>latest key.
        case latest_at s key read_rev of
          Some row \<Rightarrow>
            if is_live row \<and> range_contains req (row_key row) then latest @ [row] else latest
        | None \<Rightarrow> latest)
       [] (distinct_keys_in_order s)"

definition range_execute :: "Store \<Rightarrow> RangeRequest \<Rightarrow> KineError + RangeResponse" where
  "range_execute s req =
     (case range_validate req of
        Inl e \<Rightarrow> Inl e
      | Inr _ \<Rightarrow>
          (case resolve_read (clock s) (rq_revision req) of
             Inl e \<Rightarrow> Inl e
           | Inr read_rev \<Rightarrow>
               if rq_revision req \<noteq> 0 \<and> rq_revision req < compacted s
               then Inl (Compacted (rq_revision req) (compacted s))
               else
                 (let latest = sort_key row_key (collect_latest s req read_rev);
                      count = int (length latest);
                      (ks, mr) =
                        (if rq_limit req > 0 \<and> count > rq_limit req
                         then (take (nat (rq_limit req)) latest, True)
                         else (latest, False))
                  in Inr \<lparr>rs_revision = read_rev, kvs = ks, rs_more = mr, rs_count = count\<rparr>)))"

section \<open>The prefix successor\<close>

text \<open>
  The \<open>while let Some(last)\<close> loop of \<open>prefix_successor\<close>: drop trailing \<open>0xFF\<close> bytes, then bump
  the last one. The loop ends because every round either returns or shortens the vector.
\<close>

function bump_last :: "kbytes \<Rightarrow> kbytes option" where
  "bump_last end =
     (if end = [] then None
      else if last end < 0xFF then Some (butlast end @ [last end + 1])
      else bump_last (butlast end))"
  by auto
termination
  by (relation "measure length") auto

declare bump_last.simps [simp del]

definition prefix_successor :: "kbytes \<Rightarrow> kbytes" where
  "prefix_successor prefix = (case bump_last prefix of Some e \<Rightarrow> e | None \<Rightarrow> [0])"

section \<open>The view of a store at a revision\<close>

definition state_at :: "Store \<Rightarrow> Revision \<Rightarrow> kbytes \<Rightarrow> Row option" where
  "state_at s rv k =
     (case latest_at s k rv of Some r \<Rightarrow> if is_live r then Some r else None | None \<Rightarrow> None)"

lemma find_cong_set: "(\<And>x. x \<in> set xs \<Longrightarrow> P x = Q x) \<Longrightarrow> find P xs = find Q xs"
  by (induction xs) auto

lemma latest_at_current:
  assumes "store_wf s" and "current_revision s \<le> rv"
  shows "latest_at s k rv = latest_row s k"
  unfolding latest_at_def latest_row_def
  using store_wf_row(4) [OF assms(1)] assms(2) by (intro find_cong_set) fastforce

lemma state_at_current:
  "store_wf s \<Longrightarrow> current_revision s \<le> rv \<Longrightarrow> state_at s rv k = get_live s k"
  by (simp add: state_at_def get_live_def latest_at_current)

lemma latest_at_Some:
  assumes "latest_at s k rv = Some r"
  shows "r \<in> set (rows s)" and "row_key r = k" and "mod_revision r \<le> rv"
  using find_SomeD [OF assms [unfolded latest_at_def]] by simp_all

lemma latest_at_append:
  "latest_at (append_row s r) k rv =
     (if row_key r = k \<and> mod_revision r \<le> rv then Some r else latest_at s k rv)"
  by (simp add: latest_at_def)

lemma state_at_key: "state_at s rv k = Some r \<Longrightarrow> row_key r = k"
  by (auto simp: state_at_def latest_at_Some split: option.splits if_splits)

section \<open>What the read plan returns\<close>

lemma distinct_keys_loop:
  "set (foldl (\<lambda>keys row. if List.member keys (row_key row) then keys else keys @ [row_key row])
     ks rs) = set ks \<union> row_key ` set rs \<and>
   (distinct ks \<longrightarrow> distinct (foldl (\<lambda>keys row. if List.member keys (row_key row) then keys
      else keys @ [row_key row]) ks rs))"
  by (induction rs arbitrary: ks) (auto simp: insert_absorb)

lemma distinct_keys_in_order:
  "set (distinct_keys_in_order s) = row_key ` set (rows s)" "distinct (distinct_keys_in_order s)"
  using distinct_keys_loop [of "[]" "rows s"] by (simp_all add: distinct_keys_in_order_def)

lemma collect_latest_loop:
  "foldl (\<lambda>latest key.
        case latest_at s key rv of
          Some row \<Rightarrow>
            if is_live row \<and> range_contains req (row_key row) then latest @ [row] else latest
        | None \<Rightarrow> latest) acc ks =
     acc @ map (\<lambda>k. the (state_at s rv k))
       (filter (\<lambda>k. state_at s rv k \<noteq> None \<and> range_contains req k) ks)"
  by (induction ks arbitrary: acc)
    (auto simp: state_at_def latest_at_Some(2) split: option.splits)

lemma collect_latest_eq:
  "collect_latest s req rv = map (\<lambda>k. the (state_at s rv k))
     (filter (\<lambda>k. state_at s rv k \<noteq> None \<and> range_contains req k) (distinct_keys_in_order s))"
  by (simp add: collect_latest_def collect_latest_loop)

lemma state_at_known: "state_at s rv k \<noteq> None \<Longrightarrow> k \<in> row_key ` set (rows s)"
  by (force simp: state_at_def split: option.splits if_splits dest: latest_at_Some)

lemma set_collect_latest:
  "set (collect_latest s req rv) = {r. \<exists>k. state_at s rv k = Some r \<and> range_contains req k}"
proof -
  have "k \<in> set (distinct_keys_in_order s)" if "state_at s rv k = Some r" for k r
    using that state_at_known [of s rv k] by (simp add: distinct_keys_in_order)
  then show ?thesis by (force simp: collect_latest_eq)
qed

lemma keys_collect_latest:
  "map row_key (collect_latest s req rv) =
     filter (\<lambda>k. state_at s rv k \<noteq> None \<and> range_contains req k) (distinct_keys_in_order s)"
  by (auto simp: collect_latest_eq comp_def state_at_key intro!: map_idI)

lemma sorted_collect_latest:
  "sorted_wrt (<) (map row_key (sort_key row_key (collect_latest s req rv)))"
proof -
  let ?xs = "collect_latest s req rv"
  have "distinct (map row_key ?xs)"
    by (simp add: keys_collect_latest distinct_keys_in_order)
  then have "distinct (map row_key (sort_key row_key ?xs))"
    by (simp add: distinct_map)
  moreover have "sorted (map row_key (sort_key row_key ?xs))" by (rule sorted_sort_key)
  ultimately show ?thesis by (simp add: strict_sorted_iff)
qed

text \<open>The snapshot a request selects: the rows visible at a revision, in key order.\<close>

definition selection :: "Store \<Rightarrow> RangeRequest \<Rightarrow> Revision \<Rightarrow> Row list" where
  "selection s req rv = sort_key row_key (collect_latest s req rv)"

lemma selection_sorted: "sorted_wrt (<) (map row_key (selection s req rv))"
  by (simp add: selection_def sorted_collect_latest)

lemma set_selection:
  "set (selection s req rv) = {r. \<exists>k. state_at s rv k = Some r \<and> range_contains req k}"
  by (simp add: selection_def set_collect_latest)

text \<open>Two selections with the same rows are the same list.\<close>

lemma selection_cong:
  assumes "\<And>k. range_contains req k = range_contains req' k"
    and "\<And>k. range_contains req k \<Longrightarrow> state_at s rv k = state_at s' rv' k"
  shows "selection s req rv = selection s' req' rv'"
proof -
  have "set (selection s req rv) = set (selection s' req' rv')"
    using assms by (auto simp: set_selection) metis+
  moreover have "inj_on row_key (set (selection s req rv) \<union> set (selection s' req' rv'))"
    using calculation selection_sorted [of s req rv]
    by (simp add: strict_sorted_iff distinct_map)
  ultimately show ?thesis
    using selection_sorted
    by (intro map_sorted_distinct_set_unique [of row_key])
      (auto simp: strict_sorted_iff)
qed

lemma range_execute_eq:
  "range_execute s req =
     (case range_validate req of
        Inl e \<Rightarrow> Inl e
      | Inr _ \<Rightarrow>
          (case resolve_read (clock s) (rq_revision req) of
             Inl e \<Rightarrow> Inl e
           | Inr rv \<Rightarrow>
               if rq_revision req \<noteq> 0 \<and> rq_revision req < compacted s
               then Inl (Compacted (rq_revision req) (compacted s))
               else Inr \<lparr>rs_revision = rv,
                  kvs = (if rq_limit req > 0 then take (nat (rq_limit req)) (selection s req rv)
                         else selection s req rv),
                  rs_more = (rq_limit req > 0 \<and> int (length (selection s req rv)) > rq_limit req),
                  rs_count = int (length (selection s req rv))\<rparr>))"
  by (auto simp: range_execute_def Let_def selection_def split: sum.splits)

lemma range_execute_cong:
  assumes "range_validate a = range_validate b" and "rq_revision a = rq_revision b"
    and "rq_limit a = rq_limit b" and "\<And>rv. selection s a rv = selection s b rv"
  shows "range_execute s a = range_execute s b"
  unfolding range_execute_eq assms ..

section \<open>Prefix ranges\<close>

lemma bump_last_Cons:
  "bump_last (x # p) =
     (case bump_last p of
        Some h \<Rightarrow> Some (x # h)
      | None \<Rightarrow> if x < 0xFF then Some [x + 1] else None)"
proof (induction p rule: rev_induct)
  case Nil
  show ?case by (simp add: bump_last.simps [of "[x]"] bump_last.simps [of "[]"])
next
  case (snoc y p)
  have "bump_last (x # p @ [y]) =
      (if y < 0xFF then Some (x # p @ [y + 1]) else bump_last (x # p))"
    using bump_last.simps [of "x # p @ [y]"] by (simp add: butlast_append)
  moreover have "bump_last (p @ [y]) = (if y < 0xFF then Some (p @ [y + 1]) else bump_last p)"
    using bump_last.simps [of "p @ [y]"] by simp
  ultimately show ?case using snoc by simp
qed

lemma u8_less_Suc: "x < (0xFF :: u8) \<Longrightarrow> y < x + 1 \<longleftrightarrow> y \<le> x"
  using unat_lt_u8 [of x] by (auto simp: word_less_nat_alt word_le_nat_alt unat_word_ariths)

lemma u8_le_FF: "(y :: u8) \<le> 0xFF"
  using unat_lt_u8 [of y] by (simp add: word_le_nat_alt)

lemma bump_last_None: "bump_last p = None \<longleftrightarrow> (\<forall>b \<in> set p. b = 0xFF)"
proof (induction p)
  case (Cons x p)
  then show ?case using u8_le_FF [of x] by (auto simp: bump_last_Cons split: option.splits)
qed (simp add: bump_last.simps [of "[]"])

text \<open>The keys under a prefix are an interval of the keyspace.\<close>

lemma prefix_interval:
  "starts_with k p \<longleftrightarrow> p \<le> k \<and> (case bump_last p of Some h \<Rightarrow> k < h | None \<Rightarrow> True)"
proof (induction p arbitrary: k)
  case Nil
  show ?case by (simp add: bump_last.simps [of "[]"])
next
  case (Cons x p)
  show ?case
  proof (cases k)
    case (Cons y k')
    show ?thesis
    proof (cases "bump_last p")
      case None
      with Cons.IH [of k'] Cons u8_less_Suc [of x y] u8_le_FF [of y] show ?thesis
        by (auto simp: bump_last_Cons not_less)
    next
      case (Some h)
      with Cons.IH [of k'] Cons show ?thesis by (auto simp: bump_last_Cons)
    qed
  qed simp
qed

end
