(* ===== verification/Kine_History.thy ===== *)
theory Kine_History
  imports Kine_Range
begin

text \<open>
  Compaction (\<open>cave-home-kine-rs/src/compact.rs\<close>) and watches (\<open>watch.rs\<close>) of the kine store, the
  runs of a store under its five state-changing operations, and the abstract key/value
  specification those operations refine.
\<close>

section \<open>Compaction\<close>

record CompactReport =
  cr_compacted :: Revision
  removed :: nat
  remaining :: nat

fun record_latest :: "Row \<Rightarrow> (kbytes \<times> Revision) list \<Rightarrow> (kbytes \<times> Revision) list" where
  "record_latest row [] = [(row_key row, mod_revision row)]"
| "record_latest row ((k, rv) # out) =
     (if k = row_key row
      then (k, if rv < mod_revision row then mod_revision row else rv) # out
      else (k, rv) # record_latest row out)"

definition latest_row_revision_per_key :: "Row list \<Rightarrow> (kbytes \<times> Revision) list" where
  "latest_row_revision_per_key rs = foldl (\<lambda>out row. record_latest row out) [] rs"

definition compact :: "Store \<Rightarrow> Revision \<Rightarrow> Store \<times> (KineError + CompactReport)" where
  "compact s target =
     (if target < 0 then (s, Inl (NegativeRevision target))
      else if target > current_revision s
      then (s, Inl (CompactFutureRevision target (current_revision s)))
      else if target \<le> compacted s
      then (s, Inl (CompactionNotForward target (compacted s)))
      else
        (let before = length (rows s);
             survivors = latest_row_revision_per_key (rows s);
             kept = filter (\<lambda>r.
               let is_latest = list_ex (\<lambda>(k, rv). k = row_key r \<and> rv = mod_revision r) survivors in
               if mod_revision r > target then True
               else if is_latest then is_live r
               else False) (rows s)
         in (install_compacted s kept target,
             Inr \<lparr>cr_compacted = target, removed = before - length kept, remaining = length kept\<rparr>)))"

section \<open>Watches\<close>

datatype EventKind = Put | Delete

record WatchEvent =
  kind :: EventKind
  ev_key :: kbytes
  ev_value :: kbytes
  prev_value :: kbytes
  ev_revision :: Revision
  ev_create_revision :: Revision

definition filter_contains :: "RangeRequest \<Rightarrow> kbytes \<Rightarrow> bool" where
  "filter_contains req candidate =
     (case rq_end req of
        Single \<Rightarrow> candidate = rq_key req
      | Prefix \<Rightarrow> starts_with candidate (rq_key req)
      | AllKeys \<Rightarrow> True
      | Explicit e \<Rightarrow> candidate \<ge> rq_key req \<and> candidate < e)"

definition validate_filter :: "RangeRequest \<Rightarrow> KineError + unit" where
  "validate_filter req =
     (case rq_end req of
        AllKeys \<Rightarrow> Inr ()
      | Single \<Rightarrow> if rq_key req = [] then Inl EmptyKey else Inr ()
      | Prefix \<Rightarrow> if rq_key req = [] then Inl EmptyKey else Inr ()
      | Explicit e \<Rightarrow>
          if rq_key req = [] then Inl EmptyKey
          else if e \<le> rq_key req then Inl InvalidRange
          else Inr ())"

definition event_of :: "Row \<Rightarrow> WatchEvent" where
  "event_of r =
     \<lparr>kind = (if deleted r then Delete else Put), ev_key = row_key r, ev_value = row_value r,
      prev_value = [], ev_revision = mod_revision r, ev_create_revision = create_revision r\<rparr>"

definition watch :: "Store \<Rightarrow> RangeRequest \<Rightarrow> Revision \<Rightarrow> KineError + WatchEvent list" where
  "watch s req start_revision =
     (if start_revision < 0 then Inl (NegativeRevision start_revision)
      else if start_revision \<noteq> 0 \<and> start_revision < compacted s
      then Inl (Compacted start_revision (compacted s))
      else
        (case validate_filter req of
           Inl e \<Rightarrow> Inl e
         | Inr _ \<Rightarrow>
             Inr (sort_key ev_revision (map event_of
               (filter (\<lambda>r. mod_revision r > start_revision \<and> filter_contains req (row_key r))
                 (rows s))))))"

section \<open>Runs of a store\<close>

datatype kine_op =
    OpCreate kbytes kbytes int
  | OpUpdate kbytes kbytes int
  | OpPut kbytes kbytes int
  | OpDelete kbytes
  | OpCompact Revision

fun kine_step :: "Store \<Rightarrow> kine_op \<Rightarrow> Store" where
  "kine_step s (OpCreate k v l) = fst (kine_create s k v l)"
| "kine_step s (OpUpdate k v l) = fst (kine_update s k v l)"
| "kine_step s (OpPut k v l) = fst (kine_put s k v l)"
| "kine_step s (OpDelete k) = fst (kine_delete s k)"
| "kine_step s (OpCompact t) = fst (compact s t)"

inductive kine_run :: "Store \<Rightarrow> kine_op list \<Rightarrow> Store \<Rightarrow> bool" where
  kine_nil: "kine_run s [] s"
| kine_snoc: "kine_run s ops s' \<Longrightarrow> kine_run s (ops @ [op]) (kine_step s' op)"

section \<open>The abstract key/value store\<close>

text \<open>
  What a client may assume: a map from keys to entries and a counter. Every write takes the next
  revision; compaction is invisible.
\<close>

record kv_entry =
  e_value :: kbytes
  e_lease :: int
  e_create :: Revision
  e_mod :: Revision

record kv_spec =
  spec_rev :: Revision
  spec_map :: "kbytes \<Rightarrow> kv_entry option"

definition spec_write :: "kv_spec \<Rightarrow> kbytes \<Rightarrow> kbytes \<Rightarrow> int \<Rightarrow> kv_spec" where
  "spec_write a k v l =
     (let rv = spec_rev a + 1 in
      \<lparr>spec_rev = rv,
       spec_map = (spec_map a)(k \<mapsto> \<lparr>e_value = v, e_lease = l,
         e_create = (case spec_map a k of Some e \<Rightarrow> e_create e | None \<Rightarrow> rv), e_mod = rv\<rparr>)\<rparr>)"

fun spec_step :: "kv_spec \<Rightarrow> kine_op \<Rightarrow> kv_spec" where
  "spec_step a (OpPut k v l) = (if k = [] then a else spec_write a k v l)"
| "spec_step a (OpCreate k v l) =
     (if k = [] \<or> spec_map a k \<noteq> None then a else spec_write a k v l)"
| "spec_step a (OpUpdate k v l) =
     (if k = [] \<or> spec_map a k = None then a else spec_write a k v l)"
| "spec_step a (OpDelete k) =
     (if k = [] \<or> spec_map a k = None then a
      else a\<lparr>spec_rev := spec_rev a + 1, spec_map := (spec_map a)(k := None)\<rparr>)"
| "spec_step a (OpCompact t) = a"

definition entry_of :: "Row \<Rightarrow> kv_entry" where
  "entry_of r = \<lparr>e_value = row_value r, e_lease = row_lease r, e_create = create_revision r,
     e_mod = mod_revision r\<rparr>"

definition abs_store :: "Store \<Rightarrow> kv_spec" where
  "abs_store s = \<lparr>spec_rev = current_revision s,
     spec_map = (\<lambda>k. map_option entry_of (get_live s k))\<rparr>"

section \<open>What compaction keeps\<close>

lemma map_of_record_latest:
  "map_of (record_latest row out) k =
     (if k = row_key row
      then Some (case map_of out k of Some rv \<Rightarrow> max rv (mod_revision row) | None \<Rightarrow> mod_revision row)
      else map_of out k)"
  by (induction row out rule: record_latest.induct) auto

lemma keys_record_latest:
  "distinct (map fst out) \<Longrightarrow> distinct (map fst (record_latest row out))"
proof (induction row out rule: record_latest.induct)
  case (2 row k rv out)
  have "fst ` set (record_latest row out) \<subseteq> insert (row_key row) (fst ` set out)"
    by (induction row out rule: record_latest.induct) auto
  with 2 show ?case by auto
qed simp

lemma survivors_map_of:
  assumes "sorted_wrt (\<lambda>r r'. mod_revision r < mod_revision r') rs"
  shows "map_of (latest_row_revision_per_key rs) k =
    map_option mod_revision (find (\<lambda>r. row_key r = k) (rev rs))"
  using assms
proof (induction rs rule: rev_induct)
  case (snoc x rs)
  then have less: "mod_revision y < mod_revision x" if "y \<in> set rs" for y
    using that by (auto simp: sorted_wrt_append)
  have "max (mod_revision y) (mod_revision x) = mod_revision x"
    if "find (\<lambda>r. row_key r = k) (rev rs) = Some y" for y
    using find_SomeD [OF that] less [of y] by simp
  with snoc show ?case
    by (cases "find (\<lambda>r. row_key r = k) (rev rs)")
      (auto simp: latest_row_revision_per_key_def map_of_record_latest sorted_wrt_append)
qed (simp add: latest_row_revision_per_key_def)

lemma survivors_distinct: "distinct (map fst (latest_row_revision_per_key rs))"
proof (induction rs rule: rev_induct)
  case (snoc x rs)
  then show ?case by (simp add: latest_row_revision_per_key_def keys_record_latest)
qed (simp add: latest_row_revision_per_key_def)

definition compact_keeps :: "Store \<Rightarrow> Revision \<Rightarrow> Row \<Rightarrow> bool" where
  "compact_keeps s target r \<longleftrightarrow>
     target < mod_revision r \<or> (latest_row s (row_key r) = Some r \<and> is_live r)"

lemma is_latest_iff:
  assumes "store_wf s" and "r \<in> set (rows s)"
  shows "list_ex (\<lambda>(k, rv). k = row_key r \<and> rv = mod_revision r)
      (latest_row_revision_per_key (rows s)) \<longleftrightarrow> latest_row s (row_key r) = Some r"
proof -
  have sorted: "sorted_wrt (\<lambda>r r'. mod_revision r < mod_revision r') (rows s)"
    using assms(1) by (simp add: store_wf_def)
  have "list_ex (\<lambda>(k, rv). k = row_key r \<and> rv = mod_revision r)
      (latest_row_revision_per_key (rows s)) \<longleftrightarrow>
      map_of (latest_row_revision_per_key (rows s)) (row_key r) = Some (mod_revision r)"
    using in_set_hm [OF survivors_distinct [of "rows s"], of "row_key r" "mod_revision r"]
    by (force simp: list_ex_iff)
  also have "\<dots> \<longleftrightarrow> (\<exists>x. latest_row s (row_key r) = Some x \<and> mod_revision x = mod_revision r)"
    using survivors_map_of [OF sorted, of "row_key r"] by (auto simp: latest_row_def)
  also have "\<dots> \<longleftrightarrow> latest_row s (row_key r) = Some r"
    using sorted_rows_inject [OF sorted _ assms(2)] latest_row_Some by metis
  finally show ?thesis .
qed

text \<open>A compaction that is not refused.\<close>

lemma compact_ok:
  assumes "store_wf s" and "compact s target = (s', Inr rep)"
  shows "s' = s\<lparr>rows := filter (compact_keeps s target) (rows s), compacted := target\<rparr>"
    and "compacted s < target" and "target \<le> current_revision s"
    and "cr_compacted rep = target"
    and "removed rep + remaining rep = length (rows s)" and "remaining rep = length (rows s')"
proof -
  have keep: "filter (\<lambda>r. let is_latest = list_ex (\<lambda>(k, rv). k = row_key r \<and> rv = mod_revision r)
        (latest_row_revision_per_key (rows s)) in
      if mod_revision r > target then True else if is_latest then is_live r else False) (rows s) =
      filter (compact_keeps s target) (rows s)"
    using is_latest_iff [OF assms(1)]
    by (intro filter_cong) (auto simp: compact_keeps_def Let_def)
  show "s' = s\<lparr>rows := filter (compact_keeps s target) (rows s), compacted := target\<rparr>"
    "compacted s < target" "target \<le> current_revision s" "cr_compacted rep = target"
    "removed rep + remaining rep = length (rows s)" "remaining rep = length (rows s')"
    using assms(2) keep
    by (auto simp: compact_def install_compacted_def Let_def split: if_splits)
qed

lemma compact_refused: "compact s target = (s', Inl e) \<Longrightarrow> s' = s"
  by (auto simp: compact_def Let_def split: if_splits)

lemma compact_latest_at:
  assumes wf: "store_wf s" and ok: "compact s target = (s', Inr rep)"
  shows "latest_at s' k rv =
    (case latest_at s k rv of Some r \<Rightarrow> if compact_keeps s target r then Some r else None
     | None \<Rightarrow> None)"
proof -
  have sorted: "sorted_wrt (\<lambda>r r'. mod_revision r < mod_revision r') (rows s)"
    using wf by (simp add: store_wf_def)
  let ?P = "\<lambda>r. row_key r = k \<and> mod_revision r \<le> rv"
  have rows': "rows s' = filter (compact_keeps s target) (rows s)"
    using compact_ok(1) [OF wf ok] by simp
  have sorted': "sorted_wrt (\<lambda>r r'. mod_revision r < mod_revision r') (rows s')"
    using sorted by (simp add: rows' sorted_wrt_filter)
  have none: "latest_at s' k rv = None"
    if dropped: "\<And>r. latest_at s k rv = Some r \<Longrightarrow> \<not> compact_keeps s target r"
  proof (rule ccontr)
    assume "latest_at s' k rv \<noteq> None"
    then obtain x where x: "x \<in> set (rows s)" "?P x" "compact_keeps s target x"
      using latest_at_Some by (fastforce simp: rows')
    then obtain r where r: "latest_at s k rv = Some r"
      by (cases "latest_at s k rv") (auto simp: latest_at_def find_eq_None)
    then have "mod_revision x \<le> mod_revision r" "row_key r = k" "r \<in> set (rows s)"
      using find_rev_sorted [OF sorted, of ?P r] x by (auto simp: latest_at_def)
    moreover have "mod_revision r \<le> mod_revision x" if "latest_row s k = Some x"
      using find_rev_sorted [OF sorted, of "\<lambda>r. row_key r = k" x] that calculation
      by (auto simp: latest_row_def)
    ultimately show False
      using dropped [OF r] x sorted_rows_inject [OF sorted x(1)]
      by (fastforce simp: compact_keeps_def)
  qed
  show ?thesis
  proof (cases "latest_at s k rv")
    case None
    with none show ?thesis by simp
  next
    case (Some r)
    then have "latest_at s' k rv = Some r" if "compact_keeps s target r"
      using find_rev_sorted [OF sorted, of ?P r] find_rev_sorted [OF sorted', of ?P r] that
      by (auto simp: latest_at_def rows')
    with Some none show ?thesis by auto
  qed
qed

end
