(* ===== verification/Kine_Consistency.thy ===== *)
theory Kine_Consistency
  imports Kine_History
begin

text \<open>
  What a client of the kine store may rely on: the writes refine an abstract key/value store and
  compaction is invisible to it, historical reads are repeatable, ranges return exactly the
  selected snapshot, and a range followed by a watch tracks the store without gaps.
\<close>

section \<open>Compaction keeps the present\<close>

lemma compact_cases:
  obtains (refused) "fst (compact s t) = s"
  | (accepted) s' rep where "compact s t = (s', Inr rep)" "fst (compact s t) = s'"
proof (cases "compact s t")
  case (Pair s' res)
  then show ?thesis
    using refused compact_refused [of s t s'] accepted by (cases res) (metis fst_conv)+
qed

lemma store_wf_compact [inv_intros]:
  assumes "store_wf s"
  shows "store_wf (fst (compact s t))"
proof (cases rule: compact_cases [of s t])
  case refused
  with assms show ?thesis by simp
next
  case (accepted s' rep)
  with compact_ok(1-3) [OF assms accepted(1)] assms show ?thesis
    by (auto simp: store_wf_def current_revision_def sorted_wrt_filter)
qed

lemma compact_current_revision [frame_simps]:
  "current_revision (fst (compact s t)) = current_revision s"
  by (simp add: compact_def install_compacted_def current_revision_def Let_def)

lemma compact_floor_mono:
  assumes "store_wf s"
  shows "compacted s \<le> compacted (fst (compact s t))"
  by (simp add: compact_def install_compacted_def Let_def)

lemma compact_state_at:
  assumes "store_wf s" and "compact s t = (s', Inr rep)"
  shows "state_at s' rv k = Some r \<longleftrightarrow>
    state_at s rv k = Some r \<and> (t < mod_revision r \<or> latest_row s k = Some r)"
proof (cases "latest_at s k rv")
  case None
  then show ?thesis using compact_latest_at [OF assms, of k rv] by (simp add: state_at_def)
next
  case (Some x)
  then have "row_key x = k" by (rule latest_at_Some)
  with Some show ?thesis
    using compact_latest_at [OF assms, of k rv]
    by (auto simp: state_at_def compact_keeps_def)
qed

lemma compact_get_live:
  assumes "store_wf s"
  shows "get_live (fst (compact s t)) k = get_live s k"
proof (cases rule: compact_cases [of s t])
  case refused
  then show ?thesis by simp
next
  case (accepted s' rep)
  let ?n = "current_revision s"
  have wf': "store_wf s'" and n: "current_revision s' = ?n"
    using store_wf_compact [OF assms, of t] compact_current_revision [of s t] accepted by simp_all
  have now: "get_live s' k = state_at s' ?n k" "get_live s k = state_at s ?n k"
    using state_at_current [OF wf', of ?n k] state_at_current [OF assms, of ?n k] n by simp_all
  have "get_live s' k = Some r \<longleftrightarrow> get_live s k = Some r" for r
    using compact_state_at [OF assms accepted(1), of ?n k r] get_live_Some(4) [of s k r]
    by (auto simp: now)
  then show ?thesis using accepted(2) by (intro option_eqI) simp
qed

section \<open>Steps and runs\<close>

text \<open>Every step is a refusal, an append or a compaction.\<close>

lemma kine_step_cases:
  obtains (same) "kine_step s op = s"
  | (append) k v l d where "k \<noteq> []" "d \<longrightarrow> v = [] \<and> l = 0" "d \<longrightarrow> get_live s k \<noteq> None"
      "kine_step s op = append_row s (new_row s k v l d)" "\<nexists>t. op = OpCompact t"
  | (compaction) t where "op = OpCompact t" "kine_step s op = fst (compact s t)"
proof (cases op)
  case (OpCreate k v l)
  then show ?thesis using same append [of k False v l]
    by (cases "k = [] \<or> get_live s k \<noteq> None") (auto simp: kine_create_eq)
next
  case (OpUpdate k v l)
  then show ?thesis using same append [of k False v l]
    by (cases "k = [] \<or> get_live s k = None") (auto simp: kine_update_eq)
next
  case (OpPut k v l)
  then show ?thesis using same append [of k False v l]
    by (cases "k = []") (auto simp: kine_put_eq)
next
  case (OpDelete k)
  then show ?thesis using same append [of k True "[]" 0]
    by (cases "k = [] \<or> get_live s k = None") (auto simp: kine_delete_eq)
qed (use compaction in simp)

lemma step_revision_mono:
  assumes "0 \<le> current_revision s" and "current_revision s \<le> i64_max"
  shows "current_revision s \<le> current_revision (kine_step s op) \<and>
    current_revision (kine_step s op) \<le> i64_max"
  by (cases rule: kine_step_cases [of s op])
    (use assms saturating_succ_bounds in \<open>auto simp: compact_current_revision\<close>)

lemma store_wf_step [inv_intros]:
  assumes "store_wf s" and "can_write (kine_step s op)"
  shows "store_wf (kine_step s op)"
proof -
  have "can_write s"
    using assms step_revision_mono [of s op] by (simp add: store_wf_def)
  with assms(1) show ?thesis
    by (cases rule: kine_step_cases [of s op]) (auto simp: store_wf_append store_wf_compact)
qed

lemma kine_run_revision:
  assumes "kine_run s ops s'" and "0 \<le> current_revision s" and "current_revision s \<le> i64_max"
  shows "current_revision s \<le> current_revision s' \<and> current_revision s' \<le> i64_max"
  using assms
proof (induction rule: kine_run.induct)
  case (kine_snoc s ops s' op)
  then show ?case using step_revision_mono [of s' op] by simp
qed simp

lemma kine_run_wf:
  assumes "kine_run s ops s'" and "store_wf s" and "can_write s'"
  shows "store_wf s'"
  using assms
proof (induction rule: kine_run.induct)
  case (kine_snoc s ops s' op)
  have "0 \<le> current_revision s'" "current_revision s' \<le> i64_max"
    using kine_run_revision [OF kine_snoc.hyps] kine_snoc.prems(1) by (auto simp: store_wf_def)
  then have "can_write s'" using step_revision_mono [of s' op] kine_snoc.prems(2) by simp
  with kine_snoc store_wf_step show ?case by simp
qed simp

text \<open>Room at the end of a run means room all along it.\<close>

lemma step_can_write:
  assumes "store_wf s" and "can_write (kine_step s op)"
  shows "can_write s"
  using assms step_revision_mono [of s op] by (simp add: store_wf_def)

lemma kine_run_induct [consumes 3, case_names nil step]:
  assumes "kine_run s ops s'" and "store_wf s" and "can_write s'"
    and nil: "P [] s"
    and step: "\<And>ops q op. kine_run s ops q \<Longrightarrow> store_wf q \<Longrightarrow> can_write q \<Longrightarrow> P ops q \<Longrightarrow>
      P (ops @ [op]) (kine_step q op)"
  shows "P ops s'"
  using assms(1-3) nil step
proof (induction rule: kine_run.induct)
  case (kine_snoc s ops q op)
  have "0 \<le> current_revision q" "current_revision q \<le> i64_max"
    using kine_run_revision [OF kine_snoc.hyps] kine_snoc.prems(1) by (auto simp: store_wf_def)
  then have cw: "can_write q" using step_revision_mono [of q op] kine_snoc.prems(2) by simp
  moreover have "store_wf q" using kine_run_wf [OF kine_snoc.hyps kine_snoc.prems(1) cw] .
  ultimately show ?case using kine_snoc by blast
qed simp

section \<open>The log beyond a revision\<close>

text \<open>
  The rows appended since a revision are all still there as long as the floor has not passed it,
  and they account for every difference between the two live views.
\<close>

definition apply_row :: "Row \<Rightarrow> (kbytes \<Rightarrow> Row option) \<Rightarrow> kbytes \<Rightarrow> Row option" where
  "apply_row r m = m(row_key r := (if is_live r then Some r else None))"

lemma run_log:
  assumes "kine_run s ops s'" and "store_wf s" and "can_write s'"
  defines "n \<equiv> current_revision s"
  shows "\<exists>new. get_live s' = fold apply_row new (get_live s) \<and>
    (compacted s' \<le> n \<longrightarrow> filter (\<lambda>r. n < mod_revision r) (rows s') = new)"
  using assms(1-3)
proof (induction rule: kine_run_induct)
  case nil
  have "filter (\<lambda>r. n < mod_revision r) (rows s) = []"
    using store_wf_row(4) [OF assms(2)] by (fastforce simp: n_def filter_empty_conv)
  then show ?case by (intro exI [of _ "[]"]) simp
next
  case (step ops q op)
  then obtain new where view: "get_live q = fold apply_row new (get_live s)"
    and log: "compacted q \<le> n \<Longrightarrow> filter (\<lambda>r. n < mod_revision r) (rows q) = new" by blast
  have ge: "n \<le> current_revision q"
    using kine_run_revision [OF step.hyps(1)] assms(2) by (simp add: n_def store_wf_def)
  show ?case
  proof (cases rule: kine_step_cases [of q op])
    case same
    with view log show ?thesis by auto
  next
    case (append k v l d)
    let ?r = "new_row q k v l d"
    have "get_live (kine_step q op) = apply_row ?r (get_live q)"
      using append by (auto simp: get_live_append apply_row_def fun_eq_iff)
    moreover have "n < mod_revision ?r"
      using step.hyps ge saturating_succ [of "current_revision q"] by (simp add: store_wf_def)
    ultimately show ?thesis
      using append view log by (intro exI [of _ "new @ [?r]"]) simp
  next
    case (compaction t)
    have "filter (\<lambda>r. n < mod_revision r) (rows (fst (compact q t))) = new"
      if floor: "compacted (fst (compact q t)) \<le> n"
    proof (cases rule: compact_cases [of q t])
      case refused
      with floor log show ?thesis by simp
    next
      case (accepted s' rep)
      note ok = compact_ok(1,2) [OF step.hyps(2) accepted(1)]
      then have le: "t \<le> n" using floor accepted by simp
      then have "filter (\<lambda>r. n < mod_revision r) (rows s') =
          filter (\<lambda>r. n < mod_revision r) (rows q)"
        using ok(1) by (auto simp: compact_keeps_def intro: filter_cong)
      then show ?thesis using log ok(2) le accepted(2) by simp
    qed
    moreover have "get_live (kine_step q op) = get_live q"
      using compaction compact_get_live [OF step.hyps(2)] by (simp add: fun_eq_iff)
    ultimately show ?thesis using compaction view by auto
  qed
qed

section \<open>Refinement\<close>

lemma abs_append:
  assumes "store_wf s" and "can_write s"
  shows "abs_store (append_row s (new_row s k v l False)) = spec_write (abs_store s) k v l"
    and "abs_store (append_row s (new_row s k [] 0 True)) =
      (abs_store s)\<lparr>spec_rev := spec_rev (abs_store s) + 1, spec_map := (spec_map (abs_store s))(k := None)\<rparr>"
proof -
  have "i64_saturating_add (current_revision s) 1 = current_revision s + 1"
    using assms by (simp add: store_wf_def saturating_succ)
  then show "abs_store (append_row s (new_row s k v l False)) = spec_write (abs_store s) k v l"
    "abs_store (append_row s (new_row s k [] 0 True)) =
      (abs_store s)\<lparr>spec_rev := spec_rev (abs_store s) + 1, spec_map := (spec_map (abs_store s))(k := None)\<rparr>"
    by (auto simp: abs_store_def spec_write_def get_live_append entry_of_def new_row_def is_live_def
        Let_def fun_eq_iff split: option.splits)
qed

lemma abs_step:
  assumes "store_wf s" and "can_write s"
  shows "abs_store (kine_step s op) = spec_step (abs_store s) op"
proof -
  have live: "spec_map (abs_store s) k = None \<longleftrightarrow> get_live s k = None" for k
    by (simp add: abs_store_def)
  show ?thesis
  proof (cases op)
    case (OpCompact t)
    then show ?thesis
      by (simp add: abs_store_def compact_current_revision compact_get_live [OF assms(1)])
  qed (use abs_append [OF assms] live in \<open>auto simp: kine_write_eqs\<close>)
qed

section \<open>Snapshots and their events\<close>

text \<open>What a client keeps of a row, and how it follows the events of a watch.\<close>

type_synonym cache = "kbytes \<Rightarrow> (kbytes \<times> Revision \<times> Revision) option"

definition row_view :: "Row \<Rightarrow> kbytes \<times> Revision \<times> Revision" where
  "row_view r = (row_value r, create_revision r, mod_revision r)"

definition snapshot :: "Row list \<Rightarrow> cache" where
  "snapshot rs = map_of (map (\<lambda>r. (row_key r, row_view r)) rs)"

definition apply_event :: "WatchEvent \<Rightarrow> cache \<Rightarrow> cache" where
  "apply_event e m =
     (case kind e of
        Put \<Rightarrow> m(ev_key e \<mapsto> (ev_value e, ev_create_revision e, ev_revision e))
      | Delete \<Rightarrow> m(ev_key e := None))"

lemma filter_contains_eq: "filter_contains = range_contains"
  by (simp add: filter_contains_def range_contains_def fun_eq_iff)

lemma validate_filter_eq: "rq_limit req \<ge> 0 \<Longrightarrow> validate_filter req = range_validate req"
  by (simp add: validate_filter_def range_validate_def)

lemma snapshot_selection:
  "snapshot (selection s req rv) k =
     (if range_contains req k then map_option row_view (state_at s rv k) else None)"
proof (rule option_eqI)
  fix x
  let ?al = "map (\<lambda>r. (row_key r, row_view r)) (selection s req rv)"
  have "map fst ?al = map row_key (selection s req rv)" by simp
  then have "hm_ok ?al"
    using selection_sorted [of s req rv] by (simp only: strict_sorted_iff)
  then have "snapshot (selection s req rv) k = Some x \<longleftrightarrow> (k, x) \<in> set ?al"
    by (simp add: snapshot_def in_set_hm)
  also have "\<dots> \<longleftrightarrow> (\<exists>r. state_at s rv k = Some r \<and> range_contains req k \<and> x = row_view r)"
    by (auto simp: set_selection image_iff dest: state_at_key)
  finally show "snapshot (selection s req rv) k = Some x \<longleftrightarrow>
      (if range_contains req k then map_option row_view (state_at s rv k) else None) = Some x"
    by auto
qed

lemma replay_rows:
  "fold apply_event (map event_of (filter (\<lambda>r. P (row_key r)) new))
      (\<lambda>k. if P k then map_option row_view (m k) else None) =
    (\<lambda>k. if P k then map_option row_view (fold apply_row new m k) else None)"
proof (induction new arbitrary: m)
  case (Cons r new)
  show ?case
  proof (cases "P (row_key r)")
    case True
    then have "apply_event (event_of r) (\<lambda>k. if P k then map_option row_view (m k) else None) =
        (\<lambda>k. if P k then map_option row_view (apply_row r m k) else None)"
      by (auto simp: apply_event_def event_of_def apply_row_def row_view_def is_live_def fun_eq_iff)
    with True Cons.IH [of "apply_row r m"] show ?thesis by (simp cong: if_cong)
  next
    case False
    then have "(\<lambda>k. if P k then map_option row_view (m k) else None) =
        (\<lambda>k. if P k then map_option row_view (apply_row r m k) else None)"
      by (auto simp: apply_row_def fun_eq_iff)
    with False Cons.IH [of "apply_row r m"] show ?thesis by (simp cong: if_cong)
  qed
qed (simp cong: if_cong)

lemma watch_Inr:
  assumes "watch s req n = Inr evs"
  shows "0 \<le> n \<and> (n \<noteq> 0 \<longrightarrow> compacted s \<le> n) \<and> validate_filter req = Inr () \<and>
    evs = sort_key ev_revision (map event_of
      (filter (\<lambda>r. n < mod_revision r \<and> filter_contains req (row_key r)) (rows s)))"
proof (cases "validate_filter req")
  case (Inl e)
  with assms show ?thesis by (simp add: watch_def split: if_splits)
next
  case (Inr u)
  with assms show ?thesis by (auto simp: watch_def not_less split: if_splits)
qed

lemma watch_events:
  assumes "store_wf s" and "watch s req n = Inr evs"
  shows "evs = map event_of (filter (\<lambda>r. range_contains req (row_key r))
      (filter (\<lambda>r. n < mod_revision r) (rows s)))"
    and "sorted_wrt (<) (map ev_revision evs)" and "0 \<le> n" and "n \<noteq> 0 \<longrightarrow> compacted s \<le> n"
    and "validate_filter req = Inr ()"
proof -
  let ?new = "filter (\<lambda>r. range_contains req (row_key r)) (filter (\<lambda>r. n < mod_revision r) (rows s))"
  have "sorted_wrt (\<lambda>r r'. mod_revision r < mod_revision r') ?new"
    using assms(1) by (simp add: store_wf_def sorted_wrt_filter)
  then have strict: "sorted_wrt (<) (map ev_revision (map event_of ?new))"
    by (simp add: sorted_wrt_map event_of_def comp_def)
  then have "sort_key ev_revision (map event_of ?new) = map event_of ?new"
    by (intro sort_key_id_if_sorted) (simp add: strict_sorted_iff)
  moreover have "filter (\<lambda>r. n < mod_revision r \<and> range_contains req (row_key r)) (rows s) = ?new"
    by simp
  ultimately show evs: "evs = map event_of ?new"
    using watch_Inr [OF assms(2)] by (simp only: filter_contains_eq)
  from strict show "sorted_wrt (<) (map ev_revision evs)" by (simp only: evs)
  show "0 \<le> n" "n \<noteq> 0 \<longrightarrow> compacted s \<le> n" "validate_filter req = Inr ()"
    using watch_Inr [OF assms(2)] by auto
qed

lemma execute_now:
  assumes "rq_revision req = 0" and "rq_limit req = 0" and "range_validate req = Inr ()"
  shows "range_execute q req = Inr \<lparr>rs_revision = current_revision q,
      kvs = selection q req (current_revision q), rs_more = False,
      rs_count = int (length (selection q req (current_revision q)))\<rparr>"
  using assms by (simp add: range_execute_eq resolve_read_def CURRENT_def current_revision_def)

section \<open>A store to run\<close>

text \<open>One key written twice, used by the worked instances below.\<close>

definition demo_store :: Store where
  "demo_store = kine_step (kine_step Store_new (OpPut [107] [1] 0)) (OpPut [107] [2] 0)"

lemma kine_run_single: "kine_run s [op] (kine_step s op)"
  using kine_snoc [OF kine_nil, of s op] by simp

lemma demo_run: "kine_run Store_new [OpPut [107] [1] 0, OpPut [107] [2] 0] demo_store"
  using kine_snoc [OF kine_run_single, of Store_new "OpPut [107] [1] 0" "OpPut [107] [2] 0"]
  by (simp add: demo_store_def)

lemma demo_revision: "current_revision demo_store = 2" "compacted demo_store = 0"
  by (simp_all add: demo_store_def kine_put_eq)
    (simp_all add: Store_new_def Clock_new_def current_revision_def i64_saturating_add_def
      i64_max_def i64_min_def)

lemma demo_store_wf: "store_wf demo_store"
  using kine_run_wf [OF demo_run store_wf_new] by (simp add: demo_revision i64_max_def)

lemma demo_next: "current_revision (kine_step demo_store op) \<le> 3"
  by (cases rule: kine_step_cases [of demo_store op])
    (auto simp: demo_revision compact_current_revision i64_saturating_add_def i64_max_def
      i64_min_def)

section \<open>Properties of the revisioned store\<close>

text \<open>
  C6. The store refines its abstract specification. Whatever sequence of creates, updates, puts,
  deletes and compactions is applied to a fresh store (short of exhausting the 63-bit revision
  clock), the store is well formed and its live view and revision are those of the abstract
  key/value store driven by the same operations; compactions change nothing of it.
\<close>

theorem store_refines_spec:
  assumes "kine_run Store_new ops s" and "current_revision s < i64_max"
  shows "store_wf s \<and>
    abs_store s = foldl spec_step \<lparr>spec_rev = 0, spec_map = Map.empty\<rparr> ops"
proof -
  have "abs_store s = foldl spec_step \<lparr>spec_rev = 0, spec_map = Map.empty\<rparr> ops"
    using assms(1) store_wf_new assms(2)
  proof (induction rule: kine_run_induct)
    case nil
    show ?case
      by (simp add: abs_store_def Store_new_def Clock_new_def current_revision_def get_live_def
          latest_row_def)
  next
    case (step ops q op)
    then show ?case by (simp add: abs_step)
  qed
  with kine_run_wf [OF assms(1) store_wf_new assms(2)] show ?thesis by simp
qed

theorem store_refines_spec_witness: "store_wf demo_store"
  using store_refines_spec [OF demo_run] by (simp add: demo_revision i64_max_def)

text \<open>
  Historical reads are repeatable: a range pinned to a revision the store has already reached
  gives the same answer, errors included, after any later creates, updates, puts and deletes.
\<close>

theorem repeatable_read:
  assumes "kine_run s ops s'" and "store_wf s" and "current_revision s' < i64_max"
    and "\<forall>t. OpCompact t \<notin> set ops"
    and "0 < rq_revision req" and "rq_revision req \<le> current_revision s"
  shows "range_execute s' req = range_execute s req"
proof -
  let ?rv = "rq_revision req"
  have "(\<forall>t. OpCompact t \<notin> set ops) \<longrightarrow>
      compacted s' = compacted s \<and> (\<forall>k. state_at s' ?rv k = state_at s ?rv k)"
    using assms(1-3)
  proof (induction rule: kine_run_induct)
    case (step ops q op)
    have "?rv \<le> current_revision q"
      using kine_run_revision [OF step.hyps(1)] assms(2,6) by (simp add: store_wf_def)
    then have "\<not> i64_saturating_add (current_revision q) 1 \<le> ?rv"
      using step.hyps saturating_succ [of "current_revision q"] by (simp add: store_wf_def)
    with step show ?case
      by (cases rule: kine_step_cases [of q op]) (auto simp: state_at_def latest_at_append)
  qed simp
  then have same: "compacted s' = compacted s" "\<And>k. state_at s' ?rv k = state_at s ?rv k"
    using assms(4) by auto
  have "?rv \<le> current_revision s'"
    using kine_run_revision [OF assms(1)] assms(2,6) by (simp add: store_wf_def)
  then have "resolve_read (clock s') ?rv = Inr ?rv" "resolve_read (clock s) ?rv = Inr ?rv"
    using assms(5,6) by (simp_all add: resolve_read_def CURRENT_def current_revision_def)
  then show ?thesis
    using same selection_cong [of req req s' ?rv s ?rv] assms(5)
    by (cases "range_validate req") (simp_all add: range_execute_eq)
qed

theorem repeatable_read_witness:
  "range_execute (kine_step demo_store (OpDelete [107])) (at_revision (RangeRequest_key [107]) 1) =
     range_execute demo_store (at_revision (RangeRequest_key [107]) 1)"
  using demo_next [of "OpDelete [107]"]
  by (intro repeatable_read [OF kine_run_single demo_store_wf])
    (simp_all add: i64_max_def at_revision_def RangeRequest_key_def demo_revision)

text \<open>
  A range read returns the snapshot it promises: for a well-formed store and a request that is
  valid, not in the future and not below the compaction floor, the answer lists in strictly
  ascending key order the rows visible at the read revision whose key the request selects, cut to
  the limit, with the count before the cut and the flag saying whether anything was cut.
\<close>

theorem range_returns_snapshot:
  assumes "range_execute s req = Inr resp"
  shows "\<exists>all. sorted_wrt (<) (map row_key all) \<and>
    set all = {r. \<exists>k. state_at s (rs_revision resp) k = Some r \<and> range_contains req k} \<and>
    kvs resp = (if rq_limit req = 0 then all else take (nat (rq_limit req)) all) \<and>
    rs_count resp = int (length all) \<and> (rs_more resp \<longleftrightarrow> length (kvs resp) < length all) \<and>
    rs_revision resp = (if rq_revision req = 0 then current_revision s else rq_revision req) \<and>
    (rq_revision req = 0 \<or> compacted s \<le> rq_revision req \<and> rq_revision req \<le> current_revision s)"
proof -
  obtain rv where "range_validate req = Inr ()" and rv: "resolve_read (clock s) (rq_revision req) = Inr rv"
    and floor: "\<not> (rq_revision req \<noteq> 0 \<and> rq_revision req < compacted s)"
    and resp: "resp = \<lparr>rs_revision = rv,
      kvs = (if rq_limit req > 0 then take (nat (rq_limit req)) (selection s req rv)
             else selection s req rv),
      rs_more = (rq_limit req > 0 \<and> int (length (selection s req rv)) > rq_limit req),
      rs_count = int (length (selection s req rv))\<rparr>"
    using assms by (auto simp: range_execute_eq split: sum.splits if_splits)
  moreover from this have "0 \<le> rq_limit req"
    by (auto simp: range_validate_def split: if_splits)
  moreover have "rv = (if rq_revision req = 0 then current_revision s else rq_revision req) \<and>
      (rq_revision req = 0 \<or> rq_revision req \<le> current_revision s)"
    using rv by (auto simp: resolve_read_def CURRENT_def current_revision_def split: if_splits)
  ultimately show ?thesis
    by (intro exI [of _ "selection s req rv"])
      (auto simp: selection_sorted set_selection)
qed

theorem range_returns_snapshot_witness:
  "\<exists>resp all. range_execute demo_store RangeRequest_all = Inr resp \<and> kvs resp = all \<and>
     sorted_wrt (<) (map row_key all) \<and> set all = {r. \<exists>k. state_at demo_store 2 k = Some r}"
proof -
  obtain resp where "range_execute demo_store RangeRequest_all = Inr resp" "rs_revision resp = 2"
    using execute_now [of RangeRequest_all demo_store] demo_revision
    by (simp add: RangeRequest_all_def range_validate_def)
  with range_returns_snapshot [of demo_store RangeRequest_all resp] show ?thesis
    by (auto simp: RangeRequest_all_def range_contains_def)
qed

text \<open>
  C7. List and watch leave no gap. A client that reads the current state of a range without a limit
  (the request names no revision and no limit) from a store that has been written to, remembers the
  revision of the answer, and later replays the events of a watch on the same keys from that
  revision, holds for every key exactly the value, creation revision and modification revision that
  a fresh read would return, and no other key, whatever creates, updates, puts, deletes and
  compactions happened in between, as long as the watch is not refused and the 63-bit revision clock
  is not exhausted. The lease of a row is not part of a watch event and so not part of what the client keeps.
\<close>

theorem list_then_watch:
  assumes "store_wf s" and "0 < current_revision s"
    and "kine_run s ops s'" and "current_revision s' < i64_max"
    and "rq_revision req = 0" and "rq_limit req = 0"
    and "range_execute s req = Inr resp" and "watch s' req (rs_revision resp) = Inr evs"
  shows "\<exists>resp'. range_execute s' req = Inr resp' \<and>
    fold apply_event evs (snapshot (kvs resp)) = snapshot (kvs resp')"
proof -
  let ?n = "current_revision s"
  have wf': "store_wf s'" using kine_run_wf assms(1,3,4) by blast
  have valid: "range_validate req = Inr ()"
    using assms(7) by (auto simp: range_execute_eq split: sum.splits)
  note exec = execute_now [OF assms(5,6) valid]
  have resp: "rs_revision resp = ?n" "kvs resp = selection s req ?n"
    using exec [of s] assms(7) by auto
  have live: "snapshot (selection q req (current_revision q)) =
      (\<lambda>k. if range_contains req k then map_option row_view (get_live q k) else None)"
    if "store_wf q" for q
    using that by (simp add: snapshot_selection state_at_current fun_eq_iff)
  obtain new where view: "get_live s' = fold apply_row new (get_live s)"
    and log: "compacted s' \<le> ?n \<longrightarrow> filter (\<lambda>r. ?n < mod_revision r) (rows s') = new"
    using run_log [OF assms(3,1,4)] by blast
  have "evs = map event_of (filter (\<lambda>r. range_contains req (row_key r)) new)"
    using watch_events(1,4) [OF wf' assms(8)] log assms(2) resp(1)
    by (auto simp del: filter_filter)
  then have "fold apply_event evs (snapshot (kvs resp)) =
      snapshot (selection s' req (current_revision s'))"
    using replay_rows [of "range_contains req" new "get_live s"] view
    by (simp add: resp(2) live [OF assms(1)] live [OF wf'] cong: if_cong)
  with exec [of s'] show ?thesis by simp
qed

theorem list_then_watch_witness:
  "\<exists>resp evs resp'. range_execute demo_store RangeRequest_all = Inr resp \<and>
     watch (kine_step demo_store (OpDelete [107])) RangeRequest_all 2 = Inr evs \<and>
     range_execute (kine_step demo_store (OpDelete [107])) RangeRequest_all = Inr resp' \<and>
     fold apply_event evs (snapshot (kvs resp)) = snapshot (kvs resp')"
proof -
  let ?s' = "kine_step demo_store (OpDelete [107])"
  obtain resp where resp: "range_execute demo_store RangeRequest_all = Inr resp" "rs_revision resp = 2"
    using execute_now [of RangeRequest_all demo_store] demo_revision
    by (simp add: RangeRequest_all_def range_validate_def)
  have "compacted ?s' = 0" by (simp add: kine_delete_eq demo_revision)
  then obtain evs where evs: "watch ?s' RangeRequest_all 2 = Inr evs"
    by (simp add: watch_def validate_filter_def RangeRequest_all_def)
  have "\<exists>resp'. range_execute ?s' RangeRequest_all = Inr resp' \<and>
      fold apply_event evs (snapshot (kvs resp)) = snapshot (kvs resp')"
    using demo_next [of "OpDelete [107]"] resp evs
    by (intro list_then_watch [OF demo_store_wf _ kine_run_single])
      (simp_all add: demo_revision i64_max_def RangeRequest_all_def)
  with resp evs show ?thesis by blast
qed

text \<open>
  A watch can be resumed anywhere: its events come in strictly ascending revision order, and
  restarting it from a later revision gives exactly the events beyond that revision, neither
  repeating nor dropping one.
\<close>

theorem watch_resumes:
  assumes "store_wf s" and "watch s req n = Inr evs" and "n \<le> m" and "compacted s \<le> m"
  shows "watch s req m = Inr (filter (\<lambda>e. m < ev_revision e) evs) \<and>
    sorted_wrt (<) (map ev_revision evs)"
proof -
  note w = watch_events [OF assms(1,2)]
  let ?P = "\<lambda>r. range_contains req (row_key r)"
  have evs': "filter (\<lambda>e. m < ev_revision e) evs =
      map event_of (filter ?P (filter (\<lambda>r. m < mod_revision r) (rows s)))"
    using assms(3)
    by (auto simp: w(1) filter_map comp_def event_of_def intro!: arg_cong [where f = "map event_of"]
        filter_cong)
  obtain evs2 where ok: "watch s req m = Inr evs2"
    using w(3,5) assms(3,4) by (simp add: watch_def)
  with watch_events(1) [OF assms(1) ok] evs' w(2) show ?thesis by simp
qed

theorem watch_resumes_witness:
  "\<exists>evs. watch demo_store RangeRequest_all 0 = Inr evs \<and>
     watch demo_store RangeRequest_all 1 = Inr (filter (\<lambda>e. 1 < ev_revision e) evs)"
proof -
  obtain evs where "watch demo_store RangeRequest_all 0 = Inr evs"
    by (simp add: watch_def validate_filter_def RangeRequest_all_def)
  with watch_resumes [OF demo_store_wf this, of 1] demo_revision show ?thesis by simp
qed

text \<open>
  What compaction costs, exactly. An accepted compaction moves the floor forward to its target,
  keeps the store well formed and every key's live row, reports the rows it dropped, and leaves a
  historical view with precisely those rows that are newer than the target or still the latest of
  their key.
\<close>

theorem compaction_exact:
  assumes "store_wf s" and "compact s t = (s', Inr rep)"
  shows "store_wf s' \<and> compacted s < t \<and> compacted s' = t \<and>
    current_revision s' = current_revision s \<and> get_live s' = get_live s \<and>
    removed rep + length (rows s') = length (rows s) \<and>
    (\<forall>rv k r. state_at s' rv k = Some r \<longleftrightarrow>
       state_at s rv k = Some r \<and> (t < mod_revision r \<or> latest_row s k = Some r))"
proof -
  have "s' = fst (compact s t)" using assms(2) by simp
  moreover have "compacted s' = t" using compact_ok(1) [OF assms] by simp
  ultimately show ?thesis
    using compact_ok(2-6) [OF assms] compact_state_at [OF assms] store_wf_compact [OF assms(1), of t]
      compact_current_revision [of s t] compact_get_live [OF assms(1), of t]
    by (simp add: fun_eq_iff)
qed

theorem compaction_exact_witness:
  "\<exists>rep. compact demo_store 1 = (fst (compact demo_store 1), Inr rep) \<and>
     get_live (fst (compact demo_store 1)) = get_live demo_store"
proof -
  obtain rep where ok: "compact demo_store 1 = (fst (compact demo_store 1), Inr rep)"
    by (simp add: compact_def demo_revision Let_def)
  with compaction_exact [OF demo_store_wf ok] show ?thesis by blast
qed

text \<open>
  Compaction silently changes answers above its own floor. With one key written at revision 1
  and again at revision 2, a range at revision 1 returns the first value; after compacting to
  revision 1 the same read is still accepted, since 1 is not below the floor, and returns nothing.
\<close>

theorem compaction_loses_readable_history:
  "(\<exists>resp. range_execute demo_store (at_revision (RangeRequest_key [107]) 1) = Inr resp \<and>
      map row_value (kvs resp) = [[1]]) \<and>
   (\<exists>resp. range_execute (fst (compact demo_store 1)) (at_revision (RangeRequest_key [107]) 1) =
        Inr resp \<and> kvs resp = [])"
  by (simp add: demo_store_def kine_put_def Store_new_def Clock_new_def Clock_next_def
      i64_saturating_add_def i64_max_def i64_min_def get_live_def latest_row_def is_live_def
      range_execute_def range_validate_def at_revision_def RangeRequest_key_def resolve_read_def
      CURRENT_def collect_latest_def distinct_keys_in_order_def latest_at_def range_contains_def
      compact_def latest_row_revision_per_key_def install_compacted_def current_revision_def
      Let_def)

text \<open>
  A prefix scan is the interval etcd clients send for it: unless the prefix consists of
  \<open>0xFF\<close> bytes only, a range over the prefix gives the same answer on every store as the explicit
  range from the prefix to its \<open>prefix_successor\<close>.
\<close>

theorem prefix_scan_is_interval:
  assumes "b \<in> set p" and "b \<noteq> 0xFF"
  shows "range_execute s \<lparr>rq_key = p, rq_end = Prefix, rq_revision = rv, rq_limit = n\<rparr> =
    range_execute s \<lparr>rq_key = p, rq_end = Explicit (prefix_successor p), rq_revision = rv, rq_limit = n\<rparr>"
    (is "range_execute s ?a = range_execute s ?b")
proof -
  obtain h where h: "bump_last p = Some h"
    using bump_last_None [of p] assms by (cases "bump_last p") auto
  then have succ: "prefix_successor p = h" by (simp add: prefix_successor_def)
  have contains: "range_contains ?a k = range_contains ?b k" for k
    using prefix_interval [of k p] h by (simp add: range_contains_def succ)
  have "starts_with p p" by (simp add: starts_with_def)
  then have "p < h" using prefix_interval [of p p] h by simp
  then have "\<not> h \<le> p" by (meson leD)
  then have valid: "range_validate ?a = range_validate ?b"
    by (simp add: range_validate_def succ)
  have "selection s ?a r = selection s ?b r" for r
    using contains by (intro selection_cong) simp_all
  with valid show ?thesis by (intro range_execute_cong) simp_all
qed

theorem prefix_scan_is_interval_witness:
  "range_execute demo_store (RangeRequest_prefix [107, 0xFF]) =
     range_execute demo_store (RangeRequest_interval [107, 0xFF] [108])"
proof -
  have "prefix_successor [107, 0xFF] = [108]"
    by (simp add: prefix_successor_def bump_last_Cons bump_last.simps [of "[]"])
  with prefix_scan_is_interval [of 107 "[107, 0xFF]" demo_store 0 0] show ?thesis
    by (simp add: RangeRequest_prefix_def RangeRequest_interval_def)
qed

end
