(* ===== verification/Kine_Txn.thy ===== *)
theory Kine_Txn
  imports Kine_Consistency
begin

text \<open>
  Guarded transactions of the kine store (\<open>cave-home-kine-rs/src/txn.rs\<close>): compares, the branch
  choice, the three kinds of operations and the check that a branch writes disjoint keys. The
  \<open>unreachable!\<close> arm of \<open>eval_compare\<close> is a panic: it is the value \<open>None\<close> of an option, and
  \<open>apply\<close> is shown never to reach it.
\<close>

section \<open>Deleting through the store\<close>

text \<open>The interface the transaction and lease layers use to remove keys.\<close>

locale kv_delete =
  fixes look :: "'s \<Rightarrow> 'k \<Rightarrow> 'v option"
    and del :: "'k \<Rightarrow> 's \<Rightarrow> 's"
    and valid :: "'k \<Rightarrow> bool"
  assumes look_del: "valid k \<Longrightarrow> look (del k s) = (look s)(k := None)"
begin

lemma look_fold_del:
  "\<forall>k \<in> set ks. valid k \<Longrightarrow> look (fold del ks s) = (\<lambda>k. if k \<in> set ks then None else look s k)"
  by (induction ks arbitrary: s) (auto simp: look_del fun_eq_iff)

lemma look_fold_del_other: "\<forall>k \<in> set ks. valid k \<Longrightarrow> k' \<notin> set ks \<Longrightarrow> look (fold del ks s) k' = look s k'"
  by (simp add: look_fold_del)

end

abbreviation kine_del :: "kbytes \<Rightarrow> Store \<Rightarrow> Store" where
  "kine_del k s \<equiv> fst (kine_delete s k)"

lemma kine_delete_get_live:
  "k \<noteq> [] \<Longrightarrow> get_live (kine_del k s) = (get_live s)(k := None)"
  by (auto simp: kine_delete_eq get_live_append is_live_def fun_eq_iff)

interpretation kine_kv: kv_delete get_live kine_del "\<lambda>k. k \<noteq> []"
  by unfold_locales (rule kine_delete_get_live)

section \<open>Transactions\<close>

datatype CompareTarget = Version | CreateRevision | ModRevision | Value | LeaseTarget

datatype CompareResult = Equal | NotEqual | Greater | Less

datatype CompareOperand = IntOperand int | BytesOperand kbytes

record Compare =
  cmp_key :: kbytes
  cmp_target :: CompareTarget
  cmp_result :: CompareResult
  cmp_operand :: CompareOperand

definition Compare_numeric ::
  "kbytes \<Rightarrow> CompareTarget \<Rightarrow> CompareResult \<Rightarrow> int \<Rightarrow> Compare" where
  "Compare_numeric k t r n =
     \<lparr>cmp_key = k, cmp_target = t, cmp_result = r, cmp_operand = IntOperand n\<rparr>"

definition Compare_create_revision :: "kbytes \<Rightarrow> CompareResult \<Rightarrow> int \<Rightarrow> Compare" where
  "Compare_create_revision k r n = Compare_numeric k CreateRevision r n"

definition Compare_mod_revision :: "kbytes \<Rightarrow> CompareResult \<Rightarrow> int \<Rightarrow> Compare" where
  "Compare_mod_revision k r n = Compare_numeric k ModRevision r n"

definition Compare_version :: "kbytes \<Rightarrow> CompareResult \<Rightarrow> int \<Rightarrow> Compare" where
  "Compare_version k r n = Compare_numeric k Version r n"

definition Compare_lease :: "kbytes \<Rightarrow> CompareResult \<Rightarrow> int \<Rightarrow> Compare" where
  "Compare_lease k r n = Compare_numeric k LeaseTarget r n"

definition Compare_value :: "kbytes \<Rightarrow> CompareResult \<Rightarrow> kbytes \<Rightarrow> Compare" where
  "Compare_value k r v =
     \<lparr>cmp_key = k, cmp_target = Value, cmp_result = r, cmp_operand = BytesOperand v\<rparr>"

datatype TxnOp =
    TxnRange RangeRequest
  | TxnPut kbytes kbytes int
  | TxnDeleteRange kbytes RangeEnd

definition TxnOp_put :: "kbytes \<Rightarrow> kbytes \<Rightarrow> TxnOp" where
  "TxnOp_put k v = TxnPut k v 0"

definition TxnOp_put_leased :: "kbytes \<Rightarrow> kbytes \<Rightarrow> int \<Rightarrow> TxnOp" where
  "TxnOp_put_leased k v l = TxnPut k v l"

definition TxnOp_get :: "kbytes \<Rightarrow> TxnOp" where
  "TxnOp_get k = TxnRange (RangeRequest_key k)"

definition TxnOp_range :: "RangeRequest \<Rightarrow> TxnOp" where
  "TxnOp_range req = TxnRange req"

definition TxnOp_delete :: "kbytes \<Rightarrow> TxnOp" where
  "TxnOp_delete k = TxnDeleteRange k Single"

definition TxnOp_delete_prefix :: "kbytes \<Rightarrow> TxnOp" where
  "TxnOp_delete_prefix p = TxnDeleteRange p Prefix"

record Txn =
  compares :: "Compare list"
  success :: "TxnOp list"
  failure :: "TxnOp list"

definition Txn_new :: Txn where
  "Txn_new = \<lparr>compares = [], success = [], failure = []\<rparr>"

definition Txn_when :: "Compare list \<Rightarrow> Txn" where
  "Txn_when cs = \<lparr>compares = cs, success = [], failure = []\<rparr>"

definition and_then :: "Txn \<Rightarrow> TxnOp list \<Rightarrow> Txn" where
  "and_then t ops = t\<lparr>success := ops\<rparr>"

definition or_else :: "Txn \<Rightarrow> TxnOp list \<Rightarrow> Txn" where
  "or_else t ops = t\<lparr>failure := ops\<rparr>"

datatype TxnOpResponse =
    RangeResp RangeResponse
  | PutResp Revision
  | DeleteRangeResp int Revision

record TxnResponse =
  succeeded :: bool
  txn_revision :: Revision
  responses :: "TxnOpResponse list"

definition validate_compare :: "Compare \<Rightarrow> KineError + unit" where
  "validate_compare c =
     (if cmp_key c = [] then Inl EmptyKey
      else
        (let ok = (case cmp_target c of
                     Value \<Rightarrow> (case cmp_operand c of BytesOperand _ \<Rightarrow> True | _ \<Rightarrow> False)
                   | _ \<Rightarrow> (case cmp_operand c of IntOperand _ \<Rightarrow> True | _ \<Rightarrow> False))
         in if ok then Inr () else Inl TxnCompareTypeMismatch))"

definition version_of :: "Store \<Rightarrow> kbytes \<Rightarrow> int" where
  "version_of s key =
     (case map_option create_revision (get_live s key) of
        None \<Rightarrow> 0
      | Some generation \<Rightarrow>
          int (length (filter (\<lambda>r. row_key r = key \<and> create_revision r = generation \<and>
            \<not> deleted r) (rows s))))"

text \<open>\<open>Ord::cmp\<close> and the tests on its result.\<close>

datatype Ordering = Ord_Less | Ord_Equal | Ord_Greater

definition ord_cmp :: "'a::linorder \<Rightarrow> 'a \<Rightarrow> Ordering" where
  "ord_cmp x y = (if x < y then Ord_Less else if x = y then Ord_Equal else Ord_Greater)"

definition compare_ordering :: "Store \<Rightarrow> Compare \<Rightarrow> (KineError + Ordering) option" where
  "compare_ordering s c =
     (let live = get_live s (cmp_key c) in
      case (cmp_target c, cmp_operand c) of
        (Value, BytesOperand want) \<Rightarrow>
          Some (Inr (ord_cmp (case live of Some r \<Rightarrow> row_value r | None \<Rightarrow> []) want))
      | (CreateRevision, IntOperand want) \<Rightarrow>
          Some (Inr (ord_cmp (case live of Some r \<Rightarrow> create_revision r | None \<Rightarrow> 0) want))
      | (ModRevision, IntOperand want) \<Rightarrow>
          Some (Inr (ord_cmp (case live of Some r \<Rightarrow> mod_revision r | None \<Rightarrow> 0) want))
      | (LeaseTarget, IntOperand want) \<Rightarrow>
          Some (Inr (ord_cmp (case live of Some r \<Rightarrow> row_lease r | None \<Rightarrow> 0) want))
      | (Version, IntOperand want) \<Rightarrow> Some (Inr (ord_cmp (version_of s (cmp_key c)) want))
      | (Value, IntOperand want) \<Rightarrow> None
      | _ \<Rightarrow> Some (Inl TxnCompareTypeMismatch))"

definition eval_compare :: "Store \<Rightarrow> Compare \<Rightarrow> (KineError + bool) option" where
  "eval_compare s c =
     (case compare_ordering s c of
        None \<Rightarrow> None
      | Some (Inl e) \<Rightarrow> Some (Inl e)
      | Some (Inr cmp) \<Rightarrow>
          Some (Inr (case cmp_result c of
             Equal \<Rightarrow> cmp = Ord_Equal
           | NotEqual \<Rightarrow> cmp \<noteq> Ord_Equal
           | Greater \<Rightarrow> cmp = Ord_Greater
           | Less \<Rightarrow> cmp = Ord_Less)))"

fun delete_victims :: "Store \<Rightarrow> kbytes list \<Rightarrow> int \<Rightarrow> Store \<times> (KineError + int)" where
  "delete_victims s [] n = (s, Inr n)"
| "delete_victims s (k # ks) n =
     (case kine_delete s k of
        (s', Inl e) \<Rightarrow> (s', Inl e)
      | (s', Inr res) \<Rightarrow> delete_victims s' ks (if res \<noteq> None then n + 1 else n))"

definition delete_range :: "Store \<Rightarrow> kbytes \<Rightarrow> RangeEnd \<Rightarrow> Store \<times> (KineError + int)" where
  "delete_range s key end =
     (let req = \<lparr>rq_key = key, rq_end = end, rq_revision = 0, rq_limit = 0\<rparr> in
      case range_execute s req of
        Inl e \<Rightarrow> (s, Inl e)
      | Inr resp \<Rightarrow> delete_victims s (map row_key (kvs resp)) 0)"

fun run_ops :: "Store \<Rightarrow> TxnOp list \<Rightarrow> TxnOpResponse list \<Rightarrow> Store \<times> (KineError + TxnOpResponse list)" where
  "run_ops s [] out = (s, Inr out)"
| "run_ops s (TxnRange req # ops) out =
     (case range_execute s req of
        Inl e \<Rightarrow> (s, Inl e)
      | Inr resp \<Rightarrow> run_ops s ops (out @ [RangeResp resp]))"
| "run_ops s (TxnPut key value lease # ops) out =
     (case kine_put s key value lease of
        (s', Inl e) \<Rightarrow> (s', Inl e)
      | (s', Inr revision) \<Rightarrow> run_ops s' ops (out @ [PutResp revision]))"
| "run_ops s (TxnDeleteRange key end # ops) out =
     (case delete_range s key end of
        (s', Inl e) \<Rightarrow> (s', Inl e)
      | (s', Inr n) \<Rightarrow> run_ops s' ops (out @ [DeleteRangeResp n (current_revision s')]))"

record Span =
  lo :: kbytes
  hi :: "kbytes option"

definition overlaps :: "Span \<Rightarrow> Span \<Rightarrow> bool" where
  "overlaps a b =
     (let a_lo_before_b_hi = (case hi b of None \<Rightarrow> True | Some h \<Rightarrow> lo a < h);
          b_lo_before_a_hi = (case hi a of None \<Rightarrow> True | Some h \<Rightarrow> lo b < h)
      in a_lo_before_b_hi \<and> b_lo_before_a_hi)"

text \<open>
  \<open>prefix_upper\<close> runs the same loop as \<open>prefix_successor\<close> but answers \<open>None\<close> where that one
  answers with the sentinel.
\<close>

function prefix_upper :: "kbytes \<Rightarrow> kbytes option" where
  "prefix_upper end =
     (if end = [] then None
      else if last end < 0xFF then Some (butlast end @ [last end + 1])
      else prefix_upper (butlast end))"
  by auto
termination
  by (relation "measure length") auto

declare prefix_upper.simps [simp del]

definition span_upper :: "RangeEnd \<Rightarrow> kbytes \<Rightarrow> kbytes option" where
  "span_upper end key =
     (case end of
        Single \<Rightarrow> Some (key @ [0])
      | Prefix \<Rightarrow> prefix_upper key
      | Explicit e \<Rightarrow> Some e
      | AllKeys \<Rightarrow> None)"

fun write_span :: "TxnOp \<Rightarrow> Span option" where
  "write_span (TxnRange _) = None"
| "write_span (TxnPut key value lease) = Some \<lparr>lo = key, hi = Some (key @ [0])\<rparr>"
| "write_span (TxnDeleteRange key end) = Some \<lparr>lo = key, hi = span_upper end key\<rparr>"

fun any_overlap :: "Span list \<Rightarrow> bool" where
  "any_overlap [] = False"
| "any_overlap (a # bs) = (list_ex (overlaps a) bs \<or> any_overlap bs)"

definition check_disjoint_writes :: "TxnOp list \<Rightarrow> KineError + unit" where
  "check_disjoint_writes ops =
     (if any_overlap (List.map_filter write_span ops) then Inl TxnDuplicateKey else Inr ())"

fun validate_compares :: "Compare list \<Rightarrow> KineError + unit" where
  "validate_compares [] = Inr ()"
| "validate_compares (c # cs) =
     (case validate_compare c of Inl e \<Rightarrow> Inl e | Inr _ \<Rightarrow> validate_compares cs)"

text \<open>The \<open>try_fold\<close> over the guards, which stops evaluating once one has failed.\<close>

fun eval_guards :: "Store \<Rightarrow> bool \<Rightarrow> Compare list \<Rightarrow> (KineError + bool) option" where
  "eval_guards s acc [] = Some (Inr acc)"
| "eval_guards s acc (c # cs) =
     (if \<not> acc then eval_guards s False cs
      else (case eval_compare s c of
              None \<Rightarrow> None
            | Some (Inl e) \<Rightarrow> Some (Inl e)
            | Some (Inr b) \<Rightarrow> eval_guards s b cs))"

definition txn_apply :: "Store \<Rightarrow> Txn \<Rightarrow> (Store \<times> (KineError + TxnResponse)) option" where
  "txn_apply s txn =
     (case validate_compares (compares txn) of
        Inl e \<Rightarrow> Some (s, Inl e)
      | Inr _ \<Rightarrow>
          (case check_disjoint_writes (success txn) of
             Inl e \<Rightarrow> Some (s, Inl e)
           | Inr _ \<Rightarrow>
               (case check_disjoint_writes (failure txn) of
                  Inl e \<Rightarrow> Some (s, Inl e)
                | Inr _ \<Rightarrow>
                    (case eval_guards s True (compares txn) of
                       None \<Rightarrow> None
                     | Some (Inl e) \<Rightarrow> Some (s, Inl e)
                     | Some (Inr ok) \<Rightarrow>
                         Some (case run_ops s (if ok then success txn else failure txn) [] of
                            (s', Inl e) \<Rightarrow> (s', Inl e)
                          | (s', Inr rs) \<Rightarrow>
                              (s', Inr \<lparr>succeeded = ok, txn_revision = current_revision s',
                                        responses = rs\<rparr>))))))"

section \<open>Guards\<close>

text \<open>What a compare means on the live view, with a missing key reading as zeros.\<close>

fun relates :: "CompareResult \<Rightarrow> 'a::linorder \<Rightarrow> 'a \<Rightarrow> bool" where
  "relates Equal x y \<longleftrightarrow> x = y"
| "relates NotEqual x y \<longleftrightarrow> x \<noteq> y"
| "relates Greater x y \<longleftrightarrow> x > y"
| "relates Less x y \<longleftrightarrow> x < y"

definition compare_holds :: "Store \<Rightarrow> Compare \<Rightarrow> bool" where
  "compare_holds s c =
     (let live = get_live s (cmp_key c) in
      case cmp_operand c of
        BytesOperand want \<Rightarrow>
          relates (cmp_result c) (case live of Some r \<Rightarrow> row_value r | None \<Rightarrow> []) want
      | IntOperand want \<Rightarrow>
          relates (cmp_result c)
            (case cmp_target c of
               Version \<Rightarrow> version_of s (cmp_key c)
             | CreateRevision \<Rightarrow> (case live of Some r \<Rightarrow> create_revision r | None \<Rightarrow> 0)
             | ModRevision \<Rightarrow> (case live of Some r \<Rightarrow> mod_revision r | None \<Rightarrow> 0)
             | _ \<Rightarrow> (case live of Some r \<Rightarrow> row_lease r | None \<Rightarrow> 0)) want)"

lemma relates_ord_cmp:
  "(case res of Equal \<Rightarrow> ord_cmp x y = Ord_Equal | NotEqual \<Rightarrow> ord_cmp x y \<noteq> Ord_Equal
    | Greater \<Rightarrow> ord_cmp x y = Ord_Greater | Less \<Rightarrow> ord_cmp x y = Ord_Less) = relates res x y"
  by (cases res) (auto simp: ord_cmp_def)

lemma eval_compare_valid:
  assumes "validate_compare c = Inr ()"
  shows "eval_compare s c = Some (Inr (compare_holds s c))"
  using assms
  by (cases "cmp_target c"; cases "cmp_operand c")
    (simp_all add: validate_compare_def eval_compare_def compare_ordering_def compare_holds_def
      relates_ord_cmp Let_def split: if_splits)

lemma validate_compares_iff:
  "validate_compares cs = Inr () \<longleftrightarrow> (\<forall>c \<in> set cs. validate_compare c = Inr ())"
  by (induction cs) (auto split: sum.splits)

lemma eval_guards_valid:
  "\<forall>c \<in> set cs. validate_compare c = Inr () \<Longrightarrow>
     eval_guards s acc cs = Some (Inr (acc \<and> list_all (compare_holds s) cs))"
  by (induction cs arbitrary: acc) (auto simp: eval_compare_valid)

lemma txn_apply_valid:
  assumes "validate_compares (compares t) = Inr ()"
    and "check_disjoint_writes (success t) = Inr ()"
    and "check_disjoint_writes (failure t) = Inr ()"
  shows "txn_apply s t =
    (let ok = list_all (compare_holds s) (compares t) in
     Some (case run_ops s (if ok then success t else failure t) [] of
        (s', Inl e) \<Rightarrow> (s', Inl e)
      | (s', Inr rs) \<Rightarrow>
          (s', Inr \<lparr>succeeded = ok, txn_revision = current_revision s', responses = rs\<rparr>)))"
proof -
  have "eval_guards s True (compares t) = Some (Inr (list_all (compare_holds s) (compares t)))"
    using assms(1) eval_guards_valid [of "compares t" s True] by (simp add: validate_compares_iff)
  then show ?thesis using assms by (simp add: txn_apply_def Let_def)
qed

section \<open>Spans\<close>

lemma prefix_upper_eq: "prefix_upper p = bump_last p"
proof (induction p rule: rev_induct)
  case Nil
  show ?case by (simp only: prefix_upper.simps [of "[]"] bump_last.simps [of "[]"] simp_thms if_True)
next
  case (snoc x p)
  then show ?case by (simp add: prefix_upper.simps [of "p @ [x]"] bump_last.simps [of "p @ [x]"])
qed

lemma lexorder_point: "p \<le> k \<and> k < p @ [0] \<longleftrightarrow> k = p" for k p :: kbytes
proof (induction p arbitrary: k)
  case Nil
  show ?case by (cases k) simp_all
next
  case (Cons x p)
  show ?case
  proof (cases k)
    case Nil
    then show ?thesis by simp
  next
    case k: (Cons y ys)
    have "x # p \<le> y # ys \<and> y # ys < x # (p @ [0]) \<longleftrightarrow> y = x \<and> p \<le> ys \<and> ys < p @ [0]"
      unfolding Cons_le_Cons Cons_less_Cons by (meson less_asym)
    then show ?thesis using Cons.IH [of ys] k by simp
  qed
qed

definition in_span :: "Span \<Rightarrow> kbytes \<Rightarrow> bool" where
  "in_span a k \<longleftrightarrow> lo a \<le> k \<and> (case hi a of None \<Rightarrow> True | Some h \<Rightarrow> k < h)"

text \<open>Two spans that are not empty overlap exactly when they share a key.\<close>

lemma overlaps_iff:
  assumes "in_span a (lo a)" and "in_span b (lo b)"
  shows "overlaps a b \<longleftrightarrow> (\<exists>k. in_span a k \<and> in_span b k)"
proof
  assume "overlaps a b"
  then have "in_span a (max (lo a) (lo b)) \<and> in_span b (max (lo a) (lo b))"
    using assms by (auto simp: overlaps_def in_span_def max_def Let_def split: option.splits)
  then show "\<exists>k. in_span a k \<and> in_span b k" by blast
next
  assume "\<exists>k. in_span a k \<and> in_span b k"
  then show "overlaps a b"
    by (force simp: overlaps_def in_span_def Let_def split: option.splits)
qed

text \<open>The keys a write operation may touch, and the operations whose selector is well formed.\<close>

fun touches :: "TxnOp \<Rightarrow> kbytes \<Rightarrow> bool" where
  "touches (TxnRange _) k = False"
| "touches (TxnPut key value lease) k = (k = key)"
| "touches (TxnDeleteRange key end) k =
     range_contains \<lparr>rq_key = key, rq_end = end, rq_revision = 0, rq_limit = 0\<rparr> k"

fun selector_ok :: "TxnOp \<Rightarrow> bool" where
  "selector_ok (TxnDeleteRange key (Explicit e)) = (key < e)"
| "selector_ok (TxnDeleteRange key AllKeys) = (key = [])"
| "selector_ok _ = True"

lemma in_span_selector:
  assumes "selector_ok (TxnDeleteRange key sel)"
  shows "in_span \<lparr>lo = key, hi = span_upper sel key\<rparr> k \<longleftrightarrow> touches (TxnDeleteRange key sel) k"
proof (cases sel)
  case Single
  then show ?thesis
    using lexorder_point [of key k] by (simp add: in_span_def span_upper_def range_contains_def)
next
  case Prefix
  then show ?thesis
    using prefix_interval [of k key]
    by (simp add: in_span_def span_upper_def range_contains_def prefix_upper_eq)
next
  case (Explicit e)
  then show ?thesis by (simp add: in_span_def span_upper_def range_contains_def)
next
  case AllKeys
  with assms show ?thesis by (simp add: in_span_def span_upper_def range_contains_def)
qed

lemma touches_own_key:
  "selector_ok op \<Longrightarrow> write_span op = Some a \<Longrightarrow> touches op (lo a)"
  by (cases op rule: selector_ok.cases) (auto simp: range_contains_def starts_with_def)

lemma write_span_touches:
  assumes "selector_ok op" and "write_span op = Some a"
  shows "in_span a k \<longleftrightarrow> touches op k"
proof (cases op)
  case (TxnPut key v l)
  with assms show ?thesis using lexorder_point [of key k] by (auto simp: in_span_def)
next
  case (TxnDeleteRange key e)
  with assms in_span_selector [of key e k] show ?thesis by auto
qed (use assms in simp)

definition is_write :: "TxnOp \<Rightarrow> bool" where
  "is_write op \<longleftrightarrow> write_span op \<noteq> None"

lemma disjoint_writes_iff:
  assumes "\<forall>op \<in> set ops. selector_ok op"
  shows "check_disjoint_writes ops = Inr () \<longleftrightarrow>
    sorted_wrt (\<lambda>a b. \<nexists>k. touches a k \<and> touches b k) (filter is_write ops)"
proof -
  have "\<not> any_overlap (List.map_filter write_span ops) \<longleftrightarrow>
      sorted_wrt (\<lambda>a b. \<nexists>k. touches a k \<and> touches b k) (filter is_write ops)"
    using assms
  proof (induction ops)
    case (Cons op ops)
    show ?case
    proof (cases "write_span op")
      case None
      with Cons show ?thesis by (simp add: List.map_filter_simps is_write_def)
    next
      case (Some a)
      have "list_ex (overlaps a) (List.map_filter write_span ops) \<longleftrightarrow>
          (\<exists>op' \<in> set (filter is_write ops). \<exists>k. touches op k \<and> touches op' k)"
      proof -
        have "overlaps a b \<longleftrightarrow> (\<exists>k. touches op k \<and> touches op' k)"
          if "op' \<in> set ops" "write_span op' = Some b" for op' b
          using overlaps_iff [of a b] write_span_touches [of op a] write_span_touches [of op' b]
            touches_own_key [of op a] touches_own_key [of op' b] Cons.prems Some that by auto
        then show ?thesis
          by (fastforce simp: list_ex_iff List.map_filter_def is_write_def)
      qed
      with Cons Some show ?thesis by (auto simp: List.map_filter_simps is_write_def)
    qed
  qed (simp add: List.map_filter_simps)
  then show ?thesis by (auto simp: check_disjoint_writes_def)
qed

section \<open>Running operations\<close>

lemma delete_victims_live:
  assumes "distinct ks" and "\<forall>k \<in> set ks. k \<noteq> [] \<and> get_live s k \<noteq> None"
  shows "delete_victims s ks n = (fold kine_del ks s, Inr (n + int (length ks)))"
  using assms
proof (induction ks arbitrary: s n)
  case (Cons k ks)
  then have "kine_delete s k =
      (append_row s (new_row s k [] 0 True), Inr (Some (i64_saturating_add (current_revision s) 1)))"
    by (simp add: kine_delete_eq)
  moreover have "\<forall>k' \<in> set ks. k' \<noteq> [] \<and> get_live (kine_del k s) k' \<noteq> None"
    using Cons.prems by (auto simp: kine_delete_get_live)
  ultimately show ?case using Cons.IH [of "kine_del k s" "n + 1"] Cons.prems by simp
qed simp

lemma selection_keys:
  assumes "store_wf s"
  shows "distinct (map row_key (selection s req (current_revision s)))"
    and "k \<in> set (map row_key (selection s req (current_revision s))) \<longleftrightarrow>
      get_live s k \<noteq> None \<and> range_contains req k"
proof -
  show "distinct (map row_key (selection s req (current_revision s)))"
    using selection_sorted [of s req] by (simp add: strict_sorted_iff)
  have "state_at s (current_revision s) = get_live s"
    using state_at_current [OF assms] by (simp add: fun_eq_iff)
  then show "k \<in> set (map row_key (selection s req (current_revision s))) \<longleftrightarrow>
      get_live s k \<noteq> None \<and> range_contains req k"
    by (auto simp: set_selection image_iff) (metis get_live_Some(2))+
qed

lemma live_key_nonempty: "store_wf s \<Longrightarrow> get_live s k \<noteq> None \<Longrightarrow> k \<noteq> []"
  using store_wf_row(1) get_live_Some by blast

lemma delete_range_eq:
  fixes key e
  defines "req \<equiv> \<lparr>rq_key = key, rq_end = e, rq_revision = 0, rq_limit = 0\<rparr>"
  assumes "store_wf s"
  shows "delete_range s key e =
    (case range_validate req of
       Inl err \<Rightarrow> (s, Inl err)
     | Inr _ \<Rightarrow>
         (let ks = map row_key (selection s req (current_revision s))
          in (fold kine_del ks s, Inr (int (length ks)))))"
proof (cases "range_validate req")
  case (Inl err)
  then show ?thesis by (simp add: delete_range_def range_execute_def req_def)
next
  case (Inr u)
  let ?ks = "map row_key (selection s req (current_revision s))"
  have "\<forall>k \<in> set ?ks. k \<noteq> [] \<and> get_live s k \<noteq> None"
    using selection_keys(2) [OF assms(2)] live_key_nonempty [OF assms(2)] by blast
  with delete_victims_live [OF selection_keys(1) [OF assms(2)], of req] have
    "delete_victims s ?ks 0 = (fold kine_del ?ks s, Inr (int (length ?ks)))" by simp
  moreover have "range_execute s req = Inr \<lparr>rs_revision = current_revision s,
      kvs = selection s req (current_revision s), rs_more = False,
      rs_count = int (length (selection s req (current_revision s)))\<rparr>"
    using Inr by (intro execute_now) (simp_all add: req_def)
  ultimately show ?thesis
    using Inr by (simp add: delete_range_def flip: req_def)
qed

text \<open>The revision a guard on \<open>mod_revision\<close> compares with: zero for a missing key.\<close>

definition mod_of :: "Store \<Rightarrow> kbytes \<Rightarrow> Revision" where
  "mod_of s k = (case get_live s k of Some r \<Rightarrow> mod_revision r | None \<Rightarrow> 0)"

text \<open>The optimistic write of the apiserver: put if the key is still at a revision, else read it.\<close>

definition compare_and_swap :: "kbytes \<Rightarrow> Revision \<Rightarrow> kbytes \<Rightarrow> Txn" where
  "compare_and_swap k n v =
     or_else (and_then (Txn_when [Compare_mod_revision k Equal n]) [TxnOp_put k v]) [TxnOp_get k]"

lemma txn_apply_cas:
  assumes "k \<noteq> []"
  shows "txn_apply s (compare_and_swap k n v) = Some
    (if mod_of s k = n
     then (append_row s (new_row s k v 0 False),
       Inr \<lparr>succeeded = True, txn_revision = i64_saturating_add (current_revision s) 1,
            responses = [PutResp (i64_saturating_add (current_revision s) 1)]\<rparr>)
     else (s, Inr \<lparr>succeeded = False, txn_revision = current_revision s,
       responses = [RangeResp \<lparr>rs_revision = current_revision s,
         kvs = selection s (RangeRequest_key k) (current_revision s), rs_more = False,
         rs_count = int (length (selection s (RangeRequest_key k) (current_revision s)))\<rparr>]\<rparr>))"
proof -
  have "range_execute s (RangeRequest_key k) = Inr \<lparr>rs_revision = current_revision s,
      kvs = selection s (RangeRequest_key k) (current_revision s), rs_more = False,
      rs_count = int (length (selection s (RangeRequest_key k) (current_revision s)))\<rparr>"
    using assms by (intro execute_now) (simp_all add: RangeRequest_key_def range_validate_def)
  then have get: "run_ops s [TxnOp_get k] [] = (s, Inr [RangeResp \<lparr>rs_revision = current_revision s,
      kvs = selection s (RangeRequest_key k) (current_revision s), rs_more = False,
      rs_count = int (length (selection s (RangeRequest_key k) (current_revision s)))\<rparr>])"
    by (simp add: TxnOp_get_def)
  have "compares (compare_and_swap k n v) = [Compare_mod_revision k Equal n]"
    "success (compare_and_swap k n v) = [TxnOp_put k v]"
    "failure (compare_and_swap k n v) = [TxnOp_get k]"
    by (simp_all add: compare_and_swap_def or_else_def and_then_def Txn_when_def)
  moreover have "compare_holds s (Compare_mod_revision k Equal n) \<longleftrightarrow> mod_of s k = n"
    by (simp add: compare_holds_def Compare_mod_revision_def Compare_numeric_def mod_of_def)
  moreover have "validate_compares [Compare_mod_revision k Equal n] = Inr ()"
    using assms by (simp add: validate_compare_def Compare_mod_revision_def Compare_numeric_def)
  moreover have "check_disjoint_writes [TxnOp_put k v] = Inr ()" "check_disjoint_writes [TxnOp_get k] = Inr ()"
    by (simp_all add: check_disjoint_writes_def TxnOp_put_def TxnOp_get_def List.map_filter_simps)
  moreover have "run_ops s [TxnOp_put k v] [] = (append_row s (new_row s k v 0 False),
      Inr [PutResp (i64_saturating_add (current_revision s) 1)])"
    using assms by (simp add: TxnOp_put_def kine_put_eq)
  ultimately show ?thesis using get by (simp add: txn_apply_valid Let_def)
qed

section \<open>Versions\<close>

lemma version_of_put:
  assumes "store_wf s" and "can_write s" and "k \<noteq> []"
  shows "version_of (fst (kine_put s k v l)) k = version_of s k + 1"
proof (cases "get_live s k")
  case (Some r)
  then show ?thesis
    using assms by (simp add: kine_put_eq version_of_def get_live_append is_live_def new_row_def Let_def)
next
  case None
  let ?rv = "i64_saturating_add (current_revision s) 1"
  have "?rv = current_revision s + 1" using assms by (simp add: store_wf_def saturating_succ)
  then have "filter (\<lambda>r. row_key r = k \<and> create_revision r = ?rv \<and> \<not> deleted r) (rows s) = []"
    using store_wf_row(3,4) [OF assms(1)] by (fastforce simp: filter_empty_conv)
  with None assms show ?thesis
    by (simp add: kine_put_eq version_of_def get_live_append is_live_def new_row_def Let_def)
qed

lemma version_of_delete: "k \<noteq> [] \<Longrightarrow> version_of (kine_del k s) k = 0"
  by (simp add: version_of_def kine_delete_get_live)

section \<open>Properties of transactions\<close>

text \<open>
  A transaction never panics and its guard is the conjunction of its compares: it either fails
  with an error or reports success exactly when every compare holds of the live view before the
  transaction (a missing key reading as zeros and an empty value), and then its effect and its
  responses are those of running the chosen branch.
\<close>

theorem txn_runs_guarded_branch:
  "\<exists>s' res. txn_apply s t = Some (s', res) \<and>
     (case res of
        Inl e \<Rightarrow> True
      | Inr resp \<Rightarrow>
          (succeeded resp \<longleftrightarrow> list_all (compare_holds s) (compares t)) \<and>
          run_ops s (if succeeded resp then success t else failure t) [] = (s', Inr (responses resp)) \<and>
          txn_revision resp = current_revision s')"
proof (cases "validate_compares (compares t) = Inr () \<and> check_disjoint_writes (success t) = Inr () \<and>
    check_disjoint_writes (failure t) = Inr ()")
  case True
  then show ?thesis
    using txn_apply_valid [of t s]
    by (cases "run_ops s (success t) []"; cases "run_ops s (failure t) []";
        cases "snd (run_ops s (success t) [])"; cases "snd (run_ops s (failure t) [])")
      (auto simp: Let_def)
next
  case False
  then show ?thesis by (auto simp: txn_apply_def split: sum.splits)
qed

text \<open>
  Compare-and-swap. The optimistic write of the apiserver, put if the key is still at revision
  \<open>n\<close> and read it otherwise, always completes; it succeeds exactly when the key is at revision
  \<open>n\<close>, then the key holds the new value at the next revision and no other key changes, and
  otherwise nothing is written and the response carries the current row.
\<close>

theorem compare_and_swap_correct:
  assumes "k \<noteq> []" and "store_wf s"
  shows "\<exists>s' resp. txn_apply s (compare_and_swap k n v) = Some (s', Inr resp) \<and>
    succeeded resp = (mod_of s k = n) \<and>
    (if succeeded resp
     then (\<exists>r. get_live s' = (get_live s)(k \<mapsto> r) \<and> row_value r = v \<and>
             mod_revision r = txn_revision resp)
     else s' = s \<and> (\<exists>rr. responses resp = [RangeResp rr] \<and>
             set (kvs rr) = set_option (get_live s k)))"
proof (cases "mod_of s k = n")
  case True
  let ?r = "new_row s k v 0 False"
  have "get_live (append_row s ?r) = (get_live s)(k \<mapsto> ?r)"
    by (auto simp: get_live_append is_live_def fun_eq_iff)
  with True assms(1) show ?thesis by (auto simp: txn_apply_cas)
next
  case False
  have "set (selection s (RangeRequest_key k) (current_revision s)) = set_option (get_live s k)"
    by (auto simp: set_selection state_at_current [OF assms(2)] range_contains_def
        RangeRequest_key_def)
  with False assms(1) show ?thesis by (auto simp: txn_apply_cas)
qed

theorem compare_and_swap_correct_witness:
  "\<exists>s' resp. txn_apply demo_store (compare_and_swap [107] 2 [3]) = Some (s', Inr resp) \<and>
    succeeded resp = (mod_of demo_store [107] = 2)"
  using compare_and_swap_correct [of "[107]" demo_store 2 "[3]"] demo_store_wf by auto

text \<open>
  Everything that can happen to a store between two requests of a client: the plain operations and
  whole transactions of others. A transaction is a sequence of plain operations.
\<close>

datatype server_op = Plain kine_op | Transact Txn

fun server_step :: "Store \<Rightarrow> server_op \<Rightarrow> Store" where
  "server_step s (Plain op) = kine_step s op"
| "server_step s (Transact t) = (case txn_apply s t of Some (s', _) \<Rightarrow> s' | None \<Rightarrow> s)"

lemma kine_run_trans: "kine_run q ops' q' \<Longrightarrow> kine_run s ops q \<Longrightarrow> kine_run s (ops @ ops') q'"
proof (induction rule: kine_run.induct)
  case (kine_snoc q ops' q' op)
  then show ?case using kine_run.kine_snoc [of s "ops @ ops'" q' op] by simp
qed simp

lemma run_ex: "\<exists>ops. kine_run s ops s" "kine_run s ops q \<Longrightarrow> \<exists>ops. kine_run q ops q' \<Longrightarrow> \<exists>ops. kine_run s ops q'"
  by (blast intro: kine_nil kine_run_trans)+

lemma delete_victims_run: "\<exists>ops. kine_run s ops (fst (delete_victims s ks n))"
proof (induction ks arbitrary: s n)
  case (Cons k ks)
  obtain s' r where d: "kine_delete s k = (s', r)" by fastforce
  then have "kine_run s [OpDelete k] s'" using kine_run_single [of s "OpDelete k"] by simp
  from run_ex(2) [OF this Cons] this d show ?case by (cases r) auto
qed (simp add: run_ex)

lemma delete_range_run: "\<exists>ops. kine_run s ops (fst (delete_range s key e))"
  by (simp add: delete_range_def Let_def delete_victims_run run_ex split: sum.split)

lemma run_ops_run: "\<exists>ops. kine_run s ops (fst (run_ops s tops out))"
proof (induction s tops out rule: run_ops.induct)
  case (1 s out)
  then show ?case by (auto intro: kine_nil)
next
  case (2 s req tops out)
  then show ?case by (cases "range_execute s req") (auto intro: kine_nil)
next
  case (3 s k v l tops out)
  obtain s' r where p: "kine_put s k v l = (s', r)" by fastforce
  then have run: "kine_run s [OpPut k v l] s'" using kine_run_single [of s "OpPut k v l"] by simp
  show ?case
  proof (cases r)
    case (Inr rv)
    then obtain ops where "kine_run s' ops (fst (run_ops s' tops (out @ [PutResp rv])))" using 3 [OF p [symmetric] Inr] by blast
    then show ?thesis using kine_run_trans [OF _ run] p Inr by auto
  qed (use run p in auto)
next
  case (4 s key e tops out)
  obtain s' r where d: "delete_range s key e = (s', r)" by fastforce
  then obtain ops where run: "kine_run s ops s'" using delete_range_run [of s key e] by auto
  show ?case
  proof (cases r)
    case (Inr n)
    then obtain ops' where "kine_run s' ops' (fst (run_ops s' tops (out @ [DeleteRangeResp n (current_revision s')])))"
      using 4 [OF d [symmetric] Inr] by blast
    then show ?thesis using kine_run_trans [OF _ run] d Inr by auto
  qed (use run d in auto)
qed

lemma server_step_run: "\<exists>ops. kine_run s ops (server_step s op)"
proof (cases op)
  case (Plain kop)
  then show ?thesis using kine_run_single by auto
next
  case (Transact t)
  have "\<exists>ops. kine_run s ops s'" if "txn_apply s t = Some (s', r)" for s' r
    using that run_ops_run [of s "success t" "[]"] run_ops_run [of s "failure t" "[]"] kine_nil [of s]
    by (auto simp: txn_apply_def split: sum.splits option.splits prod.splits if_splits)
  then show ?thesis using Transact kine_nil [of s] by (auto split: option.split)
qed

lemma server_run: "\<exists>kops. kine_run s kops (foldl server_step s ops)"
proof (induction ops arbitrary: s)
  case (Cons op ops)
  obtain k1 where "kine_run s k1 (server_step s op)" using server_step_run by blast
  moreover obtain k2 where "kine_run (server_step s op) k2 (foldl server_step (server_step s op) ops)"
    using Cons by blast
  ultimately show ?case using run_ex(2) by (metis foldl_Cons)
qed (simp add: run_ex)

text \<open>A live key whose revision has passed \<open>n\<close> never goes back to it.\<close>

lemma run_moves_past:
  assumes "kine_run s ops s'" and "store_wf s" and "can_write s'"
    and "n < current_revision s" and "\<forall>r. get_live s k = Some r \<longrightarrow> n < mod_revision r"
  shows "\<forall>r. get_live s' k = Some r \<longrightarrow> n < mod_revision r"
  using assms(1-3)
proof (induction rule: kine_run_induct)
  case (step ops q op)
  have rev: "n < current_revision q"
    using kine_run_revision [OF step.hyps(1)] assms(2,4) by (simp add: store_wf_def)
  show ?case
  proof (cases rule: kine_step_cases [of q op])
    case (append k' v l d)
    then show ?thesis
      using step rev saturating_succ [of "current_revision q"] by (auto simp: get_live_append store_wf_def)
  next
    case (compaction t)
    then show ?thesis using step by (simp add: compact_get_live)
  qed (use step in simp)
qed (use assms(5) in simp)

text \<open>
  C8. No lost update. After a compare-and-swap on a key that expected revision \<open>n\<close> has succeeded, and
  whatever puts, deletes, compactions and whole transactions come after it (as long as the 63-bit
  revision clock is not exhausted), a second compare-and-swap that expects \<open>n\<close> is refused and
  writes nothing. The one exception is the expectation zero, that the key does not exist: there the
  second one succeeds exactly if the key has been deleted again in between.
\<close>

theorem no_lost_update:
  assumes "store_wf s" and "k \<noteq> []"
    and "txn_apply s (compare_and_swap k n v) = Some (s1, Inr r1)" and "succeeded r1"
    and "current_revision (foldl server_step s1 ops) < i64_max"
  shows "\<exists>s2 r2. txn_apply (foldl server_step s1 ops) (compare_and_swap k n w) = Some (s2, Inr r2) \<and>
    (succeeded r2 \<longleftrightarrow> n = 0 \<and> get_live (foldl server_step s1 ops) k = None) \<and>
    (\<not> succeeded r2 \<longrightarrow> s2 = foldl server_step s1 ops)"
proof -
  let ?q = "foldl server_step s1 ops"
  have n: "mod_of s k = n" and s1: "s1 = append_row s (new_row s k v 0 False)"
    using assms(3,4) txn_apply_cas [OF assms(2), of s n v] by (auto split: if_splits)
  have s1': "s1 = kine_step s (OpPut k v 0)" using assms(2) by (simp add: s1 kine_put_eq)
  then have first: "kine_run s [OpPut k v 0] s1" using kine_run_single by metis
  obtain kops where run: "kine_run s1 kops ?q" using server_run by blast
  have cur: "0 \<le> current_revision s" "current_revision s \<le> i64_max" using assms(1) by (simp_all add: store_wf_def)
  have cur1: "current_revision s1 < i64_max"
    using kine_run_revision [OF first cur] kine_run_revision [OF run] cur assms(5) by force
  then have below: "current_revision s < i64_max" using kine_run_revision [OF first cur] by simp
  have wf1: "store_wf s1" using kine_run_wf [OF first assms(1) cur1] .
  have "n \<le> current_revision s"
    using n store_wf_row(4) [OF assms(1)] get_live_Some(1) cur
    by (auto simp: mod_of_def split: option.splits)
  moreover have "current_revision s1 = current_revision s + 1"
    using cur below by (simp add: s1 saturating_succ)
  moreover have "get_live s1 k = Some (new_row s k v 0 False)"
    by (simp add: s1 get_live_append is_live_def)
  ultimately have "\<forall>r. get_live ?q k = Some r \<longrightarrow> n < mod_revision r"
    using run_moves_past [OF run wf1 assms(5), of n k] cur below by (simp add: saturating_succ)
  moreover have "0 \<le> n" using n store_wf_row(2,3) [OF assms(1)] get_live_Some(1)
    by (force simp: mod_of_def split: option.splits)
  ultimately have "mod_of ?q k = n \<longleftrightarrow> n = 0 \<and> get_live ?q k = None"
    by (auto simp: mod_of_def split: option.splits)
  then show ?thesis using txn_apply_cas [OF assms(2), of ?q n w] by auto
qed

theorem no_lost_update_witness:
  "\<exists>s1 r1 s2 r2. txn_apply demo_store (compare_and_swap [107] 2 [3]) = Some (s1, Inr r1) \<and> succeeded r1 \<and>
     txn_apply (server_step s1 (Transact (compare_and_swap [108] 0 [9]))) (compare_and_swap [107] 2 [4]) = Some (s2, Inr r2) \<and>
     \<not> succeeded r2 \<and> s2 = server_step s1 (Transact (compare_and_swap [108] 0 [9]))"
proof -
  have "mod_of demo_store [107] = 2"
    by (simp add: mod_of_def demo_store_def kine_put_eq get_live_append is_live_def)
      (simp add: Store_new_def Clock_new_def current_revision_def i64_saturating_add_def
        i64_max_def i64_min_def)
  then obtain s1 r1 where first: "txn_apply demo_store (compare_and_swap [107] 2 [3]) = Some (s1, Inr r1)"
      "succeeded r1" "s1 = append_row demo_store (new_row demo_store [107] [3] 0 False)"
    by (simp add: txn_apply_cas)
  have "current_revision (server_step s1 (Transact (compare_and_swap [108] 0 [9]))) < i64_max"
    by (auto simp: txn_apply_cas first(3) demo_revision saturating_succ i64_max_def)
  with no_lost_update [OF demo_store_wf _ first(1,2), of "[Transact (compare_and_swap [108] 0 [9])]" "[4]"] first(1,2)
  show ?thesis by auto
qed

text \<open>
  C9. The duplicate-key check is exact: when every delete selector is well formed (a proper interval,
  or all keys from the empty key), a branch is accepted exactly when no two of its writes can touch
  a common key. The byte-level span arithmetic (point successor, prefix upper bound) is correct.
\<close>

theorem disjoint_check_exact:
  assumes "\<forall>op \<in> set ops. selector_ok op"
  shows "check_disjoint_writes ops = Inr () \<longleftrightarrow>
    sorted_wrt (\<lambda>a b. \<nexists>k. touches a k \<and> touches b k) (filter is_write ops)"
  using assms by (rule disjoint_writes_iff)

theorem disjoint_check_exact_witness:
  "check_disjoint_writes [TxnPut [1] [] 0, TxnDeleteRange [2] Prefix] = Inr () \<longleftrightarrow>
    sorted_wrt (\<lambda>a b. \<nexists>k. touches a k \<and> touches b k)
      (filter is_write [TxnPut [1] [] 0, TxnDeleteRange [2] Prefix])"
  by (rule disjoint_check_exact) simp

text \<open>
  A range delete removes what it selects and nothing else: every live key the selector matches is
  gone, every other key keeps its row, and the count it reports is the number of keys removed.
\<close>

theorem delete_range_exact:
  assumes "store_wf s" and "delete_range s key e = (s', Inr n)"
  shows "(\<forall>k. get_live s' k =
      (if range_contains \<lparr>rq_key = key, rq_end = e, rq_revision = 0, rq_limit = 0\<rparr> k
       then None else get_live s k)) \<and>
    n = int (card {k. get_live s k \<noteq> None \<and>
      range_contains \<lparr>rq_key = key, rq_end = e, rq_revision = 0, rq_limit = 0\<rparr> k})"
proof -
  let ?req = "\<lparr>rq_key = key, rq_end = e, rq_revision = 0, rq_limit = 0\<rparr>"
  let ?ks = "map row_key (selection s ?req (current_revision s))"
  have eq: "s' = fold kine_del ?ks s" "n = int (length ?ks)"
    using assms(2) delete_range_eq [OF assms(1), of key e] by (auto split: sum.splits)
  note keys = selection_keys(1) [OF assms(1), of ?req] selection_keys(2) [OF assms(1), where req = ?req]
  have "\<forall>k \<in> set ?ks. k \<noteq> []"
    using keys(2) live_key_nonempty [OF assms(1)] by blast
  then have "get_live s' k = (if k \<in> set ?ks then None else get_live s k)" for k
    using kine_kv.look_fold_del [of ?ks s] eq(1) by simp
  moreover have "set ?ks = {k. get_live s k \<noteq> None \<and> range_contains ?req k}"
    using keys(2) by blast
  moreover from this have "length ?ks = card {k. get_live s k \<noteq> None \<and> range_contains ?req k}"
    using distinct_card [OF keys(1)] by simp
  ultimately show ?thesis using eq(2) by auto
qed

theorem delete_range_exact_witness:
  "\<forall>k. get_live (fst (delete_range demo_store [107] Single)) k =
     (if k = [107] then None else get_live demo_store k)"
proof -
  obtain s' n where "delete_range demo_store [107] Single = (s', Inr n)"
    using delete_range_eq [OF demo_store_wf, of "[107]" Single] by (simp add: range_validate_def Let_def)
  with delete_range_exact [OF demo_store_wf this] show ?thesis by (simp add: range_contains_def)
qed

text \<open>
  A transaction can half-apply: a branch that puts one key and then a key that is empty writes
  the first before it reports the error.
\<close>

theorem txn_half_applies:
  "\<exists>s'. txn_apply Store_new (and_then Txn_new [TxnPut [97] [1] 0, TxnPut [] [2] 0]) =
      Some (s', Inl EmptyKey) \<and> get_live Store_new [97] = None \<and> get_live s' [97] \<noteq> None"
  by (simp add: txn_apply_def and_then_def Txn_new_def check_disjoint_writes_def
      List.map_filter_simps overlaps_def kine_put_eq get_live_append is_live_def)
    (simp add: get_live_def latest_row_def Store_new_def)

text \<open>
  The duplicate-key check misses an overlap: a delete of all keys that carries a non-empty key
  is taken for an interval starting at that key, so a put below it passes the check although the
  delete removes it.
\<close>

theorem all_keys_delete_evades_check:
  "check_disjoint_writes [TxnPut [97] v 0, TxnDeleteRange [109] AllKeys] = Inr () \<and>
   touches (TxnPut [97] v 0) [97] \<and> touches (TxnDeleteRange [109] AllKeys) [97]"
  by (simp add: check_disjoint_writes_def List.map_filter_simps overlaps_def span_upper_def
      range_contains_def)

end
