(* ===== verification/Kine_Lease.thy ===== *)
theory Kine_Lease
  imports Kine_Txn
begin

text \<open>
  Leases of the kine store (\<open>cave-home-kine-rs/src/lease.rs\<close>): the lease table, its expiry
  decision and the deletion of the keys an expired lease owns. The table is a \<open>BTreeMap\<close>, so its
  iteration order is the ascending order of the lease ids.
\<close>

type_synonym UnixSeconds = int

record Lease =
  lease_id :: int
  ttl_seconds :: int
  granted_at :: UnixSeconds

definition expires_at :: "Lease \<Rightarrow> UnixSeconds" where
  "expires_at l = i64_saturating_add (granted_at l) (ttl_seconds l)"

definition is_expired :: "Lease \<Rightarrow> UnixSeconds \<Rightarrow> bool" where
  "is_expired l now \<longleftrightarrow> now \<ge> expires_at l"

type_synonym LeaseTable = "(int, Lease) btreemap"

definition lease_grant ::
  "LeaseTable \<Rightarrow> int \<Rightarrow> int \<Rightarrow> UnixSeconds \<Rightarrow> LeaseTable \<times> (KineError + Lease)" where
  "lease_grant t lid ttl now =
     (if lid = 0 then (t, Inl InvalidLeaseId)
      else if ttl \<le> 0 then (t, Inl (InvalidTtl ttl))
      else
        (let l = \<lparr>lease_id = lid, ttl_seconds = ttl, granted_at = now\<rparr>
         in (bt_insert lid l t, Inr l)))"

definition lease_get :: "LeaseTable \<Rightarrow> int \<Rightarrow> Lease option" where
  "lease_get t lid = map_of t lid"

definition lease_revoke :: "LeaseTable \<Rightarrow> int \<Rightarrow> LeaseTable \<times> Lease option" where
  "lease_revoke t lid = (bt_remove lid t, map_of t lid)"

definition leases_expired :: "LeaseTable \<Rightarrow> UnixSeconds \<Rightarrow> int list" where
  "leases_expired t now = map lease_id (filter (\<lambda>l. is_expired l now) (map snd t))"

fun delete_counting :: "Store \<Rightarrow> kbytes list \<Rightarrow> nat \<Rightarrow> Store \<times> nat" where
  "delete_counting s [] n = (s, n)"
| "delete_counting s (k # ks) n =
     (case kine_delete s k of
        (s', Inr (Some _)) \<Rightarrow> delete_counting s' ks (n + 1)
      | (s', _) \<Rightarrow> delete_counting s' ks n)"

definition revoke_keys :: "Store \<Rightarrow> int \<Rightarrow> Store \<times> nat" where
  "revoke_keys s lid =
     (if lid = 0 then (s, 0)
      else
        (let keys = filter (\<lambda>k. case get_live s k of Some r \<Rightarrow> row_lease r = lid | None \<Rightarrow> False)
               (live_keys s)
         in delete_counting s keys 0))"

fun expire_loop ::
  "LeaseTable \<Rightarrow> Store \<Rightarrow> int list \<Rightarrow> (int \<times> nat) list \<Rightarrow> LeaseTable \<times> Store \<times> (int \<times> nat) list" where
  "expire_loop t s [] report = (t, s, report)"
| "expire_loop t s (lid # ids) report =
     (case revoke_keys s lid of
        (s', n) \<Rightarrow> expire_loop (bt_remove lid t) s' ids (report @ [(lid, n)]))"

definition lease_expire ::
  "LeaseTable \<Rightarrow> Store \<Rightarrow> UnixSeconds \<Rightarrow> LeaseTable \<times> Store \<times> (int \<times> nat) list" where
  "lease_expire t s now = expire_loop t s (leases_expired t now) []"

section \<open>Well-formed tables\<close>

definition table_ok :: "LeaseTable \<Rightarrow> bool" where
  "table_ok t \<longleftrightarrow> bt_ok t \<and> (\<forall>(lid, l) \<in> set t. lease_id l = lid \<and> lid \<noteq> 0 \<and> 0 < ttl_seconds l)"

lemma table_ok_grant [inv_intros]:
  assumes "table_ok t"
  shows "table_ok (fst (lease_grant t lid ttl now))"
  using assms bt.ok_insert [of t lid]
  by (auto simp: table_ok_def lease_grant_def bt_insert_def Let_def)

lemma table_ok_remove [inv_intros]: "table_ok t \<Longrightarrow> table_ok (bt_remove lid t)"
  using bt.ok_remove [of t lid] by (auto simp: table_ok_def bt_remove_def)

lemma table_ok_revoke [inv_intros]: "table_ok t \<Longrightarrow> table_ok (fst (lease_revoke t lid))"
  by (simp add: lease_revoke_def table_ok_remove)

lemma in_table: "table_ok t \<Longrightarrow> (lid, l) \<in> set t \<longleftrightarrow> lease_get t lid = Some l"
  using in_set_hm [OF bt_ok_distinct [of t]] by (simp add: table_ok_def lease_get_def)

lemma set_leases_expired:
  assumes "table_ok t"
  shows "lid \<in> set (leases_expired t now) \<longleftrightarrow>
    (\<exists>l. lease_get t lid = Some l \<and> is_expired l now)"
proof -
  have "lid \<in> set (leases_expired t now) \<longleftrightarrow> (\<exists>l. (lid, l) \<in> set t \<and> is_expired l now)"
    using assms by (force simp: leases_expired_def table_ok_def image_iff Bex_def)
  then show ?thesis using in_table [OF assms] by simp
qed

section \<open>Revoking the keys of a lease\<close>

lemma live_keys_loop_set:
  "set (live_keys_loop s acc ks) = set acc \<union> {k \<in> set ks. get_live s k \<noteq> None}"
  by (induction s acc ks rule: live_keys_loop.induct) auto

lemma live_keys_loop_distinct: "distinct acc \<Longrightarrow> distinct (live_keys_loop s acc ks)"
  by (induction s acc ks rule: live_keys_loop.induct) auto

lemma set_live_keys: "k \<in> set (live_keys s) \<longleftrightarrow> get_live s k \<noteq> None"
proof -
  have "k \<in> row_key ` set (rows s)" if "get_live s k = Some r" for r
    using get_live_Some(1,2) [OF that] by blast
  then show ?thesis by (auto simp: live_keys_def live_keys_loop_set)
qed

lemma distinct_live_keys: "distinct (live_keys s)"
  by (simp add: live_keys_def live_keys_loop_distinct)

definition keys_ok :: "Store \<Rightarrow> bool" where
  "keys_ok s \<longleftrightarrow> (\<forall>r \<in> set (rows s). row_key r \<noteq> [])"

lemma keys_ok_live: "keys_ok s \<Longrightarrow> get_live s k \<noteq> None \<Longrightarrow> k \<noteq> []"
  unfolding keys_ok_def by (metis get_live_Some(1,2) not_None_eq)

lemma keys_ok_delete [inv_intros]: "keys_ok s \<Longrightarrow> keys_ok (kine_del k s)"
  by (auto simp: kine_delete_eq keys_ok_def)

lemma keys_ok_fold_delete [inv_intros]: "keys_ok s \<Longrightarrow> keys_ok (fold kine_del ks s)"
  by (induction ks arbitrary: s) (simp_all add: keys_ok_delete)

lemma delete_counting_live:
  assumes "distinct ks" and "\<forall>k \<in> set ks. k \<noteq> [] \<and> get_live s k \<noteq> None"
  shows "delete_counting s ks n = (fold kine_del ks s, n + length ks)"
  using assms
proof (induction ks arbitrary: s n)
  case (Cons k ks)
  then have "kine_delete s k =
      (append_row s (new_row s k [] 0 True), Inr (Some (i64_saturating_add (current_revision s) 1)))"
    by (simp add: kine_delete_eq)
  moreover have "\<forall>k' \<in> set ks. k' \<noteq> [] \<and> get_live (kine_del k s) k' \<noteq> None"
    using Cons.prems by (auto simp: kine_delete_get_live)
  ultimately show ?case using Cons.IH [of "kine_del k s" "n + 1"] Cons.prems by simp
qed simp

text \<open>The live view without the keys of a set of leases.\<close>

definition without_leases :: "int set \<Rightarrow> (kbytes \<Rightarrow> Row option) \<Rightarrow> kbytes \<Rightarrow> Row option" where
  "without_leases ids m k =
     (case m k of Some r \<Rightarrow> if row_lease r \<in> ids then None else Some r | None \<Rightarrow> None)"

lemma revoke_keys_view:
  assumes "keys_ok s" and "lid \<noteq> 0"
  shows "get_live (fst (revoke_keys s lid)) = without_leases {lid} (get_live s)"
    and "keys_ok (fst (revoke_keys s lid))"
    and "snd (revoke_keys s lid) = card {k. \<exists>r. get_live s k = Some r \<and> row_lease r = lid}"
proof -
  let ?ks = "filter (\<lambda>k. case get_live s k of Some r \<Rightarrow> row_lease r = lid | None \<Rightarrow> False) (live_keys s)"
  have set_ks: "set ?ks = {k. \<exists>r. get_live s k = Some r \<and> row_lease r = lid}"
    by (auto simp: set_live_keys split: option.splits)
  have ne: "\<forall>k \<in> set ?ks. k \<noteq> [] \<and> get_live s k \<noteq> None"
    using keys_ok_live [OF assms(1)] unfolding set_ks by fastforce
  have eq: "revoke_keys s lid = (fold kine_del ?ks s, length ?ks)"
    using delete_counting_live [OF _ ne, of 0] distinct_live_keys [of s] assms(2)
    by (simp add: revoke_keys_def)
  have "get_live (fold kine_del ?ks s) = (\<lambda>k. if k \<in> set ?ks then None else get_live s k)"
    using ne by (intro kine_kv.look_fold_del) blast
  also have "\<dots> = without_leases {lid} (get_live s)"
    unfolding set_ks by (auto simp: without_leases_def fun_eq_iff split: option.splits)
  finally show "get_live (fst (revoke_keys s lid)) = without_leases {lid} (get_live s)"
    unfolding eq by simp
  show "keys_ok (fst (revoke_keys s lid))"
    unfolding eq by (simp add: keys_ok_fold_delete [OF assms(1)])
  have "distinct ?ks" by (simp add: distinct_live_keys)
  then show "snd (revoke_keys s lid) = card {k. \<exists>r. get_live s k = Some r \<and> row_lease r = lid}"
    unfolding eq set_ks [symmetric] by (simp only: snd_conv distinct_card)
qed

lemma without_leases_comp:
  "without_leases A (without_leases B m) = without_leases (A \<union> B) m"
  by (auto simp: without_leases_def fun_eq_iff split: option.splits)

lemma expire_loop_effect:
  assumes "keys_ok s" and "0 \<notin> set ids" and "expire_loop t s ids report = (t', s', report')"
  shows "get_live s' = without_leases (set ids) (get_live s) \<and>
    (\<forall>lid. map_of t' lid = (if lid \<in> set ids then None else map_of t lid)) \<and>
    map fst report' = map fst report @ ids"
  using assms
proof (induction t s ids report rule: expire_loop.induct)
  case (1 t s report)
  then show ?case by (auto simp: without_leases_def fun_eq_iff split: option.splits)
next
  case (2 t s lid ids report)
  obtain s1 n where rk: "revoke_keys s lid = (s1, n)" by fastforce
  have "lid \<noteq> 0" using 2 by auto
  note view = revoke_keys_view [OF 2(2) this, unfolded rk fst_conv]
  with 2(1) [OF rk [symmetric] view(2)] 2(3,4) rk show ?case
    by (auto simp: without_leases_comp bt.get_remove)
qed

section \<open>Properties of leases\<close>

text \<open>
  Expiry is exact. When the lease table is ticked at a time, exactly the leases whose time to
  live has elapsed (the boundary included) leave the table, exactly the live keys attached to one
  of them are deleted, every other lease and key is untouched, and the report names the expired
  leases in ascending order.
\<close>

theorem lease_expiry_exact:
  assumes "store_wf s" and "table_ok t" and "lease_expire t s now = (t', s', report)"
  shows "(\<forall>lid. lease_get t' lid =
      (case lease_get t lid of Some l \<Rightarrow> if expires_at l \<le> now then None else Some l | None \<Rightarrow> None)) \<and>
    (\<forall>k. get_live s' k =
      (case get_live s k of
         Some r \<Rightarrow> (if \<exists>l. lease_get t (row_lease r) = Some l \<and> expires_at l \<le> now then None else Some r)
       | None \<Rightarrow> None)) \<and>
    sorted_wrt (<) (map fst report)"
proof -
  let ?ids = "leases_expired t now"
  have keys: "keys_ok s" using assms(1) by (simp add: store_wf_def row_ok_def keys_ok_def)
  have ids: "lid \<in> set ?ids \<longleftrightarrow> (\<exists>l. lease_get t lid = Some l \<and> expires_at l \<le> now)" for lid
    using set_leases_expired [OF assms(2)] by (simp add: is_expired_def)
  have "0 \<notin> set ?ids"
    using ids in_table [OF assms(2)] assms(2) by (fastforce simp: table_ok_def)
  note eff = expire_loop_effect [OF keys this assms(3) [unfolded lease_expire_def]]
  have "map lease_id (filter (\<lambda>l. is_expired l now) (map snd t)) =
      map fst (filter (\<lambda>e. is_expired (snd e) now) t)"
    using assms(2) by (auto simp: table_ok_def filter_map comp_def intro!: map_cong)
  then have "sorted_wrt (<) ?ids"
    using assms(2) sorted_wrt_filter_fst [of t]
    by (simp add: leases_expired_def table_ok_def bt_ok_def)
  then show ?thesis
    using eff ids by (auto simp: without_leases_def lease_get_def split: option.splits)
qed

theorem lease_expiry_exact_witness:
  "lease_get (fst (lease_expire [(7, \<lparr>lease_id = 7, ttl_seconds = 10, granted_at = 0\<rparr>)]
     demo_store 10)) 7 = None"
proof -
  let ?t = "[(7, \<lparr>lease_id = 7, ttl_seconds = 10, granted_at = 0\<rparr>)]"
  obtain t' s' rep where ex: "lease_expire ?t demo_store 10 = (t', s', rep)"
    by (cases "lease_expire ?t demo_store 10") auto
  have "table_ok ?t" by (simp add: table_ok_def bt_ok_def)
  from lease_expiry_exact [OF demo_store_wf this ex] ex show ?thesis
    by (simp add: lease_get_def expires_at_def i64_saturating_add_def i64_max_def i64_min_def)
qed

end
