(* ===== verification/Mqtt_Topic.thy ===== *)
theory Mqtt_Topic
  imports Cave_Prelude
begin

text \<open>
  Topic names, topic filters and wildcard matching of the MQTT broker
  (\<open>cave-home-mqtt/src/broker/topic.rs\<close>). A topic is a string; its levels are the fields between
  the slashes.
\<close>

definition valid_topic_name :: "string \<Rightarrow> bool" where
  "valid_topic_name name \<longleftrightarrow>
     name \<noteq> [] \<and> CHR ''+'' \<notin> set name \<and> CHR ''#'' \<notin> set name \<and> CHR 0x00 \<notin> set name"

text \<open>The loop over the levels; the last level is the one with nothing behind it.\<close>

fun filter_levels_ok :: "string list \<Rightarrow> bool" where
  "filter_levels_ok [] = True"
| "filter_levels_ok (level # rest) =
     (if CHR ''#'' \<in> set level \<and> (level \<noteq> ''#'' \<or> rest \<noteq> []) then False
      else if CHR ''+'' \<in> set level \<and> level \<noteq> ''+'' then False
      else filter_levels_ok rest)"

definition valid_topic_filter :: "string \<Rightarrow> bool" where
  "valid_topic_filter flt =
     (if flt = [] \<or> CHR 0x00 \<in> set flt then False else filter_levels_ok (split_on CHR ''/'' flt))"

fun match_levels :: "string list \<Rightarrow> string list \<Rightarrow> bool" where
  "match_levels [] t = (t = [])"
| "match_levels (level # f) t =
     (if level = ''#'' then True
      else if level = ''+'' then
        (case t of [] \<Rightarrow> False | _ # t' \<Rightarrow> match_levels f t')
      else
        (case t of [] \<Rightarrow> False | x # t' \<Rightarrow> if x \<noteq> level then False else match_levels f t'))"

definition topic_matches :: "string \<Rightarrow> string \<Rightarrow> bool" where
  "topic_matches flt topic =
     (let f = split_on CHR ''/'' flt; t = split_on CHR ''/'' topic in
      if (hd f = ''#'' \<or> hd f = ''+'') \<and> starts_with (hd t) ''$'' then False
      else match_levels f t)"

record SharedFilter =
  group :: string
  shared_filter :: string

definition parse_shared :: "string \<Rightarrow> SharedFilter option" where
  "parse_shared flt =
     (if \<not> starts_with flt ''$share/'' then None
      else
        (let rest = drop 7 flt in
         if CHR ''/'' \<notin> set rest then None
         else
           (let grp = takeWhile (\<lambda>c. c \<noteq> CHR ''/'') rest;
                inner = drop (length grp + 1) rest
            in if grp = [] \<or> CHR ''+'' \<in> set grp \<or> CHR ''#'' \<in> set grp \<or> inner = [] then None
               else Some \<lparr>group = grp, shared_filter = inner\<rparr>)))"

section \<open>What a filter selects\<close>

definition wildcard_free :: "string \<Rightarrow> bool" where
  "wildcard_free s \<longleftrightarrow> CHR ''+'' \<notin> set s \<and> CHR ''#'' \<notin> set s"

lemma set_split_on: "f \<in> set (split_on c s) \<Longrightarrow> set f \<subseteq> set s"
proof (induction s arbitrary: f)
  case (Cons x s)
  obtain g gs where "split_on c s = g # gs" by (meson neq_Nil_conv split_on_not_Nil)
  with Cons show ?case by (fastforce split: if_splits)
qed simp

lemma wildcard_free_level:
  assumes "wildcard_free s" and "l \<in> set (split_on c s)"
  shows "l \<noteq> ''#'' \<and> l \<noteq> ''+''"
  using assms set_split_on [OF assms(2)] by (auto simp: wildcard_free_def)

text \<open>A literal prefix of levels has to be matched level by level.\<close>

lemma match_literal:
  "\<forall>l \<in> set p. l \<noteq> ''#'' \<and> l \<noteq> ''+'' \<Longrightarrow>
     match_levels (p @ f) t \<longleftrightarrow> (\<exists>t'. t = p @ t' \<and> match_levels f t')"
proof (induction p arbitrary: t)
  case (Cons l p)
  then show ?case by (cases t) auto
qed simp

lemma split_on_append_sep: "split_on c (s @ c # t) = split_on c s @ split_on c t"
  by (induction s) (auto split: list.splits)

lemma topic_matches_literal_then:
  assumes "wildcard_free p"
  shows "topic_matches (p @ CHR ''/'' # u) t \<longleftrightarrow>
    (\<exists>ts. split_on CHR ''/'' t = split_on CHR ''/'' p @ ts \<and> match_levels (split_on CHR ''/'' u) ts)"
proof -
  have lit: "\<forall>l \<in> set (split_on CHR ''/'' p). l \<noteq> ''#'' \<and> l \<noteq> ''+''"
    using wildcard_free_level [OF assms] by blast
  moreover have "hd (split_on CHR ''/'' (p @ CHR ''/'' # u)) = hd (split_on CHR ''/'' p)"
    by (simp add: split_on_append_sep)
  moreover have "hd (split_on CHR ''/'' p) \<in> set (split_on CHR ''/'' p)" by simp
  ultimately show ?thesis
    using match_literal [OF lit] by (auto simp: topic_matches_def Let_def split_on_append_sep)
qed

lemma split_on_prefix_iff:
  "(\<exists>ts. split_on c t = split_on c p @ ts) \<longleftrightarrow> t = p \<or> (\<exists>r. t = p @ c # r)"
proof
  assume "\<exists>ts. split_on c t = split_on c p @ ts"
  then obtain ts where ts: "split_on c t = split_on c p @ ts" by blast
  show "t = p \<or> (\<exists>r. t = p @ c # r)"
  proof (cases "ts = []")
    case True
    with ts show ?thesis by (simp add: split_on_inject)
  next
    case False
    have clean: "\<forall>f \<in> set ts. c \<notin> set f" using ts split_on_clean [of _ c t] by auto
    then have "split_on c (p @ c # join_with c ts) = split_on c t"
      using split_join [OF False clean] by (simp add: split_on_append_sep ts)
    then show ?thesis by (metis split_on_inject)
  qed
qed (auto simp: split_on_append_sep)

lemma split_on_one_more:
  "split_on c t = split_on c p @ [x] \<longleftrightarrow> t = p @ c # x \<and> c \<notin> set x"
proof
  assume eq: "split_on c t = split_on c p @ [x]"
  then have "c \<notin> set x" using split_on_clean [of x c t] by simp
  then have "split_on c (p @ c # x) = split_on c t" by (simp add: split_on_append_sep split_on_id eq)
  with \<open>c \<notin> set x\<close> show "t = p @ c # x \<and> c \<notin> set x" by (simp add: split_on_inject)
qed (auto simp: split_on_append_sep split_on_id)

lemma topic_matches_exact: "wildcard_free p \<Longrightarrow> topic_matches p t \<longleftrightarrow> t = p"
proof -
  assume wf: "wildcard_free p"
  then have lit: "\<forall>l \<in> set (split_on CHR ''/'' p). l \<noteq> ''#'' \<and> l \<noteq> ''+''"
    using wildcard_free_level by blast
  moreover have "hd (split_on CHR ''/'' p) \<in> set (split_on CHR ''/'' p)" by simp
  ultimately show "topic_matches p t \<longleftrightarrow> t = p"
    using match_literal [OF lit, of "[]"] split_on_inject [of "CHR ''/''" t p]
    by (auto simp: topic_matches_def Let_def)
qed

lemma topic_matches_below:
  "wildcard_free p \<Longrightarrow> topic_matches (p @ ''/#'') t \<longleftrightarrow> t = p \<or> (\<exists>r. t = p @ ''/'' @ r)"
  using topic_matches_literal_then [of p "''#''" t] split_on_prefix_iff [of "CHR ''/''" t p] by simp

lemma topic_matches_children:
  assumes "wildcard_free p"
  shows "topic_matches (p @ ''/+'') t \<longleftrightarrow> (\<exists>x. CHR ''/'' \<notin> set x \<and> t = p @ ''/'' @ x)"
proof -
  have one: "match_levels [''+''] ts \<longleftrightarrow> (\<exists>x. ts = [x])" for ts by (cases ts) auto
  show ?thesis
    using topic_matches_literal_then [OF assms, of "''+''" t]
      split_on_one_more [of "CHR ''/''" t p] one by auto
qed

section \<open>Properties of topic matching\<close>

text \<open>
  What topic filters select. For any literal path \<open>p\<close>: the filter \<open>p\<close> selects the topic \<open>p\<close>
  only; \<open>p/#\<close> selects \<open>p\<close> and everything below it; \<open>p/+\<close> selects the direct children of \<open>p\<close>;
  and a bare \<open>#\<close> selects every topic except those whose first level starts with \<open>$\<close>.
\<close>

theorem filter_selects:
  assumes "wildcard_free p"
  shows "(topic_matches p t \<longleftrightarrow> t = p) \<and>
    (topic_matches (p @ ''/#'') t \<longleftrightarrow> t = p \<or> (\<exists>r. t = p @ ''/'' @ r)) \<and>
    (topic_matches (p @ ''/+'') t \<longleftrightarrow> (\<exists>x. CHR ''/'' \<notin> set x \<and> t = p @ ''/'' @ x)) \<and>
    (topic_matches ''#'' t \<longleftrightarrow> \<not> starts_with t ''$'')"
proof (intro conjI)
  show "topic_matches p t \<longleftrightarrow> t = p" using assms by (rule topic_matches_exact)
  show "topic_matches (p @ ''/#'') t \<longleftrightarrow> t = p \<or> (\<exists>r. t = p @ ''/'' @ r)"
    using assms by (rule topic_matches_below)
  show "topic_matches (p @ ''/+'') t \<longleftrightarrow> (\<exists>x. CHR ''/'' \<notin> set x \<and> t = p @ ''/'' @ x)"
    using assms by (rule topic_matches_children)
  have "starts_with (hd (split_on CHR ''/'' t)) ''$'' \<longleftrightarrow> starts_with t ''$''"
    by (cases t) (auto split: list.splits)
  then show "topic_matches ''#'' t \<longleftrightarrow> \<not> starts_with t ''$''"
    by (simp add: topic_matches_def)
qed

theorem filter_selects_witness:
  "topic_matches ''home/#'' ''home/kitchen/light'' \<longleftrightarrow>
     ''home/kitchen/light'' = ''home'' \<or> (\<exists>r. ''home/kitchen/light'' = ''home'' @ ''/'' @ r)"
  using filter_selects [of "''home''" "''home/kitchen/light''"] by (simp add: wildcard_free_def)

end
