(* ===== verification/Mqtt_Packet.thy ===== *)
theory Mqtt_Packet
  imports Mqtt_Topic
begin

text \<open>
  The MQTT 5.0 vocabulary of the broker: quality of service (\<open>cave-home-mqtt/src/packet.rs\<close>),
  reason codes (\<open>v5/reason.rs\<close>), properties (\<open>v5/property.rs\<close>) and the control packets
  (\<open>v5/packet.rs\<close>). Payloads are byte lists.
\<close>

section \<open>Quality of service\<close>

datatype QoS = AtMostOnce | AtLeastOnce | ExactlyOnce

fun qos_u8 :: "QoS \<Rightarrow> u8" where
  "qos_u8 AtMostOnce = 0"
| "qos_u8 AtLeastOnce = 1"
| "qos_u8 ExactlyOnce = 2"

definition QoS_from_u8 :: "u8 \<Rightarrow> QoS option" where
  "QoS_from_u8 b =
     (if b = 0 then Some AtMostOnce
      else if b = 1 then Some AtLeastOnce
      else if b = 2 then Some ExactlyOnce
      else None)"

section \<open>Reason codes\<close>

datatype ReasonCode =
    Success
  | GrantedQoS1
  | GrantedQoS2
  | DisconnectWithWill
  | NoMatchingSubscribers
  | NoSubscriptionExisted
  | ContinueAuthentication
  | ReAuthenticate
  | UnspecifiedError
  | MalformedPacket
  | ProtocolError
  | ImplementationSpecificError
  | UnsupportedProtocolVersion
  | ClientIdentifierNotValid
  | BadUserNameOrPassword
  | NotAuthorized
  | ServerUnavailable
  | ServerBusy
  | Banned
  | ServerShuttingDown
  | BadAuthenticationMethod
  | KeepAliveTimeout
  | SessionTakenOver
  | TopicFilterInvalid
  | TopicNameInvalid
  | PacketIdentifierInUse
  | PacketIdentifierNotFound
  | ReceiveMaximumExceeded
  | TopicAliasInvalid
  | PacketTooLarge
  | MessageRateTooHigh
  | QuotaExceeded
  | AdministrativeAction
  | PayloadFormatInvalid
  | RetainNotSupported
  | QoSNotSupported
  | UseAnotherServer
  | ServerMoved
  | SharedSubscriptionsNotSupported
  | ConnectionRateExceeded
  | MaximumConnectTime
  | SubscriptionIdentifiersNotSupported
  | WildcardSubscriptionsNotSupported

fun reason_u8 :: "ReasonCode \<Rightarrow> u8" where
  "reason_u8 Success = 0x00"
| "reason_u8 GrantedQoS1 = 0x01"
| "reason_u8 GrantedQoS2 = 0x02"
| "reason_u8 DisconnectWithWill = 0x04"
| "reason_u8 NoMatchingSubscribers = 0x10"
| "reason_u8 NoSubscriptionExisted = 0x11"
| "reason_u8 ContinueAuthentication = 0x18"
| "reason_u8 ReAuthenticate = 0x19"
| "reason_u8 UnspecifiedError = 0x80"
| "reason_u8 MalformedPacket = 0x81"
| "reason_u8 ProtocolError = 0x82"
| "reason_u8 ImplementationSpecificError = 0x83"
| "reason_u8 UnsupportedProtocolVersion = 0x84"
| "reason_u8 ClientIdentifierNotValid = 0x85"
| "reason_u8 BadUserNameOrPassword = 0x86"
| "reason_u8 NotAuthorized = 0x87"
| "reason_u8 ServerUnavailable = 0x88"
| "reason_u8 ServerBusy = 0x89"
| "reason_u8 Banned = 0x8A"
| "reason_u8 ServerShuttingDown = 0x8B"
| "reason_u8 BadAuthenticationMethod = 0x8C"
| "reason_u8 KeepAliveTimeout = 0x8D"
| "reason_u8 SessionTakenOver = 0x8E"
| "reason_u8 TopicFilterInvalid = 0x8F"
| "reason_u8 TopicNameInvalid = 0x90"
| "reason_u8 PacketIdentifierInUse = 0x91"
| "reason_u8 PacketIdentifierNotFound = 0x92"
| "reason_u8 ReceiveMaximumExceeded = 0x93"
| "reason_u8 TopicAliasInvalid = 0x94"
| "reason_u8 PacketTooLarge = 0x95"
| "reason_u8 MessageRateTooHigh = 0x96"
| "reason_u8 QuotaExceeded = 0x97"
| "reason_u8 AdministrativeAction = 0x98"
| "reason_u8 PayloadFormatInvalid = 0x99"
| "reason_u8 RetainNotSupported = 0x9A"
| "reason_u8 QoSNotSupported = 0x9B"
| "reason_u8 UseAnotherServer = 0x9C"
| "reason_u8 ServerMoved = 0x9D"
| "reason_u8 SharedSubscriptionsNotSupported = 0x9E"
| "reason_u8 ConnectionRateExceeded = 0x9F"
| "reason_u8 MaximumConnectTime = 0xA0"
| "reason_u8 SubscriptionIdentifiersNotSupported = 0xA1"
| "reason_u8 WildcardSubscriptionsNotSupported = 0xA2"

text \<open>The decoding table of \<open>ReasonCode::from_u8\<close>, in the order of its arms.\<close>

definition reason_table :: "(u8 \<times> ReasonCode) list" where
  "reason_table =
     [(0x00, Success),
      (0x01, GrantedQoS1),
      (0x02, GrantedQoS2),
      (0x04, DisconnectWithWill),
      (0x10, NoMatchingSubscribers),
      (0x11, NoSubscriptionExisted),
      (0x18, ContinueAuthentication),
      (0x19, ReAuthenticate),
      (0x80, UnspecifiedError),
      (0x81, MalformedPacket),
      (0x82, ProtocolError),
      (0x83, ImplementationSpecificError),
      (0x84, UnsupportedProtocolVersion),
      (0x85, ClientIdentifierNotValid),
      (0x86, BadUserNameOrPassword),
      (0x87, NotAuthorized),
      (0x88, ServerUnavailable),
      (0x89, ServerBusy),
      (0x8A, Banned),
      (0x8B, ServerShuttingDown),
      (0x8C, BadAuthenticationMethod),
      (0x8D, KeepAliveTimeout),
      (0x8E, SessionTakenOver),
      (0x8F, TopicFilterInvalid),
      (0x90, TopicNameInvalid),
      (0x91, PacketIdentifierInUse),
      (0x92, PacketIdentifierNotFound),
      (0x93, ReceiveMaximumExceeded),
      (0x94, TopicAliasInvalid),
      (0x95, PacketTooLarge),
      (0x96, MessageRateTooHigh),
      (0x97, QuotaExceeded),
      (0x98, AdministrativeAction),
      (0x99, PayloadFormatInvalid),
      (0x9A, RetainNotSupported),
      (0x9B, QoSNotSupported),
      (0x9C, UseAnotherServer),
      (0x9D, ServerMoved),
      (0x9E, SharedSubscriptionsNotSupported),
      (0x9F, ConnectionRateExceeded),
      (0xA0, MaximumConnectTime),
      (0xA1, SubscriptionIdentifiersNotSupported),
      (0xA2, WildcardSubscriptionsNotSupported)]"

definition ReasonCode_from_u8 :: "u8 \<Rightarrow> ReasonCode option" where
  "ReasonCode_from_u8 b = map_of reason_table b"

definition is_error :: "ReasonCode \<Rightarrow> bool" where
  "is_error r \<longleftrightarrow> reason_u8 r \<ge> 0x80"

section \<open>Properties\<close>

datatype Property =
    PayloadFormatIndicator u8
  | MessageExpiryInterval u32
  | ContentType string
  | ResponseTopic string
  | CorrelationData "u8 list"
  | SubscriptionIdentifier u32
  | SessionExpiryInterval u32
  | AssignedClientIdentifier string
  | ServerKeepAlive u16
  | AuthenticationMethod string
  | AuthenticationData "u8 list"
  | RequestProblemInformation u8
  | WillDelayInterval u32
  | RequestResponseInformation u8
  | ResponseInformation string
  | ServerReference string
  | ReasonString string
  | ReceiveMaximum u16
  | TopicAliasMaximum u16
  | TopicAlias u16
  | MaximumQoS u8
  | RetainAvailable u8
  | UserProperty string string
  | MaximumPacketSize u32
  | WildcardSubscriptionAvailable u8
  | SubscriptionIdentifierAvailable u8
  | SharedSubscriptionAvailable u8

fun property_identifier :: "Property \<Rightarrow> u8" where
  "property_identifier (PayloadFormatIndicator _) = 0x01"
| "property_identifier (MessageExpiryInterval _) = 0x02"
| "property_identifier (ContentType _) = 0x03"
| "property_identifier (ResponseTopic _) = 0x08"
| "property_identifier (CorrelationData _) = 0x09"
| "property_identifier (SubscriptionIdentifier _) = 0x0B"
| "property_identifier (SessionExpiryInterval _) = 0x11"
| "property_identifier (AssignedClientIdentifier _) = 0x12"
| "property_identifier (ServerKeepAlive _) = 0x13"
| "property_identifier (AuthenticationMethod _) = 0x15"
| "property_identifier (AuthenticationData _) = 0x16"
| "property_identifier (RequestProblemInformation _) = 0x17"
| "property_identifier (WillDelayInterval _) = 0x18"
| "property_identifier (RequestResponseInformation _) = 0x19"
| "property_identifier (ResponseInformation _) = 0x1A"
| "property_identifier (ServerReference _) = 0x1C"
| "property_identifier (ReasonString _) = 0x1F"
| "property_identifier (ReceiveMaximum _) = 0x21"
| "property_identifier (TopicAliasMaximum _) = 0x22"
| "property_identifier (TopicAlias _) = 0x23"
| "property_identifier (MaximumQoS _) = 0x24"
| "property_identifier (RetainAvailable _) = 0x25"
| "property_identifier (UserProperty _ _) = 0x26"
| "property_identifier (MaximumPacketSize _) = 0x27"
| "property_identifier (WildcardSubscriptionAvailable _) = 0x28"
| "property_identifier (SubscriptionIdentifierAvailable _) = 0x29"
| "property_identifier (SharedSubscriptionAvailable _) = 0x2A"

section \<open>Control packets\<close>

record Will =
  will_topic :: string
  will_payload :: "u8 list"
  will_qos :: QoS
  will_retain :: bool
  will_properties :: "Property list"

record ConnectV5 =
  con_client_id :: string
  clean_start :: bool
  keep_alive_secs :: u16
  con_properties :: "Property list"
  con_will :: "Will option"
  con_username :: "string option"
  con_password :: "u8 list option"

record ConnAckV5 =
  session_present :: bool
  ca_reason_code :: ReasonCode
  ca_properties :: "Property list"

record PublishV5 =
  pub_topic :: string
  pub_qos :: QoS
  pub_retain :: bool
  pub_dup :: bool
  pub_packet_id :: "u16 option"
  pub_properties :: "Property list"
  pub_payload :: "u8 list"

text \<open>PUBACK, PUBREC, PUBREL and PUBCOMP have one shape.\<close>

record AckV5 =
  ack_packet_id :: u16
  ack_reason_code :: ReasonCode
  ack_properties :: "Property list"

type_synonym PubAckV5 = AckV5
type_synonym PubRecV5 = AckV5
type_synonym PubRelV5 = AckV5
type_synonym PubCompV5 = AckV5

datatype RetainHandling = SendOnSubscribe | SendIfNew | DoNotSend

definition RetainHandling_from_u8 :: "u8 \<Rightarrow> RetainHandling option" where
  "RetainHandling_from_u8 b =
     (if b = 0 then Some SendOnSubscribe
      else if b = 1 then Some SendIfNew
      else if b = 2 then Some DoNotSend
      else None)"

record SubscriptionV5 =
  sub_topic_filter :: string
  sub_qos :: QoS
  no_local :: bool
  retain_as_published :: bool
  retain_handling :: RetainHandling

record SubscribeV5 =
  s_packet_id :: u16
  s_properties :: "Property list"
  s_subscriptions :: "SubscriptionV5 list"

record SubAckV5 =
  sa_packet_id :: u16
  sa_properties :: "Property list"
  sa_reason_codes :: "ReasonCode list"

record UnsubscribeV5 =
  u_packet_id :: u16
  u_properties :: "Property list"
  u_topic_filters :: "string list"

record UnsubAckV5 =
  ua_packet_id :: u16
  ua_properties :: "Property list"
  ua_reason_codes :: "ReasonCode list"

record DisconnectV5 =
  d_reason_code :: ReasonCode
  d_properties :: "Property list"

record AuthV5 =
  auth_reason_code :: ReasonCode
  auth_properties :: "Property list"

datatype PacketV5 =
    Connect ConnectV5
  | ConnAck ConnAckV5
  | Publish PublishV5
  | PubAck PubAckV5
  | PubRec PubRecV5
  | PubRel PubRelV5
  | PubComp PubCompV5
  | Subscribe SubscribeV5
  | SubAck SubAckV5
  | Unsubscribe UnsubscribeV5
  | UnsubAck UnsubAckV5
  | PingReq
  | PingResp
  | Disconnect DisconnectV5
  | Auth AuthV5

section \<open>The code tables are inverse\<close>

lemma QoS_round [wire_simps]: "QoS_from_u8 (qos_u8 q) = Some q"
  by (cases q) (simp_all add: QoS_from_u8_def)

lemma reason_round [wire_simps]: "ReasonCode_from_u8 (reason_u8 r) = Some r"
  by (cases r) (simp_all add: ReasonCode_from_u8_def reason_table_def)

lemma reason_from_u8_Some: "ReasonCode_from_u8 b = Some r \<Longrightarrow> reason_u8 r = b"
  unfolding ReasonCode_from_u8_def
  by (drule map_of_SomeD) (auto simp: reason_table_def)

end
