(* ===== verification/Mqtt_Session.thy ===== *)
theory Mqtt_Session
  imports Mqtt_Packet "HOL-Library.Monad_Syntax"
begin

text \<open>
  The parts of the MQTT broker's state: the client session with its packet-identifier allocation
  (\<open>cave-home-mqtt/src/broker/session.rs\<close>), credentials and topic access rules
  (\<open>broker/auth.rs\<close>), retained messages (\<open>broker/retain.rs\<close>), the counters (\<open>metrics.rs\<close>) and
  the automation hook (\<open>broker/hooks.rs\<close>).

  \<open>Session::next_id\<close> loops until it finds a free identifier and never returns when there is none:
  it is a partial function, and \<open>None\<close> is the run that does not end.
\<close>

section \<open>Sessions\<close>

record Session =
  client_id :: string
  username :: "string option"
  session_expiry_secs :: u32
  connected :: bool
  subscriptions :: "SubscriptionV5 list"
  next_packet_id :: u16
  outgoing_unacked :: "u16 \<Rightarrow> PublishV5 option"
  outgoing_pubrel :: "u16 set"
  incoming_qos2 :: "u16 set"
  queued :: "PublishV5 list"

definition Session_new :: "string \<Rightarrow> u32 \<Rightarrow> Session" where
  "Session_new cid expiry =
     \<lparr>client_id = cid, username = None, session_expiry_secs = expiry, connected = False,
      subscriptions = [], next_packet_id = 0, outgoing_unacked = (\<lambda>_. None), outgoing_pubrel = {},
      incoming_qos2 = {}, queued = []\<rparr>"

partial_function (option) next_id_loop :: "(u16 \<Rightarrow> bool) \<Rightarrow> u16 \<Rightarrow> u16 option" where
  [code]: "next_id_loop in_use n =
     (let n1 = n + 1;
          n2 = (if n1 = 0 then 1 else n1)
      in if \<not> in_use n2 then Some n2 else next_id_loop in_use n2)"

definition id_in_use :: "Session \<Rightarrow> u16 \<Rightarrow> bool" where
  "id_in_use s n \<longleftrightarrow> outgoing_unacked s n \<noteq> None \<or> n \<in> outgoing_pubrel s"

definition next_id :: "Session \<Rightarrow> (Session \<times> u16) option" where
  "next_id s =
     (case next_id_loop (id_in_use s) (next_packet_id s) of
        None \<Rightarrow> None
      | Some n \<Rightarrow> Some (s\<lparr>next_packet_id := n\<rparr>, n))"

fun replace_subscription :: "SubscriptionV5 \<Rightarrow> SubscriptionV5 list \<Rightarrow> SubscriptionV5 list option" where
  "replace_subscription sub [] = None"
| "replace_subscription sub (x # xs) =
     (if sub_topic_filter x = sub_topic_filter sub then Some (sub # xs)
      else map_option ((#) x) (replace_subscription sub xs))"

definition add_subscription :: "Session \<Rightarrow> SubscriptionV5 \<Rightarrow> Session \<times> bool" where
  "add_subscription s sub =
     (case replace_subscription sub (subscriptions s) of
        Some subs \<Rightarrow> (s\<lparr>subscriptions := subs\<rparr>, True)
      | None \<Rightarrow> (s\<lparr>subscriptions := subscriptions s @ [sub]\<rparr>, False))"

definition remove_subscription :: "Session \<Rightarrow> string \<Rightarrow> Session \<times> bool" where
  "remove_subscription s flt =
     (let before = length (subscriptions s);
          s' = s\<lparr>subscriptions := filter (\<lambda>x. sub_topic_filter x \<noteq> flt) (subscriptions s)\<rparr>
      in (s', length (subscriptions s') \<noteq> before))"

section \<open>Authentication and access rules\<close>

datatype AclAction = AclPublish | AclSubscribe

record AclRule =
  rule_username :: "string option"
  rule_action :: "AclAction option"
  rule_topic :: string
  rule_allow :: bool

record Authenticator =
  credentials :: "(string, u8 list) hashmap"
  allow_anonymous :: bool
  default_allow :: bool
  acl_rules :: "AclRule list"

definition Authenticator_default :: Authenticator where
  "Authenticator_default =
     \<lparr>credentials = [], allow_anonymous = False, default_allow = False, acl_rules = []\<rparr>"

definition set_anonymous :: "Authenticator \<Rightarrow> bool \<Rightarrow> Authenticator" where
  "set_anonymous a b = a\<lparr>allow_anonymous := b\<rparr>"

definition set_default_allow :: "Authenticator \<Rightarrow> bool \<Rightarrow> Authenticator" where
  "set_default_allow a b = a\<lparr>default_allow := b\<rparr>"

definition add_user :: "Authenticator \<Rightarrow> string \<Rightarrow> u8 list \<Rightarrow> Authenticator" where
  "add_user a user pw = a\<lparr>credentials := hm_insert user pw (credentials a)\<rparr>"

definition push_rule ::
  "Authenticator \<Rightarrow> string option \<Rightarrow> AclAction option \<Rightarrow> string \<Rightarrow> bool \<Rightarrow> Authenticator" where
  "push_rule a user act topic allow =
     a\<lparr>acl_rules := acl_rules a @ [\<lparr>rule_username = user, rule_action = act, rule_topic = topic,
                                    rule_allow = allow\<rparr>]\<rparr>"

definition acl_allow :: "Authenticator \<Rightarrow> string \<Rightarrow> AclAction \<Rightarrow> string \<Rightarrow> Authenticator" where
  "acl_allow a user act topic = push_rule a (Some user) (Some act) topic True"

definition acl_deny :: "Authenticator \<Rightarrow> string \<Rightarrow> AclAction \<Rightarrow> string \<Rightarrow> Authenticator" where
  "acl_deny a user act topic = push_rule a (Some user) (Some act) topic False"

definition acl_allow_any :: "Authenticator \<Rightarrow> AclAction \<Rightarrow> string \<Rightarrow> Authenticator" where
  "acl_allow_any a act topic = push_rule a None (Some act) topic True"

definition authenticate :: "Authenticator \<Rightarrow> string option \<Rightarrow> u8 list option \<Rightarrow> bool" where
  "authenticate a user pw =
     (case user of
        None \<Rightarrow> allow_anonymous a
      | Some u \<Rightarrow>
          (case hm_get (credentials a) u of
             Some stored \<Rightarrow> pw = Some stored
           | None \<Rightarrow> False))"

definition rule_applies :: "AclRule \<Rightarrow> string option \<Rightarrow> AclAction \<Rightarrow> string \<Rightarrow> bool" where
  "rule_applies r user act topic =
     (let user_ok = (case rule_username r of None \<Rightarrow> True | Some u \<Rightarrow> Some u = user);
          action_ok = (case rule_action r of None \<Rightarrow> True | Some x \<Rightarrow> x = act)
      in user_ok \<and> action_ok \<and> topic_matches (rule_topic r) topic)"

fun authorize_loop :: "AclRule list \<Rightarrow> bool \<Rightarrow> string option \<Rightarrow> AclAction \<Rightarrow> string \<Rightarrow> bool" where
  "authorize_loop [] dflt user act topic = dflt"
| "authorize_loop (r # rs) dflt user act topic =
     (if rule_applies r user act topic then rule_allow r
      else authorize_loop rs dflt user act topic)"

definition authorize :: "Authenticator \<Rightarrow> string option \<Rightarrow> AclAction \<Rightarrow> string \<Rightarrow> bool" where
  "authorize a user act topic = authorize_loop (acl_rules a) (default_allow a) user act topic"

section \<open>Retained messages\<close>

record RetainedMessage =
  ret_payload :: "u8 list"
  ret_qos :: QoS
  ret_properties :: "Property list"

type_synonym RetainedStore = "(string, RetainedMessage) hashmap"

definition retained_apply :: "RetainedStore \<Rightarrow> string \<Rightarrow> RetainedMessage \<Rightarrow> RetainedStore" where
  "retained_apply m topic msg =
     (if ret_payload msg = [] then hm_remove topic m else hm_insert topic msg m)"

definition retained_clear :: "RetainedStore \<Rightarrow> string \<Rightarrow> RetainedStore" where
  "retained_clear m topic = hm_remove topic m"

definition retained_matching :: "RetainedStore \<Rightarrow> string \<Rightarrow> (string \<times> RetainedMessage) list" where
  "retained_matching m flt = filter (\<lambda>(topic, _). topic_matches flt topic) m"

section \<open>Counters\<close>

record BrokerMetrics =
  clients_connected :: u64
  clients_total :: u64
  messages_received :: u64
  messages_sent :: u64
  messages_dropped :: u64
  bytes_received :: u64
  bytes_sent :: u64
  retained_messages :: u64
  m_subscriptions :: u64

definition BrokerMetrics_default :: BrokerMetrics where
  "BrokerMetrics_default =
     \<lparr>clients_connected = 0, clients_total = 0, messages_received = 0, messages_sent = 0,
      messages_dropped = 0, bytes_received = 0, bytes_sent = 0, retained_messages = 0,
      m_subscriptions = 0\<rparr>"

definition on_client_connected :: "BrokerMetrics \<Rightarrow> BrokerMetrics" where
  "on_client_connected m =
     m\<lparr>clients_connected := clients_connected m + 1, clients_total := clients_total m + 1\<rparr>"

definition on_client_disconnected :: "BrokerMetrics \<Rightarrow> BrokerMetrics" where
  "on_client_disconnected m = m\<lparr>clients_connected := saturating_sub (clients_connected m) 1\<rparr>"

definition on_message_received :: "nat \<Rightarrow> BrokerMetrics \<Rightarrow> BrokerMetrics" where
  "on_message_received n m =
     m\<lparr>messages_received := messages_received m + 1, bytes_received := bytes_received m + of_nat n\<rparr>"

definition on_message_sent :: "nat \<Rightarrow> BrokerMetrics \<Rightarrow> BrokerMetrics" where
  "on_message_sent n m =
     m\<lparr>messages_sent := messages_sent m + 1, bytes_sent := bytes_sent m + of_nat n\<rparr>"

definition on_message_dropped :: "BrokerMetrics \<Rightarrow> BrokerMetrics" where
  "on_message_dropped m = m\<lparr>messages_dropped := messages_dropped m + 1\<rparr>"

definition set_retained :: "u64 \<Rightarrow> BrokerMetrics \<Rightarrow> BrokerMetrics" where
  "set_retained n m = m\<lparr>retained_messages := n\<rparr>"

definition set_subscriptions :: "u64 \<Rightarrow> BrokerMetrics \<Rightarrow> BrokerMetrics" where
  "set_subscriptions n m = m\<lparr>m_subscriptions := n\<rparr>"

definition prometheus_block :: "string \<Rightarrow> string \<Rightarrow> string \<Rightarrow> u64 \<Rightarrow> string" where
  "prometheus_block name kind hlp v =
     ''# HELP '' @ name @ '' '' @ hlp @ [CHR 0x0A] @
     ''# TYPE '' @ name @ '' '' @ kind @ [CHR 0x0A] @
     name @ '' '' @ show_nat (unat v) @ [CHR 0x0A]"

definition render_prometheus :: "BrokerMetrics \<Rightarrow> string" where
  "render_prometheus m =
     prometheus_block ''mqtt_clients_connected'' ''gauge'' ''Clients currently connected.'' (clients_connected m) @
     prometheus_block ''mqtt_clients_total'' ''counter'' ''Connections accepted over the broker lifetime.'' (clients_total m) @
     prometheus_block ''mqtt_messages_received_total'' ''counter'' ''PUBLISH packets received from clients.'' (messages_received m) @
     prometheus_block ''mqtt_messages_sent_total'' ''counter'' ''PUBLISH packets delivered to subscribers.'' (messages_sent m) @
     prometheus_block ''mqtt_messages_dropped_total'' ''counter'' ''PUBLISH packets dropped.'' (messages_dropped m) @
     prometheus_block ''mqtt_bytes_received_total'' ''counter'' ''Payload bytes received.'' (bytes_received m) @
     prometheus_block ''mqtt_bytes_sent_total'' ''counter'' ''Payload bytes delivered.'' (bytes_sent m) @
     prometheus_block ''mqtt_retained_messages'' ''gauge'' ''Retained messages stored.'' (retained_messages m) @
     prometheus_block ''mqtt_subscriptions'' ''gauge'' ''Active subscriptions.'' (m_subscriptions m)"

section \<open>The automation hook\<close>

record PublishEvent =
  pe_client_id :: string
  pe_topic :: string
  pe_qos :: QoS
  pe_retain :: bool
  pe_payload :: "u8 list"

datatype PublishDecision = Accept | Reject

text \<open>
  A hook is code outside the broker and may keep state of its own, so its verdict is a function of
  the calls it has received so far. The broker model keeps that list of calls.
\<close>

datatype HookCall =
    HookConnect string
  | HookDisconnect string
  | HookSubscribe string string
  | HookPublish PublishEvent

type_synonym BrokerHook = "HookCall list \<Rightarrow> PublishEvent \<Rightarrow> PublishDecision"

section \<open>Allocating packet identifiers\<close>

text \<open>The candidate the loop tries after an identifier: its successor, skipping zero.\<close>

definition succ_id :: "u16 \<Rightarrow> u16" where
  "succ_id n = (if n + 1 = 0 then 1 else n + 1)"

lemma next_id_loop_eq:
  "next_id_loop in_use n =
     (if \<not> in_use (succ_id n) then Some (succ_id n) else next_id_loop in_use (succ_id n))"
  by (subst next_id_loop.simps) (simp add: succ_id_def Let_def)

lemma next_id_loop_Some:
  assumes "next_id_loop in_use n = Some m"
  shows "\<not> in_use m \<and> m \<noteq> 0"
proof (rule next_id_loop.raw_induct [OF _ assms, where P = "\<lambda>in_use n m. \<not> in_use m \<and> m \<noteq> 0"])
  fix loop :: "(u16 \<Rightarrow> bool) \<Rightarrow> u16 \<Rightarrow> u16 option" and in_use n y
  assume "\<And>in_use n y. loop in_use n = Some y \<Longrightarrow> \<not> in_use y \<and> y \<noteq> 0"
    and "(let n1 = n + 1; n2 = if n1 = 0 then 1 else n1
      in if \<not> in_use n2 then Some n2 else loop in_use n2) = Some y"
  then show "\<not> in_use y \<and> y \<noteq> 0"
    by (cases "n + 1 = 0") (auto simp: Let_def split: if_splits)
qed

lemma unat_succ_id: "unat (succ_id n) = (if unat n = 65535 then 1 else Suc (unat n))"
proof (cases "1 + n = 0")
  case True
  then have "n = - 1" by (simp add: add_eq_0_iff)
  moreover have "unat (- 1 :: u16) = 65535"
    by (simp add: unsigned_minus_1_eq_mask mask_eq_exp_minus_1)
  ultimately show ?thesis by (simp add: succ_id_def)
next
  case False
  then have "unat (1 + n) = Suc (unat n)" by (rule unatSuc)
  moreover from this have "unat n \<noteq> 65535" using unat_lt_u16 [of "1 + n"] by auto
  ultimately show ?thesis using False by (simp add: succ_id_def add.commute)
qed

lemma unat_succ_id_pow: "unat n + k \<le> 65535 \<Longrightarrow> unat ((succ_id ^^ k) n) = unat n + k"
  by (induction k) (simp_all add: unat_succ_id)

text \<open>Starting anywhere, the loop comes past every identifier but zero.\<close>

lemma succ_id_reaches:
  assumes "m \<noteq> 0"
  shows "\<exists>k. (succ_id ^^ Suc k) n = m"
proof -
  have ge: "1 \<le> unat m" using assms by (simp add: Suc_le_eq unat_gt_0)
  have up: "\<exists>k. (succ_id ^^ k) a = m" if "unat a \<le> unat m" for a
    using that unat_succ_id_pow [of a "unat m - unat a"] unat_lt_u16 [of m]
    by (intro exI [of _ "unat m - unat a"]) (simp add: word_unat_eq_iff)
  show ?thesis
  proof (cases "unat n < unat m")
    case True
    then have "unat (succ_id n) \<le> unat m" using unat_lt_u16 [of m] by (simp add: unat_succ_id)
    then obtain k where "(succ_id ^^ k) (succ_id n) = m" using up by blast
    then show ?thesis by (intro exI [of _ k]) (simp add: funpow_swap1)
  next
    case False
    let ?j = "65535 - unat n"
    have "unat ((succ_id ^^ ?j) n) = 65535"
      using unat_lt_u16 [of n] unat_succ_id_pow [of n ?j] by simp
    then have "unat (succ_id ((succ_id ^^ ?j) n)) = 1" by (simp add: unat_succ_id)
    then obtain k where "(succ_id ^^ k) (succ_id ((succ_id ^^ ?j) n)) = m"
      using up [of "succ_id ((succ_id ^^ ?j) n)"] ge by auto
    then have "(succ_id ^^ (k + Suc ?j)) n = m" by (simp only: funpow_add funpow.simps comp_apply)
    then show ?thesis by (metis add_Suc_right)
  qed
qed

lemma next_id_loop_finds:
  assumes "\<not> in_use ((succ_id ^^ Suc k) n)"
  shows "\<exists>m. next_id_loop in_use n = Some m"
  using assms
proof (induction k arbitrary: n)
  case 0
  then show ?case by (subst next_id_loop_eq) simp
next
  case (Suc k)
  then have "\<exists>m. next_id_loop in_use (succ_id n) = Some m" by (simp add: funpow_swap1)
  then show ?case by (subst next_id_loop_eq) auto
qed

lemma next_id_loop_defined: "(\<exists>m. next_id_loop in_use n = Some m) \<longleftrightarrow> (\<exists>m. m \<noteq> 0 \<and> \<not> in_use m)"
  using next_id_loop_Some next_id_loop_finds succ_id_reaches by metis

lemma next_id_Some:
  assumes "next_id s = Some (s', n)"
  shows "s' = s\<lparr>next_packet_id := n\<rparr>" and "n \<noteq> 0" and "outgoing_unacked s n = None"
    and "n \<notin> outgoing_pubrel s"
  using assms next_id_loop_Some [of "id_in_use s" "next_packet_id s" n]
  by (auto simp: next_id_def id_in_use_def split: option.splits)

section \<open>Subscriptions\<close>

lemma replace_subscription_None:
  "replace_subscription sub subs = None \<longleftrightarrow>
     sub_topic_filter sub \<notin> sub_topic_filter ` set subs"
  by (induction subs) auto

lemma replace_subscription_Some:
  "replace_subscription sub subs = Some subs' \<Longrightarrow>
     map sub_topic_filter subs' = map sub_topic_filter subs \<and> set subs' \<subseteq> insert sub (set subs) \<and>
     sub \<in> set subs' \<and> {x \<in> set subs. sub_topic_filter x \<noteq> sub_topic_filter sub} \<subseteq> set subs'"
proof (induction subs arbitrary: subs')
  case (Cons x xs)
  then show ?case by (auto split: if_splits)
qed simp

text \<open>Subscribing replaces the subscription with the same filter and keeps the others.\<close>

lemma add_subscription_spec:
  assumes "distinct (map sub_topic_filter (subscriptions s))"
    and "add_subscription s sub = (s', existed)"
  shows "distinct (map sub_topic_filter (subscriptions s'))"
    and "set (subscriptions s') =
      insert sub {x \<in> set (subscriptions s). sub_topic_filter x \<noteq> sub_topic_filter sub}"
    and "existed \<longleftrightarrow> sub_topic_filter sub \<in> sub_topic_filter ` set (subscriptions s)"
    and "s' = s\<lparr>subscriptions := subscriptions s'\<rparr>"
proof -
  show "existed \<longleftrightarrow> sub_topic_filter sub \<in> sub_topic_filter ` set (subscriptions s)"
    "s' = s\<lparr>subscriptions := subscriptions s'\<rparr>"
    using assms(2) replace_subscription_None [of sub "subscriptions s"]
    by (auto simp: add_subscription_def split: option.splits)
  show "distinct (map sub_topic_filter (subscriptions s'))"
  proof (cases "replace_subscription sub (subscriptions s)")
    case None
    with assms replace_subscription_None [of sub "subscriptions s"] show ?thesis
      by (auto simp: add_subscription_def)
  next
    case (Some subs')
    with assms replace_subscription_Some [OF Some] show ?thesis by (auto simp: add_subscription_def)
  qed
  then have inj: "x = y" if "x \<in> set (subscriptions s')" "y \<in> set (subscriptions s')"
    "sub_topic_filter x = sub_topic_filter y" for x y
    using that by (auto simp: distinct_map inj_on_def)
  show "set (subscriptions s') =
      insert sub {x \<in> set (subscriptions s). sub_topic_filter x \<noteq> sub_topic_filter sub}"
  proof (cases "replace_subscription sub (subscriptions s)")
    case None
    then have "sub_topic_filter x \<noteq> sub_topic_filter sub" if "x \<in> set (subscriptions s)" for x
      using that replace_subscription_None [of sub "subscriptions s"] by (metis imageI)
    with None assms(2) show ?thesis by (auto simp: add_subscription_def)
  next
    case (Some subs')
    then have s': "subscriptions s' = subs'" using assms(2) by (auto simp: add_subscription_def)
    with replace_subscription_Some [OF Some] inj show ?thesis by blast
  qed
qed

lemma remove_subscription_spec:
  assumes "remove_subscription s flt = (s', removed)"
  shows "set (subscriptions s') = {x \<in> set (subscriptions s). sub_topic_filter x \<noteq> flt}"
    and "removed \<longleftrightarrow> flt \<in> sub_topic_filter ` set (subscriptions s)"
    and "s' = s\<lparr>subscriptions := subscriptions s'\<rparr>"
proof -
  have "length (filter P xs) = length xs \<longleftrightarrow> (\<forall>x \<in> set xs. P x)" for P and xs :: "SubscriptionV5 list"
    by (metis filter_True length_filter_less less_irrefl)
  then show "set (subscriptions s') = {x \<in> set (subscriptions s). sub_topic_filter x \<noteq> flt}"
    "removed \<longleftrightarrow> flt \<in> sub_topic_filter ` set (subscriptions s)"
    "s' = s\<lparr>subscriptions := subscriptions s'\<rparr>"
    using assms by (auto simp: remove_subscription_def Let_def)
qed

section \<open>Access rules\<close>

lemma authorize_first_match:
  "authorize a user act topic =
     (case find (\<lambda>r. rule_applies r user act topic) (acl_rules a) of
        Some r \<Rightarrow> rule_allow r
      | None \<Rightarrow> default_allow a)"
proof -
  have "authorize_loop rs d user act topic =
      (case find (\<lambda>r. rule_applies r user act topic) rs of Some r \<Rightarrow> rule_allow r | None \<Rightarrow> d)" for rs d
    by (induction rs) auto
  then show ?thesis by (simp add: authorize_def)
qed

end
