(* ===== verification/Mqtt_Broker.thy ===== *)
theory Mqtt_Broker
  imports Mqtt_Session
begin

text \<open>
  The decision core of the MQTT broker (\<open>cave-home-mqtt/src/broker/mod.rs\<close>): packets in, actions
  out. Every operation takes the broker and returns the new broker with the actions the transport
  has to perform. The operations that allocate packet identifiers return an option: \<open>None\<close> is the
  allocation loop of \<open>Session::next_id\<close> not ending.
\<close>

section \<open>State\<close>

record BrokerConfig =
  max_qos :: QoS
  retain_available :: bool

definition BrokerConfig_default :: BrokerConfig where
  "BrokerConfig_default = \<lparr>max_qos = ExactlyOnce, retain_available = True\<rparr>"

datatype Action = Send string PacketV5 | Drop string ReasonCode

record Broker =
  config :: BrokerConfig
  auth :: Authenticator
  retained :: RetainedStore
  sessions :: "(string, Session) hashmap"
  wills :: "(string, Will) hashmap"
  next_auto :: u64
  metrics :: BrokerMetrics
  hook :: "BrokerHook option"
  hook_calls :: "HookCall list"

definition Broker_new :: "BrokerConfig \<Rightarrow> Authenticator \<Rightarrow> Broker" where
  "Broker_new cfg a =
     \<lparr>config = cfg, auth = a, retained = [], sessions = [], wills = [], next_auto = 0,
      metrics = BrokerMetrics_default, hook = None, hook_calls = []\<rparr>"

definition with_hook :: "Broker \<Rightarrow> BrokerHook \<Rightarrow> Broker" where
  "with_hook b h = b\<lparr>hook := Some h\<rparr>"

text \<open>
  \<open>prometheus\<close> renders the counters after refreshing the two gauges from the state; the sum of
  \<open>u64\<close> lengths is the length of the concatenation, taken modulo \<open>2 ^ 64\<close>.
\<close>

definition prometheus :: "Broker \<Rightarrow> string" where
  "prometheus b =
     render_prometheus
       (set_subscriptions (sum_list (map (\<lambda>(_, s). of_nat (length (subscriptions s))) (sessions b)))
         (set_retained (of_nat (length (retained b))) (metrics b)))"

text \<open>A call of an observing hook method, and a change of one session in place (\<open>get_mut\<close>).\<close>

definition call_hook :: "Broker \<Rightarrow> HookCall \<Rightarrow> Broker" where
  "call_hook b c = (if hook b = None then b else b\<lparr>hook_calls := hook_calls b @ [c]\<rparr>)"

definition upd_session :: "Broker \<Rightarrow> string \<Rightarrow> (Session \<Rightarrow> Session) \<Rightarrow> Broker" where
  "upd_session b cid f =
     (case hm_get (sessions b) cid of
        Some s \<Rightarrow> b\<lparr>sessions := hm_insert cid (f s) (sessions b)\<rparr>
      | None \<Rightarrow> b)"

definition session_username :: "Broker \<Rightarrow> string \<Rightarrow> string option" where
  "session_username b cid =
     (case hm_get (sessions b) cid of Some s \<Rightarrow> username s | None \<Rightarrow> None)"

section \<open>Helpers\<close>

fun session_expiry_from :: "Property list \<Rightarrow> u32" where
  "session_expiry_from [] = 0"
| "session_expiry_from (p # ps) =
     (case p of SessionExpiryInterval v \<Rightarrow> v | _ \<Rightarrow> session_expiry_from ps)"

definition qos_min :: "QoS \<Rightarrow> QoS \<Rightarrow> QoS" where
  "qos_min a b = (if qos_u8 a \<le> qos_u8 b then a else b)"

definition qos_max :: "QoS \<Rightarrow> QoS \<Rightarrow> QoS" where
  "qos_max a b = (if qos_u8 a \<ge> qos_u8 b then a else b)"

fun granted_code :: "QoS \<Rightarrow> ReasonCode" where
  "granted_code AtMostOnce = Success"
| "granted_code AtLeastOnce = GrantedQoS1"
| "granted_code ExactlyOnce = GrantedQoS2"

definition pubrec :: "string \<Rightarrow> u16 \<Rightarrow> ReasonCode \<Rightarrow> Action" where
  "pubrec cid pid reason =
     Send cid (PubRec \<lparr>ack_packet_id = pid, ack_reason_code = reason, ack_properties = []\<rparr>)"

definition ack_publish_error :: "string \<Rightarrow> PublishV5 \<Rightarrow> ReasonCode \<Rightarrow> Action list" where
  "ack_publish_error cid p reason =
     (case (pub_qos p, pub_packet_id p) of
        (AtLeastOnce, Some pid) \<Rightarrow>
          [Send cid (PubAck \<lparr>ack_packet_id = pid, ack_reason_code = reason, ack_properties = []\<rparr>)]
      | (ExactlyOnce, Some pid) \<Rightarrow> [pubrec cid pid reason]
      | _ \<Rightarrow> [])"

text \<open>The packet identifier of an outgoing message: none at QoS 0, a fresh one otherwise.\<close>

definition alloc_id :: "QoS \<Rightarrow> Session \<Rightarrow> (Session \<times> u16 option) option" where
  "alloc_id qos s =
     (if qos = AtMostOnce then Some (s, None)
      else do { (s', n) \<leftarrow> next_id s; Some (s', Some n) })"

text \<open>\<open>outgoing_unacked.insert\<close> for a message that has an identifier.\<close>

definition track :: "PublishV5 \<Rightarrow> Session \<Rightarrow> Session" where
  "track p s =
     (case pub_packet_id p of
        Some n \<Rightarrow> s\<lparr>outgoing_unacked := (outgoing_unacked s)(n \<mapsto> p)\<rparr>
      | None \<Rightarrow> s)"

section \<open>CONNECT\<close>

fun resend_queued :: "string \<Rightarrow> PublishV5 list \<Rightarrow> Session \<Rightarrow> Action list \<Rightarrow> Session \<times> Action list" where
  "resend_queued cid [] s acts = (s, acts)"
| "resend_queued cid (p # ps) s acts = resend_queued cid ps (track p s) (acts @ [Send cid (Publish p)])"

definition connect :: "Broker \<Rightarrow> ConnectV5 \<Rightarrow> Broker \<times> Action list" where
  "connect b c =
     (if \<not> authenticate (auth b) (con_username c) (con_password c) then
        (let cid = (if con_client_id c = [] then ''<unauthenticated>'' else con_client_id c) in
         (b, [Send cid (ConnAck \<lparr>session_present = False, ca_reason_code = BadUserNameOrPassword,
                                 ca_properties = []\<rparr>),
              Drop cid BadUserNameOrPassword]))
      else
        (let (b1, cid, assigned) =
               (if con_client_id c = [] then
                  (let n = next_auto b + 1
                   in (b\<lparr>next_auto := n\<rparr>, ''auto-'' @ show_nat (unat n), True))
                else (b, con_client_id c, False));
             takeover =
               (case hm_get (sessions b1) cid of
                  Some s \<Rightarrow> if connected s then [Drop cid SessionTakenOver] else []
                | None \<Rightarrow> []);
             expiry = session_expiry_from (con_properties c);
             (sess, present) =
               (if clean_start c then (hm_remove cid (sessions b1), False)
                else (sessions b1, hm_get (sessions b1) cid \<noteq> None));
             s0 = (case hm_get sess cid of Some s \<Rightarrow> s | None \<Rightarrow> Session_new cid expiry);
             s1 = s0\<lparr>connected := True, session_expiry_secs := expiry, username := con_username c\<rparr>;
             b2 = b1\<lparr>sessions := hm_insert cid s1 sess,
                     wills := (case con_will c of
                        Some w \<Rightarrow> hm_insert cid w (wills b1)
                      | None \<Rightarrow> hm_remove cid (wills b1)),
                     metrics := on_client_connected (metrics b1)\<rparr>;
             b3 = call_hook b2 (HookConnect cid);
             props = (if assigned then [AssignedClientIdentifier cid] else []);
             connack = Send cid (ConnAck \<lparr>session_present = present, ca_reason_code = Success,
                                          ca_properties = props\<rparr>)
         in if present then
              (let (s2, acts) = resend_queued cid (queued s1) (s1\<lparr>queued := []\<rparr>) []
               in (b3\<lparr>sessions := hm_insert cid s2 (sessions b3)\<rparr>, takeover @ connack # acts))
            else (b3, takeover @ [connack])))"

section \<open>SUBSCRIBE and UNSUBSCRIBE\<close>

fun subscribe_loop ::
  "string \<Rightarrow> string option \<Rightarrow> SubscriptionV5 list \<Rightarrow> Broker \<Rightarrow> ReasonCode list \<Rightarrow> (string \<times> QoS) list \<Rightarrow>
     Broker \<times> ReasonCode list \<times> (string \<times> QoS) list" where
  "subscribe_loop cid user [] b codes dr = (b, codes, dr)"
| "subscribe_loop cid user (sub # subs) b codes dr =
     (if \<not> valid_topic_filter (sub_topic_filter sub)
      then subscribe_loop cid user subs b (codes @ [TopicFilterInvalid]) dr
      else if \<not> authorize (auth b) user AclSubscribe (sub_topic_filter sub)
      then subscribe_loop cid user subs b (codes @ [NotAuthorized]) dr
      else
        (let granted = qos_min (sub_qos sub) (max_qos (config b));
             stored = sub\<lparr>sub_qos := granted\<rparr>;
             (b1, existed) =
               (case hm_get (sessions b) cid of
                  Some s \<Rightarrow>
                    (let (s', ex) = add_subscription s stored
                     in (b\<lparr>sessions := hm_insert cid s' (sessions b)\<rparr>, ex))
                | None \<Rightarrow> (b, False));
             b2 = call_hook b1 (HookSubscribe cid (sub_topic_filter sub));
             send_retained = (case retain_handling sub of
                SendOnSubscribe \<Rightarrow> True | SendIfNew \<Rightarrow> \<not> existed | DoNotSend \<Rightarrow> False)
         in subscribe_loop cid user subs b2 (codes @ [granted_code granted])
              (if send_retained then dr @ [(sub_topic_filter sub, granted)] else dr)))"

fun deliver_hits ::
  "string \<Rightarrow> QoS \<Rightarrow> (string \<times> RetainedMessage) list \<Rightarrow> Broker \<Rightarrow> Action list \<Rightarrow>
     (Broker \<times> Action list) option" where
  "deliver_hits cid granted [] b acts = Some (b, acts)"
| "deliver_hits cid granted ((topic, msg) # hits) b acts =
     (let qos = qos_min (ret_qos msg) granted in
      case hm_get (sessions b) cid of
        None \<Rightarrow> deliver_hits cid granted hits b acts
      | Some sess \<Rightarrow>
          do {
            (sess1, packet_id) \<leftarrow> alloc_id qos sess;
            let p = \<lparr>pub_topic = topic, pub_qos = qos, pub_retain = True, pub_dup = False,
                     pub_packet_id = packet_id, pub_properties = ret_properties msg,
                     pub_payload = ret_payload msg\<rparr>;
            deliver_hits cid granted hits
              (b\<lparr>sessions := hm_insert cid (track p sess1) (sessions b)\<rparr>)
              (acts @ [Send cid (Publish p)])
          })"

fun deliver_retained ::
  "string \<Rightarrow> (string \<times> QoS) list \<Rightarrow> Broker \<Rightarrow> Action list \<Rightarrow> (Broker \<times> Action list) option" where
  "deliver_retained cid [] b acts = Some (b, acts)"
| "deliver_retained cid ((flt, granted) # drs) b acts =
     do {
       (b', acts') \<leftarrow> deliver_hits cid granted (retained_matching (retained b) flt) b acts;
       deliver_retained cid drs b' acts'
     }"

definition on_subscribe :: "Broker \<Rightarrow> string \<Rightarrow> SubscribeV5 \<Rightarrow> (Broker \<times> Action list) option" where
  "on_subscribe b cid s =
     (let user = session_username b cid;
          (b1, codes, dr) = subscribe_loop cid user (s_subscriptions s) b [] []
      in deliver_retained cid dr b1
           [Send cid (SubAck \<lparr>sa_packet_id = s_packet_id s, sa_properties = [],
                              sa_reason_codes = codes\<rparr>)])"

fun unsubscribe_loop ::
  "string \<Rightarrow> string list \<Rightarrow> Broker \<Rightarrow> ReasonCode list \<Rightarrow> Broker \<times> ReasonCode list" where
  "unsubscribe_loop cid [] b codes = (b, codes)"
| "unsubscribe_loop cid (f # fs) b codes =
     (let (b1, removed) =
            (case hm_get (sessions b) cid of
               Some s \<Rightarrow>
                 (let (s', r) = remove_subscription s f
                  in (b\<lparr>sessions := hm_insert cid s' (sessions b)\<rparr>, r))
             | None \<Rightarrow> (b, False))
      in unsubscribe_loop cid fs b1 (codes @ [if removed then Success else NoSubscriptionExisted]))"

definition on_unsubscribe :: "Broker \<Rightarrow> string \<Rightarrow> UnsubscribeV5 \<Rightarrow> Broker \<times> Action list" where
  "on_unsubscribe b cid u =
     (let (b1, codes) = unsubscribe_loop cid (u_topic_filters u) b []
      in (b1, [Send cid (UnsubAck \<lparr>ua_packet_id = u_packet_id u, ua_properties = [],
                                   ua_reason_codes = codes\<rparr>)]))"

section \<open>PUBLISH\<close>

definition scan_subscription ::
  "string option \<Rightarrow> string \<Rightarrow> string \<Rightarrow> QoS option \<times> bool \<Rightarrow> SubscriptionV5 \<Rightarrow> QoS option \<times> bool" where
  "scan_subscription publisher topic cid acc sub =
     (let (best, rap) = acc in
      if \<not> topic_matches (sub_topic_filter sub) topic then (best, rap)
      else if no_local sub \<and> publisher = Some cid then (best, rap)
      else (Some (case best of Some q \<Rightarrow> qos_max q (sub_qos sub) | None \<Rightarrow> sub_qos sub),
            rap \<or> retain_as_published sub))"

definition route_target ::
  "string option \<Rightarrow> string \<Rightarrow> QoS \<Rightarrow> string \<times> Session \<Rightarrow> (string \<times> QoS \<times> bool) option" where
  "route_target publisher topic src_qos entry =
     (let (cid, sess) = entry;
          (best, rap) = foldl (scan_subscription publisher topic cid) (None, False) (subscriptions sess)
      in case best of Some q \<Rightarrow> Some (cid, qos_min src_qos q, rap) | None \<Rightarrow> None)"

fun route_loop ::
  "string \<Rightarrow> u8 list \<Rightarrow> Property list \<Rightarrow> bool \<Rightarrow> (string \<times> QoS \<times> bool) list \<Rightarrow>
     (string, Session) hashmap \<Rightarrow> Action list \<Rightarrow> nat \<Rightarrow>
     ((string, Session) hashmap \<times> Action list \<times> nat) option" where
  "route_loop topic payload props retain_src [] ss acts delivered = Some (ss, acts, delivered)"
| "route_loop topic payload props retain_src ((cid, qos, rap) # targets) ss acts delivered =
     (case hm_get ss cid of
        None \<Rightarrow> route_loop topic payload props retain_src targets ss acts (delivered + 1)
      | Some sess \<Rightarrow>
          do {
            (sess1, packet_id) \<leftarrow> alloc_id qos sess;
            let pkt = \<lparr>pub_topic = topic, pub_qos = qos, pub_retain = (retain_src \<and> rap),
                       pub_dup = False, pub_packet_id = packet_id, pub_properties = props,
                       pub_payload = payload\<rparr>;
            if connected sess1 then
              route_loop topic payload props retain_src targets
                (hm_insert cid (track pkt sess1) ss) (acts @ [Send cid (Publish pkt)]) (delivered + 1)
            else if qos \<noteq> AtMostOnce then
              route_loop topic payload props retain_src targets
                (hm_insert cid (sess1\<lparr>queued := queued sess1 @ [pkt]\<rparr>) ss) acts (delivered + 1)
            else
              route_loop topic payload props retain_src targets
                (hm_insert cid sess1 ss) acts (delivered + 1)
          })"

definition route_publish ::
  "Broker \<Rightarrow> string option \<Rightarrow> string \<Rightarrow> QoS \<Rightarrow> u8 list \<Rightarrow> Property list \<Rightarrow> bool \<Rightarrow>
     (Broker \<times> nat \<times> Action list) option" where
  "route_publish b publisher topic src_qos payload props retain_src =
     (let targets = List.map_filter (route_target publisher topic src_qos) (sessions b) in
      do {
        (ss, acts, delivered) \<leftarrow> route_loop topic payload props retain_src targets (sessions b) [] 0;
        Some (b\<lparr>sessions := ss,
                metrics := (on_message_sent (length payload) ^^ delivered) (metrics b)\<rparr>,
              delivered, acts)
      })"

definition on_publish :: "Broker \<Rightarrow> string \<Rightarrow> PublishV5 \<Rightarrow> (Broker \<times> Action list) option" where
  "on_publish b cid p =
     (if \<not> valid_topic_name (pub_topic p) then Some (b, ack_publish_error cid p TopicNameInvalid)
      else
        (let b1 = b\<lparr>metrics := on_message_received (length (pub_payload p)) (metrics b)\<rparr>;
             event = \<lparr>pe_client_id = cid, pe_topic = pub_topic p, pe_qos = pub_qos p,
                      pe_retain = pub_retain p, pe_payload = pub_payload p\<rparr>;
             b2 = call_hook b1 (HookPublish event);
             vetoed = (case hook b1 of Some h \<Rightarrow> h (hook_calls b1) event = Reject | None \<Rightarrow> False)
         in
         if vetoed then
           Some (b2\<lparr>metrics := on_message_dropped (metrics b2)\<rparr>, ack_publish_error cid p NotAuthorized)
         else if \<not> authorize (auth b2) (session_username b2 cid) AclPublish (pub_topic p) then
           Some (b2\<lparr>metrics := on_message_dropped (metrics b2)\<rparr>, ack_publish_error cid p NotAuthorized)
         else if pub_qos p = ExactlyOnce \<and>
             (case pub_packet_id p of
                Some pid \<Rightarrow> (case hm_get (sessions b2) cid of
                   Some s \<Rightarrow> pid \<in> incoming_qos2 s | None \<Rightarrow> False)
              | None \<Rightarrow> False)
         then Some (b2, [pubrec cid (the (pub_packet_id p)) Success])
         else
           (let b3 = (if pub_retain p \<and> retain_available (config b2)
                      then b2\<lparr>retained := retained_apply (retained b2) (pub_topic p)
                             \<lparr>ret_payload = pub_payload p, ret_qos = pub_qos p,
                              ret_properties = pub_properties p\<rparr>\<rparr>
                      else b2)
            in do {
              (b4, delivered, acts) \<leftarrow>
                route_publish b3 (Some cid) (pub_topic p) (pub_qos p) (pub_payload p)
                  (pub_properties p) (pub_retain p);
              let reason = (if delivered > 0 then Success else NoMatchingSubscribers);
              Some (case pub_qos p of
                 AtMostOnce \<Rightarrow> (b4, acts)
               | AtLeastOnce \<Rightarrow>
                   (b4, case pub_packet_id p of
                      Some pid \<Rightarrow> acts @ [Send cid (PubAck \<lparr>ack_packet_id = pid,
                        ack_reason_code = reason, ack_properties = []\<rparr>)]
                    | None \<Rightarrow> acts)
               | ExactlyOnce \<Rightarrow>
                   (case pub_packet_id p of
                      Some pid \<Rightarrow>
                        (upd_session b4 cid (\<lambda>s. s\<lparr>incoming_qos2 := insert pid (incoming_qos2 s)\<rparr>),
                         acts @ [pubrec cid pid reason])
                    | None \<Rightarrow> (b4, acts)))
            })))"

section \<open>DISCONNECT and teardown\<close>

definition detach :: "Broker \<Rightarrow> string \<Rightarrow> Broker" where
  "detach b cid =
     (case hm_get (sessions b) cid of
        None \<Rightarrow> b
      | Some sess \<Rightarrow>
          (let b1 = b\<lparr>sessions := hm_insert cid (sess\<lparr>connected := False\<rparr>) (sessions b)\<rparr>;
               b2 = (if connected sess
                     then call_hook (b1\<lparr>metrics := on_client_disconnected (metrics b1)\<rparr>)
                            (HookDisconnect cid)
                     else b1)
           in if session_expiry_secs sess = 0
              then b2\<lparr>sessions := hm_remove cid (sessions b2)\<rparr> else b2))"

definition on_disconnect :: "Broker \<Rightarrow> string \<Rightarrow> DisconnectV5 \<Rightarrow> Broker \<times> Action list" where
  "on_disconnect b cid d =
     (let b1 = (if d_reason_code d \<noteq> DisconnectWithWill
                then b\<lparr>wills := hm_remove cid (wills b)\<rparr> else b)
      in (detach b1 cid, []))"

definition network_disconnect :: "Broker \<Rightarrow> string \<Rightarrow> (Broker \<times> Action list) option" where
  "network_disconnect b cid =
     (case hm_get (wills b) cid of
        None \<Rightarrow> Some (detach b cid, [])
      | Some w \<Rightarrow>
          (let b1 = b\<lparr>wills := hm_remove cid (wills b)\<rparr>;
               b2 = (if will_retain w \<and> retain_available (config b1)
                     then b1\<lparr>retained := retained_apply (retained b1) (will_topic w)
                            \<lparr>ret_payload = will_payload w, ret_qos = will_qos w,
                             ret_properties = will_properties w\<rparr>\<rparr>
                     else b1)
           in do {
             (b3, n, acts) \<leftarrow>
               route_publish b2 (Some cid) (will_topic w) (will_qos w) (will_payload w)
                 (will_properties w) (will_retain w);
             Some (detach b3 cid, acts)
           }))"

section \<open>Dispatch\<close>

definition broker_handle :: "Broker \<Rightarrow> string \<Rightarrow> PacketV5 \<Rightarrow> (Broker \<times> Action list) option" where
  "broker_handle b cid packet =
     (case packet of
        Subscribe s \<Rightarrow> on_subscribe b cid s
      | Unsubscribe u \<Rightarrow> Some (on_unsubscribe b cid u)
      | Publish p \<Rightarrow> on_publish b cid p
      | PubAck a \<Rightarrow>
          Some (upd_session b cid (\<lambda>s. s\<lparr>outgoing_unacked :=
            (outgoing_unacked s)(ack_packet_id a := None)\<rparr>), [])
      | PubRec r \<Rightarrow>
          Some (upd_session b cid (\<lambda>s. s\<lparr>outgoing_unacked :=
              (outgoing_unacked s)(ack_packet_id r := None),
              outgoing_pubrel := insert (ack_packet_id r) (outgoing_pubrel s)\<rparr>),
            [Send cid (PubRel \<lparr>ack_packet_id = ack_packet_id r, ack_reason_code = Success,
                               ack_properties = []\<rparr>)])
      | PubRel r \<Rightarrow>
          Some (upd_session b cid (\<lambda>s. s\<lparr>incoming_qos2 := incoming_qos2 s - {ack_packet_id r}\<rparr>),
            [Send cid (PubComp \<lparr>ack_packet_id = ack_packet_id r, ack_reason_code = Success,
                                ack_properties = []\<rparr>)])
      | PubComp c \<Rightarrow>
          Some (upd_session b cid (\<lambda>s. s\<lparr>outgoing_pubrel :=
            outgoing_pubrel s - {ack_packet_id c}\<rparr>), [])
      | PingReq \<Rightarrow> Some (b, [Send cid PingResp])
      | Disconnect d \<Rightarrow> Some (on_disconnect b cid d)
      | _ \<Rightarrow> Some (b, []))"

end
