(* ===== verification/Mqtt_Delivery.thy ===== *)
theory Mqtt_Delivery
  imports Mqtt_Broker
begin

text \<open>
  What the MQTT broker guarantees: who receives a message, exactly-once handling of QoS 2, fresh
  packet identifiers, harmless rejections, delivery on resume, and an invariant of every broker
  state that the packets of any clients can lead to.
\<close>

declare map_of_eq_Some_iff [simp del] Some_eq_map_of_iff [simp del]

section \<open>Quality of service\<close>

definition qos_le :: "QoS \<Rightarrow> QoS \<Rightarrow> bool" where
  "qos_le a b \<longleftrightarrow> qos_u8 a \<le> qos_u8 b"

lemma qos_le_simps [simp]: "qos_le a a" "qos_le AtMostOnce a" "qos_le a ExactlyOnce"
  by (cases a; simp add: qos_le_def)+

lemma qos_le_trans: "qos_le a b \<Longrightarrow> qos_le b c \<Longrightarrow> qos_le a c"
  by (auto simp: qos_le_def)

lemma qos_min_le [simp]: "qos_le (qos_min a b) a" "qos_le (qos_min a b) b"
  by (cases a; cases b; simp add: qos_min_def qos_le_def)+

lemma qos_max_ge [simp]: "qos_le a (qos_max a b)" "qos_le b (qos_max a b)"
  by (cases a; cases b; simp add: qos_max_def qos_le_def)+

lemma qos_max_cases: "qos_max a b = a \<or> qos_max a b = b"
  by (simp add: qos_max_def)

section \<open>The messages an action list carries\<close>

fun sent_to :: "string \<Rightarrow> Action list \<Rightarrow> PublishV5 list" where
  "sent_to cid [] = []"
| "sent_to cid (Send c (Publish p) # acts) = (if c = cid then p # sent_to cid acts else sent_to cid acts)"
| "sent_to cid (_ # acts) = sent_to cid acts"

lemma sent_to_append [simp]: "sent_to cid (xs @ ys) = sent_to cid xs @ sent_to cid ys"
  by (induction cid xs rule: sent_to.induct) auto

lemma sent_to_no_publish [simp]:
  "sent_to cid (pubrec c n r # acts) = sent_to cid acts"
  "sent_to cid (ack_publish_error c p r) = []"
  by (auto simp: pubrec_def ack_publish_error_def split: QoS.splits option.splits)

section \<open>Who wants a message\<close>

definition wanted :: "string option \<Rightarrow> string \<Rightarrow> string \<Rightarrow> Session \<Rightarrow> SubscriptionV5 set" where
  "wanted publisher topic cid sess =
     {sub \<in> set (subscriptions sess).
        topic_matches (sub_topic_filter sub) topic \<and> \<not> (no_local sub \<and> publisher = Some cid)}"

lemma scan_spec:
  assumes "foldl (scan_subscription publisher topic cid) (None, False) subs = (best, rap)"
  defines "W \<equiv> {sub \<in> set subs. topic_matches (sub_topic_filter sub) topic \<and>
    \<not> (no_local sub \<and> publisher = Some cid)}"
  shows "(best = None \<longleftrightarrow> W = {}) \<and>
    (\<forall>q. best = Some q \<longrightarrow> q \<in> sub_qos ` W \<and> (\<forall>sub \<in> W. qos_le (sub_qos sub) q)) \<and>
    (rap \<longleftrightarrow> (\<exists>sub \<in> W. retain_as_published sub))"
  using assms(1) unfolding W_def
proof (induction subs arbitrary: best rap rule: rev_induct)
  case (snoc x subs)
  obtain best0 rap0 where st: "foldl (scan_subscription publisher topic cid) (None, False) subs = (best0, rap0)"
    by fastforce
  let ?W = "{sub \<in> set subs. topic_matches (sub_topic_filter sub) topic \<and>
    \<not> (no_local sub \<and> publisher = Some cid)}"
  let ?in = "topic_matches (sub_topic_filter x) topic \<and> \<not> (no_local x \<and> publisher = Some cid)"
  have W: "{sub \<in> set (subs @ [x]). topic_matches (sub_topic_filter sub) topic \<and>
      \<not> (no_local sub \<and> publisher = Some cid)} = (if ?in then insert x ?W else ?W)"
    by auto
  note IH = snoc.IH [OF st]
  have step: "scan_subscription publisher topic cid (best0, rap0) x = (best, rap)"
    using snoc.prems st by simp
  show ?case
  proof (cases ?in)
    case False
    with step have "best = best0" "rap = rap0"
      by (auto simp: scan_subscription_def split: if_splits)
    with IH show ?thesis unfolding W [unfolded if_not_P [OF False]] by simp
  next
    case True
    with step have best: "best = Some (case best0 of Some q \<Rightarrow> qos_max q (sub_qos x) | None \<Rightarrow> sub_qos x)"
      and rap: "rap = (rap0 \<or> retain_as_published x)"
      by (auto simp: scan_subscription_def split: if_splits)
    show ?thesis
    proof (cases best0)
      case None
      with IH best rap show ?thesis unfolding W [unfolded if_P [OF True]] by auto
    next
      case (Some q)
      have "qos_max q (sub_qos x) \<in> sub_qos ` insert x ?W"
        using IH Some qos_max_cases [of q "sub_qos x"] by auto
      moreover have "qos_le (sub_qos sub) (qos_max q (sub_qos x))" if "sub \<in> insert x ?W" for sub
        using that IH Some qos_le_trans [OF _ qos_max_ge(1) [of q "sub_qos x"]] by auto
      ultimately show ?thesis
        using IH best rap Some unfolding W [unfolded if_P [OF True]] by auto
    qed
  qed
qed simp

lemma route_target_None:
  "route_target publisher topic q (cid, sess) = None \<longleftrightarrow> wanted publisher topic cid sess = {}"
proof -
  obtain best rap where st: "foldl (scan_subscription publisher topic cid) (None, False) (subscriptions sess) = (best, rap)"
    by fastforce
  from scan_spec [OF st] st show ?thesis
    by (auto simp: route_target_def wanted_def split: option.splits)
qed

lemma route_target_Some:
  assumes "route_target publisher topic q (cid, sess) = Some (c, qos, rap)"
  shows "c = cid" and "\<exists>best \<in> sub_qos ` wanted publisher topic cid sess.
      (\<forall>sub \<in> wanted publisher topic cid sess. qos_le (sub_qos sub) best) \<and> qos = qos_min q best"
    and "rap \<longleftrightarrow> (\<exists>sub \<in> wanted publisher topic cid sess. retain_as_published sub)"
proof -
  obtain best rap0 where st: "foldl (scan_subscription publisher topic cid) (None, False) (subscriptions sess) = (best, rap0)"
    by fastforce
  with assms obtain b where b: "best = Some b" "c = cid" "qos = qos_min q b" "rap = rap0"
    by (auto simp: route_target_def split: option.splits)
  from scan_spec [OF st] b show "c = cid"
    "\<exists>best \<in> sub_qos ` wanted publisher topic cid sess.
      (\<forall>sub \<in> wanted publisher topic cid sess. qos_le (sub_qos sub) best) \<and> qos = qos_min q best"
    "rap \<longleftrightarrow> (\<exists>sub \<in> wanted publisher topic cid sess. retain_as_published sub)"
    by (auto simp: wanted_def)
qed

lemma map_of_map_filter:
  assumes "\<And>k v x. f (k, v) = Some x \<Longrightarrow> fst x = k" and "hm_ok m"
  shows "map_of (List.map_filter f m) k =
    (case hm_get m k of None \<Rightarrow> None | Some v \<Rightarrow> map_option snd (f (k, v)))"
    and "distinct (map fst (List.map_filter f m))"
proof -
  show "map_of (List.map_filter f m) k =
      (case hm_get m k of None \<Rightarrow> None | Some v \<Rightarrow> map_option snd (f (k, v)))"
    using assms
  proof (induction m)
    case (Cons e m)
    obtain a v where e: "e = (a, v)" by fastforce
    have sub: "fst ` set (List.map_filter f m) \<subseteq> fst ` set m"
      using assms(1) by (force simp: List.map_filter_def)
    show ?case
    proof (cases "f (a, v)")
      case None
      have "hm_get m a = None" "map_of (List.map_filter f m) a = None"
        using Cons.prems(2) e sub by (auto simp: map_of_eq_None_iff)
      with None Cons e show ?thesis
        by (cases "k = a") (auto simp: List.map_filter_simps)
    next
      case (Some x)
      then have "fst x = a" using Cons.prems(1) by blast
      with Some Cons e show ?thesis
        by (cases x) (auto simp: List.map_filter_simps split: option.splits)
    qed
  qed (simp add: List.map_filter_simps)
  show "distinct (map fst (List.map_filter f m))"
    using assms
  proof (induction m)
    case (Cons e m)
    obtain a v where e: "e = (a, v)" by fastforce
    have "fst ` set (List.map_filter f m) \<subseteq> fst ` set m"
      using assms(1) by (force simp: List.map_filter_def)
    with Cons e show ?case
      by (cases "f (a, v)") (auto simp: List.map_filter_simps)
  qed (simp add: List.map_filter_simps)
qed

section \<open>One delivery\<close>

text \<open>What a session that wants a message experiences.\<close>

definition outgoing :: "string \<Rightarrow> u8 list \<Rightarrow> Property list \<Rightarrow> bool \<Rightarrow> QoS \<Rightarrow> u16 option \<Rightarrow> PublishV5" where
  "outgoing topic payload props ret qos pid =
     \<lparr>pub_topic = topic, pub_qos = qos, pub_retain = ret, pub_dup = False, pub_packet_id = pid,
      pub_properties = props, pub_payload = payload\<rparr>"

definition deliver_one ::
  "string \<Rightarrow> u8 list \<Rightarrow> Property list \<Rightarrow> bool \<Rightarrow> QoS \<Rightarrow> Session \<Rightarrow> (Session \<times> PublishV5 list) option" where
  "deliver_one topic payload props ret qos sess =
     (case alloc_id qos sess of
        None \<Rightarrow> None
      | Some (sess1, pid) \<Rightarrow>
          (let pkt = outgoing topic payload props ret qos pid in
           Some (if connected sess then (track pkt sess1, [pkt])
                 else if qos \<noteq> AtMostOnce then (sess1\<lparr>queued := queued sess1 @ [pkt]\<rparr>, [])
                 else (sess1, []))))"

lemma alloc_id_Some:
  assumes "alloc_id qos s = Some (s', pid)"
  shows "connected s' = connected s"
    and "qos = AtMostOnce \<and> pid = None \<and> s' = s \<or>
      (\<exists>n. qos \<noteq> AtMostOnce \<and> pid = Some n \<and> next_id s = Some (s', n))"
  using assms by (auto simp: alloc_id_def bind_eq_Some_conv split: if_splits dest: next_id_Some(1))

text \<open>
  What a client experiences of one message: its session before and after, and what it was sent.
\<close>

definition experience ::
  "string \<Rightarrow> u8 list \<Rightarrow> Property list \<Rightarrow> bool \<Rightarrow> (QoS \<times> bool) option \<Rightarrow> Session option \<Rightarrow>
     Session option \<Rightarrow> PublishV5 list \<Rightarrow> bool" where
  "experience topic payload props ret target before after sent \<longleftrightarrow>
     (case target of
        Some (qos, rap) \<Rightarrow>
          (case before of
             Some sess \<Rightarrow>
               \<exists>sess'. deliver_one topic payload props (ret \<and> rap) qos sess = Some (sess', sent) \<and>
                 after = Some sess'
           | None \<Rightarrow> after = None \<and> sent = [])
      | None \<Rightarrow> after = before \<and> sent = [])"

lemma experience_None [simp]:
  "experience topic payload props ret None before after sent \<longleftrightarrow> after = before \<and> sent = []"
  "experience topic payload props ret target None after sent \<longleftrightarrow> after = None \<and> sent = []"
  by (auto simp: experience_def split: option.splits)

lemma sent_to_publishes:
  "sent_to cid (map (\<lambda>p. Send c (Publish p)) ps) = (if cid = c then ps else [])"
  by (induction ps) auto

lemma route_loop_effect:
  assumes "route_loop topic payload props ret targets ss acts d = Some (ss', acts', d')"
    and "distinct (map fst targets)"
  shows "d' = d + length targets \<and> fst ` set ss' = fst ` set ss \<and> (hm_ok ss \<longrightarrow> hm_ok ss') \<and>
    (\<forall>cid. \<exists>sent. sent_to cid acts' = sent_to cid acts @ sent \<and>
      experience topic payload props ret (map_of targets cid) (hm_get ss cid) (hm_get ss' cid) sent)"
  using assms
proof (induction targets arbitrary: ss acts d)
  case (Cons t targets)
  obtain c qos rap where t: "t = (c, qos, rap)" by (cases t) auto
  have new: "map_of targets c = None" "distinct (map fst targets)"
    using Cons.prems(2) t by (auto simp: map_of_eq_None_iff)
  show ?case
  proof (cases "hm_get ss c")
    case None
    with Cons.prems t have "route_loop topic payload props ret targets ss acts (d + 1) = Some (ss', acts', d')"
      by simp
    note IH = Cons.IH [OF this new(2)]
    have "\<exists>sent. sent_to cid acts' = sent_to cid acts @ sent \<and> experience topic payload props ret
        (map_of (t # targets) cid) (hm_get ss cid) (hm_get ss' cid) sent" for cid
      using IH [THEN conjunct2, THEN conjunct2, THEN conjunct2, rule_format, of cid] new(1) None t
      by (cases "cid = c") auto
    with IH show ?thesis by auto
  next
    case (Some sess)
    with Cons.prems(1) t obtain sess1 pid where al: "alloc_id qos sess = Some (sess1, pid)"
      by (auto simp: bind_eq_Some_conv)
    obtain sess' sent where one: "deliver_one topic payload props (ret \<and> rap) qos sess = Some (sess', sent)"
      and rest: "route_loop topic payload props ret targets (hm_insert c sess' ss)
        (acts @ map (\<lambda>p. Send c (Publish p)) sent) (d + 1) = Some (ss', acts', d')"
      using Cons.prems(1) t Some al alloc_id_Some(1) [OF al]
      by (auto simp: deliver_one_def outgoing_def Let_def split: if_splits)
    have keys: "fst ` set (hm_insert c sess' ss) = fst ` set ss"
      using Some keys_hm_insert [of c sess' ss] by (metis domI dom_map_of_conv_image_fst insert_absorb)
    note IH = Cons.IH [OF rest new(2)]
    have "\<exists>sent. sent_to cid acts' = sent_to cid acts @ sent \<and> experience topic payload props ret
        (map_of (t # targets) cid) (hm_get ss cid) (hm_get ss' cid) sent" for cid
    proof (cases "cid = c")
      case True
      from IH new(1) have "hm_get ss' c = Some sess'" "sent_to c acts' = sent_to c acts @ sent"
        by (auto simp: sent_to_publishes dest!: spec [of _ c])
      with True one Some t show ?thesis by (auto simp: experience_def)
    next
      case False
      from IH obtain out where "sent_to cid acts' = sent_to cid acts @ out"
        "experience topic payload props ret (map_of targets cid) (hm_get ss cid) (hm_get ss' cid) out"
        using False by (auto simp: sent_to_publishes dest!: spec [of _ cid])
      with False t show ?thesis by auto
    qed
    with IH keys show ?thesis by auto
  qed
qed simp

lemma route_publish_effect:
  assumes "hm_ok (sessions b)"
    and "route_publish b publisher topic q payload props ret = Some (b', n, acts)"
  shows "fst ` set (sessions b') = fst ` set (sessions b)" and "hm_ok (sessions b')"
    and "b' = b\<lparr>sessions := sessions b', metrics := metrics b'\<rparr>"
    and "n = card {cid. \<exists>sess. hm_get (sessions b) cid = Some sess \<and> wanted publisher topic cid sess \<noteq> {}}"
    and "experience topic payload props ret
      (case hm_get (sessions b) cid of
         Some sess \<Rightarrow> map_option snd (route_target publisher topic q (cid, sess)) | None \<Rightarrow> None)
      (hm_get (sessions b) cid) (hm_get (sessions b') cid) (sent_to cid acts)"
proof -
  let ?f = "route_target publisher topic q"
  let ?targets = "List.map_filter ?f (sessions b)"
  have key: "fst x = k" if "?f (k, v) = Some x" for k v x
    using that route_target_Some(1) by (cases x) auto
  have tg1: "map_of ?targets k = (case hm_get (sessions b) k of None \<Rightarrow> None
      | Some v \<Rightarrow> map_option snd (?f (k, v)))" for k
    using key assms(1) by (rule map_of_map_filter(1))
  have tg2: "distinct (map fst ?targets)"
    using key assms(1) by (rule map_of_map_filter(2))
  obtain ss d where loop: "route_loop topic payload props ret ?targets (sessions b) [] 0 = Some (ss, acts, d)"
    and b': "b' = b\<lparr>sessions := ss, metrics := (on_message_sent (length payload) ^^ d) (metrics b)\<rparr>"
    and n: "n = d"
    using assms(2) by (auto simp: route_publish_def Let_def bind_eq_Some_conv)
  note eff = route_loop_effect [OF loop tg2]
  show "fst ` set (sessions b') = fst ` set (sessions b)" "hm_ok (sessions b')"
    "b' = b\<lparr>sessions := sessions b', metrics := metrics b'\<rparr>"
    using eff b' assms(1) by simp_all
  have "n = length ?targets" using eff n by simp
  also have "\<dots> = card (fst ` set ?targets)"
    using distinct_card [OF tg2] by simp
  also have "fst ` set ?targets = dom (map_of ?targets)" by (simp add: dom_map_of_conv_image_fst)
  also have "\<dots> = {cid. \<exists>sess. hm_get (sessions b) cid = Some sess \<and> wanted publisher topic cid sess \<noteq> {}}"
  proof -
    have "map_of ?targets cid \<noteq> None \<longleftrightarrow>
        (\<exists>sess. hm_get (sessions b) cid = Some sess \<and> wanted publisher topic cid sess \<noteq> {})" for cid
      using route_target_None [of publisher topic q cid]
      by (cases "hm_get (sessions b) cid") (simp_all only: tg1 option.case map_option_is_None, simp_all)
    then show ?thesis by blast
  qed
  finally show "n = card {cid. \<exists>sess. hm_get (sessions b) cid = Some sess \<and> wanted publisher topic cid sess \<noteq> {}}" .
  show "experience topic payload props ret
      (case hm_get (sessions b) cid of
         Some sess \<Rightarrow> map_option snd (?f (cid, sess)) | None \<Rightarrow> None)
      (hm_get (sessions b) cid) (hm_get (sessions b') cid) (sent_to cid acts)"
    using eff [THEN conjunct2, THEN conjunct2, THEN conjunct2, rule_format, of cid] b' tg1 [of cid]
    by (cases "hm_get (sessions b) cid") auto
qed

section \<open>Well-formed brokers\<close>

text \<open>
  An in-flight message carries the non-zero identifier it is filed under and is not QoS 0 nor above
  the broker's maximum. A session has one valid, granted subscription per filter, and exists
  offline only if it was given a non-zero expiry.
\<close>

definition inflight_ok :: "QoS \<Rightarrow> PublishV5 \<Rightarrow> u16 \<Rightarrow> bool" where
  "inflight_ok mq p n \<longleftrightarrow> n \<noteq> 0 \<and> pub_packet_id p = Some n \<and> pub_qos p \<noteq> AtMostOnce \<and>
     qos_le (pub_qos p) mq"

definition session_wf :: "QoS \<Rightarrow> string \<Rightarrow> Session \<Rightarrow> bool" where
  "session_wf mq cid s \<longleftrightarrow>
     client_id s = cid \<and>
     distinct (map sub_topic_filter (subscriptions s)) \<and>
     (\<forall>sub \<in> set (subscriptions s). valid_topic_filter (sub_topic_filter sub) \<and> qos_le (sub_qos sub) mq) \<and>
     (\<forall>n p. outgoing_unacked s n = Some p \<longrightarrow> inflight_ok mq p n) \<and>
     (\<forall>p \<in> set (queued s). \<exists>n. inflight_ok mq p n) \<and>
     (connected s \<or> session_expiry_secs s \<noteq> 0)"

definition broker_wf :: "Broker \<Rightarrow> bool" where
  "broker_wf b \<longleftrightarrow>
     hm_ok (sessions b) \<and> hm_ok (retained b) \<and> hm_ok (wills b) \<and>
     (\<forall>cid s. hm_get (sessions b) cid = Some s \<longrightarrow> session_wf (max_qos (config b)) cid s) \<and>
     (\<forall>t m. hm_get (retained b) t = Some m \<longrightarrow> ret_payload m \<noteq> [])"

lemma broker_wf_frame [simp]:
  "broker_wf (b\<lparr>metrics := m\<rparr>) = broker_wf b" "broker_wf (b\<lparr>hook_calls := h\<rparr>) = broker_wf b"
  "broker_wf (b\<lparr>next_auto := n\<rparr>) = broker_wf b" "broker_wf (call_hook b c) = broker_wf b"
  by (simp_all add: broker_wf_def call_hook_def)

lemma broker_wf_session: "broker_wf b \<Longrightarrow> hm_get (sessions b) cid = Some s \<Longrightarrow> session_wf (max_qos (config b)) cid s"
  by (simp add: broker_wf_def)

lemma broker_wf_insert:
  "broker_wf b \<Longrightarrow> session_wf (max_qos (config b)) cid s \<Longrightarrow>
     broker_wf (b\<lparr>sessions := hm_insert cid s (sessions b)\<rparr>)"
  by (auto simp: broker_wf_def)

lemma broker_wf_remove: "broker_wf b \<Longrightarrow> broker_wf (b\<lparr>sessions := hm_remove cid (sessions b)\<rparr>)"
  by (auto simp: broker_wf_def split: if_splits)

lemma broker_wf_retain: "broker_wf b \<Longrightarrow> broker_wf (b\<lparr>retained := retained_apply (retained b) t m\<rparr>)"
  by (auto simp: broker_wf_def retained_apply_def split: if_splits)

lemma broker_wf_upd_session:
  "broker_wf b \<Longrightarrow> (\<And>s. session_wf (max_qos (config b)) cid s \<Longrightarrow> session_wf (max_qos (config b)) cid (f s)) \<Longrightarrow>
     broker_wf (upd_session b cid f)"
  using broker_wf_session [of b cid] broker_wf_insert [of b cid]
  by (simp add: upd_session_def split: option.splits)

lemma config_frame [frame_simps]:
  "config (call_hook b c) = config b" "config (upd_session b cid f) = config b"
  "auth (call_hook b c) = auth b" "auth (upd_session b cid f) = auth b"
  by (simp_all add: call_hook_def upd_session_def split: option.splits)

lemma session_wf_fields:
  assumes "session_wf mq cid s"
  shows "session_wf mq cid (s\<lparr>next_packet_id := n\<rparr>)"
    and "session_wf mq cid (s\<lparr>incoming_qos2 := A\<rparr>)"
    and "session_wf mq cid (s\<lparr>outgoing_pubrel := A\<rparr>)"
    and "session_wf mq cid (s\<lparr>outgoing_unacked := (outgoing_unacked s)(i := None)\<rparr>)"
  using assms by (auto simp: session_wf_def)

lemma session_wf_track:
  assumes "session_wf mq cid s" and "\<And>n. pub_packet_id p = Some n \<Longrightarrow> inflight_ok mq p n"
  shows "session_wf mq cid (track p s)"
  using assms by (cases "pub_packet_id p") (auto simp: session_wf_def track_def)

lemma alloc_id_wf:
  assumes "session_wf mq cid s" and "alloc_id qos s = Some (s', pid)" and "qos_le qos mq"
  shows "session_wf mq cid s'"
    and "\<And>n. pid = Some n \<Longrightarrow> inflight_ok mq (outgoing topic payload props ret qos pid) n"
  using alloc_id_Some(2) [OF assms(2)] assms(1,3)
  by (auto simp: inflight_ok_def outgoing_def session_wf_fields(1) dest: next_id_Some(1,2))

lemma session_wf_deliver_one:
  assumes "session_wf mq cid s" and "deliver_one topic payload props ret qos s = Some (s', sent)"
    and "qos_le qos mq"
  shows "session_wf mq cid s'"
proof -
  obtain s1 pid where al: "alloc_id qos s = Some (s1, pid)"
    using assms(2) by (auto simp: deliver_one_def split: option.splits)
  note wf = alloc_id_wf [OF assms(1) al assms(3)]
  have pid: "pub_packet_id (outgoing topic payload props ret qos pid) = pid"
    by (simp add: outgoing_def)
  have "session_wf mq cid (track (outgoing topic payload props ret qos pid) s1)"
    using session_wf_track [OF wf(1)] wf(2) pid by metis
  moreover have "session_wf mq cid (s1\<lparr>queued := queued s1 @ [outgoing topic payload props ret qos pid]\<rparr>)"
    if nz: "qos \<noteq> AtMostOnce"
  proof -
    obtain n where "pid = Some n" using nz alloc_id_Some(2) [OF al] by auto
    then have "inflight_ok mq (outgoing topic payload props ret qos pid) n" by (rule wf(2))
    with wf(1) show ?thesis by (auto simp: session_wf_def)
  qed
  ultimately show ?thesis
    using assms(2) al wf(1) by (auto simp: deliver_one_def Let_def split: if_splits)
qed

lemma broker_wf_route [inv_intros]:
  assumes "broker_wf b" and "route_publish b publisher topic q payload props ret = Some (b', n, acts)"
  shows "broker_wf b'"
proof -
  have ok: "hm_ok (sessions b)" using assms(1) by (simp add: broker_wf_def)
  note eff = route_publish_effect [OF ok assms(2)]
  have "session_wf (max_qos (config b)) cid s'" if s': "hm_get (sessions b') cid = Some s'" for cid s'
  proof (cases "hm_get (sessions b) cid")
    case None
    with eff(5) [of cid] s' show ?thesis by simp
  next
    case (Some s)
    note wf = broker_wf_session [OF assms(1) Some]
    show ?thesis
    proof (cases "route_target publisher topic q (cid, s)")
      case None
      with eff(5) [of cid] s' Some wf show ?thesis by simp
    next
      case tgt: (Some t)
      obtain c qos rap where t: "t = (c, qos, rap)" by (cases t) auto
      from route_target_Some(2) [OF tgt [unfolded t]] obtain sub where
        "sub \<in> set (subscriptions s)" "qos = qos_min q (sub_qos sub)"
        by (auto simp: wanted_def)
      moreover from this wf have "qos_le (sub_qos sub) (max_qos (config b))"
        by (simp add: session_wf_def)
      ultimately have "qos_le qos (max_qos (config b))"
        using qos_le_trans [OF qos_min_le(2)] by blast
      with eff(5) [of cid] s' Some tgt t wf show ?thesis
        by (auto simp: experience_def intro: session_wf_deliver_one)
    qed
  qed
  then have "broker_wf (b\<lparr>sessions := sessions b'\<rparr>)"
    using eff(2) assms(1) by (simp add: broker_wf_def)
  then show ?thesis using eff(3) by (metis broker_wf_frame(1))
qed

section \<open>Every operation keeps a broker well formed\<close>

lemma resend_queued_eq [simp]:
  "resend_queued c ps s acts = (fold track ps s, acts @ map (\<lambda>p. Send c (Publish p)) ps)"
  by (induction ps arbitrary: s acts) simp_all

lemma track_frame [simp]:
  "queued (track p s) = queued s" "connected (track p s) = connected s"
  "subscriptions (track p s) = subscriptions s" "client_id (track p s) = client_id s"
  "session_expiry_secs (track p s) = session_expiry_secs s" "username (track p s) = username s"
  "incoming_qos2 (track p s) = incoming_qos2 s"
  by (simp_all add: track_def split: option.splits)

lemma fold_track_frame [simp]:
  "queued (fold track ps s) = queued s" "connected (fold track ps s) = connected s"
  "subscriptions (fold track ps s) = subscriptions s" "username (fold track ps s) = username s"
  "incoming_qos2 (fold track ps s) = incoming_qos2 s"
  by (induction ps arbitrary: s) simp_all

lemma session_wf_resend:
  "session_wf mq cid s \<Longrightarrow> \<forall>p \<in> set ps. \<exists>n. inflight_ok mq p n \<Longrightarrow> session_wf mq cid (fold track ps s)"
proof (induction ps arbitrary: s)
  case (Cons p ps)
  have "session_wf mq cid (track p s)"
    using Cons.prems by (intro session_wf_track) (auto simp: inflight_ok_def)
  with Cons show ?case by simp
qed simp

text \<open>The identifier a CONNECT ends up with, the session it resumes and the session it leaves.\<close>

definition connect_id :: "Broker \<Rightarrow> ConnectV5 \<Rightarrow> string" where
  "connect_id b c =
     (if con_client_id c = [] then ''auto-'' @ show_nat (unat (next_auto b + 1)) else con_client_id c)"

definition resumed :: "Broker \<Rightarrow> ConnectV5 \<Rightarrow> Session option" where
  "resumed b c = (if clean_start c then None else hm_get (sessions b) (connect_id b c))"

definition bind_session :: "Broker \<Rightarrow> ConnectV5 \<Rightarrow> Session" where
  "bind_session b c =
     (case resumed b c of
        Some s \<Rightarrow> s
      | None \<Rightarrow> Session_new (connect_id b c) (session_expiry_from (con_properties c)))
      \<lparr>connected := True, session_expiry_secs := session_expiry_from (con_properties c),
       username := con_username c\<rparr>"

definition connected_session :: "Broker \<Rightarrow> ConnectV5 \<Rightarrow> Session" where
  "connected_session b c =
     (if resumed b c = None then bind_session b c
      else fold track (queued (bind_session b c)) ((bind_session b c)\<lparr>queued := []\<rparr>))"

lemmas connect_simps = connect_def connect_id_def resumed_def bind_session_def
  connected_session_def Let_def call_hook_def

lemma connect_sessions:
  assumes "authenticate (auth b) (con_username c) (con_password c)"
  shows "hm_get (sessions (fst (connect b c))) k =
    (if k = connect_id b c then Some (connected_session b c) else hm_get (sessions b) k)"
  using assms
  by (cases "con_client_id c = []"; cases "clean_start c"; cases "hm_get (sessions b) (connect_id b c)")
    (simp_all add: connect_simps)

lemma connect_sends:
  assumes "authenticate (auth b) (con_username c) (con_password c)"
  shows "sent_to k (snd (connect b c)) =
    (if resumed b c \<noteq> None \<and> k = connect_id b c then queued (bind_session b c) else [])"
  using assms
  by (cases "con_client_id c = []"; cases "clean_start c"; cases "hm_get (sessions b) (connect_id b c)")
    (simp_all add: connect_simps sent_to_publishes)

lemma connect_frame:
  "retained (fst (connect b c)) = retained b" "config (fst (connect b c)) = config b"
  "hm_ok (sessions b) \<Longrightarrow> hm_ok (sessions (fst (connect b c)))"
  "hm_ok (wills b) \<Longrightarrow> hm_ok (wills (fst (connect b c)))"
  by (cases "authenticate (auth b) (con_username c) (con_password c)"; cases "con_client_id c = []";
      cases "clean_start c"; cases "hm_get (sessions b) (connect_id b c)"; cases "con_will c";
      simp add: connect_simps)+

lemma broker_wf_connect [inv_intros]:
  assumes "broker_wf b"
  shows "broker_wf (fst (connect b c))"
proof (cases "authenticate (auth b) (con_username c) (con_password c)")
  case False
  with assms show ?thesis by (simp add: connect_def Let_def)
next
  case True
  let ?mq = "max_qos (config b)" and ?cid = "connect_id b c"
  have new: "session_wf ?mq ?cid (bind_session b c)"
  proof (cases "resumed b c")
    case None
    then show ?thesis by (simp add: bind_session_def Session_new_def session_wf_def)
  next
    case (Some s)
    then have "hm_get (sessions b) ?cid = Some s" by (simp add: resumed_def split: if_splits)
    from broker_wf_session [OF assms this] Some show ?thesis
      by (simp add: bind_session_def session_wf_def)
  qed
  then have "session_wf ?mq ?cid ((bind_session b c)\<lparr>queued := []\<rparr>)"
    "\<forall>p \<in> set (queued (bind_session b c)). \<exists>n. inflight_ok ?mq p n"
    by (simp_all add: session_wf_def)
  then have "session_wf ?mq ?cid (connected_session b c)"
    using new by (simp add: connected_session_def session_wf_resend)
  then show ?thesis
    using assms connect_sessions [OF True] connect_frame [where b = b and c = c]
    by (simp add: broker_wf_def)
qed

lemma session_wf_subscriptions:
  "session_wf mq cid s \<Longrightarrow> distinct (map sub_topic_filter subs) \<Longrightarrow>
     \<forall>sub \<in> set subs. valid_topic_filter (sub_topic_filter sub) \<and> qos_le (sub_qos sub) mq \<Longrightarrow>
     session_wf mq cid (s\<lparr>subscriptions := subs\<rparr>)"
  by (simp add: session_wf_def)

lemma session_wf_add_subscription:
  assumes "session_wf mq cid s" and "add_subscription s sub = (s', ex)"
    and "valid_topic_filter (sub_topic_filter sub)" and "qos_le (sub_qos sub) mq"
  shows "session_wf mq cid s'"
proof -
  have "distinct (map sub_topic_filter (subscriptions s))" using assms(1) by (simp add: session_wf_def)
  note spec = add_subscription_spec [OF this assms(2)]
  have "session_wf mq cid (s\<lparr>subscriptions := subscriptions s'\<rparr>)"
    using assms spec(1,2) by (intro session_wf_subscriptions) (auto simp: session_wf_def)
  then show ?thesis using spec(4) by simp
qed

lemma subscribe_loop_wf:
  assumes "subscribe_loop cid user subs b codes dr = (b', codes', dr')" and "broker_wf b"
    and "\<forall>(f, q) \<in> set dr. qos_le q (max_qos (config b))"
  shows "broker_wf b' \<and> config b' = config b \<and> (\<forall>(f, q) \<in> set dr'. qos_le q (max_qos (config b)))"
  using assms
proof (induction subs arbitrary: b codes dr)
  case (Cons sub subs)
  let ?g = "qos_min (sub_qos sub) (max_qos (config b))"
  let ?stored = "sub\<lparr>sub_qos := ?g\<rparr>"
  show ?case
  proof (cases "valid_topic_filter (sub_topic_filter sub) \<and>
      authorize (auth b) user AclSubscribe (sub_topic_filter sub)")
    case False
    then show ?thesis using Cons.IH [of b] Cons.prems by (auto split: if_splits)
  next
    case True
    obtain b1 ex where b1: "(case hm_get (sessions b) cid of
          Some s \<Rightarrow> (let (s', ex) = add_subscription s ?stored
                     in (b\<lparr>sessions := hm_insert cid s' (sessions b)\<rparr>, ex))
        | None \<Rightarrow> (b, False)) = (b1, ex)" by fastforce
    have wf1: "broker_wf b1 \<and> config b1 = config b"
    proof (cases "hm_get (sessions b) cid")
      case None
      with b1 Cons.prems(2) show ?thesis by simp
    next
      case (Some s)
      obtain s' where s': "add_subscription s ?stored = (s', ex)"
        and "b1 = b\<lparr>sessions := hm_insert cid s' (sessions b)\<rparr>"
        using b1 Some by (cases "add_subscription s ?stored") auto
      moreover note wf = broker_wf_session [OF Cons.prems(2) Some]
      moreover have "session_wf (max_qos (config b)) cid s'"
        using wf s' True by (intro session_wf_add_subscription [OF wf s']) simp_all
      ultimately show ?thesis using Cons.prems(2) broker_wf_insert by simp
    qed
    let ?b2 = "call_hook b1 (HookSubscribe cid (sub_topic_filter sub))"
    let ?send = "case retain_handling sub of SendOnSubscribe \<Rightarrow> True | SendIfNew \<Rightarrow> \<not> ex | DoNotSend \<Rightarrow> False"
    let ?dr = "if ?send then dr @ [(sub_topic_filter sub, ?g)] else dr"
    have rest: "subscribe_loop cid user subs ?b2 (codes @ [granted_code ?g]) ?dr = (b', codes', dr')"
      using Cons.prems(1) True b1 by (simp add: Let_def)
    have cfg: "config ?b2 = config b" using wf1 by (simp add: config_frame)
    have "\<forall>(f, q) \<in> set (dr @ [(sub_topic_filter sub, ?g)]). qos_le q (max_qos (config b))"
      using Cons.prems(3) by simp
    then have "\<forall>(f, q) \<in> set ?dr. qos_le q (max_qos (config ?b2))"
      unfolding cfg using Cons.prems(3) by (cases ?send) (simp_all only: if_True if_False)
    moreover have "broker_wf ?b2" using wf1 by simp
    ultimately show ?thesis using Cons.IH [OF rest] unfolding cfg by blast
  qed
qed simp

lemma deliver_hits_wf:
  assumes "deliver_hits cid granted hits b acts = Some (b', acts')" and "broker_wf b"
    and "qos_le granted (max_qos (config b))"
  shows "broker_wf b' \<and> config b' = config b \<and> retained b' = retained b"
  using assms
proof (induction hits arbitrary: b acts)
  case (Cons h hits)
  obtain topic msg where h: "h = (topic, msg)" by fastforce
  let ?q = "qos_min (ret_qos msg) granted"
  show ?case
  proof (cases "hm_get (sessions b) cid")
    case None
    with Cons h show ?thesis by simp
  next
    case (Some s)
    with Cons.prems(1) h obtain s1 pid where al: "alloc_id ?q s = Some (s1, pid)"
      and rest: "deliver_hits cid granted hits
        (b\<lparr>sessions := hm_insert cid (track (outgoing topic (ret_payload msg) (ret_properties msg) True ?q pid) s1)
           (sessions b)\<rparr>)
        (acts @ [Send cid (Publish (outgoing topic (ret_payload msg) (ret_properties msg) True ?q pid))]) =
        Some (b', acts')"
      by (auto simp: outgoing_def Let_def bind_eq_Some_conv)
    have le: "qos_le ?q (max_qos (config b))"
      using Cons.prems(3) qos_le_trans [OF qos_min_le(2)] by blast
    note wf = alloc_id_wf [OF broker_wf_session [OF Cons.prems(2) Some] al le]
    have "session_wf (max_qos (config b)) cid
        (track (outgoing topic (ret_payload msg) (ret_properties msg) True ?q pid) s1)"
      using wf by (intro session_wf_track) (auto simp: outgoing_def)
    from Cons.IH [OF rest] broker_wf_insert [OF Cons.prems(2) this] Cons.prems(3) show ?thesis
      by simp
  qed
qed simp

lemma deliver_retained_wf:
  assumes "deliver_retained cid drs b acts = Some (b', acts')" and "broker_wf b"
    and "\<forall>(f, q) \<in> set drs. qos_le q (max_qos (config b))"
  shows "broker_wf b'"
  using assms
proof (induction drs arbitrary: b acts)
  case (Cons d drs)
  obtain f g where d: "d = (f, g)" by fastforce
  with Cons.prems(1) obtain b1 acts1 where
    hits: "deliver_hits cid g (retained_matching (retained b) f) b acts = Some (b1, acts1)"
    and rest: "deliver_retained cid drs b1 acts1 = Some (b', acts')"
    by (auto simp: bind_eq_Some_conv)
  from deliver_hits_wf [OF hits Cons.prems(2)] Cons.prems(3) d Cons.IH [OF rest] show ?case by auto
qed simp

lemma broker_wf_subscribe [inv_intros]:
  assumes "on_subscribe b cid s = Some (b', acts)" and "broker_wf b"
  shows "broker_wf b'"
proof -
  obtain b1 codes dr where loop: "subscribe_loop cid (session_username b cid) (s_subscriptions s) b [] [] = (b1, codes, dr)"
    by (cases "subscribe_loop cid (session_username b cid) (s_subscriptions s) b [] []") auto
  with assms(1) have "deliver_retained cid dr b1 [Send cid (SubAck \<lparr>sa_packet_id = s_packet_id s,
      sa_properties = [], sa_reason_codes = codes\<rparr>)] = Some (b', acts)"
    by (simp add: on_subscribe_def Let_def)
  with subscribe_loop_wf [OF loop assms(2)] deliver_retained_wf show ?thesis by fastforce
qed

lemma broker_wf_unsubscribe [inv_intros]:
  assumes "broker_wf b"
  shows "broker_wf (fst (on_unsubscribe b cid u))"
proof -
  have "broker_wf (fst (unsubscribe_loop cid fs b codes))" if "broker_wf b" for fs b codes
    using that
  proof (induction fs arbitrary: b codes)
    case (Cons f fs)
    show ?case
    proof (cases "hm_get (sessions b) cid")
      case None
      with Cons show ?thesis by simp
    next
      case (Some s)
      obtain s' r where s': "remove_subscription s f = (s', r)" by fastforce
      have "session_wf (max_qos (config b)) cid s'"
        using broker_wf_session [OF Cons.prems Some] s'
        by (auto simp: remove_subscription_def session_wf_def distinct_map_filter)
      with Cons broker_wf_insert [OF Cons.prems this] Some s' show ?thesis by simp
    qed
  qed simp
  with assms show ?thesis by (simp add: on_unsubscribe_def case_prod_unfold Let_def)
qed

lemma broker_wf_detach [inv_intros]:
  assumes "broker_wf b"
  shows "broker_wf (detach b cid)"
proof (cases "hm_get (sessions b) cid")
  case None
  with assms show ?thesis by (simp add: detach_def)
next
  case (Some s)
  note wf = broker_wf_session [OF assms Some]
  let ?b1 = "b\<lparr>sessions := hm_insert cid (s\<lparr>connected := False\<rparr>) (sessions b)\<rparr>"
  let ?b2 = "if connected s then call_hook (?b1\<lparr>metrics := on_client_disconnected (metrics ?b1)\<rparr>)
      (HookDisconnect cid) else ?b1"
  have eq: "detach b cid = (if session_expiry_secs s = 0
      then ?b2\<lparr>sessions := hm_remove cid (sessions ?b2)\<rparr> else ?b2)"
    using Some by (simp add: detach_def Let_def)
  show ?thesis
  proof (cases "session_expiry_secs s = 0")
    case False
    then have "session_wf (max_qos (config b)) cid (s\<lparr>connected := False\<rparr>)"
      using wf by (simp add: session_wf_def)
    from broker_wf_insert [OF assms this] False show ?thesis by (simp add: eq)
  next
    case True
    have "hm_remove cid (hm_insert cid x m) = hm_remove cid m" for x and m :: "(string, Session) hashmap"
      by (induction m) auto
    then have "broker_wf (?b2\<lparr>sessions := hm_remove cid (sessions ?b2)\<rparr>)"
      using broker_wf_remove [OF assms, of cid] by (simp add: call_hook_def broker_wf_def)
    with True show ?thesis by (simp add: eq)
  qed
qed

section \<open>The stages of a PUBLISH\<close>

definition publish_event :: "string \<Rightarrow> PublishV5 \<Rightarrow> PublishEvent" where
  "publish_event cid p =
     \<lparr>pe_client_id = cid, pe_topic = pub_topic p, pe_qos = pub_qos p, pe_retain = pub_retain p,
      pe_payload = pub_payload p\<rparr>"

definition observed :: "Broker \<Rightarrow> string \<Rightarrow> PublishV5 \<Rightarrow> Broker" where
  "observed b cid p =
     call_hook (b\<lparr>metrics := on_message_received (length (pub_payload p)) (metrics b)\<rparr>)
       (HookPublish (publish_event cid p))"

definition refused :: "Broker \<Rightarrow> string \<Rightarrow> PublishV5 \<Rightarrow> bool" where
  "refused b cid p \<longleftrightarrow>
     (case hook b of Some h \<Rightarrow> h (hook_calls b) (publish_event cid p) = Reject | None \<Rightarrow> False) \<or>
     \<not> authorize (auth b) (session_username b cid) AclPublish (pub_topic p)"

definition duplicate_qos2 :: "Broker \<Rightarrow> string \<Rightarrow> PublishV5 \<Rightarrow> bool" where
  "duplicate_qos2 b cid p \<longleftrightarrow> pub_qos p = ExactlyOnce \<and>
     (\<exists>pid s. pub_packet_id p = Some pid \<and> hm_get (sessions b) cid = Some s \<and> pid \<in> incoming_qos2 s)"

definition retain_published :: "Broker \<Rightarrow> PublishV5 \<Rightarrow> Broker" where
  "retain_published b p =
     (if pub_retain p \<and> retain_available (config b)
      then b\<lparr>retained := retained_apply (retained b) (pub_topic p)
             \<lparr>ret_payload = pub_payload p, ret_qos = pub_qos p, ret_properties = pub_properties p\<rparr>\<rparr>
      else b)"

definition acknowledge :: "Broker \<Rightarrow> string \<Rightarrow> PublishV5 \<Rightarrow> nat \<Rightarrow> Action list \<Rightarrow> Broker \<times> Action list" where
  "acknowledge b cid p n acts =
     (let reason = (if n > 0 then Success else NoMatchingSubscribers) in
      case (pub_qos p, pub_packet_id p) of
        (AtLeastOnce, Some pid) \<Rightarrow>
          (b, acts @ [Send cid (PubAck \<lparr>ack_packet_id = pid, ack_reason_code = reason, ack_properties = []\<rparr>)])
      | (ExactlyOnce, Some pid) \<Rightarrow>
          (upd_session b cid (\<lambda>s. s\<lparr>incoming_qos2 := insert pid (incoming_qos2 s)\<rparr>),
           acts @ [pubrec cid pid reason])
      | _ \<Rightarrow> (b, acts))"

lemma observed_frame [simp]:
  "sessions (observed b cid p) = sessions b" "retained (observed b cid p) = retained b"
  "wills (observed b cid p) = wills b" "config (observed b cid p) = config b"
  "auth (observed b cid p) = auth b" "broker_wf (observed b cid p) = broker_wf b"
  by (simp_all add: observed_def call_hook_def)

lemma on_publish_eq:
  "on_publish b cid p =
     (if \<not> valid_topic_name (pub_topic p) then Some (b, ack_publish_error cid p TopicNameInvalid)
      else if refused b cid p then
        Some ((observed b cid p)\<lparr>metrics := on_message_dropped (metrics (observed b cid p))\<rparr>,
              ack_publish_error cid p NotAuthorized)
      else if duplicate_qos2 b cid p then
        Some (observed b cid p, [pubrec cid (the (pub_packet_id p)) Success])
      else
        (case route_publish (retain_published (observed b cid p) p) (Some cid) (pub_topic p) (pub_qos p)
           (pub_payload p) (pub_properties p) (pub_retain p) of
           None \<Rightarrow> None
         | Some (b4, n, acts) \<Rightarrow> Some (acknowledge b4 cid p n acts)))"
proof -
  have user: "session_username (observed b cid p) cid = session_username b cid"
    by (simp add: session_username_def)
  have dup: "(pub_qos p = ExactlyOnce \<and>
      (case pub_packet_id p of
         Some pid \<Rightarrow> (case hm_get (sessions b) cid of Some s \<Rightarrow> pid \<in> incoming_qos2 s | None \<Rightarrow> False)
       | None \<Rightarrow> False)) = duplicate_qos2 b cid p"
    by (auto simp: duplicate_qos2_def split: option.splits)
  have ack: "(case pub_qos p of
       AtMostOnce \<Rightarrow> (b4, acts)
     | AtLeastOnce \<Rightarrow>
         (b4, case pub_packet_id p of
            Some pid \<Rightarrow> acts @ [Send cid (PubAck \<lparr>ack_packet_id = pid,
              ack_reason_code = (if 0 < n then Success else NoMatchingSubscribers), ack_properties = []\<rparr>)]
          | None \<Rightarrow> acts)
     | ExactlyOnce \<Rightarrow>
         (case pub_packet_id p of
            Some pid \<Rightarrow>
              (upd_session b4 cid (\<lambda>s. s\<lparr>incoming_qos2 := insert pid (incoming_qos2 s)\<rparr>),
               acts @ [pubrec cid pid (if 0 < n then Success else NoMatchingSubscribers)])
          | None \<Rightarrow> (b4, acts))) = acknowledge b4 cid p n acts" for b4 n acts
    by (cases "pub_qos p"; cases "pub_packet_id p") (simp_all add: acknowledge_def)
  have obs: "call_hook (b\<lparr>metrics := on_message_received (length (pub_payload p)) (metrics b)\<rparr>)
      (HookPublish \<lparr>pe_client_id = cid, pe_topic = pub_topic p, pe_qos = pub_qos p,
        pe_retain = pub_retain p, pe_payload = pub_payload p\<rparr>) = observed b cid p"
    by (simp add: observed_def publish_event_def)
  have veto: "refused b cid p \<longleftrightarrow>
      (case hook b of Some h \<Rightarrow> h (hook_calls b) \<lparr>pe_client_id = cid, pe_topic = pub_topic p,
        pe_qos = pub_qos p, pe_retain = pub_retain p, pe_payload = pub_payload p\<rparr> = Reject
       | None \<Rightarrow> False) \<or>
      \<not> authorize (auth b) (session_username b cid) AclPublish (pub_topic p)"
    unfolding refused_def publish_event_def ..
  have frame: "hook (b\<lparr>metrics := m\<rparr>) = hook b" "hook_calls (b\<lparr>metrics := m\<rparr>) = hook_calls b" for m
    by simp_all
  have ret: "(if pub_retain p \<and> retain_available (config b')
      then b'\<lparr>retained := retained_apply (retained b') (pub_topic p)
        \<lparr>ret_payload = pub_payload p, ret_qos = pub_qos p, ret_properties = pub_properties p\<rparr>\<rparr>
      else b') = retain_published b' p" for b'
    by (simp only: retain_published_def)
  have split: "(if v then r else if \<not> a then r else x) = (if v \<or> \<not> a then r else x)" for v a r and x :: "(Broker \<times> Action list) option"
    by simp
  have bind: "do { (b4, n, acts) \<leftarrow> r; Some (acknowledge b4 cid p n acts) } =
      (case r of None \<Rightarrow> None | Some (b4, n, acts) \<Rightarrow> Some (acknowledge b4 cid p n acts))" for r
    by (cases r) auto
  show ?thesis
    unfolding on_publish_def Let_def obs frame ret ack split user veto [symmetric] dup bind
      observed_frame(1,5) ..
qed

lemma broker_wf_retain_published: "broker_wf b \<Longrightarrow> broker_wf (retain_published b p)"
  by (simp add: retain_published_def broker_wf_retain)

lemma broker_wf_acknowledge:
  "broker_wf b \<Longrightarrow> broker_wf (fst (acknowledge b cid p n acts))"
  by (cases "pub_qos p"; cases "pub_packet_id p")
    (simp_all add: acknowledge_def Let_def broker_wf_upd_session session_wf_fields(2))

lemma broker_wf_publish [inv_intros]:
  assumes "on_publish b cid p = Some (b', acts)" and "broker_wf b"
  shows "broker_wf b'"
proof (cases "valid_topic_name (pub_topic p) \<and> \<not> refused b cid p \<and> \<not> duplicate_qos2 b cid p")
  case False
  with assms show ?thesis by (auto simp: on_publish_eq split: if_splits)
next
  case True
  with assms(1) obtain b4 n acts4 where
    route: "route_publish (retain_published (observed b cid p) p) (Some cid) (pub_topic p) (pub_qos p)
      (pub_payload p) (pub_properties p) (pub_retain p) = Some (b4, n, acts4)"
    and res: "acknowledge b4 cid p n acts4 = (b', acts)"
    by (auto simp: on_publish_eq split: option.splits)
  have "broker_wf b4"
    using broker_wf_route [OF _ route] assms(2) by (simp add: broker_wf_retain_published)
  then show ?thesis using broker_wf_acknowledge [of b4 cid p n acts4] res by simp
qed

lemma broker_wf_wills_remove: "broker_wf b \<Longrightarrow> broker_wf (b\<lparr>wills := hm_remove cid (wills b)\<rparr>)"
  by (simp add: broker_wf_def)

lemma broker_wf_on_disconnect [inv_intros]: "broker_wf b \<Longrightarrow> broker_wf (fst (on_disconnect b cid d))"
  by (simp add: on_disconnect_def Let_def broker_wf_detach broker_wf_wills_remove)

lemma broker_wf_lost [inv_intros]:
  assumes "network_disconnect b cid = Some (b', acts)" and "broker_wf b"
  shows "broker_wf b'"
proof (cases "hm_get (wills b) cid")
  case None
  with assms show ?thesis by (auto simp: network_disconnect_def broker_wf_detach)
next
  case (Some w)
  let ?b1 = "b\<lparr>wills := hm_remove cid (wills b)\<rparr>"
  let ?b2 = "if will_retain w \<and> retain_available (config ?b1)
    then ?b1\<lparr>retained := retained_apply (retained ?b1) (will_topic w)
      \<lparr>ret_payload = will_payload w, ret_qos = will_qos w, ret_properties = will_properties w\<rparr>\<rparr>
    else ?b1"
  have wf2: "broker_wf ?b2"
    using broker_wf_retain [OF broker_wf_wills_remove [OF assms(2), of cid]]
      broker_wf_wills_remove [OF assms(2), of cid] by simp
  obtain b3 n acts3 where route: "route_publish ?b2 (Some cid) (will_topic w) (will_qos w) (will_payload w)
      (will_properties w) (will_retain w) = Some (b3, n, acts3)" and "b' = detach b3 cid"
    using assms(1) Some by (auto simp: network_disconnect_def Let_def bind_eq_Some_conv)
  with broker_wf_route [OF wf2 route] show ?thesis by (simp add: broker_wf_detach)
qed

lemma broker_wf_handle [inv_intros]:
  assumes "broker_handle b cid pkt = Some (b', acts)" and "broker_wf b"
  shows "broker_wf b'"
proof (cases pkt)
  case (Subscribe s)
  with assms show ?thesis by (auto simp: broker_handle_def intro: broker_wf_subscribe)
next
  case (Unsubscribe u)
  with assms broker_wf_unsubscribe [OF assms(2), of cid u] show ?thesis
    by (auto simp: broker_handle_def)
next
  case (Publish p)
  with assms show ?thesis by (auto simp: broker_handle_def intro: broker_wf_publish)
next
  case (PubRec r)
  have "session_wf mq cid (s\<lparr>outgoing_unacked := (outgoing_unacked s)(i := None), outgoing_pubrel := A\<rparr>)"
    if "session_wf mq cid s" for mq s i A
    using session_wf_fields(3) [OF session_wf_fields(4) [OF that]] by simp
  with PubRec assms show ?thesis
    by (auto simp: broker_handle_def intro!: broker_wf_upd_session)
next
  case (Disconnect d)
  with assms broker_wf_on_disconnect [OF assms(2), of cid d] show ?thesis
    by (auto simp: broker_handle_def)
qed (use assms in \<open>auto simp: broker_handle_def intro!: broker_wf_upd_session session_wf_fields\<close>)

section \<open>Runs of a broker\<close>

text \<open>
  What the transport can do to the core: a CONNECT, a packet of a client, the loss of a connection.
  A run is a sequence of such events that all complete.
\<close>

datatype broker_event = EvConnect ConnectV5 | EvPacket string PacketV5 | EvLost string

fun broker_step :: "Broker \<Rightarrow> broker_event \<Rightarrow> (Broker \<times> Action list) option" where
  "broker_step b (EvConnect c) = Some (connect b c)"
| "broker_step b (EvPacket cid pkt) = broker_handle b cid pkt"
| "broker_step b (EvLost cid) = network_disconnect b cid"

inductive broker_run :: "Broker \<Rightarrow> broker_event list \<Rightarrow> Broker \<Rightarrow> bool" where
  broker_nil: "broker_run b [] b"
| broker_snoc: "broker_run b es b' \<Longrightarrow> broker_step b' e = Some (b'', acts) \<Longrightarrow> broker_run b (es @ [e]) b''"

inductive_cases broker_run_nilE: "broker_run b [] b'"

lemma broker_wf_step [inv_intros]:
  assumes "broker_step b e = Some (b', acts)" and "broker_wf b"
  shows "broker_wf b'"
proof (cases e)
  case (EvConnect c)
  with assms broker_wf_connect [OF assms(2), of c] show ?thesis by auto
qed (use assms broker_wf_handle broker_wf_lost in auto)

lemma broker_wf_run: "broker_run b es b' \<Longrightarrow> broker_wf b \<Longrightarrow> broker_wf b'"
  by (induction rule: broker_run.induct) (auto intro: broker_wf_step)

lemma broker_wf_new: "broker_wf (Broker_new cfg a)"
  by (simp add: broker_wf_def Broker_new_def)

end
