(* ===== verification/Mqtt_Guarantees.thy ===== *)
theory Mqtt_Guarantees
  imports Mqtt_Delivery "HOL-Library.Sublist"
begin

text \<open>
  The guarantees of the MQTT broker as its clients see them: exact delivery, completion of routing,
  exactly-once handling of QoS 2 across reconnects, no loss of messages for offline sessions,
  harmless rejections, and a gap in the access rules for subscriptions.
\<close>

declare map_of_eq_Some_iff [simp del] Some_eq_map_of_iff [simp del]

section \<open>What one packet can change of a session\<close>

text \<open>
  The part of a session that only its owner's CONNECT and QoS 2 handshake change: the identifiers
  of half-received messages and the expiry.
\<close>

definition mark :: "string \<Rightarrow> Broker \<Rightarrow> (u16 set \<times> u32) option" where
  "mark cid b = map_option (\<lambda>s. (incoming_qos2 s, session_expiry_secs s)) (hm_get (sessions b) cid)"

lemma mark_frame [simp]:
  "mark cid (call_hook b h) = mark cid b" "mark cid (b\<lparr>metrics := m\<rparr>) = mark cid b"
  "mark cid (b\<lparr>retained := r\<rparr>) = mark cid b" "mark cid (b\<lparr>wills := w\<rparr>) = mark cid b"
  by (simp_all add: mark_def call_hook_def)

lemma sessions_frame [simp]: "sessions (call_hook b h) = sessions b"
  by (simp add: call_hook_def)

lemma mark_insert:
  "hm_get (sessions b) c = Some s \<Longrightarrow> incoming_qos2 s' = incoming_qos2 s \<Longrightarrow>
     session_expiry_secs s' = session_expiry_secs s \<Longrightarrow>
     mark cid (b\<lparr>sessions := hm_insert c s' (sessions b)\<rparr>) = mark cid b"
  by (simp add: mark_def)

lemma alloc_id_frame:
  assumes "alloc_id qos s = Some (s', pid)"
  shows "incoming_qos2 s' = incoming_qos2 s" "session_expiry_secs s' = session_expiry_secs s"
    "queued s' = queued s" "connected s' = connected s" "subscriptions s' = subscriptions s"
  using alloc_id_Some(2) [OF assms] by (auto dest: next_id_Some(1))

lemma deliver_one_frame:
  assumes "deliver_one topic payload props ret qos s = Some (s', sent)"
  shows "incoming_qos2 s' = incoming_qos2 s" "session_expiry_secs s' = session_expiry_secs s"
    "connected s' = connected s" "prefix (queued s) (queued s')"
proof -
  obtain s1 pid where al: "alloc_id qos s = Some (s1, pid)"
    using assms by (auto simp: deliver_one_def split: option.splits)
  note fr = alloc_id_frame [OF al]
  let ?pkt = "outgoing topic payload props ret qos pid"
  have "s' = track ?pkt s1 \<or> s' = s1\<lparr>queued := queued s1 @ [?pkt]\<rparr> \<or> s' = s1"
    using assms al by (simp add: deliver_one_def Let_def split: if_splits)
  then show "incoming_qos2 s' = incoming_qos2 s" "session_expiry_secs s' = session_expiry_secs s"
    "connected s' = connected s" "prefix (queued s) (queued s')"
    by (elim disjE; simp add: fr)+
qed

lemma add_subscription_frame:
  assumes "add_subscription s sub = (s', ex)"
  shows "incoming_qos2 s' = incoming_qos2 s" "session_expiry_secs s' = session_expiry_secs s"
  using assms by (auto simp: add_subscription_def split: option.splits)

lemma remove_subscription_frame:
  assumes "remove_subscription s f = (s', r)"
  shows "incoming_qos2 s' = incoming_qos2 s" "session_expiry_secs s' = session_expiry_secs s"
  using assms by (auto simp: remove_subscription_def)

text \<open>SUBSCRIBE and UNSUBSCRIBE change the session of their client only, and keep its marks.\<close>

lemma subscribe_loop_frame:
  assumes "subscribe_loop c user subs b codes dr = (b', codes', dr')"
  shows "mark cid b' = mark cid b \<and> (k \<noteq> c \<longrightarrow> hm_get (sessions b') k = hm_get (sessions b) k)"
  using assms
proof (induction subs arbitrary: b codes dr)
  case (Cons sub subs)
  let ?g = "qos_min (sub_qos sub) (max_qos (config b))"
  let ?stored = "sub\<lparr>sub_qos := ?g\<rparr>"
  show ?case
  proof (cases "valid_topic_filter (sub_topic_filter sub) \<and>
      authorize (auth b) user AclSubscribe (sub_topic_filter sub)")
    case False
    then show ?thesis using Cons.IH [of b] Cons.prems by (auto split: if_splits)
  next
    case True
    show ?thesis
    proof (cases "hm_get (sessions b) c")
      case None
      with True Cons.prems show ?thesis by (auto simp: Let_def dest!: Cons.IH)
    next
      case (Some s)
      obtain s' ex where s': "add_subscription s ?stored = (s', ex)" by fastforce
      with True Some Cons.prems mark_insert [OF Some add_subscription_frame [OF s']] show ?thesis
        by (auto simp: Let_def dest!: Cons.IH)
    qed
  qed
qed simp

lemma deliver_hits_frame:
  assumes "deliver_hits c g hits b acts = Some (b', acts')"
  shows "mark cid b' = mark cid b \<and> (k \<noteq> c \<longrightarrow> hm_get (sessions b') k = hm_get (sessions b) k)"
  using assms
proof (induction hits arbitrary: b acts)
  case (Cons h hits)
  obtain topic msg where h: "h = (topic, msg)" by fastforce
  show ?case
  proof (cases "hm_get (sessions b) c")
    case None
    with h Cons show ?thesis by (simp add: Let_def)
  next
    case (Some s)
    with h Cons.prems obtain s1 pid p acts1 where al: "alloc_id (qos_min (ret_qos msg) g) s = Some (s1, pid)"
      and rest: "deliver_hits c g hits (b\<lparr>sessions := hm_insert c (track p s1) (sessions b)\<rparr>) acts1 =
        Some (b', acts')"
      by (auto simp: Let_def bind_eq_Some_conv)
    have "mark cid (b\<lparr>sessions := hm_insert c (track p s1) (sessions b)\<rparr>) = mark cid b"
      using mark_insert [OF Some] alloc_id_frame [OF al] by simp
    with Cons.IH [OF rest] show ?thesis by simp
  qed
qed simp

lemma deliver_retained_frame:
  assumes "deliver_retained c drs b acts = Some (b', acts')"
  shows "mark cid b' = mark cid b \<and> (k \<noteq> c \<longrightarrow> hm_get (sessions b') k = hm_get (sessions b) k)"
  using assms
proof (induction drs arbitrary: b acts)
  case (Cons d drs)
  obtain f g where d: "d = (f, g)" by fastforce
  with Cons.prems obtain b1 acts1 where
    hits: "deliver_hits c g (retained_matching (retained b) f) b acts = Some (b1, acts1)"
    and rest: "deliver_retained c drs b1 acts1 = Some (b', acts')"
    by (auto simp: bind_eq_Some_conv)
  from deliver_hits_frame [OF hits, of cid k] Cons.IH [OF rest] show ?case by simp
qed simp

lemma on_subscribe_frame:
  assumes "on_subscribe b c s = Some (b', acts)"
  shows "mark cid b' = mark cid b" and "k \<noteq> c \<Longrightarrow> hm_get (sessions b') k = hm_get (sessions b) k"
proof -
  obtain b1 codes dr where loop: "subscribe_loop c (session_username b c) (s_subscriptions s) b [] [] = (b1, codes, dr)"
    by (cases "subscribe_loop c (session_username b c) (s_subscriptions s) b [] []") auto
  with assms obtain acts1 where "deliver_retained c dr b1 acts1 = Some (b', acts)"
    by (auto simp: on_subscribe_def Let_def)
  from subscribe_loop_frame [OF loop] deliver_retained_frame [OF this]
  show "mark cid b' = mark cid b" "k \<noteq> c \<Longrightarrow> hm_get (sessions b') k = hm_get (sessions b) k"
    by (metis (no_types))+
qed

lemma on_unsubscribe_frame:
  "mark cid (fst (on_unsubscribe b c u)) = mark cid b"
  "k \<noteq> c \<Longrightarrow> hm_get (sessions (fst (on_unsubscribe b c u))) k = hm_get (sessions b) k"
proof -
  have loop: "mark cid (fst (unsubscribe_loop c fs b codes)) = mark cid b \<and>
      (k \<noteq> c \<longrightarrow> hm_get (sessions (fst (unsubscribe_loop c fs b codes))) k = hm_get (sessions b) k)"
    for fs b codes
  proof (induction fs arbitrary: b codes)
    case (Cons f fs)
    show ?case
    proof (cases "hm_get (sessions b) c")
      case None
      with Cons show ?thesis by simp
    next
      case (Some s)
      obtain s' r where s': "remove_subscription s f = (s', r)" by fastforce
      with Cons Some mark_insert [OF Some remove_subscription_frame [OF s']] show ?thesis by simp
    qed
  qed simp
  then show "mark cid (fst (on_unsubscribe b c u)) = mark cid b"
    "k \<noteq> c \<Longrightarrow> hm_get (sessions (fst (on_unsubscribe b c u))) k = hm_get (sessions b) k"
    by (simp_all add: on_unsubscribe_def case_prod_unfold Let_def)
qed

text \<open>Routing gives every session what its subscriptions ask for and nothing else.\<close>

lemma route_session:
  assumes "hm_ok (sessions b)"
    and "route_publish b publisher topic q payload props ret = Some (b', n, acts)"
  shows "hm_get (sessions b) k = None \<Longrightarrow> hm_get (sessions b') k = None"
    and "hm_get (sessions b) k = Some s \<Longrightarrow>
      \<exists>s'. hm_get (sessions b') k = Some s' \<and> incoming_qos2 s' = incoming_qos2 s \<and>
        session_expiry_secs s' = session_expiry_secs s \<and> connected s' = connected s \<and>
        prefix (queued s) (queued s')"
proof -
  note eff = route_publish_effect(5) [OF assms, of k]
  show "hm_get (sessions b') k = None" if "hm_get (sessions b) k = None"
    using eff that by simp
  show "\<exists>s'. hm_get (sessions b') k = Some s' \<and> incoming_qos2 s' = incoming_qos2 s \<and>
      session_expiry_secs s' = session_expiry_secs s \<and> connected s' = connected s \<and>
      prefix (queued s) (queued s')" if s: "hm_get (sessions b) k = Some s"
  proof (cases "route_target publisher topic q (k, s)")
    case None
    with eff s show ?thesis by simp
  next
    case (Some t)
    with eff s obtain s' where s': "hm_get (sessions b') k = Some s'"
      and one: "deliver_one topic payload props (ret \<and> snd (snd t)) (fst (snd t)) s = Some (s', sent_to k acts)"
      by (cases t) (auto simp: experience_def)
    from s' deliver_one_frame [OF one] show ?thesis by blast
  qed
qed

lemma route_mark:
  assumes "hm_ok (sessions b)"
    and "route_publish b publisher topic q payload props ret = Some (b', n, acts)"
  shows "mark cid b' = mark cid b"
  using route_session [OF assms, of cid] by (cases "hm_get (sessions b) cid") (auto simp: mark_def)

section \<open>What one event can change of a session\<close>

lemma upd_session_get:
  "hm_get (sessions (upd_session b c f)) k =
     (if k = c then map_option f (hm_get (sessions b) c) else hm_get (sessions b) k)"
  by (auto simp: upd_session_def split: option.splits)

lemma detach_get:
  "hm_get (sessions (detach b c)) k =
     (if k = c
      then (case hm_get (sessions b) c of
              Some s \<Rightarrow> if session_expiry_secs s = 0 then None else Some (s\<lparr>connected := False\<rparr>)
            | None \<Rightarrow> None)
      else hm_get (sessions b) k)"
  by (cases "hm_get (sessions b) c") (auto simp: detach_def Let_def)

lemma acknowledge_get:
  "hm_get (sessions (fst (acknowledge b c p n acts))) k =
     (if k = c \<and> pub_qos p = ExactlyOnce \<and> pub_packet_id p \<noteq> None
      then map_option (\<lambda>s. s\<lparr>incoming_qos2 := insert (the (pub_packet_id p)) (incoming_qos2 s)\<rparr>)
             (hm_get (sessions b) c)
      else hm_get (sessions b) k)"
  by (cases "pub_qos p"; cases "pub_packet_id p") (simp_all add: acknowledge_def Let_def upd_session_get)

lemma retain_published_frame [simp]: "sessions (retain_published b p) = sessions b"
  by (simp add: retain_published_def)

text \<open>A PUBLISH is refused, or recognised as a repetition, or routed and acknowledged.\<close>

lemma on_publish_cases:
  assumes "on_publish b c p = Some (b', acts)"
  obtains
    (idle) "sessions b' = sessions b" "retained b' = retained b" "wills b' = wills b" "\<And>k. sent_to k acts = []"
      "\<not> valid_topic_name (pub_topic p) \<or> refused b c p \<or> duplicate_qos2 b c p"
  | (routed) b4 n acts4 where
      "route_publish (retain_published (observed b c p) p) (Some c) (pub_topic p) (pub_qos p)
         (pub_payload p) (pub_properties p) (pub_retain p) = Some (b4, n, acts4)"
      "(b', acts) = acknowledge b4 c p n acts4"
      "valid_topic_name (pub_topic p)" "\<not> refused b c p" "\<not> duplicate_qos2 b c p"
proof (cases "valid_topic_name (pub_topic p) \<and> \<not> refused b c p \<and> \<not> duplicate_qos2 b c p")
  case True
  with assms routed show ?thesis by (auto simp: on_publish_eq split: option.splits)
next
  case False
  with assms have "sessions b' = sessions b \<and> retained b' = retained b \<and> wills b' = wills b \<and>
      (\<forall>k. sent_to k acts = [])"
    by (auto simp: on_publish_eq split: if_splits)
  with False idle show ?thesis by blast
qed

text \<open>
  How routing and acknowledging treats one session: it stays, keeps its connection and expiry,
  remembers at least the same QoS 2 identifiers, and its queue only grows at the end.
\<close>

definition session_grows :: "Session \<Rightarrow> Session \<Rightarrow> bool" where
  "session_grows s s' \<longleftrightarrow> incoming_qos2 s \<subseteq> incoming_qos2 s' \<and>
     session_expiry_secs s' = session_expiry_secs s \<and> connected s' = connected s \<and>
     prefix (queued s) (queued s')"

lemma session_grows_refl [simp]: "session_grows s s"
  by (simp add: session_grows_def)

lemma on_publish_grows:
  assumes "on_publish b c p = Some (b', acts)" and "hm_ok (sessions b)"
    and "hm_get (sessions b) k = Some s"
  shows "\<exists>s'. hm_get (sessions b') k = Some s' \<and> session_grows s s'"
  using assms(1)
proof (cases rule: on_publish_cases)
  case idle
  with assms(3) show ?thesis by simp
next
  case (routed b4 n acts4)
  have "hm_ok (sessions (retain_published (observed b c p) p))"
    "hm_get (sessions (retain_published (observed b c p) p)) k = Some s"
    using assms(2,3) by simp_all
  from route_session(2) [OF this(1) routed(1) this(2)] obtain s4 where
    s4: "hm_get (sessions b4) k = Some s4" "session_grows s s4"
    by (auto simp: session_grows_def)
  have "b' = fst (acknowledge b4 c p n acts4)" by (simp flip: routed(2))
  with s4 show ?thesis by (auto simp: acknowledge_get session_grows_def)
qed

lemma mark_Some:
  "mark cid b = Some (A, e) \<longleftrightarrow>
     (\<exists>s. hm_get (sessions b) cid = Some s \<and> incoming_qos2 s = A \<and> session_expiry_secs s = e)"
  by (auto simp: mark_def)

lemma fold_track_expiry [simp]: "session_expiry_secs (fold track ps s) = session_expiry_secs s"
  by (induction ps arbitrary: s) simp_all

lemma connect_refused: "\<not> authenticate (auth b) (con_username c) (con_password c) \<Longrightarrow> fst (connect b c) = b"
  by (simp add: connect_def Let_def)

lemma connect_id_named: "\<not> starts_with cid ''auto-'' \<Longrightarrow> connect_id b c = cid \<Longrightarrow> con_client_id c = cid"
  by (auto simp: connect_id_def split: if_splits)

lemma connect_other:
  assumes "\<not> (authenticate (auth b) (con_username c) (con_password c) \<and> connect_id b c = k)"
  shows "hm_get (sessions (fst (connect b c))) k = hm_get (sessions b) k"
  using assms connect_refused [of b c] connect_sessions [of b c k]
  by (cases "authenticate (auth b) (con_username c) (con_password c)") simp_all

text \<open>The loss of a connection: the will is routed, then the session is detached.\<close>

lemma network_disconnect_grows:
  assumes "network_disconnect b c = Some (b', acts)" and "hm_ok (sessions b)"
    and "hm_get (sessions b) k = Some s"
  obtains s1 where "session_grows s s1"
    and "hm_get (sessions b') k =
      (if k \<noteq> c then Some s1 else if session_expiry_secs s = 0 then None else Some (s1\<lparr>connected := False\<rparr>))"
proof (cases "hm_get (wills b) c")
  case None
  with assms(1) have "b' = detach b c" by (simp add: network_disconnect_def)
  with assms(3) show ?thesis by (intro that [of s]) (auto simp: detach_get)
next
  case (Some w)
  let ?b1 = "b\<lparr>wills := hm_remove c (wills b)\<rparr>"
  let ?b2 = "if will_retain w \<and> retain_available (config ?b1)
    then ?b1\<lparr>retained := retained_apply (retained ?b1) (will_topic w)
      \<lparr>ret_payload = will_payload w, ret_qos = will_qos w, ret_properties = will_properties w\<rparr>\<rparr>
    else ?b1"
  obtain b3 n acts3 where route: "route_publish ?b2 (Some c) (will_topic w) (will_qos w) (will_payload w)
      (will_properties w) (will_retain w) = Some (b3, n, acts3)" and b': "b' = detach b3 c"
    using assms(1) Some by (auto simp: network_disconnect_def Let_def bind_eq_Some_conv)
  have "hm_ok (sessions ?b2)" "hm_get (sessions ?b2) k = Some s" using assms(2,3) by simp_all
  from route_session(2) [OF this(1) route this(2)] obtain s1 where
    "hm_get (sessions b3) k = Some s1" "session_grows s s1"
    by (auto simp: session_grows_def)
  then show ?thesis using b' by (intro that [of s1]) (auto simp: detach_get session_grows_def)
qed

section \<open>Remembering a half-received message\<close>

text \<open>
  The broker remembers that client \<open>cid\<close> sent message \<open>pid\<close>, in a session that outlives its
  connection. Only two events can make it forget: the PUBREL that ends the handshake, and a CONNECT
  of that client that asks for a new or a short-lived session.
\<close>

definition remembers :: "string \<Rightarrow> u16 \<Rightarrow> Broker \<Rightarrow> bool" where
  "remembers cid pid b \<longleftrightarrow>
     (case hm_get (sessions b) cid of
        Some s \<Rightarrow> pid \<in> incoming_qos2 s \<and> session_expiry_secs s \<noteq> 0
      | None \<Rightarrow> False)"

fun may_forget :: "string \<Rightarrow> u16 \<Rightarrow> broker_event \<Rightarrow> bool" where
  "may_forget cid pid (EvConnect c) \<longleftrightarrow>
     con_client_id c = cid \<and> (clean_start c \<or> session_expiry_from (con_properties c) = 0)"
| "may_forget cid pid (EvPacket c (PubRel r)) \<longleftrightarrow> c = cid \<and> ack_packet_id r = pid"
| "may_forget cid pid _ \<longleftrightarrow> False"

lemma remembers_mark: "remembers cid pid b \<longleftrightarrow> (\<exists>A e. mark cid b = Some (A, e) \<and> pid \<in> A \<and> e \<noteq> 0)"
  by (auto simp: remembers_def mark_def split: option.splits)

lemma remembers_get:
  "remembers cid pid b \<longleftrightarrow>
     (\<exists>s. hm_get (sessions b) cid = Some s \<and> pid \<in> incoming_qos2 s \<and> session_expiry_secs s \<noteq> 0)"
  by (auto simp: remembers_def split: option.splits)

lemma remembers_connect:
  assumes "remembers cid pid b" and "\<not> may_forget cid pid (EvConnect c)" and "\<not> starts_with cid ''auto-''"
  shows "remembers cid pid (fst (connect b c))"
proof (cases "authenticate (auth b) (con_username c) (con_password c) \<and> connect_id b c = cid")
  case False
  then have "hm_get (sessions (fst (connect b c))) cid = hm_get (sessions b) cid"
    by (rule connect_other)
  with assms(1) show ?thesis by (simp add: remembers_get)
next
  case True
  then have id: "con_client_id c = cid" using connect_id_named assms(3) by blast
  obtain s where s: "hm_get (sessions b) cid = Some s" "pid \<in> incoming_qos2 s"
    using assms(1) by (auto simp: remembers_get)
  then have "resumed b c = Some s" using assms(2) True id by (simp add: resumed_def)
  then have "incoming_qos2 (connected_session b c) = incoming_qos2 s"
    "session_expiry_secs (connected_session b c) = session_expiry_from (con_properties c)"
    by (simp_all add: connected_session_def bind_session_def)
  moreover have "hm_get (sessions (fst (connect b c))) cid = Some (connected_session b c)"
    using connect_sessions [of b c cid] True by simp
  ultimately show ?thesis using assms(2) id s by (simp add: remembers_get)
qed

lemma remembers_packet:
  assumes "remembers cid pid b" and "\<not> may_forget cid pid (EvPacket c pkt)"
    and "broker_handle b c pkt = Some (b', acts)" and "broker_wf b"
  shows "remembers cid pid b'"
proof (cases pkt)
  case (Subscribe s)
  with assms on_subscribe_frame(1) [of b c s b' acts cid] show ?thesis
    by (simp add: broker_handle_def remembers_mark)
next
  case (Unsubscribe u)
  with assms on_unsubscribe_frame(1) [of cid b c u] show ?thesis
    by (simp add: broker_handle_def remembers_mark)
next
  case (Publish p)
  with assms(3) have pub: "on_publish b c p = Some (b', acts)" by (simp add: broker_handle_def)
  from assms(1) obtain s where s: "hm_get (sessions b) cid = Some s" "pid \<in> incoming_qos2 s"
    "session_expiry_secs s \<noteq> 0"
    by (auto simp: remembers_get)
  from on_publish_grows [OF pub _ s(1)] assms(4) s(2,3) show ?thesis
    by (auto simp: remembers_get session_grows_def broker_wf_def)
next
  case (Disconnect d)
  with assms show ?thesis
    by (auto simp: broker_handle_def remembers_get on_disconnect_def Let_def detach_get)
qed (use assms in \<open>auto simp: broker_handle_def remembers_get upd_session_get\<close>)

lemma remembers_lost:
  assumes "remembers cid pid b" and "network_disconnect b c = Some (b', acts)" and "broker_wf b"
  shows "remembers cid pid b'"
proof -
  from assms(1) obtain s where s: "hm_get (sessions b) cid = Some s" "pid \<in> incoming_qos2 s"
    "session_expiry_secs s \<noteq> 0"
    by (auto simp: remembers_get)
  have ok: "hm_ok (sessions b)" using assms(3) by (simp add: broker_wf_def)
  obtain s1 where "session_grows s s1" and "hm_get (sessions b') cid =
      (if cid \<noteq> c then Some s1 else if session_expiry_secs s = 0 then None else Some (s1\<lparr>connected := False\<rparr>))"
    using network_disconnect_grows [OF assms(2) ok s(1)] .
  with s show ?thesis by (auto simp: remembers_get session_grows_def)
qed

lemma remembers_step:
  assumes "broker_step b e = Some (b', acts)" and "broker_wf b" and "remembers cid pid b"
    and "\<not> may_forget cid pid e" and "\<not> starts_with cid ''auto-''"
  shows "remembers cid pid b'"
proof (cases e)
  case (EvConnect c)
  with assms remembers_connect [of cid pid b c] show ?thesis by auto
next
  case (EvPacket c pkt)
  with assms remembers_packet show ?thesis by simp
next
  case (EvLost c)
  with assms remembers_lost show ?thesis by simp
qed

lemma remembers_run:
  "broker_run b es b' \<Longrightarrow> broker_wf b \<Longrightarrow> remembers cid pid b \<Longrightarrow> \<forall>e \<in> set es. \<not> may_forget cid pid e \<Longrightarrow>
     \<not> starts_with cid ''auto-'' \<Longrightarrow> remembers cid pid b'"
proof (induction rule: broker_run.induct)
  case (broker_snoc b es b' e b'' acts)
  then have "remembers cid pid b'" by simp
  with broker_snoc broker_wf_run [OF broker_snoc.hyps(1)] show ?case
    by (intro remembers_step [OF broker_snoc.hyps(2)]) simp_all
qed

text \<open>An accepted QoS 2 message is remembered.\<close>

lemma accepted_remembers:
  assumes "broker_wf b" and "hm_get (sessions b) cid = Some s" and "session_expiry_secs s \<noteq> 0"
    and "on_publish b cid p = Some (b1, acts)" and "pub_qos p = ExactlyOnce" and "pub_packet_id p = Some pid"
    and "valid_topic_name (pub_topic p)" and "\<not> refused b cid p"
  shows "remembers cid pid b1"
  using assms(4)
proof (cases rule: on_publish_cases)
  case idle
  with assms show ?thesis by (auto simp: remembers_get duplicate_qos2_def)
next
  case (routed b4 n acts4)
  have "hm_ok (sessions (retain_published (observed b cid p) p))"
    "hm_get (sessions (retain_published (observed b cid p) p)) cid = Some s"
    using assms(1,2) by (simp_all add: broker_wf_def)
  from route_session(2) [OF this(1) routed(1) this(2)] obtain s4 where
    s4: "hm_get (sessions b4) cid = Some s4" "session_expiry_secs s4 \<noteq> 0"
    using assms(3) by auto
  have "b1 = fst (acknowledge b4 cid p n acts4)" by (simp flip: routed(2))
  with s4 assms(5,6) show ?thesis by (simp add: remembers_get acknowledge_get)
qed

text \<open>A message whose identifier is remembered changes nothing and goes to nobody.\<close>

lemma remembered_idle:
  assumes "remembers cid pid b" and "pub_qos p = ExactlyOnce" and "pub_packet_id p = Some pid"
  shows "\<exists>b' r. on_publish b cid p = Some (b', [pubrec cid pid r]) \<and> sessions b' = sessions b \<and>
    retained b' = retained b \<and> wills b' = wills b"
proof -
  have "duplicate_qos2 b cid p" using assms by (auto simp: remembers_get duplicate_qos2_def)
  then show ?thesis using assms(2,3) by (auto simp: on_publish_eq ack_publish_error_def)
qed

section \<open>Delivery to one subscriber\<close>

lemma route_unwanted:
  assumes "hm_ok (sessions b)" and "hm_get (sessions b) cid = Some s"
    and "route_publish b publisher topic q payload props ret = Some (b', n, acts)"
    and "wanted publisher topic cid s = {}"
  shows "hm_get (sessions b') cid = Some s" "sent_to cid acts = []"
  using route_publish_effect(5) [OF assms(1,3), of cid] assms(2,4)
    route_target_None [of publisher topic q cid s] by simp_all

lemma route_wanted:
  assumes "hm_ok (sessions b)" and "hm_get (sessions b) cid = Some s"
    and "route_publish b publisher topic q payload props ret = Some (b', n, acts)"
    and "wanted publisher topic cid s \<noteq> {}"
  obtains best s' where "best \<in> sub_qos ` wanted publisher topic cid s"
    and "\<forall>sub \<in> wanted publisher topic cid s. qos_le (sub_qos sub) best"
    and "hm_get (sessions b') cid = Some s'"
    and "deliver_one topic payload props
      (ret \<and> (\<exists>sub \<in> wanted publisher topic cid s. retain_as_published sub)) (qos_min q best) s =
      Some (s', sent_to cid acts)"
proof -
  obtain t where "route_target publisher topic q (cid, s) = Some t"
    using assms(4) route_target_None [of publisher topic q cid s] by blast
  then obtain c qos rap where t: "route_target publisher topic q (cid, s) = Some (c, qos, rap)"
    by (cases t) auto
  from route_target_Some(2) [OF t] obtain best where best: "best \<in> sub_qos ` wanted publisher topic cid s"
    "\<forall>sub \<in> wanted publisher topic cid s. qos_le (sub_qos sub) best" "qos = qos_min q best"
    by blast
  from route_publish_effect(5) [OF assms(1,3), of cid] assms(2) t obtain s' where
    s': "hm_get (sessions b') cid = Some s'"
    "deliver_one topic payload props (ret \<and> rap) qos s = Some (s', sent_to cid acts)"
    by (auto simp: experience_def)
  from s'(2) [unfolded best(3) route_target_Some(3) [OF t]] show thesis
    using best(1,2) s'(1) by (intro that) simp_all
qed

text \<open>One delivery, spelled out.\<close>

lemma deliver_one_spec:
  assumes "deliver_one topic payload props ret qos s = Some (s', sent)"
  obtains pid where "pid = None \<longleftrightarrow> qos = AtMostOnce"
    and "\<And>i. pid = Some i \<Longrightarrow> i \<noteq> 0 \<and> \<not> id_in_use s i"
    and "sent = (if connected s then [outgoing topic payload props ret qos pid] else [])"
    and "queued s' = queued s @ (if connected s \<or> qos = AtMostOnce then []
      else [outgoing topic payload props ret qos pid])"
    and "outgoing_unacked s' = (if connected s \<and> qos \<noteq> AtMostOnce
      then (outgoing_unacked s)(the pid \<mapsto> outgoing topic payload props ret qos pid)
      else outgoing_unacked s)"
proof -
  obtain s1 pid where al: "alloc_id qos s = Some (s1, pid)"
    using assms by (auto simp: deliver_one_def split: option.splits)
  let ?pkt = "outgoing topic payload props ret qos pid"
  have pk: "pub_packet_id ?pkt = pid" by (simp add: outgoing_def)
  note alloc = alloc_id_Some(2) [OF al]
  have none: "pid = None \<longleftrightarrow> qos = AtMostOnce" using alloc by auto
  have unack: "outgoing_unacked s1 = outgoing_unacked s" using alloc by (auto dest: next_id_Some(1))
  have res: "(s', sent) = (if connected s then (track ?pkt s1, [?pkt])
      else if qos \<noteq> AtMostOnce then (s1\<lparr>queued := queued s1 @ [?pkt]\<rparr>, []) else (s1, []))"
    using assms al by (simp add: deliver_one_def Let_def)
  show thesis
  proof (rule that [of pid])
    show "pid = None \<longleftrightarrow> qos = AtMostOnce" by (fact none)
    show "i \<noteq> 0 \<and> \<not> id_in_use s i" if "pid = Some i" for i
      using alloc that by (auto simp: id_in_use_def dest: next_id_Some(2-4))
    show "sent = (if connected s then [?pkt] else [])" using res by (simp split: if_splits)
    show "queued s' = queued s @ (if connected s \<or> qos = AtMostOnce then [] else [?pkt])"
      using res alloc_id_frame(3) [OF al] by (simp split: if_splits)
    show "outgoing_unacked s' = (if connected s \<and> qos \<noteq> AtMostOnce
        then (outgoing_unacked s)(the pid \<mapsto> ?pkt) else outgoing_unacked s)"
      using res unack none pk by (cases pid) (auto simp: track_def split: if_splits)
  qed
qed

section \<open>Completion of routing\<close>

lemma alloc_id_defined: "\<exists>i. i \<noteq> 0 \<and> \<not> id_in_use s i \<Longrightarrow> \<exists>s' pid. alloc_id qos s = Some (s', pid)"
  using next_id_loop_defined [of "id_in_use s" "next_packet_id s"]
  by (auto simp: alloc_id_def next_id_def)

lemma route_loop_defined:
  assumes "distinct (map fst targets)"
    and "\<And>c s. c \<in> fst ` set targets \<Longrightarrow> hm_get ss c = Some s \<Longrightarrow> \<exists>i. i \<noteq> 0 \<and> \<not> id_in_use s i"
  shows "route_loop topic payload props ret targets ss acts d \<noteq> None"
  using assms
proof (induction targets arbitrary: ss acts d)
  case (Cons t targets)
  obtain c qos rap where t: "t = (c, qos, rap)" by (cases t) auto
  have IH: "route_loop topic payload props ret targets (hm_insert c x ss) acts' d' \<noteq> None" for x acts' d'
    using Cons.prems t by (intro Cons.IH) (auto split: if_splits)
  show ?case
  proof (cases "hm_get ss c")
    case None
    have "route_loop topic payload props ret targets ss acts (d + 1) \<noteq> None"
      using Cons.prems by (intro Cons.IH) auto
    with None t show ?thesis by simp
  next
    case (Some s)
    obtain s' pid where "alloc_id qos s = Some (s', pid)"
      using alloc_id_defined Cons.prems(2) [of c s] Some t by (metis fst_conv image_eqI list.set_intros(1))
    with Some t IH show ?thesis by (simp add: Let_def)
  qed
qed simp

lemma route_targets_keys:
  assumes "hm_ok (sessions b)"
  shows "distinct (map fst (List.map_filter (route_target publisher topic q) (sessions b)))"
    and "c \<in> fst ` set (List.map_filter (route_target publisher topic q) (sessions b)) \<Longrightarrow>
      hm_get (sessions b) c = Some s \<Longrightarrow> wanted publisher topic c s \<noteq> {}"
proof -
  have key: "fst x = k" if "route_target publisher topic q (k, v) = Some x" for k v x
    using that route_target_Some(1) by (cases x) auto
  show "distinct (map fst (List.map_filter (route_target publisher topic q) (sessions b)))"
    using key assms by (rule map_of_map_filter(2))
  assume c: "c \<in> fst ` set (List.map_filter (route_target publisher topic q) (sessions b))"
    and s: "hm_get (sessions b) c = Some s"
  have "map_of (List.map_filter (route_target publisher topic q) (sessions b)) c =
      map_option snd (route_target publisher topic q (c, s))"
    using map_of_map_filter(1) [OF key assms, where k = c] s by simp
  with c have "route_target publisher topic q (c, s) \<noteq> None"
    by (metis dom_map_of_conv_image_fst domIff option.map_disc_iff)
  then show "wanted publisher topic c s \<noteq> {}" by (simp add: route_target_None)
qed

section \<open>Messages that wait for an offline client\<close>

definition awaiting :: "string \<Rightarrow> PublishV5 list \<Rightarrow> Broker \<Rightarrow> bool" where
  "awaiting cid ps b \<longleftrightarrow>
     (\<exists>s. hm_get (sessions b) cid = Some s \<and> \<not> connected s \<and> session_expiry_secs s \<noteq> 0 \<and>
        prefix ps (queued s))"

fun silent :: "string \<Rightarrow> broker_event \<Rightarrow> bool" where
  "silent cid (EvConnect c) \<longleftrightarrow> con_client_id c \<noteq> cid"
| "silent cid (EvPacket c pkt) \<longleftrightarrow> c \<noteq> cid"
| "silent cid (EvLost c) \<longleftrightarrow> True"

lemma awaiting_grows:
  "awaiting cid ps b \<Longrightarrow>
     (\<And>s. hm_get (sessions b) cid = Some s \<Longrightarrow> \<exists>s'. hm_get (sessions b') cid = Some s' \<and> session_grows s s') \<Longrightarrow>
     awaiting cid ps b'"
  by (fastforce simp: awaiting_def session_grows_def intro: prefix_order.trans)

lemma awaiting_same:
  "awaiting cid ps b \<Longrightarrow> hm_get (sessions b') cid = hm_get (sessions b) cid \<Longrightarrow> awaiting cid ps b'"
  by (simp add: awaiting_def)

lemma awaiting_packet:
  assumes "awaiting cid ps b" and "broker_handle b c pkt = Some (b', acts)" and "broker_wf b" and "c \<noteq> cid"
  shows "awaiting cid ps b'"
proof (cases pkt)
  case (Subscribe s)
  with assms on_subscribe_frame(2) [of b c s b' acts cid] show ?thesis
    by (intro awaiting_same [OF assms(1)]) (simp add: broker_handle_def)
next
  case (Unsubscribe u)
  with assms on_unsubscribe_frame(2) [of cid c b u] show ?thesis
    by (intro awaiting_same [OF assms(1)]) (simp add: broker_handle_def)
next
  case (Publish p)
  with assms(2) have pub: "on_publish b c p = Some (b', acts)" by (simp add: broker_handle_def)
  from on_publish_grows [OF pub] assms(3) show ?thesis
    by (intro awaiting_grows [OF assms(1)]) (simp add: broker_wf_def)
next
  case (Disconnect d)
  with assms(2,4) show ?thesis
    by (intro awaiting_same [OF assms(1)]) (auto simp: broker_handle_def on_disconnect_def Let_def detach_get)
qed (use assms in \<open>auto simp: broker_handle_def awaiting_def upd_session_get\<close>)

lemma awaiting_lost:
  assumes "awaiting cid ps b" and "network_disconnect b c = Some (b', acts)" and "broker_wf b"
  shows "awaiting cid ps b'"
proof -
  from assms(1) obtain s where s: "hm_get (sessions b) cid = Some s" "session_expiry_secs s \<noteq> 0"
    "\<not> connected s" "prefix ps (queued s)"
    by (auto simp: awaiting_def)
  have ok: "hm_ok (sessions b)" using assms(3) by (simp add: broker_wf_def)
  obtain s1 where "session_grows s s1" and "hm_get (sessions b') cid =
      (if cid \<noteq> c then Some s1 else if session_expiry_secs s = 0 then None else Some (s1\<lparr>connected := False\<rparr>))"
    using network_disconnect_grows [OF assms(2) ok s(1)] .
  with s show ?thesis by (auto simp: awaiting_def session_grows_def intro: prefix_order.trans)
qed

lemma awaiting_step:
  assumes "broker_step b e = Some (b', acts)" and "broker_wf b" and "awaiting cid ps b"
    and "silent cid e" and "\<not> starts_with cid ''auto-''"
  shows "awaiting cid ps b'"
proof (cases e)
  case (EvConnect c)
  then have "connect_id b c \<noteq> cid" using connect_id_named assms(4,5) by auto
  with connect_other [of b c cid] EvConnect assms(1) show ?thesis
    by (intro awaiting_same [OF assms(3)]) auto
next
  case (EvPacket c pkt)
  with assms awaiting_packet show ?thesis by simp
next
  case (EvLost c)
  with assms awaiting_lost show ?thesis by simp
qed

lemma awaiting_run:
  "broker_run b es b' \<Longrightarrow> broker_wf b \<Longrightarrow> awaiting cid ps b \<Longrightarrow> \<forall>e \<in> set es. silent cid e \<Longrightarrow>
     \<not> starts_with cid ''auto-'' \<Longrightarrow> awaiting cid ps b'"
proof (induction rule: broker_run.induct)
  case (broker_snoc b es b' e b'' acts)
  then have "awaiting cid ps b'" by simp
  with broker_snoc broker_wf_run [OF broker_snoc.hyps(1)] show ?case
    by (intro awaiting_step [OF broker_snoc.hyps(2)]) simp_all
qed

lemma route_publish_defined:
  assumes "hm_ok (sessions b)"
    and "\<And>cid s. hm_get (sessions b) cid = Some s \<Longrightarrow> wanted publisher topic cid s \<noteq> {} \<Longrightarrow>
      \<exists>i. i \<noteq> 0 \<and> \<not> id_in_use s i"
  shows "route_publish b publisher topic q payload props ret \<noteq> None"
proof -
  let ?targets = "List.map_filter (route_target publisher topic q) (sessions b)"
  have "route_loop topic payload props ret ?targets (sessions b) [] 0 \<noteq> None"
    using route_targets_keys [OF assms(1)] assms(2) by (intro route_loop_defined) blast+
  then show ?thesis by (auto simp: route_publish_def Let_def)
qed

lemma on_publish_defined:
  assumes "hm_ok (sessions b)" and "\<And>cid s. hm_get (sessions b) cid = Some s \<Longrightarrow> \<exists>i. i \<noteq> 0 \<and> \<not> id_in_use s i"
  shows "on_publish b c p \<noteq> None"
proof -
  have "route_publish (retain_published (observed b c p) p) (Some c) (pub_topic p) (pub_qos p)
      (pub_payload p) (pub_properties p) (pub_retain p) \<noteq> None"
    using assms by (intro route_publish_defined) auto
  then show ?thesis by (auto simp: on_publish_eq)
qed

lemma on_publish_wills:
  assumes "on_publish b c p = Some (b', acts)" and "hm_ok (sessions b)"
  shows "wills b' = wills b"
  using assms(1)
proof (cases rule: on_publish_cases)
  case (routed b4 n acts4)
  have "hm_ok (sessions (retain_published (observed b c p) p))" using assms(2) by simp
  from route_publish_effect(3) [OF this routed(1)]
  have "wills b4 = wills (retain_published (observed b c p) p)"
    by (metis Broker.select_convs(5) Broker.surjective Broker.update_convs(4,7))
  moreover have "wills (fst (acknowledge b4 c p n acts4)) = wills b4"
    by (cases "pub_qos p"; cases "pub_packet_id p")
      (simp_all add: acknowledge_def Let_def upd_session_def split: option.splits)
  moreover have "b' = fst (acknowledge b4 c p n acts4)" by (simp flip: routed(2))
  ultimately show ?thesis by (simp add: retain_published_def)
qed

text \<open>A message above QoS 0 for an offline session is queued behind the others.\<close>

lemma offline_queued:
  assumes "hm_ok (sessions b)" and "hm_get (sessions b) cid = Some s" and "\<not> connected s"
    and "session_expiry_secs s \<noteq> 0"
    and "sub \<in> wanted publisher topic cid s" and "sub_qos sub \<noteq> AtMostOnce" and "q \<noteq> AtMostOnce"
    and "route_publish b publisher topic q payload props ret = Some (b', n, acts)"
  obtains pkt where "awaiting cid (queued s @ [pkt]) b'" and "pub_topic pkt = topic"
    and "pub_payload pkt = payload" and "pub_properties pkt = props" and "pub_qos pkt \<noteq> AtMostOnce"
proof -
  have "wanted publisher topic cid s \<noteq> {}" using assms(5) by blast
  then obtain best s' where best: "\<forall>sub \<in> wanted publisher topic cid s. qos_le (sub_qos sub) best"
    and s': "hm_get (sessions b') cid = Some s'"
    and one: "deliver_one topic payload props
      (ret \<and> (\<exists>sub \<in> wanted publisher topic cid s. retain_as_published sub)) (qos_min q best) s =
      Some (s', sent_to cid acts)"
    using route_wanted [OF assms(1,2,8)] by metis
  have nz: "qos_min q best \<noteq> AtMostOnce"
    using bspec [OF best assms(5)] assms(6,7)
    by (cases q; cases best; cases "sub_qos sub") (simp_all add: qos_min_def qos_le_def)
  obtain pkt where pkt: "queued s' = queued s @ [pkt]" "pub_topic pkt = topic" "pub_payload pkt = payload"
    "pub_properties pkt = props" "pub_qos pkt = qos_min q best"
    by (rule deliver_one_spec [OF one]) (simp add: assms(3) nz outgoing_def)
  have "awaiting cid (queued s @ [pkt]) b'"
    using s' pkt(1) assms(3,4) deliver_one_frame(2,3) [OF one] by (simp add: awaiting_def)
  with pkt nz show thesis by (intro that [of pkt]) simp_all
qed

section \<open>Example brokers\<close>

text \<open>An open broker with a connected sensor and an offline panel that follows everything under \<open>home\<close>.\<close>

definition demo_auth :: Authenticator where
  "demo_auth = set_default_allow (set_anonymous Authenticator_default True) True"

definition demo_sub :: SubscriptionV5 where
  "demo_sub = \<lparr>sub_topic_filter = ''home/#'', sub_qos = ExactlyOnce, no_local = False,
     retain_as_published = False, retain_handling = SendOnSubscribe\<rparr>"

definition demo_listener :: Session where
  "demo_listener = (Session_new ''panel'' 3600)\<lparr>subscriptions := [demo_sub]\<rparr>"

definition demo_sensor :: Session where
  "demo_sensor = (Session_new ''sensor'' 3600)\<lparr>connected := True\<rparr>"

definition demo_broker :: Broker where
  "demo_broker = (Broker_new BrokerConfig_default demo_auth)
     \<lparr>sessions := [(''panel'', demo_listener), (''sensor'', demo_sensor)]\<rparr>"

definition demo_message :: PublishV5 where
  "demo_message = \<lparr>pub_topic = ''home/door'', pub_qos = ExactlyOnce, pub_retain = False,
     pub_dup = False, pub_packet_id = Some 7, pub_properties = [], pub_payload = [1]\<rparr>"

definition demo_connect :: ConnectV5 where
  "demo_connect = \<lparr>con_client_id = ''panel'', clean_start = False, keep_alive_secs = 60,
     con_properties = [SessionExpiryInterval 3600], con_will = None, con_username = None, con_password = None\<rparr>"

lemmas demo_defs = demo_auth_def demo_sub_def demo_listener_def demo_sensor_def demo_broker_def
  demo_message_def demo_connect_def Broker_new_def Session_new_def BrokerConfig_default_def
  set_default_allow_def set_anonymous_def Authenticator_default_def

lemma demo_wanted: "wanted (Some c) ''home/door'' ''panel'' demo_listener = {demo_sub}"
  by (auto simp: wanted_def demo_defs topic_matches_def starts_with_def)

lemma demo_wf: "broker_wf demo_broker"
  by (auto simp: broker_wf_def session_wf_def demo_defs valid_topic_filter_def split: if_splits)

lemma demo_get:
  "hm_get (sessions demo_broker) ''panel'' = Some demo_listener"
  "hm_get (sessions demo_broker) ''sensor'' = Some demo_sensor"
  by (simp_all add: demo_broker_def)

lemma demo_free: "hm_get (sessions demo_broker) cid = Some s \<Longrightarrow> \<exists>i. i \<noteq> 0 \<and> \<not> id_in_use s i"
  by (intro exI [of _ 1]) (auto simp: demo_defs id_in_use_def split: if_splits)

lemma demo_routes: "\<exists>b n acts. route_publish demo_broker publisher topic q payload props ret = Some (b, n, acts)"
proof -
  have "route_publish demo_broker publisher topic q payload props ret \<noteq> None"
    using demo_wf demo_free by (intro route_publish_defined) (auto simp: broker_wf_def)
  then show ?thesis by (metis option.exhaust prod_cases3)
qed

section \<open>Properties of the broker\<close>

text \<open>
  C10. Exact delivery. When a message is routed, a session none of whose subscriptions wants it is
  left as it was and is sent nothing. Any other session gets the message exactly once, however many
  of its subscriptions overlap: at the lower of the published QoS and the highest QoS among the
  subscriptions that want it, with the topic, payload and properties unchanged, and with a packet
  identifier that is non-zero and not in use, exactly when the QoS is above 0. A connected client is
  sent it now (and it is filed as unacknowledged), an offline one finds it at the end of its queue
  unless it is QoS 0.
\<close>

theorem delivery_exact:
  assumes "hm_ok (sessions b)" and "hm_get (sessions b) cid = Some s"
    and "route_publish b publisher topic q payload props ret = Some (b', n, acts)"
  shows "if wanted publisher topic cid s = {}
    then hm_get (sessions b') cid = Some s \<and> sent_to cid acts = []
    else \<exists>best s' pid pkt. best \<in> sub_qos ` wanted publisher topic cid s \<and>
      (\<forall>sub \<in> wanted publisher topic cid s. qos_le (sub_qos sub) best) \<and>
      pkt = outgoing topic payload props
        (ret \<and> (\<exists>sub \<in> wanted publisher topic cid s. retain_as_published sub)) (qos_min q best) pid \<and>
      (pid = None \<longleftrightarrow> pub_qos pkt = AtMostOnce) \<and>
      (\<forall>i. pid = Some i \<longrightarrow> i \<noteq> 0 \<and> \<not> id_in_use s i) \<and>
      hm_get (sessions b') cid = Some s' \<and>
      sent_to cid acts = (if connected s then [pkt] else []) \<and>
      queued s' = queued s @ (if connected s \<or> pid = None then [] else [pkt]) \<and>
      outgoing_unacked s' = (if connected s \<and> pid \<noteq> None then (outgoing_unacked s)(the pid \<mapsto> pkt)
        else outgoing_unacked s)"
proof (cases "wanted publisher topic cid s = {}")
  case True
  with route_unwanted [OF assms True] show ?thesis by simp
next
  case False
  obtain best s' where best: "best \<in> sub_qos ` wanted publisher topic cid s"
      "\<forall>sub \<in> wanted publisher topic cid s. qos_le (sub_qos sub) best"
    and s': "hm_get (sessions b') cid = Some s'"
    and one: "deliver_one topic payload props
      (ret \<and> (\<exists>sub \<in> wanted publisher topic cid s. retain_as_published sub)) (qos_min q best) s =
      Some (s', sent_to cid acts)"
    using route_wanted [OF assms False] .
  show ?thesis
    unfolding if_not_P [OF False]
    by (rule deliver_one_spec [OF one], intro exI [of _ best] exI [of _ s'])
      (use best s' in \<open>auto simp: outgoing_def\<close>)
qed

theorem delivery_exact_witness:
  "\<exists>b n acts pid pkt s'. route_publish demo_broker (Some ''sensor'') ''home/door'' AtLeastOnce [1] [] False = Some (b, n, acts) \<and>
     pkt = outgoing ''home/door'' [1] [] False AtLeastOnce pid \<and>
     hm_get (sessions b) ''panel'' = Some s' \<and> queued s' = [pkt]"
proof -
  obtain b n acts where r: "route_publish demo_broker (Some ''sensor'') ''home/door'' AtLeastOnce [1] [] False = Some (b, n, acts)"
    using demo_routes by blast
  have ok: "hm_ok (sessions demo_broker)" using demo_wf by (simp add: broker_wf_def)
  have off: "\<not> connected demo_listener" "queued demo_listener = []" "sub_qos demo_sub = ExactlyOnce"
    "retain_as_published demo_sub = False"
    by (simp_all add: demo_defs)
  have m: "qos_min AtLeastOnce ExactlyOnce = AtLeastOnce" by (simp add: qos_min_def)
  obtain s' pid where "hm_get (sessions b) ''panel'' = Some s'"
    and "queued s' = [outgoing ''home/door'' [1] [] False AtLeastOnce pid]"
    using delivery_exact [OF ok demo_get(1) r] by (auto simp: demo_wanted off m outgoing_def)
  with r show ?thesis by blast
qed

text \<open>
  Routing completes. If every session that wants a message has a free packet identifier left,
  \<open>route_publish\<close> returns, and the count it returns is the number of those sessions, connected or
  not. The hypothesis is what keeps the identifier search of each session from running forever.
\<close>

theorem route_completes:
  assumes "hm_ok (sessions b)"
    and "\<And>cid s. hm_get (sessions b) cid = Some s \<Longrightarrow> wanted publisher topic cid s \<noteq> {} \<Longrightarrow>
      \<exists>i. i \<noteq> 0 \<and> \<not> id_in_use s i"
  shows "\<exists>b' acts. route_publish b publisher topic q payload props ret =
    Some (b', card {cid. \<exists>s. hm_get (sessions b) cid = Some s \<and> wanted publisher topic cid s \<noteq> {}}, acts)"
proof -
  have "route_publish b publisher topic q payload props ret \<noteq> None"
    using assms by (rule route_publish_defined)
  then obtain b' n acts where r: "route_publish b publisher topic q payload props ret = Some (b', n, acts)"
    by auto
  with route_publish_effect(4) [OF assms(1) r] show ?thesis by simp
qed

theorem route_completes_witness:
  "\<exists>b n acts. route_publish demo_broker (Some ''sensor'') ''home/door'' ExactlyOnce [1] [] False = Some (b, n, acts)"
proof -
  have ok: "hm_ok (sessions demo_broker)" using demo_wf by (simp add: broker_wf_def)
  have "\<exists>b acts. route_publish demo_broker (Some ''sensor'') ''home/door'' ExactlyOnce [1] [] False =
      Some (b, card {cid. \<exists>s. hm_get (sessions demo_broker) cid = Some s \<and>
        wanted (Some ''sensor'') ''home/door'' cid s \<noteq> {}}, acts)"
    by (rule route_completes [OF ok]) (rule demo_free)
  then show ?thesis by blast
qed

text \<open>
  C11. Broker invariant. After any sequence of connections, packets and lost connections from any
  clients, in any order: client maps have unique keys; every session has one subscription per
  filter, each valid and granted at most the broker's maximum QoS; every unacknowledged or queued
  message is above QoS 0, within the maximum QoS, and carries the non-zero identifier it is filed
  under; a session without a connection has a non-zero expiry; and no retained message is empty.
\<close>

theorem broker_invariant:
  assumes "broker_run (Broker_new cfg a) es b"
  shows "broker_wf b"
  using broker_wf_run [OF assms broker_wf_new] .

theorem broker_invariant_witness:
  "broker_wf (fst (connect (Broker_new BrokerConfig_default demo_auth) demo_connect))"
proof -
  let ?b = "Broker_new BrokerConfig_default demo_auth"
  have "broker_run ?b ([] @ [EvConnect demo_connect]) (fst (connect ?b demo_connect))"
    by (rule broker_snoc [OF broker_nil, where acts = "snd (connect ?b demo_connect)"]) simp
  then show ?thesis by (rule broker_invariant)
qed

text \<open>
  C12. Exactly once. Take a QoS 2 message that a well-formed broker accepted from a client whose session
  outlives its connection and whose identifier does not begin with \<open>auto-\<close>. Whatever happens next -
  other clients' traffic, lost connections, disconnects, and reconnects of that client that resume the
  session - a PUBLISH with the same identifier is answered with a PUBREC and has no other effect, until
  the client releases the identifier with PUBREL or gives up the session: nobody is sent anything, and
  sessions, retained messages and wills stay as they are. An identifier that begins with \<open>auto-\<close> is
  excluded because the broker may hand it, and its session, to a client that connects without one.
\<close>

theorem qos2_exactly_once:
  assumes "broker_wf b" and "hm_get (sessions b) cid = Some s" and "session_expiry_secs s \<noteq> 0"
    and "pub_qos p = ExactlyOnce" and "pub_packet_id p = Some pid"
    and "valid_topic_name (pub_topic p)" and "\<not> refused b cid p"
    and "on_publish b cid p = Some (b1, acts)"
    and "broker_run b1 es b2" and "\<forall>e \<in> set es. \<not> may_forget cid pid e" and "\<not> starts_with cid ''auto-''"
    and "pub_qos p2 = ExactlyOnce" and "pub_packet_id p2 = Some pid"
  shows "\<exists>b3 r. on_publish b2 cid p2 = Some (b3, [pubrec cid pid r]) \<and> sessions b3 = sessions b2 \<and>
    retained b3 = retained b2 \<and> wills b3 = wills b2"
proof -
  have "remembers cid pid b1" using accepted_remembers [OF assms(1-3,8,4-7)] .
  moreover have "broker_wf b1" using broker_wf_publish [OF assms(8,1)] .
  ultimately have "remembers cid pid b2" using remembers_run [OF assms(9)] assms(10,11) by blast
  then show ?thesis using assms(12,13) by (rule remembered_idle)
qed

lemma demo_publish:
  "\<exists>b acts. on_publish demo_broker ''sensor'' demo_message = Some (b, acts)"
  "\<not> refused demo_broker ''sensor'' demo_message" "valid_topic_name (pub_topic demo_message)"
proof -
  show "\<not> refused demo_broker ''sensor'' demo_message"
    by (simp add: refused_def demo_defs authorize_def)
  show "valid_topic_name (pub_topic demo_message)"
    by (simp add: demo_defs valid_topic_name_def)
  show "\<exists>b acts. on_publish demo_broker ''sensor'' demo_message = Some (b, acts)"
    using on_publish_defined [of demo_broker] demo_wf demo_free
    by (metis broker_wf_def option.exhaust surj_pair)
qed

theorem qos2_exactly_once_witness:
  "\<exists>b1 b2 acts b3 r. on_publish demo_broker ''sensor'' demo_message = Some (b1, acts) \<and>
     network_disconnect b1 ''sensor'' = Some (b2, []) \<and>
     on_publish b2 ''sensor'' demo_message = Some (b3, [pubrec ''sensor'' 7 r]) \<and> sessions b3 = sessions b2"
proof -
  obtain b1 acts where p: "on_publish demo_broker ''sensor'' demo_message = Some (b1, acts)"
    using demo_publish(1) by blast
  have ok: "hm_ok (sessions demo_broker)" using demo_wf by (simp add: broker_wf_def)
  have "wills demo_broker = []" by (simp add: demo_defs)
  then have lost: "network_disconnect b1 ''sensor'' = Some (detach b1 ''sensor'', [])"
    using on_publish_wills [OF p ok] by (simp add: network_disconnect_def)
  have run: "broker_run b1 ([] @ [EvLost ''sensor'']) (detach b1 ''sensor'')"
    by (rule broker_snoc [OF broker_nil, where acts = "[]"]) (simp add: lost)
  have msg: "pub_qos demo_message = ExactlyOnce" "pub_packet_id demo_message = Some 7"
    "session_expiry_secs demo_sensor \<noteq> 0"
    by (simp_all add: demo_defs)
  have "\<exists>b3 r. on_publish (detach b1 ''sensor'') ''sensor'' demo_message = Some (b3, [pubrec ''sensor'' 7 r]) \<and>
      sessions b3 = sessions (detach b1 ''sensor'') \<and> retained b3 = retained (detach b1 ''sensor'') \<and>
      wills b3 = wills (detach b1 ''sensor'')"
    by (rule qos2_exactly_once [OF demo_wf demo_get(2) msg(3,1,2) demo_publish(3,2) p run _ _ msg(1,2)])
      simp_all
  with p lost show ?thesis by blast
qed

text \<open>
  C13. A well-formed broker loses nothing for an offline client whose identifier is not empty and does not begin with
  \<open>auto-\<close>. A message above QoS 0 that matches a subscription above QoS 0 of its offline session is sent
  to that client when it next resumes the session (it is authenticated and does not ask for a clean
  start), after everything that was queued before it, whatever the other clients do in between -
  connect, publish, subscribe, disconnect, lose their connections. Identifiers that begin with \<open>auto-\<close>
  are excluded because the broker may hand such a session to a client that connects without an identifier.
\<close>

theorem offline_message_kept:
  assumes "broker_wf b" and "hm_get (sessions b) cid = Some s" and "\<not> connected s"
    and "sub \<in> wanted publisher topic cid s" and "sub_qos sub \<noteq> AtMostOnce" and "q \<noteq> AtMostOnce"
    and "route_publish b publisher topic q payload props ret = Some (b1, n, acts)"
    and "broker_run b1 es b2" and "\<forall>e \<in> set es. silent cid e"
    and "cid \<noteq> []" and "\<not> starts_with cid ''auto-''"
    and "con_client_id c = cid" and "\<not> clean_start c"
    and "authenticate (auth b2) (con_username c) (con_password c)"
  shows "\<exists>pkt later. sent_to cid (snd (connect b2 c)) = queued s @ pkt # later \<and> pub_topic pkt = topic \<and>
    pub_payload pkt = payload \<and> pub_properties pkt = props \<and> pub_qos pkt \<noteq> AtMostOnce"
proof -
  have ok: "hm_ok (sessions b)" and exp: "session_expiry_secs s \<noteq> 0"
    using assms(1) broker_wf_session [OF assms(1,2)] assms(3) by (simp_all add: broker_wf_def session_wf_def)
  obtain pkt where pkt: "awaiting cid (queued s @ [pkt]) b1" "pub_topic pkt = topic"
    "pub_payload pkt = payload" "pub_properties pkt = props" "pub_qos pkt \<noteq> AtMostOnce"
    using offline_queued [OF ok assms(2,3) exp assms(4-7)] .
  have "awaiting cid (queued s @ [pkt]) b2"
    using awaiting_run [OF assms(8) broker_wf_route [OF assms(1,7)] pkt(1) assms(9,11)] .
  then obtain s2 later where s2: "hm_get (sessions b2) cid = Some s2" "queued s2 = queued s @ pkt # later"
    by (auto simp: awaiting_def prefix_def)
  have "connect_id b2 c = cid" using assms(10,12) by (simp add: connect_id_def)
  then have "sent_to cid (snd (connect b2 c)) = queued s2"
    using connect_sends [OF assms(14), of cid] s2(1) assms(13) by (simp add: resumed_def bind_session_def)
  with s2(2) pkt(2-5) show ?thesis by auto
qed

theorem offline_message_kept_witness:
  "\<exists>b1 n acts pkt later. route_publish demo_broker (Some ''sensor'') ''home/door'' AtLeastOnce [1] [] False = Some (b1, n, acts) \<and>
     sent_to ''panel'' (snd (connect b1 demo_connect)) = pkt # later \<and> pub_payload pkt = [1]"
proof -
  obtain b1 n acts where r: "route_publish demo_broker (Some ''sensor'') ''home/door'' AtLeastOnce [1] [] False = Some (b1, n, acts)"
    using demo_routes by blast
  have ok: "hm_ok (sessions demo_broker)" using demo_wf by (simp add: broker_wf_def)
  have off: "\<not> connected demo_listener" "queued demo_listener = []" "sub_qos demo_sub \<noteq> AtMostOnce"
    "demo_sub \<in> wanted (Some ''sensor'') ''home/door'' ''panel'' demo_listener"
    by (simp_all add: demo_wanted) (simp_all add: demo_defs)
  have "auth b1 = auth demo_broker"
    using route_publish_effect(3) [OF ok r] by (metis Broker.select_convs(2) Broker.surjective Broker.update_convs(4,7))
  then have au: "authenticate (auth b1) (con_username demo_connect) (con_password demo_connect)"
    by (simp add: authenticate_def demo_defs)
  have "\<exists>pkt later. sent_to ''panel'' (snd (connect b1 demo_connect)) = queued demo_listener @ pkt # later \<and>
      pub_topic pkt = ''home/door'' \<and> pub_payload pkt = [1] \<and> pub_properties pkt = [] \<and> pub_qos pkt \<noteq> AtMostOnce"
    by (rule offline_message_kept [OF demo_wf demo_get(1) off(1,4,3) _ r broker_nil _ _ _ _ _ au])
      (simp_all add: demo_connect_def)
  with r off(2) show ?thesis by auto
qed

text \<open>
  C14. Packet identifiers. \<open>next_id\<close> fails to return exactly when all 65535 non-zero identifiers of
  the session are in flight; otherwise it yields one that is non-zero and neither unacknowledged nor
  in the release phase, and changes nothing of the session but the position of the search.
\<close>

theorem packet_ids_fresh:
  "(next_id s = None \<longleftrightarrow> (\<forall>i. i \<noteq> 0 \<longrightarrow> outgoing_unacked s i \<noteq> None \<or> i \<in> outgoing_pubrel s)) \<and>
   (\<forall>s' i. next_id s = Some (s', i) \<longrightarrow> i \<noteq> 0 \<and> outgoing_unacked s i = None \<and> i \<notin> outgoing_pubrel s \<and>
      s' = s\<lparr>next_packet_id := i\<rparr>)"
proof (intro conjI allI impI)
  show "next_id s = None \<longleftrightarrow> (\<forall>i. i \<noteq> 0 \<longrightarrow> outgoing_unacked s i \<noteq> None \<or> i \<in> outgoing_pubrel s)"
    using next_id_loop_defined [of "id_in_use s" "next_packet_id s"]
    by (auto simp: next_id_def id_in_use_def split: option.splits)
qed (use next_id_Some in blast)+

theorem packet_ids_fresh_witness: "next_id demo_sensor \<noteq> None"
proof -
  have "outgoing_unacked demo_sensor 1 = None" "(1::u16) \<notin> outgoing_pubrel demo_sensor" "(1::u16) \<noteq> 0"
    by (simp_all add: demo_defs)
  with packet_ids_fresh [of demo_sensor] show ?thesis by blast
qed

text \<open>
  A rejected PUBLISH is harmless. A message with an invalid topic name, one the automation hook
  vetoes, or one its sender may not publish is answered with an error acknowledgement at QoS 1 and 2
  and not at all at QoS 0, reaches nobody, and leaves sessions, retained messages and wills alone.
\<close>

theorem rejected_publish_harmless:
  assumes "\<not> valid_topic_name (pub_topic p) \<or> refused b cid p"
  shows "\<exists>b'. on_publish b cid p =
      Some (b', ack_publish_error cid p (if valid_topic_name (pub_topic p) then NotAuthorized else TopicNameInvalid)) \<and>
    sessions b' = sessions b \<and> retained b' = retained b \<and> wills b' = wills b"
  using assms by (auto simp: on_publish_eq)

theorem rejected_publish_harmless_witness:
  "\<exists>b'. on_publish demo_broker ''sensor'' (demo_message\<lparr>pub_topic := ''home/+''\<rparr>) =
       Some (b', [pubrec ''sensor'' 7 TopicNameInvalid]) \<and> sessions b' = sessions demo_broker"
proof -
  let ?p = "demo_message\<lparr>pub_topic := ''home/+''\<rparr>"
  have bad: "\<not> valid_topic_name (pub_topic ?p)" by (simp add: valid_topic_name_def)
  have "ack_publish_error ''sensor'' ?p TopicNameInvalid = [pubrec ''sensor'' 7 TopicNameInvalid]"
    by (simp add: ack_publish_error_def demo_message_def)
  with rejected_publish_harmless [of ?p demo_broker "''sensor''"] bad show ?thesis by auto
qed

text \<open>
  A gap in the subscription rules. Access rules match the requested filter as if it were a
  topic. For any literal path \<open>p\<close>, a user who may subscribe to \<open>p/+\<close> only is also allowed to
  subscribe to \<open>p/#\<close>, which receives everything below \<open>p\<close>, although subscribing to any topic two
  levels below \<open>p\<close> by name is refused.
\<close>

theorem acl_wildcard_gap:
  assumes "wildcard_free p" and "CHR ''/'' \<notin> set x"
  shows "let a = acl_allow Authenticator_default u AclSubscribe (p @ ''/+'') in
    authorize a (Some u) AclSubscribe (p @ ''/#'') \<and>
    \<not> authorize a (Some u) AclSubscribe (p @ ''/'' @ x @ ''/'' @ y) \<and>
    topic_matches (p @ ''/#'') (p @ ''/'' @ x @ ''/'' @ y)"
proof -
  have rule: "authorize (acl_allow Authenticator_default u AclSubscribe (p @ ''/+'')) (Some u) AclSubscribe t \<longleftrightarrow>
      topic_matches (p @ ''/+'') t" for t
    by (simp add: authorize_def acl_allow_def push_rule_def Authenticator_default_def rule_applies_def)
  have plus: "topic_matches (p @ ''/+'') t \<longleftrightarrow> (\<exists>z. CHR ''/'' \<notin> set z \<and> t = p @ ''/'' @ z)" for t
    using assms(1) by (rule topic_matches_children)
  have "topic_matches (p @ ''/#'') t \<longleftrightarrow> t = p \<or> (\<exists>r. t = p @ ''/'' @ r)" for t
    using assms(1) by (rule topic_matches_below)
  with rule plus show ?thesis by (auto simp: Let_def)
qed

theorem acl_wildcard_gap_witness:
  "authorize (acl_allow Authenticator_default ''guest'' AclSubscribe ''home/+'') (Some ''guest'') AclSubscribe ''home/#''"
  using acl_wildcard_gap [of "''home''" "''a''" "''guest''" "''b''"]
  by (simp add: wildcard_free_def Let_def)

end
