(* ===== verification/Mqtt_Wire.thy ===== *)
theory Mqtt_Wire
  imports Mqtt_Packet
begin

text \<open>
  The wire primitives of the MQTT codec: the variable byte integer of
  \<open>cave-home-mqtt/src/codec.rs\<close> and the cursor functions of \<open>v5/wire.rs\<close>.

  A decoder over the cursor \<open>&mut &[u8]\<close> is a function from the bytes left to an error or the value
  with the bytes left after it. An encoder into a \<open>BytesMut\<close> yields an error or the bytes it appends.
  The locale \<open>codec\<close> is what a pair of them promises; it is interpreted here for every primitive, and
  by the property and packet codecs for their own pairs.
\<close>

section \<open>Errors\<close>

datatype PacketType =
    PT_Connect | PT_ConnAck | PT_Publish | PT_PubAck | PT_PubRec | PT_PubRel | PT_PubComp
  | PT_Subscribe | PT_SubAck | PT_Unsubscribe | PT_UnsubAck | PT_PingReq | PT_PingResp | PT_Disconnect

datatype CodecError =
    CE_Underflow nat
  | CE_VarIntTooLong
  | CE_UnknownPacketType u8
  | CE_BadQoS u8
  | CE_BadProtocolName string
  | CE_BadProtocolLevel u8
  | CE_BadConnAckCode u8
  | CE_BadUtf8
  | CE_MissingPacketId
  | CE_UnsupportedInPhase1 PacketType
  | CE_BadReservedFlags u8
  | CE_EmptySubscription
  | CE_BadSubAckCode u8
  | CE_UnexpectedPayload

text \<open>
  The text of a \<open>Malformed\<close> error: a literal of the source, or the display text of a codec error,
  which stands for that error.
\<close>

datatype Message = Literal string | DisplayOf CodecError

datatype Error =
    Underflow nat
  | VarIntTooLong
  | BadUtf8
  | UnknownProperty u8
  | DuplicateProperty u8
  | PropertyLengthMismatch nat nat
  | ZeroSubscriptionId
  | Malformed Message
  | BadReasonCode string u8
  | BadProtocolLevel u8
  | BadQoS u8
  | BadProtocolName string

fun Error_from :: "CodecError \<Rightarrow> Error" where
  "Error_from (CE_Underflow needed) = Underflow needed"
| "Error_from CE_VarIntTooLong = VarIntTooLong"
| "Error_from CE_BadUtf8 = BadUtf8"
| "Error_from (CE_BadQoS q) = BadQoS q"
| "Error_from e = Malformed (DisplayOf e)"

section \<open>Sequencing\<close>

type_synonym 'a dec = "u8 list \<Rightarrow> Error + 'a \<times> u8 list"
type_synonym enc = "Error + u8 list"

text \<open>The \<open>?\<close> operator between two reads, between two writes, and the final \<open>Ok\<close>.\<close>

definition dec_then :: "'a dec \<Rightarrow> ('a \<Rightarrow> 'b dec) \<Rightarrow> 'b dec" where
  "dec_then d f buf = (case d buf of Inl e \<Rightarrow> Inl e | Inr (x, rest) \<Rightarrow> f x rest)"

definition dec_ok :: "'a \<Rightarrow> 'a dec" where
  "dec_ok x buf = Inr (x, buf)"

definition dec_fail :: "Error \<Rightarrow> 'a dec" where
  "dec_fail e buf = Inl e"

definition enc_then :: "enc \<Rightarrow> enc \<Rightarrow> enc" where
  "enc_then a b = (case a of Inl e \<Rightarrow> Inl e | Inr x \<Rightarrow> (case b of Inl e \<Rightarrow> Inl e | Inr y \<Rightarrow> Inr (x @ y)))"

fun enc_seq :: "enc list \<Rightarrow> enc" where
  "enc_seq [] = Inr []"
| "enc_seq (a # as) = enc_then a (enc_seq as)"

lemma dec_simps [simp]:
  "dec_ok x buf = Inr (x, buf)" "dec_fail e buf = Inl e"
  by (simp_all add: dec_ok_def dec_fail_def)

lemma dec_then_Inr [simp]: "d buf = Inr (x, rest) \<Longrightarrow> dec_then d f buf = f x rest"
  by (simp add: dec_then_def)

lemma dec_then_eq_Inr:
  "dec_then d f buf = Inr r \<longleftrightarrow> (\<exists>x rest. d buf = Inr (x, rest) \<and> f x rest = Inr r)"
  by (auto simp: dec_then_def split: sum.splits)

lemma result_bind_Inr: "(case e of Inl x \<Rightarrow> Inl x | Inr y \<Rightarrow> f y) = Inr r \<longleftrightarrow> (\<exists>y. e = Inr y \<and> f y = Inr r)"
  by (cases e) auto

lemma enc_then_Inr [simp]: "enc_then a b = Inr bs \<longleftrightarrow> (\<exists>x y. a = Inr x \<and> b = Inr y \<and> bs = x @ y)"
  by (auto simp: enc_then_def split: sum.splits)

section \<open>Variable byte integers\<close>

lemma drop_7_less: "drop_bit 7 x \<noteq> 0 \<Longrightarrow> unat (drop_bit 7 x) < unat x" for x :: u32
proof -
  assume nz: "drop_bit 7 x \<noteq> 0"
  have eq: "unat (drop_bit 7 x) = unat x div 128" by (simp add: drop_bit_eq_div unat_div)
  moreover have "unat x \<noteq> 0" using nz by (auto simp: unat_eq_zero)
  ultimately show "unat (drop_bit 7 x) < unat x" by simp
qed

function encode_var_int_loop :: "u32 \<Rightarrow> nat \<Rightarrow> CodecError + u8 list" where
  "encode_var_int_loop x written =
     (let byte = ucast (x AND 0x7f) :: u8;
          x' = drop_bit 7 x;
          byte' = (if x' > 0 then byte OR 0x80 else byte);
          written' = written + 1
      in if x' = 0 then Inr [byte']
         else if written' = 4 then Inl CE_VarIntTooLong
         else (case encode_var_int_loop x' written' of
                 Inl e \<Rightarrow> Inl e
               | Inr bs \<Rightarrow> Inr (byte' # bs)))"
  by pat_completeness auto
termination by (relation "measure (\<lambda>(x, _). unat x)") (auto intro: drop_7_less)

declare encode_var_int_loop.simps [simp del]

definition encode_var_int :: "u32 \<Rightarrow> CodecError + u8 list" where
  "encode_var_int value = encode_var_int_loop value 0"

fun decode_var_int_loop :: "u8 list \<Rightarrow> u32 \<Rightarrow> u32 \<Rightarrow> nat \<Rightarrow> (u32 \<times> nat) option" where
  "decode_var_int_loop [] value multiplier i = None"
| "decode_var_int_loop (byte # bytes) value multiplier i =
     (let value' = value + ucast (byte AND 0x7f) * multiplier in
      if byte AND 0x80 = 0 then Some (value', i + 1)
      else decode_var_int_loop bytes value' (multiplier * 128) (i + 1))"

definition decode_var_int :: "u8 list \<Rightarrow> CodecError + u32 \<times> nat" where
  "decode_var_int input =
     (case decode_var_int_loop (take 4 input) 0 1 0 of
        Some r \<Rightarrow> Inr r
      | None \<Rightarrow> (if length input < 4 then Inl (CE_Underflow (4 - length input)) else Inl CE_VarIntTooLong))"

section \<open>Cursor functions\<close>

definition get_u8 :: "u8 dec" where
  "get_u8 buf = (case buf of [] \<Rightarrow> Inl (Underflow 1) | v # rest \<Rightarrow> Inr (v, rest))"

definition get_u16 :: "u16 dec" where
  "get_u16 buf =
     (if length buf < 2 then Inl (Underflow (2 - length buf))
      else Inr (u16_from_be_bytes (buf ! 0) (buf ! 1), drop 2 buf))"

definition get_u32 :: "u32 dec" where
  "get_u32 buf =
     (if length buf < 4 then Inl (Underflow (4 - length buf))
      else Inr (u32_from_be_bytes (buf ! 0) (buf ! 1) (buf ! 2) (buf ! 3), drop 4 buf))"

definition get_var_int :: "u32 dec" where
  "get_var_int buf =
     (case decode_var_int buf of
        Inl e \<Rightarrow> Inl (Error_from e)
      | Inr (value, consumed) \<Rightarrow> Inr (value, drop consumed buf))"

definition get_string :: "string dec" where
  "get_string =
     dec_then get_u16 (\<lambda>len buf.
       if length buf < unat len then Inl (Underflow (unat len - length buf))
       else if \<not> utf8_valid (take (unat len) buf) then Inl BadUtf8
       else Inr (of_bytes (take (unat len) buf), drop (unat len) buf))"

definition get_binary :: "u8 list dec" where
  "get_binary =
     dec_then get_u16 (\<lambda>len buf.
       if length buf < unat len then Inl (Underflow (unat len - length buf))
       else Inr (take (unat len) buf, drop (unat len) buf))"

definition put_u8 :: "u8 \<Rightarrow> enc" where
  "put_u8 v = Inr [v]"

definition put_u16 :: "u16 \<Rightarrow> enc" where
  "put_u16 v = Inr (u16_to_be_bytes v)"

definition put_u32 :: "u32 \<Rightarrow> enc" where
  "put_u32 v = Inr (u32_to_be_bytes v)"

definition put_var_int :: "u32 \<Rightarrow> enc" where
  "put_var_int v = (case encode_var_int v of Inl e \<Rightarrow> Inl (Error_from e) | Inr bs \<Rightarrow> Inr bs)"

definition put_string :: "string \<Rightarrow> enc" where
  "put_string s =
     (if length s > 65535 then Inl (Malformed (Literal ''string exceeds 65535 bytes''))
      else Inr (u16_to_be_bytes (of_nat (length s)) @ as_bytes s))"

definition put_binary :: "u8 list \<Rightarrow> enc" where
  "put_binary b =
     (if length b > 65535 then Inl (Malformed (Literal ''binary exceeds 65535 bytes''))
      else Inr (u16_to_be_bytes (of_nat (length b)) @ b))"

section \<open>The contract of a codec\<close>

text \<open>
  An encoder and a decoder belong together when decoding what was encoded gives the value back and
  leaves whatever follows untouched (for the values \<open>ok\<close> admits), and every decoded value is
  admitted and encodes into no more bytes than were read for it.
\<close>

locale codec =
  fixes enc :: "'a \<Rightarrow> enc" and dec :: "'a dec" and ok :: "'a \<Rightarrow> bool"
  assumes dec_enc: "ok x \<Longrightarrow> enc x = Inr bs \<Longrightarrow> dec (bs @ rest) = Inr (x, rest)"
    and dec_sound: "dec buf = Inr (x, rest) \<Longrightarrow>
      ok x \<and> (\<exists>bs. enc x = Inr bs \<and> length bs + length rest \<le> length buf)"
    and enc_nonempty: "enc x = Inr bs \<Longrightarrow> bs \<noteq> []"
begin

lemma dec_shrinks: "dec buf = Inr (x, rest) \<Longrightarrow> length rest < length buf"
proof -
  assume "dec buf = Inr (x, rest)"
  from dec_sound [OF this] obtain bs where "enc x = Inr bs" "length bs + length rest \<le> length buf"
    by blast
  with enc_nonempty [of x bs] show "length rest < length buf" by (cases bs) auto
qed

lemma dec_admits: "dec buf = Inr (x, rest) \<Longrightarrow> ok x"
  using dec_sound by blast

text \<open>A decoded value survives being written and read again.\<close>

lemma dec_stable:
  assumes "dec buf = Inr (x, rest)"
  shows "\<exists>bs. enc x = Inr bs \<and> (\<forall>more. dec (bs @ more) = Inr (x, more))"
  using dec_sound [OF assms] dec_enc by blast

end

text \<open>
  A loop that decodes values until the buffer is empty reads back a sequence of encodings; what it
  reads can be written again in no more bytes.
\<close>

locale codec_loop = codec enc dec ok
  for enc :: "'a \<Rightarrow> enc" and dec :: "'a dec" and ok :: "'a \<Rightarrow> bool" +
  fixes loop :: "u8 list \<Rightarrow> Error + 'a list"
  assumes loop_Nil: "loop [] = Inr []"
    and loop_step: "buf \<noteq> [] \<Longrightarrow> loop buf =
      (case dec buf of Inl e \<Rightarrow> Inl e
       | Inr (x, rest) \<Rightarrow> (case loop rest of Inl e \<Rightarrow> Inl e | Inr xs \<Rightarrow> Inr (x # xs)))"
begin

lemma loop_enc:
  "\<forall>x \<in> set xs. ok x \<Longrightarrow> enc_seq (map enc xs) = Inr bs \<Longrightarrow> loop bs = Inr xs"
proof (induction xs arbitrary: bs)
  case Nil
  then show ?case by (simp add: loop_Nil)
next
  case (Cons x xs)
  then obtain a b where a: "enc x = Inr a" and b: "enc_seq (map enc xs) = Inr b" and bs: "bs = a @ b"
    by auto
  have "a @ b \<noteq> []" using enc_nonempty [OF a] by simp
  moreover have "dec (a @ b) = Inr (x, b)" using dec_enc a Cons.prems(1) by simp
  ultimately show ?case using loop_step [of "a @ b"] Cons.IH [OF _ b] Cons.prems(1) bs by simp
qed

lemma loop_sound:
  "loop buf = Inr xs \<Longrightarrow>
     (\<forall>x \<in> set xs. ok x) \<and> (\<exists>bs. enc_seq (map enc xs) = Inr bs \<and> length bs \<le> length buf)"
proof (induction "length buf" arbitrary: buf xs rule: less_induct)
  case less
  show ?case
  proof (cases "buf = []")
    case True
    with less.prems show ?thesis by (simp add: loop_Nil)
  next
    case False
    with less.prems obtain x rest ys where x: "dec buf = Inr (x, rest)" and ys: "loop rest = Inr ys"
      and xs: "xs = x # ys"
      by (auto simp: loop_step split: sum.splits)
    from dec_sound [OF x] obtain a where a: "ok x" "enc x = Inr a" "length a + length rest \<le> length buf"
      by blast
    from less.hyps [OF dec_shrinks [OF x] ys] obtain b where
      "\<forall>y \<in> set ys. ok y" "enc_seq (map enc ys) = Inr b" "length b \<le> length rest"
      by blast
    with a xs show ?thesis by simp
  qed
qed

end

section \<open>Every primitive is a codec\<close>

interpretation u8_codec: codec put_u8 get_u8 "\<lambda>_. True"
  by unfold_locales (auto simp: put_u8_def get_u8_def split: list.splits)

interpretation u16_codec: codec put_u16 get_u16 "\<lambda>_. True"
  by unfold_locales
    (auto simp: put_u16_def get_u16_def u16_to_be_bytes_def u16_be_round split: if_splits)

declare u32_be_round [wire_simps]

interpretation u32_codec: codec put_u32 get_u32 "\<lambda>_. True"
  by unfold_locales
    (auto simp: put_u32_def get_u32_def u32_to_be_bytes_def u32_be_round split: if_splits)

text \<open>Strings are values of the Rust type \<open>String\<close>: their bytes are valid UTF-8.\<close>

definition str_ok :: "string \<Rightarrow> bool" where
  "str_ok s \<longleftrightarrow> utf8_valid (as_bytes s)"

lemma as_bytes_of_bytes [simp]: "as_bytes (of_bytes bs) = bs"
proof -
  have "(of_char (char_of (unat b) :: char) :: u8) = b" for b :: u8
  proof -
    have "(of_char (char_of (unat b) :: char) :: u8) = of_nat (of_char (char_of (unat b) :: char))"
      by (rule of_nat_of_char [symmetric])
    also have "(of_char (char_of (unat b) :: char) :: nat) = unat b mod 256" by simp
    also have "\<dots> = unat b" using unat_lt_u8 [of b] by simp
    finally show ?thesis by simp
  qed
  then show ?thesis by (simp add: as_bytes_def of_bytes_def comp_def)
qed

lemma get_u16_len [simp]:
  "get_u16 (u16_to_be_bytes n @ rest) = Inr (n, rest)"
  using u16_codec.dec_enc [of n "u16_to_be_bytes n" rest] by (simp add: put_u16_def)

lemma get_u16_Inr: "get_u16 buf = Inr (n, rest) \<Longrightarrow> length buf = 2 + length rest"
  by (auto simp: get_u16_def split: if_splits)

lemma unat_of_nat_u16: "n \<le> 65535 \<Longrightarrow> unat (of_nat n :: u16) = n"
  by (simp add: unat_of_nat)

interpretation string_codec: codec put_string get_string str_ok
proof (unfold_locales, goal_cases)
  case (1 s bs rest)
  then show ?case
    by (auto simp: put_string_def get_string_def str_ok_def unat_of_nat_u16 split: if_splits)
next
  case (2 buf s rest)
  then obtain len b where l: "get_u16 buf = Inr (len, b)" "unat len \<le> length b"
    "utf8_valid (take (unat len) b)" "s = of_bytes (take (unat len) b)" "rest = drop (unat len) b"
    by (auto simp: get_string_def dec_then_eq_Inr split: if_splits)
  with get_u16_Inr [OF l(1)] unat_lt_u16 [of len] show ?case
    by (auto simp: str_ok_def put_string_def)
next
  case (3 s bs)
  then show ?case by (auto simp: put_string_def u16_to_be_bytes_def split: if_splits)
qed

interpretation binary_codec: codec put_binary get_binary "\<lambda>_. True"
proof (unfold_locales, goal_cases)
  case (1 b bs rest)
  then show ?case by (auto simp: put_binary_def get_binary_def unat_of_nat_u16 split: if_splits)
next
  case (2 buf s rest)
  then obtain len b where l: "get_u16 buf = Inr (len, b)" "unat len \<le> length b"
    "s = take (unat len) b" "rest = drop (unat len) b"
    by (auto simp: get_binary_def dec_then_eq_Inr split: if_splits)
  with get_u16_Inr [OF l(1)] unat_lt_u16 [of len] show ?case
    by (auto simp: put_binary_def)
next
  case (3 s bs)
  then show ?case by (auto simp: put_binary_def u16_to_be_bytes_def split: if_splits)
qed

section \<open>The variable byte integer is a codec\<close>

lemma low_7: "x AND 0x7f = take_bit 7 x" for x :: "'a::len word"
  by (simp add: take_bit_eq_mask mask_eq_exp_minus_1)

lemma split_7: "x = take_bit 7 x + drop_bit 7 x * 128" for x :: u32
proof -
  have "push_bit 7 (drop_bit 7 x) + take_bit 7 x = x" by (rule bits_ident)
  then show ?thesis by (simp add: push_bit_eq_mult add.commute)
qed

lemma var_int_byte:
  fixes x :: u32
  defines "b \<equiv> (ucast (x AND 0x7f) :: u8)"
  shows "ucast (b AND 0x7f) = take_bit 7 x" and "ucast ((b OR 0x80) AND 0x7f) = take_bit 7 x"
    and "b AND 0x80 = 0" and "(b OR 0x80) AND 0x80 \<noteq> 0"
proof -
  have m: "(0x7f :: u8) = mask 7" by (simp add: mask_eq_exp_minus_1)
  have hi: "bit (0x80 :: int) n \<longleftrightarrow> n = 7" for n
  proof -
    have "(0x80 :: int) = 2 ^ 7" by simp
    then show ?thesis by (simp only: bit_exp_iff) auto
  qed
  have b: "bit b n \<longleftrightarrow> n < 7 \<and> bit x n" for n
    by (auto simp: b_def low_7 bit_ucast_iff bit_take_bit_iff)
  show low: "ucast (b AND 0x7f) = take_bit 7 x"
    unfolding m by (rule bit_word_eqI) (auto simp: bit_ucast_iff bit_and_iff b bit_mask_iff bit_take_bit_iff)
  have "(b OR 0x80) AND 0x7f = b AND 0x7f"
    by (simp add: bit.conj_disj_distrib2)
  with low show "ucast ((b OR 0x80) AND 0x7f) = take_bit 7 x" by (simp only:)
  show "b AND 0x80 = 0"
    by (rule bit_word_eqI) (auto simp: bit_and_iff b hi)
  have "bit ((b OR 0x80) AND 0x80) 7" by (simp add: bit_and_iff bit_or_iff hi)
  then show "(b OR 0x80) AND 0x80 \<noteq> 0" by auto
qed

text \<open>One turn of the encoding loop, and what the decoding loop makes of its byte.\<close>

lemma encode_var_int_last: "drop_bit 7 x = 0 \<Longrightarrow> encode_var_int_loop x w = Inr [ucast (x AND 0x7f)]"
  by (subst encode_var_int_loop.simps) (simp add: Let_def)

lemma encode_var_int_more:
  "drop_bit 7 x \<noteq> 0 \<Longrightarrow> encode_var_int_loop x w =
     (if w + 1 = 4 then Inl CE_VarIntTooLong
      else case encode_var_int_loop (drop_bit 7 x) (w + 1) of
        Inl e \<Rightarrow> Inl e | Inr bs \<Rightarrow> Inr ((ucast (x AND 0x7f) OR 0x80) # bs))"
  using word_neq_0_conv [of "drop_bit 7 x"] by (subst encode_var_int_loop.simps) (simp add: Let_def del: word_neq_0_conv)

lemma var_int_round:
  "encode_var_int_loop x w = Inr bs \<Longrightarrow> w < 4 \<Longrightarrow>
     bs \<noteq> [] \<and> length bs + w \<le> 4 \<and>
     (\<forall>rest v m i. decode_var_int_loop (bs @ rest) v m i = Some (v + x * m, i + length bs))"
proof (induction x w arbitrary: bs rule: encode_var_int_loop.induct)
  case (1 x w)
  show ?case
  proof (cases "drop_bit 7 x = 0")
    case True
    then have "take_bit 7 x = x" using split_7 [of x] by simp
    with 1 True show ?thesis by (auto simp: encode_var_int_last var_int_byte Let_def)
  next
    case False
    with 1(2,3) obtain bs' where w: "w + 1 < 4" and bs': "encode_var_int_loop (drop_bit 7 x) (w + 1) = Inr bs'"
      and bs: "bs = (ucast (x AND 0x7f) OR 0x80) # bs'"
      by (auto simp: encode_var_int_more split: if_splits sum.splits)
    have IH: "bs' \<noteq> [] \<and> length bs' + (w + 1) \<le> 4 \<and>
        (\<forall>rest v m i. decode_var_int_loop (bs' @ rest) v m i = Some (v + drop_bit 7 x * m, i + length bs'))"
      using 1(1) [OF refl refl refl refl False _ bs' w] w by simp
    have "v + take_bit 7 x * m + drop_bit 7 x * (m * 128) = v + x * m" for v m
      by (subst (3) split_7) (simp add: algebra_simps)
    with IH bs show ?thesis by (simp add: var_int_byte Let_def)
  qed
qed

lemma var_int_value:
  "decode_var_int_loop bs v m i = Some (v', i') \<Longrightarrow> length bs \<le> 4 \<Longrightarrow>
     \<exists>k x. 0 < k \<and> k \<le> length bs \<and> i' = i + k \<and> v' = v + x * m \<and> unat x < 128 ^ k"
proof (induction bs arbitrary: v m i)
  case (Cons b bs)
  let ?y = "ucast (b AND 0x7f) :: u32"
  have y: "unat ?y < 128"
  proof -
    have "?y = take_bit 7 (ucast b)"
      by (rule bit_word_eqI) (auto simp: low_7 bit_ucast_iff bit_take_bit_iff)
    then show ?thesis by (simp add: take_bit_eq_mod unat_mod)
  qed
  show ?case
  proof (cases "b AND 0x80 = 0")
    case True
    with Cons.prems y show ?thesis by (intro exI [of _ 1] exI [of _ ?y]) (simp add: Let_def)
  next
    case False
    with Cons.prems have "decode_var_int_loop bs (v + ?y * m) (m * 128) (i + 1) = Some (v', i')"
      by (simp add: Let_def)
    from Cons.IH [OF this] Cons.prems(2) obtain k x where k: "0 < k" "k \<le> length bs" "i' = i + 1 + k"
      "v' = v + ?y * m + x * (m * 128)" "unat x < 128 ^ k"
      by auto
    have "(128::nat) ^ Suc k \<le> 128 ^ 4" using k(2) Cons.prems(2) by (intro power_increasing) auto
    moreover have lt: "unat ?y + 128 * unat x < 128 ^ Suc k" using y k(5) by simp
    ultimately have "unat (?y + 128 * x) = unat ?y + 128 * unat x"
      by (simp add: unat_word_ariths)
    with lt k show ?thesis
      by (intro exI [of _ "Suc k"] exI [of _ "?y + 128 * x"]) (simp add: algebra_simps)
  qed
qed simp

lemma var_int_fits:
  "unat x < 128 ^ k \<Longrightarrow> 0 < k \<Longrightarrow> k + w \<le> 4 \<Longrightarrow> \<exists>bs. encode_var_int_loop x w = Inr bs \<and> length bs \<le> k"
proof (induction k arbitrary: x w)
  case (Suc k)
  show ?case
  proof (cases "drop_bit 7 x = 0")
    case True
    then show ?thesis by (simp add: encode_var_int_last)
  next
    case False
    have d: "unat (drop_bit 7 x) = unat x div 128" by (simp add: drop_bit_eq_div unat_div)
    have "unat (drop_bit 7 x) \<noteq> 0" using False by (simp add: unat_eq_zero)
    then have "k \<noteq> 0" using Suc.prems(1) d by (cases k) auto
    moreover have "unat (drop_bit 7 x) < 128 ^ k" using Suc.prems(1) d by (simp add: less_mult_imp_div_less mult.commute)
    ultimately obtain bs where "encode_var_int_loop (drop_bit 7 x) (w + 1) = Inr bs" "length bs \<le> k"
      using Suc.IH [of "drop_bit 7 x" "w + 1"] Suc.prems(3) by auto
    with False \<open>k \<noteq> 0\<close> Suc.prems(3) show ?thesis by (simp add: encode_var_int_more)
  qed
qed simp

lemma decode_var_int_eq:
  "encode_var_int v = Inr bs \<Longrightarrow> decode_var_int (bs @ rest) = Inr (v, length bs)"
  using var_int_round [of v 0 bs] by (simp add: encode_var_int_def decode_var_int_def)

lemma encode_var_int_fits:
  "unat v < 128 ^ n \<Longrightarrow> 0 < n \<Longrightarrow> n \<le> 4 \<Longrightarrow> \<exists>bs. encode_var_int v = Inr bs \<and> length bs \<le> n"
  using var_int_fits [of v n 0] by (simp add: encode_var_int_def)

lemma decode_var_int_Inr:
  assumes "decode_var_int buf = Inr (v, n)"
  shows "unat v < 128 ^ n" and "0 < n" "n \<le> length buf" "n \<le> 4"
proof -
  have "decode_var_int_loop (take 4 buf) 0 1 0 = Some (v, n)"
    using assms by (auto simp: decode_var_int_def split: option.splits if_splits)
  from var_int_value [OF this] obtain k x where
    "0 < k" "k \<le> length (take 4 buf)" "n = k" "v = x" "unat x < 128 ^ k"
    by auto
  then show "unat v < 128 ^ n" "0 < n" "n \<le> length buf" "n \<le> 4" by auto
qed

lemma decode_var_int_bound: "decode_var_int buf = Inr (v, n) \<Longrightarrow> unat v < 268435456"
proof -
  assume d: "decode_var_int buf = Inr (v, n)"
  have "(128::nat) ^ n \<le> 128 ^ 4" using decode_var_int_Inr(4) [OF d] by (intro power_increasing) auto
  with decode_var_int_Inr(1) [OF d] show ?thesis by simp
qed

interpretation var_int_codec: codec put_var_int get_var_int "\<lambda>_. True"
proof (unfold_locales, goal_cases)
  case (1 v bs rest)
  then have "encode_var_int v = Inr bs" by (auto simp: put_var_int_def split: sum.splits)
  with decode_var_int_eq [OF this, of rest] show ?case by (simp add: get_var_int_def)
next
  case (2 buf v rest)
  then obtain n where n: "decode_var_int buf = Inr (v, n)" "rest = drop n buf"
    by (auto simp: get_var_int_def split: sum.splits)
  note r = decode_var_int_Inr [OF n(1)]
  from encode_var_int_fits [OF r(1,2,4)] r n(2) show ?case by (auto simp: put_var_int_def)
next
  case (3 v bs)
  then have "encode_var_int_loop v 0 = Inr bs"
    by (auto simp: put_var_int_def encode_var_int_def split: sum.splits)
  with var_int_round [of v 0 bs] show ?case by simp
qed

end
