(* ===== verification/Mqtt_Property_Codec.thy ===== *)
theory Mqtt_Property_Codec
  imports Mqtt_Wire
begin

text \<open>
  The MQTT 5 property block (\<open>cave-home-mqtt/src/v5/property.rs\<close>): each property is its identifier
  followed by a value, the block is prefixed by its length, and a property other than the two
  repeatable ones occurs at most once. The block is shown to be a codec.
\<close>

section \<open>One property\<close>

definition repeatable :: "u8 \<Rightarrow> bool" where
  "repeatable ident \<longleftrightarrow> ident = 0x26 \<or> ident = 0x0B"

fun encode_value :: "Property \<Rightarrow> enc" where
  "encode_value (PayloadFormatIndicator v) = put_u8 v"
| "encode_value (RequestProblemInformation v) = put_u8 v"
| "encode_value (RequestResponseInformation v) = put_u8 v"
| "encode_value (MaximumQoS v) = put_u8 v"
| "encode_value (RetainAvailable v) = put_u8 v"
| "encode_value (WildcardSubscriptionAvailable v) = put_u8 v"
| "encode_value (SubscriptionIdentifierAvailable v) = put_u8 v"
| "encode_value (SharedSubscriptionAvailable v) = put_u8 v"
| "encode_value (ServerKeepAlive v) = put_u16 v"
| "encode_value (ReceiveMaximum v) = put_u16 v"
| "encode_value (TopicAliasMaximum v) = put_u16 v"
| "encode_value (TopicAlias v) = put_u16 v"
| "encode_value (MessageExpiryInterval v) = put_u32 v"
| "encode_value (SessionExpiryInterval v) = put_u32 v"
| "encode_value (WillDelayInterval v) = put_u32 v"
| "encode_value (MaximumPacketSize v) = put_u32 v"
| "encode_value (SubscriptionIdentifier v) = put_var_int v"
| "encode_value (ContentType s) = put_string s"
| "encode_value (ResponseTopic s) = put_string s"
| "encode_value (AssignedClientIdentifier s) = put_string s"
| "encode_value (AuthenticationMethod s) = put_string s"
| "encode_value (ResponseInformation s) = put_string s"
| "encode_value (ServerReference s) = put_string s"
| "encode_value (ReasonString s) = put_string s"
| "encode_value (CorrelationData b) = put_binary b"
| "encode_value (AuthenticationData b) = put_binary b"
| "encode_value (UserProperty k v) = enc_then (put_string k) (put_string v)"

definition dec_map :: "('a \<Rightarrow> 'b) \<Rightarrow> 'a dec \<Rightarrow> 'b dec" where
  "dec_map f d = dec_then d (\<lambda>x. dec_ok (f x))"

definition decode_value :: "u8 \<Rightarrow> Property dec" where
  "decode_value ident =
     (if ident = 0x01 then dec_map PayloadFormatIndicator get_u8
      else if ident = 0x02 then dec_map MessageExpiryInterval get_u32
      else if ident = 0x03 then dec_map ContentType get_string
      else if ident = 0x08 then dec_map ResponseTopic get_string
      else if ident = 0x09 then dec_map CorrelationData get_binary
      else if ident = 0x0B then
        dec_then get_var_int (\<lambda>v. if v = 0 then dec_fail ZeroSubscriptionId
                                  else dec_ok (SubscriptionIdentifier v))
      else if ident = 0x11 then dec_map SessionExpiryInterval get_u32
      else if ident = 0x12 then dec_map AssignedClientIdentifier get_string
      else if ident = 0x13 then dec_map ServerKeepAlive get_u16
      else if ident = 0x15 then dec_map AuthenticationMethod get_string
      else if ident = 0x16 then dec_map AuthenticationData get_binary
      else if ident = 0x17 then dec_map RequestProblemInformation get_u8
      else if ident = 0x18 then dec_map WillDelayInterval get_u32
      else if ident = 0x19 then dec_map RequestResponseInformation get_u8
      else if ident = 0x1A then dec_map ResponseInformation get_string
      else if ident = 0x1C then dec_map ServerReference get_string
      else if ident = 0x1F then dec_map ReasonString get_string
      else if ident = 0x21 then dec_map ReceiveMaximum get_u16
      else if ident = 0x22 then dec_map TopicAliasMaximum get_u16
      else if ident = 0x23 then dec_map TopicAlias get_u16
      else if ident = 0x24 then dec_map MaximumQoS get_u8
      else if ident = 0x25 then dec_map RetainAvailable get_u8
      else if ident = 0x26 then
        dec_then get_string (\<lambda>k. dec_then get_string (\<lambda>v. dec_ok (UserProperty k v)))
      else if ident = 0x27 then dec_map MaximumPacketSize get_u32
      else if ident = 0x28 then dec_map WildcardSubscriptionAvailable get_u8
      else if ident = 0x29 then dec_map SubscriptionIdentifierAvailable get_u8
      else if ident = 0x2A then dec_map SharedSubscriptionAvailable get_u8
      else dec_fail (UnknownProperty ident))"

text \<open>The values a decoded property can have.\<close>

fun property_ok :: "Property \<Rightarrow> bool" where
  "property_ok (SubscriptionIdentifier v) \<longleftrightarrow> v \<noteq> 0"
| "property_ok (ContentType s) \<longleftrightarrow> str_ok s"
| "property_ok (ResponseTopic s) \<longleftrightarrow> str_ok s"
| "property_ok (AssignedClientIdentifier s) \<longleftrightarrow> str_ok s"
| "property_ok (AuthenticationMethod s) \<longleftrightarrow> str_ok s"
| "property_ok (ResponseInformation s) \<longleftrightarrow> str_ok s"
| "property_ok (ServerReference s) \<longleftrightarrow> str_ok s"
| "property_ok (ReasonString s) \<longleftrightarrow> str_ok s"
| "property_ok (UserProperty k v) \<longleftrightarrow> str_ok k \<and> str_ok v"
| "property_ok _ \<longleftrightarrow> True"

lemmas primitive_round = u8_codec.dec_enc [simplified] u16_codec.dec_enc [simplified]
  u32_codec.dec_enc [simplified] var_int_codec.dec_enc [simplified] string_codec.dec_enc
  binary_codec.dec_enc [simplified]

lemmas primitive_sound = u8_codec.dec_sound u16_codec.dec_sound u32_codec.dec_sound
  var_int_codec.dec_sound string_codec.dec_sound binary_codec.dec_sound

lemma property_round:
  "property_ok p \<Longrightarrow> encode_value p = Inr bs \<Longrightarrow> decode_value (property_identifier p) (bs @ rest) = Inr (p, rest)"
  by (cases p) (auto simp: decode_value_def dec_map_def primitive_round)

lemma dec_map_Inr: "dec_map f d buf = Inr (y, rest) \<longleftrightarrow> (\<exists>x. d buf = Inr (x, rest) \<and> y = f x)"
  by (auto simp: dec_map_def dec_then_eq_Inr)

lemma property_sound:
  assumes "decode_value ident buf = Inr (p, rest)"
  shows "property_identifier p = ident \<and> property_ok p \<and>
    (\<exists>bs. encode_value p = Inr bs \<and> length bs + length rest \<le> length buf)"
  using assms unfolding decode_value_def
  by (simp only: split: if_split_asm)
    (auto simp: dec_map_Inr dec_then_eq_Inr dest!: primitive_sound split: if_split_asm)

section \<open>The property block\<close>

definition encode_property :: "Property \<Rightarrow> enc" where
  "encode_property p = enc_then (put_u8 (property_identifier p)) (encode_value p)"

definition encode_properties :: "Property list \<Rightarrow> enc" where
  "encode_properties props =
     (case enc_seq (map encode_property props) of
        Inl e \<Rightarrow> Inl e
      | Inr body \<Rightarrow>
          (if length body \<ge> 2 ^ 32 then Inl VarIntTooLong
           else enc_then (put_var_int (of_nat (length body))) (Inr body)))"

lemma decode_value_shrinks: "decode_value ident buf = Inr (p, rest) \<Longrightarrow> length rest \<le> length buf"
  using property_sound by fastforce

function decode_block :: "u8 list \<Rightarrow> bool list \<Rightarrow> Error + Property list" where
  "decode_block block seen =
     (if block = [] then Inr []
      else
        (case get_var_int block of
           Inl e \<Rightarrow> Inl e
         | Inr (idv, block1) \<Rightarrow>
             (if unat idv > 255 then Inl (UnknownProperty 0xff)
              else
                (let ident = ucast idv :: u8 in
                 if \<not> repeatable ident \<and> unat ident < length seen \<and> seen ! unat ident
                 then Inl (DuplicateProperty ident)
                 else
                   (let seen1 = (if \<not> repeatable ident \<and> unat ident < length seen
                                 then seen[unat ident := True] else seen)
                    in case decode_value ident block1 of
                         Inl e \<Rightarrow> Inl e
                       | Inr (p, block2) \<Rightarrow>
                           (case decode_block block2 seen1 of
                              Inl e \<Rightarrow> Inl e
                            | Inr ps \<Rightarrow> Inr (p # ps)))))))"
  by pat_completeness auto
termination
  by (relation "measure (\<lambda>(block, _). length block)")
    (auto dest!: var_int_codec.dec_shrinks decode_value_shrinks)

declare decode_block.simps [simp del]

definition decode_properties :: "Property list dec" where
  "decode_properties =
     dec_then get_var_int (\<lambda>len buf.
       if length buf < unat len then Inl (Underflow (unat len - length buf))
       else (case decode_block (take (unat len) buf) (replicate 0x2B False) of
               Inl e \<Rightarrow> Inl e
             | Inr props \<Rightarrow> Inr (props, drop (unat len) buf)))"

text \<open>
  What a block may hold: admissible properties, none but the repeatable ones twice.
  \<open>unseen\<close> relates this to the table the loop keeps.
\<close>

definition props_ok :: "Property list \<Rightarrow> bool" where
  "props_ok ps \<longleftrightarrow> (\<forall>p \<in> set ps. property_ok p) \<and>
     distinct (filter (\<lambda>i. \<not> repeatable i) (map property_identifier ps))"

definition unseen :: "bool list \<Rightarrow> Property list \<Rightarrow> bool" where
  "unseen seen ps \<longleftrightarrow> length seen = 0x2B \<and>
     (\<forall>p \<in> set ps. \<not> repeatable (property_identifier p) \<longrightarrow> \<not> seen ! unat (property_identifier p))"

lemma identifier_bound: "unat (property_identifier p) < 0x2B"
  by (cases p) simp_all

lemma get_identifier: "get_var_int (property_identifier p # rest) = Inr (ucast (property_identifier p), rest)"
  by (cases p) (simp_all add: get_var_int_def decode_var_int_def)

definition mark_seen :: "bool list \<Rightarrow> Property \<Rightarrow> bool list" where
  "mark_seen seen p =
     (if repeatable (property_identifier p) then seen else seen[unat (property_identifier p) := True])"

lemma unseen_Cons:
  "unseen seen (p # ps) \<and> distinct (filter (\<lambda>i. \<not> repeatable i) (map property_identifier (p # ps))) \<longleftrightarrow>
     length seen = 0x2B \<and> (repeatable (property_identifier p) \<or> \<not> seen ! unat (property_identifier p)) \<and>
     unseen (mark_seen seen p) ps \<and> distinct (filter (\<lambda>i. \<not> repeatable i) (map property_identifier ps))"
proof -
  have inj: "unat (property_identifier p) = unat (property_identifier q) \<longleftrightarrow>
      property_identifier p = property_identifier q" for q
    by (simp add: word_unat_eq_iff)
  show ?thesis
    using identifier_bound [of p] inj
    by (auto simp: unseen_def mark_seen_def nth_list_update split: if_split_asm)
qed

lemma decode_block_Cons:
  assumes "decode_value (property_identifier p) buf = Inr (p, rest)" and "length seen = 0x2B"
    and "repeatable (property_identifier p) \<or> \<not> seen ! unat (property_identifier p)"
  shows "decode_block (property_identifier p # buf) seen =
    (case decode_block rest (mark_seen seen p) of Inl e \<Rightarrow> Inl e | Inr ps \<Rightarrow> Inr (p # ps))"
proof -
  have "unat (ucast (property_identifier p) :: u32) = unat (property_identifier p)"
    "(ucast (ucast (property_identifier p) :: u32) :: u8) = property_identifier p"
    by (cases p; simp)+
  then show ?thesis
    using assms identifier_bound [of p]
    by (subst decode_block.simps) (auto simp: get_identifier mark_seen_def Let_def)
qed

lemma decode_block_round:
  "\<forall>p \<in> set ps. property_ok p \<Longrightarrow> unseen seen ps \<Longrightarrow>
     distinct (filter (\<lambda>i. \<not> repeatable i) (map property_identifier ps)) \<Longrightarrow>
     enc_seq (map encode_property ps) = Inr bs \<Longrightarrow> decode_block bs seen = Inr ps"
proof (induction ps arbitrary: bs seen)
  case Nil
  then show ?case by (subst decode_block.simps) simp
next
  case (Cons p ps)
  from Cons.prems(4) obtain a b where a: "encode_value p = Inr a"
    and b: "enc_seq (map encode_property ps) = Inr b" and bs: "bs = property_identifier p # a @ b"
    by (auto simp: encode_property_def [of p] put_u8_def)
  have u: "length seen = 0x2B" "repeatable (property_identifier p) \<or> \<not> seen ! unat (property_identifier p)"
    "unseen (mark_seen seen p) ps" "distinct (filter (\<lambda>i. \<not> repeatable i) (map property_identifier ps))"
    using unseen_Cons [of seen p ps] Cons.prems(2,3) by blast+
  have "decode_value (property_identifier p) (a @ b) = Inr (p, b)"
    using property_round [OF _ a] Cons.prems(1) by simp
  from decode_block_Cons [OF this u(1,2)] Cons.IH [OF _ u(3,4) b] Cons.prems(1) bs show ?case by simp
qed

lemma decode_block_sound:
  "decode_block buf seen = Inr ps \<Longrightarrow> length seen = 0x2B \<Longrightarrow>
     (\<forall>p \<in> set ps. property_ok p) \<and> unseen seen ps \<and>
     distinct (filter (\<lambda>i. \<not> repeatable i) (map property_identifier ps)) \<and>
     (\<exists>bs. enc_seq (map encode_property ps) = Inr bs \<and> length bs \<le> length buf)"
proof (induction buf seen arbitrary: ps rule: decode_block.induct)
  case (1 buf seen)
  show ?case
  proof (cases "buf = []")
    case True
    with 1(2,3) show ?thesis by (simp add: decode_block.simps unseen_def)
  next
    case False
    with 1(2) obtain idv buf1 p buf2 qs where
      idv: "get_var_int buf = Inr (idv, buf1)" "\<not> unat idv > 255"
      and dup: "repeatable (ucast idv) \<or> \<not> (unat (ucast idv :: u8) < length seen \<and> seen ! unat (ucast idv :: u8))"
      and p: "decode_value (ucast idv) buf1 = Inr (p, buf2)"
      and qs: "decode_block buf2 (if \<not> repeatable (ucast idv) \<and> unat (ucast idv :: u8) < length seen
        then seen[unat (ucast idv :: u8) := True] else seen) = Inr qs"
      and ps: "ps = p # qs"
      by (subst (asm) decode_block.simps) (auto simp: Let_def split: sum.splits if_split_asm)
    note snd = property_sound [OF p]
    have seen1: "(if \<not> repeatable (ucast idv) \<and> unat (ucast idv :: u8) < length seen
        then seen[unat (ucast idv :: u8) := True] else seen) = mark_seen seen p"
      using snd identifier_bound [of p] 1(3) by (auto simp: mark_seen_def)
    have len: "length (mark_seen seen p) = 0x2B" using 1(3) by (simp add: mark_seen_def)
    have dup': "\<not> (\<not> repeatable (ucast idv) \<and> unat (ucast idv :: u8) < length seen \<and> seen ! unat (ucast idv :: u8))"
      using dup by blast
    have IH: "(\<forall>p \<in> set qs. property_ok p) \<and> unseen (mark_seen seen p) qs \<and>
        distinct (filter (\<lambda>i. \<not> repeatable i) (map property_identifier qs)) \<and>
        (\<exists>bs. enc_seq (map encode_property qs) = Inr bs \<and> length bs \<le> length buf2)"
      using 1(1) [OF False idv(1) refl idv(2) refl dup' refl p refl] qs len unfolding seen1 by blast
    have "repeatable (property_identifier p) \<or> \<not> seen ! unat (property_identifier p)"
      using dup snd 1(3) identifier_bound [of p] by auto
    then have "unseen seen ps \<and> distinct (filter (\<lambda>i. \<not> repeatable i) (map property_identifier ps))"
      using unseen_Cons [of seen p qs] IH 1(3) ps by blast
    moreover have "\<exists>bs. enc_seq (map encode_property ps) = Inr bs \<and> length bs \<le> length buf"
      using snd IH ps var_int_codec.dec_shrinks [OF idv(1)]
      by (fastforce simp: encode_property_def put_u8_def)
    ultimately show ?thesis using snd IH ps by simp
  qed
qed

interpretation props_codec: codec encode_properties decode_properties props_ok
proof (unfold_locales, goal_cases)
  case (1 ps bs rest)
  then obtain body pre where body: "enc_seq (map encode_property ps) = Inr body" "length body < 2 ^ 32"
    and pre: "put_var_int (of_nat (length body)) = Inr pre" and bs: "bs = pre @ body"
    by (auto simp: encode_properties_def not_le split: sum.splits if_split_asm)
  have len: "unat (of_nat (length body) :: u32) = length body" using body(2) by (simp add: unat_of_nat)
  have "get_var_int (pre @ body @ rest) = Inr (of_nat (length body), body @ rest)"
    using var_int_codec.dec_enc [OF TrueI pre] by simp
  moreover have "decode_block body (replicate 0x2B False) = Inr ps"
    using 1(1) body(1) by (intro decode_block_round) (auto simp: props_ok_def unseen_def identifier_bound)
  ultimately show ?case using bs len by (simp add: decode_properties_def)
next
  case (2 buf ps rest)
  then obtain len b where len: "get_var_int buf = Inr (len, b)" "unat len \<le> length b"
    and block: "decode_block (take (unat len) b) (replicate 0x2B False) = Inr ps" and rest: "rest = drop (unat len) b"
    by (auto simp: decode_properties_def dec_then_eq_Inr split: if_split_asm sum.splits)
  note snd = decode_block_sound [OF block]
  then obtain body where body: "enc_seq (map encode_property ps) = Inr body" "length body \<le> unat len"
    using len(2) by auto
  from len(1) obtain n where n: "decode_var_int buf = Inr (len, n)" "b = drop n buf"
    by (auto simp: get_var_int_def split: sum.splits)
  note r = decode_var_int_Inr [OF n(1)]
  have small: "length body < 2 ^ 32" using body(2) unat_lt_u32 [of len] by simp
  then have "unat (of_nat (length body) :: u32) = length body" by (simp add: unat_of_nat)
  then have "unat (of_nat (length body) :: u32) < 128 ^ n" using body(2) r(1) by simp
  from encode_var_int_fits [OF this r(2,4)] obtain pre where
    "encode_var_int (of_nat (length body)) = Inr pre" "length pre \<le> n"
    by blast
  with body small n(2) rest len(2) r(3) snd show ?case
    by (auto simp: props_ok_def encode_properties_def put_var_int_def)
next
  case (3 ps bs)
  then show ?case
    by (auto simp: encode_properties_def dest: var_int_codec.enc_nonempty split: sum.splits if_split_asm)
qed

end
