(* ===== verification/Mqtt_Codec.thy ===== *)
theory Mqtt_Codec
  imports Mqtt_Property_Codec
begin

text \<open>
  The MQTT 5 control packets on the wire (\<open>cave-home-mqtt/src/v5/codec.rs\<close>): encoding, decoding, and
  the proof that the two agree for every packet type.
\<close>

section \<open>CONNECT and CONNACK\<close>

text \<open>The UTF-8 bytes of the section sign that two of the messages contain.\<close>

definition section_sign :: string where
  "section_sign = [CHR 0xC2, CHR 0xA7]"

definition RESERVED_0010 :: u8 where
  "RESERVED_0010 = 0x02"

definition connect_flags :: "ConnectV5 \<Rightarrow> u8" where
  "connect_flags c =
     (let f0 = 0;
          f1 = (if con_username c \<noteq> None then f0 OR 0x80 else f0);
          f2 = (if con_password c \<noteq> None then f1 OR 0x40 else f1);
          f3 = (case con_will c of
                  Some w \<Rightarrow>
                    (let g = (f2 OR 0x04) OR push_bit 3 (qos_u8 (will_qos w))
                     in if will_retain w then g OR 0x20 else g)
                | None \<Rightarrow> f2)
      in if clean_start c then f3 OR 0x02 else f3)"

definition encode_connect :: "ConnectV5 \<Rightarrow> enc" where
  "encode_connect c =
     enc_seq
       ([put_string ''MQTT'', put_u8 5, put_u8 (connect_flags c), put_u16 (keep_alive_secs c),
         encode_properties (con_properties c), put_string (con_client_id c)] @
        (case con_will c of
           Some w \<Rightarrow> [encode_properties (will_properties w), put_string (will_topic w),
                      put_binary (will_payload w)]
         | None \<Rightarrow> []) @
        (case con_username c of Some u \<Rightarrow> [put_string u] | None \<Rightarrow> []) @
        (case con_password c of Some p \<Rightarrow> [put_binary p] | None \<Rightarrow> []))"

definition decode_will :: "u8 \<Rightarrow> Will option dec" where
  "decode_will flags =
     (if flags AND 0x04 \<noteq> 0 then
        dec_then decode_properties (\<lambda>props.
        dec_then get_string (\<lambda>topic.
        dec_then get_binary (\<lambda>payload.
          case QoS_from_u8 (drop_bit 3 flags AND 0x03) of
            None \<Rightarrow> dec_fail (BadQoS (drop_bit 3 flags AND 0x03))
          | Some qos \<Rightarrow>
              dec_ok (Some \<lparr>will_topic = topic, will_payload = payload, will_qos = qos,
                            will_retain = (flags AND 0x20 \<noteq> 0), will_properties = props\<rparr>))))
      else if drop_bit 3 flags AND 0x03 \<noteq> 0 \<or> flags AND 0x20 \<noteq> 0
      then dec_fail (Malformed (Literal ''Will QoS/Retain set without Will Flag''))
      else dec_ok None)"

text \<open>\<open>decode_connect\<close> reads the protocol head first, then the fields that its flag byte announces.\<close>

definition decode_connect_fields :: "u8 \<Rightarrow> ConnectV5 dec" where
  "decode_connect_fields flags =
     dec_then get_u16 (\<lambda>keep_alive.
     dec_then decode_properties (\<lambda>properties.
     dec_then get_string (\<lambda>cid.
     dec_then (decode_will flags) (\<lambda>will.
     dec_then (if flags AND 0x80 \<noteq> 0 then dec_map Some get_string else dec_ok None) (\<lambda>username.
     dec_then (if flags AND 0x40 \<noteq> 0 then dec_map Some get_binary else dec_ok None) (\<lambda>password.
     dec_ok \<lparr>con_client_id = cid, clean_start = (flags AND 0x02 \<noteq> 0), keep_alive_secs = keep_alive,
             con_properties = properties, con_will = will, con_username = username,
             con_password = password\<rparr>))))))"

definition decode_connect :: "ConnectV5 dec" where
  "decode_connect =
     dec_then get_string (\<lambda>name.
     if name \<noteq> ''MQTT'' then dec_fail (BadProtocolName name) else
     dec_then get_u8 (\<lambda>level.
     if level \<noteq> 5 then dec_fail (BadProtocolLevel level) else
     dec_then get_u8 (\<lambda>flags.
     if flags AND 0x01 \<noteq> 0
     then dec_fail (Malformed (Literal ''CONNECT reserved flag bit 0 must be 0''))
     else decode_connect_fields flags)))"

definition encode_connack :: "ConnAckV5 \<Rightarrow> enc" where
  "encode_connack c =
     enc_seq [put_u8 (if session_present c then 1 else 0), put_u8 (reason_u8 (ca_reason_code c)),
              encode_properties (ca_properties c)]"

definition get_reason :: "string \<Rightarrow> ReasonCode dec" where
  "get_reason packet =
     dec_then get_u8 (\<lambda>code.
       case ReasonCode_from_u8 code of
         None \<Rightarrow> dec_fail (BadReasonCode packet code)
       | Some r \<Rightarrow> dec_ok r)"

definition decode_connack :: "ConnAckV5 dec" where
  "decode_connack =
     dec_then get_u8 (\<lambda>ack_flags.
     dec_then (get_reason ''CONNACK'') (\<lambda>reason.
     dec_then decode_properties (\<lambda>properties.
     dec_ok \<lparr>session_present = (ack_flags AND 0x01 \<noteq> 0), ca_reason_code = reason,
             ca_properties = properties\<rparr>)))"

section \<open>PUBLISH\<close>

definition publish_flags :: "PublishV5 \<Rightarrow> u8" where
  "publish_flags p =
     push_bit 3 (if pub_dup p then 1 else 0) OR push_bit 1 (qos_u8 (pub_qos p)) OR
     (if pub_retain p then 1 else 0)"

definition encode_publish :: "PublishV5 \<Rightarrow> Error + u8 \<times> u8 list" where
  "encode_publish p =
     (case enc_seq
        [put_string (pub_topic p),
         (if pub_qos p \<noteq> AtMostOnce
          then (case pub_packet_id p of
                  None \<Rightarrow> Inl (Malformed (Literal ''PUBLISH QoS > 0 missing packet id''))
                | Some pid \<Rightarrow> put_u16 pid)
          else Inr []),
         encode_properties (pub_properties p), Inr (pub_payload p)] of
        Inl e \<Rightarrow> Inl e
      | Inr body \<Rightarrow> Inr (publish_flags p, body))"

definition decode_publish :: "u8 \<Rightarrow> PublishV5 dec" where
  "decode_publish flags =
     (let dup = (flags AND 0x08 \<noteq> 0) in
      case QoS_from_u8 (drop_bit 1 flags AND 0x03) of
        None \<Rightarrow> dec_fail (BadQoS (drop_bit 1 flags AND 0x03))
      | Some qos \<Rightarrow>
          (let retain = (flags AND 0x01 \<noteq> 0) in
           if dup \<and> qos = AtMostOnce
           then dec_fail (Malformed (Literal (''PUBLISH DUP must be 0 for QoS 0 ('' @ section_sign @ ''3.3.1.1)'')))
           else
             dec_then get_string (\<lambda>topic.
             dec_then (if qos = AtMostOnce then dec_ok None else dec_map Some get_u16) (\<lambda>pid.
             dec_then decode_properties (\<lambda>properties buf.
             Inr (\<lparr>pub_topic = topic, pub_qos = qos, pub_retain = retain, pub_dup = dup,
                   pub_packet_id = pid, pub_properties = properties, pub_payload = buf\<rparr>, []))))))"

section \<open>Acknowledgements\<close>

definition encode_reason_props :: "ReasonCode \<Rightarrow> Property list \<Rightarrow> enc" where
  "encode_reason_props reason props =
     (if reason = Success \<and> props = [] then Inr []
      else enc_then (put_u8 (reason_u8 reason)) (encode_properties props))"

definition decode_reason_props :: "string \<Rightarrow> (ReasonCode \<times> Property list) dec" where
  "decode_reason_props packet buf =
     (if buf = [] then Inr ((Success, []), buf)
      else
        dec_then (get_reason packet) (\<lambda>reason buf1.
          if buf1 = [] then Inr ((reason, []), buf1)
          else dec_map (\<lambda>props. (reason, props)) decode_properties buf1) buf)"

definition encode_ack :: "u16 \<Rightarrow> ReasonCode \<Rightarrow> Property list \<Rightarrow> enc" where
  "encode_ack packet_id reason props =
     enc_then (put_u16 packet_id)
       (if reason = Success \<and> props = [] then Inr []
        else enc_then (put_u8 (reason_u8 reason)) (encode_properties props))"

definition decode_ack :: "string \<Rightarrow> AckV5 dec" where
  "decode_ack packet =
     dec_then get_u16 (\<lambda>packet_id buf.
       if buf = []
       then Inr (\<lparr>ack_packet_id = packet_id, ack_reason_code = Success, ack_properties = []\<rparr>, buf)
       else
         dec_then (get_reason packet) (\<lambda>reason buf1.
           if buf1 = []
           then Inr (\<lparr>ack_packet_id = packet_id, ack_reason_code = reason, ack_properties = []\<rparr>, buf1)
           else dec_map (\<lambda>props. \<lparr>ack_packet_id = packet_id, ack_reason_code = reason,
                                  ack_properties = props\<rparr>) decode_properties buf1) buf)"

section \<open>SUBSCRIBE, SUBACK, UNSUBSCRIBE, UNSUBACK\<close>

fun retain_handling_u8 :: "RetainHandling \<Rightarrow> u8" where
  "retain_handling_u8 SendOnSubscribe = 0"
| "retain_handling_u8 SendIfNew = 1"
| "retain_handling_u8 DoNotSend = 2"

definition subscription_options :: "SubscriptionV5 \<Rightarrow> u8" where
  "subscription_options sub =
     (let o0 = qos_u8 (sub_qos sub);
          o1 = (if no_local sub then o0 OR 0x04 else o0);
          o2 = (if retain_as_published sub then o1 OR 0x08 else o1)
      in o2 OR push_bit 4 (retain_handling_u8 (retain_handling sub)))"

definition encode_subscription :: "SubscriptionV5 \<Rightarrow> enc" where
  "encode_subscription sub =
     enc_then (put_string (sub_topic_filter sub)) (put_u8 (subscription_options sub))"

definition encode_subscribe :: "SubscribeV5 \<Rightarrow> enc" where
  "encode_subscribe s =
     enc_then (put_u16 (s_packet_id s))
       (enc_then (encode_properties (s_properties s)) (enc_seq (map encode_subscription (s_subscriptions s))))"

definition decode_subscription :: "SubscriptionV5 dec" where
  "decode_subscription =
     dec_then get_string (\<lambda>flt.
     dec_then get_u8 (\<lambda>opt.
       if opt AND 0xC0 \<noteq> 0
       then dec_fail (Malformed (Literal ''subscription options reserved bits 6-7 must be 0''))
       else
         (case QoS_from_u8 (opt AND 0x03) of
            None \<Rightarrow> dec_fail (BadQoS (opt AND 0x03))
          | Some qos \<Rightarrow>
              (case RetainHandling_from_u8 (drop_bit 4 opt AND 0x03) of
                 None \<Rightarrow> dec_fail (Malformed (Literal (''invalid Retain Handling value 3 ('' @ section_sign @ ''3.8.3.1)'')))
               | Some rh \<Rightarrow>
                   dec_ok \<lparr>sub_topic_filter = flt, sub_qos = qos, no_local = (opt AND 0x04 \<noteq> 0),
                           retain_as_published = (opt AND 0x08 \<noteq> 0), retain_handling = rh\<rparr>))))"

text \<open>The option byte of a subscription holds its four options.\<close>

lemma subscription_options_decode:
  "subscription_options sub AND 0xC0 = 0"
  "QoS_from_u8 (subscription_options sub AND 0x03) = Some (sub_qos sub)"
  "RetainHandling_from_u8 (drop_bit 4 (subscription_options sub) AND 0x03) = Some (retain_handling sub)"
  "subscription_options sub AND 0x04 \<noteq> 0 \<longleftrightarrow> no_local sub"
  "subscription_options sub AND 0x08 \<noteq> 0 \<longleftrightarrow> retain_as_published sub"
  by (cases "sub_qos sub"; cases "retain_handling sub"; cases "no_local sub"; cases "retain_as_published sub";
      simp add: subscription_options_def QoS_from_u8_def RetainHandling_from_u8_def)+

interpretation subscription_codec: codec encode_subscription decode_subscription "\<lambda>sub. str_ok (sub_topic_filter sub)"
proof (unfold_locales, goal_cases)
  case (1 sub bs rest)
  then obtain a where a: "put_string (sub_topic_filter sub) = Inr a" and bs: "bs = a @ [subscription_options sub]"
    by (auto simp: encode_subscription_def put_u8_def)
  have "get_string (a @ [subscription_options sub] @ rest) = Inr (sub_topic_filter sub, [subscription_options sub] @ rest)"
    using string_codec.dec_enc [OF 1(1) a] by simp
  with bs show ?case
    by (simp add: decode_subscription_def get_u8_def subscription_options_decode)
next
  case (2 buf sub rest)
  then obtain b opt where b: "get_string buf = Inr (sub_topic_filter sub, b)" "get_u8 b = Inr (opt, rest)"
    by (auto simp: decode_subscription_def dec_then_eq_Inr split: if_split_asm option.splits)
  from string_codec.dec_sound [OF b(1)] u8_codec.dec_sound [OF b(2)] show ?case
    by (auto simp: encode_subscription_def put_u8_def)
next
  case (3 sub bs)
  then show ?case by (auto simp: encode_subscription_def put_u8_def)
qed

function decode_subscriptions :: "u8 list \<Rightarrow> Error + SubscriptionV5 list" where
  "decode_subscriptions buf =
     (if buf = [] then Inr []
      else (case decode_subscription buf of
              Inl e \<Rightarrow> Inl e
            | Inr (sub, rest) \<Rightarrow>
                (case decode_subscriptions rest of Inl e \<Rightarrow> Inl e | Inr subs \<Rightarrow> Inr (sub # subs))))"
  by pat_completeness auto
termination by (relation "measure length") (auto dest: subscription_codec.dec_shrinks)

declare decode_subscriptions.simps [simp del]

definition decode_subscribe :: "SubscribeV5 dec" where
  "decode_subscribe =
     dec_then get_u16 (\<lambda>packet_id.
     dec_then decode_properties (\<lambda>properties buf.
       case decode_subscriptions buf of
         Inl e \<Rightarrow> Inl e
       | Inr subs \<Rightarrow>
           (if subs = []
            then Inl (Malformed (Literal ''SUBSCRIBE must contain at least one topic filter''))
            else Inr (\<lparr>s_packet_id = packet_id, s_properties = properties, s_subscriptions = subs\<rparr>, []))))"

definition encode_id_props_codes :: "u16 \<Rightarrow> Property list \<Rightarrow> ReasonCode list \<Rightarrow> enc" where
  "encode_id_props_codes packet_id props codes =
     enc_then (put_u16 packet_id)
       (enc_then (encode_properties props) (enc_seq (map (\<lambda>rc. put_u8 (reason_u8 rc)) codes)))"

interpretation reason_codec: codec "\<lambda>rc. put_u8 (reason_u8 rc)" "get_reason packet" "\<lambda>_. True" for packet
proof (unfold_locales, goal_cases)
  case (1 rc bs rest)
  then show ?case by (auto simp: put_u8_def get_reason_def get_u8_def reason_round)
next
  case (2 buf rc rest)
  then show ?case
    by (auto simp: get_reason_def dec_then_eq_Inr get_u8_def put_u8_def split: option.splits list.splits)
qed (simp add: put_u8_def)

function decode_codes :: "string \<Rightarrow> u8 list \<Rightarrow> Error + ReasonCode list" where
  "decode_codes packet buf =
     (if buf = [] then Inr []
      else (case get_reason packet buf of
              Inl e \<Rightarrow> Inl e
            | Inr (rc, rest) \<Rightarrow>
                (case decode_codes packet rest of Inl e \<Rightarrow> Inl e | Inr rcs \<Rightarrow> Inr (rc # rcs))))"
  by pat_completeness auto
termination by (relation "measure (length \<circ> snd)") (auto dest: reason_codec.dec_shrinks)

declare decode_codes.simps [simp del]

definition decode_id_props_codes :: "string \<Rightarrow> (u16 \<times> Property list \<times> ReasonCode list) dec" where
  "decode_id_props_codes packet =
     dec_then get_u16 (\<lambda>packet_id.
     dec_then decode_properties (\<lambda>properties buf.
       case decode_codes packet buf of
         Inl e \<Rightarrow> Inl e
       | Inr codes \<Rightarrow> Inr ((packet_id, properties, codes), [])))"

definition decode_suback :: "SubAckV5 dec" where
  "decode_suback =
     dec_map (\<lambda>(packet_id, properties, codes).
       \<lparr>sa_packet_id = packet_id, sa_properties = properties, sa_reason_codes = codes\<rparr>)
       (decode_id_props_codes ''SUBACK'')"

definition decode_unsuback :: "UnsubAckV5 dec" where
  "decode_unsuback =
     dec_map (\<lambda>(packet_id, properties, codes).
       \<lparr>ua_packet_id = packet_id, ua_properties = properties, ua_reason_codes = codes\<rparr>)
       (decode_id_props_codes ''UNSUBACK'')"

definition encode_unsubscribe :: "UnsubscribeV5 \<Rightarrow> enc" where
  "encode_unsubscribe u =
     enc_then (put_u16 (u_packet_id u))
       (enc_then (encode_properties (u_properties u)) (enc_seq (map put_string (u_topic_filters u))))"

function decode_filters :: "u8 list \<Rightarrow> Error + string list" where
  "decode_filters buf =
     (if buf = [] then Inr []
      else (case get_string buf of
              Inl e \<Rightarrow> Inl e
            | Inr (f, rest) \<Rightarrow>
                (case decode_filters rest of Inl e \<Rightarrow> Inl e | Inr fs \<Rightarrow> Inr (f # fs))))"
  by pat_completeness auto
termination by (relation "measure length") (auto dest: string_codec.dec_shrinks)

declare decode_filters.simps [simp del]

definition decode_unsubscribe :: "UnsubscribeV5 dec" where
  "decode_unsubscribe =
     dec_then get_u16 (\<lambda>packet_id.
     dec_then decode_properties (\<lambda>properties buf.
       case decode_filters buf of
         Inl e \<Rightarrow> Inl e
       | Inr fs \<Rightarrow>
           (if fs = []
            then Inl (Malformed (Literal ''UNSUBSCRIBE must contain at least one topic filter''))
            else Inr (\<lparr>u_packet_id = packet_id, u_properties = properties, u_topic_filters = fs\<rparr>, []))))"

section \<open>Whole packets\<close>

definition encode_body :: "PacketV5 \<Rightarrow> Error + u8 \<times> u8 \<times> u8 list" where
  "encode_body p =
     (let plain = (\<lambda>ty flags e. case e of Inl err \<Rightarrow> Inl err | Inr body \<Rightarrow> Inr (ty, flags, body)) in
      case p of
        Connect c \<Rightarrow> plain 1 0 (encode_connect c)
      | ConnAck c \<Rightarrow> plain 2 0 (encode_connack c)
      | Publish q \<Rightarrow>
          (case encode_publish q of Inl err \<Rightarrow> Inl err | Inr (f, body) \<Rightarrow> Inr (3, f, body))
      | PubAck a \<Rightarrow> plain 4 0 (encode_ack (ack_packet_id a) (ack_reason_code a) (ack_properties a))
      | PubRec a \<Rightarrow> plain 5 0 (encode_ack (ack_packet_id a) (ack_reason_code a) (ack_properties a))
      | PubRel a \<Rightarrow>
          plain 6 RESERVED_0010 (encode_ack (ack_packet_id a) (ack_reason_code a) (ack_properties a))
      | PubComp a \<Rightarrow> plain 7 0 (encode_ack (ack_packet_id a) (ack_reason_code a) (ack_properties a))
      | Subscribe s \<Rightarrow> plain 8 RESERVED_0010 (encode_subscribe s)
      | SubAck s \<Rightarrow> plain 9 0 (encode_id_props_codes (sa_packet_id s) (sa_properties s) (sa_reason_codes s))
      | Unsubscribe u \<Rightarrow> plain 10 RESERVED_0010 (encode_unsubscribe u)
      | UnsubAck u \<Rightarrow> plain 11 0 (encode_id_props_codes (ua_packet_id u) (ua_properties u) (ua_reason_codes u))
      | PingReq \<Rightarrow> Inr (12, 0, [])
      | PingResp \<Rightarrow> Inr (13, 0, [])
      | Disconnect d \<Rightarrow> plain 14 0 (encode_reason_props (d_reason_code d) (d_properties d))
      | Auth a \<Rightarrow> plain 15 0 (encode_reason_props (auth_reason_code a) (auth_properties a)))"

definition encode_v5 :: "PacketV5 \<Rightarrow> enc" where
  "encode_v5 p =
     (case encode_body p of
        Inl e \<Rightarrow> Inl e
      | Inr (ty, flags, body) \<Rightarrow>
          enc_then (put_u8 (push_bit 4 ty OR (flags AND 0x0f)))
            (if length body \<ge> 2 ^ 32 then Inl VarIntTooLong
             else enc_then (put_var_int (of_nat (length body))) (Inr body)))"

definition require_flags :: "u8 \<Rightarrow> u8 \<Rightarrow> 'a dec \<Rightarrow> 'a dec" where
  "require_flags actual expected d =
     (if actual = expected then d
      else dec_fail (Malformed (Literal ''reserved fixed-header flags must be 0b0010'')))"

definition decode_body :: "u8 \<Rightarrow> u8 \<Rightarrow> PacketV5 dec" where
  "decode_body type_nibble flags =
     (if type_nibble = 1 then dec_map Connect decode_connect
      else if type_nibble = 2 then dec_map ConnAck decode_connack
      else if type_nibble = 3 then dec_map Publish (decode_publish flags)
      else if type_nibble = 4 then dec_map PubAck (decode_ack ''PUBACK'')
      else if type_nibble = 5 then dec_map PubRec (decode_ack ''PUBREC'')
      else if type_nibble = 6 then
        require_flags flags RESERVED_0010 (dec_map PubRel (decode_ack ''PUBREL''))
      else if type_nibble = 7 then dec_map PubComp (decode_ack ''PUBCOMP'')
      else if type_nibble = 8 then
        require_flags flags RESERVED_0010 (dec_map Subscribe decode_subscribe)
      else if type_nibble = 9 then dec_map SubAck decode_suback
      else if type_nibble = 10 then
        require_flags flags RESERVED_0010 (dec_map Unsubscribe decode_unsubscribe)
      else if type_nibble = 11 then dec_map UnsubAck decode_unsuback
      else if type_nibble = 12 then dec_ok PingReq
      else if type_nibble = 13 then dec_ok PingResp
      else if type_nibble = 14 then
        dec_map (\<lambda>(rc, props). Disconnect \<lparr>d_reason_code = rc, d_properties = props\<rparr>)
          (decode_reason_props ''DISCONNECT'')
      else if type_nibble = 15 then
        dec_map (\<lambda>(rc, props). Auth \<lparr>auth_reason_code = rc, auth_properties = props\<rparr>)
          (decode_reason_props ''AUTH'')
      else dec_fail (Malformed (Literal ''unknown MQTT control packet type'')))"

definition decode_v5 :: "u8 list \<Rightarrow> Error + PacketV5 \<times> nat" where
  "decode_v5 input =
     (case input of
        [] \<Rightarrow> Inl (Underflow 2)
      | header # tail_bytes \<Rightarrow>
          (case decode_var_int tail_bytes of
             Inl e \<Rightarrow> Inl (Error_from e)
           | Inr (remaining, len_bytes) \<Rightarrow>
               (let total = 1 + len_bytes + unat remaining in
                if length input < total then Inl (Underflow (total - length input))
                else
                  (case decode_body (drop_bit 4 header) (header AND 0x0f)
                          (take (unat remaining) (drop len_bytes tail_bytes)) of
                     Inl e \<Rightarrow> Inl e
                   | Inr (packet, _) \<Rightarrow> Inr (packet, total)))))"

end
