(* ===== verification/Mqtt_Codec_Correct.thy ===== *)
theory Mqtt_Codec_Correct
  imports Mqtt_Codec
begin

text \<open>
  The MQTT 5 packet codec is correct: a packet that is encoded decodes to itself, and whatever is
  decoded can be encoded again and decodes to the same packet.
\<close>

section \<open>Loops over the payload\<close>

interpretation subs_loop: codec_loop encode_subscription decode_subscription
  "\<lambda>sub. str_ok (sub_topic_filter sub)" decode_subscriptions
  by unfold_locales (subst decode_subscriptions.simps; simp)+

interpretation codes_loop: codec_loop "\<lambda>rc. put_u8 (reason_u8 rc)" "get_reason packet" "\<lambda>_. True"
  "decode_codes packet" for packet
  by unfold_locales (subst decode_codes.simps; simp)+

interpretation filters_loop: codec_loop put_string get_string str_ok decode_filters
  by unfold_locales (subst decode_filters.simps; simp)+

text \<open>Reading back one field, with or without something behind it.\<close>

lemmas field_round =
  u8_codec.dec_enc [OF TrueI] u16_codec.dec_enc [OF TrueI] string_codec.dec_enc [rotated]
  binary_codec.dec_enc [OF TrueI] props_codec.dec_enc [rotated] reason_codec.dec_enc [OF TrueI]

lemmas last_round = field_round [where rest = "[]", simplified append_Nil2]

lemmas field_sound = u8_codec.dec_sound u16_codec.dec_sound string_codec.dec_sound
  binary_codec.dec_sound props_codec.dec_sound reason_codec.dec_sound

section \<open>CONNECT and CONNACK\<close>

fun will_ok :: "Will option \<Rightarrow> bool" where
  "will_ok None \<longleftrightarrow> True"
| "will_ok (Some w) \<longleftrightarrow> str_ok (will_topic w) \<and> props_ok (will_properties w)"

definition connect_ok :: "ConnectV5 \<Rightarrow> bool" where
  "connect_ok c \<longleftrightarrow> str_ok (con_client_id c) \<and> props_ok (con_properties c) \<and> will_ok (con_will c) \<and>
     (case con_username c of None \<Rightarrow> True | Some u \<Rightarrow> str_ok u)"

lemma connect_flags_bits:
  "connect_flags c AND 0x01 = 0"
  "connect_flags c AND 0x02 \<noteq> 0 \<longleftrightarrow> clean_start c"
  "connect_flags c AND 0x04 \<noteq> 0 \<longleftrightarrow> con_will c \<noteq> None"
  "connect_flags c AND 0x40 \<noteq> 0 \<longleftrightarrow> con_password c \<noteq> None"
  "connect_flags c AND 0x80 \<noteq> 0 \<longleftrightarrow> con_username c \<noteq> None"
  "connect_flags c AND 0x20 \<noteq> 0 \<longleftrightarrow> (\<exists>w. con_will c = Some w \<and> will_retain w)"
  "drop_bit 3 (connect_flags c) AND 0x03 = (case con_will c of None \<Rightarrow> 0 | Some w \<Rightarrow> qos_u8 (will_qos w))"
proof -
  consider "con_will c = None" | w q r where "con_will c = Some w" "will_qos w = q" "will_retain w = r"
    by (cases "con_will c") auto
  note will_cases = this
  show "connect_flags c AND 0x01 = 0"
    "connect_flags c AND 0x02 \<noteq> 0 \<longleftrightarrow> clean_start c"
    "connect_flags c AND 0x04 \<noteq> 0 \<longleftrightarrow> con_will c \<noteq> None"
    "connect_flags c AND 0x40 \<noteq> 0 \<longleftrightarrow> con_password c \<noteq> None"
    "connect_flags c AND 0x80 \<noteq> 0 \<longleftrightarrow> con_username c \<noteq> None"
    "connect_flags c AND 0x20 \<noteq> 0 \<longleftrightarrow> (\<exists>w. con_will c = Some w \<and> will_retain w)"
    "drop_bit 3 (connect_flags c) AND 0x03 = (case con_will c of None \<Rightarrow> 0 | Some w \<Rightarrow> qos_u8 (will_qos w))"
    by (rule will_cases; cases "clean_start c"; cases "con_username c"; cases "con_password c";
        simp add: connect_flags_def Let_def; case_tac q; case_tac r; simp)+
qed

lemma decode_will_round:
  assumes "will_ok (con_will c)"
    and "enc_seq (case con_will c of
           Some w \<Rightarrow> [encode_properties (will_properties w), put_string (will_topic w), put_binary (will_payload w)]
         | None \<Rightarrow> []) = Inr bs"
  shows "decode_will (connect_flags c) (bs @ rest) = Inr (con_will c, rest)"
proof (cases "con_will c")
  case None
  with assms(2) connect_flags_bits [of c] show ?thesis by (simp add: decode_will_def)
next
  case (Some w)
  with assms obtain x y z where "encode_properties (will_properties w) = Inr x" "put_string (will_topic w) = Inr y"
    "put_binary (will_payload w) = Inr z" "bs = x @ y @ z" "str_ok (will_topic w)" "props_ok (will_properties w)"
    by auto
  with Some connect_flags_bits [of c] show ?thesis
    by (simp add: decode_will_def field_round QoS_round)
qed

lemma enc_seq_append: "enc_seq (xs @ ys) = enc_then (enc_seq xs) (enc_seq ys)"
  by (induction xs) (auto simp: enc_then_def split: sum.splits)

lemma connect_round:
  assumes "connect_ok c" and "encode_connect c = Inr bs"
  shows "decode_connect bs = Inr (c, [])"
proof -
  let ?will = "case con_will c of
      Some w \<Rightarrow> [encode_properties (will_properties w), put_string (will_topic w), put_binary (will_payload w)]
    | None \<Rightarrow> []"
  let ?user = "case con_username c of Some u \<Rightarrow> [put_string u] | None \<Rightarrow> []"
  let ?pass = "case con_password c of Some p \<Rightarrow> [put_binary p] | None \<Rightarrow> []"
  from assms(2) obtain m l f k p i w u d where
    fields: "put_string ''MQTT'' = Inr m" "put_u8 5 = Inr l" "put_u8 (connect_flags c) = Inr f"
      "put_u16 (keep_alive_secs c) = Inr k" "encode_properties (con_properties c) = Inr p"
      "put_string (con_client_id c) = Inr i" "enc_seq ?will = Inr w" "enc_seq ?user = Inr u"
      "enc_seq ?pass = Inr d"
    and bs: "bs = m @ l @ f @ k @ p @ i @ w @ u @ d"
    unfolding encode_connect_def enc_seq_append enc_then_Inr by auto
  have ok: "str_ok ''MQTT''" "str_ok (con_client_id c)" "props_ok (con_properties c)" "will_ok (con_will c)"
    using assms(1) by (simp_all add: connect_ok_def str_ok_def as_bytes_def)
  note bits = connect_flags_bits [of c]
  have user: "(if connect_flags c AND 0x80 \<noteq> 0 then dec_map Some get_string else dec_ok None) (u @ d) =
      Inr (con_username c, d)"
    using fields(8) assms(1) bits(5) by (cases "con_username c") (auto simp: dec_map_def field_round connect_ok_def)
  have pass: "(if connect_flags c AND 0x40 \<noteq> 0 then dec_map Some get_binary else dec_ok None) d =
      Inr (con_password c, [])"
    using fields(9) bits(4) by (cases "con_password c") (auto simp: dec_map_def last_round)
  show ?thesis
    unfolding bs decode_connect_def decode_connect_fields_def
    using fields(1-6) ok decode_will_round [OF ok(4) fields(7)] user pass bits(1,2)
    by (simp add: field_round)
qed

lemma connect_sound:
  assumes "decode_connect buf = Inr (c, rest)"
  shows "connect_ok c \<and> (\<exists>bs. encode_connect c = Inr bs \<and> length bs + length rest \<le> length buf)"
proof -
  from assms obtain b1 b2 flags b3 where
    head: "get_string buf = Inr (''MQTT'', b1)" "get_u8 b1 = Inr (5, b2)" "get_u8 b2 = Inr (flags, b3)"
    and tail: "decode_connect_fields flags b3 = Inr (c, rest)"
    by (auto simp: decode_connect_def dec_then_eq_Inr split: if_split_asm)
  from tail obtain ka b4 props b5 cid b6 will b7 user b8 pass where
    d: "get_u16 b3 = Inr (ka, b4)" "decode_properties b4 = Inr (props, b5)" "get_string b5 = Inr (cid, b6)"
      "decode_will flags b6 = Inr (will, b7)"
      "(if flags AND 0x80 \<noteq> 0 then dec_map Some get_string else dec_ok None) b7 = Inr (user, b8)"
      "(if flags AND 0x40 \<noteq> 0 then dec_map Some get_binary else dec_ok None) b8 = Inr (pass, rest)"
    and c: "c = \<lparr>con_client_id = cid, clean_start = (flags AND 0x02 \<noteq> 0), keep_alive_secs = ka,
      con_properties = props, con_will = will, con_username = user, con_password = pass\<rparr>"
    unfolding decode_connect_fields_def dec_then_eq_Inr dec_simps by blast
  let ?will = "case will of
      Some w \<Rightarrow> [encode_properties (will_properties w), put_string (will_topic w), put_binary (will_payload w)]
    | None \<Rightarrow> []"
  have w: "will_ok will \<and> (\<exists>bs. enc_seq ?will = Inr bs \<and> length bs + length b7 \<le> length b6)"
    using d(4) by (auto simp: decode_will_def dec_then_eq_Inr dest!: field_sound split: if_split_asm option.splits)
  have u: "(case user of None \<Rightarrow> True | Some u \<Rightarrow> str_ok u) \<and>
      (\<exists>bs. enc_seq (case user of Some u \<Rightarrow> [put_string u] | None \<Rightarrow> []) = Inr bs \<and> length bs + length b8 \<le> length b7)"
    using d(5) by (auto simp: dec_map_Inr dest!: field_sound split: if_split_asm)
  have p: "\<exists>bs. enc_seq (case pass of Some p \<Rightarrow> [put_binary p] | None \<Rightarrow> []) = Inr bs \<and> length bs + length rest \<le> length b8"
    using d(6) by (auto simp: dec_map_Inr dest!: field_sound split: if_split_asm)
  have l: "length (b2 :: u8 list) + 1 \<le> length b1" "length b3 + 1 \<le> length b2"
    using head(2,3) by (auto simp: get_u8_def split: list.splits)
  from string_codec.dec_sound [OF head(1)] u16_codec.dec_sound [OF d(1)] props_codec.dec_sound [OF d(2)]
    string_codec.dec_sound [OF d(3)] w u p l c
  show ?thesis
    unfolding encode_connect_def enc_seq_append
    by (auto simp: connect_ok_def put_u8_def)
qed

lemma connack_round:
  assumes "props_ok (ca_properties c)" and "encode_connack c = Inr bs"
  shows "decode_connack bs = Inr (c, [])"
  using assms
  by (cases c) (auto simp: encode_connack_def decode_connack_def put_u8_def get_u8_def field_round last_round
      reason_codec.dec_enc [unfolded put_u8_def, OF TrueI refl, simplified])

lemma connack_sound:
  assumes "decode_connack buf = Inr (c, rest)"
  shows "props_ok (ca_properties c) \<and> (\<exists>bs. encode_connack c = Inr bs \<and> length bs + length rest \<le> length buf)"
  using assms
  by (fastforce simp: encode_connack_def decode_connack_def dec_then_eq_Inr put_u8_def dest!: field_sound)

section \<open>PUBLISH\<close>

definition publish_ok :: "PublishV5 \<Rightarrow> bool" where
  "publish_ok p \<longleftrightarrow> str_ok (pub_topic p) \<and> props_ok (pub_properties p) \<and>
     (pub_qos p = AtMostOnce \<longrightarrow> pub_packet_id p = None \<and> \<not> pub_dup p)"

lemma publish_flags_bits:
  "publish_flags p AND 0x0f = publish_flags p"
  "publish_flags p AND 0x08 \<noteq> 0 \<longleftrightarrow> pub_dup p"
  "publish_flags p AND 0x01 \<noteq> 0 \<longleftrightarrow> pub_retain p"
  "drop_bit 1 (publish_flags p) AND 0x03 = qos_u8 (pub_qos p)"
  by (cases "pub_dup p"; cases "pub_retain p"; cases "pub_qos p"; simp add: publish_flags_def)+

lemma publish_round:
  assumes "publish_ok p" and "encode_publish p = Inr (f, bs)"
  shows "f = publish_flags p" and "decode_publish f bs = Inr (p, [])"
proof -
  from assms(2) obtain t i ps where
    enc: "put_string (pub_topic p) = Inr t" "encode_properties (pub_properties p) = Inr ps"
    and pid: "(if pub_qos p \<noteq> AtMostOnce
          then (case pub_packet_id p of
                  None \<Rightarrow> Inl (Malformed (Literal ''PUBLISH QoS > 0 missing packet id''))
                | Some pid \<Rightarrow> put_u16 pid)
          else Inr []) = Inr i"
    and bs: "bs = t @ i @ ps @ pub_payload p" and f: "f = publish_flags p"
    by (auto simp: encode_publish_def split: sum.splits)
  show "f = publish_flags p" by (fact f)
  have "(if pub_qos p = AtMostOnce then dec_ok None else dec_map Some get_u16) (i @ ps @ pub_payload p) =
      Inr (pub_packet_id p, ps @ pub_payload p)"
    using pid assms(1) by (auto simp: publish_ok_def dec_map_def field_round split: option.splits)
  then show "decode_publish f bs = Inr (p, [])"
    using enc assms(1) publish_flags_bits [of p] unfolding f bs
    by (auto simp: decode_publish_def QoS_round field_round publish_ok_def Let_def)
qed

lemma publish_sound:
  assumes "decode_publish f buf = Inr (p, rest)"
  shows "publish_ok p \<and> (\<exists>bs. encode_publish p = Inr (publish_flags p, bs) \<and> length bs \<le> length buf)"
proof -
  from assms obtain qos where q: "\<not> (f AND 0x08 \<noteq> 0 \<and> qos = AtMostOnce)"
    and fields: "dec_then get_string (\<lambda>topic.
       dec_then (if qos = AtMostOnce then dec_ok None else dec_map Some get_u16) (\<lambda>pid.
       dec_then decode_properties (\<lambda>properties buf.
       Inr (\<lparr>pub_topic = topic, pub_qos = qos, pub_retain = (f AND 0x01 \<noteq> 0), pub_dup = (f AND 0x08 \<noteq> 0),
             pub_packet_id = pid, pub_properties = properties, pub_payload = buf\<rparr>, [])))) buf = Inr (p, rest)"
    unfolding decode_publish_def Let_def by (simp split: option.splits if_split_asm)
  from fields obtain topic b1 pid b2 props b3 where d: "get_string buf = Inr (topic, b1)"
      "(if qos = AtMostOnce then dec_ok None else dec_map Some get_u16) b1 = Inr (pid, b2)"
      "decode_properties b2 = Inr (props, b3)"
    and p: "p = \<lparr>pub_topic = topic, pub_qos = qos, pub_retain = (f AND 0x01 \<noteq> 0), pub_dup = (f AND 0x08 \<noteq> 0),
      pub_packet_id = pid, pub_properties = props, pub_payload = b3\<rparr>"
    unfolding dec_then_eq_Inr by blast
  have "(qos = AtMostOnce \<longrightarrow> pid = None) \<and>
      (\<exists>bs. (if qos \<noteq> AtMostOnce
          then (case pid of None \<Rightarrow> Inl (Malformed (Literal ''PUBLISH QoS > 0 missing packet id''))
                | Some pid \<Rightarrow> put_u16 pid)
          else Inr []) = Inr bs \<and> length bs + length b2 \<le> length b1)"
    using d(2) by (auto simp: dec_map_Inr dest!: field_sound split: if_split_asm)
  with q p string_codec.dec_sound [OF d(1)] props_codec.dec_sound [OF d(3)] show ?thesis
    by (auto simp: publish_ok_def encode_publish_def enc_then_def)
qed

section \<open>Acknowledgements\<close>

lemma decode_reason_props_round:
  assumes "props_ok props" and "encode_reason_props r props = Inr bs"
  shows "decode_reason_props packet bs = Inr ((r, props), [])"
proof (cases "r = Success \<and> props = []")
  case True
  with assms(2) show ?thesis by (simp add: encode_reason_props_def decode_reason_props_def)
next
  case False
  with assms(2) obtain ps where ps: "encode_properties props = Inr ps" and bs: "bs = [reason_u8 r] @ ps"
    by (auto simp: encode_reason_props_def put_u8_def)
  have "get_reason packet ([reason_u8 r] @ ps) = Inr (r, ps)"
    by (rule reason_codec.dec_enc) (simp_all add: put_u8_def)
  with bs ps assms(1) props_codec.enc_nonempty [OF ps] show ?thesis
    by (simp add: decode_reason_props_def dec_map_def last_round)
qed

text \<open>The short form with a reason code and no property block grows by the length byte.\<close>

lemma decode_reason_props_sound:
  assumes "decode_reason_props packet buf = Inr ((r, props), rest)"
  shows "props_ok props \<and> (\<exists>bs. encode_reason_props r props = Inr bs \<and> length bs \<le> max 2 (length buf))"
proof -
  have nil: "props_ok []" "encode_properties [] = Inr [0]"
    by (simp_all add: props_ok_def encode_properties_def put_var_int_def encode_var_int_def encode_var_int_last)
  have "buf = [] \<and> r = Success \<and> props = [] \<or>
      (\<exists>b. get_reason packet buf = Inr (r, b) \<and>
         (b = [] \<and> props = [] \<or> decode_properties b = Inr (props, rest)))"
    using assms by (auto simp: decode_reason_props_def dec_then_eq_Inr dec_map_Inr split: if_split_asm)
  then show ?thesis
  proof (elim disjE conjE exE)
    fix b assume "get_reason packet buf = Inr (r, b)" "b = []" "props = []"
    with nil show ?thesis by (simp add: encode_reason_props_def put_u8_def max_def)
  next
    fix b assume g: "get_reason packet buf = Inr (r, b)" and d: "decode_properties b = Inr (props, rest)"
    from reason_codec.dec_sound [OF g] props_codec.dec_sound [OF d] show ?thesis
      by (auto simp: encode_reason_props_def put_u8_def)
  qed (simp_all add: nil encode_reason_props_def)
qed

lemma encode_ack_eq:
  "encode_ack i r props = enc_then (put_u16 i) (encode_reason_props r props)"
  by (simp add: encode_ack_def encode_reason_props_def)

lemma decode_ack_eq:
  "decode_ack packet = dec_then get_u16 (\<lambda>i. dec_map (\<lambda>(r, props).
     \<lparr>ack_packet_id = i, ack_reason_code = r, ack_properties = props\<rparr>) (decode_reason_props packet))"
  by (auto simp: decode_ack_def decode_reason_props_def dec_map_def dec_then_def fun_eq_iff split: sum.splits)

lemma ack_round:
  assumes "props_ok (ack_properties a)"
    and "encode_ack (ack_packet_id a) (ack_reason_code a) (ack_properties a) = Inr bs"
  shows "decode_ack packet bs = Inr (a, [])"
  using assms decode_reason_props_round [OF assms(1)]
  by (auto simp: encode_ack_eq decode_ack_eq dec_map_def field_round)

lemma ack_sound:
  assumes "decode_ack packet buf = Inr (a, rest)"
  shows "props_ok (ack_properties a) \<and>
    (\<exists>bs. encode_ack (ack_packet_id a) (ack_reason_code a) (ack_properties a) = Inr bs \<and>
       length bs \<le> max 4 (length buf))"
proof -
  from assms obtain i b r props where i: "get_u16 buf = Inr (i, b)"
    and d: "decode_reason_props packet b = Inr ((r, props), rest)"
    and a: "a = \<lparr>ack_packet_id = i, ack_reason_code = r, ack_properties = props\<rparr>"
    by (auto simp: decode_ack_eq dec_then_eq_Inr dec_map_Inr)
  from decode_reason_props_sound [OF d] u16_codec.dec_sound [OF i] a show ?thesis
    by (auto simp: encode_ack_eq put_u16_def)
qed

section \<open>SUBSCRIBE, SUBACK, UNSUBSCRIBE, UNSUBACK\<close>

definition subscribe_ok :: "SubscribeV5 \<Rightarrow> bool" where
  "subscribe_ok s \<longleftrightarrow> props_ok (s_properties s) \<and> s_subscriptions s \<noteq> [] \<and>
     (\<forall>sub \<in> set (s_subscriptions s). str_ok (sub_topic_filter sub))"

definition unsubscribe_ok :: "UnsubscribeV5 \<Rightarrow> bool" where
  "unsubscribe_ok u \<longleftrightarrow> props_ok (u_properties u) \<and> u_topic_filters u \<noteq> [] \<and>
     (\<forall>f \<in> set (u_topic_filters u). str_ok f)"

text \<open>What the three payload packets have in common: an identifier, properties and a sequence.\<close>

lemma id_props_sound:
  assumes "get_u16 buf = Inr (i, b1)" and "decode_properties b1 = Inr (ps, b2)"
    and "\<exists>e. payload = Inr e \<and> length e \<le> length b2"
  shows "props_ok ps \<and>
    (\<exists>bs. enc_then (put_u16 i) (enc_then (encode_properties ps) payload) = Inr bs \<and> length bs \<le> length buf)"
  using u16_codec.dec_sound [OF assms(1)] props_codec.dec_sound [OF assms(2)] assms(3) by auto

lemma subscribe_round:
  assumes "subscribe_ok s" and "encode_subscribe s = Inr bs"
  shows "decode_subscribe bs = Inr (s, [])"
  using assms subs_loop.loop_enc [of "s_subscriptions s"]
  by (auto simp: subscribe_ok_def encode_subscribe_def decode_subscribe_def field_round)

lemma subscribe_sound:
  assumes "decode_subscribe buf = Inr (s, rest)"
  shows "subscribe_ok s \<and> (\<exists>bs. encode_subscribe s = Inr bs \<and> length bs \<le> length buf)"
proof -
  from assms obtain i b1 ps b2 subs where d: "get_u16 buf = Inr (i, b1)" "decode_properties b1 = Inr (ps, b2)"
    "decode_subscriptions b2 = Inr subs" "subs \<noteq> []"
    and s: "s = \<lparr>s_packet_id = i, s_properties = ps, s_subscriptions = subs\<rparr>"
    by (auto simp: decode_subscribe_def dec_then_eq_Inr result_bind_Inr split: if_split_asm)
  note loop = subs_loop.loop_sound [OF d(3)]
  show ?thesis
    using id_props_sound [OF d(1,2) loop [THEN conjunct2]] loop d(4) s
    by (simp add: subscribe_ok_def encode_subscribe_def)
qed

lemma unsubscribe_round:
  assumes "unsubscribe_ok u" and "encode_unsubscribe u = Inr bs"
  shows "decode_unsubscribe bs = Inr (u, [])"
  using assms filters_loop.loop_enc [of "u_topic_filters u"]
  by (auto simp: unsubscribe_ok_def encode_unsubscribe_def decode_unsubscribe_def field_round)

lemma unsubscribe_sound:
  assumes "decode_unsubscribe buf = Inr (u, rest)"
  shows "unsubscribe_ok u \<and> (\<exists>bs. encode_unsubscribe u = Inr bs \<and> length bs \<le> length buf)"
proof -
  from assms obtain i b1 ps b2 fs where d: "get_u16 buf = Inr (i, b1)" "decode_properties b1 = Inr (ps, b2)"
    "decode_filters b2 = Inr fs" "fs \<noteq> []"
    and u: "u = \<lparr>u_packet_id = i, u_properties = ps, u_topic_filters = fs\<rparr>"
    by (auto simp: decode_unsubscribe_def dec_then_eq_Inr result_bind_Inr split: if_split_asm)
  note loop = filters_loop.loop_sound [OF d(3)]
  show ?thesis
    using id_props_sound [OF d(1,2) loop [THEN conjunct2]] loop d(4) u
    by (simp add: unsubscribe_ok_def encode_unsubscribe_def)
qed

lemma id_props_codes_round:
  assumes "props_ok props" and "encode_id_props_codes i props codes = Inr bs"
  shows "decode_id_props_codes packet bs = Inr ((i, props, codes), [])"
  using assms codes_loop.loop_enc [of codes]
  by (auto simp: encode_id_props_codes_def decode_id_props_codes_def field_round)

lemma id_props_codes_sound:
  assumes "decode_id_props_codes packet buf = Inr ((i, props, codes), rest)"
  shows "props_ok props \<and> (\<exists>bs. encode_id_props_codes i props codes = Inr bs \<and> length bs \<le> length buf)"
proof -
  from assms obtain b1 b2 where d: "get_u16 buf = Inr (i, b1)" "decode_properties b1 = Inr (props, b2)"
    "decode_codes packet b2 = Inr codes"
    by (auto simp: decode_id_props_codes_def dec_then_eq_Inr result_bind_Inr)
  note loop = codes_loop.loop_sound [OF d(3)]
  show ?thesis
    using id_props_sound [OF d(1,2) loop [THEN conjunct2]] by (simp add: encode_id_props_codes_def)
qed

section \<open>Whole packets\<close>

fun packet_ok :: "PacketV5 \<Rightarrow> bool" where
  "packet_ok (Connect c) \<longleftrightarrow> connect_ok c"
| "packet_ok (ConnAck c) \<longleftrightarrow> props_ok (ca_properties c)"
| "packet_ok (Publish p) \<longleftrightarrow> publish_ok p"
| "packet_ok (PubAck a) \<longleftrightarrow> props_ok (ack_properties a)"
| "packet_ok (PubRec a) \<longleftrightarrow> props_ok (ack_properties a)"
| "packet_ok (PubRel a) \<longleftrightarrow> props_ok (ack_properties a)"
| "packet_ok (PubComp a) \<longleftrightarrow> props_ok (ack_properties a)"
| "packet_ok (Subscribe s) \<longleftrightarrow> subscribe_ok s"
| "packet_ok (SubAck s) \<longleftrightarrow> props_ok (sa_properties s)"
| "packet_ok (Unsubscribe u) \<longleftrightarrow> unsubscribe_ok u"
| "packet_ok (UnsubAck u) \<longleftrightarrow> props_ok (ua_properties u)"
| "packet_ok PingReq \<longleftrightarrow> True"
| "packet_ok PingResp \<longleftrightarrow> True"
| "packet_ok (Disconnect d) \<longleftrightarrow> props_ok (d_properties d)"
| "packet_ok (Auth a) \<longleftrightarrow> props_ok (auth_properties a)"

lemmas body_round = connect_round connack_round publish_round(2) ack_round subscribe_round
  unsubscribe_round id_props_codes_round decode_reason_props_round

lemma header_nibbles:
  fixes t f :: u8
  assumes "take_bit 4 t = t"
  shows "drop_bit 4 (push_bit 4 t OR (f AND 0x0f)) = t" "(push_bit 4 t OR (f AND 0x0f)) AND 0x0f = f AND 0x0f"
proof -
  have m: "x AND 0x0f = take_bit 4 x" for x :: u8
    by (simp add: take_bit_eq_mask mask_eq_exp_minus_1)
  have t: "bit t n \<Longrightarrow> n < 4" for n using assms by (metis bit_take_bit_iff)
  show "drop_bit 4 (push_bit 4 t OR (f AND 0x0f)) = t"
    unfolding m by (rule bit_word_eqI) (auto simp: bit_drop_bit_eq bit_or_iff bit_push_bit_iff bit_take_bit_iff dest: t)
  show "(push_bit 4 t OR (f AND 0x0f)) AND 0x0f = f AND 0x0f"
    unfolding m by (rule bit_word_eqI) (auto simp: bit_or_iff bit_push_bit_iff bit_take_bit_iff)
qed

lemma encode_body_type: "encode_body p = Inr (ty, flags, body) \<Longrightarrow> take_bit 4 ty = ty"
  by (cases p) (auto simp: encode_body_def Let_def split: sum.splits)

lemma body_round_trip:
  assumes "packet_ok p" and "encode_body p = Inr (ty, flags, body)"
  shows "decode_body ty (flags AND 0x0f) body = Inr (p, [])"
proof (cases "\<exists>q. p = Publish q")
  case True
  then obtain q where q: "p = Publish q" by blast
  with assms have ok: "publish_ok q" and enc: "encode_publish q = Inr (flags, body)" and ty: "ty = 3"
    by (auto simp: encode_body_def Let_def split: sum.splits)
  have "flags AND 0x0f = flags" using publish_round(1) [OF ok enc] publish_flags_bits(1) by simp
  then show ?thesis using publish_round(2) [OF ok enc] q ty by (simp add: decode_body_def dec_map_def)
next
  case False
  with assms show ?thesis
    by (cases p)
      (auto simp: encode_body_def decode_body_def Let_def dec_map_def body_round
        require_flags_def RESERVED_0010_def decode_suback_def decode_unsuback_def split: sum.splits)
qed

lemmas body_sound = connect_sound connack_sound publish_sound ack_sound subscribe_sound
  unsubscribe_sound id_props_codes_sound decode_reason_props_sound

lemma encode_body_fits:
  assumes "decode_body t f buf = Inr (p, rest)"
  shows "packet_ok p \<and> (\<exists>ty flags body. encode_body p = Inr (ty, flags, body) \<and> length body \<le> max 4 (length buf))"
  using assms unfolding decode_body_def require_flags_def decode_suback_def decode_unsuback_def
  by (simp only: split: if_split_asm)
    (auto simp: dec_map_Inr encode_body_def Let_def dest!: body_sound)

section \<open>Properties of the codec\<close>

lemma encode_v5_Inr:
  assumes "encode_v5 p = Inr bs"
  obtains ty flags body len where "encode_body p = Inr (ty, flags, body)" and "length body < 2 ^ 32"
    and "encode_var_int (of_nat (length body)) = Inr len"
    and "bs = (push_bit 4 ty OR (flags AND 0x0f)) # len @ body"
proof -
  obtain ty flags body where b: "encode_body p = Inr (ty, flags, body)"
    using assms by (cases "encode_body p") (auto simp: encode_v5_def)
  from assms have "length body < 2 ^ 32"
    and "\<exists>len. encode_var_int (of_nat (length body)) = Inr len \<and> bs = (push_bit 4 ty OR (flags AND 0x0f)) # len @ body"
    by (auto simp: b encode_v5_def put_u8_def put_var_int_def split: if_split_asm sum.splits)
  with b that show thesis by blast
qed

text \<open>What the decoder does with a complete frame.\<close>

lemma decode_v5_frame:
  assumes "encode_var_int (of_nat (length body)) = Inr len" and "length body < 2 ^ 32"
  shows "decode_v5 (header # len @ body @ rest) =
    (case decode_body (drop_bit 4 header) (header AND 0x0f) body of
       Inl e \<Rightarrow> Inl e | Inr (packet, _) \<Rightarrow> Inr (packet, 1 + length len + length body))"
proof -
  have "decode_var_int (len @ body @ rest) = Inr (of_nat (length body), length len)"
    using decode_var_int_eq [OF assms(1), of "body @ rest"] by simp
  moreover have "unat (of_nat (length body) :: u32) = length body" using assms(2) by (simp add: unat_of_nat)
  ultimately show ?thesis by (simp add: decode_v5_def Let_def split: sum.split)
qed

lemma decode_after_encode:
  assumes "packet_ok p" and "encode_v5 p = Inr bs"
  shows "decode_v5 (bs @ rest) = Inr (p, length bs)"
proof -
  obtain ty flags body len where b: "encode_body p = Inr (ty, flags, body)" and small: "length body < 2 ^ 32"
    and len: "encode_var_int (of_nat (length body)) = Inr len"
    and bs: "bs = (push_bit 4 ty OR (flags AND 0x0f)) # len @ body"
    using encode_v5_Inr [OF assms(2)] .
  note nib = header_nibbles [OF encode_body_type [OF b], of flags]
  show ?thesis
    using decode_v5_frame [OF len small, of "push_bit 4 ty OR (flags AND 0x0f)" rest] body_round_trip [OF assms(1) b]
    unfolding nib bs by simp
qed

lemma decode_v5_Inr:
  assumes "decode_v5 input = Inr (p, n)"
  obtains header buf remaining k rest where "input = header # buf" "decode_var_int buf = Inr (remaining, k)"
    "n = 1 + k + unat remaining" "n \<le> length input"
    "decode_body (drop_bit 4 header) (header AND 0x0f) (take (unat remaining) (drop k buf)) = Inr (p, rest)"
  using assms that by (cases input) (auto simp: decode_v5_def Let_def split: sum.splits if_split_asm)

lemma decode_v5_progress: "decode_v5 input = Inr (p, n) \<Longrightarrow> 0 < n \<and> n \<le> length input"
  by (erule decode_v5_Inr) simp

lemma encode_after_decode:
  assumes "decode_v5 input = Inr (p, n)"
  shows "packet_ok p \<and> (\<exists>bs. encode_v5 p = Inr bs)"
proof -
  obtain header buf remaining k rest where v: "decode_var_int buf = Inr (remaining, k)"
    and d: "decode_body (drop_bit 4 header) (header AND 0x0f) (take (unat remaining) (drop k buf)) = Inr (p, rest)"
    using decode_v5_Inr [OF assms] by metis
  from encode_body_fits [OF d] obtain ty flags body where ok: "packet_ok p"
    and b: "encode_body p = Inr (ty, flags, body)" and "length body \<le> max 4 (unat remaining)"
    by force
  moreover have "unat remaining < 128 ^ 4" using decode_var_int_bound [OF v] by simp
  ultimately have small: "length body < 128 ^ 4" by simp
  then have "unat (of_nat (length body) :: u32) < 128 ^ 4" by (simp add: unat_of_nat)
  from encode_var_int_fits [OF this] obtain len where "encode_var_int (of_nat (length body)) = Inr len"
    by auto
  with b small have "encode_v5 p = Inr ((push_bit 4 ty OR (flags AND 0x0f)) # len @ body)"
    by (simp add: encode_v5_def put_u8_def put_var_int_def enc_then_def)
  with ok show ?thesis by blast
qed

text \<open>
  Variable byte integers. A length can be encoded exactly when it is below 268435456; decoding
  the bytes, whatever follows them, gives the length back and the number of bytes read, which is
  between one and four and never more than any other encoding the decoder accepts for it.
\<close>

theorem var_int_exact:
  "((\<exists>bs. encode_var_int v = Inr bs) \<longleftrightarrow> unat v < 268435456) \<and>
   (\<forall>bs. encode_var_int v = Inr bs \<longrightarrow>
      (\<forall>rest. decode_var_int (bs @ rest) = Inr (v, length bs)) \<and> bs \<noteq> [] \<and> length bs \<le> 4 \<and>
      (\<forall>input n. decode_var_int input = Inr (v, n) \<longrightarrow> length bs \<le> n))"
proof (intro conjI allI impI iffI)
  show "unat v < 268435456" if "\<exists>bs. encode_var_int v = Inr bs"
    using that decode_var_int_eq [of v _ "[]"] decode_var_int_bound by blast
  show "\<exists>bs. encode_var_int v = Inr bs" if "unat v < 268435456"
    using encode_var_int_fits [of v 4] that by auto
  fix bs assume bs: "encode_var_int v = Inr bs"
  show "decode_var_int (bs @ rest) = Inr (v, length bs)" for rest using decode_var_int_eq [OF bs] .
  show "bs \<noteq> []" "length bs \<le> 4"
    using var_int_round [of v 0 bs] bs by (simp_all add: encode_var_int_def)
  show "length bs \<le> n" if "decode_var_int input = Inr (v, n)" for input n
    using encode_var_int_fits [of v n] decode_var_int_Inr [OF that] bs by auto
qed

theorem var_int_exact_witness: "\<exists>bs. encode_var_int 321 = Inr bs \<and> decode_var_int (bs @ [7]) = Inr (321, length bs)"
  using var_int_exact [of 321] by auto

text \<open>
  C15. Packets survive the wire. A well-formed packet that \<open>encode_v5\<close> accepts decodes to itself,
  and the decoder consumes exactly its bytes whatever follows them in the stream. Well-formed means:
  strings are UTF-8, no property but User Property and Subscription Identifier occurs twice and the
  latter is not 0, a QoS 0 PUBLISH has no packet identifier and no DUP flag, and SUBSCRIBE and
  UNSUBSCRIBE name at least one filter.
\<close>

theorem packet_round_trip:
  assumes "packet_ok p" and "encode_v5 p = Inr bs"
  shows "decode_v5 (bs @ rest) = Inr (p, length bs)"
  using assms by (rule decode_after_encode)

definition demo_puback :: PacketV5 where
  "demo_puback = PubAck \<lparr>ack_packet_id = 258, ack_reason_code = NoMatchingSubscribers,
     ack_properties = [TopicAlias 772]\<rparr>"

theorem packet_round_trip_witness:
  "\<exists>bs. encode_v5 demo_puback = Inr bs \<and> decode_v5 (bs @ [9]) = Inr (demo_puback, length bs)"
proof -
  have ok: "packet_ok demo_puback"
    by (simp add: demo_puback_def props_ok_def)
  have "unat (of_nat 3 :: u32) < 128 ^ 1" "unat (of_nat 7 :: u32) < 128 ^ 1" by simp_all
  then obtain a b where "encode_var_int (of_nat 3) = Inr a" "length a \<le> 1" "encode_var_int (of_nat 7) = Inr b" "length b \<le> 1"
    using encode_var_int_fits [of "of_nat 3" 1] encode_var_int_fits [of "of_nat 7" 1] by auto
  moreover have "a \<noteq> []" using \<open>encode_var_int (of_nat 3) = Inr a\<close> var_int_round [of "of_nat 3" 0 a]
    by (simp add: encode_var_int_def)
  ultimately obtain bs where "encode_v5 demo_puback = Inr bs"
    by (cases a) (auto simp: demo_puback_def encode_v5_def encode_body_def encode_ack_def encode_properties_def
        encode_property_def put_u8_def put_u16_def put_var_int_def u16_to_be_bytes_def enc_then_def)
  with packet_round_trip [OF ok this, of "[9]"] show ?thesis by blast
qed

text \<open>
  Decoded packets are well formed and can be forwarded. Whatever bytes \<open>decode_v5\<close> accepts,
  it consumes at least one and no more than there are, and the packet is well formed, can be encoded,
  and decodes again to the same packet - so a broker never receives a packet it could not pass on.
\<close>

theorem decoded_packet_forwards:
  assumes "decode_v5 input = Inr (p, n)"
  shows "0 < n \<and> n \<le> length input \<and> packet_ok p \<and>
    (\<exists>bs. encode_v5 p = Inr bs \<and> (\<forall>rest. decode_v5 (bs @ rest) = Inr (p, length bs)))"
  using decode_v5_progress [OF assms] encode_after_decode [OF assms] decode_after_encode by blast

theorem decoded_packet_forwards_witness: "packet_ok PingReq \<and> (\<exists>bs. encode_v5 PingReq = Inr bs)"
proof -
  have "decode_v5 [0xC0, 0x00] = Inr (PingReq, 2)"
    by (simp add: decode_v5_def decode_var_int_def decode_body_def)
  from decoded_packet_forwards [OF this] show ?thesis by blast
qed

end
