(* ===== verification/Mqtt_Frame.thy ===== *)
theory Mqtt_Frame
  imports Mqtt_Codec_Correct "HOL-Library.Sublist"
begin

text \<open>
  Packet framing over byte streams (\<open>cave-home-mqtt/src/runtime/frame.rs\<close>): reading one packet from
  a TCP or TLS stream, and draining whole packets from the buffer of the WebSocket transport. A
  stream is the list of bytes up to its end.
\<close>

section \<open>Reading from a stream\<close>

text \<open>
  An \<open>io::Error\<close>: the end of the stream inside a packet, or invalid data with the text of the source
  or of the codec error it wraps.
\<close>

datatype IoError = UnexpectedEof | InvalidData "string + Error"

fun read_remaining :: "u8 list \<Rightarrow> u8 list \<Rightarrow> u32 \<Rightarrow> u32 \<Rightarrow> IoError + u32 \<times> u8 list \<times> u8 list" where
  "read_remaining [] frame multiplier remaining = Inl UnexpectedEof"
| "read_remaining (b # stream) frame multiplier remaining =
     (let frame' = frame @ [b];
          remaining' = remaining + ucast (b AND 0x7f) * multiplier
      in if b AND 0x80 = 0 then Inr (remaining', frame', stream)
         else
           (let multiplier' = multiplier * 128 in
            if multiplier' > 128 * 128 * 128
            then Inl (InvalidData (Inl ''malformed Remaining Length''))
            else read_remaining stream frame' multiplier' remaining'))"

definition read_packet :: "u8 list \<Rightarrow> IoError + PacketV5 option \<times> u8 list" where
  "read_packet stream =
     (case stream of
        [] \<Rightarrow> Inr (None, [])
      | first # stream1 \<Rightarrow>
          (case read_remaining stream1 [first] 1 0 of
             Inl e \<Rightarrow> Inl e
           | Inr (remaining, frame, stream2) \<Rightarrow>
               (if length stream2 < unat remaining then Inl UnexpectedEof
                else
                  (case decode_v5 (frame @ take (unat remaining) stream2) of
                     Inl e \<Rightarrow> Inl (InvalidData (Inr e))
                   | Inr (packet, _) \<Rightarrow> Inr (Some packet, drop (unat remaining) stream2)))))"

definition write_packet :: "PacketV5 \<Rightarrow> IoError + u8 list" where
  "write_packet packet =
     (case encode_v5 packet of Inl e \<Rightarrow> Inl (InvalidData (Inr e)) | Inr buf \<Rightarrow> Inr buf)"

section \<open>Draining a buffer\<close>

function drain_packets :: "u8 list \<Rightarrow> u8 list \<times> (IoError + PacketV5 list)" where
  "drain_packets buf =
     (case decode_v5 buf of
        Inr (packet, used) \<Rightarrow>
          (case drain_packets (drop used buf) of
             (rest, Inr out) \<Rightarrow> (rest, Inr (packet # out))
           | (rest, Inl e) \<Rightarrow> (rest, Inl e))
      | Inl (Underflow _) \<Rightarrow> (buf, Inr [])
      | Inl e \<Rightarrow> (buf, Inl (InvalidData (Inr e))))"
  by pat_completeness auto
termination
  by (relation "measure length") (auto dest: decode_v5_progress)

declare drain_packets.simps [simp del]

text \<open>
  A client of each transport: \<open>read_all\<close> reads packets until the stream ends, as \<open>serve_stream\<close> does;
  \<open>feed\<close> appends each incoming chunk to the buffer and drains it, as \<open>serve_ws\<close> does.
\<close>

lemma read_remaining_shrinks:
  "read_remaining stream frame m v = Inr (remaining, frame', rest) \<Longrightarrow> length rest < length stream"
  by (induction stream arbitrary: frame m v) (fastforce simp: Let_def split: if_split_asm)+

lemma read_packet_shrinks: "read_packet stream = Inr (Some p, rest) \<Longrightarrow> length rest < length stream"
  by (auto simp: read_packet_def dest!: read_remaining_shrinks split: list.splits sum.splits if_split_asm)

function read_all :: "u8 list \<Rightarrow> IoError + PacketV5 list" where
  "read_all stream =
     (case read_packet stream of
        Inl e \<Rightarrow> Inl e
      | Inr (None, _) \<Rightarrow> Inr []
      | Inr (Some p, rest) \<Rightarrow> (case read_all rest of Inl e \<Rightarrow> Inl e | Inr ps \<Rightarrow> Inr (p # ps)))"
  by pat_completeness auto
termination by (relation "measure length") (auto dest: read_packet_shrinks)

declare read_all.simps [simp del]

fun feed :: "u8 list \<Rightarrow> u8 list list \<Rightarrow> u8 list \<times> (IoError + PacketV5 list)" where
  "feed buf [] = (buf, Inr [])"
| "feed buf (chunk # chunks) =
     (case drain_packets (buf @ chunk) of
        (rest, Inl e) \<Rightarrow> (rest, Inl e)
      | (rest, Inr ps) \<Rightarrow>
          (case feed rest chunks of
             (rest', Inl e) \<Rightarrow> (rest', Inl e)
           | (rest', Inr qs) \<Rightarrow> (rest', Inr (ps @ qs))))"

section \<open>A written packet is read back\<close>

lemma read_remaining_encoded:
  "encode_var_int_loop x w = Inr bs \<Longrightarrow> w < 4 \<Longrightarrow>
     read_remaining (bs @ rest) frame (128 ^ w) v = Inr (v + x * 128 ^ w, frame @ bs, rest)"
proof (induction x w arbitrary: bs frame v rule: encode_var_int_loop.induct)
  case (1 x w)
  show ?case
  proof (cases "drop_bit 7 x = 0")
    case True
    then have "take_bit 7 x = x" using split_7 [of x] by simp
    with 1 True show ?thesis by (auto simp: encode_var_int_last var_int_byte Let_def)
  next
    case False
    with 1(2,3) obtain bs' where w: "w + 1 < 4" and bs': "encode_var_int_loop (drop_bit 7 x) (w + 1) = Inr bs'"
      and bs: "bs = (ucast (x AND 0x7f) OR 0x80) # bs'"
      by (auto simp: encode_var_int_more split: if_splits sum.splits)
    have IH: "read_remaining (bs' @ rest) frame (128 ^ (w + 1)) v = Inr (v + drop_bit 7 x * 128 ^ (w + 1), frame @ bs', rest)"
      for frame v
      using 1(1) [OF refl refl refl refl False _ bs' w] w by simp
    have "w = 0 \<or> w = 1 \<or> w = 2" using w by auto
    then have "\<not> (128 ^ w * 128 :: u32) > 128 * 128 * 128" by auto
    moreover have "v + take_bit 7 x * 128 ^ w + drop_bit 7 x * (128 ^ w * 128) = v + x * 128 ^ w"
      by (subst (3) split_7) (simp add: algebra_simps)
    ultimately show ?thesis
      using IH [of "frame @ [ucast (x AND 0x7f) OR 0x80]" "v + take_bit 7 x * 128 ^ w"] bs
      by (simp add: var_int_byte Let_def mult.commute)
  qed
qed

lemma read_packet_encoded:
  assumes "packet_ok p" and "encode_v5 p = Inr bs"
  shows "read_packet (bs @ rest) = Inr (Some p, rest)"
proof -
  obtain ty flags body len where small: "length body < 2 ^ 32"
    and len: "encode_var_int (of_nat (length body)) = Inr len"
    and bs: "bs = (push_bit 4 ty OR (flags AND 0x0f)) # len @ body"
    using encode_v5_Inr [OF assms(2)] by metis
  have "read_remaining (len @ body @ rest) [push_bit 4 ty OR (flags AND 0x0f)] 1 0 =
      Inr (of_nat (length body), [push_bit 4 ty OR (flags AND 0x0f)] @ len, body @ rest)"
    using read_remaining_encoded [of "of_nat (length body)" 0 len "body @ rest"] len by (simp add: encode_var_int_def)
  moreover have "unat (of_nat (length body) :: u32) = length body" using small by (simp add: unat_of_nat)
  moreover have "decode_v5 bs = Inr (p, length bs)" using decode_after_encode [OF assms, of "[]"] by simp
  ultimately show ?thesis using bs by (simp add: read_packet_def)
qed

section \<open>A packet that is not complete\<close>

lemma encode_var_int_prefix:
  "encode_var_int_loop x w = Inr bs \<Longrightarrow> strict_prefix pre bs \<Longrightarrow> w < 4 \<Longrightarrow>
     decode_var_int_loop pre v m i = None \<and> length pre + w < 4"
proof (induction x w arbitrary: bs pre v m i rule: encode_var_int_loop.induct)
  case (1 x w)
  show ?case
  proof (cases pre)
    case Nil
    with 1(4) show ?thesis by simp
  next
    case (Cons b pre')
    then have "drop_bit 7 x \<noteq> 0" using 1(2,3) by (auto simp: encode_var_int_last strict_prefix_def prefix_Cons)
    with 1(2,4) obtain bs' where w: "w + 1 < 4" and bs': "encode_var_int_loop (drop_bit 7 x) (w + 1) = Inr bs'"
      and bs: "bs = (ucast (x AND 0x7f) OR 0x80) # bs'"
      by (auto simp: encode_var_int_more split: if_splits sum.splits)
    have pre: "b = ucast (x AND 0x7f) OR 0x80" "strict_prefix pre' bs'" using 1(3) Cons bs by auto
    from 1(1) [OF refl refl refl refl \<open>drop_bit 7 x \<noteq> 0\<close> _ bs' pre(2) w] w
    have "decode_var_int_loop pre' v m i = None \<and> length pre' + (w + 1) < 4" for v m i by simp
    with Cons pre(1) show ?thesis by (simp add: var_int_byte Let_def)
  qed
qed

lemma decode_incomplete:
  assumes "encode_v5 p = Inr bs" and "strict_prefix pre bs"
  shows "\<exists>k. decode_v5 pre = Inl (Underflow k)"
proof (cases pre)
  case Nil
  then show ?thesis by (simp add: decode_v5_def)
next
  case (Cons h pre1)
  obtain ty flags body len where small: "length body < 2 ^ 32"
    and len: "encode_var_int (of_nat (length body)) = Inr len"
    and bs: "bs = (push_bit 4 ty OR (flags AND 0x0f)) # len @ body"
    using encode_v5_Inr [OF assms(1)] by metis
  have pre1: "strict_prefix pre1 (len @ body)" using assms(2) Cons bs by simp
  then consider "strict_prefix pre1 len" | body1 where "pre1 = len @ body1" "strict_prefix body1 body"
    by (cases "pre1 = len") (auto simp: strict_prefix_def prefix_append)
  then show ?thesis
  proof cases
    case 1
    have "decode_var_int_loop (take 4 pre1) 0 1 0 = None" "length pre1 < 4"
      using encode_var_int_prefix [of "of_nat (length body)" 0 len pre1 0 1 0] 1 len by (auto simp: encode_var_int_def)
    with Cons show ?thesis by (simp add: decode_v5_def decode_var_int_def)
  next
    case 2
    have "decode_var_int pre1 = Inr (of_nat (length body), length len)"
      using decode_var_int_eq [OF len, of body1] 2(1) by simp
    moreover have "unat (of_nat (length body) :: u32) = length body" using small by (simp add: unat_of_nat)
    moreover have "length body1 < length body" using 2(2) by (rule prefix_length_less)
    ultimately show ?thesis using Cons 2(1) by (simp add: decode_v5_def Let_def)
  qed
qed

section \<open>Reassembling a stream\<close>

text \<open>A sequence of packets and their encodings.\<close>

definition encodes :: "PacketV5 list \<Rightarrow> u8 list list \<Rightarrow> bool" where
  "encodes ps bss \<longleftrightarrow> list_all2 (\<lambda>p bs. packet_ok p \<and> encode_v5 p = Inr bs) ps bss"

lemma encodes_simps [simp]:
  "encodes [] bss \<longleftrightarrow> bss = []" "encodes ps [] \<longleftrightarrow> ps = []"
  "encodes (p # ps) (bs # bss) \<longleftrightarrow> packet_ok p \<and> encode_v5 p = Inr bs \<and> encodes ps bss"
  by (auto simp: encodes_def)

lemma encode_v5_nonempty: "encode_v5 p = Inr bs \<Longrightarrow> bs \<noteq> []"
  by (erule encode_v5_Inr) simp

lemma drain_complete:
  assumes "encodes ps bss" and "\<exists>k. decode_v5 pre = Inl (Underflow k)"
  shows "drain_packets (concat bss @ pre) = (pre, Inr ps)"
  using assms(1)
proof (induction ps arbitrary: bss)
  case Nil
  with assms(2) show ?case by (subst drain_packets.simps) auto
next
  case (Cons p ps)
  then obtain bs bss' where bss: "bss = bs # bss'" "packet_ok p" "encode_v5 p = Inr bs" "encodes ps bss'"
    by (cases bss) auto
  with Cons.IH [OF bss(4)] decode_after_encode [OF bss(2,3), of "concat bss' @ pre"] show ?case
    by (subst drain_packets.simps) simp
qed

text \<open>A prefix of the stream is some whole packets and the beginning of the next.\<close>

lemma prefix_of_stream:
  assumes "encodes ps bss" and "prefix xs (concat bss)"
  shows "\<exists>ps1 ps2 bss1 bss2 pre. ps = ps1 @ ps2 \<and> encodes ps1 bss1 \<and> encodes ps2 bss2 \<and> bss = bss1 @ bss2 \<and>
    xs = concat bss1 @ pre \<and> prefix pre (concat bss2) \<and> (\<exists>k. decode_v5 pre = Inl (Underflow k))"
  using assms
proof (induction ps arbitrary: bss xs)
  case Nil
  then show ?case by (simp add: decode_v5_def)
next
  case (Cons p ps)
  then obtain bs bss' where bss: "bss = bs # bss'" "packet_ok p" "encode_v5 p = Inr bs" "encodes ps bss'"
    by (cases bss) auto
  show ?case
  proof (cases "strict_prefix xs bs")
    case True
    with decode_incomplete [OF bss(3)] Cons.prems show ?thesis
      by (intro exI [of _ "[]"] exI [of _ "p # ps"] exI [of _ bss] exI [of _ xs]) auto
  next
    case False
    with Cons.prems(2) bss(1) obtain xs' where xs: "xs = bs @ xs'" "prefix xs' (concat bss')"
      by (cases "xs = bs") (auto simp: strict_prefix_def prefix_append)
    from Cons.IH [OF bss(4) xs(2)] obtain ps1 ps2 bss1 bss2 pre where
      "ps = ps1 @ ps2" "encodes ps1 bss1" "encodes ps2 bss2" "bss' = bss1 @ bss2" "xs' = concat bss1 @ pre"
      "prefix pre (concat bss2)" "\<exists>k. decode_v5 pre = Inl (Underflow k)"
      by blast
    with bss xs show ?thesis
      by (intro exI [of _ "p # ps1"] exI [of _ ps2] exI [of _ "bs # bss1"] exI [of _ bss2] exI [of _ pre]) auto
  qed
qed

lemma incomplete_end:
  assumes "encodes ps bss" and "decode_v5 (concat bss) = Inl e"
  shows "ps = []"
proof (cases ps)
  case (Cons p qs)
  with assms(1) obtain bs bss' where "bss = bs # bss'" "packet_ok p" "encode_v5 p = Inr bs"
    by (cases bss) auto
  with decode_after_encode [of p bs "concat bss'"] assms(2) show ?thesis by simp
qed

lemma feed_chunks:
  assumes "encodes ps bss" and "buf @ concat chunks = concat bss" and "\<exists>k. decode_v5 buf = Inl (Underflow k)"
  shows "feed buf chunks = ([], Inr ps)"
  using assms
proof (induction chunks arbitrary: buf ps bss)
  case Nil
  then have "ps = []" using incomplete_end by fastforce
  with Nil show ?case by simp
next
  case (Cons chunk chunks)
  have "prefix (buf @ chunk) (concat bss)" using Cons.prems(2) by (metis append.assoc concat.simps(2) prefixI)
  from prefix_of_stream [OF Cons.prems(1) this] obtain ps1 ps2 bss1 bss2 pre where
    split: "ps = ps1 @ ps2" "encodes ps1 bss1" "encodes ps2 bss2" "bss = bss1 @ bss2"
      "buf @ chunk = concat bss1 @ pre" "\<exists>k. decode_v5 pre = Inl (Underflow k)"
    by blast
  have "pre @ concat chunks = concat bss2"
  proof -
    have "concat bss1 @ pre @ concat chunks = (buf @ chunk) @ concat chunks" using split(5) by simp
    also have "\<dots> = concat bss1 @ concat bss2" using Cons.prems(2) split(4) by simp
    finally show ?thesis by simp
  qed
  from Cons.IH [OF split(3) this split(6)] drain_complete [OF split(2,6)] split(1,5) show ?case by simp
qed

lemma read_all_stream: "encodes ps bss \<Longrightarrow> read_all (concat bss) = Inr ps"
proof (induction ps arbitrary: bss)
  case Nil
  then show ?case by (subst read_all.simps) (simp add: read_packet_def)
next
  case (Cons p ps)
  then obtain bs bss' where "bss = bs # bss'" "packet_ok p" "encode_v5 p = Inr bs" "encodes ps bss'"
    by (cases bss) auto
  with Cons.IH [of bss'] read_packet_encoded [of p bs "concat bss'"] show ?case
    by (subst read_all.simps) simp
qed

section \<open>Properties of the framing\<close>

text \<open>
  C16. Transports deliver what was sent. Well-formed packets written one after another are read back
  in the same order, none lost, none invented and nothing left over: by the stream transport, and by
  the WebSocket transport however the bytes are cut into messages.
\<close>

theorem transports_deliver:
  assumes "encodes ps bss" and "concat chunks = concat bss"
  shows "read_all (concat bss) = Inr ps \<and> feed [] chunks = ([], Inr ps)"
  using read_all_stream [OF assms(1)] feed_chunks [OF assms(1), of "[]" chunks] assms(2)
  by (simp add: decode_v5_def)

theorem transports_deliver_witness:
  "\<exists>bs. encode_v5 PingReq = Inr bs \<and> read_all (bs @ bs) = Inr [PingReq, PingReq] \<and>
     feed [] [bs @ take 1 bs, drop 1 bs] = ([], Inr [PingReq, PingReq])"
proof -
  obtain len where "encode_var_int (of_nat 0) = Inr len" using encode_var_int_fits [of "of_nat 0" 1] by auto
  then obtain bs where bs: "encode_v5 PingReq = Inr bs"
    by (simp add: encode_v5_def encode_body_def Let_def put_u8_def put_var_int_def enc_then_def)
  then have "encodes [PingReq, PingReq] [bs, bs]" by simp
  from transports_deliver [OF this, of "[bs @ take 1 bs, drop 1 bs]"] bs show ?thesis by simp
qed

text \<open>
  A malformed packet silences a WebSocket connection. The two bytes of a PUBACK with an empty
  body are a complete frame that can never decode. The stream transport reports an error, but the
  WebSocket transport takes the decoder's \<open>Underflow\<close> for an incomplete packet: it keeps the bytes and
  decodes nothing of what arrives afterwards.
\<close>

theorem malformed_frame_stalls:
  "drain_packets ([0x40, 0x00] @ later) = ([0x40, 0x00] @ later, Inr []) \<and>
   read_packet ([0x40, 0x00] @ later) = Inl (InvalidData (Inr (Underflow 2)))"
  by (subst drain_packets.simps)
    (simp add: decode_v5_def decode_var_int_def decode_body_def decode_ack_def dec_map_def dec_then_def get_u16_def
      read_packet_def)

end
