(* ===== verification/Mqtt_Hub.thy ===== *)
theory Mqtt_Hub
  imports Mqtt_Guarantees Mqtt_Frame
begin

text \<open>
  The connection registry between the broker core and its transports
  (\<open>cave-home-mqtt/src/runtime/mod.rs\<close>, type \<open>Hub\<close>), with its methods cut into the steps that are
  atomic and the tasks of the connections interleaved at every one of them. A connection's writer channel is a number; what
  is sent into the channels is kept in order in the outbox. \<open>None\<close> is a call into the broker that
  does not return.
\<close>

declare map_of_eq_Some_iff [simp del] Some_eq_map_of_iff [simp del]

section \<open>State and operations\<close>

datatype ConnMsg = MsgPacket PacketV5 | MsgClose

type_synonym channel = nat

record Hub =
  hub_broker :: Broker
  conns :: "(string, u64 \<times> channel) hashmap"
  next_conn :: u64
  outbox :: "(channel \<times> ConnMsg) list"

definition Hub_new :: "Broker \<Rightarrow> Hub" where
  "Hub_new b = \<lparr>hub_broker = b, conns = [], next_conn = 1, outbox = []\<rparr>"

definition send_msg :: "Hub \<Rightarrow> channel \<Rightarrow> ConnMsg \<Rightarrow> Hub" where
  "send_msg h tx m = h\<lparr>outbox := outbox h @ [(tx, m)]\<rparr>"

text \<open>A message for a client goes to its registered channel, if there is one.\<close>

definition send_client :: "Hub \<Rightarrow> string \<Rightarrow> ConnMsg \<Rightarrow> Hub" where
  "send_client h cid m =
     (case hm_get (conns h) cid of Some (_, tx) \<Rightarrow> send_msg h tx m | None \<Rightarrow> h)"

fun dispatch :: "Hub \<Rightarrow> Action list \<Rightarrow> Hub" where
  "dispatch h [] = h"
| "dispatch h (Send cid packet # actions) = dispatch (send_client h cid (MsgPacket packet)) actions"
| "dispatch h (Drop cid reason # actions) = dispatch (send_client h cid MsgClose) actions"

text \<open>
  One action of a CONNECT: a takeover drop goes to the old connection through the registry, what is
  sent to the client goes straight into its own channel, and a CONNACK names the client.
\<close>

definition connect_action ::
  "Hub \<Rightarrow> channel \<Rightarrow> Action \<Rightarrow> string option \<Rightarrow> bool \<Rightarrow> Hub \<times> string option \<times> bool" where
  "connect_action h tx action cid accepted =
     (case action of
        Drop old reason \<Rightarrow> (send_client h old MsgClose, cid, accepted)
      | Send c packet \<Rightarrow>
          (let (cid1, accepted1) =
                 (case packet of
                    ConnAck ack \<Rightarrow> (Some c, ca_reason_code ack = Success)
                  | _ \<Rightarrow> (cid, accepted))
           in (send_msg h tx (MsgPacket packet), cid1, accepted1)))"

fun connect_actions ::
  "Hub \<Rightarrow> channel \<Rightarrow> Action list \<Rightarrow> string option \<Rightarrow> bool \<Rightarrow> Hub \<times> string option \<times> bool" where
  "connect_actions h tx [] cid accepted = (h, cid, accepted)"
| "connect_actions h tx (a # actions) cid accepted =
     (let (h1, cid1, accepted1) = connect_action h tx a cid accepted
      in connect_actions h1 tx actions cid1 accepted1)"

text \<open>
  The atomic steps of the methods. A method holds one lock at a time and none in between:
  \<open>on_connect\<close> takes the broker's lock for the CONNECT, the registry's lock for every drop, no lock for
  the connection number, and the registry's lock again for the insertion; \<open>handle\<close> takes the broker's
  lock and then the registry's for the dispatch; \<open>disconnect\<close> takes the registry's lock to check and
  remove the connection, then the broker's, then the registry's for the dispatch.
\<close>

definition connect_core :: "Hub \<Rightarrow> ConnectV5 \<Rightarrow> Hub \<times> Action list" where
  "connect_core h c = (let (b, actions) = connect (hub_broker h) c in (h\<lparr>hub_broker := b\<rparr>, actions))"

definition take_number :: "Hub \<Rightarrow> Hub \<times> u64" where
  "take_number h = (h\<lparr>next_conn := next_conn h + 1\<rparr>, next_conn h)"

definition connect_insert :: "Hub \<Rightarrow> string \<Rightarrow> u64 \<Rightarrow> channel \<Rightarrow> Hub" where
  "connect_insert h cid conn_id tx = h\<lparr>conns := hm_insert cid (conn_id, tx) (conns h)\<rparr>"

definition handle_core :: "Hub \<Rightarrow> string \<Rightarrow> PacketV5 \<Rightarrow> (Hub \<times> Action list) option" where
  "handle_core h cid packet =
     (case broker_handle (hub_broker h) cid packet of
        None \<Rightarrow> None
      | Some (b, actions) \<Rightarrow> Some (h\<lparr>hub_broker := b\<rparr>, actions))"

definition disconnect_check :: "Hub \<Rightarrow> string \<Rightarrow> u64 \<Rightarrow> Hub \<times> bool" where
  "disconnect_check h cid conn_id =
     (case hm_get (conns h) cid of
        Some (k, _) \<Rightarrow> if k = conn_id then (h\<lparr>conns := hm_remove cid (conns h)\<rparr>, True) else (h, False)
      | None \<Rightarrow> (h, False))"

definition disconnect_core :: "Hub \<Rightarrow> string \<Rightarrow> (Hub \<times> Action list) option" where
  "disconnect_core h cid =
     (case network_disconnect (hub_broker h) cid of
        None \<Rightarrow> None
      | Some (b, actions) \<Rightarrow> Some (h\<lparr>hub_broker := b\<rparr>, actions))"

text \<open>The methods as they run when no other task comes in between.\<close>

definition connect_broker :: "Hub \<Rightarrow> ConnectV5 \<Rightarrow> channel \<Rightarrow> Hub \<times> string option" where
  "connect_broker h c tx =
     (let (h0, actions) = connect_core h c;
          (h1, cid, accepted) = connect_actions h0 tx actions None False
      in case cid of
           None \<Rightarrow> (h1, None)
         | Some cid \<Rightarrow> (if \<not> accepted then (send_msg h1 tx MsgClose, None) else (h1, Some cid)))"

definition connect_register :: "Hub \<Rightarrow> string \<Rightarrow> channel \<Rightarrow> Hub \<times> u64" where
  "connect_register h cid tx =
     (let (h1, conn_id) = take_number h in (connect_insert h1 cid conn_id tx, conn_id))"

definition hub_on_connect :: "Hub \<Rightarrow> ConnectV5 \<Rightarrow> channel \<Rightarrow> Hub \<times> (string \<times> u64) option" where
  "hub_on_connect h c tx =
     (case connect_broker h c tx of
        (h1, None) \<Rightarrow> (h1, None)
      | (h1, Some cid) \<Rightarrow> (let (h2, conn_id) = connect_register h1 cid tx in (h2, Some (cid, conn_id))))"

definition hub_handle :: "Hub \<Rightarrow> string \<Rightarrow> PacketV5 \<Rightarrow> Hub option" where
  "hub_handle h cid packet =
     (case handle_core h cid packet of None \<Rightarrow> None | Some (h1, actions) \<Rightarrow> Some (dispatch h1 actions))"

definition hub_disconnect :: "Hub \<Rightarrow> string \<Rightarrow> u64 \<Rightarrow> Hub option" where
  "hub_disconnect h cid conn_id =
     (let (h1, found) = disconnect_check h cid conn_id
      in if \<not> found then Some h1
         else case disconnect_core h1 cid of None \<Rightarrow> None | Some (h2, actions) \<Rightarrow> Some (dispatch h2 actions))"

section \<open>Interleaved tasks\<close>

text \<open>
  What a task that has been interrupted between two of its steps still has to do. A method call starts
  with its first step; \<open>Resume i\<close> runs the next step of the \<open>i\<close>-th unfinished task, so any task may
  come between any two steps of another.
\<close>

datatype hub_task =
    Connecting channel "Action list" "string option" bool
  | Numbered string u64 channel
  | Dispatching "Action list"
  | Unregistered string

record hub_sys =
  hub :: Hub
  tasks :: "hub_task list"

datatype hub_event =
    HubConnect ConnectV5 channel
  | HubPacket string PacketV5
  | HubGone string u64
  | Resume nat

fun hub_resume :: "Hub \<Rightarrow> hub_task \<Rightarrow> (Hub \<times> hub_task list) option" where
  "hub_resume h (Connecting tx (a # actions) cid accepted) =
     (let (h1, cid1, accepted1) = connect_action h tx a cid accepted
      in Some (h1, [Connecting tx actions cid1 accepted1]))"
| "hub_resume h (Connecting tx [] None accepted) = Some (h, [])"
| "hub_resume h (Connecting tx [] (Some cid) accepted) =
     (if \<not> accepted then Some (send_msg h tx MsgClose, [])
      else let (h1, conn_id) = take_number h in Some (h1, [Numbered cid conn_id tx]))"
| "hub_resume h (Numbered cid conn_id tx) = Some (connect_insert h cid conn_id tx, [])"
| "hub_resume h (Dispatching actions) = Some (dispatch h actions, [])"
| "hub_resume h (Unregistered cid) =
     (case disconnect_core h cid of None \<Rightarrow> None | Some (h1, actions) \<Rightarrow> Some (h1, [Dispatching actions]))"

fun hub_begin :: "Hub \<Rightarrow> hub_event \<Rightarrow> (Hub \<times> hub_task list) option" where
  "hub_begin h (HubConnect c tx) =
     (let (h1, actions) = connect_core h c in Some (h1, [Connecting tx actions None False]))"
| "hub_begin h (HubPacket cid packet) =
     (case handle_core h cid packet of None \<Rightarrow> None | Some (h1, actions) \<Rightarrow> Some (h1, [Dispatching actions]))"
| "hub_begin h (HubGone cid conn_id) =
     (let (h1, found) = disconnect_check h cid conn_id
      in Some (h1, if found then [Unregistered cid] else []))"
| "hub_begin h (Resume i) = Some (h, [])"

fun hub_step :: "hub_sys \<Rightarrow> hub_event \<Rightarrow> hub_sys option" where
  "hub_step s (Resume i) =
     (if i < length (tasks s)
      then map_option (\<lambda>(h, ts). \<lparr>hub = h, tasks = take i (tasks s) @ ts @ drop (Suc i) (tasks s)\<rparr>)
             (hub_resume (hub s) (tasks s ! i))
      else Some s)"
| "hub_step s e = map_option (\<lambda>(h, ts). \<lparr>hub = h, tasks = tasks s @ ts\<rparr>) (hub_begin (hub s) e)"

inductive hub_run :: "hub_sys \<Rightarrow> hub_event list \<Rightarrow> hub_sys \<Rightarrow> bool" where
  hub_nil: "hub_run s [] s"
| hub_snoc: "hub_run s es s' \<Longrightarrow> hub_step s' e = Some s'' \<Longrightarrow> hub_run s (es @ [e]) s''"

definition hub_start :: "Broker \<Rightarrow> hub_sys" where
  "hub_start b = \<lparr>hub = Hub_new b, tasks = []\<rparr>"

section \<open>The registry\<close>

lemma send_frame [simp]:
  "conns (send_msg h tx m) = conns h" "next_conn (send_msg h tx m) = next_conn h"
  "hub_broker (send_msg h tx m) = hub_broker h"
  "conns (send_client h cid m) = conns h" "next_conn (send_client h cid m) = next_conn h"
  "hub_broker (send_client h cid m) = hub_broker h"
  by (auto simp: send_msg_def send_client_def split: option.splits)

lemma dispatch_frame [simp]:
  "conns (dispatch h actions) = conns h" "next_conn (dispatch h actions) = next_conn h"
  "hub_broker (dispatch h actions) = hub_broker h"
  by (induction h actions rule: dispatch.induct) simp_all

lemma connect_action_frame:
  assumes "connect_action h tx a cid accepted = (h', cid', accepted')"
  shows "conns h' = conns h" "next_conn h' = next_conn h" "hub_broker h' = hub_broker h"
  using assms by (auto simp: connect_action_def split: Action.splits PacketV5.splits prod.splits)

lemma connect_actions_frame:
  assumes "connect_actions h tx actions cid accepted = (h', cid', accepted')"
  shows "conns h' = conns h" "next_conn h' = next_conn h" "hub_broker h' = hub_broker h"
  using assms
  by (induction actions arbitrary: h cid accepted)
    (auto split: prod.splits dest: connect_action_frame)

lemma connect_broker_frame:
  assumes "connect_broker h c tx = (h', r)"
  shows "conns h' = conns h" "next_conn h' = next_conn h" "hub_broker h' = fst (connect (hub_broker h) c)"
proof -
  obtain b actions where b: "connect (hub_broker h) c = (b, actions)" by fastforce
  obtain h1 cid acc where ca: "connect_actions (h\<lparr>hub_broker := b\<rparr>) tx actions None False = (h1, cid, acc)"
    by (cases "connect_actions (h\<lparr>hub_broker := b\<rparr>) tx actions None False") auto
  from assms connect_actions_frame [OF ca]
  show "conns h' = conns h" "next_conn h' = next_conn h" "hub_broker h' = fst (connect (hub_broker h) c)"
    by (auto simp: connect_broker_def connect_core_def b ca split: option.splits if_split_asm)
qed

lemmas hub_defs = connect_core_def take_number_def connect_insert_def handle_core_def disconnect_check_def
  disconnect_core_def

text \<open>
  The numbers that tasks have taken and not yet entered in the registry. In every reachable system they
  are distinct and below the counter, so a number is entered once.
\<close>

fun task_numbers :: "hub_task \<Rightarrow> u64 list" where
  "task_numbers (Numbered cid k tx) = [k]"
| "task_numbers _ = []"

definition numbers :: "hub_sys \<Rightarrow> u64 list" where
  "numbers s = concat (map task_numbers (tasks s))"

definition numbers_ok :: "hub_sys \<Rightarrow> bool" where
  "numbers_ok s \<longleftrightarrow> distinct (numbers s) \<and> (\<forall>k \<in> set (numbers s). unat k < unat (next_conn (hub s)))"

text \<open>
  A connection number is stale for a client when it has been given out, is not on its way into the
  registry and is not the one the registry holds for that client.
\<close>

definition stale :: "hub_sys \<Rightarrow> string \<Rightarrow> u64 \<Rightarrow> bool" where
  "stale s cid k \<longleftrightarrow> unat k < unat (next_conn (hub s)) \<and> k \<notin> set (numbers s) \<and>
     (case hm_get (conns (hub s)) cid of Some (k', _) \<Rightarrow> k' \<noteq> k | None \<Rightarrow> True)"

lemma hub_resume_cases:
  assumes "hub_resume h t = Some (h', ts)"
  obtains (r_same) "conns h' = conns h" "next_conn h' = next_conn h" "concat (map task_numbers ts) = []" "task_numbers t = []"
  | (r_number) cid tx where "conns h' = conns h" "next_conn h' = next_conn h + 1" "ts = [Numbered cid (next_conn h) tx]"
      "task_numbers t = []"
  | (r_insert) cid k tx where "t = Numbered cid k tx" "ts = []" "conns h' = hm_insert cid (k, tx) (conns h)"
      "next_conn h' = next_conn h"
  using assms
proof (cases "(h, t)" rule: hub_resume.cases)
  case (1 h tx a actions cid accepted)
  obtain h1 c1 a1 where ca: "connect_action h tx a cid accepted = (h1, c1, a1)"
    by (cases "connect_action h tx a cid accepted")
  from connect_action_frame [OF ca] show ?thesis using 1 ca assms r_same by auto
next
  case (6 h cid)
  then show ?thesis using assms r_same by (auto simp: disconnect_core_def split: option.splits)
qed (use assms r_same r_number r_insert in \<open>auto simp: hub_defs split: if_split_asm\<close>)

lemma hub_begin_cases:
  assumes "hub_begin h e = Some (h', ts)"
  shows "(conns h' = conns h \<or> (\<exists>cid. conns h' = hm_remove cid (conns h))) \<and> next_conn h' = next_conn h \<and>
    concat (map task_numbers ts) = []"
  using assms by (cases e) (auto simp: hub_defs split: option.splits prod.splits if_split_asm)

lemma unat_next: "unat (n :: u64) + 1 < 2 ^ 64 \<Longrightarrow> unat (n + 1) = unat n + 1"
  by (simp add: unat_word_ariths)

lemma numbers_split:
  assumes "i < length (tasks s)"
  shows "numbers s = concat (map task_numbers (take i (tasks s))) @ task_numbers (tasks s ! i) @
    concat (map task_numbers (drop (Suc i) (tasks s)))"
proof -
  have "tasks s = take i (tasks s) @ tasks s ! i # drop (Suc i) (tasks s)" using id_take_nth_drop [OF assms] .
  then have "numbers s = concat (map task_numbers (take i (tasks s) @ tasks s ! i # drop (Suc i) (tasks s)))"
    unfolding numbers_def by metis
  then show ?thesis by simp
qed

text \<open>What a step does to the numbers on their way, the counter and the registry.\<close>

lemma hub_step_cases:
  assumes "hub_step s e = Some s'"
  obtains (same) "numbers s' = numbers s" "next_conn (hub s') = next_conn (hub s)"
      "conns (hub s') = conns (hub s) \<or> (\<exists>cid. conns (hub s') = hm_remove cid (conns (hub s)))"
  | (number) ks ks' where "numbers s = ks @ ks'" "numbers s' = ks @ next_conn (hub s) # ks'"
      "next_conn (hub s') = next_conn (hub s) + 1" "conns (hub s') = conns (hub s)"
  | (insert) i cid k tx ks ks' where "e = Resume i" "i < length (tasks s)" "tasks s ! i = Numbered cid k tx"
      "numbers s = ks @ k # ks'" "numbers s' = ks @ ks'"
      "next_conn (hub s') = next_conn (hub s)" "conns (hub s') = hm_insert cid (k, tx) (conns (hub s))"
proof (cases "\<exists>i. e = Resume i")
  case True
  then obtain i where e: "e = Resume i" by blast
  show ?thesis
  proof (cases "i < length (tasks s)")
    case i: True
    then obtain h' ts where r: "hub_resume (hub s) (tasks s ! i) = Some (h', ts)"
      and s': "s' = \<lparr>hub = h', tasks = take i (tasks s) @ ts @ drop (Suc i) (tasks s)\<rparr>"
      using assms e by auto
    have n: "numbers s' = concat (map task_numbers (take i (tasks s))) @ concat (map task_numbers ts) @
        concat (map task_numbers (drop (Suc i) (tasks s)))" by (simp add: numbers_def s')
    from r show ?thesis
    proof (cases rule: hub_resume_cases)
      case r_same
      then show ?thesis using n numbers_split [OF i] same s' by simp
    next
      case (r_number cid tx)
      then show ?thesis using n numbers_split [OF i] number s' by simp
    next
      case (r_insert cid k tx)
      then show ?thesis using n numbers_split [OF i] insert [OF e i] s' by simp
    qed
  next
    case False
    then show ?thesis using assms e same by simp
  qed
next
  case False
  then obtain h' ts where r: "hub_begin (hub s) e = Some (h', ts)" and s': "s' = \<lparr>hub = h', tasks = tasks s @ ts\<rparr>"
    using assms by (cases e) auto
  from hub_begin_cases [OF r] show ?thesis using same s' by (auto simp: numbers_def)
qed

lemma hub_step_next:
  assumes "hub_step s e = Some s'" and "unat (next_conn (hub s)) + 1 < 2 ^ 64"
  shows "unat (next_conn (hub s)) \<le> unat (next_conn (hub s'))"
    "unat (next_conn (hub s')) \<le> unat (next_conn (hub s)) + 1"
  using assms(1) unat_next [OF assms(2)] by (cases rule: hub_step_cases; simp)+

lemma numbers_ok_step:
  assumes "hub_step s e = Some s'" and "numbers_ok s" and "unat (next_conn (hub s)) + 1 < 2 ^ 64"
  shows "numbers_ok s'"
  using assms(1)
proof (cases rule: hub_step_cases)
  case (number ks ks')
  then show ?thesis using assms(2) unat_next [OF assms(3)] by (auto simp: numbers_ok_def less_Suc_eq)
qed (use assms(2) in \<open>auto simp: numbers_ok_def\<close>)

lemma stale_step:
  assumes "hub_step s e = Some s'" and "stale s cid k" and "unat (next_conn (hub s)) + 1 < 2 ^ 64"
  shows "stale s' cid k"
  using assms(1)
proof (cases rule: hub_step_cases)
  case (number ks ks')
  then show ?thesis using assms(2) unat_next [OF assms(3)] by (auto simp: stale_def)
qed (use assms(2) in \<open>auto simp: stale_def split: option.splits if_split_asm\<close>)

lemma hub_run_next:
  "hub_run s es s' \<Longrightarrow> unat (next_conn (hub s)) + length es < 2 ^ 64 \<Longrightarrow>
     unat (next_conn (hub s)) \<le> unat (next_conn (hub s')) \<and>
     unat (next_conn (hub s')) \<le> unat (next_conn (hub s)) + length es"
proof (induction rule: hub_run.induct)
  case (hub_snoc s es s' e s'')
  then have IH: "unat (next_conn (hub s)) \<le> unat (next_conn (hub s'))"
    "unat (next_conn (hub s')) \<le> unat (next_conn (hub s)) + length es"
    by simp_all
  with hub_snoc.prems have "unat (next_conn (hub s')) + 1 < 2 ^ 64" by simp
  with hub_step_next [OF hub_snoc.hyps(2)] IH show ?case by simp
qed simp

text \<open>A predicate that every step with room in the counter keeps is kept by runs.\<close>

lemma hub_run_keeps:
  assumes "hub_run s es s'" and "P s" and "unat (next_conn (hub s)) + length es < 2 ^ 64"
    and "\<And>s e s'. hub_step s e = Some s' \<Longrightarrow> P s \<Longrightarrow> unat (next_conn (hub s)) + 1 < 2 ^ 64 \<Longrightarrow> P s'"
  shows "P s'"
  using assms(1-3)
proof (induction rule: hub_run.induct)
  case (hub_snoc s es s' e s'')
  then have "P s'" "unat (next_conn (hub s')) + 1 < 2 ^ 64"
    using hub_run_next [OF hub_snoc.hyps(1)] by simp_all
  with assms(4) [OF hub_snoc.hyps(2)] show ?case by blast
qed simp

lemma hub_run_Cons: "hub_step s e = Some s1 \<Longrightarrow> hub_run s1 es s' \<Longrightarrow> hub_run s (e # es) s'"
proof (rotate_tac, induction s1 es s' rule: hub_run.induct)
  case (hub_nil s1)
  then show ?case using hub_run.hub_snoc [OF hub_run.hub_nil] by (metis append_Nil)
next
  case (hub_snoc s1 es s' e' s'')
  then show ?case using hub_run.hub_snoc [of s "e # es" s' e' s''] by simp
qed

lemma stale_gone: "stale s cid k \<Longrightarrow> hub_step s (HubGone cid k) = Some s"
  by (auto simp: stale_def disconnect_check_def split: option.splits)

section \<open>An accepted CONNECT\<close>

lemma connect_actions_append:
  "connect_actions h tx (xs @ ys) cid acc =
     (let (h1, cid1, acc1) = connect_actions h tx xs cid acc in connect_actions h1 tx ys cid1 acc1)"
  by (induction xs arbitrary: h cid acc) (auto split: prod.splits)

lemma connect_actions_publishes:
  "snd (connect_actions h tx (map (\<lambda>p. Send c (Publish p)) ps) cid acc) = (cid, acc)"
  by (induction ps arbitrary: h) (simp_all add: connect_action_def)

text \<open>The answer to an accepted CONNECT: a takeover, the CONNACK, the queued messages.\<close>

lemma connect_answer:
  assumes "authenticate (auth b) (con_username c) (con_password c)"
  shows "snd (connect b c) =
    (case hm_get (sessions b) (connect_id b c) of
       Some s \<Rightarrow> if connected s then [Drop (connect_id b c) SessionTakenOver] else []
     | None \<Rightarrow> []) @
    Send (connect_id b c) (ConnAck \<lparr>session_present = (resumed b c \<noteq> None), ca_reason_code = Success,
      ca_properties = (if con_client_id c = [] then [AssignedClientIdentifier (connect_id b c)] else [])\<rparr>) #
    map (\<lambda>p. Send (connect_id b c) (Publish p)) (if resumed b c = None then [] else queued (bind_session b c))"
  using assms
  by (cases "con_client_id c = []"; cases "clean_start c"; cases "hm_get (sessions b) (connect_id b c)")
    (simp_all add: connect_simps)

lemma connect_actions_connect:
  assumes "authenticate (auth b) (con_username c) (con_password c)"
  shows "snd (connect_actions h tx (snd (connect b c)) None False) = (Some (connect_id b c), True)"
  unfolding connect_answer [OF assms] using connect_actions_publishes
  by (simp add: connect_actions_append connect_action_def case_prod_unfold Let_def split: option.splits)

lemma connect_broker_accepts:
  assumes "authenticate (auth (hub_broker h)) (con_username c) (con_password c)"
  shows "snd (connect_broker h c tx) = Some (connect_id (hub_broker h) c)"
proof -
  obtain b actions where b: "connect (hub_broker h) c = (b, actions)" by fastforce
  obtain h1 cid acc where ca: "connect_actions (h\<lparr>hub_broker := b\<rparr>) tx actions None False = (h1, cid, acc)"
    by (cases "connect_actions (h\<lparr>hub_broker := b\<rparr>) tx actions None False") auto
  have "cid = Some (connect_id (hub_broker h) c)" "acc"
    using connect_actions_connect [OF assms, of "h\<lparr>hub_broker := b\<rparr>" tx] b ca by simp_all
  then show ?thesis by (simp add: connect_broker_def connect_core_def b ca)
qed

lemma auth_connect [simp]: "auth (fst (connect b c)) = auth b"
  by (cases "authenticate (auth b) (con_username c) (con_password c)"; cases "con_client_id c = []";
      cases "clean_start c"; cases "hm_get (sessions b) (connect_id b c)"; cases "con_will c";
      simp add: connect_simps)

lemma connect_no_will:
  "con_will c = None \<Longrightarrow> hm_get (wills b) k = None \<Longrightarrow> hm_get (wills (fst (connect b c))) k = None"
  by (cases "authenticate (auth b) (con_username c) (con_password c)"; cases "con_client_id c = []";
      cases "clean_start c"; cases "hm_get (sessions b) (connect_id b c)"; simp add: connect_simps)

lemma detach_offline: "hm_get (sessions (detach b cid)) cid = Some s \<Longrightarrow> \<not> connected s"
  by (cases "hm_get (sessions b) cid") (auto simp: detach_def Let_def split: if_split_asm)

lemma disconnect_offline:
  assumes "network_disconnect b cid = Some (b', actions)"
    and "hm_get (sessions b') cid = Some s"
  shows "\<not> connected s"
proof -
  from assms(1) obtain b0 where "b' = detach b0 cid"
    by (auto simp: network_disconnect_def Let_def bind_eq_Some_conv split: option.splits)
  with assms(2) show ?thesis by (simp add: detach_offline)
qed

section \<open>Properties of the hub\<close>

text \<open>
  C17. Takeover is safe once it is registered. Let the tasks of all connections interleave freely, any
  task between any two atomic steps of another (the broker call, each drop, the connection number and
  the insertion of a CONNECT; the check, the broker call and the dispatch of a teardown). When a
  connection of a client has been entered in the registry and later another one of the same client
  is, the registry holds the new connection, and a teardown of the old one that begins after that,
  however late, does nothing: it neither removes the new connection nor publishes the client's will
  nor detaches its session. A teardown that had already taken the old connection out of the registry
  is not stopped. Connection numbers are 64-bit and must not wrap.
\<close>

theorem takeover_safe:
  assumes "hub_run (hub_start b) es0 s0" and "i < length (tasks s0)" and "tasks s0 ! i = Numbered cid k1 tx1"
    and "hub_step s0 (Resume i) = Some s1" and "hub_run s1 es1 s2"
    and "j < length (tasks s2)" and "tasks s2 ! j = Numbered cid k2 tx2"
    and "hub_step s2 (Resume j) = Some s3" and "hub_run s3 es2 s4"
    and "length es0 + length es1 + length es2 + 4 < 2 ^ 64"
  shows "hm_get (conns (hub s3)) cid = Some (k2, tx2) \<and> hub_step s4 (HubGone cid k1) = Some s4"
proof -
  have start: "unat (next_conn (hub (hub_start b))) = 1" "numbers_ok (hub_start b)"
    by (simp_all add: hub_start_def Hub_new_def numbers_ok_def numbers_def)
  have c0: "unat (next_conn (hub s0)) \<le> 1 + length es0"
    using hub_run_next [OF assms(1)] start assms(10) by simp
  have ok0: "numbers_ok s0" using hub_run_keeps [where P = numbers_ok, OF assms(1) start(2)] numbers_ok_step start(1) assms(10) by simp
  obtain ks ks' where n0: "numbers s0 = ks @ k1 # ks'" "numbers s1 = ks @ ks'"
    and c1: "next_conn (hub s1) = next_conn (hub s0)"
    using assms(2-4) numbers_split [OF assms(2)] by (auto simp: numbers_def connect_insert_def)
  have used: "unat k1 < unat (next_conn (hub s1)) \<and> k1 \<notin> set (numbers s1)"
    using ok0 n0 c1 by (auto simp: numbers_ok_def)
  have "unat (next_conn (hub s1)) + length es1 < 2 ^ 64" using c0 c1 assms(10) by simp
  note r1 = hub_run_keeps [where P = "\<lambda>s. unat k1 < unat (next_conn (hub s)) \<and> k1 \<notin> set (numbers s)",
      OF assms(5) used this]
  have used2: "unat k1 < unat (next_conn (hub s2)) \<and> k1 \<notin> set (numbers s2)"
  proof (rule r1)
    fix s e s' assume st: "hub_step s e = Some s'" and u: "unat k1 < unat (next_conn (hub s)) \<and> k1 \<notin> set (numbers s)"
      and room: "unat (next_conn (hub s)) + 1 < 2 ^ 64"
    from st show "unat k1 < unat (next_conn (hub s')) \<and> k1 \<notin> set (numbers s')"
      using u unat_next [OF room] by (cases rule: hub_step_cases) auto
  qed
  have c2: "unat (next_conn (hub s2)) \<le> 1 + length es0 + length es1"
    using hub_run_next [OF assms(5)] c0 c1 assms(10) by simp
  have k2: "k2 \<in> set (numbers s2)" using numbers_split [OF assms(6)] assms(7) by simp
  have s3: "hub s3 = connect_insert (hub s2) cid k2 tx2" "set (numbers s3) \<subseteq> set (numbers s2)"
    using assms(6-8) numbers_split [OF assms(6)] by (auto simp: numbers_def)
  then have "stale s3 cid k1" using used2 k2 by (auto simp: stale_def connect_insert_def)
  moreover have "unat (next_conn (hub s3)) + length es2 < 2 ^ 64"
    using s3 c2 assms(10) by (simp add: connect_insert_def)
  ultimately have "stale s4 cid k1"
    using hub_run_keeps [where P = "\<lambda>s. stale s cid k1", OF assms(9)] stale_step by blast
  from stale_gone [OF this] s3(1) show ?thesis by (simp add: connect_insert_def del: hub_step.simps)
qed

text \<open>A CONNECT that no other task interrupts, step by step.\<close>

lemma connecting_run:
  assumes "connect_actions h tx acts cid acc = (h', cid', acc')"
  shows "hub_run \<lparr>hub = h, tasks = [Connecting tx acts cid acc]\<rparr> (replicate (length acts) (Resume 0))
    \<lparr>hub = h', tasks = [Connecting tx [] cid' acc']\<rparr>"
  using assms
proof (induction acts arbitrary: h cid acc)
  case Nil
  then show ?case by (auto intro: hub_nil)
next
  case (Cons a acts)
  obtain h1 cid1 acc1 where a: "connect_action h tx a cid acc = (h1, cid1, acc1)" by (cases "connect_action h tx a cid acc")
  with Cons.prems have "connect_actions h1 tx acts cid1 acc1 = (h', cid', acc')" by simp
  from hub_run_Cons [OF _ Cons.IH [OF this]] a show ?case by simp
qed

lemma connect_steps:
  assumes "authenticate (auth (hub_broker h)) (con_username c) (con_password c)"
  shows "\<exists>h'. hub_run \<lparr>hub = h, tasks = []\<rparr> (HubConnect c tx # replicate (length (snd (connect (hub_broker h) c)) + 1) (Resume 0))
      \<lparr>hub = h', tasks = [Numbered (connect_id (hub_broker h) c) (next_conn h) tx]\<rparr> \<and>
    hub_broker h' = fst (connect (hub_broker h) c) \<and> next_conn h' = next_conn h + 1"
proof -
  obtain b acts where b: "connect (hub_broker h) c = (b, acts)" by fastforce
  let ?h = "h\<lparr>hub_broker := b\<rparr>"
  obtain h1 where ca: "connect_actions ?h tx acts None False = (h1, Some (connect_id (hub_broker h) c), True)"
    using connect_actions_connect [OF assms, of ?h tx] b by (metis prod.collapse snd_conv)
  note f = connect_actions_frame [OF ca]
  let ?s = "\<lparr>hub = h1, tasks = [Connecting tx [] (Some (connect_id (hub_broker h) c)) True]\<rparr>"
  have "hub_step ?s (Resume 0) =
      Some \<lparr>hub = h1\<lparr>next_conn := next_conn h1 + 1\<rparr>, tasks = [Numbered (connect_id (hub_broker h) c) (next_conn h1) tx]\<rparr>"
    by (simp add: take_number_def)
  from hub_snoc [OF connecting_run [OF ca] this]
  have "hub_run \<lparr>hub = ?h, tasks = [Connecting tx acts None False]\<rparr> (replicate (length acts + 1) (Resume 0))
      \<lparr>hub = h1\<lparr>next_conn := next_conn h1 + 1\<rparr>, tasks = [Numbered (connect_id (hub_broker h) c) (next_conn h1) tx]\<rparr>"
    by (simp add: replicate_append_same)
  from hub_run_Cons [OF _ this, of "\<lparr>hub = h, tasks = []\<rparr>" "HubConnect c tx"] f show ?thesis
    by (intro exI [of _ "h1\<lparr>next_conn := next_conn h1 + 1\<rparr>"]) (simp add: connect_core_def b)
qed

theorem takeover_safe_witness:
  "\<exists>s0 s1 s2 s3. tasks s0 = [Numbered ''panel'' 1 1] \<and> hub_step s0 (Resume 0) = Some s1 \<and>
     tasks s2 = [Numbered ''panel'' 2 2] \<and> hub_step s2 (Resume 0) = Some s3 \<and>
     hm_get (conns (hub s3)) ''panel'' = Some (2, 2) \<and> hub_step s3 (HubGone ''panel'' 1) = Some s3"
proof -
  have id: "connect_id b demo_connect = ''panel''" for b by (simp add: connect_id_def demo_connect_def)
  have ok: "auth b = auth demo_broker \<Longrightarrow> authenticate (auth b) (con_username demo_connect) (con_password demo_connect)" for b
    by (simp add: authenticate_def demo_defs)
  have len: "length (snd (connect b demo_connect)) \<le> 2 + length (queued (bind_session b demo_connect))"
    if "auth b = auth demo_broker" for b
    unfolding connect_answer [OF ok [OF that]] by (auto split: option.split)
  let ?h0 = "Hub_new demo_broker"
  have b0: "hub_broker ?h0 = demo_broker" "next_conn ?h0 = 1" by (simp_all add: Hub_new_def)
  obtain g0 where g0: "hub_run (hub_start demo_broker)
      (HubConnect demo_connect 1 # replicate (length (snd (connect demo_broker demo_connect)) + 1) (Resume 0))
      \<lparr>hub = g0, tasks = [Numbered ''panel'' 1 1]\<rparr>"
    "hub_broker g0 = fst (connect demo_broker demo_connect)" "next_conn g0 = 2"
    using connect_steps [of ?h0 demo_connect 1] ok id b0 by (auto simp: hub_start_def)
  let ?s0 = "\<lparr>hub = g0, tasks = [Numbered ''panel'' 1 1]\<rparr>"
  let ?h1 = "connect_insert g0 ''panel'' 1 1"
  have s1: "hub_step ?s0 (Resume 0) = Some \<lparr>hub = ?h1, tasks = []\<rparr>" by simp
  have b1: "hub_broker ?h1 = fst (connect demo_broker demo_connect)" "next_conn ?h1 = 2"
    using g0 by (simp_all add: connect_insert_def)
  obtain g2 where g2: "hub_run \<lparr>hub = ?h1, tasks = []\<rparr>
      (HubConnect demo_connect 2 # replicate (length (snd (connect (hub_broker ?h1) demo_connect)) + 1) (Resume 0))
      \<lparr>hub = g2, tasks = [Numbered ''panel'' 2 2]\<rparr>"
    using connect_steps [of ?h1 demo_connect 2] ok id b1 by auto
  let ?s2 = "\<lparr>hub = g2, tasks = [Numbered ''panel'' 2 2]\<rparr>"
  have s3: "hub_step ?s2 (Resume 0) = Some \<lparr>hub = connect_insert g2 ''panel'' 2 2, tasks = []\<rparr>" by simp
  have "queued (bind_session demo_broker demo_connect) = []" "queued (bind_session (fst (connect demo_broker demo_connect)) demo_connect) = []"
    using demo_get(1) connect_sessions [OF ok [of demo_broker, OF refl]] id
    by (simp_all add: bind_session_def resumed_def connected_session_def demo_defs)
  then have short: "length (snd (connect demo_broker demo_connect)) \<le> 2" "length (snd (connect (hub_broker ?h1) demo_connect)) \<le> 2"
    using len [of demo_broker] len [of "hub_broker ?h1"] b1 by simp_all
  from takeover_safe [OF g0(1) _ _ s1 g2 _ _ s3 hub_nil] short s1 s3
  show ?thesis by (intro exI [of _ ?s0] exI [of _ "\<lparr>hub = ?h1, tasks = []\<rparr>"] exI [of _ ?s2]
      exI [of _ "\<lparr>hub = connect_insert g2 ''panel'' 2 2, tasks = []\<rparr>"]) simp
qed

text \<open>
  The gap in the takeover. Between the broker's half of a CONNECT that takes a connected client
  over and its registration, the old connection is still the one in the registry. If its teardown
  runs in that gap (it was just told to close), it detaches the session the new connection has taken
  over: afterwards the registry holds the new connection while the broker has no session for the
  client or takes it to be offline, so nothing is sent to it any more.
\<close>

theorem takeover_race:
  assumes "hm_get (conns h1) cid = Some (k1, tx1)"
    and "connect_broker h1 c tx2 = (h2, Some cid)"
    and "hub_disconnect h2 cid k1 = Some h3"
    and "connect_register h3 cid tx2 = (h4, k2)"
  shows "hm_get (conns h4) cid = Some (k2, tx2) \<and>
    (\<forall>s. hm_get (sessions (hub_broker h4)) cid = Some s \<longrightarrow> \<not> connected s)"
proof -
  have "hm_get (conns h2) cid = Some (k1, tx1)" using connect_broker_frame [OF assms(2)] assms(1) by simp
  with assms(3) obtain b actions where b: "network_disconnect (hub_broker h2) cid = Some (b, actions)"
    and h3: "hub_broker h3 = b"
    by (auto simp: hub_disconnect_def hub_defs Let_def split: option.splits)
  from assms(4) have h4: "hub_broker h4 = hub_broker h3" "hm_get (conns h4) cid = Some (k2, tx2)"
    by (auto simp: connect_register_def hub_defs Let_def)
  with disconnect_offline [OF b] h3 show ?thesis by simp
qed

theorem takeover_race_witness:
  "\<exists>h1 h2 h3 h4. hub_on_connect (Hub_new demo_broker) demo_connect 1 = (h1, Some (''panel'', 1)) \<and>
     connect_broker h1 demo_connect 2 = (h2, Some ''panel'') \<and>
     hub_disconnect h2 ''panel'' 1 = Some h3 \<and> connect_register h3 ''panel'' 2 = (h4, 2) \<and>
     hm_get (conns h4) ''panel'' = Some (2, 2) \<and>
     (\<forall>s. hm_get (sessions (hub_broker h4)) ''panel'' = Some s \<longrightarrow> \<not> connected s)"
proof -
  have id: "connect_id b demo_connect = ''panel''" for b by (simp add: connect_id_def demo_connect_def)
  have ok: "auth b = auth demo_broker \<Longrightarrow> authenticate (auth b) (con_username demo_connect) (con_password demo_connect)" for b
    by (simp add: authenticate_def demo_defs)
  define h0 where "h0 = Hub_new demo_broker"
  have h0: "next_conn h0 = 1" "hub_broker h0 = demo_broker" by (simp_all add: h0_def Hub_new_def)
  obtain g where g: "connect_broker h0 demo_connect 1 = (g, Some ''panel'')"
    using connect_broker_accepts [OF ok, of h0 1] id h0 by (metis prod.collapse)
  note gf = connect_broker_frame [OF g]
  define h1 where "h1 = fst (connect_register g ''panel'' 1)"
  have h1: "hub_on_connect h0 demo_connect 1 = (h1, Some (''panel'', 1))" "next_conn h1 = 2"
    "hm_get (conns h1) ''panel'' = Some (1, 1)" "auth (hub_broker h1) = auth demo_broker"
    using g gf h0 by (simp_all add: h1_def hub_on_connect_def connect_register_def hub_defs Let_def)
  obtain h2 where h2: "connect_broker h1 demo_connect 2 = (h2, Some ''panel'')"
    using connect_broker_accepts [OF ok, of h1 2] id h1 by (metis prod.collapse)
  note hf = connect_broker_frame [OF h2]
  have "con_will demo_connect = None" "wills demo_broker = []" by (simp_all add: demo_defs)
  then have "hm_get (wills (hub_broker h2)) ''panel'' = None"
    using hf gf h0 by (simp add: h1_def connect_register_def hub_defs Let_def connect_no_will)
  then obtain h3 where h3: "hub_disconnect h2 ''panel'' 1 = Some h3" "next_conn h3 = 2"
    using hf h1 by (simp add: hub_disconnect_def hub_defs network_disconnect_def)
  obtain h4 where h4: "connect_register h3 ''panel'' 2 = (h4, 2)"
    using h3 by (simp add: connect_register_def hub_defs)
  from takeover_race [OF h1(3) h2 h3(1) h4] show ?thesis
    using h1(1) h2 h3(1) h4 h0_def by blast
qed

text \<open>
  The same from the other side. A teardown that has passed the check and taken its own connection out of
  the registry goes on to the broker without looking again: if another connection of the client has
  been entered meanwhile, that one stays registered while its session is detached under it.
\<close>

theorem late_teardown_detaches:
  assumes "hm_get (conns (hub s)) cid = Some (k2, tx2)" and "i < length (tasks s)" and "tasks s ! i = Unregistered cid"
    and "hub_step s (Resume i) = Some s'"
  shows "hm_get (conns (hub s')) cid = Some (k2, tx2) \<and>
    (\<forall>ss. hm_get (sessions (hub_broker (hub s'))) cid = Some ss \<longrightarrow> \<not> connected ss)"
proof -
  from assms(2-4) obtain b actions where b: "network_disconnect (hub_broker (hub s)) cid = Some (b, actions)"
    and s': "hub s' = (hub s)\<lparr>hub_broker := b\<rparr>"
    by (auto simp: disconnect_core_def split: option.splits)
  from disconnect_offline [OF b] s' assms(1) show ?thesis by simp
qed

theorem late_teardown_detaches_witness:
  "\<exists>s'. hub_step \<lparr>hub = connect_insert (Hub_new demo_broker) ''panel'' 2 2, tasks = [Unregistered ''panel'']\<rparr> (Resume 0) = Some s' \<and>
     hm_get (conns (hub s')) ''panel'' = Some (2, 2)"
proof -
  let ?s = "\<lparr>hub = connect_insert (Hub_new demo_broker) ''panel'' 2 2, tasks = [Unregistered ''panel'']\<rparr>"
  have "wills demo_broker = []" by (simp add: demo_defs)
  then obtain s' where s': "hub_step ?s (Resume 0) = Some s'"
    by (simp add: disconnect_core_def connect_insert_def Hub_new_def network_disconnect_def)
  from late_teardown_detaches [OF _ _ _ s', of "''panel''" 2 2] s' show ?thesis
    by (simp add: connect_insert_def del: hub_step.simps)
qed

end
