(* ===== verification/Work_Queue.thy ===== *)
theory Work_Queue
  imports Cave_Prelude
begin

text \<open>
  The rate-limited, delaying work queue of the controllers
  (\<open>cave-home-controller-manager-rs/src/workqueue.rs\<close>) and the step that applies a reconcile result to
  it (\<open>reconcile.rs\<close>). Time is the caller's \<open>u64\<close> clock, a \<open>HashSet\<close> is a set, the delayed keys are
  a \<open>BTreeMap\<close> of buckets by the time they are due. Each key is in one of five phases, and every
  operation is proved to be the corresponding step of that abstract machine.
\<close>

section \<open>State\<close>

record RateLimitConfig =
  base_delay :: u64
  max_delay :: u64
  max_retries :: u32

definition RateLimitConfig_default :: RateLimitConfig where
  "RateLimitConfig_default = \<lparr>base_delay = 5, max_delay = 1000000, max_retries = 15\<rparr>"

text \<open>\<open>u64::saturating_mul\<close> and \<open>1u64.checked_shl\<close>.\<close>

definition saturating_mul :: "'a::len word \<Rightarrow> 'a word \<Rightarrow> 'a word" where
  "saturating_mul x y = (if unat x * unat y < 2 ^ LENGTH('a) then x * y else - 1)"

definition checked_shl_one :: "u32 \<Rightarrow> u64 option" where
  "checked_shl_one shift = (if shift < 64 then Some (push_bit (unat shift) 1) else None)"

definition backoff_for :: "RateLimitConfig \<Rightarrow> u32 \<Rightarrow> u64" where
  "backoff_for c failures =
     (if failures \<le> 1 then min (base_delay c) (max_delay c)
      else
        (let shift = failures - 1
         in if shift \<ge> 64 then max_delay c
            else
              (let factor = (case checked_shl_one shift of Some f \<Rightarrow> f | None \<Rightarrow> - 1)
               in min (saturating_mul (base_delay c) factor) (max_delay c))))"

datatype AddOutcome = Requeued u32 u64 | Dropped u32

record WorkQueue =
  cfg :: RateLimitConfig
  ready :: "string list"
  queued :: "string set"
  processing :: "string set"
  dirty_while_processing :: "string set"
  delayed :: "(u64, string list) btreemap"
  failures :: "(string, u32) hashmap"

definition WorkQueue_new :: "RateLimitConfig \<Rightarrow> WorkQueue" where
  "WorkQueue_new c =
     \<lparr>cfg = c, ready = [], queued = {}, processing = {}, dirty_while_processing = {}, delayed = [],
      failures = []\<rparr>"

definition WorkQueue_with_defaults :: WorkQueue where
  "WorkQueue_with_defaults = WorkQueue_new RateLimitConfig_default"

section \<open>Operations\<close>

definition ready_contains :: "WorkQueue \<Rightarrow> string \<Rightarrow> bool" where
  "ready_contains q key \<longleftrightarrow> list_ex (\<lambda>k. k = key) (ready q)"

definition delayed_ready_at :: "WorkQueue \<Rightarrow> string \<Rightarrow> u64 option" where
  "delayed_ready_at q key = map_option fst (find (\<lambda>(t, ks). list_ex (\<lambda>k. k = key) ks) (delayed q))"

definition remove_delayed :: "WorkQueue \<Rightarrow> string \<Rightarrow> WorkQueue" where
  "remove_delayed q key =
     (let retained = map (\<lambda>(t, ks). (t, filter (\<lambda>k. k \<noteq> key) ks)) (delayed q);
          empties = map fst (filter (\<lambda>(t, ks). ks = []) retained)
      in q\<lparr>delayed := fold bt_remove empties retained, queued := queued q - {key}\<rparr>)"

definition push_ready :: "WorkQueue \<Rightarrow> string \<Rightarrow> WorkQueue" where
  "push_ready q key = q\<lparr>queued := insert key (queued q), ready := ready q @ [key]\<rparr>"

definition wq_add :: "WorkQueue \<Rightarrow> string \<Rightarrow> WorkQueue" where
  "wq_add q key =
     (if key \<in> processing q then q\<lparr>dirty_while_processing := insert key (dirty_while_processing q)\<rparr>
      else if ready_contains q key then q
      else push_ready (if delayed_ready_at q key \<noteq> None then remove_delayed q key else q) key)"

definition push_delayed :: "WorkQueue \<Rightarrow> string \<Rightarrow> u64 \<Rightarrow> WorkQueue" where
  "push_delayed q key ready_at =
     q\<lparr>queued := insert key (queued q),
       delayed := bt_insert ready_at
         ((case map_of (delayed q) ready_at of Some ks \<Rightarrow> ks | None \<Rightarrow> []) @ [key]) (delayed q)\<rparr>"

definition add_after :: "WorkQueue \<Rightarrow> string \<Rightarrow> u64 \<Rightarrow> u64 \<Rightarrow> WorkQueue" where
  "add_after q key delay now =
     (if delay = 0 then wq_add q key
      else if key \<in> processing q
      then q\<lparr>dirty_while_processing := insert key (dirty_while_processing q)\<rparr>
      else if ready_contains q key then q
      else
        (let ready_at = saturating_add now delay
         in case delayed_ready_at q key of
              Some existing \<Rightarrow>
                (if existing \<le> ready_at then q else push_delayed (remove_delayed q key) key ready_at)
            | None \<Rightarrow> push_delayed q key ready_at))"

definition add_rate_limited :: "WorkQueue \<Rightarrow> string \<Rightarrow> u64 \<Rightarrow> WorkQueue \<times> AddOutcome" where
  "add_rate_limited q key now =
     (let n = (case hm_get (failures q) key of Some f \<Rightarrow> f | None \<Rightarrow> 0) + 1;
          q1 = q\<lparr>failures := hm_insert key n (failures q)\<rparr>
      in if n > max_retries (cfg q1) then (q1\<lparr>failures := hm_remove key (failures q1)\<rparr>, Dropped n)
         else
           (let delay = backoff_for (cfg q1) n
            in (add_after q1 key delay now, Requeued n delay)))"

definition move_key :: "string \<Rightarrow> WorkQueue \<Rightarrow> WorkQueue" where
  "move_key key q =
     (if key \<in> queued q \<and> \<not> ready_contains q key then q\<lparr>ready := ready q @ [key]\<rparr> else q)"

definition flush_bucket :: "u64 \<Rightarrow> WorkQueue \<Rightarrow> WorkQueue" where
  "flush_bucket t q =
     (case map_of (delayed q) t of
        None \<Rightarrow> q
      | Some keys \<Rightarrow> fold move_key keys (q\<lparr>delayed := bt_remove t (delayed q)\<rparr>))"

definition flush_due :: "WorkQueue \<Rightarrow> u64 \<Rightarrow> WorkQueue" where
  "flush_due q now = fold flush_bucket (map fst (filter (\<lambda>e. fst e \<le> now) (delayed q))) q"

definition wq_get :: "WorkQueue \<Rightarrow> u64 \<Rightarrow> WorkQueue \<times> string option" where
  "wq_get q now =
     (let q1 = flush_due q now
      in case ready q1 of
           [] \<Rightarrow> (q1, None)
         | key # rest \<Rightarrow>
             (q1\<lparr>ready := rest, queued := queued q1 - {key}, processing := insert key (processing q1)\<rparr>,
              Some key))"

definition wq_done :: "WorkQueue \<Rightarrow> string \<Rightarrow> WorkQueue" where
  "wq_done q key =
     (let q1 = q\<lparr>processing := processing q - {key}\<rparr>
      in if key \<in> dirty_while_processing q1
         then wq_add (q1\<lparr>dirty_while_processing := dirty_while_processing q1 - {key}\<rparr>) key
         else q1)"

definition forget :: "WorkQueue \<Rightarrow> string \<Rightarrow> WorkQueue" where
  "forget q key = q\<lparr>failures := hm_remove key (failures q)\<rparr>"

definition retries :: "WorkQueue \<Rightarrow> string \<Rightarrow> u32" where
  "retries q key = (case hm_get (failures q) key of Some f \<Rightarrow> f | None \<Rightarrow> 0)"

definition ready_len :: "WorkQueue \<Rightarrow> nat" where
  "ready_len q = length (ready q)"

definition delayed_len :: "WorkQueue \<Rightarrow> nat" where
  "delayed_len q = sum_list (map (length \<circ> snd) (delayed q))"

definition wq_len :: "WorkQueue \<Rightarrow> nat" where
  "wq_len q = ready_len q + delayed_len q"

definition wq_is_empty :: "WorkQueue \<Rightarrow> bool" where
  "wq_is_empty q \<longleftrightarrow> wq_len q = 0"

section \<open>The reconcile step\<close>

datatype Outcome = Done | Requeue | RequeueAfter u64 | Err string

datatype LoopAction =
    LoopForgotten
  | LoopRequeued
  | LoopRequeuedAfter u64
  | LoopRateLimited u32 u64
  | LoopDropped u32

definition apply_outcome :: "WorkQueue \<Rightarrow> string \<Rightarrow> Outcome \<Rightarrow> u64 \<Rightarrow> WorkQueue \<times> LoopAction" where
  "apply_outcome q key outcome now =
     (case outcome of
        Done \<Rightarrow> (wq_done (forget q key) key, LoopForgotten)
      | Requeue \<Rightarrow> (wq_add (wq_done (forget q key) key) key, LoopRequeued)
      | RequeueAfter delay \<Rightarrow>
          (add_after (wq_done (forget q key) key) key delay now, LoopRequeuedAfter delay)
      | Err _ \<Rightarrow>
          (case add_rate_limited (wq_done q key) key now of
             (q1, Requeued n delay) \<Rightarrow> (q1, LoopRateLimited n delay)
           | (q1, Dropped n) \<Rightarrow> (q1, LoopDropped n)))"

text \<open>
  One iteration of a controller's loop. The reconciler is the caller's: a function of the key and of
  its context, returning the outcome and the new context.
\<close>

definition reconcile_step ::
  "(string \<Rightarrow> 'c \<Rightarrow> Outcome \<times> 'c) \<Rightarrow> WorkQueue \<Rightarrow> 'c \<Rightarrow> u64 \<Rightarrow>
     WorkQueue \<times> 'c \<times> (string \<times> LoopAction) option" where
  "reconcile_step reconcile q ctx now =
     (case wq_get q now of
        (q1, None) \<Rightarrow> (q1, ctx, None)
      | (q1, Some key) \<Rightarrow>
          (let (outcome, ctx1) = reconcile key ctx;
               (q2, action) = apply_outcome q1 key outcome now
           in (q2, ctx1, Some (key, action))))"

section \<open>The delayed buckets\<close>

definition due_at :: "(u64, string list) btreemap \<Rightarrow> string \<Rightarrow> u64 \<Rightarrow> bool" where
  "due_at m key t \<longleftrightarrow> (\<exists>ks. map_of m t = Some ks \<and> key \<in> set ks)"

definition buckets_ok :: "(u64, string list) btreemap \<Rightarrow> bool" where
  "buckets_ok m \<longleftrightarrow> bt_ok m \<and> (\<forall>t ks. map_of m t = Some ks \<longrightarrow> distinct ks) \<and>
     (\<forall>key t t'. due_at m key t \<longrightarrow> due_at m key t' \<longrightarrow> t = t')"

lemma list_ex_eq [simp]: "list_ex (\<lambda>k. k = key) ks \<longleftrightarrow> key \<in> set ks"
  by (auto simp: list_ex_iff)

lemma ready_contains_iff [simp]: "ready_contains q key \<longleftrightarrow> key \<in> set (ready q)"
  by (simp add: ready_contains_def)

lemma map_of_iff: "bt_ok m \<Longrightarrow> map_of m t = Some ks \<longleftrightarrow> (t, ks) \<in> set m"
  using bt_ok_distinct by (metis map_of_SomeD map_of_is_SomeI)

lemma delayed_ready_at_iff:
  assumes "buckets_ok (delayed q)"
  shows "delayed_ready_at q key = Some t \<longleftrightarrow> due_at (delayed q) key t"
proof
  assume "delayed_ready_at q key = Some t"
  then obtain ks where "find (\<lambda>(t, ks). key \<in> set ks) (delayed q) = Some (t, ks)"
    by (auto simp: delayed_ready_at_def)
  from find_SomeD [OF this] assms show "due_at (delayed q) key t"
    by (auto simp: due_at_def buckets_ok_def map_of_iff)
next
  assume due: "due_at (delayed q) key t"
  then obtain ks where "(t, ks) \<in> set (delayed q)" "key \<in> set ks"
    using assms by (auto simp: due_at_def buckets_ok_def map_of_iff)
  then have "find (\<lambda>(t, ks). key \<in> set ks) (delayed q) \<noteq> None"
    by (auto simp: find_eq_None)
  then obtain t' ks' where f: "find (\<lambda>(t, ks). key \<in> set ks) (delayed q) = Some (t', ks')" by auto
  from find_SomeD [OF this] have "due_at (delayed q) key t'"
    using assms by (auto simp: due_at_def buckets_ok_def map_of_iff)
  with due assms have "t' = t" by (auto simp: buckets_ok_def)
  with f show "delayed_ready_at q key = Some t" by (simp add: delayed_ready_at_def)
qed

lemma delayed_ready_at_None:
  "buckets_ok (delayed q) \<Longrightarrow> delayed_ready_at q key = None \<longleftrightarrow> (\<forall>t. \<not> due_at (delayed q) key t)"
  using delayed_ready_at_iff [of q key] by (metis not_None_eq option.distinct(1))

lemma fold_bt_remove:
  "map_of (fold bt_remove ts m) t = (if t \<in> set ts then None else map_of m t)"
  by (induction ts arbitrary: m) (auto simp: bt.get_remove)

lemma fold_bt_remove_ok: "bt_ok m \<Longrightarrow> bt_ok (fold bt_remove ts m)"
  by (induction ts arbitrary: m) (auto simp: bt.ok_remove)

lemma map_of_retain:
  "map_of (map (\<lambda>(t, ks). (t, f ks)) m) t = map_option f (map_of m t)"
  by (induction m) auto

lemma remove_delayed_buckets:
  assumes "buckets_ok (delayed q)"
  shows "buckets_ok (delayed (remove_delayed q key))"
    "due_at (delayed (remove_delayed q key)) k t \<longleftrightarrow> k \<noteq> key \<and> due_at (delayed q) k t"
proof -
  let ?f = "filter (\<lambda>k. k \<noteq> key)"
  let ?r = "map (\<lambda>(t, ks). (t, ?f ks)) (delayed q)"
  let ?e = "map fst (filter (\<lambda>(t, ks). ks = []) ?r)"
  have ok: "bt_ok ?r" using assms by (simp add: buckets_ok_def bt_ok_def comp_def case_prod_unfold)
  have get: "map_of (delayed (remove_delayed q key)) t =
      (if t \<in> set ?e then None else map_option ?f (map_of (delayed q) t))" for t
    by (simp add: remove_delayed_def Let_def fold_bt_remove map_of_retain del: set_map)
  have empty: "t \<in> set ?e \<longleftrightarrow> map_of ?r t = Some []" for t
    using map_of_iff [OF ok, of t "[]"] by force
  have due: "due_at (delayed (remove_delayed q key)) k t \<longleftrightarrow> k \<noteq> key \<and> due_at (delayed q) k t" for k t
    unfolding due_at_def get empty map_of_retain by (auto simp: filter_empty_conv)
  from due show "due_at (delayed (remove_delayed q key)) k t \<longleftrightarrow> k \<noteq> key \<and> due_at (delayed q) k t" .
  have "bt_ok (delayed (remove_delayed q key))"
    using ok by (simp add: remove_delayed_def Let_def fold_bt_remove_ok)
  moreover have "distinct ks" if "map_of (delayed (remove_delayed q key)) t = Some ks" for t ks
    using that assms unfolding get by (auto simp: buckets_ok_def split: if_split_asm)
  ultimately show "buckets_ok (delayed (remove_delayed q key))"
    using assms by (auto simp: buckets_ok_def due)
qed

lemma push_delayed_buckets:
  assumes "buckets_ok (delayed q)" and "\<forall>t. \<not> due_at (delayed q) key t"
  shows "buckets_ok (delayed (push_delayed q key at))"
    "due_at (delayed (push_delayed q key at)) k t \<longleftrightarrow> due_at (delayed q) k t \<or> (k = key \<and> t = at)"
proof -
  let ?old = "case map_of (delayed q) at of Some ks \<Rightarrow> ks | None \<Rightarrow> []"
  have get: "map_of (delayed (push_delayed q key at)) t =
      (if t = at then Some (?old @ [key]) else map_of (delayed q) t)" for t
    by (simp add: push_delayed_def bt.get_insert)
  have old: "set ?old = {k. due_at (delayed q) k at}" "distinct ?old"
    using assms(1) by (cases "map_of (delayed q) at"; force simp: due_at_def buckets_ok_def)+
  have due: "due_at (delayed (push_delayed q key at)) k t \<longleftrightarrow>
      due_at (delayed q) k t \<or> (k = key \<and> t = at)" for k t
    using old(1) unfolding due_at_def [of "delayed (push_delayed q key at)"] get
    by (auto simp: due_at_def)
  from due show "due_at (delayed (push_delayed q key at)) k t \<longleftrightarrow>
      due_at (delayed q) k t \<or> (k = key \<and> t = at)" .
  have "bt_ok (delayed (push_delayed q key at))"
    using assms(1) by (simp add: push_delayed_def buckets_ok_def bt.ok_insert)
  moreover have "distinct ks" if "map_of (delayed (push_delayed q key at)) t = Some ks" for t ks
    using that assms old unfolding get by (auto simp: buckets_ok_def split: if_split_asm)
  ultimately show "buckets_ok (delayed (push_delayed q key at))"
    using assms by (auto simp: buckets_ok_def due)
qed

section \<open>Well-formed queues\<close>

text \<open>
  A key is ready at most once, delayed at most once, never both, and a key being processed is
  neither; the set \<open>queued\<close> is what its comment says, and only keys being processed are dirty.
\<close>

definition wq_ok :: "WorkQueue \<Rightarrow> bool" where
  "wq_ok q \<longleftrightarrow> distinct (ready q) \<and> buckets_ok (delayed q) \<and>
     (\<forall>k. k \<in> queued q \<longleftrightarrow> k \<in> set (ready q) \<or> (\<exists>t. due_at (delayed q) k t)) \<and>
     (\<forall>k. k \<in> set (ready q) \<longrightarrow> (\<forall>t. \<not> due_at (delayed q) k t)) \<and>
     processing q \<inter> queued q = {} \<and> dirty_while_processing q \<subseteq> processing q"

lemma due_at_Nil [simp]: "\<not> due_at [] k t"
  by (simp add: due_at_def)

lemma wq_ok_new [inv_intros]: "wq_ok (WorkQueue_new c)"
  by (simp add: wq_ok_def WorkQueue_new_def buckets_ok_def bt_ok_def)

lemma remove_delayed_frame [simp]:
  "ready (remove_delayed q key) = ready q" "processing (remove_delayed q key) = processing q"
  "dirty_while_processing (remove_delayed q key) = dirty_while_processing q"
  "queued (remove_delayed q key) = queued q - {key}"
  "cfg (remove_delayed q key) = cfg q" "failures (remove_delayed q key) = failures q"
  by (simp_all add: remove_delayed_def Let_def)

lemma push_delayed_frame [simp]:
  "ready (push_delayed q key at) = ready q" "processing (push_delayed q key at) = processing q"
  "dirty_while_processing (push_delayed q key at) = dirty_while_processing q"
  "queued (push_delayed q key at) = insert key (queued q)"
  "cfg (push_delayed q key at) = cfg q" "failures (push_delayed q key at) = failures q"
  by (simp_all add: push_delayed_def)

lemma wq_ok_mark_dirty:
  "wq_ok q \<Longrightarrow> key \<in> processing q \<Longrightarrow>
     wq_ok (q\<lparr>dirty_while_processing := insert key (dirty_while_processing q)\<rparr>)"
  by (simp add: wq_ok_def)

lemma wq_ok_remove_delayed:
  assumes "wq_ok q" and "key \<notin> set (ready q)"
  shows "wq_ok (remove_delayed q key)"
  using assms remove_delayed_buckets [of q key] by (auto simp: wq_ok_def)

lemma wq_ok_push_ready:
  assumes "wq_ok q" and "key \<notin> processing q" and "key \<notin> set (ready q)" and "\<forall>t. \<not> due_at (delayed q) key t"
  shows "wq_ok (push_ready q key)"
  using assms by (auto simp: wq_ok_def push_ready_def)

lemma wq_ok_push_delayed:
  assumes "wq_ok q" and "key \<notin> processing q" and "key \<notin> set (ready q)" and "\<forall>t. \<not> due_at (delayed q) key t"
  shows "wq_ok (push_delayed q key at)"
  using assms push_delayed_buckets [of q key] by (auto simp: wq_ok_def)

lemma wq_ok_no_due: "wq_ok q \<Longrightarrow> delayed_ready_at q key = None \<longleftrightarrow> (\<forall>t. \<not> due_at (delayed q) key t)"
  by (simp add: wq_ok_def delayed_ready_at_None)

lemma wq_ok_add [inv_intros]: "wq_ok q \<Longrightarrow> wq_ok (wq_add q key)"
  using wq_ok_remove_delayed [of q key] remove_delayed_buckets [of q key] wq_ok_no_due [of q key]
  by (auto simp: wq_add_def Let_def wq_ok_mark_dirty wq_ok_def [of q] intro!: wq_ok_push_ready)

lemma wq_ok_add_after [inv_intros]: "wq_ok q \<Longrightarrow> wq_ok (add_after q key delay now)"
  using wq_ok_remove_delayed [of q key] remove_delayed_buckets [of q key] wq_ok_no_due [of q key]
  by (auto simp: add_after_def Let_def wq_ok_mark_dirty wq_ok_def [of q] wq_ok_add
      intro!: wq_ok_push_delayed split: option.splits)

lemma wq_ok_failures: "wq_ok (q\<lparr>failures := f\<rparr>) \<longleftrightarrow> wq_ok q"
  by (simp add: wq_ok_def)

lemma wq_ok_forget [inv_intros]: "wq_ok q \<Longrightarrow> wq_ok (forget q key)"
  by (simp add: forget_def wq_ok_failures)

lemma wq_ok_rate_limited [inv_intros]: "wq_ok q \<Longrightarrow> wq_ok (fst (add_rate_limited q key now))"
  by (simp add: add_rate_limited_def Let_def wq_ok_failures wq_ok_add_after)

lemma wq_ok_done [inv_intros]: "wq_ok q \<Longrightarrow> wq_ok (wq_done q key)"
  by (auto simp: wq_done_def Let_def wq_ok_def [of q] wq_ok_def [of "q\<lparr>processing := p\<rparr>" for p]
      wq_ok_def [of "q\<lparr>processing := p, dirty_while_processing := d\<rparr>" for p d] intro!: wq_ok_add)

section \<open>Promotion of due keys\<close>

lemma fold_move_key:
  assumes "distinct keys" and "set keys \<subseteq> queued q" and "set keys \<inter> set (ready q) = {}"
  shows "fold move_key keys q = q\<lparr>ready := ready q @ keys\<rparr>"
  using assms
proof (induction keys arbitrary: q)
  case (Cons key keys)
  then have "fold move_key (key # keys) q = fold move_key keys (q\<lparr>ready := ready q @ [key]\<rparr>)"
    by (simp add: move_key_def)
  also have "\<dots> = q\<lparr>ready := ready q @ key # keys\<rparr>"
    using Cons.prems by (subst Cons.IH) auto
  finally show ?case .
qed simp

definition due_keys :: "(u64, string list) btreemap \<Rightarrow> u64 \<Rightarrow> string list" where
  "due_keys m now = concat (map snd (filter (\<lambda>e. fst e \<le> now) m))"

lemma fold_flush_bucket:
  assumes "wq_ok q" and "distinct ts" and "set ts \<subseteq> fst ` set (delayed q)"
  shows "fold flush_bucket ts q =
      q\<lparr>ready := ready q @ concat (map (\<lambda>t. the (map_of (delayed q) t)) ts),
        delayed := filter (\<lambda>e. fst e \<notin> set ts) (delayed q)\<rparr>
    \<and> wq_ok (fold flush_bucket ts q)"
  using assms
proof (induction ts arbitrary: q)
  case (Cons t ts)
  then obtain ks where ks: "map_of (delayed q) t = Some ks"
    by (metis insert_subset list.simps(15) map_of_eq_None_iff option.exhaust)
  let ?q1 = "q\<lparr>delayed := bt_remove t (delayed q)\<rparr>" and ?q2 = "flush_bucket t q"
  have due: "k \<in> set ks \<longleftrightarrow> due_at (delayed q) k t" for k using ks by (simp add: due_at_def)
  have "distinct ks" using Cons.prems(1) ks by (auto simp: wq_ok_def buckets_ok_def)
  moreover have "set ks \<subseteq> queued q" "set ks \<inter> set (ready q) = {}"
    using Cons.prems(1) due by (auto simp: wq_ok_def)
  ultimately have q2: "?q2 = ?q1\<lparr>ready := ready q @ ks\<rparr>"
    using fold_move_key [of ks ?q1] ks by (simp add: flush_bucket_def)
  have get: "map_of (bt_remove t (delayed q)) t' = (if t' = t then None else map_of (delayed q) t')" for t'
    by (simp add: bt.get_remove)
  have due2: "due_at (bt_remove t (delayed q)) k t' \<longleftrightarrow> t' \<noteq> t \<and> due_at (delayed q) k t'" for k t'
    by (simp add: due_at_def get)
  have bok: "buckets_ok (bt_remove t (delayed q))"
    using Cons.prems(1) due2 by (auto simp: wq_ok_def buckets_ok_def get bt.ok_remove split: if_split_asm)
  have once: "due_at (delayed q) k t \<Longrightarrow> due_at (delayed q) k t' \<Longrightarrow> t' = t" for k t'
    using Cons.prems(1) by (auto simp: wq_ok_def buckets_ok_def)
  have ok2: "wq_ok ?q2"
    unfolding wq_ok_def q2 using Cons.prems(1) bok \<open>distinct ks\<close> due due2 once
    by (simp add: wq_ok_def) blast
  have "set ts \<subseteq> fst ` set (delayed ?q2)" "distinct ts"
    using Cons.prems(2,3) q2 by (force simp: bt_remove_def)+
  from Cons.IH [OF ok2 this(2,1)]
  have *: "fold flush_bucket ts ?q2 =
      ?q2\<lparr>ready := ready ?q2 @ concat (map (\<lambda>t. the (map_of (delayed ?q2) t)) ts),
        delayed := filter (\<lambda>e. fst e \<notin> set ts) (delayed ?q2)\<rparr>"
    and **: "wq_ok (fold flush_bucket ts ?q2)" by blast+
  have m1: "map (\<lambda>t'. the (map_of (delayed ?q2) t')) ts = map (\<lambda>t'. the (map_of (delayed q) t')) ts"
    using Cons.prems(2) q2 get by auto
  have m2: "filter (\<lambda>e. fst e \<notin> set ts) (delayed ?q2) = filter (\<lambda>e. fst e \<notin> set (t # ts)) (delayed q)"
    using q2 by (auto simp: bt_remove_def intro: filter_cong)
  have "fold flush_bucket (t # ts) q =
      q\<lparr>ready := ready q @ concat (map (\<lambda>t. the (map_of (delayed q) t)) (t # ts)),
        delayed := filter (\<lambda>e. fst e \<notin> set (t # ts)) (delayed q)\<rparr>"
    using * [unfolded m1 m2] q2 ks by simp
  with ** show ?case by simp
qed simp

text \<open>Promotion appends the due keys to the ready queue, earliest first, and nothing else changes.\<close>

lemma flush_due_exact:
  assumes "wq_ok q"
  shows "flush_due q now =
      q\<lparr>ready := ready q @ due_keys (delayed q) now, delayed := filter (\<lambda>e. \<not> fst e \<le> now) (delayed q)\<rparr>"
    "wq_ok (flush_due q now)"
proof -
  let ?es = "filter (\<lambda>e. fst e \<le> now) (delayed q)"
  have d: "distinct (map fst (delayed q))"
    using assms by (auto simp: wq_ok_def buckets_ok_def bt_ok_distinct)
  then have "distinct (map fst ?es)" by (rule distinct_map_filter)
  moreover have "set (map fst ?es) \<subseteq> fst ` set (delayed q)" by auto
  ultimately have f: "fold flush_bucket (map fst ?es) q =
      q\<lparr>ready := ready q @ concat (map (\<lambda>t. the (map_of (delayed q) t)) (map fst ?es)),
        delayed := filter (\<lambda>e. fst e \<notin> set (map fst ?es)) (delayed q)\<rparr>"
    "wq_ok (fold flush_bucket (map fst ?es) q)"
    using fold_flush_bucket [OF assms] by blast+
  from f(2) show "wq_ok (flush_due q now)" by (simp add: flush_due_def)
  have 1: "map (\<lambda>t. the (map_of (delayed q) t)) (map fst ?es) = map snd ?es"
    using d by (auto simp: map_of_is_SomeI)
  have 2: "filter (\<lambda>e. fst e \<notin> set (map fst ?es)) (delayed q) = filter (\<lambda>e. \<not> fst e \<le> now) (delayed q)"
    by (auto intro!: filter_cong)
  show "flush_due q now =
      q\<lparr>ready := ready q @ due_keys (delayed q) now, delayed := filter (\<lambda>e. \<not> fst e \<le> now) (delayed q)\<rparr>"
    using f(1) unfolding flush_due_def 1 2 due_keys_def .
qed

lemma due_at_filter: "due_at (filter (\<lambda>e. P (fst e)) m) k t \<longleftrightarrow> P t \<and> due_at m k t"
  by (simp add: due_at_def map_of_filter_fst [of P])

lemma set_due_keys: "buckets_ok m \<Longrightarrow> k \<in> set (due_keys m now) \<longleftrightarrow> (\<exists>t \<le> now. due_at m k t)"
  by (auto simp: due_keys_def due_at_def buckets_ok_def map_of_iff)

lemma wq_ok_get [inv_intros]: "wq_ok q \<Longrightarrow> wq_ok (fst (wq_get q now))"
  using flush_due_exact(2) [of q now]
  by (auto simp: wq_get_def Let_def wq_ok_def [of "flush_due q now"] split: list.splits)
    (auto simp: wq_ok_def)

lemma wq_ok_apply_outcome [inv_intros]: "wq_ok q \<Longrightarrow> wq_ok (fst (apply_outcome q key outcome now))"
  using wq_ok_rate_limited [OF wq_ok_done, of q key key now]
  by (auto simp: apply_outcome_def wq_ok_done wq_ok_forget wq_ok_add wq_ok_add_after split: Outcome.splits AddOutcome.splits prod.splits)

section \<open>The phases of a key\<close>

text \<open>
  What the queue promises, key by key: a key is unknown, ready, due at a time, or in flight, and in
  the last case the flag says whether it was added again meanwhile.
\<close>

datatype phase = Idle | ReadyNow | DueAt u64 | InFlight bool

definition phase_of :: "WorkQueue \<Rightarrow> string \<Rightarrow> phase" where
  "phase_of q k =
     (if k \<in> processing q then InFlight (k \<in> dirty_while_processing q)
      else if k \<in> set (ready q) then ReadyNow
      else case delayed_ready_at q k of Some t \<Rightarrow> DueAt t | None \<Rightarrow> Idle)"

fun phase_add :: "phase \<Rightarrow> phase" where
  "phase_add (InFlight d) = InFlight True"
| "phase_add _ = ReadyNow"

fun phase_add_at :: "u64 \<Rightarrow> phase \<Rightarrow> phase" where
  "phase_add_at t (InFlight d) = InFlight True"
| "phase_add_at t ReadyNow = ReadyNow"
| "phase_add_at t (DueAt t') = DueAt (min t' t)"
| "phase_add_at t Idle = DueAt t"

definition phase_after :: "u64 \<Rightarrow> u64 \<Rightarrow> phase \<Rightarrow> phase" where
  "phase_after delay now = (if delay = 0 then phase_add else phase_add_at (saturating_add now delay))"

fun phase_tick :: "u64 \<Rightarrow> phase \<Rightarrow> phase" where
  "phase_tick now (DueAt t) = (if t \<le> now then ReadyNow else DueAt t)"
| "phase_tick now p = p"

fun phase_done :: "phase \<Rightarrow> phase" where
  "phase_done (InFlight d) = (if d then ReadyNow else Idle)"
| "phase_done p = p"

definition phase_char :: "bool \<Rightarrow> bool \<Rightarrow> bool \<Rightarrow> u64 option \<Rightarrow> phase" where
  "phase_char p d r a =
     (if p then InFlight d else if r then ReadyNow else case a of Some t \<Rightarrow> DueAt t | None \<Rightarrow> Idle)"

lemma phase_of_char:
  "phase_of q k = phase_char (k \<in> processing q) (k \<in> dirty_while_processing q) (k \<in> set (ready q))
     (delayed_ready_at q k)"
  by (simp add: phase_of_def phase_char_def)

lemma delayed_ready_at_frame:
  "buckets_ok (delayed q) \<Longrightarrow> buckets_ok (delayed q') \<Longrightarrow>
     (\<forall>t. due_at (delayed q') k t \<longleftrightarrow> due_at (delayed q) k t) \<Longrightarrow>
     delayed_ready_at q' k = delayed_ready_at q k"
  by (rule option_eqI) (simp add: delayed_ready_at_iff)

lemma delayed_ready_at_remove:
  assumes "buckets_ok (delayed q)"
  shows "delayed_ready_at (remove_delayed q key) k = (if k = key then None else delayed_ready_at q k)"
  using assms remove_delayed_buckets [OF assms, of key]
  by (intro option_eqI) (simp add: delayed_ready_at_iff)

lemma delayed_ready_at_push:
  assumes "buckets_ok (delayed q)" and "delayed_ready_at q key = None"
  shows "delayed_ready_at (push_delayed q key at) k = (if k = key then Some at else delayed_ready_at q k)"
proof -
  from assms have none: "\<forall>t. \<not> due_at (delayed q) key t" by (simp add: delayed_ready_at_None)
  with push_delayed_buckets [OF assms(1) none, of at] assms(1) show ?thesis
    by (intro option_eqI) (auto simp: delayed_ready_at_iff)
qed

lemma delayed_ready_at_upd [simp]:
  "delayed_ready_at (q\<lparr>ready := r\<rparr>) = delayed_ready_at q"
  "delayed_ready_at (q\<lparr>queued := s\<rparr>) = delayed_ready_at q"
  "delayed_ready_at (q\<lparr>processing := s\<rparr>) = delayed_ready_at q"
  "delayed_ready_at (q\<lparr>dirty_while_processing := s\<rparr>) = delayed_ready_at q"
  "delayed_ready_at (q\<lparr>failures := f\<rparr>) = delayed_ready_at q"
  by (simp_all add: delayed_ready_at_def fun_eq_iff)

lemma wq_buckets: "wq_ok q \<Longrightarrow> buckets_ok (delayed q)"
  by (simp add: wq_ok_def)

lemma phase_wq_add:
  assumes "wq_ok q"
  shows "phase_of (wq_add q key) = (phase_of q)(key := phase_add (phase_of q key))"
proof
  fix k
  show "phase_of (wq_add q key) k = ((phase_of q)(key := phase_add (phase_of q key))) k"
    using delayed_ready_at_remove [OF wq_buckets [OF assms], of key]
    by (cases "delayed_ready_at q key"; cases "k = key")
      (auto simp: wq_add_def push_ready_def phase_of_def)
qed

lemma phase_add_after:
  assumes "wq_ok q"
  shows "phase_of (add_after q key delay now) = (phase_of q)(key := phase_after delay now (phase_of q key))"
proof (cases "delay = 0")
  case True
  with phase_wq_add [OF assms] show ?thesis by (simp add: add_after_def phase_after_def)
next
  case False
  show ?thesis
  proof
    fix k
    note b = wq_buckets [OF assms]
    have rb: "buckets_ok (delayed (remove_delayed q key))"
      and rn: "delayed_ready_at (remove_delayed q key) key = None"
      using remove_delayed_buckets(1) [OF b] delayed_ready_at_remove [OF b] by simp_all
    show "phase_of (add_after q key delay now) k = ((phase_of q)(key := phase_after delay now (phase_of q key))) k"
      using False delayed_ready_at_remove [OF b, of key] delayed_ready_at_push [OF b, of key]
        delayed_ready_at_push [OF rb rn]
      by (cases "delayed_ready_at q key"; cases "k = key")
        (auto simp: add_after_def phase_of_def phase_after_def Let_def min_def)
  qed
qed

lemma phase_forget [simp]: "phase_of (forget q key) = phase_of q"
  by (simp add: fun_eq_iff phase_of_def forget_def)

lemma phase_wq_done:
  assumes "wq_ok q"
  shows "phase_of (wq_done q key) = (phase_of q)(key := phase_done (phase_of q key))"
proof
  fix k
  let ?q1 = "q\<lparr>processing := processing q - {key}\<rparr>"
  let ?q2 = "?q1\<lparr>dirty_while_processing := dirty_while_processing q - {key}\<rparr>"
  have ok: "wq_ok ?q2" using assms by (auto simp: wq_ok_def)
  have idle: "key \<in> processing q \<Longrightarrow> key \<notin> set (ready q) \<and> delayed_ready_at q key = None"
    using assms wq_ok_no_due [OF assms] by (auto simp: wq_ok_def)
  have sub: "key \<in> dirty_while_processing q \<Longrightarrow> key \<in> processing q" using assms by (auto simp: wq_ok_def)
  show "phase_of (wq_done q key) k = ((phase_of q)(key := phase_done (phase_of q key))) k"
    using phase_wq_add [OF ok, of key] idle sub
    by (cases "key \<in> processing q"; cases "key \<in> dirty_while_processing q"; cases "k = key")
      (simp_all add: wq_done_def Let_def phase_of_def split: option.splits)
qed

lemma phase_flush:
  assumes "wq_ok q"
  shows "phase_of (flush_due q now) k = phase_tick now (phase_of q k)"
proof -
  note f = flush_due_exact [OF assms, of now]
  have "delayed_ready_at (flush_due q now) k =
      (case delayed_ready_at q k of Some t \<Rightarrow> if t \<le> now then None else Some t | None \<Rightarrow> None)"
  proof (rule option_eqI)
    fix t
    have "delayed_ready_at (flush_due q now) k = Some t \<longleftrightarrow> \<not> t \<le> now \<and> delayed_ready_at q k = Some t"
      using wq_buckets [OF assms] wq_buckets [OF f(2)] due_at_filter [of "\<lambda>t. \<not> t \<le> now"]
      by (simp add: delayed_ready_at_iff f(1))
    then show "delayed_ready_at (flush_due q now) k = Some t \<longleftrightarrow>
        (case delayed_ready_at q k of Some t \<Rightarrow> if t \<le> now then None else Some t | None \<Rightarrow> None) = Some t"
      by (auto split: option.splits)
  qed
  moreover have "k \<in> set (due_keys (delayed q) now) \<longleftrightarrow> (\<exists>t \<le> now. delayed_ready_at q k = Some t)"
    using wq_buckets [OF assms] by (simp add: set_due_keys delayed_ready_at_iff)
  moreover have "k \<in> set (ready q) \<Longrightarrow> delayed_ready_at q k = None"
    using assms wq_ok_no_due [OF assms] by (auto simp: wq_ok_def)
  ultimately show ?thesis
    by (auto simp: phase_of_def f(1) split: option.splits)
qed

lemma phase_wq_get:
  assumes "wq_ok q" and "wq_get q now = (q', r)"
  shows "case r of
      None \<Rightarrow> (\<forall>k. phase_of q' k = phase_tick now (phase_of q k) \<and> phase_of q' k \<noteq> ReadyNow)
    | Some key \<Rightarrow> phase_tick now (phase_of q key) = ReadyNow \<and>
        phase_of q' = (phase_tick now \<circ> phase_of q)(key := InFlight False)"
proof (cases "ready (flush_due q now)")
  case Nil
  then have "phase_of (flush_due q now) k \<noteq> ReadyNow" for k
    by (auto simp: phase_of_def split: option.splits)
  with Nil assms(2) phase_flush [OF assms(1), of now] show ?thesis by (auto simp: wq_get_def Let_def)
next
  case (Cons key rest)
  note ok = flush_due_exact(2) [OF assms(1), of now]
  let ?q1 = "flush_due q now"
  have key: "key \<notin> processing ?q1" "key \<notin> set rest" "key \<notin> dirty_while_processing ?q1"
    using ok Cons by (auto simp: wq_ok_def)
  have "phase_of ?q1 key = ReadyNow" using key Cons by (simp add: phase_of_def)
  moreover have "phase_of q' = (phase_of ?q1)(key := InFlight False)"
  proof
    fix k
    from Cons assms(2) key show "phase_of q' k = ((phase_of ?q1)(key := InFlight False)) k"
      by (auto simp: wq_get_def Let_def phase_of_def)
  qed
  ultimately show ?thesis
    using Cons assms(2) phase_flush [OF assms(1), of now] by (auto simp: wq_get_def Let_def fun_eq_iff)
qed

section \<open>The contract a controller relies on\<close>

text \<open>A key is pending when it will be handed out again without being added again.\<close>

fun pending :: "phase \<Rightarrow> bool" where
  "pending ReadyNow = True"
| "pending (InFlight d) = d"
| "pending _ = False"

fun in_flight :: "phase \<Rightarrow> bool" where
  "in_flight (InFlight d) = True"
| "in_flight _ = False"

locale work_queue =
  fixes ok :: "'q \<Rightarrow> bool"
    and phase :: "'q \<Rightarrow> 'k \<Rightarrow> phase"
    and add :: "'q \<Rightarrow> 'k \<Rightarrow> 'q"
    and after :: "'q \<Rightarrow> 'k \<Rightarrow> u64 \<Rightarrow> u64 \<Rightarrow> 'q"
    and get :: "'q \<Rightarrow> u64 \<Rightarrow> 'q \<times> 'k option"
    and finish :: "'q \<Rightarrow> 'k \<Rightarrow> 'q"
  assumes ok_add: "ok q \<Longrightarrow> ok (add q k)"
    and ok_after: "ok q \<Longrightarrow> ok (after q k delay now)"
    and ok_get: "ok q \<Longrightarrow> ok (fst (get q now))"
    and ok_finish: "ok q \<Longrightarrow> ok (finish q k)"
    and phase_add_law: "ok q \<Longrightarrow> phase (add q k) = (phase q)(k := phase_add (phase q k))"
    and phase_after_law:
      "ok q \<Longrightarrow> phase (after q k delay now) = (phase q)(k := phase_after delay now (phase q k))"
    and phase_get_None:
      "ok q \<Longrightarrow> get q now = (q', None) \<Longrightarrow> phase q' k = phase_tick now (phase q k)"
    and phase_get_Some:
      "ok q \<Longrightarrow> get q now = (q', Some k) \<Longrightarrow> phase_tick now (phase q k) = ReadyNow \<and>
         phase q' = (phase_tick now \<circ> phase q)(k := InFlight False)"
    and phase_finish_law: "ok q \<Longrightarrow> phase (finish q k) = (phase q)(k := phase_done (phase q k))"
begin

lemma pending_tick: "pending p \<Longrightarrow> pending (phase_tick now p)"
  by (cases p) auto

lemma pending_phase_add: "pending (phase_add p)"
  by (cases p) auto

lemma pending_phase_after: "pending p \<Longrightarrow> pending (phase_after delay now p)"
  by (cases p) (auto simp: phase_after_def)

lemma pending_done: "pending p \<Longrightarrow> pending (phase_done p)"
  by (cases p) auto

lemma flight_add: "in_flight p \<Longrightarrow> in_flight (phase_add p)"
  by (cases p) auto

lemma flight_after: "in_flight p \<Longrightarrow> in_flight (phase_after delay now p)"
  by (cases p) (auto simp: phase_after_def)

lemma flight_tick: "in_flight (phase_tick now p) \<longleftrightarrow> in_flight p"
  by (cases p) auto

lemma add_makes_pending: "ok q \<Longrightarrow> pending (phase (add q k) k)"
  by (simp add: phase_add_law pending_phase_add)

lemma add_keeps:
  "ok q \<Longrightarrow> pending (phase q k) \<Longrightarrow> pending (phase (add q k') k)"
  "ok q \<Longrightarrow> in_flight (phase q k) \<Longrightarrow> in_flight (phase (add q k') k)"
  by (auto simp: phase_add_law pending_phase_add flight_add)

lemma after_keeps:
  "ok q \<Longrightarrow> pending (phase q k) \<Longrightarrow> pending (phase (after q k' delay now) k)"
  "ok q \<Longrightarrow> in_flight (phase q k) \<Longrightarrow> in_flight (phase (after q k' delay now) k)"
  by (auto simp: phase_after_law pending_phase_after flight_after)

lemma finish_keeps:
  "ok q \<Longrightarrow> pending (phase q k) \<Longrightarrow> pending (phase (finish q k') k)"
  "ok q \<Longrightarrow> k' \<noteq> k \<Longrightarrow> in_flight (phase q k) \<Longrightarrow> in_flight (phase (finish q k') k)"
  by (auto simp: phase_finish_law pending_done)

lemma get_keeps:
  assumes "ok q" and "get q now = (q', r)"
  shows "pending (phase q k) \<Longrightarrow> r \<noteq> Some k \<Longrightarrow> pending (phase q' k)"
    and "in_flight (phase q k) \<Longrightarrow> r \<noteq> Some k \<and> in_flight (phase q' k)"
    and "r = Some k \<Longrightarrow> phase q' k = InFlight False"
proof -
  show "pending (phase q k) \<Longrightarrow> r \<noteq> Some k \<Longrightarrow> pending (phase q' k)"
    using assms phase_get_None phase_get_Some by (cases r) (auto simp: pending_tick)
  show "in_flight (phase q k) \<Longrightarrow> r \<noteq> Some k \<and> in_flight (phase q' k)"
    using assms phase_get_None [of q now q' k] phase_get_Some [of q now q' "the r"] flight_tick [of now "phase q k"]
    by (cases r) auto
  show "r = Some k \<Longrightarrow> phase q' k = InFlight False"
    using assms phase_get_Some by auto
qed

end

interpretation wq: work_queue wq_ok phase_of wq_add add_after wq_get wq_done
proof (unfold_locales, goal_cases)
  case (7 q now q' k)
  from phase_wq_get [OF this] show ?case by simp
next
  case (8 q now q' k)
  from phase_wq_get [OF this] show ?case by simp
qed (simp_all add: inv_intros phase_wq_add phase_add_after phase_wq_done)

section \<open>Runs of a queue\<close>

text \<open>An event is a call with what it returned.\<close>

datatype wq_event =
    EvAdd string
  | EvAddAfter string u64 u64
  | EvFail string u64 AddOutcome
  | EvGet u64 "string option"
  | EvDone string
  | EvForget string

fun wq_step :: "WorkQueue \<Rightarrow> wq_event \<Rightarrow> WorkQueue \<Rightarrow> bool" where
  "wq_step q (EvAdd k) q' \<longleftrightarrow> q' = wq_add q k"
| "wq_step q (EvAddAfter k delay now) q' \<longleftrightarrow> q' = add_after q k delay now"
| "wq_step q (EvFail k now r) q' \<longleftrightarrow> add_rate_limited q k now = (q', r)"
| "wq_step q (EvGet now r) q' \<longleftrightarrow> wq_get q now = (q', r)"
| "wq_step q (EvDone k) q' \<longleftrightarrow> q' = wq_done q k"
| "wq_step q (EvForget k) q' \<longleftrightarrow> q' = forget q k"

inductive wq_run :: "WorkQueue \<Rightarrow> wq_event list \<Rightarrow> WorkQueue \<Rightarrow> bool" where
  wq_nil: "wq_run q [] q"
| wq_cons: "wq_step q e q1 \<Longrightarrow> wq_run q1 es q2 \<Longrightarrow> wq_run q (e # es) q2"

inductive_cases wq_run_NilE: "wq_run q [] q'"
inductive_cases wq_run_ConsE: "wq_run q (e # es) q'"

lemma wq_run_Cons: "wq_run q (e # es) q2 \<longleftrightarrow> (\<exists>q1. wq_step q e q1 \<and> wq_run q1 es q2)"
  by (auto intro: wq_run.intros elim: wq_run_ConsE)

lemma wq_run_Nil: "wq_run q [] q' \<longleftrightarrow> q' = q"
  by (auto intro: wq_run.intros elim: wq_run_NilE)

lemma wq_run_append: "wq_run q (es @ fs) q2 \<longleftrightarrow> (\<exists>q1. wq_run q es q1 \<and> wq_run q1 fs q2)"
  by (induction es arbitrary: q) (auto simp: wq_run_Nil wq_run_Cons)

lemmas wq_run_simps = wq_run_Nil wq_run_Cons wq_run_append

lemma phase_failures [simp]: "phase_of (q\<lparr>failures := f\<rparr>) = phase_of q"
  by (simp add: phase_of_def fun_eq_iff)

lemma phase_rate_limited:
  assumes "wq_ok q" and "add_rate_limited q k now = (q', r)"
  shows "phase_of q' =
    (case r of Requeued n delay \<Rightarrow> (phase_of q)(k := phase_after delay now (phase_of q k)) | Dropped n \<Rightarrow> phase_of q)"
  using assms phase_add_after [of "q\<lparr>failures := f\<rparr>" for f]
  by (auto simp: add_rate_limited_def Let_def wq_ok_failures split: if_split_asm)

lemma wq_ok_step: "wq_ok q \<Longrightarrow> wq_step q e q' \<Longrightarrow> wq_ok q'"
  using wq_ok_rate_limited [of q] wq_ok_get [of q]
  by (cases e) (auto simp: wq_ok_add wq_ok_add_after wq_ok_done wq_ok_forget, metis fst_conv, metis fst_conv)

lemma wq_ok_run: "wq_run q es q' \<Longrightarrow> wq_ok q \<Longrightarrow> wq_ok q'"
  by (induction rule: wq_run.induct) (auto intro: wq_ok_step)

end
