(* ===== verification/Reconcile_Loop.thy ===== *)
theory Reconcile_Loop
  imports Work_Queue
begin

text \<open>
  What a controller gets from its work queue over whole runs: no key is handed to two workers, no
  added key is lost, the ready keys are served in order, failures are counted and the retry budget
  is exact, and the backoff is the documented power of two.
\<close>

section \<open>Steps and phases\<close>

lemma pending_step:
  assumes "wq_ok q" and "wq_step q e q'" and "pending (phase_of q k)" and "\<forall>t. e \<noteq> EvGet t (Some k)"
  shows "pending (phase_of q' k)"
proof (cases e)
  case (EvFail k' now r)
  with assms have "add_rate_limited q k' now = (q', r)" by simp
  from phase_rate_limited [OF assms(1) this] assms(3) show ?thesis
    by (auto simp: wq.pending_phase_after split: AddOutcome.splits)
next
  case (EvGet now r)
  with assms wq.get_keeps(1) [OF assms(1), of now q' r k] show ?thesis by auto
qed (use assms wq.add_keeps wq.after_keeps wq.finish_keeps in auto)

lemma flight_step:
  assumes "wq_ok q" and "wq_step q e q'" and "in_flight (phase_of q k)" and "e \<noteq> EvDone k"
  shows "in_flight (phase_of q' k) \<and> e \<noteq> EvGet t (Some k)"
proof (cases e)
  case (EvFail k' now r)
  with assms have "add_rate_limited q k' now = (q', r)" by simp
  from phase_rate_limited [OF assms(1) this] assms(3) EvFail show ?thesis
    by (auto simp: wq.flight_after split: AddOutcome.splits)
next
  case (EvGet now r)
  with assms wq.get_keeps(2) [OF assms(1), of now q' r k] show ?thesis by auto
qed (use assms wq.add_keeps wq.after_keeps wq.finish_keeps in auto)

lemma pending_run:
  "wq_run q es q' \<Longrightarrow> wq_ok q \<Longrightarrow> pending (phase_of q k) \<Longrightarrow> \<forall>t. EvGet t (Some k) \<notin> set es \<Longrightarrow>
     pending (phase_of q' k)"
proof (induction rule: wq_run.induct)
  case (wq_cons q e q1 es q2)
  then show ?case using pending_step [OF wq_cons.prems(1) wq_cons.hyps(1), of k] wq_ok_step by auto
qed simp

lemma flight_run:
  "wq_run q es q' \<Longrightarrow> wq_ok q \<Longrightarrow> in_flight (phase_of q k) \<Longrightarrow> EvDone k \<notin> set es \<Longrightarrow>
     in_flight (phase_of q' k)"
proof (induction rule: wq_run.induct)
  case (wq_cons q e q1 es q2)
  then show ?case using flight_step [OF wq_cons.prems(1) wq_cons.hyps(1), of k] wq_ok_step by auto
qed simp

lemma pending_cases:
  "pending (phase_of q k) \<longleftrightarrow>
     k \<in> set (ready q) \<and> k \<notin> processing q \<or> k \<in> processing q \<and> k \<in> dirty_while_processing q"
  by (auto simp: phase_of_def split: option.splits)

section \<open>Order of service\<close>

text \<open>The keys that \<open>n\<close> calls of \<open>get\<close> at the same time hand out.\<close>

fun serve :: "nat \<Rightarrow> u64 \<Rightarrow> WorkQueue \<Rightarrow> string list" where
  "serve 0 now q = []"
| "serve (Suc n) now q =
     (case wq_get q now of (q', Some key) \<Rightarrow> key # serve n now q' | (q', None) \<Rightarrow> [])"

lemma wq_get_head:
  assumes "wq_ok q" and "ready q = key # rest"
  shows "\<exists>q'. wq_get q now = (q', Some key) \<and> ready q' = rest @ due_keys (delayed q) now"
  using assms flush_due_exact(1) [OF assms(1), of now] by (simp add: wq_get_def)

lemma serve_ready: "wq_ok q \<Longrightarrow> n \<le> length (ready q) \<Longrightarrow> serve n now q = take n (ready q)"
proof (induction n arbitrary: q)
  case (Suc n)
  then obtain key rest where r: "ready q = key # rest" by (cases "ready q") auto
  from wq_get_head [OF Suc.prems(1) r]
  obtain q' where q': "wq_get q now = (q', Some key)" "ready q' = rest @ due_keys (delayed q) now" by blast
  moreover have "wq_ok q'" using wq_ok_get [OF Suc.prems(1), of now] q' by simp
  ultimately show ?case using Suc r by simp
qed simp

section \<open>Failure counts\<close>

lemma add_frame [frame_simps]: "cfg (wq_add q k) = cfg q" "failures (wq_add q k) = failures q"
  by (simp_all add: wq_add_def push_ready_def)

lemma add_after_frame [frame_simps]:
  "cfg (add_after q k d now) = cfg q" "failures (add_after q k d now) = failures q"
  by (simp_all add: add_after_def Let_def add_frame split: option.splits)

lemma done_frame [frame_simps]: "cfg (wq_done q k) = cfg q" "failures (wq_done q k) = failures q"
  by (simp_all add: wq_done_def Let_def add_frame)

lemma get_frame:
  assumes "wq_ok q" and "wq_get q now = (q', r)"
  shows "cfg q' = cfg q" "failures q' = failures q"
proof -
  have "cfg (flush_due q now) = cfg q" "failures (flush_due q now) = failures q"
    by (simp_all add: flush_due_exact(1) [OF assms(1)])
  with assms(2) show "cfg q' = cfg q" "failures q' = failures q"
    by (auto simp: wq_get_def Let_def split: list.splits)
qed

text \<open>The failures of a key since it was last forgotten or dropped.\<close>

fun count_failure :: "string \<Rightarrow> wq_event \<Rightarrow> nat \<Rightarrow> nat" where
  "count_failure k (EvFail k' now r) n =
     (if k' \<noteq> k then n else case r of Requeued _ _ \<Rightarrow> n + 1 | Dropped _ \<Rightarrow> 0)"
| "count_failure k (EvForget k') n = (if k' = k then 0 else n)"
| "count_failure k _ n = n"

definition streak :: "string \<Rightarrow> wq_event list \<Rightarrow> nat" where
  "streak k es = fold (count_failure k) es 0"

lemma cfg_step: "wq_ok q \<Longrightarrow> wq_step q e q' \<Longrightarrow> cfg q' = cfg q"
  by (cases e) (auto simp: get_frame(1) frame_simps forget_def add_rate_limited_def Let_def split: if_split_asm)

text \<open>The answer of the rate limiter as a function of the failures so far.\<close>

definition limiter :: "RateLimitConfig \<Rightarrow> nat \<Rightarrow> AddOutcome" where
  "limiter c n =
     (if n < unat (max_retries c) then Requeued (of_nat (n + 1)) (backoff_for c (of_nat (n + 1)))
      else Dropped (of_nat (n + 1)))"

lemma add_rate_limited_limiter:
  assumes "unat (retries q k) = n" and "n \<le> unat (max_retries (cfg q))" and "max_retries (cfg q) \<noteq> - 1"
  shows "snd (add_rate_limited q k now) = limiter (cfg q) n"
    and "unat (retries (fst (add_rate_limited q k now)) k') =
      (if k' = k then (if n < unat (max_retries (cfg q)) then n + 1 else 0) else unat (retries q k'))"
proof -
  let ?m = "max_retries (cfg q)"
  have "unat (- 1 :: u32) = 4294967295" by (simp add: unsigned_minus_1_eq_mask mask_eq_exp_minus_1)
  with assms(3) have "unat ?m \<noteq> 4294967295" by (metis word_unat_eq_iff)
  with unat_lt_u32 [of ?m] have small: "n + 1 < 4294967296" using assms(2) by simp
  have f: "(case hm_get (failures q) k of Some f \<Rightarrow> f | None \<Rightarrow> 0) = of_nat n"
    using assms(1) by (simp add: retries_def flip: assms(1))
  have "unat (of_nat (n + 1) :: u32) = n + 1"
    using small by (simp only: unat_of_nat) simp
  then have gt: "of_nat (n + 1) > ?m \<longleftrightarrow> \<not> n < unat ?m" by (auto simp: word_less_nat_alt)
  show "snd (add_rate_limited q k now) = limiter (cfg q) n"
    using f gt by (simp add: add_rate_limited_def Let_def limiter_def add.commute)
  show "unat (retries (fst (add_rate_limited q k now)) k') =
      (if k' = k then (if n < unat ?m then n + 1 else 0) else unat (retries q k'))"
    using f gt \<open>unat (of_nat (n + 1) :: u32) = n + 1\<close>
    by (simp add: add_rate_limited_def Let_def retries_def add_after_frame add.commute)
qed

lemma retries_step:
  assumes "wq_ok q" and "wq_step q e q'" and "max_retries (cfg q) \<noteq> - 1"
    and "\<forall>k. unat (retries q k) = n k \<and> n k \<le> unat (max_retries (cfg q))"
  shows "unat (retries q' k) = count_failure k e (n k) \<and> count_failure k e (n k) \<le> unat (max_retries (cfg q))"
    and "\<forall>k now r. e = EvFail k now r \<longrightarrow> r = limiter (cfg q) (n k)"
proof -
  have lim: "r = limiter (cfg q) (n k')" "unat (retries q' k) =
      (if k = k' then (if n k' < unat (max_retries (cfg q)) then n k' + 1 else 0) else n k)"
    if "add_rate_limited q k' now = (q', r)" for k k' now r
    using add_rate_limited_limiter(1) [of q k' "n k'" now] add_rate_limited_limiter(2) [of q k' "n k'" now k]
      that assms(3,4) by auto
  from lim(1) assms(2) show "\<forall>k now r. e = EvFail k now r \<longrightarrow> r = limiter (cfg q) (n k)" by auto
  show "unat (retries q' k) = count_failure k e (n k) \<and> count_failure k e (n k) \<le> unat (max_retries (cfg q))"
  proof (cases e)
    case (EvFail k' now r)
    with assms(2) have "add_rate_limited q k' now = (q', r)" by simp
    from lim [OF this] assms(4) EvFail show ?thesis by (auto simp: limiter_def)
  next
    case (EvGet now r)
    with get_frame(2) [OF assms(1)] assms show ?thesis by (auto simp: retries_def)
  qed (use assms in \<open>auto simp: retries_def frame_simps forget_def\<close>)
qed

lemma retries_run:
  assumes "wq_run q es q'" and "wq_ok q" and "max_retries (cfg q) \<noteq> - 1"
    and "\<forall>k. unat (retries q k) = n k \<and> n k \<le> unat (max_retries (cfg q))"
  shows "wq_ok q' \<and> cfg q' = cfg q \<and>
    (\<forall>k. unat (retries q' k) = fold (count_failure k) es (n k) \<and>
      fold (count_failure k) es (n k) \<le> unat (max_retries (cfg q)))"
  using assms
proof (induction arbitrary: n rule: wq_run.induct)
  case (wq_cons q e q1 es q2)
  have ok: "wq_ok q1" and c: "cfg q1 = cfg q"
    using wq_ok_step [OF wq_cons.prems(1) wq_cons.hyps(1)] cfg_step [OF wq_cons.prems(1) wq_cons.hyps(1)] by auto
  have "\<forall>k. unat (retries q1 k) = count_failure k e (n k) \<and>
      count_failure k e (n k) \<le> unat (max_retries (cfg q1))"
    using retries_step(1) [OF wq_cons.prems(1) wq_cons.hyps(1) wq_cons.prems(2,3)] c by simp
  with wq_cons.IH [of "\<lambda>k. count_failure k e (n k)"] ok c wq_cons.prems(2) show ?case by simp
qed auto

section \<open>Properties of the controllers' queue\<close>

lemma cfg_run: "wq_run q es q' \<Longrightarrow> wq_ok q \<Longrightarrow> cfg q' = cfg q"
proof (induction rule: wq_run.induct)
  case (wq_cons q e q1 es q2)
  then show ?case using cfg_step [of q e q1] wq_ok_step [of q e q1] by simp
qed simp

lemma rate_limited_answer:
  "case add_rate_limited q k now of
     (q', Requeued n delay) \<Rightarrow> n \<le> max_retries (cfg q) \<and> delay = backoff_for (cfg q) n
   | (q', Dropped n) \<Rightarrow> max_retries (cfg q) < n"
  by (simp add: add_rate_limited_def Let_def not_less)

text \<open>
  C18. Every operation of the work queue refines the abstract queue of phases, in every state a run of
  calls can reach. An add makes its key ready, or marks it when it is in flight; a delayed key too
  becomes ready at once, although the comment of \<open>add\<close> says that such an add is a no-op. A delayed add
  keeps the earlier of the two due times and never takes a ready key back. A failure within the retry
  budget is a delayed add by its backoff, one beyond it changes no phase, and neither does forgetting a
  key's failures. Finishing a key makes it ready exactly when it was marked. \<open>get\<close> first makes every
  due key ready, then hands out a ready key that was not in flight, and returns nothing only when no
  key is ready. No other key is touched.
\<close>

theorem queue_refines_phases:
  assumes "wq_run (WorkQueue_new c) es q"
  shows "phase_of (wq_add q k) = (phase_of q)(k := phase_add (phase_of q k)) \<and>
    phase_of (add_after q k delay now) = (phase_of q)(k := phase_after delay now (phase_of q k)) \<and>
    (case add_rate_limited q k now of
       (q', Requeued n d) \<Rightarrow> n \<le> max_retries c \<and> d = backoff_for c n \<and>
         phase_of q' = (phase_of q)(k := phase_after d now (phase_of q k))
     | (q', Dropped n) \<Rightarrow> max_retries c < n \<and> phase_of q' = phase_of q) \<and>
    phase_of (forget q k) = phase_of q \<and>
    phase_of (wq_done q k) = (phase_of q)(k := phase_done (phase_of q k)) \<and>
    (case wq_get q now of
       (q', None) \<Rightarrow> phase_of q' = phase_tick now \<circ> phase_of q \<and> (\<forall>k. phase_of q' k \<noteq> ReadyNow)
     | (q', Some key) \<Rightarrow> phase_tick now (phase_of q key) = ReadyNow \<and>
         phase_of q' = (phase_tick now \<circ> phase_of q)(key := InFlight False))"
proof -
  have ok: "wq_ok q" using wq_ok_run [OF assms] wq_ok_new by blast
  have c: "cfg q = c" using cfg_run [OF assms wq_ok_new] by (simp add: WorkQueue_new_def)
  obtain q' r where g: "wq_get q now = (q', r)" by fastforce
  from phase_wq_get [OF ok g] have get: "case wq_get q now of
       (q', None) \<Rightarrow> phase_of q' = phase_tick now \<circ> phase_of q \<and> (\<forall>k. phase_of q' k \<noteq> ReadyNow)
     | (q', Some key) \<Rightarrow> phase_tick now (phase_of q key) = ReadyNow \<and>
         phase_of q' = (phase_tick now \<circ> phase_of q)(key := InFlight False)"
    unfolding g by (cases r) (simp_all add: fun_eq_iff, metis)
  obtain q1 r1 where f: "add_rate_limited q k now = (q1, r1)" by fastforce
  from phase_rate_limited [OF ok f] rate_limited_answer [of q k now]
  have fail: "case add_rate_limited q k now of
       (q', Requeued n d) \<Rightarrow> n \<le> max_retries c \<and> d = backoff_for c n \<and>
         phase_of q' = (phase_of q)(k := phase_after d now (phase_of q k))
     | (q', Dropped n) \<Rightarrow> max_retries c < n \<and> phase_of q' = phase_of q"
    unfolding f by (cases r1) (simp_all add: c)
  have forget: "phase_of (forget q k) = phase_of q" by (simp add: forget_def)
  from get fail forget phase_wq_add [OF ok] phase_add_after [OF ok] phase_wq_done [OF ok] show ?thesis by blast
qed

definition demo_events :: "wq_event list" where
  "demo_events = [EvAdd ''a'', EvAdd ''b'', EvGet 0 (Some ''a''), EvAdd ''a'']"

definition demo_queue :: WorkQueue where
  "demo_queue = \<lparr>cfg = RateLimitConfig_default, ready = [''b''], queued = {''b''}, processing = {''a''},
     dirty_while_processing = {''a''}, delayed = [], failures = []\<rparr>"

lemmas queue_eval = WorkQueue_new_def wq_add_def push_ready_def delayed_ready_at_def wq_get_def flush_due_def
  wq_done_def add_after_def push_delayed_def Let_def

lemma demo_queue_run: "wq_run (WorkQueue_new RateLimitConfig_default) demo_events demo_queue"
  by (auto simp: demo_events_def demo_queue_def wq_run_simps queue_eval)

theorem queue_refines_phases_witness:
  "phase_of (wq_done demo_queue ''a'') ''a'' = ReadyNow \<and> phase_of (wq_add demo_queue ''c'') ''b'' = ReadyNow"
  using queue_refines_phases [OF demo_queue_run, of "''a''"] queue_refines_phases [OF demo_queue_run, of "''c''"]
  by (simp add: phase_of_def demo_queue_def)

text \<open>
  No key is processed concurrently with itself: in every run, between two calls of \<open>get\<close> that
  hand out the same key there is a call of \<open>done\<close> for it.
\<close>

theorem exclusive_processing:
  assumes "wq_run (WorkQueue_new c) (es @ EvGet t1 (Some k) # mid @ [EvGet t2 (Some k)]) q"
  shows "EvDone k \<in> set mid"
proof (rule ccontr)
  assume no: "EvDone k \<notin> set mid"
  from assms obtain q1 q2 q3 where r: "wq_run (WorkQueue_new c) es q1" "wq_get q1 t1 = (q2, Some k)"
    "wq_run q2 mid q3" "wq_get q3 t2 = (q, Some k)"
    by (auto simp: wq_run_simps)
  have ok: "wq_ok q1" using wq_ok_run [OF r(1)] wq_ok_new by blast
  then have ok2: "wq_ok q2" using wq_ok_get [of q1 t1] r(2) by simp
  have "in_flight (phase_of q2 k)" using wq.get_keeps(3) [OF ok r(2)] by simp
  from flight_run [OF r(3) ok2 this no] have "in_flight (phase_of q3 k)" .
  with wq.get_keeps(2) [OF wq_ok_run [OF r(3) ok2] r(4)] show False by blast
qed

theorem exclusive_processing_witness:
  "EvDone ''a'' \<in> set [EvAdd ''a'', EvGet 1 None, EvDone ''a'']"
proof -
  have "\<exists>q. wq_run (WorkQueue_new RateLimitConfig_default)
      ([EvAdd ''a''] @ EvGet 0 (Some ''a'') # [EvAdd ''a'', EvGet 1 None, EvDone ''a''] @ [EvGet 2 (Some ''a'')]) q"
    by (simp add: wq_run_simps queue_eval)
  then show ?thesis using exclusive_processing by blast
qed

text \<open>
  C19. An added key is not lost. After an add, also of a key that was waiting for a due time (the comment
  of \<open>add\<close> calls that a no-op, the code makes it ready), and until the key is handed out, it is ready, and as many
  calls of \<open>get\<close> as there are ready keys hand it out, in the order of the queue; or it is in flight,
  and finishing it makes it ready again. Delayed adds, failures and other keys do not change that.
\<close>

theorem added_key_is_served:
  assumes "wq_run (WorkQueue_new c) (es @ EvAdd k # mid) q" and "\<forall>t. EvGet t (Some k) \<notin> set mid"
  shows "k \<in> set (ready q) \<and> serve (length (ready q)) now q = ready q \<or>
    k \<in> processing q \<and> k \<in> set (ready (wq_done q k))"
proof -
  from assms(1) obtain q1 where r: "wq_run (WorkQueue_new c) es q1" "wq_run (wq_add q1 k) mid q"
    by (auto simp: wq_run_simps)
  have ok1: "wq_ok q1" using wq_ok_run [OF r(1)] wq_ok_new by blast
  then have "wq_ok (wq_add q1 k)" by (rule wq_ok_add)
  then have ok: "wq_ok q" using wq_ok_run [OF r(2)] by blast
  have "pending (phase_of q k)"
    using pending_run [OF r(2) \<open>wq_ok (wq_add q1 k)\<close> wq.add_makes_pending [OF ok1] assms(2)] .
  then show ?thesis
    unfolding pending_cases
    using serve_ready [OF ok, of "length (ready q)" now]
    by (auto simp: wq_done_def Let_def wq_add_def push_ready_def)
qed

theorem added_key_is_served_witness:
  "''a'' \<in> set (ready (wq_done demo_queue ''a''))"
proof -
  have "wq_run (WorkQueue_new RateLimitConfig_default)
      ([EvAdd ''a'', EvAdd ''b'', EvGet 0 (Some ''a'')] @ EvAdd ''a'' # []) demo_queue"
    using demo_queue_run by (simp add: demo_events_def)
  from added_key_is_served [OF this] show ?thesis by (auto simp: demo_queue_def)
qed

text \<open>
  The retry budget is exact. In every run, a failure of a key that has failed \<open>n\<close> times since it
  was last forgotten or dropped is requeued, with the failure count \<open>n + 1\<close> and the backoff for it,
  when \<open>n\<close> is below the budget, and dropped when it is not; and the count the queue keeps is that
  number of failures. (A budget of 2^32 - 1 retries is excluded: there the 32-bit count would wrap.)
\<close>

theorem retry_budget_exact:
  assumes "wq_run (WorkQueue_new c) (es @ [EvFail k now r]) q" and "max_retries c \<noteq> - 1"
  shows "r = (if streak k es < unat (max_retries c)
        then Requeued (of_nat (streak k es + 1)) (backoff_for c (of_nat (streak k es + 1)))
        else Dropped (of_nat (streak k es + 1))) \<and>
    unat (retries q k) = streak k (es @ [EvFail k now r]) \<and> streak k (es @ [EvFail k now r]) \<le> unat (max_retries c)"
proof -
  from assms(1) obtain q1 where r: "wq_run (WorkQueue_new c) es q1" and s: "wq_step q1 (EvFail k now r) q"
    by (auto simp: wq_run_simps)
  have new: "\<forall>k. unat (retries (WorkQueue_new c) k) = (\<lambda>_. 0) k \<and> (\<lambda>_. 0) k \<le> unat (max_retries (cfg (WorkQueue_new c)))"
    and cc: "cfg (WorkQueue_new c) = c"
    by (simp_all add: retries_def WorkQueue_new_def)
  from retries_run [OF r wq_ok_new _ new] assms(2) cc
  have q1: "wq_ok q1" "cfg q1 = c" "\<forall>k. unat (retries q1 k) = streak k es \<and> streak k es \<le> unat (max_retries (cfg q1))"
    by (simp_all add: streak_def)
  from retries_step [OF q1(1) s _ q1(3)] assms(2) q1(2)
  have "r = limiter c (streak k es)" "unat (retries q k) = count_failure k (EvFail k now r) (streak k es)"
    "count_failure k (EvFail k now r) (streak k es) \<le> unat (max_retries c)"
    by blast+
  then show ?thesis by (simp add: limiter_def streak_def del: of_nat_Suc)
qed

definition tight_limits :: RateLimitConfig where
  "tight_limits = \<lparr>base_delay = 10, max_delay = 1000, max_retries = 1\<rparr>"

theorem retry_budget_exact_witness:
  "snd (add_rate_limited (fst (add_rate_limited (WorkQueue_new tight_limits) ''a'' 0)) ''a'' 7) = Dropped 2"
proof -
  let ?q1 = "fst (add_rate_limited (WorkQueue_new tight_limits) ''a'' 0)"
  let ?r2 = "snd (add_rate_limited ?q1 ''a'' 7)" and ?q2 = "fst (add_rate_limited ?q1 ''a'' 7)"
  have "snd (add_rate_limited (WorkQueue_new tight_limits) ''a'' 0) = Requeued 1 10"
    by (simp add: add_rate_limited_def WorkQueue_new_def tight_limits_def backoff_for_def Let_def)
  then have "wq_run (WorkQueue_new tight_limits) ([EvFail ''a'' 0 (Requeued 1 10)] @ [EvFail ''a'' 7 ?r2]) ?q2"
    by (auto simp: wq_run_simps prod_eq_iff)
  from retry_budget_exact [OF this] show ?thesis by (simp add: tight_limits_def streak_def)
qed

lemma unat_saturating_mul: "unat (saturating_mul x y) = min (unat x * unat y) (2 ^ LENGTH('a) - 1)"
  for x y :: "'a::len word"
proof -
  have "unat (- 1 :: 'a word) = 2 ^ LENGTH('a) - 1"
    by (simp add: unsigned_minus_1_eq_mask mask_eq_exp_minus_1)
  moreover have "unat (x * y) = unat x * unat y" if "unat x * unat y < 2 ^ LENGTH('a)"
    using that by (simp add: unat_word_ariths)
  ultimately show ?thesis
    by (cases "unat x * unat y < 2 ^ LENGTH('a)") (simp_all add: saturating_mul_def)
qed

lemma unat_shl_one: "n < 64 \<Longrightarrow> unat (push_bit n (1 :: u64)) = 2 ^ n"
proof -
  assume "n < 64"
  then have "(2 :: nat) ^ n < 2 ^ 64" by (rule power_strict_increasing) simp
  moreover have "push_bit n (1 :: u64) = of_nat (2 ^ n)" by simp
  ultimately show ?thesis by (simp only: unat_of_nat) simp
qed

lemma unat_min: "unat (min a b) = min (unat a) (unat b)"
  by (simp add: min_def word_le_nat_alt)

text \<open>
  The backoff is the documented one. With a base delay that is not zero, the delay after the
  \<open>n\<close>-th consecutive failure is \<open>base_delay * 2 ^ (n - 1)\<close> capped at \<open>max_delay\<close>, computed without
  wrap-around for every 32-bit count.
\<close>

theorem backoff_exact:
  assumes "base_delay c \<noteq> 0" and "n \<noteq> 0"
  shows "unat (backoff_for c n) = min (unat (base_delay c) * 2 ^ (unat n - 1)) (unat (max_delay c))"
proof (cases "n \<le> 1")
  case True
  then have "unat n \<le> 1" by (simp add: word_le_nat_alt)
  moreover have "0 < unat n" using assms(2) by (simp add: unat_gt_0)
  ultimately have "unat n = 1" by simp
  with True show ?thesis by (simp add: backoff_for_def unat_min)
next
  case False
  have s: "unat (n - 1) = unat n - 1" using assms(2) by (simp add: unat_minus_one)
  have b: "1 \<le> unat (base_delay c)" using assms(1) by (simp add: Suc_le_eq unat_gt_0)
  have m: "unat (max_delay c) < 2 ^ 64" using unsigned_less [of "max_delay c"] by simp
  show ?thesis
  proof (cases "n - 1 \<ge> 64")
    case True
    then have "64 \<le> unat n - 1" using s by (simp add: word_le_nat_alt)
    then have "(2 :: nat) ^ 64 \<le> 2 ^ (unat n - 1)" by (rule power_increasing) simp
    also have "\<dots> \<le> unat (base_delay c) * 2 ^ (unat n - 1)" using b by simp
    finally show ?thesis using True False m by (simp add: backoff_for_def Let_def min_def)
  next
    case small: False
    then have "unat n - 1 < 64" using s by (simp add: word_le_nat_alt)
    then have f: "unat (push_bit (unat (n - 1)) (1 :: u64)) = 2 ^ (unat n - 1)" using s unat_shl_one by simp
    have "backoff_for c n = min (saturating_mul (base_delay c) (push_bit (unat (n - 1)) 1)) (max_delay c)"
      using False small by (auto simp: backoff_for_def Let_def checked_shl_one_def)
    then have "unat (backoff_for c n) =
        min (min (unat (base_delay c) * 2 ^ (unat n - 1)) (2 ^ 64 - 1)) (unat (max_delay c))"
      by (simp only: unat_min unat_saturating_mul f) simp
    with m show ?thesis by simp
  qed
qed

theorem backoff_exact_witness:
  "unat (backoff_for RateLimitConfig_default 4) = min (5 * 2 ^ 3) 1000000"
  using backoff_exact [of RateLimitConfig_default 4] by (simp add: RateLimitConfig_default_def)

text \<open>
  A reconcile that asks to be called again after a delay clears the failure history of its key,
  whatever it was, although its description says that the backoff history is preserved: a key whose
  reconcile alternates between an error and a delayed requeue is retried at the base delay for ever
  and never dropped.
\<close>

theorem requeue_after_forgets:
  "retries (fst (apply_outcome q key (RequeueAfter delay) now)) key = 0 \<and>
   (max_retries (cfg q) \<ge> 1 \<longrightarrow>
    snd (apply_outcome (fst (apply_outcome q key (RequeueAfter delay) now)) key (Err msg) later) =
      LoopRateLimited 1 (backoff_for (cfg q) 1))"
  by (auto simp: apply_outcome_def retries_def add_after_frame done_frame forget_def add_rate_limited_def Let_def)

theorem requeue_after_forgets_witness:
  "snd (apply_outcome (fst (apply_outcome demo_queue ''a'' (RequeueAfter 30) 0)) ''a'' (Err []) 9) =
     LoopRateLimited 1 5"
  using requeue_after_forgets [of demo_queue "''a''" 30 0 "[]" 9]
  by (simp add: demo_queue_def RateLimitConfig_default_def backoff_for_def)

end
