(* ===== verification/Calendar_Date.thy ===== *)
theory Calendar_Date
  imports Cave_Prelude "HOL-Library.Signed_Division"
begin

text \<open>
  Civil dates (\<open>cave-home-calendar/src/date.rs\<close>): leap years, month lengths, the day count since
  1970-01-01 and its inverse, weekdays, month and year steps. The fields are integers; a cast to
  \<open>i32\<close> and the \<open>i64\<close> additions that can leave their range wrap, as they do in a release build. The
  division of the source truncates, which is \<open>sdiv\<close>; \<open>rem_euclid\<close> and \<open>div_euclid\<close> by a positive
  number are \<open>mod\<close> and \<open>div\<close>.
\<close>

section \<open>Definitions\<close>

definition to_i32 :: "int \<Rightarrow> int" where
  "to_i32 z = (z + 2147483648) mod 4294967296 - 2147483648"

definition to_i64 :: "int \<Rightarrow> int" where
  "to_i64 z = (z + 9223372036854775808) mod 18446744073709551616 - 9223372036854775808"

definition MONTH_LENGTHS :: "int list" where
  "MONTH_LENGTHS = [0, 31, 28, 31, 30, 31, 30, 31, 31, 30, 31, 30, 31]"

datatype Weekday = Monday | Tuesday | Wednesday | Thursday | Friday | Saturday | Sunday

fun index_from_monday :: "Weekday \<Rightarrow> int" where
  "index_from_monday Monday = 0"
| "index_from_monday Tuesday = 1"
| "index_from_monday Wednesday = 2"
| "index_from_monday Thursday = 3"
| "index_from_monday Friday = 4"
| "index_from_monday Saturday = 5"
| "index_from_monday Sunday = 6"

definition from_index_from_monday :: "int \<Rightarrow> Weekday" where
  "from_index_from_monday i =
     (let r = i mod 7
      in if r = 0 then Monday else if r = 1 then Tuesday else if r = 2 then Wednesday
         else if r = 3 then Thursday else if r = 4 then Friday else if r = 5 then Saturday else Sunday)"

fun ical_code :: "Weekday \<Rightarrow> string" where
  "ical_code Monday = ''MO''"
| "ical_code Tuesday = ''TU''"
| "ical_code Wednesday = ''WE''"
| "ical_code Thursday = ''TH''"
| "ical_code Friday = ''FR''"
| "ical_code Saturday = ''SA''"
| "ical_code Sunday = ''SU''"

text \<open>\<open>str::to_ascii_uppercase\<close> on the bytes of a string.\<close>

definition ascii_upper :: "char \<Rightarrow> char" where
  "ascii_upper ch =
     (let n = of_char ch :: nat in if 97 \<le> n \<and> n \<le> 122 then char_of (n - 32) else ch)"

definition from_ical_code :: "string \<Rightarrow> Weekday option" where
  "from_ical_code code =
     (let c = map ascii_upper code
      in if c = ''MO'' then Some Monday else if c = ''TU'' then Some Tuesday
         else if c = ''WE'' then Some Wednesday else if c = ''TH'' then Some Thursday
         else if c = ''FR'' then Some Friday else if c = ''SA'' then Some Saturday
         else if c = ''SU'' then Some Sunday else None)"

record Date =
  year :: int
  month :: int
  day :: int

datatype DateError = MonthOutOfRange | DayOutOfRange | TimeOutOfRange

definition is_leap_year :: "int \<Rightarrow> bool" where
  "is_leap_year y \<longleftrightarrow> (y smod 4 = 0 \<and> y smod 100 \<noteq> 0) \<or> y smod 400 = 0"

definition days_in_month :: "int \<Rightarrow> int \<Rightarrow> int" where
  "days_in_month y m =
     (if m = 0 \<or> m > 12 then 0 else if m = 2 \<and> is_leap_year y then 29 else MONTH_LENGTHS ! nat m)"

definition Date_new :: "int \<Rightarrow> int \<Rightarrow> int \<Rightarrow> DateError + Date" where
  "Date_new y m d =
     (if m = 0 \<or> m > 12 then Inl MonthOutOfRange
      else
        (let mx = days_in_month y m
         in if d = 0 \<or> d > mx then Inl DayOutOfRange else Inr \<lparr>year = y, month = m, day = d\<rparr>))"

function ordinal_loop :: "int \<Rightarrow> int \<Rightarrow> int \<Rightarrow> int \<Rightarrow> int" where
  "ordinal_loop y mon m acc =
     (if m < mon then ordinal_loop y mon (m + 1) (acc + days_in_month y m) else acc)"
  by auto
termination by (relation "measure (\<lambda>(y, mon, m, t). nat (mon - m))") auto

definition ordinal :: "Date \<Rightarrow> int" where
  "ordinal d = ordinal_loop (year d) (month d) 1 0 + day d"

definition days_from_epoch :: "Date \<Rightarrow> int" where
  "days_from_epoch dt =
     (let y = (if month dt \<le> 2 then year dt - 1 else year dt);
          era = (if y \<ge> 0 then y else y - 399) sdiv 400;
          yoe = y - era * 400;
          m = month dt;
          d = day dt;
          doy = (153 * (if m > 2 then m - 3 else m + 9) + 2) sdiv 5 + d - 1;
          doe = yoe * 365 + yoe sdiv 4 - yoe sdiv 100 + doy
      in era * 146097 + doe - 719468)"

definition from_days_from_epoch :: "int \<Rightarrow> Date" where
  "from_days_from_epoch z0 =
     (let z = to_i64 (z0 + 719468);
          era = (if z \<ge> 0 then z else z - 146096) sdiv 146097;
          doe = z - era * 146097;
          yoe = (doe - doe sdiv 1460 + doe sdiv 36524 - doe sdiv 146096) sdiv 365;
          y = yoe + era * 400;
          doy = doe - (365 * yoe + yoe sdiv 4 - yoe sdiv 100);
          mp = (5 * doy + 2) sdiv 153;
          d = doy - (153 * mp + 2) sdiv 5 + 1;
          m = (if mp < 10 then mp + 3 else mp - 9)
      in \<lparr>year = to_i32 (if m \<le> 2 then y + 1 else y), month = m, day = d\<rparr>)"

definition weekday :: "Date \<Rightarrow> Weekday" where
  "weekday d = from_index_from_monday ((days_from_epoch d + 3) mod 7)"

definition add_days :: "Date \<Rightarrow> int \<Rightarrow> Date" where
  "add_days d n = from_days_from_epoch (to_i64 (days_from_epoch d + n))"

definition add_months_clamped :: "Date \<Rightarrow> int \<Rightarrow> Date" where
  "add_months_clamped d months =
     (let zero_based = to_i64 (year d * 12 + (month d - 1) + months);
          y = to_i32 (zero_based div 12);
          m = zero_based mod 12 + 1;
          mx = days_in_month y m
      in \<lparr>year = y, month = m, day = (if day d > mx then mx else day d)\<rparr>)"

definition add_years_clamped :: "Date \<Rightarrow> int \<Rightarrow> Date" where
  "add_years_clamped d years =
     (let y = to_i32 (year d + years);
          mx = days_in_month y (month d)
      in \<lparr>year = y, month = month d, day = (if day d > mx then mx else day d)\<rparr>)"

text \<open>\<open>Ord for Date\<close>: lexicographic on year, month and day.\<close>

definition date_less :: "Date \<Rightarrow> Date \<Rightarrow> bool" where
  "date_less a b \<longleftrightarrow> year a < year b \<or> year a = year b \<and> (month a < month b \<or> month a = month b \<and> day a < day b)"

definition date_le :: "Date \<Rightarrow> Date \<Rightarrow> bool" where
  "date_le a b \<longleftrightarrow> \<not> date_less b a"

record DateTime =
  dt_date :: Date
  hour :: int
  minute :: int
  second :: int

definition DateTime_new :: "Date \<Rightarrow> int \<Rightarrow> int \<Rightarrow> int \<Rightarrow> DateError + DateTime" where
  "DateTime_new d h mi s =
     (if h > 23 \<or> mi > 59 \<or> s > 60 then Inl TimeOutOfRange
      else Inr \<lparr>dt_date = d, hour = h, minute = mi, second = s\<rparr>)"

definition at_midnight :: "Date \<Rightarrow> DateTime" where
  "at_midnight d = \<lparr>dt_date = d, hour = 0, minute = 0, second = 0\<rparr>"

definition floating_unix_seconds :: "DateTime \<Rightarrow> int" where
  "floating_unix_seconds t =
     days_from_epoch (dt_date t) * 86400 + hour t * 3600 + minute t * 60 + second t"

definition with_date :: "DateTime \<Rightarrow> Date \<Rightarrow> DateTime" where
  "with_date t d = t\<lparr>dt_date := d\<rparr>"

text \<open>\<open>Ord for DateTime\<close>.\<close>

definition datetime_less :: "DateTime \<Rightarrow> DateTime \<Rightarrow> bool" where
  "datetime_less a b \<longleftrightarrow> floating_unix_seconds a < floating_unix_seconds b"

section \<open>Well-formed dates\<close>

definition i32_range :: "int \<Rightarrow> bool" where
  "i32_range y \<longleftrightarrow> - 2147483648 \<le> y \<and> y \<le> 2147483647"

definition date_ok :: "Date \<Rightarrow> bool" where
  "date_ok d \<longleftrightarrow> i32_range (year d) \<and> 1 \<le> month d \<and> month d \<le> 12 \<and>
     1 \<le> day d \<and> day d \<le> days_in_month (year d) (month d)"

lemma to_i32_id: "i32_range y \<Longrightarrow> to_i32 y = y"
  by (simp add: to_i32_def i32_range_def)

lemma to_i64_id: "- 9223372036854775808 \<le> z \<Longrightarrow> z \<le> 9223372036854775807 \<Longrightarrow> to_i64 z = z"
  by (simp add: to_i64_def)

lemma sdiv_nonneg: "0 \<le> a \<Longrightarrow> 0 < b \<Longrightarrow> a sdiv b = a div b" for a b :: int
  by (simp add: signed_divide_int_def sgn_if)

lemma smod_zero: "0 < b \<Longrightarrow> a smod b = 0 \<longleftrightarrow> a mod b = 0" for a b :: int
  by (simp add: signed_modulo_int_def sgn_if mod_eq_0_iff_dvd)

lemma era_div:
  fixes a b c :: int
  assumes "0 < b" and "c = b - 1"
  shows "(if a \<ge> 0 then a else a - c) sdiv b = a div b"
proof (cases "a \<ge> 0")
  case False
  have "b - 1 - a = b * (- (a div b)) + (b - 1 - a mod b)"
    using mult_div_mod_eq [of b a] by (simp only: mult_minus_right)
  moreover have "0 \<le> b - 1 - a mod b" "b - 1 - a mod b < b"
    using pos_mod_bound [OF assms(1), of a] pos_mod_sign [OF assms(1), of a] by linarith+
  ultimately have "(b - 1 - a) div b = - (a div b)" by (rule int_div_pos_eq)
  with False assms show ?thesis by (simp add: signed_divide_int_def sgn_if)
qed (use assms(1) in \<open>simp add: sdiv_nonneg\<close>)

lemma is_leap_year_iff: "is_leap_year y \<longleftrightarrow> y mod 4 = 0 \<and> y mod 100 \<noteq> 0 \<or> y mod 400 = 0"
  by (simp add: is_leap_year_def smod_zero)

lemma days_in_month_simps:
  "days_in_month y 1 = 31" "days_in_month y 2 = (if is_leap_year y then 29 else 28)" "days_in_month y 3 = 31"
  "days_in_month y 4 = 30" "days_in_month y 5 = 31" "days_in_month y 6 = 30" "days_in_month y 7 = 31"
  "days_in_month y 8 = 31" "days_in_month y 9 = 30" "days_in_month y 10 = 31" "days_in_month y 11 = 30"
  "days_in_month y 12 = 31"
  by (simp_all add: days_in_month_def MONTH_LENGTHS_def)

section \<open>The day count\<close>

text \<open>
  The day count in the calendar whose years begin on the first of March: the days before the year
  \<open>Y\<close> and the days before its month \<open>mp\<close>.
\<close>

definition year_start :: "int \<Rightarrow> int" where
  "year_start Y = 365 * Y + Y div 4 - Y div 100 + Y div 400"

definition month_start :: "int \<Rightarrow> int" where
  "month_start mp = (153 * mp + 2) div 5"

definition march_year :: "Date \<Rightarrow> int" where
  "march_year d = (if month d \<le> 2 then year d - 1 else year d)"

definition march_month :: "Date \<Rightarrow> int" where
  "march_month d = (if month d > 2 then month d - 3 else month d + 9)"

lemma div_Suc_int: "0 < b \<Longrightarrow> (n + 1) div b = n div b + of_bool (b dvd n + 1)" for n b :: int
proof -
  assume "0 < b"
  have n: "n = b * (n div b) + n mod b" by simp
  show ?thesis
  proof (cases "n mod b = b - 1")
    case True
    then have "n + 1 = b * (n div b + 1)" using mult_div_mod_eq [of b n] by (simp add: distrib_left)
    then show ?thesis using \<open>0 < b\<close> by (metis dvd_triv_left nonzero_mult_div_cancel_left of_bool_eq(2) order_less_irrefl)
  next
    case False
    then have r: "0 \<le> n mod b + 1" "n mod b + 1 < b"
      using \<open>0 < b\<close> pos_mod_bound [of b n] pos_mod_sign [of b n] by linarith+
    have eq: "n + 1 = b * (n div b) + (n mod b + 1)" using mult_div_mod_eq [of b n] by simp
    have "(n + 1) div b = n div b" using int_div_pos_eq [OF eq r] .
    moreover have "(n + 1) mod b = n mod b + 1" using int_mod_pos_eq [OF eq r] .
    moreover have "n mod b + 1 \<noteq> 0" using pos_mod_sign [OF \<open>0 < b\<close>, of n] by linarith
    ultimately show ?thesis by (simp add: dvd_eq_mod_eq_0)
  qed
qed

lemma year_start_Suc: "year_start (Y + 1) = year_start Y + (if is_leap_year (Y + 1) then 366 else 365)"
proof -
  have d: "400 dvd Y + 1 \<Longrightarrow> 100 dvd Y + 1" "100 dvd Y + 1 \<Longrightarrow> 4 dvd Y + 1"
    using dvd_trans [of 100 400 "Y + 1"] dvd_trans [of 4 100 "Y + 1"] by simp_all
  then show ?thesis
    by (auto simp: year_start_def div_Suc_int is_leap_year_iff simp flip: dvd_eq_mod_eq_0)
qed

lemma year_start_shift: "year_start (400 * e + k) = 146097 * e + year_start k"
proof -
  have "(400 * e + k) div 4 = 100 * e + k div 4" "(400 * e + k) div 100 = 4 * e + k div 100"
    "(400 * e + k) div 400 = e + k div 400"
    using div_mult_self2 [of 4 k "100 * e"] div_mult_self2 [of 100 k "4 * e"] div_mult_self2 [of 400 k e]
    by (simp_all add: add.commute)
  then show ?thesis by (simp add: year_start_def)
qed

lemma year_start_cycle: "year_start Y = 146097 * (Y div 400) + year_start (Y mod 400)"
  using year_start_shift [of "Y div 400" "Y mod 400"] by simp

lemma year_start_mono: "a \<le> b \<Longrightarrow> year_start a \<le> year_start b"
proof (induction b rule: int_ge_induct)
  case (step i)
  then show ?case using year_start_Suc [of i] by (simp split: if_split_asm)
qed simp

lemma year_start_consts [simp]: "year_start 0 = 0" "year_start 400 = 146097"
  by (simp_all add: year_start_def)

lemma days_alt:
  assumes "1 \<le> month d"
  shows "days_from_epoch d = year_start (march_year d) + month_start (march_month d) + day d - 1 - 719468"
proof -
  define Y where "Y = march_year d"
  define mp where "mp = march_month d"
  have mp: "0 \<le> mp" using assms by (simp add: mp_def march_month_def)
  have era: "(if Y \<ge> 0 then Y else Y - 399) sdiv 400 = Y div 400" by (rule era_div) simp_all
  have yoe: "Y - Y div 400 * 400 = Y mod 400" by (simp add: minus_div_mult_eq_mod)
  have s: "(Y mod 400) sdiv 4 = (Y mod 400) div 4" "(Y mod 400) sdiv 100 = (Y mod 400) div 100"
    "(153 * mp + 2) sdiv 5 = (153 * mp + 2) div 5"
    using mp by (simp_all add: sdiv_nonneg)
  have "days_from_epoch d = Y div 400 * 146097 +
      ((Y mod 400) * 365 + (Y mod 400) div 4 - (Y mod 400) div 100 + ((153 * mp + 2) div 5 + day d - 1)) - 719468"
    unfolding days_from_epoch_def Let_def march_year_def [symmetric] march_month_def [symmetric]
      Y_def [symmetric] mp_def [symmetric] era yoe s ..
  then show ?thesis
    using year_start_cycle [of Y] by (simp add: year_start_def [of "Y mod 400"] month_start_def flip: Y_def mp_def)
qed

section \<open>From day numbers to dates\<close>

definition year_guess :: "int \<Rightarrow> int" where
  "year_guess n = n - n div 1460 + n div 36524 - n div 146096"

lemma year_guess_mono: "a \<le> b \<Longrightarrow> year_guess a \<le> year_guess b"
proof (induction b rule: int_ge_induct)
  case (step i)
  have "146096 dvd i + 1 \<Longrightarrow> 36524 dvd i + 1" using dvd_trans [of 36524 146096 "i + 1"] by simp
  then have "year_guess i \<le> year_guess (i + 1)" by (auto simp: year_guess_def div_Suc_int)
  with step.IH show ?case by linarith
qed simp

text \<open>The estimate is right on the first and the last day of each year of the cycle.\<close>

definition guess_ok :: "int \<Rightarrow> bool" where
  "guess_ok k \<longleftrightarrow> year_guess (year_start k) div 365 = k \<and> year_guess (year_start (k + 1) - 1) div 365 = k"

lemma guesses_ok: "list_all guess_ok (map int [0..<400])"
  by code_simp

lemma year_guess_exact:
  assumes "0 \<le> k" and "k < 400" and "year_start k \<le> n" and "n < year_start (k + 1)"
  shows "year_guess n div 365 = k"
proof -
  have "k \<in> set (map int [0..<400])" using assms(1,2) unfolding set_map by (intro image_eqI [of _ _ "nat k"]) auto
  then have "guess_ok k" using guesses_ok by (auto simp: list_all_iff)
  moreover have "year_guess (year_start k) \<le> year_guess n" "year_guess n \<le> year_guess (year_start (k + 1) - 1)"
    using assms(3,4) by (auto intro!: year_guess_mono)
  then have "year_guess (year_start k) div 365 \<le> year_guess n div 365"
    "year_guess n div 365 \<le> year_guess (year_start (k + 1) - 1) div 365"
    by (auto intro!: zdiv_mono1)
  ultimately show ?thesis by (simp add: guess_ok_def)
qed

lemma from_days_alt:
  assumes "0 \<le> r" and "year_start Y + r < year_start (Y + 1)"
    and "z0 + 719468 = year_start Y + r" and "\<bar>z0\<bar> < 2 ^ 62"
  shows "from_days_from_epoch z0 =
    (let mp = (5 * r + 2) div 153;
         m = (if mp < 10 then mp + 3 else mp - 9)
     in \<lparr>year = to_i32 (if m \<le> 2 then Y + 1 else Y), month = m, day = r - month_start mp + 1\<rparr>)"
proof -
  define k where "k = Y mod 400"
  define era where "era = Y div 400"
  define doe where "doe = year_start k + r"
  have k: "0 \<le> k" "k < 400" "Y = 400 * era + k" by (simp_all add: k_def era_def)
  have ys: "year_start Y = 146097 * era + year_start k" by (simp add: year_start_cycle [of Y] k_def era_def)
  have ys1: "year_start (Y + 1) = 146097 * era + year_start (k + 1)"
    using year_start_shift [of era "k + 1"] k(3) by (simp add: add.assoc)
  have "0 \<le> year_start k" "year_start (k + 1) \<le> 146097"
    using year_start_mono [of 0 k] year_start_mono [of "k + 1" 400] k(1,2) by simp_all
  then have doe: "0 \<le> doe" "doe < 146097" using assms(1,2) ys ys1 by (simp_all add: doe_def)
  have z: "to_i64 (z0 + 719468) = z0 + 719468" using assms(4) by (intro to_i64_id) auto
  have w: "z0 + 719468 = 146097 * era + doe" using assms(3) ys by (simp add: doe_def)
  have e: "(if z0 + 719468 \<ge> 0 then z0 + 719468 else z0 + 719468 - 146096) sdiv 146097 = era"
    using era_div [of 146097 146096 "z0 + 719468"] int_div_pos_eq [OF w doe] by simp
  have "year_guess doe div 365 = k"
    using k ys ys1 assms(1,2) by (intro year_guess_exact) (auto simp: doe_def)
  moreover have "0 \<le> year_guess doe" using year_guess_mono [of 0 doe] doe by (simp add: year_guess_def)
  ultimately have g: "(doe - doe sdiv 1460 + doe sdiv 36524 - doe sdiv 146096) sdiv 365 = k"
    using doe by (simp add: sdiv_nonneg year_guess_def)
  have y: "365 * k + k sdiv 4 - k sdiv 100 = year_start k" using k(1,2) by (simp add: sdiv_nonneg year_start_def)
  have mp: "0 \<le> (5 * r + 2) div 153" using assms(1) by (simp add: pos_imp_zdiv_nonneg_iff)
  have s: "(5 * r + 2) sdiv 153 = (5 * r + 2) div 153"
    "(153 * ((5 * r + 2) div 153) + 2) sdiv 5 = month_start ((5 * r + 2) div 153)"
    using assms(1) mp by (simp_all add: sdiv_nonneg month_start_def)
  have d: "z0 + 719468 - era * 146097 = doe" "k + era * 400 = Y" "doe - year_start k = r"
    using w k(3) by (simp_all add: doe_def)
  show ?thesis
    unfolding from_days_from_epoch_def z Let_def e d g y s ..
qed

section \<open>Day count and date are inverse\<close>

lemma month_cases:
  assumes "1 \<le> m" and "m \<le> (12 :: int)"
  obtains "m = 1" | "m = 2" | "m = 3" | "m = 4" | "m = 5" | "m = 6" | "m = 7" | "m = 8" | "m = 9"
    | "m = 10" | "m = 11" | "m = 12"
proof -
  have "m = 1 \<or> m = 2 \<or> m = 3 \<or> m = 4 \<or> m = 5 \<or> m = 6 \<or> m = 7 \<or> m = 8 \<or> m = 9 \<or> m = 10 \<or> m = 11 \<or> m = 12"
    using assms by presburger
  with that show thesis by blast
qed

lemmas month_defs = march_month_def march_year_def month_start_def

lemma date_in_year:
  assumes "date_ok d"
  defines "r \<equiv> month_start (march_month d) + day d - 1"
  shows "0 \<le> r" "year_start (march_year d) + r < year_start (march_year d + 1)"
    "(5 * r + 2) div 153 = march_month d"
proof -
  from assms(1) have m: "1 \<le> month d" "month d \<le> 12" and d: "1 \<le> day d" "day d \<le> days_in_month (year d) (month d)"
    by (simp_all add: date_ok_def)
  from m have "0 \<le> r \<and> year_start (march_year d) + r < year_start (march_year d + 1) \<and> (5 * r + 2) div 153 = march_month d"
    by (cases rule: month_cases; use d year_start_Suc [of "year d - 1"] in \<open>simp add: r_def month_defs days_in_month_simps year_start_Suc split: if_split_asm\<close>)
  then show "0 \<le> r" "year_start (march_year d) + r < year_start (march_year d + 1)"
    "(5 * r + 2) div 153 = march_month d" by simp_all
qed

text \<open>Every 32-bit year has day numbers far inside the 64-bit range.\<close>

lemma year_start_bounds: "\<bar>Y\<bar> \<le> 2147483649 \<Longrightarrow> \<bar>year_start Y\<bar> \<le> 800000000000"
proof -
  assume "\<bar>Y\<bar> \<le> 2147483649"
  then have "year_start (- 2147483649) \<le> year_start Y" "year_start Y \<le> year_start 2147483649"
    by (auto intro!: year_start_mono)
  then show ?thesis by (simp add: year_start_def [of "- 2147483649"] year_start_def [of 2147483649])
qed

lemma days_bounds:
  assumes "date_ok d"
  shows "\<bar>days_from_epoch d\<bar> \<le> 800001000000"
proof -
  have m: "1 \<le> month d" using assms by (simp add: date_ok_def)
  have "\<bar>march_year d\<bar> \<le> 2147483649" "\<bar>march_year d + 1\<bar> \<le> 2147483649"
    using assms by (auto simp: date_ok_def i32_range_def march_year_def)
  from this [THEN year_start_bounds] date_in_year(1,2) [OF assms] days_alt [OF m] show ?thesis by linarith
qed

lemma from_days_of_date:
  assumes "date_ok d"
  shows "from_days_from_epoch (days_from_epoch d) = d"
proof -
  let ?r = "month_start (march_month d) + day d - 1"
  note r = date_in_year [OF assms]
  from assms have m: "1 \<le> month d" "month d \<le> 12" "i32_range (year d)" by (simp_all add: date_ok_def)
  have "from_days_from_epoch (days_from_epoch d) =
    (let mp = (5 * ?r + 2) div 153;
         m = (if mp < 10 then mp + 3 else mp - 9)
     in \<lparr>year = to_i32 (if m \<le> 2 then march_year d + 1 else march_year d), month = m, day = ?r - month_start mp + 1\<rparr>)"
    using r(1,2) days_alt [OF m(1)] days_bounds [OF assms] by (intro from_days_alt) simp_all
  also have "\<dots> = d"
    unfolding r(3) using m by (simp add: Let_def march_month_def march_year_def to_i32_id split: if_split_asm)
  finally show ?thesis .
qed

lemma year_of_day: "\<exists>Y. year_start Y \<le> w \<and> w < year_start (Y + 1)"
proof -
  have "\<exists>k. 0 \<le> k \<and> year_start k \<le> n \<and> n < year_start (k + 1)" if "0 \<le> n" "n < year_start (int b)" for n b
    using that
  proof (induction b)
    case (Suc b)
    then show ?case by (cases "n < year_start (int b)") (auto simp: add.commute intro!: exI [of _ "int b"])
  qed simp
  from this [of "w mod 146097" 400] obtain k where "0 \<le> k" "year_start k \<le> w mod 146097" "w mod 146097 < year_start (k + 1)"
    by auto
  then have "year_start (400 * (w div 146097) + k) \<le> w" "w < year_start (400 * (w div 146097) + k + 1)"
    using year_start_shift [of "w div 146097" k] year_start_shift [of "w div 146097" "k + 1"] mult_div_mod_eq [of 146097 w]
    unfolding add.assoc by linarith+
  then show ?thesis by blast
qed

lemma day_in_range:
  assumes "0 \<le> r" and "year_start Y + r < year_start (Y + 1)"
  defines "mp \<equiv> (5 * r + 2) div 153"
  defines "m \<equiv> if mp < 10 then mp + 3 else mp - 9"
  defines "y \<equiv> if m \<le> 2 then Y + 1 else Y"
  shows "1 \<le> m \<and> m \<le> 12 \<and> 1 \<le> r - month_start mp + 1 \<and> r - month_start mp + 1 \<le> days_in_month y m"
proof -
  have r: "r < 366" "is_leap_year (Y + 1) \<or> r < 365" using assms(2) year_start_Suc [of Y] by (auto split: if_split_asm)
  have "0 \<le> mp" "mp < 12" using assms(1) r(1) by (simp_all add: mp_def)
  then have "mp = 0 \<or> mp = 1 \<or> mp = 2 \<or> mp = 3 \<or> mp = 4 \<or> mp = 5 \<or> mp = 6 \<or> mp = 7 \<or> mp = 8 \<or> mp = 9 \<or> mp = 10 \<or> mp = 11"
    by presburger
  moreover have "153 * mp \<le> 5 * r + 2" "5 * r + 2 < 153 * mp + 153" by (simp_all add: mp_def)
  ultimately show ?thesis
    using r unfolding y_def m_def by (elim disjE) (simp_all add: month_start_def days_in_month_simps)
qed

lemma day_count_of_from:
  assumes "\<bar>z\<bar> \<le> 780000000000"
  shows "date_ok (from_days_from_epoch z) \<and> days_from_epoch (from_days_from_epoch z) = z"
proof -
  obtain Y where Y: "year_start Y \<le> z + 719468" "z + 719468 < year_start (Y + 1)" using year_of_day by blast
  define r where "r = z + 719468 - year_start Y"
  define mp where "mp = (5 * r + 2) div 153"
  define m where "m = (if mp < 10 then mp + 3 else mp - 9)"
  define y where "y = (if m \<le> 2 then Y + 1 else Y)"
  have r: "0 \<le> r" "year_start Y + r < year_start (Y + 1)" using Y by (simp_all add: r_def)
  have c: "year_start 2147483647 > 780000719468" "year_start (- 2147483648) < - 780000000000"
    by (simp_all add: year_start_def)
  have "Y < 2147483647"
  proof (rule ccontr)
    assume "\<not> Y < 2147483647"
    then have "year_start 2147483647 \<le> year_start Y" by (intro year_start_mono) simp
    with c Y(1) assms show False by linarith
  qed
  moreover have "- 2147483648 < Y + 1"
  proof (rule ccontr)
    assume "\<not> - 2147483648 < Y + 1"
    then have "year_start (Y + 1) \<le> year_start (- 2147483648)" by (intro year_start_mono) simp
    with c Y(2) assms show False by linarith
  qed
  ultimately have "i32_range y" by (simp add: i32_range_def y_def)
  note day = day_in_range [OF r, folded mp_def, folded m_def, folded y_def]
  have f: "from_days_from_epoch z = \<lparr>year = y, month = m, day = r - month_start mp + 1\<rparr>"
    using from_days_alt [OF r, of z] assms \<open>i32_range y\<close>
    by (simp add: r_def [symmetric] Let_def to_i32_id mp_def [symmetric] m_def [symmetric] y_def [symmetric]) (simp add: r_def)
  have ok: "date_ok (from_days_from_epoch z)" using day \<open>i32_range y\<close> by (simp add: date_ok_def f)
  have "0 \<le> mp" "mp < 12" using r(1) r(2) year_start_Suc [of Y] by (simp_all add: mp_def split: if_split_asm)
  then have "march_year (from_days_from_epoch z) = Y" "march_month (from_days_from_epoch z) = mp"
    by (simp_all add: f march_year_def march_month_def m_def y_def)
  with days_alt [of "from_days_from_epoch z"] day have "days_from_epoch (from_days_from_epoch z) = z"
    by (simp add: f r_def)
  with ok show ?thesis by simp
qed

section \<open>The order of dates\<close>

lemma month_room:
  assumes "date_ok d" and "march_month d < mp" and "mp \<le> 11"
  shows "month_start (march_month d) + day d \<le> month_start mp"
proof -
  from assms(1) have m: "1 \<le> month d" "month d \<le> 12" and d: "day d \<le> days_in_month (year d) (month d)"
    by (simp_all add: date_ok_def)
  have "month_start (march_month d + 1) \<le> month_start mp"
    using assms(2) unfolding month_start_def by (intro zdiv_mono1) simp_all
  moreover have "month_start (march_month d) + day d \<le> month_start (march_month d + 1)"
    using m by (cases rule: month_cases) (use d assms(2,3) in \<open>simp_all add: month_defs days_in_month_simps\<close>)
  ultimately show ?thesis by linarith
qed

lemma date_less_march:
  assumes "date_ok a" and "date_ok b"
  shows "date_less a b \<longleftrightarrow> march_year a < march_year b \<or> march_year a = march_year b \<and>
    (march_month a < march_month b \<or> march_month a = march_month b \<and> day a < day b)"
  using assms by (auto simp: date_less_def march_year_def march_month_def date_ok_def)

lemma date_less_days:
  assumes "date_ok a" and "date_ok b" and "date_less a b"
  shows "days_from_epoch a < days_from_epoch b"
proof -
  have m: "1 \<le> month a" "1 \<le> month b" and d: "1 \<le> day b" and mb: "march_month b \<le> 11"
    using assms(1,2) by (auto simp: date_ok_def march_month_def)
  note da = days_alt [OF m(1)] date_in_year(2) [OF assms(1)] and db = days_alt [OF m(2)] date_in_year(1) [OF assms(2)]
  consider "march_year a < march_year b" | "march_year a = march_year b" "march_month a < march_month b"
    | "march_year a = march_year b" "march_month a = march_month b" "day a < day b"
    using assms(3) by (auto simp: date_less_march [OF assms(1,2)])
  then show ?thesis
  proof cases
    case 1
    then have "year_start (march_year a + 1) \<le> year_start (march_year b)" by (intro year_start_mono) simp
    with da db show ?thesis by linarith
  next
    case 2
    with month_room [OF assms(1) 2(2) mb] da db d show ?thesis by simp
  qed (use da db in simp)
qed

lemma date_less_total: "date_less a b \<or> a = b \<or> date_less b a" for a b :: Date
  by (cases a; cases b) (auto simp: date_less_def)

lemma date_less_iff:
  assumes "date_ok a" and "date_ok b"
  shows "date_less a b \<longleftrightarrow> days_from_epoch a < days_from_epoch b"
  using date_less_days [OF assms] date_less_days [OF assms(2,1)] date_less_total [of a b] by auto

lemma date_le_iff:
  assumes "date_ok a" and "date_ok b"
  shows "date_le a b \<longleftrightarrow> days_from_epoch a \<le> days_from_epoch b"
  using date_less_iff [OF assms(2,1)] by (auto simp: date_le_def)

section \<open>Dates as numbered days\<close>

text \<open>What the rest of the calendar relies on: dates are integers in disguise, in the same order.\<close>

locale day_numbering =
  fixes ok :: "'d \<Rightarrow> bool"
    and num :: "'d \<Rightarrow> int"
    and of_num :: "int \<Rightarrow> 'd"
    and less :: "'d \<Rightarrow> 'd \<Rightarrow> bool"
    and limit :: int
  assumes of_num_num: "ok d \<Longrightarrow> of_num (num d) = d"
    and ok_of_num: "\<bar>z\<bar> \<le> limit \<Longrightarrow> ok (of_num z)"
    and num_of_num: "\<bar>z\<bar> \<le> limit \<Longrightarrow> num (of_num z) = z"
    and less_num: "ok a \<Longrightarrow> ok b \<Longrightarrow> less a b \<longleftrightarrow> num a < num b"
begin

lemma num_inject: "ok a \<Longrightarrow> ok b \<Longrightarrow> num a = num b \<longleftrightarrow> a = b"
  by (metis of_num_num)

lemma less_linear: "ok a \<Longrightarrow> ok b \<Longrightarrow> less a b \<or> a = b \<or> less b a"
  using less_num [of a b] less_num [of b a] num_inject [of a b] by linarith

lemma less_trans: "ok a \<Longrightarrow> ok b \<Longrightarrow> ok c \<Longrightarrow> less a b \<Longrightarrow> less b c \<Longrightarrow> less a c"
  by (simp add: less_num)

lemma shift_shift:
  "ok d \<Longrightarrow> \<bar>num d + m\<bar> \<le> limit \<Longrightarrow> of_num (num (of_num (num d + m)) + n) = of_num (num d + (m + n))"
  by (simp add: num_of_num add.assoc)

lemma shift_less:
  "\<bar>num d + m\<bar> \<le> limit \<Longrightarrow> \<bar>num d + n\<bar> \<le> limit \<Longrightarrow>
     less (of_num (num d + m)) (of_num (num d + n)) \<longleftrightarrow> m < n"
  by (simp add: less_num ok_of_num num_of_num)

end

interpretation dn: day_numbering date_ok days_from_epoch from_days_from_epoch date_less 780000000000
proof (unfold_locales, goal_cases)
  case (1 d)
  then show ?case by (rule from_days_of_date)
next
  case (4 a b)
  then show ?case by (rule date_less_iff)
qed (simp_all add: day_count_of_from)

lemma add_days_alt:
  assumes "\<bar>days_from_epoch d + n\<bar> \<le> 780000000000"
  shows "add_days d n = from_days_from_epoch (days_from_epoch d + n)"
    "date_ok (add_days d n)" "days_from_epoch (add_days d n) = days_from_epoch d + n"
  using assms day_count_of_from [OF assms] by (simp_all add: add_days_def to_i64_id)

lemma index_weekday: "index_from_monday (weekday d) = (days_from_epoch d + 3) mod 7"
proof -
  have "index_from_monday (from_index_from_monday i) = i mod 7" for i
  proof -
    have "0 \<le> i mod 7" "i mod 7 < 7" by simp_all
    then have "i mod 7 = 0 \<or> i mod 7 = 1 \<or> i mod 7 = 2 \<or> i mod 7 = 3 \<or> i mod 7 = 4 \<or> i mod 7 = 5 \<or> i mod 7 = 6"
      by presburger
    then show ?thesis by (auto simp: from_index_from_monday_def)
  qed
  then show ?thesis by (simp add: weekday_def)
qed

text \<open>The day after a date, by the rules of the calendar.\<close>

definition next_date :: "Date \<Rightarrow> Date" where
  "next_date d =
     (if day d < days_in_month (year d) (month d) then d\<lparr>day := day d + 1\<rparr>
      else if month d < 12 then d\<lparr>month := month d + 1, day := 1\<rparr>
      else \<lparr>year = year d + 1, month = 1, day = 1\<rparr>)"

lemma days_next_date:
  assumes "date_ok d"
  shows "days_from_epoch (next_date d) = days_from_epoch d + 1"
proof -
  from assms have m: "1 \<le> month d" "month d \<le> 12" and d: "1 \<le> day d" "day d \<le> days_in_month (year d) (month d)"
    by (simp_all add: date_ok_def)
  have "1 \<le> month (next_date d)" using m by (simp add: next_date_def)
  note days = days_alt [OF m(1)] days_alt [OF this]
  show ?thesis
    using m
    by (cases rule: month_cases;
        use d days year_start_Suc [of "year d - 1"] in
          \<open>simp add: next_date_def month_defs days_in_month_simps split: if_split_asm\<close>)
qed

lemma date_ok_next: "date_ok d \<Longrightarrow> year d < 2147483647 \<Longrightarrow> date_ok (next_date d)"
proof -
  assume ok: "date_ok d" and y: "year d < 2147483647"
  then have m: "1 \<le> month d" "month d \<le> 12" by (simp_all add: date_ok_def)
  show ?thesis
    using m by (cases rule: month_cases) (use ok y in \<open>simp_all add: next_date_def date_ok_def i32_range_def days_in_month_simps\<close>)
qed

section \<open>Properties of dates\<close>

text \<open>
  C20. Dates and day numbers correspond one to one and in the same order. For every valid date of the
  32-bit years, the date computed back from its day count is the date itself; every day number up to
  780 thousand million days from the epoch is the day count of the valid date computed for it; and a
  date is before another exactly when its day count is smaller.
\<close>

theorem dates_are_numbered_days:
  shows "(date_ok d \<longrightarrow> from_days_from_epoch (days_from_epoch d) = d) \<and>
    (\<bar>z\<bar> \<le> 780000000000 \<longrightarrow>
      date_ok (from_days_from_epoch z) \<and> days_from_epoch (from_days_from_epoch z) = z) \<and>
    (date_ok a \<longrightarrow> date_ok b \<longrightarrow> (date_less a b \<longleftrightarrow> days_from_epoch a < days_from_epoch b))"
  using dn.of_num_num day_count_of_from dn.less_num by blast

theorem dates_are_numbered_days_witness:
  "from_days_from_epoch (days_from_epoch \<lparr>year = 2024, month = 2, day = 29\<rparr>) = \<lparr>year = 2024, month = 2, day = 29\<rparr> \<and>
   date_ok (from_days_from_epoch (- 1)) \<and>
   (date_less \<lparr>year = 2024, month = 2, day = 29\<rparr> \<lparr>year = 2025, month = 1, day = 1\<rparr> \<longleftrightarrow>
     days_from_epoch \<lparr>year = 2024, month = 2, day = 29\<rparr> < days_from_epoch \<lparr>year = 2025, month = 1, day = 1\<rparr>)"
  using dates_are_numbered_days [of "\<lparr>year = 2024, month = 2, day = 29\<rparr>" "- 1" "\<lparr>year = 2024, month = 2, day = 29\<rparr>" "\<lparr>year = 2025, month = 1, day = 1\<rparr>"]
  by (simp add: date_ok_def i32_range_def days_in_month_simps is_leap_year_iff)

text \<open>
  Stepping a day follows the calendar. Adding one day to a valid date gives the next day of its
  month, after the last day the first of the next month, and after the last day of December the
  first of January, with February as long as the leap year rule says; and the weekday moves on by
  one. So the arithmetic of the day count is the Gregorian calendar, whatever the year.
\<close>

theorem add_day_is_next_date:
  assumes "date_ok d" and "year d < 2147483647" and "\<bar>days_from_epoch d + 1\<bar> \<le> 780000000000"
  shows "add_days d 1 = next_date d \<and>
    index_from_monday (weekday (add_days d 1)) = (index_from_monday (weekday d) + 1) mod 7"
proof -
  have "add_days d 1 = from_days_from_epoch (days_from_epoch (next_date d))"
    using add_days_alt(1) [OF assms(3)] days_next_date [OF assms(1)] by simp
  with from_days_of_date [OF date_ok_next [OF assms(1,2)]] have "add_days d 1 = next_date d" by simp
  moreover have "index_from_monday (weekday (next_date d)) = (index_from_monday (weekday d) + 1) mod 7"
    using mod_add_left_eq [of "days_from_epoch d + 3" 7 1]
    by (simp add: index_weekday days_next_date [OF assms(1)] add.commute)
  ultimately show ?thesis by simp
qed

theorem add_day_is_next_date_witness:
  "add_days \<lparr>year = 2024, month = 2, day = 29\<rparr> 1 = \<lparr>year = 2024, month = 3, day = 1\<rparr>"
proof -
  let ?d = "\<lparr>year = 2024, month = 2, day = 29\<rparr> :: Date"
  have leap: "is_leap_year 2024" by (simp add: is_leap_year_iff)
  have "date_ok ?d" by (simp add: date_ok_def i32_range_def days_in_month_simps leap)
  moreover have "days_from_epoch ?d = 19782" by (simp add: days_alt month_defs year_start_def)
  ultimately have "add_days ?d 1 = next_date ?d" using add_day_is_next_date [of ?d] by simp
  then show ?thesis by (simp add: next_date_def days_in_month_simps leap)
qed

end
