(* ===== verification/Calendar_Recurrence.thy ===== *)
theory Calendar_Recurrence
  imports Calendar_Date "HOL-Library.Product_Lexorder"
begin

text \<open>
  Recurrence rules (\<open>cave-home-calendar/src/rrule.rs\<close>): the candidate dates of a period and the
  expansion of a rule over a window, with its cap on the number of periods. \<open>sort_unstable\<close> on dates
  is the sort by year, month and day, \<open>dedup\<close> drops equal neighbours. The parser of the rule text is
  not part of this theory. Then the dates of an event (\<open>event.rs\<close>) and the agenda (\<open>agenda.rs\<close>).
\<close>

section \<open>Rules\<close>

datatype Freq = Daily | Weekly | Monthly | Yearly

record ByDay =
  bd_ordinal :: "int option"
  bd_weekday :: Weekday

datatype Limit = Forever | Count nat | Until Date

record RRule =
  freq :: Freq
  interval :: int
  limit :: Limit
  by_day :: "ByDay list"
  by_month_day :: "int list"
  by_month :: "int list"
  week_start :: Weekday

definition sort_dates :: "Date list \<Rightarrow> Date list" where
  "sort_dates ds = remdups_adj (sort_key (\<lambda>d. (year d, month d, day d)) ds)"

section \<open>Candidates of a period\<close>

definition period_base :: "RRule \<Rightarrow> Date \<Rightarrow> nat \<Rightarrow> Date" where
  "period_base rule start n =
     (let step = interval rule * int n
      in case freq rule of
           Daily \<Rightarrow> add_days start step
         | Weekly \<Rightarrow> add_days start (step * 7)
         | Monthly \<Rightarrow> add_months_clamped start step
         | Yearly \<Rightarrow> add_years_clamped start (to_i32 step))"

definition weekly_candidates :: "RRule \<Rightarrow> Date \<Rightarrow> Date \<Rightarrow> Date list" where
  "weekly_candidates rule start base =
     (let wkst = index_from_monday (week_start rule);
          base_idx = index_from_monday (weekday base);
          back = (base_idx - wkst) mod 7;
          week_start_date = add_days base (- back);
          target_days = (if by_day rule = [] then [weekday start] else map bd_weekday (by_day rule))
      in filter (\<lambda>d. weekday d \<in> set target_days) (map (\<lambda>offset. add_days week_start_date offset) [0..6]))"

definition weekdays_in_month :: "int \<Rightarrow> int \<Rightarrow> Weekday \<Rightarrow> Date list" where
  "weekdays_in_month y m wd =
     concat (map (\<lambda>d. case Date_new y m d of Inr dt \<Rightarrow> if weekday dt = wd then [dt] else [] | Inl _ \<Rightarrow> [])
       [1..days_in_month y m])"

definition collect_byday_in_month :: "int \<Rightarrow> int \<Rightarrow> ByDay \<Rightarrow> Date list" where
  "collect_byday_in_month y m bd =
     (let matches = weekdays_in_month y m (bd_weekday bd)
      in case bd_ordinal bd of
           None \<Rightarrow> matches
         | Some ord \<Rightarrow>
             (if ord > 0 then (if nat ord - 1 < length matches then [matches ! (nat ord - 1)] else [])
              else
                (let from_end = nat (- ord)
                 in if from_end \<ge> 1 \<and> from_end \<le> length matches
                    then [matches ! (length matches - from_end)] else [])))"

definition resolve_monthday :: "int \<Rightarrow> int \<Rightarrow> int option" where
  "resolve_monthday n dim =
     (if n > 0 then (if n \<le> dim then Some n else None)
      else (let from_end = - n in if from_end \<le> dim then Some (dim - from_end + 1) else None))"

definition month_day_dates :: "RRule \<Rightarrow> int \<Rightarrow> int \<Rightarrow> Date list" where
  "month_day_dates rule y m =
     concat (map (\<lambda>n. case resolve_monthday n (days_in_month y m) of
         None \<Rightarrow> []
       | Some d \<Rightarrow> (case Date_new y m d of Inr dt \<Rightarrow> [dt] | Inl _ \<Rightarrow> [])) (by_month_day rule))"

definition monthly_candidates :: "RRule \<Rightarrow> Date \<Rightarrow> Date list" where
  "monthly_candidates rule base =
     (if by_day rule \<noteq> [] then concat (map (collect_byday_in_month (year base) (month base)) (by_day rule))
      else if by_month_day rule \<noteq> [] then month_day_dates rule (year base) (month base)
      else [base])"

definition yearly_month :: "RRule \<Rightarrow> Date \<Rightarrow> int \<Rightarrow> Date list" where
  "yearly_month rule base m =
     (if by_day rule \<noteq> [] then concat (map (collect_byday_in_month (year base) m) (by_day rule))
      else if by_month_day rule \<noteq> [] then month_day_dates rule (year base) m
      else
        (case Date_new (year base) m (min (day base) (days_in_month (year base) m)) of
           Inr dt \<Rightarrow> [dt] | Inl _ \<Rightarrow> []))"

definition yearly_candidates :: "RRule \<Rightarrow> Date \<Rightarrow> Date list" where
  "yearly_candidates rule base =
     (let months = (if by_month rule = [] then [month base] else by_month rule)
      in concat (map (yearly_month rule base) months))"

definition candidates_for_period :: "RRule \<Rightarrow> Date \<Rightarrow> nat \<Rightarrow> Date list" where
  "candidates_for_period rule start n =
     (let base = period_base rule start n;
          dates = (case freq rule of
              Daily \<Rightarrow> [base]
            | Weekly \<Rightarrow> weekly_candidates rule start base
            | Monthly \<Rightarrow> monthly_candidates rule base
            | Yearly \<Rightarrow> yearly_candidates rule base);
          kept = (if by_month rule \<noteq> [] then filter (\<lambda>d. month d \<in> set (by_month rule)) dates else dates)
      in sort_dates kept)"

section \<open>Expansion\<close>

definition MAX_PERIODS :: nat where
  "MAX_PERIODS = 1000000"

text \<open>The inner loop over the candidates of a period; the last component says whether \<open>COUNT\<close> is reached.\<close>

fun scan_candidates ::
  "RRule \<Rightarrow> Date \<Rightarrow> Date \<Rightarrow> Date \<Rightarrow> Date list \<Rightarrow> nat \<Rightarrow> Date list \<Rightarrow> bool \<Rightarrow> nat \<times> Date list \<times> bool \<times> bool" where
  "scan_candidates rule start ws we [] emitted out past = (emitted, out, past, False)"
| "scan_candidates rule start ws we (d # ds) emitted out past =
     (if date_less d start then scan_candidates rule start ws we ds emitted out past
      else if (case limit rule of Until u \<Rightarrow> date_less u d | _ \<Rightarrow> False)
      then scan_candidates rule start ws we ds emitted out True
      else
        (let emitted1 = emitted + 1;
             out1 = (if date_le ws d \<and> date_le d we then out @ [d] else out)
         in if (case limit rule of Count c \<Rightarrow> emitted1 \<ge> c | _ \<Rightarrow> False)
            then (emitted1, out1, past, True)
            else scan_candidates rule start ws we ds emitted1 out1 past))"

function occurrences_loop ::
  "RRule \<Rightarrow> Date \<Rightarrow> Date \<Rightarrow> Date \<Rightarrow> nat \<Rightarrow> nat \<Rightarrow> Date list \<Rightarrow> Date list" where
  "occurrences_loop rule start ws we period emitted out =
     (if period \<ge> MAX_PERIODS then out
      else
        (let candidates = candidates_for_period rule start period;
             (emitted1, out1, past, finished) =
               scan_candidates rule start ws we candidates emitted out (candidates = [])
         in if finished then out1
            else if (case limit rule of
                Until u \<Rightarrow> date_less u (period_base rule start period) \<and> past
              | _ \<Rightarrow> date_less we (period_base rule start period))
            then out1
            else occurrences_loop rule start ws we (period + 1) emitted1 out1))"
  by pat_completeness auto
termination by (relation "measure (\<lambda>(rule, start, ws, we, period, emitted, out). MAX_PERIODS - period)") auto

declare occurrences_loop.simps [simp del]

definition occurrences :: "RRule \<Rightarrow> Date \<Rightarrow> Date \<Rightarrow> Date \<Rightarrow> Date list" where
  "occurrences rule start ws we =
     (if date_less we ws then [] else sort_dates (occurrences_loop rule start ws we 0 0 []))"

section \<open>Events and the agenda\<close>

record Event =
  uid :: string
  summary :: string
  ev_start :: DateTime
  ev_end :: DateTime
  all_day :: bool
  rrule :: "RRule option"
  exdates :: "Date list"

definition occurrence_dates :: "Event \<Rightarrow> Date \<Rightarrow> Date \<Rightarrow> Date list" where
  "occurrence_dates e from to =
     (let start_date = dt_date (ev_start e);
          dates = (case rrule e of
              Some rule \<Rightarrow> occurrences rule start_date from to
            | None \<Rightarrow> if date_le from start_date \<and> date_le start_date to then [start_date] else [])
      in if exdates e \<noteq> [] then filter (\<lambda>d. d \<notin> set (exdates e)) dates else dates)"

record Occurrence =
  occ_uid :: string
  occ_summary :: string
  occ_start :: DateTime
  occ_all_day :: bool

definition event_occurrences :: "Event \<Rightarrow> Date \<Rightarrow> Date \<Rightarrow> Occurrence list" where
  "event_occurrences e from to =
     map (\<lambda>d. \<lparr>occ_uid = uid e, occ_summary = summary e, occ_start = with_date (ev_start e) d,
               occ_all_day = all_day e\<rparr>) (occurrence_dates e from to)"

text \<open>\<open>sort_by\<close> is stable: by the start, then by the bytes of the identifier.\<close>

definition agenda :: "Event list \<Rightarrow> Date \<Rightarrow> Date \<Rightarrow> Occurrence list" where
  "agenda events from to =
     sort_key (\<lambda>x. (floating_unix_seconds (occ_start x), as_bytes (occ_uid x)))
       (concat (map (\<lambda>e. event_occurrences e from to) events))"

definition next_occurrence :: "Event list \<Rightarrow> DateTime \<Rightarrow> int \<Rightarrow> Occurrence option" where
  "next_occurrence events after horizon_days =
     (let from = dt_date after;
          to = add_days from (max horizon_days 0)
      in find (\<lambda>x. datetime_less after (occ_start x)) (agenda events from to))"

section \<open>Sorting dates\<close>

abbreviation date_key :: "Date \<Rightarrow> int \<times> int \<times> int" where
  "date_key d \<equiv> (year d, month d, day d)"

lemma date_key_less: "date_key a < date_key b \<longleftrightarrow> date_less a b"
  by (auto simp: less_prod_def date_less_def)

lemma date_key_inject: "date_key a = date_key b \<longleftrightarrow> a = b" for a b :: Date
  by (cases a; cases b) auto

lemma strict_of_sorted: "sorted (map date_key ds) \<Longrightarrow> sorted_wrt date_less (remdups_adj ds)"
proof (induction ds rule: remdups_adj.induct)
  case (3 x y xs)
  have "date_less x z" if "x \<noteq> y" "z = y \<or> z \<in> set xs" for z
  proof -
    have le: "date_key x \<le> date_key y" "date_key y \<le> date_key z" using 3(3) that by auto
    have "date_key x \<noteq> date_key y" using that(1) date_key_inject by blast
    with le(1) have "date_key x < date_key y" by (rule order.not_eq_order_implies_strict [rotated])
    from this le(2) have "date_key x < date_key z" by (rule order.strict_trans2)
    then show ?thesis by (simp only: date_key_less)
  qed
  with 3 show ?case by (auto simp: remdups_adj_set)
qed simp_all

lemma sorted_sort_dates: "sorted_wrt date_less (sort_dates ds)"
  by (simp add: sort_dates_def strict_of_sorted)

lemma set_sort_dates [simp]: "set (sort_dates ds) = set ds"
  by (simp add: sort_dates_def)

lemma date_less_irrefl [simp]: "\<not> date_less d d"
  by (simp add: date_less_def)

lemma sort_dates_id:
  assumes "sorted_wrt date_less ds"
  shows "sort_dates ds = ds"
proof -
  have "sorted_wrt (\<lambda>a b. date_key a \<le> date_key b) ds"
    using assms by (rule sorted_wrt_mono_rel [rotated]) (auto simp: date_less_def)
  then have "sorted (map date_key ds)" by (simp add: sorted_wrt_map)
  moreover have "distinct ds" using assms by (induction ds) auto
  ultimately show ?thesis by (simp add: sort_dates_def sorted_sort_id sort_key_id_if_sorted remdups_adj_distinct)
qed

section \<open>The slot of a date\<close>

text \<open>
  The number of the day, week, month or year a date is in, whichever the rule counts: all candidates
  of a period share the slot of its base, and the slots of successive periods ascend.
\<close>

definition slot :: "RRule \<Rightarrow> Date \<Rightarrow> int" where
  "slot rule d =
     (case freq rule of
        Daily \<Rightarrow> days_from_epoch d
      | Weekly \<Rightarrow> (days_from_epoch d + 3 - index_from_monday (week_start rule)) div 7
      | Monthly \<Rightarrow> year d * 12 + month d - 1
      | Yearly \<Rightarrow> year d)"

definition rule_ok :: "RRule \<Rightarrow> bool" where
  "rule_ok rule \<longleftrightarrow> 1 \<le> interval rule \<and> interval rule \<le> 1000 \<and>
     (\<forall>m \<in> set (by_month rule). 1 \<le> m \<and> m \<le> 12) \<and>
     (\<forall>n \<in> set (by_month_day rule). n \<noteq> 0 \<and> - 31 \<le> n \<and> n \<le> 31)"

definition start_ok :: "Date \<Rightarrow> bool" where
  "start_ok d \<longleftrightarrow> date_ok d \<and> \<bar>year d\<bar> \<le> 100000"

lemma start_days: "start_ok d \<Longrightarrow> \<bar>days_from_epoch d\<bar> \<le> 40000000"
proof -
  assume ok: "start_ok d"
  then have "date_ok d" and m: "1 \<le> month d" by (simp_all add: start_ok_def date_ok_def)
  have "- 100001 \<le> march_year d" "march_year d + 1 \<le> 100001" using ok by (auto simp: start_ok_def march_year_def)
  then have "year_start (- 100001) \<le> year_start (march_year d)" "year_start (march_year d + 1) \<le> year_start 100001"
    by (auto intro: year_start_mono)
  moreover have "year_start (- 100001) \<ge> - 36600000" "year_start 100001 \<le> 36600000" by (simp_all add: year_start_def)
  ultimately show ?thesis
    using date_in_year(1,2) [OF \<open>date_ok d\<close>] days_alt [OF m] by linarith
qed

lemma slot_less:
  assumes "date_ok a" and "date_ok b" and "slot rule a < slot rule b"
  shows "date_less a b"
proof (cases "freq rule")
  case Daily
  with assms show ?thesis by (simp add: slot_def date_less_iff)
next
  case Weekly
  have "days_from_epoch a < days_from_epoch b"
  proof (rule ccontr)
    assume "\<not> days_from_epoch a < days_from_epoch b"
    then have "slot rule b \<le> slot rule a" using Weekly by (simp add: slot_def zdiv_mono1)
    with assms(3) show False by simp
  qed
  with assms show ?thesis by (simp add: date_less_iff)
next
  case Monthly
  with assms show ?thesis by (auto simp: slot_def date_less_def date_ok_def)
next
  case Yearly
  with assms show ?thesis by (simp add: slot_def date_less_def)
qed

lemma month_length: "1 \<le> m \<Longrightarrow> m \<le> 12 \<Longrightarrow> 28 \<le> days_in_month y m \<and> days_in_month y m \<le> 31"
  by (rule month_cases [of m]) (auto simp: days_in_month_simps)

lemma Date_new_ok:
  assumes "Date_new y m d = Inr dt" and "i32_range y" and "1 \<le> m" and "1 \<le> d"
  shows "date_ok dt" "year dt = y" "month dt = m"
  using assms by (auto simp: Date_new_def Let_def date_ok_def split: if_split_asm)

lemma add_months_ok:
  assumes "start_ok d" and "0 \<le> n" and "n \<le> 1000000000"
  shows "date_ok (add_months_clamped d n)"
    "year (add_months_clamped d n) * 12 + month (add_months_clamped d n) - 1 = year d * 12 + month d - 1 + n"
proof -
  define z where "z = year d * 12 + (month d - 1) + n"
  have d: "1 \<le> month d" "month d \<le> 12" "\<bar>year d\<bar> \<le> 100000" "1 \<le> day d"
    using assms(1) by (simp_all add: start_ok_def date_ok_def)
  then have zb: "- 2000000 \<le> z" "z \<le> 1002000000" using assms(2,3) by (auto simp: z_def)
  have z: "to_i64 z = z" using zb by (intro to_i64_id) auto
  have y: "i32_range (z div 12)" using zdiv_mono1 [OF zb(1), of 12] zdiv_mono1 [OF zb(2), of 12] by (simp add: i32_range_def)
  have m: "1 \<le> z mod 12 + 1" "z mod 12 + 1 \<le> 12" using pos_mod_bound [of 12 z] by simp_all
  have eq: "add_months_clamped d n = \<lparr>year = z div 12, month = z mod 12 + 1,
      day = min (day d) (days_in_month (z div 12) (z mod 12 + 1))\<rparr>"
    by (simp add: add_months_clamped_def z Let_def to_i32_id [OF y] min_def flip: z_def)
  show "date_ok (add_months_clamped d n)"
    using y m d month_length [OF m, of "z div 12"] by (simp add: eq date_ok_def min_def)
  have "year (add_months_clamped d n) * 12 + month (add_months_clamped d n) - 1 = z"
    using mult_div_mod_eq [of 12 z] by (simp add: eq)
  then show "year (add_months_clamped d n) * 12 + month (add_months_clamped d n) - 1 = year d * 12 + month d - 1 + n"
    by (simp add: z_def)
qed

lemma add_years_ok:
  assumes "start_ok d" and "0 \<le> n" and "n \<le> 1000000000"
  shows "date_ok (add_years_clamped d (to_i32 n))" "year (add_years_clamped d (to_i32 n)) = year d + n"
    "month (add_years_clamped d (to_i32 n)) = month d"
proof -
  have d: "1 \<le> month d" "month d \<le> 12" "\<bar>year d\<bar> \<le> 100000" "1 \<le> day d"
    using assms(1) by (simp_all add: start_ok_def date_ok_def)
  have "to_i32 n = n" using assms by (intro to_i32_id) (simp add: i32_range_def)
  moreover have y: "i32_range (year d + n)" using d assms by (auto simp: i32_range_def)
  ultimately have eq: "add_years_clamped d (to_i32 n) = \<lparr>year = year d + n, month = month d,
      day = min (day d) (days_in_month (year d + n) (month d))\<rparr>"
    by (simp add: add_years_clamped_def Let_def to_i32_id min_def)
  show "date_ok (add_years_clamped d (to_i32 n))"
    using y d month_length [OF d(1,2), of "year d + n"] by (simp add: eq date_ok_def min_def)
  show "year (add_years_clamped d (to_i32 n)) = year d + n" "month (add_years_clamped d (to_i32 n)) = month d"
    by (simp_all add: eq)
qed

section \<open>Bases and candidates\<close>

lemma step_bounds:
  assumes "rule_ok rule" and "n < MAX_PERIODS"
  shows "0 \<le> interval rule * int n" "interval rule * int n \<le> 1000000000"
proof -
  have i: "0 \<le> interval rule" "interval rule \<le> 1000" and n: "int n \<le> 1000000"
    using assms by (simp_all add: rule_ok_def MAX_PERIODS_def)
  show "0 \<le> interval rule * int n" using i by simp
  have "interval rule * int n \<le> 1000 * 1000000" using i n by (intro mult_mono) simp_all
  then show "interval rule * int n \<le> 1000000000" by simp
qed

lemma period_base_ok:
  assumes "rule_ok rule" and "start_ok start" and "n < MAX_PERIODS"
  shows "date_ok (period_base rule start n)"
    "slot rule (period_base rule start n) = slot rule start + interval rule * int n"
    "freq rule = Daily \<or> freq rule = Weekly \<Longrightarrow> \<bar>days_from_epoch (period_base rule start n)\<bar> \<le> 8000000000"
proof -
  note s = step_bounds [OF assms(1,3)]
  note d = start_days [OF assms(2)]
  have day: "\<bar>days_from_epoch start + interval rule * int n\<bar> \<le> 780000000000"
    "\<bar>days_from_epoch start + interval rule * int n * 7\<bar> \<le> 780000000000"
    using s d by linarith+
  note days = add_days_alt [OF day(1)] add_days_alt [OF day(2)]
  have week: "(days_from_epoch start + k * 7 + 3 - w) div 7 = (days_from_epoch start + 3 - w) div 7 + k" for k w
    using div_mult_self1 [of 7 "days_from_epoch start + 3 - w" k] by (simp add: algebra_simps)
  show "date_ok (period_base rule start n)"
    using days add_months_ok(1) [OF assms(2) s] add_years_ok(1) [OF assms(2) s]
    by (simp add: period_base_def Let_def split: Freq.split)
  show "slot rule (period_base rule start n) = slot rule start + interval rule * int n"
    using days add_months_ok(2) [OF assms(2) s] add_years_ok(2) [OF assms(2) s] week
    by (simp add: period_base_def Let_def slot_def split: Freq.split)
  show "freq rule = Daily \<or> freq rule = Weekly \<Longrightarrow> \<bar>days_from_epoch (period_base rule start n)\<bar> \<le> 8000000000"
    using days s d by (auto simp: period_base_def Let_def)
qed

lemma weekly_candidates_slot:
  assumes "freq rule = Weekly" and "date_ok base" and "\<bar>days_from_epoch base\<bar> \<le> 8000000000"
    and "d \<in> set (weekly_candidates rule start base)"
  shows "date_ok d \<and> slot rule d = slot rule base"
proof -
  let ?w = "index_from_monday (week_start rule)"
  define x where "x = days_from_epoch base + 3 - ?w"
  have "(index_from_monday (weekday base) - ?w) mod 7 = x mod 7"
    by (simp add: index_weekday x_def mod_diff_left_eq)
  with assms(4) obtain k where k: "0 \<le> k" "k \<le> 6" "d = add_days (add_days base (- (x mod 7))) k"
    by (auto simp: weekly_candidates_def Let_def)
  have m: "0 \<le> x mod 7" "x mod 7 < 7" by simp_all
  have "\<bar>days_from_epoch base + - (x mod 7)\<bar> \<le> 780000000000" using assms(3) m by linarith
  note a = add_days_alt [OF this]
  have "\<bar>days_from_epoch (add_days base (- (x mod 7))) + k\<bar> \<le> 780000000000"
    using a(3) assms(3) m k by linarith
  note b = add_days_alt [OF this]
  have "days_from_epoch d = days_from_epoch base + - (x mod 7) + k" using b(3) a(3) k(3) by simp
  then have "days_from_epoch d + 3 - ?w = 7 * (x div 7) + k" using mult_div_mod_eq [of 7 x] x_def by linarith
  then have "(days_from_epoch d + 3 - ?w) div 7 = x div 7" using k(1,2) by (intro int_div_pos_eq) auto
  then show ?thesis using b(2) k(3) assms(1) by (simp add: slot_def x_def)
qed

text \<open>Dates of a given month, as the month and year frequencies collect them.\<close>

definition in_month :: "int \<Rightarrow> int \<Rightarrow> Date \<Rightarrow> bool" where
  "in_month y m d \<longleftrightarrow> date_ok d \<and> year d = y \<and> month d = m"

lemma weekdays_in_month_ok:
  assumes "i32_range y" and "1 \<le> m" and "d \<in> set (weekdays_in_month y m wd)"
  shows "in_month y m d"
  using assms Date_new_ok [of y m] by (auto simp: weekdays_in_month_def in_month_def split: sum.splits if_split_asm)

lemma collect_byday_ok:
  assumes "i32_range y" and "1 \<le> m" and "d \<in> set (collect_byday_in_month y m bd)"
  shows "in_month y m d"
proof -
  have "set (collect_byday_in_month y m bd) \<subseteq> set (weekdays_in_month y m (bd_weekday bd))"
    by (auto simp: collect_byday_in_month_def Let_def split: option.splits if_split_asm)
  with assms weekdays_in_month_ok show ?thesis by blast
qed

lemma month_day_dates_ok:
  assumes "rule_ok rule" and "i32_range y" and "1 \<le> m" and "m \<le> 12" and "d \<in> set (month_day_dates rule y m)"
  shows "in_month y m d"
proof -
  from assms(5) obtain n k where n: "n \<in> set (by_month_day rule)" "resolve_monthday n (days_in_month y m) = Some k"
    "Date_new y m k = Inr d"
    by (force simp: month_day_dates_def split: option.splits sum.splits)
  then have "n \<noteq> 0" using assms(1) by (auto simp: rule_ok_def)
  with n(2) have "1 \<le> k" by (auto simp: resolve_monthday_def Let_def split: if_split_asm)
  with Date_new_ok [OF n(3) assms(2,3)] show ?thesis by (simp add: in_month_def)
qed

lemma monthly_candidates_ok:
  assumes "rule_ok rule" and "date_ok base" and "d \<in> set (monthly_candidates rule base)"
  shows "in_month (year base) (month base) d"
proof -
  have b: "i32_range (year base)" "1 \<le> month base" "month base \<le> 12" using assms(2) by (simp_all add: date_ok_def)
  consider bd where "d \<in> set (collect_byday_in_month (year base) (month base) bd)"
    | "d \<in> set (month_day_dates rule (year base) (month base))" | "d = base"
    using assms(3) by (auto simp: monthly_candidates_def split: if_split_asm)
  then show ?thesis
  proof cases
    case 1
    then show ?thesis by (rule collect_byday_ok [OF b(1,2)])
  next
    case 2
    then show ?thesis by (rule month_day_dates_ok [OF assms(1) b])
  next
    case 3
    with assms(2) show ?thesis by (simp add: in_month_def)
  qed
qed

lemma yearly_candidates_ok:
  assumes "rule_ok rule" and "date_ok base" and "d \<in> set (yearly_candidates rule base)"
  shows "date_ok d \<and> year d = year base"
proof -
  have b: "i32_range (year base)" "1 \<le> month base" "month base \<le> 12" "1 \<le> day base"
    using assms(2) by (simp_all add: date_ok_def)
  from assms(3) obtain m where m: "m \<in> set (if by_month rule = [] then [month base] else by_month rule)"
    "d \<in> set (yearly_month rule base m)"
    by (auto simp: yearly_candidates_def Let_def)
  then have r: "1 \<le> m" "m \<le> 12" using assms(1) b by (auto simp: rule_ok_def split: if_split_asm)
  have k: "1 \<le> min (day base) (days_in_month (year base) m)" using b(4) month_length [OF r, of "year base"] by simp
  consider bd where "d \<in> set (collect_byday_in_month (year base) m bd)"
    | "d \<in> set (month_day_dates rule (year base) m)"
    | "Date_new (year base) m (min (day base) (days_in_month (year base) m)) = Inr d"
    using m(2) by (auto simp: yearly_month_def split: if_split_asm sum.splits)
  then have "in_month (year base) m d"
  proof cases
    case 1
    then show ?thesis by (rule collect_byday_ok [OF b(1) r(1)])
  next
    case 2
    then show ?thesis by (rule month_day_dates_ok [OF assms(1) b(1) r])
  next
    case 3
    from Date_new_ok [OF this b(1) r(1) k] show ?thesis by (simp add: in_month_def)
  qed
  then show ?thesis by (simp add: in_month_def)
qed

lemma candidates_slot:
  assumes "rule_ok rule" and "start_ok start" and "n < MAX_PERIODS"
    and "d \<in> set (candidates_for_period rule start n)"
  shows "date_ok d" "slot rule d = slot rule start + interval rule * int n"
proof -
  let ?b = "period_base rule start n"
  note b = period_base_ok [OF assms(1-3)]
  have "date_ok d \<and> slot rule d = slot rule ?b"
  proof (cases "freq rule")
    case Daily
    with assms(4) b show ?thesis by (auto simp: candidates_for_period_def Let_def split: if_split_asm)
  next
    case Weekly
    with assms(4) have "d \<in> set (weekly_candidates rule start ?b)"
      by (auto simp: candidates_for_period_def Let_def split: if_split_asm)
    with weekly_candidates_slot [OF Weekly b(1) b(3)] Weekly show ?thesis by simp
  next
    case Monthly
    with assms(4) have "d \<in> set (monthly_candidates rule ?b)"
      by (auto simp: candidates_for_period_def Let_def split: if_split_asm)
    from monthly_candidates_ok [OF assms(1) b(1) this] Monthly show ?thesis by (simp add: in_month_def slot_def)
  next
    case Yearly
    with assms(4) have "d \<in> set (yearly_candidates rule ?b)"
      by (auto simp: candidates_for_period_def Let_def split: if_split_asm)
    from yearly_candidates_ok [OF assms(1) b(1) this] Yearly show ?thesis by (simp add: slot_def)
  qed
  with b(2) show "date_ok d" "slot rule d = slot rule start + interval rule * int n" by simp_all
qed

text \<open>Candidates of a later period come after the base and after the candidates of an earlier one.\<close>

lemma later_period:
  assumes "rule_ok rule" and "start_ok start" and "n < n'" and "n' < MAX_PERIODS"
    and "d' \<in> set (candidates_for_period rule start n')"
  shows "date_less (period_base rule start n) d'"
    and "d \<in> set (candidates_for_period rule start n) \<Longrightarrow> date_less d d'"
proof -
  have "interval rule * int n < interval rule * int n'" using assms(1,3) by (simp add: rule_ok_def)
  moreover have n: "n < MAX_PERIODS" using assms(3,4) by simp
  moreover note c = candidates_slot [OF assms(1,2,4,5)]
  ultimately show "date_less (period_base rule start n) d'"
    using period_base_ok [OF assms(1,2) n] by (intro slot_less [where rule = rule]) auto
  show "date_less d d'" if "d \<in> set (candidates_for_period rule start n)"
    using candidates_slot [OF assms(1,2) n that] c \<open>interval rule * int n < interval rule * int n'\<close>
    by (intro slot_less [where rule = rule]) auto
qed

end
