(* ===== verification/Calendar_Agenda.thy ===== *)
theory Calendar_Agenda
  imports Calendar_Recurrence
begin

text \<open>
  What the expansion of recurrence rules computes: the loop with its early exits against the whole
  series of the rule, the meaning of weekly rules, and the agenda built from the expansions.
\<close>

section \<open>The series of a rule\<close>

definition member :: "RRule \<Rightarrow> Date \<Rightarrow> Date \<Rightarrow> bool" where
  "member rule start d \<longleftrightarrow> date_le start d \<and> (case limit rule of Until u \<Rightarrow> date_le d u | _ \<Rightarrow> True)"

definition period_members :: "RRule \<Rightarrow> Date \<Rightarrow> nat \<Rightarrow> Date list" where
  "period_members rule start n = filter (member rule start) (candidates_for_period rule start n)"

definition series :: "RRule \<Rightarrow> Date \<Rightarrow> nat \<Rightarrow> Date list" where
  "series rule start n = concat (map (period_members rule start) [n..<MAX_PERIODS])"

definition in_window :: "Date \<Rightarrow> Date \<Rightarrow> Date \<Rightarrow> bool" where
  "in_window ws we d \<longleftrightarrow> date_le ws d \<and> date_le d we"

text \<open>A \<open>COUNT\<close> of zero is treated as one: the loop emits before it compares.\<close>

fun cut_at :: "Limit \<Rightarrow> nat \<Rightarrow> Date list \<Rightarrow> Date list" where
  "cut_at (Count c) emitted ds = take (max 1 c - emitted) ds"
| "cut_at _ emitted ds = ds"

definition room :: "Limit \<Rightarrow> nat \<Rightarrow> bool" where
  "room l emitted \<longleftrightarrow> (\<forall>c. l = Count c \<longrightarrow> emitted < max 1 c)"

lemma date_less_trans: "date_less a b \<Longrightarrow> date_less b c \<Longrightarrow> date_less a c"
  by (auto simp: date_less_def)

lemma series_step: "n < MAX_PERIODS \<Longrightarrow> series rule start n = period_members rule start n @ series rule start (n + 1)"
  by (simp add: series_def upt_conv_Cons)

lemma set_series: "d \<in> set (series rule start n) \<longleftrightarrow>
    (\<exists>n' \<ge> n. n' < MAX_PERIODS \<and> d \<in> set (candidates_for_period rule start n') \<and> member rule start d)"
  by (auto simp: series_def period_members_def)

lemma sorted_series:
  assumes "rule_ok rule" and "start_ok start"
  shows "sorted_wrt date_less (series rule start n)"
proof (induction "MAX_PERIODS - n" arbitrary: n)
  case 0
  then show ?case by (simp add: series_def)
next
  case (Suc k)
  then have n: "n < MAX_PERIODS" by simp
  have "sorted_wrt date_less (period_members rule start n)"
    by (simp add: period_members_def candidates_for_period_def Let_def sorted_sort_dates sorted_wrt_filter)
  moreover have "sorted_wrt date_less (series rule start (n + 1))" using Suc by (intro Suc.hyps) simp
  moreover have "date_less d d'" if "d \<in> set (period_members rule start n)" "d' \<in> set (series rule start (n + 1))" for d d'
  proof -
    from that obtain n' where "n < n'" "n' < MAX_PERIODS" "d' \<in> set (candidates_for_period rule start n')"
      by (auto simp: set_series Suc_le_eq)
    from later_period(2) [OF assms this] that(1) show ?thesis by (simp add: period_members_def)
  qed
  ultimately show ?case by (simp add: series_step [OF n] sorted_wrt_append)
qed

section \<open>The expansion loop\<close>

lemma cut_at_append: "cut_at l emitted (xs @ ys) = cut_at l emitted xs @ cut_at l (emitted + length xs) ys"
  by (cases l) auto

lemma scan_exact:
  assumes "scan_candidates rule start ws we ds emitted out past = (emitted', out', past', finished)"
    and "room (limit rule) emitted"
  shows "out' = out @ filter (in_window ws we) (cut_at (limit rule) emitted (filter (member rule start) ds)) \<and>
    (if finished then \<exists>c. limit rule = Count c \<and> max 1 c \<le> emitted + length (filter (member rule start) ds)
     else emitted' = emitted + length (filter (member rule start) ds) \<and> room (limit rule) emitted')"
  using assms
proof (induction rule start ws we ds emitted out past rule: scan_candidates.induct)
  case (1 rule start ws we emitted out past)
  then show ?case by (cases "limit rule") auto
next
  case (2 rule start ws we d ds emitted out past)
  show ?case
  proof (cases "member rule start d")
    case False
    then have "date_less d start \<or> (case limit rule of Until u \<Rightarrow> date_less u d | _ \<Rightarrow> False)"
      by (auto simp: member_def date_le_def split: Limit.splits)
    with False 2 show ?thesis by (auto split: if_split_asm)
  next
    case True
    then have no: "\<not> date_less d start" "\<not> (case limit rule of Until u \<Rightarrow> date_less u d | _ \<Rightarrow> False)"
      by (auto simp: member_def date_le_def split: Limit.splits)
    let ?out = "if date_le ws d \<and> date_le d we then out @ [d] else out"
    let ?full = "case limit rule of Count c \<Rightarrow> emitted + 1 \<ge> c | _ \<Rightarrow> False"
    have out: "?out = out @ filter (in_window ws we) [d]" by (simp add: in_window_def)
    have cut: "cut_at (limit rule) emitted (d # xs) = d # cut_at (limit rule) (emitted + 1) xs" for xs
      using 2(5) by (cases "limit rule") (auto simp: room_def take_Cons' Suc_diff_le)
    show ?thesis
    proof (cases ?full)
      case True
      then obtain c where c: "limit rule = Count c" "c \<le> emitted + 1" by (cases "limit rule") auto
      with 2(5) have mx: "max 1 c = emitted + 1" by (auto simp: room_def)
      with cut c(1) have "cut_at (limit rule) emitted (d # xs) = [d]" for xs by simp
      moreover have "out' = ?out" "finished" using c no(1) 2(4) by (auto simp: Let_def split: if_split_asm)
      ultimately show ?thesis using \<open>member rule start d\<close> c(1) mx out by simp
    next
      case False
      then have "room (limit rule) (emitted + 1)" using 2(5) by (auto simp: room_def)
      moreover have "scan_candidates rule start ws we ds (emitted + 1) ?out past = (emitted', out', past', finished)"
        using 2(4) no False by (simp only: scan_candidates.simps Let_def if_False)
      ultimately have "out' = ?out @ filter (in_window ws we) (cut_at (limit rule) (emitted + 1) (filter (member rule start) ds)) \<and>
        (if finished then \<exists>c. limit rule = Count c \<and> max 1 c \<le> emitted + 1 + length (filter (member rule start) ds)
         else emitted' = emitted + 1 + length (filter (member rule start) ds) \<and> room (limit rule) emitted')"
        using 2(3) [OF no refl refl False] by blast
      then show ?thesis using True cut unfolding out by (auto split: if_split_asm)
    qed
  qed
qed

lemma loop_exact:
  assumes "rule_ok rule" and "start_ok start" and "room (limit rule) emitted"
  shows "occurrences_loop rule start ws we n emitted out =
    out @ filter (in_window ws we) (cut_at (limit rule) emitted (series rule start n))"
  using assms(3)
proof (induction "MAX_PERIODS - n" arbitrary: n emitted out)
  case 0
  then show ?case by (cases "limit rule") (simp_all add: occurrences_loop.simps series_def)
next
  case (Suc k)
  then have n: "n < MAX_PERIODS" by simp
  let ?cs = "candidates_for_period rule start n" and ?base = "period_base rule start n"
  let ?stop = "\<lambda>past. case limit rule of Until u \<Rightarrow> date_less u ?base \<and> past | _ \<Rightarrow> date_less we ?base"
  obtain em out1 past fin where sc:
    "scan_candidates rule start ws we ?cs emitted out (?cs = []) = (em, out1, past, fin)" by (metis prod_cases4)
  note ex = scan_exact [OF sc Suc.prems, folded period_members_def]
  have loop: "occurrences_loop rule start ws we n emitted out =
      (if fin then out1 else if ?stop past then out1 else occurrences_loop rule start ws we (n + 1) em out1)"
    using n by (subst occurrences_loop.simps) (simp add: sc)
  have cut: "cut_at (limit rule) emitted (series rule start n) = cut_at (limit rule) emitted (period_members rule start n) @
      cut_at (limit rule) (emitted + length (period_members rule start n)) (series rule start (n + 1))"
    by (simp add: series_step [OF n] cut_at_append)
  have late: "date_less ?base d" "member rule start d" if "d \<in> set (series rule start (n + 1))" for d
    using that later_period(1) [OF assms(1,2)] by (auto simp: set_series Suc_le_eq)
  show ?case
  proof (cases fin)
    case True
    with ex loop cut show ?thesis by auto
  next
    case False
    note nf = False
    show ?thesis
    proof (cases "?stop past")
      case True
      have "\<not> in_window ws we d" if "d \<in> set (series rule start (n + 1))" for d
        using late [OF that] True
        by (auto simp: in_window_def member_def date_le_def dest: date_less_trans split: Limit.splits)
      moreover have "set (cut_at (limit rule) e xs) \<subseteq> set xs" for e xs
        by (cases "limit rule") (auto dest: in_set_takeD)
      ultimately have "filter (in_window ws we) (cut_at (limit rule) e (series rule start (n + 1))) = []" for e
        by (auto simp: filter_empty_conv)
      with ex loop cut nf True show ?thesis by auto
    next
      case False
      with nf ex have "occurrences_loop rule start ws we (n + 1) em out1 =
          out1 @ filter (in_window ws we) (cut_at (limit rule) em (series rule start (n + 1)))"
        using Suc.hyps(2) by (intro Suc.hyps(1)) auto
      with ex loop cut nf False show ?thesis by auto
    qed
  qed
qed

lemma occurrences_series:
  assumes "rule_ok rule" and "start_ok start"
  shows "occurrences rule start ws we = filter (in_window ws we) (cut_at (limit rule) 0 (series rule start 0))"
proof -
  let ?r = "filter (in_window ws we) (cut_at (limit rule) 0 (series rule start 0))"
  have "sorted_wrt date_less (cut_at (limit rule) 0 (series rule start 0))"
    using sorted_series [OF assms] by (cases "limit rule") (simp_all add: sorted_wrt_take)
  then have sorted: "sorted_wrt date_less ?r" by (rule sorted_wrt_filter)
  show ?thesis
  proof (cases "date_less we ws")
    case True
    then have "\<not> in_window ws we d" for d
      by (auto simp: in_window_def date_le_def) (metis date_less_total date_less_trans)
    with True show ?thesis by (simp add: occurrences_def)
  next
    case False
    have "room (limit rule) 0" by (auto simp: room_def)
    from loop_exact [OF assms this] False sort_dates_id [OF sorted] show ?thesis by (simp add: occurrences_def)
  qed
qed

section \<open>The meaning of weekly rules\<close>

definition target_days :: "RRule \<Rightarrow> Date \<Rightarrow> Weekday set" where
  "target_days rule start = (if by_day rule = [] then {weekday start} else bd_weekday ` set (by_day rule))"

lemma weekly_candidates_exact:
  assumes "freq rule = Weekly" and "date_ok base" and "\<bar>days_from_epoch base\<bar> \<le> 8000000000"
  shows "d \<in> set (weekly_candidates rule start base) \<longleftrightarrow>
    date_ok d \<and> slot rule d = slot rule base \<and> weekday d \<in> target_days rule start"
proof
  assume d: "d \<in> set (weekly_candidates rule start base)"
  then have "weekday d \<in> target_days rule start"
    by (auto simp: weekly_candidates_def target_days_def Let_def split: if_split_asm)
  with weekly_candidates_slot [OF assms d]
  show "date_ok d \<and> slot rule d = slot rule base \<and> weekday d \<in> target_days rule start" by simp
next
  assume d: "date_ok d \<and> slot rule d = slot rule base \<and> weekday d \<in> target_days rule start"
  let ?w = "index_from_monday (week_start rule)"
  define x where "x = days_from_epoch base + 3 - ?w"
  define y where "y = days_from_epoch d + 3 - ?w"
  have "y div 7 = x div 7" using d assms(1) by (simp add: slot_def x_def y_def)
  then have y: "y = 7 * (x div 7) + y mod 7" using mult_div_mod_eq [of 7 y] by simp
  have m: "0 \<le> x mod 7" "x mod 7 < 7" "0 \<le> y mod 7" "y mod 7 < 7" by simp_all
  have "\<bar>days_from_epoch base + - (x mod 7)\<bar> \<le> 780000000000" using assms(3) m by linarith
  note a = add_days_alt [OF this]
  have "\<bar>days_from_epoch (add_days base (- (x mod 7))) + y mod 7\<bar> \<le> 780000000000"
    using a(3) assms(3) m by linarith
  note b = add_days_alt [OF this]
  have "days_from_epoch (add_days (add_days base (- (x mod 7))) (y mod 7)) = days_from_epoch d"
    using a(3) b(3) y mult_div_mod_eq [of 7 x] x_def y_def by linarith
  with b(2) d have eq: "d = add_days (add_days base (- (x mod 7))) (y mod 7)" using dn.num_inject by metis
  have bk: "(index_from_monday (weekday base) - ?w) mod 7 = x mod 7"
    by (simp add: index_weekday x_def mod_diff_left_eq)
  have "y mod 7 \<in> set [0..6]" using m by simp
  with eq d show "d \<in> set (weekly_candidates rule start base)"
    unfolding weekly_candidates_def Let_def bk target_days_def by (auto simp: image_iff split: if_split_asm)
qed

section \<open>Properties of the calendar\<close>

text \<open>
  C21. The expansion of a rule is exact. For a rule with an interval of at most a thousand and a start
  within a hundred thousand years, the dates returned for a window are exactly the dates of the
  rule's series (the candidates of its first million periods that are not before the start and not
  after \<open>UNTIL\<close>, cut after \<open>COUNT\<close> dates counted from the start, where a count of zero counts as
  one) that lie in the window, in ascending order and without duplicates: the early exits of the
  loop lose nothing and the window does not disturb the count.
\<close>

theorem expansion_exact:
  assumes "rule_ok rule" and "start_ok start"
  shows "occurrences rule start ws we =
      filter (\<lambda>d. date_le ws d \<and> date_le d we)
        (case limit rule of
           Count c \<Rightarrow> take (max 1 c) (concat (map (\<lambda>n. filter (date_le start) (candidates_for_period rule start n)) [0..<MAX_PERIODS]))
         | Until u \<Rightarrow> concat (map (\<lambda>n. filter (\<lambda>d. date_le start d \<and> date_le d u) (candidates_for_period rule start n)) [0..<MAX_PERIODS])
         | Forever \<Rightarrow> concat (map (\<lambda>n. filter (date_le start) (candidates_for_period rule start n)) [0..<MAX_PERIODS])) \<and>
    sorted_wrt date_less (occurrences rule start ws we)"
proof -
  have "sorted_wrt date_less (occurrences rule start ws we)"
    by (simp add: occurrences_def sorted_sort_dates)
  moreover have "(in_window ws we) = (\<lambda>d. date_le ws d \<and> date_le d we)"
    by (simp add: fun_eq_iff in_window_def)
  ultimately show ?thesis
    using occurrences_series [OF assms]
    by (cases "limit rule") (simp_all add: series_def period_members_def [abs_def] member_def [abs_def])
qed

definition bin_day :: RRule where
  "bin_day = \<lparr>freq = Weekly, interval = 2, limit = Forever, by_day = [\<lparr>bd_ordinal = None, bd_weekday = Friday\<rparr>],
     by_month_day = [], by_month = [], week_start = Monday\<rparr>"

definition new_year :: Date where
  "new_year = \<lparr>year = 2026, month = 1, day = 1\<rparr>"

lemma demo_calendar_ok: "rule_ok bin_day" "start_ok new_year"
  by (simp_all add: rule_ok_def bin_day_def start_ok_def new_year_def date_ok_def i32_range_def days_in_month_simps)

theorem expansion_exact_witness:
  "sorted_wrt date_less (occurrences bin_day new_year new_year \<lparr>year = 2026, month = 12, day = 31\<rparr>)"
  using expansion_exact [OF demo_calendar_ok] by blast

text \<open>
  A weekly rule means what it says. A date is among the occurrences of a weekly rule without
  \<open>COUNT\<close> in a window exactly when it is a valid date in the window, not before the start and not
  after \<open>UNTIL\<close>, on one of the rule's weekdays (the start's weekday when none is named), in one of
  the rule's months if it names any, and its week, counted from the rule's first day of the week, is
  a multiple of the interval after the week of the start, within the cap on the periods.
\<close>

theorem weekly_rule_meaning:
  assumes "rule_ok rule" and "start_ok start" and "freq rule = Weekly" and "\<forall>c. limit rule \<noteq> Count c"
  shows "d \<in> set (occurrences rule start ws we) \<longleftrightarrow>
    date_ok d \<and> date_le ws d \<and> date_le d we \<and> date_le start d \<and> (\<forall>u. limit rule = Until u \<longrightarrow> date_le d u) \<and>
    weekday d \<in> (if by_day rule = [] then {weekday start} else bd_weekday ` set (by_day rule)) \<and>
    (by_month rule \<noteq> [] \<longrightarrow> month d \<in> set (by_month rule)) \<and>
    (\<exists>n < MAX_PERIODS. (days_from_epoch d + 3 - index_from_monday (week_start rule)) div 7 =
       (days_from_epoch start + 3 - index_from_monday (week_start rule)) div 7 + interval rule * int n)"
proof -
  have cand: "d \<in> set (candidates_for_period rule start n) \<longleftrightarrow>
      date_ok d \<and> slot rule d = slot rule start + interval rule * int n \<and> weekday d \<in> target_days rule start \<and>
      (by_month rule \<noteq> [] \<longrightarrow> month d \<in> set (by_month rule))" if "n < MAX_PERIODS" for n
    using period_base_ok [OF assms(1,2) that] assms(3)
      weekly_candidates_exact [OF assms(3), of "period_base rule start n" d start]
    by (auto simp: candidates_for_period_def Let_def)
  have "d \<in> set (occurrences rule start ws we) \<longleftrightarrow> in_window ws we d \<and> d \<in> set (series rule start 0)"
    using occurrences_series [OF assms(1,2)] assms(4) by (cases "limit rule") auto
  also have "\<dots> \<longleftrightarrow> in_window ws we d \<and> member rule start d \<and>
      (\<exists>n < MAX_PERIODS. d \<in> set (candidates_for_period rule start n))"
    by (auto simp: set_series)
  also have "\<dots> \<longleftrightarrow> in_window ws we d \<and> member rule start d \<and> date_ok d \<and> weekday d \<in> target_days rule start \<and>
      (by_month rule \<noteq> [] \<longrightarrow> month d \<in> set (by_month rule)) \<and>
      (\<exists>n < MAX_PERIODS. slot rule d = slot rule start + interval rule * int n)"
    using cand by blast
  finally show ?thesis
    using assms(3,4) by (cases "limit rule") (auto simp: in_window_def member_def target_days_def slot_def)
qed

theorem weekly_rule_meaning_witness:
  "\<lparr>year = 2026, month = 1, day = 16\<rparr> \<in> set (occurrences bin_day new_year new_year \<lparr>year = 2026, month = 12, day = 31\<rparr>)"
proof -
  let ?d = "\<lparr>year = 2026, month = 1, day = 16\<rparr> :: Date"
  have n: "days_from_epoch ?d = 20469" "days_from_epoch new_year = 20454"
    by (simp_all add: days_alt month_defs year_start_def new_year_def)
  have wd: "weekday ?d = Friday" by (simp add: weekday_def n from_index_from_monday_def)
  have ok: "date_ok ?d" by (simp add: date_ok_def i32_range_def days_in_month_simps)
  have "\<exists>k < MAX_PERIODS. (2924 :: int) = 2922 + 2 * int k" by (intro exI [of _ 1]) (simp add: MAX_PERIODS_def)
  with weekly_rule_meaning [OF demo_calendar_ok, of ?d new_year "\<lparr>year = 2026, month = 12, day = 31\<rparr>"] wd ok show ?thesis
    by (simp add: bin_day_def n date_le_def date_less_def new_year_def [symmetric]) (simp add: new_year_def)
qed

text \<open>
  The next occurrence is the earliest. What \<open>next_occurrence\<close> returns is an occurrence of one of
  the events on a date from today to the horizon that starts strictly after the given moment, and no
  such occurrence starts before it; it returns nothing only when there is none.
\<close>

theorem next_occurrence_earliest:
  "(case next_occurrence events after horizon of
      Some x \<Rightarrow> x \<in> (\<Union>e \<in> set events. set (event_occurrences e (dt_date after) (add_days (dt_date after) (max horizon 0)))) \<and>
        datetime_less after (occ_start x) \<and>
        (\<forall>e \<in> set events. \<forall>y \<in> set (event_occurrences e (dt_date after) (add_days (dt_date after) (max horizon 0))).
           datetime_less after (occ_start y) \<longrightarrow> \<not> datetime_less (occ_start y) (occ_start x))
    | None \<Rightarrow>
        (\<forall>e \<in> set events. \<forall>y \<in> set (event_occurrences e (dt_date after) (add_days (dt_date after) (max horizon 0))).
           \<not> datetime_less after (occ_start y)))"
proof -
  let ?to = "add_days (dt_date after) (max horizon 0)"
  let ?k = "\<lambda>x. (floating_unix_seconds (occ_start x), as_bytes (occ_uid x))"
  let ?ag = "agenda events (dt_date after) ?to" and ?P = "\<lambda>x. datetime_less after (occ_start x)"
  have set: "set ?ag = (\<Union>e \<in> set events. set (event_occurrences e (dt_date after) ?to))"
    by (simp add: agenda_def)
  have sorted: "sorted (map ?k ?ag)" by (simp add: agenda_def)
  have first: "floating_unix_seconds (occ_start x) \<le> floating_unix_seconds (occ_start y)"
    if "find ?P xs = Some x" "y \<in> set xs" "?P y" "sorted (map ?k xs)" for x y xs
    using that
  proof (induction xs)
    case (Cons z zs)
    then show ?case by (auto simp: less_eq_prod_def split: if_split_asm)
  qed simp
  show ?thesis
  proof (cases "find ?P ?ag")
    case None
    then have "next_occurrence events after horizon = None" by (simp add: next_occurrence_def Let_def)
    moreover have "\<not> ?P y" if "y \<in> set ?ag" for y using None that by (simp add: find_eq_None)
    ultimately show ?thesis using set by auto
  next
    case (Some x)
    then have "next_occurrence events after horizon = Some x" by (simp add: next_occurrence_def Let_def)
    moreover have "\<not> datetime_less (occ_start y) (occ_start x)" if "y \<in> set ?ag" "?P y" for y
      using first [OF Some that sorted] by (simp add: datetime_less_def)
    ultimately show ?thesis using find_SomeD [OF Some] set by auto
  qed
qed

definition demo_event :: Event where
  "demo_event = \<lparr>uid = ''bins'', summary = ''Bins out'', ev_start = at_midnight new_year, ev_end = at_midnight new_year,
     all_day = True, rrule = None, exdates = []\<rparr>"

theorem next_occurrence_earliest_witness:
  "next_occurrence [demo_event] (at_midnight \<lparr>year = 2025, month = 12, day = 25\<rparr>) 10 \<noteq> None"
proof
  let ?m = "at_midnight \<lparr>year = 2025, month = 12, day = 25\<rparr>"
  assume none: "next_occurrence [demo_event] ?m 10 = None"
  have n: "days_from_epoch \<lparr>year = 2025, month = 12, day = 25\<rparr> = 20447" "days_from_epoch new_year = 20454"
    by (simp_all add: days_alt month_defs year_start_def new_year_def)
  have to: "date_ok (add_days \<lparr>year = 2025, month = 12, day = 25\<rparr> 10)"
    "days_from_epoch (add_days \<lparr>year = 2025, month = 12, day = 25\<rparr> 10) = 20457"
    using add_days_alt [of "\<lparr>year = 2025, month = 12, day = 25\<rparr>" 10] by (simp_all add: n)
  have ok: "date_ok new_year" "date_ok \<lparr>year = 2025, month = 12, day = 25\<rparr>"
    by (simp_all add: new_year_def date_ok_def i32_range_def days_in_month_simps)
  have "event_occurrences demo_event \<lparr>year = 2025, month = 12, day = 25\<rparr> (add_days \<lparr>year = 2025, month = 12, day = 25\<rparr> 10) \<noteq> []"
    using to ok by (simp add: event_occurrences_def occurrence_dates_def demo_event_def at_midnight_def date_le_iff n)
  then obtain y where y: "y \<in> set (event_occurrences demo_event \<lparr>year = 2025, month = 12, day = 25\<rparr>
      (add_days \<lparr>year = 2025, month = 12, day = 25\<rparr> 10))"
    using hd_in_set by blast
  then have "occ_start y = at_midnight new_year"
    by (auto simp: event_occurrences_def occurrence_dates_def demo_event_def at_midnight_def with_date_def split: if_split_asm)
  then have "datetime_less ?m (occ_start y)" by (simp add: datetime_less_def floating_unix_seconds_def at_midnight_def n)
  with next_occurrence_earliest [of "[demo_event]" ?m 10] none y show False
    by (simp add: at_midnight_def)
qed

end
