(* ===== verification/Flannel_Cidr.thy ===== *)
theory Flannel_Cidr
  imports Cave_Prelude
begin

unbundle bit_operations_syntax

text \<open>
  Address blocks of the pod network (\<open>cave-home-cni-flannel/src/cidr.rs\<close>): IPv4 and IPv6 addresses
  as words of 32 and 128 bits, prefixes with their netmasks, containment, overlap, the iterator over
  the subnets of a block and the addresses of a block by index. A shift by the full width of a
  \<open>u128\<close> shifts by zero, as in a release build.

  The lemmas read every operation as arithmetic on natural numbers: a well-formed block is the
  interval of \<open>2 ^ host_bits\<close> addresses that starts at its network address.
\<close>

section \<open>Addresses\<close>

type_synonym u128 = "128 word"

datatype IpAddr = V4 u32 | V6 u128

instantiation IpAddr :: linorder
begin

fun less_eq_IpAddr :: "IpAddr \<Rightarrow> IpAddr \<Rightarrow> bool" where
  "less_eq_IpAddr (V4 a) (V4 b) = (a \<le> b)"
| "less_eq_IpAddr (V4 a) (V6 b) = True"
| "less_eq_IpAddr (V6 a) (V4 b) = False"
| "less_eq_IpAddr (V6 a) (V6 b) = (a \<le> b)"

definition less_IpAddr :: "IpAddr \<Rightarrow> IpAddr \<Rightarrow> bool" where
  "less_IpAddr a b = (a \<le> b \<and> \<not> b \<le> a)"

instance
proof
  fix x y z :: IpAddr
  show "x < y \<longleftrightarrow> x \<le> y \<and> \<not> y \<le> x" by (rule less_IpAddr_def)
  show "x \<le> x" by (cases x) auto
  show "x \<le> y \<Longrightarrow> y \<le> z \<Longrightarrow> x \<le> z" by (cases x; cases y; cases z) auto
  show "x \<le> y \<Longrightarrow> y \<le> x \<Longrightarrow> x = y" by (cases x; cases y) auto
  show "x \<le> y \<or> y \<le> x" by (cases x; cases y) auto
qed

end

datatype CidrError =
    MissingPrefix
  | BadAddress string
  | BadPrefixLength string
  | PrefixTooLong u8 u8
  | FamilyMismatch

datatype Cidr = Cidr (cidr_addr: IpAddr) (cidr_prefix: u8)

instantiation Cidr :: linorder
begin

definition less_eq_Cidr :: "Cidr \<Rightarrow> Cidr \<Rightarrow> bool" where
  "less_eq_Cidr a b = (cidr_addr a < cidr_addr b
    \<or> cidr_addr a = cidr_addr b \<and> cidr_prefix a \<le> cidr_prefix b)"

definition less_Cidr :: "Cidr \<Rightarrow> Cidr \<Rightarrow> bool" where
  "less_Cidr a b = (a \<le> b \<and> \<not> b \<le> a)"

instance
  by standard (auto simp: less_eq_Cidr_def less_Cidr_def intro: Cidr.expand)

end

section \<open>Masks and blocks\<close>

definition v4_mask :: "u8 \<Rightarrow> u32" where
  "v4_mask p = (if p = 0 then 0 else if p \<ge> 32 then -1 else push_bit (unat (32 - p)) (-1))"

definition v6_mask :: "u8 \<Rightarrow> u128" where
  "v6_mask p = (if p = 0 then 0 else if p \<ge> 128 then -1 else push_bit (unat (128 - p)) (-1))"

definition mask_addr :: "IpAddr \<Rightarrow> u8 \<Rightarrow> IpAddr" where
  "mask_addr a p = (case a of V4 x \<Rightarrow> V4 (x AND v4_mask p) | V6 x \<Rightarrow> V6 (x AND v6_mask p))"

definition V4_DEFAULT :: Cidr where
  "V4_DEFAULT = Cidr (V4 0) 0"

definition max_prefix :: "IpAddr \<Rightarrow> u8" where
  "max_prefix a = (case a of V4 _ \<Rightarrow> 32 | V6 _ \<Rightarrow> 128)"

definition Cidr_new :: "IpAddr \<Rightarrow> u8 \<Rightarrow> CidrError + Cidr" where
  "Cidr_new a p =
    (let mx = max_prefix a in
     if p > mx then Inl (PrefixTooLong p mx) else Inr (Cidr (mask_addr a p) p))"

definition network :: "Cidr \<Rightarrow> IpAddr" where
  "network c = cidr_addr c"

definition prefix_len :: "Cidr \<Rightarrow> u8" where
  "prefix_len c = cidr_prefix c"

definition is_ipv4 :: "Cidr \<Rightarrow> bool" where
  "is_ipv4 c = (case cidr_addr c of V4 _ \<Rightarrow> True | V6 _ \<Rightarrow> False)"

definition is_ipv6 :: "Cidr \<Rightarrow> bool" where
  "is_ipv6 c = (case cidr_addr c of V4 _ \<Rightarrow> False | V6 _ \<Rightarrow> True)"

definition netmask :: "Cidr \<Rightarrow> IpAddr" where
  "netmask c = (case cidr_addr c of
     V4 _ \<Rightarrow> V4 (v4_mask (cidr_prefix c)) | V6 _ \<Rightarrow> V6 (v6_mask (cidr_prefix c)))"

text \<open>The shift \<open>x << n\<close> of a \<open>u128\<close>.\<close>

definition shl_u128 :: "u128 \<Rightarrow> nat \<Rightarrow> u128" where
  "shl_u128 x n = push_bit (n mod 128) x"

definition address_count :: "Cidr \<Rightarrow> u128" where
  "address_count c =
    (let host_bits = unat (max_prefix (cidr_addr c) - cidr_prefix c) in
     if host_bits \<ge> 128 then -1 else shl_u128 1 host_bits)"

definition contains :: "Cidr \<Rightarrow> IpAddr \<Rightarrow> bool" where
  "contains c ip = (case (cidr_addr c, ip) of
     (V4 net, V4 test) \<Rightarrow> test AND v4_mask (cidr_prefix c) = net
   | (V6 net, V6 test) \<Rightarrow> test AND v6_mask (cidr_prefix c) = net
   | _ \<Rightarrow> False)"

definition cidr_overlaps :: "Cidr \<Rightarrow> Cidr \<Rightarrow> bool" where
  "cidr_overlaps a b = (contains a (network b) \<or> contains b (network a))"

section \<open>Subnets of a block\<close>

record SubnetIter =
  iter_base :: IpAddr
  new_prefix :: u8
  step_bits :: u32
  index :: u128
  iter_count :: u128

definition subnets :: "Cidr \<Rightarrow> u8 \<Rightarrow> CidrError + SubnetIter" where
  "subnets c np =
    (let mx = max_prefix (cidr_addr c) in
     if np > mx then Inl (PrefixTooLong np mx)
     else if np < cidr_prefix c then Inl (PrefixTooLong (cidr_prefix c) np)
     else Inr \<lparr>iter_base = cidr_addr c, new_prefix = np, step_bits = ucast (mx - np), index = 0,
       iter_count = shl_u128 1 (unat (np - cidr_prefix c))\<rparr>)"

text \<open>The address \<open>off\<close> above a base; the \<open>u128\<close> offset is cut to the width of the family.\<close>

definition wrapping_offset :: "IpAddr \<Rightarrow> u128 \<Rightarrow> IpAddr" where
  "wrapping_offset a off = (case a of V4 b \<Rightarrow> V4 (b + ucast off) | V6 b \<Rightarrow> V6 (b + off))"

definition SubnetIter_next :: "SubnetIter \<Rightarrow> SubnetIter \<times> Cidr option" where
  "SubnetIter_next it =
    (if index it \<ge> iter_count it then (it, None)
     else let offset = shl_u128 (index it) (unat (step_bits it));
              net = wrapping_offset (iter_base it) offset
          in (it\<lparr>index := index it + 1\<rparr>, Some (Cidr net (new_prefix it))))"

text \<open>\<open>Iterator::find\<close> and \<open>collect\<close> on the subnets.\<close>

function iter_find :: "(Cidr \<Rightarrow> bool) \<Rightarrow> SubnetIter \<Rightarrow> Cidr option" where
  "iter_find P it = (case SubnetIter_next it of
     (_, None) \<Rightarrow> None
   | (it', Some s) \<Rightarrow> if P s then Some s else iter_find P it')"
  by pat_completeness auto

function iter_collect :: "SubnetIter \<Rightarrow> Cidr list" where
  "iter_collect it = (case SubnetIter_next it of
     (_, None) \<Rightarrow> []
   | (it', Some s) \<Rightarrow> s # iter_collect it')"
  by pat_completeness auto

definition nth_address :: "Cidr \<Rightarrow> u128 \<Rightarrow> CidrError + IpAddr" where
  "nth_address c i =
    (if i \<ge> address_count c then Inl (PrefixTooLong (cidr_prefix c) (max_prefix (cidr_addr c)))
     else Inr (wrapping_offset (cidr_addr c) i))"

section \<open>The iterator ends\<close>

definition remaining :: "SubnetIter \<Rightarrow> nat" where
  "remaining it = unat (iter_count it) - unat (index it)"

lemma unat_Suc_less:
  fixes x y :: "'a::len word"
  assumes "x < y"
  shows "unat (x + 1) = Suc (unat x)"
proof -
  have "unat x + 1 < 2 ^ LENGTH('a)"
    using assms unsigned_less[of y, where 'a = nat] by (simp add: word_less_nat_alt less_trans_Suc)
  then show ?thesis
    by (simp add: unat_word_ariths(1))
qed

lemma next_decreases:
  assumes "SubnetIter_next it = (it', Some s)"
  shows "remaining it' < remaining it"
proof -
  have lt: "index it < iter_count it" and it': "it' = it\<lparr>index := index it + 1\<rparr>"
    using assms by (auto simp: SubnetIter_next_def Let_def split: if_splits)
  show ?thesis
    using unat_mono[OF lt] by (simp add: remaining_def it' unat_Suc_less[OF lt])
qed

termination iter_find
  by (relation "measure (\<lambda>(P, it). remaining it)") (auto dest!: next_decreases[OF sym])

termination iter_collect
  by (relation "measure remaining") (auto dest!: next_decreases[OF sym])

declare iter_find.simps [simp del] iter_collect.simps [simp del]

lemma iter_find_collect: "iter_find P it = find P (iter_collect it)"
  by (induction P it rule: iter_find.induct)
     (subst iter_find.simps, subst iter_collect.simps, auto split: prod.split option.split)

section \<open>Blocks as intervals of numbers\<close>

fun ip_val :: "IpAddr \<Rightarrow> nat" where
  "ip_val (V4 a) = unat a"
| "ip_val (V6 a) = unat a"

fun ip_width :: "IpAddr \<Rightarrow> nat" where
  "ip_width (V4 a) = 32"
| "ip_width (V6 a) = 128"

definition host_bits :: "Cidr \<Rightarrow> nat" where
  "host_bits c = ip_width (cidr_addr c) - unat (cidr_prefix c)"

definition cidr_ok :: "Cidr \<Rightarrow> bool" where
  "cidr_ok c \<longleftrightarrow> unat (cidr_prefix c) \<le> ip_width (cidr_addr c) \<and> 2 ^ host_bits c dvd ip_val (cidr_addr c)"

lemma ip_val_less: "ip_val a < 2 ^ ip_width a"
  using unsigned_less[where 'a = nat and 'b = 32] unsigned_less[where 'a = nat and 'b = 128]
  by (cases a) auto

lemma ip_eqI: "ip_width a = ip_width b \<Longrightarrow> ip_val a = ip_val b \<Longrightarrow> a = b"
  by (cases a; cases b) (auto simp: unsigned_word_eqI)

lemma unat_max_prefix: "unat (max_prefix a) = ip_width a"
  by (cases a) (auto simp: max_prefix_def)

lemma ip_width_le: "ip_width a \<le> 128"
  by (cases a) auto

lemma unat_push_bit:
  fixes x :: "'a::len word"
  assumes "unat x * 2 ^ n < 2 ^ LENGTH('a)"
  shows "unat (push_bit n x) = unat x * 2 ^ n"
proof -
  have "unat (push_bit n x) = take_bit LENGTH('a) (push_bit n (unat x))"
    by (simp only: unsigned_push_bit_eq)
  then show ?thesis
    using assms by (simp only: push_bit_eq_mult take_bit_nat_eq_self)
qed

lemma unat_and_high_mask:
  fixes x :: "'a::len word"
  shows "unat (x AND NOT (mask n)) = unat x div 2 ^ n * 2 ^ n"
proof -
  have "unat (x AND NOT (mask n)) = unat (push_bit n (drop_bit n x))"
    by (rule arg_cong[where f = unat], rule bit_word_eqI) (auto simp: bit_simps)
  moreover have "unat x div 2 ^ n * 2 ^ n < 2 ^ LENGTH('a)"
    using unsigned_less[of x, where 'a = nat] div_times_less_eq_dividend[of "unat x" "2 ^ n"]
    by (meson le_less_trans)
  moreover have "unat (drop_bit n x) = unat x div 2 ^ n"
    by (subst unsigned_drop_bit_eq) (simp only: take_bit_nat_eq_self[OF unsigned_less] drop_bit_eq_div)
  ultimately show ?thesis
    by (simp only: unat_push_bit)
qed

lemma unat_sub_u8: "unat p \<le> unat q \<Longrightarrow> unat (q - p :: u8) = unat q - unat p"
  by (simp add: unat_sub_if')

lemma v4_mask_push: "unat p \<le> 32 \<Longrightarrow> v4_mask p = push_bit (32 - unat p) (- 1)"
proof -
  assume le: "unat p \<le> 32"
  have "push_bit 32 (- 1 :: u32) = 0"
    by (rule bit_word_eqI) (auto simp: bit_simps)
  moreover have "unat (32 - p) = 32 - unat p"
    using le by (simp add: unat_sub_if')
  ultimately show ?thesis
    using le by (auto simp: v4_mask_def word_le_nat_alt unat_eq_0)
qed

lemma v6_mask_push: "unat p \<le> 128 \<Longrightarrow> v6_mask p = push_bit (128 - unat p) (- 1)"
proof -
  assume le: "unat p \<le> 128"
  have "push_bit 128 (- 1 :: u128) = 0"
    by (rule bit_word_eqI) (auto simp: bit_simps)
  moreover have "unat (128 - p) = 128 - unat p"
    using le by (simp add: unat_sub_if')
  ultimately show ?thesis
    using le by (auto simp: v6_mask_def word_le_nat_alt unat_eq_0)
qed

lemma ip_val_mask_addr:
  assumes "unat p \<le> ip_width a"
  shows "ip_val (mask_addr a p) = ip_val a div 2 ^ (ip_width a - unat p) * 2 ^ (ip_width a - unat p)"
  using assms by (cases a) (auto simp: mask_addr_def v4_mask_push v6_mask_push unat_and_high_mask)

lemma ip_width_mask_addr [simp]: "ip_width (mask_addr a p) = ip_width a"
  by (cases a) (auto simp: mask_addr_def)

lemma max_prefix_mask_addr [simp]: "max_prefix (mask_addr a p) = max_prefix a"
  by (cases a) (auto simp: mask_addr_def max_prefix_def)

lemma Cidr_new_ok: "Cidr_new a p = Inr c \<Longrightarrow> cidr_ok c \<and> cidr_prefix c = p \<and> ip_width (cidr_addr c) = ip_width a"
  by (auto simp: Cidr_new_def Let_def word_less_nat_alt unat_max_prefix cidr_ok_def host_bits_def
      ip_val_mask_addr split: if_splits)

lemma contains_mask: "contains c ip \<longleftrightarrow> ip_width ip = ip_width (cidr_addr c) \<and> mask_addr ip (cidr_prefix c) = cidr_addr c"
  by (cases "cidr_addr c"; cases ip) (auto simp: contains_def mask_addr_def)

lemma div_mult_eq_iff:
  fixes v n k :: nat
  assumes "0 < k" "k dvd n"
  shows "v div k * k = n \<longleftrightarrow> n \<le> v \<and> v < n + k"
proof -
  obtain m where n: "n = m * k"
    using assms(2) by (metis dvd_def mult.commute)
  have "v div k * k = n \<longleftrightarrow> v div k = m"
    using assms(1) n by auto
  also have "\<dots> \<longleftrightarrow> m * k \<le> v \<and> v < Suc m * k"
    using assms(1) by (metis div_nat_eqI dividend_less_div_times div_times_less_eq_dividend mult.commute mult_Suc)
  finally show ?thesis
    by (simp add: n algebra_simps)
qed

lemma contains_interval:
  assumes "cidr_ok c"
  shows "contains c ip \<longleftrightarrow> ip_width ip = ip_width (cidr_addr c) \<and>
    ip_val (cidr_addr c) \<le> ip_val ip \<and> ip_val ip < ip_val (cidr_addr c) + 2 ^ host_bits c"
proof (cases "ip_width ip = ip_width (cidr_addr c)")
  case True
  have le: "unat (cidr_prefix c) \<le> ip_width ip" and dvd: "2 ^ host_bits c dvd ip_val (cidr_addr c)"
    using assms True by (auto simp: cidr_ok_def)
  have "mask_addr ip (cidr_prefix c) = cidr_addr c \<longleftrightarrow> ip_val (mask_addr ip (cidr_prefix c)) = ip_val (cidr_addr c)"
    using True ip_eqI by auto
  also have "\<dots> \<longleftrightarrow> ip_val ip div 2 ^ host_bits c * 2 ^ host_bits c = ip_val (cidr_addr c)"
    using le True by (simp add: ip_val_mask_addr host_bits_def)
  finally show ?thesis
    using True dvd by (simp add: contains_mask div_mult_eq_iff)
qed (auto simp: contains_mask)

lemma wrapping_offset_width [simp]: "ip_width (wrapping_offset a off) = ip_width a"
  by (cases a) (auto simp: wrapping_offset_def)

lemma ip_val_wrapping_offset:
  assumes "ip_val a + unat off < 2 ^ ip_width a"
  shows "ip_val (wrapping_offset a off) = ip_val a + unat off"
proof (cases a)
  case (V4 b)
  then have lt: "unat b + unat off < 4294967296"
    using assms by simp
  then have "unat (ucast off :: u32) = unat off"
    by (simp add: unsigned_ucast_eq take_bit_nat_eq_self)
  then show ?thesis
    using V4 lt by (simp add: wrapping_offset_def unat_word_ariths(1))
next
  case (V6 b)
  then show ?thesis
    using assms by (simp add: wrapping_offset_def unat_word_ariths(1))
qed

lemma block_fits:
  assumes "cidr_ok c"
  shows "ip_val (cidr_addr c) + 2 ^ host_bits c \<le> 2 ^ ip_width (cidr_addr c)"
proof -
  let ?k = "2 ^ host_bits c :: nat" and ?w = "2 ^ ip_width (cidr_addr c) :: nat"
  have "?k dvd ?w"
    by (simp add: host_bits_def le_imp_power_dvd)
  moreover have "?k dvd ip_val (cidr_addr c)"
    using assms by (simp add: cidr_ok_def)
  ultimately obtain m n where "ip_val (cidr_addr c) = ?k * m" "?w = ?k * n"
    by (metis dvd_def)
  then show ?thesis
    using ip_val_less[of "cidr_addr c"] by (metis Suc_leI add.commute mult_Suc_right mult_less_cancel1 nat_mult_le_cancel_disj)
qed

lemma unat_shl_u128:
  assumes "unat x * 2 ^ n < 2 ^ 128" "n < 128"
  shows "unat (shl_u128 x n) = unat x * 2 ^ n"
  using assms unat_push_bit[of x n] by (simp only: shl_u128_def mod_less) simp

lemma unat_shl_u128_one: "n < 128 \<Longrightarrow> unat (shl_u128 1 n) = 2 ^ n"
  using unat_shl_u128[of 1 n] power_strict_increasing[of n 128 "2::nat"] by simp

lemma address_count_host_bits:
  assumes "cidr_ok c"
  shows "unat (address_count c) = (if host_bits c = 128 then 2 ^ 128 - 1 else 2 ^ host_bits c)"
proof -
  have hb: "unat (max_prefix (cidr_addr c) - cidr_prefix c) = host_bits c"
    using assms by (simp add: unat_sub_u8 unat_max_prefix cidr_ok_def host_bits_def)
  have le: "host_bits c \<le> 128"
    using ip_width_le[of "cidr_addr c"] by (simp add: host_bits_def)
  show ?thesis
  proof (cases "host_bits c = 128")
    case True
    then show ?thesis
      by (simp add: address_count_def hb Let_def unsigned_minus_1_eq_mask mask_eq_exp_minus_1)
  next
    case False
    then have "\<not> host_bits c \<ge> 128" "host_bits c < 128"
      using le by auto
    then show ?thesis
      using False by (simp add: address_count_def hb Let_def unat_shl_u128_one)
  qed
qed

lemma address_count_le: "cidr_ok c \<Longrightarrow> unat (address_count c) \<le> 2 ^ host_bits c"
  by (simp add: address_count_host_bits)

lemma nth_address_ok:
  assumes "cidr_ok c" "i < address_count c"
  shows "\<exists>a. nth_address c i = Inr a \<and> contains c a \<and> ip_width a = ip_width (cidr_addr c) \<and>
    ip_val a = ip_val (cidr_addr c) + unat i"
proof -
  have i: "unat i < 2 ^ host_bits c"
    using assms address_count_le unat_mono order_less_le_trans by blast
  then have "ip_val (wrapping_offset (cidr_addr c) i) = ip_val (cidr_addr c) + unat i"
    using block_fits[OF assms(1)] by (intro ip_val_wrapping_offset) simp
  then show ?thesis
    using assms i by (auto simp: nth_address_def contains_interval)
qed

section \<open>Subnets as numbers\<close>

definition subnet_at :: "SubnetIter \<Rightarrow> nat \<Rightarrow> Cidr" where
  "subnet_at it i = Cidr (wrapping_offset (iter_base it) (shl_u128 (of_nat i) (unat (step_bits it)))) (new_prefix it)"

lemma iter_collect_map: "iter_collect it = map (subnet_at it) [unat (index it)..<unat (iter_count it)]"
proof (induction it rule: iter_collect.induct)
  case (1 it)
  show ?case
  proof (cases "index it < iter_count it")
    case True
    have "iter_collect (it\<lparr>index := index it + 1\<rparr>) =
      map (subnet_at (it\<lparr>index := index it + 1\<rparr>)) [Suc (unat (index it))..<unat (iter_count it)]"
      using 1[of "it\<lparr>index := index it + 1\<rparr>", OF _ refl] True
      by (simp add: SubnetIter_next_def Let_def not_le unat_Suc_less[OF True])
    moreover have "subnet_at (it\<lparr>index := index it + 1\<rparr>) = subnet_at it"
      by (rule ext) (simp add: subnet_at_def)
    ultimately show ?thesis
      using True unat_mono[OF True]
      by (subst iter_collect.simps) (simp add: SubnetIter_next_def Let_def not_le upt_conv_Cons subnet_at_def)
  next
    case False
    then show ?thesis
      by (subst iter_collect.simps) (simp add: SubnetIter_next_def not_less word_le_nat_alt)
  qed
qed

lemma subnets_Inr:
  "subnets c np = Inr it \<longleftrightarrow> unat (cidr_prefix c) \<le> unat np \<and> unat np \<le> ip_width (cidr_addr c) \<and>
    it = \<lparr>iter_base = cidr_addr c, new_prefix = np, step_bits = ucast (max_prefix (cidr_addr c) - np),
      index = 0, iter_count = shl_u128 1 (unat (np - cidr_prefix c))\<rparr>"
  by (auto simp: subnets_def Let_def word_less_nat_alt unat_max_prefix not_less)

lemma power_mult_lt: 
  fixes i :: nat
  assumes "i < 2 ^ k"
  shows "i * 2 ^ n + 2 ^ n \<le> 2 ^ (k + n)"
  using mult_le_mono1[of "Suc i" "2 ^ k" "2 ^ n"] assms by (simp add: power_add)

lemma subnet_at_val:
  assumes c: "cidr_ok c" and it: "subnets c np = Inr it"
    and i: "i < 2 ^ (unat np - unat (cidr_prefix c))" 
  shows "cidr_ok (subnet_at it i) \<and> cidr_prefix (subnet_at it i) = np \<and>
    ip_width (cidr_addr (subnet_at it i)) = ip_width (cidr_addr c) \<and>
    host_bits (subnet_at it i) = ip_width (cidr_addr c) - unat np \<and>
    ip_val (cidr_addr (subnet_at it i)) = ip_val (cidr_addr c) + i * 2 ^ (ip_width (cidr_addr c) - unat np)"
proof -
  let ?w = "ip_width (cidr_addr c)" and ?p = "unat (cidr_prefix c)" and ?n = "unat np"
  note le = it[unfolded subnets_Inr]
  have step: "unat (step_bits it) = ?w - ?n"
    using le ip_width_le[of "cidr_addr c"]
    by (auto simp: unsigned_ucast_eq unat_sub_u8 unat_max_prefix intro!: take_bit_nat_eq_self)
  have hb: "host_bits c = (?n - ?p) + (?w - ?n)"
    using le by (simp add: host_bits_def)
  have room: "i * 2 ^ (?w - ?n) + 2 ^ (?w - ?n) \<le> 2 ^ host_bits c"
    unfolding hb by (rule power_mult_lt[OF i])
  have fit: "ip_val (cidr_addr c) + 2 ^ host_bits c \<le> 2 ^ ?w"
    by (rule block_fits[OF c])
  have pos: "(0::nat) < 2 ^ (?w - ?n)"
    by simp
  have wide: "(2::nat) ^ ?w \<le> 2 ^ 128"
    by (rule power_increasing[OF ip_width_le]) simp
  have lt: "i * 2 ^ (?w - ?n) < 2 ^ 128"
    using room fit wide pos by linarith
  have "i \<le> i * 2 ^ (?w - ?n)"
    using pos by simp
  then have "i < 2 ^ 128"
    using lt by linarith
  then have iv: "unat (of_nat i :: u128) = i"
    by (simp add: unat_of_nat)
  have sh: "unat (shl_u128 (of_nat i) (?w - ?n)) = i * 2 ^ (?w - ?n)"
  proof (cases "?w - ?n < 128")
    case True
    then show ?thesis
      using lt iv by (simp add: unat_shl_u128)
  next
    case False
    then have "?n = 0"
      using ip_width_le[of "cidr_addr c"] by simp
    then have "i = 0"
      using i by simp
    then show ?thesis
      by (simp add: shl_u128_def)
  qed
  have base: "iter_base it = cidr_addr c" "new_prefix it = np"
    using le by auto
  have "ip_val (cidr_addr c) + i * 2 ^ (?w - ?n) < 2 ^ ?w"
    using room fit pos by linarith
  then have val: "ip_val (cidr_addr (subnet_at it i)) = ip_val (cidr_addr c) + i * 2 ^ (?w - ?n)"
    by (simp add: subnet_at_def step base ip_val_wrapping_offset sh)
  have "2 ^ (?w - ?n) dvd ip_val (cidr_addr c)"
  proof (rule dvd_trans)
    show "2 ^ (?w - ?n) dvd (2 :: nat) ^ host_bits c"
      using le by (intro le_imp_power_dvd) (auto simp: host_bits_def intro: diff_le_mono2)
    show "2 ^ host_bits c dvd ip_val (cidr_addr c)"
      using c by (simp add: cidr_ok_def)
  qed
  then show ?thesis
    using val le by (simp add: cidr_ok_def host_bits_def subnet_at_def base)
qed

lemma subnets_collect:
  assumes "subnets c np = Inr it" "unat np - unat (cidr_prefix c) < 128"
  shows "iter_collect it = map (subnet_at it) [0..<2 ^ (unat np - unat (cidr_prefix c))]"
proof -
  have "unat (np - cidr_prefix c) = unat np - unat (cidr_prefix c)"
    using assms(1) by (simp add: subnets_Inr unat_sub_u8)
  then show ?thesis
    using assms by (simp add: iter_collect_map subnets_Inr unat_shl_u128_one)
qed

lemma interval_multiple_unique:
  fixes i j k v :: nat
  assumes "i * k \<le> v" "v < i * k + k" "j * k \<le> v" "v < j * k + k"
  shows "i = j"
proof -
  have "v div k = i" "v div k = j"
    using assms by (auto intro!: div_nat_eqI simp: mult.commute)
  then show ?thesis by simp
qed

lemma contains_subnet_at:
  assumes "cidr_ok c" "subnets c np = Inr it" "i < 2 ^ (unat np - unat (cidr_prefix c))"
  shows "contains (subnet_at it i) ip \<longleftrightarrow> ip_width ip = ip_width (cidr_addr c) \<and>
    ip_val (cidr_addr c) + i * 2 ^ (ip_width (cidr_addr c) - unat np) \<le> ip_val ip \<and>
    ip_val ip < ip_val (cidr_addr c) + i * 2 ^ (ip_width (cidr_addr c) - unat np) + 2 ^ (ip_width (cidr_addr c) - unat np)"
  using subnet_at_val[OF assms] by (simp add: contains_interval)

text \<open>Every address of a block is in exactly one of its subnets.\<close>

lemma subnet_of_address:
  assumes c: "cidr_ok c" and it: "subnets c np = Inr it"
  shows "contains c ip \<longleftrightarrow> (\<exists>i < 2 ^ (unat np - unat (cidr_prefix c)). contains (subnet_at it i) ip)"
proof
  let ?w = "ip_width (cidr_addr c)" and ?k = "2 ^ (ip_width (cidr_addr c) - unat np) :: nat"
  let ?b = "ip_val (cidr_addr c)" and ?d = "unat np - unat (cidr_prefix c)"
  have hb: "2 ^ host_bits c = 2 ^ ?d * ?k"
    using it by (simp add: subnets_Inr host_bits_def flip: power_add)
  {
    assume "contains c ip"
    then have iv: "ip_width ip = ?w" "?b \<le> ip_val ip" "ip_val ip < ?b + 2 ^ ?d * ?k"
      using contains_interval[OF c] hb by auto
    let ?i = "(ip_val ip - ?b) div ?k"
    have "?i < 2 ^ ?d"
      using iv by (intro less_mult_imp_div_less) linarith
    moreover have "?i * ?k \<le> ip_val ip - ?b" "ip_val ip - ?b < ?i * ?k + ?k"
      using div_times_less_eq_dividend[of "ip_val ip - ?b" ?k] dividend_less_div_times[of ?k "ip_val ip - ?b"]
      by (simp_all add: add.commute)
    moreover from this have "?b + ?i * ?k \<le> ip_val ip" "ip_val ip < ?b + ?i * ?k + ?k"
      using iv(2) by linarith+
    ultimately show "\<exists>i < 2 ^ ?d. contains (subnet_at it i) ip"
      using iv(1) contains_subnet_at[OF c it] by blast
  next
    assume "\<exists>i < 2 ^ ?d. contains (subnet_at it i) ip"
    then obtain i where i: "i < 2 ^ ?d" "contains (subnet_at it i) ip" by auto
    have "i * ?k + ?k \<le> 2 ^ ?d * ?k"
      using mult_le_mono1[of "Suc i" "2 ^ ?d" ?k] i(1) by simp
    then show "contains c ip"
      using i hb by (auto simp: contains_subnet_at[OF c it i(1)] contains_interval[OF c])
  }
qed

lemma subnet_at_disjoint:
  assumes c: "cidr_ok c" and it: "subnets c np = Inr it"
    and "i < 2 ^ (unat np - unat (cidr_prefix c))" "j < 2 ^ (unat np - unat (cidr_prefix c))"
    and "contains (subnet_at it i) ip" "contains (subnet_at it j) ip"
  shows "i = j"
  using assms(5,6) interval_multiple_unique[of i "2 ^ (ip_width (cidr_addr c) - unat np)" "ip_val ip - ip_val (cidr_addr c)" j]
  by (simp add: contains_subnet_at[OF c it assms(3)] contains_subnet_at[OF c it assms(4)]) linarith

lemma nested_intervals:
  fixes x y u v w :: nat
  assumes "0 < u" "u dvd v" "v dvd x" "u dvd y" "x \<le> w" "w < x + v" "y \<le> w" "w < y + u"
  shows "x \<le> y \<and> y < x + v"
proof -
  obtain m a b where eqs: "v = u * m" "x = u * a" "y = u * b"
    using assms(2-4) dvd_trans[OF assms(2,3)] by (metis dvd_def)
  have "w div u = b"
    using assms(7,8) eqs by (intro div_nat_eqI) auto
  moreover have "a \<le> w div u" "w div u < a + m"
    using assms(1,5,6) eqs by (simp_all add: less_eq_div_iff_mult_less_eq div_less_iff_less_mult algebra_simps)
  ultimately show ?thesis
    using assms(1) eqs by (simp flip: distrib_left)
qed

lemma larger_block_contains:
  assumes "cidr_ok c" "cidr_ok d" "contains c ip" "contains d ip" "host_bits d \<le> host_bits c"
  shows "contains c (network d)"
proof -
  have "2 ^ host_bits d dvd (2 :: nat) ^ host_bits c"
    using assms(5) by (rule le_imp_power_dvd)
  then show ?thesis
    using assms nested_intervals[of "2 ^ host_bits d" "2 ^ host_bits c" "ip_val (cidr_addr c)"
        "ip_val (cidr_addr d)" "ip_val ip"]
    by (simp add: contains_interval cidr_ok_def network_def)
qed

lemma network_in_block: "cidr_ok c \<Longrightarrow> contains c (network c)"
  by (simp add: contains_interval network_def)

section \<open>Properties\<close>

text \<open>
  Splitting a block into subnets partitions it: \<open>subnets\<close> yields \<open>2 ^ (new_prefix - prefix)\<close>
  canonical blocks of the requested length, every address of the block lies in exactly one of them
  and no other address lies in any. (The one excluded request splits \<open>::/0\<close> into single addresses,
  where the number of subnets does not fit a \<open>u128\<close>.)
\<close>
theorem subnets_partition:
  assumes "Cidr_new a p = Inr c" "subnets c np = Inr it" "unat np - unat p < 128"
  shows "length (iter_collect it) = 2 ^ (unat np - unat p) \<and>
    (\<forall>s \<in> set (iter_collect it). prefix_len s = np \<and> Cidr_new (network s) np = Inr s) \<and>
    (\<forall>ip. contains c ip \<longleftrightarrow> (\<exists>s \<in> set (iter_collect it). contains s ip)) \<and>
    (\<forall>i < length (iter_collect it). \<forall>j < length (iter_collect it). \<forall>ip.
      contains (iter_collect it ! i) ip \<longrightarrow> contains (iter_collect it ! j) ip \<longrightarrow> i = j)"
proof -
  have c: "cidr_ok c" "cidr_prefix c = p"
    using Cidr_new_ok[OF assms(1)] by auto
  note col = subnets_collect[OF assms(2), unfolded c(2), OF assms(3)]
  have "Cidr_new (network s) np = Inr s \<and> prefix_len s = np" if mem: "s \<in> set (iter_collect it)" for s
  proof -
    obtain i where i: "i < 2 ^ (unat np - unat p)" "s = subnet_at it i"
      using mem unfolding col by auto
    note v = subnet_at_val[OF c(1) assms(2), unfolded c(2), OF i(1), folded i(2)]
    have "contains s (network s)"
      using v network_in_block by auto
    then show ?thesis
      using v assms(2)
      by (simp add: contains_mask Cidr_new_def Let_def network_def prefix_len_def subnets_Inr word_less_nat_alt
          unat_max_prefix not_less) (metis Cidr.collapse)
  qed
  moreover have "contains c ip \<longleftrightarrow> (\<exists>s \<in> set (iter_collect it). contains s ip)" for ip
    using subnet_of_address[OF c(1) assms(2), of ip] by (auto simp: col c(2))
  moreover have "i = j" if "i < length (iter_collect it)" "j < length (iter_collect it)"
    "contains (iter_collect it ! i) ip" "contains (iter_collect it ! j) ip" for i j ip
    using that subnet_at_disjoint[OF c(1) assms(2), of i j ip] by (auto simp: col c(2))
  ultimately show ?thesis
    by (auto simp: col)
qed

theorem subnets_partition_witness:
  "(\<exists>c it. Cidr_new (V4 0x0A2A0007) 16 = Inr c \<and> subnets c 24 = Inr it \<and> length (iter_collect it) = 256)"
proof -
  define c where "c = Cidr (V4 0x0A2A0000) 16"
  have c: "Cidr_new (V4 0x0A2A0007) 16 = Inr c"
    by (simp add: c_def Cidr_new_def Let_def max_prefix_def mask_addr_def v4_mask_def mask_eq_exp_minus_1)
  obtain it where it: "subnets c 24 = Inr it"
    by (simp add: c_def subnets_def Let_def max_prefix_def)
  show ?thesis
    using subnets_partition[OF c it] c it by simp
qed

text \<open>
  The overlap test is exact: two blocks built by \<open>Cidr::new\<close> overlap in the sense of
  \<open>overlaps\<close> exactly when some address lies in both.
\<close>
theorem overlap_exact:
  assumes "Cidr_new a p = Inr c" "Cidr_new b q = Inr d"
  shows "cidr_overlaps c d \<longleftrightarrow> (\<exists>ip. contains c ip \<and> contains d ip)"
proof
  have ok: "cidr_ok c" "cidr_ok d"
    using Cidr_new_ok assms by blast+
  {
    assume "cidr_overlaps c d"
    then show "\<exists>ip. contains c ip \<and> contains d ip"
      using network_in_block[OF ok(1)] network_in_block[OF ok(2)] by (auto simp: cidr_overlaps_def)
  next
    assume "\<exists>ip. contains c ip \<and> contains d ip"
    then obtain ip where ip: "contains c ip" "contains d ip" by auto
    show "cidr_overlaps c d"
      using larger_block_contains[OF ok ip] larger_block_contains[OF ok(2,1) ip(2,1)]
      by (meson cidr_overlaps_def nle_le)
  }
qed

theorem overlap_exact_witness:
  "\<exists>c d. Cidr_new (V4 0x0A2A0000) 16 = Inr c \<and> Cidr_new (V4 0x0A2A0300) 24 = Inr d \<and>
    (cidr_overlaps c d \<longleftrightarrow> (\<exists>ip. contains c ip \<and> contains d ip))"
proof -
  obtain c d where "Cidr_new (V4 0x0A2A0000) 16 = Inr c" "Cidr_new (V4 0x0A2A0300) 24 = Inr d"
    by (simp add: Cidr_new_def Let_def max_prefix_def)
  then show ?thesis
    using overlap_exact by blast
qed

end
