(* ===== verification/Flannel_Ipam.thy ===== *)
theory Flannel_Ipam
  imports Flannel_Cidr
begin

text \<open>
  Pod addresses of one node (\<open>cave-home-cni-flannel/src/ipam.rs\<close>): the allocator keeps the set of
  assigned indices of the node's block, skips the network address and the gateway, and hands out the
  lowest free index.

  What the allocator needs of a block is the locale \<open>numbered_block\<close>: its addresses are numbered
  from zero in ascending order. The locale's lemmas turn sets of indices into sets of addresses;
  the interpretation for \<open>Cidr\<close> discharges its laws, and the property reads the allocator as a pool
  of addresses.
\<close>

section \<open>Data\<close>

datatype IpamError =
    SubnetFull Cidr
  | OutOfRange IpAddr
  | Reserved IpAddr
  | AlreadyAssigned IpAddr
  | NotAssigned IpAddr
  | NoUsableHosts Cidr

record PodIpam =
  ipam_subnet :: Cidr
  ipam_gateway :: IpAddr
  assigned :: "u128 set"
  first_host :: u128
  host_end :: u128

section \<open>Operations\<close>

definition PodIpam_new :: "Cidr \<Rightarrow> IpamError + PodIpam" where
  "PodIpam_new c =
    (let count = address_count c in
     if count < 3 then Inl (NoUsableHosts c)
     else case nth_address c 1 of
       Inl _ \<Rightarrow> Inl (NoUsableHosts c)
     | Inr gateway \<Rightarrow>
         Inr \<lparr>ipam_subnet = c, ipam_gateway = gateway, assigned = {}, first_host = 2, host_end = count\<rparr>)"

definition usable_capacity :: "PodIpam \<Rightarrow> u128" where
  "usable_capacity p = host_end p - first_host p"

definition assigned_count :: "PodIpam \<Rightarrow> nat" where
  "assigned_count p = card (assigned p)"

definition is_full :: "PodIpam \<Rightarrow> bool" where
  "is_full p = (assigned_count p \<ge> unat (usable_capacity p))"

definition is_reserved :: "PodIpam \<Rightarrow> IpAddr \<Rightarrow> bool" where
  "is_reserved p ip = (ip = network (ipam_subnet p) \<or> ip = ipam_gateway p)"

definition index_in :: "Cidr \<Rightarrow> IpAddr \<Rightarrow> u128 option" where
  "index_in c ip =
    (if \<not> contains c ip then None
     else case (network c, ip) of
       (V4 net, V4 a) \<Rightarrow> Some (ucast (a - net))
     | (V6 net, V6 a) \<Rightarrow> Some (a - net)
     | _ \<Rightarrow> None)"

definition index_of :: "PodIpam \<Rightarrow> IpAddr \<Rightarrow> u128 option" where
  "index_of p ip = index_in (ipam_subnet p) ip"

text \<open>The search \<open>(first_host..host_end).find(..)\<close>.\<close>

function find_free :: "u128 set \<Rightarrow> u128 \<Rightarrow> u128 \<Rightarrow> u128 option" where
  "find_free used i stop =
    (if i < stop then if i \<notin> used then Some i else find_free used (i + 1) stop else None)"
  by pat_completeness auto

termination
  by (relation "measure (\<lambda>(used, i, stop). unat stop - unat i)")
     (auto simp: unat_Suc_less intro!: diff_less_mono2 dest: unat_mono)

declare find_free.simps [simp del]

definition pod_allocate :: "PodIpam \<Rightarrow> PodIpam \<times> (IpamError + IpAddr)" where
  "pod_allocate p = (case find_free (assigned p) (first_host p) (host_end p) of
     None \<Rightarrow> (p, Inl (SubnetFull (ipam_subnet p)))
   | Some idx \<Rightarrow>
       (p\<lparr>assigned := insert idx (assigned p)\<rparr>,
        case nth_address (ipam_subnet p) idx of
          Inl _ \<Rightarrow> Inl (SubnetFull (ipam_subnet p))
        | Inr ip \<Rightarrow> Inr ip))"

definition pod_assign :: "PodIpam \<Rightarrow> IpAddr \<Rightarrow> PodIpam \<times> (IpamError + unit)" where
  "pod_assign p ip = (case index_of p ip of
     None \<Rightarrow> (p, Inl (OutOfRange ip))
   | Some idx \<Rightarrow>
       if idx < first_host p then (p, Inl (Reserved ip))
       else if idx \<in> assigned p then (p, Inl (AlreadyAssigned ip))
       else (p\<lparr>assigned := insert idx (assigned p)\<rparr>, Inr ()))"

definition pod_free :: "PodIpam \<Rightarrow> IpAddr \<Rightarrow> PodIpam \<times> (IpamError + unit)" where
  "pod_free p ip = (case index_of p ip of
     None \<Rightarrow> (p, Inl (OutOfRange ip))
   | Some idx \<Rightarrow>
       if idx \<in> assigned p then (p\<lparr>assigned := assigned p - {idx}\<rparr>, Inr ())
       else (p, Inl (NotAssigned ip)))"

definition is_assigned :: "PodIpam \<Rightarrow> IpAddr \<Rightarrow> bool" where
  "is_assigned p ip = (case index_of p ip of None \<Rightarrow> False | Some idx \<Rightarrow> idx \<in> assigned p)"

section \<open>Blocks with numbered addresses\<close>

locale numbered_block =
  fixes ok :: "'b \<Rightarrow> bool"
    and mem :: "'b \<Rightarrow> 'a::linorder \<Rightarrow> bool"
    and len :: "'b \<Rightarrow> u128"
    and nth_addr :: "'b \<Rightarrow> u128 \<Rightarrow> 'e + 'a"
    and idx :: "'b \<Rightarrow> 'a \<Rightarrow> u128 option"
  assumes nth_mem: "ok b \<Longrightarrow> i < len b \<Longrightarrow> \<exists>a. nth_addr b i = Inr a \<and> mem b a \<and> idx b a = Some i"
    and mem_nth: "ok b \<Longrightarrow> mem b a \<Longrightarrow> \<exists>i < len b. nth_addr b i = Inr a"
    and nth_mono: "ok b \<Longrightarrow> i < j \<Longrightarrow> j < len b \<Longrightarrow> nth_addr b i = Inr a \<Longrightarrow> nth_addr b j = Inr a' \<Longrightarrow> a < a'"
    and idx_outside: "\<not> mem b a \<Longrightarrow> idx b a = None"
begin

definition addrs :: "'b \<Rightarrow> u128 set \<Rightarrow> 'a set" where
  "addrs b I = {a. \<exists>i \<in> I. i < len b \<and> nth_addr b i = Inr a}"

lemma idx_eq:
  assumes "ok b"
  shows "idx b a = Some i \<longleftrightarrow> i < len b \<and> nth_addr b i = Inr a"
  using assms nth_mem[of b] mem_nth[of b a] idx_outside[of b a]
  by (metis Inr_inject option.distinct(1) option.inject)

lemma mem_addrs:
  assumes "ok b"
  shows "a \<in> addrs b I \<longleftrightarrow> (\<exists>i \<in> I. idx b a = Some i)"
  using assms by (auto simp: addrs_def idx_eq)

lemma addrs_insert:
  assumes "ok b" "idx b a = Some i"
  shows "addrs b (insert i I) = insert a (addrs b I)"
  using assms by (auto simp: addrs_def idx_eq)

lemma addrs_remove:
  assumes "ok b" "idx b a = Some i"
  shows "addrs b (I - {i}) = addrs b I - {a}"
proof (rule set_eqI)
  fix x
  have "idx b x = Some i \<longleftrightarrow> x = a"
    using assms(2) by (auto simp: idx_eq[OF assms(1)])
  then show "x \<in> addrs b (I - {i}) \<longleftrightarrow> x \<in> addrs b I - {a}"
    by (auto simp: mem_addrs[OF assms(1)])
qed

lemma addrs_finite: "finite (addrs b I)"
proof -
  have "addrs b I \<subseteq> (\<lambda>i. projr (nth_addr b i)) ` UNIV"
    by (auto simp: addrs_def image_iff) (metis sum.sel(2))
  then show ?thesis
    by (rule finite_subset) simp
qed

text \<open>The least free index is the lowest free address.\<close>

lemma lowest_free:
  assumes "ok b" "i < len b" "lo \<le> i" "i \<notin> I" "\<And>j. lo \<le> j \<Longrightarrow> j < i \<Longrightarrow> j \<in> I" "nth_addr b i = Inr a"
  shows "a = Min (addrs b {lo..} - addrs b I)"
proof (rule sym, rule Min_eqI)
  show "finite (addrs b {lo..} - addrs b I)"
    by (simp add: addrs_finite)
  have a: "idx b a = Some i"
    using assms by (simp add: idx_eq)
  then show "a \<in> addrs b {lo..} - addrs b I"
    using assms by (auto simp: mem_addrs)
  fix a' assume "a' \<in> addrs b {lo..} - addrs b I"
  then obtain j where j: "lo \<le> j" "idx b a' = Some j" "j \<notin> I"
    using assms(1) by (auto simp: mem_addrs)
  then have "i \<le> j"
    using assms(5) by (meson not_le)
  then show "a \<le> a'"
    using nth_mono[of b i j a a'] j assms by (auto simp: idx_eq order_le_less)
qed

lemma none_free:
  assumes "ok b" "\<And>j. lo \<le> j \<Longrightarrow> j < len b \<Longrightarrow> j \<in> I"
  shows "addrs b {lo..} - addrs b I = {}"
  using assms by (auto simp: addrs_def)

end

section \<open>The numbering of a block\<close>

definition block_ok :: "Cidr \<Rightarrow> bool" where
  "block_ok c \<longleftrightarrow> cidr_ok c \<and> host_bits c < 128"

lemma address_count_block: "block_ok c \<Longrightarrow> unat (address_count c) = 2 ^ host_bits c"
  by (simp add: block_ok_def address_count_host_bits)

lemma index_in_eq:
  assumes "cidr_ok c" "contains c ip"
  shows "\<exists>i. index_in c ip = Some i \<and> unat i = ip_val ip - ip_val (cidr_addr c)"
proof (cases "cidr_addr c")
  case (V4 net)
  moreover obtain a where a: "ip = V4 a"
    using assms V4 by (cases ip) (auto simp: contains_interval)
  moreover have "net \<le> a"
    using assms V4 a by (simp add: contains_interval word_le_nat_alt)
  moreover have "unat (ucast (a - net) :: u128) = unat (a - net)"
    by (simp add: unsigned_ucast_eq take_bit_nat_eq_self order_less_trans[OF unat_lt_u32])
  ultimately show ?thesis
    using assms(2) by (simp add: index_in_def network_def unat_sub)
next
  case (V6 net)
  moreover obtain a where a: "ip = V6 a"
    using assms V6 by (cases ip) (auto simp: contains_interval)
  moreover have "net \<le> a"
    using assms V6 a by (simp add: contains_interval word_le_nat_alt)
  ultimately show ?thesis
    using assms(2) by (simp add: index_in_def network_def unat_sub)
qed

lemma ip_less_iff: "ip_width a = ip_width b \<Longrightarrow> a < b \<longleftrightarrow> ip_val a < ip_val b"
  by (cases a; cases b) (auto simp: less_IpAddr_def word_le_nat_alt)

lemma nth_address_index:
  assumes "cidr_ok c" "i < address_count c" "nth_address c i = Inr a"
  shows "contains c a \<and> index_in c a = Some i"
proof -
  have a: "contains c a" "ip_val a = ip_val (cidr_addr c) + unat i"
    using nth_address_ok[OF assms(1,2)] assms(3) by auto
  then obtain j where "index_in c a = Some j" "unat j = unat i"
    using index_in_eq[OF assms(1) a(1)] by auto
  then show ?thesis
    using a(1) by (simp add: unsigned_word_eqI)
qed

interpretation nb: numbered_block block_ok contains address_count nth_address index_in
proof
  fix b i
  assume ok: "block_ok b" and i: "i < address_count b"
  then have c: "cidr_ok b" by (simp add: block_ok_def)
  then show "\<exists>a. nth_address b i = Inr a \<and> contains b a \<and> index_in b a = Some i"
    using nth_address_ok[OF c i] nth_address_index[OF c i] by blast
next
  fix b a
  assume ok: "block_ok b" and mem: "contains b a"
  then have c: "cidr_ok b" by (simp add: block_ok_def)
  obtain i :: u128 where i: "unat i = ip_val a - ip_val (cidr_addr b)"
    using index_in_eq[OF c mem] by auto
  note iv = mem[unfolded contains_interval[OF c]]
  have lt: "i < address_count b"
    using iv i by (simp add: word_less_nat_alt address_count_block[OF ok]) linarith
  obtain a' where "nth_address b i = Inr a'" "ip_width a' = ip_width (cidr_addr b)"
    "ip_val a' = ip_val (cidr_addr b) + unat i"
    using nth_address_ok[OF c lt] by auto
  then show "\<exists>i < address_count b. nth_address b i = Inr a"
    using lt iv i ip_eqI[of a' a] by auto
next
  fix b i j a a'
  assume "block_ok b" and ij: "i < j" "j < address_count b"
    and n: "nth_address b i = Inr a" "nth_address b j = Inr a'"
  then have c: "cidr_ok b" and i: "i < address_count b"
    by (auto simp: block_ok_def)
  show "a < a'"
    using nth_address_ok[OF c i] nth_address_ok[OF c ij(2)] n unat_mono[OF ij(1)]
    by (auto simp: ip_less_iff)
next
  fix b a
  assume "\<not> contains b a"
  then show "index_in b a = None" by (simp add: index_in_def)
qed

section \<open>The allocator as a pool of addresses\<close>

datatype IpamOp = Allocate | Assign IpAddr | Free IpAddr

definition ipam_step :: "PodIpam \<Rightarrow> IpamOp \<Rightarrow> PodIpam \<times> (IpamError + IpAddr option)" where
  "ipam_step p op' = (case op' of
     Allocate \<Rightarrow> (fst (pod_allocate p), map_sum (\<lambda>e. e) Some (snd (pod_allocate p)))
   | Assign ip \<Rightarrow> (fst (pod_assign p ip), map_sum (\<lambda>e. e) (\<lambda>_. None) (snd (pod_assign p ip)))
   | Free ip \<Rightarrow> (fst (pod_free p ip), map_sum (\<lambda>e. e) (\<lambda>_. None) (snd (pod_free p ip))))"

inductive ipam_run :: "Cidr \<Rightarrow> PodIpam \<Rightarrow> bool" for c where
  ipam_start: "PodIpam_new c = Inr p \<Longrightarrow> ipam_run c p"
| ipam_more: "ipam_run c p \<Longrightarrow> ipam_run c (fst (ipam_step p op'))"

text \<open>The specification: the addresses in use, and the ones that may be used.\<close>

definition pods :: "PodIpam \<Rightarrow> IpAddr set" where
  "pods p = {ip. is_assigned p ip}"

definition usable :: "Cidr \<Rightarrow> IpAddr set" where
  "usable c = {ip. contains c ip \<and> ip \<noteq> network c \<and> nth_address c 1 \<noteq> Inr ip}"

definition pool_spec :: "Cidr \<Rightarrow> IpAddr set \<Rightarrow> IpamOp \<Rightarrow> IpAddr set \<times> (IpamError + IpAddr option)" where
  "pool_spec c S op' = (case op' of
     Allocate \<Rightarrow> if usable c \<subseteq> S then (S, Inl (SubnetFull c))
       else (insert (Min (usable c - S)) S, Inr (Some (Min (usable c - S))))
   | Assign ip \<Rightarrow> if \<not> contains c ip then (S, Inl (OutOfRange ip))
       else if ip \<notin> usable c then (S, Inl (Reserved ip))
       else if ip \<in> S then (S, Inl (AlreadyAssigned ip))
       else (insert ip S, Inr None)
   | Free ip \<Rightarrow> if \<not> contains c ip then (S, Inl (OutOfRange ip))
       else if ip \<in> S then (S - {ip}, Inr None)
       else (S, Inl (NotAssigned ip)))"

definition ipam_inv :: "Cidr \<Rightarrow> PodIpam \<Rightarrow> bool" where
  "ipam_inv c p \<longleftrightarrow> ipam_subnet p = c \<and> first_host p = 2 \<and> host_end p = address_count c \<and>
     address_count c \<ge> 3 \<and> nth_address c 1 = Inr (ipam_gateway p) \<and> (\<forall>i \<in> assigned p. 2 \<le> i)"

lemma word_Suc_le:
  fixes x y :: "'a::len word"
  assumes "x < y"
  shows "x + 1 \<le> k \<longleftrightarrow> x < k"
  using unat_Suc_less[OF assms] by (auto simp: word_le_nat_alt word_less_nat_alt)

lemma two_le_u128: "2 \<le> (i :: u128) \<longleftrightarrow> i \<noteq> 0 \<and> i \<noteq> 1"
proof
  assume "i \<noteq> 0 \<and> i \<noteq> 1"
  then have "unat i \<noteq> 0" "unat i \<noteq> 1"
    using unsigned_word_eqI[of i 1, where 'a = nat] by (auto simp: unat_eq_0)
  then show "2 \<le> i"
    by (simp add: word_le_nat_alt)
qed (auto simp: word_le_nat_alt)

lemma find_free_Some:
  "find_free used i stop = Some j \<Longrightarrow> i \<le> j \<and> j < stop \<and> j \<notin> used \<and> (\<forall>k. i \<le> k \<longrightarrow> k < j \<longrightarrow> k \<in> used)"
proof (induction used i stop rule: find_free.induct)
  case (1 used i stop)
  show ?case
  proof (cases "i < stop \<and> i \<in> used")
    case True
    then have "i + 1 \<le> j \<and> j < stop \<and> j \<notin> used \<and> (\<forall>k. i + 1 \<le> k \<longrightarrow> k < j \<longrightarrow> k \<in> used)"
      using 1 by (subst (asm) find_free.simps[of used i stop]) auto
    then show ?thesis
      using True word_Suc_le[of i stop] by (auto simp: order_le_less)
  next
    case False
    then show ?thesis
      using 1(2) by (subst (asm) find_free.simps) (auto split: if_splits)
  qed
qed

lemma find_free_None: "find_free used i stop = None \<Longrightarrow> i \<le> k \<Longrightarrow> k < stop \<Longrightarrow> k \<in> used"
proof (induction used i stop rule: find_free.induct)
  case (1 used i stop)
  have i: "i < stop"
    using 1(3,4) by simp
  then have used: "i \<in> used" and rest: "find_free used (i + 1) stop = None"
    using 1(2) by (auto simp: find_free.simps[of used i stop] split: if_splits)
  show ?case
  proof (cases "i = k")
    case False
    then have "i + 1 \<le> k"
      using 1(3) word_Suc_le[OF i] by (simp add: order_le_less)
    then show ?thesis
      using 1 i used rest by blast
  qed (use used in auto)
qed

lemma pods_addrs: "block_ok c \<Longrightarrow> ipam_inv c p \<Longrightarrow> pods p = nb.addrs c (assigned p)"
  by (auto simp: pods_def is_assigned_def index_of_def ipam_inv_def nb.mem_addrs split: option.splits)

lemma index_in_None:
  assumes "block_ok c" "index_in c ip = None"
  shows "\<not> contains c ip"
  using assms nb.mem_nth nb.idx_eq by (metis option.distinct(1))

lemma usable_addrs:
  assumes "block_ok c" "ipam_inv c p"
  shows "usable c = nb.addrs c {2..}"
proof (rule set_eqI)
  fix ip
  have three: "(0 :: u128) < address_count c" "1 < address_count c"
    using assms(2) by (auto simp: ipam_inv_def word_le_nat_alt word_less_nat_alt)
  have c: "cidr_ok c"
    using assms(1) by (simp add: block_ok_def)
  have zero: "nth_address c 0 = Inr (network c)"
    using three by (cases "cidr_addr c") (auto simp: nth_address_def wrapping_offset_def network_def)
  note ix = nb.idx_eq[OF assms(1)]
  show "ip \<in> usable c \<longleftrightarrow> ip \<in> nb.addrs c {2..}"
  proof (cases "index_in c ip")
    case None
    then show ?thesis
      using index_in_None[OF assms(1) None] by (simp add: usable_def nb.mem_addrs[OF assms(1)])
  next
    case (Some i)
    have "ip = network c \<longleftrightarrow> i = 0"
      using Some zero three ix[of ip i] ix[of "network c" 0] by auto
    moreover have "nth_address c 1 = Inr ip \<longleftrightarrow> i = 1"
      using Some three ix[of ip i] ix[of ip 1] by auto
    moreover have "contains c ip"
      using Some nb.idx_outside[of c ip] by auto
    ultimately show ?thesis
      using Some by (simp add: usable_def nb.mem_addrs[OF assms(1)] two_le_u128)
  qed
qed

lemma ipam_new_inv: "PodIpam_new c = Inr p \<Longrightarrow> ipam_inv c p \<and> pods p = {}"
  by (auto simp: PodIpam_new_def Let_def ipam_inv_def pods_def is_assigned_def not_less
      split: if_splits sum.splits option.splits)

lemma ipam_step_inv: "ipam_inv c p \<Longrightarrow> ipam_inv c (fst (ipam_step p op'))"
proof (cases op')
  case Allocate
  assume "ipam_inv c p"
  then show ?thesis
    by (auto simp: Allocate ipam_step_def pod_allocate_def ipam_inv_def dest: find_free_Some split: option.split)
next
  case (Assign ip)
  assume "ipam_inv c p"
  then show ?thesis
    by (auto simp: Assign ipam_step_def pod_assign_def ipam_inv_def not_less split: option.split)
next
  case (Free ip)
  assume "ipam_inv c p"
  then show ?thesis
    by (auto simp: Free ipam_step_def pod_free_def ipam_inv_def split: option.split)
qed

lemma ipam_run_inv: "ipam_run c p \<Longrightarrow> ipam_inv c p"
  by (induction rule: ipam_run.induct) (auto simp: ipam_new_inv ipam_step_inv)

lemma pods_update:
  assumes "block_ok c" "ipam_inv c p" "\<forall>i \<in> I. 2 \<le> i"
  shows "pods (p\<lparr>assigned := I\<rparr>) = nb.addrs c I"
  using pods_addrs[of c "p\<lparr>assigned := I\<rparr>"] assms by (simp add: ipam_inv_def)

lemma allocate_refines:
  assumes ok: "block_ok c" and inv: "ipam_inv c p"
  shows "(pods (fst (ipam_step p Allocate)), snd (ipam_step p Allocate)) = pool_spec c (pods p) Allocate"
proof (cases "find_free (assigned p) 2 (address_count c)")
  case None
  then have "usable c - pods p = {}"
    using nb.none_free[OF ok] find_free_None[OF None] by (simp add: pods_addrs[OF ok inv] usable_addrs[OF ok inv])
  then show ?thesis
    using None inv by (simp add: ipam_step_def pod_allocate_def pool_spec_def ipam_inv_def)
next
  case (Some i)
  note i = find_free_Some[OF Some]
  obtain a where a: "nth_address c i = Inr a" "index_in c a = Some i"
    using nb.nth_mem[OF ok] i by blast
  have min: "a = Min (usable c - pods p)"
    using nb.lowest_free[OF ok _ _ _ _ a(1), of 2 "assigned p"] i
    by (simp add: pods_addrs[OF ok inv] usable_addrs[OF ok inv])
  have "a \<in> usable c" "a \<notin> pods p"
    using i a ok inv by (auto simp: usable_addrs pods_addrs nb.mem_addrs)
  then have "\<not> usable c \<subseteq> pods p"
    by auto
  moreover have "pods (p\<lparr>assigned := insert i (assigned p)\<rparr>) = insert a (pods p)"
    using pods_update[OF ok inv] inv i a nb.addrs_insert[OF ok a(2)]
    by (simp add: pods_addrs[OF ok inv] ipam_inv_def)
  ultimately show ?thesis
    using Some a inv min by (simp add: ipam_step_def pod_allocate_def pool_spec_def ipam_inv_def)
qed

lemma index_in_usable:
  assumes "block_ok c" "ipam_inv c p" "index_in c ip = Some i"
  shows "contains c ip" "ip \<in> usable c \<longleftrightarrow> 2 \<le> i" "ip \<in> pods p \<longleftrightarrow> i \<in> assigned p"
  using assms nb.idx_outside[of c ip] by (auto simp: usable_addrs pods_addrs nb.mem_addrs)

lemma assign_refines:
  assumes ok: "block_ok c" and inv: "ipam_inv c p"
  shows "(pods (fst (ipam_step p (Assign ip))), snd (ipam_step p (Assign ip))) = pool_spec c (pods p) (Assign ip)"
proof (cases "index_in c ip")
  case None
  then show ?thesis
    using index_in_None[OF ok None] inv
    by (simp add: ipam_step_def pod_assign_def index_of_def pool_spec_def ipam_inv_def)
next
  case (Some i)
  note ix = index_in_usable[OF ok inv Some]
  have "2 \<le> i \<Longrightarrow> pods (p\<lparr>assigned := insert i (assigned p)\<rparr>) = insert ip (pods p)"
    using pods_update[OF ok inv] inv nb.addrs_insert[OF ok Some]
    by (simp add: pods_addrs[OF ok inv] ipam_inv_def)
  then show ?thesis
    using Some ix inv
    by (auto simp: ipam_step_def pod_assign_def index_of_def pool_spec_def ipam_inv_def not_le not_less)
qed

lemma free_refines:
  assumes ok: "block_ok c" and inv: "ipam_inv c p"
  shows "(pods (fst (ipam_step p (Free ip))), snd (ipam_step p (Free ip))) = pool_spec c (pods p) (Free ip)"
proof (cases "index_in c ip")
  case None
  then show ?thesis
    using index_in_None[OF ok None] inv
    by (simp add: ipam_step_def pod_free_def index_of_def pool_spec_def ipam_inv_def)
next
  case (Some i)
  note ix = index_in_usable[OF ok inv Some]
  have "pods (p\<lparr>assigned := assigned p - {i}\<rparr>) = pods p - {ip}"
    using pods_update[OF ok inv] inv nb.addrs_remove[OF ok Some]
    by (simp add: pods_addrs[OF ok inv] ipam_inv_def)
  then show ?thesis
    using Some ix inv
    by (auto simp: ipam_step_def pod_free_def index_of_def pool_spec_def ipam_inv_def)
qed

lemmas ipam_refines = allocate_refines assign_refines free_refines

section \<open>Properties\<close>

text \<open>
  The address allocator of a node refines a pool of addresses: from any state reached by
  allocating, assigning and freeing, each operation changes the set of pod addresses, and answers or
  refuses, as the specification says. Allocation hands out the lowest usable address that no pod has
  and fails only when none is left; the network address and the gateway are never handed out, an
  assigned address is never given twice, and freeing returns exactly that address to the pool.
  (The last address of the block is usable.)
\<close>
theorem ipam_refines_pool:
  assumes "Cidr_new a q = Inr c" "q \<noteq> 0" "ipam_run c p"
  shows "(pods (fst (ipam_step p op')), snd (ipam_step p op')) = pool_spec c (pods p) op'"
proof -
  have "block_ok c"
    using Cidr_new_ok[OF assms(1)] assms(2) ip_width_le[of "cidr_addr c"] unat_gt_0[of q]
    by (simp add: block_ok_def host_bits_def)
  then show ?thesis
    using ipam_refines ipam_run_inv[OF assms(3)] by (cases op') blast+
qed

theorem ipam_refines_pool_witness:
  "\<exists>c p. Cidr_new (V4 0x0A2A0100) 24 = Inr c \<and> ipam_run c p \<and>
    (pods (fst (ipam_step p Allocate)), snd (ipam_step p Allocate)) = pool_spec c (pods p) Allocate"
proof -
  obtain c where c: "Cidr_new (V4 0x0A2A0100) 24 = Inr c"
    by (simp add: Cidr_new_def Let_def max_prefix_def)
  then have n: "address_count c = 256"
    by (auto simp: Cidr_new_def Let_def max_prefix_def address_count_def mask_addr_def shl_u128_def)
  then obtain p where "PodIpam_new c = Inr p"
    by (simp add: PodIpam_new_def nth_address_def word_le_nat_alt)
  then have "ipam_run c p"
    by (rule ipam_start)
  then show ?thesis
    using ipam_refines_pool[OF c] c by fastforce
qed

end
