(* ===== verification/Flannel_Subnet.thy ===== *)
theory Flannel_Subnet
  imports Flannel_Ipam "HOL-Library.Char_ord"
begin

text \<open>
  Leases of node subnets (\<open>cave-home-cni-flannel/src/subnet.rs\<close> and \<open>dualstack.rs\<close>): the manager
  carves the cluster block into subnets of one size and leases each node one of them; the dual-stack
  manager and allocator keep an IPv4 and an IPv6 instance in step.
\<close>

section \<open>The subnet manager\<close>

type_synonym NodeId = string

record SubnetLease =
  lease_node :: NodeId
  lease_subnet :: Cidr

datatype SubnetError =
    PrefixNotLonger u8 u8
  | Exhausted
  | AlreadyLeased NodeId Cidr
  | NotInCluster Cidr
  | SubnetTaken Cidr NodeId
  | SubnetError_Cidr CidrError
  | NoSuchLease NodeId

record SubnetManager =
  cluster :: Cidr
  node_prefix :: u8
  leases :: "(IpAddr, SubnetLease) btreemap"

definition SubnetManager_new :: "Cidr \<Rightarrow> u8 \<Rightarrow> SubnetError + SubnetManager" where
  "SubnetManager_new c np =
    (if np \<le> prefix_len c then Inl (PrefixNotLonger (prefix_len c) np)
     else if np > max_prefix (network c)
       then Inl (SubnetError_Cidr (PrefixTooLong np (max_prefix (network c))))
     else Inr \<lparr>cluster = c, node_prefix = np, leases = []\<rparr>)"

definition capacity :: "SubnetManager \<Rightarrow> u128" where
  "capacity m = shl_u128 1 (unat (node_prefix m - prefix_len (cluster m)))"

definition leased_count :: "SubnetManager \<Rightarrow> nat" where
  "leased_count m = length (leases m)"

definition is_exhausted :: "SubnetManager \<Rightarrow> bool" where
  "is_exhausted m = (leased_count m \<ge> unat (capacity m))"

definition lease_for :: "SubnetManager \<Rightarrow> NodeId \<Rightarrow> SubnetLease option" where
  "lease_for m node = find (\<lambda>l. lease_node l = node) (map snd (leases m))"

definition subnet_allocate :: "SubnetManager \<Rightarrow> NodeId \<Rightarrow> SubnetManager \<times> (SubnetError + SubnetLease)" where
  "subnet_allocate m node = (case lease_for m node of
     Some existing \<Rightarrow> (m, Inr existing)
   | None \<Rightarrow>
      (case subnets (cluster m) (node_prefix m) of
         Inl e \<Rightarrow> (m, Inl (SubnetError_Cidr e))
       | Inr it \<Rightarrow>
          (case iter_find (\<lambda>s. map_of (leases m) (network s) = None) it of
             None \<Rightarrow> (m, Inl Exhausted)
           | Some free \<Rightarrow>
              let lease = \<lparr>lease_node = node, lease_subnet = free\<rparr> in
              (m\<lparr>leases := bt_insert (network free) lease (leases m)\<rparr>, Inr lease))))"

definition subnet_reserve ::
  "SubnetManager \<Rightarrow> NodeId \<Rightarrow> Cidr \<Rightarrow> SubnetManager \<times> (SubnetError + SubnetLease)" where
  "subnet_reserve m node subnet =
    (if prefix_len subnet \<noteq> node_prefix m \<or> \<not> contains (cluster m) (network subnet)
     then (m, Inl (NotInCluster subnet))
     else case map_of (leases m) (network subnet) of
       Some holder \<Rightarrow>
         if lease_node holder = node then (m, Inr holder)
         else (m, Inl (SubnetTaken subnet (lease_node holder)))
     | None \<Rightarrow>
        (case lease_for m node of
           Some existing \<Rightarrow> (m, Inl (AlreadyLeased node (lease_subnet existing)))
         | None \<Rightarrow>
            let lease = \<lparr>lease_node = node, lease_subnet = subnet\<rparr> in
            (m\<lparr>leases := bt_insert (network subnet) lease (leases m)\<rparr>, Inr lease)))"

definition subnet_release :: "SubnetManager \<Rightarrow> NodeId \<Rightarrow> SubnetManager \<times> (SubnetError + SubnetLease)" where
  "subnet_release m node = (case find (\<lambda>e. lease_node (snd e) = node) (leases m) of
     None \<Rightarrow> (m, Inl (NoSuchLease node))
   | Some e \<Rightarrow>
      (case map_of (leases m) (fst e) of
         None \<Rightarrow> (m, Inl (NoSuchLease node))
       | Some l \<Rightarrow> (m\<lparr>leases := bt_remove (fst e) (leases m)\<rparr>, Inr l)))"

definition node_subnet_map :: "SubnetManager \<Rightarrow> (NodeId, Cidr) btreemap" where
  "node_subnet_map m = fold (\<lambda>l acc. bt_insert (lease_node l) (lease_subnet l) acc) (map snd (leases m)) []"

section \<open>Dual stack\<close>

record DualStackLease =
  dsl_node :: NodeId
  dsl_v4 :: Cidr
  dsl_v6 :: Cidr

record DualStackAddr =
  addr_v4 :: IpAddr
  addr_v6 :: IpAddr

datatype DualStackError =
    DualStack_FamilyMismatch
  | V4Subnet SubnetError
  | V6Subnet SubnetError
  | V4Ipam IpamError
  | V6Ipam IpamError

record DualStackSubnetManager =
  mgr_v4 :: SubnetManager
  mgr_v6 :: SubnetManager

definition DualStackSubnetManager_new ::
  "Cidr \<Rightarrow> u8 \<Rightarrow> Cidr \<Rightarrow> u8 \<Rightarrow> DualStackError + DualStackSubnetManager" where
  "DualStackSubnetManager_new v4_cluster v4_node_prefix v6_cluster v6_node_prefix =
    (if \<not> is_ipv4 v4_cluster \<or> \<not> is_ipv6 v6_cluster then Inl DualStack_FamilyMismatch
     else case SubnetManager_new v4_cluster v4_node_prefix of
       Inl e \<Rightarrow> Inl (V4Subnet e)
     | Inr a \<Rightarrow>
        (case SubnetManager_new v6_cluster v6_node_prefix of
           Inl e \<Rightarrow> Inl (V6Subnet e)
         | Inr b \<Rightarrow> Inr \<lparr>mgr_v4 = a, mgr_v6 = b\<rparr>))"

definition dual_allocate ::
  "DualStackSubnetManager \<Rightarrow> NodeId \<Rightarrow> DualStackSubnetManager \<times> (DualStackError + DualStackLease)" where
  "dual_allocate d node =
    (let v4_preexisting = lease_for (mgr_v4 d) node \<noteq> None in
     case subnet_allocate (mgr_v4 d) node of
       (a, Inl e) \<Rightarrow> (d\<lparr>mgr_v4 := a\<rparr>, Inl (V4Subnet e))
     | (a, Inr l4) \<Rightarrow>
        (case subnet_allocate (mgr_v6 d) node of
           (b, Inl e) \<Rightarrow>
             (let a' = (if \<not> v4_preexisting then fst (subnet_release a node) else a) in
              (d\<lparr>mgr_v4 := a', mgr_v6 := b\<rparr>, Inl (V6Subnet e)))
         | (b, Inr l6) \<Rightarrow>
             (d\<lparr>mgr_v4 := a, mgr_v6 := b\<rparr>,
              Inr \<lparr>dsl_node = node, dsl_v4 = lease_subnet l4, dsl_v6 = lease_subnet l6\<rparr>)))"

definition dual_release ::
  "DualStackSubnetManager \<Rightarrow> NodeId \<Rightarrow> DualStackSubnetManager \<times> (DualStackError + DualStackLease)" where
  "dual_release d node =
    (case subnet_release (mgr_v4 d) node of
       (a, Inl e) \<Rightarrow> (d\<lparr>mgr_v4 := a\<rparr>, Inl (V4Subnet e))
     | (a, Inr l4) \<Rightarrow>
        (case subnet_release (mgr_v6 d) node of
           (b, Inl e) \<Rightarrow> (d\<lparr>mgr_v4 := a, mgr_v6 := b\<rparr>, Inl (V6Subnet e))
         | (b, Inr l6) \<Rightarrow>
             (d\<lparr>mgr_v4 := a, mgr_v6 := b\<rparr>,
              Inr \<lparr>dsl_node = node, dsl_v4 = lease_subnet l4, dsl_v6 = lease_subnet l6\<rparr>)))"

definition dual_lease_for :: "DualStackSubnetManager \<Rightarrow> NodeId \<Rightarrow> DualStackLease option" where
  "dual_lease_for d node = (case lease_for (mgr_v4 d) node of
     None \<Rightarrow> None
   | Some l4 \<Rightarrow>
      (case lease_for (mgr_v6 d) node of
         None \<Rightarrow> None
       | Some l6 \<Rightarrow> Some \<lparr>dsl_node = node, dsl_v4 = lease_subnet l4, dsl_v6 = lease_subnet l6\<rparr>))"

record DualStackIpam =
  ipam_v4 :: PodIpam
  ipam_v6 :: PodIpam

definition DualStackIpam_new :: "Cidr \<Rightarrow> Cidr \<Rightarrow> DualStackError + DualStackIpam" where
  "DualStackIpam_new v4_subnet v6_subnet =
    (if \<not> is_ipv4 v4_subnet \<or> \<not> is_ipv6 v6_subnet then Inl DualStack_FamilyMismatch
     else case PodIpam_new v4_subnet of
       Inl e \<Rightarrow> Inl (V4Ipam e)
     | Inr a \<Rightarrow>
        (case PodIpam_new v6_subnet of
           Inl e \<Rightarrow> Inl (V6Ipam e)
         | Inr b \<Rightarrow> Inr \<lparr>ipam_v4 = a, ipam_v6 = b\<rparr>))"

definition dual_pod_allocate :: "DualStackIpam \<Rightarrow> DualStackIpam \<times> (DualStackError + DualStackAddr)" where
  "dual_pod_allocate d = (case pod_allocate (ipam_v4 d) of
     (a, Inl e) \<Rightarrow> (d\<lparr>ipam_v4 := a\<rparr>, Inl (V4Ipam e))
   | (a, Inr a4) \<Rightarrow>
      (case pod_allocate (ipam_v6 d) of
         (b, Inl e) \<Rightarrow> (d\<lparr>ipam_v4 := fst (pod_free a a4), ipam_v6 := b\<rparr>, Inl (V6Ipam e))
       | (b, Inr a6) \<Rightarrow> (d\<lparr>ipam_v4 := a, ipam_v6 := b\<rparr>, Inr \<lparr>addr_v4 = a4, addr_v6 = a6\<rparr>)))"

definition dual_pod_free :: "DualStackIpam \<Rightarrow> DualStackAddr \<Rightarrow> DualStackIpam \<times> (DualStackError + unit)" where
  "dual_pod_free d addr = (case pod_free (ipam_v4 d) (addr_v4 addr) of
     (a, Inl e) \<Rightarrow> (d\<lparr>ipam_v4 := a\<rparr>, Inl (V4Ipam e))
   | (a, Inr _) \<Rightarrow>
      (case pod_free (ipam_v6 d) (addr_v6 addr) of
         (b, Inl e) \<Rightarrow> (d\<lparr>ipam_v4 := a, ipam_v6 := b\<rparr>, Inl (V6Ipam e))
       | (b, Inr _) \<Rightarrow> (d\<lparr>ipam_v4 := a, ipam_v6 := b\<rparr>, Inr ())))"

end
