(* ===== verification/Flannel_Leases.thy ===== *)
theory Flannel_Leases
  imports Flannel_Subnet
begin

text \<open>
  What the lease manager promises: it refines a map from nodes to subnets (\<open>lease_spec\<close>), the leases
  of different nodes share no address, and dual-stack leases come in pairs.
\<close>

section \<open>The subnets a cluster can lease\<close>

definition node_subnets :: "Cidr \<Rightarrow> u8 \<Rightarrow> Cidr set" where
  "node_subnets c np = {s. cidr_ok s \<and> prefix_len s = np \<and> contains c (network s)}"

definition pool_ok :: "Cidr \<Rightarrow> u8 \<Rightarrow> bool" where
  "pool_ok c np \<longleftrightarrow> cidr_ok c \<and> unat (prefix_len c) < unat np \<and> unat np \<le> ip_width (network c) \<and>
     unat np - unat (prefix_len c) < 128"

lemma pool_subnets: "pool_ok c np \<Longrightarrow> \<exists>it. subnets c np = Inr it"
  by (simp add: pool_ok_def subnets_Inr prefix_len_def network_def)

lemma same_size_blocks_eq:
  assumes "cidr_ok s" "cidr_ok t" "cidr_prefix s = cidr_prefix t" "contains s ip" "contains t ip"
  shows "s = t"
proof -
  have w: "ip_width (cidr_addr s) = ip_width (cidr_addr t)"
    using assms(4,5) by (auto simp: contains_mask)
  then have hb: "host_bits s = host_bits t"
    using assms(3) by (simp add: host_bits_def)
  have "contains s (network t)" "contains t (network s)"
    using larger_block_contains assms hb by simp_all
  then have "ip_val (cidr_addr s) = ip_val (cidr_addr t)"
    using assms(1,2) by (simp add: contains_interval network_def)
  then show ?thesis
    using w assms(3) ip_eqI Cidr.expand by blast
qed

lemma node_subnets_network_inj:
  assumes "s \<in> node_subnets c np" "t \<in> node_subnets c np" "network s = network t"
  shows "s = t"
  using assms by (auto simp: node_subnets_def network_def prefix_len_def intro: Cidr.expand)

lemma subnet_at_mem:
  assumes "pool_ok c np" "subnets c np = Inr it" "i < 2 ^ (unat np - unat (cidr_prefix c))"
  shows "subnet_at it i \<in> node_subnets c np"
proof -
  have c: "cidr_ok c"
    using assms(1) by (simp add: pool_ok_def)
  note v = subnet_at_val[OF c assms(2,3)]
  then have "contains (subnet_at it i) (network (subnet_at it i))"
    by (simp add: network_in_block)
  then show ?thesis
    using v subnet_of_address[OF c assms(2)] assms(3) by (auto simp: node_subnets_def prefix_len_def)
qed

lemma set_iter_collect:
  assumes "pool_ok c np" "subnets c np = Inr it"
  shows "set (iter_collect it) = node_subnets c np"
proof -
  let ?d = "unat np - unat (cidr_prefix c)"
  have c: "cidr_ok c" "?d < 128"
    using assms(1) by (auto simp: pool_ok_def prefix_len_def)
  have "s \<in> subnet_at it ` {0..<2 ^ ?d}" if s: "s \<in> node_subnets c np" for s
  proof -
    obtain i where i: "i < 2 ^ ?d" "contains (subnet_at it i) (network s)"
      using s subnet_of_address[OF c(1) assms(2), of "network s"] by (auto simp: node_subnets_def)
    moreover have "contains s (network s)"
      using s network_in_block by (simp add: node_subnets_def)
    ultimately have "s = subnet_at it i"
      using same_size_blocks_eq[of s "subnet_at it i"] subnet_at_val[OF c(1) assms(2) i(1)] s
      by (auto simp: node_subnets_def prefix_len_def)
    then show ?thesis
      using i by auto
  qed
  then show ?thesis
    using subnet_at_mem[OF assms] by (auto simp: subnets_collect[OF assms(2) c(2)])
qed

lemma node_subnet_inside:
  assumes "pool_ok c np" "s \<in> node_subnets c np" "contains s ip"
  shows "contains c ip"
proof -
  have c: "cidr_ok c" "unat np - unat (cidr_prefix c) < 128"
    using assms(1) by (auto simp: pool_ok_def prefix_len_def)
  obtain it where it: "subnets c np = Inr it"
    using pool_subnets[OF assms(1)] by auto
  have "s \<in> set (map (subnet_at it) [0..<2 ^ (unat np - unat (cidr_prefix c))])"
    using assms(2) set_iter_collect[OF assms(1) it] subnets_collect[OF it c(2)] by simp
  then obtain i where "i < 2 ^ (unat np - unat (cidr_prefix c))" "s = subnet_at it i"
    by auto
  then show ?thesis
    using subnet_of_address[OF c(1) it] assms(3) by blast
qed

lemma iter_collect_sorted:
  assumes "pool_ok c np" "subnets c np = Inr it"
  shows "sorted_wrt (<) (iter_collect it)"
proof -
  let ?d = "unat np - unat (cidr_prefix c)"
  have c: "cidr_ok c" "?d < 128"
    using assms(1) by (auto simp: pool_ok_def prefix_len_def)
  have "subnet_at it i < subnet_at it j" if "i < j" "j < 2 ^ ?d" for i j
  proof -
    have i: "i < 2 ^ ?d" using that by simp
    have "cidr_addr (subnet_at it i) < cidr_addr (subnet_at it j)"
      using subnet_at_val[OF c(1) assms(2) i] subnet_at_val[OF c(1) assms(2) that(2)] that(1)
      by (simp add: ip_less_iff)
    then show ?thesis
      by (auto simp: less_Cidr_def less_eq_Cidr_def)
  qed
  then show ?thesis
    unfolding subnets_collect[OF assms(2) c(2)] sorted_wrt_map
    by (auto simp: sorted_wrt_iff_nth_less)
qed

lemma find_sorted_Min:
  fixes xs :: "'a::linorder list"
  assumes "sorted_wrt (<) xs" "find P xs = Some x"
  shows "x = Min {y \<in> set xs. P y}"
  using assms
proof (induction xs)
  case (Cons y ys)
  show ?case
  proof (cases "P y")
    case True
    then have "Min {z \<in> set (y # ys). P z} = y"
      using Cons.prems by (intro Min_eqI) auto
    then show ?thesis
      using True Cons.prems by simp
  next
    case False
    then have "{z \<in> set (y # ys). P z} = {z \<in> set ys. P z}"
      by auto
    then show ?thesis
      using False Cons by simp
  qed
qed simp

lemma card_node_subnets: "pool_ok c np \<Longrightarrow> card (node_subnets c np) = 2 ^ (unat np - unat (prefix_len c))"
proof -
  assume ok: "pool_ok c np"
  obtain it where it: "subnets c np = Inr it"
    using pool_subnets[OF ok] by auto
  have "distinct (iter_collect it)"
    using iter_collect_sorted[OF ok it] strict_sorted_iff by blast
  then have "card (node_subnets c np) = length (iter_collect it)"
    using set_iter_collect[OF ok it] distinct_card by fastforce
  then show ?thesis
    using ok by (simp add: subnets_collect[OF it] pool_ok_def prefix_len_def)
qed

section \<open>The lease table as a map\<close>

datatype LeaseOp = LeaseAllocate NodeId | LeaseReserve NodeId Cidr | LeaseRelease NodeId

definition lease_step :: "SubnetManager \<Rightarrow> LeaseOp \<Rightarrow> SubnetManager \<times> (SubnetError + SubnetLease)" where
  "lease_step m op' = (case op' of
     LeaseAllocate node \<Rightarrow> subnet_allocate m node
   | LeaseReserve node s \<Rightarrow> subnet_reserve m node s
   | LeaseRelease node \<Rightarrow> subnet_release m node)"

text \<open>A \<open>Cidr\<close> value outside its module was built by \<open>Cidr::new\<close>; an operation only sees such values.\<close>

fun lease_op_ok :: "LeaseOp \<Rightarrow> bool" where
  "lease_op_ok (LeaseReserve node s) \<longleftrightarrow> Cidr_new (network s) (prefix_len s) = Inr s"
| "lease_op_ok _ \<longleftrightarrow> True"

inductive mgr_run :: "Cidr \<Rightarrow> u8 \<Rightarrow> SubnetManager \<Rightarrow> bool" for c np where
  mgr_start: "SubnetManager_new c np = Inr m \<Longrightarrow> mgr_run c np m"
| mgr_more: "mgr_run c np m \<Longrightarrow> lease_op_ok op' \<Longrightarrow> mgr_run c np (fst (lease_step m op'))"

definition holder :: "SubnetManager \<Rightarrow> NodeId \<rightharpoonup> Cidr" where
  "holder m node = map_option lease_subnet (lease_for m node)"

definition lease_spec ::
  "Cidr \<Rightarrow> u8 \<Rightarrow> (NodeId \<rightharpoonup> Cidr) \<Rightarrow> LeaseOp \<Rightarrow> (NodeId \<rightharpoonup> Cidr) \<times> (SubnetError + SubnetLease)" where
  "lease_spec c np L op' = (case op' of
     LeaseAllocate node \<Rightarrow>
       (case L node of
          Some s \<Rightarrow> (L, Inr \<lparr>lease_node = node, lease_subnet = s\<rparr>)
        | None \<Rightarrow> if node_subnets c np \<subseteq> ran L then (L, Inl Exhausted)
            else let s = Min (node_subnets c np - ran L)
                 in (L(node \<mapsto> s), Inr \<lparr>lease_node = node, lease_subnet = s\<rparr>))
   | LeaseReserve node s \<Rightarrow>
       if s \<notin> node_subnets c np then (L, Inl (NotInCluster s))
       else if L node = Some s then (L, Inr \<lparr>lease_node = node, lease_subnet = s\<rparr>)
       else if s \<in> ran L then (L, Inl (SubnetTaken s (THE n. L n = Some s)))
       else (case L node of
          Some s' \<Rightarrow> (L, Inl (AlreadyLeased node s'))
        | None \<Rightarrow> (L(node \<mapsto> s), Inr \<lparr>lease_node = node, lease_subnet = s\<rparr>))
   | LeaseRelease node \<Rightarrow>
       (case L node of
          None \<Rightarrow> (L, Inl (NoSuchLease node))
        | Some s \<Rightarrow> (L(node := None), Inr \<lparr>lease_node = node, lease_subnet = s\<rparr>)))"

definition mgr_inv :: "Cidr \<Rightarrow> u8 \<Rightarrow> SubnetManager \<Rightarrow> bool" where
  "mgr_inv c np m \<longleftrightarrow> cluster m = c \<and> node_prefix m = np \<and> bt_ok (leases m) \<and>
     (\<forall>k l. map_of (leases m) k = Some l \<longrightarrow> k = network (lease_subnet l) \<and> lease_subnet l \<in> node_subnets c np) \<and>
     (\<forall>k l k' l'. map_of (leases m) k = Some l \<longrightarrow> map_of (leases m) k' = Some l' \<longrightarrow>
        lease_node l = lease_node l' \<longrightarrow> k = k')"

lemma mgr_inv_lease:
  assumes "mgr_inv c np m" "map_of (leases m) k = Some l"
  shows "k = network (lease_subnet l)" "lease_subnet l \<in> node_subnets c np"
  using assms unfolding mgr_inv_def by blast+

lemma in_set_bt: "bt_ok m \<Longrightarrow> (k, v) \<in> set m \<longleftrightarrow> map_of m k = Some v"
  using bt_ok_distinct map_of_SomeD map_of_is_SomeI by metis

lemma lease_for_iff:
  assumes "mgr_inv c np m"
  shows "lease_for m n = Some l \<longleftrightarrow> lease_node l = n \<and> (\<exists>k. map_of (leases m) k = Some l)"
proof
  have bt: "bt_ok (leases m)"
    using assms by (simp add: mgr_inv_def)
  {
    assume l: "lease_for m n = Some l"
    then have "lease_node l = n" "l \<in> snd ` set (leases m)"
      using find_SomeD[OF l[unfolded lease_for_def]] by simp_all
    then show "lease_node l = n \<and> (\<exists>k. map_of (leases m) k = Some l)"
      using in_set_bt[OF bt] by (metis imageE prod.collapse)
  next
    assume l: "lease_node l = n \<and> (\<exists>k. map_of (leases m) k = Some l)"
    then have "l \<in> set (map snd (leases m))"
      using in_set_bt[OF bt] by force
    then obtain l' where l': "lease_for m n = Some l'"
      using l find_eq_None[of "\<lambda>l. lease_node l = n" "map snd (leases m)"] unfolding lease_for_def by blast
    then obtain k' where "map_of (leases m) k' = Some l'" "lease_node l' = n"
      using in_set_bt[OF bt] by (auto simp: lease_for_def dest!: find_SomeD)
    then have "l' = l"
      using assms l unfolding mgr_inv_def by (metis option.inject)
    then show "lease_for m n = Some l"
      using l' by simp
  }
qed

lemma lease_eqI: "lease_node l = n \<Longrightarrow> lease_subnet l = s \<Longrightarrow> l = \<lparr>lease_node = n, lease_subnet = s\<rparr>"
  by simp

lemma holder_iff:
  assumes "mgr_inv c np m"
  shows "holder m n = Some s \<longleftrightarrow> map_of (leases m) (network s) = Some \<lparr>lease_node = n, lease_subnet = s\<rparr>"
proof
  assume "holder m n = Some s"
  then obtain l where l: "lease_for m n = Some l" "lease_subnet l = s"
    by (auto simp: holder_def)
  then obtain k where "map_of (leases m) k = Some l" "lease_node l = n"
    using lease_for_iff[OF assms] by auto
  then show "map_of (leases m) (network s) = Some \<lparr>lease_node = n, lease_subnet = s\<rparr>"
    using assms l lease_eqI by (auto simp: mgr_inv_def)
next
  assume "map_of (leases m) (network s) = Some \<lparr>lease_node = n, lease_subnet = s\<rparr>"
  then have "lease_for m n = Some \<lparr>lease_node = n, lease_subnet = s\<rparr>"
    using lease_for_iff[OF assms] by auto
  then show "holder m n = Some s"
    by (simp add: holder_def)
qed

lemma lease_for_holder:
  assumes "mgr_inv c np m"
  shows "lease_for m n = map_option (\<lambda>s. \<lparr>lease_node = n, lease_subnet = s\<rparr>) (holder m n)"
proof (cases "lease_for m n")
  case (Some l)
  then have "lease_node l = n"
    using lease_for_iff[OF assms] by blast
  then show ?thesis
    using Some lease_eqI by (auto simp: holder_def)
qed (simp add: holder_def)

lemma ran_holder_iff:
  assumes "mgr_inv c np m" "s \<in> node_subnets c np"
  shows "s \<in> ran (holder m) \<longleftrightarrow> map_of (leases m) (network s) \<noteq> None"
proof -
  have "lease_subnet l = s" if "map_of (leases m) (network s) = Some l" for l
    using assms that node_subnets_network_inj unfolding mgr_inv_def by metis
  then have "map_of (leases m) (network s) \<noteq> None \<longleftrightarrow>
    (\<exists>n. map_of (leases m) (network s) = Some \<lparr>lease_node = n, lease_subnet = s\<rparr>)"
    using lease_eqI[OF refl] by (cases "map_of (leases m) (network s)") fastforce+
  then show ?thesis
    using holder_iff[OF assms(1), of _ s] by (simp add: ran_def)
qed

lemma holder_ran_subset: "mgr_inv c np m \<Longrightarrow> ran (holder m) \<subseteq> node_subnets c np"
proof
  fix s
  assume inv: "mgr_inv c np m" and "s \<in> ran (holder m)"
  then obtain n where "map_of (leases m) (network s) = Some \<lparr>lease_node = n, lease_subnet = s\<rparr>"
    using holder_iff[OF inv, of _ s] by (auto simp: ran_def)
  then show "s \<in> node_subnets c np"
    using mgr_inv_lease(2)[OF inv] by fastforce
qed

lemma lease_insert:
  assumes inv: "mgr_inv c np m" and s: "s \<in> node_subnets c np" "s \<notin> ran (holder m)" and n: "holder m n = None"
  shows "mgr_inv c np (m\<lparr>leases := bt_insert (network s) \<lparr>lease_node = n, lease_subnet = s\<rparr> (leases m)\<rparr>) \<and>
    holder (m\<lparr>leases := bt_insert (network s) \<lparr>lease_node = n, lease_subnet = s\<rparr> (leases m)\<rparr>) = (holder m)(n \<mapsto> s)"
    (is "mgr_inv c np ?m \<and> _")
proof -
  have fresh: "map_of (leases m) k = Some l \<Longrightarrow> lease_node l \<noteq> n \<and> k \<noteq> network s" for k l
    using n lease_for_iff[OF inv, of n l] ran_holder_iff[OF inv s(1)] s(2) by (auto simp: holder_def)
  then have inv': "mgr_inv c np ?m"
    using inv s(1) unfolding mgr_inv_def
    by (simp add: bt.get_insert bt.ok_insert) (metis option.inject)
  moreover have "holder ?m x = ((holder m)(n \<mapsto> s)) x" for x
  proof (rule option_eqI)
    fix t
    show "holder ?m x = Some t \<longleftrightarrow> ((holder m)(n \<mapsto> s)) x = Some t"
      using fresh holder_iff[OF inv, of x t] n node_subnets_network_inj
      by (auto simp: holder_iff[OF inv'] bt.get_insert)
  qed
  ultimately show ?thesis by auto
qed

lemma lease_remove:
  assumes inv: "mgr_inv c np m" and n: "holder m n = Some s"
  shows "mgr_inv c np (m\<lparr>leases := bt_remove (network s) (leases m)\<rparr>) \<and>
    holder (m\<lparr>leases := bt_remove (network s) (leases m)\<rparr>) = (holder m)(n := None)"
    (is "mgr_inv c np ?m \<and> _")
proof -
  have inv': "mgr_inv c np ?m"
    using inv unfolding mgr_inv_def by (simp add: bt.get_remove bt.ok_remove)
  moreover have "holder ?m x = ((holder m)(n := None)) x" for x
  proof (rule option_eqI)
    fix t
    show "holder ?m x = Some t \<longleftrightarrow> ((holder m)(n := None)) x = Some t"
      using holder_iff[OF inv, of x t] holder_iff[OF inv, of n s] n
      by (auto simp: holder_iff[OF inv'] bt.get_remove)
  qed
  ultimately show ?thesis by auto
qed

section \<open>Refinement\<close>

lemma mgr_new_inv: "SubnetManager_new c np = Inr m \<Longrightarrow> mgr_inv c np m"
  by (auto simp: SubnetManager_new_def mgr_inv_def bt_ok_def split: if_splits)

lemma mgr_new_pool:
  assumes "SubnetManager_new c np = Inr m" "cidr_ok c" "\<not> (prefix_len c = 0 \<and> np = 128)"
  shows "pool_ok c np"
proof -
  have le: "unat (prefix_len c) < unat np" "unat np \<le> ip_width (network c)"
    using assms(1) by (auto simp: SubnetManager_new_def word_le_nat_alt word_less_nat_alt unat_max_prefix split: if_splits)
  moreover have "0 < unat (prefix_len c) \<or> unat np \<noteq> 128"
  proof (cases "np = 128")
    case True
    then show ?thesis using assms(3) by (simp add: unat_gt_0)
  next
    case False
    then have "unat np \<noteq> unat (128 :: u8)" by (simp only: word_unat_eq_iff [symmetric] not_False_eq_True)
    then show ?thesis by simp
  qed
  ultimately have "unat np - unat (prefix_len c) < 128"
    using ip_width_le[of "network c"] by linarith
  then show ?thesis
    using le assms(2) by (simp add: pool_ok_def)
qed

lemma cluster_inv: "mgr_inv c np m \<Longrightarrow> cluster m = c" "mgr_inv c np m \<Longrightarrow> node_prefix m = np"
  by (simp_all add: mgr_inv_def)

definition refines_step :: "Cidr \<Rightarrow> u8 \<Rightarrow> SubnetManager \<Rightarrow> LeaseOp \<Rightarrow> bool" where
  "refines_step c np m op' \<longleftrightarrow> mgr_inv c np (fst (lease_step m op')) \<and>
     (holder (fst (lease_step m op')), snd (lease_step m op')) = lease_spec c np (holder m) op'"

lemma allocate_lease_refines:
  assumes ok: "pool_ok c np" and inv: "mgr_inv c np m"
  shows "refines_step c np m (LeaseAllocate n)"
proof (cases "holder m n")
  case (Some s)
  then show ?thesis
    using inv by (simp add: refines_step_def lease_step_def subnet_allocate_def lease_spec_def lease_for_holder)
next
  case None
  obtain it where it: "subnets c np = Inr it"
    using pool_subnets[OF ok] by auto
  let ?free = "\<lambda>s. map_of (leases m) (network s) = None"
  have free: "{s \<in> set (iter_collect it). ?free s} = node_subnets c np - ran (holder m)"
    using ran_holder_iff[OF inv] by (auto simp: set_iter_collect[OF ok it])
  note unfolds = refines_step_def lease_step_def subnet_allocate_def lease_spec_def lease_for_holder[OF inv]
    cluster_inv[OF inv] it iter_find_collect None
  show ?thesis
  proof (cases "find ?free (iter_collect it)")
    assume none: "find ?free (iter_collect it) = None"
    then have "node_subnets c np \<subseteq> ran (holder m)"
      by (auto simp: find_eq_None set_iter_collect[OF ok it] ran_holder_iff[OF inv])
    then show ?thesis
      using none inv by (simp add: unfolds)
  next
    fix s
    assume some: "find ?free (iter_collect it) = Some s"
    then have s: "s = Min (node_subnets c np - ran (holder m))"
      using find_sorted_Min[OF iter_collect_sorted[OF ok it] some] free by simp
    have mem: "s \<in> node_subnets c np - ran (holder m)"
      using find_SomeD[OF some] free by auto
    then have "\<not> node_subnets c np \<subseteq> ran (holder m)"
      by auto
    moreover have "mgr_inv c np (m\<lparr>leases := bt_insert (network s) \<lparr>lease_node = n, lease_subnet = s\<rparr> (leases m)\<rparr>)"
      "holder (m\<lparr>leases := bt_insert (network s) \<lparr>lease_node = n, lease_subnet = s\<rparr> (leases m)\<rparr>) = (holder m)(n \<mapsto> s)"
      using lease_insert[OF inv _ _ None, of s] mem by auto
    ultimately show ?thesis
      using some by (simp add: unfolds Let_def flip: s)
  qed
qed

lemma reserve_lease_refines:
  assumes inv: "mgr_inv c np m" and op: "lease_op_ok (LeaseReserve n s)"
  shows "refines_step c np m (LeaseReserve n s)"
proof -
  note unfolds = refines_step_def lease_step_def subnet_reserve_def lease_spec_def lease_for_holder[OF inv]
    cluster_inv[OF inv]
  have "cidr_ok s"
    using op Cidr_new_ok by auto
  then have mem: "s \<in> node_subnets c np \<longleftrightarrow> prefix_len s = np \<and> contains c (network s)"
    by (simp add: node_subnets_def)
  consider (outside) "s \<notin> node_subnets c np"
    | (held) l where "s \<in> node_subnets c np" "map_of (leases m) (network s) = Some l"
    | (free) "s \<in> node_subnets c np" "map_of (leases m) (network s) = None"
    by (cases "map_of (leases m) (network s)") auto
  then show ?thesis
  proof cases
    case outside
    then show ?thesis
      using inv mem by (simp add: unfolds)
  next
    case held
    have l: "l = \<lparr>lease_node = lease_node l, lease_subnet = s\<rparr>"
      using mgr_inv_lease[OF inv held(2)] held(1) node_subnets_network_inj lease_eqI by metis
    have hold: "holder m x = Some s \<longleftrightarrow> x = lease_node l" for x
      using holder_iff[OF inv, of x s] held(2) l by (metis SubnetLease.select_convs(1) option.inject)
    then have "(THE x. holder m x = Some s) = lease_node l" "s \<in> ran (holder m)"
      by (auto simp: ran_def)
    then show ?thesis
      using held mem inv hold[of n] l by (simp add: unfolds)
  next
    case free
    then have nran: "s \<notin> ran (holder m)"
      using ran_holder_iff[OF inv] by simp
    then have "holder m n \<noteq> Some s"
      by (auto simp: ran_def)
    then show ?thesis
      using free mem inv nran lease_insert[OF inv free(1) nran, of n]
      by (auto simp: unfolds Let_def split: option.splits)
  qed
qed

lemma release_lease_refines:
  assumes inv: "mgr_inv c np m"
  shows "refines_step c np m (LeaseRelease n)"
proof -
  note unfolds = refines_step_def lease_step_def subnet_release_def lease_spec_def
  have bt: "bt_ok (leases m)"
    using inv by (simp add: mgr_inv_def)
  show ?thesis
  proof (cases "find (\<lambda>e. lease_node (snd e) = n) (leases m)")
    case None
    have "holder m n = None"
    proof (rule ccontr)
      assume "holder m n \<noteq> None"
      then obtain s where "(network s, \<lparr>lease_node = n, lease_subnet = s\<rparr>) \<in> set (leases m)"
        using holder_iff[OF inv] in_set_bt[OF bt] by blast
      then show False
        using None[unfolded find_eq_None] by force
    qed
    then show ?thesis
      using None inv by (simp add: unfolds)
  next
    case (Some e)
    obtain k l where e: "e = (k, l)" by (cases e)
    have l: "map_of (leases m) k = Some l" "lease_node l = n"
      using find_SomeD[OF Some] in_set_bt[OF bt] e by auto
    have k: "k = network (lease_subnet l)" "l = \<lparr>lease_node = n, lease_subnet = lease_subnet l\<rparr>"
      using mgr_inv_lease(1)[OF inv l(1)] lease_eqI[OF l(2) refl] by auto
    then have h: "holder m n = Some (lease_subnet l)"
      using holder_iff[OF inv] l(1) by metis
    show ?thesis
      using Some e l k lease_remove[OF inv h] h by (simp add: unfolds)
  qed
qed

lemma lease_step_refines:
  assumes "pool_ok c np" "mgr_inv c np m" "lease_op_ok op'"
  shows "refines_step c np m op'"
  using assms allocate_lease_refines reserve_lease_refines release_lease_refines by (cases op') auto

lemma mgr_run_inv: "mgr_run c np m \<Longrightarrow> cidr_ok c \<Longrightarrow> \<not> (prefix_len c = 0 \<and> np = 128) \<Longrightarrow> pool_ok c np \<and> mgr_inv c np m"
proof (induction rule: mgr_run.induct)
  case (mgr_start m)
  then show ?case
    using mgr_new_inv mgr_new_pool by blast
next
  case (mgr_more m op')
  then show ?case
    using lease_step_refines by (auto simp: refines_step_def)
qed

lemma bt_card: "bt_ok m \<Longrightarrow> card (dom (map_of m)) = length m"
  using bt_ok_distinct[of m] distinct_card[of "map fst m"] by (simp add: dom_map_of_conv_image_fst)

lemma leased_count_ran:
  assumes "mgr_inv c np m"
  shows "leased_count m = card (ran (holder m))"
proof -
  have bt: "bt_ok (leases m)"
    using assms by (simp add: mgr_inv_def)
  have "network ` ran (holder m) = dom (map_of (leases m))"
  proof
    show "network ` ran (holder m) \<subseteq> dom (map_of (leases m))"
      using holder_iff[OF assms] by (auto simp: ran_def)
    show "dom (map_of (leases m)) \<subseteq> network ` ran (holder m)"
    proof
      fix k assume "k \<in> dom (map_of (leases m))"
      then obtain l where l: "map_of (leases m) k = Some l" by auto
      note k = mgr_inv_lease[OF assms l]
      then have "lease_subnet l \<in> ran (holder m)"
        using ran_holder_iff[OF assms k(2)] l by simp
      then show "k \<in> network ` ran (holder m)"
        using k by blast
    qed
  qed
  moreover have "inj_on network (ran (holder m))"
    using holder_ran_subset[OF assms] node_subnets_network_inj by (meson inj_onI subsetD)
  ultimately have "card (ran (holder m)) = card (dom (map_of (leases m)))"
    by (metis card_image)
  then show ?thesis
    using bt_card[OF bt] by (simp add: leased_count_def)
qed

lemma node_subnets_finite: "pool_ok c np \<Longrightarrow> finite (node_subnets c np)"
  using pool_subnets set_iter_collect by (metis List.finite_set)

lemma holder_inj:
  assumes "mgr_inv c np m" "holder m n = Some s" "holder m n' = Some s"
  shows "n = n'"
  using assms holder_iff[OF assms(1)] by (metis SubnetLease.ext_inject option.inject)

lemma ipam_pods_inside:
  assumes "ipam_inv s p" "ip \<in> pods p"
  shows "contains s ip"
  using assms
  by (auto simp: pods_def is_assigned_def index_of_def index_in_def ipam_inv_def split: if_splits option.splits)

text \<open>A small cluster: \<open>10.42.0.0/16\<close> with one node that runs one pod.\<close>

definition demo_cluster :: Cidr where
  "demo_cluster = Cidr (V4 0x0A2A0000) 16"

definition demo_mgr :: SubnetManager where
  "demo_mgr = \<lparr>cluster = demo_cluster, node_prefix = 24, leases = []\<rparr>"

definition demo_subnet :: Cidr where
  "demo_subnet = Cidr (V4 0x0A2A0000) 24"

definition demo_mgr2 :: SubnetManager where
  "demo_mgr2 = demo_mgr\<lparr>leases := [(V4 0x0A2A0000, \<lparr>lease_node = ''a'', lease_subnet = demo_subnet\<rparr>)]\<rparr>"

definition demo_ipam :: PodIpam where
  "demo_ipam = \<lparr>ipam_subnet = demo_subnet, ipam_gateway = V4 0x0A2A0001, assigned = {2}, first_host = 2,
     host_end = 256\<rparr>"

lemma demo_cluster_new: "Cidr_new (V4 0x0A2A0000) 16 = Inr demo_cluster"
  by (simp add: demo_cluster_def Cidr_new_def Let_def max_prefix_def mask_addr_def v4_mask_def mask_eq_exp_minus_1)

lemma demo_mgr_run: "mgr_run demo_cluster 24 demo_mgr"
  by (rule mgr_start) (simp add: SubnetManager_new_def demo_mgr_def demo_cluster_def max_prefix_def
      network_def prefix_len_def)

lemma demo_mgr2_step: "fst (lease_step demo_mgr (LeaseAllocate ''a'')) = demo_mgr2"
  by (simp add: lease_step_def subnet_allocate_def lease_for_def demo_mgr_def demo_mgr2_def demo_subnet_def
      demo_cluster_def subnets_def max_prefix_def iter_find.simps SubnetIter_next_def shl_u128_def
      wrapping_offset_def network_def bt_insert_def word_le_nat_alt Let_def)

lemma demo_mgr2_run: "mgr_run demo_cluster 24 demo_mgr2"
  using mgr_more[OF demo_mgr_run, of "LeaseAllocate ''a''"] by (simp add: demo_mgr2_step)

lemma demo_holder: "holder demo_mgr2 ''a'' = Some demo_subnet"
  by (simp add: holder_def lease_for_def demo_mgr2_def)

lemma demo_count: "address_count demo_subnet = 256"
  by (simp add: address_count_def demo_subnet_def max_prefix_def shl_u128_def)

lemma demo_ipam_run: "ipam_run demo_subnet demo_ipam"
proof -
  have "ipam_run demo_subnet (demo_ipam\<lparr>assigned := {}\<rparr>)"
    by (rule ipam_start) (simp add: PodIpam_new_def demo_count[unfolded demo_subnet_def] nth_address_def
        word_le_nat_alt demo_ipam_def demo_subnet_def wrapping_offset_def)
  then have "ipam_run demo_subnet (fst (ipam_step (demo_ipam\<lparr>assigned := {}\<rparr>) Allocate))"
    by (rule ipam_more)
  then show ?thesis
    by (simp add: ipam_step_def pod_allocate_def demo_ipam_def find_free.simps)
qed

lemma demo_pod: "V4 0x0A2A0002 \<in> pods demo_ipam"
  by (simp add: pods_def is_assigned_def index_of_def index_in_def demo_ipam_def demo_subnet_def contains_def
      network_def v4_mask_def mask_eq_exp_minus_1)

section \<open>Properties\<close>

text \<open>
  C24. The subnet manager refines a map from nodes to subnets: for every cluster block and node prefix
  but the pair \<open>::/0\<close> and \<open>/128\<close> (there the count of subnets overflows and allocation gives up early),
  and from every reachable lease table, allocating, reserving and releasing act on who holds what, and
  answer, as \<open>lease_spec\<close> says. Allocation is idempotent for a node with a lease and gives any other
  node the lowest subnet that nobody holds, failing only when all are held; a reservation is refused
  exactly when the block is not a node subnet of the cluster, is held by another node, or the node
  holds a different one.
\<close>
theorem subnet_manager_refines:
  assumes "Cidr_new a q = Inr c" "\<not> (q = 0 \<and> np = 128)" "mgr_run c np m" "lease_op_ok op'"
  shows "(holder (fst (lease_step m op')), snd (lease_step m op')) = lease_spec c np (holder m) op'"
proof -
  have "cidr_ok c" "\<not> (prefix_len c = 0 \<and> np = 128)"
    using Cidr_new_ok[OF assms(1)] assms(2) by (auto simp: prefix_len_def)
  then have "pool_ok c np \<and> mgr_inv c np m"
    using mgr_run_inv[OF assms(3)] by simp
  then show ?thesis
    using lease_step_refines assms(4) by (simp add: refines_step_def)
qed

theorem subnet_manager_refines_witness:
  "(holder (fst (lease_step demo_mgr2 (LeaseReserve ''b'' demo_subnet))),
    snd (lease_step demo_mgr2 (LeaseReserve ''b'' demo_subnet))) =
   lease_spec demo_cluster 24 (holder demo_mgr2) (LeaseReserve ''b'' demo_subnet)"
proof -
  have "lease_op_ok (LeaseReserve ''b'' demo_subnet)"
    by (simp add: demo_subnet_def Cidr_new_def Let_def max_prefix_def mask_addr_def v4_mask_def
        network_def prefix_len_def mask_eq_exp_minus_1)
  then show ?thesis
    using subnet_manager_refines[OF demo_cluster_new _ demo_mgr2_run] by simp
qed

text \<open>
  The pool runs dry exactly at its capacity: a node without a lease is refused if and only if
  \<open>2 ^ (node_prefix - prefix)\<close> leases are held, which is what \<open>is_exhausted\<close> reports.
\<close>
theorem exhaustion_exact:
  assumes "Cidr_new a q = Inr c" "q \<noteq> 0" "mgr_run c np m" "holder m n = None"
  shows "(snd (subnet_allocate m n) = Inl Exhausted \<longleftrightarrow> leased_count m = 2 ^ (unat np - unat q)) \<and>
    (is_exhausted m \<longleftrightarrow> leased_count m = 2 ^ (unat np - unat q))"
proof -
  have c: "cidr_ok c" "prefix_len c = q" "prefix_len c \<noteq> 0"
    using Cidr_new_ok[OF assms(1)] assms(2) by (auto simp: prefix_len_def)
  then have inv: "pool_ok c np" "mgr_inv c np m"
    using mgr_run_inv[OF assms(3)] by simp_all
  have card: "card (node_subnets c np) = 2 ^ (unat np - unat q)"
    using card_node_subnets[OF inv(1)] c(2) by simp
  have sub: "ran (holder m) \<subseteq> node_subnets c np"
    by (rule holder_ran_subset[OF inv(2)])
  then have le: "leased_count m \<le> 2 ^ (unat np - unat q)"
    using card_mono[OF node_subnets_finite[OF inv(1)] sub] leased_count_ran[OF inv(2)] card by simp
  have full: "node_subnets c np \<subseteq> ran (holder m) \<longleftrightarrow> leased_count m = 2 ^ (unat np - unat q)"
    using leased_count_ran[OF inv(2)] card sub card_subset_eq[OF node_subnets_finite[OF inv(1)] sub] by auto
  have "unat (capacity m) = 2 ^ (unat np - unat q)"
    using inv c(2) by (simp add: capacity_def cluster_inv unat_sub_u8 unat_shl_u128_one pool_ok_def)
  then have "is_exhausted m \<longleftrightarrow> leased_count m = 2 ^ (unat np - unat q)"
    using le by (auto simp: is_exhausted_def)
  moreover have "snd (subnet_allocate m n) = Inl Exhausted \<longleftrightarrow> node_subnets c np \<subseteq> ran (holder m)"
    using lease_step_refines[OF inv, of "LeaseAllocate n"] assms(4)
    by (auto simp: refines_step_def lease_step_def lease_spec_def Let_def split: if_splits)
  ultimately show ?thesis
    using full by simp
qed

theorem exhaustion_exact_witness:
  "holder demo_mgr ''a'' = None \<and> snd (subnet_allocate demo_mgr ''a'') \<noteq> Inl Exhausted"
proof -
  have none: "holder demo_mgr ''a'' = None"
    by (simp add: holder_def lease_for_def demo_mgr_def)
  then show ?thesis
    using exhaustion_exact[OF demo_cluster_new _ demo_mgr_run none] by (simp add: leased_count_def demo_mgr_def)
qed

section \<open>Dual stack\<close>

datatype DualOp = DualAllocate NodeId | DualRelease NodeId

definition dual_step :: "DualStackSubnetManager \<Rightarrow> DualOp \<Rightarrow> DualStackSubnetManager \<times> (DualStackError + DualStackLease)" where
  "dual_step d op' = (case op' of DualAllocate n \<Rightarrow> dual_allocate d n | DualRelease n \<Rightarrow> dual_release d n)"

inductive dual_run :: "Cidr \<Rightarrow> u8 \<Rightarrow> Cidr \<Rightarrow> u8 \<Rightarrow> DualStackSubnetManager \<Rightarrow> bool" for c4 np4 c6 np6 where
  dual_start: "DualStackSubnetManager_new c4 np4 c6 np6 = Inr d \<Longrightarrow> dual_run c4 np4 c6 np6 d"
| dual_more: "dual_run c4 np4 c6 np6 d \<Longrightarrow> dual_run c4 np4 c6 np6 (fst (dual_step d op'))"

text \<open>The two address plans as one map from nodes to pairs of subnets.\<close>

definition dual_holder :: "DualStackSubnetManager \<Rightarrow> NodeId \<rightharpoonup> Cidr \<times> Cidr" where
  "dual_holder d n = map_option (\<lambda>l. (dsl_v4 l, dsl_v6 l)) (dual_lease_for d n)"

definition dual_inv :: "Cidr \<Rightarrow> u8 \<Rightarrow> Cidr \<Rightarrow> u8 \<Rightarrow> DualStackSubnetManager \<Rightarrow> bool" where
  "dual_inv c4 np4 c6 np6 d \<longleftrightarrow> mgr_inv c4 np4 (mgr_v4 d) \<and> mgr_inv c6 np6 (mgr_v6 d) \<and>
     dom (holder (mgr_v4 d)) = dom (holder (mgr_v6 d))"

lemma allocate_cases:
  assumes "pool_ok c np" "mgr_inv c np m"
  obtains (have_lease) s where "holder m n = Some s"
      "subnet_allocate m n = (m, Inr \<lparr>lease_node = n, lease_subnet = s\<rparr>)"
    | (none_left) m' where "holder m n = None" "node_subnets c np \<subseteq> ran (holder m)"
      "subnet_allocate m n = (m', Inl Exhausted)" "mgr_inv c np m'" "holder m' = holder m"
    | (new_lease) m' s where "holder m n = None" "\<not> node_subnets c np \<subseteq> ran (holder m)"
      "subnet_allocate m n = (m', Inr \<lparr>lease_node = n, lease_subnet = s\<rparr>)" "mgr_inv c np m'"
      "holder m' = (holder m)(n \<mapsto> s)"
proof -
  obtain m' r where mr: "subnet_allocate m n = (m', r)" by fastforce
  have ref: "mgr_inv c np m'" "(holder m', r) = lease_spec c np (holder m) (LeaseAllocate n)"
    using lease_step_refines[OF assms, of "LeaseAllocate n"] mr by (auto simp: refines_step_def lease_step_def)
  show ?thesis
  proof (cases "holder m n")
    case (Some s)
    then show ?thesis
      using have_lease[OF Some] by (simp add: subnet_allocate_def lease_for_holder[OF assms(2)])
  next
    case None
    then show ?thesis
      using ref mr none_left new_lease
      by (cases "node_subnets c np \<subseteq> ran (holder m)") (auto simp: lease_spec_def Let_def)
  qed
qed

lemma release_cases:
  assumes "mgr_inv c np m"
  obtains (no_lease) m' where "holder m n = None" "subnet_release m n = (m', Inl (NoSuchLease n))"
      "mgr_inv c np m'" "holder m' = holder m"
    | (released) m' s where "holder m n = Some s" "subnet_release m n = (m', Inr \<lparr>lease_node = n, lease_subnet = s\<rparr>)"
      "mgr_inv c np m'" "holder m' = (holder m)(n := None)"
proof -
  obtain m' r where mr: "subnet_release m n = (m', r)" by fastforce
  have "mgr_inv c np m'" "(holder m', r) = lease_spec c np (holder m) (LeaseRelease n)"
    using release_lease_refines[OF assms, of n] mr by (auto simp: refines_step_def lease_step_def)
  then show ?thesis
    using no_lease released mr by (cases "holder m n") (auto simp: lease_spec_def)
qed

lemma dual_allocate_inv:
  assumes ok: "pool_ok c4 np4" "pool_ok c6 np6" and inv: "dual_inv c4 np4 c6 np6 d"
  shows "dual_inv c4 np4 c6 np6 (fst (dual_allocate d n)) \<and>
    (\<forall>e. snd (dual_allocate d n) = Inl e \<longrightarrow>
      holder (mgr_v4 (fst (dual_allocate d n))) = holder (mgr_v4 d) \<and>
      holder (mgr_v6 (fst (dual_allocate d n))) = holder (mgr_v6 d))"
proof -
  have i4: "mgr_inv c4 np4 (mgr_v4 d)" and i6: "mgr_inv c6 np6 (mgr_v6 d)"
    and dm: "holder (mgr_v4 d) n = None \<longleftrightarrow> holder (mgr_v6 d) n = None"
    and dom: "dom (holder (mgr_v4 d)) = dom (holder (mgr_v6 d))"
    using inv by (auto simp: dual_inv_def)
  note unf = dual_allocate_def dual_inv_def lease_for_holder[OF i4]
  from ok(1) i4 show ?thesis
  proof (cases rule: allocate_cases[where n = n])
    case (have_lease s)
    from ok(2) i6 show ?thesis
      by (cases rule: allocate_cases[where n = n]) (use have_lease dm dom i4 i6 in \<open>auto simp: unf\<close>)
  next
    case (none_left m')
    then show ?thesis
      using i6 dom by (simp add: unf)
  next
    case (new_lease m' s)
    from ok(2) i6 show ?thesis
    proof (cases rule: allocate_cases[where n = n])
      case (have_lease t)
      then show ?thesis using new_lease dm by simp
    next
      case (none_left b)
      from new_lease(4) show ?thesis
      proof (cases rule: release_cases[where n = n])
        case (no_lease m'')
        then show ?thesis using new_lease by simp
      next
        case (released m'' t)
        then have "holder m'' = holder (mgr_v4 d)"
          using new_lease by auto
        then show ?thesis
          using released new_lease none_left dom by (simp add: unf Let_def)
      qed
    next
      case (new_lease b t)
      then show ?thesis
        using \<open>subnet_allocate (mgr_v4 d) n = _\<close> \<open>mgr_inv c4 np4 m'\<close> \<open>holder m' = _\<close> dom
        by (simp add: unf)
    qed
  qed
qed

lemma dual_release_inv:
  assumes inv: "dual_inv c4 np4 c6 np6 d"
  shows "dual_inv c4 np4 c6 np6 (fst (dual_release d n)) \<and>
    (\<forall>e. snd (dual_release d n) = Inl e \<longrightarrow>
      holder (mgr_v4 (fst (dual_release d n))) = holder (mgr_v4 d) \<and>
      holder (mgr_v6 (fst (dual_release d n))) = holder (mgr_v6 d))"
proof -
  have i4: "mgr_inv c4 np4 (mgr_v4 d)" and i6: "mgr_inv c6 np6 (mgr_v6 d)"
    and dm: "holder (mgr_v4 d) n = None \<longleftrightarrow> holder (mgr_v6 d) n = None"
    and dom: "dom (holder (mgr_v4 d)) = dom (holder (mgr_v6 d))"
    using inv by (auto simp: dual_inv_def)
  from i4 show ?thesis
  proof (cases rule: release_cases[where n = n])
    case (no_lease m')
    then show ?thesis
      using i6 dom by (simp add: dual_release_def dual_inv_def)
  next
    case (released m' s)
    from i6 show ?thesis
      by (cases rule: release_cases[where n = n]) (use released dm dom in \<open>auto simp: dual_release_def dual_inv_def\<close>)
  qed
qed

lemma dual_new_inv:
  "DualStackSubnetManager_new c4 np4 c6 np6 = Inr d \<Longrightarrow>
    SubnetManager_new c4 np4 = Inr (mgr_v4 d) \<and> SubnetManager_new c6 np6 = Inr (mgr_v6 d) \<and>
    dual_inv c4 np4 c6 np6 d"
  by (auto simp: DualStackSubnetManager_new_def dual_inv_def mgr_new_inv split: if_splits sum.splits)
     (auto simp: SubnetManager_new_def holder_def lease_for_def split: if_splits)

lemma dual_run_inv:
  assumes "dual_run c4 np4 c6 np6 d" "cidr_ok c4" "cidr_ok c6" "prefix_len c4 \<noteq> 0" "prefix_len c6 \<noteq> 0"
  shows "pool_ok c4 np4 \<and> pool_ok c6 np6 \<and> dual_inv c4 np4 c6 np6 d"
  using assms(1)
proof (induction rule: dual_run.induct)
  case (dual_start d)
  then show ?case
    using dual_new_inv[OF dual_start] mgr_new_pool assms(2-) by blast
next
  case (dual_more d op')
  then show ?case
    using dual_allocate_inv dual_release_inv by (cases op') (auto simp: dual_step_def)
qed

lemma dual_holder_eq:
  "dual_holder d n = (case (holder (mgr_v4 d) n, holder (mgr_v6 d) n) of
     (Some s, Some t) \<Rightarrow> Some (s, t) | _ \<Rightarrow> None)"
  by (auto simp: dual_holder_def dual_lease_for_def holder_def split: option.splits)

text \<open>
  Dual-stack leases come in pairs: in every state the dual-stack manager can reach, a node holds
  an IPv4 subnet if and only if it holds an IPv6 subnet, and an operation that fails leaves every
  node with what it had, so an IPv4 lease taken before the IPv6 pool turned out empty is given back.
\<close>
theorem dual_stack_pairs:
  assumes "Cidr_new a4 q4 = Inr c4" "Cidr_new a6 q6 = Inr c6" "q4 \<noteq> 0" "q6 \<noteq> 0" "dual_run c4 np4 c6 np6 d"
  shows "(\<forall>n. holder (mgr_v4 d) n = None \<longleftrightarrow> holder (mgr_v6 d) n = None) \<and>
    (\<forall>e. snd (dual_step d op') = Inl e \<longrightarrow> dual_holder (fst (dual_step d op')) = dual_holder d)"
proof -
  have c: "cidr_ok c4" "cidr_ok c6" "prefix_len c4 \<noteq> 0" "prefix_len c6 \<noteq> 0"
    using Cidr_new_ok[OF assms(1)] Cidr_new_ok[OF assms(2)] assms(3,4) by (auto simp: prefix_len_def)
  have inv: "pool_ok c4 np4" "pool_ok c6 np6" "dual_inv c4 np4 c6 np6 d"
    using dual_run_inv[OF assms(5) c] by auto
  have "dual_holder (fst (dual_step d op')) = dual_holder d" if "snd (dual_step d op') = Inl e" for e
    using dual_allocate_inv[OF inv] dual_release_inv[OF inv(3)] that
    by (cases op') (auto simp: dual_step_def dual_holder_eq fun_eq_iff)
  moreover have "\<forall>n. holder (mgr_v4 d) n = None \<longleftrightarrow> holder (mgr_v6 d) n = None"
    using inv(3) by (auto simp: dual_inv_def)
  ultimately show ?thesis by blast
qed

theorem dual_stack_pairs_witness:
  "\<exists>c6 d. Cidr_new (V6 0xfd000000000000000000000000000000) 48 = Inr c6 \<and> dual_run demo_cluster 24 c6 64 d \<and>
    (\<forall>n. holder (mgr_v4 d) n = None \<longleftrightarrow> holder (mgr_v6 d) n = None)"
proof -
  obtain c6 where c6: "Cidr_new (V6 0xfd000000000000000000000000000000) 48 = Inr c6"
    by (simp add: Cidr_new_def Let_def max_prefix_def)
  then have "is_ipv6 c6" "prefix_len c6 = 48" "max_prefix (network c6) = 128"
    by (auto simp: Cidr_new_def Let_def max_prefix_def is_ipv6_def prefix_len_def network_def mask_addr_def)
  then obtain d where "DualStackSubnetManager_new demo_cluster 24 c6 64 = Inr d"
    by (simp add: DualStackSubnetManager_new_def SubnetManager_new_def demo_cluster_def is_ipv4_def
        prefix_len_def max_prefix_def network_def)
  then have run: "dual_run demo_cluster 24 c6 64 d"
    by (rule dual_start)
  then show ?thesis
    using dual_stack_pairs[OF demo_cluster_new c6 _ _ run] c6 by auto
qed

lemma dual_pod_allocate_atomic:
  assumes "block_ok c4" "ipam_inv c4 (ipam_v4 d)" "ipam_inv c6 (ipam_v6 d)"
    "snd (dual_pod_allocate d) = Inl e"
  shows "pods (ipam_v4 (fst (dual_pod_allocate d))) = pods (ipam_v4 d)"
proof -
  obtain a r where ar: "pod_allocate (ipam_v4 d) = (a, r)" by fastforce
  have spec: "(pods a, map_sum (\<lambda>e. e) Some r) = pool_spec c4 (pods (ipam_v4 d)) Allocate"
    using allocate_refines[OF assms(1,2)] ar by (simp add: ipam_step_def)
  show ?thesis
  proof (cases r)
    case (Inl e')
    then show ?thesis
      using spec ar by (auto simp: dual_pod_allocate_def pool_spec_def split: if_splits)
  next
    case (Inr ip)
    then have ip: "pods a = insert ip (pods (ipam_v4 d))" "\<not> usable c4 \<subseteq> pods (ipam_v4 d)"
      "ip = Min (usable c4 - pods (ipam_v4 d))"
      using spec by (auto simp: pool_spec_def split: if_splits)
    have "finite (usable c4)"
      using usable_addrs[OF assms(1,2)] nb.addrs_finite by simp
    then have mem: "ip \<in> usable c4 - pods (ipam_v4 d)"
      using ip(2,3) Min_in[of "usable c4 - pods (ipam_v4 d)"] by blast
    have inv: "ipam_inv c4 a"
      using ipam_step_inv[OF assms(2), of Allocate] ar by (simp add: ipam_step_def)
    have "pods (fst (pod_free a ip)) = pods a - {ip}"
      using free_refines[OF assms(1) inv, of ip] ip(1) mem by (auto simp: ipam_step_def pool_spec_def usable_def)
    then show ?thesis
      using Inr ar ip(1) mem assms(4) by (auto simp: dual_pod_allocate_def split: prod.splits sum.splits)
  qed
qed

end
