(* ===== verification/Flannel_Routes.thy ===== *)
theory Flannel_Routes
  imports Flannel_Leases
begin

text \<open>
  Backends and the declarative route plan (\<open>cave-home-cni-flannel\<close>: \<open>backend.rs\<close>, \<open>mac.rs\<close>,
  \<open>routes.rs\<close>, \<open>neigh.rs\<close>): which routes, forwarding entries and neighbour entries a node has to
  program to reach the subnets of its peers.
\<close>

section \<open>Backends\<close>

text \<open>A MAC address is an array of six octets.\<close>

datatype MacAddr = MacAddr (octets: "u8 list")

definition locally_administered_octet :: "u8 \<Rightarrow> u8" where
  "locally_administered_octet b = (b AND 0xfe) OR 0x02"

definition new_hardware_addr :: "u8 list \<Rightarrow> MacAddr" where
  "new_hardware_addr entropy = MacAddr (entropy[0 := locally_administered_octet (entropy ! 0)])"

record VxlanConfig =
  cfg_vni :: u32
  cfg_port :: u16
  cfg_direct_routing :: bool

definition DEFAULT_VXLAN_PORT :: u16 where
  "DEFAULT_VXLAN_PORT = 8472"

definition DEFAULT_VNI :: u32 where
  "DEFAULT_VNI = 1"

definition VxlanConfig_default :: VxlanConfig where
  "VxlanConfig_default = \<lparr>cfg_vni = DEFAULT_VNI, cfg_port = DEFAULT_VXLAN_PORT, cfg_direct_routing = False\<rparr>"

definition VXLAN_ENCAP_OVERHEAD :: u32 where
  "VXLAN_ENCAP_OVERHEAD = 50"

definition vxlan_overlay_mtu :: "u32 \<Rightarrow> u32" where
  "vxlan_overlay_mtu link_mtu = saturating_sub link_mtu VXLAN_ENCAP_OVERHEAD"

record WireguardConfig =
  wg_port :: u16
  keepalive_secs :: u16

definition WireguardConfig_default :: WireguardConfig where
  "WireguardConfig_default = \<lparr>wg_port = 51820, keepalive_secs = 0\<rparr>"

definition wireguard_overlay_mtu :: "u32 \<Rightarrow> u32" where
  "wireguard_overlay_mtu link_mtu = saturating_sub link_mtu 60"

datatype BackendConfig = BC_Vxlan VxlanConfig | BC_HostGw | BC_Wireguard WireguardConfig

definition type_name :: "BackendConfig \<Rightarrow> string" where
  "type_name b = (case b of BC_Vxlan _ \<Rightarrow> ''vxlan'' | BC_HostGw \<Rightarrow> ''host-gw'' | BC_Wireguard _ \<Rightarrow> ''wireguard'')"

definition is_encapsulating :: "BackendConfig \<Rightarrow> bool" where
  "is_encapsulating b = (case b of BC_Vxlan _ \<Rightarrow> True | BC_HostGw \<Rightarrow> False | BC_Wireguard _ \<Rightarrow> True)"

datatype NodeBackendData =
    BD_Vxlan IpAddr MacAddr
  | BD_HostGw IpAddr
  | BD_Wireguard IpAddr string

definition public_ip :: "NodeBackendData \<Rightarrow> IpAddr" where
  "public_ip d = (case d of BD_Vxlan ip _ \<Rightarrow> ip | BD_HostGw ip \<Rightarrow> ip | BD_Wireguard ip _ \<Rightarrow> ip)"

definition backend_matches :: "NodeBackendData \<Rightarrow> BackendConfig \<Rightarrow> bool" where
  "backend_matches d cfg = (case (d, cfg) of
     (BD_Vxlan _ _, BC_Vxlan _) \<Rightarrow> True
   | (BD_HostGw _, BC_HostGw) \<Rightarrow> True
   | (BD_Wireguard _ _, BC_Wireguard _) \<Rightarrow> True
   | _ \<Rightarrow> False)"

section \<open>Routes\<close>

datatype NextHop = Device | Gateway IpAddr

record RouteEntry =
  re_dest :: Cidr
  re_via :: NextHop

record FdbEntry =
  fdb_mac :: MacAddr
  fdb_endpoint :: IpAddr

record RoutePlan =
  plan_routes :: "RouteEntry list"
  plan_fdb :: "FdbEntry list"

record PeerLease =
  peer_node :: NodeId
  peer_subnet :: Cidr
  peer_data :: NodeBackendData

text \<open>\<open>local_underlay.is_some_and(|u| u.contains(ip))\<close>\<close>

definition same_underlay :: "Cidr option \<Rightarrow> IpAddr \<Rightarrow> bool" where
  "same_underlay local_underlay ip = (case local_underlay of None \<Rightarrow> False | Some u \<Rightarrow> contains u ip)"

definition plan_peer ::
  "NodeId \<Rightarrow> BackendConfig \<Rightarrow> Cidr option \<Rightarrow> PeerLease \<Rightarrow> RouteEntry list \<times> FdbEntry list \<Rightarrow>
   RouteEntry list \<times> FdbEntry list" where
  "plan_peer local_node backend local_underlay peer acc =
    (if peer_node peer = local_node then acc
     else case (backend, peer_data peer) of
       (BC_Vxlan cfg, BD_Vxlan ip mac) \<Rightarrow>
         if cfg_direct_routing cfg \<and> same_underlay local_underlay ip
         then (fst acc @ [\<lparr>re_dest = peer_subnet peer, re_via = Gateway ip\<rparr>], snd acc)
         else (fst acc @ [\<lparr>re_dest = peer_subnet peer, re_via = Device\<rparr>],
               snd acc @ [\<lparr>fdb_mac = mac, fdb_endpoint = ip\<rparr>])
     | (BC_HostGw, BD_HostGw ip) \<Rightarrow>
         (fst acc @ [\<lparr>re_dest = peer_subnet peer, re_via = Gateway ip\<rparr>], snd acc)
     | (BC_Wireguard _, BD_Wireguard _ _) \<Rightarrow>
         (fst acc @ [\<lparr>re_dest = peer_subnet peer, re_via = Device\<rparr>], snd acc)
     | _ \<Rightarrow> acc)"

definition compute_route_plan ::
  "NodeId \<Rightarrow> BackendConfig \<Rightarrow> PeerLease list \<Rightarrow> Cidr option \<Rightarrow> RoutePlan" where
  "compute_route_plan local_node backend peers local_underlay =
    (let (routes, fdb) = fold (plan_peer local_node backend local_underlay) peers ([], [])
     in \<lparr>plan_routes = sort_key re_dest routes, plan_fdb = sort_key fdb_endpoint fdb\<rparr>)"

definition peers_from_maps ::
  "(NodeId, Cidr) btreemap \<Rightarrow> (NodeId, NodeBackendData) btreemap \<Rightarrow> PeerLease list" where
  "peers_from_maps subnet_map backend_data =
    List.map_filter (\<lambda>(node, subnet). map_option
      (\<lambda>d. \<lparr>peer_node = node, peer_subnet = subnet, peer_data = d\<rparr>) (map_of backend_data node)) subnet_map"

section \<open>Neighbours\<close>

datatype NeighborFamily = Arp | Ndp

definition for_ip :: "IpAddr \<Rightarrow> NeighborFamily" where
  "for_ip ip = (case ip of V4 _ \<Rightarrow> Arp | V6 _ \<Rightarrow> Ndp)"

record NeighborEntry =
  ne_ip :: IpAddr
  ne_mac :: MacAddr
  ne_family :: NeighborFamily

definition neighbor_of ::
  "NodeId \<Rightarrow> VxlanConfig \<Rightarrow> Cidr option \<Rightarrow> PeerLease \<Rightarrow> NeighborEntry option" where
  "neighbor_of local_node cfg local_underlay peer =
    (if peer_node peer = local_node then None
     else case peer_data peer of
       BD_Vxlan ip mac \<Rightarrow>
         if cfg_direct_routing cfg \<and> same_underlay local_underlay ip then None
         else Some \<lparr>ne_ip = network (peer_subnet peer), ne_mac = mac, ne_family = for_ip (network (peer_subnet peer))\<rparr>
     | _ \<Rightarrow> None)"

definition compute_neighbor_plan ::
  "NodeId \<Rightarrow> BackendConfig \<Rightarrow> PeerLease list \<Rightarrow> Cidr option \<Rightarrow> NeighborEntry list" where
  "compute_neighbor_plan local_node backend peers local_underlay = (case backend of
     BC_Vxlan cfg \<Rightarrow> sort_key ne_ip (List.map_filter (neighbor_of local_node cfg local_underlay) peers)
   | _ \<Rightarrow> [])"

section \<open>What a plan contains\<close>

definition route_of_peer :: "NodeId \<Rightarrow> BackendConfig \<Rightarrow> Cidr option \<Rightarrow> PeerLease \<Rightarrow> RouteEntry list" where
  "route_of_peer n b u l = fst (plan_peer n b u l ([], []))"

definition fdb_of_peer :: "NodeId \<Rightarrow> BackendConfig \<Rightarrow> Cidr option \<Rightarrow> PeerLease \<Rightarrow> FdbEntry list" where
  "fdb_of_peer n b u l = snd (plan_peer n b u l ([], []))"

lemma plan_peer_append:
  "plan_peer n b u l acc = (fst acc @ route_of_peer n b u l, snd acc @ fdb_of_peer n b u l)"
  by (auto simp: route_of_peer_def fdb_of_peer_def plan_peer_def prod_eq_iff
      split: BackendConfig.split NodeBackendData.split)

lemma fold_plan_peer:
  "fold (plan_peer n b u) ls acc =
    (fst acc @ concat (map (route_of_peer n b u) ls), snd acc @ concat (map (fdb_of_peer n b u) ls))"
  by (induction ls arbitrary: acc) (simp_all add: plan_peer_append)

lemma compute_route_plan_eq:
  "compute_route_plan n b ls u =
    \<lparr>plan_routes = sort_key re_dest (concat (map (route_of_peer n b u) ls)),
     plan_fdb = sort_key fdb_endpoint (concat (map (fdb_of_peer n b u) ls))\<rparr>"
  by (simp add: compute_route_plan_def fold_plan_peer)

lemma new_hardware_addr_unicast:
  assumes "length entropy = 6"
  shows "length (octets (new_hardware_addr entropy)) = 6 \<and>
    \<not> bit (octets (new_hardware_addr entropy) ! 0) 0 \<and> bit (octets (new_hardware_addr entropy) ! 0) 1"
proof -
  have "bit (0xfe :: u8) 0 = False" "bit (0x02 :: u8) 0 = False" "bit (0x02 :: u8) 1"
    by simp_all
  then show ?thesis
    using assms by (auto simp: new_hardware_addr_def locally_administered_octet_def bit_simps)
qed

end
