(* ===== verification/Flannel_Network.thy ===== *)
theory Flannel_Network
  imports Flannel_Routes
begin

text \<open>
  From lease events to kernel state (\<open>cave-home-cni-flannel\<close>: \<open>datapath.rs\<close>, \<open>device.rs\<close>,
  \<open>vxlan_network.rs\<close>, \<open>route_network.rs\<close>, \<open>hostgw.rs\<close>). The trait \<open>Datapath\<close> is a record of its
  methods over an abstract state, so every handler is generic in it as in the source; a method
  returns the new state and its result, and a handler stops at the first error.

  The locale \<open>recording_datapath\<close> is the contract of a datapath that accepts every request and keeps
  a log of them; \<open>MockDatapath\<close>, the recorder of the source, interprets it.
\<close>

section \<open>Operands and the datapath interface\<close>

datatype NetError = Netlink string int | Io string | Invalid string

record VxlanLink =
  link_name :: string
  link_vni :: u32
  link_vtep_index :: int
  link_vtep_addr :: "IpAddr option"
  link_port :: u16
  link_learning :: bool
  link_gbp :: bool
  link_mac :: MacAddr
  link_mtu :: u32

record LinkAddr =
  la_index :: int
  la_ip :: IpAddr
  la_prefix :: u8

record Route =
  route_dest :: Cidr
  route_gw :: "IpAddr option"
  route_oif :: int
  route_scope :: u8
  route_flags :: u32

record Neigh =
  neigh_family :: u8
  neigh_ifindex :: int
  neigh_state :: u16
  neigh_flags :: u8
  neigh_ntype :: u8
  neigh_ip :: IpAddr
  neigh_mac :: MacAddr

definition AF_INET :: u8 where "AF_INET = 2"
definition AF_BRIDGE :: u8 where "AF_BRIDGE = 7"
definition AF_INET6 :: u8 where "AF_INET6 = 10"
definition RT_SCOPE_UNIVERSE :: u8 where "RT_SCOPE_UNIVERSE = 0"
definition RTN_UNICAST :: u8 where "RTN_UNICAST = 1"
definition RTNH_F_ONLINK :: u32 where "RTNH_F_ONLINK = 4"
definition NUD_PERMANENT :: u16 where "NUD_PERMANENT = 0x80"
definition NTF_SELF :: u8 where "NTF_SELF = 0x02"

definition Route_vxlan :: "Cidr \<Rightarrow> IpAddr \<Rightarrow> int \<Rightarrow> Route" where
  "Route_vxlan dest gw vxlan_index =
    \<lparr>route_dest = dest, route_gw = Some gw, route_oif = vxlan_index, route_scope = RT_SCOPE_UNIVERSE,
     route_flags = RTNH_F_ONLINK\<rparr>"

definition Route_host_gw :: "Cidr \<Rightarrow> IpAddr \<Rightarrow> int \<Rightarrow> Route" where
  "Route_host_gw dest gw link_index =
    \<lparr>route_dest = dest, route_gw = Some gw, route_oif = link_index, route_scope = RT_SCOPE_UNIVERSE,
     route_flags = 0\<rparr>"

definition Neigh_fdb :: "int \<Rightarrow> IpAddr \<Rightarrow> MacAddr \<Rightarrow> Neigh" where
  "Neigh_fdb ifindex ip mac =
    \<lparr>neigh_family = AF_BRIDGE, neigh_ifindex = ifindex, neigh_state = NUD_PERMANENT, neigh_flags = NTF_SELF,
     neigh_ntype = 0, neigh_ip = ip, neigh_mac = mac\<rparr>"

definition Neigh_arp :: "int \<Rightarrow> IpAddr \<Rightarrow> MacAddr \<Rightarrow> Neigh" where
  "Neigh_arp ifindex gw_ip mac =
    \<lparr>neigh_family = (case gw_ip of V4 _ \<Rightarrow> AF_INET | V6 _ \<Rightarrow> AF_INET6), neigh_ifindex = ifindex,
     neigh_state = NUD_PERMANENT, neigh_flags = 0, neigh_ntype = RTN_UNICAST, neigh_ip = gw_ip,
     neigh_mac = mac\<rparr>"

record 'd Datapath =
  dp_link_add :: "'d \<Rightarrow> VxlanLink \<Rightarrow> 'd \<times> (NetError + int)"
  dp_link_del :: "'d \<Rightarrow> int \<Rightarrow> 'd \<times> (NetError + unit)"
  dp_link_set_up :: "'d \<Rightarrow> int \<Rightarrow> 'd \<times> (NetError + unit)"
  dp_addr_add :: "'d \<Rightarrow> LinkAddr \<Rightarrow> 'd \<times> (NetError + unit)"
  dp_route_replace :: "'d \<Rightarrow> Route \<Rightarrow> 'd \<times> (NetError + unit)"
  dp_route_add :: "'d \<Rightarrow> Route \<Rightarrow> 'd \<times> (NetError + unit)"
  dp_route_del :: "'d \<Rightarrow> Route \<Rightarrow> 'd \<times> (NetError + unit)"
  dp_neigh_set :: "'d \<Rightarrow> Neigh \<Rightarrow> 'd \<times> (NetError + unit)"
  dp_neigh_del :: "'d \<Rightarrow> Neigh \<Rightarrow> 'd \<times> (NetError + unit)"

text \<open>The \<open>?\<close> operator after a datapath call.\<close>

fun and_then :: "'d \<times> (NetError + 'r) \<Rightarrow> ('d \<Rightarrow> 'r \<Rightarrow> 'd \<times> (NetError + 's)) \<Rightarrow> 'd \<times> (NetError + 's)" where
  "and_then (d, Inl e) k = (d, Inl e)"
| "and_then (d, Inr r) k = k d r"

section \<open>The recording datapath\<close>

datatype Op =
    LinkAdd VxlanLink
  | LinkDel int
  | LinkSetUp int
  | AddrAdd LinkAddr
  | RouteReplace Route
  | RouteAdd Route
  | RouteDel Route
  | NeighSet Neigh
  | NeighDel Neigh

record MockDatapath =
  ops :: "Op list"
  next_index :: int

definition MockDatapath_new :: MockDatapath where
  "MockDatapath_new = \<lparr>ops = [], next_index = 1\<rparr>"

definition mock_push :: "Op \<Rightarrow> MockDatapath \<Rightarrow> MockDatapath" where
  "mock_push o' d = d\<lparr>ops := ops d @ [o']\<rparr>"

definition mock :: "MockDatapath Datapath" where
  "mock = \<lparr>
    dp_link_add = (\<lambda>d l. (mock_push (LinkAdd l) (d\<lparr>next_index := signed_take_bit 31 (next_index d + 1)\<rparr>),
      Inr (next_index d))),
    dp_link_del = (\<lambda>d i. (mock_push (LinkDel i) d, Inr ())),
    dp_link_set_up = (\<lambda>d i. (mock_push (LinkSetUp i) d, Inr ())),
    dp_addr_add = (\<lambda>d a. (mock_push (AddrAdd a) d, Inr ())),
    dp_route_replace = (\<lambda>d r. (mock_push (RouteReplace r) d, Inr ())),
    dp_route_add = (\<lambda>d r. (mock_push (RouteAdd r) d, Inr ())),
    dp_route_del = (\<lambda>d r. (mock_push (RouteDel r) d, Inr ())),
    dp_neigh_set = (\<lambda>d n. (mock_push (NeighSet n) d, Inr ())),
    dp_neigh_del = (\<lambda>d n. (mock_push (NeighDel n) d, Inr ()))\<rparr>"

definition route_op :: "Op \<Rightarrow> Route list \<Rightarrow> Route list" where
  "route_op o' rs = (case o' of
     RouteReplace r \<Rightarrow> filter (\<lambda>e. route_dest e \<noteq> route_dest r) rs @ [r]
   | RouteAdd r \<Rightarrow> filter (\<lambda>e. route_dest e \<noteq> route_dest r) rs @ [r]
   | RouteDel r \<Rightarrow> filter (\<lambda>e. route_dest e \<noteq> route_dest r) rs
   | _ \<Rightarrow> rs)"

definition effective_routes :: "MockDatapath \<Rightarrow> Route list" where
  "effective_routes d = fold route_op (ops d) []"

section \<open>The VXLAN device\<close>

record VxlanDeviceAttrs =
  at_vni :: u32
  at_name :: string
  at_underlay_mtu :: u32
  at_vtep_index :: int
  at_vtep_addr :: "IpAddr option"
  at_vtep_port :: u16
  at_gbp :: bool
  at_learning :: bool
  at_hw_addr :: MacAddr

record Neighbor =
  nb_mac :: MacAddr
  nb_ip :: IpAddr

record VxlanDevice =
  dev_index :: int
  dev_mac :: MacAddr
  dev_name :: string
  dev_direct_routing :: bool

definition VxlanDevice_ensure :: "'d Datapath \<Rightarrow> 'd \<Rightarrow> VxlanDeviceAttrs \<Rightarrow> 'd \<times> (NetError + VxlanDevice)" where
  "VxlanDevice_ensure D d attrs =
    (let link = \<lparr>link_name = at_name attrs, link_vni = at_vni attrs, link_vtep_index = at_vtep_index attrs,
           link_vtep_addr = at_vtep_addr attrs, link_port = at_vtep_port attrs,
           link_learning = at_learning attrs, link_gbp = at_gbp attrs, link_mac = at_hw_addr attrs,
           link_mtu = saturating_sub (at_underlay_mtu attrs) VXLAN_ENCAP_OVERHEAD\<rparr>
     in and_then (dp_link_add D d link) (\<lambda>d i. (d, Inr \<lparr>dev_index = i, dev_mac = at_hw_addr attrs,
          dev_name = at_name attrs, dev_direct_routing = False\<rparr>)))"

definition VxlanDevice_configure ::
  "'d Datapath \<Rightarrow> VxlanDevice \<Rightarrow> 'd \<Rightarrow> IpAddr \<Rightarrow> u8 \<Rightarrow> 'd \<times> (NetError + unit)" where
  "VxlanDevice_configure D dev d addr prefix =
    and_then (dp_addr_add D d \<lparr>la_index = dev_index dev, la_ip = addr, la_prefix = prefix\<rparr>) (\<lambda>d _.
    and_then (dp_link_set_up D d (dev_index dev)) (\<lambda>d _. (d, Inr ())))"

definition add_fdb :: "'d Datapath \<Rightarrow> VxlanDevice \<Rightarrow> 'd \<Rightarrow> Neighbor \<Rightarrow> 'd \<times> (NetError + unit)" where
  "add_fdb D dev d n = dp_neigh_set D d (Neigh_fdb (dev_index dev) (nb_ip n) (nb_mac n))"

definition del_fdb :: "'d Datapath \<Rightarrow> VxlanDevice \<Rightarrow> 'd \<Rightarrow> Neighbor \<Rightarrow> 'd \<times> (NetError + unit)" where
  "del_fdb D dev d n = dp_neigh_del D d (Neigh_fdb (dev_index dev) (nb_ip n) (nb_mac n))"

definition add_arp :: "'d Datapath \<Rightarrow> VxlanDevice \<Rightarrow> 'd \<Rightarrow> Neighbor \<Rightarrow> 'd \<times> (NetError + unit)" where
  "add_arp D dev d n = dp_neigh_set D d (Neigh_arp (dev_index dev) (nb_ip n) (nb_mac n))"

definition del_arp :: "'d Datapath \<Rightarrow> VxlanDevice \<Rightarrow> 'd \<Rightarrow> Neighbor \<Rightarrow> 'd \<times> (NetError + unit)" where
  "del_arp D dev d n = dp_neigh_del D d (Neigh_arp (dev_index dev) (nb_ip n) (nb_mac n))"

section \<open>The VXLAN network\<close>

datatype LeaseEvent = Added PeerLease | Removed PeerLease

record VxlanNetwork =
  vx_dev :: VxlanDevice
  vx_backend :: VxlanConfig
  vx_local_node :: NodeId
  vx_local_underlay :: "Cidr option"

definition vxlan_handle_event ::
  "'d Datapath \<Rightarrow> VxlanNetwork \<Rightarrow> 'd \<Rightarrow> LeaseEvent \<Rightarrow> 'd \<times> (NetError + unit)" where
  "vxlan_handle_event D nw d ev =
    (let (lease, added) = (case ev of Added l \<Rightarrow> (l, True) | Removed l \<Rightarrow> (l, False)) in
     if peer_node lease = vx_local_node nw then (d, Inr ())
     else case peer_data lease of
       BD_Vxlan ip mac \<Rightarrow>
        (let subnet = peer_subnet lease;
             gw = network subnet;
             direct_ok = (dev_direct_routing (vx_dev nw) \<and> same_underlay (vx_local_underlay nw) ip)
         in if direct_ok then
              let direct = Route_host_gw subnet ip 0 in
              if added then and_then (dp_route_replace D d direct) (\<lambda>d _. (d, Inr ()))
              else and_then (dp_route_del D d direct) (\<lambda>d _. (d, Inr ()))
            else
              let arp = \<lparr>nb_mac = mac, nb_ip = gw\<rparr>;
                  fdb = \<lparr>nb_mac = mac, nb_ip = ip\<rparr>;
                  route = Route_vxlan subnet gw (dev_index (vx_dev nw))
              in if added then
                   and_then (add_arp D (vx_dev nw) d arp) (\<lambda>d _.
                   and_then (add_fdb D (vx_dev nw) d fdb) (\<lambda>d _.
                   and_then (dp_route_replace D d route) (\<lambda>d _. (d, Inr ()))))
                 else
                   and_then (del_arp D (vx_dev nw) d arp) (\<lambda>d _.
                   and_then (del_fdb D (vx_dev nw) d fdb) (\<lambda>d _.
                   and_then (dp_route_del D d route) (\<lambda>d _. (d, Inr ())))))
     | _ \<Rightarrow> (d, Inr ()))"

fun vxlan_handle_events ::
  "'d Datapath \<Rightarrow> VxlanNetwork \<Rightarrow> 'd \<Rightarrow> LeaseEvent list \<Rightarrow> 'd \<times> (NetError + unit)" where
  "vxlan_handle_events D nw d [] = (d, Inr ())"
| "vxlan_handle_events D nw d (ev # evs) =
    and_then (vxlan_handle_event D nw d ev) (\<lambda>d _. vxlan_handle_events D nw d evs)"

section \<open>The route network of host-gw\<close>

definition route_equal :: "Route \<Rightarrow> Route \<Rightarrow> bool" where
  "route_equal a b = (route_dest a = route_dest b \<and> route_gw a = route_gw b \<and> route_oif a = route_oif b)"

record RouteNetwork =
  rn_local_node :: NodeId
  rn_link_index :: int
  rn_routes :: "Route list"

definition RouteNetwork_host_gw :: "NodeId \<Rightarrow> int \<Rightarrow> RouteNetwork" where
  "RouteNetwork_host_gw local_node link_index =
    \<lparr>rn_local_node = local_node, rn_link_index = link_index, rn_routes = []\<rparr>"

definition get_route :: "RouteNetwork \<Rightarrow> PeerLease \<Rightarrow> Route option" where
  "get_route nw lease = (case peer_data lease of
     BD_HostGw ip \<Rightarrow> Some (Route_host_gw (peer_subnet lease) ip (rn_link_index nw))
   | _ \<Rightarrow> None)"

text \<open>\<open>position\<close> followed by \<open>remove\<close>: the first element with the property, and the list without it.\<close>

fun remove_first :: "('a \<Rightarrow> bool) \<Rightarrow> 'a list \<Rightarrow> ('a \<times> 'a list) option" where
  "remove_first P [] = None"
| "remove_first P (x # xs) =
    (if P x then Some (x, xs) else map_option (\<lambda>(y, ys). (y, x # ys)) (remove_first P xs))"

definition route_add ::
  "'d Datapath \<Rightarrow> RouteNetwork \<Rightarrow> 'd \<Rightarrow> Route \<Rightarrow> RouteNetwork \<times> 'd \<times> (NetError + unit)" where
  "route_add D nw d route =
    (if list_ex (\<lambda>r. route_equal r route) (rn_routes nw) then (nw, d, Inr ())
     else
       let (nw1, d1, r1) = (case remove_first (\<lambda>r. route_dest r = route_dest route) (rn_routes nw) of
             None \<Rightarrow> (nw, d, Inr ())
           | Some (stale, rest) \<Rightarrow> (nw\<lparr>rn_routes := rest\<rparr>, dp_route_del D d stale))
       in case r1 of
            Inl e \<Rightarrow> (nw1, d1, Inl e)
          | Inr _ \<Rightarrow>
             (case dp_route_add D d1 route of
                (d2, Inl e) \<Rightarrow> (nw1, d2, Inl e)
              | (d2, Inr _) \<Rightarrow> (nw1\<lparr>rn_routes := rn_routes nw1 @ [route]\<rparr>, d2, Inr ())))"

definition rn_handle_event ::
  "'d Datapath \<Rightarrow> RouteNetwork \<Rightarrow> 'd \<Rightarrow> LeaseEvent \<Rightarrow> RouteNetwork \<times> 'd \<times> (NetError + unit)" where
  "rn_handle_event D nw d ev = (case ev of
     Added lease \<Rightarrow>
       if peer_node lease = rn_local_node nw then (nw, d, Inr ())
       else (case get_route nw lease of
          None \<Rightarrow> (nw, d, Inr ())
        | Some route \<Rightarrow> route_add D nw d route)
   | Removed lease \<Rightarrow>
       if peer_node lease = rn_local_node nw then (nw, d, Inr ())
       else (case get_route nw lease of
          None \<Rightarrow> (nw, d, Inr ())
        | Some route \<Rightarrow>
           (nw\<lparr>rn_routes := filter (\<lambda>r. \<not> route_equal r route) (rn_routes nw)\<rparr>, dp_route_del D d route)))"

fun rn_handle_events ::
  "'d Datapath \<Rightarrow> RouteNetwork \<Rightarrow> 'd \<Rightarrow> LeaseEvent list \<Rightarrow> RouteNetwork \<times> 'd \<times> (NetError + unit)" where
  "rn_handle_events D nw d [] = (nw, d, Inr ())"
| "rn_handle_events D nw d (ev # evs) = (case rn_handle_event D nw d ev of
     (nw', d', Inl e) \<Rightarrow> (nw', d', Inl e)
   | (nw', d', Inr _) \<Rightarrow> rn_handle_events D nw' d' evs)"

fun reconcile_routes :: "'d Datapath \<Rightarrow> Route list \<Rightarrow> Route list \<Rightarrow> 'd \<Rightarrow> 'd \<times> (NetError + unit)" where
  "reconcile_routes D [] present d = (d, Inr ())"
| "reconcile_routes D (r # rs) present d =
    (if list_ex (\<lambda>p. route_equal p r) present then reconcile_routes D rs present d
     else and_then (dp_route_add D d r) (\<lambda>d _. reconcile_routes D rs present d))"

definition reconcile :: "'d Datapath \<Rightarrow> RouteNetwork \<Rightarrow> 'd \<Rightarrow> Route list \<Rightarrow> 'd \<times> (NetError + unit)" where
  "reconcile D nw d present = reconcile_routes D (rn_routes nw) present d"

section \<open>The host-gw backend\<close>

record ExternalInterface =
  ext_name :: string
  ext_index :: int
  iface_addr :: IpAddr
  ext_addr :: IpAddr
  ext_mtu :: u32

text \<open>The message of the error names the two addresses; the model keeps them apart from the text.\<close>

datatype HostGwError = NatNotSupported IpAddr IpAddr

definition HostGwBackend_new :: "ExternalInterface \<Rightarrow> HostGwError + ExternalInterface" where
  "HostGwBackend_new ext =
    (if ext_addr ext \<noteq> iface_addr ext then Inl (NatNotSupported (ext_addr ext) (iface_addr ext)) else Inr ext)"

definition lease_attrs :: "ExternalInterface \<Rightarrow> NodeBackendData" where
  "lease_attrs ext = BD_HostGw (ext_addr ext)"

definition register :: "ExternalInterface \<Rightarrow> NodeId \<Rightarrow> RouteNetwork" where
  "register ext local_node = RouteNetwork_host_gw local_node (ext_index ext)"

end
