(* ===== verification/Flannel_Delivery.thy ===== *)
theory Flannel_Delivery
  imports Flannel_Network
begin

text \<open>
  Packets between nodes. The specification is a kernel with a route table, a neighbour table and a
  forwarding table that obeys the logged requests, and the walk of a packet through it (longest
  prefix, then gateway to MAC, then MAC to tunnel endpoint), as the two-node simulation of the crate
  has it. The kernel is not code of the crate: it is what the requests mean (one route per destination, one
  neighbour per address, one forwarding entry per MAC). The theorems say that the lease handlers
  program it so that every packet for a leased subnet leaves for the node that holds the lease.
\<close>

section \<open>Datapaths that record\<close>

locale recording_datapath =
  fixes D :: "'d Datapath"
    and log :: "'d \<Rightarrow> Op list"
  assumes log_route_replace: "snd (dp_route_replace D d r) = Inr () \<and> log (fst (dp_route_replace D d r)) = log d @ [RouteReplace r]"
    and log_route_add: "snd (dp_route_add D d r) = Inr () \<and> log (fst (dp_route_add D d r)) = log d @ [RouteAdd r]"
    and log_route_del: "snd (dp_route_del D d r) = Inr () \<and> log (fst (dp_route_del D d r)) = log d @ [RouteDel r]"
    and log_neigh_set: "snd (dp_neigh_set D d n) = Inr () \<and> log (fst (dp_neigh_set D d n)) = log d @ [NeighSet n]"
    and log_neigh_del: "snd (dp_neigh_del D d n) = Inr () \<and> log (fst (dp_neigh_del D d n)) = log d @ [NeighDel n]"

text \<open>The requests a lease event stands for.\<close>

definition direct_peer :: "VxlanNetwork \<Rightarrow> IpAddr \<Rightarrow> bool" where
  "direct_peer nw ip \<longleftrightarrow> dev_direct_routing (vx_dev nw) \<and> same_underlay (vx_local_underlay nw) ip"

definition peer_route :: "VxlanNetwork \<Rightarrow> Cidr \<Rightarrow> IpAddr \<Rightarrow> Route" where
  "peer_route nw s ip =
    (if direct_peer nw ip then Route_host_gw s ip 0 else Route_vxlan s (network s) (dev_index (vx_dev nw)))"

text \<open>The peer an event is about, if it is one the VXLAN network programs.\<close>

definition vxlan_peer :: "VxlanNetwork \<Rightarrow> PeerLease \<Rightarrow> (Cidr \<times> IpAddr \<times> MacAddr) option" where
  "vxlan_peer nw l = (if peer_node l = vx_local_node nw then None
     else case peer_data l of BD_Vxlan ip mac \<Rightarrow> Some (peer_subnet l, ip, mac) | _ \<Rightarrow> None)"

fun event_lease :: "LeaseEvent \<Rightarrow> PeerLease" where
  "event_lease (Added l) = l"
| "event_lease (Removed l) = l"

definition vxlan_ops :: "VxlanNetwork \<Rightarrow> LeaseEvent \<Rightarrow> Op list" where
  "vxlan_ops nw ev = (case vxlan_peer nw (event_lease ev) of
     None \<Rightarrow> []
   | Some (s, ip, mac) \<Rightarrow>
      (case ev of
         Added _ \<Rightarrow> (if direct_peer nw ip then []
             else [NeighSet (Neigh_arp (dev_index (vx_dev nw)) (network s) mac),
                   NeighSet (Neigh_fdb (dev_index (vx_dev nw)) ip mac)]) @ [RouteReplace (peer_route nw s ip)]
       | Removed _ \<Rightarrow> (if direct_peer nw ip then []
             else [NeighDel (Neigh_arp (dev_index (vx_dev nw)) (network s) mac),
                   NeighDel (Neigh_fdb (dev_index (vx_dev nw)) ip mac)]) @ [RouteDel (peer_route nw s ip)]))"

lemma and_then_Inr: "snd x = Inr r \<Longrightarrow> and_then x k = k (fst x) r"
  by (cases x) auto

context recording_datapath
begin

lemma vxlan_event_log:
  "snd (vxlan_handle_event D nw d ev) = Inr () \<and> log (fst (vxlan_handle_event D nw d ev)) = log d @ vxlan_ops nw ev"
  by (cases ev)
     (auto simp: vxlan_handle_event_def Let_def vxlan_ops_def vxlan_peer_def peer_route_def direct_peer_def
       and_then_Inr log_route_replace log_route_del log_neigh_set log_neigh_del add_arp_def add_fdb_def
       del_arp_def del_fdb_def split: NodeBackendData.split)

lemma vxlan_events_log:
  "snd (vxlan_handle_events D nw d evs) = Inr () \<and>
   log (fst (vxlan_handle_events D nw d evs)) = log d @ concat (map (vxlan_ops nw) evs)"
proof (induction evs arbitrary: d)
  case (Cons ev evs)
  then show ?case
    using vxlan_event_log[of nw d ev] by (simp add: and_then_Inr)
qed simp

end

interpretation mock_dp: recording_datapath mock ops
  by unfold_locales (auto simp: mock_def mock_push_def)

section \<open>The kernel the requests program\<close>

record Kernel =
  k_routes :: "Route list"
  k_arp :: "IpAddr \<rightharpoonup> MacAddr"
  k_fdb :: "MacAddr \<rightharpoonup> IpAddr"

definition empty_kernel :: Kernel where
  "empty_kernel = \<lparr>k_routes = [], k_arp = Map.empty, k_fdb = Map.empty\<rparr>"

definition kernel_op :: "Op \<Rightarrow> Kernel \<Rightarrow> Kernel" where
  "kernel_op o' k = (case o' of
     NeighSet n \<Rightarrow>
       if neigh_family n = AF_BRIDGE then k\<lparr>k_fdb := (k_fdb k)(neigh_mac n \<mapsto> neigh_ip n)\<rparr>
       else k\<lparr>k_arp := (k_arp k)(neigh_ip n \<mapsto> neigh_mac n)\<rparr>
   | NeighDel n \<Rightarrow>
       if neigh_family n = AF_BRIDGE then k\<lparr>k_fdb := (k_fdb k)(neigh_mac n := None)\<rparr>
       else k\<lparr>k_arp := (k_arp k)(neigh_ip n := None)\<rparr>
   | _ \<Rightarrow> k\<lparr>k_routes := route_op o' (k_routes k)\<rparr>)"

definition kernel_of :: "Op list \<Rightarrow> Kernel" where
  "kernel_of os = fold kernel_op os empty_kernel"

definition better_route :: "Route \<Rightarrow> Route option \<Rightarrow> Route option" where
  "better_route r best = (case best of
     None \<Rightarrow> Some r
   | Some b \<Rightarrow> if prefix_len (route_dest r) \<ge> prefix_len (route_dest b) then Some r else Some b)"

definition lookup_route :: "Kernel \<Rightarrow> IpAddr \<Rightarrow> Route option" where
  "lookup_route k dst = fold better_route (filter (\<lambda>r. contains (route_dest r) dst) (k_routes k)) None"

datatype Delivery = Encapsulated IpAddr | DirectRoute IpAddr | Dropped

definition deliver :: "Kernel \<Rightarrow> IpAddr \<Rightarrow> Delivery" where
  "deliver k dst = (case lookup_route k dst of
     None \<Rightarrow> Dropped
   | Some r \<Rightarrow>
      (case route_gw r of
         None \<Rightarrow> Dropped
       | Some gw \<Rightarrow>
           if route_flags r = RTNH_F_ONLINK then
             (case k_arp k gw of
                None \<Rightarrow> Dropped
              | Some mac \<Rightarrow> (case k_fdb k mac of None \<Rightarrow> Dropped | Some ip \<Rightarrow> Encapsulated ip))
           else DirectRoute gw))"

text \<open>The peers a node should reach after a sequence of events.\<close>

definition peer_event :: "VxlanNetwork \<Rightarrow> LeaseEvent \<Rightarrow> (Cidr \<rightharpoonup> IpAddr \<times> MacAddr) \<Rightarrow> (Cidr \<rightharpoonup> IpAddr \<times> MacAddr)" where
  "peer_event nw ev T = (case vxlan_peer nw (event_lease ev) of
     None \<Rightarrow> T
   | Some (s, ip, mac) \<Rightarrow> (case ev of Added _ \<Rightarrow> T(s \<mapsto> (ip, mac)) | Removed _ \<Rightarrow> T(s := None)))"

definition peer_table :: "VxlanNetwork \<Rightarrow> LeaseEvent list \<Rightarrow> Cidr \<rightharpoonup> IpAddr \<times> MacAddr" where
  "peer_table nw evs = fold (peer_event nw) evs Map.empty"

text \<open>
  What the events of one cluster have in common: every subnet is a canonical block of the node
  prefix, and no event names a tunnel MAC that is in use for another subnet at that moment.
\<close>

definition same_size_blocks :: "u8 \<Rightarrow> LeaseEvent list \<Rightarrow> bool" where
  "same_size_blocks np evs \<longleftrightarrow>
    (\<forall>ev \<in> set evs. Cidr_new (network (peer_subnet (event_lease ev))) np = Inr (peer_subnet (event_lease ev)))"

definition mac_free :: "VxlanNetwork \<Rightarrow> LeaseEvent \<Rightarrow> (Cidr \<rightharpoonup> IpAddr \<times> MacAddr) \<Rightarrow> bool" where
  "mac_free nw ev T \<longleftrightarrow> (\<forall>s ip mac t ip'. vxlan_peer nw (event_lease ev) = Some (s, ip, mac) \<and> T t = Some (ip', mac) \<longrightarrow> t = s)"

fun macs_in_order :: "VxlanNetwork \<Rightarrow> (Cidr \<rightharpoonup> IpAddr \<times> MacAddr) \<Rightarrow> LeaseEvent list \<Rightarrow> bool" where
  "macs_in_order nw T [] \<longleftrightarrow> True"
| "macs_in_order nw T (ev # evs) \<longleftrightarrow> mac_free nw ev T \<and> macs_in_order nw (peer_event nw ev T) evs"

text \<open>A simpler condition that implies it: over the whole history a MAC belongs to one subnet.\<close>

definition cluster_events :: "u8 \<Rightarrow> LeaseEvent list \<Rightarrow> bool" where
  "cluster_events np evs \<longleftrightarrow> same_size_blocks np evs \<and>
    (\<forall>ev \<in> set evs. \<forall>ev' \<in> set evs. \<forall>ip ip' mac.
      peer_data (event_lease ev) = BD_Vxlan ip mac \<longrightarrow> peer_data (event_lease ev') = BD_Vxlan ip' mac \<longrightarrow>
      peer_subnet (event_lease ev) = peer_subnet (event_lease ev'))"

section \<open>Invariant\<close>

definition kernel_inv ::
  "VxlanNetwork \<Rightarrow> (Cidr \<times> MacAddr) set \<Rightarrow> (Cidr \<rightharpoonup> IpAddr \<times> MacAddr) \<Rightarrow> Kernel \<Rightarrow> bool" where
  "kernel_inv nw R T k \<longleftrightarrow>
     set (k_routes k) = {peer_route nw s ip | s ip mac. T s = Some (ip, mac)} \<and>
     (\<forall>s ip mac. T s = Some (ip, mac) \<longrightarrow> (s, mac) \<in> R) \<and>
     (\<forall>s ip mac. T s = Some (ip, mac) \<longrightarrow> \<not> direct_peer nw ip \<longrightarrow>
        k_arp k (network s) = Some mac \<and> k_fdb k mac = Some ip)"

lemma route_dest_peer [simp]: "route_dest (peer_route nw s ip) = s"
  by (simp add: peer_route_def Route_host_gw_def Route_vxlan_def)

lemma neigh_sel [simp]:
  "neigh_family (Neigh_fdb i ip mac) = AF_BRIDGE" "neigh_family (Neigh_arp i ip mac) \<noteq> AF_BRIDGE"
  "neigh_ip (Neigh_fdb i ip mac) = ip" "neigh_mac (Neigh_fdb i ip mac) = mac"
  "neigh_ip (Neigh_arp i ip mac) = ip" "neigh_mac (Neigh_arp i ip mac) = mac"
  by (auto simp: Neigh_fdb_def Neigh_arp_def AF_BRIDGE_def AF_INET_def AF_INET6_def split: IpAddr.split)

lemma kernel_inv_event:
  assumes inv: "kernel_inv nw R T k"
    and inj: "\<And>s m s' m'. (s, m) \<in> R \<Longrightarrow> (s', m') \<in> R \<Longrightarrow> network s = network s' \<Longrightarrow> s = s'"
    and mac: "mac_free nw ev T"
    and R: "\<And>s ip m. vxlan_peer nw (event_lease ev) = Some (s, ip, m) \<Longrightarrow> (s, m) \<in> R"
  shows "kernel_inv nw R (peer_event nw ev T) (fold kernel_op (vxlan_ops nw ev) k)"
proof (cases "vxlan_peer nw (event_lease ev)")
  case None
  then show ?thesis
    using inv by (simp add: vxlan_ops_def peer_event_def)
next
  case (Some p)
  obtain s ip m where p: "p = (s, ip, m)" by (cases p)
  have mem: "(s, m) \<in> R"
    using R Some p by simp
  let ?k = "fold kernel_op (vxlan_ops nw ev) k" and ?T = "peer_event nw ev T"
  have rs: "set (k_routes k) = {peer_route nw s ip | s ip mac. T s = Some (ip, mac)}"
    and tR: "\<And>s ip mac. T s = Some (ip, mac) \<Longrightarrow> (s, mac) \<in> R"
    and tk: "\<And>s ip mac. T s = Some (ip, mac) \<Longrightarrow> \<not> direct_peer nw ip \<Longrightarrow>
        k_arp k (network s) = Some mac \<and> k_fdb k mac = Some ip"
    using inv unfolding kernel_inv_def by blast+
  have other: "network t \<noteq> network s \<and> mac' \<noteq> m" if "t \<noteq> s" "T t = Some (ip', mac')" for t ip' mac'
    using inj[OF tR[OF that(2)] mem] mac Some p that unfolding mac_free_def by blast
  have routes: "set (k_routes ?k) = {peer_route nw s ip | s ip mac. ?T s = Some (ip, mac)}"
    using Some p rs
    by (cases ev; cases "direct_peer nw ip")
       (auto simp: vxlan_ops_def peer_event_def kernel_op_def route_op_def split: if_splits)
  show ?thesis
    unfolding kernel_inv_def
  proof (intro conjI allI impI)
    fix t ip' mac'
    assume t: "?T t = Some (ip', mac')"
    show "(t, mac') \<in> R"
      using t Some p mem tR by (cases ev) (auto simp: peer_event_def split: if_splits)
    assume nd: "\<not> direct_peer nw ip'"
    show "k_arp ?k (network t) = Some mac'"
      using t Some p nd other[of t ip' mac'] tk[of t ip' mac']
      by (cases ev; cases "direct_peer nw ip")
         (auto simp: vxlan_ops_def peer_event_def kernel_op_def split: if_splits)
    show "k_fdb ?k mac' = Some ip'"
      using t Some p nd other[of t ip' mac'] tk[of t ip' mac']
      by (cases ev; cases "direct_peer nw ip")
         (auto simp: vxlan_ops_def peer_event_def kernel_op_def split: if_splits)
  qed (rule routes)
qed

section \<open>Delivery\<close>

lemma fold_better_same:
  assumes "\<forall>x \<in> set rs. x = r" "rs \<noteq> []"
  shows "fold better_route rs None = Some r"
proof -
  have "fold better_route xs (Some r) = Some r" if "\<forall>x \<in> set xs. x = r" for xs
    using that by (induction xs) (auto simp: better_route_def)
  then show ?thesis
    using assms by (cases rs) (auto simp: better_route_def)
qed

lemma canonical_cidr_ok: "Cidr_new (network s) np = Inr s \<Longrightarrow> cidr_ok s \<and> cidr_prefix s = np"
  using Cidr_new_ok by blast

lemma deliver_kernel:
  assumes inv: "kernel_inv nw R T k" and blocks: "\<And>s m. (s, m) \<in> R \<Longrightarrow> cidr_ok s \<and> cidr_prefix s = np"
  shows "T s = Some (ip, mac) \<Longrightarrow> contains s dst \<Longrightarrow>
      deliver k dst = (if direct_peer nw ip then DirectRoute ip else Encapsulated ip)"
    and "(\<And>s. s \<in> dom T \<Longrightarrow> \<not> contains s dst) \<Longrightarrow> deliver k dst = Dropped"
proof -
  have rs: "set (k_routes k) = {peer_route nw s ip | s ip mac. T s = Some (ip, mac)}"
    and tR: "\<And>s ip mac. T s = Some (ip, mac) \<Longrightarrow> (s, mac) \<in> R"
    and tk: "\<And>s ip mac. T s = Some (ip, mac) \<Longrightarrow> \<not> direct_peer nw ip \<Longrightarrow>
        k_arp k (network s) = Some mac \<and> k_fdb k mac = Some ip"
    using inv unfolding kernel_inv_def by blast+
  {
    assume s: "T s = Some (ip, mac)" "contains s dst"
    let ?hits = "filter (\<lambda>r. contains (route_dest r) dst) (k_routes k)"
    have "r = peer_route nw s ip" if "r \<in> set ?hits" for r
    proof -
      obtain t ip' mac' where t: "r = peer_route nw t ip'" "T t = Some (ip', mac')" "contains t dst"
        using \<open>r \<in> set ?hits\<close> rs by auto
      then have "t = s"
        using same_size_blocks_eq[of t s dst] blocks[OF tR[OF t(2)]] blocks[OF tR[OF s(1)]] s(2) by simp
      then show ?thesis
        using t s by simp
    qed
    moreover have "peer_route nw s ip \<in> set ?hits"
      using s rs by auto
    then have "?hits \<noteq> []"
      by (metis empty_iff list.set(1))
    ultimately have "lookup_route k dst = Some (peer_route nw s ip)"
      unfolding lookup_route_def using fold_better_same by blast
    then show "deliver k dst = (if direct_peer nw ip then DirectRoute ip else Encapsulated ip)"
      using tk[OF s(1)] by (auto simp: deliver_def peer_route_def Route_host_gw_def Route_vxlan_def RTNH_F_ONLINK_def)
  next
    assume none: "\<And>s. s \<in> dom T \<Longrightarrow> \<not> contains s dst"
    have "\<not> contains (route_dest r) dst" if "r \<in> set (k_routes k)" for r
      using that rs none[OF domI] by auto
    then have "filter (\<lambda>r. contains (route_dest r) dst) (k_routes k) = []"
      by (simp add: filter_empty_conv)
    then show "deliver k dst = Dropped"
      by (simp add: deliver_def lookup_route_def)
  }
qed

definition event_pairs :: "LeaseEvent list \<Rightarrow> (Cidr \<times> MacAddr) set" where
  "event_pairs evs = {(peer_subnet (event_lease ev), mac) | ev ip mac.
     ev \<in> set evs \<and> peer_data (event_lease ev) = BD_Vxlan ip mac}"

lemma event_pairs_facts:
  assumes "same_size_blocks np evs"
  shows "(s, m) \<in> event_pairs evs \<Longrightarrow> cidr_ok s \<and> cidr_prefix s = np"
    and "(s, m) \<in> event_pairs evs \<Longrightarrow> (s', m') \<in> event_pairs evs \<Longrightarrow> network s = network s' \<Longrightarrow> s = s'"
proof -
  have can: "Cidr_new (network s) np = Inr s" if "(s, m) \<in> event_pairs evs" for s m
    using that assms by (auto simp: event_pairs_def same_size_blocks_def)
  show "(s, m) \<in> event_pairs evs \<Longrightarrow> cidr_ok s \<and> cidr_prefix s = np"
    using can canonical_cidr_ok by blast
  show "(s, m) \<in> event_pairs evs \<Longrightarrow> (s', m') \<in> event_pairs evs \<Longrightarrow> network s = network s' \<Longrightarrow> s = s'"
    using can by (metis sum.inject(2))
qed

lemma peer_in_pairs:
  "ev \<in> set evs \<Longrightarrow> vxlan_peer nw (event_lease ev) = Some (s, ip, m) \<Longrightarrow> (s, m) \<in> event_pairs evs"
  by (auto simp: vxlan_peer_def event_pairs_def split: if_splits NodeBackendData.splits)

lemma kernel_inv_events:
  assumes ce: "same_size_blocks np evs" and sub: "set es \<subseteq> set evs" and inv: "kernel_inv nw (event_pairs evs) T k"
    and macs: "macs_in_order nw T es"
  shows "kernel_inv nw (event_pairs evs) (fold (peer_event nw) es T) (fold kernel_op (concat (map (vxlan_ops nw) es)) k)"
  using sub inv macs
proof (induction es arbitrary: T k)
  case (Cons ev es)
  have "(s, m) \<in> event_pairs evs" if "vxlan_peer nw (event_lease ev) = Some (s, ip, m)" for s ip m
    using that Cons.prems(1) peer_in_pairs[of ev evs nw s ip m] by simp
  moreover have "mac_free nw ev T"
    using Cons.prems(3) by simp
  ultimately have "kernel_inv nw (event_pairs evs) (peer_event nw ev T) (fold kernel_op (vxlan_ops nw ev) k)"
    using kernel_inv_event[OF Cons.prems(2)] event_pairs_facts(2)[OF ce] by blast
  then show ?case
    using Cons by simp
qed simp

lemma cluster_macs:
  assumes ce: "cluster_events np evs" and sub: "set es \<subseteq> set evs" and T: "\<And>s ip m. T s = Some (ip, m) \<Longrightarrow> (s, m) \<in> event_pairs evs"
  shows "macs_in_order nw T es"
  using sub T
proof (induction es arbitrary: T)
  case (Cons ev es)
  have one: "s = s'" if "(s, m) \<in> event_pairs evs" "(s', m) \<in> event_pairs evs" for s s' m
    using that ce unfolding event_pairs_def cluster_events_def by blast
  have ev: "(s, m) \<in> event_pairs evs" if "vxlan_peer nw (event_lease ev) = Some (s, ip, m)" for s ip m
    using that Cons.prems(1) peer_in_pairs[of ev evs nw s ip m] by simp
  have "mac_free nw ev T"
    unfolding mac_free_def using one ev Cons.prems(2) by blast
  moreover have "(s, m) \<in> event_pairs evs" if "peer_event nw ev T s = Some (ip, m)" for s ip m
    using that ev Cons.prems(2)
    by (cases "vxlan_peer nw (event_lease ev)"; cases ev) (auto simp: peer_event_def split: if_splits)
  ultimately show ?case
    using Cons.IH[of "peer_event nw ev T"] Cons.prems(1) by auto
qed simp

lemma kernel_after:
  assumes "same_size_blocks np evs" "macs_in_order nw Map.empty evs" "kernel_of (ops d0) = empty_kernel"
  shows "kernel_inv nw (event_pairs evs) (peer_table nw evs) (kernel_of (ops (fst (vxlan_handle_events mock nw d0 evs))))"
proof -
  have "kernel_inv nw (event_pairs evs) Map.empty empty_kernel"
    by (simp add: kernel_inv_def empty_kernel_def)
  then show ?thesis
    using kernel_inv_events[OF assms(1) order.refl _ assms(2)] assms(3)[unfolded kernel_of_def]
    by (simp add: mock_dp.vxlan_events_log kernel_of_def peer_table_def)
qed

lemma kernel_after_events:
  assumes "cluster_events np evs" "kernel_of (ops d0) = empty_kernel"
  shows "kernel_inv nw (event_pairs evs) (peer_table nw evs) (kernel_of (ops (fst (vxlan_handle_events mock nw d0 evs))))"
  using assms cluster_macs[OF assms(1) order.refl, of Map.empty nw]
  by (intro kernel_after) (auto simp: cluster_events_def)

section \<open>Properties\<close>

text \<open>
  C22. Pod traffic reaches the node that holds the subnet. Let the VXLAN network handle any sequence of lease
  events, leases appearing, changing and disappearing, on a datapath that accepts every request (the crate's
  recorder) and starts without routes, and let a kernel obey the requests (a specification: one
  route per destination, one neighbour per address, one forwarding entry per MAC). The node subnets are canonical
  blocks of one size, and no event names a tunnel MAC that stands for another subnet at that moment; a
  node that moves must release its old subnet first, because the removal deletes the forwarding entry of the MAC.
  Then a packet for an address of a leased subnet is tunnelled to the public address of the last
  VXLAN lease announced for it (or routed to it directly where direct routing applies), and a packet for
  any other address is dropped. Leases of the node itself and of other backends are ignored, also one that takes a
  subnet over without a removal.
\<close>
theorem overlay_delivers:
  assumes "same_size_blocks np evs" "macs_in_order nw Map.empty evs" "kernel_of (ops d0) = empty_kernel"
    "k = kernel_of (ops (fst (vxlan_handle_events mock nw d0 evs)))"
  shows "(\<forall>s ip mac dst. peer_table nw evs s = Some (ip, mac) \<longrightarrow> contains s dst \<longrightarrow>
       deliver k dst = (if direct_peer nw ip then DirectRoute ip else Encapsulated ip)) \<and>
    (\<forall>dst. (\<forall>s \<in> dom (peer_table nw evs). \<not> contains s dst) \<longrightarrow> deliver k dst = Dropped)"
proof -
  have inv: "kernel_inv nw (event_pairs evs) (peer_table nw evs) k"
    unfolding assms(4) by (rule kernel_after[OF assms(1-3)])
  moreover have "\<And>s m. (s, m) \<in> event_pairs evs \<Longrightarrow> cidr_ok s \<and> cidr_prefix s = np"
    by (rule event_pairs_facts(1)[OF assms(1)])
  ultimately show ?thesis
    using deliver_kernel[OF inv] by blast
qed

text \<open>A node with one peer, brought up as in the source.\<close>

definition demo_attrs :: VxlanDeviceAttrs where
  "demo_attrs = \<lparr>at_vni = 1, at_name = ''flannel.1'', at_underlay_mtu = 1500, at_vtep_index = 2,
     at_vtep_addr = Some (V4 0xC0A80101), at_vtep_port = 8472, at_gbp = False, at_learning = False,
     at_hw_addr = MacAddr [10, 0, 0, 0, 0, 1]\<rparr>"

definition demo_dp :: MockDatapath where
  "demo_dp = (case VxlanDevice_ensure mock MockDatapath_new demo_attrs of
     (d, Inr dev) \<Rightarrow> fst (VxlanDevice_configure mock dev d (V4 0x0A2A0000) 24) | (d, Inl e) \<Rightarrow> d)"

definition demo_net :: VxlanNetwork where
  "demo_net = \<lparr>vx_dev = \<lparr>dev_index = 1, dev_mac = MacAddr [10, 0, 0, 0, 0, 1], dev_name = ''flannel.1'',
     dev_direct_routing = False\<rparr>, vx_backend = VxlanConfig_default, vx_local_node = ''node-a'',
     vx_local_underlay = None\<rparr>"

definition demo_peer :: PeerLease where
  "demo_peer = \<lparr>peer_node = ''node-b'', peer_subnet = demo_subnet,
     peer_data = BD_Vxlan (V4 0xC0A80102) (MacAddr [10, 0, 0, 0, 0, 2])\<rparr>"

lemma demo_dp_kernel: "kernel_of (ops demo_dp) = empty_kernel"
  by (simp add: demo_dp_def VxlanDevice_ensure_def VxlanDevice_configure_def mock_def MockDatapath_new_def
      mock_push_def kernel_of_def kernel_op_def route_op_def Let_def empty_kernel_def)

lemma demo_subnet_new: "Cidr_new (network demo_subnet) 24 = Inr demo_subnet"
  by (simp add: demo_subnet_def Cidr_new_def Let_def max_prefix_def mask_addr_def v4_mask_def network_def
      mask_eq_exp_minus_1)

text \<open>The same node after it has moved to another subnet.\<close>

definition moved_subnet :: Cidr where
  "moved_subnet = Cidr (V4 0x0A2A0500) 24"

definition moved_peer :: PeerLease where
  "moved_peer = demo_peer\<lparr>peer_subnet := moved_subnet\<rparr>"

theorem overlay_delivers_witness:
  "deliver (kernel_of (ops (fst (vxlan_handle_events mock demo_net demo_dp
     [Added demo_peer, Removed demo_peer, Added moved_peer])))) (V4 0x0A2A0502) = Encapsulated (V4 0xC0A80102)"
proof -
  let ?evs = "[Added demo_peer, Removed demo_peer, Added moved_peer]"
  note peers = moved_peer_def demo_peer_def
  have "Cidr_new (network moved_subnet) 24 = Inr moved_subnet"
    by (simp add: moved_subnet_def Cidr_new_def Let_def max_prefix_def mask_addr_def v4_mask_def network_def mask_eq_exp_minus_1)
  then have size: "same_size_blocks 24 ?evs"
    by (simp add: same_size_blocks_def peers demo_subnet_new)
  have macs: "macs_in_order demo_net Map.empty ?evs"
    by (auto simp: mac_free_def peer_event_def vxlan_peer_def peers demo_net_def split: if_splits)
  have t: "peer_table demo_net ?evs moved_subnet = Some (V4 0xC0A80102, MacAddr [10, 0, 0, 0, 0, 2])"
    by (simp add: peer_table_def peer_event_def vxlan_peer_def peers demo_net_def)
  have c: "contains moved_subnet (V4 0x0A2A0502)"
    by (simp add: contains_def moved_subnet_def v4_mask_def mask_eq_exp_minus_1)
  have "\<not> direct_peer demo_net (V4 0xC0A80102)"
    by (simp add: direct_peer_def demo_net_def)
  then show ?thesis
    using overlay_delivers[OF size macs demo_dp_kernel refl, THEN conjunct1, rule_format, OF t c]
    by (simp del: vxlan_handle_events.simps)
qed

text \<open>
  The move in the other order: the removal of the old lease deletes the forwarding entry of the MAC, and the
  packets for the new subnet are dropped although its lease is the last one announced.
\<close>

lemma moved_node_unreachable:
  "deliver (kernel_of (ops (fst (vxlan_handle_events mock demo_net demo_dp
     [Added demo_peer, Added moved_peer, Removed demo_peer])))) (V4 0x0A2A0502) = Dropped"
proof -
  let ?evs = "[Added demo_peer, Added moved_peer, Removed demo_peer]"
  have log: "ops (fst (vxlan_handle_events mock demo_net demo_dp ?evs)) = ops demo_dp @ concat (map (vxlan_ops demo_net) ?evs)"
    using mock_dp.vxlan_events_log by blast
  have "kernel_of (ops (fst (vxlan_handle_events mock demo_net demo_dp ?evs))) =
      fold kernel_op (concat (map (vxlan_ops demo_net) ?evs)) empty_kernel"
    unfolding log kernel_of_def fold_append comp_apply demo_dp_kernel[unfolded kernel_of_def] ..
  then show ?thesis
    by (simp add: vxlan_ops_def vxlan_peer_def moved_peer_def demo_peer_def demo_net_def direct_peer_def empty_kernel_def
        kernel_op_def route_op_def deliver_def lookup_route_def better_route_def peer_route_def Route_vxlan_def RTNH_F_ONLINK_def
        moved_subnet_def demo_subnet_def contains_def v4_mask_def mask_eq_exp_minus_1 network_def)
qed

end
