(* ===== verification/Flannel_Hostgw.thy ===== *)
theory Flannel_Hostgw
  imports Flannel_Delivery
begin

text \<open>
  The host-gw route network against the kernel, and the declarative route plan against the
  event-driven VXLAN network: the tracked route list is the installed one, what the plan asks for is
  what the events program, and what happens when a datapath request fails.
\<close>

section \<open>The tracked routes\<close>

definition hg_peer :: "RouteNetwork \<Rightarrow> PeerLease \<Rightarrow> (Cidr \<times> IpAddr) option" where
  "hg_peer nw l = (if peer_node l = rn_local_node nw then None
     else case peer_data l of BD_HostGw ip \<Rightarrow> Some (peer_subnet l, ip) | _ \<Rightarrow> None)"

definition hg_event :: "RouteNetwork \<Rightarrow> LeaseEvent \<Rightarrow> (Cidr \<rightharpoonup> IpAddr) \<Rightarrow> (Cidr \<rightharpoonup> IpAddr)" where
  "hg_event nw ev T = (case hg_peer nw (event_lease ev) of
     None \<Rightarrow> T
   | Some (s, ip) \<Rightarrow> (case ev of Added _ \<Rightarrow> T(s \<mapsto> ip) | Removed _ \<Rightarrow> T(s := None)))"

definition hg_table :: "RouteNetwork \<Rightarrow> LeaseEvent list \<Rightarrow> Cidr \<rightharpoonup> IpAddr" where
  "hg_table nw evs = fold (hg_event nw) evs Map.empty"

text \<open>
  A removal carries the data of the lease it removes; the lease cache of the registry guarantees it.
\<close>

fun removals_current :: "RouteNetwork \<Rightarrow> (Cidr \<rightharpoonup> IpAddr) \<Rightarrow> LeaseEvent list \<Rightarrow> bool" where
  "removals_current nw T [] = True"
| "removals_current nw T (ev # evs) =
    ((case ev of
        Added _ \<Rightarrow> True
      | Removed l \<Rightarrow> (case hg_peer nw l of None \<Rightarrow> True | Some (s, ip) \<Rightarrow> T s = Some ip)) \<and>
     removals_current nw (hg_event nw ev T) evs)"

definition hg_inv :: "RouteNetwork \<Rightarrow> (Cidr \<rightharpoonup> IpAddr) \<Rightarrow> RouteNetwork \<Rightarrow> MockDatapath \<Rightarrow> bool" where
  "hg_inv nw0 T nw d \<longleftrightarrow> rn_local_node nw = rn_local_node nw0 \<and> rn_link_index nw = rn_link_index nw0 \<and>
     rn_routes nw = effective_routes d \<and> distinct (map route_dest (rn_routes nw)) \<and>
     set (rn_routes nw) = {Route_host_gw s ip (rn_link_index nw0) | s ip. T s = Some ip}"

lemma effective_push [simp]: "effective_routes (mock_push o' d) = route_op o' (effective_routes d)"
  by (simp add: effective_routes_def mock_push_def)

lemma mock_sel [simp]:
  "dp_route_add mock d r = (mock_push (RouteAdd r) d, Inr ())"
  "dp_route_del mock d r = (mock_push (RouteDel r) d, Inr ())"
  by (simp_all add: mock_def)

lemma host_gw_sel [simp]:
  "route_dest (Route_host_gw s ip i) = s" "route_gw (Route_host_gw s ip i) = Some ip"
  "route_oif (Route_host_gw s ip i) = i"
  by (simp_all add: Route_host_gw_def)

lemma remove_first_None: "remove_first P xs = None \<longleftrightarrow> (\<forall>x \<in> set xs. \<not> P x)"
  by (induction xs) auto

lemma remove_first_dest:
  assumes "distinct (map f xs)" "remove_first (\<lambda>r. f r = x) xs = Some (y, ys)"
  shows "y \<in> set xs \<and> f y = x \<and> ys = filter (\<lambda>r. f r \<noteq> x) xs"
  using assms
proof (induction xs arbitrary: y ys)
  case (Cons z zs)
  show ?case
  proof (cases "f z = x")
    case True
    then have "filter (\<lambda>r. f r \<noteq> x) zs = zs"
      using Cons.prems(1) by (auto simp: filter_id_conv) (metis imageI)
    then show ?thesis
      using True Cons.prems by simp
  next
    case False
    then obtain ys' where "remove_first (\<lambda>r. f r = x) zs = Some (y, ys')" "ys = z # ys'"
      using Cons.prems(2) by auto
    then show ?thesis
      using Cons.IH[of y ys'] Cons.prems(1) False by simp
  qed
qed simp

lemma filter_dest_set:
  "set rs = {Route_host_gw s ip i | s ip. T s = Some ip} \<Longrightarrow>
   set (filter (\<lambda>e. route_dest e \<noteq> x) rs) = {Route_host_gw s ip i | s ip. (T(x := None)) s = Some ip}"
  by (auto split: if_splits)

lemma distinct_filter_snoc:
  "distinct (map f xs) \<Longrightarrow> distinct (map f (filter (\<lambda>e. f e \<noteq> x) xs)) \<and>
   (f y = x \<longrightarrow> distinct (map f (filter (\<lambda>e. f e \<noteq> x) xs @ [y])))"
  by (auto simp: distinct_map_filter)

lemma host_gw_route_add:
  assumes inv: "hg_inv nw0 T nw d"
  shows "\<exists>nw' d'. route_add mock nw d (Route_host_gw s ip (rn_link_index nw)) = (nw', d', Inr ()) \<and>
    hg_inv nw0 (T(s \<mapsto> ip)) nw' d'"
proof -
  let ?r = "Route_host_gw s ip (rn_link_index nw)" and ?rs = "rn_routes nw"
  have li: "rn_link_index nw = rn_link_index nw0" and eff: "?rs = effective_routes d"
    and dist: "distinct (map route_dest ?rs)"
    and mem: "set ?rs = {Route_host_gw s ip (rn_link_index nw0) | s ip. T s = Some ip}"
    and loc: "rn_local_node nw = rn_local_node nw0"
    using inv unfolding hg_inv_def by blast+
  show ?thesis
  proof (cases "list_ex (\<lambda>r. route_equal r ?r) ?rs")
    case True
    then have "T s = Some ip"
      using mem by (auto simp: list_ex_iff route_equal_def)
    then have "T(s \<mapsto> ip) = T"
      by auto
    then show ?thesis
      using True inv by (simp add: route_add_def)
  next
    case False
    let ?rest = "filter (\<lambda>e. route_dest e \<noteq> s) ?rs"
    have new: "hg_inv nw0 (T(s \<mapsto> ip)) (nw\<lparr>rn_routes := ?rest @ [?r]\<rparr>) d'"
      if "effective_routes d' = ?rest @ [?r]" for d'
      using that li loc distinct_filter_snoc[OF dist, of s ?r] filter_dest_set[OF mem, of s]
      by (auto simp: hg_inv_def)
    show ?thesis
    proof (cases "remove_first (\<lambda>r. route_dest r = s) ?rs")
      case None
      then have "?rest = ?rs"
        by (simp add: remove_first_None filter_id_conv)
      then show ?thesis
        using False None new[of "mock_push (RouteAdd ?r) d"] eff by (simp add: route_add_def route_op_def)
    next
      case (Some p)
      obtain stale rest where p: "p = (stale, rest)" by (cases p)
      note st = remove_first_dest[OF dist Some[unfolded p]]
      show ?thesis
        using False Some p st new[of "mock_push (RouteAdd ?r) (mock_push (RouteDel stale) d)"] eff
        by (simp add: route_add_def route_op_def)
    qed
  qed
qed

lemma host_gw_event:
  assumes inv: "hg_inv nw0 T nw d" and cur: "removals_current nw0 T [ev]"
  shows "\<exists>nw' d'. rn_handle_event mock nw d ev = (nw', d', Inr ()) \<and> hg_inv nw0 (hg_event nw0 ev T) nw' d'"
proof -
  have eq: "hg_peer nw l = hg_peer nw0 l" for l
    using inv by (simp add: hg_peer_def hg_inv_def)
  have gr: "hg_peer nw l = None \<Longrightarrow> rn_handle_event mock nw d (Added l) = (nw, d, Inr ()) \<and>
      rn_handle_event mock nw d (Removed l) = (nw, d, Inr ())" for l
    by (auto simp: hg_peer_def rn_handle_event_def get_route_def split: if_splits NodeBackendData.splits)
  show ?thesis
  proof (cases "hg_peer nw0 (event_lease ev)")
    case None
    then show ?thesis
      using inv eq gr by (cases ev) (auto simp: hg_event_def)
  next
    case (Some p)
    obtain s ip where p: "p = (s, ip)" by (cases p)
    have l: "peer_node (event_lease ev) \<noteq> rn_local_node nw"
      "get_route nw (event_lease ev) = Some (Route_host_gw s ip (rn_link_index nw))"
      using Some p inv by (auto simp: hg_peer_def get_route_def hg_inv_def split: if_splits NodeBackendData.splits)
    show ?thesis
    proof (cases ev)
      case (Added l')
      then show ?thesis
        using host_gw_route_add[OF inv, of s ip] l Some p by (simp add: rn_handle_event_def hg_event_def)
    next
      case (Removed l')
      let ?r = "Route_host_gw s ip (rn_link_index nw)"
      have T: "T s = Some ip"
        using cur Some p Removed by simp
      have mem: "set (rn_routes nw) = {Route_host_gw s ip (rn_link_index nw0) | s ip. T s = Some ip}"
        and li: "rn_link_index nw = rn_link_index nw0" and loc: "rn_local_node nw = rn_local_node nw0"
        and dist: "distinct (map route_dest (rn_routes nw))" and eff: "rn_routes nw = effective_routes d"
        using inv unfolding hg_inv_def by blast+
      have same: "filter (\<lambda>r. \<not> route_equal r ?r) (rn_routes nw) = filter (\<lambda>r. route_dest r \<noteq> s) (rn_routes nw)"
        using mem li T by (intro filter_cong) (auto simp: route_equal_def)
      have "hg_inv nw0 (T(s := None)) (nw\<lparr>rn_routes := filter (\<lambda>r. route_dest r \<noteq> s) (rn_routes nw)\<rparr>)
        (mock_push (RouteDel ?r) d)"
        using filter_dest_set[OF mem, of s] distinct_filter_snoc[OF dist, of s] loc li eff
        unfolding hg_inv_def by (simp add: route_op_def)
      then show ?thesis
        using Removed l Some p same by (simp add: rn_handle_event_def hg_event_def)
    qed
  qed
qed

lemma host_gw_events:
  assumes "hg_inv nw0 T nw d" "removals_current nw0 T evs"
  shows "\<exists>nw' d'. rn_handle_events mock nw d evs = (nw', d', Inr ()) \<and> hg_inv nw0 (fold (hg_event nw0) evs T) nw' d'"
  using assms
proof (induction evs arbitrary: T nw d)
  case (Cons ev evs)
  obtain nw' d' where "rn_handle_event mock nw d ev = (nw', d', Inr ())" "hg_inv nw0 (hg_event nw0 ev T) nw' d'"
    using host_gw_event[OF Cons.prems(1), of ev] Cons.prems(2) by auto
  then show ?case
    using Cons by simp
qed simp

section \<open>The plan against the events\<close>

lemma route_of_peer_vxlan:
  assumes "cfg_direct_routing cfg = dev_direct_routing (vx_dev nw)"
  shows "route_of_peer (vx_local_node nw) (BC_Vxlan cfg) (vx_local_underlay nw) l =
      (case vxlan_peer nw l of None \<Rightarrow> []
       | Some (s, ip, mac) \<Rightarrow> [\<lparr>re_dest = s, re_via = if direct_peer nw ip then Gateway ip else Device\<rparr>])"
    and "fdb_of_peer (vx_local_node nw) (BC_Vxlan cfg) (vx_local_underlay nw) l =
      (case vxlan_peer nw l of None \<Rightarrow> []
       | Some (s, ip, mac) \<Rightarrow> if direct_peer nw ip then [] else [\<lparr>fdb_mac = mac, fdb_endpoint = ip\<rparr>])"
    and "neighbor_of (vx_local_node nw) cfg (vx_local_underlay nw) l =
      (case vxlan_peer nw l of None \<Rightarrow> None
       | Some (s, ip, mac) \<Rightarrow> if direct_peer nw ip then None
           else Some \<lparr>ne_ip = network s, ne_mac = mac, ne_family = for_ip (network s)\<rparr>)"
  using assms by (auto simp: route_of_peer_def fdb_of_peer_def neighbor_of_def plan_peer_def vxlan_peer_def
      direct_peer_def split: NodeBackendData.split)

lemma peer_event_added:
  "peer_event nw (Added l) T = (case vxlan_peer nw l of None \<Rightarrow> T | Some (s, ip, mac) \<Rightarrow> T(s \<mapsto> (ip, mac)))"
  by (cases "vxlan_peer nw l") (auto simp: peer_event_def)

lemma peer_table_added:
  assumes "distinct (map peer_subnet ls)"
  shows "fold (peer_event nw) (map Added ls) T s = Some x \<longleftrightarrow>
    (\<exists>l \<in> set ls. vxlan_peer nw l = Some (s, x)) \<or> T s = Some x \<and> (\<forall>l \<in> set ls. \<forall>y. vxlan_peer nw l \<noteq> Some (s, y))"
  using assms
proof (induction ls arbitrary: T)
  case (Cons l ls)
  have sub: "vxlan_peer nw m = Some (t, y) \<Longrightarrow> t = peer_subnet m" for m t y
    by (auto simp: vxlan_peer_def split: if_splits NodeBackendData.splits)
  have IH: "fold (peer_event nw) (map Added ls) (peer_event nw (Added l) T) s = Some x \<longleftrightarrow>
    (\<exists>l \<in> set ls. vxlan_peer nw l = Some (s, x)) \<or>
    peer_event nw (Added l) T s = Some x \<and> (\<forall>l \<in> set ls. \<forall>y. vxlan_peer nw l \<noteq> Some (s, y))"
    using Cons by simp
  have fresh: "vxlan_peer nw l = Some (s, y) \<Longrightarrow> m \<in> set ls \<Longrightarrow> vxlan_peer nw m \<noteq> Some (s, z)" for m y z
    using sub[of l s y] sub[of m s z] Cons.prems by (auto simp: image_iff)
  show ?case
  proof (cases "vxlan_peer nw l")
    case None
    then show ?thesis
      using IH by (simp add: peer_event_added)
  next
    case (Some p)
    then obtain t ip mac where p: "vxlan_peer nw l = Some (t, ip, mac)"
      by (cases p) auto
    show ?thesis
    proof (cases "t = s")
      case True
      then show ?thesis
        using IH p fresh by (auto simp: peer_event_added)
    next
      case False
      then show ?thesis
        using IH p by (auto simp: peer_event_added)
    qed
  qed
qed simp

lemma mem_concat_peers:
  "e \<in> set (concat (map (\<lambda>l. case vp l of None \<Rightarrow> [] | Some (s, ip, mac) \<Rightarrow> g s ip mac) ls)) \<longleftrightarrow>
   (\<exists>s ip mac. (\<exists>l \<in> set ls. vp l = Some (s, ip, mac)) \<and> e \<in> set (g s ip mac))"
proof -
  have "e \<in> set (case vp l of None \<Rightarrow> [] | Some (s, ip, mac) \<Rightarrow> g s ip mac) \<longleftrightarrow>
    (\<exists>s ip mac. vp l = Some (s, ip, mac) \<and> e \<in> set (g s ip mac))" for l
    by (cases "vp l") auto
  then show ?thesis
    unfolding set_concat set_map by (simp add: bex_simps) blast
qed

lemma mem_map_filter: "y \<in> set (List.map_filter f xs) \<longleftrightarrow> (\<exists>x \<in> set xs. f x = Some y)"
  by (induction xs) (auto simp: map_filter_simps split: option.splits)

section \<open>Properties\<close>

text \<open>
  The host-gw network tracks what is installed: after any sequence of lease events whose removals
  carry current data, starting from nothing, no request has failed, the tracked list equals the
  effective route table of the recorder entry by entry, there is one route per destination, and it
  is exactly the route to the current public address of each leased subnet.
\<close>
theorem host_gw_tracks_kernel:
  assumes "nw = RouteNetwork_host_gw node link" "removals_current nw Map.empty evs"
    "rn_handle_events mock nw MockDatapath_new evs = (nw', d', r)"
  shows "r = Inr () \<and> rn_routes nw' = effective_routes d' \<and> distinct (map route_dest (rn_routes nw')) \<and>
    set (rn_routes nw') = {Route_host_gw s ip link | s ip. hg_table nw evs s = Some ip}"
proof -
  have "hg_inv nw Map.empty nw MockDatapath_new"
    by (simp add: assms(1) hg_inv_def RouteNetwork_host_gw_def MockDatapath_new_def effective_routes_def)
  then have "r = Inr () \<and> hg_inv nw (hg_table nw evs) nw' d'"
    using host_gw_events[OF _ assms(2), of nw MockDatapath_new] assms(3) by (auto simp: hg_table_def)
  moreover have "rn_link_index nw = link"
    by (simp add: assms(1) RouteNetwork_host_gw_def)
  ultimately show ?thesis
    unfolding hg_inv_def by blast
qed

theorem host_gw_tracks_kernel_witness:
  "\<exists>nw' d' r. rn_handle_events mock (RouteNetwork_host_gw ''a'' 4) MockDatapath_new
      [Added \<lparr>peer_node = ''b'', peer_subnet = demo_subnet, peer_data = BD_HostGw (V4 0xC0A80102)\<rparr>] = (nw', d', r) \<and>
    r = Inr () \<and> rn_routes nw' = effective_routes d'"
proof -
  obtain nw' d' r where run: "rn_handle_events mock (RouteNetwork_host_gw ''a'' 4) MockDatapath_new
      [Added \<lparr>peer_node = ''b'', peer_subnet = demo_subnet, peer_data = BD_HostGw (V4 0xC0A80102)\<rparr>] = (nw', d', r)"
    by (metis prod_cases3)
  show ?thesis
    using host_gw_tracks_kernel[OF refl _ run] run by simp
qed

text \<open>
  Plan and events agree: for peers with different subnets and tunnel MACs, and a device that
  follows the direct-routing option of the configuration, adding the peers one by one on a fresh
  kernel installs exactly the routes of \<open>compute_route_plan\<close>, and every forwarding entry of the plan
  and every entry of \<open>compute_neighbor_plan\<close> is present in the kernel.
\<close>
theorem plan_is_programmed:
  assumes "cluster_events np (map Added peers)" "distinct (map peer_subnet peers)"
    "cfg_direct_routing cfg = dev_direct_routing (vx_dev nw)"
    "plan = compute_route_plan (vx_local_node nw) (BC_Vxlan cfg) peers (vx_local_underlay nw)"
    "k = kernel_of (ops (fst (vxlan_handle_events mock nw MockDatapath_new (map Added peers))))"
  shows "set (k_routes k) = {case re_via e of
        Gateway ip \<Rightarrow> Route_host_gw (re_dest e) ip 0
      | Device \<Rightarrow> Route_vxlan (re_dest e) (network (re_dest e)) (dev_index (vx_dev nw)) | e. e \<in> set (plan_routes plan)} \<and>
    (\<forall>e \<in> set (plan_fdb plan). k_fdb k (fdb_mac e) = Some (fdb_endpoint e)) \<and>
    (\<forall>e \<in> set (compute_neighbor_plan (vx_local_node nw) (BC_Vxlan cfg) peers (vx_local_underlay nw)).
       k_arp k (ne_ip e) = Some (ne_mac e))"
proof -
  let ?T = "peer_table nw (map Added peers)"
  have "kernel_of (ops MockDatapath_new) = empty_kernel"
    by (simp add: MockDatapath_new_def kernel_of_def)
  then have inv: "kernel_inv nw (event_pairs (map Added peers)) ?T k"
    using kernel_after_events[OF assms(1)] by (simp add: assms(5))
  have T: "?T s = Some x \<longleftrightarrow> (\<exists>l \<in> set peers. vxlan_peer nw l = Some (s, x))" for s x
    using peer_table_added[OF assms(2), of nw Map.empty] by (simp add: peer_table_def)
  note entries = route_of_peer_vxlan[OF assms(3)]
  have routes: "set (plan_routes plan) = {\<lparr>re_dest = s, re_via = if direct_peer nw ip then Gateway ip else Device\<rparr>
      | s ip mac. ?T s = Some (ip, mac)}"
    unfolding assms(4) compute_route_plan_eq T entries RoutePlan.select_convs set_sort
    by (simp add: set_eq_iff mem_concat_peers del: set_concat) blast
  have fdb: "set (plan_fdb plan) = {\<lparr>fdb_mac = mac, fdb_endpoint = ip\<rparr>
      | s ip mac. ?T s = Some (ip, mac) \<and> \<not> direct_peer nw ip}"
    unfolding assms(4) compute_route_plan_eq T entries RoutePlan.select_convs set_sort
    by (auto simp: set_eq_iff mem_concat_peers simp del: set_concat split: if_splits)
  have nb: "\<exists>s ip. ?T s = Some (ip, ne_mac e) \<and> \<not> direct_peer nw ip \<and> ne_ip e = network s"
    if "e \<in> set (compute_neighbor_plan (vx_local_node nw) (BC_Vxlan cfg) peers (vx_local_underlay nw))" for e
    using that unfolding T
    by (fastforce simp: compute_neighbor_plan_def mem_map_filter entries split: option.splits if_splits)
  define prog where "prog e = (case re_via e of
        Gateway ip \<Rightarrow> Route_host_gw (re_dest e) ip 0
      | Device \<Rightarrow> Route_vxlan (re_dest e) (network (re_dest e)) (dev_index (vx_dev nw)))" for e :: RouteEntry
  have prog: "prog \<lparr>re_dest = s, re_via = if direct_peer nw ip then Gateway ip else Device\<rparr> = peer_route nw s ip"
    for s ip
    by (simp add: prog_def peer_route_def)
  have "set (k_routes k) = {peer_route nw s ip | s ip mac. ?T s = Some (ip, mac)}"
    using inv by (simp add: kernel_inv_def)
  also have "\<dots> = {prog e | e. e \<in> set (plan_routes plan)}"
    unfolding routes prog[symmetric] by blast
  finally have "set (k_routes k) = {prog e | e. e \<in> set (plan_routes plan)}" .
  moreover have "\<forall>e \<in> set (plan_fdb plan). k_fdb k (fdb_mac e) = Some (fdb_endpoint e)"
    using inv unfolding kernel_inv_def fdb by fastforce
  moreover have "\<forall>e \<in> set (compute_neighbor_plan (vx_local_node nw) (BC_Vxlan cfg) peers (vx_local_underlay nw)).
       k_arp k (ne_ip e) = Some (ne_mac e)"
    using inv nb unfolding kernel_inv_def by metis
  ultimately show ?thesis
    unfolding prog_def by blast
qed

theorem plan_is_programmed_witness:
  "\<exists>k. k = kernel_of (ops (fst (vxlan_handle_events mock demo_net MockDatapath_new (map Added [demo_peer])))) \<and>
    (\<forall>e \<in> set (plan_fdb (compute_route_plan ''node-a'' (BC_Vxlan VxlanConfig_default) [demo_peer] None)).
       k_fdb k (fdb_mac e) = Some (fdb_endpoint e))"
proof -
  have ce: "cluster_events 24 (map Added [demo_peer])"
    by (simp add: cluster_events_def same_size_blocks_def demo_peer_def demo_subnet_new)
  have "cfg_direct_routing VxlanConfig_default = dev_direct_routing (vx_dev demo_net)"
    "vx_local_node demo_net = ''node-a''" "vx_local_underlay demo_net = None"
    by (simp_all add: VxlanConfig_default_def demo_net_def)
  then show ?thesis
    using plan_is_programmed[OF ce _ _ refl refl, of VxlanConfig_default demo_net] by auto
qed

text \<open>
  A failed replacement loses both routes: when a peer's public address changes and the datapath
  refuses to delete the old route, the handler returns that error at once. The old route is then no
  longer tracked although it is still installed, the new one is neither installed nor tracked, and
  \<open>reconcile\<close>, which only looks at tracked routes, repairs neither.
\<close>
theorem failed_replacement_loses_route:
  assumes "peer_node lease \<noteq> rn_local_node nw" "peer_data lease = BD_HostGw ip"
    "distinct (map route_dest (rn_routes nw))" "old \<in> set (rn_routes nw)"
    "route_dest old = peer_subnet lease" "route_gw old \<noteq> Some ip"
    "dp_route_del D d old = (d', Inl e)"
  shows "\<exists>nw'. rn_handle_event D nw d (Added lease) = (nw', d', Inl e) \<and>
    rn_routes nw' = filter (\<lambda>r. route_dest r \<noteq> peer_subnet lease) (rn_routes nw) \<and>
    (\<forall>r \<in> set (rn_routes nw'). route_dest r \<noteq> peer_subnet lease) \<and>
    (\<forall>present. (\<forall>r \<in> set (rn_routes nw). r \<noteq> old \<longrightarrow> list_ex (\<lambda>p. route_equal p r) present) \<longrightarrow>
      reconcile D nw' d' present = (d', Inr ()))"
proof -
  let ?dest = "\<lambda>r. route_dest r = peer_subnet lease"
  obtain stale rest where rf: "remove_first ?dest (rn_routes nw) = Some (stale, rest)"
    using remove_first_None[of ?dest "rn_routes nw"] assms(4,5) by (cases "remove_first ?dest (rn_routes nw)") auto
  note st = remove_first_dest[OF assms(3) rf]
  have uniq: "r = old" if "r \<in> set (rn_routes nw)" "route_dest r = peer_subnet lease" for r
    using that assms(3-5) by (metis distinct_map inj_onD)
  then have stale: "stale = old"
    using st by blast
  have "\<not> list_ex (\<lambda>r. route_equal r (Route_host_gw (peer_subnet lease) ip (rn_link_index nw))) (rn_routes nw)"
    using uniq assms(6) by (auto simp: list_ex_iff route_equal_def)
  then have run: "rn_handle_event D nw d (Added lease) = (nw\<lparr>rn_routes := rest\<rparr>, d', Inl e)"
    using assms(1,2,7) rf stale by (simp add: rn_handle_event_def get_route_def route_add_def)
  have rec: "reconcile_routes D rs present d' = (d', Inr ())"
    if "\<forall>r \<in> set rs. list_ex (\<lambda>p. route_equal p r) present" for rs present
    using that by (induction rs) auto
  have "reconcile D (nw\<lparr>rn_routes := rest\<rparr>) d' present = (d', Inr ())"
    if "\<forall>r \<in> set (rn_routes nw). r \<noteq> old \<longrightarrow> list_ex (\<lambda>p. route_equal p r) present" for present
  proof -
    have "\<forall>r \<in> set rest. list_ex (\<lambda>p. route_equal p r) present"
      using that st assms(5) by auto
    then show ?thesis
      using rec by (simp add: reconcile_def)
  qed
  then show ?thesis
    using run st by auto
qed

text \<open>A datapath that refuses every deletion.\<close>

definition refusing :: "MockDatapath Datapath" where
  "refusing = mock\<lparr>dp_route_del := (\<lambda>d r. (d, Inl (Netlink ''route_del'' 3)))\<rparr>"

theorem failed_replacement_loses_route_witness:
  "\<exists>nw'. rn_handle_event refusing
      ((RouteNetwork_host_gw ''a'' 4)\<lparr>rn_routes := [Route_host_gw demo_subnet (V4 1) 4]\<rparr>) MockDatapath_new
      (Added \<lparr>peer_node = ''b'', peer_subnet = demo_subnet, peer_data = BD_HostGw (V4 2)\<rparr>) =
    (nw', MockDatapath_new, Inl (Netlink ''route_del'' 3)) \<and> rn_routes nw' = []"
  using failed_replacement_loses_route[of "\<lparr>peer_node = ''b'', peer_subnet = demo_subnet, peer_data = BD_HostGw (V4 2)\<rparr>"
      "(RouteNetwork_host_gw ''a'' 4)\<lparr>rn_routes := [Route_host_gw demo_subnet (V4 1) 4]\<rparr>" "V4 2"
      "Route_host_gw demo_subnet (V4 1) 4" refusing MockDatapath_new MockDatapath_new "Netlink ''route_del'' 3"]
  by (auto simp: RouteNetwork_host_gw_def refusing_def)

text \<open>
  A peer that changes its backend leaves its old route behind: once the host-gw network has
  installed a route for a lease, further events for the same subnet that carry data of another
  backend, including the removal of the lease, change nothing, so the route to a subnet that nobody
  holds stays both tracked and installed.
\<close>
theorem backend_switch_leaks_route:
  assumes "\<forall>ev \<in> set evs. peer_subnet (event_lease ev) = s \<longrightarrow> (\<forall>ip. peer_data (event_lease ev) \<noteq> BD_HostGw ip)"
    "removals_current nw Map.empty (Added l # evs)" "nw = RouteNetwork_host_gw node link"
    "peer_node l \<noteq> node" "peer_subnet l = s" "peer_data l = BD_HostGw ip"
    "rn_handle_events mock nw MockDatapath_new (Added l # evs) = (nw', d', r)"
  shows "Route_host_gw s ip link \<in> set (rn_routes nw') \<and> Route_host_gw s ip link \<in> set (effective_routes d')"
proof -
  have start: "hg_inv nw Map.empty nw MockDatapath_new"
    by (simp add: assms(3) hg_inv_def RouteNetwork_host_gw_def MockDatapath_new_def effective_routes_def)
  have inv: "hg_inv nw (hg_table nw (Added l # evs)) nw' d'"
    using host_gw_events[OF start assms(2)] assms(7) by (auto simp: hg_table_def)
  have other: "hg_event nw ev T s = T s" if "ev \<in> set evs" for ev T
  proof -
    have "\<forall>ip'. hg_peer nw (event_lease ev) \<noteq> Some (s, ip')"
      using assms(1) that by (auto simp: hg_peer_def split: if_splits NodeBackendData.splits)
    then show ?thesis
      by (auto simp: hg_event_def split: option.splits LeaseEvent.splits)
  qed
  have keep: "fold (hg_event nw) es T s = T s" if "set es \<subseteq> set evs" for es T
    using that
  proof (induction es arbitrary: T)
    case (Cons ev es)
    then show ?case
      using other[of ev T] Cons.IH[of "hg_event nw ev T"] by simp
  qed simp
  have "hg_event nw (Added l) Map.empty s = Some ip"
    using assms(3-6) by (simp add: hg_event_def hg_peer_def RouteNetwork_host_gw_def)
  then have "hg_table nw (Added l # evs) s = Some ip"
    using keep[of evs] by (simp add: hg_table_def)
  moreover have "rn_link_index nw = link"
    by (simp add: assms(3) RouteNetwork_host_gw_def)
  ultimately show ?thesis
    using inv unfolding hg_inv_def by fastforce
qed

theorem backend_switch_leaks_route_witness:
  "\<exists>nw' d' r. rn_handle_events mock (RouteNetwork_host_gw ''a'' 4) MockDatapath_new
      [Added \<lparr>peer_node = ''b'', peer_subnet = demo_subnet, peer_data = BD_HostGw (V4 2)\<rparr>,
       Added \<lparr>peer_node = ''b'', peer_subnet = demo_subnet, peer_data = BD_Vxlan (V4 2) (MacAddr [1])\<rparr>,
       Removed \<lparr>peer_node = ''b'', peer_subnet = demo_subnet, peer_data = BD_Vxlan (V4 2) (MacAddr [1])\<rparr>] =
      (nw', d', r) \<and> Route_host_gw demo_subnet (V4 2) 4 \<in> set (effective_routes d')"
proof -
  obtain nw' d' r where run: "rn_handle_events mock (RouteNetwork_host_gw ''a'' 4) MockDatapath_new
      [Added \<lparr>peer_node = ''b'', peer_subnet = demo_subnet, peer_data = BD_HostGw (V4 2)\<rparr>,
       Added \<lparr>peer_node = ''b'', peer_subnet = demo_subnet, peer_data = BD_Vxlan (V4 2) (MacAddr [1])\<rparr>,
       Removed \<lparr>peer_node = ''b'', peer_subnet = demo_subnet, peer_data = BD_Vxlan (V4 2) (MacAddr [1])\<rparr>] = (nw', d', r)"
    by (metis prod_cases3)
  show ?thesis
    using backend_switch_leaks_route[OF _ _ refl _ _ _ run, of demo_subnet "V4 2"] run
    by (auto simp: hg_peer_def)
qed

end
