(* ===== verification/Flannel_Pods.thy ===== *)
theory Flannel_Pods
  imports Flannel_Leases
begin

text \<open>
  The pod network of a whole cluster: the lease manager, one address allocator per node and the pods
  they gave addresses to. No two pods have the same address.
\<close>

section \<open>Pods of a cluster\<close>

text \<open>
  A cluster in operation: the lease manager, the address allocator each node runs on its subnet, and
  the pods, each with its node and the address it was given. A node that has been leased a subnet and
  has no allocator yet starts one; a node that gives up its lease goes with its pods.
\<close>

record cluster_net =
  net_mgr :: SubnetManager
  net_ipam :: "NodeId \<rightharpoonup> PodIpam"
  net_pods :: "(NodeId \<times> IpAddr) list"

datatype cluster_op =
    NodeJoin NodeId
  | NodeReserve NodeId Cidr
  | NodeLeave NodeId
  | PodStart NodeId
  | PodStartAt NodeId IpAddr
  | PodStop NodeId IpAddr

definition start_allocator :: "NodeId \<Rightarrow> SubnetManager \<times> (SubnetError + SubnetLease) \<Rightarrow> cluster_net \<Rightarrow> cluster_net" where
  "start_allocator node answer w =
    (let w1 = w\<lparr>net_mgr := fst answer\<rparr> in
     case snd answer of
       Inl _ \<Rightarrow> w1
     | Inr lease \<Rightarrow>
        (case (net_ipam w node, PodIpam_new (lease_subnet lease)) of
           (None, Inr p) \<Rightarrow> w1\<lparr>net_ipam := (net_ipam w)(node \<mapsto> p)\<rparr>
         | _ \<Rightarrow> w1))"

fun cluster_step :: "cluster_net \<Rightarrow> cluster_op \<Rightarrow> cluster_net" where
  "cluster_step w (NodeJoin node) = start_allocator node (subnet_allocate (net_mgr w) node) w"
| "cluster_step w (NodeReserve node s) = start_allocator node (subnet_reserve (net_mgr w) node s) w"
| "cluster_step w (NodeLeave node) =
    \<lparr>net_mgr = fst (subnet_release (net_mgr w) node), net_ipam = (net_ipam w)(node := None),
     net_pods = filter (\<lambda>pod. fst pod \<noteq> node) (net_pods w)\<rparr>"
| "cluster_step w (PodStart node) =
    (case net_ipam w node of
       None \<Rightarrow> w
     | Some p \<Rightarrow>
        (let w1 = w\<lparr>net_ipam := (net_ipam w)(node \<mapsto> fst (pod_allocate p))\<rparr> in
         case snd (pod_allocate p) of
           Inl _ \<Rightarrow> w1
         | Inr ip \<Rightarrow> w1\<lparr>net_pods := net_pods w @ [(node, ip)]\<rparr>))"
| "cluster_step w (PodStartAt node ip) =
    (case net_ipam w node of
       None \<Rightarrow> w
     | Some p \<Rightarrow>
        (let w1 = w\<lparr>net_ipam := (net_ipam w)(node \<mapsto> fst (pod_assign p ip))\<rparr> in
         case snd (pod_assign p ip) of
           Inl _ \<Rightarrow> w1
         | Inr _ \<Rightarrow> w1\<lparr>net_pods := net_pods w @ [(node, ip)]\<rparr>))"
| "cluster_step w (PodStop node ip) =
    (case net_ipam w node of
       None \<Rightarrow> w
     | Some p \<Rightarrow>
        (let w1 = w\<lparr>net_ipam := (net_ipam w)(node \<mapsto> fst (pod_free p ip))\<rparr> in
         case snd (pod_free p ip) of
           Inl _ \<Rightarrow> w1
         | Inr _ \<Rightarrow> w1\<lparr>net_pods := remove1 (node, ip) (net_pods w)\<rparr>))"

fun cluster_op_ok :: "cluster_op \<Rightarrow> bool" where
  "cluster_op_ok (NodeReserve node s) \<longleftrightarrow> Cidr_new (network s) (prefix_len s) = Inr s"
| "cluster_op_ok _ \<longleftrightarrow> True"

inductive cluster_net_run :: "Cidr \<Rightarrow> u8 \<Rightarrow> cluster_net \<Rightarrow> bool" for c np where
  net_start: "SubnetManager_new c np = Inr m \<Longrightarrow>
    cluster_net_run c np \<lparr>net_mgr = m, net_ipam = Map.empty, net_pods = []\<rparr>"
| net_more: "cluster_net_run c np w \<Longrightarrow> cluster_op_ok op' \<Longrightarrow> cluster_net_run c np (cluster_step w op')"

section \<open>The invariant of a cluster\<close>

definition addrs_of :: "(NodeId \<times> IpAddr) list \<Rightarrow> NodeId \<Rightarrow> IpAddr set" where
  "addrs_of pds n = {ip. (n, ip) \<in> set pds}"

text \<open>Every allocator runs on the subnet of its node, and its assigned addresses are the node's pods.\<close>

fun node_ok :: "Cidr option \<Rightarrow> PodIpam option \<Rightarrow> IpAddr set \<Rightarrow> bool" where
  "node_ok h None S \<longleftrightarrow> S = {}"
| "node_ok h (Some p) S \<longleftrightarrow> (\<exists>s. h = Some s \<and> ipam_inv s p \<and> pods p = S)"

definition net_inv :: "Cidr \<Rightarrow> u8 \<Rightarrow> cluster_net \<Rightarrow> bool" where
  "net_inv c np w \<longleftrightarrow> mgr_inv c np (net_mgr w) \<and> distinct (net_pods w) \<and>
     (\<forall>n. node_ok (holder (net_mgr w) n) (net_ipam w n) (addrs_of (net_pods w) n))"

lemma net_inv_node: "net_inv c np w \<Longrightarrow> node_ok (holder (net_mgr w) n) (net_ipam w n) (addrs_of (net_pods w) n)"
  by (simp add: net_inv_def)

lemma addrs_of_simps:
  "addrs_of [] n = {}" "addrs_of (pds @ [(m, ip)]) n = (if m = n then insert ip (addrs_of pds n) else addrs_of pds n)"
  "addrs_of (filter (\<lambda>pod. fst pod \<noteq> m) pds) n = (if m = n then {} else addrs_of pds n)"
  "distinct pds \<Longrightarrow> addrs_of (remove1 (m, ip) pds) n = (if m = n then addrs_of pds n - {ip} else addrs_of pds n)"
  by (auto simp: addrs_of_def)

lemma leased_block_ok:
  assumes "pool_ok c np" "mgr_inv c np m" "holder m n = Some s"
  shows "block_ok s"
proof -
  have "s \<in> node_subnets c np" using holder_ran_subset[OF assms(2)] assms(3) by (auto simp: ran_def)
  then show ?thesis
    using assms(1) ip_width_le[of "cidr_addr s"]
    by (auto simp: node_subnets_def pool_ok_def block_ok_def host_bits_def prefix_len_def)
qed

lemma usable_finite:
  assumes "block_ok s" "ipam_inv s p"
  shows "finite (usable s)"
proof (rule finite_subset)
  show "usable s \<subseteq> (\<lambda>i. projr (nth_address s i)) ` UNIV"
  proof
    fix a assume "a \<in> usable s"
    then obtain i where "nth_address s i = Inr a" using usable_addrs[OF assms] by (auto simp: nb.addrs_def)
    then have "a = projr (nth_address s i)" by simp
    then show "a \<in> (\<lambda>i. projr (nth_address s i)) ` UNIV" by blast
  qed
qed simp

lemma allocate_fresh:
  assumes "block_ok s" "ipam_inv s p"
  shows "case snd (pod_allocate p) of
      Inl _ \<Rightarrow> pods (fst (pod_allocate p)) = pods p
    | Inr ip \<Rightarrow> ip \<notin> pods p \<and> pods (fst (pod_allocate p)) = insert ip (pods p)"
proof -
  note r = allocate_refines[OF assms, unfolded pool_spec_def]
  show ?thesis
  proof (cases "usable s \<subseteq> pods p")
    case True
    then show ?thesis using r by (cases "snd (pod_allocate p)") (simp_all add: ipam_step_def)
  next
    case False
    then have "Min (usable s - pods p) \<in> usable s - pods p"
      using usable_finite[OF assms] by (intro Min_in) auto
    then show ?thesis using False r by (cases "snd (pod_allocate p)") (simp_all add: ipam_step_def)
  qed
qed

lemma assign_fresh:
  assumes "block_ok s" "ipam_inv s p"
  shows "case snd (pod_assign p ip) of
      Inl _ \<Rightarrow> pods (fst (pod_assign p ip)) = pods p
    | Inr _ \<Rightarrow> ip \<notin> pods p \<and> pods (fst (pod_assign p ip)) = insert ip (pods p)"
  using assign_refines[OF assms, of ip, unfolded pool_spec_def]
  by (cases "snd (pod_assign p ip)") (auto simp: ipam_step_def split: if_splits)

lemma free_exact:
  assumes "block_ok s" "ipam_inv s p"
  shows "case snd (pod_free p ip) of
      Inl _ \<Rightarrow> pods (fst (pod_free p ip)) = pods p
    | Inr _ \<Rightarrow> pods (fst (pod_free p ip)) = pods p - {ip}"
  using free_refines[OF assms, of ip, unfolded pool_spec_def]
  by (cases "snd (pod_free p ip)") (auto simp: ipam_step_def split: if_splits)

lemma ipam_ops_inv:
  assumes "ipam_inv s p"
  shows "ipam_inv s (fst (pod_allocate p))" "ipam_inv s (fst (pod_assign p ip))" "ipam_inv s (fst (pod_free p ip))"
  using ipam_step_inv[OF assms, of Allocate] ipam_step_inv[OF assms, of "Assign ip"]
    ipam_step_inv[OF assms, of "Free ip"]
  by (simp_all add: ipam_step_def)

lemma net_inv_pods:
  assumes "pool_ok c np" "net_inv c np w"
  shows "net_inv c np (cluster_step w (PodStart n))" "net_inv c np (cluster_step w (PodStartAt n ip))"
    "net_inv c np (cluster_step w (PodStop n ip))"
proof -
  have all: "net_inv c np (cluster_step w (PodStart n)) \<and> net_inv c np (cluster_step w (PodStartAt n ip)) \<and>
      net_inv c np (cluster_step w (PodStop n ip))"
  proof (cases "net_ipam w n")
    case None
    then show ?thesis using assms(2) by simp
  next
    case (Some p)
    then obtain s where s: "holder (net_mgr w) n = Some s" "ipam_inv s p" "pods p = addrs_of (net_pods w) n"
      using net_inv_node[OF assms(2), of n] by auto
    have blk: "block_ok s" using leased_block_ok[OF assms(1) _ s(1)] assms(2) by (simp add: net_inv_def)
    have mem: "(n, x) \<in> set (net_pods w) \<longleftrightarrow> x \<in> pods p" for x by (simp add: s(3) addrs_of_def)
    note iv = ipam_ops_inv[OF s(2)]
    have "net_inv c np (cluster_step w (PodStart n))"
      using allocate_fresh[OF blk s(2)] Some s iv mem assms(2)
      by (cases "snd (pod_allocate p)") (simp_all add: net_inv_def Let_def addrs_of_simps)
    moreover have "net_inv c np (cluster_step w (PodStartAt n ip))"
      using assign_fresh[OF blk s(2), of ip] Some s iv mem assms(2)
      by (cases "snd (pod_assign p ip)") (simp_all add: net_inv_def Let_def addrs_of_simps)
    moreover have "net_inv c np (cluster_step w (PodStop n ip))"
      using free_exact[OF blk s(2), of ip] Some s iv mem assms(2)
      by (cases "snd (pod_free p ip)") (simp_all add: net_inv_def Let_def addrs_of_simps)
    ultimately show ?thesis by blast
  qed
  then show "net_inv c np (cluster_step w (PodStart n))" "net_inv c np (cluster_step w (PodStartAt n ip))"
    "net_inv c np (cluster_step w (PodStop n ip))" by auto
qed

text \<open>A lease operation of a node leaves the other nodes' leases, and a lease it already has, alone.\<close>

lemma lease_grants:
  assumes "pool_ok c np" "mgr_inv c np m" "lease_op_ok op'" "op' = LeaseAllocate n \<or> (\<exists>s. op' = LeaseReserve n s)"
  shows "mgr_inv c np (fst (lease_step m op'))" "n' \<noteq> n \<Longrightarrow> holder (fst (lease_step m op')) n' = holder m n'"
    "holder m n = Some s \<Longrightarrow> holder (fst (lease_step m op')) n = Some s"
    "snd (lease_step m op') = Inr lease \<Longrightarrow> holder (fst (lease_step m op')) n = Some (lease_subnet lease)"
  using lease_step_refines[OF assms(1-3)] assms(4)
  by (auto simp: refines_step_def lease_spec_def Let_def split: if_splits option.splits)

lemma net_inv_start_allocator:
  assumes inv: "net_inv c np w" and mgr: "mgr_inv c np (fst answer)"
    and others: "\<And>n'. n' \<noteq> n \<Longrightarrow> holder (fst answer) n' = holder (net_mgr w) n'"
    and kept: "\<And>s. holder (net_mgr w) n = Some s \<Longrightarrow> holder (fst answer) n = Some s"
    and given: "\<And>lease. snd answer = Inr lease \<Longrightarrow> holder (fst answer) n = Some (lease_subnet lease)"
  shows "net_inv c np (start_allocator n answer w)"
proof -
  have node: "node_ok (holder (fst answer) m) (net_ipam w m) (addrs_of (net_pods w) m)" for m
    using net_inv_node[OF inv, of m] others[of m] kept by (cases "m = n"; cases "net_ipam w m") auto
  have same: "net_inv c np (w\<lparr>net_mgr := fst answer\<rparr>)" using inv mgr node by (simp add: net_inv_def)
  show ?thesis
  proof (cases "\<exists>lease p. snd answer = Inr lease \<and> net_ipam w n = None \<and> PodIpam_new (lease_subnet lease) = Inr p")
    case True
    then obtain lease p where l: "snd answer = Inr lease" "net_ipam w n = None" "PodIpam_new (lease_subnet lease) = Inr p" by blast
    then have "start_allocator n answer w = w\<lparr>net_mgr := fst answer, net_ipam := (net_ipam w)(n \<mapsto> p)\<rparr>"
      by (simp add: start_allocator_def)
    moreover have "addrs_of (net_pods w) n = {}" using net_inv_node[OF inv, of n] l(2) by simp
    ultimately show ?thesis
      using inv mgr node ipam_new_inv[OF l(3)] given[OF l(1)] by (auto simp: net_inv_def)
  next
    case False
    then have "start_allocator n answer w = w\<lparr>net_mgr := fst answer\<rparr>"
      by (auto simp: start_allocator_def Let_def split: sum.split option.split)
    then show ?thesis using same by simp
  qed
qed

lemma net_inv_step:
  assumes "pool_ok c np" "net_inv c np w" "cluster_op_ok op'"
  shows "net_inv c np (cluster_step w op')"
proof (cases op')
  case (NodeJoin n)
  have m: "mgr_inv c np (net_mgr w)" using assms(2) by (simp add: net_inv_def)
  show ?thesis
    using net_inv_start_allocator[OF assms(2), of "subnet_allocate (net_mgr w) n" n]
      lease_grants[OF assms(1) m, of "LeaseAllocate n" n] NodeJoin
    by (simp add: lease_step_def)
next
  case (NodeReserve n s)
  have m: "mgr_inv c np (net_mgr w)" using assms(2) by (simp add: net_inv_def)
  show ?thesis
    using net_inv_start_allocator[OF assms(2), of "subnet_reserve (net_mgr w) n s" n]
      lease_grants[OF assms(1) m, of "LeaseReserve n s" n] NodeReserve assms(3)
    by (simp add: lease_step_def)
next
  case (NodeLeave n)
  have m: "mgr_inv c np (net_mgr w)" using assms(2) by (simp add: net_inv_def)
  have "mgr_inv c np (fst (subnet_release (net_mgr w) n))"
    "\<And>n'. n' \<noteq> n \<Longrightarrow> holder (fst (subnet_release (net_mgr w) n)) n' = holder (net_mgr w) n'"
    using lease_step_refines[OF assms(1) m, of "LeaseRelease n"]
    by (auto simp: refines_step_def lease_step_def lease_spec_def split: option.splits)
  then show ?thesis using assms(2) NodeLeave by (simp add: net_inv_def addrs_of_simps)
qed (use net_inv_pods[OF assms(1,2)] in auto)

lemma net_run_inv:
  "cluster_net_run c np w \<Longrightarrow> cidr_ok c \<Longrightarrow> \<not> (prefix_len c = 0 \<and> np = 128) \<Longrightarrow> pool_ok c np \<and> net_inv c np w"
proof (induction rule: cluster_net_run.induct)
  case (net_start m)
  then show ?case
    using mgr_new_inv mgr_new_pool by (auto simp: net_inv_def addrs_of_simps)
next
  case (net_more w op')
  then show ?case using net_inv_step by blast
qed

section \<open>Properties\<close>

text \<open>
  C23. No two pods of a cluster have the same address. Whatever nodes join, reserve a subnet and leave,
  and whatever pods are started, started at a given address and stopped on them, in any order, the
  addresses the allocators have given to the running pods are all different, on one node and across
  nodes; each lies in its node's subnet and so in the cluster block. A node that gives up its lease
  gives up its pods with it, and the pair of a cluster block \<open>::/0\<close> and node prefix \<open>/128\<close> is excluded.
\<close>

theorem cluster_addresses_unique:
  assumes "Cidr_new a q = Inr c" "\<not> (q = 0 \<and> np = 128)" "cluster_net_run c np w"
  shows "distinct (map snd (net_pods w)) \<and>
    (\<forall>n ip. (n, ip) \<in> set (net_pods w) \<longrightarrow>
       contains c ip \<and> (\<exists>s. holder (net_mgr w) n = Some s \<and> contains s ip))"
proof -
  have "cidr_ok c" "\<not> (prefix_len c = 0 \<and> np = 128)"
    using Cidr_new_ok[OF assms(1)] assms(2) by (auto simp: prefix_len_def)
  then have ok: "pool_ok c np" and inv: "net_inv c np w" using net_run_inv[OF assms(3)] by auto
  have m: "mgr_inv c np (net_mgr w)" using inv by (simp add: net_inv_def)
  have pod: "\<exists>s. holder (net_mgr w) n = Some s \<and> s \<in> node_subnets c np \<and> contains s ip"
    if "(n, ip) \<in> set (net_pods w)" for n ip
  proof -
    from that net_inv_node[OF inv, of n] obtain p s where
      s: "holder (net_mgr w) n = Some s" "ipam_inv s p" "ip \<in> pods p"
      by (cases "net_ipam w n") (auto simp: addrs_of_def)
    then show ?thesis using ipam_pods_inside holder_ran_subset[OF m] by (auto simp: ran_def)
  qed
  have same: "n = n'" if "(n, ip) \<in> set (net_pods w)" "(n', ip) \<in> set (net_pods w)" for n n' ip
    using pod[OF that(1)] pod[OF that(2)] same_size_blocks_eq holder_inj[OF m]
    by (auto simp: node_subnets_def prefix_len_def)
  then have "inj_on snd (set (net_pods w))" by (force intro!: inj_onI)
  then have "distinct (map snd (net_pods w))" using inv by (simp add: net_inv_def distinct_map)
  moreover have "contains c ip" if "(n, ip) \<in> set (net_pods w)" for n ip
    using pod[OF that] node_subnet_inside[OF ok] by auto
  ultimately show ?thesis using pod by blast
qed

text \<open>A cluster with one node that has started two pods.\<close>

lemma demo_join:
  "subnet_allocate demo_mgr ''a'' = (demo_mgr2, Inr \<lparr>lease_node = ''a'', lease_subnet = demo_subnet\<rparr>)"
  by (simp add: subnet_allocate_def lease_for_def demo_mgr_def demo_mgr2_def demo_subnet_def
      demo_cluster_def subnets_def max_prefix_def iter_find.simps SubnetIter_next_def shl_u128_def
      wrapping_offset_def network_def bt_insert_def word_le_nat_alt Let_def)

lemma demo_allocator: "PodIpam_new demo_subnet = Inr (demo_ipam\<lparr>assigned := {}\<rparr>)"
  by (simp add: PodIpam_new_def demo_count[unfolded demo_subnet_def] nth_address_def
      word_le_nat_alt demo_ipam_def demo_subnet_def wrapping_offset_def)

lemma demo_pods:
  "snd (pod_allocate (demo_ipam\<lparr>assigned := {}\<rparr>)) = Inr (V4 0x0A2A0002)"
  "fst (pod_allocate (demo_ipam\<lparr>assigned := {}\<rparr>)) = demo_ipam"
  "snd (pod_allocate demo_ipam) = Inr (V4 0x0A2A0003)"
  by (simp_all add: pod_allocate_def demo_ipam_def find_free.simps nth_address_def demo_subnet_def
      demo_count[unfolded demo_subnet_def] wrapping_offset_def)

theorem cluster_addresses_unique_witness:
  "\<exists>w. cluster_net_run demo_cluster 24 w \<and> net_pods w = [(''a'', V4 0x0A2A0002), (''a'', V4 0x0A2A0003)] \<and>
     distinct (map snd (net_pods w)) \<and> contains demo_cluster (V4 0x0A2A0003)"
proof -
  define w where "w = foldl cluster_step \<lparr>net_mgr = demo_mgr, net_ipam = Map.empty, net_pods = []\<rparr>
    [NodeJoin ''a'', PodStart ''a'', PodStart ''a'']"
  have "SubnetManager_new demo_cluster 24 = Inr demo_mgr"
    by (simp add: SubnetManager_new_def demo_mgr_def demo_cluster_def max_prefix_def network_def prefix_len_def)
  from net_start[OF this] have run: "cluster_net_run demo_cluster 24 w"
    unfolding w_def foldl.simps by (intro net_more) simp_all
  have "net_pods w = [(''a'', V4 0x0A2A0002), (''a'', V4 0x0A2A0003)]"
    by (simp add: w_def start_allocator_def demo_join demo_allocator demo_pods Let_def)
  with cluster_addresses_unique[OF demo_cluster_new _ run] run show ?thesis by auto
qed

end
