(* ===== verification/Sched_Cache.thy ===== *)
theory Sched_Cache
  imports Cave_Prelude "HOL-Library.Multiset" "HOL-Library.Char_ord"
begin

text \<open>
  The scheduler's view of the cluster (\<open>cave-home-scheduler-rs\<close>: \<open>types.rs\<close>, \<open>cache/node_info.rs\<close>,
  \<open>cache/assumed_pods.rs\<close>, \<open>cache/mod.rs\<close>): pods, nodes, the per-node totals of requested resources
  and used host ports, and the cache with its assumed pods. An \<open>i64\<close> is an integer whose additions
  wrap or saturate as the source writes them. The status of a pod, which no operation here reads, is
  left out.
\<close>

section \<open>Machine arithmetic\<close>

definition wrap_i64 :: "int \<Rightarrow> int" where
  "wrap_i64 x = (x + 2 ^ 63) mod 2 ^ 64 - 2 ^ 63"

definition clamp_i64 :: "int \<Rightarrow> int" where
  "clamp_i64 x = (if x > i64_max then i64_max else if x < i64_min then i64_min else x)"

definition i64_saturating_sub :: "int \<Rightarrow> int \<Rightarrow> int" where
  "i64_saturating_sub a b = clamp_i64 (a - b)"

definition i64_saturating_mul :: "int \<Rightarrow> int \<Rightarrow> int" where
  "i64_saturating_mul a b = clamp_i64 (a * b)"

text \<open>Rust division truncates towards zero.\<close>

definition i64_div :: "int \<Rightarrow> int \<Rightarrow> int" where
  "i64_div a b = (if (a < 0) = (b < 0) then \<bar>a\<bar> div \<bar>b\<bar> else - (\<bar>a\<bar> div \<bar>b\<bar>))"

section \<open>Objects\<close>

datatype ResourceName = Cpu | Memory

instantiation ResourceName :: linorder
begin

fun less_eq_ResourceName :: "ResourceName \<Rightarrow> ResourceName \<Rightarrow> bool" where
  "less_eq_ResourceName Cpu _ = True"
| "less_eq_ResourceName Memory r = (r = Memory)"

definition less_ResourceName :: "ResourceName \<Rightarrow> ResourceName \<Rightarrow> bool" where
  "less_ResourceName a b = (a \<le> b \<and> \<not> b \<le> a)"

instance
proof
  fix x y z :: ResourceName
  show "x < y \<longleftrightarrow> x \<le> y \<and> \<not> y \<le> x" by (rule less_ResourceName_def)
  show "x \<le> x" by (cases x) auto
  show "x \<le> y \<Longrightarrow> y \<le> z \<Longrightarrow> x \<le> z" by (cases x; cases y; cases z) auto
  show "x \<le> y \<Longrightarrow> y \<le> x \<Longrightarrow> x = y" by (cases x; cases y) auto
  show "x \<le> y \<or> y \<le> x" by (cases x; cases y) auto
qed

end

type_synonym ResourceList = "(ResourceName, int) btreemap"

record ResourceRequirements =
  requests :: ResourceList
  limits :: ResourceList

datatype Protocol = Tcp | Udp | Sctp

record ContainerPort =
  host_port :: int
  container_port :: int
  protocol :: Protocol
  host_ip :: string

record Container =
  ct_name :: string
  image :: string
  resources :: ResourceRequirements
  ports :: "ContainerPort list"

record PvcSource =
  claim_name :: string
  read_only :: bool

datatype VolumeSource = EmptyDir | HostPath string | PersistentVolumeClaim PvcSource

record Volume =
  vol_name :: string
  vol_source :: VolumeSource

datatype NodeSelectorOperator = Op_In | Op_NotIn | Op_Exists | Op_DoesNotExist

record NodeSelectorRequirement =
  req_key :: string
  operator :: "NodeSelectorOperator option"
  req_values :: "string list"

type_synonym Labels = "(string, string) btreemap"

definition requirement_matches :: "NodeSelectorRequirement \<Rightarrow> Labels \<Rightarrow> bool" where
  "requirement_matches r labels =
    (let op' = (case operator r of None \<Rightarrow> Op_Exists | Some x \<Rightarrow> x) in
     case op' of
       Op_In \<Rightarrow> (case map_of labels (req_key r) of None \<Rightarrow> False | Some v \<Rightarrow> list_ex (\<lambda>w. w = v) (req_values r))
     | Op_NotIn \<Rightarrow> (case map_of labels (req_key r) of None \<Rightarrow> True | Some v \<Rightarrow> \<not> list_ex (\<lambda>w. w = v) (req_values r))
     | Op_Exists \<Rightarrow> map_of labels (req_key r) \<noteq> None
     | Op_DoesNotExist \<Rightarrow> map_of labels (req_key r) = None)"

type_synonym NodeSelectorTerm = "NodeSelectorRequirement list"
type_synonym NodeSelector = "NodeSelectorTerm list"

definition selector_matches :: "NodeSelector \<Rightarrow> Labels \<Rightarrow> bool" where
  "selector_matches terms labels =
    (if terms = [] then False
     else list_ex (\<lambda>t. list_all (\<lambda>r. requirement_matches r labels) t) terms)"

text \<open>\<open>NodeAffinity\<close> is the optional required selector; an \<open>Affinity\<close> holds an optional \<open>NodeAffinity\<close>.\<close>

type_synonym NodeAffinity = "NodeSelector option"

datatype TaintEffect = NoSchedule | PreferNoSchedule | NoExecute

record Taint =
  taint_key :: string
  taint_value :: string
  taint_effect :: TaintEffect

datatype TolerationOperator = Tol_Equal | Tol_Exists

record Toleration =
  tol_key :: string
  tol_operator :: TolerationOperator
  tol_value :: string
  tol_effect :: "TaintEffect option"

definition tolerates :: "Toleration \<Rightarrow> Taint \<Rightarrow> bool" where
  "tolerates t taint =
    (if (case tol_effect t of Some e \<Rightarrow> e \<noteq> taint_effect taint | None \<Rightarrow> False) then False
     else case tol_operator t of
       Tol_Exists \<Rightarrow> tol_key t = [] \<or> tol_key t = taint_key taint
     | Tol_Equal \<Rightarrow> tol_key t = taint_key taint \<and> tol_value t = taint_value taint)"

record ObjectMeta =
  om_name :: string
  om_namespace :: string
  uid :: string
  labels :: Labels
  annotations :: Labels

record PodSpec =
  containers :: "Container list"
  node_name :: string
  node_selector :: Labels
  affinity :: "NodeAffinity option option"
  tolerations :: "Toleration list"
  volumes :: "Volume list"
  priority :: int
  scheduler_name :: string

record Pod =
  pod_metadata :: ObjectMeta
  pod_spec :: PodSpec

definition full_name :: "Pod \<Rightarrow> string" where
  "full_name p = om_namespace (pod_metadata p) @ ''/'' @ om_name (pod_metadata p)"

definition sum_requests :: "Pod \<Rightarrow> ResourceName \<Rightarrow> int" where
  "sum_requests p r = fold (\<lambda>c total'. case map_of (requests (resources c)) r of
      Some q \<Rightarrow> i64_saturating_add total' q | None \<Rightarrow> total') (containers (pod_spec p)) 0"

record Node =
  node_metadata :: ObjectMeta
  unschedulable :: bool
  taints :: "Taint list"
  node_capacity :: ResourceList
  node_allocatable :: ResourceList
  images :: "string list"

definition Node_allocatable :: "Node \<Rightarrow> ResourceName \<Rightarrow> int" where
  "Node_allocatable n r = (case map_of (node_allocatable n) r of Some q \<Rightarrow> q | None \<Rightarrow> 0)"

definition has_image :: "Node \<Rightarrow> string \<Rightarrow> bool" where
  "has_image n img = list_ex (\<lambda>i. i = img) (images n)"

section \<open>Per-node totals\<close>

record HostPortUse =
  hp_ip :: string
  hp_port :: int
  hp_protocol :: Protocol

record NodeInfo =
  ni_node :: Node
  ni_pods :: "Pod list"
  ni_requested :: "(ResourceName, int) btreemap"
  used_host_ports :: "HostPortUse list"

definition NodeInfo_new :: "Node \<Rightarrow> NodeInfo" where
  "NodeInfo_new n = \<lparr>ni_node = n, ni_pods = [],
     ni_requested = bt_insert Memory 0 (bt_insert Cpu 0 []), used_host_ports = []\<rparr>"

definition set_node :: "NodeInfo \<Rightarrow> Node \<Rightarrow> NodeInfo" where
  "set_node ni n = ni\<lparr>ni_node := n\<rparr>"

definition requested :: "NodeInfo \<Rightarrow> ResourceName \<Rightarrow> int" where
  "requested ni r = (case map_of (ni_requested ni) r of Some x \<Rightarrow> x | None \<Rightarrow> 0)"

definition ni_allocatable :: "NodeInfo \<Rightarrow> ResourceName \<Rightarrow> int" where
  "ni_allocatable ni r = Node_allocatable (ni_node ni) r"

definition port_use :: "ContainerPort \<Rightarrow> HostPortUse" where
  "port_use p = \<lparr>hp_ip = host_ip p, hp_port = host_port p, hp_protocol = protocol p\<rparr>"

definition add_request :: "ResourceName \<times> int \<Rightarrow> NodeInfo \<Rightarrow> NodeInfo" where
  "add_request kq ni = ni\<lparr>ni_requested :=
     bt_insert (fst kq) (wrap_i64 (requested ni (fst kq) + snd kq)) (ni_requested ni)\<rparr>"

definition add_port :: "ContainerPort \<Rightarrow> NodeInfo \<Rightarrow> NodeInfo" where
  "add_port p ni = (if host_port p = 0 then ni else ni\<lparr>used_host_ports := used_host_ports ni @ [port_use p]\<rparr>)"

definition add_container :: "Container \<Rightarrow> NodeInfo \<Rightarrow> NodeInfo" where
  "add_container c ni = fold add_port (ports c) (fold add_request (requests (resources c)) ni)"

definition ni_add_pod :: "Pod \<Rightarrow> NodeInfo \<Rightarrow> NodeInfo" where
  "ni_add_pod p ni =
    (let ni' = fold add_container (containers (pod_spec p)) ni in ni'\<lparr>ni_pods := ni_pods ni' @ [p]\<rparr>)"

definition sub_request :: "ResourceName \<times> int \<Rightarrow> NodeInfo \<Rightarrow> NodeInfo" where
  "sub_request kq ni = (case map_of (ni_requested ni) (fst kq) of
     None \<Rightarrow> ni
   | Some slot \<Rightarrow> ni\<lparr>ni_requested := bt_insert (fst kq) (i64_saturating_sub slot (snd kq)) (ni_requested ni)\<rparr>)"

definition sub_port :: "ContainerPort \<Rightarrow> NodeInfo \<Rightarrow> NodeInfo" where
  "sub_port p ni = (if host_port p = 0 then ni
     else ni\<lparr>used_host_ports := remove1 (port_use p) (used_host_ports ni)\<rparr>)"

definition sub_container :: "Container \<Rightarrow> NodeInfo \<Rightarrow> NodeInfo" where
  "sub_container c ni = fold sub_port (ports c) (fold sub_request (requests (resources c)) ni)"

text \<open>The first pod with a property, and the list without it.\<close>

fun take_first :: "('a \<Rightarrow> bool) \<Rightarrow> 'a list \<Rightarrow> ('a \<times> 'a list) option" where
  "take_first P [] = None"
| "take_first P (x # xs) =
    (if P x then Some (x, xs) else map_option (\<lambda>(y, ys). (y, x # ys)) (take_first P xs))"

definition ni_remove_pod :: "Pod \<Rightarrow> NodeInfo \<Rightarrow> NodeInfo" where
  "ni_remove_pod p ni = (case take_first (\<lambda>x. uid (pod_metadata x) = uid (pod_metadata p)) (ni_pods ni) of
     None \<Rightarrow> ni
   | Some (removed, rest) \<Rightarrow> fold sub_container (containers (pod_spec removed)) (ni\<lparr>ni_pods := rest\<rparr>))"

section \<open>The cache\<close>

datatype CacheError = NodeNotFound string | PodAlreadyAssumed string

record SchedulerCache =
  nodes :: "(string, NodeInfo) btreemap"
  assumed :: "(string, Pod) hashmap"

definition SchedulerCache_new :: SchedulerCache where
  "SchedulerCache_new = \<lparr>nodes = [], assumed = []\<rparr>"

definition node_key :: "Node \<Rightarrow> string" where
  "node_key n = om_name (node_metadata n)"

definition add_node :: "Node \<Rightarrow> SchedulerCache \<Rightarrow> SchedulerCache" where
  "add_node n c =
    (let info = (case map_of (nodes c) (node_key n) of Some i \<Rightarrow> i | None \<Rightarrow> NodeInfo_new n) in
     c\<lparr>nodes := bt_insert (node_key n) (set_node info n) (nodes c)\<rparr>)"

definition remove_node :: "string \<Rightarrow> SchedulerCache \<Rightarrow> SchedulerCache" where
  "remove_node nm c = c\<lparr>nodes := bt_remove nm (nodes c)\<rparr>"

definition update_node :: "Node \<Rightarrow> SchedulerCache \<Rightarrow> SchedulerCache" where
  "update_node n c = add_node n c"

definition add_pod :: "Pod \<Rightarrow> SchedulerCache \<Rightarrow> SchedulerCache \<times> (CacheError + unit)" where
  "add_pod p c =
    (if node_name (pod_spec p) = [] then (c, Inr ())
     else case map_of (nodes c) (node_name (pod_spec p)) of
       None \<Rightarrow> (c, Inl (NodeNotFound (node_name (pod_spec p))))
     | Some info \<Rightarrow> (c\<lparr>nodes := bt_insert (node_name (pod_spec p)) (ni_add_pod p info) (nodes c)\<rparr>, Inr ()))"

definition remove_pod :: "Pod \<Rightarrow> SchedulerCache \<Rightarrow> SchedulerCache \<times> (CacheError + unit)" where
  "remove_pod p c =
    (if node_name (pod_spec p) = [] then (c, Inr ())
     else case map_of (nodes c) (node_name (pod_spec p)) of
       None \<Rightarrow> (c, Inl (NodeNotFound (node_name (pod_spec p))))
     | Some info \<Rightarrow> (c\<lparr>nodes := bt_insert (node_name (pod_spec p)) (ni_remove_pod p info) (nodes c)\<rparr>, Inr ()))"

definition placed_on :: "Pod \<Rightarrow> string \<Rightarrow> Pod" where
  "placed_on p nm = p\<lparr>pod_spec := (pod_spec p)\<lparr>node_name := nm\<rparr>\<rparr>"

definition assume_pod :: "Pod \<Rightarrow> string \<Rightarrow> SchedulerCache \<Rightarrow> SchedulerCache \<times> (CacheError + unit)" where
  "assume_pod p nm c =
    (let key = uid (pod_metadata p) in
     if hm_get (assumed c) key \<noteq> None then (c, Inl (PodAlreadyAssumed key))
     else case map_of (nodes c) nm of
       None \<Rightarrow> (c, Inl (NodeNotFound nm))
     | Some info \<Rightarrow>
         (c\<lparr>nodes := bt_insert nm (ni_add_pod (placed_on p nm) info) (nodes c),
            assumed := hm_insert key (placed_on p nm) (assumed c)\<rparr>, Inr ()))"

definition forget_pod :: "string \<Rightarrow> SchedulerCache \<Rightarrow> SchedulerCache" where
  "forget_pod u c = (case hm_get (assumed c) u of
     None \<Rightarrow> c
   | Some p \<Rightarrow>
      (let c' = c\<lparr>assumed := hm_remove u (assumed c)\<rparr> in
       case map_of (nodes c') (node_name (pod_spec p)) of
         None \<Rightarrow> c'
       | Some info \<Rightarrow> c'\<lparr>nodes := bt_insert (node_name (pod_spec p)) (ni_remove_pod p info) (nodes c')\<rparr>))"

definition snapshot :: "SchedulerCache \<Rightarrow> NodeInfo list" where
  "snapshot c = map snd (nodes c)"

definition node_info :: "SchedulerCache \<Rightarrow> string \<Rightarrow> NodeInfo option" where
  "node_info c nm = map_of (nodes c) nm"

definition is_assumed :: "SchedulerCache \<Rightarrow> string \<Rightarrow> bool" where
  "is_assumed c u = (hm_get (assumed c) u \<noteq> None)"

end
