(* ===== verification/Sched_Framework.thy ===== *)
theory Sched_Framework
  imports Sched_Cache
begin

text \<open>
  The plugin framework and the scheduling cycle of one pod (\<open>cave-home-scheduler-rs\<close>:
  \<open>framework/mod.rs\<close>, \<open>framework/cycle_state.rs\<close>, \<open>schedule_one.rs\<close>, \<open>preemption.rs\<close>, \<open>plugins\<close>,
  \<open>config.rs\<close>). A plugin trait is a record of its methods; the cycle state is threaded through every
  call. The reasons of a status are kept as data, not as text. The registry that a post-filter plugin
  receives is the part it can reach: pre-filters and filters.
\<close>

section \<open>Status and cycle state\<close>

datatype Code = Success | Unschedulable | UnschedulableAndUnresolvable | Wait | Error | Skip

datatype Reason =
    InsufficientResource ResourceName int int
  | PortsTaken
  | WrongNodeName string
  | NodeWasUnschedulable
  | UntoleratedTaint Taint
  | ClaimInUse string string
  | SelectorMismatch string
  | AffinityMismatch
  | ScoreOutOfRange int string
  | NominatedNode string
  | NoCandidate
  | OtherReason string

record Status =
  code :: Code
  status_plugin :: string
  reasons :: "Reason list"

definition status_success :: Status where
  "status_success = \<lparr>code = Success, status_plugin = [], reasons = []\<rparr>"

definition status_unschedulable :: "string \<Rightarrow> Reason \<Rightarrow> Status" where
  "status_unschedulable pl r = \<lparr>code = Unschedulable, status_plugin = pl, reasons = [r]\<rparr>"

definition status_unresolvable :: "string \<Rightarrow> Reason \<Rightarrow> Status" where
  "status_unresolvable pl r = \<lparr>code = UnschedulableAndUnresolvable, status_plugin = pl, reasons = [r]\<rparr>"

definition status_error :: "string \<Rightarrow> Reason \<Rightarrow> Status" where
  "status_error pl r = \<lparr>code = Error, status_plugin = pl, reasons = [r]\<rparr>"

definition is_success :: "Status \<Rightarrow> bool" where
  "is_success s = (code s = Success \<or> code s = Skip)"

definition MIN_NODE_SCORE :: int where "MIN_NODE_SCORE = 0"
definition MAX_NODE_SCORE :: int where "MAX_NODE_SCORE = 100"

text \<open>A boxed value of the cycle state is one of the types that are stored, or of some other type.\<close>

datatype Any = PreFilterFitState int int | OtherState nat

type_synonym CycleState = "(string, Any) hashmap"

definition state_write :: "string \<Rightarrow> Any \<Rightarrow> CycleState \<Rightarrow> CycleState" where
  "state_write k v s = hm_insert k v s"

definition state_read_fit :: "CycleState \<Rightarrow> string \<Rightarrow> (int \<times> int) option" where
  "state_read_fit s k = (case hm_get s k of Some (PreFilterFitState c m) \<Rightarrow> Some (c, m) | _ \<Rightarrow> None)"

section \<open>Plugins\<close>

record PreFilterPlugin =
  pre_name :: string
  pre_filter :: "CycleState \<Rightarrow> Pod \<Rightarrow> CycleState \<times> string set option option \<times> Status"
  ext_remove_pod :: "(CycleState \<Rightarrow> Pod \<Rightarrow> Pod \<Rightarrow> NodeInfo \<Rightarrow> CycleState \<times> Status) option"

record FilterPlugin =
  flt_name :: string
  flt_filter :: "CycleState \<Rightarrow> Pod \<Rightarrow> NodeInfo \<Rightarrow> CycleState \<times> Status"

record PreScorePlugin =
  ps_name :: string
  pre_score :: "CycleState \<Rightarrow> Pod \<Rightarrow> NodeInfo list \<Rightarrow> CycleState \<times> Status"

record NodeScore =
  ns_name :: string
  ns_score :: int

record ScorePlugin =
  sc_name :: string
  sc_score :: "CycleState \<Rightarrow> Pod \<Rightarrow> NodeInfo \<Rightarrow> CycleState \<times> int \<times> Status"
  sc_normalize :: "CycleState \<Rightarrow> Pod \<Rightarrow> NodeScore list \<Rightarrow> CycleState \<times> NodeScore list \<times> Status"
  sc_weight :: int

record Handle =
  pre_filters :: "PreFilterPlugin list"
  filters :: "FilterPlugin list"

type_synonym FilterFailureMap = "(string, Status) btreemap"

record PostFilterPlugin =
  pf_name :: string
  post_filter :: "CycleState \<Rightarrow> Pod \<Rightarrow> NodeInfo list \<Rightarrow> FilterFailureMap \<Rightarrow> Handle \<Rightarrow>
    CycleState \<times> string option \<times> Status"

record PluginRegistry =
  handle :: Handle
  pre_scores :: "PreScorePlugin list"
  scores :: "ScorePlugin list"
  post_filters :: "PostFilterPlugin list"

section \<open>The scheduling cycle\<close>

record ScheduleResult =
  suggested_host :: "string option"
  evaluated_nodes :: nat
  feasible_nodes :: nat
  nominated_node :: "string option"
  filter_failures :: FilterFailureMap
  result_error :: "Status option"

definition result_unschedulable :: "FilterFailureMap \<Rightarrow> nat \<Rightarrow> ScheduleResult" where
  "result_unschedulable failures total' =
    \<lparr>suggested_host = None, evaluated_nodes = total', feasible_nodes = 0, nominated_node = None,
     filter_failures = failures, result_error = None\<rparr>"

definition score_error :: "Status \<Rightarrow> nat \<Rightarrow> nat \<Rightarrow> FilterFailureMap \<Rightarrow> ScheduleResult" where
  "score_error status total' feasible failures =
    \<lparr>suggested_host = None, evaluated_nodes = total', feasible_nodes = feasible, nominated_node = None,
     filter_failures = failures, result_error = Some status\<rparr>"

definition info_name :: "NodeInfo \<Rightarrow> string" where
  "info_name ni = om_name (node_metadata (ni_node ni))"

text \<open>The loop over the pre-filter plugins; \<open>allowed\<close> is the intersection of their restrictions.\<close>

fun pre_filter_loop ::
  "PreFilterPlugin list \<Rightarrow> Pod \<Rightarrow> NodeInfo list \<Rightarrow> string set option \<Rightarrow> CycleState \<Rightarrow>
   CycleState \<times> (ScheduleResult + string set option)" where
  "pre_filter_loop [] pod all_nodes allowed state = (state, Inr allowed)"
| "pre_filter_loop (pl # pls) pod all_nodes allowed state =
    (case pre_filter pl state pod of (state, result, status) \<Rightarrow>
     if \<not> is_success status then
       let failures = fold (\<lambda>n m. bt_insert (info_name n) status m) all_nodes []
       in (state, Inl (if code status = Error
            then score_error status (length all_nodes) 0 failures
            else result_unschedulable failures (length all_nodes)))
     else
       let allowed' = (case result of
             Some (Some names) \<Rightarrow> Some (case allowed of Some existing \<Rightarrow> existing \<inter> names | None \<Rightarrow> names)
           | _ \<Rightarrow> allowed)
       in pre_filter_loop pls pod all_nodes allowed' state)"

definition apply_pre_filters ::
  "Pod \<Rightarrow> NodeInfo list \<Rightarrow> Handle \<Rightarrow> CycleState \<Rightarrow> CycleState \<times> (ScheduleResult + NodeInfo list)" where
  "apply_pre_filters pod all_nodes h state =
    (case pre_filter_loop (pre_filters h) pod all_nodes None state of
       (state, Inl r) \<Rightarrow> (state, Inl r)
     | (state, Inr None) \<Rightarrow> (state, Inr all_nodes)
     | (state, Inr (Some names)) \<Rightarrow> (state, Inr (filter (\<lambda>n. info_name n \<in> names) all_nodes)))"

text \<open>The filter plugins on one node: the first refusal, if any.\<close>

fun run_filters :: "FilterPlugin list \<Rightarrow> Pod \<Rightarrow> NodeInfo \<Rightarrow> CycleState \<Rightarrow> CycleState \<times> Status option" where
  "run_filters [] pod node state = (state, None)"
| "run_filters (f # fs) pod node state =
    (case flt_filter f state pod node of (state, s) \<Rightarrow>
     if \<not> is_success s then (state, Some s) else run_filters fs pod node state)"

fun filter_loop ::
  "FilterPlugin list \<Rightarrow> Pod \<Rightarrow> nat \<Rightarrow> NodeInfo list \<Rightarrow> NodeInfo list \<Rightarrow> FilterFailureMap \<Rightarrow> CycleState \<Rightarrow>
   CycleState \<times> NodeInfo list \<times> FilterFailureMap" where
  "filter_loop fs pod limit [] feasible failures state = (state, feasible, failures)"
| "filter_loop fs pod limit (n # ns) feasible failures state =
    (if length feasible \<ge> limit then (state, feasible, failures)
     else case run_filters fs pod n state of
       (state, Some s) \<Rightarrow> filter_loop fs pod limit ns feasible (bt_insert (info_name n) s failures) state
     | (state, None) \<Rightarrow> filter_loop fs pod limit ns (feasible @ [n]) failures state)"

fun post_filter_loop ::
  "PostFilterPlugin list \<Rightarrow> Pod \<Rightarrow> NodeInfo list \<Rightarrow> FilterFailureMap \<Rightarrow> Handle \<Rightarrow> CycleState \<Rightarrow> string option" where
  "post_filter_loop [] pod ns failures h state = None"
| "post_filter_loop (pl # pls) pod ns failures h state =
    (case post_filter pl state pod ns failures h of (state, nominee, status) \<Rightarrow>
     if is_success status \<and> nominee \<noteq> None then nominee
     else post_filter_loop pls pod ns failures h state)"

fun pre_score_loop ::
  "PreScorePlugin list \<Rightarrow> Pod \<Rightarrow> NodeInfo list \<Rightarrow> CycleState \<Rightarrow> CycleState \<times> Status option" where
  "pre_score_loop [] pod feasible state = (state, None)"
| "pre_score_loop (pl # pls) pod feasible state =
    (case pre_score pl state pod feasible of (state, status) \<Rightarrow>
     if \<not> is_success status then (state, Some status) else pre_score_loop pls pod feasible state)"

fun raw_scores ::
  "ScorePlugin \<Rightarrow> Pod \<Rightarrow> NodeInfo list \<Rightarrow> CycleState \<Rightarrow> CycleState \<times> (Status + NodeScore list)" where
  "raw_scores pl pod [] state = (state, Inr [])"
| "raw_scores pl pod (n # ns) state =
    (case sc_score pl state pod n of (state, score, status) \<Rightarrow>
     if \<not> is_success status then (state, Inl status)
     else case raw_scores pl pod ns state of
       (state, Inl e) \<Rightarrow> (state, Inl e)
     | (state, Inr rest) \<Rightarrow> (state, Inr (\<lparr>ns_name = info_name n, ns_score = score\<rparr> # rest)))"

fun accumulate ::
  "ScorePlugin \<Rightarrow> (string \<times> int) list \<Rightarrow> NodeScore list \<Rightarrow> Status + (string \<times> int) list" where
  "accumulate pl ((nm, t) # ts) (s # ss) =
    (if ns_score s < MIN_NODE_SCORE \<or> ns_score s > MAX_NODE_SCORE
     then Inl (status_error (sc_name pl) (ScoreOutOfRange (ns_score s) (ns_name s)))
     else case accumulate pl ts ss of
       Inl e \<Rightarrow> Inl e
     | Inr rest \<Rightarrow> Inr ((nm, i64_saturating_add t (i64_saturating_mul (ns_score s) (sc_weight pl))) # rest))"
| "accumulate pl ts _ = Inr ts"

fun score_loop ::
  "ScorePlugin list \<Rightarrow> Pod \<Rightarrow> NodeInfo list \<Rightarrow> (string \<times> int) list \<Rightarrow> CycleState \<Rightarrow> Status + (string \<times> int) list" where
  "score_loop [] pod feasible totals state = Inr totals"
| "score_loop (pl # pls) pod feasible totals state =
    (case raw_scores pl pod feasible state of
       (state, Inl e) \<Rightarrow> Inl e
     | (state, Inr raw) \<Rightarrow>
        (case sc_normalize pl state pod raw of (state, normal, status) \<Rightarrow>
         if \<not> is_success status then Inl status
         else case accumulate pl totals normal of
           Inl e \<Rightarrow> Inl e
         | Inr totals' \<Rightarrow> score_loop pls pod feasible totals' state))"

text \<open>\<open>max_by_key\<close>: of several greatest elements the last one is returned.\<close>

fun max_by_score :: "(string \<times> int) list \<Rightarrow> (string \<times> int) option" where
  "max_by_score [] = None"
| "max_by_score (x # xs) = (case max_by_score xs of
     None \<Rightarrow> Some x
   | Some y \<Rightarrow> if snd x > snd y then Some x else Some y)"

definition schedule_one_limited :: "Pod \<Rightarrow> SchedulerCache \<Rightarrow> PluginRegistry \<Rightarrow> nat \<Rightarrow> ScheduleResult" where
  "schedule_one_limited pod cache reg feasible_limit =
    (let all_nodes = snapshot cache; total' = length all_nodes in
     case apply_pre_filters pod all_nodes (handle reg) [] of
       (_, Inl r) \<Rightarrow> r
     | (state, Inr ns) \<Rightarrow>
        (case filter_loop (filters (handle reg)) pod feasible_limit ns [] [] state of
           (state, feasible, failures) \<Rightarrow>
           if feasible = [] then
             (case post_filter_loop (post_filters reg) pod ns failures (handle reg) state of
                Some nominee \<Rightarrow>
                  \<lparr>suggested_host = None, evaluated_nodes = total', feasible_nodes = 0,
                   nominated_node = Some nominee, filter_failures = failures, result_error = None\<rparr>
              | None \<Rightarrow> result_unschedulable failures total')
           else
             (case pre_score_loop (pre_scores reg) pod feasible state of
                (state, Some status) \<Rightarrow> score_error status total' (length feasible) failures
              | (state, None) \<Rightarrow>
                 (case score_loop (scores reg) pod feasible (map (\<lambda>n. (info_name n, 0)) feasible) state of
                    Inl status \<Rightarrow> score_error status total' (length feasible) failures
                  | Inr totals \<Rightarrow>
                      \<lparr>suggested_host = map_option fst (max_by_score totals), evaluated_nodes = total',
                       feasible_nodes = length feasible, nominated_node = None,
                       filter_failures = failures, result_error = None\<rparr>))))"

definition schedule_one :: "Pod \<Rightarrow> SchedulerCache \<Rightarrow> PluginRegistry \<Rightarrow> ScheduleResult" where
  "schedule_one pod cache reg = schedule_one_limited pod cache reg (2 ^ 64 - 1)"

end
