(* ===== verification/Sched_Plugins.thy ===== *)
theory Sched_Plugins
  imports Sched_Framework
begin

text \<open>
  The default plugins (\<open>plugins/*.rs\<close>), their registry, the preemption plugin (\<open>preemption.rs\<close>) and
  the search limit (\<open>config.rs\<close>) of \<open>cave-home-scheduler-rs\<close>.
\<close>

section \<open>Filters\<close>

definition TAINT_NODE_UNSCHEDULABLE :: string where
  "TAINT_NODE_UNSCHEDULABLE = ''node.kubernetes.io/unschedulable''"

definition node_unschedulable_filter :: "Pod \<Rightarrow> NodeInfo \<Rightarrow> Status" where
  "node_unschedulable_filter pod node =
    (if \<not> unschedulable (ni_node node) then status_success
     else
       let tolerated = list_ex (\<lambda>t. tol_operator t = Tol_Exists
             \<and> (tol_key t = [] \<or> tol_key t = TAINT_NODE_UNSCHEDULABLE)
             \<and> (case tol_effect t of None \<Rightarrow> True | Some e \<Rightarrow> e = NoSchedule)) (tolerations (pod_spec pod))
       in if tolerated then status_success
          else status_unresolvable ''NodeUnschedulable'' NodeWasUnschedulable)"

definition node_name_filter :: "Pod \<Rightarrow> NodeInfo \<Rightarrow> Status" where
  "node_name_filter pod node =
    (if node_name (pod_spec pod) = [] then status_success
     else if node_name (pod_spec pod) = info_name node then status_success
     else status_unresolvable ''NodeName'' (WrongNodeName (node_name (pod_spec pod))))"

definition PRE_FILTER_FIT_KEY :: string where
  "PRE_FILTER_FIT_KEY = ''PreFilter-NodeResourcesFit''"

definition fit_pre_filter :: "CycleState \<Rightarrow> Pod \<Rightarrow> CycleState \<times> string set option option \<times> Status" where
  "fit_pre_filter state pod =
    (state_write PRE_FILTER_FIT_KEY (PreFilterFitState (sum_requests pod Cpu) (sum_requests pod Memory)) state,
     None, status_success)"

definition fit_request :: "int \<times> int \<Rightarrow> ResourceName \<Rightarrow> int" where
  "fit_request s r = (case r of Cpu \<Rightarrow> fst s | Memory \<Rightarrow> snd s)"

fun fit_loop :: "(int \<times> int) option \<Rightarrow> Pod \<Rightarrow> NodeInfo \<Rightarrow> ResourceName list \<Rightarrow> Status" where
  "fit_loop pre pod node [] = status_success"
| "fit_loop pre pod node (r # rs) =
    (let request = (case pre of None \<Rightarrow> sum_requests pod r | Some s \<Rightarrow> fit_request s r) in
     if request = 0 then fit_loop pre pod node rs
     else
       let free = i64_saturating_sub (ni_allocatable node r) (requested node r) in
       if request > free
       then status_unschedulable ''NodeResourcesFit'' (InsufficientResource r request free)
       else fit_loop pre pod node rs)"

definition fit_filter :: "CycleState \<Rightarrow> Pod \<Rightarrow> NodeInfo \<Rightarrow> Status" where
  "fit_filter state pod node = fit_loop (state_read_fit state PRE_FILTER_FIT_KEY) pod node [Cpu, Memory]"

definition conflicts :: "HostPortUse \<Rightarrow> HostPortUse \<Rightarrow> bool" where
  "conflicts a b =
    (if hp_port a \<noteq> hp_port b \<or> hp_protocol a \<noteq> hp_protocol b then False
     else
       let a_any = (hp_ip a = [] \<or> hp_ip a = ''0.0.0.0''); b_any = (hp_ip b = [] \<or> hp_ip b = ''0.0.0.0'')
       in a_any \<or> b_any \<or> hp_ip a = hp_ip b)"

definition ports_fit :: "Pod \<Rightarrow> NodeInfo \<Rightarrow> bool" where
  "ports_fit pod node = list_all (\<lambda>c. list_all (\<lambda>p. host_port p = 0 \<or>
      \<not> list_ex (\<lambda>e. conflicts e (port_use p)) (used_host_ports node)) (ports c)) (containers (pod_spec pod))"

definition node_ports_filter :: "Pod \<Rightarrow> NodeInfo \<Rightarrow> Status" where
  "node_ports_filter pod node =
    (if ports_fit pod node then status_success else status_unschedulable ''NodePorts'' PortsTaken)"

text \<open>The claims a pod mounts for writing.\<close>

definition write_claims :: "Pod \<Rightarrow> string list" where
  "write_claims pod = List.map_filter (\<lambda>v. case vol_source v of
     PersistentVolumeClaim pvc \<Rightarrow> if \<not> read_only pvc then Some (claim_name pvc) else None
   | _ \<Rightarrow> None) (volumes (pod_spec pod))"

definition volume_filter :: "Pod \<Rightarrow> NodeInfo \<Rightarrow> Status" where
  "volume_filter pod node =
    (let pod_claims = set (write_claims pod) in
     if pod_claims = {} then status_success
     else case List.map_filter (\<lambda>existing.
         map_option (\<lambda>cl. ClaimInUse cl (full_name existing)) (find (\<lambda>cl. cl \<in> pod_claims) (write_claims existing)))
         (ni_pods node) of
       [] \<Rightarrow> status_success
     | r # _ \<Rightarrow> status_unschedulable ''VolumeRestrictions'' r)"

definition taint_filter :: "Pod \<Rightarrow> NodeInfo \<Rightarrow> Status" where
  "taint_filter pod node =
    (case find (\<lambda>t. taint_effect t = NoSchedule \<and> \<not> list_ex (\<lambda>tol. tolerates tol t) (tolerations (pod_spec pod)))
        (taints (ni_node node)) of
       None \<Rightarrow> status_success
     | Some t \<Rightarrow> status_unschedulable ''TaintToleration'' (UntoleratedTaint t))"

definition affinity_filter :: "Pod \<Rightarrow> NodeInfo \<Rightarrow> Status" where
  "affinity_filter pod node =
    (let lbs = labels (node_metadata (ni_node node)) in
     case find (\<lambda>(k, v). map_of lbs k \<noteq> Some v) (node_selector (pod_spec pod)) of
       Some (k, v) \<Rightarrow> status_unresolvable ''NodeAffinity'' (SelectorMismatch k)
     | None \<Rightarrow>
        (case affinity (pod_spec pod) of
           Some (Some (Some req)) \<Rightarrow>
             if \<not> selector_matches req lbs then status_unresolvable ''NodeAffinity'' AffinityMismatch
             else status_success
         | _ \<Rightarrow> status_success))"

text \<open>A filter that does not use the cycle state.\<close>

definition pure_filter :: "string \<Rightarrow> (Pod \<Rightarrow> NodeInfo \<Rightarrow> Status) \<Rightarrow> FilterPlugin" where
  "pure_filter nm f = \<lparr>flt_name = nm, flt_filter = (\<lambda>s p n. (s, f p n))\<rparr>"

section \<open>Scores\<close>

definition clamp_score :: "int \<Rightarrow> int" where
  "clamp_score x = (if x < 0 then 0 else if x > MAX_NODE_SCORE then MAX_NODE_SCORE else x)"

definition balanced_fraction :: "Pod \<Rightarrow> NodeInfo \<Rightarrow> ResourceName \<Rightarrow> int option" where
  "balanced_fraction pod node r =
    (let cap = ni_allocatable node r in
     if cap = 0 then None
     else
       let total' = i64_saturating_add (requested node r) (sum_requests pod r);
           frac = i64_div (i64_saturating_mul total' 10000) cap
       in Some (if frac < 0 then 0 else if frac > 10000 then 10000 else frac))"

definition balanced_score :: "Pod \<Rightarrow> NodeInfo \<Rightarrow> int" where
  "balanced_score pod node =
    (let fractions = List.map_filter (balanced_fraction pod node) [Cpu, Memory] in
     if fractions = [] then 0
     else
       let n = int (length fractions);
           mean = i64_div (sum_list fractions) n;
           var = i64_div (sum_list (map (\<lambda>f. let d = \<bar>f - mean\<bar> in i64_div (i64_saturating_mul d d) 10000) fractions)) n;
           score = i64_div ((10000 - var) * MAX_NODE_SCORE) 10000
       in clamp_score score)"

definition least_part :: "NodeInfo \<Rightarrow> ResourceName \<Rightarrow> int option" where
  "least_part node r =
    (let cap = ni_allocatable node r in
     if cap = 0 then None
     else
       let free = max (i64_saturating_sub cap (requested node r)) 0
       in Some (i64_div (i64_saturating_mul free MAX_NODE_SCORE) cap))"

definition least_requested_score :: "Pod \<Rightarrow> NodeInfo \<Rightarrow> int" where
  "least_requested_score pod node =
    (let parts = List.map_filter (least_part node) [Cpu, Memory];
         score = (if parts = [] then 0 else i64_div (wrap_i64 (sum_list parts)) (int (length parts)))
     in clamp_score score)"

definition image_score :: "Pod \<Rightarrow> NodeInfo \<Rightarrow> int" where
  "image_score pod node =
    (let total' = length (containers (pod_spec pod)) in
     if total' = 0 then 0
     else
       let present = length (filter (\<lambda>c. image c \<noteq> [] \<and> has_image (ni_node node) (image c)) (containers (pod_spec pod)));
           score = i64_div (i64_saturating_mul (int present) MAX_NODE_SCORE) (int total')
       in clamp_score score)"

definition pure_score :: "string \<Rightarrow> (Pod \<Rightarrow> NodeInfo \<Rightarrow> int) \<Rightarrow> ScorePlugin" where
  "pure_score nm f = \<lparr>sc_name = nm, sc_score = (\<lambda>s p n. (s, f p n, status_success)),
     sc_normalize = (\<lambda>s p xs. (s, xs, status_success)), sc_weight = 1\<rparr>"

section \<open>Preemption\<close>

fun seed_pre_filters :: "PreFilterPlugin list \<Rightarrow> Pod \<Rightarrow> CycleState \<Rightarrow> CycleState option" where
  "seed_pre_filters [] pod state = Some state"
| "seed_pre_filters (pl # pls) pod state =
    (case pre_filter pl state pod of (state, _, status) \<Rightarrow>
     if \<not> is_success status then None else seed_pre_filters pls pod state)"

fun run_extensions :: "PreFilterPlugin list \<Rightarrow> Pod \<Rightarrow> Pod \<Rightarrow> NodeInfo \<Rightarrow> CycleState \<Rightarrow> CycleState option" where
  "run_extensions [] pod victim hypo state = Some state"
| "run_extensions (pl # pls) pod victim hypo state =
    (case ext_remove_pod pl of
       None \<Rightarrow> run_extensions pls pod victim hypo state
     | Some ext \<Rightarrow>
        (case ext state pod victim hypo of (state, status) \<Rightarrow>
         if \<not> is_success status then None else run_extensions pls pod victim hypo state))"

fun remove_victims :: "PreFilterPlugin list \<Rightarrow> Pod \<Rightarrow> Pod list \<Rightarrow> NodeInfo \<Rightarrow> CycleState \<Rightarrow> (CycleState \<times> NodeInfo) option" where
  "remove_victims pls pod [] hypo state = Some (state, hypo)"
| "remove_victims pls pod (v # vs) hypo state =
    (case run_extensions pls pod v hypo state of
       None \<Rightarrow> None
     | Some state \<Rightarrow> remove_victims pls pod vs (ni_remove_pod v hypo) state)"

definition fits_with_registry :: "Pod \<Rightarrow> NodeInfo \<Rightarrow> Pod list \<Rightarrow> Handle \<Rightarrow> bool" where
  "fits_with_registry pod info victims h =
    (case seed_pre_filters (pre_filters h) pod [] of
       None \<Rightarrow> False
     | Some state \<Rightarrow>
        (case remove_victims (pre_filters h) pod victims info state of
           None \<Rightarrow> False
         | Some (state, hypo) \<Rightarrow> snd (run_filters (filters h) pod hypo state) = None))"

fun greedy :: "Pod \<Rightarrow> NodeInfo \<Rightarrow> Handle \<Rightarrow> Pod list \<Rightarrow> Pod list \<Rightarrow> bool \<Rightarrow> Pod list \<times> bool" where
  "greedy pod info h chosen [] fits = (chosen, fits)"
| "greedy pod info h chosen (v # vs) fits =
    (if fits then (chosen, fits)
     else greedy pod info h (chosen @ [v]) vs (fits_with_registry pod info (chosen @ [v]) h))"

definition eviction_order :: "Pod \<Rightarrow> NodeInfo \<Rightarrow> Pod list" where
  "eviction_order pod info =
    sort_key (\<lambda>p. priority (pod_spec p)) (filter (\<lambda>p. priority (pod_spec p) < priority (pod_spec pod)) (ni_pods info))"

definition select_victims :: "Pod \<Rightarrow> NodeInfo \<Rightarrow> Handle \<Rightarrow> Pod list option" where
  "select_victims pod info h =
    (case greedy pod info h [] (eviction_order pod info) (fits_with_registry pod info [] h) of
       (chosen, fits) \<Rightarrow> if chosen = [] \<or> \<not> fits then None else Some chosen)"

fun best_candidate :: "Pod \<Rightarrow> Handle \<Rightarrow> NodeInfo list \<Rightarrow> (string \<times> nat) option \<Rightarrow> (string \<times> nat) option" where
  "best_candidate pod h [] best = best"
| "best_candidate pod h (info # ns) best =
    (case select_victims pod info h of
       None \<Rightarrow> best_candidate pod h ns best
     | Some chosen \<Rightarrow>
        (let cost = length chosen;
             better = (case best of None \<Rightarrow> True | Some (_, prev) \<Rightarrow> cost < prev)
         in best_candidate pod h ns (if better then Some (info_name info, cost) else best)))"

definition post_filter_with_registry :: "Pod \<Rightarrow> NodeInfo list \<Rightarrow> Handle \<Rightarrow> string option \<times> Status" where
  "post_filter_with_registry pod ns h = (case best_candidate pod h ns None of
     Some (nm, _) \<Rightarrow> (Some nm, \<lparr>code = Success, status_plugin = ''DefaultPreemption'', reasons = [NominatedNode nm]\<rparr>)
   | None \<Rightarrow> (None, status_unschedulable ''DefaultPreemption'' NoCandidate))"

definition DefaultPreemption :: PostFilterPlugin where
  "DefaultPreemption = \<lparr>pf_name = ''DefaultPreemption'',
     post_filter = (\<lambda>s pod ns _ h. (s, post_filter_with_registry pod ns h))\<rparr>"

section \<open>The default registry\<close>

definition default_handle :: Handle where
  "default_handle = \<lparr>
    pre_filters = [\<lparr>pre_name = ''NodeResourcesFit'', pre_filter = fit_pre_filter, ext_remove_pod = None\<rparr>],
    filters = [
      pure_filter ''NodeUnschedulable'' node_unschedulable_filter,
      pure_filter ''NodeName'' node_name_filter,
      \<lparr>flt_name = ''NodeResourcesFit'', flt_filter = (\<lambda>s p n. (s, fit_filter s p n))\<rparr>,
      pure_filter ''NodePorts'' node_ports_filter,
      pure_filter ''VolumeRestrictions'' volume_filter,
      pure_filter ''TaintToleration'' taint_filter,
      pure_filter ''NodeAffinity'' affinity_filter]\<rparr>"

definition default_registry :: PluginRegistry where
  "default_registry = \<lparr>handle = default_handle, pre_scores = [],
    scores = [
      pure_score ''NodeResourcesBalancedAllocation'' balanced_score,
      pure_score ''NodeResourcesLeastAllocated'' least_requested_score,
      pure_score ''ImageLocality'' image_score],
    post_filters = [DefaultPreemption]\<rparr>"

definition priority_less :: "Pod \<Rightarrow> Pod \<Rightarrow> bool" where
  "priority_less a b = (priority (pod_spec a) > priority (pod_spec b))"

section \<open>The search limit\<close>

definition MIN_FEASIBLE_NODES_TO_FIND :: nat where "MIN_FEASIBLE_NODES_TO_FIND = 100"

definition num_feasible_nodes_to_find :: "nat option \<Rightarrow> nat \<Rightarrow> nat" where
  "num_feasible_nodes_to_find pct num_all =
    (let percentage = (case pct of None \<Rightarrow> 0 | Some p \<Rightarrow> p) in
     if num_all < MIN_FEASIBLE_NODES_TO_FIND \<or> percentage \<ge> 100 then num_all
     else
       let adaptive = (if percentage = 0
             then max (50 - (if num_all < 2 ^ 32 then num_all else 2 ^ 32 - 1) div 125) 5
             else percentage);
           num = min (num_all * adaptive) (2 ^ 64 - 1) div 100
       in if num < MIN_FEASIBLE_NODES_TO_FIND then MIN_FEASIBLE_NODES_TO_FIND else num)"

end
