(* ===== verification/Sched_Decision.thy ===== *)
theory Sched_Decision
  imports Sched_Plugins
begin

text \<open>
  What the scheduling cycle decides with the default plugins: the declarative meaning of the filters
  (\<open>fits\<close>), the nodes that survive the search, the node that wins, and the node that preemption
  nominates when none survives.
\<close>

section \<open>When a pod fits a node\<close>

definition fits :: "Pod \<Rightarrow> NodeInfo \<Rightarrow> bool" where
  "fits pod n \<longleftrightarrow>
     (unschedulable (ni_node n) \<longrightarrow> (\<exists>t \<in> set (tolerations (pod_spec pod)). tol_operator t = Tol_Exists \<and>
        (tol_key t = [] \<or> tol_key t = TAINT_NODE_UNSCHEDULABLE) \<and> tol_effect t \<in> {None, Some NoSchedule})) \<and>
     (node_name (pod_spec pod) \<noteq> [] \<longrightarrow> node_name (pod_spec pod) = info_name n) \<and>
     (\<forall>r. sum_requests pod r \<noteq> 0 \<longrightarrow> sum_requests pod r \<le> i64_saturating_sub (ni_allocatable n r) (requested n r)) \<and>
     (\<forall>c \<in> set (containers (pod_spec pod)). \<forall>p \<in> set (ports c). host_port p \<noteq> 0 \<longrightarrow>
        (\<forall>e \<in> set (used_host_ports n). \<not> conflicts e (port_use p))) \<and>
     (\<forall>e \<in> set (ni_pods n). set (write_claims pod) \<inter> set (write_claims e) = {}) \<and>
     (\<forall>t \<in> set (taints (ni_node n)). taint_effect t = NoSchedule \<longrightarrow>
        (\<exists>tol \<in> set (tolerations (pod_spec pod)). tolerates tol t)) \<and>
     (\<forall>(k, v) \<in> set (node_selector (pod_spec pod)). map_of (labels (node_metadata (ni_node n))) k = Some v) \<and>
     (\<forall>req. affinity (pod_spec pod) = Some (Some (Some req)) \<longrightarrow>
        selector_matches req (labels (node_metadata (ni_node n))))"

definition node_score :: "Pod \<Rightarrow> NodeInfo \<Rightarrow> int" where
  "node_score pod n = balanced_score pod n + least_requested_score pod n + image_score pod n"

definition candidates :: "Pod \<Rightarrow> SchedulerCache \<Rightarrow> nat \<Rightarrow> NodeInfo list" where
  "candidates pod c limit = take limit (filter (fits pod) (snapshot c))"

section \<open>The filters mean \<open>fits\<close>\<close>

definition fit_state :: "Pod \<Rightarrow> CycleState" where
  "fit_state pod = state_write PRE_FILTER_FIT_KEY (PreFilterFitState (sum_requests pod Cpu) (sum_requests pod Memory)) []"

lemma status_codes [simp]:
  "is_success status_success" "\<not> is_success (status_unschedulable pl r)" "\<not> is_success (status_unresolvable pl r)"
  "\<not> is_success (status_error pl r)"
  by (simp_all add: is_success_def status_success_def status_unschedulable_def status_unresolvable_def status_error_def)

lemma unschedulable_filter_iff:
  "is_success (node_unschedulable_filter pod n) \<longleftrightarrow>
   (unschedulable (ni_node n) \<longrightarrow> (\<exists>t \<in> set (tolerations (pod_spec pod)). tol_operator t = Tol_Exists \<and>
        (tol_key t = [] \<or> tol_key t = TAINT_NODE_UNSCHEDULABLE) \<and> tol_effect t \<in> {None, Some NoSchedule}))"
proof -
  have eff: "(case tol_effect t of None \<Rightarrow> True | Some e \<Rightarrow> e = NoSchedule) \<longleftrightarrow> tol_effect t \<in> {None, Some NoSchedule}" for t
    by (cases "tol_effect t") auto
  show ?thesis
    unfolding node_unschedulable_filter_def Let_def list_ex_iff eff by simp
qed

lemma node_name_filter_iff:
  "is_success (node_name_filter pod n) \<longleftrightarrow> (node_name (pod_spec pod) \<noteq> [] \<longrightarrow> node_name (pod_spec pod) = info_name n)"
  by (simp add: node_name_filter_def)

lemma fit_filter_iff:
  "is_success (fit_filter (fit_state pod) pod n) \<longleftrightarrow>
   (\<forall>r. sum_requests pod r \<noteq> 0 \<longrightarrow> sum_requests pod r \<le> i64_saturating_sub (ni_allocatable n r) (requested n r))"
proof -
  have all: "(\<forall>r. P r) \<longleftrightarrow> P Cpu \<and> P Memory" for P
    by (metis ResourceName.exhaust)
  show ?thesis
    unfolding all
    by (auto simp: fit_filter_def fit_state_def state_write_def state_read_fit_def fit_request_def Let_def not_less)
qed

lemma node_ports_filter_iff:
  "is_success (node_ports_filter pod n) \<longleftrightarrow>
   (\<forall>c \<in> set (containers (pod_spec pod)). \<forall>p \<in> set (ports c). host_port p \<noteq> 0 \<longrightarrow>
        (\<forall>e \<in> set (used_host_ports n). \<not> conflicts e (port_use p)))"
  by (auto simp: node_ports_filter_def ports_fit_def list_all_iff list_ex_iff)

lemma map_filter_Nil: "List.map_filter f xs = [] \<longleftrightarrow> (\<forall>x \<in> set xs. f x = None)"
  by (induction xs) (auto simp: map_filter_simps split: option.splits)

lemma volume_filter_iff:
  "is_success (volume_filter pod n) \<longleftrightarrow> (\<forall>e \<in> set (ni_pods n). set (write_claims pod) \<inter> set (write_claims e) = {})"
proof -
  let ?hits = "List.map_filter (\<lambda>existing. map_option (\<lambda>cl. ClaimInUse cl (full_name existing))
      (find (\<lambda>cl. cl \<in> set (write_claims pod)) (write_claims existing))) (ni_pods n)"
  have "?hits = [] \<longleftrightarrow> (\<forall>e \<in> set (ni_pods n). set (write_claims pod) \<inter> set (write_claims e) = {})"
    by (auto simp: map_filter_Nil find_eq_None)
  then show ?thesis
    by (auto simp: volume_filter_def Let_def split: list.split)
qed

lemma taint_filter_iff:
  "is_success (taint_filter pod n) \<longleftrightarrow>
   (\<forall>t \<in> set (taints (ni_node n)). taint_effect t = NoSchedule \<longrightarrow>
        (\<exists>tol \<in> set (tolerations (pod_spec pod)). tolerates tol t))"
proof -
  let ?bad = "\<lambda>t. taint_effect t = NoSchedule \<and> \<not> list_ex (\<lambda>tol. tolerates tol t) (tolerations (pod_spec pod))"
  have "is_success (taint_filter pod n) \<longleftrightarrow> find ?bad (taints (ni_node n)) = None"
    by (simp add: taint_filter_def split: option.split)
  then show ?thesis
    by (auto simp: find_eq_None list_ex_iff)
qed

lemma affinity_filter_iff:
  "is_success (affinity_filter pod n) \<longleftrightarrow>
   (\<forall>(k, v) \<in> set (node_selector (pod_spec pod)). map_of (labels (node_metadata (ni_node n))) k = Some v) \<and>
   (\<forall>req. affinity (pod_spec pod) = Some (Some (Some req)) \<longrightarrow> selector_matches req (labels (node_metadata (ni_node n))))"
proof -
  let ?bad = "\<lambda>(k, v). map_of (labels (node_metadata (ni_node n))) k \<noteq> Some v"
  have none: "find ?bad (node_selector (pod_spec pod)) = None \<longleftrightarrow>
    (\<forall>(k, v) \<in> set (node_selector (pod_spec pod)). map_of (labels (node_metadata (ni_node n))) k = Some v)"
    by (auto simp: find_eq_None)
  show ?thesis
  proof (cases "find ?bad (node_selector (pod_spec pod))")
    case None
    then show ?thesis
      using none by (auto simp: affinity_filter_def Let_def split: option.splits)
  next
    case (Some kv)
    then show ?thesis
      using none by (cases kv) (auto simp: affinity_filter_def Let_def)
  qed
qed

lemmas filter_iffs = unschedulable_filter_iff node_name_filter_iff fit_filter_iff node_ports_filter_iff
  volume_filter_iff taint_filter_iff affinity_filter_iff

lemma run_default_filters:
  "\<exists>s. run_filters (filters default_handle) pod n (fit_state pod) = (fit_state pod, if fits pod n then None else Some s)"
proof -
  have "run_filters (filters default_handle) pod n (fit_state pod) =
    (fit_state pod,
     if \<not> is_success (node_unschedulable_filter pod n) then Some (node_unschedulable_filter pod n)
     else if \<not> is_success (node_name_filter pod n) then Some (node_name_filter pod n)
     else if \<not> is_success (fit_filter (fit_state pod) pod n) then Some (fit_filter (fit_state pod) pod n)
     else if \<not> is_success (node_ports_filter pod n) then Some (node_ports_filter pod n)
     else if \<not> is_success (volume_filter pod n) then Some (volume_filter pod n)
     else if \<not> is_success (taint_filter pod n) then Some (taint_filter pod n)
     else if \<not> is_success (affinity_filter pod n) then Some (affinity_filter pod n)
     else None)"
    by (simp add: default_handle_def pure_filter_def)
  moreover have "fits pod n \<longleftrightarrow> is_success (node_unschedulable_filter pod n) \<and> is_success (node_name_filter pod n) \<and>
    is_success (fit_filter (fit_state pod) pod n) \<and> is_success (node_ports_filter pod n) \<and>
    is_success (volume_filter pod n) \<and> is_success (taint_filter pod n) \<and> is_success (affinity_filter pod n)"
    unfolding filter_iffs fits_def by blast
  ultimately show ?thesis
    by (auto split: if_splits)
qed

lemma filter_loop_default:
  assumes "length feasible \<le> limit"
  shows "\<exists>fl. filter_loop (filters default_handle) pod limit ns feasible failures (fit_state pod) =
    (fit_state pod, take limit (feasible @ filter (fits pod) ns), fl)"
  using assms
proof (induction ns arbitrary: feasible failures)
  case Nil
  then show ?case by simp
next
  case (Cons n ns)
  obtain s where s: "run_filters (filters default_handle) pod n (fit_state pod) =
      (fit_state pod, if fits pod n then None else Some s)"
    using run_default_filters by blast
  show ?case
  proof (cases "length feasible \<ge> limit")
    case True
    then show ?thesis
      using Cons.prems by simp
  next
    case False
    then show ?thesis
      using Cons.IH[of "feasible @ [n]" failures] Cons.IH[of feasible "bt_insert (info_name n) s failures"] s Cons.prems
      by (cases "fits pod n") auto
  qed
qed


section \<open>The node that wins\<close>

lemma clamp_score_bounds [simp]: "0 \<le> clamp_score x" "clamp_score x \<le> 100"
  by (simp_all add: clamp_score_def MAX_NODE_SCORE_def)

lemma score_bounds:
  "0 \<le> balanced_score pod n" "balanced_score pod n \<le> 100"
  "0 \<le> least_requested_score pod n" "least_requested_score pod n \<le> 100"
  "0 \<le> image_score pod n" "image_score pod n \<le> 100"
  by (simp_all add: balanced_score_def least_requested_score_def image_score_def Let_def)

lemma raw_scores_pure:
  "raw_scores (pure_score nm f) pod ns st = (st, Inr (map (\<lambda>n. \<lparr>ns_name = info_name n, ns_score = f pod n\<rparr>) ns))"
  by (induction ns) (simp_all add: pure_score_def)

lemma accumulate_pure:
  assumes "\<And>n. 0 \<le> f pod n \<and> f pod n \<le> 100" and "\<And>n. 0 \<le> g n \<and> g n \<le> 1000"
  shows "accumulate (pure_score nm f) (map (\<lambda>n. (info_name n, g n)) ns)
      (map (\<lambda>n. \<lparr>ns_name = info_name n, ns_score = f pod n\<rparr>) ns) = Inr (map (\<lambda>n. (info_name n, g n + f pod n)) ns)"
proof (induction ns)
  case Nil
  then show ?case by simp
next
  case (Cons n ns)
  then show ?case
    using assms(1)[of n] assms(2)[of n]
    by (simp add: pure_score_def MIN_NODE_SCORE_def MAX_NODE_SCORE_def i64_saturating_mul_def clamp_i64_def
        i64_saturating_add_def i64_max_def i64_min_def)
qed

lemma score_loop_pure:
  assumes "\<And>n. 0 \<le> f pod n \<and> f pod n \<le> 100" and "\<And>n. 0 \<le> g n \<and> g n \<le> 1000"
  shows "score_loop (pure_score nm f # pls) pod ns (map (\<lambda>n. (info_name n, g n)) ns) st =
    score_loop pls pod ns (map (\<lambda>n. (info_name n, g n + f pod n)) ns) st"
  using accumulate_pure[of f pod g nm ns, OF assms] by (simp add: raw_scores_pure) (simp add: pure_score_def)

lemma score_loop_default:
  "score_loop (scores default_registry) pod ns (map (\<lambda>n. (info_name n, 0)) ns) st =
   Inr (map (\<lambda>n. (info_name n, node_score pod n)) ns)"
proof -
  note b = score_bounds[of pod]
  have "score_loop (scores default_registry) pod ns (map (\<lambda>n. (info_name n, 0)) ns) st =
    score_loop [pure_score ''NodeResourcesLeastAllocated'' least_requested_score, pure_score ''ImageLocality'' image_score]
      pod ns (map (\<lambda>n. (info_name n, 0 + balanced_score pod n)) ns) st"
    unfolding default_registry_def PluginRegistry.select_convs by (rule score_loop_pure) (simp_all add: b)
  also have "\<dots> = score_loop [pure_score ''ImageLocality'' image_score]
      pod ns (map (\<lambda>n. (info_name n, 0 + balanced_score pod n + least_requested_score pod n)) ns) st"
    by (rule score_loop_pure) (simp_all add: b order_trans[OF b(2)])
  also have "\<dots> = score_loop []
      pod ns (map (\<lambda>n. (info_name n, 0 + balanced_score pod n + least_requested_score pod n + image_score pod n)) ns) st"
  proof (rule score_loop_pure)
    show "0 \<le> 0 + balanced_score pod n + least_requested_score pod n \<and>
        0 + balanced_score pod n + least_requested_score pod n \<le> 1000" for n
      using b(1,2,3,4)[of n] by simp
  qed (simp add: b)
  finally show ?thesis
    by (simp add: node_score_def)
qed

lemma max_by_score_last:
  assumes "xs \<noteq> []"
  shows "\<exists>i < length xs. max_by_score xs = Some (xs ! i) \<and> (\<forall>j < length xs. snd (xs ! j) \<le> snd (xs ! i)) \<and>
    (\<forall>j < length xs. i < j \<longrightarrow> snd (xs ! j) < snd (xs ! i))"
  using assms
proof (induction xs)
  case Nil
  then show ?case by simp
next
  case (Cons x xs)
  show ?case
  proof (cases "xs = []")
    case True
    then show ?thesis by simp
  next
    case False
    then obtain i where i: "i < length xs" "max_by_score xs = Some (xs ! i)"
        "\<forall>j < length xs. snd (xs ! j) \<le> snd (xs ! i)" "\<forall>j < length xs. i < j \<longrightarrow> snd (xs ! j) < snd (xs ! i)"
      using Cons.IH by blast
    show ?thesis
    proof (cases "snd x > snd (xs ! i)")
      case True
      then show ?thesis
        using i by (intro exI[of _ 0]) (force simp: nth_Cons split: nat.split)
    next
      case False
      then show ?thesis
        using i by (intro exI[of _ "Suc i"]) (auto simp: nth_Cons split: nat.split)
    qed
  qed
qed

lemma apply_pre_filters_default:
  "apply_pre_filters pod ns default_handle [] = (fit_state pod, Inr ns)"
  by (simp add: apply_pre_filters_def default_handle_def fit_pre_filter_def fit_state_def)

definition best_of :: "Pod \<Rightarrow> NodeInfo list \<Rightarrow> nat \<Rightarrow> bool" where
  "best_of pod cs i \<longleftrightarrow> i < length cs \<and> (\<forall>j < length cs. node_score pod (cs ! j) \<le> node_score pod (cs ! i)) \<and>
     (\<forall>j < length cs. i < j \<longrightarrow> node_score pod (cs ! j) < node_score pod (cs ! i))"

lemma max_by_score_best:
  assumes "cs \<noteq> []"
  shows "\<exists>i. best_of pod cs i \<and> max_by_score (map (\<lambda>n. (info_name n, node_score pod n)) cs) =
    Some (info_name (cs ! i), node_score pod (cs ! i))"
  using max_by_score_last[of "map (\<lambda>n. (info_name n, node_score pod n)) cs"] assms
  by (auto simp: best_of_def)

lemma schedule_default_unfold:
  "\<exists>fl. schedule_one_limited pod c default_registry limit =
   (if candidates pod c limit = [] then
      (case post_filter_loop [DefaultPreemption] pod (snapshot c) fl default_handle (fit_state pod) of
         Some nominee \<Rightarrow> \<lparr>suggested_host = None, evaluated_nodes = length (snapshot c), feasible_nodes = 0,
                          nominated_node = Some nominee, filter_failures = fl, result_error = None\<rparr>
       | None \<Rightarrow> result_unschedulable fl (length (snapshot c)))
    else \<lparr>suggested_host = map_option fst (max_by_score (map (\<lambda>n. (info_name n, node_score pod n)) (candidates pod c limit))),
          evaluated_nodes = length (snapshot c), feasible_nodes = length (candidates pod c limit),
          nominated_node = None, filter_failures = fl, result_error = None\<rparr>)"
proof -
  have reg: "handle default_registry = default_handle" "pre_scores default_registry = []"
      "post_filters default_registry = [DefaultPreemption]"
    by (simp_all add: default_registry_def)
  obtain fl where "filter_loop (filters default_handle) pod limit (snapshot c) [] [] (fit_state pod) =
      (fit_state pod, candidates pod c limit, fl)"
    using filter_loop_default[of "[]" limit pod "snapshot c" "[]"] by (auto simp: candidates_def)
  then show ?thesis
    unfolding schedule_one_limited_def Let_def reg
    by (intro exI[of _ fl]) (simp add: apply_pre_filters_default score_loop_default)
qed

lemma post_filter_default:
  "post_filter_loop [DefaultPreemption] pod ns fl default_handle st =
   map_option fst (best_candidate pod default_handle ns None)"
  by (auto simp: DefaultPreemption_def post_filter_with_registry_def is_success_def split: option.split)

lemma schedule_default_fields:
  "result_error (schedule_one_limited pod c default_registry limit) = None"
  "feasible_nodes (schedule_one_limited pod c default_registry limit) = length (candidates pod c limit)"
  "suggested_host (schedule_one_limited pod c default_registry limit) =
     map_option fst (max_by_score (map (\<lambda>n. (info_name n, node_score pod n)) (candidates pod c limit)))"
  "nominated_node (schedule_one_limited pod c default_registry limit) =
     (if candidates pod c limit = [] then map_option fst (best_candidate pod default_handle (snapshot c) None) else None)"
proof -
  let ?best = "best_candidate pod default_handle (snapshot c) None"
  let ?r = "schedule_one_limited pod c default_registry limit"
  have "result_error ?r = None \<and> feasible_nodes ?r = length (candidates pod c limit) \<and>
    suggested_host ?r = map_option fst (max_by_score (map (\<lambda>n. (info_name n, node_score pod n)) (candidates pod c limit))) \<and>
    nominated_node ?r = (if candidates pod c limit = [] then map_option fst ?best else None)"
  proof -
    obtain fl where eq: "?r = (if candidates pod c limit = [] then
      (case map_option fst ?best of
         Some nominee \<Rightarrow> \<lparr>suggested_host = None, evaluated_nodes = length (snapshot c), feasible_nodes = 0,
                          nominated_node = Some nominee, filter_failures = fl, result_error = None\<rparr>
       | None \<Rightarrow> result_unschedulable fl (length (snapshot c)))
      else \<lparr>suggested_host = map_option fst (max_by_score (map (\<lambda>n. (info_name n, node_score pod n)) (candidates pod c limit))),
          evaluated_nodes = length (snapshot c), feasible_nodes = length (candidates pod c limit),
          nominated_node = None, filter_failures = fl, result_error = None\<rparr>)"
      using schedule_default_unfold[of pod c limit] unfolding post_filter_default by blast
    show ?thesis
      unfolding eq by (cases ?best) (simp_all add: result_unschedulable_def)
  qed
  then show "result_error ?r = None" "feasible_nodes ?r = length (candidates pod c limit)"
    "suggested_host ?r = map_option fst (max_by_score (map (\<lambda>n. (info_name n, node_score pod n)) (candidates pod c limit)))"
    "nominated_node ?r = (if candidates pod c limit = [] then map_option fst ?best else None)"
    by blast+
qed

text \<open>
  C35. With the default plugins the scheduling cycle never ends in a plugin error. The nodes it keeps
  are the first \<open>limit\<close> nodes of the cache, in name order, that satisfy every filter; it suggests a host
  exactly when there is one, and then the suggested host is the name of a kept node whose total score is
  the greatest, the last such node when several have it (\<open>schedule_one_limited\<close>).
\<close>
theorem schedule_picks_best:
  "result_error (schedule_one_limited pod c default_registry limit) = None \<and>
   feasible_nodes (schedule_one_limited pod c default_registry limit) = length (candidates pod c limit) \<and>
   (case suggested_host (schedule_one_limited pod c default_registry limit) of
      None \<Rightarrow> candidates pod c limit = []
    | Some h \<Rightarrow> \<exists>i. best_of pod (candidates pod c limit) i \<and> h = info_name (candidates pod c limit ! i))"
proof (cases "candidates pod c limit = []")
  case True
  then show ?thesis
    by (simp add: schedule_default_fields)
next
  case False
  then show ?thesis
    using max_by_score_best[of "candidates pod c limit" pod] by (auto simp: schedule_default_fields)
qed

section \<open>The node that preemption nominates\<close>

definition evict :: "Pod list \<Rightarrow> NodeInfo \<Rightarrow> NodeInfo" where
  "evict victims n = fold ni_remove_pod victims n"

text \<open>
  The order of eviction: every pod of the node whose priority is strictly lower than that of \<open>pod\<close>, and no
  other, lowest priority first, those of one priority in the order in which the node holds them. Its
  first \<open>k\<close> pods are what has to go for the pod to fit: with fewer of them it does not.
\<close>

definition evictees :: "Pod \<Rightarrow> NodeInfo \<Rightarrow> Pod list \<Rightarrow> bool" where
  "evictees pod n vs \<longleftrightarrow> sorted (map (\<lambda>p. priority (pod_spec p)) vs) \<and>
     (\<forall>q. filter (\<lambda>p. priority (pod_spec p) = q) vs =
       (if q < priority (pod_spec pod) then filter (\<lambda>p. priority (pod_spec p) = q) (ni_pods n) else []))"

definition victim_prefix :: "Pod \<Rightarrow> NodeInfo \<Rightarrow> nat \<Rightarrow> bool" where
  "victim_prefix pod n k \<longleftrightarrow> (\<exists>vs. evictees pod n vs \<and> 0 < k \<and> k \<le> length vs \<and>
     fits pod (evict (take k vs) n) \<and> (\<forall>j < k. \<not> fits pod (evict (take j vs) n)))"

lemma evictees_iff: "evictees pod n vs \<longleftrightarrow> vs = eviction_order pod n"
proof
  let ?f = "\<lambda>p. priority (pod_spec p)"
  let ?xs = "filter (\<lambda>p. ?f p < ?f pod) (ni_pods n)"
  assume e: "evictees pod n vs"
  have part: "filter (\<lambda>p. ?f p = q) vs = filter (\<lambda>p. ?f p = q) ?xs" for q
    using e by (auto simp: evictees_def intro!: filter_cong)
  have "count (mset vs) x = count (mset ?xs) x" for x
  proof -
    have "count (mset ys) x = count (mset (filter (\<lambda>p. ?f p = ?f x) ys)) x" for ys
      by simp
    then show ?thesis
      using part[of "?f x"] by metis
  qed
  then have "mset vs = mset ?xs"
    by (simp add: multiset_eq_iff)
  then have "sort_key ?f ?xs = vs"
    using e part by (intro properties_for_sort_key) (auto simp: evictees_def eq_commute)
  then show "vs = eviction_order pod n"
    by (simp add: eviction_order_def)
next
  assume "vs = eviction_order pod n"
  then show "evictees pod n vs"
    by (auto simp: evictees_def eviction_order_def sort_key_stable intro!: filter_cong filter_False)
qed

lemma victim_prefix_order:
  "victim_prefix pod n k \<longleftrightarrow> 0 < k \<and> k \<le> length (eviction_order pod n) \<and>
     fits pod (evict (take k (eviction_order pod n)) n) \<and>
     (\<forall>j < k. \<not> fits pod (evict (take j (eviction_order pod n)) n))"
  by (simp add: victim_prefix_def evictees_iff)

definition cheapest_victims :: "Pod \<Rightarrow> NodeInfo list \<Rightarrow> NodeInfo \<Rightarrow> nat \<Rightarrow> bool" where
  "cheapest_victims pod ns n k \<longleftrightarrow> n \<in> set ns \<and> victim_prefix pod n k \<and>
     (\<forall>m \<in> set ns. \<forall>j. victim_prefix pod m j \<longrightarrow> k \<le> j)"

lemma victim_prefix_unique: "victim_prefix pod n j \<Longrightarrow> victim_prefix pod n k \<Longrightarrow> j = k"
  unfolding victim_prefix_order by (metis linorder_neqE_nat)

lemma remove_victims_default:
  "remove_victims (pre_filters default_handle) pod vs n st = Some (st, evict vs n)"
  by (induction vs arbitrary: n) (simp_all add: default_handle_def evict_def)

lemma fits_with_default:
  "fits_with_registry pod n vs default_handle \<longleftrightarrow> fits pod (evict vs n)"
proof -
  have seed: "seed_pre_filters (pre_filters default_handle) pod [] = Some (fit_state pod)"
    by (simp add: default_handle_def fit_pre_filter_def fit_state_def)
  obtain s where "run_filters (filters default_handle) pod (evict vs n) (fit_state pod) =
      (fit_state pod, if fits pod (evict vs n) then None else Some s)"
    using run_default_filters by blast
  then show ?thesis
    by (simp add: fits_with_registry_def seed remove_victims_default)
qed

lemma greedy_default:
  assumes "b \<longleftrightarrow> fits pod (evict chosen n)"
  shows "\<exists>k \<le> length vs. greedy pod n default_handle chosen vs b =
      (chosen @ take k vs, fits pod (evict (chosen @ take k vs) n)) \<and>
    (\<forall>j < k. \<not> fits pod (evict (chosen @ take j vs) n)) \<and>
    (k < length vs \<longrightarrow> fits pod (evict (chosen @ take k vs) n))"
  using assms
proof (induction vs arbitrary: chosen b)
  case Nil
  then show ?case by simp
next
  case (Cons v vs)
  show ?case
  proof (cases b)
    case True
    then show ?thesis
      using Cons.prems by (intro exI[of _ 0]) simp
  next
    case False
    obtain k where k: "k \<le> length vs"
        "greedy pod n default_handle (chosen @ [v]) vs (fits_with_registry pod n (chosen @ [v]) default_handle) =
          ((chosen @ [v]) @ take k vs, fits pod (evict ((chosen @ [v]) @ take k vs) n))"
        "\<forall>j < k. \<not> fits pod (evict ((chosen @ [v]) @ take j vs) n)"
        "k < length vs \<longrightarrow> fits pod (evict ((chosen @ [v]) @ take k vs) n)"
      using Cons.IH[OF fits_with_default] by blast
    have "\<not> fits pod (evict (chosen @ take j (v # vs)) n)" if "j < Suc k" for j
      using that k(3) Cons.prems False by (cases j) auto
    then show ?thesis
      using k False by (intro exI[of _ "Suc k"]) auto
  qed
qed

lemma select_victims_default:
  "select_victims pod n default_handle = Some vs \<longleftrightarrow>
   (\<exists>k. victim_prefix pod n k \<and> vs = take k (eviction_order pod n))"
proof -
  let ?e = "eviction_order pod n"
  obtain k where k: "k \<le> length ?e"
      "greedy pod n default_handle [] ?e (fits_with_registry pod n [] default_handle) =
        (take k ?e, fits pod (evict (take k ?e) n))"
      "\<forall>j < k. \<not> fits pod (evict (take j ?e) n)" "k < length ?e \<longrightarrow> fits pod (evict (take k ?e) n)"
    using greedy_default[OF fits_with_default[of pod n "[]"], of ?e] by auto
  show ?thesis
  proof (cases "0 < k \<and> fits pod (evict (take k ?e) n)")
    case True
    then have "victim_prefix pod n k" and "take k ?e \<noteq> []"
      using k by (auto simp: victim_prefix_order)
    then show ?thesis
      using k(2) True victim_prefix_unique by (auto simp: select_victims_def)
  next
    case False
    have "\<not> victim_prefix pod n j" for j
    proof
      assume j: "victim_prefix pod n j"
      have "\<not> j < k"
        using j k(3) by (auto simp: victim_prefix_order)
      moreover have "j \<noteq> k"
        using j False by (auto simp: victim_prefix_order)
      ultimately have "k < j"
        by simp
      then have "\<not> fits pod (evict (take k ?e) n)" "k < length ?e"
        using j by (auto simp: victim_prefix_order)
      then show False
        using k(4) by blast
    qed
    then show ?thesis
      using k(2) False by (auto simp: select_victims_def)
  qed
qed

lemma select_victims_none:
  "select_victims pod n default_handle = None \<longleftrightarrow> (\<nexists>k. victim_prefix pod n k)"
  using select_victims_default[of pod n] by (metis not_None_eq)

text \<open>What \<open>best_candidate\<close> holds after the nodes \<open>ms\<close>.\<close>

definition best_so_far :: "Pod \<Rightarrow> NodeInfo list \<Rightarrow> (string \<times> nat) option \<Rightarrow> bool" where
  "best_so_far pod ms best \<longleftrightarrow> (case best of
     None \<Rightarrow> \<nexists>n k. n \<in> set ms \<and> victim_prefix pod n k
   | Some (nm, k) \<Rightarrow> \<exists>n. cheapest_victims pod ms n k \<and> nm = info_name n)"

lemma best_so_far_step:
  assumes "best_so_far pod ms best" and "victim_prefix pod n k"
  shows "best_so_far pod (ms @ [n])
    (if (case best of None \<Rightarrow> True | Some (_, prev) \<Rightarrow> k < prev) then Some (info_name n, k) else best)"
proof (cases best)
  case None
  then have none: "\<nexists>m j. m \<in> set ms \<and> victim_prefix pod m j"
    using assms(1) by (simp add: best_so_far_def)
  have "k \<le> j" if "m \<in> set (ms @ [n])" "victim_prefix pod m j" for m j
    using that none victim_prefix_unique[OF assms(2), of j] by auto
  then have "cheapest_victims pod (ms @ [n]) n k"
    using assms(2) unfolding cheapest_victims_def by simp
  then show ?thesis
    using None by (auto simp: best_so_far_def)
next
  case (Some b)
  obtain nm p where b: "b = (nm, p)" by (cases b)
  then obtain m where m: "cheapest_victims pod ms m p" "nm = info_name m"
    using assms(1) Some by (auto simp: best_so_far_def)
  show ?thesis
  proof (cases "k < p")
    case True
    have "k \<le> j" if "m' \<in> set (ms @ [n])" "victim_prefix pod m' j" for m' j
      using that m(1) True victim_prefix_unique[OF assms(2)] order_trans[OF less_imp_le[OF True]]
      unfolding cheapest_victims_def set_append by force
    then have "cheapest_victims pod (ms @ [n]) n k"
      using assms(2) unfolding cheapest_victims_def by simp
    then show ?thesis
      using True Some b by (auto simp: best_so_far_def)
  next
    case False
    have "p \<le> j" if "m' \<in> set (ms @ [n])" "victim_prefix pod m' j" for m' j
      using that m(1) False victim_prefix_unique[OF assms(2)]
      unfolding cheapest_victims_def set_append by force
    then have "cheapest_victims pod (ms @ [n]) m p"
      using m(1) unfolding cheapest_victims_def by simp
    then show ?thesis
      using False Some b m(2) by (auto simp: best_so_far_def)
  qed
qed

lemma best_so_far_skip:
  "best_so_far pod ms best \<Longrightarrow> \<nexists>k. victim_prefix pod n k \<Longrightarrow> best_so_far pod (ms @ [n]) best"
  by (auto simp: best_so_far_def cheapest_victims_def split: option.splits)

lemma best_candidate_default:
  "best_so_far pod ms best \<Longrightarrow> best_so_far pod (ms @ ns) (best_candidate pod default_handle ns best)"
proof (induction ns arbitrary: ms best)
  case Nil
  then show ?case by simp
next
  case (Cons n ns)
  show ?case
  proof (cases "select_victims pod n default_handle")
    case None
    then show ?thesis
      using Cons.IH[of "ms @ [n]" best] best_so_far_skip[OF Cons.prems] select_victims_none[of pod n] by simp
  next
    case (Some vs)
    then obtain k where k: "victim_prefix pod n k" "vs = take k (eviction_order pod n)"
      using select_victims_default by blast
    then have "length vs = k"
      by (simp add: victim_prefix_order)
    then show ?thesis
      using Cons.IH[OF best_so_far_step[OF Cons.prems k(1)]] Some by (simp add: Let_def)
  qed
qed

text \<open>
  C36. Preemption (\<open>DefaultPreemption::post_filter_with_registry\<close>), reached from the scheduling cycle when
  no node is kept. With the default plugins a node is nominated exactly when some node would take the pod
  after removing a non-empty prefix of its pods of strictly lower priority, taken lowest priority first
  and, at one priority, in the order in which the node holds them; the nominated node is one for which the shortest such prefix is as short as on any node. A cycle that
  suggests a host nominates none.
\<close>
theorem preemption_nominates_cheapest:
  "if candidates pod c limit = [] then
     (case nominated_node (schedule_one_limited pod c default_registry limit) of
        None \<Rightarrow> \<nexists>n k. n \<in> set (snapshot c) \<and> victim_prefix pod n k
      | Some nm \<Rightarrow> \<exists>n k. cheapest_victims pod (snapshot c) n k \<and> nm = info_name n)
   else nominated_node (schedule_one_limited pod c default_registry limit) = None"
proof -
  have best: "best_so_far pod (snapshot c) (best_candidate pod default_handle (snapshot c) None)"
    using best_candidate_default[of pod "[]" None "snapshot c"] by (simp add: best_so_far_def)
  show ?thesis
    unfolding schedule_default_fields
    using best by (cases "best_candidate pod default_handle (snapshot c) None") (auto simp: best_so_far_def; blast)+
qed

end
