(* ===== verification/Sched_Account.thy ===== *)
theory Sched_Account
  imports Sched_Decision
begin

text \<open>
  The books of the scheduler's cache: the requested totals and the used host ports of a node are the
  sums over the pods it holds, whatever is added and removed; a run that only places pods where the
  scheduling cycle suggests never commits more of a node than it has announced. One flow does not keep the books:
  the bind event of a pod that is still assumed counts the pod a second time.
\<close>

section \<open>What the pods of a node ask for\<close>

definition load :: "(ResourceName \<times> int) list \<Rightarrow> ResourceName \<Rightarrow> int" where
  "load kqs r = sum_list (map (\<lambda>kq. if fst kq = r then snd kq else 0) kqs)"

definition all_requests :: "Container list \<Rightarrow> (ResourceName \<times> int) list" where
  "all_requests cs = concat (map (\<lambda>c. requests (resources c)) cs)"

definition all_ports :: "Container list \<Rightarrow> HostPortUse list" where
  "all_ports cs = concat (map (\<lambda>c. map port_use (filter (\<lambda>p. host_port p \<noteq> 0) (ports c))) cs)"

definition pod_request :: "Pod \<Rightarrow> ResourceName \<Rightarrow> int" where
  "pod_request p r = load (all_requests (containers (pod_spec p))) r"

definition pod_ports :: "Pod \<Rightarrow> HostPortUse list" where
  "pod_ports p = all_ports (containers (pod_spec p))"

definition pod_ok :: "Pod \<Rightarrow> bool" where
  "pod_ok p \<longleftrightarrow> (\<forall>c \<in> set (containers (pod_spec p)). bt_ok (requests (resources c)) \<and>
     (\<forall>kq \<in> set (requests (resources c)). 0 \<le> snd kq))"

definition node_total :: "NodeInfo \<Rightarrow> ResourceName \<Rightarrow> int" where
  "node_total ni r = sum_list (map (\<lambda>p. pod_request p r) (ni_pods ni))"

definition tally :: "NodeInfo \<Rightarrow> (ResourceName \<Rightarrow> int) \<Rightarrow> bool" where
  "tally ni f \<longleftrightarrow> (\<forall>r. map_of (ni_requested ni) r = Some (f r))"

definition accounted :: "NodeInfo \<Rightarrow> bool" where
  "accounted ni \<longleftrightarrow> tally ni (node_total ni) \<and>
     mset (used_host_ports ni) = mset (concat (map pod_ports (ni_pods ni))) \<and>
     (\<forall>p \<in> set (ni_pods ni). pod_ok p) \<and> (\<forall>r. node_total ni r \<le> i64_max)"

section \<open>The effect of one pod\<close>

lemma load_Nil [simp]: "load [] r = 0"
  and load_Cons [simp]: "load (kq # kqs) r = (if fst kq = r then snd kq else 0) + load kqs r"
  and load_append [simp]: "load (xs @ ys) r = load xs r + load ys r"
  by (simp_all add: load_def)

lemma load_nonneg: "\<forall>kq \<in> set kqs. 0 \<le> snd kq \<Longrightarrow> 0 \<le> load kqs r"
  by (auto simp: load_def intro!: sum_list_nonneg)

lemma pod_ok_requests: "pod_ok p \<Longrightarrow> \<forall>kq \<in> set (all_requests (containers (pod_spec p))). 0 \<le> snd kq"
  by (fastforce simp: pod_ok_def all_requests_def)

lemma pod_request_nonneg: "pod_ok p \<Longrightarrow> 0 \<le> pod_request p r"
  unfolding pod_request_def by (rule load_nonneg[OF pod_ok_requests])

lemma all_requests_simps [simp]:
  "all_requests [] = []" "all_requests (c # cs) = requests (resources c) @ all_requests cs"
  by (simp_all add: all_requests_def)

lemma all_ports_simps [simp]:
  "all_ports [] = []"
  "all_ports (c # cs) = map port_use (filter (\<lambda>p. host_port p \<noteq> 0) (ports c)) @ all_ports cs"
  by (simp_all add: all_ports_def)

lemma fold_add_request_frame [simp]:
  "ni_pods (fold add_request kqs ni) = ni_pods ni" "ni_node (fold add_request kqs ni) = ni_node ni"
  "used_host_ports (fold add_request kqs ni) = used_host_ports ni"
  by (induction kqs arbitrary: ni) (simp_all add: add_request_def)

lemma fold_sub_request_frame [simp]:
  "ni_pods (fold sub_request kqs ni) = ni_pods ni" "ni_node (fold sub_request kqs ni) = ni_node ni"
  "used_host_ports (fold sub_request kqs ni) = used_host_ports ni"
  by (induction kqs arbitrary: ni) (simp_all add: sub_request_def split: option.split)

lemma fold_add_port_frame [simp]:
  "ni_pods (fold add_port ps ni) = ni_pods ni" "ni_node (fold add_port ps ni) = ni_node ni"
  "ni_requested (fold add_port ps ni) = ni_requested ni"
  by (induction ps arbitrary: ni) (simp_all add: add_port_def)

lemma fold_sub_port_frame [simp]:
  "ni_pods (fold sub_port ps ni) = ni_pods ni" "ni_node (fold sub_port ps ni) = ni_node ni"
  "ni_requested (fold sub_port ps ni) = ni_requested ni"
  by (induction ps arbitrary: ni) (simp_all add: sub_port_def)

lemma fold_container_frame [simp]:
  "ni_pods (fold add_container cs ni) = ni_pods ni" "ni_node (fold add_container cs ni) = ni_node ni"
  "ni_pods (fold sub_container cs ni) = ni_pods ni" "ni_node (fold sub_container cs ni) = ni_node ni"
  by (induction cs arbitrary: ni) (simp_all add: add_container_def sub_container_def)

lemma fold_add_port: "used_host_ports (fold add_port ps ni) =
    used_host_ports ni @ map port_use (filter (\<lambda>p. host_port p \<noteq> 0) ps)"
  by (induction ps arbitrary: ni) (simp_all add: add_port_def)

lemma fold_sub_port: "mset (used_host_ports (fold sub_port ps ni)) =
    mset (used_host_ports ni) - mset (map port_use (filter (\<lambda>p. host_port p \<noteq> 0) ps))"
  by (induction ps arbitrary: ni) (simp_all add: sub_port_def)

lemma fold_add_container_ports:
  "used_host_ports (fold add_container cs ni) = used_host_ports ni @ all_ports cs"
  by (induction cs arbitrary: ni) (simp_all add: add_container_def fold_add_port)

lemma fold_sub_container_ports:
  "mset (used_host_ports (fold sub_container cs ni)) = mset (used_host_ports ni) - mset (all_ports cs)"
  by (induction cs arbitrary: ni) (simp_all add: sub_container_def fold_sub_port)

lemma tally_requested: "tally ni f \<Longrightarrow> requested ni r = f r"
  by (simp add: tally_def requested_def)

lemma wrap_i64_id: "0 \<le> x \<Longrightarrow> x \<le> i64_max \<Longrightarrow> wrap_i64 x = x"
  by (simp add: wrap_i64_def i64_max_def)

lemma tally_add_request:
  assumes "tally ni f" and "0 \<le> f (fst kq) + snd kq" and "f (fst kq) + snd kq \<le> i64_max"
  shows "tally (add_request kq ni) (\<lambda>r. f r + (if fst kq = r then snd kq else 0))"
  using assms tally_requested[OF assms(1)] by (simp add: tally_def add_request_def bt.get_insert wrap_i64_id)

lemma tally_sub_request:
  assumes "tally ni f" and "0 \<le> snd kq" and "snd kq \<le> f (fst kq)" and "f (fst kq) \<le> i64_max"
  shows "tally (sub_request kq ni) (\<lambda>r. f r - (if fst kq = r then snd kq else 0))"
  using assms
  by (simp add: tally_def sub_request_def bt.get_insert i64_saturating_sub_def clamp_i64_def i64_max_def i64_min_def)

lemma tally_cong: "tally ni f \<Longrightarrow> (\<And>r. f r = g r) \<Longrightarrow> tally ni g"
  by (simp add: tally_def)

lemma tally_same_map: "ni_requested ni = ni_requested ni' \<Longrightarrow> tally ni f \<longleftrightarrow> tally ni' f"
  by (simp add: tally_def)

lemma tally_add_requests:
  assumes "tally ni f" and "\<forall>r. 0 \<le> f r" and "\<forall>kq \<in> set kqs. 0 \<le> snd kq" and "\<forall>r. f r + load kqs r \<le> i64_max"
  shows "tally (fold add_request kqs ni) (\<lambda>r. f r + load kqs r)"
  using assms
proof (induction kqs arbitrary: ni f)
  case Nil
  then show ?case by simp
next
  case (Cons kq kqs)
  let ?f = "\<lambda>r. f r + (if fst kq = r then snd kq else 0)"
  have q: "0 \<le> snd kq" and nn: "0 \<le> load kqs r" for r
    using Cons.prems(3) load_nonneg[of kqs r] by auto
  have "f (fst kq) + load (kq # kqs) (fst kq) \<le> i64_max" and "0 \<le> f (fst kq)"
    using Cons.prems(2,4) by blast+
  then have "tally (add_request kq ni) ?f"
    using q nn[of "fst kq"] by (intro tally_add_request[OF Cons.prems(1)]) auto
  moreover have "\<forall>r. 0 \<le> ?f r"
    using Cons.prems(2) q by (simp add: add_nonneg_nonneg)
  moreover have "\<forall>r. ?f r + load kqs r \<le> i64_max"
    using Cons.prems(4) by (simp add: add.assoc)
  ultimately have "tally (fold add_request kqs (add_request kq ni)) (\<lambda>r. ?f r + load kqs r)"
    using Cons.prems(3) by (intro Cons.IH) auto
  then show ?case
    by (simp add: add.assoc)
qed

lemma tally_sub_requests:
  assumes "tally ni f" and "\<forall>kq \<in> set kqs. 0 \<le> snd kq" and "\<forall>r. load kqs r \<le> f r \<and> f r \<le> i64_max"
  shows "tally (fold sub_request kqs ni) (\<lambda>r. f r - load kqs r)"
  using assms
proof (induction kqs arbitrary: ni f)
  case Nil
  then show ?case by simp
next
  case (Cons kq kqs)
  let ?f = "\<lambda>r. f r - (if fst kq = r then snd kq else 0)"
  have q: "0 \<le> snd kq" and nn: "0 \<le> load kqs r" for r
    using Cons.prems(2) load_nonneg[of kqs r] by auto
  have "load (kq # kqs) (fst kq) \<le> f (fst kq)" "f (fst kq) \<le> i64_max"
    using Cons.prems(3) by blast+
  then have "tally (sub_request kq ni) ?f"
    using q nn[of "fst kq"] by (intro tally_sub_request[OF Cons.prems(1)]) auto
  moreover have "load kqs r \<le> ?f r \<and> ?f r \<le> i64_max" for r
    using Cons.prems(3)[rule_format, of r] q by auto
  ultimately have "tally (fold sub_request kqs (sub_request kq ni)) (\<lambda>r. ?f r - load kqs r)"
    using Cons.prems(2) by (intro Cons.IH) auto
  then show ?case
    by (simp add: algebra_simps)
qed

lemma tally_add_containers:
  assumes "tally ni f" and "\<forall>r. 0 \<le> f r" and "\<forall>kq \<in> set (all_requests cs). 0 \<le> snd kq"
    and "\<forall>r. f r + load (all_requests cs) r \<le> i64_max"
  shows "tally (fold add_container cs ni) (\<lambda>r. f r + load (all_requests cs) r)"
  using assms
proof (induction cs arbitrary: ni f)
  case Nil
  then show ?case by simp
next
  case (Cons c cs)
  let ?q = "requests (resources c)"
  have nn: "0 \<le> load ?q r" "0 \<le> load (all_requests cs) r" for r
    using Cons.prems(3) by (auto intro!: load_nonneg)
  have le: "f r + load ?q r \<le> i64_max" for r
    using Cons.prems(4)[rule_format, of r] nn(2)[of r] by simp
  have "tally (fold add_request ?q ni) (\<lambda>r. f r + load ?q r)"
    using Cons.prems(1,2,3) le by (intro tally_add_requests) auto
  then have "tally (add_container c ni) (\<lambda>r. f r + load ?q r)"
    by (simp add: add_container_def tally_def)
  then have "tally (fold add_container cs (add_container c ni)) (\<lambda>r. f r + load ?q r + load (all_requests cs) r)"
    using Cons.prems nn(1) by (intro Cons.IH) (auto simp: add.assoc intro!: add_nonneg_nonneg)
  then show ?case
    by (simp add: add.assoc)
qed

lemma tally_sub_containers:
  assumes "tally ni f" and "\<forall>kq \<in> set (all_requests cs). 0 \<le> snd kq"
    and "\<forall>r. load (all_requests cs) r \<le> f r \<and> f r \<le> i64_max"
  shows "tally (fold sub_container cs ni) (\<lambda>r. f r - load (all_requests cs) r)"
  using assms
proof (induction cs arbitrary: ni f)
  case Nil
  then show ?case by simp
next
  case (Cons c cs)
  let ?q = "requests (resources c)"
  have nn: "0 \<le> load ?q r" "0 \<le> load (all_requests cs) r" for r
    using Cons.prems(2) by (auto intro!: load_nonneg)
  have b: "load ?q r + load (all_requests cs) r \<le> f r" "f r \<le> i64_max" for r
    using Cons.prems(3)[rule_format, of r] by simp_all
  have "load ?q r \<le> f r \<and> f r \<le> i64_max" for r
    using b[of r] nn(2)[of r] by simp
  then have "tally (fold sub_request ?q ni) (\<lambda>r. f r - load ?q r)"
    using Cons.prems(1,2) by (intro tally_sub_requests) auto
  then have "tally (sub_container c ni) (\<lambda>r. f r - load ?q r)"
    by (simp add: sub_container_def tally_def)
  moreover have "load (all_requests cs) r \<le> f r - load ?q r \<and> f r - load ?q r \<le> i64_max" for r
    using b[of r] nn(1)[of r] by simp
  ultimately have "tally (fold sub_container cs (sub_container c ni)) (\<lambda>r. f r - load ?q r - load (all_requests cs) r)"
    using Cons.prems(2) by (intro Cons.IH) auto
  then show ?case
    by (simp add: algebra_simps)
qed


section \<open>The books of one node\<close>

lemma ni_add_pod_frame [simp]:
  "ni_pods (ni_add_pod p ni) = ni_pods ni @ [p]" "ni_node (ni_add_pod p ni) = ni_node ni"
  by (simp_all add: ni_add_pod_def Let_def)

lemma node_total_add [simp]: "node_total (ni_add_pod p ni) r = node_total ni r + pod_request p r"
  by (simp add: node_total_def)

lemma node_total_nonneg: "\<forall>p \<in> set (ni_pods ni). pod_ok p \<Longrightarrow> 0 \<le> node_total ni r"
  by (auto simp: node_total_def pod_request_nonneg intro!: sum_list_nonneg)

lemma accounted_requested: "accounted ni \<Longrightarrow> requested ni r = node_total ni r"
  unfolding accounted_def by (blast intro: tally_requested)

lemma accounted_ports: "accounted ni \<Longrightarrow> set (used_host_ports ni) = set (concat (map pod_ports (ni_pods ni)))"
  unfolding accounted_def by (metis set_mset_mset)

lemma accounted_new: "accounted (NodeInfo_new n)"
proof -
  have "map_of (ni_requested (NodeInfo_new n)) r = Some 0" for r
    by (cases r) (simp_all add: NodeInfo_new_def bt.get_insert)
  then show ?thesis
    by (simp add: accounted_def tally_def node_total_def i64_max_def) (simp add: NodeInfo_new_def)
qed

lemma accounted_set_node: "accounted ni \<Longrightarrow> accounted (set_node ni n)"
  by (simp add: accounted_def tally_def node_total_def set_node_def)

lemma accounted_add:
  assumes "accounted ni" and "pod_ok p" and "\<forall>r. node_total ni r + pod_request p r \<le> i64_max"
  shows "accounted (ni_add_pod p ni)"
proof -
  have t: "tally ni (node_total ni)" and ports: "mset (used_host_ports ni) = mset (concat (map pod_ports (ni_pods ni)))"
    and ok: "\<forall>q \<in> set (ni_pods ni). pod_ok q"
    using assms(1) unfolding accounted_def by blast+
  have "tally (fold add_container (containers (pod_spec p)) ni)
      (\<lambda>r. node_total ni r + load (all_requests (containers (pod_spec p))) r)"
    using assms(3) unfolding pod_request_def
    by (intro tally_add_containers[OF t] allI node_total_nonneg[OF ok] pod_ok_requests[OF assms(2)]) simp
  then have "tally (ni_add_pod p ni) (\<lambda>r. node_total ni r + pod_request p r)"
    by (simp add: tally_def ni_add_pod_def Let_def pod_request_def)
  moreover have "used_host_ports (ni_add_pod p ni) = used_host_ports ni @ pod_ports p"
    by (simp add: ni_add_pod_def Let_def fold_add_container_ports pod_ports_def)
  ultimately show ?thesis
    using assms(2,3) ports ok by (simp add: accounted_def tally_def)
qed

lemma take_first_Some:
  assumes "take_first P xs = Some (x, rest)"
  shows "P x \<and> (\<exists>us vs. xs = us @ x # vs \<and> rest = us @ vs \<and> (\<forall>u \<in> set us. \<not> P u))"
  using assms
proof (induction xs arbitrary: x rest)
  case Nil
  then show ?case by simp
next
  case (Cons y ys)
  show ?case
  proof (cases "P y")
    case True
    then show ?thesis
      using Cons.prems by (intro conjI exI[of _ "[]"] exI[of _ ys]) auto
  next
    case False
    then obtain zs where zs: "take_first P ys = Some (x, zs)" "rest = y # zs"
      using Cons.prems by auto
    then obtain us vs where "P x" "ys = us @ x # vs" "zs = us @ vs" "\<forall>u \<in> set us. \<not> P u"
      using Cons.IH by blast
    then show ?thesis
      using zs False by (intro conjI exI[of _ "y # us"] exI[of _ vs]) auto
  qed
qed

lemma take_first_None: "take_first P xs = None \<longleftrightarrow> (\<forall>x \<in> set xs. \<not> P x)"
  by (induction xs) auto

text \<open>\<open>ni_remove_pod\<close> takes out the first pod with the uid, if there is one.\<close>

lemma ni_remove_pod_cases:
  obtains (absent) "ni_remove_pod p ni = ni" "\<forall>q \<in> set (ni_pods ni). uid (pod_metadata q) \<noteq> uid (pod_metadata p)"
  | (found) q us vs where "uid (pod_metadata q) = uid (pod_metadata p)" "ni_pods ni = us @ q # vs"
      "\<forall>u \<in> set us. uid (pod_metadata u) \<noteq> uid (pod_metadata p)"
      "ni_remove_pod p ni = fold sub_container (containers (pod_spec q)) (ni\<lparr>ni_pods := us @ vs\<rparr>)"
proof (cases "take_first (\<lambda>x. uid (pod_metadata x) = uid (pod_metadata p)) (ni_pods ni)")
  case None
  then show ?thesis
    using absent take_first_None[of "\<lambda>x. uid (pod_metadata x) = uid (pod_metadata p)" "ni_pods ni"]
    unfolding ni_remove_pod_def by simp
next
  case (Some qr)
  obtain q rest where qr: "qr = (q, rest)" by (cases qr)
  obtain us vs where "uid (pod_metadata q) = uid (pod_metadata p)" "ni_pods ni = us @ q # vs" "rest = us @ vs"
      "\<forall>u \<in> set us. uid (pod_metadata u) \<noteq> uid (pod_metadata p)"
    using take_first_Some[OF Some[unfolded qr]] by blast
  then show ?thesis
    using found Some qr by (simp add: ni_remove_pod_def)
qed

lemma ni_remove_pod_node [simp]: "ni_node (ni_remove_pod p ni) = ni_node ni"
  by (rule ni_remove_pod_cases[of p ni]) auto

lemma accounted_remove:
  assumes "accounted ni"
  shows "accounted (ni_remove_pod p ni)"
proof (rule ni_remove_pod_cases[of p ni])
  assume "ni_remove_pod p ni = ni"
  then show ?thesis
    using assms by simp
next
  fix q us vs
  assume pods: "ni_pods ni = us @ q # vs"
    and eq: "ni_remove_pod p ni = fold sub_container (containers (pod_spec q)) (ni\<lparr>ni_pods := us @ vs\<rparr>)"
  let ?ni = "ni\<lparr>ni_pods := us @ vs\<rparr>" and ?cs = "containers (pod_spec q)"
  have t: "tally ?ni (node_total ni)" and ports: "mset (used_host_ports ni) = mset (concat (map pod_ports (ni_pods ni)))"
    and ok: "\<forall>q \<in> set (ni_pods ni). pod_ok q" and le: "\<forall>r. node_total ni r \<le> i64_max"
    using assms unfolding accounted_def tally_def by auto
  have total: "node_total ni r = node_total ?ni r + pod_request q r" for r
    by (simp add: node_total_def pods)
  have rest: "0 \<le> node_total ?ni r" "0 \<le> pod_request q r" for r
    using ok pods by (auto intro!: node_total_nonneg pod_request_nonneg)
  have "tally (fold sub_container ?cs ?ni) (\<lambda>r. node_total ni r - load (all_requests ?cs) r)"
    using ok pods le total rest(1)
    by (intro tally_sub_containers[OF t] pod_ok_requests) (auto simp: pod_request_def)
  then have "tally (ni_remove_pod p ni) (node_total (ni_remove_pod p ni))"
    unfolding eq by (rule tally_cong) (use total in \<open>simp add: node_total_def pod_request_def\<close>)
  moreover have "mset (used_host_ports (ni_remove_pod p ni)) = mset (concat (map pod_ports (us @ vs)))"
    unfolding eq using ports pods by (simp add: fold_sub_container_ports pod_ports_def)
  moreover have "node_total (ni_remove_pod p ni) r \<le> i64_max" for r
    using le total[of r] rest(2)[of r] by (simp add: eq node_total_def) (metis add_increasing2 order_trans le_add_same_cancel1)
  ultimately show ?thesis
    using ok pods by (simp add: accounted_def eq)
qed


section \<open>The cache\<close>

definition cache_ok :: "(NodeInfo \<Rightarrow> bool) \<Rightarrow> SchedulerCache \<Rightarrow> bool" where
  "cache_ok P c \<longleftrightarrow> bt_ok (nodes c) \<and> (\<forall>nm ni. map_of (nodes c) nm = Some ni \<longrightarrow> info_name ni = nm \<and> P ni)"

lemma cache_ok_put:
  assumes "cache_ok P c" and "info_name ni = nm" and "P ni"
  shows "cache_ok P (c\<lparr>nodes := bt_insert nm ni (nodes c)\<rparr>)"
  using assms unfolding cache_ok_def by (simp add: bt.get_insert bt.ok_insert)

lemma cache_ok_assumed [simp]: "cache_ok P (c\<lparr>assumed := a\<rparr>) \<longleftrightarrow> cache_ok P c"
  by (simp add: cache_ok_def)

lemma cache_okD: "cache_ok P c \<Longrightarrow> map_of (nodes c) nm = Some ni \<Longrightarrow> info_name ni = nm \<and> P ni"
  unfolding cache_ok_def by blast

lemma cache_ok_snapshot: "cache_ok P c \<Longrightarrow> n \<in> set (snapshot c) \<Longrightarrow> map_of (nodes c) (info_name n) = Some n"
  unfolding cache_ok_def snapshot_def by (fastforce dest: bt_ok_distinct)

lemma info_name_remove [simp]: "info_name (ni_remove_pod p ni) = info_name ni"
  and info_name_add [simp]: "info_name (ni_add_pod p ni) = info_name ni"
  by (simp_all add: info_name_def)

text \<open>
  A property of a node that removing a pod keeps holds of every node after every operation of the cache
  that only releases.
\<close>

locale released_property =
  fixes P :: "NodeInfo \<Rightarrow> bool"
  assumes release: "P ni \<Longrightarrow> P (ni_remove_pod p ni)"
begin

lemma remove_pod_keeps: "cache_ok P c \<Longrightarrow> cache_ok P (fst (remove_pod p c))"
  by (auto simp: remove_pod_def intro!: cache_ok_put release dest: cache_okD split: option.split)

lemma forget_pod_keeps: "cache_ok P c \<Longrightarrow> cache_ok P (forget_pod u c)"
proof (cases "hm_get (assumed c) u")
  case None
  then show "cache_ok P c \<Longrightarrow> ?thesis"
    by (simp add: forget_pod_def)
next
  case (Some q)
  assume ok: "cache_ok P c"
  show ?thesis
  proof (cases "map_of (nodes c) (node_name (pod_spec q))")
    case None
    then show ?thesis
      using Some ok by (simp add: forget_pod_def)
  next
    fix ni
    assume ni: "map_of (nodes c) (node_name (pod_spec q)) = Some ni"
    have "cache_ok P ((c\<lparr>assumed := hm_remove u (assumed c)\<rparr>)\<lparr>nodes :=
        bt_insert (node_name (pod_spec q)) (ni_remove_pod q ni) (nodes (c\<lparr>assumed := hm_remove u (assumed c)\<rparr>))\<rparr>)"
      using cache_okD[OF ok ni] ok by (intro cache_ok_put) (simp_all add: release)
    then show ?thesis
      using Some ni by (simp add: forget_pod_def)
  qed
qed

lemma remove_node_keeps: "cache_ok P c \<Longrightarrow> cache_ok P (remove_node nm c)"
  by (auto simp: cache_ok_def remove_node_def bt.get_remove bt.ok_remove)

lemma evict_keeps: "P ni \<Longrightarrow> P (evict vs ni)"
  unfolding evict_def by (induction vs arbitrary: ni) (simp_all add: release)

end

interpretation books: released_property accounted
  by unfold_locales (rule accounted_remove)

section \<open>Never more than a node has\<close>

definition compatible :: "Pod \<Rightarrow> Pod \<Rightarrow> bool" where
  "compatible p q \<longleftrightarrow> (\<forall>a \<in> set (pod_ports p). \<forall>b \<in> set (pod_ports q). \<not> conflicts a b) \<and>
     set (write_claims p) \<inter> set (write_claims q) = {}"

text \<open>
  Books in order, no two pods of the node in conflict, and never more requested than a mark \<open>H\<close> that
  is at least what the node can allocate; \<open>within\<close> is this with the allocatable amounts as the mark.
\<close>

definition below_mark :: "(ResourceName \<Rightarrow> int) \<Rightarrow> NodeInfo \<Rightarrow> bool" where
  "below_mark H ni \<longleftrightarrow> accounted ni \<and> sorted_wrt compatible (ni_pods ni) \<and>
     (\<forall>r. node_total ni r \<le> H r \<and> ni_allocatable ni r \<le> H r \<and> H r < i64_max)"

definition within :: "NodeInfo \<Rightarrow> bool" where
  "within ni \<longleftrightarrow> accounted ni \<and> (\<forall>r. node_total ni r \<le> ni_allocatable ni r \<and> ni_allocatable ni r < i64_max) \<and>
     sorted_wrt compatible (ni_pods ni)"

lemma within_mark: "within ni \<longleftrightarrow> below_mark (ni_allocatable ni) ni"
  by (auto simp: within_def below_mark_def)

lemma node_total_remove_le:
  assumes "accounted ni"
  shows "node_total (ni_remove_pod p ni) r \<le> node_total ni r"
proof (rule ni_remove_pod_cases[of p ni])
  fix q us vs
  assume "ni_pods ni = us @ q # vs"
    and "ni_remove_pod p ni = fold sub_container (containers (pod_spec q)) (ni\<lparr>ni_pods := us @ vs\<rparr>)"
  moreover have "0 \<le> pod_request q r"
    using assms calculation(1) by (intro pod_request_nonneg) (simp add: accounted_def)
  ultimately show ?thesis
    by (simp add: node_total_def)
qed simp

lemma mark_remove: "below_mark H ni \<Longrightarrow> below_mark H (ni_remove_pod p ni)"
proof -
  assume w: "below_mark H ni"
  then have acc: "accounted ni" and comp: "sorted_wrt compatible (ni_pods ni)"
    by (simp_all add: below_mark_def)
  have "sorted_wrt compatible (ni_pods (ni_remove_pod p ni))"
    using comp by (rule_tac ni_remove_pod_cases[of p ni]) (auto simp: sorted_wrt_append)
  moreover have "node_total (ni_remove_pod p ni) r \<le> H r" for r
    using w node_total_remove_le[OF acc, of p r] order_trans unfolding below_mark_def by blast
  ultimately show ?thesis
    using w accounted_remove[OF acc, of p] by (simp add: below_mark_def ni_allocatable_def)
qed

lemma allocatable_pods [simp]:
  "ni_allocatable (ni_remove_pod p ni) = ni_allocatable ni" "ni_allocatable (ni_add_pod p ni) = ni_allocatable ni"
  by (simp_all add: ni_allocatable_def fun_eq_iff)

lemma within_remove: "within ni \<Longrightarrow> within (ni_remove_pod p ni)"
  using mark_remove[of "ni_allocatable ni" ni p] by (simp add: within_mark)

type_synonym marks = "string \<Rightarrow> ResourceName \<Rightarrow> int"

definition marked :: "marks \<Rightarrow> NodeInfo \<Rightarrow> bool" where
  "marked pk ni \<longleftrightarrow> below_mark (pk (info_name ni)) ni"

interpretation capacity: released_property within
  by unfold_locales (rule within_remove)

interpretation high_water: released_property "marked pk" for pk
  by unfold_locales (simp add: marked_def mark_remove info_name_def)

lemma load_distinct:
  "distinct (map fst kqs) \<Longrightarrow> load kqs r = (case map_of kqs r of Some q \<Rightarrow> q | None \<Rightarrow> 0)"
proof (induction kqs)
  case Nil
  then show ?case by simp
next
  case (Cons kq kqs)
  have "map_of kqs (fst kq) = None"
    using Cons.prems by (simp add: map_of_eq_None_iff)
  then show ?case
    using Cons by (cases kq) auto
qed

lemma sum_requests_fold:
  assumes "\<forall>c \<in> set cs. bt_ok (requests (resources c)) \<and> (\<forall>kq \<in> set (requests (resources c)). 0 \<le> snd kq)"
    and "0 \<le> t"
  shows "fold (\<lambda>c total'. case map_of (requests (resources c)) r of
      Some q \<Rightarrow> i64_saturating_add total' q | None \<Rightarrow> total') cs (min i64_max t) = min i64_max (t + load (all_requests cs) r)"
  using assms
proof (induction cs arbitrary: t)
  case Nil
  then show ?case by simp
next
  case (Cons c cs)
  let ?q = "requests (resources c)"
  have q: "load ?q r = (case map_of ?q r of Some q \<Rightarrow> q | None \<Rightarrow> 0)" and nn: "0 \<le> load ?q r"
    using Cons.prems(1) by (auto intro!: load_distinct bt_ok_distinct load_nonneg)
  have "(case map_of ?q r of Some q \<Rightarrow> i64_saturating_add (min i64_max t) q | None \<Rightarrow> min i64_max t) =
      min i64_max (t + load ?q r)"
    using q nn Cons.prems(2)
    by (cases "map_of ?q r") (auto simp: i64_saturating_add_def i64_max_def i64_min_def)
  then show ?case
    using Cons.IH[of "t + load ?q r"] Cons.prems nn by (simp add: add.assoc)
qed

lemma sum_requests_eq: "pod_ok p \<Longrightarrow> sum_requests p r = min i64_max (pod_request p r)"
  using sum_requests_fold[of "containers (pod_spec p)" 0 r]
  by (simp add: sum_requests_def pod_ok_def pod_request_def i64_max_def)

lemma fits_room:
  assumes "fits p ni" and acc: "accounted ni" and "ni_allocatable ni r < i64_max" and "pod_ok p" and "0 < pod_request p r"
  shows "node_total ni r + pod_request p r \<le> ni_allocatable ni r"
proof -
  have sum: "sum_requests p r = min i64_max (pod_request p r)"
    by (rule sum_requests_eq[OF assms(4)])
  have "sum_requests p r \<noteq> 0"
    using assms(5) by (simp add: sum i64_max_def min_def)
  then have "sum_requests p r \<le> i64_saturating_sub (ni_allocatable ni r) (requested ni r)"
    using assms(1) unfolding fits_def by blast
  then show ?thesis
    using assms(3,5) node_total_nonneg[of ni r] acc
    by (simp add: sum accounted_requested[OF acc] accounted_def i64_saturating_sub_def
        clamp_i64_def i64_max_def i64_min_def min_def split: if_splits)
qed

lemma fits_compatible:
  assumes "fits p ni" and "accounted ni" and "q \<in> set (ni_pods ni)"
  shows "compatible q p"
proof -
  have "\<not> conflicts a b" if a: "a \<in> set (pod_ports q)" and b: "b \<in> set (pod_ports p)" for a b
  proof -
    have "a \<in> set (used_host_ports ni)"
      using a assms(3) by (auto simp: accounted_ports[OF assms(2)])
    moreover obtain c pt where "c \<in> set (containers (pod_spec p))" "pt \<in> set (ports c)" "host_port pt \<noteq> 0"
        "b = port_use pt"
      using b by (auto simp: pod_ports_def all_ports_def)
    ultimately show ?thesis
      using assms(1) unfolding fits_def by blast
  qed
  moreover have "set (write_claims p) \<inter> set (write_claims q) = {}"
    using assms(1,3) unfolding fits_def by blast
  ultimately show ?thesis
    by (auto simp: compatible_def)
qed

lemma placed_on_simps [simp]:
  "pod_request (placed_on p nm) = pod_request p" "pod_ports (placed_on p nm) = pod_ports p"
  "pod_ok (placed_on p nm) = pod_ok p" "write_claims (placed_on p nm) = write_claims p"
  "pod_metadata (placed_on p nm) = pod_metadata p" "node_name (pod_spec (placed_on p nm)) = nm"
  by (simp_all add: pod_request_def pod_ports_def pod_ok_def write_claims_def placed_on_def fun_eq_iff)

lemma mark_place:
  assumes "fits p ni" and w: "below_mark H ni" and "pod_ok p"
  shows "below_mark H (ni_add_pod (placed_on p nm) ni)"
proof -
  have acc: "accounted ni" and comp: "sorted_wrt compatible (ni_pods ni)"
    and H: "node_total ni r \<le> H r" "ni_allocatable ni r \<le> H r" "H r < i64_max" for r
    using w unfolding below_mark_def by blast+
  have room: "node_total ni r + pod_request p r \<le> H r" for r
  proof (cases "0 < pod_request p r")
    case True
    have "ni_allocatable ni r < i64_max"
      using H(2,3)[of r] by simp
    then show ?thesis
      using fits_room[OF assms(1) acc _ assms(3) True] H(2)[of r] by simp
  next
    case False
    then show ?thesis
      using H(1)[of r] by simp
  qed
  have "node_total ni r + pod_request (placed_on p nm) r \<le> i64_max" for r
    using room[of r] H(3)[of r] by simp
  then have "accounted (ni_add_pod (placed_on p nm) ni)"
    using acc assms(3) by (intro accounted_add) auto
  moreover have "sorted_wrt compatible (ni_pods ni @ [placed_on p nm])"
    using comp fits_compatible[OF assms(1) acc] by (simp add: sorted_wrt_append compatible_def)
  ultimately show ?thesis
    using room H by (simp add: below_mark_def ni_allocatable_def)
qed

lemma within_place: "\<lbrakk>fits p ni; within ni; pod_ok p\<rbrakk> \<Longrightarrow> within (ni_add_pod (placed_on p nm) ni)"
  using mark_place[of p ni "ni_allocatable ni" nm] by (simp add: within_mark)

lemma best_of_fits: "best_of pod (candidates pod c limit) i \<Longrightarrow>
    candidates pod c limit ! i \<in> set (snapshot c) \<and> fits pod (candidates pod c limit ! i)"
proof -
  assume "best_of pod (candidates pod c limit) i"
  then have "candidates pod c limit ! i \<in> set (candidates pod c limit)"
    by (simp add: best_of_def)
  then show ?thesis
    by (auto simp: candidates_def dest: in_set_takeD)
qed

lemma suggested_node:
  assumes "suggested_host (schedule_one_limited pod c default_registry limit) = Some h" and "cache_ok P c"
  obtains ni where "map_of (nodes c) h = Some ni" "fits pod ni" "P ni"
proof -
  have "candidates pod c limit \<noteq> []"
    using assms(1) by (auto simp: schedule_default_fields)
  then obtain i where "best_of pod (candidates pod c limit) i" "h = info_name (candidates pod c limit ! i)"
    using max_by_score_best[of "candidates pod c limit" pod] assms(1) by (auto simp: schedule_default_fields)
  then show ?thesis
    using that cache_ok_snapshot[OF assms(2)] cache_okD[OF assms(2)] best_of_fits by metis
qed

text \<open>
  One step of a scheduler whose placements all come from the scheduling cycle, with any node events. Beside the
  cache runs a mark for every node: the most that it has announced as allocatable since it joined.
\<close>

definition raise_mark :: "Node \<Rightarrow> SchedulerCache \<Rightarrow> marks \<Rightarrow> marks" where
  "raise_mark n c pk = pk(node_key n := \<lambda>r. max (Node_allocatable n r)
     (if map_of (nodes c) (node_key n) = None then 0 else pk (node_key n) r))"

inductive placing_step :: "SchedulerCache \<times> marks \<Rightarrow> SchedulerCache \<times> marks \<Rightarrow> bool" where
  place: "\<lbrakk>pod_ok p; suggested_host (schedule_one_limited p c default_registry limit) = Some h\<rbrakk>
    \<Longrightarrow> placing_step (c, pk) (fst (assume_pod p h c), pk)"
| forget: "placing_step (c, pk) (forget_pod u c, pk)"
| deleted: "placing_step (c, pk) (fst (remove_pod p c), pk)"
| node_gone: "placing_step (c, pk) (remove_node nm c, pk)"
| node_seen: "\<forall>r. Node_allocatable n r < i64_max \<Longrightarrow> placing_step (c, pk) (add_node n c, raise_mark n c pk)"

lemma assume_pod_keeps:
  assumes "cache_ok P c" and "\<And>ni. map_of (nodes c) nm = Some ni \<Longrightarrow> P (ni_add_pod (placed_on p nm) ni)"
  shows "cache_ok P (fst (assume_pod p nm c))"
proof (cases "map_of (nodes c) nm")
  case None
  then show ?thesis
    using assms(1) by (simp add: assume_pod_def Let_def)
next
  case (Some ni)
  have "cache_ok P (c\<lparr>nodes := bt_insert nm (ni_add_pod (placed_on p nm) ni) (nodes c)\<rparr>)"
    using cache_okD[OF assms(1) Some] assms(2)[OF Some] by (intro cache_ok_put[OF assms(1)]) auto
  then show ?thesis
    using Some assms(1) by (simp add: assume_pod_def Let_def cache_ok_def)
qed

lemma add_node_keeps:
  assumes "cache_ok P c" and "map_of (nodes c) (node_key n) = None \<Longrightarrow> P (set_node (NodeInfo_new n) n)"
    and "\<And>ni. map_of (nodes c) (node_key n) = Some ni \<Longrightarrow> P (set_node ni n)"
  shows "cache_ok P (add_node n c)"
  unfolding add_node_def Let_def
proof (rule cache_ok_put[OF assms(1)])
  show "info_name (set_node (case map_of (nodes c) (node_key n) of Some i \<Rightarrow> i | None \<Rightarrow> NodeInfo_new n) n) = node_key n"
    by (simp add: set_node_def info_name_def node_key_def)
  show "P (set_node (case map_of (nodes c) (node_key n) of Some i \<Rightarrow> i | None \<Rightarrow> NodeInfo_new n) n)"
    using assms(2,3) by (simp split: option.split)
qed

lemma mark_new: "\<forall>r. Node_allocatable n r < i64_max \<Longrightarrow> below_mark (\<lambda>r. max (Node_allocatable n r) 0) (set_node (NodeInfo_new n) n)"
  using accounted_set_node[OF accounted_new, of n n]
  by (simp add: below_mark_def ni_allocatable_def node_total_def) (simp add: set_node_def NodeInfo_new_def i64_max_def)

lemma mark_set_node:
  assumes "below_mark H ni" and "\<forall>r. Node_allocatable n r < i64_max"
  shows "below_mark (\<lambda>r. max (Node_allocatable n r) (H r)) (set_node ni n)"
  using assms accounted_set_node[of ni n]
  by (simp add: below_mark_def ni_allocatable_def node_total_def) (simp add: set_node_def le_max_iff_disj)

lemma marked_node_seen:
  assumes ok: "cache_ok (marked pk) c" and n: "\<forall>r. Node_allocatable n r < i64_max"
  shows "cache_ok (marked (raise_mark n c pk)) (add_node n c)"
proof -
  let ?k = "node_key n"
  let ?ni = "set_node (case map_of (nodes c) ?k of Some i \<Rightarrow> i | None \<Rightarrow> NodeInfo_new n) n"
  have name: "info_name ?ni = ?k"
    by (simp add: set_node_def info_name_def node_key_def)
  have "marked (raise_mark n c pk) ?ni"
  proof (cases "map_of (nodes c) ?k")
    case None
    then show ?thesis
      using mark_new[OF n] name by (simp add: marked_def raise_mark_def)
  next
    case (Some i)
    then have "below_mark (pk ?k) i"
      using cache_okD[OF ok Some] by (auto simp: marked_def)
    from mark_set_node[OF this n] Some name show ?thesis
      by (simp add: marked_def raise_mark_def)
  qed
  moreover have "marked (raise_mark n c pk) ni" if "map_of (nodes c) nm = Some ni" "nm \<noteq> ?k" for nm ni
    using cache_okD[OF ok that(1)] that(2) by (auto simp: marked_def raise_mark_def)
  ultimately show ?thesis
    using ok name unfolding cache_ok_def add_node_def Let_def by (simp add: bt.get_insert bt.ok_insert)
qed

lemma place_keeps:
  assumes "pod_ok p" and "suggested_host (schedule_one_limited p c default_registry limit) = Some h" and ok: "cache_ok P c"
    and keep: "\<And>ni. \<lbrakk>fits p ni; P ni\<rbrakk> \<Longrightarrow> P (ni_add_pod (placed_on p h) ni)"
  shows "cache_ok P (fst (assume_pod p h c))"
proof -
  obtain ni where ni: "map_of (nodes c) h = Some ni" "fits p ni" "P ni"
    using suggested_node[OF assms(2) ok] by blast
  then show ?thesis
    using keep[OF ni(2,3)] by (intro assume_pod_keeps[OF ok]) simp
qed

lemmas place_within = place_keeps[where P = within, OF _ _ _ within_place]

lemma marked_place: "\<lbrakk>fits p ni; marked pk ni; pod_ok p\<rbrakk> \<Longrightarrow> marked pk (ni_add_pod (placed_on p nm) ni)"
  by (simp add: marked_def mark_place info_name_def)

lemma placing_step_marked:
  assumes "placing_step (c, pk) (c', pk')" and "cache_ok (marked pk) c"
  shows "cache_ok (marked pk') c'"
  using assms
proof cases
  case (place p limit h)
  then show ?thesis
    using place_keeps[OF place(3,4) assms(2) marked_place] by simp
qed (use assms(2) in \<open>simp_all add: high_water.forget_pod_keeps high_water.remove_pod_keeps high_water.remove_node_keeps marked_node_seen\<close>)

lemma cache_ok_new: "cache_ok P SchedulerCache_new"
  by (simp add: cache_ok_def SchedulerCache_new_def bt.ok_empty)

abbreviation placed_run :: "SchedulerCache \<Rightarrow> marks \<Rightarrow> bool" where
  "placed_run c pk \<equiv> placing_step\<^sup>*\<^sup>* (SchedulerCache_new, \<lambda>_ _. 0) (c, pk)"

lemma placing_run_marked: "placing_step\<^sup>*\<^sup>* x y \<Longrightarrow> cache_ok (marked (snd x)) (fst x) \<Longrightarrow> cache_ok (marked (snd y)) (fst y)"
proof (induction rule: rtranclp_induct)
  case (step y z)
  then show ?case
    by (cases y; cases z) (auto dest: placing_step_marked)
qed

text \<open>
  C34. Placements do not overcommit a node. Over any sequence of placements suggested by the scheduling
  cycle (of pods whose requests are not negative), releases of failed placements, pod deletions and node events
  (any node, appearing, changing or leaving, with allocatable amounts below \<open>2^63 - 1\<close>), the total that the cache
  holds for a node is the sum of the requests of its pods and at most the most that the node has announced as
  allocatable since it joined; no two of its pods use the same host port or mount the same claim for
  writing; and wherever the cycle would place the next pod, the total with it is within what the node
  can allocate at that moment, of every resource the pod asks for. A node can be overcommitted only by an
  update that lowers what it announces. Pods that another component binds are not part of these runs.
\<close>
theorem never_overcommitted:
  assumes "placed_run c pk" and "node_info c nm = Some ni"
  shows "requested ni r = node_total ni r \<and> requested ni r \<le> pk nm r \<and> sorted_wrt compatible (ni_pods ni) \<and>
    (suggested_host (schedule_one_limited p c default_registry limit) = Some nm \<and> pod_ok p \<and> 0 < pod_request p r \<longrightarrow>
      requested ni r + pod_request p r \<le> ni_allocatable ni r)"
proof -
  have ok: "cache_ok (marked pk) c"
    using placing_run_marked[OF assms(1)] by (simp add: cache_ok_new)
  have get: "map_of (nodes c) nm = Some ni"
    using assms(2) by (simp add: node_info_def)
  then have w: "below_mark (pk nm) ni"
    using cache_okD[OF ok] by (auto simp: marked_def)
  have "fits p ni" if "suggested_host (schedule_one_limited p c default_registry limit) = Some nm"
    using suggested_node[OF that ok] get by (metis option.inject)
  moreover have "ni_allocatable ni r < i64_max"
    using w unfolding below_mark_def by (meson le_less_trans)
  ultimately show ?thesis
    using w fits_room[of p ni r] by (simp add: below_mark_def accounted_requested)
qed

text \<open>A concrete node and pod.\<close>

definition demo_meta :: "string \<Rightarrow> ObjectMeta" where
  "demo_meta nm = \<lparr>om_name = nm, om_namespace = ''home'', uid = nm, labels = [], annotations = []\<rparr>"

definition demo_node :: Node where
  "demo_node = \<lparr>node_metadata = demo_meta ''n1'', unschedulable = False, taints = [],
     node_capacity = [], node_allocatable = [(Cpu, 1000), (Memory, 4096)], images = []\<rparr>"

definition demo_pod :: Pod where
  "demo_pod = \<lparr>pod_metadata = demo_meta ''p1'', pod_spec = \<lparr>containers = [\<lparr>ct_name = ''c'', image = ''i'',
      resources = \<lparr>requests = [(Cpu, 300), (Memory, 1024)], limits = []\<rparr>,
      ports = [\<lparr>host_port = 8080, container_port = 80, protocol = Tcp, host_ip = []\<rparr>]\<rparr>],
     node_name = [], node_selector = [], affinity = None, tolerations = [], volumes = [], priority = 0,
     scheduler_name = ''default-scheduler''\<rparr>\<rparr>"

definition demo_cache :: SchedulerCache where
  "demo_cache = add_node demo_node SchedulerCache_new"

lemma demo_suggested: "suggested_host (schedule_one_limited demo_pod demo_cache default_registry 10) = Some ''n1''"
  by code_simp

lemma demo_pod_ok: "pod_ok demo_pod"
  by (simp add: pod_ok_def demo_pod_def bt_ok_def less_ResourceName_def)

lemma demo_alloc: "Node_allocatable demo_node r = (case r of Cpu \<Rightarrow> 1000 | Memory \<Rightarrow> 4096)"
  by (cases r) (simp_all add: Node_allocatable_def demo_node_def)

lemma demo_within: "cache_ok within demo_cache"
  unfolding demo_cache_def
proof (rule add_node_keeps[OF cache_ok_new])
  show "within (set_node (NodeInfo_new demo_node) demo_node)"
    using accounted_set_node[OF accounted_new, of demo_node demo_node]
    by (simp add: within_def ni_allocatable_def node_total_def)
      (simp add: set_node_def NodeInfo_new_def demo_alloc i64_max_def split: ResourceName.split)
qed (simp add: SchedulerCache_new_def)

text \<open>A smaller node of the same name, as an update would announce it.\<close>

definition shrunk_node :: Node where
  "shrunk_node = demo_node\<lparr>node_allocatable := [(Cpu, 200), (Memory, 4096)]\<rparr>"

lemma demo_placing_run:
  "placed_run (add_node shrunk_node (fst (assume_pod demo_pod ''n1'' demo_cache)))
     (raise_mark shrunk_node (fst (assume_pod demo_pod ''n1'' demo_cache)) (raise_mark demo_node SchedulerCache_new (\<lambda>_ _. 0)))"
proof -
  let ?pk = "raise_mark demo_node SchedulerCache_new (\<lambda>_ _. 0)"
  have "Node_allocatable shrunk_node r = (case r of Cpu \<Rightarrow> 200 | Memory \<Rightarrow> 4096)" for r
    by (cases r) (simp_all add: Node_allocatable_def shrunk_node_def demo_node_def)
  then have "\<forall>r. Node_allocatable shrunk_node r < i64_max" "\<forall>r. Node_allocatable demo_node r < i64_max"
    by (simp_all add: demo_alloc i64_max_def split: ResourceName.split)
  then have "placing_step (SchedulerCache_new, \<lambda>_ _. 0) (demo_cache, ?pk)"
    "placing_step (fst (assume_pod demo_pod ''n1'' demo_cache), ?pk)
      (add_node shrunk_node (fst (assume_pod demo_pod ''n1'' demo_cache)), raise_mark shrunk_node (fst (assume_pod demo_pod ''n1'' demo_cache)) ?pk)"
    unfolding demo_cache_def by (intro node_seen; simp)+
  moreover have "placing_step (demo_cache, ?pk) (fst (assume_pod demo_pod ''n1'' demo_cache), ?pk)"
    by (rule place[OF demo_pod_ok demo_suggested])
  ultimately show ?thesis
    by (meson converse_rtranclp_into_rtranclp rtranclp.rtrancl_refl)
qed

theorem never_overcommitted_witness:
  "\<exists>ni. node_info (add_node shrunk_node (fst (assume_pod demo_pod ''n1'' demo_cache))) ''n1'' = Some ni \<and>
     requested ni Cpu = node_total ni Cpu \<and> requested ni Cpu \<le> 1000 \<and> ni_allocatable ni Cpu < requested ni Cpu \<and>
     sorted_wrt compatible (ni_pods ni)"
proof -
  let ?c = "add_node shrunk_node (fst (assume_pod demo_pod ''n1'' demo_cache))"
  have run: "(case node_info ?c ''n1'' of Some ni \<Rightarrow> ni_allocatable ni Cpu < requested ni Cpu | None \<Rightarrow> False)"
    "raise_mark shrunk_node (fst (assume_pod demo_pod ''n1'' demo_cache)) (raise_mark demo_node SchedulerCache_new (\<lambda>_ _. 0)) ''n1'' Cpu = 1000"
    by code_simp+
  then obtain ni where "node_info ?c ''n1'' = Some ni" "ni_allocatable ni Cpu < requested ni Cpu"
    by (auto split: option.splits)
  then show ?thesis
    using never_overcommitted[OF demo_placing_run, of "''n1''" ni Cpu demo_pod 10] run(2) by auto
qed

section \<open>The books over any sequence of cache operations\<close>

definition headroom :: "Pod \<Rightarrow> string \<Rightarrow> SchedulerCache \<Rightarrow> bool" where
  "headroom p nm c \<longleftrightarrow> (\<forall>ni. map_of (nodes c) nm = Some ni \<longrightarrow> (\<forall>r. node_total ni r + pod_request p r \<le> i64_max))"

text \<open>Any operation of the cache, as long as the totals of a node stay within an \<open>i64\<close>.\<close>

inductive cache_step :: "SchedulerCache \<Rightarrow> SchedulerCache \<Rightarrow> bool" where
  add_pod: "\<lbrakk>pod_ok p; headroom p (node_name (pod_spec p)) c\<rbrakk> \<Longrightarrow> cache_step c (fst (add_pod p c))"
| remove_pod: "cache_step c (fst (remove_pod p c))"
| assume_pod: "\<lbrakk>pod_ok p; headroom p nm c\<rbrakk> \<Longrightarrow> cache_step c (fst (assume_pod p nm c))"
| forget_pod: "cache_step c (forget_pod u c)"
| add_node: "cache_step c (add_node n c)"
| update_node: "cache_step c (update_node n c)"
| remove_node: "cache_step c (remove_node nm c)"

lemma add_pod_keeps:
  assumes "cache_ok P c" and "\<And>ni. map_of (nodes c) (node_name (pod_spec p)) = Some ni \<Longrightarrow> P (ni_add_pod p ni)"
  shows "cache_ok P (fst (add_pod p c))"
  using assms cache_okD[OF assms(1)]
  by (auto simp: add_pod_def intro!: cache_ok_put split: option.split)

lemma accounted_add_node: "cache_ok accounted c \<Longrightarrow> cache_ok accounted (add_node n c)"
  by (rule add_node_keeps) (auto intro: accounted_set_node accounted_new dest: cache_okD)

lemma cache_step_accounted: "cache_step c c' \<Longrightarrow> cache_ok accounted c \<Longrightarrow> cache_ok accounted c'"
proof (induction rule: cache_step.induct)
  case (add_pod p c)
  then show ?case
    using cache_okD[OF add_pod(3)] by (intro add_pod_keeps) (auto simp: headroom_def intro!: accounted_add)
next
  case (assume_pod p nm c)
  then show ?case
    using cache_okD[OF assume_pod(3)] by (intro assume_pod_keeps) (auto simp: headroom_def intro!: accounted_add)
qed (simp_all add: books.remove_pod_keeps books.forget_pod_keeps books.remove_node_keeps accounted_add_node update_node_def)

lemma cache_run_accounted: "cache_step\<^sup>*\<^sup>* SchedulerCache_new c \<Longrightarrow> cache_ok accounted c"
  by (induction rule: rtranclp_induct) (auto simp: cache_ok_new intro: cache_step_accounted)

text \<open>
  C37. The incremental totals are exact. Whatever sequence of pod and node operations the cache has gone
  through, the requested total of a node equals the sum of the requests of the pods it holds, and its
  used host ports are, with multiplicity, the host ports of those pods: additions and removals never
  leave a remainder. Pods have requests that are not negative, and the operations that add a pod are
  taken while the sum fits an \<open>i64\<close>.
\<close>
theorem cache_books_exact:
  assumes "cache_step\<^sup>*\<^sup>* SchedulerCache_new c" and "node_info c nm = Some ni"
  shows "requested ni r = sum_list (map (\<lambda>p. pod_request p r) (ni_pods ni)) \<and>
    mset (used_host_ports ni) = mset (concat (map pod_ports (ni_pods ni))) \<and> info_name ni = nm"
proof -
  have ok: "info_name ni = nm \<and> accounted ni"
    using cache_okD[OF cache_run_accounted[OF assms(1)]] assms(2) by (simp add: node_info_def)
  then have "requested ni r = node_total ni r"
    by (blast intro: accounted_requested)
  then show ?thesis
    using ok by (simp add: accounted_def node_total_def)
qed

lemma demo_headroom: "headroom demo_pod ''n1'' demo_cache"
  by (auto simp: headroom_def demo_cache_def add_node_def SchedulerCache_new_def bt.get_insert set_node_def node_total_def
      NodeInfo_new_def pod_request_def demo_pod_def i64_max_def Let_def)

theorem cache_books_exact_witness:
  "\<exists>ni. node_info (fst (assume_pod demo_pod ''n1'' demo_cache)) ''n1'' = Some ni \<and>
     requested ni Memory = sum_list (map (\<lambda>p. pod_request p Memory) (ni_pods ni)) \<and> ni_pods ni \<noteq> []"
proof -
  let ?c = "fst (assume_pod demo_pod ''n1'' demo_cache)"
  obtain ni where ni: "node_info ?c ''n1'' = Some ni" "ni_pods ni \<noteq> []"
  proof -
    have "case node_info ?c ''n1'' of Some ni \<Rightarrow> ni_pods ni \<noteq> [] | None \<Rightarrow> False"
      by code_simp
    then show ?thesis
      using that by (auto split: option.splits)
  qed
  have "cache_step demo_cache ?c"
    by (rule cache_step.assume_pod[OF demo_pod_ok demo_headroom])
  moreover have "cache_step SchedulerCache_new demo_cache"
    unfolding demo_cache_def by (rule cache_step.add_node)
  ultimately have "cache_step\<^sup>*\<^sup>* SchedulerCache_new ?c"
    by (meson converse_rtranclp_into_rtranclp rtranclp.rtrancl_refl)
  then show ?thesis
    using cache_books_exact[of ?c "''n1''" ni Memory] ni by blast
qed

section \<open>A bind event while the pod is assumed\<close>

lemma ni_remove_pod_pods:
  assumes "\<forall>q \<in> set us. uid (pod_metadata q) \<noteq> uid (pod_metadata p)" and "ni_pods ni = us @ q # vs"
    and "uid (pod_metadata q) = uid (pod_metadata p)"
  shows "ni_pods (ni_remove_pod p ni) = us @ vs"
proof -
  have "take_first (\<lambda>x. uid (pod_metadata x) = uid (pod_metadata p)) (us @ q # vs) = Some (q, us @ vs)"
    using assms(1) by (induction us) (auto simp: assms(3))
  then show ?thesis
    by (simp add: ni_remove_pod_def assms(2))
qed

text \<open>
  C38. A pod that the scheduler has assumed on a node is counted a second time by \<open>add_pod\<close> when its
  bind event arrives: \<open>add_pod\<close> neither looks for the pod nor clears the assumption. After the pod's
  deletion the node still holds a copy of it and its requests, so that capacity stays lost.
\<close>
theorem bind_event_counts_twice:
  assumes "map_of (nodes c) nm = Some ni" and "accounted ni" and "pod_ok p" and "nm \<noteq> []"
    and "\<not> is_assumed c (uid (pod_metadata p))"
    and "\<forall>q \<in> set (ni_pods ni). uid (pod_metadata q) \<noteq> uid (pod_metadata p)"
    and "\<forall>r. node_total ni r + 2 * pod_request p r \<le> i64_max"
  shows "\<exists>c1 c2 c3 n2 n3. assume_pod p nm c = (c1, Inr ()) \<and>
    add_pod (placed_on p nm) c1 = (c2, Inr ()) \<and> node_info c2 nm = Some n2 \<and>
    requested n2 r = requested ni r + 2 * pod_request p r \<and>
    remove_pod (placed_on p nm) c2 = (c3, Inr ()) \<and> node_info c3 nm = Some n3 \<and>
    ni_pods n3 = ni_pods ni @ [placed_on p nm] \<and> requested n3 r = requested ni r + pod_request p r \<and>
    is_assumed c3 (uid (pod_metadata p))"
proof -
  let ?p = "placed_on p nm"
  let ?n1 = "ni_add_pod ?p ni" let ?n2 = "ni_add_pod ?p ?n1" let ?n3 = "ni_remove_pod ?p ?n2"
  let ?c1 = "c\<lparr>nodes := bt_insert nm ?n1 (nodes c), assumed := hm_insert (uid (pod_metadata p)) ?p (assumed c)\<rparr>"
  let ?c2 = "?c1\<lparr>nodes := bt_insert nm ?n2 (nodes ?c1)\<rparr>" let ?c3 = "?c2\<lparr>nodes := bt_insert nm ?n3 (nodes ?c2)\<rparr>"
  have nn: "0 \<le> pod_request p r" for r
    by (rule pod_request_nonneg[OF assms(3)])
  have room: "node_total ni r + pod_request ?p r \<le> i64_max" "node_total ?n1 r + pod_request ?p r \<le> i64_max" for r
    using assms(7)[rule_format, of r] nn[of r] by auto
  have a1: "accounted ?n1"
    using room(1) assms(2,3) by (intro accounted_add) auto
  then have a2: "accounted ?n2"
    using accounted_add[of ?n1 ?p] room(2) assms(3) by simp
  then have a3: "accounted ?n3"
    by (rule accounted_remove)
  have pods: "ni_pods ?n3 = ni_pods ni @ [?p]"
    using assms(6) ni_remove_pod_pods[of "ni_pods ni" ?p ?n2 ?p "[?p]"] by simp
  have "assume_pod p nm c = (?c1, Inr ())"
    using assms(1,5) by (simp add: assume_pod_def is_assumed_def Let_def)
  moreover have "add_pod ?p ?c1 = (?c2, Inr ())" "remove_pod ?p ?c2 = (?c3, Inr ())"
    using assms(4) by (simp_all add: add_pod_def remove_pod_def bt.get_insert)
  moreover have "node_info ?c2 nm = Some ?n2" "node_info ?c3 nm = Some ?n3" "is_assumed ?c3 (uid (pod_metadata p))"
    by (simp_all add: node_info_def is_assumed_def bt.get_insert)
  moreover have "requested ?n2 r = requested ni r + 2 * pod_request p r" "requested ?n3 r = requested ni r + pod_request p r"
    using pods by (simp_all add: accounted_requested[OF a2] accounted_requested[OF a3] accounted_requested[OF assms(2)])
      (simp add: node_total_def)
  ultimately show ?thesis
    using pods by blast
qed

theorem bind_event_counts_twice_witness:
  "\<exists>c1 c2 c3 n2 n3. assume_pod demo_pod ''n1'' demo_cache = (c1, Inr ()) \<and>
    add_pod (placed_on demo_pod ''n1'') c1 = (c2, Inr ()) \<and> node_info c2 ''n1'' = Some n2 \<and>
    requested n2 Cpu = requested (NodeInfo_new demo_node) Cpu + 2 * pod_request demo_pod Cpu \<and>
    remove_pod (placed_on demo_pod ''n1'') c2 = (c3, Inr ()) \<and> node_info c3 ''n1'' = Some n3 \<and>
    ni_pods n3 = ni_pods (NodeInfo_new demo_node) @ [placed_on demo_pod ''n1''] \<and>
    requested n3 Cpu = requested (NodeInfo_new demo_node) Cpu + pod_request demo_pod Cpu \<and>
    is_assumed c3 (uid (pod_metadata demo_pod))"
proof (rule bind_event_counts_twice)
  show "map_of (nodes demo_cache) ''n1'' = Some (NodeInfo_new demo_node)"
    by (simp add: demo_cache_def add_node_def SchedulerCache_new_def bt.get_insert set_node_def NodeInfo_new_def
        node_key_def demo_node_def demo_meta_def Let_def)
  show "\<forall>r. node_total (NodeInfo_new demo_node) r + 2 * pod_request demo_pod r \<le> i64_max"
    by (simp add: node_total_def NodeInfo_new_def pod_request_def demo_pod_def i64_max_def)
  show "accounted (NodeInfo_new demo_node)"
    by (rule accounted_new)
qed (simp_all add: demo_pod_ok is_assumed_def demo_cache_def add_node_def SchedulerCache_new_def NodeInfo_new_def Let_def)

end
