(* ===== verification/Sched_Queue.thy ===== *)
theory Sched_Queue
  imports Sched_Plugins
begin

text \<open>
  The scheduling queue (\<open>queue/priority_queue.rs\<close>) and the cluster events that wake it
  (\<open>framework/events.rs\<close>). The heap of the active pods is the list of its entries, from which \<open>pop\<close>
  takes the greatest. Times are milliseconds below \<open>2 ^ 64\<close>; the attempt counter wraps at \<open>2 ^ 32\<close>; the
  two 64-bit counters are natural numbers. The wake-up signal carries no data: a blocked \<open>pop_wait\<close>
  is a \<open>pop\<close> taken later.

  The locale \<open>queue_sort\<close> is what a \<open>QueueSort\<close> plugin promises, a strict weak order; its lemma says
  which entry is popped.
\<close>

section \<open>Cluster events\<close>

unbundle bit_operations_syntax

type_synonym ActionType = u64

definition ACTION_ADD :: ActionType where "ACTION_ADD = 1"
definition ACTION_DELETE :: ActionType where "ACTION_DELETE = 2"
definition UPDATE_NODE_ALLOCATABLE :: ActionType where "UPDATE_NODE_ALLOCATABLE = 4"
definition UPDATE_NODE_LABEL :: ActionType where "UPDATE_NODE_LABEL = 8"
definition UPDATE_NODE_TAINT :: ActionType where "UPDATE_NODE_TAINT = 16"
definition ACTION_ALL :: ActionType where "ACTION_ALL = - 1"

definition contains_action :: "ActionType \<Rightarrow> ActionType \<Rightarrow> bool" where
  "contains_action a b \<longleftrightarrow> a AND b = b"

definition intersects :: "ActionType \<Rightarrow> ActionType \<Rightarrow> bool" where
  "intersects a b \<longleftrightarrow> a AND b \<noteq> 0"

datatype Gvk = Gvk_Pod | Gvk_Node | WildCard

record ClusterEvent =
  resource :: Gvk
  action_type :: ActionType

definition event_matches :: "ClusterEvent \<Rightarrow> ClusterEvent \<Rightarrow> bool" where
  "event_matches registered occurred =
    (let resource_ok = (resource registered = WildCard \<or> resource occurred = WildCard \<or> resource registered = resource occurred)
     in resource_ok \<and> intersects (action_type registered) (action_type occurred))"

definition WILD_CARD_EVENT :: ClusterEvent where
  "WILD_CARD_EVENT = \<lparr>resource = WildCard, action_type = ACTION_ALL\<rparr>"

section \<open>Queued pods\<close>

record QueuedPodInfo =
  qp_pod :: Pod
  attempts :: nat
  initial_attempt_ms :: nat
  last_attempt_ms :: nat
  unschedulable_since_ms :: nat
  registered_events :: "ClusterEvent list"

definition QueuedPodInfo_new :: "Pod \<Rightarrow> QueuedPodInfo" where
  "QueuedPodInfo_new p = \<lparr>qp_pod = p, attempts = 0, initial_attempt_ms = 0, last_attempt_ms = 0,
     unschedulable_since_ms = 0, registered_events = [WILD_CARD_EVENT]\<rparr>"

definition u64_top :: nat where "u64_top = 2 ^ 64 - 1"

definition ready_at_ms :: "QueuedPodInfo \<Rightarrow> nat" where
  "ready_at_ms i =
    (if attempts i = 0 then 0
     else
       let shift = min (attempts i - 1) 20;
           raw = min (1000 * 2 ^ shift) u64_top;
           back = min raw 10000
       in min (last_attempt_ms i + back) u64_top)"

definition is_backing_off :: "QueuedPodInfo \<Rightarrow> nat \<Rightarrow> bool" where
  "is_backing_off i now = (ready_at_ms i > now)"

definition info_matches_event :: "QueuedPodInfo \<Rightarrow> ClusterEvent \<Rightarrow> bool" where
  "info_matches_event i occurred = list_ex (\<lambda>e. event_matches e occurred) (registered_events i)"

definition next_attempt :: "QueuedPodInfo \<Rightarrow> QueuedPodInfo" where
  "next_attempt i = i\<lparr>attempts := (attempts i + 1) mod 2 ^ 32\<rparr>"

section \<open>The queue\<close>

record HeapEntry =
  seq_no :: nat
  entry_info :: QueuedPodInfo

type_synonym QueueSortPlugin = "Pod \<Rightarrow> Pod \<Rightarrow> bool"

text \<open>\<open>HeapEntry::cmp\<close> returns \<open>Greater\<close>.\<close>

definition entry_greater :: "QueueSortPlugin \<Rightarrow> HeapEntry \<Rightarrow> HeapEntry \<Rightarrow> bool" where
  "entry_greater before a b =
    (if before (qp_pod (entry_info a)) (qp_pod (entry_info b)) then True
     else if before (qp_pod (entry_info b)) (qp_pod (entry_info a)) then False
     else seq_no a < seq_no b)"

fun heap_max :: "QueueSortPlugin \<Rightarrow> HeapEntry \<Rightarrow> HeapEntry list \<Rightarrow> HeapEntry" where
  "heap_max before m [] = m"
| "heap_max before m (e # es) = heap_max before (if entry_greater before e m then e else m) es"

definition heap_pop :: "QueueSortPlugin \<Rightarrow> HeapEntry list \<Rightarrow> (HeapEntry \<times> HeapEntry list) option" where
  "heap_pop before es = (case es of [] \<Rightarrow> None
     | e # es' \<Rightarrow> (let m = heap_max before e es' in Some (m, remove1 m es)))"

record PriorityQueue =
  active :: "HeapEntry list"
  backoff :: "QueuedPodInfo list"
  unsched :: "(string, QueuedPodInfo) hashmap"
  pq_seq :: nat
  scheduling_cycle :: nat
  move_request_cycle :: "nat option"
  pq_sort :: QueueSortPlugin
  closed :: bool

definition with_queue_sort :: "QueueSortPlugin \<Rightarrow> PriorityQueue" where
  "with_queue_sort before = \<lparr>active = [], backoff = [], unsched = [], pq_seq = 0, scheduling_cycle = 0,
     move_request_cycle = None, pq_sort = before, closed = False\<rparr>"

definition PriorityQueue_new :: PriorityQueue where
  "PriorityQueue_new = with_queue_sort priority_less"

definition UNSCHEDULABLE_LEFTOVER_MS :: nat where "UNSCHEDULABLE_LEFTOVER_MS = 60000"

definition queued_uid :: "QueuedPodInfo \<Rightarrow> string" where
  "queued_uid i = uid (pod_metadata (qp_pod i))"

definition push_active :: "QueuedPodInfo \<Rightarrow> PriorityQueue \<Rightarrow> PriorityQueue" where
  "push_active i q = q\<lparr>pq_seq := pq_seq q + 1,
     active := active q @ [\<lparr>seq_no = pq_seq q + 1, entry_info = i\<rparr>]\<rparr>"

definition add_unschedulable_if_not_present :: "QueuedPodInfo \<Rightarrow> nat \<Rightarrow> nat \<Rightarrow> PriorityQueue \<Rightarrow> PriorityQueue" where
  "add_unschedulable_if_not_present info pod_cycle now q =
    (let i = (next_attempt info)\<lparr>last_attempt_ms := now\<rparr>; key = queued_uid i in
     if hm_get (unsched q) key \<noteq> None then q
     else if (case move_request_cycle q of Some m \<Rightarrow> m \<ge> pod_cycle | None \<Rightarrow> False)
     then q\<lparr>backoff := backoff q @ [i]\<rparr>
     else q\<lparr>unsched := hm_insert key (i\<lparr>unschedulable_since_ms := now\<rparr>) (unsched q)\<rparr>)"

text \<open>The loop body shared by the two operations that take pods out of the unschedulable set.\<close>

definition release_key :: "nat \<Rightarrow> string \<Rightarrow> PriorityQueue \<Rightarrow> PriorityQueue" where
  "release_key now key q = (case hm_get (unsched q) key of
     None \<Rightarrow> q
   | Some i \<Rightarrow>
      (let q' = q\<lparr>unsched := hm_remove key (unsched q)\<rparr> in
       if is_backing_off i now then q'\<lparr>backoff := backoff q' @ [i]\<rparr> else push_active i q'))"

definition move_all_to_active_or_backoff_queue :: "ClusterEvent \<Rightarrow> nat \<Rightarrow> PriorityQueue \<Rightarrow> PriorityQueue" where
  "move_all_to_active_or_backoff_queue ev now q =
    (let matched = map fst (filter (\<lambda>kv. info_matches_event (snd kv) ev) (unsched q));
         q' = fold (release_key now) matched q
     in q'\<lparr>move_request_cycle := Some (scheduling_cycle q')\<rparr>)"

definition flush_unschedulable_pods_leftover :: "nat \<Rightarrow> PriorityQueue \<Rightarrow> PriorityQueue" where
  "flush_unschedulable_pods_leftover now q =
    (let stale = map fst (filter (\<lambda>kv. now - unschedulable_since_ms (snd kv) \<ge> UNSCHEDULABLE_LEFTOVER_MS) (unsched q))
     in fold (release_key now) stale q)"

definition pq_add :: "Pod \<Rightarrow> PriorityQueue \<Rightarrow> PriorityQueue" where
  "pq_add p q = push_active (QueuedPodInfo_new p) q"

definition pq_pop :: "PriorityQueue \<Rightarrow> PriorityQueue \<times> QueuedPodInfo option" where
  "pq_pop q =
    (let q' = q\<lparr>scheduling_cycle := scheduling_cycle q + 1\<rparr> in
     case heap_pop (pq_sort q) (active q') of
       None \<Rightarrow> (q', None)
     | Some (e, rest) \<Rightarrow> (q'\<lparr>active := rest\<rparr>, Some (entry_info e)))"

definition pq_add_unschedulable :: "QueuedPodInfo \<Rightarrow> PriorityQueue \<Rightarrow> PriorityQueue" where
  "pq_add_unschedulable i q = q\<lparr>backoff := backoff q @ [next_attempt i]\<rparr>"

definition flush_backoff :: "nat \<Rightarrow> PriorityQueue \<Rightarrow> PriorityQueue" where
  "flush_backoff now q =
    (let due = filter (\<lambda>i. ready_at_ms i \<le> now) (backoff q); still = filter (\<lambda>i. \<not> ready_at_ms i \<le> now) (backoff q)
     in fold push_active due (q\<lparr>backoff := still\<rparr>))"

definition pq_len :: "PriorityQueue \<Rightarrow> nat" where
  "pq_len q = length (active q) + length (backoff q) + length (unsched q)"

definition pq_close :: "PriorityQueue \<Rightarrow> PriorityQueue" where
  "pq_close q = q\<lparr>closed := True\<rparr>"

text \<open>One tick of the periodic flush (\<open>Scheduler::flush_loop\<close>).\<close>

definition flush_tick :: "nat \<Rightarrow> PriorityQueue \<Rightarrow> PriorityQueue" where
  "flush_tick now q = flush_unschedulable_pods_leftover now (flush_backoff now q)"

section \<open>Which pod is popped\<close>

locale queue_sort =
  fixes before :: QueueSortPlugin
  assumes asym: "before a b \<Longrightarrow> \<not> before b a"
    and trans: "before a b \<Longrightarrow> before b c \<Longrightarrow> before a c"
    and tie_left: "\<not> before a b \<Longrightarrow> \<not> before b a \<Longrightarrow> before b c \<Longrightarrow> before a c"
    and tie_right: "before a b \<Longrightarrow> \<not> before b c \<Longrightarrow> \<not> before c b \<Longrightarrow> before a c"
begin

definition first :: "HeapEntry \<Rightarrow> HeapEntry \<Rightarrow> bool" where
  "first m e \<longleftrightarrow> \<not> entry_greater before e m"

lemma first_refl: "first e e"
  unfolding first_def entry_greater_def using asym by auto

lemma first_trans: "first a b \<Longrightarrow> first b c \<Longrightarrow> first a c"
  unfolding first_def entry_greater_def
  by (auto split: if_splits dest: asym intro: trans tie_left tie_right)

lemma heap_max_first: "e \<in> set (m # es) \<Longrightarrow> first (heap_max before m es) e"
proof (induction es arbitrary: m e)
  case Nil
  then show ?case by (simp add: first_refl)
next
  case (Cons x es)
  let ?m = "if entry_greater before x m then x else m"
  have up: "first ?m x" "first ?m m"
    using first_refl asym unfolding first_def entry_greater_def by (auto split: if_splits)
  have top: "first (heap_max before ?m es) ?m"
    by (rule Cons.IH) simp
  have "first (heap_max before ?m es) e"
  proof (cases "e \<in> set es")
    case True
    then show ?thesis
      by (intro Cons.IH) simp
  next
    case False
    then have "e = m \<or> e = x"
      using Cons.prems by auto
    then show ?thesis
      using first_trans[OF top] up by blast
  qed
  then show ?case
    by simp
qed

end

lemma heap_max_in: "heap_max before m es \<in> set (m # es)"
  by (induction es arbitrary: m) (auto split: if_splits)

interpretation by_priority: queue_sort priority_less
  by unfold_locales (auto simp: priority_less_def)


lemma heap_pop_cases:
  obtains (empty) "es = []" "heap_pop before es = None"
  | (pop) e where "e \<in> set es" "heap_pop before es = Some (e, remove1 e es)" "e = heap_max before (hd es) (tl es)"
proof (cases es)
  case Nil
  then show ?thesis using empty by (simp add: heap_pop_def)
next
  case (Cons x xs)
  then show ?thesis
    using heap_max_in[of before x xs] by (intro pop[of "heap_max before x xs"]) (simp_all add: heap_pop_def Let_def)
qed

text \<open>
  The default queue pops by priority, first in first out. When \<open>pop\<close> returns nothing the active heap
  is empty. Otherwise it takes one entry out, and every other entry of the heap has a lower priority, or
  the same priority and a sequence number that is not smaller.
\<close>
theorem pop_highest_priority:
  "pq_sort q = priority_less \<Longrightarrow>
   (case snd (pq_pop q) of
      None \<Rightarrow> active q = [] \<and> active (fst (pq_pop q)) = []
    | Some i \<Rightarrow> \<exists>e \<in> set (active q). i = entry_info e \<and> active (fst (pq_pop q)) = remove1 e (active q) \<and>
        (\<forall>x \<in> set (active q).
           priority (pod_spec (qp_pod (entry_info x))) < priority (pod_spec (qp_pod i)) \<or>
           priority (pod_spec (qp_pod (entry_info x))) = priority (pod_spec (qp_pod i)) \<and> seq_no e \<le> seq_no x))"
proof (cases "active q" rule: heap_pop_cases[where before = priority_less])
  case empty
  assume "pq_sort q = priority_less"
  then show ?thesis
    using empty by (simp add: pq_pop_def Let_def)
next
  case (pop e)
  assume sort: "pq_sort q = priority_less"
  have "by_priority.first e x" if "x \<in> set (active q)" for x
    using by_priority.heap_max_first[of x "hd (active q)" "tl (active q)"] that pop(3) by (cases "active q") auto
  then have "priority (pod_spec (qp_pod (entry_info x))) < priority (pod_spec (qp_pod (entry_info e))) \<or>
      priority (pod_spec (qp_pod (entry_info x))) = priority (pod_spec (qp_pod (entry_info e))) \<and> seq_no e \<le> seq_no x"
    if "x \<in> set (active q)" for x
    using that unfolding by_priority.first_def entry_greater_def priority_less_def by (meson linorder_neqE not_less)
  then show ?thesis
    using pop sort by (auto simp: pq_pop_def Let_def)
qed

definition demo_spec :: "int \<Rightarrow> PodSpec" where
  "demo_spec pr = \<lparr>containers = [], node_name = [], node_selector = [], affinity = None, tolerations = [], volumes = [],
     priority = pr, scheduler_name = []\<rparr>"

definition demo_queued :: "string \<Rightarrow> int \<Rightarrow> Pod" where
  "demo_queued u pr = \<lparr>pod_metadata = \<lparr>om_name = u, om_namespace = [], uid = u, labels = [], annotations = []\<rparr>,
     pod_spec = demo_spec pr\<rparr>"

definition demo_queue :: PriorityQueue where
  "demo_queue = pq_add (demo_queued ''c'' 5) (pq_add (demo_queued ''b'' 5) (pq_add (demo_queued ''a'' 1) PriorityQueue_new))"

theorem pop_highest_priority_witness:
  "pq_sort demo_queue = priority_less \<and> map_option queued_uid (snd (pq_pop demo_queue)) = Some ''b'' \<and>
   (case snd (pq_pop demo_queue) of
      None \<Rightarrow> active demo_queue = [] \<and> active (fst (pq_pop demo_queue)) = []
    | Some i \<Rightarrow> \<exists>e \<in> set (active demo_queue). i = entry_info e \<and> active (fst (pq_pop demo_queue)) = remove1 e (active demo_queue) \<and>
        (\<forall>x \<in> set (active demo_queue).
           priority (pod_spec (qp_pod (entry_info x))) < priority (pod_spec (qp_pod i)) \<or>
           priority (pod_spec (qp_pod (entry_info x))) = priority (pod_spec (qp_pod i)) \<and> seq_no e \<le> seq_no x))"
proof (intro conjI)
  show s: "pq_sort demo_queue = priority_less"
    by (simp add: demo_queue_def pq_add_def push_active_def PriorityQueue_new_def with_queue_sort_def)
  show "map_option queued_uid (snd (pq_pop demo_queue)) = Some ''b''"
    by code_simp
qed (rule pop_highest_priority, simp add: demo_queue_def pq_add_def push_active_def PriorityQueue_new_def with_queue_sort_def)


section \<open>No pod is lost\<close>

definition queued :: "PriorityQueue \<Rightarrow> QueuedPodInfo multiset" where
  "queued q = mset (map entry_info (active q)) + mset (backoff q) + mset (map snd (unsched q))"

lemma delete_filter: "AList.delete k m = filter (\<lambda>kv. fst kv \<noteq> k) m"
  by (auto simp: AList.delete_eq case_prod_unfold intro: filter_cong)

lemma mset_delete:
  "hm_ok m \<Longrightarrow> map_of m k = Some v \<Longrightarrow> mset (map snd m) = add_mset v (mset (map snd (hm_remove k m)))"
proof (induction m)
  case Nil
  then show ?case by simp
next
  case (Cons kv m)
  show ?case
  proof (cases "fst kv = k")
    case True
    then have "hm_remove k m = m"
      using Cons.prems(1) unfolding delete_filter filter_id_conv by (auto simp: image_iff)
    then show ?thesis
      using True Cons.prems(2) by (cases kv) auto
  next
    case False
    then show ?thesis
      using Cons by (cases kv) auto
  qed
qed

lemma queued_push [simp]: "queued (push_active i q) = add_mset i (queued q)"
  by (simp add: queued_def push_active_def)

lemma unsched_push [simp]: "unsched (push_active i q) = unsched q" "backoff (push_active i q) = backoff q"
  by (simp_all add: push_active_def)

lemma unsched_fold_push [simp]:
  "unsched (fold push_active is q) = unsched q" "backoff (fold push_active is q) = backoff q"
  by (induction "is" arbitrary: q) simp_all

lemma queued_fold_push: "queued (fold push_active is q) = mset is + queued q"
  by (induction "is" arbitrary: q) simp_all

lemma unsched_release_key: "unsched (release_key now k q) = hm_remove k (unsched q)"
proof (cases "hm_get (unsched q) k")
  case None
  then have "hm_remove k (unsched q) = unsched q"
    unfolding delete_filter filter_id_conv map_of_eq_None_iff by force
  then show ?thesis
    using None by (simp add: release_key_def)
qed (simp add: release_key_def Let_def)

lemma queued_release_key: "hm_ok (unsched q) \<Longrightarrow> queued (release_key now k q) = queued q"
proof (cases "hm_get (unsched q) k")
  case (Some i)
  assume ok: "hm_ok (unsched q)"
  show ?thesis
    using mset_delete[OF ok Some] Some by (simp add: release_key_def Let_def queued_def push_active_def)
qed (simp add: release_key_def)

lemma release_keys:
  "hm_ok (unsched q) \<Longrightarrow> queued (fold (release_key now) ks q) = queued q \<and>
   unsched (fold (release_key now) ks q) = filter (\<lambda>kv. fst kv \<notin> set ks) (unsched q)"
proof (induction ks arbitrary: q)
  case Nil
  then show ?case by simp
next
  case (Cons k ks)
  have "hm_ok (unsched (release_key now k q))"
    using Cons.prems by (simp add: unsched_release_key)
  then show ?case
    using Cons.IH[of "release_key now k q"] queued_release_key[OF Cons.prems]
    by (auto simp: unsched_release_key delete_filter intro: filter_cong)
qed

lemma filter_not_selected:
  assumes "hm_ok m"
  shows "filter (\<lambda>kv. fst kv \<notin> set (map fst (filter P m))) m = filter (\<lambda>kv. \<not> P kv) m"
proof (rule filter_cong[OF refl])
  fix kv
  assume "kv \<in> set m"
  then have "fst kv \<in> fst ` {x \<in> set m. P x} \<longleftrightarrow> P kv"
    using assms by (auto simp: distinct_map dest: inj_onD)
  then show "fst kv \<notin> set (map fst (filter P m)) \<longleftrightarrow> \<not> P kv"
    by simp
qed

lemma release_selected:
  assumes "hm_ok (unsched q)"
  shows "unsched (fold (release_key now) (map fst (filter P (unsched q))) q) = filter (\<lambda>kv. \<not> P kv) (unsched q)"
  using release_keys[OF assms, of now "map fst (filter P (unsched q))"] filter_not_selected[OF assms, of P] by metis

lemma queued_move_cycle: "queued (q\<lparr>move_request_cycle := m\<rparr>) = queued q"
  by (simp add: queued_def)

lemma queued_move_all:
  assumes "hm_ok (unsched q)"
  shows "queued (move_all_to_active_or_backoff_queue ev now q) = queued q"
    and "unsched (move_all_to_active_or_backoff_queue ev now q) = filter (\<lambda>kv. \<not> info_matches_event (snd kv) ev) (unsched q)"
proof -
  let ?ks = "map fst (filter (\<lambda>kv. info_matches_event (snd kv) ev) (unsched q))"
  have "queued (fold (release_key now) ?ks q) = queued q"
    using release_keys[OF assms] by blast
  then show "queued (move_all_to_active_or_backoff_queue ev now q) = queued q"
    by (simp add: move_all_to_active_or_backoff_queue_def Let_def queued_move_cycle)
  show "unsched (move_all_to_active_or_backoff_queue ev now q) =
      filter (\<lambda>kv. \<not> info_matches_event (snd kv) ev) (unsched q)"
    using release_selected[OF assms, of now "\<lambda>kv. info_matches_event (snd kv) ev"]
    unfolding move_all_to_active_or_backoff_queue_def Let_def by simp
qed

lemma queued_flush_leftover:
  assumes "hm_ok (unsched q)"
  shows "queued (flush_unschedulable_pods_leftover now q) = queued q"
    and "unsched (flush_unschedulable_pods_leftover now q) =
      filter (\<lambda>kv. \<not> now - unschedulable_since_ms (snd kv) \<ge> UNSCHEDULABLE_LEFTOVER_MS) (unsched q)"
  unfolding flush_unschedulable_pods_leftover_def Let_def
  using release_keys[OF assms] release_selected[OF assms] by blast+

lemma queued_flush_backoff: "queued (flush_backoff now q) = queued q"
  using multiset_partition[of "mset (backoff q)" "\<lambda>i. ready_at_ms i \<le> now"]
  by (simp add: flush_backoff_def Let_def queued_fold_push) (simp add: queued_def)

lemma unsched_flush_backoff [simp]: "unsched (flush_backoff now q) = unsched q"
  by (simp add: flush_backoff_def Let_def)

lemma queued_pop: "queued q = queued (fst (pq_pop q)) + (case snd (pq_pop q) of None \<Rightarrow> {#} | Some i \<Rightarrow> {#i#})"
proof (cases "active q" rule: heap_pop_cases[where before = "pq_sort q"])
  case empty
  then show ?thesis
    by (simp add: pq_pop_def Let_def queued_def)
next
  case (pop e)
  have "mset (map entry_info (active q)) = add_mset (entry_info e) (mset (map entry_info (remove1 e (active q))))"
    using pop(1) by (metis image_mset_add_mset mset_map mset_remove1 insert_DiffM set_mset_mset)
  then show ?thesis
    using pop(2) by (simp add: pq_pop_def Let_def queued_def)
qed


section \<open>Pods wait a bounded time\<close>

text \<open>
  A step of the queue's life. A pod that comes back after a failed attempt is one that was queued, so it
  still has the event registration it was created with.
\<close>

inductive queue_step :: "PriorityQueue \<Rightarrow> PriorityQueue \<Rightarrow> bool" where
  added: "queue_step q (pq_add p q)"
| popped: "queue_step q (fst (pq_pop q))"
| failed: "registered_events i = [WILD_CARD_EVENT] \<Longrightarrow> queue_step q (add_unschedulable_if_not_present i cycle now q)"
| failed_poll: "registered_events i = [WILD_CARD_EVENT] \<Longrightarrow> queue_step q (pq_add_unschedulable i q)"
| moved: "queue_step q (move_all_to_active_or_backoff_queue ev now q)"
| ticked: "queue_step q (flush_tick now q)"
| shut: "queue_step q (pq_close q)"

text \<open>A parked pod was parked at its last attempt, under its uid, and waits for any event.\<close>

definition parked_ok :: "string \<times> QueuedPodInfo \<Rightarrow> bool" where
  "parked_ok kv \<longleftrightarrow> fst kv = queued_uid (snd kv) \<and> last_attempt_ms (snd kv) = unschedulable_since_ms (snd kv) \<and>
     registered_events (snd kv) = [WILD_CARD_EVENT]"

definition queue_ok :: "PriorityQueue \<Rightarrow> bool" where
  "queue_ok q \<longleftrightarrow> hm_ok (unsched q) \<and> (\<forall>kv \<in> set (unsched q). parked_ok kv)"

lemma queue_ok_fewer: "queue_ok q \<Longrightarrow> unsched q' = filter P (unsched q) \<Longrightarrow> queue_ok q'"
  by (simp add: queue_ok_def distinct_map_filter)

lemma queue_ok_same: "queue_ok q \<Longrightarrow> unsched q' = unsched q \<Longrightarrow> queue_ok q'"
  by (simp add: queue_ok_def)

lemma set_hm_insert: "kv \<in> set (hm_insert k v m) \<Longrightarrow> kv = (k, v) \<or> kv \<in> set m"
  by (induction m) (auto split: if_splits)

lemma queue_ok_failed:
  assumes "queue_ok q" and "registered_events i = [WILD_CARD_EVENT]"
  shows "queue_ok (add_unschedulable_if_not_present i cycle now q)"
proof -
  let ?i = "(next_attempt i)\<lparr>last_attempt_ms := now, unschedulable_since_ms := now\<rparr>"
  have "parked_ok (queued_uid ?i, ?i)"
    using assms(2) by (simp add: parked_ok_def next_attempt_def queued_uid_def)
  then have "queue_ok (q\<lparr>unsched := hm_insert (queued_uid ?i) ?i (unsched q)\<rparr>)"
    using assms(1) by (auto simp: queue_ok_def dest!: set_hm_insert)
  moreover have "queued_uid ?i = queued_uid ((next_attempt i)\<lparr>last_attempt_ms := now\<rparr>)"
    by (simp add: queued_uid_def)
  ultimately show ?thesis
    using assms(1) by (simp add: add_unschedulable_if_not_present_def Let_def queue_ok_def)
qed

lemma flush_tick_effect:
  assumes "hm_ok (unsched q)"
  shows "queued (flush_tick now q) = queued q"
    and "unsched (flush_tick now q) = filter (\<lambda>kv. \<not> now - unschedulable_since_ms (snd kv) \<ge> UNSCHEDULABLE_LEFTOVER_MS) (unsched q)"
  using queued_flush_leftover[of "flush_backoff now q" now] assms
  by (simp_all add: flush_tick_def queued_flush_backoff)

lemma queue_step_ok: "queue_step q q' \<Longrightarrow> queue_ok q \<Longrightarrow> queue_ok q'"
proof (induction rule: queue_step.induct)
  case (popped q)
  then show ?case
    by (rule queue_ok_same) (simp add: pq_pop_def Let_def split: option.split)
next
  case (failed i q cycle now)
  then show ?case
    by (intro queue_ok_failed)
next
  case (moved q ev now)
  then show ?case
    using queue_ok_fewer queued_move_all(2) unfolding queue_ok_def by blast
next
  case (ticked q now)
  then show ?case
    using queue_ok_fewer flush_tick_effect(2) unfolding queue_ok_def by blast
qed (auto simp: queue_ok_def pq_add_def pq_add_unschedulable_def pq_close_def)

lemma queue_run_ok: "queue_step\<^sup>*\<^sup>* PriorityQueue_new q \<Longrightarrow> queue_ok q"
proof (induction rule: rtranclp_induct)
  case base
  then show ?case
    by (simp add: queue_ok_def PriorityQueue_new_def with_queue_sort_def)
qed (rule queue_step_ok)

lemma ready_at_bound: "ready_at_ms i \<le> last_attempt_ms i + 10000"
  by (auto simp: ready_at_ms_def Let_def min_le_iff_disj)

lemma not_backing_off: "last_attempt_ms i + 10000 \<le> now \<Longrightarrow> \<not> is_backing_off i now"
  using ready_at_bound[of i] by (simp add: is_backing_off_def)

abbreviation is_active :: "QueuedPodInfo \<Rightarrow> PriorityQueue \<Rightarrow> bool" where
  "is_active i q \<equiv> i \<in> entry_info ` set (active q)"

lemma active_push: "is_active j (push_active i q) \<longleftrightarrow> j = i \<or> is_active j q"
  by (auto simp: push_active_def)

lemma active_fold_push: "is_active j (fold push_active is q) \<longleftrightarrow> j \<in> set is \<or> is_active j q"
  by (induction "is" arbitrary: q) (auto simp: active_push)

lemma active_release: "is_active j q \<Longrightarrow> is_active j (release_key now k q)"
  by (auto simp: release_key_def Let_def push_active_def split: option.split)

lemma active_release_keys: "is_active j q \<Longrightarrow> is_active j (fold (release_key now) ks q)"
  by (induction ks arbitrary: q) (simp_all add: active_release)

lemma released_active:
  assumes "k \<in> set ks" and "hm_get (unsched q) k = Some i" and "\<not> is_backing_off i now"
  shows "is_active i (fold (release_key now) ks q)"
  using assms
proof (induction ks arbitrary: q)
  case Nil
  then show ?case by simp
next
  case (Cons k' ks)
  show ?case
  proof (cases "k' = k")
    case True
    then have "is_active i (release_key now k' q)"
      using Cons.prems by (simp add: release_key_def Let_def active_push)
    then show ?thesis
      by (simp add: active_release_keys)
  next
    case False
    then have "hm_get (unsched (release_key now k' q)) k = Some i"
      using Cons.prems by (simp add: unsched_release_key)
    then show ?thesis
      using Cons.IH Cons.prems False by simp
  qed
qed

text \<open>
  C40. No pod waits for ever. In every queue that arises from the operations, one tick of the periodic
  flush at time \<open>now\<close> makes active each pod that was parked at least a minute ago, whether or not an event
  was seen, and each pod in backoff whose last attempt is at least ten seconds old; and the tick loses
  and invents no pod.
\<close>
theorem waiting_is_bounded:
  assumes "queue_step\<^sup>*\<^sup>* PriorityQueue_new q"
  shows "((u, i) \<in> set (unsched q) \<and> unschedulable_since_ms i + 60000 \<le> now \<or>
          i \<in> set (backoff q) \<and> last_attempt_ms i + 10000 \<le> now \<longrightarrow>
            is_active i (flush_tick now q)) \<and>
         queued (flush_tick now q) = queued q"
proof (intro conjI impI)
  have ok: "queue_ok q"
    by (rule queue_run_ok[OF assms])
  then have hm: "hm_ok (unsched q)"
    by (simp add: queue_ok_def)
  show "queued (flush_tick now q) = queued q"
    by (rule flush_tick_effect[OF hm])
  assume "(u, i) \<in> set (unsched q) \<and> unschedulable_since_ms i + 60000 \<le> now \<or>
      i \<in> set (backoff q) \<and> last_attempt_ms i + 10000 \<le> now"
  then show "is_active i (flush_tick now q)"
  proof
    assume p: "(u, i) \<in> set (unsched q) \<and> unschedulable_since_ms i + 60000 \<le> now"
    then have "last_attempt_ms i + 10000 \<le> now"
      using ok by (auto simp: queue_ok_def parked_ok_def)
    moreover have "hm_get (unsched (flush_backoff now q)) u = Some i"
      using p in_set_hm[OF hm] by simp
    moreover have "u \<in> set (map fst (filter (\<lambda>kv. UNSCHEDULABLE_LEFTOVER_MS \<le> now - unschedulable_since_ms (snd kv)) (unsched q)))"
      using p by (force simp: UNSCHEDULABLE_LEFTOVER_MS_def)
    ultimately show ?thesis
      unfolding flush_tick_def flush_unschedulable_pods_leftover_def Let_def
      by (intro released_active) (simp_all add: not_backing_off)
  next
    assume b: "i \<in> set (backoff q) \<and> last_attempt_ms i + 10000 \<le> now"
    then have "is_active i (flush_backoff now q)"
      using ready_at_bound[of i] by (auto simp: flush_backoff_def Let_def active_fold_push)
    then show ?thesis
      unfolding flush_tick_def flush_unschedulable_pods_leftover_def Let_def by (rule active_release_keys)
  qed
qed

definition demo_parked :: PriorityQueue where
  "demo_parked = add_unschedulable_if_not_present (QueuedPodInfo_new (demo_queued ''a'' 1)) 1 100 (fst (pq_pop (pq_add (demo_queued ''a'' 1) PriorityQueue_new)))"

lemma demo_parked_run: "queue_step\<^sup>*\<^sup>* PriorityQueue_new demo_parked"
proof -
  have "queue_step PriorityQueue_new (pq_add (demo_queued ''a'' 1) PriorityQueue_new)"
    by (rule added)
  moreover have "queue_step (pq_add (demo_queued ''a'' 1) PriorityQueue_new) (fst (pq_pop (pq_add (demo_queued ''a'' 1) PriorityQueue_new)))"
    by (rule popped)
  moreover have "queue_step (fst (pq_pop (pq_add (demo_queued ''a'' 1) PriorityQueue_new))) demo_parked"
    unfolding demo_parked_def by (rule failed) (simp add: QueuedPodInfo_new_def)
  ultimately show ?thesis
    by (meson converse_rtranclp_into_rtranclp rtranclp.rtrancl_refl)
qed

lemma demo_parked_unsched: "unsched demo_parked = [(''a'', (QueuedPodInfo_new (demo_queued ''a'' 1))\<lparr>attempts := 1,
    last_attempt_ms := 100, unschedulable_since_ms := 100\<rparr>)]"
  by (simp add: demo_parked_def add_unschedulable_if_not_present_def pq_pop_def pq_add_def push_active_def PriorityQueue_new_def
      with_queue_sort_def heap_pop_def Let_def next_attempt_def QueuedPodInfo_new_def queued_uid_def demo_queued_def)

theorem waiting_is_bounded_witness:
  "is_active ((QueuedPodInfo_new (demo_queued ''a'' 1))\<lparr>attempts := 1, last_attempt_ms := 100, unschedulable_since_ms := 100\<rparr>)
     (flush_tick 60100 demo_parked)"
  using waiting_is_bounded[OF demo_parked_run, of "''a''"
      "(QueuedPodInfo_new (demo_queued ''a'' 1))\<lparr>attempts := 1, last_attempt_ms := 100, unschedulable_since_ms := 100\<rparr>" 60100]
  by (simp add: demo_parked_unsched)


text \<open>
  Any change of the cluster wakes every parked pod. In every queue that arises from the operations, an
  event with at least one action bit leaves no pod in the unschedulable set, loses none, and a pod whose
  scheduling attempt was under way when the event came is not parked afterwards.
\<close>
theorem event_wakes_all:
  assumes "queue_step\<^sup>*\<^sup>* PriorityQueue_new q" and "action_type ev \<noteq> 0" and "cycle \<le> scheduling_cycle q"
  shows "unsched (move_all_to_active_or_backoff_queue ev now q) = [] \<and>
    queued (move_all_to_active_or_backoff_queue ev now q) = queued q \<and>
    unsched (add_unschedulable_if_not_present i cycle later (move_all_to_active_or_backoff_queue ev now q)) = []"
proof -
  have ok: "queue_ok q"
    by (rule queue_run_ok[OF assms(1)])
  then have hm: "hm_ok (unsched q)"
    by (simp add: queue_ok_def)
  have "info_matches_event (snd kv) ev" if "kv \<in> set (unsched q)" for kv
    using ok that assms(2)
    by (auto simp: queue_ok_def parked_ok_def info_matches_event_def event_matches_def WILD_CARD_EVENT_def intersects_def ACTION_ALL_def)
  then have none: "unsched (move_all_to_active_or_backoff_queue ev now q) = []"
    by (simp add: queued_move_all(2)[OF hm] filter_empty_conv)
  moreover have "scheduling_cycle (fold (release_key now) ks q) = scheduling_cycle q" for ks
    by (induction ks arbitrary: q) (simp_all add: release_key_def Let_def push_active_def split: option.split)
  then have "move_request_cycle (move_all_to_active_or_backoff_queue ev now q) = Some (scheduling_cycle q)"
    by (simp add: move_all_to_active_or_backoff_queue_def Let_def)
  ultimately show ?thesis
    using assms(3) queued_move_all(1)[OF hm] by (simp add: add_unschedulable_if_not_present_def Let_def)
qed

theorem event_wakes_all_witness:
  "unsched demo_parked \<noteq> [] \<and>
   unsched (move_all_to_active_or_backoff_queue \<lparr>resource = Gvk_Node, action_type = ACTION_ADD\<rparr> 200 demo_parked) = [] \<and>
   queued (move_all_to_active_or_backoff_queue \<lparr>resource = Gvk_Node, action_type = ACTION_ADD\<rparr> 200 demo_parked) = queued demo_parked"
  using event_wakes_all[OF demo_parked_run, of "\<lparr>resource = Gvk_Node, action_type = ACTION_ADD\<rparr>" 0 200]
  by (simp add: demo_parked_unsched ACTION_ADD_def)

text \<open>
  Backoff after a failed attempt. On the event-driven path the retry comes no earlier than one second
  and no later than ten seconds after the attempt, doubling with each attempt up to that bound. On the
  polling path (\<open>add_unschedulable\<close>) the time of the attempt is never recorded: a pod that has only been
  through that path is ready again at once, however often it has failed, from ten seconds after the
  epoch of the clock on.
\<close>
theorem backoff_window:
  assumes "now + 10000 < 2 ^ 64" and "n + 1 < 2 ^ 32"
  shows "ready_at_ms ((next_attempt (i\<lparr>attempts := n\<rparr>))\<lparr>last_attempt_ms := now\<rparr>) = now + min (1000 * 2 ^ n) 10000 \<and>
    (10000 \<le> now \<longrightarrow> ready_at_ms (next_attempt ((QueuedPodInfo_new p)\<lparr>attempts := n\<rparr>)) \<le> now)"
proof -
  have pow: "min (1000 * 2 ^ min n 20) 10000 = (min (1000 * 2 ^ n) 10000 :: nat)"
  proof (cases "n \<le> 20")
    case False
    then have "(2 :: nat) ^ 20 \<le> 2 ^ n"
      by (intro power_increasing) auto
    then show ?thesis
      using False by (simp add: min_def)
  qed (simp add: min_def)
  have top: "min (min (1000 * 2 ^ min n 20) u64_top) 10000 = min (1000 * 2 ^ min n 20) (10000 :: nat)"
    by (simp add: u64_top_def min_def)
  have "now + min (1000 * 2 ^ n) 10000 \<le> u64_top"
    using assms(1) by (simp add: u64_top_def min_def)
  then have "ready_at_ms ((next_attempt (i\<lparr>attempts := n\<rparr>))\<lparr>last_attempt_ms := now\<rparr>) = now + min (1000 * 2 ^ n) 10000"
    using assms(2) top pow by (simp add: ready_at_ms_def next_attempt_def Let_def)
  moreover have "ready_at_ms (next_attempt ((QueuedPodInfo_new p)\<lparr>attempts := n\<rparr>)) \<le> 10000"
    using ready_at_bound[of "next_attempt ((QueuedPodInfo_new p)\<lparr>attempts := n\<rparr>)"] by (simp add: next_attempt_def QueuedPodInfo_new_def)
  ultimately show ?thesis
    by simp
qed

theorem backoff_window_witness:
  "ready_at_ms ((next_attempt ((QueuedPodInfo_new (demo_queued ''a'' 1))\<lparr>attempts := 2\<rparr>))\<lparr>last_attempt_ms := 50000\<rparr>) = 54000 \<and>
   ready_at_ms (next_attempt ((QueuedPodInfo_new (demo_queued ''a'' 1))\<lparr>attempts := 2\<rparr>)) \<le> 50000"
  using backoff_window[of 50000 2 "QueuedPodInfo_new (demo_queued ''a'' 1)" "demo_queued ''a'' 1"] by simp

end
