(* ===== verification/Sched_Loop.thy ===== *)
theory Sched_Loop
  imports Sched_Account Sched_Queue
begin

text \<open>
  The scheduler that joins cache, queue and plugins (\<open>scheduler.rs\<close>): admission, the binding cycle with
  its rollback, one polling cycle and its drain, the event-driven cycle, and the informers' handlers. The
  API server behind the sink and whoever resolves a waiting pod are the environment (\<open>Env\<close>). The calls
  a binding cycle makes to reserve and bind plugins and to the sink are returned in order. The plugins of
  the binding cycle work on its cycle state; what else they do is theirs.
\<close>

section \<open>Plugins of the binding cycle\<close>

record ReservePlugin =
  rs_name :: string
  reserve :: "CycleState \<Rightarrow> Pod \<Rightarrow> string \<Rightarrow> CycleState \<times> Status"
  unreserve :: "CycleState \<Rightarrow> Pod \<Rightarrow> string \<Rightarrow> CycleState"

record PermitPlugin =
  pm_name :: string
  permit :: "CycleState \<Rightarrow> Pod \<Rightarrow> string \<Rightarrow> CycleState \<times> Status"
  permit_timeout :: nat

record PreBindPlugin =
  pb_name :: string
  pre_bind :: "CycleState \<Rightarrow> Pod \<Rightarrow> string \<Rightarrow> CycleState \<times> Status"

record BindPlugin =
  bd_name :: string
  bind_pod :: "CycleState \<Rightarrow> Pod \<Rightarrow> string \<Rightarrow> CycleState \<times> Status"

record PostBindPlugin =
  po_name :: string
  post_bind :: "CycleState \<Rightarrow> Pod \<Rightarrow> string \<Rightarrow> CycleState"

record Profile =
  registry :: PluginRegistry
  pre_enqueues :: "(Pod \<Rightarrow> Status) list"
  reserves :: "ReservePlugin list"
  permits :: "PermitPlugin list"
  pre_binds :: "PreBindPlugin list"
  binds :: "BindPlugin list"
  post_binds :: "PostBindPlugin list"

definition default_profile :: Profile where
  "default_profile = \<lparr>registry = default_registry, pre_enqueues = [], reserves = [], permits = [], pre_binds = [],
     binds = [], post_binds = []\<rparr>"

datatype SourceSinkError = Apiserver string | NotFound string string | Conflict string string

datatype PermitDecision = Allow | Reject string

text \<open>How a wait on the gate of a pod ends: a decision, the gate dropped, or the timeout.\<close>

datatype WaitOutcome = Decided PermitDecision | GateDropped | TimedOut

record Env =
  sink_bind :: "Pod \<Rightarrow> string \<Rightarrow> SourceSinkError + unit"
  await_gate :: "Pod \<Rightarrow> nat \<Rightarrow> WaitOutcome"

datatype BindFailure =
    AssumeFailed CacheError
  | ReserveFailed string Status
  | PermitDenied string Status
  | PermitRejected string
  | PermitAborted
  | PermitTimedOut nat
  | PreBindFailed string Status
  | BindFailed string Status
  | SinkFailed SourceSinkError

datatype Call = Reserved string | Unreserved string | BindCalled string | SinkCalled | PostBound string

section \<open>The binding cycle\<close>

definition is_wait :: "Status \<Rightarrow> bool" where
  "is_wait s = (code s = Wait)"

fun reserve_loop :: "ReservePlugin list \<Rightarrow> Pod \<Rightarrow> string \<Rightarrow> CycleState \<Rightarrow> nat \<Rightarrow> Call list \<Rightarrow>
    CycleState \<times> nat \<times> Call list \<times> BindFailure option" where
  "reserve_loop [] pod host state reserved calls = (state, reserved, calls, None)"
| "reserve_loop (pl # pls) pod host state reserved calls =
    (case reserve pl state pod host of (state, status) \<Rightarrow>
     if \<not> is_success status
     then (state, reserved + 1, calls @ [Reserved (rs_name pl)], Some (ReserveFailed (rs_name pl) status))
     else reserve_loop pls pod host state (reserved + 1) (calls @ [Reserved (rs_name pl)]))"

fun permit_loop :: "PermitPlugin list \<Rightarrow> Pod \<Rightarrow> string \<Rightarrow> CycleState \<Rightarrow> nat option \<Rightarrow> CycleState \<times> (BindFailure + nat option)" where
  "permit_loop [] pod host state timeout = (state, Inr timeout)"
| "permit_loop (pl # pls) pod host state timeout =
    (case permit pl state pod host of (state, status) \<Rightarrow>
     if is_wait status then
       permit_loop pls pod host state
         (Some (case timeout of None \<Rightarrow> permit_timeout pl | Some cur \<Rightarrow> min cur (permit_timeout pl)))
     else if \<not> is_success status then (state, Inl (PermitDenied (pm_name pl) status))
     else permit_loop pls pod host state timeout)"

definition wait_on_permit :: "Env \<Rightarrow> Pod \<Rightarrow> nat \<Rightarrow> BindFailure + unit" where
  "wait_on_permit env pod timeout = (case await_gate env pod timeout of
     Decided Allow \<Rightarrow> Inr ()
   | Decided (Reject reason) \<Rightarrow> Inl (PermitRejected reason)
   | GateDropped \<Rightarrow> Inl PermitAborted
   | TimedOut \<Rightarrow> Inl (PermitTimedOut timeout))"

fun pre_bind_loop :: "PreBindPlugin list \<Rightarrow> Pod \<Rightarrow> string \<Rightarrow> CycleState \<Rightarrow> CycleState \<times> BindFailure option" where
  "pre_bind_loop [] pod host state = (state, None)"
| "pre_bind_loop (pl # pls) pod host state =
    (case pre_bind pl state pod host of (state, status) \<Rightarrow>
     if \<not> is_success status then (state, Some (PreBindFailed (pb_name pl) status))
     else pre_bind_loop pls pod host state)"

text \<open>The loop over the bind plugins; the flag says whether one of them bound the pod.\<close>

fun bind_loop :: "BindPlugin list \<Rightarrow> Pod \<Rightarrow> string \<Rightarrow> CycleState \<Rightarrow> Call list \<Rightarrow> CycleState \<times> Call list \<times> (BindFailure + bool)" where
  "bind_loop [] pod host state calls = (state, calls, Inr False)"
| "bind_loop (pl # pls) pod host state calls =
    (case bind_pod pl state pod host of (state, status) \<Rightarrow>
     let calls = calls @ [BindCalled (bd_name pl)] in
     if code status = Skip then bind_loop pls pod host state calls
     else if \<not> is_success status then (state, calls, Inl (BindFailed (bd_name pl) status))
     else (state, calls, Inr True))"

definition unwind :: "Profile \<Rightarrow> CycleState \<Rightarrow> Pod \<Rightarrow> string \<Rightarrow> nat \<Rightarrow> Call list \<Rightarrow> SchedulerCache \<Rightarrow> SchedulerCache \<times> Call list" where
  "unwind prof state pod host reserved calls c =
    (let (state, calls) = fold (\<lambda>pl (state, calls). (unreserve pl state pod host, calls @ [Unreserved (rs_name pl)]))
           (rev (take reserved (reserves prof))) (state, calls)
     in (forget_pod (uid (pod_metadata pod)) c, calls))"

definition fail_cycle :: "Profile \<Rightarrow> CycleState \<Rightarrow> Pod \<Rightarrow> string \<Rightarrow> nat \<Rightarrow> Call list \<Rightarrow> SchedulerCache \<Rightarrow> BindFailure \<Rightarrow>
    SchedulerCache \<times> Call list \<times> (BindFailure + unit)" where
  "fail_cycle prof state pod host reserved calls c e =
    (case unwind prof state pod host reserved calls c of (c, calls) \<Rightarrow> (c, calls, Inl e))"

text \<open>From the bind on: \<open>PostBind\<close> plugins cannot fail the cycle.\<close>

definition post_bind_all :: "Profile \<Rightarrow> Pod \<Rightarrow> string \<Rightarrow> CycleState \<Rightarrow> Call list \<Rightarrow> Call list" where
  "post_bind_all prof pod host state calls =
    snd (fold (\<lambda>pl (state, calls). (post_bind pl state pod host, calls @ [PostBound (po_name pl)])) (post_binds prof) (state, calls))"

definition finish_bind :: "Env \<Rightarrow> Profile \<Rightarrow> Pod \<Rightarrow> string \<Rightarrow> CycleState \<Rightarrow> nat \<Rightarrow> Call list \<Rightarrow> SchedulerCache \<Rightarrow>
    SchedulerCache \<times> Call list \<times> (BindFailure + unit)" where
  "finish_bind env prof pod host state reserved calls c =
    (case bind_loop (binds prof) pod host state calls of
       (state, calls, Inl e) \<Rightarrow> fail_cycle prof state pod host reserved calls c e
     | (state, calls, Inr True) \<Rightarrow> (c, post_bind_all prof pod host state calls, Inr ())
     | (state, calls, Inr False) \<Rightarrow>
        (case sink_bind env pod host of
           Inl e \<Rightarrow> fail_cycle prof state pod host reserved (calls @ [SinkCalled]) c (SinkFailed e)
         | Inr _ \<Rightarrow> (c, post_bind_all prof pod host state (calls @ [SinkCalled]), Inr ())))"

definition run_binding_cycle :: "Env \<Rightarrow> Profile \<Rightarrow> Pod \<Rightarrow> string \<Rightarrow> SchedulerCache \<Rightarrow>
    SchedulerCache \<times> Call list \<times> (BindFailure + unit)" where
  "run_binding_cycle env prof pod host c =
    (case assume_pod pod host c of
       (c, Inl e) \<Rightarrow> (c, [], Inl (AssumeFailed e))
     | (c, Inr _) \<Rightarrow>
        (case reserve_loop (reserves prof) pod host [] 0 [] of
           (state, reserved, calls, Some e) \<Rightarrow> fail_cycle prof state pod host reserved calls c e
         | (state, reserved, calls, None) \<Rightarrow>
            (case permit_loop (permits prof) pod host state None of
               (state, Inl e) \<Rightarrow> fail_cycle prof state pod host reserved calls c e
             | (state, Inr timeout) \<Rightarrow>
                (case (case timeout of None \<Rightarrow> Inr () | Some t \<Rightarrow> wait_on_permit env pod t) of
                   Inl e \<Rightarrow> fail_cycle prof state pod host reserved calls c e
                 | Inr _ \<Rightarrow>
                    (case pre_bind_loop (pre_binds prof) pod host state of
                       (state, Some e) \<Rightarrow> fail_cycle prof state pod host reserved calls c e
                     | (state, None) \<Rightarrow> finish_bind env prof pod host state reserved calls c)))))"

section \<open>The scheduler\<close>

record Scheduler =
  cache :: SchedulerCache
  queue :: PriorityQueue
  percentage :: "nat option"

definition node_count :: "SchedulerCache \<Rightarrow> nat" where
  "node_count c = length (nodes c)"

definition cycle_limit :: "Scheduler \<Rightarrow> nat" where
  "cycle_limit s = num_feasible_nodes_to_find (percentage s) (node_count (cache s))"

definition admit_pod :: "Profile \<Rightarrow> Pod \<Rightarrow> nat \<Rightarrow> Scheduler \<Rightarrow> Scheduler" where
  "admit_pod prof pod now s =
    (case find (\<lambda>pl. \<not> is_success (pl pod)) (pre_enqueues prof) of
       Some _ \<Rightarrow> s\<lparr>queue := add_unschedulable_if_not_present (QueuedPodInfo_new pod) (scheduling_cycle (queue s)) now (queue s)\<rparr>
     | None \<Rightarrow> s\<lparr>queue := pq_add pod (queue s)\<rparr>)"

definition sync_pod :: "Profile \<Rightarrow> Pod \<Rightarrow> Scheduler \<Rightarrow> Scheduler" where
  "sync_pod prof p s = (if is_assumed (cache s) (uid (pod_metadata p)) then s else admit_pod prof p 0 s)"

definition sync :: "Profile \<Rightarrow> SourceSinkError + Node list \<Rightarrow> SourceSinkError + Pod list \<Rightarrow> Scheduler \<Rightarrow>
    Scheduler \<times> (SourceSinkError + unit)" where
  "sync prof listed_nodes listed_pods s =
    (case listed_nodes of
       Inl e \<Rightarrow> (s, Inl e)
     | Inr ns \<Rightarrow>
        (let s = s\<lparr>cache := fold add_node ns (cache s)\<rparr> in
         case listed_pods of
           Inl e \<Rightarrow> (s, Inl e)
         | Inr ps \<Rightarrow> (fold (sync_pod prof) ps s, Inr ())))"

datatype CycleEvent = Scheduled string | FailedBinding BindFailure | Preempted string | NoNodes

text \<open>What the cycle records for the pod, and the caches and queue after it.\<close>

definition attempt :: "Env \<Rightarrow> Profile \<Rightarrow> Pod \<Rightarrow> Scheduler \<Rightarrow> SchedulerCache \<times> Call list \<times> CycleEvent" where
  "attempt env prof pod s =
    (let result = schedule_one_limited pod (cache s) (registry prof) (cycle_limit s) in
     case suggested_host result of
       Some host \<Rightarrow>
        (case run_binding_cycle env prof pod host (cache s) of
           (c, calls, Inr _) \<Rightarrow> (c, calls, Scheduled host)
         | (c, calls, Inl reason) \<Rightarrow> (c, calls, FailedBinding reason))
     | None \<Rightarrow>
        (case nominated_node result of
           Some nominee \<Rightarrow> (cache s, [], Preempted nominee)
         | None \<Rightarrow> (cache s, [], NoNodes)))"

definition is_scheduled :: "CycleEvent \<Rightarrow> bool" where
  "is_scheduled e = (case e of Scheduled _ \<Rightarrow> True | _ \<Rightarrow> False)"

definition run_once :: "Env \<Rightarrow> Profile \<Rightarrow> Scheduler \<Rightarrow> Scheduler \<times> (Pod \<times> CycleEvent) option" where
  "run_once env prof s =
    (case pq_pop (queue s) of
       (q, None) \<Rightarrow> (s\<lparr>queue := q\<rparr>, None)
     | (q, Some info) \<Rightarrow>
        (case attempt env prof (qp_pod info) (s\<lparr>queue := q\<rparr>) of (c, calls, ev) \<Rightarrow>
           (s\<lparr>cache := c, queue := (if is_scheduled ev then q else pq_add_unschedulable info q)\<rparr>,
            Some (qp_pod info, ev))))"

definition schedule_and_bind :: "Env \<Rightarrow> Profile \<Rightarrow> QueuedPodInfo \<Rightarrow> nat \<Rightarrow> Scheduler \<Rightarrow> Scheduler \<times> CycleEvent" where
  "schedule_and_bind env prof info now s =
    (let pod_cycle = scheduling_cycle (queue s) in
     case attempt env prof (qp_pod info) s of (c, calls, ev) \<Rightarrow>
       (s\<lparr>cache := c, queue := (if is_scheduled ev then queue s
            else add_unschedulable_if_not_present info pod_cycle now (queue s))\<rparr>, ev))"

datatype PodEvent = PodAdd Pod | PodUpdate Pod Pod | PodDelete Pod

datatype NodeEvent = NodeAdd Node | NodeUpdate Node Node | NodeDelete Node

definition observe_pod :: "Profile \<Rightarrow> Pod \<Rightarrow> nat \<Rightarrow> Scheduler \<Rightarrow> Scheduler" where
  "observe_pod prof p now s =
    (if node_name (pod_spec p) = [] then admit_pod prof p now s
     else s\<lparr>cache := fst (add_pod p (cache s))\<rparr>)"

fun handle_pod_event :: "Profile \<Rightarrow> PodEvent \<Rightarrow> nat \<Rightarrow> Scheduler \<Rightarrow> Scheduler" where
  "handle_pod_event prof (PodAdd p) now s = observe_pod prof p now s"
| "handle_pod_event prof (PodUpdate _ p) now s = observe_pod prof p now s"
| "handle_pod_event prof (PodDelete p) now s =
    s\<lparr>cache := fst (remove_pod p (cache s)),
      queue := move_all_to_active_or_backoff_queue \<lparr>resource = Gvk_Pod, action_type = ACTION_DELETE\<rparr> now (queue s)\<rparr>"

fun handle_node_event :: "NodeEvent \<Rightarrow> nat \<Rightarrow> Scheduler \<Rightarrow> Scheduler" where
  "handle_node_event (NodeAdd n) now s =
    s\<lparr>cache := add_node n (cache s),
      queue := move_all_to_active_or_backoff_queue \<lparr>resource = Gvk_Node, action_type = ACTION_ADD\<rparr> now (queue s)\<rparr>"
| "handle_node_event (NodeUpdate _ n) now s =
    s\<lparr>cache := update_node n (cache s),
      queue := move_all_to_active_or_backoff_queue \<lparr>resource = Gvk_Node,
        action_type = UPDATE_NODE_ALLOCATABLE OR UPDATE_NODE_TAINT OR UPDATE_NODE_LABEL\<rparr> now (queue s)\<rparr>"
| "handle_node_event (NodeDelete n) now s = s\<lparr>cache := remove_node (node_key n) (cache s)\<rparr>"


section \<open>The binding cycle is all or nothing\<close>

definition reserved_names :: "Call list \<Rightarrow> string list" where
  "reserved_names = List.map_filter (\<lambda>c. case c of Reserved n \<Rightarrow> Some n | _ \<Rightarrow> None)"

definition unreserved_names :: "Call list \<Rightarrow> string list" where
  "unreserved_names = List.map_filter (\<lambda>c. case c of Unreserved n \<Rightarrow> Some n | _ \<Rightarrow> None)"

definition bind_call :: "Call \<Rightarrow> bool" where
  "bind_call c = (case c of BindCalled _ \<Rightarrow> True | SinkCalled \<Rightarrow> True | PostBound _ \<Rightarrow> True | _ \<Rightarrow> False)"

lemma names_append [simp]:
  "reserved_names (xs @ ys) = reserved_names xs @ reserved_names ys"
  "unreserved_names (xs @ ys) = unreserved_names xs @ unreserved_names ys"
  by (simp_all add: reserved_names_def unreserved_names_def map_filter_def)

lemma names_calls [simp]:
  "reserved_names (map (\<lambda>pl. Reserved (rs_name pl)) pls) = map rs_name pls"
  "unreserved_names (map (\<lambda>pl. Reserved (rs_name pl)) pls) = []"
  "unreserved_names (map (\<lambda>pl. Unreserved (rs_name pl)) pls) = map rs_name pls"
  "reserved_names (map (\<lambda>pl. Unreserved (rs_name pl)) pls) = []"
  by (induction pls) (simp_all add: reserved_names_def unreserved_names_def map_filter_simps)

lemma names_binds: "\<forall>c \<in> set bs. bind_call c \<Longrightarrow> reserved_names bs = [] \<and> unreserved_names bs = []"
  by (induction bs) (auto simp: reserved_names_def unreserved_names_def map_filter_simps bind_call_def split: Call.splits)

lemma reserve_loop_calls:
  "reserve_loop pls pod host st k calls = (st', k', calls', r) \<Longrightarrow>
   k' - k \<le> length pls \<and> k \<le> k' \<and> calls' = calls @ map (\<lambda>pl. Reserved (rs_name pl)) (take (k' - k) pls)"
proof (induction pls arbitrary: st k calls)
  case Nil
  then show ?case by simp
next
  case (Cons pl pls)
  obtain st1 status where res: "reserve pl st pod host = (st1, status)"
    by fastforce
  show ?case
  proof (cases "is_success status")
    case True
    then have "reserve_loop pls pod host st1 (k + 1) (calls @ [Reserved (rs_name pl)]) = (st', k', calls', r)"
      using Cons.prems res by simp
    note ih = Cons.IH[OF this]
    then have "k' - k = Suc (k' - (k + 1))"
      by linarith
    then show ?thesis
      using ih by simp
  next
    case False
    then show ?thesis
      using Cons.prems res by auto
  qed
qed

lemma bind_loop_calls:
  "bind_loop pls pod host st calls = (st', calls', r) \<Longrightarrow> \<exists>bs. calls' = calls @ bs \<and> (\<forall>c \<in> set bs. bind_call c)"
proof (induction pls arbitrary: st calls)
  case (Cons pl pls)
  obtain st1 status where b: "bind_pod pl st pod host = (st1, status)"
    by fastforce
  show ?case
  proof (cases "code status = Skip")
    case True
    then have "bind_loop pls pod host st1 (calls @ [BindCalled (bd_name pl)]) = (st', calls', r)"
      using Cons.prems b by (simp add: Let_def)
    then obtain bs where "calls' = (calls @ [BindCalled (bd_name pl)]) @ bs" "\<forall>c \<in> set bs. bind_call c"
      using Cons.IH by blast
    then show ?thesis
      by (intro exI[of _ "BindCalled (bd_name pl) # bs"]) (simp add: bind_call_def)
  next
    case False
    then show ?thesis
      using Cons.prems b by (auto simp: Let_def bind_call_def split: if_splits)
  qed
qed simp

lemma post_bind_calls: "post_bind_all prof pod host st calls = calls @ map (\<lambda>pl. PostBound (po_name pl)) (post_binds prof)"
proof -
  have "snd (fold (\<lambda>pl (state, calls). (post_bind pl state pod host, calls @ [PostBound (po_name pl)])) pls (st, calls)) =
    calls @ map (\<lambda>pl. PostBound (po_name pl)) pls" for pls
    by (induction pls arbitrary: st calls) simp_all
  then show ?thesis
    by (simp add: post_bind_all_def)
qed

lemma unwind_calls:
  "unwind prof st pod host k calls c =
   (forget_pod (uid (pod_metadata pod)) c, calls @ map (\<lambda>pl. Unreserved (rs_name pl)) (rev (take k (reserves prof))))"
proof -
  have "snd (fold (\<lambda>pl (state, calls). (unreserve pl state pod host, calls @ [Unreserved (rs_name pl)])) pls (st, calls)) =
    calls @ map (\<lambda>pl. Unreserved (rs_name pl)) pls" for pls st
    by (induction pls arbitrary: st calls) simp_all
  then show ?thesis
    by (simp add: unwind_def Let_def case_prod_unfold)
qed

text \<open>The calls of a cycle that assumed the pod: reservations, binds, and on failure the releases.\<close>

definition cycle_result :: "Profile \<Rightarrow> Pod \<Rightarrow> SchedulerCache \<Rightarrow> SchedulerCache \<times> Call list \<times> (BindFailure + unit) \<Rightarrow> bool" where
  "cycle_result prof pod c1 res \<longleftrightarrow> (case res of (c', calls, r) \<Rightarrow>
     \<exists>k bs. (\<forall>c \<in> set bs. bind_call c) \<and>
       (case r of
          Inr _ \<Rightarrow> c' = c1 \<and> calls = map (\<lambda>pl. Reserved (rs_name pl)) (take k (reserves prof)) @ bs
        | Inl _ \<Rightarrow> c' = forget_pod (uid (pod_metadata pod)) c1 \<and>
            calls = map (\<lambda>pl. Reserved (rs_name pl)) (take k (reserves prof)) @ bs @
              map (\<lambda>pl. Unreserved (rs_name pl)) (rev (take k (reserves prof)))))"

lemma fail_cycle_result:
  assumes "calls = map (\<lambda>pl. Reserved (rs_name pl)) (take k (reserves prof)) @ bs" and "\<forall>c \<in> set bs. bind_call c"
  shows "cycle_result prof pod c1 (fail_cycle prof st pod host k calls c1 e)"
  using assms by (auto simp: cycle_result_def fail_cycle_def unwind_calls)

lemma finish_bind_result:
  assumes "calls = map (\<lambda>pl. Reserved (rs_name pl)) (take k (reserves prof))"
  shows "cycle_result prof pod c1 (finish_bind env prof pod host st k calls c1)"
proof -
  obtain st' calls' r where b: "bind_loop (binds prof) pod host st calls = (st', calls', r)"
    by (metis prod_cases3)
  then obtain bs where bs: "calls' = calls @ bs" "\<forall>c \<in> set bs. bind_call c"
    using bind_loop_calls by blast
  have more: "\<forall>c \<in> set (bs @ [SinkCalled]). bind_call c"
    using bs(2) by (simp add: bind_call_def)
  consider e where "r = Inl e" | "r = Inr True" | "r = Inr False"
    by (metis (full_types) sum.exhaust)
  then show ?thesis
  proof cases
    case 1
    then show ?thesis
      using b bs assms fail_cycle_result by (simp add: finish_bind_def)
  next
    case 2
    then show ?thesis
      using b bs assms
      by (auto simp: finish_bind_def cycle_result_def post_bind_calls bind_call_def
          intro!: exI[of _ k] exI[of _ "bs @ map (\<lambda>pl. PostBound (po_name pl)) (post_binds prof)"])
  next
    case 3
    then have fb: "finish_bind env prof pod host st k calls c1 =
      (case sink_bind env pod host of
         Inl e \<Rightarrow> fail_cycle prof st' pod host k (calls' @ [SinkCalled]) c1 (SinkFailed e)
       | Inr _ \<Rightarrow> (c1, post_bind_all prof pod host st' (calls' @ [SinkCalled]), Inr ()))"
      using b by (simp add: finish_bind_def)
    show ?thesis
    proof (cases "sink_bind env pod host")
      case (Inl e)
      then show ?thesis
        unfolding fb using bs(1) assms more by (simp add: fail_cycle_result[where bs = "bs @ [SinkCalled]"])
    next
      case (Inr x)
      then show ?thesis
        unfolding fb cycle_result_def using bs(1) assms more
        by (auto simp: post_bind_calls bind_call_def
            intro!: exI[of _ k] exI[of _ "bs @ SinkCalled # map (\<lambda>pl. PostBound (po_name pl)) (post_binds prof)"])
    qed
  qed
qed

lemma binding_cycle_result:
  assumes "assume_pod pod host c = (c1, Inr ())"
  shows "cycle_result prof pod c1 (run_binding_cycle env prof pod host c)"
proof -
  obtain st k calls r where l: "reserve_loop (reserves prof) pod host [] 0 [] = (st, k, calls, r)"
    by (metis prod_cases4)
  then have calls: "calls = map (\<lambda>pl. Reserved (rs_name pl)) (take k (reserves prof))"
    using reserve_loop_calls by fastforce
  then have fail: "cycle_result prof pod c1 (fail_cycle prof st' pod host k calls c1 e)" for st' e
    using fail_cycle_result[where bs = "[]"] by simp
  obtain st1 p where p: "permit_loop (permits prof) pod host st None = (st1, p)"
    by fastforce
  obtain st2 b where b: "pre_bind_loop (pre_binds prof) pod host st1 = (st2, b)"
    by fastforce
  show ?thesis
    unfolding run_binding_cycle_def assms
    using fail finish_bind_result[OF calls] by (simp add: l p b split: option.split sum.split)
qed


text \<open>Two node entries with the same content, up to the order of the used ports.\<close>

definition same_books :: "NodeInfo \<Rightarrow> NodeInfo \<Rightarrow> bool" where
  "same_books a b \<longleftrightarrow> ni_node a = ni_node b \<and> ni_pods a = ni_pods b \<and> (\<forall>r. requested a r = requested b r) \<and>
     mset (used_host_ports a) = mset (used_host_ports b)"

definition same_cache :: "SchedulerCache \<Rightarrow> SchedulerCache \<Rightarrow> bool" where
  "same_cache c c' \<longleftrightarrow> (\<forall>nm. rel_option same_books (node_info c nm) (node_info c' nm)) \<and>
     (\<forall>u. hm_get (assumed c) u = hm_get (assumed c') u)"

lemma same_books_refl: "same_books a a"
  by (simp add: same_books_def)

lemma same_cache_refl: "same_cache c c"
  by (auto simp: same_cache_def same_books_refl rel_option_iff split: option.split)

lemma add_remove_books:
  assumes "accounted ni" and "pod_ok p" and "\<forall>r. node_total ni r + pod_request p r \<le> i64_max"
    and "\<forall>q \<in> set (ni_pods ni). uid (pod_metadata q) \<noteq> uid (pod_metadata p)"
  shows "same_books ni (ni_remove_pod p (ni_add_pod p ni))"
proof -
  let ?ni = "ni_remove_pod p (ni_add_pod p ni)"
  have acc: "accounted ?ni"
    by (intro accounted_remove accounted_add assms(1,2,3))
  have pods: "ni_pods ?ni = ni_pods ni"
    using ni_remove_pod_pods[of "ni_pods ni" p "ni_add_pod p ni" p "[]"] assms(4) by simp
  then have "requested ?ni r = requested ni r" for r
    by (simp add: accounted_requested[OF acc] accounted_requested[OF assms(1)] node_total_def)
  moreover have "mset (used_host_ports ?ni) = mset (used_host_ports ni)"
    using acc assms(1) pods unfolding accounted_def by metis
  ultimately show ?thesis
    using pods by (simp add: same_books_def)
qed

text \<open>When a pod may be assumed on a node without disturbing its books.\<close>

definition assumable :: "Pod \<Rightarrow> string \<Rightarrow> SchedulerCache \<Rightarrow> bool" where
  "assumable p nm c \<longleftrightarrow> cache_ok accounted c \<and> pod_ok p \<and> headroom p nm c \<and>
     (\<forall>ni. node_info c nm = Some ni \<longrightarrow> (\<forall>q \<in> set (ni_pods ni). uid (pod_metadata q) \<noteq> uid (pod_metadata p)))"

lemma assume_pod_cases:
  obtains (failed) e where "assume_pod p nm c = (c, Inl e)"
  | (done') ni where "map_of (nodes c) nm = Some ni" "hm_get (assumed c) (uid (pod_metadata p)) = None"
      "assume_pod p nm c = (c\<lparr>nodes := bt_insert nm (ni_add_pod (placed_on p nm) ni) (nodes c),
            assumed := hm_insert (uid (pod_metadata p)) (placed_on p nm) (assumed c)\<rparr>, Inr ())"
proof (cases "hm_get (assumed c) (uid (pod_metadata p))")
  case None
  then show ?thesis
    using failed done' by (cases "map_of (nodes c) nm") (simp_all add: assume_pod_def Let_def)
next
  case (Some q)
  then show ?thesis
    using failed by (simp add: assume_pod_def Let_def)
qed

lemma forget_assumed:
  assumes "assumable p nm c" and "assume_pod p nm c = (c1, Inr ())"
  shows "same_cache c (forget_pod (uid (pod_metadata p)) c1)"
proof (rule assume_pod_cases[of p nm c])
  fix ni
  let ?p = "placed_on p nm" and ?u = "uid (pod_metadata p)"
  assume ni: "map_of (nodes c) nm = Some ni" and fresh: "hm_get (assumed c) ?u = None"
    and a: "assume_pod p nm c = (c\<lparr>nodes := bt_insert nm (ni_add_pod ?p ni) (nodes c), assumed := hm_insert ?u ?p (assumed c)\<rparr>, Inr ())"
  let ?c' = "c\<lparr>nodes := bt_insert nm (ni_remove_pod ?p (ni_add_pod ?p ni)) (bt_insert nm (ni_add_pod ?p ni) (nodes c)),
      assumed := hm_remove ?u (hm_insert ?u ?p (assumed c))\<rparr>"
  have f: "forget_pod ?u c1 = ?c'"
    using assms(2) a by (auto simp: forget_pod_def Let_def bt.get_insert)
  have "same_books ni (ni_remove_pod ?p (ni_add_pod ?p ni))"
    using assms(1) ni cache_okD[of accounted c nm ni]
    by (intro add_remove_books) (auto simp: assumable_def headroom_def node_info_def)
  then show ?thesis
    unfolding f same_cache_def using ni fresh
    by (auto simp: node_info_def bt.get_insert rel_option_iff same_books_refl split: option.split)
qed (use assms(2) in simp)

text \<open>
  C39. The binding cycle (\<open>run_binding_cycle\<close>) is all or nothing, for a pod whose requests are not negative, on a
  cache whose totals are the sums over its pods, with room in \<open>i64\<close> for the pod on the host, and with
  the cache left alone by the informers while the cycle awaits. If any stage refuses, whichever it is,
  exactly the reserve plugins that ran are unreserved, in reverse order, the totals are still the sums over the
  pods, and, provided that the host held no pod with the same uid before, the cache has for every node the same
  pods, totals and host ports as before and the same assumed pods. (With such a pod on the host, the
  rollback takes that pod out and leaves the assumed copy.) If no stage refuses, the pod is assumed on the host,
  the cache is the one after the assumption and nothing is unreserved.
\<close>
theorem binding_cycle_atomic:
  assumes "cache_ok accounted c" and "pod_ok pod" and "headroom pod host c"
    and "run_binding_cycle env prof pod host c = (c', calls, r)"
  shows "case r of
     Inl e \<Rightarrow> unreserved_names calls = rev (reserved_names calls) \<and> cache_ok accounted c' \<and>
       ((\<forall>ni. node_info c host = Some ni \<longrightarrow> uid (pod_metadata pod) \<notin> (uid \<circ> pod_metadata) ` set (ni_pods ni)) \<longrightarrow> same_cache c c')
   | Inr _ \<Rightarrow> assume_pod pod host c = (c', Inr ()) \<and> is_assumed c' (uid (pod_metadata pod)) \<and> unreserved_names calls = []"
proof (rule assume_pod_cases[of pod host c])
  fix e
  assume "assume_pod pod host c = (c, Inl e)"
  then show ?thesis
    using assms(1,4) by (auto simp: run_binding_cycle_def same_cache_refl unreserved_names_def reserved_names_def map_filter_simps)
next
  fix ni
  let ?c1 = "c\<lparr>nodes := bt_insert host (ni_add_pod (placed_on pod host) ni) (nodes c),
      assumed := hm_insert (uid (pod_metadata pod)) (placed_on pod host) (assumed c)\<rparr>"
  assume a: "assume_pod pod host c = (?c1, Inr ())"
  have "cache_ok accounted (fst (assume_pod pod host c))"
    by (rule cache_step_accounted[OF cache_step.assume_pod[OF assms(2,3)] assms(1)])
  then have acc: "cache_ok accounted (forget_pod (uid (pod_metadata pod)) ?c1)"
    unfolding a by (simp only: fst_conv) (rule books.forget_pod_keeps)
  have same: "same_cache c (forget_pod (uid (pod_metadata pod)) ?c1)"
    if "\<forall>ni. node_info c host = Some ni \<longrightarrow> uid (pod_metadata pod) \<notin> (uid \<circ> pod_metadata) ` set (ni_pods ni)"
    using that assms(1-3) by (intro forget_assumed[OF _ a]) (simp add: assumable_def image_iff, metis)
  obtain k bs where "\<forall>x \<in> set bs. bind_call x" and
    "case r of
          Inr _ \<Rightarrow> c' = ?c1 \<and> calls = map (\<lambda>pl. Reserved (rs_name pl)) (take k (reserves prof)) @ bs
        | Inl _ \<Rightarrow> c' = forget_pod (uid (pod_metadata pod)) ?c1 \<and>
            calls = map (\<lambda>pl. Reserved (rs_name pl)) (take k (reserves prof)) @ bs @
              map (\<lambda>pl. Unreserved (rs_name pl)) (rev (take k (reserves prof)))"
    using binding_cycle_result[OF a, of prof env] unfolding assms(4) cycle_result_def by auto
  then show ?thesis
    using same acc names_binds[of bs] a
    by (cases r) (auto simp: rev_map is_assumed_def)
qed


definition demo_env :: Env where
  "demo_env = \<lparr>sink_bind = (\<lambda>_ _. Inl (Apiserver ''down'')), await_gate = (\<lambda>_ _. TimedOut)\<rparr>"

definition demo_profile :: Profile where
  "demo_profile = default_profile\<lparr>reserves := map (\<lambda>nm. \<lparr>rs_name = nm, reserve = (\<lambda>s _ _. (s, status_success)),
     unreserve = (\<lambda>s _ _. s)\<rparr>) [''volumes'', ''quota'']\<rparr>"

lemma demo_accounted: "cache_ok accounted demo_cache"
  unfolding demo_cache_def by (rule accounted_add_node[OF cache_ok_new])

lemma demo_empty: "node_info demo_cache ''n1'' = Some ni \<Longrightarrow> ni_pods ni = []"
  by (auto simp: node_info_def demo_cache_def add_node_def SchedulerCache_new_def bt.get_insert set_node_def
      NodeInfo_new_def Let_def split: if_splits)

theorem binding_cycle_atomic_witness:
  "\<exists>c' calls. run_binding_cycle demo_env demo_profile demo_pod ''n1'' demo_cache = (c', calls, Inl (SinkFailed (Apiserver ''down''))) \<and>
     same_cache demo_cache c' \<and> reserved_names calls = [''volumes'', ''quota''] \<and> unreserved_names calls = [''quota'', ''volumes'']"
proof -
  obtain c' calls r where run: "run_binding_cycle demo_env demo_profile demo_pod ''n1'' demo_cache = (c', calls, r)"
    by (metis prod_cases3)
  have "(case run_binding_cycle demo_env demo_profile demo_pod ''n1'' demo_cache of (c', calls, r) \<Rightarrow>
      (reserved_names calls, map_sum (\<lambda>e. e = SinkFailed (Apiserver ''down'')) (\<lambda>_. ()) r)) = ([''volumes'', ''quota''], Inl True)"
    by code_simp
  then have "reserved_names calls = [''volumes'', ''quota'']" "r = Inl (SinkFailed (Apiserver ''down''))"
    using run by (cases r; simp)+
  then show ?thesis
    using binding_cycle_atomic[OF demo_accounted demo_pod_ok demo_headroom run] demo_empty run by fastforce
qed

text \<open>
  The rollback with an observed pod of the same uid on the host: it is the observed pod that goes, and the assumed copy
  stays, with its requests, although the binding failed.
\<close>

definition observed_pod :: Pod where
  "observed_pod = demo_pod\<lparr>pod_spec := (pod_spec demo_pod)\<lparr>node_name := ''n1'', containers := []\<rparr>\<rparr>"

lemma rollback_takes_observed:
  "let c = fst (add_pod observed_pod demo_cache); (c', calls, r) = run_binding_cycle demo_env demo_profile demo_pod ''n1'' c
   in map_sum (\<lambda>_. ()) (\<lambda>_. ()) r = Inl ()
    \<and> map_option (\<lambda>ni. (map (length \<circ> containers \<circ> pod_spec) (ni_pods ni), requested ni Cpu)) (node_info c ''n1'') = Some ([0], 0)
    \<and> map_option (\<lambda>ni. (map (length \<circ> containers \<circ> pod_spec) (ni_pods ni), requested ni Cpu)) (node_info c' ''n1'') = Some ([1], 300)"
  by code_simp

section \<open>The polling cycle\<close>

lemma run_once_cases:
  obtains (idle) q where "pq_pop (queue s) = (q, None)" "run_once env prof s = (s\<lparr>queue := q\<rparr>, None)"
  | (cycle) q info c calls ev where "pq_pop (queue s) = (q, Some info)"
      "attempt env prof (qp_pod info) (s\<lparr>queue := q\<rparr>) = (c, calls, ev)"
      "run_once env prof s = (s\<lparr>cache := c, queue := (if is_scheduled ev then q else pq_add_unschedulable info q)\<rparr>,
        Some (qp_pod info, ev))"
proof (cases "pq_pop (queue s)")
  case (Pair q i)
  show ?thesis
  proof (cases i)
    case None
    then show ?thesis
      using idle Pair by (simp add: run_once_def)
  next
    case (Some info)
    obtain c calls ev where "attempt env prof (qp_pod info) (s\<lparr>queue := q\<rparr>) = (c, calls, ev)"
      by (metis prod_cases3)
    then show ?thesis
      using cycle Pair Some by (simp add: run_once_def)
  qed
qed

lemma pop_shrinks: "pq_pop q = (q', Some i) \<Longrightarrow> length (active q) = Suc (length (active q'))"
  and pop_empty: "pq_pop q = (q', None) \<Longrightarrow> active q' = []"
  by (cases "active q" rule: heap_pop_cases[where before = "pq_sort q"];
      auto simp: pq_pop_def Let_def length_remove1 dest: length_pos_if_in_set)+

lemma pop_none: "pq_pop q = (q', None) \<Longrightarrow> active q = []"
  by (cases "active q" rule: heap_pop_cases[where before = "pq_sort q"]) (auto simp: pq_pop_def Let_def)

lemma run_once_shrinks:
  "run_once env prof s = (s', Some out) \<Longrightarrow> length (active (queue s)) = Suc (length (active (queue s')))"
  by (rule run_once_cases[of s env prof]) (auto simp: pq_add_unschedulable_def dest: pop_shrinks)

function drain_active :: "Env \<Rightarrow> Profile \<Rightarrow> Scheduler \<Rightarrow> Scheduler \<times> (Pod \<times> CycleEvent) list" where
  "drain_active env prof s = (case run_once env prof s of
     (s', None) \<Rightarrow> (s', [])
   | (s', Some out) \<Rightarrow> (case drain_active env prof s' of (s'', outs) \<Rightarrow> (s'', out # outs)))"
  by pat_completeness auto
termination
  by (relation "measure (\<lambda>(_, _, s). length (active (queue s)))") (auto dest: run_once_shrinks[OF sym])

declare drain_active.simps [simp del]

lemma attempt_scheduled:
  assumes "attempt env prof pod s = (c, calls, Scheduled host)"
  shows "\<exists>calls. run_binding_cycle env prof pod host (cache s) = (c, calls, Inr ())"
  using assms by (auto simp: attempt_def Let_def split: option.splits prod.splits sum.splits)

lemma binding_success_assumed:
  assumes "run_binding_cycle env prof pod host c = (c', calls, Inr ())"
  shows "assume_pod pod host c = (c', Inr ()) \<and> is_assumed c' (uid (pod_metadata pod))"
proof (rule assume_pod_cases[of pod host c])
  fix e
  assume "assume_pod pod host c = (c, Inl e)"
  then show ?thesis
    using assms by (simp add: run_binding_cycle_def)
next
  fix ni
  let ?c1 = "c\<lparr>nodes := bt_insert host (ni_add_pod (placed_on pod host) ni) (nodes c),
      assumed := hm_insert (uid (pod_metadata pod)) (placed_on pod host) (assumed c)\<rparr>"
  assume a: "assume_pod pod host c = (?c1, Inr ())"
  then have "c' = ?c1"
    using binding_cycle_result[OF a, of prof env] assms by (auto simp: cycle_result_def)
  then show ?thesis
    using a by (simp add: is_assumed_def)
qed

text \<open>
  A polling cycle drops no pod. \<open>run_once\<close> returns nothing exactly when no pod is active; otherwise
  it takes one pod out of the queue, and that pod is either assumed in the cache, and reported as
  scheduled, or back in the queue with one attempt more. All other pods stay queued.
\<close>
theorem run_once_drops_none:
  "case run_once env prof s of
     (s', None) \<Rightarrow> active (queue s) = [] \<and> queued (queue s') = queued (queue s) \<and> cache s' = cache s
   | (s', Some (p, ev)) \<Rightarrow> \<exists>info rest. p = qp_pod info \<and> queued (queue s) = add_mset info rest \<and>
       (if is_scheduled ev then queued (queue s') = rest \<and> is_assumed (cache s') (uid (pod_metadata p))
        else queued (queue s') = add_mset (next_attempt info) rest)"
proof (rule run_once_cases[of s env prof])
  fix q
  assume pop: "pq_pop (queue s) = (q, None)" and run: "run_once env prof s = (s\<lparr>queue := q\<rparr>, None)"
  have "active (queue s) = []"
    by (rule pop_none[OF pop])
  then show ?thesis
    using run queued_pop[of "queue s"] pop by simp
next
  fix q info c calls ev
  assume pop: "pq_pop (queue s) = (q, Some info)"
    and att: "attempt env prof (qp_pod info) (s\<lparr>queue := q\<rparr>) = (c, calls, ev)"
    and run: "run_once env prof s = (s\<lparr>cache := c, queue := (if is_scheduled ev then q else pq_add_unschedulable info q)\<rparr>,
        Some (qp_pod info, ev))"
  have rest: "queued (queue s) = add_mset info (queued q)"
    using queued_pop[of "queue s"] pop by simp
  have "is_assumed c (uid (pod_metadata (qp_pod info)))" if sch: "is_scheduled ev"
  proof -
    obtain host where "ev = Scheduled host"
      using sch by (auto simp: is_scheduled_def split: CycleEvent.splits)
    then show ?thesis
      using att attempt_scheduled binding_success_assumed by blast
  qed
  moreover have "queued (pq_add_unschedulable info q) = add_mset (next_attempt info) (queued q)"
    by (simp add: queued_def pq_add_unschedulable_def)
  ultimately show ?thesis
    using run rest by auto
qed


section \<open>Draining the active queue\<close>

lemma attempt_within:
  assumes "registry prof = default_registry" and "cache_ok within (cache s)" and "pod_ok pod"
  shows "cache_ok within (fst (attempt env prof pod s))"
proof (cases "suggested_host (schedule_one_limited pod (cache s) (registry prof) (cycle_limit s))")
  case None
  then show ?thesis
    using assms(2) by (simp add: attempt_def Let_def split: option.split)
next
  case (Some host)
  let ?c = "cache s"
  have placed: "cache_ok within (fst (assume_pod pod host ?c))"
    using place_within[OF assms(3) _ assms(2)] assms(3) Some unfolding assms(1) by blast
  obtain c' calls r where run: "run_binding_cycle env prof pod host ?c = (c', calls, r)"
    by (metis prod_cases3)
  have "cache_ok within c'"
  proof (rule assume_pod_cases[of pod host ?c])
    fix e
    assume "assume_pod pod host ?c = (?c, Inl e)"
    then show ?thesis
      using run assms(2) by (simp add: run_binding_cycle_def)
  next
    fix ni
    let ?c1 = "?c\<lparr>nodes := bt_insert host (ni_add_pod (placed_on pod host) ni) (nodes ?c),
      assumed := hm_insert (uid (pod_metadata pod)) (placed_on pod host) (assumed ?c)\<rparr>"
    assume a: "assume_pod pod host ?c = (?c1, Inr ())"
    have "c' = ?c1 \<or> c' = forget_pod (uid (pod_metadata pod)) ?c1"
      using binding_cycle_result[OF a, of prof env] unfolding run cycle_result_def by (cases r) auto
    then show ?thesis
      using placed unfolding a by (auto intro: capacity.forget_pod_keeps)
  qed
  then show ?thesis
    using Some run by (simp add: attempt_def Let_def split: sum.split)
qed

definition queued_pods_ok :: "PriorityQueue \<Rightarrow> bool" where
  "queued_pods_ok q \<longleftrightarrow> (\<forall>i \<in># queued q. pod_ok (qp_pod i))"

lemma run_once_within:
  assumes "registry prof = default_registry" and "cache_ok within (cache s)" and "queued_pods_ok (queue s)"
  shows "cache_ok within (cache (fst (run_once env prof s))) \<and> queued_pods_ok (queue (fst (run_once env prof s)))"
proof (rule run_once_cases[of s env prof])
  fix q
  assume pop: "pq_pop (queue s) = (q, None)" and run: "run_once env prof s = (s\<lparr>queue := q\<rparr>, None)"
  then show ?thesis
    using assms(2,3) queued_pop[of "queue s"] by (simp add: queued_pods_ok_def)
next
  fix q info c calls ev
  assume pop: "pq_pop (queue s) = (q, Some info)"
    and att: "attempt env prof (qp_pod info) (s\<lparr>queue := q\<rparr>) = (c, calls, ev)"
    and run: "run_once env prof s = (s\<lparr>cache := c, queue := (if is_scheduled ev then q else pq_add_unschedulable info q)\<rparr>,
        Some (qp_pod info, ev))"
  have rest: "queued (queue s) = add_mset info (queued q)"
    using queued_pop[of "queue s"] pop by simp
  then have "pod_ok (qp_pod info)" "queued_pods_ok q"
    using assms(3) by (simp_all add: queued_pods_ok_def)
  moreover have "queued (pq_add_unschedulable info q) = add_mset (next_attempt info) (queued q)"
    by (simp add: queued_def pq_add_unschedulable_def)
  moreover have "cache_ok within c"
    using attempt_within[OF assms(1), of "s\<lparr>queue := q\<rparr>" "qp_pod info" env] assms(2) calculation(1) att by simp
  ultimately show ?thesis
    using run by (simp add: queued_pods_ok_def next_attempt_def)
qed

text \<open>
  \<open>drain_active\<close> ends. It runs one cycle for each pod that was active, leaves no pod active, and with
  the default plugins, whatever the API server and the reserve, permit and bind plugins answer, every node
  of the cache is still within its capacity.
\<close>
theorem drain_active_ends:
  assumes "registry prof = default_registry" and "cache_ok within (cache s)" and "queued_pods_ok (queue s)"
  shows "active (queue (fst (drain_active env prof s))) = [] \<and>
    length (snd (drain_active env prof s)) = length (active (queue s)) \<and>
    cache_ok within (cache (fst (drain_active env prof s)))"
  using assms
proof (induction env prof s rule: drain_active.induct)
  case (1 env prof s)
  obtain s' out where run: "run_once env prof s = (s', out)"
    by fastforce
  have keep: "cache_ok within (cache s')" "queued_pods_ok (queue s')"
    using run_once_within[OF 1(2-4), of env] run by simp_all
  show ?case
  proof (cases out)
    case None
    then have "active (queue s') = [] \<and> active (queue s) = []"
      using run pop_empty[of "queue s"] pop_none[of "queue s"] by (rule_tac run_once_cases[of s env prof]) auto
    then show ?thesis
      using None run keep by (simp add: drain_active.simps[of env prof s])
  next
    case (Some o')
    then have "active (queue (fst (drain_active env prof s'))) = [] \<and>
        length (snd (drain_active env prof s')) = length (active (queue s')) \<and>
        cache_ok within (cache (fst (drain_active env prof s')))"
      using 1(1)[of s' out o'] run 1(2) keep by simp
    then show ?thesis
      using Some run run_once_shrinks[of env prof s s' o']
      by (cases "drain_active env prof s'") (simp add: drain_active.simps[of env prof s])
  qed
qed

definition demo_scheduler :: Scheduler where
  "demo_scheduler = \<lparr>cache = demo_cache, queue = pq_add demo_pod PriorityQueue_new, percentage = None\<rparr>"

theorem drain_active_ends_witness:
  "active (queue (fst (drain_active demo_env default_profile demo_scheduler))) = [] \<and>
   length (snd (drain_active demo_env default_profile demo_scheduler)) = 1"
proof -
  have "cache_ok within demo_cache"
    by (rule demo_within)
  moreover have "queued_pods_ok (queue demo_scheduler)"
    using demo_pod_ok by (simp add: queued_pods_ok_def demo_scheduler_def pq_add_def QueuedPodInfo_new_def)
      (simp add: queued_def PriorityQueue_new_def with_queue_sort_def)
  ultimately show ?thesis
    using drain_active_ends[of default_profile demo_scheduler demo_env]
    by (simp add: demo_scheduler_def default_profile_def pq_add_def push_active_def PriorityQueue_new_def with_queue_sort_def)
qed


section \<open>What the informers let through\<close>

lemma sync_pods_queued:
  assumes "pre_enqueues prof = []" and "\<forall>p \<in> set ps. \<not> is_assumed (cache s) (uid (pod_metadata p))"
  shows "queued (queue (fold (sync_pod prof) ps s)) = mset (map QueuedPodInfo_new ps) + queued (queue s) \<and>
    cache (fold (sync_pod prof) ps s) = cache s"
  using assms(2)
proof (induction ps arbitrary: s)
  case Nil
  then show ?case by simp
next
  case (Cons p ps)
  have "sync_pod prof p s = s\<lparr>queue := pq_add p (queue s)\<rparr>"
    using Cons.prems assms(1) by (simp add: sync_pod_def admit_pod_def)
  then show ?case
    using Cons.IH[of "s\<lparr>queue := pq_add p (queue s)\<rparr>"] Cons.prems by (simp add: pq_add_def)
qed

lemma add_node_assumed [simp]: "assumed (add_node n c) = assumed c"
  by (simp add: add_node_def Let_def)

lemma fold_add_node_assumed [simp]: "assumed (fold add_node ns c) = assumed c"
  by (induction ns arbitrary: c) simp_all

text \<open>
  \<open>sync\<close> is not idempotent. It skips the pods that are assumed, not those that are queued: polling
  twice while none of the pending pods has been scheduled queues every one of them twice.
\<close>
theorem sync_twice_queues_twice:
  assumes "pre_enqueues prof = []" and "\<forall>p \<in> set ps. \<not> is_assumed (cache s) (uid (pod_metadata p))"
  shows "\<exists>s1 s2. sync prof (Inr ns) (Inr ps) s = (s1, Inr ()) \<and> sync prof (Inr ns) (Inr ps) s1 = (s2, Inr ()) \<and>
    queued (queue s2) = mset (map QueuedPodInfo_new ps) + mset (map QueuedPodInfo_new ps) + queued (queue s)"
proof -
  let ?s0 = "s\<lparr>cache := fold add_node ns (cache s)\<rparr>"
  let ?s1 = "fold (sync_pod prof) ps ?s0"
  have "\<forall>p \<in> set ps. \<not> is_assumed (cache ?s0) (uid (pod_metadata p))"
    using assms(2) by (simp add: is_assumed_def)
  then have s1: "queued (queue ?s1) = mset (map QueuedPodInfo_new ps) + queued (queue s)" "cache ?s1 = cache ?s0"
    using sync_pods_queued[OF assms(1), of ps ?s0] by simp_all
  let ?t0 = "?s1\<lparr>cache := fold add_node ns (cache ?s1)\<rparr>"
  have "\<forall>p \<in> set ps. \<not> is_assumed (cache ?t0) (uid (pod_metadata p))"
    using assms(2) s1(2) by (simp add: is_assumed_def)
  then have "queued (queue (fold (sync_pod prof) ps ?t0)) = mset (map QueuedPodInfo_new ps) + queued (queue ?s1)"
    using sync_pods_queued[OF assms(1), of ps ?t0] by simp
  then show ?thesis
    using s1(1) by (intro exI[of _ ?s1] exI[of _ "fold (sync_pod prof) ps ?t0"]) (simp add: sync_def Let_def)
qed

theorem sync_twice_queues_twice_witness:
  "\<exists>s1 s2. sync default_profile (Inr [demo_node]) (Inr [demo_pod]) (demo_scheduler\<lparr>queue := PriorityQueue_new\<rparr>) = (s1, Inr ()) \<and>
     sync default_profile (Inr [demo_node]) (Inr [demo_pod]) s1 = (s2, Inr ()) \<and>
     queued (queue s2) = {#QueuedPodInfo_new demo_pod, QueuedPodInfo_new demo_pod#}"
  using sync_twice_queues_twice[of default_profile "[demo_pod]" "demo_scheduler\<lparr>queue := PriorityQueue_new\<rparr>" "[demo_node]"]
  by (simp add: default_profile_def is_assumed_def demo_scheduler_def demo_cache_def SchedulerCache_new_def)
     (simp add: queued_def PriorityQueue_new_def with_queue_sort_def)

text \<open>
  Deleting a pending pod does not take it out of the queue. The handler of a pod deletion changes no
  queued pod: a pod that has no node yet stays queued, and the cache is unchanged, so a later cycle
  schedules and binds a pod that no longer exists.
\<close>
theorem deleted_pod_stays_queued:
  assumes "hm_ok (unsched (queue s))" and "node_name (pod_spec p) = []"
  shows "queued (queue (handle_pod_event prof (PodDelete p) now s)) = queued (queue s) \<and>
    cache (handle_pod_event prof (PodDelete p) now s) = cache s"
  using assms queued_move_all(1)[OF assms(1)] by (simp add: remove_pod_def)

theorem deleted_pod_stays_queued_witness:
  "queued (queue (handle_pod_event default_profile (PodDelete demo_pod) 5 demo_scheduler)) = {#QueuedPodInfo_new demo_pod#} \<and>
   cache (handle_pod_event default_profile (PodDelete demo_pod) 5 demo_scheduler) = cache demo_scheduler"
proof -
  have "queued (queue demo_scheduler) = {#QueuedPodInfo_new demo_pod#}"
    by (simp add: demo_scheduler_def pq_add_def) (simp add: queued_def PriorityQueue_new_def with_queue_sort_def)
  moreover have "hm_ok (unsched (queue demo_scheduler))" "node_name (pod_spec demo_pod) = []"
    by (simp_all add: demo_scheduler_def pq_add_def PriorityQueue_new_def with_queue_sort_def demo_pod_def)
  ultimately show ?thesis
    using deleted_pod_stays_queued[of demo_scheduler demo_pod default_profile 5] by simp
qed

end
