(* ===== verification/Home_State.thy ===== *)
theory Home_State
  imports Cave_Prelude "HOL-Library.Char_ord"
begin

text \<open>
  The entity state machine of the automation core (\<open>cave-home-automation\<close>: \<open>context.rs\<close>, \<open>error.rs\<close>,
  \<open>state.rs\<close>): entity identifiers, states, the table of states with its index by domain, reservations,
  and the events that a change fires. A string is the list of its bytes. A time is its number of
  nanoseconds since the epoch; the reads of the clock within one operation give the same one. JSON values
  are the values of \<open>serde_json\<close>, an object being its entries in the order of the keys and a float the bits
  of its value, with one zero. How a time prints and parses belongs to other crates and is part of the
  environment \<open>Env\<close>; a freshly generated context is an argument. Operations return the new machine with
  the events they fire.
\<close>

section \<open>Strings\<close>

definition to_ascii_lowercase :: "string \<Rightarrow> string" where
  "to_ascii_lowercase s = map (\<lambda>c. let n = of_char c :: nat in
     if 65 \<le> n \<and> n \<le> 90 then char_of (n + 32) else c) s"

fun split_once :: "char \<Rightarrow> string \<Rightarrow> (string \<times> string) option" where
  "split_once d [] = None"
| "split_once d (c # cs) =
    (if c = d then Some ([], cs) else map_option (\<lambda>(a, b). (c # a, b)) (split_once d cs))"

definition id_char :: "char \<Rightarrow> bool" where
  "id_char c = (let n = of_char c :: nat in 97 \<le> n \<and> n \<le> 122 \<or> 48 \<le> n \<and> n \<le> 57 \<or> n = 95)"

section \<open>JSON values\<close>

datatype Number = PosInt nat | NegInt int | Float u64

datatype Value = JNull | JBool bool | JNumber Number | JString string | JArray "Value list"
  | JObject "(string \<times> Value) list"

fun json_get :: "string \<Rightarrow> Value \<Rightarrow> Value option" where
  "json_get k (JObject m) = map_of m k"
| "json_get k _ = None"

fun json_str :: "Value \<Rightarrow> string option" where
  "json_str (JString s) = Some s"
| "json_str _ = None"

section \<open>Errors and contexts\<close>

datatype HassError =
    InvalidEntityFormat string
  | InvalidState string
  | ServiceNotFound string string
  | ServiceValidationError string
  | TemplateError string
  | ConditionError string
  | ConfigInvalid string
  | UnknownConfigEntry string
  | Json string
  | Other string

record Context =
  ctx_id :: string
  user_id :: "string option"
  parent_id :: "string option"

definition Context_with_id :: "string \<Rightarrow> Context" where
  "Context_with_id i = \<lparr>ctx_id = i, user_id = None, parent_id = None\<rparr>"

definition Context_with_links :: "string \<Rightarrow> string option \<Rightarrow> string option \<Rightarrow> Context" where
  "Context_with_links i u p = \<lparr>ctx_id = i, user_id = u, parent_id = p\<rparr>"

text \<open>Equality of contexts is equality of their identifiers.\<close>

definition Context_eq :: "Context \<Rightarrow> Context \<Rightarrow> bool" where
  "Context_eq a b = (ctx_id a = ctx_id b)"

text \<open>What the core takes from other crates: how a time is written.\<close>

record Env =
  ts_json :: "int \<Rightarrow> Value"
  format_iso8601 :: "int \<Rightarrow> string option"
  parse_iso8601 :: "string \<Rightarrow> int option"

definition Context_json :: "Context \<Rightarrow> Value" where
  "Context_json c = JObject ([(''id'', JString (ctx_id c))]
     @ (case parent_id c of None \<Rightarrow> [] | Some p \<Rightarrow> [(''parent_id'', JString p)])
     @ (case user_id c of None \<Rightarrow> [] | Some u \<Rightarrow> [(''user_id'', JString u)]))"

section \<open>Entity identifiers and states\<close>

definition MAX_LENGTH_STATE_STATE :: nat where "MAX_LENGTH_STATE_STATE = 255"
definition STATE_UNKNOWN :: string where "STATE_UNKNOWN = ''unknown''"
definition STATE_UNAVAILABLE :: string where "STATE_UNAVAILABLE = ''unavailable''"

definition split_entity_id :: "string \<Rightarrow> HassError + (string \<times> string)" where
  "split_entity_id eid = (case split_once (CHR ''.'') eid of
     None \<Rightarrow> Inl (InvalidEntityFormat eid)
   | Some (d, obj) \<Rightarrow> if d = [] \<or> obj = [] then Inl (InvalidEntityFormat eid) else Inr (d, obj))"

definition valid_domain :: "string \<Rightarrow> bool" where
  "valid_domain d = (d \<noteq> [] \<and> list_all id_char d)"

definition valid_entity_id :: "string \<Rightarrow> bool" where
  "valid_entity_id eid = (case split_once (CHR ''.'') eid of
     None \<Rightarrow> False
   | Some (d, obj) \<Rightarrow> if \<not> valid_domain d then False else obj \<noteq> [] \<and> list_all id_char obj)"

definition validate_state :: "string \<Rightarrow> HassError + string" where
  "validate_state s = (if length s > MAX_LENGTH_STATE_STATE 
     then Inl (InvalidState ''state value longer than 255 chars'') else Inr s)"

type_synonym Attributes = "(string, Value) btreemap"

record State =
  entity_id :: string
  st_domain :: string
  object_id :: string
  st_state :: string
  attributes :: Attributes
  last_changed :: int
  last_reported :: int
  last_updated :: int
  st_context :: Context

definition State_new :: "string \<Rightarrow> string \<Rightarrow> Attributes \<Rightarrow> Context option \<Rightarrow> Context \<Rightarrow> int \<Rightarrow> HassError + State" where
  "State_new eid s attrs ctx fresh now =
    (if \<not> valid_entity_id eid then Inl (InvalidEntityFormat eid)
     else case split_entity_id eid of
       Inl e \<Rightarrow> Inl e
     | Inr (d, obj) \<Rightarrow>
        (case validate_state s of
           Inl e \<Rightarrow> Inl e
         | Inr _ \<Rightarrow> Inr \<lparr>entity_id = eid, st_domain = d, object_id = obj, st_state = s, attributes = attrs,
             last_changed = now, last_reported = now, last_updated = now,
             st_context = (case ctx of Some c \<Rightarrow> c | None \<Rightarrow> fresh)\<rparr>))"

definition State_name :: "State \<Rightarrow> string" where
  "State_name s = (case map_of (attributes s) ''friendly_name'' of
     Some (JString nm) \<Rightarrow> nm
   | _ \<Rightarrow> map (\<lambda>c. if c = CHR ''_'' then CHR '' '' else c) (object_id s))"

text \<open>\<open>expire\<close> rebuilds the context with the same identifier and links.\<close>

definition expire :: "State \<Rightarrow> State" where
  "expire s = s\<lparr>st_context := \<lparr>ctx_id = ctx_id (st_context s), user_id = user_id (st_context s),
     parent_id = parent_id (st_context s)\<rparr>\<rparr>"

definition State_json :: "Env \<Rightarrow> State \<Rightarrow> Value" where
  "State_json env s = JObject [
     (''attributes'', JObject (attributes s)),
     (''context'', Context_json (st_context s)),
     (''domain'', JString (st_domain s)),
     (''entity_id'', JString (entity_id s)),
     (''last_changed'', ts_json env (last_changed s)),
     (''last_reported'', ts_json env (last_reported s)),
     (''last_updated'', ts_json env (last_updated s)),
     (''object_id'', JString (object_id s)),
     (''state'', JString (st_state s))]"

section \<open>The dictionary of a state\<close>

definition unix_timestamp :: "int \<Rightarrow> int" where
  "unix_timestamp t = t div 1000000000"

definition show_int :: "int \<Rightarrow> string" where
  "show_int i = (if i < 0 then CHR ''-'' # show_nat (nat (- i)) else show_nat (nat i))"

definition iso8601 :: "Env \<Rightarrow> int \<Rightarrow> string" where
  "iso8601 env t = (case format_iso8601 env t of Some s \<Rightarrow> s | None \<Rightarrow> show_int (unix_timestamp t))"

definition State_as_dict :: "Env \<Rightarrow> State \<Rightarrow> (string \<times> Value) list" where
  "State_as_dict env s = [
     (''attributes'', JObject (attributes s)),
     (''context'', Context_json (st_context s)),
     (''entity_id'', JString (entity_id s)),
     (''last_changed'', JString (iso8601 env (last_changed s))),
     (''last_reported'', JString (iso8601 env (last_reported s))),
     (''last_updated'', JString (iso8601 env (last_updated s))),
     (''state'', JString (st_state s))]"

text \<open>
  Reading a context back: a required identifier and two optional strings, as an object or as the array
  of the three fields.
\<close>

fun opt_string :: "Value \<Rightarrow> string option option" where
  "opt_string JNull = Some None"
| "opt_string (JString s) = Some (Some s)"
| "opt_string _ = None"

definition opt_field :: "string \<Rightarrow> (string \<times> Value) list \<Rightarrow> string option option" where
  "opt_field k m = (case map_of m k of None \<Rightarrow> Some None | Some v \<Rightarrow> opt_string v)"

fun Context_from_value :: "Value \<Rightarrow> Context option" where
  "Context_from_value (JObject m) =
    (case (map_of m ''id'', opt_field ''user_id'' m, opt_field ''parent_id'' m) of
       (Some (JString i), Some u, Some p) \<Rightarrow> Some \<lparr>ctx_id = i, user_id = u, parent_id = p\<rparr>
     | _ \<Rightarrow> None)"
| "Context_from_value (JArray [JString i, u, p]) =
    (case (opt_string u, opt_string p) of
       (Some u', Some p') \<Rightarrow> Some \<lparr>ctx_id = i, user_id = u', parent_id = p'\<rparr>
     | _ \<Rightarrow> None)"
| "Context_from_value _ = None"

definition str_field :: "(string \<times> Value) list \<Rightarrow> string \<Rightarrow> string option" where
  "str_field m k = Option.bind (map_of m k) json_str"

definition State_from_dict :: "Env \<Rightarrow> (string \<times> Value) list \<Rightarrow> Context \<Rightarrow> int \<Rightarrow> HassError + State" where
  "State_from_dict env m fresh now =
    (case str_field m ''entity_id'' of
       None \<Rightarrow> Inl (Other ''from_dict: missing entity_id'')
     | Some eid \<Rightarrow>
        (case str_field m ''state'' of
           None \<Rightarrow> Inl (Other ''from_dict: missing state'')
         | Some st \<Rightarrow>
            (let attrs = (case map_of m ''attributes'' of Some (JObject a) \<Rightarrow> a | _ \<Rightarrow> []);
                 c = (case map_of m ''context'' of
                        Some v \<Rightarrow> (case Context_from_value v of Some c \<Rightarrow> c | None \<Rightarrow> fresh)
                      | None \<Rightarrow> fresh);
                 time = (\<lambda>k. Option.bind (str_field m k) (parse_iso8601 env));
                 changed = (case time ''last_changed'' of Some t \<Rightarrow> t | None \<Rightarrow> now);
                 reported = (case time ''last_reported'' of Some t \<Rightarrow> t | None \<Rightarrow> changed);
                 updated = (case time ''last_updated'' of Some t \<Rightarrow> t | None \<Rightarrow> changed)
             in case split_entity_id eid of
                  Inl e \<Rightarrow> Inl e
                | Inr (d, obj) \<Rightarrow> Inr \<lparr>entity_id = eid, st_domain = d, object_id = obj, st_state = st,
                    attributes = attrs, last_changed = changed, last_reported = reported,
                    last_updated = updated, st_context = c\<rparr>)))"

section \<open>Events\<close>

datatype EventOrigin = Local | Remote

record Event =
  event_type :: string
  ev_data :: Value
  origin :: EventOrigin
  time_fired :: int
  ev_context :: Context

definition EVENT_STATE_CHANGED :: string where "EVENT_STATE_CHANGED = ''state_changed''"
definition EVENT_STATE_REPORTED :: string where "EVENT_STATE_REPORTED = ''state_reported''"

definition StateChangedData_json :: "Env \<Rightarrow> string \<Rightarrow> State option \<Rightarrow> State option \<Rightarrow> Value" where
  "StateChangedData_json env eid old new = JObject [
     (''entity_id'', JString eid),
     (''new_state'', case new of None \<Rightarrow> JNull | Some s \<Rightarrow> State_json env s),
     (''old_state'', case old of None \<Rightarrow> JNull | Some s \<Rightarrow> State_json env s)]"

definition StateReportedData_json :: "Env \<Rightarrow> string \<Rightarrow> int \<Rightarrow> int \<Rightarrow> State \<Rightarrow> Value" where
  "StateReportedData_json env eid reported old_reported s = JObject [
     (''entity_id'', JString eid),
     (''last_reported'', ts_json env reported),
     (''new_state'', State_json env s),
     (''old_last_reported'', ts_json env old_reported)]"

section \<open>The table of states\<close>

record States =
  by_entity :: "(string, State) hashmap"
  by_domain :: "(string, string set) hashmap"

definition States_default :: States where
  "States_default = \<lparr>by_entity = [], by_domain = []\<rparr>"

definition States_set :: "State \<Rightarrow> States \<Rightarrow> States" where
  "States_set s t =
    \<lparr>by_entity = hm_insert (entity_id s) s (by_entity t),
     by_domain = hm_insert (st_domain s)
       (insert (entity_id s) (case hm_get (by_domain t) (st_domain s) of Some ids \<Rightarrow> ids | None \<Rightarrow> {})) (by_domain t)\<rparr>"

definition States_get :: "States \<Rightarrow> string \<Rightarrow> State option" where
  "States_get t eid = hm_get (by_entity t) eid"

definition States_remove :: "string \<Rightarrow> States \<Rightarrow> States \<times> State option" where
  "States_remove eid t = (case hm_get (by_entity t) eid of
     None \<Rightarrow> (t, None)
   | Some s \<Rightarrow>
      (let t1 = t\<lparr>by_entity := hm_remove eid (by_entity t)\<rparr> in
       (case hm_get (by_domain t1) (st_domain s) of
          None \<Rightarrow> t1
        | Some ids \<Rightarrow>
            if ids - {eid} = {} then t1\<lparr>by_domain := hm_remove (st_domain s) (by_domain t1)\<rparr>
            else t1\<lparr>by_domain := hm_insert (st_domain s) (ids - {eid}) (by_domain t1)\<rparr>,
        Some s)))"

definition States_all :: "States \<Rightarrow> State set" where
  "States_all t = set (map snd (by_entity t))"

definition States_domain_entity_ids :: "States \<Rightarrow> string \<Rightarrow> string set" where
  "States_domain_entity_ids t d = (case hm_get (by_domain t) d of Some ids \<Rightarrow> ids | None \<Rightarrow> {})"

definition States_entity_ids :: "States \<Rightarrow> string set" where
  "States_entity_ids t = set (map fst (by_entity t))"

definition States_len :: "States \<Rightarrow> nat" where
  "States_len t = length (by_entity t)"

section \<open>The state machine\<close>

record StateMachine =
  states :: States
  reservations :: "string set"

definition StateMachine_new :: StateMachine where
  "StateMachine_new = \<lparr>states = States_default, reservations = {}\<rparr>"

definition sm_get :: "StateMachine \<Rightarrow> string \<Rightarrow> State option" where
  "sm_get sm eid = (case States_get (states sm) eid of
     Some s \<Rightarrow> Some s
   | None \<Rightarrow> States_get (states sm) (to_ascii_lowercase eid))"

definition is_state :: "StateMachine \<Rightarrow> string \<Rightarrow> string \<Rightarrow> bool" where
  "is_state sm eid s = (case sm_get sm eid of Some st \<Rightarrow> st_state st = s | None \<Rightarrow> False)"

definition sm_entity_ids :: "StateMachine \<Rightarrow> string option \<Rightarrow> string set" where
  "sm_entity_ids sm d = (case d of
     Some d \<Rightarrow> States_domain_entity_ids (states sm) (to_ascii_lowercase d)
   | None \<Rightarrow> States_entity_ids (states sm))"

definition sm_all :: "StateMachine \<Rightarrow> string option \<Rightarrow> State set" where
  "sm_all sm d = (case d of
     Some d \<Rightarrow> {s. \<exists>eid \<in> States_domain_entity_ids (states sm) (to_ascii_lowercase d). States_get (states sm) eid = Some s}
   | None \<Rightarrow> States_all (states sm))"

definition state_changed_event :: "Env \<Rightarrow> string \<Rightarrow> State option \<Rightarrow> State option \<Rightarrow> Context \<Rightarrow> int \<Rightarrow> Event" where
  "state_changed_event env eid old new ctx now =
    \<lparr>event_type = EVENT_STATE_CHANGED, ev_data = StateChangedData_json env eid old new, origin = Local,
     time_fired = now, ev_context = ctx\<rparr>"

definition async_remove :: "Env \<Rightarrow> string \<Rightarrow> Context option \<Rightarrow> int \<Rightarrow> StateMachine \<Rightarrow> StateMachine \<times> Event list \<times> bool" where
  "async_remove env eid0 ctx now sm =
    (let eid = to_ascii_lowercase eid0 in
     case States_remove eid (states sm) of
       (_, None) \<Rightarrow> (sm\<lparr>reservations := reservations sm - {eid}\<rparr>, [], False)
     | (t, Some old) \<Rightarrow>
        (let old' = expire old; c = (case ctx of Some c \<Rightarrow> c | None \<Rightarrow> st_context old') in
         (sm\<lparr>states := t, reservations := reservations sm - {eid}\<rparr>,
          [state_changed_event env eid (Some old') None c now], True)))"

definition async_reserve :: "string \<Rightarrow> StateMachine \<Rightarrow> StateMachine \<times> (HassError + unit)" where
  "async_reserve eid sm =
    (if States_get (states sm) eid \<noteq> None \<or> eid \<in> reservations sm
     then (sm, Inl (Other ''async_reserve must not be called once the state is in the state machine''))
     else (sm\<lparr>reservations := insert eid (reservations sm)\<rparr>, Inr ()))"

definition async_available :: "string \<Rightarrow> StateMachine \<Rightarrow> bool" where
  "async_available eid0 sm =
    (let eid = to_ascii_lowercase eid0 in
     States_get (states sm) eid = None \<and> eid \<notin> reservations sm)"

definition async_set_internal ::
  "Env \<Rightarrow> string \<Rightarrow> string \<Rightarrow> Attributes \<Rightarrow> bool \<Rightarrow> Context option \<Rightarrow> Context \<Rightarrow> int \<Rightarrow> StateMachine \<Rightarrow>
   StateMachine \<times> Event list \<times> (HassError + unit)" where
  "async_set_internal env eid new_state attrs force_update ctx fresh now sm =
    (let effective = (if length new_state > MAX_LENGTH_STATE_STATE then STATE_UNKNOWN else new_state);
         c = (case ctx of Some c \<Rightarrow> c | None \<Rightarrow> fresh);
         old = States_get (states sm) eid;
         (same_state, same_attr, changed) = (case old of
            Some prev \<Rightarrow> (st_state prev = effective \<and> \<not> force_update, attributes prev = attrs,
              if st_state prev = effective \<and> \<not> force_update then Some (last_changed prev) else None)
          | None \<Rightarrow> (False, False, None))
     in case old of
       Some existing \<Rightarrow>
         if same_state \<and> same_attr then
           let s = existing\<lparr>last_reported := now\<rparr> in
           (sm\<lparr>states := States_set s (states sm)\<rparr>,
            [\<lparr>event_type = EVENT_STATE_REPORTED,
              ev_data = StateReportedData_json env eid now (last_reported existing) s,
              origin = Local, time_fired = now, ev_context = c\<rparr>], Inr ())
         else (case split_entity_id eid of
            Inl e \<Rightarrow> (sm, [], Inl e)
          | Inr (d, obj) \<Rightarrow>
             (let new = \<lparr>entity_id = eid, st_domain = d, object_id = obj, st_state = effective,
                 attributes = (if same_attr then attributes existing else attrs),
                 last_changed = (case changed of Some t \<Rightarrow> t | None \<Rightarrow> now),
                 last_reported = now, last_updated = now, st_context = c\<rparr> in
              (sm\<lparr>states := States_set new (states sm)\<rparr>,
               [state_changed_event env eid (Some (expire existing)) (Some new) c now], Inr ())))
     | None \<Rightarrow>
         (case split_entity_id eid of
            Inl e \<Rightarrow> (sm, [], Inl e)
          | Inr (d, obj) \<Rightarrow>
             (let new = \<lparr>entity_id = eid, st_domain = d, object_id = obj, st_state = effective, attributes = attrs,
                 last_changed = (case changed of Some t \<Rightarrow> t | None \<Rightarrow> now),
                 last_reported = now, last_updated = now, st_context = c\<rparr> in
              (sm\<lparr>states := States_set new (states sm)\<rparr>,
               [state_changed_event env eid None (Some new) c now], Inr ()))))"

definition async_set ::
  "Env \<Rightarrow> string \<Rightarrow> string \<Rightarrow> Attributes \<Rightarrow> bool \<Rightarrow> Context option \<Rightarrow> Context \<Rightarrow> int \<Rightarrow> StateMachine \<Rightarrow>
   StateMachine \<times> Event list \<times> (HassError + unit)" where
  "async_set env eid0 new_state attrs force_update ctx fresh now sm =
    (let eid = to_ascii_lowercase eid0 in
     case validate_state new_state of
       Inl e \<Rightarrow> (sm, [], Inl e)
     | Inr _ \<Rightarrow> async_set_internal env eid new_state attrs force_update ctx fresh now sm)"

end
