(* ===== verification/Home_Bus.thy ===== *)
theory Home_Bus
  imports Home_State
begin

text \<open>
  The event bus of the automation core (\<open>event_bus.rs\<close>): listeners by event type in the order of their
  registration, the wild card, listeners for one event, and the handles whose drop removes a listener.
  A callback is a value of a type \<open>'c\<close>; what it does to the bus while it runs is the list of bus
  operations \<open>act\<close> gives for it (it may subscribe and drop handles; an event it fires in turn is a later
  event here). \<open>fire\<close> returns the listeners it called. Listener numbers do not wrap: there are fewer than
  \<open>2^64\<close> registrations.
\<close>

definition EVENT_CALL_SERVICE :: string where "EVENT_CALL_SERVICE = ''call_service''"
definition EVENT_SERVICE_REGISTERED :: string where "EVENT_SERVICE_REGISTERED = ''service_registered''"
definition EVENT_SERVICE_REMOVED :: string where "EVENT_SERVICE_REMOVED = ''service_removed''"
definition EVENT_HASS_START :: string where "EVENT_HASS_START = ''homeassistant_start''"
definition EVENT_HASS_STOP :: string where "EVENT_HASS_STOP = ''homeassistant_stop''"
definition MATCH_ALL :: string where "MATCH_ALL = ''*''"

definition Event_new :: "string \<Rightarrow> Value \<Rightarrow> EventOrigin \<Rightarrow> Context \<Rightarrow> int \<Rightarrow> Event" where
  "Event_new ty d g c now = \<lparr>event_type = ty, ev_data = d, origin = g, time_fired = now, ev_context = c\<rparr>"

fun EventOrigin_json :: "EventOrigin \<Rightarrow> Value" where
  "EventOrigin_json Local = JString ''LOCAL''"
| "EventOrigin_json Remote = JString ''REMOTE''"

definition json_int :: "int \<Rightarrow> Value" where
  "json_int i = JNumber (if i < 0 then NegInt i else PosInt (nat i))"

definition Event_as_dict :: "Event \<Rightarrow> Value" where
  "Event_as_dict ev = JObject [
     (''context'', Context_json (ev_context ev)),
     (''data'', ev_data ev),
     (''event_type'', JString (event_type ev)),
     (''origin'', EventOrigin_json (origin ev)),
     (''time_fired'', json_int (unix_timestamp (time_fired ev)))]"

datatype 'c callback = Plain 'c | Once string 'c

record 'c Listener =
  l_id :: nat
  l_cb :: "'c callback"
  l_filter :: "(Event \<Rightarrow> bool) option"

text \<open>A handle knows the event type, the number, and whether the listener is for one event.\<close>

record ListenerHandle =
  h_type :: string
  h_id :: nat
  h_once :: bool

text \<open>
  \<open>fired\<close> holds the numbers of the one-event listeners whose flag is set, \<open>handles\<close> the handles that
  clients hold, which a drop consumes.
\<close>

record 'c BusInner =
  listeners :: "(string, 'c Listener list) hashmap"
  next_id :: nat
  fired :: "nat set"
  handles :: "ListenerHandle list"

definition InMemoryEventBus_new :: "'c BusInner" where
  "InMemoryEventBus_new = \<lparr>listeners = [], next_id = 0, fired = {}, handles = []\<rparr>"

definition listeners_of :: "'c BusInner \<Rightarrow> string \<Rightarrow> 'c Listener list" where
  "listeners_of b ty = (case hm_get (listeners b) ty of Some ls \<Rightarrow> ls | None \<Rightarrow> [])"

definition push_listener :: "string \<Rightarrow> 'c callback \<Rightarrow> (Event \<Rightarrow> bool) option \<Rightarrow> 'c BusInner \<Rightarrow> 'c BusInner" where
  "push_listener ty cb flt b =
    (let i = next_id b + 1 in
     b\<lparr>next_id := i,
       listeners := hm_insert ty (listeners_of b ty @ [\<lparr>l_id = i, l_cb = cb, l_filter = flt\<rparr>]) (listeners b)\<rparr>)"

definition async_listen_dyn :: "string \<Rightarrow> 'c \<Rightarrow> 'c BusInner \<Rightarrow> 'c BusInner \<times> ListenerHandle" where
  "async_listen_dyn ty c b =
    (push_listener ty (Plain c) None b, \<lparr>h_type = ty, h_id = next_id b + 1, h_once = False\<rparr>)"

definition async_listen_filtered :: "string \<Rightarrow> 'c \<Rightarrow> (Event \<Rightarrow> bool) \<Rightarrow> 'c BusInner \<Rightarrow> 'c BusInner \<times> ListenerHandle" where
  "async_listen_filtered ty c flt b =
    (push_listener ty (Plain c) (Some flt) b, \<lparr>h_type = ty, h_id = next_id b + 1, h_once = False\<rparr>)"

definition async_listen_once_dyn :: "string \<Rightarrow> 'c \<Rightarrow> 'c BusInner \<Rightarrow> 'c BusInner \<times> ListenerHandle" where
  "async_listen_once_dyn ty c b =
    (push_listener ty (Once ty c) None b, \<lparr>h_type = ty, h_id = next_id b + 1, h_once = True\<rparr>)"

definition remove_listener :: "string \<Rightarrow> nat \<Rightarrow> 'c BusInner \<Rightarrow> 'c BusInner" where
  "remove_listener ty i b = (case hm_get (listeners b) ty of
     None \<Rightarrow> b
   | Some ls \<Rightarrow>
      (let ls' = filter (\<lambda>l. l_id l \<noteq> i) ls in
       if ls' = [] \<and> ty \<noteq> MATCH_ALL then b\<lparr>listeners := hm_remove ty (listeners b)\<rparr>
       else b\<lparr>listeners := hm_insert ty ls' (listeners b)\<rparr>))"

definition drop_handle :: "ListenerHandle \<Rightarrow> 'c BusInner \<Rightarrow> 'c BusInner" where
  "drop_handle h b =
    (if h_once h then
       (if h_id h \<in> fired b then b
        else remove_listener (h_type h) (h_id h) (b\<lparr>fired := insert (h_id h) (fired b)\<rparr>))
     else remove_listener (h_type h) (h_id h) b)"

datatype 'c BusOp =
    Listen string 'c
  | ListenFiltered string 'c "Event \<Rightarrow> bool"
  | ListenOnce string 'c
  | DropHandle nat

definition keep_handle :: "'c BusInner \<times> ListenerHandle \<Rightarrow> 'c BusInner" where
  "keep_handle r = (fst r)\<lparr>handles := handles (fst r) @ [snd r]\<rparr>"

fun bus_op :: "'c BusOp \<Rightarrow> 'c BusInner \<Rightarrow> 'c BusInner" where
  "bus_op (Listen ty c) b = keep_handle (async_listen_dyn ty c b)"
| "bus_op (ListenFiltered ty c flt) b = keep_handle (async_listen_filtered ty c flt b)"
| "bus_op (ListenOnce ty c) b = keep_handle (async_listen_once_dyn ty c b)"
| "bus_op (DropHandle n) b =
    (if n < length (handles b)
     then drop_handle (handles b ! n) (b\<lparr>handles := take n (handles b) @ drop (n + 1) (handles b)\<rparr>) else b)"

definition combined :: "Event \<Rightarrow> 'c BusInner \<Rightarrow> 'c Listener list" where
  "combined ev b = listeners_of b (event_type ev)
     @ (if event_type ev \<noteq> EVENT_STATE_REPORTED then listeners_of b MATCH_ALL else [])"

text \<open>One listener of the snapshot: its filter, then its callback, which for a one-event listener is the wrapper.\<close>

definition deliver :: "('c \<Rightarrow> Event \<Rightarrow> 'c BusOp list) \<Rightarrow> Event \<Rightarrow> 'c Listener \<Rightarrow> 'c BusInner \<Rightarrow> 'c BusInner \<times> 'c Listener list" where
  "deliver act ev l b =
    (if (case l_filter l of Some flt \<Rightarrow> \<not> flt ev | None \<Rightarrow> False) then (b, [])
     else case l_cb l of
       Plain c \<Rightarrow> (fold bus_op (act c ev) b, [l])
     | Once ty c \<Rightarrow>
        if l_id l \<in> fired b then (b, [])
        else (remove_listener ty (l_id l) (fold bus_op (act c ev) (b\<lparr>fired := insert (l_id l) (fired b)\<rparr>)), [l]))"

fun deliver_all :: "('c \<Rightarrow> Event \<Rightarrow> 'c BusOp list) \<Rightarrow> Event \<Rightarrow> 'c Listener list \<Rightarrow> 'c BusInner \<Rightarrow> 'c BusInner \<times> 'c Listener list" where
  "deliver_all act ev [] b = (b, [])"
| "deliver_all act ev (l # ls) b =
    (let (b1, c1) = deliver act ev l b; (b2, c2) = deliver_all act ev ls b1 in (b2, c1 @ c2))"

definition fire :: "('c \<Rightarrow> Event \<Rightarrow> 'c BusOp list) \<Rightarrow> Event \<Rightarrow> 'c BusInner \<Rightarrow> 'c BusInner \<times> 'c Listener list" where
  "fire act ev b = deliver_all act ev (combined ev b) b"

definition async_listeners :: "'c BusInner \<Rightarrow> (string \<times> nat) list" where
  "async_listeners b = map (\<lambda>(k, ls). (k, length ls)) (listeners b)"

section \<open>Runs of the bus\<close>

datatype 'c BusStep = Op "'c BusOp" | Fire Event

fun bus_run :: "('c \<Rightarrow> Event \<Rightarrow> 'c BusOp list) \<Rightarrow> 'c BusStep list \<Rightarrow> 'c BusInner \<Rightarrow> 'c BusInner \<times> 'c Listener list" where
  "bus_run act [] b = (b, [])"
| "bus_run act (Op x # xs) b = bus_run act xs (bus_op x b)"
| "bus_run act (Fire ev # xs) b =
    (let (b1, l1) = fire act ev b; (b2, l2) = bus_run act xs b1 in (b2, l1 @ l2))"

fun is_once :: "'c Listener \<Rightarrow> bool" where
  "is_once l = (case l_cb l of Once _ _ \<Rightarrow> True | Plain _ \<Rightarrow> False)"

definition accepts :: "Event \<Rightarrow> 'c Listener \<Rightarrow> bool" where
  "accepts ev l = (case l_filter l of Some flt \<Rightarrow> flt ev | None \<Rightarrow> True)"

declare is_once.simps [simp del]

section \<open>One-event listeners\<close>

lemma fired_mono_remove [simp]: "fired (remove_listener ty i b) = fired b"
  by (simp add: remove_listener_def Let_def split: option.splits)

lemma fired_mono_op: "fired b \<subseteq> fired (bus_op x b)"
  by (cases x) (auto simp: keep_handle_def async_listen_dyn_def async_listen_filtered_def async_listen_once_dyn_def
      push_listener_def Let_def drop_handle_def)

lemma fired_mono_ops: "fired b \<subseteq> fired (fold bus_op xs b)"
proof (induction xs arbitrary: b)
  case (Cons x xs)
  show ?case using fired_mono_op [of b x] Cons.IH [of "bus_op x b"] by auto
qed simp

definition once_ids :: "'c Listener list \<Rightarrow> nat list" where
  "once_ids ls = map l_id (filter is_once ls)"

lemma once_ids_simps [simp]: "once_ids [] = []" "once_ids (xs @ ys) = once_ids xs @ once_ids ys"
  by (simp_all add: once_ids_def)

lemma once_deliver:
  assumes "deliver act ev l b = (b', log)"
  shows "fired b \<subseteq> fired b' \<and> set (once_ids log) \<subseteq> fired b' - fired b \<and> distinct (once_ids log)"
proof (cases "l_cb l")
  case (Plain c)
  then show ?thesis
    using assms fired_mono_ops [of b "act c ev"] by (auto simp: deliver_def once_ids_def is_once.simps split: if_splits)
next
  case (Once ty c)
  then show ?thesis
    using assms fired_mono_ops [of "b\<lparr>fired := insert (l_id l) (fired b)\<rparr>" "act c ev"]
    by (auto simp: deliver_def once_ids_def is_once.simps split: if_splits)
qed

lemma once_deliver_all:
  "deliver_all act ev ls b = (b', log) \<Longrightarrow>
    fired b \<subseteq> fired b' \<and> set (once_ids log) \<subseteq> fired b' - fired b \<and> distinct (once_ids log)"
proof (induction ls arbitrary: b log)
  case (Cons l ls)
  obtain b1 l1 where d: "deliver act ev l b = (b1, l1)" by fastforce
  obtain l2 where r: "deliver_all act ev ls b1 = (b', l2)" "log = l1 @ l2"
    using Cons.prems d by (auto split: prod.splits)
  show ?case using once_deliver [OF d] Cons.IH [OF r(1)] r(2) by (simp add: once_ids_def) blast
qed simp

lemma once_run:
  "bus_run act steps b = (b', log) \<Longrightarrow>
    fired b \<subseteq> fired b' \<and> set (once_ids log) \<subseteq> fired b' - fired b \<and> distinct (once_ids log)"
proof (induction steps arbitrary: b log)
  case (Cons x xs)
  show ?case
  proof (cases x)
    case (Op y)
    then show ?thesis using Cons fired_mono_op [of b y] by (simp, blast)
  next
    case (Fire ev)
    obtain b1 l1 where d: "fire act ev b = (b1, l1)" by fastforce
    obtain l2 where r: "bus_run act xs b1 = (b', l2)" "log = l1 @ l2"
      using Cons.prems d Fire by (auto split: prod.splits)
    show ?thesis
      using once_deliver_all [OF d [unfolded fire_def]] Cons.IH [OF r(1)] r(2) by (simp add: once_ids_def) blast
  qed
qed simp

text \<open>
  A one-event listener hears one event: over any sequence of subscriptions, drops and events, and
  whatever the callbacks themselves do to the subscriptions while they run, no listener registered for
  one event is called twice.
\<close>

theorem once_called_once: "distinct (once_ids (snd (bus_run act steps InMemoryEventBus_new)))"
  by (cases "bus_run act steps InMemoryEventBus_new") (use once_run in fastforce)

section \<open>Which listeners a bus holds\<close>

definition on_bus :: "'c BusInner \<Rightarrow> string \<Rightarrow> 'c Listener \<Rightarrow> bool" where
  "on_bus b ty l \<longleftrightarrow> l \<in> set (listeners_of b ty)"

text \<open>A listener number belongs to one listener of one type.\<close>

definition owns :: "'c BusInner \<Rightarrow> string \<Rightarrow> bool \<Rightarrow> nat \<Rightarrow> bool" where
  "owns b ty k i \<longleftrightarrow> 1 \<le> i \<and> i \<le> next_id b
     \<and> (\<forall>ty' l. on_bus b ty' l \<and> l_id l = i \<longrightarrow> ty' = ty \<and> is_once l = k)"

definition wrap_ok :: "string \<Rightarrow> 'c Listener \<Rightarrow> bool" where
  "wrap_ok ty l \<longleftrightarrow> (case l_cb l of Once ty' c \<Rightarrow> ty' = ty \<and> l_filter l = None | Plain _ \<Rightarrow> True)"

definition bus_ok :: "nat set \<Rightarrow> 'c BusInner \<Rightarrow> bool" where
  "bus_ok F b \<longleftrightarrow>
     (\<forall>ty l. on_bus b ty l \<longrightarrow> owns b ty (is_once l) (l_id l))
   \<and> (\<forall>ty. distinct (map l_id (listeners_of b ty)))
   \<and> (\<forall>ty l. on_bus b ty l \<longrightarrow> wrap_ok ty l)
   \<and> (\<forall>ty l. on_bus b ty l \<and> is_once l \<and> l_id l \<in> fired b \<longrightarrow> l_id l \<in> F)
   \<and> (\<forall>i \<in> fired b. i \<le> next_id b)
   \<and> (\<forall>h \<in> set (handles b). owns b (h_type h) (h_once h) (h_id h))"

lemma listeners_of_push:
  "listeners_of (push_listener ty cb flt b) ty' =
    (if ty' = ty then listeners_of b ty @ [\<lparr>l_id = next_id b + 1, l_cb = cb, l_filter = flt\<rparr>] else listeners_of b ty')"
  by (simp add: push_listener_def listeners_of_def Let_def hm.get_insert)

lemma listeners_of_remove:
  "listeners_of (remove_listener ty i b) ty' =
    (if ty' = ty then filter (\<lambda>l. l_id l \<noteq> i) (listeners_of b ty) else listeners_of b ty')"
  by (auto simp: remove_listener_def listeners_of_def Let_def hm.get_insert hm.get_remove split: option.splits)

lemma push_fields [simp]:
  "next_id (push_listener ty cb flt b) = next_id b + 1" "fired (push_listener ty cb flt b) = fired b"
  "handles (push_listener ty cb flt b) = handles b"
  by (simp_all add: push_listener_def Let_def)

lemma remove_fields [simp]:
  "next_id (remove_listener ty i b) = next_id b" "handles (remove_listener ty i b) = handles b"
  by (simp_all add: remove_listener_def Let_def split: option.splits)

lemma listeners_of_upd [simp]:
  "listeners_of (b\<lparr>handles := hs\<rparr>) = listeners_of b" "listeners_of (b\<lparr>fired := fs\<rparr>) = listeners_of b"
  by (simp_all add: listeners_of_def fun_eq_iff)

lemma on_bus_remove: "on_bus (remove_listener ty i b) ty' l \<longleftrightarrow> on_bus b ty' l \<and> (ty' \<noteq> ty \<or> l_id l \<noteq> i)"
  by (auto simp: on_bus_def listeners_of_remove)

lemma on_bus_push:
  "on_bus (push_listener ty cb flt b) ty' l \<longleftrightarrow>
    on_bus b ty' l \<or> ty' = ty \<and> l = \<lparr>l_id = next_id b + 1, l_cb = cb, l_filter = flt\<rparr>"
  by (auto simp: on_bus_def listeners_of_push)

lemma bus_ok_new: "bus_ok {} InMemoryEventBus_new"
  by (simp add: bus_ok_def InMemoryEventBus_new_def on_bus_def listeners_of_def)

lemma owns_remove: "owns b ty k i \<Longrightarrow> owns (remove_listener ty' j b) ty k i"
  by (auto simp: owns_def on_bus_remove)

lemma bus_ok_remove:
  assumes "bus_ok F b"
  shows "bus_ok F (remove_listener ty i b)"
proof -
  have "distinct (map l_id (filter P (listeners_of b ty)))" for P ty
    using assms unfolding bus_ok_def by (simp add: distinct_map_filter)
  then show ?thesis
    using assms unfolding bus_ok_def
    by (intro conjI allI impI ballI) (auto simp: on_bus_remove owns_remove listeners_of_remove)
qed

lemma owns_push: "owns b ty k i \<Longrightarrow> owns (push_listener ty' cb flt b) ty k i"
  by (auto simp: owns_def on_bus_push)

lemma bus_ok_push:
  assumes ok: "bus_ok F b" and w: "wrap_ok ty \<lparr>l_id = next_id b + 1, l_cb = cb, l_filter = flt\<rparr>"
  shows "bus_ok F (push_listener ty cb flt b)"
    and "owns (push_listener ty cb flt b) ty (is_once \<lparr>l_id = next_id b + 1, l_cb = cb, l_filter = flt\<rparr>) (next_id b + 1)"
proof -
  have le: "l_id l \<le> next_id b" if "on_bus b ty l" for ty l
    using ok that unfolding bus_ok_def owns_def by blast
  then have ne: "l_id l \<noteq> Suc (next_id b)" if "on_bus b ty l" for ty l using that by fastforce
  show own: "owns (push_listener ty cb flt b) ty (is_once \<lparr>l_id = next_id b + 1, l_cb = cb, l_filter = flt\<rparr>) (next_id b + 1)"
    using ne unfolding owns_def by (auto simp: on_bus_push)
  have fresh: "Suc (next_id b) \<notin> fired b"
    using ok unfolding bus_ok_def by fastforce
  have dist: "distinct (map l_id (listeners_of b ty @ [\<lparr>l_id = next_id b + 1, l_cb = cb, l_filter = flt\<rparr>]))" for ty
    using ok ne unfolding bus_ok_def on_bus_def by fastforce
  show "bus_ok F (push_listener ty cb flt b)"
    unfolding bus_ok_def
  proof (intro conjI)
    show "\<forall>ty' l. on_bus (push_listener ty cb flt b) ty' l \<longrightarrow> owns (push_listener ty cb flt b) ty' (is_once l) (l_id l)"
      using ok own owns_push unfolding bus_ok_def on_bus_push by fastforce
    show "\<forall>ty'. distinct (map l_id (listeners_of (push_listener ty cb flt b) ty'))"
      using dist ok unfolding bus_ok_def listeners_of_push by simp
    show "\<forall>ty' l. on_bus (push_listener ty cb flt b) ty' l \<longrightarrow> wrap_ok ty' l"
      using ok w unfolding bus_ok_def on_bus_push by blast
    show "\<forall>ty' l. on_bus (push_listener ty cb flt b) ty' l \<and> is_once l \<and> l_id l \<in> fired (push_listener ty cb flt b) \<longrightarrow> l_id l \<in> F"
      using ok fresh unfolding bus_ok_def on_bus_push by auto
    show "\<forall>i\<in>fired (push_listener ty cb flt b). i \<le> next_id (push_listener ty cb flt b)"
      using ok unfolding bus_ok_def by fastforce
    show "\<forall>h\<in>set (handles (push_listener ty cb flt b)). owns (push_listener ty cb flt b) (h_type h) (h_once h) (h_id h)"
      using ok unfolding bus_ok_def push_fields by (blast intro: owns_push)
  qed
qed

lemma owns_upd [simp]:
  "owns (b\<lparr>handles := hs\<rparr>) = owns b" "owns (b\<lparr>fired := fs\<rparr>) = owns b"
  "on_bus (b\<lparr>handles := hs\<rparr>) = on_bus b" "on_bus (b\<lparr>fired := fs\<rparr>) = on_bus b"
  by (simp_all add: owns_def on_bus_def fun_eq_iff)

lemma bus_ok_handles:
  "bus_ok F b \<Longrightarrow> \<forall>h \<in> set hs. owns b (h_type h) (h_once h) (h_id h) \<Longrightarrow> bus_ok F (b\<lparr>handles := hs\<rparr>)"
  unfolding bus_ok_def by (simp, blast)

lemma bus_ok_mark:
  assumes "bus_ok F b" "i \<le> next_id b"
  shows "bus_ok (insert i F) (b\<lparr>fired := insert i (fired b)\<rparr>)"
  using assms unfolding bus_ok_def by (auto simp del: split_paired_All)

lemma bus_ok_unmark:
  assumes "bus_ok (insert i F) b" "owns b ty k i"
  shows "bus_ok F (remove_listener ty i b)"
proof -
  have "bus_ok (insert i F) (remove_listener ty i b)" using assms(1) by (rule bus_ok_remove)
  moreover have "l_id l \<noteq> i" if "on_bus (remove_listener ty i b) ty' l" for ty' l
    using that assms(2) unfolding on_bus_remove owns_def by blast
  ultimately show ?thesis unfolding bus_ok_def by blast
qed

lemma bus_ok_drop:
  assumes "bus_ok F b" "owns b (h_type h) (h_once h) (h_id h)"
  shows "bus_ok F (drop_handle h b)"
proof -
  have "h_id h \<le> next_id b" using assms(2) by (simp add: owns_def)
  from bus_ok_mark [OF assms(1) this] assms(2)
  have "bus_ok F (remove_listener (h_type h) (h_id h) (b\<lparr>fired := insert (h_id h) (fired b)\<rparr>))"
    by (intro bus_ok_unmark) simp_all
  then show ?thesis using assms(1) bus_ok_remove by (auto simp: drop_handle_def)
qed

lemmas listen_defs = keep_handle_def async_listen_dyn_def async_listen_filtered_def async_listen_once_dyn_def

lemma bus_ok_keep:
  assumes "bus_ok F b" "wrap_ok ty \<lparr>l_id = next_id b + 1, l_cb = cb, l_filter = flt\<rparr>"
    "k = is_once \<lparr>l_id = next_id b + 1, l_cb = cb, l_filter = flt\<rparr>"
  shows "bus_ok F (keep_handle (push_listener ty cb flt b, \<lparr>h_type = ty, h_id = next_id b + 1, h_once = k\<rparr>))"
proof -
  have "\<forall>h \<in> set (handles b). owns b (h_type h) (h_once h) (h_id h)" using assms(1) unfolding bus_ok_def by blast
  then have "\<forall>h \<in> set (handles b). owns (push_listener ty cb flt b) (h_type h) (h_once h) (h_id h)"
    by (blast intro: owns_push)
  then show ?thesis
    using bus_ok_push [OF assms(1,2)] assms(3) unfolding keep_handle_def
    by (auto intro!: bus_ok_handles)
qed

lemma bus_ok_op: "bus_ok F b \<Longrightarrow> bus_ok F (bus_op x b)"
proof (cases x)
  case (Listen ty c)
  assume "bus_ok F b"
  from bus_ok_keep [OF this, of ty "Plain c" "None" False] Listen show ?thesis by (simp add: async_listen_dyn_def wrap_ok_def is_once.simps)
next
  case (ListenFiltered ty c flt)
  assume "bus_ok F b"
  from bus_ok_keep [OF this, of ty "Plain c" "Some flt" False] ListenFiltered show ?thesis by (simp add: async_listen_filtered_def wrap_ok_def is_once.simps)
next
  case (ListenOnce ty c)
  assume "bus_ok F b"
  from bus_ok_keep [OF this, of ty "Once ty c" "None" True] ListenOnce show ?thesis by (simp add: async_listen_once_dyn_def wrap_ok_def is_once.simps)
next
  case (DropHandle n)
  assume ok: "bus_ok F b"
  define b1 where "b1 = b\<lparr>handles := take n (handles b) @ drop (n + 1) (handles b)\<rparr>"
  have own: "\<forall>h \<in> set (handles b). owns b (h_type h) (h_once h) (h_id h)" using ok unfolding bus_ok_def by blast
  have ok1: "bus_ok F b1"
    unfolding b1_def by (rule bus_ok_handles [OF ok]) (use own in \<open>auto dest: in_set_takeD in_set_dropD\<close>)
  have "owns b1 (h_type h) (h_once h) (h_id h)" if "n < length (handles b)" "h = handles b ! n" for h
    using own that by (simp add: b1_def)
  then show ?thesis using DropHandle ok bus_ok_drop [OF ok1] by (simp add: b1_def)
qed

lemma owns_op: "owns b ty k i \<Longrightarrow> owns (bus_op x b) ty k i"
  by (cases x) (auto simp: listen_defs drop_handle_def intro!: owns_push owns_remove)

lemma bus_ok_ops: "bus_ok F b \<Longrightarrow> bus_ok F (fold bus_op xs b)"
  by (induction xs arbitrary: b) (simp_all add: bus_ok_op)

lemma owns_ops: "owns b ty k i \<Longrightarrow> owns (fold bus_op xs b) ty k i"
  by (induction xs arbitrary: b) (simp_all add: owns_op)

section \<open>Firing keeps it\<close>

definition snap_ok :: "'c BusInner \<Rightarrow> 'c Listener \<Rightarrow> bool" where
  "snap_ok b l \<longleftrightarrow> (\<exists>ty. owns b ty (is_once l) (l_id l) \<and> wrap_ok ty l)"

lemma owns_deliver: "owns b ty k i \<Longrightarrow> owns (fst (deliver act ev l b)) ty k i"
  by (auto simp: deliver_def owns_ops intro!: owns_remove split: option.splits callback.splits)

lemma bus_ok_deliver:
  assumes ok: "bus_ok {} b" and s: "snap_ok b l"
  shows "bus_ok {} (fst (deliver act ev l b))"
proof (cases "l_cb l")
  case (Plain c)
  then show ?thesis using bus_ok_ops [OF ok] ok by (simp add: deliver_def)
next
  case (Once ty c)
  then have own: "owns b ty (is_once l) (l_id l)" using s by (auto simp: snap_ok_def wrap_ok_def)
  then have "bus_ok {l_id l} (b\<lparr>fired := insert (l_id l) (fired b)\<rparr>)"
    using bus_ok_mark [OF ok] by (simp add: owns_def)
  from bus_ok_ops [OF this] own
  have "bus_ok {} (remove_listener ty (l_id l) (fold bus_op (act c ev) (b\<lparr>fired := insert (l_id l) (fired b)\<rparr>)))"
    by (intro bus_ok_unmark [where k = "is_once l"] owns_ops) simp_all
  then show ?thesis using ok Once by (simp add: deliver_def)
qed

lemma bus_ok_deliver_all:
  "bus_ok {} b \<Longrightarrow> \<forall>l \<in> set ls. snap_ok b l \<Longrightarrow> bus_ok {} (fst (deliver_all act ev ls b))"
proof (induction ls arbitrary: b)
  case (Cons l ls)
  have "\<forall>l' \<in> set ls. snap_ok (fst (deliver act ev l b)) l'"
    using Cons.prems(2) owns_deliver unfolding snap_ok_def by fastforce
  then show ?case
    using Cons.IH [OF bus_ok_deliver [OF Cons.prems(1)]] Cons.prems(2) by (simp add: case_prod_beta Let_def)
qed simp

lemma combined_snap_ok: "bus_ok {} b \<Longrightarrow> \<forall>l \<in> set (combined ev b). snap_ok b l"
  unfolding bus_ok_def combined_def snap_ok_def on_bus_def by (auto split: if_splits) blast+

lemma bus_ok_run: "bus_ok {} b \<Longrightarrow> bus_ok {} (fst (bus_run act steps b))"
proof (induction steps arbitrary: b)
  case (Cons x xs)
  then show ?case
    using bus_ok_deliver_all [OF Cons.prems combined_snap_ok [OF Cons.prems]]
    by (cases x) (simp_all add: bus_ok_op case_prod_beta Let_def fire_def)
qed simp

section \<open>Who is called\<close>

abbreviation quiet :: "'c \<Rightarrow> Event \<Rightarrow> 'c BusOp list" where
  "quiet \<equiv> \<lambda>_ _. []"

lemma deliver_plain:
  "filter (\<lambda>l. \<not> is_once l) (snd (deliver_all act ev ls b)) = filter (\<lambda>l. \<not> is_once l \<and> accepts ev l) ls"
proof (induction ls arbitrary: b)
  case (Cons l ls)
  have "filter (\<lambda>l. \<not> is_once l) (snd (deliver act ev l b)) = (if \<not> is_once l \<and> accepts ev l then [l] else [])"
    by (auto simp: deliver_def accepts_def is_once.simps split: option.splits callback.splits)
  then show ?case using Cons.IH by (simp add: case_prod_beta Let_def)
qed simp

lemma deliver_quiet:
  "deliver quiet ev l b =
    (if \<not> accepts ev l \<or> is_once l \<and> l_id l \<in> fired b then (b, [])
     else case l_cb l of Plain c \<Rightarrow> (b, [l])
       | Once ty c \<Rightarrow> (remove_listener ty (l_id l) (b\<lparr>fired := insert (l_id l) (fired b)\<rparr>), [l]))"
  by (auto simp: deliver_def accepts_def is_once.simps split: option.splits callback.splits)

lemma deliver_all_quiet:
  "\<lbrakk>distinct (map l_id ls); \<forall>l \<in> set ls. is_once l \<longrightarrow> l_id l \<notin> fired b\<rbrakk> \<Longrightarrow>
    snd (deliver_all quiet ev ls b) = filter (accepts ev) ls
    \<and> (\<forall>l \<in> set ls. is_once l \<and> accepts ev l \<longrightarrow> l_id l \<in> fired (fst (deliver_all quiet ev ls b)))"
proof (induction ls arbitrary: b)
  case (Cons l ls)
  define b1 where "b1 = fst (deliver quiet ev l b)"
  have log: "snd (deliver quiet ev l b) = (if accepts ev l then [l] else [])"
    using Cons.prems by (auto simp: deliver_quiet split: callback.splits)
  have fire1: "fired b1 = (if accepts ev l \<and> is_once l then insert (l_id l) (fired b) else fired b)"
    using Cons.prems by (auto simp: b1_def deliver_quiet is_once.simps split: callback.splits)
  have ih: "snd (deliver_all quiet ev ls b1) = filter (accepts ev) ls
      \<and> (\<forall>l \<in> set ls. is_once l \<and> accepts ev l \<longrightarrow> l_id l \<in> fired (fst (deliver_all quiet ev ls b1)))"
    by (rule Cons.IH) (use Cons.prems fire1 in \<open>auto simp: image_iff\<close>)
  have mono: "fired b1 \<subseteq> fired (fst (deliver_all quiet ev ls b1))"
    using once_deliver_all [of quiet ev ls b1] by (metis prod.collapse)
  show ?case using log ih mono fire1 by (auto simp: case_prod_beta Let_def b1_def [symmetric])
qed simp

lemma deliver_all_again:
  "\<forall>l \<in> set ls. is_once l \<and> accepts ev l \<longrightarrow> l_id l \<in> fired b \<Longrightarrow>
    snd (deliver_all quiet ev ls b) = filter (\<lambda>l. \<not> is_once l \<and> accepts ev l) ls"
proof (induction ls arbitrary: b)
  case (Cons l ls)
  then have "deliver quiet ev l b = (b, if \<not> is_once l \<and> accepts ev l then [l] else [])"
    by (auto simp: deliver_quiet is_once.simps split: callback.splits)
  then show ?case using Cons by (simp add: case_prod_beta Let_def)
qed simp

lemma deliver_all_append:
  "snd (deliver_all act ev (xs @ ys) b) =
    snd (deliver_all act ev xs b) @ snd (deliver_all act ev ys (fst (deliver_all act ev xs b)))"
  by (induction xs arbitrary: b) (simp_all add: case_prod_beta Let_def)

lemma combined_distinct:
  assumes ok: "bus_ok F b" and ne: "event_type ev \<noteq> MATCH_ALL"
  shows "distinct (map l_id (combined ev b))"
proof -
  have "l_id l \<noteq> l_id l'" if "l \<in> set (listeners_of b (event_type ev))" "l' \<in> set (listeners_of b MATCH_ALL)" for l l'
  proof
    assume "l_id l = l_id l'"
    moreover have "owns b MATCH_ALL (is_once l') (l_id l')" using ok that unfolding bus_ok_def on_bus_def by blast
    ultimately show False using that ne unfolding owns_def on_bus_def by metis
  qed
  moreover have "distinct (map l_id (listeners_of b ty))" for ty using ok unfolding bus_ok_def by blast
  ultimately show ?thesis by (auto simp: combined_def)
qed

abbreviation bus_reached :: "('c \<Rightarrow> Event \<Rightarrow> 'c BusOp list) \<Rightarrow> 'c BusStep list \<Rightarrow> 'c BusInner" where
  "bus_reached act steps \<equiv> fst (bus_run act steps InMemoryEventBus_new)"

lemma bus_reached_ok: "bus_ok {} (bus_reached act steps)"
  by (rule bus_ok_run [OF bus_ok_new])

lemma none_fired: "bus_ok {} b \<Longrightarrow> l \<in> set (listeners_of b ty) \<Longrightarrow> is_once l \<Longrightarrow> l_id l \<notin> fired b"
  unfolding bus_ok_def on_bus_def by blast

lemma fire_quiet_exact:
  assumes "bus_ok {} b" "event_type ev \<noteq> MATCH_ALL"
  shows "snd (fire quiet ev b) = filter (accepts ev) (combined ev b)"
  unfolding fire_def
  using deliver_all_quiet [OF combined_distinct [OF assms]] none_fired [OF assms(1)]
  by (fastforce simp: combined_def split: if_splits)

lemma fire_quiet_star:
  assumes ok: "bus_ok {} b" and m: "event_type ev = MATCH_ALL"
  shows "snd (fire quiet ev b) = filter (accepts ev) (listeners_of b MATCH_ALL)
    @ filter (\<lambda>l. \<not> is_once l \<and> accepts ev l) (listeners_of b MATCH_ALL)"
proof -
  let ?ls = "listeners_of b MATCH_ALL"
  have c: "combined ev b = ?ls @ ?ls" using m by (simp add: combined_def MATCH_ALL_def EVENT_STATE_REPORTED_def)
  have d: "distinct (map l_id ?ls)" using ok unfolding bus_ok_def by blast
  have "\<forall>l \<in> set ?ls. is_once l \<longrightarrow> l_id l \<notin> fired b" using none_fired [OF ok] by blast
  from deliver_all_quiet [OF d this] show ?thesis
    unfolding fire_def c deliver_all_append by (simp add: deliver_all_again)
qed

lemma bus_ok_fire: "bus_ok {} b \<Longrightarrow> bus_ok {} (fst (fire act ev b))"
  unfolding fire_def by (rule bus_ok_deliver_all) (simp_all add: combined_snap_ok)

section \<open>What a client of the bus relies on\<close>

text \<open>
  The contract of an event bus towards a client that subscribes: subscribing keeps the bus in order,
  adds a listener of the type without disturbing the others, and an event calls every unfiltered
  listener of its type.
\<close>

locale event_bus =
  fixes ok :: "'b \<Rightarrow> bool"
    and on :: "'b \<Rightarrow> string \<Rightarrow> 'l \<Rightarrow> bool"
    and listen :: "string \<Rightarrow> 'c \<Rightarrow> 'b \<Rightarrow> 'b"
    and fires :: "Event \<Rightarrow> 'b \<Rightarrow> 'b \<times> 'l list"
    and hears :: "'l \<Rightarrow> 'c \<Rightarrow> bool"
  assumes ok_listen: "ok b \<Longrightarrow> ok (listen ty c b)"
    and ok_fires: "ok b \<Longrightarrow> ok (fst (fires ev b))"
    and listen_keeps: "on b ty l \<Longrightarrow> on (listen ty' c b) ty l"
    and listen_adds: "\<exists>l. on (listen ty c b) ty l \<and> hears l c"
    and fires_calls: "\<lbrakk>ok b; event_type ev \<noteq> MATCH_ALL; on b (event_type ev) l; hears l c\<rbrakk> \<Longrightarrow> l \<in> set (snd (fires ev b))"
begin

definition listens :: "(string \<times> 'c) list \<Rightarrow> 'b \<Rightarrow> 'b" where
  "listens subs b = fold (\<lambda>(ty, c). listen ty c) subs b"

lemma listens_Cons: "listens (p # subs) b = listens subs (listen (fst p) (snd p) b)"
  by (simp add: listens_def case_prod_beta)

lemma ok_listens: "ok b \<Longrightarrow> ok (listens subs b)"
  by (induction subs arbitrary: b) (simp_all add: listens_Cons ok_listen, simp add: listens_def)

lemma listens_keep: "on b ty l \<Longrightarrow> on (listens subs b) ty l"
  by (induction subs arbitrary: b) (simp_all add: listens_Cons listen_keeps, simp add: listens_def)

lemma listens_add: "(ty, c) \<in> set subs \<Longrightarrow> \<exists>l. on (listens subs b) ty l \<and> hears l c"
proof (induction subs arbitrary: b)
  case (Cons p subs)
  show ?case
  proof (cases "p = (ty, c)")
    case True
    obtain l where "on (listen ty c b) ty l" "hears l c" using listen_adds by blast
    then show ?thesis using True listens_keep [of "listen ty c b" ty l subs] by (auto simp: listens_Cons)
  next
    case False
    then show ?thesis using Cons by (simp add: listens_Cons)
  qed
qed simp

lemma listens_called:
  assumes "ok b" "(event_type ev, c) \<in> set subs" "event_type ev \<noteq> MATCH_ALL"
  shows "\<exists>l \<in> set (snd (fires ev (listens subs b))). hears l c"
  using listens_add [OF assms(2), of b] fires_calls [OF ok_listens [OF assms(1)] assms(3)] by blast

end

interpretation memory_bus: event_bus "bus_ok {}" on_bus "\<lambda>ty c. bus_op (Listen ty c)" "fire quiet"
  "\<lambda>l c. l_cb l = Plain c \<and> l_filter l = None"
proof (unfold_locales, goal_cases)
  case (1 b ty c)
  then show ?case by (rule bus_ok_op)
next
  case (2 b ev)
  then show ?case by (rule bus_ok_fire)
next
  case (3 b ty l ty' c)
  then show ?case by (simp add: keep_handle_def async_listen_dyn_def on_bus_push)
next
  case (4 ty c b)
  show ?case
    by (rule exI [of _ "\<lparr>l_id = next_id b + 1, l_cb = Plain c, l_filter = None\<rparr>"])
      (simp add: keep_handle_def async_listen_dyn_def on_bus_push)
next
  case (5 b ev l c)
  then show ?case by (simp add: fire_quiet_exact on_bus_def combined_def accepts_def)
qed

section \<open>The bus as one list of subscriptions\<close>

text \<open>
  The contract of the bus, without its table: one list of subscriptions in the order of their
  registration, each with its number, and the numbers of the handles that clients hold. Dropping a handle
  strikes its subscription from the list. An event goes round the subscriptions of its type and then, unless
  it is a state report, those of the wild card, as they stood when it was fired; a filter may decline it, and a
  subscription for one event is called only if it is still on the list, and struck from it when it is.
\<close>

record 'c Sub =
  sub_id :: nat
  sub_type :: string
  sub_once :: bool
  sub_call :: 'c
  sub_filter :: "(Event \<Rightarrow> bool) option"

record 'c Registry =
  subs :: "'c Sub list"
  issued :: nat
  held :: "nat list"

definition Registry_new :: "'c Registry" where
  "Registry_new = \<lparr>subs = [], issued = 0, held = []\<rparr>"

definition enter :: "string \<Rightarrow> bool \<Rightarrow> 'c \<Rightarrow> (Event \<Rightarrow> bool) option \<Rightarrow> 'c Registry \<Rightarrow> 'c Registry" where
  "enter ty k c flt s =
    \<lparr>subs = subs s @ [\<lparr>sub_id = issued s + 1, sub_type = ty, sub_once = k, sub_call = c, sub_filter = flt\<rparr>],
     issued = issued s + 1, held = held s @ [issued s + 1]\<rparr>"

definition strike :: "nat \<Rightarrow> 'c Registry \<Rightarrow> 'c Registry" where
  "strike i s = s\<lparr>subs := filter (\<lambda>x. sub_id x \<noteq> i) (subs s)\<rparr>"

fun registry_op :: "'c BusOp \<Rightarrow> 'c Registry \<Rightarrow> 'c Registry" where
  "registry_op (Listen ty c) s = enter ty False c None s"
| "registry_op (ListenFiltered ty c flt) s = enter ty False c (Some flt) s"
| "registry_op (ListenOnce ty c) s = enter ty True c None s"
| "registry_op (DropHandle n) s =
    (if n < length (held s) then strike (held s ! n) (s\<lparr>held := take n (held s) @ drop (n + 1) (held s)\<rparr>) else s)"

definition sub_accepts :: "Event \<Rightarrow> 'c Sub \<Rightarrow> bool" where
  "sub_accepts ev x = (case sub_filter x of Some flt \<Rightarrow> flt ev | None \<Rightarrow> True)"

definition subs_of :: "'c Registry \<Rightarrow> string \<Rightarrow> 'c Sub list" where
  "subs_of s ty = filter (\<lambda>x. sub_type x = ty) (subs s)"

definition audience :: "Event \<Rightarrow> 'c Registry \<Rightarrow> 'c Sub list" where
  "audience ev s =
    subs_of s (event_type ev) @ (if event_type ev = ''state_reported'' then [] else subs_of s ''*'')"

definition call_sub :: "('c \<Rightarrow> Event \<Rightarrow> 'c BusOp list) \<Rightarrow> Event \<Rightarrow> 'c Sub \<Rightarrow> 'c Registry \<Rightarrow> 'c Registry \<times> 'c Sub list" where
  "call_sub act ev x s =
    (if \<not> sub_accepts ev x \<or> sub_once x \<and> sub_id x \<notin> sub_id ` set (subs s) then (s, [])
     else (fold registry_op (act (sub_call x) ev) (if sub_once x then strike (sub_id x) s else s), [x]))"

fun call_subs :: "('c \<Rightarrow> Event \<Rightarrow> 'c BusOp list) \<Rightarrow> Event \<Rightarrow> 'c Sub list \<Rightarrow> 'c Registry \<Rightarrow> 'c Registry \<times> 'c Sub list" where
  "call_subs act ev [] s = (s, [])"
| "call_subs act ev (x # xs) s =
    (let (s1, c1) = call_sub act ev x s; (s2, c2) = call_subs act ev xs s1 in (s2, c1 @ c2))"

fun registry_run :: "('c \<Rightarrow> Event \<Rightarrow> 'c BusOp list) \<Rightarrow> 'c BusStep list \<Rightarrow> 'c Registry \<Rightarrow> 'c Registry \<times> 'c Sub list" where
  "registry_run act [] s = (s, [])"
| "registry_run act (Op x # xs) s = registry_run act xs (registry_op x s)"
| "registry_run act (Fire ev # xs) s =
    (let (s1, c1) = call_subs act ev (audience ev s) s; (s2, c2) = registry_run act xs s1 in (s2, c1 @ c2))"

text \<open>The listener a subscription stands for.\<close>

definition as_listener :: "'c Sub \<Rightarrow> 'c Listener" where
  "as_listener x = \<lparr>l_id = sub_id x,
     l_cb = (if sub_once x then Once (sub_type x) (sub_call x) else Plain (sub_call x)), l_filter = sub_filter x\<rparr>"

lemma as_listener_simps [simp]:
  "l_id (as_listener x) = sub_id x" "l_filter (as_listener x) = sub_filter x"
  "is_once (as_listener x) = sub_once x" "accepts ev (as_listener x) = sub_accepts ev x"
  by (simp_all add: as_listener_def is_once.simps accepts_def sub_accepts_def)

definition bus_rel :: "nat set \<Rightarrow> 'c BusInner \<Rightarrow> 'c Registry \<Rightarrow> bool" where
  "bus_rel F b s \<longleftrightarrow> bus_ok F b \<and> (\<forall>i \<in> F. i \<in> fired b)
     \<and> (\<forall>ty. filter (\<lambda>l. l_id l \<notin> F) (listeners_of b ty) = map as_listener (subs_of s ty))
     \<and> next_id b = issued s \<and> map h_id (handles b) = held s"

lemma bus_relD:
  assumes "bus_rel F b s"
  shows "bus_ok F b" "F \<subseteq> fired b" "filter (\<lambda>l. l_id l \<notin> F) (listeners_of b ty) = map as_listener (subs_of s ty)"
    "next_id b = issued s" "map h_id (handles b) = held s"
  using assms by (auto simp: bus_rel_def)

lemma bus_ok_owns: "bus_ok F b \<Longrightarrow> on_bus b ty l \<Longrightarrow> owns b ty (is_once l) (l_id l)"
  unfolding bus_ok_def by blast

lemma subs_of_upd [simp]: "subs_of (s\<lparr>held := hs\<rparr>) = subs_of s"
  by (simp add: subs_of_def fun_eq_iff)

lemma subs_of_strike: "subs_of (strike i s) ty = filter (\<lambda>x. sub_id x \<noteq> i) (subs_of s ty)"
  by (simp add: subs_of_def strike_def conj_commute)

lemma strike_fields [simp]: "issued (strike i s) = issued s" "held (strike i s) = held s"
  by (simp_all add: strike_def)

lemma rel_new: "bus_rel {} InMemoryEventBus_new Registry_new"
  by (simp add: bus_rel_def bus_ok_new) (simp add: InMemoryEventBus_new_def Registry_new_def listeners_of_def subs_of_def)

lemma rel_enter:
  assumes r: "bus_rel F b s" and k: "cb = (if k then Once ty c else Plain c)" "k \<Longrightarrow> flt = None"
  shows "bus_rel F (keep_handle (push_listener ty cb flt b, \<lparr>h_type = ty, h_id = next_id b + 1, h_once = k\<rparr>)) (enter ty k c flt s)"
proof -
  note d = bus_relD [OF r]
  have ok: "bus_ok F (keep_handle (push_listener ty cb flt b, \<lparr>h_type = ty, h_id = next_id b + 1, h_once = k\<rparr>))"
    by (rule bus_ok_keep [OF d(1)]) (use k in \<open>auto simp: wrap_ok_def is_once.simps\<close>)
  have "\<forall>i \<in> fired b. i \<le> issued s" using d(1) unfolding bus_ok_def d(4) by blast
  then have "Suc (issued s) \<notin> F" using d(2) by (metis Suc_n_not_le_n subsetD)
  moreover have "subs_of (enter ty k c flt s) ty' = subs_of s ty' @
      (if ty' = ty then [\<lparr>sub_id = issued s + 1, sub_type = ty, sub_once = k, sub_call = c, sub_filter = flt\<rparr>] else [])" for ty'
    by (simp add: subs_of_def enter_def)
  ultimately show ?thesis
    using d ok k(1) unfolding bus_rel_def keep_handle_def
    by (auto simp: listeners_of_push as_listener_def enter_def subset_iff)
qed

lemma rel_drop:
  assumes r: "bus_rel F b s" and own: "owns b (h_type h) (h_once h) (h_id h)"
  shows "bus_rel F (drop_handle h b) (strike (h_id h) s)"
proof -
  note d = bus_relD [OF r]
  have ok: "bus_ok F (drop_handle h b)" by (rule bus_ok_drop [OF d(1) own])
  have away: "l_id l \<noteq> h_id h" if "l \<in> set (listeners_of b ty)" "ty \<noteq> h_type h" for l ty
    using own that unfolding owns_def on_bus_def by blast
  have gone: "l_id l \<in> F" if "l \<in> set (listeners_of b ty)" "l_id l = h_id h" "h_once h" "h_id h \<in> fired b" for l ty
  proof -
    have "is_once l" using own that unfolding owns_def on_bus_def by blast
    then show ?thesis using d(1) that unfolding bus_ok_def on_bus_def by metis
  qed
  have "filter (\<lambda>l. l_id l \<notin> F) (listeners_of (drop_handle h b) ty) =
      filter (\<lambda>l. l_id l \<noteq> h_id h) (filter (\<lambda>l. l_id l \<notin> F) (listeners_of b ty))" for ty
    using away gone by (auto simp: drop_handle_def listeners_of_remove intro!: filter_cong)
  also have "\<dots> ty = map as_listener (subs_of (strike (h_id h) s) ty)" for ty
    by (simp add: d(3) subs_of_strike filter_map comp_def)
  finally show ?thesis
    using ok d unfolding bus_rel_def by (auto simp: drop_handle_def)
qed

lemma rel_op:
  assumes r: "bus_rel F b s"
  shows "bus_rel F (bus_op x b) (registry_op x s)"
proof (cases x)
  case (DropHandle n)
  define b1 where "b1 = b\<lparr>handles := take n (handles b) @ drop (n + 1) (handles b)\<rparr>"
  define s1 where "s1 = s\<lparr>held := take n (held s) @ drop (n + 1) (held s)\<rparr>"
  note d = bus_relD [OF r]
  have own: "\<forall>h \<in> set (handles b). owns b (h_type h) (h_once h) (h_id h)" using d(1) unfolding bus_ok_def by blast
  have "bus_ok F b1"
    unfolding b1_def by (rule bus_ok_handles [OF d(1)]) (use own in \<open>auto dest: in_set_takeD in_set_dropD\<close>)
  then have "bus_rel F b1 s1"
    using d unfolding bus_rel_def by (auto simp: b1_def s1_def d(5) [symmetric] take_map drop_map)
  from rel_drop [OF this] own
  have "n < length (handles b) \<Longrightarrow> bus_rel F (drop_handle (handles b ! n) b1) (strike (h_id (handles b ! n)) s1)"
    by (simp add: b1_def)
  moreover have "length (held s) = length (handles b)" "n < length (handles b) \<Longrightarrow> held s ! n = h_id (handles b ! n)"
    using d(5) by (metis length_map, metis nth_map)
  ultimately show ?thesis using r DropHandle by (simp add: b1_def s1_def)
next
  case (Listen ty c)
  then show ?thesis using rel_enter [OF r, of "Plain c" False ty c None] by (simp add: async_listen_dyn_def)
next
  case (ListenFiltered ty c flt)
  then show ?thesis using rel_enter [OF r, of "Plain c" False ty c "Some flt"] by (simp add: async_listen_filtered_def)
next
  case (ListenOnce ty c)
  then show ?thesis using rel_enter [OF r, of "Once ty c" True ty c None] by (simp add: async_listen_once_dyn_def)
qed

lemma rel_ops: "bus_rel F b s \<Longrightarrow> bus_rel F (fold bus_op xs b) (fold registry_op xs s)"
  by (induction xs arbitrary: b s) (simp_all add: rel_op)

text \<open>A subscription of the round: its number is its own, and it leaves the table only with its flag set.\<close>

definition tracked :: "'c BusInner \<Rightarrow> 'c Sub \<Rightarrow> bool" where
  "tracked b x \<longleftrightarrow> owns b (sub_type x) (sub_once x) (sub_id x)
     \<and> (sub_once x \<longrightarrow> on_bus b (sub_type x) (as_listener x) \<or> sub_id x \<in> fired b)"

lemma tracked_remove: "tracked b x \<Longrightarrow> i \<noteq> sub_id x \<or> i \<in> fired b \<or> \<not> sub_once x \<Longrightarrow> tracked (remove_listener ty i b) x"
  by (auto simp: tracked_def owns_remove on_bus_remove)

lemma tracked_op:
  assumes ok: "bus_ok F b" and t: "tracked b x"
  shows "tracked (bus_op y b) x"
proof (cases y)
  case (DropHandle n)
  have once: "h_once h" if "h \<in> set (handles b)" "h_id h = sub_id x" "sub_once x" "on_bus b (sub_type x) (as_listener x)" for h
    using ok that unfolding bus_ok_def owns_def by (metis as_listener_simps(1,3))
  have "tracked (drop_handle h (b\<lparr>handles := hs\<rparr>)) x" if "h \<in> set (handles b)" for h hs
  proof (cases "h_once h")
    case True
    have "tracked (b\<lparr>handles := hs, fired := insert (h_id h) (fired b)\<rparr>) x" "tracked (b\<lparr>handles := hs\<rparr>) x"
      using t by (auto simp: tracked_def)
    then show ?thesis using True by (auto simp: drop_handle_def intro!: tracked_remove)
  next
    case False
    then show ?thesis using once [OF that] t by (auto simp: drop_handle_def tracked_def owns_remove on_bus_remove)
  qed
  then show ?thesis using DropHandle t by simp
qed (use t in \<open>auto simp: tracked_def listen_defs owns_push on_bus_push\<close>)

lemma tracked_ops: "bus_ok F b \<Longrightarrow> tracked b x \<Longrightarrow> tracked (fold bus_op ys b) x"
  by (induction ys arbitrary: b) (simp_all add: tracked_op bus_ok_op)

lemma tracked_deliver:
  assumes ok: "bus_ok {} b" and l: "tracked b y" and t: "tracked b x"
  shows "tracked (fst (deliver act ev (as_listener y) b)) x"
proof (cases "sub_once y")
  case False
  then show ?thesis using tracked_ops [OF ok t] t by (auto simp: deliver_def as_listener_def)
next
  case True
  let ?b = "b\<lparr>fired := insert (sub_id y) (fired b)\<rparr>"
  have "bus_ok {sub_id y} ?b" using bus_ok_mark [OF ok] l by (simp add: tracked_def owns_def)
  moreover have "tracked ?b x" using t by (auto simp: tracked_def)
  ultimately have "tracked (fold bus_op xs ?b) x" for xs by (rule tracked_ops)
  moreover have "sub_id y \<in> fired (fold bus_op xs ?b)" for xs using fired_mono_ops [of ?b xs] by auto
  ultimately show ?thesis using True t by (auto simp: deliver_def as_listener_def intro: tracked_remove)
qed

lemma rel_mark:
  assumes r: "bus_rel {} b s" and i: "i \<le> next_id b"
  shows "bus_rel {i} (b\<lparr>fired := insert i (fired b)\<rparr>) (strike i s)"
  using bus_relD [OF r] bus_ok_mark [of "{}" b i] i unfolding bus_rel_def
  by (simp add: subs_of_strike filter_map comp_def)

lemma rel_unmark:
  assumes r: "bus_rel {i} b s" and own: "owns b ty k i"
  shows "bus_rel {} (remove_listener ty i b) s"
proof -
  note d = bus_relD [OF r]
  have "l_id l \<noteq> i" if "l \<in> set (listeners_of b ty')" "ty' \<noteq> ty" for l ty'
    using own that unfolding owns_def on_bus_def by blast
  then have "filter (\<lambda>l. l_id l \<notin> {}) (listeners_of (remove_listener ty i b) ty') = filter (\<lambda>l. l_id l \<notin> {i}) (listeners_of b ty')" for ty'
    by (auto simp: listeners_of_remove intro!: filter_cong filter_True [symmetric])
  then show ?thesis using bus_ok_unmark [of i "{}" b] d own unfolding bus_rel_def by simp
qed

lemma on_bus_rel: "bus_rel {} b s \<Longrightarrow> on_bus b (sub_type x) (as_listener x) \<Longrightarrow> sub_id x \<in> sub_id ` set (subs s)"
proof -
  assume r: "bus_rel {} b s" and "on_bus b (sub_type x) (as_listener x)"
  then have "as_listener x \<in> as_listener ` set (subs_of s (sub_type x))"
    using bus_relD(3) [OF r, of "sub_type x"] by (simp add: on_bus_def)
  then obtain y where "y \<in> set (subs s)" "as_listener y = as_listener x" by (auto simp: subs_of_def)
  then show ?thesis by (metis as_listener_simps(1) image_eqI)
qed

lemma off_bus_rel:
  assumes r: "bus_rel {} b s" and t: "tracked b x" and o: "sub_once x" "sub_id x \<in> fired b"
  shows "sub_id x \<notin> sub_id ` set (subs s)"
proof
  assume "sub_id x \<in> sub_id ` set (subs s)"
  then obtain y where y: "y \<in> set (subs s)" "sub_id y = sub_id x" by force
  then have "as_listener y \<in> set (listeners_of b (sub_type y))"
    using bus_relD(3) [OF r, of "sub_type y"] by (auto simp: subs_of_def)
  moreover from this have "is_once (as_listener y)" using t y o unfolding tracked_def owns_def on_bus_def by fastforce
  ultimately show False using none_fired [OF bus_relD(1) [OF r]] o y by fastforce
qed

lemma rel_call:
  assumes r: "bus_rel {} b s" and t: "tracked b x"
  shows "bus_rel {} (fst (deliver act ev (as_listener x) b)) (fst (call_sub act ev x s))
    \<and> snd (deliver act ev (as_listener x) b) = map as_listener (snd (call_sub act ev x s))"
proof (cases "sub_once x")
  case False
  then show ?thesis
    using rel_ops [OF r] r by (auto simp: deliver_def call_sub_def sub_accepts_def as_listener_def split: option.splits)
next
  case True
  have flag: "sub_id x \<in> fired b \<longleftrightarrow> sub_id x \<notin> sub_id ` set (subs s)"
    using t True off_bus_rel [OF r t True] on_bus_rel [OF r, of x] by (auto simp: tracked_def)
  have own: "owns b (sub_type x) True (sub_id x)" using t True by (simp add: tracked_def)
  let ?b = "fold bus_op (act (sub_call x) ev) (b\<lparr>fired := insert (sub_id x) (fired b)\<rparr>)"
  have "bus_rel {sub_id x} ?b (fold registry_op (act (sub_call x) ev) (strike (sub_id x) s))"
    by (intro rel_ops rel_mark [OF r]) (use own in \<open>simp add: owns_def\<close>)
  from rel_unmark [OF this, of "sub_type x" True] own
  have "bus_rel {} (remove_listener (sub_type x) (sub_id x) ?b) (fold registry_op (act (sub_call x) ev) (strike (sub_id x) s))"
    by (simp add: owns_ops)
  then show ?thesis
    using True flag r by (auto simp: deliver_def call_sub_def sub_accepts_def as_listener_def split: option.splits)
qed

lemma rel_calls:
  "\<lbrakk>bus_rel {} b s; \<forall>x \<in> set xs. tracked b x\<rbrakk> \<Longrightarrow>
    bus_rel {} (fst (deliver_all act ev (map as_listener xs) b)) (fst (call_subs act ev xs s))
    \<and> snd (deliver_all act ev (map as_listener xs) b) = map as_listener (snd (call_subs act ev xs s))"
proof (induction xs arbitrary: b s)
  case (Cons x xs)
  have t: "tracked b x" using Cons.prems by simp
  note c = rel_call [OF Cons.prems(1) t, of act ev]
  have "\<forall>y \<in> set xs. tracked (fst (deliver act ev (as_listener x) b)) y"
    using Cons.prems(2) tracked_deliver [OF bus_relD(1) [OF Cons.prems(1)] t] by simp
  with Cons.IH c have "bus_rel {} (fst (deliver_all act ev (map as_listener xs) (fst (deliver act ev (as_listener x) b))))
      (fst (call_subs act ev xs (fst (call_sub act ev x s))))
    \<and> snd (deliver_all act ev (map as_listener xs) (fst (deliver act ev (as_listener x) b))) =
      map as_listener (snd (call_subs act ev xs (fst (call_sub act ev x s))))" by blast
  then show ?case using c by (simp add: case_prod_beta Let_def)
qed simp

lemma rel_audience:
  assumes r: "bus_rel {} b s"
  shows "combined ev b = map as_listener (audience ev s)" "\<forall>x \<in> set (audience ev s). tracked b x"
proof -
  have l: "listeners_of b ty = map as_listener (subs_of s ty)" for ty using bus_relD(3) [OF r, of ty] by simp
  then show "combined ev b = map as_listener (audience ev s)"
    by (simp add: combined_def audience_def EVENT_STATE_REPORTED_def MATCH_ALL_def)
  have "tracked b x" if "x \<in> set (subs_of s ty)" for x ty
  proof -
    have "on_bus b (sub_type x) (as_listener x)" using that l [of ty] by (auto simp: on_bus_def subs_of_def)
    moreover from this have "owns b (sub_type x) (sub_once x) (sub_id x)"
      using bus_ok_owns [OF bus_relD(1) [OF r]] by fastforce
    ultimately show ?thesis by (simp add: tracked_def)
  qed
  then show "\<forall>x \<in> set (audience ev s). tracked b x" by (auto simp: audience_def split: if_splits)
qed

lemma rel_fire:
  assumes r: "bus_rel {} b s"
  shows "bus_rel {} (fst (fire act ev b)) (fst (call_subs act ev (audience ev s) s))
    \<and> snd (fire act ev b) = map as_listener (snd (call_subs act ev (audience ev s) s))"
  unfolding fire_def rel_audience(1) [OF r] by (rule rel_calls [OF r rel_audience(2) [OF r]])

lemma rel_run:
  "bus_rel {} b s \<Longrightarrow> bus_rel {} (fst (bus_run act steps b)) (fst (registry_run act steps s))
    \<and> snd (bus_run act steps b) = map as_listener (snd (registry_run act steps s))"
proof (induction steps arbitrary: b s)
  case (Cons y ys)
  show ?case
  proof (cases y)
    case (Op x)
    then show ?thesis using Cons.IH [OF rel_op [OF Cons.prems, of x]] by simp
  next
    case (Fire ev)
    then show ?thesis
      using rel_fire [OF Cons.prems, of act ev] Cons.IH [OF rel_fire [OF Cons.prems, of act ev, THEN conjunct1]]
      by (simp add: case_prod_beta Let_def)
  qed
qed simp

text \<open>The round of an event, filters applied, and what a bus whose callbacks leave it alone calls.\<close>

definition heard :: "Event \<Rightarrow> 'c Registry \<Rightarrow> string \<Rightarrow> 'c Sub list" where
  "heard ev s ty = filter (\<lambda>x. sub_type x = ty \<and> sub_accepts ev x) (subs s)"

lemma audience_heard:
  "filter (sub_accepts ev) (audience ev s) =
    heard ev s (event_type ev) @ (if event_type ev = ''state_reported'' then [] else heard ev s ''*'')"
  by (simp add: audience_def heard_def subs_of_def conj_commute)

lemma rel_fire_quiet:
  assumes r: "bus_rel {} b s"
  shows "snd (fire quiet ev b) = map as_listener
    (if event_type ev = ''*'' then heard ev s ''*'' @ filter (\<lambda>x. \<not> sub_once x) (heard ev s ''*'')
     else heard ev s (event_type ev) @ (if event_type ev = ''state_reported'' then [] else heard ev s ''*''))"
proof (cases "event_type ev = ''*''")
  case True
  then show ?thesis
    using fire_quiet_star [OF bus_relD(1) [OF r], of ev] bus_relD(3) [OF r, of "''*''"]
    by (simp add: MATCH_ALL_def heard_def subs_of_def filter_map comp_def conj_commute)
next
  case False
  then show ?thesis
    using fire_quiet_exact [OF bus_relD(1) [OF r], of ev]
    by (simp add: MATCH_ALL_def rel_audience(1) [OF r] filter_map comp_def audience_heard)
qed

abbreviation registry_reached :: "('c \<Rightarrow> Event \<Rightarrow> 'c BusOp list) \<Rightarrow> 'c BusStep list \<Rightarrow> 'c Registry" where
  "registry_reached act steps \<equiv> fst (registry_run act steps Registry_new)"

lemma reached_rel: "bus_rel {} (bus_reached act steps) (registry_reached act steps)"
  using rel_run [OF rel_new] by blast

text \<open>The list is in the order of the numbers.\<close>

definition in_order :: "'c Registry \<Rightarrow> bool" where
  "in_order s \<longleftrightarrow> sorted_wrt (<) (map sub_id (subs s)) \<and> (\<forall>x \<in> set (subs s). sub_id x \<le> issued s)"

lemma in_order_strike: "in_order s \<Longrightarrow> in_order (strike i s)"
  by (auto simp: in_order_def strike_def sorted_wrt_map sorted_wrt_filter)

lemma in_order_op: "in_order s \<Longrightarrow> in_order (registry_op x s)"
  by (cases x) (auto simp: in_order_def enter_def strike_def sorted_wrt_append sorted_wrt_map sorted_wrt_filter le_SucI less_Suc_eq_le)

lemma in_order_ops: "in_order s \<Longrightarrow> in_order (fold registry_op xs s)"
  by (induction xs arbitrary: s) (simp_all add: in_order_op)

lemma in_order_calls: "in_order s \<Longrightarrow> in_order (fst (call_subs act ev xs s))"
  by (induction xs arbitrary: s) (simp_all add: case_prod_beta Let_def call_sub_def in_order_ops in_order_strike)

lemma in_order_run: "in_order s \<Longrightarrow> in_order (fst (registry_run act steps s))"
proof (induction steps arbitrary: s)
  case (Cons y ys)
  then show ?case by (cases y) (simp_all add: case_prod_beta Let_def in_order_op in_order_calls)
qed simp

lemma in_order_reached: "in_order (registry_reached act steps)"
  by (rule in_order_run) (simp add: in_order_def Registry_new_def)

text \<open>
  C32. Delivery of an event. The bus behaves as one list of subscriptions in the order of registration: over
  any subscriptions, dropped handles and events, whatever the callbacks themselves subscribe and drop, it
  calls the listeners that the list calls, in the same order. So an event calls every standing
  subscription of its type whose filter accepts it, in the order of registration, and then, unless the
  event is a state report, every such subscription of the wild card, and what a callback does to the subscriptions
  meanwhile neither adds to the round nor takes a standing subscription out of it; and when the callbacks leave
  the subscriptions alone, those for one event are called in their places too. Only an event whose type is the wild card
  itself goes round the standing subscriptions twice.
\<close>

theorem fire_calls_each_listener:
  "let b = bus_reached act steps; s = registry_reached act steps;
       audible = (\<lambda>ty. filter (\<lambda>x. sub_type x = ty \<and> sub_accepts ev x) (subs s));
       round = audible (event_type ev) @ (if event_type ev = ''state_reported'' then [] else audible ''*'')
   in snd (bus_run act steps InMemoryEventBus_new) = map as_listener (snd (registry_run act steps Registry_new))
    \<and> sorted_wrt (<) (map sub_id (subs s))
    \<and> filter (\<lambda>l. \<not> is_once l) (snd (fire act ev b)) = map as_listener (filter (\<lambda>x. \<not> sub_once x) round)
    \<and> snd (fire quiet ev b) = map as_listener
        (if event_type ev = ''*'' then audible ''*'' @ filter (\<lambda>x. \<not> sub_once x) (audible ''*'') else round)"
proof -
  define b where "b = bus_reached act steps"
  define s where "s = registry_reached act steps"
  have r: "bus_rel {} b s" unfolding b_def s_def by (rule reached_rel)
  have "filter (\<lambda>l. \<not> is_once l) (snd (fire act ev b)) =
      map as_listener (filter (\<lambda>x. \<not> sub_once x) (filter (sub_accepts ev) (audience ev s)))"
    unfolding fire_def deliver_plain by (simp add: rel_audience(1) [OF r] filter_map comp_def conj_commute)
  moreover have "snd (bus_run act steps InMemoryEventBus_new) = map as_listener (snd (registry_run act steps Registry_new))"
    using rel_run [OF rel_new] by blast
  moreover have "sorted_wrt (<) (map sub_id (subs s))"
    using in_order_reached [of act steps] by (simp add: s_def in_order_def)
  ultimately show ?thesis
    unfolding Let_def b_def [symmetric] s_def [symmetric] heard_def [symmetric]
    using rel_fire_quiet [OF r, of ev] by (simp add: audience_heard)
qed

text \<open>
  Dropping a handle removes its own listener and no other: on every reachable bus, after the
  client's \<open>n\<close>-th handle is dropped the listeners of every type are those before, less the one with
  that handle's number.
\<close>

theorem drop_removes_own_listener:
  "let b = bus_reached act steps in
     on_bus (bus_op (DropHandle n) b) ty l =
       (on_bus b ty l \<and> (if n < length (handles b) then l_id l \<noteq> h_id (handles b ! n) else True))"
proof -
  define b where "b = bus_reached act steps"
  have ok: "bus_ok {} b" unfolding b_def by (rule bus_reached_ok)
  have "on_bus (drop_handle h (b\<lparr>handles := hs\<rparr>)) ty l = (on_bus b ty l \<and> l_id l \<noteq> h_id h)"
    if h: "h \<in> set (handles b)" for h hs
  proof -
    have own: "owns b (h_type h) (h_once h) (h_id h)" using ok h unfolding bus_ok_def by blast
    have "\<not> on_bus b ty l" if "h_once h" "h_id h \<in> fired b" "l_id l = h_id h"
      using that own none_fired [OF ok, of l ty] unfolding owns_def on_bus_def by auto
    then show ?thesis using own by (auto simp: drop_handle_def on_bus_remove owns_def)
  qed
  then show ?thesis unfolding b_def [symmetric] Let_def by (simp add: nth_mem)
qed

end
