(* ===== verification/Home_Facts.thy ===== *)
theory Home_Facts
  imports Home_State
begin

text \<open>
  What the state machine of \<open>Home_State\<close> guarantees over any sequence of \<open>async_set\<close>, removals and reservations: the index
  by domain agrees with the table, identifiers are stored in lower case, the three times of a state are
  in order under a clock that does not go back, the fired events tell a listener the whole table, and a
  stored state survives the trip through its dictionary.
\<close>

section \<open>Runs of the machine\<close>

datatype SmOp =
    OpSet string string Attributes bool "Context option" Context int
  | OpRemove string "Context option" int
  | OpReserve string int

fun op_time :: "SmOp \<Rightarrow> int" where
  "op_time (OpSet _ _ _ _ _ _ t) = t"
| "op_time (OpRemove _ _ t) = t"
| "op_time (OpReserve _ t) = t"

fun sm_step :: "Env \<Rightarrow> SmOp \<Rightarrow> StateMachine \<Rightarrow> StateMachine \<times> Event list" where
  "sm_step env (OpSet e s a f c fresh t) sm = (case async_set env e s a f c fresh t sm of (sm', evs, _) \<Rightarrow> (sm', evs))"
| "sm_step env (OpRemove e c t) sm = (case async_remove env e c t sm of (sm', evs, _) \<Rightarrow> (sm', evs))"
| "sm_step env (OpReserve e t) sm = (fst (async_reserve e sm), [])"

fun sm_run :: "Env \<Rightarrow> SmOp list \<Rightarrow> StateMachine \<Rightarrow> StateMachine \<times> Event list" where
  "sm_run env [] sm = (sm, [])"
| "sm_run env (x # xs) sm = (case sm_step env x sm of (sm1, e1) \<Rightarrow>
     (case sm_run env xs sm1 of (sm2, e2) \<Rightarrow> (sm2, e1 @ e2)))"

abbreviation reached :: "Env \<Rightarrow> SmOp list \<Rightarrow> StateMachine" where
  "reached env ops \<equiv> fst (sm_run env ops StateMachine_new)"

section \<open>Lower case and splitting\<close>

lemma to_ascii_lowercase_idem [simp]: "to_ascii_lowercase (to_ascii_lowercase s) = to_ascii_lowercase s"
  by (auto simp: to_ascii_lowercase_def Let_def)

lemma dot_lower [simp]: "(let n = of_char c :: nat in if 65 \<le> n \<and> n \<le> 90 then char_of (n + 32) else c) = CHR ''.'' \<longleftrightarrow> c = CHR ''.''"
proof -
  have "char_of (n + 32 :: nat) \<noteq> CHR ''.''" if "65 \<le> n" "n \<le> 90" for n :: nat
  proof
    assume "char_of (n + 32) = CHR ''.''"
    then have "(of_char (char_of (n + 32) :: char) :: nat) = of_char (CHR ''.'')" by (rule arg_cong)
    then show False using that by simp
  qed
  moreover have "(of_char (CHR ''.'') :: nat) = 46" by simp
  ultimately show ?thesis by (auto simp: Let_def)
qed

lemma split_once_lower:
  "split_once (CHR ''.'') (to_ascii_lowercase s) =
     map_option (\<lambda>(a, b). (to_ascii_lowercase a, to_ascii_lowercase b)) (split_once (CHR ''.'') s)"
proof (induction s)
  case (Cons c cs)
  then show ?case
    by (cases "split_once (CHR ''.'') cs") (auto simp: to_ascii_lowercase_def dot_lower)
qed (simp add: to_ascii_lowercase_def)

lemma split_entity_lower:
  assumes "split_entity_id e = Inr (d, obj)" "to_ascii_lowercase e = e"
  shows "to_ascii_lowercase d = d"
  using assms split_once_lower [of e]
  by (auto simp: split_entity_id_def split: option.splits if_splits prod.splits)

section \<open>The invariant\<close>

definition ids_of_domain :: "States \<Rightarrow> string \<Rightarrow> string set" where
  "ids_of_domain t d = {e. \<exists>s. hm_get (by_entity t) e = Some s \<and> st_domain s = d}"

definition entry_ok :: "string \<Rightarrow> State \<Rightarrow> bool" where
  "entry_ok e s \<longleftrightarrow> entity_id s = e \<and> to_ascii_lowercase e = e
     \<and> split_entity_id e = Inr (st_domain s, object_id s) \<and> length (st_state s) \<le> MAX_LENGTH_STATE_STATE"

definition States_ok :: "States \<Rightarrow> bool" where
  "States_ok t \<longleftrightarrow> hm_ok (by_entity t) \<and> hm_ok (by_domain t)
     \<and> (\<forall>e s. hm_get (by_entity t) e = Some s \<longrightarrow> entry_ok e s)
     \<and> (\<forall>d. hm_get (by_domain t) d = (if ids_of_domain t d = {} then None else Some (ids_of_domain t d)))"

lemma States_ok_default: "States_ok States_default"
  by (simp add: States_ok_def States_default_def ids_of_domain_def)

lemma ids_of_domain_set:
  assumes "\<And>s'. hm_get (by_entity t) (entity_id s) = Some s' \<Longrightarrow> st_domain s' = st_domain s"
  shows "ids_of_domain (States_set s t) d =
    (if d = st_domain s then insert (entity_id s) (ids_of_domain t d) else ids_of_domain t d)"
  using assms by (auto simp: ids_of_domain_def States_set_def)

lemma States_ok_set:
  assumes ok: "States_ok t" and e: "entry_ok (entity_id s) s"
  shows "States_ok (States_set s t)"
proof -
  have same: "st_domain s' = st_domain s" if "hm_get (by_entity t) (entity_id s) = Some s'" for s'
    using that ok e by (auto simp: States_ok_def entry_ok_def)
  have ids: "ids_of_domain (States_set s t) d =
      (if d = st_domain s then insert (entity_id s) (ids_of_domain t d) else ids_of_domain t d)" for d
    by (rule ids_of_domain_set) (rule same)
  have get: "hm_get (by_entity (States_set s t)) k = (if k = entity_id s then Some s else hm_get (by_entity t) k)" for k
    by (auto simp: States_set_def)
  have gd: "hm_get (by_domain t) d = (if ids_of_domain t d = {} then None else Some (ids_of_domain t d))" for d
    using ok by (simp add: States_ok_def)
  have "hm_get (by_domain (States_set s t)) d =
      (if ids_of_domain (States_set s t) d = {} then None else Some (ids_of_domain (States_set s t) d))" for d
    unfolding ids
    by (simp add: States_set_def gd hm.get_insert del: map_of_eq_Some_iff)
  moreover have "hm_ok (by_entity (States_set s t))" "hm_ok (by_domain (States_set s t))"
    using ok by (simp_all add: States_set_def States_ok_def)
  moreover have "entry_ok k v" if "hm_get (by_entity (States_set s t)) k = Some v" for k v
    using that ok e unfolding get States_ok_def by (auto split: if_splits simp del: map_of_eq_Some_iff)
  ultimately show ?thesis by (simp add: States_ok_def del: map_of_eq_Some_iff)
qed

lemma States_remove_get:
  assumes "States_remove e t = (t', Some s)"
  shows "hm_get (by_entity t) e = Some s" and "by_entity t' = hm_remove e (by_entity t)"
  using assms by (auto simp: States_remove_def Let_def split: option.splits if_splits)

lemma States_ok_remove:
  assumes ok: "States_ok t" and r: "States_remove e t = (t', Some s)"
  shows "States_ok t'"
proof -
  note g = States_remove_get [OF r]
  have ids: "ids_of_domain t' d = ids_of_domain t d - {e}" for d
    using g(2) by (auto simp: ids_of_domain_def)
  have other: "d \<noteq> st_domain s \<Longrightarrow> ids_of_domain t d - {e} = ids_of_domain t d" for d
    using g(1) by (auto simp: ids_of_domain_def)
  have mem: "e \<in> ids_of_domain t (st_domain s)"
    using g(1) by (auto simp: ids_of_domain_def)
  have bd: "by_domain t' = (if ids_of_domain t (st_domain s) - {e} = {} then hm_remove (st_domain s) (by_domain t)
      else hm_insert (st_domain s) (ids_of_domain t (st_domain s) - {e}) (by_domain t))"
    using r ok mem by (auto simp: States_remove_def States_ok_def Let_def split: option.splits if_splits)
  have gd: "hm_get (by_domain t) d = (if ids_of_domain t d = {} then None else Some (ids_of_domain t d))" for d
    using ok by (simp add: States_ok_def)
  have "hm_get (by_domain t') d = (if ids_of_domain t' d = {} then None else Some (ids_of_domain t' d))" for d
    unfolding ids bd by (cases "d = st_domain s") (simp_all add: gd other hm.get_insert hm.get_remove del: map_of_eq_Some_iff)
  moreover have "hm_ok (by_domain t')" using ok unfolding bd by (auto simp: States_ok_def)
  ultimately show ?thesis using ok g(2) by (auto simp: States_ok_def)
qed

section \<open>Every operation keeps it\<close>

lemma async_set_cases:
  assumes "async_set env e0 v a f c fresh now sm = (sm', evs, r)"
  obtains (bad) err where "sm' = sm" "evs = []" "r = Inl err"
  | (same) old where "States_get (states sm) (to_ascii_lowercase e0) = Some old"
      "st_state old = v" "\<not> f" "attributes old = a" "length v \<le> MAX_LENGTH_STATE_STATE"
      "sm' = sm\<lparr>states := States_set (old\<lparr>last_reported := now\<rparr>) (states sm)\<rparr>" "r = Inr ()"
      "evs = [\<lparr>event_type = EVENT_STATE_REPORTED,
         ev_data = StateReportedData_json env (to_ascii_lowercase e0) now (last_reported old) (old\<lparr>last_reported := now\<rparr>),
         origin = Local, time_fired = now, ev_context = (case c of Some c \<Rightarrow> c | None \<Rightarrow> fresh)\<rparr>]"
  | (changed) d obj new where
      "split_entity_id (to_ascii_lowercase e0) = Inr (d, obj)" "length v \<le> MAX_LENGTH_STATE_STATE"
      "\<forall>old. States_get (states sm) (to_ascii_lowercase e0) = Some old \<longrightarrow> st_state old \<noteq> v \<or> f \<or> attributes old \<noteq> a"
      "new = \<lparr>entity_id = to_ascii_lowercase e0, st_domain = d, object_id = obj, st_state = v, attributes = a,
         last_changed = (case States_get (states sm) (to_ascii_lowercase e0) of
            Some old \<Rightarrow> if st_state old = v \<and> \<not> f then last_changed old else now | None \<Rightarrow> now),
         last_reported = now, last_updated = now, st_context = (case c of Some c \<Rightarrow> c | None \<Rightarrow> fresh)\<rparr>"
      "sm' = sm\<lparr>states := States_set new (states sm)\<rparr>" "r = Inr ()"
      "evs = [state_changed_event env (to_ascii_lowercase e0)
         (map_option expire (States_get (states sm) (to_ascii_lowercase e0))) (Some new)
         (case c of Some c \<Rightarrow> c | None \<Rightarrow> fresh) now]"
proof (cases "length v > MAX_LENGTH_STATE_STATE")
  case True
  then show thesis using assms bad by (auto simp: async_set_def validate_state_def)
next
  case False
  then show thesis
    using assms bad same changed
    by (simp add: async_set_def validate_state_def async_set_internal_def Let_def
        split: option.splits if_splits sum.splits prod.splits) metis+
qed

lemma expire_id [simp]: "expire s = s"
  by (simp add: expire_def)

lemma async_remove_cases:
  assumes "async_remove env e0 c now sm = (sm', evs, r)"
  obtains (absent) "States_get (states sm) (to_ascii_lowercase e0) = None" "states sm' = states sm" "evs = []" "r = False"
  | (gone) t old where "States_remove (to_ascii_lowercase e0) (states sm) = (t, Some old)" "states sm' = t" "r = True"
      "evs = [state_changed_event env (to_ascii_lowercase e0) (Some (expire old)) None
         (case c of Some c \<Rightarrow> c | None \<Rightarrow> st_context old) now]"
proof (cases "States_remove (to_ascii_lowercase e0) (states sm)")
  case (Pair t o')
  then show thesis
    using assms absent gone
    by (cases o') (auto simp: async_remove_def States_remove_def States_get_def Let_def
        split: option.splits if_splits)
qed

lemma async_reserve_states [simp]: "states (fst (async_reserve e sm)) = states sm"
  by (simp add: async_reserve_def)

lemma sm_step_ok:
  assumes "States_ok (states sm)"
  shows "States_ok (states (fst (sm_step env x sm)))"
proof (cases x)
  case (OpSet e v a f c fresh t)
  obtain sm' evs r where s: "async_set env e v a f c fresh t sm = (sm', evs, r)" by (metis prod_cases3)
  from s have "States_ok (states sm')"
  proof (cases rule: async_set_cases)
    case (same old)
    then have "entry_ok (to_ascii_lowercase e) old" using assms by (simp add: States_ok_def States_get_def)
    then show ?thesis using same States_ok_set [OF assms, of "old\<lparr>last_reported := t\<rparr>"] by (simp add: entry_ok_def)
  next
    case (changed d obj new)
    then show ?thesis using States_ok_set [OF assms, of new] by (simp add: entry_ok_def)
  qed (use assms in simp)
  then show ?thesis using OpSet s by simp
next
  case (OpRemove e c t)
  obtain sm' evs r where s: "async_remove env e c t sm = (sm', evs, r)" by (metis prod_cases3)
  from s have "States_ok (states sm')"
    by (cases rule: async_remove_cases) (use assms States_ok_remove in auto)
  then show ?thesis using OpRemove s by simp
qed (simp add: assms)

lemma sm_run_ok: "States_ok (states sm) \<Longrightarrow> States_ok (states (fst (sm_run env ops sm)))"
proof (induction ops arbitrary: sm)
  case (Cons x xs)
  then show ?case using sm_step_ok [of sm env x] by (simp add: case_prod_beta)
qed simp

lemma reached_ok: "States_ok (states (reached env ops))"
  by (rule sm_run_ok) (simp add: StateMachine_new_def States_ok_default)

lemma domain_ids_scan: "States_ok t \<Longrightarrow> States_domain_entity_ids t d = ids_of_domain t d"
  by (simp add: States_domain_entity_ids_def States_ok_def del: map_of_eq_Some_iff)

lemma scan_all:
  assumes "States_ok t"
  shows "States_all t = {s. \<exists>e. hm_get (by_entity t) e = Some s}"
proof -
  have ok: "hm_ok (by_entity t)" using assms unfolding States_ok_def by blast
  show ?thesis
  proof (intro set_eqI)
    fix s
    have "s \<in> States_all t \<longleftrightarrow> (\<exists>e. (e, s) \<in> set (by_entity t))" by (force simp: States_all_def)
    also have "\<dots> \<longleftrightarrow> (\<exists>e. hm_get (by_entity t) e = Some s)" by (simp only: in_set_hm [OF ok])
    finally show "s \<in> States_all t \<longleftrightarrow> s \<in> {s. \<exists>e. hm_get (by_entity t) e = Some s}" by simp
  qed
qed

section \<open>Times\<close>

definition times_ok :: "int \<Rightarrow> State \<Rightarrow> bool" where
  "times_ok now s \<longleftrightarrow> last_changed s \<le> last_updated s \<and> last_updated s \<le> last_reported s \<and> last_reported s \<le> now"

definition table_times_ok :: "int \<Rightarrow> StateMachine \<Rightarrow> bool" where
  "table_times_ok now sm \<longleftrightarrow> (\<forall>e s. hm_get (by_entity (states sm)) e = Some s \<longrightarrow> times_ok now s)"

lemma table_times_mono: "table_times_ok t sm \<Longrightarrow> t \<le> t' \<Longrightarrow> table_times_ok t' sm"
  unfolding table_times_ok_def times_ok_def by (meson order_trans)

lemma table_times_set:
  "table_times_ok now sm \<Longrightarrow> times_ok now s \<Longrightarrow> table_times_ok now (sm\<lparr>states := States_set s (states sm)\<rparr>)"
  by (simp add: table_times_ok_def States_set_def hm.get_insert del: map_of_eq_Some_iff)

lemma sm_step_times:
  assumes "table_times_ok now sm" "op_time x = now"
  shows "table_times_ok now (fst (sm_step env x sm))"
proof (cases x)
  case (OpSet e v a f c fresh t)
  have at: "times_ok now old" if "States_get (states sm) (to_ascii_lowercase e) = Some old" for old
    using assms(1) that by (simp add: table_times_ok_def States_get_def del: map_of_eq_Some_iff)
  obtain sm' evs r where s: "async_set env e v a f c fresh t sm = (sm', evs, r)" by (metis prod_cases3)
  from s have "table_times_ok now sm'"
  proof (cases rule: async_set_cases)
    case (same old)
    then show ?thesis using table_times_set [OF assms(1)] at [OF same(1)] assms(2) OpSet by (simp add: times_ok_def)
  next
    case (changed d obj new)
    have "times_ok now new"
      using at assms(2) OpSet unfolding changed(4) by (force simp: times_ok_def split: option.splits)
    then show ?thesis using table_times_set [OF assms(1)] changed by simp
  qed (use assms in simp)
  then show ?thesis using OpSet s by simp
next
  case (OpRemove e c t)
  obtain sm' evs r where s: "async_remove env e c t sm = (sm', evs, r)" by (metis prod_cases3)
  from s have "table_times_ok now sm'"
    by (cases rule: async_remove_cases)
      (use assms States_remove_get(2) in \<open>auto simp: table_times_ok_def hm.get_remove simp del: map_of_eq_Some_iff split: if_splits\<close>)
  then show ?thesis using OpRemove s by simp
next
  case (OpReserve e t)
  then show ?thesis using assms(1) by (simp add: table_times_ok_def del: map_of_eq_Some_iff)
qed

lemma sm_run_times:
  "\<lbrakk>table_times_ok t sm; sorted (t # map op_time ops)\<rbrakk> \<Longrightarrow> table_times_ok (last (t # map op_time ops)) (fst (sm_run env ops sm))"
proof (induction ops arbitrary: sm t)
  case (Cons x xs)
  then have "table_times_ok (op_time x) (fst (sm_step env x sm))"
    using table_times_mono [of t sm "op_time x"] sm_step_times [of "op_time x" sm x env] by simp
  from Cons.IH [OF this] Cons.prems(2) show ?case by (simp add: case_prod_beta)
qed simp

section \<open>What the events tell\<close>

text \<open>
  A listener that keeps, for each entity, the last JSON of its state it was sent.
\<close>

definition mirror_step :: "Event \<Rightarrow> (string \<rightharpoonup> Value) \<Rightarrow> (string \<rightharpoonup> Value)" where
  "mirror_step ev m =
    (case (Option.bind (json_get ''entity_id'' (ev_data ev)) json_str, json_get ''new_state'' (ev_data ev)) of
       (Some e, Some JNull) \<Rightarrow> m(e := None)
     | (Some e, Some v) \<Rightarrow> m(e \<mapsto> v)
     | _ \<Rightarrow> m)"

definition mirror :: "Event list \<Rightarrow> (string \<rightharpoonup> Value) \<Rightarrow> (string \<rightharpoonup> Value)" where
  "mirror evs m = fold mirror_step evs m"

definition table_json :: "Env \<Rightarrow> StateMachine \<Rightarrow> string \<rightharpoonup> Value" where
  "table_json env sm e = map_option (State_json env) (States_get (states sm) e)"

lemma mirror_changed [simp]:
  "mirror_step (state_changed_event env e old new c t) m = m(e := map_option (State_json env) new)"
  by (cases new) (auto simp: mirror_step_def state_changed_event_def StateChangedData_json_def State_json_def)

lemma mirror_reported [simp]:
  "mirror_step \<lparr>event_type = ty, ev_data = StateReportedData_json env e r o' s, origin = g, time_fired = t, ev_context = c\<rparr> m
     = m(e \<mapsto> State_json env s)"
  by (auto simp: mirror_step_def StateReportedData_json_def State_json_def)

lemma table_json_set:
  "entity_id s = e \<Longrightarrow> table_json env (sm\<lparr>states := States_set s (states sm)\<rparr>) = (table_json env sm)(e \<mapsto> State_json env s)"
  by (auto simp: table_json_def States_get_def States_set_def hm.get_insert fun_eq_iff simp del: map_of_eq_Some_iff)

lemma sm_step_mirror:
  assumes "States_ok (states sm)"
  shows "mirror (snd (sm_step env x sm)) (table_json env sm) = table_json env (fst (sm_step env x sm))"
proof (cases x)
  case (OpSet e v a f c fresh t)
  obtain sm' evs r where s: "async_set env e v a f c fresh t sm = (sm', evs, r)" by (metis prod_cases3)
  from s have "mirror evs (table_json env sm) = table_json env sm'"
  proof (cases rule: async_set_cases)
    case (same old)
    then have "entity_id old = to_ascii_lowercase e"
      using assms by (simp add: States_ok_def States_get_def entry_ok_def del: map_of_eq_Some_iff)
    then show ?thesis using same by (simp add: mirror_def table_json_set)
  next
    case (changed d obj new)
    then show ?thesis by (simp add: mirror_def table_json_set)
  qed (simp add: mirror_def)
  then show ?thesis using OpSet s by simp
next
  case (OpRemove e c t)
  obtain sm' evs r where s: "async_remove env e c t sm = (sm', evs, r)" by (metis prod_cases3)
  from s have "mirror evs (table_json env sm) = table_json env sm'"
  proof (cases rule: async_remove_cases)
    case (gone t old)
    then show ?thesis
      using States_remove_get [OF gone(1)]
      by (auto simp: mirror_def table_json_def States_get_def hm.get_remove fun_eq_iff simp del: map_of_eq_Some_iff)
  qed (simp add: mirror_def table_json_def fun_eq_iff)
  then show ?thesis using OpRemove s by simp
qed (simp add: mirror_def table_json_def fun_eq_iff)

lemma sm_run_mirror:
  "States_ok (states sm) \<Longrightarrow> mirror (snd (sm_run env ops sm)) (table_json env sm) = table_json env (fst (sm_run env ops sm))"
proof (induction ops arbitrary: sm)
  case (Cons x xs)
  then show ?case
    using sm_step_mirror [of sm env x] sm_step_ok [of sm env x] by (simp add: case_prod_beta mirror_def)
qed (simp add: mirror_def)

section \<open>Properties\<close>

lemma sm_get_lower:
  assumes "States_ok (states sm)"
  shows "sm_get sm e = States_get (states sm) (to_ascii_lowercase e)"
proof (cases "States_get (states sm) e")
  case (Some s)
  then have "to_ascii_lowercase e = e"
    using assms by (simp add: States_ok_def States_get_def entry_ok_def del: map_of_eq_Some_iff)
  then show ?thesis using Some by (simp add: sm_get_def)
qed (simp add: sm_get_def)

text \<open>
  C29. Typing of the entity table: after any sequence of sets (\<open>async_set\<close>), removals and reservations on a
  new machine, with any arguments whatever, every stored state sits under its own identifier, the identifier
  is lower case and splits into the stored domain and object, the value has at most 255 bytes, no key
  occurs twice, and the index holds for each domain exactly the identifiers of that domain, with no
  domain left empty. The public \<open>async_set_internal\<close>, which does not lower-case the identifier, is called only
  through \<open>async_set\<close> here.
\<close>

theorem entity_table_typed: "States_ok (states (reached env ops))"
  by (rule reached_ok)

text \<open>
  C28. The index answers like a scan of the table: on every reachable machine the states of a domain
  are exactly those of all states whose domain is the given name in lower case, the identifiers of a domain are
  the identifiers of these states, and reading an entity in any mixture of cases reads the one state
  stored under the lower-case identifier. Reachable means by \<open>async_set\<close>, \<open>async_remove\<close> and \<open>async_reserve\<close>,
  not by direct calls of \<open>async_set_internal\<close>.
\<close>

theorem domain_query_is_scan:
  "let sm = reached env ops in
     sm_all sm (Some d) = {s \<in> sm_all sm None. st_domain s = to_ascii_lowercase d}
     \<and> sm_entity_ids sm (Some d) = entity_id ` sm_all sm (Some d)
     \<and> sm_entity_ids sm None = entity_id ` sm_all sm None
     \<and> sm_get sm e = sm_get sm (to_ascii_lowercase e)
     \<and> {s. sm_get sm e = Some s} = {s \<in> sm_all sm None. entity_id s = to_ascii_lowercase e}"
proof -
  define sm where "sm = reached env ops"
  have ok: "States_ok (states sm)" unfolding sm_def by (rule reached_ok)
  have key: "entity_id s = k" if "hm_get (by_entity (states sm)) k = Some s" for k s
    using that ok unfolding States_ok_def entry_ok_def by blast
  have mem: "s \<in> sm_all sm None \<longleftrightarrow> hm_get (by_entity (states sm)) (entity_id s) = Some s" for s
    using scan_all [OF ok] key unfolding sm_all_def by (simp del: map_of_eq_Some_iff) metis
  have ids: "States_domain_entity_ids (states sm) k = ids_of_domain (states sm) k" for k
    by (rule domain_ids_scan [OF ok])
  have dom: "sm_all sm (Some d) = {s \<in> sm_all sm None. st_domain s = to_ascii_lowercase d}" (is "?L = ?R")
  proof (intro set_eqI)
    fix s
    have "s \<in> ?L \<longleftrightarrow> (\<exists>k. hm_get (by_entity (states sm)) k = Some s \<and> st_domain s = to_ascii_lowercase d)"
      unfolding sm_all_def ids ids_of_domain_def States_get_def by (auto simp del: map_of_eq_Some_iff)
    also have "\<dots> \<longleftrightarrow> s \<in> ?R" using mem [of s] key by (simp del: map_of_eq_Some_iff) metis
    finally show "s \<in> ?L \<longleftrightarrow> s \<in> ?R" .
  qed
  have "sm_entity_ids sm (Some d) = entity_id ` sm_all sm (Some d)"
  proof (intro set_eqI)
    fix k
    have "k \<in> sm_entity_ids sm (Some d) \<longleftrightarrow>
        (\<exists>s. hm_get (by_entity (states sm)) k = Some s \<and> st_domain s = to_ascii_lowercase d)"
      unfolding sm_entity_ids_def ids ids_of_domain_def by (simp del: map_of_eq_Some_iff)
    also have "\<dots> \<longleftrightarrow> k \<in> entity_id ` sm_all sm (Some d)"
      unfolding dom image_iff by (simp add: mem del: map_of_eq_Some_iff) (metis key)
    finally show "k \<in> sm_entity_ids sm (Some d) \<longleftrightarrow> k \<in> entity_id ` sm_all sm (Some d)" .
  qed
  moreover have "sm_entity_ids sm None = entity_id ` sm_all sm None"
  proof (intro set_eqI)
    fix k
    have "k \<in> sm_entity_ids sm None \<longleftrightarrow> (\<exists>s. hm_get (by_entity (states sm)) k = Some s)"
      unfolding sm_entity_ids_def States_entity_ids_def
      by (simp add: dom_map_of_conv_image_fst [symmetric] domIff del: map_of_eq_Some_iff)
    also have "\<dots> \<longleftrightarrow> k \<in> entity_id ` sm_all sm None"
      unfolding image_iff by (simp add: mem Bex_def del: map_of_eq_Some_iff) (metis key)
    finally show "k \<in> sm_entity_ids sm None \<longleftrightarrow> k \<in> entity_id ` sm_all sm None" .
  qed
  moreover have "{s. sm_get sm e = Some s} = {s \<in> sm_all sm None. entity_id s = to_ascii_lowercase e}"
    unfolding sm_get_lower [OF ok] States_get_def using mem key by (auto simp del: map_of_eq_Some_iff)
  ultimately show ?thesis
    unfolding sm_def [symmetric] Let_def using dom sm_get_lower [OF ok, of e] sm_get_lower [OF ok, of "to_ascii_lowercase e"]
    by simp
qed

text \<open>
  C27. Events tell the whole table: a listener that starts from nothing and, for every event the
  machine fires, keeps the last JSON state it was sent for an entity and forgets the entity when the new
  state is null, holds at every moment exactly the JSON of every stored state, whatever the operations
  were and whether or not they failed.
\<close>

theorem events_tell_the_table:
  "mirror (snd (sm_run env ops StateMachine_new)) Map.empty = table_json env (reached env ops)"
proof -
  have "table_json env StateMachine_new = Map.empty"
    by (simp add: table_json_def StateMachine_new_def States_default_def States_get_def fun_eq_iff)
  then show ?thesis
    using sm_run_mirror [of StateMachine_new env ops] by (simp add: StateMachine_new_def States_ok_default)
qed

text \<open>
  Times of a state: when the clock does not go back, every stored state was changed no later than
  it was updated, updated no later than it was last reported, and reported no later than the last
  operation.
\<close>

theorem state_times_ordered:
  assumes "sorted (map op_time ops)" "ops \<noteq> []" "sm_get (reached env ops) e = Some s"
  shows "last_changed s \<le> last_updated s \<and> last_updated s \<le> last_reported s \<and> last_reported s \<le> op_time (last ops)"
proof -
  have start: "table_times_ok (op_time (hd ops)) StateMachine_new"
    by (simp add: table_times_ok_def StateMachine_new_def States_default_def)
  have "sorted (op_time (hd ops) # map op_time ops)" using assms by (cases ops) auto
  from sm_run_times [OF start this] have "table_times_ok (op_time (last ops)) (reached env ops)"
    using assms(2) by (simp add: last_map)
  then show ?thesis
    using assms(3) unfolding sm_get_lower [OF reached_ok] States_get_def table_times_ok_def times_ok_def by blast
qed

definition demo_env :: Env where
  "demo_env = \<lparr>ts_json = (\<lambda>t. JNumber (NegInt t)), format_iso8601 = (\<lambda>t. Some (show_int t)),
     parse_iso8601 = (\<lambda>s. if s = ''7'' then Some 7 else if s = ''9'' then Some 9 else None)\<rparr>"

definition demo_ops :: "SmOp list" where
  "demo_ops = [OpSet ''Light.Hall'' ''on'' [] False None (Context_with_id ''a'') 7,
     OpSet ''light.hall'' ''on'' [] False None (Context_with_id ''b'') 9]"

theorem state_times_ordered_witness:
  "map_option (\<lambda>s. last_changed s \<le> last_updated s \<and> last_reported s \<le> 9) (sm_get (reached demo_env demo_ops) ''LIGHT.hall'')
     = Some True"
proof -
  obtain s where s: "sm_get (reached demo_env demo_ops) ''LIGHT.hall'' = Some s"
    by (cases "sm_get (reached demo_env demo_ops) ''LIGHT.hall''") (code_simp, simp)
  have "sorted (map op_time demo_ops)" "demo_ops \<noteq> []" "op_time (last demo_ops) = 9"
    by (simp_all add: demo_ops_def)
  then show ?thesis using state_times_ordered [OF _ _ s] s by simp
qed

lemma context_roundtrip: "Context_from_value (Context_json c) = Some c"
  by (cases c) (auto simp: Context_json_def opt_field_def split: option.splits)

text \<open>
  Round trip through the dictionary: where printing a time and parsing it back gives the time, every
  state of a reachable machine is rebuilt exactly by \<open>from_dict\<close> from what \<open>as_dict\<close> wrote, whatever
  context and time the defaults would have been.
\<close>

theorem state_dict_roundtrip:
  assumes iso: "\<forall>t \<in> {last_changed s, last_reported s, last_updated s}. parse_iso8601 env (iso8601 env t) = Some t"
    and s: "sm_get (reached env ops) e = Some s"
  shows "State_from_dict env (State_as_dict env s) fresh now = Inr s"
proof -
  have "entry_ok (to_ascii_lowercase e) s"
    using s reached_ok [of env ops] unfolding sm_get_lower [OF reached_ok] States_get_def States_ok_def by blast
  then show ?thesis
    using iso context_roundtrip [of "st_context s"]
    by (simp add: State_from_dict_def State_as_dict_def str_field_def entry_ok_def Let_def)
qed

theorem state_dict_roundtrip_witness:
  "map_option (\<lambda>s. State_from_dict demo_env (State_as_dict demo_env s) (Context_with_id ''z'') 100)
     (sm_get (reached demo_env demo_ops) ''light.hall'')
   = map_option Inr (sm_get (reached demo_env demo_ops) ''light.hall'')"
proof -
  obtain s where s: "sm_get (reached demo_env demo_ops) ''light.hall'' = Some s"
    by (cases "sm_get (reached demo_env demo_ops) ''light.hall''") (code_simp, simp)
  have "map_option (\<lambda>s. {last_changed s, last_reported s, last_updated s} \<subseteq> {7, 9})
      (sm_get (reached demo_env demo_ops) ''light.hall'') = Some True"
    by code_simp
  moreover have "parse_iso8601 demo_env (iso8601 demo_env 7) = Some 7" "parse_iso8601 demo_env (iso8601 demo_env 9) = Some 9"
    by code_simp+
  ultimately have "\<forall>t \<in> {last_changed s, last_reported s, last_updated s}. parse_iso8601 demo_env (iso8601 demo_env t) = Some t"
    using s by auto
  from state_dict_roundtrip [OF this s] show ?thesis using s by simp
qed

end
