(* ===== verification/Std_Parse.thy ===== *)
theory Std_Parse
  imports Cave_Prelude
begin

text \<open>
  What the crates use of the standard library to read text: \<open>str::parse\<close> at the unsigned integer types
  and \<open>str::trim\<close>, on strings as lists of their bytes.
\<close>

section \<open>Unsigned integers\<close>

definition is_digit :: "char \<Rightarrow> bool" where
  "is_digit c = (let n = of_char c :: nat in 48 \<le> n \<and> n \<le> 57)"

definition digits_val :: "string \<Rightarrow> nat" where
  "digits_val s = foldl (\<lambda>v c. 10 * v + (of_char c - 48)) 0 s"

text \<open>\<open>str::parse\<close> at an unsigned type with the given largest value: an optional plus sign and digits.\<close>

definition parse_uint :: "nat \<Rightarrow> string \<Rightarrow> nat option" where
  "parse_uint mx s =
    (let t = (case s of c # cs \<Rightarrow> if c = CHR ''+'' then cs else s | [] \<Rightarrow> []) in
     if t = [] \<or> \<not> list_all is_digit t \<or> digits_val t > mx then None else Some (digits_val t))"

section \<open>White space\<close>

text \<open>The encodings of the characters that \<open>trim\<close> removes.\<close>

definition white_space :: "nat list list" where
  "white_space = map (\<lambda>n. [n]) [9, 10, 11, 12, 13, 32] @ [[0xC2, 0x85], [0xC2, 0xA0], [0xE1, 0x9A, 0x80]]
     @ map (\<lambda>n. [0xE2, 0x80, n]) ([0x80..<0x8B] @ [0xA8, 0xA9, 0xAF]) @ [[0xE2, 0x81, 0x9F], [0xE3, 0x80, 0x80]]"

fun strip_one :: "nat list list \<Rightarrow> nat list \<Rightarrow> nat list option" where
  "strip_one [] s = None"
| "strip_one (w # ws) s = (if w \<noteq> [] \<and> starts_with s w then Some (drop (length w) s) else strip_one ws s)"

lemma strip_one_less: "strip_one ws s = Some r \<Longrightarrow> length r < length s"
proof (induction ws)
  case (Cons w ws)
  show ?case
  proof (cases "w \<noteq> [] \<and> starts_with s w")
    case True
    then have "length w \<le> length s" "0 < length w"
      by (auto simp: starts_with_def) (metis length_take min.cobounded1)
    then show ?thesis using Cons.prems True by (cases w) auto
  qed (use Cons in auto)
qed simp

function strip_all :: "nat list list \<Rightarrow> nat list \<Rightarrow> nat list" where
  "strip_all ws s = (case strip_one ws s of Some r \<Rightarrow> strip_all ws r | None \<Rightarrow> s)"
  by pat_completeness auto
termination
  by (relation "measure (\<lambda>(ws, s). length s)") (auto simp: strip_one_less)

declare strip_all.simps [simp del]

definition trim :: "string \<Rightarrow> string" where
  "trim s = map char_of (rev (strip_all (map rev white_space) (rev (strip_all white_space (map of_char s)))))"

section \<open>Printing and reading\<close>

text \<open>A printed number is digits only and reads as itself.\<close>

lemma digit_char_code: "d < 10 \<Longrightarrow> (of_char (digit_char d) :: nat) = 48 + d"
  by (simp add: digit_char_def)

lemma digit_char_is_digit: "d < 10 \<Longrightarrow> is_digit (digit_char d)"
  by (simp add: is_digit_def digit_char_code)

lemma show_nat_digits: "list_all is_digit (show_nat n) \<and> show_nat n \<noteq> []"
proof (induction n rule: show_nat.induct)
  case (1 n)
  show ?case
  proof (cases "n < 10")
    case True
    then show ?thesis by (subst (1 2) show_nat.simps) (simp add: digit_char_is_digit)
  next
    case False
    then show ?thesis using 1 by (subst (1 2) show_nat.simps) (simp add: digit_char_is_digit)
  qed
qed

lemma digits_val_append: "digits_val (s @ [c]) = 10 * digits_val s + (of_char c - 48)"
  by (simp add: digits_val_def)

lemma digits_val_show: "digits_val (show_nat n) = n"
proof (induction n rule: show_nat.induct)
  case (1 n)
  show ?case
  proof (cases "n < 10")
    case True
    then show ?thesis by (subst show_nat.simps) (simp add: digits_val_def digit_char_code)
  next
    case False
    then show ?thesis using 1 by (subst show_nat.simps) (simp add: digits_val_append digit_char_code)
  qed
qed

lemma digit_not: "is_digit c \<Longrightarrow> c \<noteq> CHR ''+'' \<and> c \<noteq> CHR ''/'' \<and> c \<noteq> CHR ''.''"
  by (auto simp: is_digit_def Let_def)

lemma parse_show: "n \<le> mx \<Longrightarrow> parse_uint mx (show_nat n) = Some n"
proof -
  assume n: "n \<le> mx"
  obtain c cs where s: "show_nat n = c # cs" using show_nat_digits [of n] by (cases "show_nat n") auto
  then have "c \<noteq> CHR ''+''" using show_nat_digits [of n] digit_not by auto
  then show ?thesis using n s show_nat_digits [of n] digits_val_show [of n] by (simp add: parse_uint_def)
qed

text \<open>Text without white space at either end is not trimmed.\<close>

definition solid :: "char \<Rightarrow> bool" where
  "solid c \<longleftrightarrow> 33 \<le> (of_char c :: nat) \<and> (of_char c :: nat) \<le> 126"

lemma strip_one_solid:
  "\<forall>w \<in> set ws. \<exists>b \<in> set w. b \<le> 32 \<or> b > 126 \<Longrightarrow> \<forall>b \<in> set s. 33 \<le> b \<and> b \<le> 126 \<Longrightarrow> strip_one ws s = None"
proof (induction ws)
  case (Cons w ws)
  have "\<not> starts_with s w"
  proof
    assume "starts_with s w"
    then have "set w \<subseteq> set s" by (metis starts_with_def set_take_subset)
    then show False using Cons.prems by force
  qed
  then show ?case using Cons by simp
qed simp

lemma white_space_hard: "\<forall>w \<in> set white_space. \<exists>b \<in> set w. b \<le> 32 \<or> b > 126"
  by (simp add: white_space_def)

lemma trim_solid:
  assumes "\<forall>c \<in> set s. solid c"
  shows "trim s = s"
proof -
  have a: "\<forall>b \<in> set (map of_char s). 33 \<le> b \<and> b \<le> (126 :: nat)" using assms by (simp add: solid_def)
  have b: "\<forall>w \<in> set (map rev white_space). \<exists>b \<in> set w. b \<le> 32 \<or> b > 126" using white_space_hard by simp
  have c: "\<forall>b \<in> set (rev (map of_char s)). 33 \<le> b \<and> b \<le> (126 :: nat)" using a by simp
  have "strip_all white_space (map of_char s) = map of_char s"
    by (subst strip_all.simps) (simp only: strip_one_solid [OF white_space_hard a] option.case)
  moreover have "strip_all (map rev white_space) (rev (map of_char s)) = rev (map of_char s)"
    by (subst strip_all.simps) (simp only: strip_one_solid [OF b c] option.case)
  ultimately show ?thesis by (simp add: trim_def comp_def)
qed

lemma digit_solid: "is_digit c \<Longrightarrow> solid c"
  by (simp add: is_digit_def solid_def Let_def)

end
