(* ===== verification/Home_Rules.thy ===== *)
theory Home_Rules
  imports Home_Bus Home_Facts Std_Parse
begin

text \<open>
  The rules of the automation core (\<open>automation/triggers.rs\<close>, \<open>automation/conditions.rs\<close> and the part of
  \<open>template.rs\<close> that reads a rendered template as a truth value). The parsers of integers and of binary64
  numbers are those of the standard library: \<open>parse_f64\<close> rounds the decimal to the nearest binary64 value,
  ties to even, and a number is its 64 bits. Rendering a template belongs to the template engine and is
  the argument \<open>render\<close>, which is given the source, the state machine, the time and the variables.
  Arithmetic on \<open>u32\<close> wraps, as in the release build.
\<close>

section \<open>Parsing numbers\<close>

fun floor_log2 :: "nat \<Rightarrow> nat" where
  "floor_log2 n = (if n < 2 then 0 else 1 + floor_log2 (n div 2))"

declare floor_log2.simps [simp del]

definition round_half_even :: "nat \<Rightarrow> nat \<Rightarrow> nat" where
  "round_half_even n d =
    (let q = n div d; r = n mod d in
     if 2 * r < d \<or> 2 * r = d \<and> even q then q else q + 1)"

definition F64_INF :: nat where "F64_INF = 0x7FF0000000000000"

text \<open>The bits of the binary64 value nearest to a positive ratio.\<close>

definition f64_of_ratio :: "nat \<Rightarrow> nat \<Rightarrow> nat" where
  "f64_of_ratio n d =
    (let k = int (floor_log2 n) - int (floor_log2 d);
         fl = (if (if 0 \<le> k then d * 2 ^ nat k \<le> n else d \<le> n * 2 ^ nat (- k)) then k else k - 1);
         e = max (- 1074) (fl - 52);
         q = (if 0 \<le> e then round_half_even n (d * 2 ^ nat e) else round_half_even (n * 2 ^ nat (- e)) d)
     in min F64_INF (nat (e + 1074) * 2 ^ 52 + q))"

definition split_digits :: "string \<Rightarrow> string \<times> string" where
  "split_digits s = (takeWhile is_digit s, dropWhile is_digit s)"

definition parse_exponent :: "string \<Rightarrow> int option" where
  "parse_exponent s =
    (let (neg, t) = (case s of
        c # cs \<Rightarrow> if c = CHR ''-'' then (True, cs) else if c = CHR ''+'' then (False, cs) else (False, s)
      | [] \<Rightarrow> (False, []))
     in if t = [] \<or> \<not> list_all is_digit t then None
        else Some (if neg then - int (digits_val t) else int (digits_val t)))"

definition parse_decimal :: "string \<Rightarrow> nat option" where
  "parse_decimal s =
    (let (ip, r1) = split_digits s;
         (fp, r2) = (case r1 of c # cs \<Rightarrow> if c = CHR ''.'' then split_digits cs else ([], r1) | [] \<Rightarrow> ([], []))
     in if ip = [] \<and> fp = [] then None
        else
          let ex = (case r2 of
              [] \<Rightarrow> Some 0
            | c # cs \<Rightarrow> if c = CHR ''e'' \<or> c = CHR ''E'' then parse_exponent cs else None);
              m = digits_val (ip @ fp)
          in map_option (\<lambda>x. let p = x - int (length fp) in
               if m = 0 then 0 else if 0 \<le> p then f64_of_ratio (m * 10 ^ nat p) 1 else f64_of_ratio m (10 ^ nat (- p))) ex)"

definition F64_NAN :: nat where "F64_NAN = 0x7FF8000000000000"

definition parse_f64 :: "string \<Rightarrow> u64 option" where
  "parse_f64 s =
    (let (neg, t) = (case s of
        c # cs \<Rightarrow> if c = CHR ''-'' then (True, cs) else if c = CHR ''+'' then (False, cs) else (False, s)
      | [] \<Rightarrow> (False, []));
         low = to_ascii_lowercase t;
         mag = (if t = [] then None
                else case parse_decimal t of
                  Some b \<Rightarrow> Some b
                | None \<Rightarrow> if low = ''nan'' then Some F64_NAN
                          else if low = ''inf'' \<or> low = ''infinity'' then Some F64_INF else None)
     in map_option (\<lambda>b. of_nat (if neg then b + 2 ^ 63 else b)) mag)"

definition f64_is_nan :: "u64 \<Rightarrow> bool" where
  "f64_is_nan b = (unat b mod 2 ^ 63 > F64_INF)"

definition f64_key :: "u64 \<Rightarrow> int" where
  "f64_key b = (let m = int (unat b mod 2 ^ 63) in if unat b \<ge> 2 ^ 63 then - m else m)"

definition f64_lt :: "u64 \<Rightarrow> u64 \<Rightarrow> bool" where
  "f64_lt a b = (\<not> f64_is_nan a \<and> \<not> f64_is_nan b \<and> f64_key a < f64_key b)"

section \<open>Templates as truth values\<close>

type_synonym Render = "string \<Rightarrow> StateMachine \<Rightarrow> int \<Rightarrow> Value \<Rightarrow> string + string"

definition render_bool :: "Render \<Rightarrow> string \<Rightarrow> StateMachine \<Rightarrow> int \<Rightarrow> Value \<Rightarrow> HassError + bool" where
  "render_bool render src sm now vars =
    (case render src sm now vars of
       Inl e \<Rightarrow> Inl (TemplateError e)
     | Inr s \<Rightarrow> Inr (to_ascii_lowercase (trim s) \<in> {''true'', ''yes'', ''on'', ''1''}))"

section \<open>Triggers\<close>

datatype Trigger =
    TState string "string option" "string option"
  | TEvent string "Value option"
  | TNumericState string "u64 option" "u64 option"
  | TTemplate string
  | TTime string
  | TTimePattern "string option" "string option" "string option"
  | THomeassistant string

fun subscribed_event_type :: "Trigger \<Rightarrow> string option" where
  "subscribed_event_type (TState _ _ _) = Some EVENT_STATE_CHANGED"
| "subscribed_event_type (TNumericState _ _ _) = Some EVENT_STATE_CHANGED"
| "subscribed_event_type (TTemplate _) = Some EVENT_STATE_CHANGED"
| "subscribed_event_type (TEvent _ _) = None"
| "subscribed_event_type (THomeassistant which) =
    (if which = ''start'' then Some EVENT_HASS_START
     else if which = ''shutdown'' then Some EVENT_HASS_STOP else Some EVENT_HASS_START)"
| "subscribed_event_type (TTime _) = None"
| "subscribed_event_type (TTimePattern _ _ _) = None"

lemma enumerate_size [termination_simp]: "(i, x) \<in> set (enumerate n xs) \<Longrightarrow> size x < Suc (size_list size xs)"
proof -
  assume "(i, x) \<in> set (enumerate n xs)"
  then have "x \<in> set xs" by (auto simp: in_set_enumerate_eq)
  then show ?thesis by (simp add: less_Suc_eq_le size_list_estimation' [of x xs "size x" size])
qed

fun json_subset :: "Value \<Rightarrow> Value \<Rightarrow> bool" where
  "json_subset (JObject e) (JObject a) =
    list_all (\<lambda>(k, ev). case map_of a k of Some av \<Rightarrow> json_subset ev av | None \<Rightarrow> False) e"
| "json_subset (JArray e) (JArray a) =
    list_all (\<lambda>(i, ev). if i < length a then json_subset ev (a ! i) else False) (enumerate 0 e)"
| "json_subset x y = (x = y)"


section \<open>Matching\<close>

definition parse_hms :: "string \<Rightarrow> (nat \<times> nat \<times> nat) option" where
  "parse_hms s =
    (let parts = split_on (CHR '':'') s in
     case parts of
       h # m # r \<Rightarrow>
        (case (parse_uint 255 h, parse_uint 255 m) of
           (Some h', Some m') \<Rightarrow>
             Some (h', m', case r of x # _ \<Rightarrow> (case parse_uint 255 x of Some v \<Rightarrow> v | None \<Rightarrow> 0) | [] \<Rightarrow> 0)
         | _ \<Rightarrow> None)
     | _ \<Rightarrow> None)"

definition cron_match :: "string \<Rightarrow> nat \<Rightarrow> nat \<Rightarrow> bool" where
  "cron_match pattern value mx =
    (if pattern = ''*'' then True
     else
       let literal = (case parse_uint (2 ^ 32 - 1) pattern of Some p \<Rightarrow> p = value | None \<Rightarrow> False) in
       if starts_with pattern ''*/'' then
         (case parse_uint (2 ^ 32 - 1) (drop 2 pattern) of
            Some step \<Rightarrow> step \<noteq> 0 \<and> value mod step = 0 \<and> value \<le> mx
          | None \<Rightarrow> literal)
       else literal)"

definition day_second :: "int \<Rightarrow> nat" where
  "day_second t = nat (unix_timestamp t mod 86400)"

definition t_hour :: "int \<Rightarrow> nat" where "t_hour t = day_second t div 3600"
definition t_minute :: "int \<Rightarrow> nat" where "t_minute t = day_second t mod 3600 div 60"
definition t_second :: "int \<Rightarrow> nat" where "t_second t = day_second t mod 60"

fun matches_tick :: "Trigger \<Rightarrow> int \<Rightarrow> bool" where
  "matches_tick (TTime at) tick = (case parse_hms at of
     Some (h, m, s) \<Rightarrow> t_hour tick = h \<and> t_minute tick = m \<and> t_second tick = s
   | None \<Rightarrow> False)"
| "matches_tick (TTimePattern hours minutes seconds) tick =
    ((case hours of None \<Rightarrow> True | Some h \<Rightarrow> cron_match h (t_hour tick) 23)
     \<and> (case minutes of None \<Rightarrow> True | Some m \<Rightarrow> cron_match m (t_minute tick) 59)
     \<and> (case seconds of None \<Rightarrow> True | Some s \<Rightarrow> cron_match s (t_second tick) 59))"
| "matches_tick _ tick = False"

definition Event_json :: "Env \<Rightarrow> Event \<Rightarrow> Value" where
  "Event_json env ev = JObject [
     (''context'', Context_json (ev_context ev)),
     (''data'', ev_data ev),
     (''event_type'', JString (event_type ev)),
     (''origin'', EventOrigin_json (origin ev)),
     (''time_fired'', ts_json env (time_fired ev))]"

text \<open>The entity of an event, and the value of its old or new state.\<close>

definition event_entity :: "Event \<Rightarrow> string" where
  "event_entity ev = (case Option.bind (json_get ''entity_id'' (ev_data ev)) json_str of Some e \<Rightarrow> e | None \<Rightarrow> [])"

definition event_state :: "string \<Rightarrow> Event \<Rightarrow> string option" where
  "event_state k ev = Option.bind (Option.bind (json_get k (ev_data ev)) (json_get ''state'')) json_str"

definition not_numeric :: "string \<Rightarrow> string \<Rightarrow> HassError" where
  "not_numeric eid s = ConditionError (''entity '' @ eid @ '' state '' @ [CHR 0x27] @ s @ [CHR 0x27] @ '' is not numeric'')"

definition within :: "u64 option \<Rightarrow> u64 option \<Rightarrow> u64 \<Rightarrow> bool" where
  "within lo hi v =
    (if (case lo of Some a \<Rightarrow> \<not> f64_lt a v | None \<Rightarrow> False) then False
     else if (case hi of Some b \<Rightarrow> \<not> f64_lt v b | None \<Rightarrow> False) then False
     else lo \<noteq> None \<or> hi \<noteq> None)"

fun Trigger_matches :: "Env \<Rightarrow> Render \<Rightarrow> int \<Rightarrow> Trigger \<Rightarrow> Event \<Rightarrow> StateMachine option \<Rightarrow> HassError + bool" where
  "Trigger_matches env render now (TState eid frm want) ev sm =
    (if event_type ev \<noteq> EVENT_STATE_CHANGED then Inr False
     else if event_entity ev \<noteq> eid then Inr False
     else if (case frm of Some w \<Rightarrow> event_state ''old_state'' ev \<noteq> Some w | None \<Rightarrow> False) then Inr False
     else if (case want of Some w \<Rightarrow> event_state ''new_state'' ev \<noteq> Some w | None \<Rightarrow> False) then Inr False
     else Inr True)"
| "Trigger_matches env render now (TEvent ty d) ev sm =
    (if event_type ev \<noteq> ty then Inr False
     else case d of Some expected \<Rightarrow> Inr (json_subset expected (ev_data ev)) | None \<Rightarrow> Inr True)"
| "Trigger_matches env render now (TNumericState eid lo hi) ev sm =
    (if event_type ev \<noteq> EVENT_STATE_CHANGED then Inr False
     else if event_entity ev \<noteq> eid then Inr False
     else case (case Option.bind sm (\<lambda>m. sm_get m eid) of
            Some s \<Rightarrow> (case parse_f64 (st_state s) of Some v \<Rightarrow> Inr v | None \<Rightarrow> Inl (not_numeric eid (st_state s)))
          | None \<Rightarrow> (case Option.bind (event_state ''new_state'' ev) parse_f64 of
                Some v \<Rightarrow> Inr v
              | None \<Rightarrow> Inl (ConditionError (''entity '' @ eid @ '' new state is not numeric'')))) of
         Inl e \<Rightarrow> Inl e
       | Inr v \<Rightarrow> Inr (within lo hi v))"
| "Trigger_matches env render now (TTemplate src) ev sm =
    (case sm of
       None \<Rightarrow> Inl (TemplateError ''template trigger needs state machine'')
     | Some m \<Rightarrow> render_bool render src m now (Event_json env ev))"
| "Trigger_matches env render now (THomeassistant which) ev sm =
    Inr (event_type ev = (if which = ''shutdown'' then EVENT_HASS_STOP else EVENT_HASS_START))"
| "Trigger_matches env render now (TTime _) ev sm = Inr False"
| "Trigger_matches env render now (TTimePattern _ _ _) ev sm = Inr False"

section \<open>Conditions\<close>

datatype ConditionStateValue = Single string | Many "string list"

fun csv_matches :: "ConditionStateValue \<Rightarrow> string \<Rightarrow> bool" where
  "csv_matches (Single s) v = (s = v)"
| "csv_matches (Many ss) v = list_ex (\<lambda>s. s = v) ss"

datatype Condition =
    CState string ConditionStateValue
  | CNumericState string "u64 option" "u64 option"
  | CTemplate string
  | CTime "string option" "string option"
  | CAnd "Condition list"
  | COr "Condition list"
  | CNot "Condition list"

definition hms_to_seconds :: "string \<Rightarrow> u32 option" where
  "hms_to_seconds s =
    (let parts = split_on (CHR '':'') s; num = parse_uint (2 ^ 32 - 1) in
     case parts of
       h # m # r \<Rightarrow>
        (case (num h, num m) of
           (Some h', Some m') \<Rightarrow>
             let sec = (case r of x # _ \<Rightarrow> (case num x of Some v \<Rightarrow> v | None \<Rightarrow> 0) | [] \<Rightarrow> 0) in
             Some (of_nat h' * 3600 + of_nat m' * 60 + of_nat sec)
         | _ \<Rightarrow> None)
     | _ \<Rightarrow> None)"

text \<open>The two bounds of a time condition, checked in the order of the code.\<close>

definition time_holds :: "int \<Rightarrow> string option \<Rightarrow> string option \<Rightarrow> HassError + bool" where
  "time_holds now after before =
    (let now_sec = of_nat (t_hour now * 3600 + t_minute now * 60 + t_second now) :: u32 in
     case (case after of
         None \<Rightarrow> Inr True
       | Some a \<Rightarrow> (case hms_to_seconds a of None \<Rightarrow> Inl (ConditionError (''bad after: '' @ a)) | Some v \<Rightarrow> Inr (v \<le> now_sec))) of
       Inl e \<Rightarrow> Inl e
     | Inr False \<Rightarrow> Inr False
     | Inr True \<Rightarrow>
        (case before of
           None \<Rightarrow> Inr True
         | Some b \<Rightarrow> (case hms_to_seconds b of None \<Rightarrow> Inl (ConditionError (''bad before: '' @ b)) | Some v \<Rightarrow> Inr (now_sec < v))))"

text \<open>\<open>evaluate\<close>, and the loops of the three connectives, which stop at the first error or deciding child.\<close>

fun evaluate :: "Render \<Rightarrow> int \<Rightarrow> StateMachine \<Rightarrow> Condition \<Rightarrow> HassError + bool"
and eval_and :: "Render \<Rightarrow> int \<Rightarrow> StateMachine \<Rightarrow> Condition list \<Rightarrow> HassError + bool"
and eval_or :: "Render \<Rightarrow> int \<Rightarrow> StateMachine \<Rightarrow> Condition list \<Rightarrow> HassError + bool"
and eval_not :: "Render \<Rightarrow> int \<Rightarrow> StateMachine \<Rightarrow> Condition list \<Rightarrow> HassError + bool" where
  "evaluate render now sm (CState eid st) =
    Inr (case sm_get sm eid of Some s \<Rightarrow> csv_matches st (st_state s) | None \<Rightarrow> False)"
| "evaluate render now sm (CNumericState eid lo hi) =
    (case sm_get sm eid of
       None \<Rightarrow> Inr False
     | Some s \<Rightarrow> (case parse_f64 (st_state s) of
           None \<Rightarrow> Inl (not_numeric eid (st_state s))
         | Some v \<Rightarrow> Inr (within lo hi v)))"
| "evaluate render now sm (CTemplate src) = render_bool render src sm now JNull"
| "evaluate render now sm (CTime after before) = time_holds now after before"
| "evaluate render now sm (CAnd cs) = eval_and render now sm cs"
| "evaluate render now sm (COr cs) = eval_or render now sm cs"
| "evaluate render now sm (CNot cs) = eval_not render now sm cs"
| "eval_and render now sm [] = Inr True"
| "eval_and render now sm (c # cs) = (case evaluate render now sm c of
     Inl e \<Rightarrow> Inl e | Inr False \<Rightarrow> Inr False | Inr True \<Rightarrow> eval_and render now sm cs)"
| "eval_or render now sm [] = Inr False"
| "eval_or render now sm (c # cs) = (case evaluate render now sm c of
     Inl e \<Rightarrow> Inl e | Inr True \<Rightarrow> Inr True | Inr False \<Rightarrow> eval_or render now sm cs)"
| "eval_not render now sm [] = Inr True"
| "eval_not render now sm (c # cs) = (case evaluate render now sm c of
     Inl e \<Rightarrow> Inl e | Inr True \<Rightarrow> Inr False | Inr False \<Rightarrow> eval_not render now sm cs)"

end
