(* ===== verification/Home_Script.thy ===== *)
theory Home_Script
  imports Home_Rules
begin

text \<open>
  Services, scenes, scripts and the rules' callbacks (\<open>service.rs\<close>, \<open>scene.rs\<close>, \<open>script.rs\<close> and the
  callback of \<open>automation/engine.rs\<close>) over one \<open>Home\<close>: the state machine, the registries and the event
  bus, with the clock and the generator of identifiers. A task started by a callback is put in
  \<open>spawned\<close>; it runs later, on its own. What happens while a script awaits (a service handler, a sleep, a
  trigger) is the argument \<open>out\<close>: it may change the home in any way. A wait that never ends is the outcome
  \<open>Hang\<close>. A callback of another subscriber is \<open>Client\<close>; what it does comes as later operations.
\<close>

section \<open>Scripts, scenes, services, rules\<close>

datatype Action =
    AService string string Value
  | AScene string
  | Delay nat
  | WaitForTrigger Trigger "nat option"
  | Repeat nat "Action list"
  | Choose "ChooseBranch list" "Action list"
  | If Condition "Action list" "Action list"
and ChooseBranch = ChooseBranch "Condition list" "Action list"

record SceneEntry =
  se_entity :: string
  se_state :: string
  se_attributes :: Attributes

record Scene =
  scene_id :: string
  scene_name :: string
  entries :: "SceneEntry list"

definition Scene_new :: "string \<Rightarrow> string \<Rightarrow> Scene" where
  "Scene_new i n = \<lparr>scene_id = i, scene_name = n, entries = []\<rparr>"

definition Scene_add :: "string \<Rightarrow> string \<Rightarrow> Attributes \<Rightarrow> Scene \<Rightarrow> Scene" where
  "Scene_add e s a sc = sc\<lparr>entries := entries sc @ [\<lparr>se_entity = e, se_state = s, se_attributes = a\<rparr>]\<rparr>"

datatype SupportsResponse = NoResponse | Optional | Only

text \<open>A handler is known by a number; running it belongs to \<open>out\<close>.\<close>

record Service =
  svc_domain :: string
  svc_name :: string
  handler :: nat
  schema :: "(Value \<Rightarrow> HassError + Value) option"
  supports_response :: SupportsResponse

record ServiceCall =
  call_domain :: string
  call_service :: string
  call_data :: Value
  call_context :: Context
  return_response :: bool

record AutomationConfig =
  cfg_id :: string
  cfg_alias :: "string option"
  triggers :: "Trigger list"
  conditions :: "Condition list"
  actions :: "Action list"
  cfg_enabled :: bool

record Automation =
  config :: AutomationConfig
  enabled :: bool
  last_triggered :: "int option"
  run_count :: u64
  error_count :: u64

text \<open>What the callback of one trigger of a rule has captured.\<close>

record RuleCb =
  rc_id :: string
  rc_trigger :: Trigger
  rc_conditions :: "Condition list"
  rc_actions :: "Action list"
  rc_name :: string

datatype callback_of = Rule RuleCb | Waiter | Client nat

record Task =
  task_rule :: string
  task_name :: string
  task_actions :: "Action list"
  task_context :: Context

record Home =
  sm :: StateMachine
  services :: "(string, (string, Service) hashmap) hashmap"
  scenes :: "(string, Scene) hashmap"
  bus :: "callback_of BusInner"
  automations :: "(string, Automation) hashmap"
  spawned :: "Task list"
  clock :: int
  fresh_ids :: nat

text \<open>What the home takes from other crates.\<close>

record World =
  w_env :: Env
  w_render :: Render
  w_ulid :: "nat \<Rightarrow> string"

definition Home_new :: Home where
  "Home_new = \<lparr>sm = StateMachine_new, services = [], scenes = [], bus = InMemoryEventBus_new, automations = [],
     spawned = [], clock = 0, fresh_ids = 0\<rparr>"

definition Context_new :: "World \<Rightarrow> Home \<Rightarrow> Home \<times> Context" where
  "Context_new w h = (h\<lparr>fresh_ids := fresh_ids h + 1\<rparr>, Context_with_id (w_ulid w (fresh_ids h)))"

definition unwrap_context :: "World \<Rightarrow> Context option \<Rightarrow> Home \<Rightarrow> Home \<times> Context" where
  "unwrap_context w ctx h = (case ctx of Some c \<Rightarrow> (h, c) | None \<Rightarrow> Context_new w h)"

section \<open>Firing an event\<close>

text \<open>The conditions of a rule, as \<open>all\<close> with a failed evaluation counting as false.\<close>

definition all_hold :: "World \<Rightarrow> Home \<Rightarrow> Condition list \<Rightarrow> bool" where
  "all_hold w h cs =
    list_all (\<lambda>c. case evaluate (w_render w) (clock h) (sm h) c of Inr b \<Rightarrow> b | Inl _ \<Rightarrow> False) cs"

definition rule_callback :: "World \<Rightarrow> Event \<Rightarrow> RuleCb \<Rightarrow> Home \<Rightarrow> Home" where
  "rule_callback w ev r h =
    (if \<not> (case hm_get (automations h) (rc_id r) of Some a \<Rightarrow> enabled a | None \<Rightarrow> False) then h
     else if \<not> (case Trigger_matches (w_env w) (w_render w) (clock h) (rc_trigger r) ev (Some (sm h)) of
         Inr b \<Rightarrow> b | Inl _ \<Rightarrow> False) then h
     else if \<not> all_hold w h (rc_conditions r) then h
     else h\<lparr>spawned := spawned h @
       [\<lparr>task_rule = rc_id r, task_name = rc_name r, task_actions = rc_actions r, task_context = ev_context ev\<rparr>]\<rparr>)"

definition call_back :: "World \<Rightarrow> Event \<Rightarrow> callback_of Listener \<Rightarrow> Home \<Rightarrow> Home" where
  "call_back w ev l h = (case l_cb l of Plain (Rule r) \<Rightarrow> rule_callback w ev r h | _ \<Rightarrow> h)"

definition home_fire :: "World \<Rightarrow> Event \<Rightarrow> Home \<Rightarrow> Home" where
  "home_fire w ev h = (let (b, called) = fire quiet ev (bus h) in fold (call_back w ev) called (h\<lparr>bus := b\<rparr>))"

definition fire_parts :: "World \<Rightarrow> string \<Rightarrow> Value \<Rightarrow> EventOrigin \<Rightarrow> Context \<Rightarrow> Home \<Rightarrow> Home" where
  "fire_parts w ty d g c h = home_fire w (Event_new ty d g c (clock h)) h"

section \<open>The state machine on the bus\<close>

definition home_set ::
  "World \<Rightarrow> string \<Rightarrow> string \<Rightarrow> Attributes \<Rightarrow> bool \<Rightarrow> Context option \<Rightarrow> Home \<Rightarrow> Home \<times> (HassError + unit)" where
  "home_set w e v a f ctx h =
    (let (h1, c) = unwrap_context w ctx h;
         (m, evs, r) = async_set (w_env w) e v a f ctx c (clock h1) (sm h1)
     in (fold (home_fire w) evs (h1\<lparr>sm := m\<rparr>), r))"

definition home_remove :: "World \<Rightarrow> string \<Rightarrow> Context option \<Rightarrow> Home \<Rightarrow> Home \<times> bool" where
  "home_remove w e ctx h =
    (let (m, evs, r) = async_remove (w_env w) e ctx (clock h) (sm h)
     in (fold (home_fire w) evs (h\<lparr>sm := m\<rparr>), r))"

section \<open>Scenes\<close>

fun set_entries :: "World \<Rightarrow> Context \<Rightarrow> SceneEntry list \<Rightarrow> Home \<Rightarrow> Home \<times> (HassError + unit)" where
  "set_entries w c [] h = (h, Inr ())"
| "set_entries w c (x # xs) h =
    (case home_set w (se_entity x) (se_state x) (se_attributes x) False (Some c) h of
       (h1, Inl e) \<Rightarrow> (h1, Inl e)
     | (h1, Inr _) \<Rightarrow> set_entries w c xs h1)"

definition activate :: "World \<Rightarrow> Scene \<Rightarrow> Context option \<Rightarrow> Home \<Rightarrow> Home \<times> (HassError + unit)" where
  "activate w sc ctx h = (let (h1, c) = unwrap_context w ctx h in set_entries w c (entries sc) h1)"

definition scene_register :: "Scene \<Rightarrow> Home \<Rightarrow> Home" where
  "scene_register sc h = h\<lparr>scenes := hm_insert (scene_id sc) sc (scenes h)\<rparr>"

definition scene_get :: "Home \<Rightarrow> string \<Rightarrow> Scene option" where
  "scene_get h i = hm_get (scenes h) i"

definition scene_remove :: "string \<Rightarrow> Home \<Rightarrow> Home \<times> Scene option" where
  "scene_remove i h = (h\<lparr>scenes := hm_remove i (scenes h)\<rparr>, hm_get (scenes h) i)"

definition scene_list :: "Home \<Rightarrow> Scene list" where
  "scene_list h = map snd (scenes h)"

definition scene_activate :: "World \<Rightarrow> string \<Rightarrow> Context option \<Rightarrow> Home \<Rightarrow> Home \<times> (HassError + unit)" where
  "scene_activate w i ctx h = (case scene_get h i of
     None \<Rightarrow> (h, Inl (Other (''unknown scene: '' @ i)))
   | Some sc \<Rightarrow> activate w sc ctx h)"

section \<open>Services\<close>

definition service_lookup :: "Home \<Rightarrow> string \<Rightarrow> string \<Rightarrow> Service option" where
  "service_lookup h d s = Option.bind (hm_get (services h) d) (\<lambda>m. hm_get m s)"

definition has_service :: "Home \<Rightarrow> string \<Rightarrow> string \<Rightarrow> bool" where
  "has_service h d s = (service_lookup h (to_ascii_lowercase d) (to_ascii_lowercase s) \<noteq> None)"

definition service_event :: "string \<Rightarrow> string \<Rightarrow> Value" where
  "service_event d s = JObject [(''domain'', JString d), (''service'', JString s)]"

definition service_register ::
  "World \<Rightarrow> string \<Rightarrow> string \<Rightarrow> nat \<Rightarrow> (Value \<Rightarrow> HassError + Value) option \<Rightarrow> SupportsResponse \<Rightarrow> Home \<Rightarrow> Home" where
  "service_register w d0 s0 hdl sch resp h =
    (let d = to_ascii_lowercase d0; s = to_ascii_lowercase s0;
         svc = \<lparr>svc_domain = d, svc_name = s, handler = hdl, schema = sch, supports_response = resp\<rparr>;
         m = (case hm_get (services h) d of Some m \<Rightarrow> m | None \<Rightarrow> []);
         (h1, c) = Context_new w (h\<lparr>services := hm_insert d (hm_insert s svc m) (services h)\<rparr>)
     in fire_parts w EVENT_SERVICE_REGISTERED (service_event d s) Local c h1)"

definition service_remove :: "World \<Rightarrow> string \<Rightarrow> string \<Rightarrow> Home \<Rightarrow> Home" where
  "service_remove w d0 s0 h =
    (let d = to_ascii_lowercase d0; s = to_ascii_lowercase s0 in
     case hm_get (services h) d of
       None \<Rightarrow> h
     | Some m \<Rightarrow>
        (let removed = (hm_get m s \<noteq> None); m' = hm_remove s m;
             h1 = h\<lparr>services := (if m' = [] then hm_remove d (services h) else hm_insert d m' (services h))\<rparr>
         in if removed then
              let (h2, c) = Context_new w h1 in fire_parts w EVENT_SERVICE_REMOVED (service_event d s) Local c h2
            else h1))"

text \<open>What happens while a script awaits.\<close>

record Outside =
  run_handler :: "Service \<Rightarrow> ServiceCall \<Rightarrow> Home \<Rightarrow> Home \<times> (HassError + Value option)"
  run_sleep :: "nat \<Rightarrow> Home \<Rightarrow> Home"
  run_wait :: "nat option \<Rightarrow> Home \<Rightarrow> Home \<times> (Event \<times> StateMachine \<times> int) list"

definition service_call ::
  "World \<Rightarrow> Outside \<Rightarrow> string \<Rightarrow> string \<Rightarrow> Value option \<Rightarrow> Context option \<Rightarrow> bool \<Rightarrow> Home \<Rightarrow> Home \<times> (HassError + Value option)" where
  "service_call w out d0 s0 data ctx ret h =
    (let d = to_ascii_lowercase d0; s = to_ascii_lowercase s0 in
     case service_lookup h d s of
       None \<Rightarrow> (h, Inl (ServiceNotFound d s))
     | Some svc \<Rightarrow>
        if ret \<and> supports_response svc = NoResponse then
          (h, Inl (ServiceValidationError (d @ ''.'' @ s @ '' does not support return_response=true'')))
        else if \<not> ret \<and> supports_response svc = Only then
          (h, Inl (ServiceValidationError (d @ ''.'' @ s @ '' only returns responses; pass return_response=true'')))
        else
          let raw = (case data of Some v \<Rightarrow> v | None \<Rightarrow> JObject []) in
          case (case schema svc of Some f \<Rightarrow> f raw | None \<Rightarrow> Inr raw) of
            Inl e \<Rightarrow> (h, Inl e)
          | Inr validated \<Rightarrow>
             (let (h1, c) = unwrap_context w ctx h;
                  call = \<lparr>call_domain = d, call_service = s, call_data = validated, call_context = c, return_response = ret\<rparr>;
                  h2 = fire_parts w EVENT_CALL_SERVICE
                    (JObject [(''domain'', JString d), (''service'', JString s), (''service_data'', validated)]) Local c h1
              in run_handler out svc call h2))"

section \<open>Running a script\<close>

datatype Outcome = Ok | Err HassError | Hang

fun outcome_of :: "HassError + 'a \<Rightarrow> Outcome" where
  "outcome_of (Inl e) = Err e"
| "outcome_of (Inr _) = Ok"

definition and_then :: "Home \<times> Outcome \<Rightarrow> (Home \<Rightarrow> Home \<times> Outcome) \<Rightarrow> Home \<times> Outcome" where
  "and_then r f = (case r of (h, Ok) \<Rightarrow> f h | (h, x) \<Rightarrow> (h, x))"

text \<open>
  A wait listens to one event type until an event it hears matches. \<open>run_wait\<close> gives the events fired
  while it waits, with the states and the time at each; with no deadline and no match it goes on.
\<close>

definition wait_for_trigger :: "World \<Rightarrow> Outside \<Rightarrow> Trigger \<Rightarrow> nat option \<Rightarrow> Home \<Rightarrow> Home \<times> Outcome" where
  "wait_for_trigger w out trig timeout h =
    (let ty = (case subscribed_event_type trig of Some t \<Rightarrow> t | None \<Rightarrow> EVENT_STATE_CHANGED);
         (b, hdl) = async_listen_dyn ty Waiter (bus h);
         (h1, seen) = run_wait out timeout (h\<lparr>bus := b\<rparr>);
         done = list_ex (\<lambda>(ev, m, now). event_type ev = ty
           \<and> (case Trigger_matches (w_env w) (w_render w) now trig ev (Some m) of Inr b \<Rightarrow> b | Inl _ \<Rightarrow> False)) seen
     in if done then (h1\<lparr>bus := drop_handle hdl (bus h1)\<rparr>, Ok)
        else case timeout of
          Some _ \<Rightarrow> (h1\<lparr>bus := drop_handle hdl (bus h1)\<rparr>, Err (Other ''wait_for_trigger timed out''))
        | None \<Rightarrow> (h1, Hang))"

text \<open>\<open>try_fold\<close> over the conditions of a branch: a false one stops the evaluation of the rest.\<close>

fun fold_conditions :: "World \<Rightarrow> Home \<Rightarrow> bool \<Rightarrow> Condition list \<Rightarrow> HassError + bool" where
  "fold_conditions w h acc [] = Inr acc"
| "fold_conditions w h acc (c # cs) =
    (if \<not> acc then fold_conditions w h False cs
     else case evaluate (w_render w) (clock h) (sm h) c of Inl e \<Rightarrow> Inl e | Inr b \<Rightarrow> fold_conditions w h b cs)"

primrec repeat_run :: "nat \<Rightarrow> (Home \<Rightarrow> Home \<times> Outcome) \<Rightarrow> Home \<Rightarrow> Home \<times> Outcome" where
  "repeat_run 0 f h = (h, Ok)"
| "repeat_run (Suc n) f h = and_then (f h) (repeat_run n f)"

function (sequential) execute :: "World \<Rightarrow> Outside \<Rightarrow> Context \<Rightarrow> Action \<Rightarrow> Home \<Rightarrow> Home \<times> Outcome"
and run_sequence :: "World \<Rightarrow> Outside \<Rightarrow> Context \<Rightarrow> Action list \<Rightarrow> Home \<Rightarrow> Home \<times> Outcome"
and run_choose :: "World \<Rightarrow> Outside \<Rightarrow> Context \<Rightarrow> ChooseBranch list \<Rightarrow> Action list \<Rightarrow> Home \<Rightarrow> Home \<times> Outcome" where
  "execute w out c (AService d s data) h =
    (case service_call w out d s (Some data) (Some c) False h of (h1, r) \<Rightarrow> (h1, outcome_of r))"
| "execute w out c (AScene i) h =
    (case scene_get h i of
       None \<Rightarrow> (h, Err (Other (''unknown scene: '' @ i)))
     | Some sc \<Rightarrow> (case activate w sc (Some c) h of (h1, r) \<Rightarrow> (h1, outcome_of r)))"
| "execute w out c (Delay ms) h = (run_sleep out ms h, Ok)"
| "execute w out c (WaitForTrigger t timeout) h = wait_for_trigger w out t timeout h"
| "execute w out c (Repeat n xs) h = repeat_run n (\<lambda>h. run_sequence w out c xs h) h"
| "execute w out c (Choose bs dflt) h = run_choose w out c bs dflt h"
| "execute w out c (If cond thn els) h =
    (case evaluate (w_render w) (clock h) (sm h) cond of
       Inl e \<Rightarrow> (h, Err e)
     | Inr True \<Rightarrow> run_sequence w out c thn h
     | Inr False \<Rightarrow> run_sequence w out c els h)"
| "run_sequence w out c [] h = (h, Ok)"
| "run_sequence w out c (x # xs) h = and_then (execute w out c x h) (\<lambda>h1. run_sequence w out c xs h1)"
| "run_choose w out c [] dflt h = run_sequence w out c dflt h"
| "run_choose w out c (ChooseBranch cs xs # bs) dflt h =
    (case fold_conditions w h True cs of
       Inl e \<Rightarrow> (h, Err e)
     | Inr True \<Rightarrow> run_sequence w out c xs h
     | Inr False \<Rightarrow> run_choose w out c bs dflt h)"
  by pat_completeness auto
termination
  by (relation "measure (\<lambda>x. case x of
      Inl (w, out, c, a, h) \<Rightarrow> 2 * size a
    | Inr (Inl (w, out, c, xs, h)) \<Rightarrow> 2 * size_list size xs
    | Inr (Inr (w, out, c, bs, dflt, h)) \<Rightarrow> 2 * size_list size bs + 2 * size_list size dflt + 1)") auto

definition Script_run :: "World \<Rightarrow> Outside \<Rightarrow> Action list \<Rightarrow> Context option \<Rightarrow> Home \<Rightarrow> Home \<times> Outcome" where
  "Script_run w out xs ctx h = (let (h1, c) = unwrap_context w ctx h in run_sequence w out c xs h1)"

end
