(* ===== verification/Home_Engine.thy ===== *)
theory Home_Engine
  imports Home_Script
begin

text \<open>
  The automation engine (\<open>automation/engine.rs\<close>) over the \<open>Home\<close> of \<open>Home_Script\<close>: registering a rule
  subscribes one callback per trigger, a callback starts the rule's script, and the end of the script
  counts the run. The theory closes with the properties of the whole: which rules an event starts, that
  a change of state starts the rules that wait for it, what a scene leaves behind, and that a script is
  the sequence of its unrolled steps.
\<close>

section \<open>Operations\<close>

definition rule_cb :: "AutomationConfig \<Rightarrow> Trigger \<Rightarrow> RuleCb" where
  "rule_cb cfg t = \<lparr>rc_id = cfg_id cfg, rc_trigger = t, rc_conditions = conditions cfg, rc_actions = actions cfg,
     rc_name = (case cfg_alias cfg of Some a \<Rightarrow> a | None \<Rightarrow> cfg_id cfg)\<rparr>"

definition trigger_type :: "Trigger \<Rightarrow> string" where
  "trigger_type t = (case subscribed_event_type t of Some ty \<Rightarrow> ty | None \<Rightarrow> MATCH_ALL)"

definition subscribe :: "AutomationConfig \<Rightarrow> Trigger \<Rightarrow> callback_of BusInner \<Rightarrow> callback_of BusInner" where
  "subscribe cfg t b = bus_op (Listen (trigger_type t) (Rule (rule_cb cfg t))) b"

text \<open>The handles go to the end of the handles that clients hold; dropping the automation's handle drops them.\<close>

definition engine_register :: "AutomationConfig \<Rightarrow> Home \<Rightarrow> Home" where
  "engine_register cfg h =
    (let a = \<lparr>config = cfg, enabled = cfg_enabled cfg, last_triggered = None, run_count = 0, error_count = 0\<rparr> in
     h\<lparr>automations := hm_insert (cfg_id cfg) a (automations h),
       bus := fold (subscribe cfg) (triggers cfg) (bus h)\<rparr>)"

definition set_enabled :: "bool \<Rightarrow> string \<Rightarrow> Home \<Rightarrow> Home \<times> bool" where
  "set_enabled on i h = (case hm_get (automations h) i of
     Some a \<Rightarrow> (h\<lparr>automations := hm_insert i (a\<lparr>enabled := on\<rparr>) (automations h)\<rparr>, True)
   | None \<Rightarrow> (h, False))"

definition engine_disable :: "string \<Rightarrow> Home \<Rightarrow> Home \<times> bool" where
  "engine_disable i h = set_enabled False i h"

definition engine_enable :: "string \<Rightarrow> Home \<Rightarrow> Home \<times> bool" where
  "engine_enable i h = set_enabled True i h"

definition engine_list :: "Home \<Rightarrow> Automation list" where
  "engine_list h = map snd (automations h)"

definition engine_get :: "Home \<Rightarrow> string \<Rightarrow> Automation option" where
  "engine_get h i = hm_get (automations h) i"

definition run_manual :: "World \<Rightarrow> Outside \<Rightarrow> string \<Rightarrow> Context option \<Rightarrow> Home \<Rightarrow> Home \<times> Outcome" where
  "run_manual w out i ctx h = (case hm_get (automations h) i of
     None \<Rightarrow> (h, Err (Other (''unknown automation: '' @ i)))
   | Some a \<Rightarrow> Script_run w out (actions (config a)) ctx h)"

definition count_run :: "string \<Rightarrow> Outcome \<Rightarrow> Home \<Rightarrow> Home" where
  "count_run i r h = (case hm_get (automations h) i of
     None \<Rightarrow> h
   | Some a \<Rightarrow>
      (case r of
         Ok \<Rightarrow> h\<lparr>automations := hm_insert i
           (a\<lparr>run_count := run_count a + 1, last_triggered := Some (clock h)\<rparr>) (automations h)\<rparr>
       | Err _ \<Rightarrow> h\<lparr>automations := hm_insert i (a\<lparr>error_count := error_count a + 1\<rparr>) (automations h)\<rparr>
       | Hang \<Rightarrow> h))"

definition run_task :: "World \<Rightarrow> Outside \<Rightarrow> Task \<Rightarrow> Home \<Rightarrow> Home" where
  "run_task w out t h =
    (let (h1, r) = Script_run w out (task_actions t) (Some (task_context t)) h in count_run (task_rule t) r h1)"

section \<open>Runs of a home\<close>

datatype HomeOp =
    HSet string string Attributes bool "Context option"
  | HRemove string "Context option"
  | HFire string Value EventOrigin Context
  | HRegister AutomationConfig
  | HEnable string
  | HDisable string
  | HDropHandle nat
  | HActivate Scene "Context option"
  | HServiceRegister string string nat "(Value \<Rightarrow> HassError + Value) option" SupportsResponse
  | HServiceRemove string string
  | HTick nat

fun home_op :: "World \<Rightarrow> HomeOp \<Rightarrow> Home \<Rightarrow> Home" where
  "home_op w (HSet e v a f c) h = fst (home_set w e v a f c h)"
| "home_op w (HRemove e c) h = fst (home_remove w e c h)"
| "home_op w (HFire ty d g c) h = fire_parts w ty d g c h"
| "home_op w (HRegister cfg) h = engine_register cfg h"
| "home_op w (HEnable i) h = fst (engine_enable i h)"
| "home_op w (HDisable i) h = fst (engine_disable i h)"
| "home_op w (HDropHandle n) h = h\<lparr>bus := bus_op (DropHandle n) (bus h)\<rparr>"
| "home_op w (HActivate sc c) h = fst (activate w sc c h)"
| "home_op w (HServiceRegister d s hdl sch resp) h = service_register w d s hdl sch resp h"
| "home_op w (HServiceRemove d s) h = service_remove w d s h"
| "home_op w (HTick dt) h = h\<lparr>clock := clock h + int dt\<rparr>"

definition home_run :: "World \<Rightarrow> HomeOp list \<Rightarrow> Home" where
  "home_run w ops = fold (home_op w) ops Home_new"

section \<open>Conditions as one conjunction\<close>

lemma eval_and_true: "eval_and render now m cs = Inr True \<longleftrightarrow> list_all (\<lambda>c. evaluate render now m c = Inr True) cs"
  by (induction cs) (auto split: sum.splits bool.splits)

lemma eval_or_false: "eval_or render now m cs = Inr False \<longleftrightarrow> list_all (\<lambda>c. evaluate render now m c = Inr False) cs"
  by (induction cs) (auto split: sum.splits bool.splits)

lemma eval_not_or: "eval_not render now m cs = map_sum (\<lambda>e. e) Not (eval_or render now m cs)"
  by (induction cs) (auto split: sum.splits bool.splits)

lemma eval_and_de_morgan:
  "eval_and render now m cs = map_sum (\<lambda>e. e) Not (eval_or render now m (map (\<lambda>c. CNot [c]) cs))"
  by (induction cs) (auto split: sum.splits bool.splits)

lemma all_hold_and: "all_hold w h cs \<longleftrightarrow> evaluate (w_render w) (clock h) (sm h) (CAnd cs) = Inr True"
  unfolding all_hold_def by (induction cs) (auto split: sum.splits bool.splits)

lemma fold_conditions_false: "fold_conditions w h False cs = Inr False"
  by (induction cs) auto

lemma fold_conditions_and: "fold_conditions w h True cs = evaluate (w_render w) (clock h) (sm h) (CAnd cs)"
  by (induction cs) (auto simp: fold_conditions_false split: sum.splits bool.splits)

text \<open>
  The logic of conditions: a conjunction is true exactly when every child is true, a disjunction is
  false exactly when every child is false, negation is the negation of the disjunction, De Morgan's law
  holds with errors kept, and the two places that check a list of conditions, the rule's callback and a
  branch of a choice, decide as the conjunction of the list does.
\<close>

theorem condition_logic:
  "(evaluate render now m (CAnd cs) = Inr True) = list_all (\<lambda>c. evaluate render now m c = Inr True) cs
   \<and> (evaluate render now m (COr cs) = Inr False) = list_all (\<lambda>c. evaluate render now m c = Inr False) cs
   \<and> evaluate render now m (CNot cs) = map_sum (\<lambda>e. e) Not (evaluate render now m (COr cs))
   \<and> evaluate render now m (CAnd cs) = map_sum (\<lambda>e. e) Not (evaluate render now m (COr (map (\<lambda>c. CNot [c]) cs)))
   \<and> all_hold w h cs = (evaluate (w_render w) (clock h) (sm h) (CAnd cs) = Inr True)
   \<and> fold_conditions w h True cs = evaluate (w_render w) (clock h) (sm h) (CAnd cs)"
  using eval_and_true [of render now m cs] eval_or_false [of render now m cs] eval_not_or [of render now m cs]
    eval_and_de_morgan [of render now m cs] all_hold_and [of w h cs] fold_conditions_and [of w h cs]
  by simp

section \<open>What a round of callbacks starts\<close>

definition rule_fires :: "World \<Rightarrow> Event \<Rightarrow> Home \<Rightarrow> RuleCb \<Rightarrow> bool" where
  "rule_fires w ev h r \<longleftrightarrow>
     (case hm_get (automations h) (rc_id r) of Some a \<Rightarrow> enabled a | None \<Rightarrow> False)
   \<and> Trigger_matches (w_env w) (w_render w) (clock h) (rc_trigger r) ev (Some (sm h)) = Inr True
   \<and> evaluate (w_render w) (clock h) (sm h) (CAnd (rc_conditions r)) = Inr True"

definition task_of :: "Event \<Rightarrow> RuleCb \<Rightarrow> Task" where
  "task_of ev r = \<lparr>task_rule = rc_id r, task_name = rc_name r, task_actions = rc_actions r, task_context = ev_context ev\<rparr>"

text \<open>The rule a listener belongs to, if it is a rule's callback.\<close>

definition rule_of :: "callback_of Listener \<Rightarrow> RuleCb list" where
  "rule_of l = (case l_cb l of Plain (Rule r) \<Rightarrow> [r] | _ \<Rightarrow> [])"

definition tasks_of :: "World \<Rightarrow> Event \<Rightarrow> Home \<Rightarrow> callback_of Listener list \<Rightarrow> Task list" where
  "tasks_of w ev h ls = map (task_of ev) (filter (rule_fires w ev h) (concat (map rule_of ls)))"

lemma rule_callback_eq:
  "rule_callback w ev r h = h\<lparr>spawned := spawned h @ (if rule_fires w ev h r then [task_of ev r] else [])\<rparr>"
  by (auto simp: rule_callback_def rule_fires_def task_of_def all_hold_and split: option.splits sum.splits)

lemma call_back_eq: "call_back w ev l h = h\<lparr>spawned := spawned h @ tasks_of w ev h [l]\<rparr>"
  by (auto simp: call_back_def tasks_of_def rule_of_def rule_callback_eq split: callback.splits callback_of.splits)

lemma tasks_of_spawned [simp]:
  "tasks_of w ev (h\<lparr>spawned := ts\<rparr>) = tasks_of w ev h" "tasks_of w ev (h\<lparr>bus := b\<rparr>) = tasks_of w ev h"
  by (simp_all add: tasks_of_def rule_fires_def fun_eq_iff cong: filter_cong)

lemma tasks_of_Cons: "tasks_of w ev h (l # ls) = tasks_of w ev h [l] @ tasks_of w ev h ls"
  by (simp add: tasks_of_def)

lemma tasks_of_append [simp]:
  "tasks_of w ev h [] = []" "tasks_of w ev h (xs @ ys) = tasks_of w ev h xs @ tasks_of w ev h ys"
  by (simp_all add: tasks_of_def)

lemma fold_call_back: "fold (call_back w ev) ls h = h\<lparr>spawned := spawned h @ tasks_of w ev h ls\<rparr>"
proof (induction ls arbitrary: h)
  case (Cons l ls)
  have "fold (call_back w ev) (l # ls) h = fold (call_back w ev) ls (h\<lparr>spawned := spawned h @ tasks_of w ev h [l]\<rparr>)"
    by (simp only: fold_simps call_back_eq)
  then show ?case by (simp only: Cons.IH) (simp add: tasks_of_Cons [of w ev h l ls])
qed (simp add: tasks_of_def)

lemma home_fire_eq:
  "home_fire w ev h = h\<lparr>bus := fst (fire quiet ev (bus h)), spawned := spawned h @ tasks_of w ev h (snd (fire quiet ev (bus h)))\<rparr>"
  by (simp add: home_fire_def case_prod_beta Let_def fold_call_back)

section \<open>Every operation keeps the home in order\<close>

definition home_ok :: "Home \<Rightarrow> bool" where
  "home_ok h \<longleftrightarrow> bus_ok {} (bus h) \<and> States_ok (states (sm h))"

lemma home_ok_fire: "home_ok h \<Longrightarrow> home_ok (home_fire w ev h)"
  by (simp add: home_ok_def home_fire_eq bus_ok_fire)

lemma home_ok_fires: "home_ok h \<Longrightarrow> home_ok (fold (home_fire w) evs h)"
  by (induction evs arbitrary: h) (simp_all add: home_ok_fire)

lemma unwrap_context_fields:
  "unwrap_context w ctx h = (h1, c) \<Longrightarrow> sm h1 = sm h \<and> bus h1 = bus h \<and> clock h1 = clock h
     \<and> automations h1 = automations h \<and> spawned h1 = spawned h \<and> (case ctx of Some x \<Rightarrow> c = x | None \<Rightarrow> True)"
  by (auto simp: unwrap_context_def Context_new_def split: option.splits)

lemma home_ok_set:
  assumes "home_ok h"
  shows "home_ok (fst (home_set w e v a f ctx h))"
proof -
  obtain h1 c where u: "unwrap_context w ctx h = (h1, c)" by fastforce
  obtain m evs r where s: "async_set (w_env w) e v a f ctx c (clock h1) (sm h1) = (m, evs, r)" by (metis prod_cases3)
  have "States_ok (states m)"
    using sm_step_ok [of "sm h1" "w_env w" "OpSet e v a f ctx c (clock h1)"] assms unwrap_context_fields [OF u] s
    by (simp add: home_ok_def)
  then have "home_ok (h1\<lparr>sm := m\<rparr>)" using assms unwrap_context_fields [OF u] by (simp add: home_ok_def)
  then show ?thesis using u s by (simp add: home_set_def home_ok_fires)
qed

lemma home_ok_remove:
  assumes "home_ok h"
  shows "home_ok (fst (home_remove w e ctx h))"
proof -
  obtain m evs r where s: "async_remove (w_env w) e ctx (clock h) (sm h) = (m, evs, r)" by (metis prod_cases3)
  have "States_ok (states m)"
    using sm_step_ok [of "sm h" "w_env w" "OpRemove e ctx (clock h)"] assms s by (simp add: home_ok_def)
  then have "home_ok (h\<lparr>sm := m\<rparr>)" using assms by (simp add: home_ok_def)
  then show ?thesis using s by (simp add: home_remove_def home_ok_fires)
qed

lemma home_ok_entries: "home_ok h \<Longrightarrow> home_ok (fst (set_entries w c xs h))"
proof (induction xs arbitrary: h)
  case (Cons x xs)
  then show ?case
    using home_ok_set [OF Cons.prems, of w "se_entity x" "se_state x" "se_attributes x" False "Some c"]
    by (auto split: prod.splits sum.splits)
qed simp

lemma home_ok_fields:
  "home_ok h \<Longrightarrow> bus h' = bus h \<Longrightarrow> sm h' = sm h \<Longrightarrow> home_ok h'"
  by (simp add: home_ok_def)

text \<open>The subscriptions of a rule, as a client of the bus.\<close>

definition subscriptions :: "AutomationConfig \<Rightarrow> (string \<times> callback_of) list" where
  "subscriptions cfg = map (\<lambda>t. (trigger_type t, Rule (rule_cb cfg t))) (triggers cfg)"

lemma fold_subscribe: "fold (subscribe cfg) (triggers cfg) b = memory_bus.listens (subscriptions cfg) b"
  by (simp add: memory_bus.listens_def subscriptions_def fold_map comp_def subscribe_def [abs_def] del: bus_op.simps)

lemma home_ok_parts: "home_ok h \<Longrightarrow> home_ok (fire_parts w ty d g c h)"
  by (simp add: fire_parts_def home_ok_fire)

lemma home_ok_op:
  assumes "home_ok h"
  shows "home_ok (home_op w x h)"
proof (cases x)
  case (HActivate sc ctx)
  obtain h1 c where u: "unwrap_context w ctx h = (h1, c)" by fastforce
  then have "home_ok h1" using assms unwrap_context_fields [OF u] by (simp add: home_ok_def)
  then show ?thesis using HActivate u home_ok_entries by (simp add: activate_def)
next
  case (HServiceRegister d s hdl sch resp)
  then show ?thesis
    using assms by (auto simp: service_register_def Context_new_def Let_def home_ok_def [of h] home_ok_def [of "_\<lparr>fresh_ids := _\<rparr>"]
        intro!: home_ok_parts)
next
  case (HServiceRemove d s)
  then show ?thesis
    using assms by (auto simp: service_remove_def Context_new_def Let_def intro!: home_ok_parts intro: home_ok_fields split: option.splits)
next
  case (HRegister cfg)
  then show ?thesis using assms by (simp add: engine_register_def Let_def home_ok_def fold_subscribe memory_bus.ok_listens)
next
  case (HDropHandle n)
  then show ?thesis using assms by (simp add: home_ok_def bus_ok_op del: bus_op.simps)
next
  case (HEnable i)
  then show ?thesis using assms by (auto simp: engine_enable_def set_enabled_def home_ok_def split: option.splits)
next
  case (HDisable i)
  then show ?thesis using assms by (auto simp: engine_disable_def set_enabled_def home_ok_def split: option.splits)
next
  case (HTick dt)
  then show ?thesis using assms by (simp add: home_ok_def)
qed (simp_all add: assms home_ok_set home_ok_remove home_ok_parts)

lemma home_run_ok: "home_ok (home_run w ops)"
proof -
  have "home_ok h \<Longrightarrow> home_ok (fold (home_op w) ops h)" for h
    by (induction ops arbitrary: h) (simp_all add: home_ok_op)
  moreover have "home_ok Home_new"
    by (simp add: home_ok_def Home_new_def bus_ok_new StateMachine_new_def States_ok_default)
  ultimately show ?thesis by (simp add: home_run_def)
qed

section \<open>The rules that listen\<close>

text \<open>
  The triggers that are subscribed after a history, each with its rule, from the history alone: registering
  a rule adds its triggers, in their order, and dropping the \<open>n\<close>-th handle takes the \<open>n\<close>-th of them out.
\<close>

fun rules_op :: "HomeOp \<Rightarrow> (AutomationConfig \<times> Trigger) list \<Rightarrow> (AutomationConfig \<times> Trigger) list" where
  "rules_op (HRegister cfg) rs = rs @ map (\<lambda>t. (cfg, t)) (triggers cfg)"
| "rules_op (HDropHandle n) rs = take n rs @ drop (n + 1) rs"
| "rules_op _ rs = rs"

definition live_rules :: "HomeOp list \<Rightarrow> (AutomationConfig \<times> Trigger) list" where
  "live_rules ops = fold rules_op ops []"

text \<open>Whether a trigger answers an event, whatever it is subscribed to.\<close>

fun answers :: "World \<Rightarrow> Event \<Rightarrow> Home \<Rightarrow> Trigger \<Rightarrow> bool" where
  "answers w ev h (TState e frm want) \<longleftrightarrow> event_type ev = ''state_changed'' \<and> event_entity ev = e
     \<and> (frm = None \<or> event_state ''old_state'' ev = frm) \<and> (want = None \<or> event_state ''new_state'' ev = want)"
| "answers w ev h (TNumericState e lo hi) \<longleftrightarrow> event_type ev = ''state_changed'' \<and> event_entity ev = e
     \<and> (\<exists>v. (case sm_get (sm h) e of Some s \<Rightarrow> parse_f64 (st_state s)
            | None \<Rightarrow> Option.bind (event_state ''new_state'' ev) parse_f64) = Some v
          \<and> pred_option (\<lambda>a. f64_lt a v) lo \<and> pred_option (\<lambda>b. f64_lt v b) hi \<and> (lo, hi) \<noteq> (None, None))"
| "answers w ev h (TTemplate src) \<longleftrightarrow> event_type ev = ''state_changed''
     \<and> render_bool (w_render w) src (sm h) (clock h) (Event_json (w_env w) ev) = Inr True"
| "answers w ev h (TEvent ty d) \<longleftrightarrow> event_type ev = ty \<and> ty \<noteq> ''state_reported''
     \<and> pred_option (\<lambda>x. json_subset x (ev_data ev)) d"
| "answers w ev h (THomeassistant which) \<longleftrightarrow>
     event_type ev = (if which = ''shutdown'' then ''homeassistant_stop'' else ''homeassistant_start'')"
| "answers w ev h (TTime _) \<longleftrightarrow> False"
| "answers w ev h (TTimePattern _ _ _) \<longleftrightarrow> False"

definition rule_enabled :: "Home \<Rightarrow> string \<Rightarrow> bool" where
  "rule_enabled h i \<longleftrightarrow> (case hm_get (automations h) i of Some a \<Rightarrow> enabled a | None \<Rightarrow> False)"

definition conditions_hold :: "World \<Rightarrow> Home \<Rightarrow> AutomationConfig \<Rightarrow> bool" where
  "conditions_hold w h cfg \<longleftrightarrow> list_all (\<lambda>c. evaluate (w_render w) (clock h) (sm h) c = Inr True) (conditions cfg)"

definition started :: "World \<Rightarrow> Event \<Rightarrow> Home \<Rightarrow> AutomationConfig \<times> Trigger \<Rightarrow> bool" where
  "started w ev h x \<longleftrightarrow> rule_enabled h (cfg_id (fst x)) \<and> answers w ev h (snd x) \<and> conditions_hold w h (fst x)"

definition task_for :: "Context \<Rightarrow> AutomationConfig \<times> Trigger \<Rightarrow> Task" where
  "task_for c x = \<lparr>task_rule = cfg_id (fst x),
     task_name = (case cfg_alias (fst x) of Some a \<Rightarrow> a | None \<Rightarrow> cfg_id (fst x)),
     task_actions = actions (fst x), task_context = c\<rparr>"

fun event_trigger :: "Trigger \<Rightarrow> bool" where
  "event_trigger (TEvent _ _) \<longleftrightarrow> True"
| "event_trigger _ \<longleftrightarrow> False"

definition starts :: "World \<Rightarrow> Event \<Rightarrow> Home \<Rightarrow> (AutomationConfig \<times> Trigger) list \<Rightarrow> (AutomationConfig \<times> Trigger) list" where
  "starts w ev h rs =
    (let xs = filter (started w ev h) rs; es = filter (event_trigger \<circ> snd) xs
     in filter (Not \<circ> event_trigger \<circ> snd) xs @ es @ (if event_type ev = ''*'' then es else []))"

text \<open>The bus of a home holds the triggers of the history and nothing else.\<close>

definition sub_for :: "callback_of Sub \<Rightarrow> AutomationConfig \<times> Trigger \<Rightarrow> bool" where
  "sub_for x r \<longleftrightarrow> sub_call x = Rule (rule_cb (fst r) (snd r)) \<and> sub_type x = trigger_type (snd r)
     \<and> \<not> sub_once x \<and> sub_filter x = None"

definition bus_holds :: "callback_of BusInner \<Rightarrow> (AutomationConfig \<times> Trigger) list \<Rightarrow> bool" where
  "bus_holds b rs \<longleftrightarrow>
    (\<exists>s. bus_rel {} b s \<and> in_order s \<and> held s = map sub_id (subs s) \<and> list_all2 sub_for (subs s) rs)"

lemma call_subs_quiet: "\<forall>x \<in> set xs. \<not> sub_once x \<Longrightarrow> fst (call_subs quiet ev xs s) = s"
  by (induction xs) (simp_all add: case_prod_beta Let_def call_sub_def)

lemma subs_plain: "list_all2 sub_for xs rs \<Longrightarrow> \<forall>x \<in> set xs. \<not> sub_once x"
  by (auto simp: list_all2_conv_all_nth sub_for_def in_set_conv_nth)

lemma bus_holds_fire: "bus_holds b rs \<Longrightarrow> bus_holds (fst (fire quiet ev b)) rs"
proof -
  assume "bus_holds b rs"
  then obtain s where s: "bus_rel {} b s" "in_order s" "held s = map sub_id (subs s)" "list_all2 sub_for (subs s) rs"
    by (auto simp: bus_holds_def)
  have "\<forall>x \<in> set (audience ev s). \<not> sub_once x"
    using subs_plain [OF s(4)] by (auto simp: audience_def subs_of_def split: if_splits)
  then show ?thesis
    using rel_fire [OF s(1), of quiet ev] s(2-4) by (auto simp: bus_holds_def call_subs_quiet)
qed

lemma bus_holds_subscribe: "bus_holds b rs \<Longrightarrow> bus_holds (subscribe cfg t b) (rs @ [(cfg, t)])"
proof -
  assume "bus_holds b rs"
  then obtain s where s: "bus_rel {} b s" "in_order s" "held s = map sub_id (subs s)" "list_all2 sub_for (subs s) rs"
    by (auto simp: bus_holds_def)
  let ?op = "Listen (trigger_type t) (Rule (rule_cb cfg t))"
  have "held (registry_op ?op s) = map sub_id (subs (registry_op ?op s))" using s(3) by (simp add: enter_def)
  moreover have "list_all2 sub_for (subs (registry_op ?op s)) (rs @ [(cfg, t)])"
    using s(4) by (simp add: enter_def list_all2_appendI sub_for_def)
  ultimately show ?thesis
    using rel_op [OF s(1), of ?op] in_order_op [OF s(2), of ?op] unfolding bus_holds_def subscribe_def by blast
qed

lemma bus_holds_register: "bus_holds b rs \<Longrightarrow> bus_holds (fold (subscribe cfg) ts b) (rs @ map (\<lambda>t. (cfg, t)) ts)"
proof (induction ts arbitrary: b rs)
  case (Cons t ts)
  then show ?case using Cons.IH [OF bus_holds_subscribe [OF Cons.prems, of cfg t]] by simp
qed simp

lemma filter_but_nth:
  "distinct (map f xs) \<Longrightarrow> n < length xs \<Longrightarrow> filter (\<lambda>x. f x \<noteq> f (xs ! n)) xs = take n xs @ drop (n + 1) xs"
proof (induction xs arbitrary: n)
  case (Cons x xs)
  show ?case
  proof (cases n)
    case 0
    then show ?thesis using Cons.prems by (auto intro!: filter_True) (metis image_eqI)
  next
    case (Suc m)
    then show ?thesis using Cons by (auto simp: image_iff)
  qed
qed simp

lemma bus_holds_drop: "bus_holds b rs \<Longrightarrow> bus_holds (bus_op (DropHandle n) b) (take n rs @ drop (n + 1) rs)"
proof -
  assume "bus_holds b rs"
  then obtain s where s: "bus_rel {} b s" "in_order s" "held s = map sub_id (subs s)" "list_all2 sub_for (subs s) rs"
    by (auto simp: bus_holds_def)
  have len: "length (subs s) = length rs" using s(4) by (rule list_all2_lengthD)
  have d: "distinct (map sub_id (subs s))" using s(2) by (auto simp: in_order_def strict_sorted_iff)
  let ?s = "registry_op (DropHandle n) s"
  have "subs ?s = take n (subs s) @ drop (n + 1) (subs s)" "held ?s = map sub_id (subs ?s)"
    using filter_but_nth [OF d, of n] s(3) by (auto simp: strike_def take_map drop_map)
  moreover have "list_all2 sub_for (take n (subs s) @ drop (n + 1) (subs s)) (take n rs @ drop (n + 1) rs)"
    using s(4) by (simp add: list_all2_appendI list_all2_takeI list_all2_dropI)
  ultimately show ?thesis
    using rel_op [OF s(1), of "DropHandle n"] in_order_op [OF s(2), of "DropHandle n"] unfolding bus_holds_def by metis
qed

lemma bus_holds_fires: "bus_holds (bus h) rs \<Longrightarrow> bus_holds (bus (fold (home_fire w) evs h)) rs"
  by (induction evs arbitrary: h) (simp_all add: home_fire_eq bus_holds_fire)

lemma bus_holds_parts: "bus_holds (bus h) rs \<Longrightarrow> bus_holds (bus (fire_parts w ty d g c h)) rs"
  by (simp add: fire_parts_def home_fire_eq bus_holds_fire)

lemma bus_holds_set: "bus_holds (bus h) rs \<Longrightarrow> bus_holds (bus (fst (home_set w e v a f ctx h))) rs"
  by (auto simp: home_set_def unwrap_context_def Context_new_def intro!: bus_holds_fires split: prod.splits option.splits)

lemma bus_holds_entries: "bus_holds (bus h) rs \<Longrightarrow> bus_holds (bus (fst (set_entries w c xs h))) rs"
proof (induction xs arbitrary: h)
  case (Cons x xs)
  then show ?case
    using bus_holds_set [OF Cons.prems, of w "se_entity x" "se_state x" "se_attributes x" False "Some c"]
    by (auto split: prod.splits sum.splits)
qed simp

lemma bus_holds_op: "bus_holds (bus h) rs \<Longrightarrow> bus_holds (bus (home_op w x h)) (rules_op x rs)"
proof (cases x)
  case (HRemove e c)
  assume "bus_holds (bus h) rs"
  then show ?thesis using HRemove by (auto simp: home_remove_def intro!: bus_holds_fires split: prod.splits)
next
  case (HActivate sc ctx)
  assume "bus_holds (bus h) rs"
  then show ?thesis
    using HActivate by (auto simp: activate_def unwrap_context_def Context_new_def intro!: bus_holds_entries split: option.splits)
next
  case (HRegister cfg)
  assume "bus_holds (bus h) rs"
  then show ?thesis using HRegister by (simp add: engine_register_def Let_def bus_holds_register)
next
  case (HDropHandle n)
  assume "bus_holds (bus h) rs"
  then show ?thesis using HDropHandle bus_holds_drop by (simp del: bus_op.simps)
qed (auto simp: bus_holds_set bus_holds_parts engine_enable_def engine_disable_def set_enabled_def service_register_def
    service_remove_def Context_new_def Let_def intro!: bus_holds_parts split: option.splits)

lemma home_run_holds: "bus_holds (bus (home_run w ops)) (live_rules ops)"
proof -
  have "bus_holds (bus h) rs \<Longrightarrow> bus_holds (bus (fold (home_op w) ops h)) (fold rules_op ops rs)" for h rs
    by (induction ops arbitrary: h rs) (simp_all add: bus_holds_op)
  moreover have "bus_holds (bus Home_new) []"
    unfolding bus_holds_def Home_new_def
    by (rule exI [of _ Registry_new]) (simp add: rel_new in_order_def, simp add: Registry_new_def)
  ultimately show ?thesis by (simp add: home_run_def live_rules_def)
qed

section \<open>What an event starts\<close>

lemma list_all2_filter:
  "list_all2 R xs ys \<Longrightarrow> (\<And>x y. R x y \<Longrightarrow> P x = Q y) \<Longrightarrow> list_all2 R (filter P xs) (filter Q ys)"
  by (induction rule: list_all2_induct) auto

lemma rules_of_subs:
  "list_all2 sub_for xs rs \<Longrightarrow> concat (map rule_of (map as_listener xs)) = map (\<lambda>r. rule_cb (fst r) (snd r)) rs"
  by (induction rule: list_all2_induct) (auto simp: rule_of_def sub_for_def as_listener_def)

text \<open>
  The table of subscriptions loses no event: a trigger that answers an event is subscribed to its type, or
  to the wild card when it is an event trigger.
\<close>

lemma typed_answers:
  assumes "event_type ev \<noteq> ''*''"
  shows "trigger_type t = event_type ev \<and> Trigger_matches (w_env w) (w_render w) (clock h) t ev (Some (sm h)) = Inr True
    \<longleftrightarrow> \<not> event_trigger t \<and> answers w ev h t"
  using assms
  by (cases t) (auto simp: trigger_type_def EVENT_STATE_CHANGED_def EVENT_HASS_START_def EVENT_HASS_STOP_def MATCH_ALL_def within_def
      split: option.splits)

lemma wild_answers:
  "trigger_type t = ''*'' \<and> event_type ev \<noteq> ''state_reported''
      \<and> Trigger_matches (w_env w) (w_render w) (clock h) t ev (Some (sm h)) = Inr True
    \<longleftrightarrow> event_trigger t \<and> answers w ev h t"
  by (cases t) (auto simp: trigger_type_def EVENT_STATE_CHANGED_def EVENT_HASS_START_def EVENT_HASS_STOP_def MATCH_ALL_def
      split: option.splits)

lemma star_answers: "event_type ev = ''*'' \<Longrightarrow> answers w ev h t \<Longrightarrow> event_trigger t"
  by (cases t) (auto split: if_splits)

lemma rule_fires_matches:
  "rule_fires w ev h (rule_cb cfg t) \<longleftrightarrow> rule_enabled h (cfg_id cfg)
     \<and> Trigger_matches (w_env w) (w_render w) (clock h) t ev (Some (sm h)) = Inr True \<and> conditions_hold w h cfg"
  by (auto simp: rule_fires_def rule_cb_def rule_enabled_def conditions_hold_def eval_and_true split: option.splits)

lemma tasks_of_heard:
  assumes "list_all2 sub_for (subs s) rs"
  shows "tasks_of w ev h (map as_listener (heard ev s ty)) =
    map (task_for (ev_context ev)) (filter (\<lambda>r. trigger_type (snd r) = ty \<and> rule_fires w ev h (rule_cb (fst r) (snd r))) rs)"
proof -
  have "list_all2 sub_for (heard ev s ty) (filter (\<lambda>r. trigger_type (snd r) = ty) rs)"
    unfolding heard_def by (rule list_all2_filter [OF assms]) (simp add: sub_for_def sub_accepts_def)
  from rules_of_subs [OF this] show ?thesis
    by (simp add: tasks_of_def filter_map comp_def task_of_def rule_cb_def task_for_def conj_commute)
qed

lemma home_fire_starts:
  assumes "bus_holds (bus h) rs"
  shows "spawned (home_fire w ev h) = spawned h @ map (task_for (ev_context ev)) (starts w ev h rs)"
proof -
  obtain s where r: "bus_rel {} (bus h) s" and l: "list_all2 sub_for (subs s) rs" using assms by (auto simp: bus_holds_def)
  have plain: "filter (\<lambda>x. \<not> sub_once x) (heard ev s ty) = heard ev s ty" for ty
    using subs_plain [OF l] by (auto simp: heard_def intro!: filter_cong)
  have wild: "filter (\<lambda>r. trigger_type (snd r) = ''*'' \<and> rule_fires w ev h (rule_cb (fst r) (snd r))) rs =
      filter (event_trigger \<circ> snd) (filter (started w ev h) rs)" if "event_type ev \<noteq> ''state_reported''"
    using wild_answers [of _ ev w h] that by (auto simp: rule_fires_matches started_def intro!: filter_cong)
  show ?thesis
  proof (cases "event_type ev = ''*''")
    case True
    then have "filter (Not \<circ> event_trigger \<circ> snd) (filter (started w ev h) rs) = []"
      using star_answers by (auto simp: started_def filter_empty_conv)
    then show ?thesis
      using True wild by (simp add: home_fire_eq rel_fire_quiet [OF r] plain tasks_of_heard [OF l] starts_def Let_def)
  next
    case False
    have typed: "filter (\<lambda>r. trigger_type (snd r) = event_type ev \<and> rule_fires w ev h (rule_cb (fst r) (snd r))) rs =
        filter (Not \<circ> event_trigger \<circ> snd) (filter (started w ev h) rs)"
      using typed_answers [OF False, of _ w h] by (auto simp: rule_fires_matches started_def intro!: filter_cong)
    have "filter (event_trigger \<circ> snd) (filter (started w ev h) rs) = []" if "event_type ev = ''state_reported''"
      using that by (auto simp: started_def filter_empty_conv elim: event_trigger.elims)
    then show ?thesis
      using False wild typed
      by (auto simp: home_fire_eq rel_fire_quiet [OF r] tasks_of_heard [OF l] starts_def Let_def)
  qed
qed

text \<open>
  C26. Which rules an event starts: in every home that operations can produce, an event starts one
  script for each subscribed trigger that answers it, of a rule that is registered and enabled and whose
  conditions are all true on the current states, and nothing else. The subscribed triggers are read off the
  history (registrations less dropped handles); a state, numeric or template trigger answers changes of
  state, an event trigger the events of its type whose data contains what it asks for, a start or
  stop trigger the life-cycle event, a time trigger none. Event triggers start last, otherwise the order is
  that of the subscriptions, and each script gets the event's context. Two exceptions are as the code has them:
  an event trigger for state reports never starts, one for the type "*" starts twice. States and
  rules do not change. (A running script acts through the same operations.)
\<close>

theorem event_starts_exactly:
  "let h = home_run w ops; h' = home_fire w ev h; xs = filter (started w ev h) (live_rules ops);
       on_event = filter (event_trigger \<circ> snd) xs
   in spawned h' = spawned h @ map (task_for (ev_context ev))
        (filter (Not \<circ> event_trigger \<circ> snd) xs @ on_event @ (if event_type ev = ''*'' then on_event else []))
    \<and> sm h' = sm h \<and> automations h' = automations h"
  using home_fire_starts [OF home_run_holds, of w ev w ops] by (simp add: Let_def starts_def home_fire_eq)

section \<open>Scripts and their unrolled steps\<close>

lemma and_then_assoc: "and_then (and_then r f) g = and_then r (\<lambda>h. and_then (f h) g)"
  by (auto simp: and_then_def split: prod.splits Outcome.splits)

lemma and_then_ok [simp]: "and_then r (\<lambda>h. (h, Ok)) = r" "and_then (h, Ok) f = f h"
  by (auto simp: and_then_def split: prod.splits Outcome.splits)

lemma run_sequence_append:
  "run_sequence w out c (xs @ ys) h = and_then (run_sequence w out c xs h) (\<lambda>h1. run_sequence w out c ys h1)"
proof (induction xs arbitrary: h)
  case (Cons x xs)
  have "run_sequence w out c (xs @ ys) = (\<lambda>h. and_then (run_sequence w out c xs h) (\<lambda>h1. run_sequence w out c ys h1))"
    by (rule ext) (rule Cons.IH)
  then show ?case by (simp add: and_then_assoc)
qed simp

lemma run_sequence_nil [simp]: "run_sequence w out c [] = (\<lambda>h. (h, Ok))"
  by (rule ext) simp

lemma run_sequence_single: "run_sequence w out c [a] h = execute w out c a h"
  by simp

lemma run_sequence_replicate:
  "run_sequence w out c (concat (replicate n xs)) h = repeat_run n (\<lambda>h. run_sequence w out c xs h) h"
proof (induction n arbitrary: h)
  case (Suc n)
  have "run_sequence w out c (concat (replicate n xs)) = repeat_run n (\<lambda>h. run_sequence w out c xs h)"
    by (rule ext) (rule Suc.IH)
  then show ?case by (simp add: run_sequence_append)
qed simp

text \<open>The script with every repetition written out.\<close>

function unroll :: "Action \<Rightarrow> Action list" and unroll_seq :: "Action list \<Rightarrow> Action list"
  and unroll_branches :: "ChooseBranch list \<Rightarrow> ChooseBranch list" where
  "unroll (Repeat n xs) = concat (replicate n (unroll_seq xs))"
| "unroll (Choose bs dflt) = [Choose (unroll_branches bs) (unroll_seq dflt)]"
| "unroll (If c thn els) = [If c (unroll_seq thn) (unroll_seq els)]"
| "unroll (AService d s data) = [AService d s data]"
| "unroll (AScene i) = [AScene i]"
| "unroll (Delay ms) = [Delay ms]"
| "unroll (WaitForTrigger t timeout) = [WaitForTrigger t timeout]"
| "unroll_seq [] = []"
| "unroll_seq (x # xs) = unroll x @ unroll_seq xs"
| "unroll_branches [] = []"
| "unroll_branches (ChooseBranch cs xs # bs) = ChooseBranch cs (unroll_seq xs) # unroll_branches bs"
  by pat_completeness auto
termination
  by (relation "measure (\<lambda>x. case x of Inl a \<Rightarrow> 2 * size a | Inr (Inl xs) \<Rightarrow> 2 * size_list size xs
      | Inr (Inr bs) \<Rightarrow> 2 * size_list size bs)") auto

lemma run_unrolled:
  "run_sequence w out c (unroll a) h = execute w out c a h"
  "run_sequence w out c (unroll_seq xs) h = run_sequence w out c xs h"
  "run_choose w out c (unroll_branches bs) (unroll_seq dflt) h = run_choose w out c bs dflt h"
proof (induction w out c a h and w out c xs h and w out c bs dflt h rule: execute_run_sequence_run_choose.induct)
  case (5 w out c n xs h)
  then have "(\<lambda>h. run_sequence w out c (unroll_seq xs) h) = (\<lambda>h. run_sequence w out c xs h)" by blast
  then show ?case by (simp add: run_sequence_replicate)
next
  case (7 w out c cond thn els h)
  then show ?case by (simp add: run_sequence_single split: sum.splits bool.splits)
next
  case (6 w out c bs dflt h)
  then show ?case by (simp add: run_sequence_single)
next
  case (9 w out c x xs h)
  then show ?case by (simp add: run_sequence_append and_then_def split: prod.splits Outcome.splits)
next
  case (11 w out c cs xs bs dflt h)
  then show ?case by (auto split: sum.splits bool.splits)
qed (simp_all add: run_sequence_single del: execute.simps run_sequence.simps(2))

text \<open>
  C31. Repetition is unrolling: a script runs exactly as the script in which every repetition, at any
  depth, is written out as many times as it counts, with the same outcome and the same home whatever
  happens while it awaits; a failure in one round leaves out the rounds after it.
\<close>

theorem script_runs_unrolled: "Script_run w out (unroll_seq xs) ctx h = Script_run w out xs ctx h"
  by (simp add: Script_run_def run_unrolled)

section \<open>What a scene leaves behind\<close>

definition entry_valid :: "SceneEntry \<Rightarrow> bool" where
  "entry_valid x \<longleftrightarrow> length (se_state x) \<le> MAX_LENGTH_STATE_STATE
     \<and> (case split_entity_id (to_ascii_lowercase (se_entity x)) of Inr _ \<Rightarrow> True | Inl _ \<Rightarrow> False)"

text \<open>What a reader of an entity sees: its value and its attributes.\<close>

definition seen :: "Home \<Rightarrow> string \<Rightarrow> (string \<times> Attributes) option" where
  "seen h e = map_option (\<lambda>s. (st_state s, attributes s)) (sm_get (sm h) e)"

definition entry_for :: "SceneEntry list \<Rightarrow> string \<Rightarrow> SceneEntry option" where
  "entry_for xs e = find (\<lambda>x. to_ascii_lowercase (se_entity x) = to_ascii_lowercase e) (rev xs)"

lemma find_append: "find P (xs @ ys) = (case find P xs of Some y \<Rightarrow> Some y | None \<Rightarrow> find P ys)"
  by (induction xs) auto

lemma sm_fires [simp]: "sm (fold (home_fire w) evs h) = sm h"
  by (induction evs arbitrary: h) (simp_all add: home_fire_eq)

lemma sm_get_set:
  assumes ok: "States_ok (states m)" and s: "entry_ok k s"
  shows "sm_get (m\<lparr>states := States_set s (states m)\<rparr>) e = (if to_ascii_lowercase e = k then Some s else sm_get m e)"
proof -
  have id: "entity_id s = k" using s by (simp add: entry_ok_def)
  have "States_ok (states (m\<lparr>states := States_set s (states m)\<rparr>))"
    using States_ok_set [OF ok, of s] s id by simp
  from sm_get_lower [OF this] sm_get_lower [OF ok] show ?thesis
    by (simp add: States_get_def States_set_def hm.get_insert id del: map_of_eq_Some_iff)
qed

lemma home_set_seen:
  assumes ok: "home_ok h" and r: "home_set w e v a f ctx h = (h', r)"
  shows "(r = Inr ()) = entry_valid \<lparr>se_entity = e, se_state = v, se_attributes = a\<rparr>"
    and "r = Inr () \<Longrightarrow> seen h' k = (if to_ascii_lowercase k = to_ascii_lowercase e then Some (v, a) else seen h k)"
proof -
  obtain h1 c where u: "unwrap_context w ctx h = (h1, c)" by fastforce
  obtain m evs r' where s: "async_set (w_env w) e v a f ctx c (clock h1) (sm h1) = (m, evs, r')" by (metis prod_cases3)
  have sm1: "sm h1 = sm h" using unwrap_context_fields [OF u] by simp
  have st: "States_ok (states (sm h))" using ok by (simp add: home_ok_def)
  have rr: "r' = r" and smh: "sm h' = m" using r u s by (auto simp: home_set_def)
  from s [unfolded sm1] have "(r = Inr ()) = entry_valid \<lparr>se_entity = e, se_state = v, se_attributes = a\<rparr>
      \<and> (r = Inr () \<longrightarrow> seen h' k = (if to_ascii_lowercase k = to_ascii_lowercase e then Some (v, a) else seen h k))"
  proof (cases rule: async_set_cases)
    case (bad err)
    then have "\<not> entry_valid \<lparr>se_entity = e, se_state = v, se_attributes = a\<rparr>"
      using s sm1 by (auto simp: entry_valid_def async_set_def validate_state_def async_set_internal_def Let_def
          split: option.splits if_splits prod.splits sum.splits)
    then show ?thesis using bad rr by simp
  next
    case (same old)
    then have e: "entry_ok (to_ascii_lowercase e) old" using st by (simp add: States_ok_def States_get_def)
    then have "entry_ok (to_ascii_lowercase e) (old\<lparr>last_reported := clock h1\<rparr>)" by (simp add: entry_ok_def)
    from sm_get_set [OF st this] show ?thesis
      using same e rr smh by (auto simp: seen_def entry_valid_def entry_ok_def)
  next
    case (changed d obj new)
    then have "entry_ok (to_ascii_lowercase e) new" by (simp add: entry_ok_def)
    from sm_get_set [OF st this] show ?thesis
      using changed rr smh by (auto simp: seen_def entry_valid_def)
  qed
  then show "(r = Inr ()) = entry_valid \<lparr>se_entity = e, se_state = v, se_attributes = a\<rparr>"
    "r = Inr () \<Longrightarrow> seen h' k = (if to_ascii_lowercase k = to_ascii_lowercase e then Some (v, a) else seen h k)"
    by blast+
qed

lemma set_entries_seen:
  "\<lbrakk>home_ok h; set_entries w c xs h = (h', r)\<rbrakk> \<Longrightarrow>
    (r = Inr ()) = list_all entry_valid xs
    \<and> (r = Inr () \<longrightarrow> seen h' k = (case entry_for xs k of Some x \<Rightarrow> Some (se_state x, se_attributes x) | None \<Rightarrow> seen h k))"
proof (induction xs arbitrary: h)
  case (Cons x xs)
  obtain h1 r1 where s: "home_set w (se_entity x) (se_state x) (se_attributes x) False (Some c) h = (h1, r1)" by fastforce
  have x: "\<lparr>se_entity = se_entity x, se_state = se_state x, se_attributes = se_attributes x\<rparr> = x" by simp
  note st = home_set_seen [OF Cons.prems(1) s, unfolded x]
  have ok1: "home_ok h1" using home_ok_set [OF Cons.prems(1)] s by (metis fst_conv)
  have ef: "entry_for (x # xs) k = (case entry_for xs k of Some y \<Rightarrow> Some y
      | None \<Rightarrow> if to_ascii_lowercase (se_entity x) = to_ascii_lowercase k then Some x else None)"
    unfolding entry_for_def by (simp add: find_append split: option.splits)
  show ?case
  proof (cases r1)
    case (Inl e)
    then have "r = Inl e" using Cons.prems(2) s by simp
    then show ?thesis using Inl st(1) by auto
  next
    case (Inr b)
    then have "set_entries w c xs h1 = (h', r)" using Cons.prems(2) s by simp
    from Cons.IH [OF ok1 this] show ?thesis
      using st(1) st(2) [of k] Inr ef by (auto split: option.splits if_splits)
  qed
qed (simp add: entry_for_def)

text \<open>
  C30. What a scene leaves behind: in any home the operations produce, activating a scene succeeds
  exactly when every entry names a domain and an object and has a value of at most 255 bytes, whether or
  not the entities exist; then every entity of the scene, under any case of letters, has the value and
  the attributes of its last entry, and every other entity has what it had.
\<close>

theorem scene_leaves_its_states:
  "let h = home_run w ops; (h', r) = activate w sc ctx h in
     if list_all entry_valid (entries sc)
     then r = Inr () \<and> seen h' e =
       (case entry_for (entries sc) e of Some x \<Rightarrow> Some (se_state x, se_attributes x) | None \<Rightarrow> seen h e)
     else r \<noteq> Inr ()"
proof -
  define h where "h = home_run w ops"
  obtain h1 c where u: "unwrap_context w ctx h = (h1, c)" by fastforce
  obtain h' r where a: "set_entries w c (entries sc) h1 = (h', r)" by fastforce
  note uf = unwrap_context_fields [OF u]
  have "home_ok h1" using home_run_ok [of w ops] uf by (simp add: home_ok_def h_def)
  have same: "seen h1 e = seen h e" using uf by (simp add: seen_def)
  from set_entries_seen [OF \<open>home_ok h1\<close> a, of e, unfolded same] have
    "(r = Inr ()) = list_all entry_valid (entries sc)"
    "r = Inr () \<longrightarrow> seen h' e = (case entry_for (entries sc) e of Some x \<Rightarrow> Some (se_state x, se_attributes x) | None \<Rightarrow> seen h e)"
    by blast+
  then show ?thesis unfolding h_def [symmetric] Let_def by (auto simp: activate_def u a)
qed

section \<open>A change of state starts the rules that wait for it\<close>

lemma changed_event_fields:
  "event_type (state_changed_event env e old new c t) = EVENT_STATE_CHANGED"
  "event_entity (state_changed_event env e old new c t) = e"
  "event_state ''old_state'' (state_changed_event env e old new c t) = map_option st_state old"
  "event_state ''new_state'' (state_changed_event env e old new c t) = map_option st_state new"
  "ev_context (state_changed_event env e old new c t) = c"
  by (auto simp: state_changed_event_def event_entity_def event_state_def StateChangedData_json_def State_json_def
      split: option.splits)

lemma report_starts_none: "event_type ev = ''state_reported'' \<Longrightarrow> starts w ev h rs = []"
proof -
  assume ev: "event_type ev = ''state_reported''"
  have "\<not> answers w ev h t" for t using ev by (cases t) auto
  then show ?thesis by (simp add: starts_def started_def)
qed

lemma count_starts:
  "event_type ev \<noteq> ''*'' \<Longrightarrow> count_list (starts w ev h rs) x = (if started w ev h x then count_list rs x else 0)"
proof -
  assume ev: "event_type ev \<noteq> ''*''"
  have "count_list (filter P rs) x = (if P x then count_list rs x else 0)" for P :: "AutomationConfig \<times> Trigger \<Rightarrow> bool" and rs
    by (induction rs) auto
  then show ?thesis using ev by (simp add: starts_def Let_def count_list_append)
qed

text \<open>What a set does to the bus: nothing that starts a rule, or one change of state.\<close>

lemma home_set_starts:
  assumes ok: "home_ok h" and holds: "bus_holds (bus h) rs" and h'_def: "h' = fst (home_set w e v a f ctx h)"
    and c_def: "c = (case ctx of Some x \<Rightarrow> x | None \<Rightarrow> Context_with_id (w_ulid w (fresh_ids h)))"
  obtains (unchanged) "spawned h' = spawned h"
      "\<not> (entry_valid \<lparr>se_entity = e, se_state = v, se_attributes = a\<rparr> \<and> \<not> (\<not> f \<and> seen h e = Some (v, a)))"
  | (change) ev h2 where "spawned h' = spawned h @ map (task_for c) (starts w ev h2 rs)" "event_type ev \<noteq> ''*''"
      "automations h2 = automations h" "clock h2 = clock h" "sm h2 = sm h'"
      "entry_valid \<lparr>se_entity = e, se_state = v, se_attributes = a\<rparr>" "\<not> (\<not> f \<and> seen h e = Some (v, a))"
      "\<And>k frm want. answers w ev h2 (TState k frm want) \<longleftrightarrow>
         k = to_ascii_lowercase e \<and> frm \<in> {None, map_option fst (seen h e)} \<and> want \<in> {None, Some v}"
proof -
  obtain h1 c1 where u: "unwrap_context w ctx h = (h1, c1)" by fastforce
  note uf = unwrap_context_fields [OF u]
  have c1: "(case ctx of Some x \<Rightarrow> x | None \<Rightarrow> c1) = c"
    using u by (auto simp: c_def unwrap_context_def Context_new_def split: option.splits)
  obtain m evs r where s: "async_set (w_env w) e v a f ctx c1 (clock h) (sm h) = (m, evs, r)" by (metis prod_cases3)
  have h': "h' = fold (home_fire w) evs (h1\<lparr>sm := m\<rparr>)" and set: "home_set w e v a f ctx h = (h', r)"
    using u s uf by (simp_all add: h'_def home_set_def)
  note valid = home_set_seen(1) [OF ok set]
  have get: "sm_get (sm h) e = States_get (states (sm h)) (to_ascii_lowercase e)"
    using ok by (intro sm_get_lower) (simp add: home_ok_def)
  have holds1: "bus_holds (bus (h1\<lparr>sm := m\<rparr>)) rs" using holds uf by simp
  from s show thesis
  proof (cases rule: async_set_cases)
    case (bad err)
    show thesis by (rule unchanged) (use bad valid uf in \<open>simp_all add: h'\<close>)
  next
    case (same old)
    have "seen h e = Some (v, a)" using same get by (simp add: seen_def)
    moreover have "spawned h' = spawned h"
      using same(8) uf home_fire_starts [OF holds1] by (simp add: h' EVENT_STATE_REPORTED_def report_starts_none)
    ultimately show thesis using same(3) unchanged by simp
  next
    case (changed d obj new)
    define ev where "ev = state_changed_event (w_env w) (to_ascii_lowercase e)
      (map_option expire (States_get (states (sm h)) (to_ascii_lowercase e))) (Some new) c (clock h)"
    have evs: "evs = [ev]" using changed(7) by (simp add: ev_def c1)
    have new: "st_state new = v" unfolding changed(4) by simp
    have ctx: "ev_context ev = c" by (simp add: ev_def changed_event_fields)
    show thesis
    proof (rule change [of ev "h1\<lparr>sm := m\<rparr>"])
      show "spawned h' = spawned h @ map (task_for c) (starts w ev (h1\<lparr>sm := m\<rparr>) rs)"
        using home_fire_starts [OF holds1, of w ev] uf by (simp add: h' evs ctx)
      show "answers w ev (h1\<lparr>sm := m\<rparr>) (TState k frm want) \<longleftrightarrow>
          k = to_ascii_lowercase e \<and> frm \<in> {None, map_option fst (seen h e)} \<and> want \<in> {None, Some v}" for k frm want
        using new get by (auto simp: ev_def changed_event_fields EVENT_STATE_CHANGED_def seen_def option.map_comp comp_def)
    qed (use valid changed(3,6) get uf in \<open>auto simp: ev_def changed_event_fields EVENT_STATE_CHANGED_def h' seen_def\<close>)
  qed
qed

text \<open>
  C25. A change of state reaches the rules that wait for it, and only those: in any home the operations
  produce, setting an entity, spelled in any case, starts each subscribed state trigger exactly as often as it is
  subscribed if the set is valid and not a repetition (another value, other attributes, or forced),
  the trigger names the entity in lower case, the value before and the value after are those it asks
  for, where it asks, and its rule is enabled and its conditions hold on the states after the change; otherwise it does not
  start it. The scripts run with the context of the set, or a fresh one. A trigger that spells
  its entity with a capital letter is therefore never started, since the comparison is with the lower-case
  identifier of the event.
\<close>

theorem change_starts_rule:
  "let h = home_run w ops; h' = fst (home_set w e v a f ctx h); trg = (cfg, TState k frm want);
       c = (case ctx of Some x \<Rightarrow> x | None \<Rightarrow> Context_with_id (w_ulid w (fresh_ids h)))
   in \<exists>sel. spawned h' = spawned h @ map (task_for c) sel \<and> set sel \<subseteq> set (live_rules ops)
    \<and> count_list sel trg =
       (if entry_valid \<lparr>se_entity = e, se_state = v, se_attributes = a\<rparr> \<and> \<not> (\<not> f \<and> seen h e = Some (v, a))
           \<and> k = to_ascii_lowercase e \<and> frm \<in> {None, map_option fst (seen h e)} \<and> want \<in> {None, Some v}
           \<and> rule_enabled h (cfg_id cfg) \<and> list_all (\<lambda>x. evaluate (w_render w) (clock h) (sm h') x = Inr True) (conditions cfg)
        then count_list (live_rules ops) trg else 0)"
proof -
  define h where "h = home_run w ops"
  define h' where "h' = fst (home_set w e v a f ctx h)"
  define c where "c = (case ctx of Some x \<Rightarrow> x | None \<Rightarrow> Context_with_id (w_ulid w (fresh_ids h)))"
  have ok: "home_ok h" and holds: "bus_holds (bus h) (live_rules ops)"
    unfolding h_def by (rule home_run_ok, rule home_run_holds)
  show ?thesis
    unfolding Let_def h_def [symmetric] h'_def [symmetric] c_def [symmetric]
  proof (rule home_set_starts [OF ok holds h'_def c_def], goal_cases)
    case 1
    then show ?case by (intro exI [of _ "[]"]) auto
  next
    case (2 ev h2)
    have "set (starts w ev h2 (live_rules ops)) \<subseteq> set (live_rules ops)" by (auto simp: starts_def Let_def)
    moreover have "started w ev h2 (cfg, TState k frm want) \<longleftrightarrow> rule_enabled h (cfg_id cfg)
        \<and> k = to_ascii_lowercase e \<and> frm \<in> {None, map_option fst (seen h e)} \<and> want \<in> {None, Some v}
        \<and> list_all (\<lambda>x. evaluate (w_render w) (clock h) (sm h') x = Inr True) (conditions cfg)"
      using 2(3-5) unfolding started_def fst_conv snd_conv 2(8) rule_enabled_def conditions_hold_def by auto
    ultimately show ?case
      using 2(1,6,7) count_starts [OF 2(2)] by (intro exI [of _ "starts w ev h2 (live_rules ops)"]) auto
  qed
qed

definition demo_world :: World where
  "demo_world = \<lparr>w_env = demo_env, w_render = (\<lambda>_ _ _ _. Inr ''true''), w_ulid = show_nat\<rparr>"

definition demo_rule :: AutomationConfig where
  "demo_rule = \<lparr>cfg_id = ''hall'', cfg_alias = None, triggers = [TState ''light.hall'' None (Some ''on'')],
     conditions = [CState ''light.hall'' (Single ''on'')], actions = [Delay 5], cfg_enabled = True\<rparr>"

theorem change_starts_rule_witness:
  "let h' = fst (home_set demo_world ''Light.Hall'' ''on'' [] False None (home_run demo_world [HRegister demo_rule, HTick 60])) in
     \<exists>sel. spawned h' = map (task_for (Context_with_id ''0'')) sel
       \<and> count_list sel (demo_rule, TState ''light.hall'' None (Some ''on'')) = 1"
proof -
  let ?ops = "[HRegister demo_rule, HTick 60]"
  let ?h = "home_run demo_world ?ops"
  let ?h' = "fst (home_set demo_world ''Light.Hall'' ''on'' [] False None ?h)"
  have "spawned ?h = []" "seen ?h ''Light.Hall'' = None" "rule_enabled ?h (cfg_id demo_rule)"
    "fresh_ids ?h = 0" "w_ulid demo_world 0 = ''0''" "to_ascii_lowercase ''Light.Hall'' = ''light.hall''"
    "entry_valid \<lparr>se_entity = ''Light.Hall'', se_state = ''on'', se_attributes = []\<rparr>"
    "list_all (\<lambda>x. evaluate (w_render demo_world) (clock ?h) (sm ?h') x = Inr True) (conditions demo_rule)"
    by code_simp+
  moreover have "count_list (live_rules ?ops) (demo_rule, TState ''light.hall'' None (Some ''on'')) = 1"
    by (simp add: live_rules_def demo_rule_def)
  ultimately show ?thesis
    using change_starts_rule [of demo_world ?ops "''Light.Hall''" "''on''" "[]" False None demo_rule "''light.hall''" None "Some ''on''"]
    unfolding Let_def by auto
qed

section \<open>Services\<close>

lemma services_fire [simp]: "services (fire_parts w ty d g c h) = services h"
  by (simp add: fire_parts_def home_fire_eq)

text \<open>
  Services are found by name in any case: after a registration the named service is the
  registered one and every other is what it was, after a removal the named service is gone and every
  other is what it was.
\<close>

theorem service_registry_lookup:
  "map_option handler (service_lookup (service_register w d s hdl sch resp h) (to_ascii_lowercase d') (to_ascii_lowercase s')) =
     (if to_ascii_lowercase d' = to_ascii_lowercase d \<and> to_ascii_lowercase s' = to_ascii_lowercase s then Some hdl
      else map_option handler (service_lookup h (to_ascii_lowercase d') (to_ascii_lowercase s')))
   \<and> service_lookup (service_remove w d s h) (to_ascii_lowercase d') (to_ascii_lowercase s') =
     (if to_ascii_lowercase d' = to_ascii_lowercase d \<and> to_ascii_lowercase s' = to_ascii_lowercase s then None
      else service_lookup h (to_ascii_lowercase d') (to_ascii_lowercase s'))"
proof
  show "map_option handler (service_lookup (service_register w d s hdl sch resp h) (to_ascii_lowercase d') (to_ascii_lowercase s')) =
     (if to_ascii_lowercase d' = to_ascii_lowercase d \<and> to_ascii_lowercase s' = to_ascii_lowercase s then Some hdl
      else map_option handler (service_lookup h (to_ascii_lowercase d') (to_ascii_lowercase s')))"
    by (auto simp: service_register_def service_lookup_def Context_new_def Let_def hm.get_insert split: option.splits)
  have nil: "hm_remove k m = [] \<Longrightarrow> x \<noteq> k \<Longrightarrow> hm_get m x = None" for k x :: string and m :: "(string, Service) hashmap"
    using hm.get_remove [of k m x] by (metis map_of.simps(1))
  show "service_lookup (service_remove w d s h) (to_ascii_lowercase d') (to_ascii_lowercase s') =
     (if to_ascii_lowercase d' = to_ascii_lowercase d \<and> to_ascii_lowercase s' = to_ascii_lowercase s then None
      else service_lookup h (to_ascii_lowercase d') (to_ascii_lowercase s'))"
    by (auto simp: service_remove_def service_lookup_def Context_new_def Let_def hm.get_insert hm.get_remove nil
        split: option.splits if_splits)
qed

end
