(* ===== verification/Home_Config.thy ===== *)
theory Home_Config
  imports Home_Engine
begin

text \<open>
  The config entries of the automation core (\<open>config_entry.rs\<close>): entries by identifier with a list of
  identifiers per domain, and the registry of flow handlers, each known by a number and its domain.
  Running a flow step belongs to the integration that provides the handler.
\<close>

datatype ConfigEntryState = NotLoaded | Loaded | Unloaded | Disabled | SetupError | MigrationError
datatype ConfigEntrySource = User | Import | Reauth | Reconfigure | Discovery

record ConfigEntry =
  entry_id :: string
  ce_domain :: string
  title :: string
  ce_data :: Value
  options :: Value
  source :: ConfigEntrySource
  ce_state :: ConfigEntryState
  version :: u32

definition ConfigEntry_new :: "string \<Rightarrow> string \<Rightarrow> string \<Rightarrow> Value \<Rightarrow> ConfigEntrySource \<Rightarrow> ConfigEntry" where
  "ConfigEntry_new i d t v src = \<lparr>entry_id = i, ce_domain = d, title = t, ce_data = v, options = JObject [],
     source = src, ce_state = NotLoaded, version = 1\<rparr>"

record ConfigEntries =
  by_id :: "(string, ConfigEntry) hashmap"
  ids_by_domain :: "(string, string list) hashmap"

definition ConfigEntries_new :: ConfigEntries where
  "ConfigEntries_new = \<lparr>by_id = [], ids_by_domain = []\<rparr>"

definition domain_ids :: "ConfigEntries \<Rightarrow> string \<Rightarrow> string list" where
  "domain_ids g d = (case hm_get (ids_by_domain g) d of Some ids \<Rightarrow> ids | None \<Rightarrow> [])"

definition entry_add :: "ConfigEntry \<Rightarrow> ConfigEntries \<Rightarrow> ConfigEntries" where
  "entry_add e g = \<lparr>by_id = hm_insert (entry_id e) e (by_id g),
     ids_by_domain = hm_insert (ce_domain e) (domain_ids g (ce_domain e) @ [entry_id e]) (ids_by_domain g)\<rparr>"

definition entry_set_state :: "string \<Rightarrow> ConfigEntryState \<Rightarrow> ConfigEntries \<Rightarrow> ConfigEntries \<times> (HassError + unit)" where
  "entry_set_state i s g = (case hm_get (by_id g) i of
     None \<Rightarrow> (g, Inl (UnknownConfigEntry i))
   | Some e \<Rightarrow> (g\<lparr>by_id := hm_insert i (e\<lparr>ce_state := s\<rparr>) (by_id g)\<rparr>, Inr ()))"

definition entry_get :: "ConfigEntries \<Rightarrow> string \<Rightarrow> ConfigEntry option" where
  "entry_get g i = hm_get (by_id g) i"

definition for_domain :: "ConfigEntries \<Rightarrow> string \<Rightarrow> ConfigEntry list" where
  "for_domain g d = List.map_filter (\<lambda>i. hm_get (by_id g) i) (domain_ids g d)"

definition entry_all :: "ConfigEntries \<Rightarrow> ConfigEntry list" where
  "entry_all g = map snd (by_id g)"

definition entry_remove :: "string \<Rightarrow> ConfigEntries \<Rightarrow> ConfigEntries \<times> ConfigEntry option" where
  "entry_remove i g = (case hm_get (by_id g) i of
     None \<Rightarrow> (g, None)
   | Some e \<Rightarrow>
      (let g1 = g\<lparr>by_id := hm_remove i (by_id g)\<rparr> in
       (case hm_get (ids_by_domain g1) (ce_domain e) of
          None \<Rightarrow> g1
        | Some ids \<Rightarrow> g1\<lparr>ids_by_domain := hm_insert (ce_domain e) (filter (\<lambda>x. x \<noteq> i) ids) (ids_by_domain g1)\<rparr>,
        Some e)))"

definition flow_register :: "nat \<Rightarrow> string \<Rightarrow> (string, nat) hashmap \<Rightarrow> (string, nat) hashmap" where
  "flow_register hdl d r = hm_insert d hdl r"

definition flow_get :: "(string, nat) hashmap \<Rightarrow> string \<Rightarrow> nat option" where
  "flow_get r d = hm_get r d"

section \<open>Runs\<close>

datatype EntryOp = Add ConfigEntry | SetState string ConfigEntryState | Remove string

fun entry_op :: "EntryOp \<Rightarrow> ConfigEntries \<Rightarrow> ConfigEntries" where
  "entry_op (Add e) g = entry_add e g"
| "entry_op (SetState i s) g = fst (entry_set_state i s g)"
| "entry_op (Remove i) g = fst (entry_remove i g)"

fun added :: "EntryOp list \<Rightarrow> string list" where
  "added [] = []"
| "added (Add e # xs) = entry_id e # added xs"
| "added (_ # xs) = added xs"

definition entries_ok :: "ConfigEntries \<Rightarrow> bool" where
  "entries_ok g \<longleftrightarrow> (\<forall>i e. hm_get (by_id g) i = Some e \<longrightarrow> entry_id e = i)
     \<and> (\<forall>d. distinct (domain_ids g d))
     \<and> (\<forall>d. set (domain_ids g d) = {i. \<exists>e. hm_get (by_id g) i = Some e \<and> ce_domain e = d})"

lemma domain_ids_add:
  "domain_ids (entry_add e g) d = (if d = ce_domain e then domain_ids g d @ [entry_id e] else domain_ids g d)"
  by (simp add: domain_ids_def entry_add_def hm.get_insert)

lemma by_id_add: "hm_get (by_id (entry_add e g)) i = (if i = entry_id e then Some e else hm_get (by_id g) i)"
  by (auto simp: entry_add_def hm.get_insert)

lemma entries_ok_add:
  assumes "entries_ok g" "hm_get (by_id g) (entry_id e) = None"
  shows "entries_ok (entry_add e g)"
  using assms unfolding entries_ok_def domain_ids_add by_id_add by auto

lemma by_id_state:
  "hm_get (by_id (fst (entry_set_state i s g))) k =
    (if k = i then map_option (\<lambda>e. e\<lparr>ce_state := s\<rparr>) (hm_get (by_id g) k) else hm_get (by_id g) k)"
  by (auto simp: entry_set_state_def hm.get_insert split: option.splits)

lemma domain_ids_state [simp]: "domain_ids (fst (entry_set_state i s g)) = domain_ids g"
  by (auto simp: entry_set_state_def domain_ids_def fun_eq_iff split: option.splits)

lemma entries_ok_state:
  assumes "entries_ok g"
  shows "entries_ok (fst (entry_set_state i s g))"
proof -
  have "{k. \<exists>e. hm_get (by_id (fst (entry_set_state i s g))) k = Some e \<and> ce_domain e = d} =
      {k. \<exists>e. hm_get (by_id g) k = Some e \<and> ce_domain e = d}" for d
    unfolding by_id_state by (auto simp del: map_of_eq_Some_iff split: if_splits)
  moreover have "entry_id e = k" if "hm_get (by_id (fst (entry_set_state i s g))) k = Some e" for k e
    using that assms unfolding by_id_state entries_ok_def by (auto simp del: map_of_eq_Some_iff split: if_splits)
  ultimately show ?thesis using assms unfolding entries_ok_def domain_ids_state by blast
qed

lemma by_id_remove: "hm_get (by_id (fst (entry_remove i g))) k = (if k = i then None else hm_get (by_id g) k)"
  by (auto simp: entry_remove_def Let_def hm.get_remove split: option.splits)

lemma domain_ids_remove:
  assumes "entries_ok g"
  shows "domain_ids (fst (entry_remove i g)) d = filter (\<lambda>x. x \<noteq> i) (domain_ids g d)"
proof (cases "hm_get (by_id g) i")
  case None
  then have "i \<notin> set (domain_ids g d)" using assms unfolding entries_ok_def by auto
  then have "filter (\<lambda>x. x \<noteq> i) (domain_ids g d) = domain_ids g d" by (auto intro: filter_True)
  then show ?thesis using None by (simp add: entry_remove_def)
next
  case (Some e)
  have other: "filter (\<lambda>x. x \<noteq> i) (domain_ids g d) = domain_ids g d" if "d \<noteq> ce_domain e"
    using that Some assms unfolding entries_ok_def by (auto intro!: filter_True)
  have "i \<in> set (domain_ids g (ce_domain e))" using Some assms unfolding entries_ok_def by auto
  then obtain ids where ids: "hm_get (ids_by_domain g) (ce_domain e) = Some ids"
    by (cases "hm_get (ids_by_domain g) (ce_domain e)") (auto simp: domain_ids_def)
  then have "domain_ids (fst (entry_remove i g)) d =
      (if d = ce_domain e then filter (\<lambda>x. x \<noteq> i) (domain_ids g d) else domain_ids g d)"
    using Some by (simp add: entry_remove_def domain_ids_def hm.get_insert Let_def)
  then show ?thesis using other by simp
qed

lemma entries_ok_remove:
  assumes "entries_ok g"
  shows "entries_ok (fst (entry_remove i g))"
  using assms unfolding entries_ok_def [of "fst _"] by_id_remove domain_ids_remove [OF assms]
  by (auto simp: entries_ok_def)

lemma entries_run:
  "\<lbrakk>entries_ok g; distinct (added ops); \<forall>i \<in> set (added ops). hm_get (by_id g) i = None\<rbrakk> \<Longrightarrow> entries_ok (fold entry_op ops g)"
proof (induction ops arbitrary: g)
  case (Cons x xs)
  show ?case
  proof (cases x)
    case (Add e)
    have "\<forall>k \<in> set (added xs). hm_get (by_id (entry_add e g)) k = None"
      using Cons.prems(2,3) Add unfolding by_id_add by auto
    then show ?thesis using Cons Add entries_ok_add by simp
  next
    case (SetState i s)
    have "\<forall>k \<in> set (added xs). hm_get (by_id (fst (entry_set_state i s g))) k = None"
      using Cons.prems(3) SetState unfolding by_id_state by auto
    then show ?thesis using Cons SetState entries_ok_state by simp
  next
    case (Remove i)
    have "\<forall>k \<in> set (added xs). hm_get (by_id (fst (entry_remove i g))) k = None"
      using Cons.prems(3) Remove unfolding by_id_remove by auto
    then show ?thesis using Cons Remove entries_ok_remove by simp
  qed
qed simp

text \<open>
  Config entries by domain: when no identifier is added twice, listing a domain gives exactly the
  entries of that domain, each once, after any sequence of additions, removals and changes of state.
\<close>

theorem domain_lists_its_entries:
  assumes "distinct (added ops)"
  shows "let g = fold entry_op ops ConfigEntries_new in
    set (for_domain g d) = {e. entry_get g (entry_id e) = Some e \<and> ce_domain e = d}
    \<and> length (for_domain g d) = card (set (for_domain g d))"
proof -
  define g where "g = fold entry_op ops ConfigEntries_new"
  have "entries_ok ConfigEntries_new" by (simp add: entries_ok_def ConfigEntries_new_def domain_ids_def)
  from entries_run [OF this assms] have ok: "entries_ok g" unfolding g_def by (simp add: ConfigEntries_new_def)
  have eq: "for_domain g d = map (\<lambda>i. the (hm_get (by_id g) i)) (domain_ids g d)"
  proof -
    have "filter (\<lambda>i. hm_get (by_id g) i \<noteq> None) (domain_ids g d) = domain_ids g d"
      using ok unfolding entries_ok_def by (auto intro!: filter_True)
    then show ?thesis unfolding for_domain_def map_filter_def by (simp add: comp_def)
  qed
  have ids: "map entry_id (for_domain g d) = domain_ids g d"
    unfolding eq using ok unfolding entries_ok_def by (auto intro!: map_idI)
  then have "distinct (for_domain g d)" using ok unfolding entries_ok_def by (metis distinct_map)
  moreover have "set (for_domain g d) = {e. hm_get (by_id g) (entry_id e) = Some e \<and> ce_domain e = d}"
  proof (intro set_eqI)
    fix e
    have "e \<in> set (for_domain g d) \<longleftrightarrow> (\<exists>i. hm_get (by_id g) i = Some e \<and> ce_domain e = d)"
    proof -
      have "e \<in> set (for_domain g d) \<longleftrightarrow> (\<exists>i \<in> set (domain_ids g d). e = the (hm_get (by_id g) i))"
        unfolding eq by auto
      also have "\<dots> \<longleftrightarrow> (\<exists>i. hm_get (by_id g) i = Some e \<and> ce_domain e = d)"
        using ok unfolding entries_ok_def by (auto simp del: map_of_eq_Some_iff)
      finally show ?thesis .
    qed
    also have "\<dots> \<longleftrightarrow> hm_get (by_id g) (entry_id e) = Some e \<and> ce_domain e = d"
      using ok unfolding entries_ok_def by (metis (no_types))
    finally show "e \<in> set (for_domain g d) \<longleftrightarrow> e \<in> {e. hm_get (by_id g) (entry_id e) = Some e \<and> ce_domain e = d}"
      by simp
  qed
  ultimately show ?thesis unfolding g_def [symmetric] Let_def entry_get_def by (metis distinct_card)
qed

theorem domain_lists_its_entries_witness:
  "length (for_domain (fold entry_op [Add (ConfigEntry_new ''1'' ''hue'' ''Bridge'' JNull User),
     Add (ConfigEntry_new ''2'' ''zwave'' ''Stick'' JNull User), SetState ''1'' Loaded, Remove ''2''] ConfigEntries_new) ''hue'') = 1"
proof -
  let ?ops = "[Add (ConfigEntry_new ''1'' ''hue'' ''Bridge'' JNull User),
     Add (ConfigEntry_new ''2'' ''zwave'' ''Stick'' JNull User), SetState ''1'' Loaded, Remove ''2'']"
  have "distinct (added ?ops)" by (simp add: ConfigEntry_new_def)
  from domain_lists_its_entries [OF this, of "''hue''"]
  have "length (for_domain (fold entry_op ?ops ConfigEntries_new) ''hue'') =
      card (set (for_domain (fold entry_op ?ops ConfigEntries_new) ''hue''))" by (simp only: Let_def)
  moreover have "for_domain (fold entry_op ?ops ConfigEntries_new) ''hue'' =
      [(ConfigEntry_new ''1'' ''hue'' ''Bridge'' JNull User)\<lparr>ce_state := Loaded\<rparr>]"
    by code_simp
  ultimately show ?thesis by simp
qed

end
