(* ===== verification/Cover_Machine.thy ===== *)
theory Cover_Machine
  imports Cave_Prelude
begin

text \<open>
  Covers, garage doors, blinds and awnings (\<open>cave-home-cover\<close>: \<open>position.rs\<close>, \<open>state.rs\<close>,
  \<open>device_class.rs\<close>, \<open>machine.rs\<close>): a position, an independent tilt, the state of the motor, commands
  gated by what the device can do, and the halt on an obstruction. Every position comes from one of the
  two constructors; in a run a client's percentage is any byte, taken through \<open>Position::clamped\<close>.
\<close>

datatype Position = Position u8

primrec percent :: "Position \<Rightarrow> u8" where
  "percent (Position p) = p"

datatype PositionError = OutOfRange

definition POS_CLOSED :: Position where "POS_CLOSED = Position 0"
definition POS_OPEN :: Position where "POS_OPEN = Position 100"

definition Position_new :: "u8 \<Rightarrow> PositionError + Position" where
  "Position_new p = (if p > 100 then Inl OutOfRange else Inr (Position p))"

definition Position_clamped :: "u8 \<Rightarrow> Position" where
  "Position_clamped p = (if p > 100 then Position 100 else Position p)"

definition is_closed :: "Position \<Rightarrow> bool" where
  "is_closed p = (percent p = 0)"

definition is_open :: "Position \<Rightarrow> bool" where
  "is_open p = (percent p = 100)"

datatype CoverState = CoverOpen | CoverClosed | Opening | Closing | Stopped

definition at_rest_for :: "Position \<Rightarrow> CoverState" where
  "at_rest_for p = (if is_closed p then CoverClosed else if is_open p then CoverOpen else Stopped)"

definition is_moving :: "CoverState \<Rightarrow> bool" where
  "is_moving s = (s \<in> {Opening, Closing})"

datatype DeviceClass = Garage | Blind | Shade | Awning | Curtain | Shutter | Gate | Door | Window

record Features =
  f_set_position :: bool
  f_tilt :: bool
  f_stop :: bool

definition features_minimal :: Features where
  "features_minimal = \<lparr>f_set_position = False, f_tilt = False, f_stop = False\<rparr>"

definition features_positionable :: Features where
  "features_positionable = \<lparr>f_set_position = True, f_tilt = False, f_stop = True\<rparr>"

definition features_full :: Features where
  "features_full = \<lparr>f_set_position = True, f_tilt = True, f_stop = True\<rparr>"

fun default_features :: "DeviceClass \<Rightarrow> Features" where
  "default_features Garage = \<lparr>f_set_position = False, f_tilt = False, f_stop = True\<rparr>"
| "default_features Gate = \<lparr>f_set_position = False, f_tilt = False, f_stop = True\<rparr>"
| "default_features Blind = features_full"
| "default_features _ = features_positionable"

datatype CoverCommand = CmdOpen | CmdClose | CmdStop | SetPosition Position | SetTiltPosition Position

datatype CoverError = PositionUnsupported | TiltUnsupported

record Cover =
  cover_class :: DeviceClass
  cover_features :: Features
  cover_position :: Position
  cover_tilt :: "Position option"
  cover_state :: CoverState

definition Cover_new :: "DeviceClass \<Rightarrow> Features \<Rightarrow> Cover" where
  "Cover_new c f = \<lparr>cover_class = c, cover_features = f, cover_position = POS_CLOSED,
     cover_tilt = (if f_tilt f then Some POS_CLOSED else None), cover_state = CoverClosed\<rparr>"

definition with_class_defaults :: "DeviceClass \<Rightarrow> Cover" where
  "with_class_defaults c = Cover_new c (default_features c)"

fun cover_apply :: "CoverCommand \<Rightarrow> Cover \<Rightarrow> Cover \<times> (CoverError + unit)" where
  "cover_apply CmdOpen c = (c\<lparr>cover_position := POS_OPEN, cover_state := CoverOpen\<rparr>, Inr ())"
| "cover_apply CmdClose c = (c\<lparr>cover_position := POS_CLOSED, cover_state := CoverClosed\<rparr>, Inr ())"
| "cover_apply CmdStop c = (c\<lparr>cover_state := at_rest_for (cover_position c)\<rparr>, Inr ())"
| "cover_apply (SetPosition t) c =
    (if \<not> f_set_position (cover_features c) then (c, Inl PositionUnsupported)
     else (c\<lparr>cover_position := t, cover_state := at_rest_for t\<rparr>, Inr ()))"
| "cover_apply (SetTiltPosition t) c =
    (if \<not> f_tilt (cover_features c) then (c, Inl TiltUnsupported)
     else (c\<lparr>cover_tilt := Some t\<rparr>, Inr ()))"

definition direction :: "Position \<Rightarrow> Position \<Rightarrow> CoverState" where
  "direction from upto' =
    (if percent upto' > percent from then Opening
     else if percent upto' < percent from then Closing else at_rest_for upto')"

definition begin_to :: "Position \<Rightarrow> Cover \<Rightarrow> Cover \<times> (CoverError + CoverState)" where
  "begin_to t c = (let d = direction (cover_position c) t in (c\<lparr>cover_state := d\<rparr>, Inr d))"

definition begin_by_apply :: "CoverCommand \<Rightarrow> Cover \<Rightarrow> Cover \<times> (CoverError + CoverState)" where
  "begin_by_apply cmd c = (case cover_apply cmd c of
     (c1, Inl e) \<Rightarrow> (c1, Inl e) | (c1, Inr _) \<Rightarrow> (c1, Inr (cover_state c1)))"

fun cover_begin :: "CoverCommand \<Rightarrow> Cover \<Rightarrow> Cover \<times> (CoverError + CoverState)" where
  "cover_begin CmdOpen c = begin_to POS_OPEN c"
| "cover_begin CmdClose c = begin_to POS_CLOSED c"
| "cover_begin (SetPosition p) c =
    (if \<not> f_set_position (cover_features c) then (c, Inl PositionUnsupported) else begin_to p c)"
| "cover_begin CmdStop c = begin_by_apply CmdStop c"
| "cover_begin (SetTiltPosition p) c = begin_by_apply (SetTiltPosition p) c"

definition settle_at :: "Position \<Rightarrow> Cover \<Rightarrow> Cover" where
  "settle_at p c = c\<lparr>cover_position := p, cover_state := at_rest_for p\<rparr>"

definition report_obstruction :: "Cover \<Rightarrow> Cover" where
  "report_obstruction c = c\<lparr>cover_state := Stopped\<rparr>"

section \<open>Runs\<close>

datatype ClientCommand = COpen | CClose | CStop | CSet u8 | CTilt u8

fun client_command :: "ClientCommand \<Rightarrow> CoverCommand" where
  "client_command COpen = CmdOpen"
| "client_command CClose = CmdClose"
| "client_command CStop = CmdStop"
| "client_command (CSet p) = SetPosition (Position_clamped p)"
| "client_command (CTilt p) = SetTiltPosition (Position_clamped p)"

datatype CoverEvent = Apply ClientCommand | Begin ClientCommand | SettleAt u8 | Obstruction

fun cover_event :: "CoverEvent \<Rightarrow> Cover \<Rightarrow> Cover" where
  "cover_event (Apply cmd) c = fst (cover_apply (client_command cmd) c)"
| "cover_event (Begin cmd) c = fst (cover_begin (client_command cmd) c)"
| "cover_event (SettleAt p) c = settle_at (Position_clamped p) c"
| "cover_event Obstruction c = report_obstruction c"

definition cover_run :: "CoverEvent list \<Rightarrow> Cover \<Rightarrow> Cover" where
  "cover_run evs c = fold cover_event evs c"

section \<open>What a cover reports\<close>

fun state_fits :: "CoverState \<Rightarrow> u8 \<Rightarrow> bool" where
  "state_fits CoverOpen p = (p = 100)"
| "state_fits CoverClosed p = (p = 0)"
| "state_fits Opening p = (p < 100)"
| "state_fits Closing p = (0 < p)"
| "state_fits Stopped p = True"

fun tilt_fits :: "bool \<Rightarrow> Position option \<Rightarrow> bool" where
  "tilt_fits slats (Some t) = (slats \<and> percent t \<le> 100)"
| "tilt_fits slats None = (\<not> slats)"

definition reports_truth :: "Cover \<Rightarrow> bool" where
  "reports_truth c \<longleftrightarrow> percent (cover_position c) \<le> 100 \<and> state_fits (cover_state c) (percent (cover_position c))
     \<and> tilt_fits (f_tilt (cover_features c)) (cover_tilt c)"

lemma clamped_le [simp]: "percent (Position_clamped p) \<le> 100"
  by (simp add: Position_clamped_def not_less)

lemma pos_percent [simp]: "percent POS_OPEN = 100" "percent POS_CLOSED = 0"
  by (simp_all add: POS_OPEN_def POS_CLOSED_def)

lemma at_rest_fits [simp]: "state_fits (at_rest_for p) (percent p)"
  by (simp add: at_rest_for_def is_closed_def is_open_def)

lemma at_rest_still: "at_rest_for p \<noteq> Opening" "at_rest_for p \<noteq> Closing"
  by (simp_all add: at_rest_for_def)

lemma direction_fits:
  assumes "percent t \<le> 100"
  shows "state_fits (direction p t) (percent p)"
proof (cases "percent t = percent p")
  case True
  then show ?thesis using at_rest_fits [of t] by (simp add: direction_def)
next
  case False
  show ?thesis
  proof (cases "percent t > percent p")
    case True
    then show ?thesis using assms by (simp add: direction_def less_le_trans)
  next
    case False
    then have "percent t < percent p" using \<open>percent t \<noteq> percent p\<close> by simp
    then have "0 < percent p" using word_zero_le [of "percent t"] by (rule le_less_trans [rotated])
    then show ?thesis using False \<open>percent t < percent p\<close> by (simp add: direction_def)
  qed
qed

lemma truth_apply: "reports_truth c \<Longrightarrow> reports_truth (fst (cover_apply (client_command cmd) c))"
  by (cases cmd) (auto simp: reports_truth_def)

lemma truth_begin_to: "reports_truth c \<Longrightarrow> percent t \<le> 100 \<Longrightarrow> reports_truth (fst (begin_to t c))"
  by (simp add: begin_to_def reports_truth_def direction_fits Let_def)

lemma truth_by_apply: "reports_truth c \<Longrightarrow> reports_truth (fst (begin_by_apply (client_command cmd) c))"
  using truth_apply [of c cmd] by (auto simp: begin_by_apply_def split: prod.splits sum.splits)

lemma truth_begin:
  assumes "reports_truth c"
  shows "reports_truth (fst (cover_begin (client_command cmd) c))"
  using truth_begin_to [OF assms] truth_by_apply [OF assms, of cmd] assms
  by (cases cmd) auto

lemma truth_event: "reports_truth c \<Longrightarrow> reports_truth (cover_event ev c)"
  by (cases ev) (auto simp: truth_apply truth_begin settle_at_def report_obstruction_def reports_truth_def [of c] reports_truth_def [of "c\<lparr>cover_state := _\<rparr>"] reports_truth_def [of "c\<lparr>cover_position := _, cover_state := _\<rparr>"])

text \<open>
  A cover reports where it is: after any sequence of commands, motor reports and obstructions a
  cover that says open is at 100 percent and one that says closed at 0, one that says opening has room
  to open and one that says closing has room to close, the position stays within 100 percent, and there
  is a tilt within 100 percent exactly when the device has slats.
\<close>

theorem cover_reports_where_it_is: "reports_truth (cover_run evs (Cover_new cl f))"
proof -
  have "reports_truth (Cover_new cl f)" by (simp add: reports_truth_def Cover_new_def)
  moreover have "reports_truth c \<Longrightarrow> reports_truth (fold cover_event evs c)" for c
    by (induction evs arbitrary: c) (simp_all add: truth_event)
  ultimately show ?thesis by (simp add: cover_run_def)
qed

text \<open>
  An obstruction or a stop always halts: right after either, whatever the cover was doing and
  whatever the device can do, the motor is off and neither the position nor the tilt has moved; tilting
  never moves the cover, and a refused command changes nothing.
\<close>

theorem halt_always_wins:
  "\<not> is_moving (cover_state (report_obstruction c)) \<and> \<not> is_moving (cover_state (fst (cover_begin CmdStop c)))
   \<and> cover_position (report_obstruction c) = cover_position c \<and> cover_tilt (report_obstruction c) = cover_tilt c
   \<and> cover_position (fst (cover_begin CmdStop c)) = cover_position c \<and> cover_tilt (fst (cover_begin CmdStop c)) = cover_tilt c
   \<and> cover_position (fst (cover_begin (SetTiltPosition t) c)) = cover_position c
   \<and> cover_state (fst (cover_begin (SetTiltPosition t) c)) = cover_state c
   \<and> (case snd (cover_begin cmd c) of Inl e \<Rightarrow> fst (cover_begin cmd c) = c | Inr s \<Rightarrow> cover_state (fst (cover_begin cmd c)) = s)"
proof -
  have "\<not> is_moving (at_rest_for p)" for p
    using at_rest_still [of p] by (auto simp: is_moving_def)
  moreover have "case snd (cover_begin cmd c) of Inl e \<Rightarrow> fst (cover_begin cmd c) = c
      | Inr s \<Rightarrow> cover_state (fst (cover_begin cmd c)) = s"
    by (cases cmd) (auto simp: begin_to_def begin_by_apply_def Let_def)
  ultimately show ?thesis
    by (auto simp: report_obstruction_def begin_by_apply_def is_moving_def)
qed

end
