(* ===== verification/Vacuum_Machine.thy ===== *)
theory Vacuum_Machine
  imports Cave_Prelude
begin

text \<open>
  Robot vacuums (\<open>cave-home-vacuum\<close>: \<open>battery.rs\<close>, \<open>error.rs\<close>, \<open>fan.rs\<close>, \<open>map.rs\<close>, \<open>state.rs\<close>,
  \<open>machine.rs\<close>): the battery with its return threshold, suction presets, the map of rooms and zones, and
  the machine that takes commands, motor reports, faults and battery readings. A \<open>BTreeSet\<close> of room
  numbers is the sorted list of its elements.
\<close>

section \<open>Battery, faults, suction\<close>

datatype ChargeDirection = Charging | Discharging
datatype BatteryError = BatteryOutOfRange

definition DEFAULT_RETURN_THRESHOLD :: u8 where "DEFAULT_RETURN_THRESHOLD = 20"

record Battery =
  charge :: u8
  charge_direction :: ChargeDirection
  return_threshold :: u8

definition Battery_with_threshold :: "u8 \<Rightarrow> ChargeDirection \<Rightarrow> u8 \<Rightarrow> BatteryError + Battery" where
  "Battery_with_threshold p d t =
    (if p > 100 \<or> t > 100 then Inl BatteryOutOfRange
     else Inr \<lparr>charge = p, charge_direction = d, return_threshold = t\<rparr>)"

definition Battery_new :: "u8 \<Rightarrow> ChargeDirection \<Rightarrow> BatteryError + Battery" where
  "Battery_new p d = Battery_with_threshold p d DEFAULT_RETURN_THRESHOLD"

definition is_charging :: "Battery \<Rightarrow> bool" where
  "is_charging b = (charge_direction b = Charging)"

definition is_low :: "Battery \<Rightarrow> bool" where
  "is_low b = (\<not> is_charging b \<and> charge b \<le> return_threshold b)"

definition can_start_clean :: "Battery \<Rightarrow> bool" where
  "can_start_clean b = (charge b > return_threshold b)"

datatype ErrorCode = BrushStuck | WheelStuck | SideBrushStuck | BinFull | DustbinMissing | Lost | Trapped
  | CliffSensor | WaterTankEmpty | Generic

definition is_user_serviceable :: "ErrorCode \<Rightarrow> bool" where
  "is_user_serviceable e = (e \<in> {BrushStuck, SideBrushStuck, BinFull, DustbinMissing, WaterTankEmpty})"

datatype FanSpeed = FanOff | FanMin | FanLow | FanMedium | FanHigh | FanMax | FanTurbo

definition fan_rank :: "FanSpeed \<Rightarrow> nat" where
  "fan_rank s = (case s of FanOff \<Rightarrow> 0 | FanMin \<Rightarrow> 1 | FanLow \<Rightarrow> 2 | FanMedium \<Rightarrow> 3 | FanHigh \<Rightarrow> 4 | FanMax \<Rightarrow> 5 | FanTurbo \<Rightarrow> 6)"

record FanCapability =
  fan_max :: FanSpeed
  can_turn_off :: bool

definition fan_basic :: FanCapability where "fan_basic = \<lparr>fan_max = FanHigh, can_turn_off = False\<rparr>"
definition fan_full :: FanCapability where "fan_full = \<lparr>fan_max = FanTurbo, can_turn_off = True\<rparr>"

definition fan_supports :: "FanCapability \<Rightarrow> FanSpeed \<Rightarrow> bool" where
  "fan_supports c s = (if s = FanOff then can_turn_off c else fan_rank s \<le> fan_rank (fan_max c))"

section \<open>The map\<close>

record Segment =
  seg_id :: u16
  seg_name :: string

record Zone =
  zx1 :: int
  zy1 :: int
  zx2 :: int
  zy2 :: int

datatype ZoneError = DegenerateRectangle

definition Zone_new :: "int \<Rightarrow> int \<Rightarrow> int \<Rightarrow> int \<Rightarrow> ZoneError + Zone" where
  "Zone_new ax ay bx by' =
    (let x1 = min ax bx; x2 = max ax bx; y1 = min ay by'; y2 = max ay by' in
     if x1 = x2 \<or> y1 = y2 then Inl DegenerateRectangle else Inr \<lparr>zx1 = x1, zy1 = y1, zx2 = x2, zy2 = y2\<rparr>)"

text \<open>The differences are taken in 32 bits before they are widened.\<close>

definition wrap_i32 :: "int \<Rightarrow> int" where
  "wrap_i32 i = (i + 2 ^ 31) mod 2 ^ 32 - 2 ^ 31"

definition Zone_area :: "Zone \<Rightarrow> int" where
  "Zone_area z = wrap_i32 (zx2 z - zx1 z) * wrap_i32 (zy2 z - zy1 z)"

datatype SegmentRequestError = RequestEmpty | UnknownSegments "u16 list"

definition map_contains :: "Segment list \<Rightarrow> u16 \<Rightarrow> bool" where
  "map_contains m i = list_ex (\<lambda>s. seg_id s = i) m"

definition map_segment :: "Segment list \<Rightarrow> u16 \<Rightarrow> Segment option" where
  "map_segment m i = find (\<lambda>s. seg_id s = i) m"

definition validate_segments :: "Segment list \<Rightarrow> u16 list \<Rightarrow> SegmentRequestError + u16 list" where
  "validate_segments m req =
    (if req = [] then Inl RequestEmpty
     else
       let unknown = filter (\<lambda>i. \<not> map_contains m i) req in
       if unknown \<noteq> [] then Inl (UnknownSegments (remdups (sort unknown)))
       else Inr (remdups (sort req)))"

section \<open>The machine\<close>

datatype VacuumState = Idle | Cleaning | SpotCleaning | Returning | Docked | Paused | Error | Manual

definition is_cleaning :: "VacuumState \<Rightarrow> bool" where
  "is_cleaning s = (s \<in> {Cleaning, SpotCleaning})"

definition is_busy :: "VacuumState \<Rightarrow> bool" where
  "is_busy s = (s \<in> {Cleaning, SpotCleaning, Returning})"

datatype VacuumCommand = Start | Pause | Stop | ReturnToBase | CleanSpot | Locate | SetFanSpeed FanSpeed
  | CleanSegments "u16 list" | CleanZones "Zone list"

definition allowed_in_error :: "VacuumCommand \<Rightarrow> bool" where
  "allowed_in_error c = (c \<in> {Locate, ReturnToBase})"

record VacuumFeatures =
  vf_fan :: FanCapability
  supports_spot :: bool
  supports_zones :: bool

definition vf_basic :: VacuumFeatures where
  "vf_basic = \<lparr>vf_fan = fan_basic, supports_spot = True, supports_zones = False\<rparr>"

definition vf_full :: VacuumFeatures where
  "vf_full = \<lparr>vf_fan = fan_full, supports_spot = True, supports_zones = True\<rparr>"

datatype CommandError = Unsupported | IllegalTransition | Faulted | BatteryTooLow | BadCleanRequest SegmentRequestError

record Vacuum =
  vac_state :: VacuumState
  vac_battery :: Battery
  vac_features :: VacuumFeatures
  fan_speed :: FanSpeed
  vac_map :: "Segment list"
  vac_error :: "ErrorCode option"

definition Vacuum_with_state :: "VacuumFeatures \<Rightarrow> VacuumState \<Rightarrow> Battery \<Rightarrow> Vacuum" where
  "Vacuum_with_state f s b = \<lparr>vac_state = s, vac_battery = b, vac_features = f, fan_speed = FanMedium, vac_map = [], vac_error = None\<rparr>"

definition Vacuum_docked :: "VacuumFeatures \<Rightarrow> Battery \<Rightarrow> Segment list \<Rightarrow> Vacuum" where
  "Vacuum_docked f b m = \<lparr>vac_state = Docked, vac_battery = b, vac_features = f, fan_speed = FanMedium, vac_map = m, vac_error = None\<rparr>"

definition can_begin_clean :: "Vacuum \<Rightarrow> bool" where
  "can_begin_clean v = (vac_state v \<in> {Idle, Docked, Paused})"

text \<open>The tail that the four cleaning commands share: resting, charged, then the new state.\<close>

definition begin_clean :: "VacuumState \<Rightarrow> Vacuum \<Rightarrow> Vacuum \<times> (CommandError + VacuumState)" where
  "begin_clean s v =
    (if \<not> can_begin_clean v then (v, Inl IllegalTransition)
     else if \<not> can_start_clean (vac_battery v) then (v, Inl BatteryTooLow)
     else (v\<lparr>vac_state := s\<rparr>, Inr s))"

fun run_command :: "VacuumCommand \<Rightarrow> Vacuum \<Rightarrow> Vacuum \<times> (CommandError + VacuumState)" where
  "run_command Locate v = (v, Inr (vac_state v))"
| "run_command (SetFanSpeed s) v =
    (if \<not> fan_supports (vf_fan (vac_features v)) s then (v, Inl Unsupported)
     else (v\<lparr>fan_speed := s\<rparr>, Inr (vac_state v)))"
| "run_command Start v = begin_clean Cleaning v"
| "run_command CleanSpot v =
    (if \<not> supports_spot (vac_features v) then (v, Inl Unsupported) else begin_clean SpotCleaning v)"
| "run_command (CleanSegments ids) v =
    (if \<not> supports_zones (vac_features v) then (v, Inl Unsupported)
     else case validate_segments (vac_map v) ids of
       Inl e \<Rightarrow> (v, Inl (BadCleanRequest e))
     | Inr _ \<Rightarrow> begin_clean Cleaning v)"
| "run_command (CleanZones zs) v =
    (if \<not> supports_zones (vac_features v) then (v, Inl Unsupported)
     else if zs = [] then (v, Inl (BadCleanRequest RequestEmpty))
     else begin_clean Cleaning v)"
| "run_command Pause v =
    (if \<not> is_busy (vac_state v) then (v, Inl IllegalTransition) else (v\<lparr>vac_state := Paused\<rparr>, Inr Paused))"
| "run_command Stop v =
    (if vac_state v \<notin> {Cleaning, SpotCleaning, Returning, Paused, Manual} then (v, Inl IllegalTransition)
     else (v\<lparr>vac_state := Idle\<rparr>, Inr Idle))"
| "run_command ReturnToBase v =
    (if vac_state v \<in> {Returning, Docked} then (v, Inr (vac_state v))
     else (v\<lparr>vac_state := Returning\<rparr>, Inr Returning))"

definition vac_apply :: "VacuumCommand \<Rightarrow> Vacuum \<Rightarrow> Vacuum \<times> (CommandError + VacuumState)" where
  "vac_apply c v = (if vac_error v \<noteq> None \<and> \<not> allowed_in_error c then (v, Inl Faulted) else run_command c v)"

definition reached_dock :: "Vacuum \<Rightarrow> Vacuum" where
  "reached_dock v = (if vac_error v = None then v\<lparr>vac_state := Docked\<rparr> else v)"

definition report_error :: "ErrorCode \<Rightarrow> Vacuum \<Rightarrow> Vacuum" where
  "report_error e v = v\<lparr>vac_error := Some e, vac_state := Error\<rparr>"

definition clear_error :: "Vacuum \<Rightarrow> Vacuum \<times> (CommandError + VacuumState)" where
  "clear_error v = (if vac_error v = None then (v, Inl IllegalTransition)
     else (v\<lparr>vac_error := None, vac_state := Idle\<rparr>, Inr Idle))"

definition update_battery :: "Battery \<Rightarrow> Vacuum \<Rightarrow> Vacuum \<times> bool" where
  "update_battery b v =
    (let v1 = v\<lparr>vac_battery := b\<rparr> in
     if vac_error v1 = None \<and> is_cleaning (vac_state v1) \<and> is_low b
     then (v1\<lparr>vac_state := Returning\<rparr>, True) else (v1, False))"

definition enter_manual :: "Vacuum \<Rightarrow> Vacuum \<times> (CommandError + VacuumState)" where
  "enter_manual v = (if vac_error v \<noteq> None then (v, Inl Faulted) else (v\<lparr>vac_state := Manual\<rparr>, Inr Manual))"

section \<open>Runs\<close>

datatype VacuumEvent = Command VacuumCommand | ReachedDock | Fault ErrorCode | ClearError | BatteryReading Battery | EnterManual

fun vac_event :: "VacuumEvent \<Rightarrow> Vacuum \<Rightarrow> Vacuum" where
  "vac_event (Command c) v = fst (vac_apply c v)"
| "vac_event ReachedDock v = reached_dock v"
| "vac_event (Fault e) v = report_error e v"
| "vac_event ClearError v = fst (clear_error v)"
| "vac_event (BatteryReading b) v = fst (update_battery b v)"
| "vac_event EnterManual v = fst (enter_manual v)"

definition vac_run :: "VacuumEvent list \<Rightarrow> Vacuum \<Rightarrow> Vacuum" where
  "vac_run evs v = fold vac_event evs v"

section \<open>Safety\<close>

definition vac_safe :: "Vacuum \<Rightarrow> bool" where
  "vac_safe v \<longleftrightarrow>
     (vac_error v \<noteq> None \<longrightarrow> vac_state v \<in> {Error, Returning})
   \<and> (vac_state v = Error \<longrightarrow> vac_error v \<noteq> None)
   \<and> (is_cleaning (vac_state v) \<longrightarrow> \<not> is_low (vac_battery v))"

lemma safe_begin:
  "vac_safe v \<Longrightarrow> vac_error v = None \<Longrightarrow> s \<in> {Cleaning, SpotCleaning} \<Longrightarrow> vac_safe (fst (begin_clean s v))"
  by (auto simp: begin_clean_def vac_safe_def is_low_def can_start_clean_def not_le)

lemma safe_command: "vac_safe v \<Longrightarrow> vac_safe (fst (vac_apply c v))"
proof (cases "vac_error v = None")
  case True
  assume s: "vac_safe v"
  show ?thesis
    using True s safe_begin [OF s True]
    by (cases c) (auto simp: vac_apply_def vac_safe_def is_cleaning_def split: sum.splits)
next
  case False
  assume s: "vac_safe v"
  show ?thesis
    using False s by (cases c) (auto simp: vac_apply_def allowed_in_error_def vac_safe_def is_cleaning_def)
qed

lemma safe_event:
  assumes "vac_safe v"
  shows "vac_safe (vac_event ev v)"
proof (cases ev)
  case (Command c)
  then show ?thesis using safe_command [OF assms] by simp
qed (use assms in \<open>auto simp: reached_dock_def report_error_def clear_error_def update_battery_def enter_manual_def
      vac_safe_def is_cleaning_def Let_def\<close>)

text \<open>
  A vacuum is never where it should not be: however a docked vacuum is commanded and whatever it
  reports, with a fault it is in the error state or on its way home and nowhere else, it is in the error
  state only with a fault, and while it cleans its battery is above the return threshold or charging.
\<close>

theorem vacuum_stays_safe: "vac_safe (vac_run evs (Vacuum_docked f b m))"
proof -
  have "vac_safe v \<Longrightarrow> vac_safe (fold vac_event evs v)" for v
    by (induction evs arbitrary: v) (simp_all add: safe_event)
  moreover have "vac_safe (Vacuum_docked f b m)" by (simp add: vac_safe_def Vacuum_docked_def is_cleaning_def)
  ultimately show ?thesis by (simp add: vac_run_def)
qed

text \<open>
  A refused command changes nothing, and an accepted cleaning command starts from rest with a charge
  above the threshold, on rooms that are all on the map.
\<close>

theorem vacuum_command_guards:
  "case vac_apply c v of
     (v', Inl e) \<Rightarrow> v' = v
   | (v', Inr s) \<Rightarrow> s = vac_state v' \<and>
       (case c of
          Start \<Rightarrow> can_begin_clean v \<and> can_start_clean (vac_battery v) \<and> s = Cleaning
        | CleanSegments ids \<Rightarrow> can_begin_clean v \<and> can_start_clean (vac_battery v) \<and> s = Cleaning
            \<and> ids \<noteq> [] \<and> set ids \<subseteq> seg_id ` set (vac_map v)
        | _ \<Rightarrow> vac_map v' = vac_map v)"
  by (cases c) (auto simp: vac_apply_def begin_clean_def validate_segments_def map_contains_def list_ex_iff
      filter_empty_conv Let_def split: sum.splits)

fun fault_kept :: "VacuumEvent \<Rightarrow> bool" where
  "fault_kept (Fault _) = False"
| "fault_kept ClearError = False"
| "fault_kept _ = True"

text \<open>
  A fault outlives the dock: once a faulted vacuum has been sent home, no report of the dock, no
  battery reading and no command brings it out of the returning state; only clearing the fault does, or
  a new fault, and clearing leaves it idle, not docked.
\<close>

theorem faulted_vacuum_never_docks:
  assumes "list_all fault_kept evs"
  shows "let v = vac_run evs (fst (vac_apply ReturnToBase (report_error e v0))) in
     vac_state v = Returning \<and> vac_error v = Some e \<and> vac_state (fst (clear_error v)) = Idle"
proof -
  have step: "vac_state (vac_event ev v) = Returning \<and> vac_error (vac_event ev v) = Some e"
    if "vac_state v = Returning" "vac_error v = Some e" "fault_kept ev" for ev v
  proof (cases ev)
    case (Command c)
    then show ?thesis using that by (cases c) (simp_all add: vac_apply_def allowed_in_error_def)
  qed (use that in \<open>simp_all add: reached_dock_def update_battery_def enter_manual_def Let_def\<close>)
  have run: "vac_state (fold vac_event evs v) = Returning \<and> vac_error (fold vac_event evs v) = Some e"
    if "vac_state v = Returning" "vac_error v = Some e" for v
    using assms that by (induction evs arbitrary: v) (simp_all add: step)
  have "vac_state (fst (vac_apply ReturnToBase (report_error e v0))) = Returning"
    "vac_error (fst (vac_apply ReturnToBase (report_error e v0))) = Some e"
    by (simp_all add: vac_apply_def allowed_in_error_def report_error_def)
  from run [OF this] show ?thesis by (simp add: vac_run_def Let_def clear_error_def)
qed

theorem faulted_vacuum_never_docks_witness:
  "vac_state (vac_run [ReachedDock, Command Start, ReachedDock]
     (fst (vac_apply ReturnToBase (report_error BinFull (Vacuum_docked vf_full \<lparr>charge = 90, charge_direction = Charging, return_threshold = 20\<rparr> []))))) = Returning"
  using faulted_vacuum_never_docks [of "[ReachedDock, Command Start, ReachedDock]" BinFull
      "Vacuum_docked vf_full \<lparr>charge = 90, charge_direction = Charging, return_threshold = 20\<rparr> []"]
  by (simp add: Let_def)

end
