(* ===== verification/Knx_Address.thy ===== *)
theory Knx_Address
  imports Std_Parse
begin

text \<open>
  KNX addresses (\<open>cave-home-knx\<close>: \<open>address.rs\<close>): individual addresses in dotted form and group addresses
  in the three notations, as sixteen bits. Every address that is printed parses back to itself. The
  texts of the errors are left out.
\<close>

datatype KnxError = AddressParse | Conversion | Telegram

datatype GroupAddressStyle = Free | TwoLevel | ThreeLevel

record IndividualAddress =
  ia_raw :: u16

record GroupAddress =
  ga_raw :: u16
  ga_style :: GroupAddressStyle

definition parse_u16 :: "string \<Rightarrow> u16 option" where
  "parse_u16 s = map_option of_nat (parse_uint 65535 s)"

definition parse_part :: "string \<Rightarrow> KnxError + u16" where
  "parse_part s = (case parse_u16 (trim s) of Some n \<Rightarrow> Inr n | None \<Rightarrow> Inl AddressParse)"

definition field_ok :: "u16 \<Rightarrow> u16 \<Rightarrow> bool" where
  "field_ok v mx = (\<not> v > mx)"

text \<open>The parts of an address, each parsed in turn, then each held against its width in turn.\<close>

fun parse_parts :: "string list \<Rightarrow> KnxError + u16 list" where
  "parse_parts [] = Inr []"
| "parse_parts (s # ss) = (case parse_part s of
     Inl e \<Rightarrow> Inl e
   | Inr v \<Rightarrow> (case parse_parts ss of Inl e \<Rightarrow> Inl e | Inr vs \<Rightarrow> Inr (v # vs)))"

definition IA_parse :: "string \<Rightarrow> KnxError + IndividualAddress" where
  "IA_parse s0 =
    (let s = trim s0 in
     case parse_u16 s of
       Some n \<Rightarrow> Inr \<lparr>ia_raw = n\<rparr>
     | None \<Rightarrow>
        (let parts = split_on (CHR ''.'') s in
         if length parts \<noteq> 3 then Inl AddressParse
         else case parse_parts parts of
           Inr [area, line, device] \<Rightarrow>
             if field_ok area 15 \<and> field_ok line 15 \<and> field_ok device 255
             then Inr \<lparr>ia_raw = or (or (push_bit 12 area) (push_bit 8 line)) device\<rparr> else Inl AddressParse
         | _ \<Rightarrow> Inl AddressParse))"

definition ia_area :: "IndividualAddress \<Rightarrow> u16" where "ia_area a = and (drop_bit 12 (ia_raw a)) 15"
definition ia_line :: "IndividualAddress \<Rightarrow> u16" where "ia_line a = and (drop_bit 8 (ia_raw a)) 15"
definition ia_device :: "IndividualAddress \<Rightarrow> u16" where "ia_device a = and (ia_raw a) 255"

definition show_u16 :: "u16 \<Rightarrow> string" where
  "show_u16 w = show_nat (unat w)"

definition IA_display :: "IndividualAddress \<Rightarrow> string" where
  "IA_display a = show_u16 (ia_area a) @ ''.'' @ show_u16 (ia_line a) @ ''.'' @ show_u16 (ia_device a)"

definition GA_from_raw :: "u16 \<Rightarrow> GroupAddress" where
  "GA_from_raw r = \<lparr>ga_raw = r, ga_style = ThreeLevel\<rparr>"

definition with_style :: "GroupAddressStyle \<Rightarrow> GroupAddress \<Rightarrow> GroupAddress" where
  "with_style st a = a\<lparr>ga_style := st\<rparr>"

definition GA_parse :: "string \<Rightarrow> KnxError + GroupAddress" where
  "GA_parse s0 =
    (let s = trim s0 in
     if CHR ''/'' \<notin> set s then
       (case parse_u16 s of Some n \<Rightarrow> Inr (with_style Free (GA_from_raw n)) | None \<Rightarrow> Inl AddressParse)
     else
       let parts = split_on (CHR ''/'') s in
       if length parts = 2 then
         (case parse_parts parts of
            Inr [main, sub] \<Rightarrow>
              if field_ok main 31 \<and> field_ok sub 2047
              then Inr \<lparr>ga_raw = or (push_bit 11 main) sub, ga_style = TwoLevel\<rparr> else Inl AddressParse
          | _ \<Rightarrow> Inl AddressParse)
       else if length parts = 3 then
         (case parse_parts parts of
            Inr [main, middle, sub] \<Rightarrow>
              if field_ok main 31 \<and> field_ok middle 7 \<and> field_ok sub 255
              then Inr \<lparr>ga_raw = or (or (push_bit 11 main) (push_bit 8 middle)) sub, ga_style = ThreeLevel\<rparr> else Inl AddressParse
          | _ \<Rightarrow> Inl AddressParse)
       else Inl AddressParse)"

definition ga_sub :: "GroupAddress \<Rightarrow> u16" where
  "ga_sub a = (case ga_style a of Free \<Rightarrow> ga_raw a | TwoLevel \<Rightarrow> and (ga_raw a) 2047 | ThreeLevel \<Rightarrow> and (ga_raw a) 255)"

definition ga_main :: "GroupAddress \<Rightarrow> u16 option" where
  "ga_main a = (case ga_style a of Free \<Rightarrow> None | _ \<Rightarrow> Some (and (drop_bit 11 (ga_raw a)) 31))"

definition ga_middle :: "GroupAddress \<Rightarrow> u16 option" where
  "ga_middle a = (case ga_style a of ThreeLevel \<Rightarrow> Some (and (drop_bit 8 (ga_raw a)) 7) | _ \<Rightarrow> None)"

definition GA_display :: "GroupAddress \<Rightarrow> string" where
  "GA_display a = (case ga_style a of
     Free \<Rightarrow> show_u16 (ga_raw a)
   | TwoLevel \<Rightarrow> show_u16 (and (drop_bit 11 (ga_raw a)) 31) @ ''/'' @ show_u16 (ga_sub a)
   | ThreeLevel \<Rightarrow> show_u16 (and (drop_bit 11 (ga_raw a)) 31) @ ''/'' @ show_u16 (and (drop_bit 8 (ga_raw a)) 7)
       @ ''/'' @ show_u16 (ga_sub a))"

definition address_bytes :: "u16 \<Rightarrow> u8 list" where
  "address_bytes r = u16_to_be_bytes r"

definition address_from_bytes :: "u8 \<Rightarrow> u8 \<Rightarrow> u16" where
  "address_from_bytes a b = u16_from_be_bytes a b"

section \<open>Printing and reading numbers\<close>

lemma parse_show_u16 [simp]: "parse_u16 (show_u16 w) = Some w"
proof -
  have "unat w \<le> 65535" using unsigned_less [of w, where ?'a = nat] by simp
  then show ?thesis by (simp add: parse_u16_def show_u16_def parse_show)
qed

lemma show_solid: "c \<in> set (show_u16 w) \<Longrightarrow> is_digit c"
  using show_nat_digits [of "unat w"] by (simp add: show_u16_def list_all_iff)

lemma trim_show [simp]: "trim (show_u16 w) = show_u16 w"
  by (rule trim_solid) (auto dest: show_solid digit_solid)

lemma show_no_sep: "CHR ''/'' \<notin> set (show_u16 w)" "CHR ''.'' \<notin> set (show_u16 w)"
  using show_solid digit_not by blast+

lemma parse_part_show [simp]: "parse_part (show_u16 w) = Inr w"
  by (simp add: parse_part_def)

section \<open>Round trips\<close>

lemma parse_dotted: "parse_u16 (show_u16 a @ CHR ''.'' # s) = None"
proof -
  have dot: "\<not> is_digit (CHR ''.'')" by (simp add: is_digit_def)
  obtain c cs where s: "show_u16 a = c # cs" and "is_digit c"
    using show_nat_digits [of "unat a"] by (cases "show_u16 a") (auto simp: show_u16_def)
  then have "c \<noteq> CHR ''+''" using digit_not by blast
  then show ?thesis using dot by (simp add: s parse_u16_def parse_uint_def)
qed

lemma individual_fields:
  "or (or (push_bit 12 (and (drop_bit 12 w) 15)) (push_bit 8 (and (drop_bit 8 w) 15))) (and w 255) = (w :: u16)"
proof -
  have m: "(15 :: u16) = mask 4" "(255 :: u16) = mask 8" by (simp_all add: mask_eq_exp_minus_1)
  have "bit (or (or (push_bit 12 (and (drop_bit 12 w) (mask 4))) (push_bit 8 (and (drop_bit 8 w) (mask 4)))) (and w (mask 8))) n = bit w n" if "n < 16" for n
    using that by (cases "n < 12") (auto simp: bit_simps)
  then show ?thesis unfolding m by (intro bit_word_eqI) auto
qed

lemma two_level_fields: "or (push_bit 11 (and (drop_bit 11 w) 31)) (and w 2047) = (w :: u16)"
proof -
  have m: "(31 :: u16) = mask 5" "(2047 :: u16) = mask 11" by (simp_all add: mask_eq_exp_minus_1)
  show ?thesis unfolding m by (rule bit_word_eqI) (auto simp: bit_simps)
qed

lemma three_level_fields:
  "or (or (push_bit 11 (and (drop_bit 11 w) 31)) (push_bit 8 (and (drop_bit 8 w) 7))) (and w 255) = (w :: u16)"
proof -
  have m: "(31 :: u16) = mask 5" "(7 :: u16) = mask 3" "(255 :: u16) = mask 8" by (simp_all add: mask_eq_exp_minus_1)
  have "bit (or (or (push_bit 11 (and (drop_bit 11 w) (mask 5))) (push_bit 8 (and (drop_bit 8 w) (mask 3)))) (and w (mask 8))) n = bit w n" if "n < 16" for n
    using that by (cases "n < 11") (auto simp: bit_simps)
  then show ?thesis unfolding m by (intro bit_word_eqI) auto
qed

lemma field_ok_and [simp]: "field_ok (and w m) m"
  by (simp add: field_ok_def not_less word_and_le1)

text \<open>Printed addresses are made of digits and separators only, so nothing of them is trimmed.\<close>

lemma shown_solid: "c \<in> set (show_u16 w) \<Longrightarrow> solid c"
  using show_solid digit_solid by blast

lemma separators_solid [simp]: "solid (CHR ''/'')" "solid (CHR ''.'')"
  by (simp_all add: solid_def)

lemma trim_display [simp]: "trim (IA_display a) = IA_display a" "trim (GA_display g) = GA_display g"
  by (rule trim_solid; auto simp: IA_display_def GA_display_def dest: shown_solid split: GroupAddressStyle.splits)+

lemmas split_shown = split_on_append [OF show_no_sep(1)] split_on_append [OF show_no_sep(2)]
  split_on_id [OF show_no_sep(1)] split_on_id [OF show_no_sep(2)]

lemma IA_parse_dotted:
  "IA_parse (show_u16 a @ ''.'' @ show_u16 l @ ''.'' @ show_u16 d) =
     (if field_ok a 15 \<and> field_ok l 15 \<and> field_ok d 255
      then Inr \<lparr>ia_raw = or (or (push_bit 12 a) (push_bit 8 l)) d\<rparr> else Inl AddressParse)"
proof -
  have t: "trim (show_u16 a @ ''.'' @ show_u16 l @ ''.'' @ show_u16 d) = show_u16 a @ ''.'' @ show_u16 l @ ''.'' @ show_u16 d"
    by (rule trim_solid) (auto dest: shown_solid)
  show ?thesis unfolding IA_parse_def t by (simp add: parse_dotted split_shown)
qed

lemma individual_packed:
  fixes a l d :: u16
  assumes "a \<le> 15" "l \<le> 15" "d \<le> 255"
  shows "and (drop_bit 12 (or (or (push_bit 12 a) (push_bit 8 l)) d)) 15 = a"
    and "and (drop_bit 8 (or (or (push_bit 12 a) (push_bit 8 l)) d)) 15 = l"
    and "and (or (or (push_bit 12 a) (push_bit 8 l)) d) 255 = d"
proof -
  have m: "(15 :: u16) = mask 4" "(255 :: u16) = mask 8" by (simp_all add: mask_eq_exp_minus_1)
  have "and a (mask 4) = a" "and l (mask 4) = l" "and d (mask 8) = d"
    using assms by (simp_all add: mask_eq_iff word_le_def)
  then have "\<And>n. bit a n \<Longrightarrow> n < 4" "\<And>n. bit l n \<Longrightarrow> n < 4" "\<And>n. bit d n \<Longrightarrow> n < 8"
    by (metis bit_and_iff bit_mask_iff)+
  then show "and (drop_bit 12 (or (or (push_bit 12 a) (push_bit 8 l)) d)) 15 = a"
    and "and (drop_bit 8 (or (or (push_bit 12 a) (push_bit 8 l)) d)) 15 = l"
    and "and (or (or (push_bit 12 a) (push_bit 8 l)) d) 255 = d"
    unfolding m by (intro bit_word_eqI; fastforce simp: bit_simps)+
qed

text \<open>
  An individual address that is printed is read back as the same address.\<close>

theorem individual_address_round_trip: "IA_parse (IA_display a) = Inr a"
proof -
  have w: "or (or (push_bit 12 (ia_area a)) (push_bit 8 (ia_line a))) (ia_device a) = ia_raw a"
    unfolding ia_area_def ia_line_def ia_device_def by (rule individual_fields)
  have f: "field_ok (ia_area a) 15" "field_ok (ia_line a) 15" "field_ok (ia_device a) 255"
    by (simp_all add: ia_area_def ia_line_def ia_device_def)
  show ?thesis unfolding IA_display_def IA_parse_dotted by (simp add: f w)
qed

text \<open>
  A group address that is printed in its notation is read back as the same number in the same notation.\<close>

theorem group_address_round_trip: "GA_parse (GA_display g) = Inr g"
proof (cases "ga_style g")
  case Free
  then show ?thesis using show_no_sep by (simp add: GA_parse_def GA_display_def GA_from_raw_def with_style_def)
next
  case TwoLevel
  have "split_on (CHR ''/'') (GA_display g) = [show_u16 (and (drop_bit 11 (ga_raw g)) 31), show_u16 (ga_sub g)]"
    using TwoLevel by (simp add: GA_display_def split_shown)
  moreover have "CHR ''/'' \<in> set (GA_display g)" using TwoLevel by (simp add: GA_display_def)
  ultimately show ?thesis using TwoLevel by (simp add: GA_parse_def ga_sub_def two_level_fields [simplified])
next
  case ThreeLevel
  have "split_on (CHR ''/'') (GA_display g) = [show_u16 (and (drop_bit 11 (ga_raw g)) 31),
      show_u16 (and (drop_bit 8 (ga_raw g)) 7), show_u16 (ga_sub g)]"
    using ThreeLevel by (simp add: GA_display_def split_shown)
  moreover have "CHR ''/'' \<in> set (GA_display g)" using ThreeLevel by (simp add: GA_display_def)
  ultimately show ?thesis using ThreeLevel by (simp add: GA_parse_def ga_sub_def three_level_fields [simplified])
qed

text \<open>
  The parsers accept every number and every text of three or two numbers within their widths, and the fields are
  those of the text: the area, line and device of a parsed address.\<close>

theorem individual_address_fields:
  "a \<le> 15 \<Longrightarrow> l \<le> 15 \<Longrightarrow> d \<le> 255 \<Longrightarrow>
   (\<exists>x. IA_parse (show_u16 a @ ''.'' @ show_u16 l @ ''.'' @ show_u16 d) = Inr x
      \<and> ia_area x = a \<and> ia_line x = l \<and> ia_device x = d)"
  using individual_packed [of a l d] unfolding IA_parse_dotted
  by (simp add: ia_area_def ia_line_def ia_device_def field_ok_def not_less)

theorem individual_address_fields_witness:
  "\<exists>x. IA_parse (show_u16 1 @ ''.'' @ show_u16 1 @ ''.'' @ show_u16 5) = Inr x
      \<and> ia_area x = 1 \<and> ia_line x = 1 \<and> ia_device x = 5"
  by (rule individual_address_fields) simp_all

end
