(* ===== verification/Knx_Telegram.thy ===== *)
theory Knx_Telegram
  imports Knx_Address
begin

text \<open>
  KNX group telegrams (\<open>cave-home-knx\<close>: \<open>apci.rs\<close>, \<open>telegram.rs\<close>): the application service codes and the
  data unit of two control bytes and a payload. The theorems say exactly which telegrams survive the bus
  and what becomes of the others.
\<close>

unbundle bit_operations_syntax

datatype GroupService = Read | Response | Write

definition apci_code :: "GroupService \<Rightarrow> u16" where
  "apci_code s = (case s of Read \<Rightarrow> 0 | Response \<Rightarrow> 1 | Write \<Rightarrow> 2)"

definition from_apci_code :: "u16 \<Rightarrow> KnxError + GroupService" where
  "from_apci_code c = (if c = 0 then Inr Read else if c = 1 then Inr Response else if c = 2 then Inr Write else Inl Telegram)"

datatype Payload = NoPayload | Small u8 | Bytes "u8 list"

definition Payload_small :: "u8 \<Rightarrow> KnxError + Payload" where
  "Payload_small v = (if v > 0x3F then Inl Conversion else Inr (Small v))"

record GroupTelegram =
  gt_source :: IndividualAddress
  gt_destination :: GroupAddress
  gt_service :: GroupService
  gt_payload :: Payload

definition GT_write :: "IndividualAddress \<Rightarrow> GroupAddress \<Rightarrow> u8 list \<Rightarrow> GroupTelegram" where
  "GT_write src dst bytes =
    \<lparr>gt_source = src, gt_destination = dst, gt_service = Write, gt_payload = Bytes bytes\<rparr>"

definition GT_write_small :: "IndividualAddress \<Rightarrow> GroupAddress \<Rightarrow> u8 \<Rightarrow> KnxError + GroupTelegram" where
  "GT_write_small src dst v = (case Payload_small v of
     Inl e \<Rightarrow> Inl e
   | Inr p \<Rightarrow> Inr \<lparr>gt_source = src, gt_destination = dst, gt_service = Write, gt_payload = p\<rparr>)"

definition GT_read :: "IndividualAddress \<Rightarrow> GroupAddress \<Rightarrow> GroupTelegram" where
  "GT_read src dst =
    \<lparr>gt_source = src, gt_destination = dst, gt_service = Read, gt_payload = NoPayload\<rparr>"

definition encode_apdu :: "GroupTelegram \<Rightarrow> KnxError + u8 list" where
  "encode_apdu t =
    (let apci = apci_code (gt_service t);
         byte0 = ucast (drop_bit 2 apci AND 3);
         apci_low = ucast (push_bit 6 (apci AND 3))
     in case gt_payload t of
          NoPayload \<Rightarrow> Inr [byte0, apci_low]
        | Small v \<Rightarrow> if v > 0x3F then Inl Conversion else Inr [byte0, apci_low OR (v AND 0x3F)]
        | Bytes bytes \<Rightarrow> Inr ([byte0, apci_low] @ bytes))"

definition decode_apdu :: "IndividualAddress \<Rightarrow> GroupAddress \<Rightarrow> u8 list \<Rightarrow> KnxError + GroupTelegram" where
  "decode_apdu src dst apdu =
    (if length apdu < 2 then Inl Telegram
     else case from_apci_code (push_bit 2 (ucast (apdu ! 0 AND 3)) OR ucast (drop_bit 6 (apdu ! 1))) of
       Inl e \<Rightarrow> Inl e
     | Inr service \<Rightarrow>
        (let payload =
           (if service = Read \<and> length apdu = 2 then NoPayload
            else if length apdu = 2 then
              (let small = apdu ! 1 AND 0x3F in if small = 0 \<and> service = Read then NoPayload else Small small)
            else Bytes (drop 2 apdu))
         in Inr \<lparr>gt_source = src, gt_destination = dst, gt_service = service, gt_payload = payload\<rparr>))"

section \<open>What the bus keeps of a telegram\<close>

text \<open>The payload that a receiver sees: two control bytes alone are a value of six bits, except in a read.\<close>

fun settled :: "GroupService \<Rightarrow> Payload \<Rightarrow> Payload" where
  "settled s (Bytes (b # bs)) = Bytes (b # bs)"
| "settled Read p = NoPayload"
| "settled s (Small v) = Small v"
| "settled s p = Small 0"

lemma six_bits: "\<not> (v :: u8) > 0x3F \<longleftrightarrow> v AND 0x3F = v"
proof -
  have m: "(0x3F :: u8) = mask 6" by (simp add: mask_eq_exp_minus_1)
  have "v AND 0x3F = v \<longleftrightarrow> uint v < 64" unfolding m mask_eq_iff by simp
  then show ?thesis by (auto simp: not_less word_le_def)
qed

lemma code_round: "from_apci_code (apci_code s) = Inr s"
  by (cases s) (simp_all add: from_apci_code_def apci_code_def)

lemma code_inverse: "from_apci_code c = Inr s \<Longrightarrow> c = apci_code s"
  by (auto simp: from_apci_code_def apci_code_def split: if_splits)

lemma six_bits_low: "v AND 0x3F = v \<Longrightarrow> drop_bit 6 (v :: u8) = 0"
proof -
  assume v: "v AND 0x3F = v"
  have "drop_bit 6 v = drop_bit 6 v AND drop_bit 6 0x3F" by (metis v drop_bit_and)
  then show ?thesis by simp
qed

lemmas apdu_defs = encode_apdu_def decode_apdu_def apci_code_def from_apci_code_def Let_def

lemma decode_settles:
  assumes "encode_apdu t = Inr apdu"
  shows "decode_apdu (gt_source t) (gt_destination t) apdu = Inr (t\<lparr>gt_payload := settled (gt_service t) (gt_payload t)\<rparr>)"
proof (cases "gt_payload t")
  case NoPayload
  then show ?thesis using assms
    by (cases t; cases "gt_service t") (auto simp: apdu_defs bit.conj_disj_distrib2)
next
  case (Small v)
  then have "v AND 0x3F = v" using assms six_bits [of v] by (auto simp: encode_apdu_def Let_def split: if_splits)
  then show ?thesis using assms Small six_bits_low [of v] six_bits [of v]
    by (cases t; cases "gt_service t") (auto simp: apdu_defs bit.conj_disj_distrib2)
next
  case (Bytes bs)
  then show ?thesis using assms
    by (cases t; cases "gt_service t"; cases bs) (auto simp: apdu_defs bit.conj_disj_distrib2)
qed

text \<open>
  A telegram that is encoded and decoded comes back with its service and addresses, and with its payload
  exactly when that is six bits or bytes for a response or write, or nothing or bytes for a read.\<close>

theorem telegram_round_trip:
  assumes "encode_apdu t = Inr apdu"
  shows "decode_apdu (gt_source t) (gt_destination t) apdu = Inr t \<longleftrightarrow>
      (case gt_payload t of NoPayload \<Rightarrow> gt_service t = Read | Small v \<Rightarrow> gt_service t \<noteq> Read | Bytes bs \<Rightarrow> bs \<noteq> [])"
proof -
  have "t\<lparr>gt_payload := p\<rparr> = t \<longleftrightarrow> p = gt_payload t" for p by (cases t) auto
  then show ?thesis unfolding decode_settles [OF assms]
    by (cases "gt_service t"; cases "gt_payload t" rule: Payload.exhaust; cases "case gt_payload t of Bytes bs \<Rightarrow> bs | _ \<Rightarrow> []")
      auto
qed

theorem telegram_round_trip_witness:
  "decode_apdu \<lparr>ia_raw = 0x1105\<rparr> (GA_from_raw 0x0A03) [0, 0x80, 0x0C, 0x1A] =
     Inr (GT_write \<lparr>ia_raw = 0x1105\<rparr> (GA_from_raw 0x0A03) [0x0C, 0x1A])"
  using telegram_round_trip [of "GT_write \<lparr>ia_raw = 0x1105\<rparr> (GA_from_raw 0x0A03) [0x0C, 0x1A]" "[0, 0x80, 0x0C, 0x1A]"]
  by (simp add: GT_write_def encode_apdu_def apci_code_def)

lemma apci_fields:
  fixes a b :: u8
  assumes "push_bit 2 (ucast (a AND 3)) OR ucast (drop_bit 6 b) = (c :: u16)"
  shows "ucast (drop_bit 2 c AND 3) = a AND 3" and "ucast (push_bit 6 (c AND 3)) = b AND 0xC0"
proof -
  have m: "(3 :: u16) = mask 2" "(3 :: u8) = mask 2" "(0xC0 :: u8) = push_bit 6 (mask 2)"
    by (simp_all add: mask_eq_exp_minus_1)
  show "ucast (drop_bit 2 c AND 3) = a AND 3"
    unfolding assms [symmetric] m by (rule bit_word_eqI) (auto simp: bit_simps dest: bit_imp_le_length)
  show "ucast (push_bit 6 (c AND 3)) = b AND 0xC0"
    unfolding assms [symmetric] m by (rule bit_word_eqI) (auto simp: bit_simps dest: bit_imp_le_length)
qed

lemma byte_fields: "(b AND 0xC0) OR (b AND 0x3F) = (b :: u8)"
proof -
  have "(b AND 0xC0) OR (b AND 0x3F) = b AND (0xC0 OR 0x3F)" by (simp only: bit.conj_disj_distrib)
  moreover have "(0xC0 OR 0x3F :: u8) = - 1" by simp
  ultimately show ?thesis by (simp only: bit.conj_one_right)
qed

text \<open>
  Whatever decodes is a telegram that survives the bus: encoding it gives the bytes again, less the transport bits of
  the first byte and the value bits of a read or of a longer unit.\<close>

theorem decoded_re_encodes:
  assumes "decode_apdu src dst apdu = Inr t"
  shows "encode_apdu t = Inr ((apdu ! 0 AND 3)
    # (if length apdu = 2 \<and> gt_service t \<noteq> Read then apdu ! 1 else apdu ! 1 AND 0xC0) # drop 2 apdu)"
proof -
  have l: "2 \<le> length apdu" using assms by (auto simp: decode_apdu_def not_less split: if_splits)
  obtain s where s: "from_apci_code (push_bit 2 (ucast (apdu ! 0 AND 3)) OR ucast (drop_bit 6 (apdu ! 1))) = Inr s"
    using assms l by (auto simp: decode_apdu_def split: sum.splits)
  note f = apci_fields [OF code_inverse [OF s]]
  have n: "\<not> apdu ! 1 AND 0x3F > 0x3F" by (simp add: six_bits ac_simps)
  show ?thesis using assms l s f n byte_fields [of "apdu ! 1"]
    by (auto simp: decode_apdu_def encode_apdu_def Let_def simp del: drop_bit_and push_bit_and)
qed

theorem decoded_re_encodes_witness:
  "encode_apdu (GT_read \<lparr>ia_raw = 0\<rparr> (GA_from_raw 0)) = Inr [0, 0]"
  using decoded_re_encodes [of "\<lparr>ia_raw = 0\<rparr>" "GA_from_raw 0" "[0xFC, 0x3F]" "GT_read \<lparr>ia_raw = 0\<rparr> (GA_from_raw 0)"]
  by (simp add: decode_apdu_def GT_read_def from_apci_code_def)

text \<open>
  A write of no bytes at all, which the constructor accepts, arrives as the value zero.\<close>

theorem empty_write_is_zero:
  "\<exists>apdu. encode_apdu (GT_write src dst []) = Inr apdu
     \<and> decode_apdu src dst apdu = Inr ((GT_write src dst [])\<lparr>gt_payload := Small 0\<rparr>)"
  by (simp add: GT_write_def apdu_defs)

end
