(* ===== verification/Knx_Dpt.thy ===== *)
theory Knx_Dpt
  imports Knx_Telegram
begin

text \<open>
  KNX datapoint types (\<open>cave-home-knx\<close>: \<open>dpt.rs\<close>): the codecs between values and the payload of a telegram.
  The contracts of a codec of six bits and of a codec of bytes are locales, interpreted on every datapoint
  type that keeps its value, and what is written to a group is what its receiver reads. Signed integers are
  words in two's complement and a single-precision number is its bits. The sixteen-bit number is modelled
  from the hundredths, a whole number, on; the readings of a byte as a percentage or an angle are left out.
\<close>

type_synonym i8 = "8 word"
type_synonym i16 = "16 word"
type_synonym i32 = "32 word"

definition expect_len :: "u8 list \<Rightarrow> nat \<Rightarrow> (KnxError + unit)" where
  "expect_len bytes want = (if length bytes \<noteq> want then Inl Conversion else Inr ())"

section \<open>Values of at most six bits\<close>

definition bit_of :: "bool \<Rightarrow> u8" where "bit_of b = (if b then 1 else 0)"

definition dpt1_encode :: "bool \<Rightarrow> u8" where
  "dpt1_encode value = bit_of value"

definition dpt1_decode :: "u8 \<Rightarrow> KnxError + bool" where
  "dpt1_decode byte = (if byte = 0 then Inr False else if byte = 1 then Inr True else Inl Conversion)"

record Controlled =
  c_control :: bool
  c_value :: bool

definition dpt2_encode :: "Controlled \<Rightarrow> u8" where
  "dpt2_encode c = push_bit 1 (bit_of (c_control c)) OR bit_of (c_value c)"

definition dpt2_decode :: "u8 \<Rightarrow> KnxError + Controlled" where
  "dpt2_decode byte =
    (if byte > 3 then Inl Conversion
     else Inr \<lparr>c_control = (byte AND 2 \<noteq> 0), c_value = (byte AND 1 \<noteq> 0)\<rparr>)"

datatype Direction = Up | Down

record Control =
  direction :: Direction
  step_code :: u8

definition is_stop :: "Control \<Rightarrow> bool" where
  "is_stop c \<longleftrightarrow> step_code c = 0"

definition dpt3_encode :: "Control \<Rightarrow> KnxError + u8" where
  "dpt3_encode c =
    (if step_code c > 7 then Inl Conversion
     else Inr (push_bit 3 (case direction c of Up \<Rightarrow> 1 | Down \<Rightarrow> 0) OR step_code c))"

definition dpt3_decode :: "u8 \<Rightarrow> KnxError + Control" where
  "dpt3_decode byte =
    (if byte > 15 then Inl Conversion
     else Inr \<lparr>direction = (if byte AND 8 \<noteq> 0 then Up else Down), step_code = byte AND 7\<rparr>)"

section \<open>Integers\<close>

definition dpt5_encode_raw :: "u8 \<Rightarrow> u8" where "dpt5_encode_raw v = v"
definition dpt5_decode_raw :: "u8 \<Rightarrow> u8" where "dpt5_decode_raw b = b"

definition dpt6_encode :: "i8 \<Rightarrow> u8 list" where
  "dpt6_encode v = [v]"

definition dpt6_decode :: "u8 list \<Rightarrow> KnxError + i8" where
  "dpt6_decode bytes = (case expect_len bytes 1 of Inl e \<Rightarrow> Inl e | Inr _ \<Rightarrow> Inr (bytes ! 0))"

definition dpt7_encode :: "u16 \<Rightarrow> u8 list" where
  "dpt7_encode v = u16_to_be_bytes v"

definition dpt7_decode :: "u8 list \<Rightarrow> KnxError + u16" where
  "dpt7_decode bytes = (case expect_len bytes 2 of Inl e \<Rightarrow> Inl e | Inr _ \<Rightarrow> Inr (u16_from_be_bytes (bytes ! 0) (bytes ! 1)))"

definition dpt8_encode :: "i16 \<Rightarrow> u8 list" where
  "dpt8_encode v = u16_to_be_bytes v"

definition dpt8_decode :: "u8 list \<Rightarrow> KnxError + i16" where
  "dpt8_decode bytes = (case expect_len bytes 2 of Inl e \<Rightarrow> Inl e | Inr _ \<Rightarrow> Inr (u16_from_be_bytes (bytes ! 0) (bytes ! 1)))"

definition dpt12_encode :: "u32 \<Rightarrow> u8 list" where
  "dpt12_encode v = u32_to_be_bytes v"

definition dpt12_decode :: "u8 list \<Rightarrow> KnxError + u32" where
  "dpt12_decode bytes = (case expect_len bytes 4 of
     Inl e \<Rightarrow> Inl e
   | Inr _ \<Rightarrow> Inr (u32_from_be_bytes (bytes ! 0) (bytes ! 1) (bytes ! 2) (bytes ! 3)))"

definition dpt13_encode :: "i32 \<Rightarrow> u8 list" where
  "dpt13_encode v = u32_to_be_bytes v"

definition dpt13_decode :: "u8 list \<Rightarrow> KnxError + i32" where
  "dpt13_decode bytes = (case expect_len bytes 4 of
     Inl e \<Rightarrow> Inl e
   | Inr _ \<Rightarrow> Inr (u32_from_be_bytes (bytes ! 0) (bytes ! 1) (bytes ! 2) (bytes ! 3)))"

section \<open>The sixteen-bit number\<close>

text \<open>\<open>f64::round\<close> of half a whole number: halves go away from zero.\<close>

definition half_round :: "int \<Rightarrow> int" where
  "half_round s = (if s < 0 then - ((1 - s) div 2) else (s + 1) div 2)"

function dpt9_fit :: "int \<Rightarrow> nat \<Rightarrow> (int \<times> nat) option" where
  "dpt9_fit scaled ex =
    (if - 2048 \<le> scaled \<and> scaled \<le> 2047 then Some (scaled, ex)
     else if ex + 1 > 15 then None else dpt9_fit (half_round scaled) (ex + 1))"
  by pat_completeness auto
termination
  by (relation "measure (\<lambda>(s, ex). 16 - ex)") auto

declare dpt9_fit.simps [simp del]

definition dpt9_encode_scaled :: "int \<Rightarrow> KnxError + u8 list" where
  "dpt9_encode_scaled scaled =
    (if scaled = 0 then Inr [0, 0]
     else case dpt9_fit scaled 0 of
       None \<Rightarrow> Inl Conversion
     | Some (mantissa, ex) \<Rightarrow>
        (let sign_bit = (if mantissa < 0 then 0x8000 else 0 :: u16);
             mant_bits = of_int mantissa AND 0x07FF;
             exp_bits = push_bit 11 (of_nat ex AND 0x0F)
         in Inr (u16_to_be_bytes (sign_bit OR exp_bits OR mant_bits))))"

definition dpt9_decode_parts :: "u8 list \<Rightarrow> KnxError + int \<times> nat" where
  "dpt9_decode_parts bytes = (case expect_len bytes 2 of
     Inl e \<Rightarrow> Inl e
   | Inr _ \<Rightarrow>
      (let word = u16_from_be_bytes (bytes ! 0) (bytes ! 1);
           ex = unat (drop_bit 11 word AND 0x0F);
           m = uint (word AND 0x07FF);
           mantissa = (if word AND 0x8000 \<noteq> 0 then m - 2048 else m)
       in Inr (mantissa, ex)))"

section \<open>Times and dates\<close>

record Time =
  t_day :: u8
  t_hour :: u8
  t_minute :: u8
  t_second :: u8

definition dpt10_encode :: "Time \<Rightarrow> KnxError + u8 list" where
  "dpt10_encode t =
    (if t_day t > 7 then Inl Conversion
     else if t_hour t > 23 then Inl Conversion
     else if t_minute t > 59 then Inl Conversion
     else if t_second t > 59 then Inl Conversion
     else Inr [push_bit 5 (t_day t) OR t_hour t, t_minute t, t_second t])"

definition dpt10_decode :: "u8 list \<Rightarrow> KnxError + Time" where
  "dpt10_decode bytes = (case expect_len bytes 3 of
     Inl e \<Rightarrow> Inl e
   | Inr _ \<Rightarrow>
      (let t = \<lparr>t_day = drop_bit 5 (bytes ! 0) AND 7, t_hour = bytes ! 0 AND 0x1F,
                t_minute = bytes ! 1 AND 0x3F, t_second = bytes ! 2 AND 0x3F\<rparr>
       in case dpt10_encode t of Inl e \<Rightarrow> Inl e | Inr _ \<Rightarrow> Inr t))"

record Date =
  d_day :: u8
  d_month :: u8
  d_year :: u16

definition dpt11_encode :: "Date \<Rightarrow> KnxError + u8 list" where
  "dpt11_encode d =
    (if \<not> (1 \<le> d_day d \<and> d_day d \<le> 31) then Inl Conversion
     else if \<not> (1 \<le> d_month d \<and> d_month d \<le> 12) then Inl Conversion
     else if 2000 \<le> d_year d \<and> d_year d \<le> 2089 then Inr [d_day d, d_month d, ucast (d_year d - 2000)]
     else if 1990 \<le> d_year d \<and> d_year d \<le> 1999 then Inr [d_day d, d_month d, ucast (d_year d - 1990 + 90)]
     else Inl Conversion)"

definition dpt11_decode :: "u8 list \<Rightarrow> KnxError + Date" where
  "dpt11_decode bytes = (case expect_len bytes 3 of
     Inl e \<Rightarrow> Inl e
   | Inr _ \<Rightarrow>
      (let day = bytes ! 0 AND 0x1F;
           month = bytes ! 1 AND 0x0F;
           year_code = bytes ! 2 AND 0x7F
       in case (if year_code \<le> 89 then Inr (2000 + ucast year_code)
                else if 90 \<le> year_code \<and> year_code \<le> 99 then Inr (1990 + ucast (year_code - 90))
                else Inl Conversion) of
            Inl e \<Rightarrow> Inl e
          | Inr year \<Rightarrow>
             if \<not> (1 \<le> day \<and> day \<le> 31) then Inl Conversion
             else if \<not> (1 \<le> month \<and> month \<le> 12) then Inl Conversion
             else Inr \<lparr>d_day = day, d_month = month, d_year = year\<rparr>))"

section \<open>Single-precision numbers and texts\<close>

text \<open>\<open>f32::is_finite\<close> on the bits of the number.\<close>

definition is_finite :: "u32 \<Rightarrow> bool" where
  "is_finite v \<longleftrightarrow> v AND 0x7F800000 \<noteq> 0x7F800000"

definition dpt14_encode :: "u32 \<Rightarrow> KnxError + u8 list" where
  "dpt14_encode v = (if \<not> is_finite v then Inl Conversion else Inr (u32_to_be_bytes v))"

definition dpt14_decode :: "u8 list \<Rightarrow> KnxError + u32" where
  "dpt14_decode bytes = (case expect_len bytes 4 of
     Inl e \<Rightarrow> Inl e
   | Inr _ \<Rightarrow>
      (let v = u32_from_be_bytes (bytes ! 0) (bytes ! 1) (bytes ! 2) (bytes ! 3)
       in if \<not> is_finite v then Inl Conversion else Inr v))"

definition dpt16_encode :: "string \<Rightarrow> KnxError + u8 list" where
  "dpt16_encode text =
    (let raw = as_bytes text in
     if length raw > 14 then Inl Conversion
     else if 0 \<in> set raw then Inl Conversion
     else Inr (raw @ replicate (14 - length raw) 0))"

definition dpt16_decode :: "u8 list \<Rightarrow> KnxError + string" where
  "dpt16_decode bytes =
    (if length bytes \<noteq> 14 then Inl Conversion
     else let body = takeWhile (\<lambda>b. b \<noteq> 0) bytes
          in if utf8_valid body then Inr (of_bytes body) else Inl Conversion)"

section \<open>The contract of a codec\<close>

text \<open>A codec of six bits: what it encodes fits a small payload and decodes to the value.\<close>

locale small_codec =
  fixes enc :: "'a \<Rightarrow> KnxError + u8" and dec :: "u8 \<Rightarrow> KnxError + 'a"
  assumes enc_fits: "enc v = Inr b \<Longrightarrow> b \<le> 0x3F"
    and dec_enc: "enc v = Inr b \<Longrightarrow> dec b = Inr v"
begin

lemma enc_injective: "enc v = Inr b \<Longrightarrow> enc w = Inr b \<Longrightarrow> v = w"
  using dec_enc by (metis sum.inject(2))

lemma write_read:
  assumes "enc v = Inr b"
  shows "\<exists>t apdu. GT_write_small src dst b = Inr t \<and> encode_apdu t = Inr apdu \<and> decode_apdu src dst apdu = Inr t
      \<and> gt_payload t = Small b \<and> dec b = Inr v"
proof -
  define t where "t = \<lparr>gt_source = src, gt_destination = dst, gt_service = Write, gt_payload = Small b\<rparr>"
  have b: "\<not> b > 0x3F" using enc_fits [OF assms] by simp
  then have "GT_write_small src dst b = Inr t" by (simp add: GT_write_small_def Payload_small_def t_def)
  moreover obtain apdu where e: "encode_apdu t = Inr apdu" using b by (simp add: encode_apdu_def t_def Let_def)
  moreover have "decode_apdu src dst apdu = Inr t" using decode_settles [OF e] by (simp add: t_def)
  ultimately show ?thesis using dec_enc [OF assms] by (auto simp: t_def)
qed

end

text \<open>A codec of bytes: a fixed width, which decoding insists on, and a value that comes back.\<close>

locale payload_codec =
  fixes ok :: "'a \<Rightarrow> bool" and enc :: "'a \<Rightarrow> KnxError + u8 list" and dec :: "u8 list \<Rightarrow> KnxError + 'a" and width :: nat
  assumes width_pos: "0 < width"
    and enc_width: "enc v = Inr bs \<Longrightarrow> length bs = width"
    and dec_width: "length bs \<noteq> width \<Longrightarrow> dec bs = Inl Conversion"
    and dec_enc: "ok v \<Longrightarrow> enc v = Inr bs \<Longrightarrow> dec bs = Inr v"
begin

lemma enc_injective: "ok v \<Longrightarrow> ok w \<Longrightarrow> enc v = Inr bs \<Longrightarrow> enc w = Inr bs \<Longrightarrow> v = w"
  using dec_enc by (metis sum.inject(2))

lemma write_read:
  assumes "ok v" "enc v = Inr bs"
  shows "\<exists>apdu. encode_apdu (GT_write src dst bs) = Inr apdu \<and> length apdu = 2 + width
      \<and> decode_apdu src dst apdu = Inr (GT_write src dst bs) \<and> dec bs = Inr v"
proof -
  obtain apdu where e: "encode_apdu (GT_write src dst bs) = Inr apdu" and l: "length apdu = 2 + width"
    using enc_width [OF assms(2)] by (simp add: encode_apdu_def GT_write_def Let_def)
  obtain b bs' where "bs = b # bs'" using enc_width [OF assms(2)] width_pos by (cases bs) auto
  then have "decode_apdu src dst apdu = Inr (GT_write src dst bs)"
    using decode_settles [OF e] by (simp add: GT_write_def)
  then show ?thesis using e l dec_enc [OF assms] by blast
qed

end

lemmas be_simps = u16_to_be_bytes_def u32_to_be_bytes_def u16_be_round u32_be_round expect_len_def

interpretation dpt1: small_codec "\<lambda>v. Inr (dpt1_encode v)" dpt1_decode
  by unfold_locales (auto simp: dpt1_encode_def dpt1_decode_def bit_of_def split: if_splits)

interpretation dpt2: small_codec "\<lambda>v. Inr (dpt2_encode v)" dpt2_decode
  by unfold_locales (auto simp: dpt2_encode_def dpt2_decode_def bit_of_def)

interpretation dpt6: payload_codec "\<lambda>_. True" "\<lambda>v. Inr (dpt6_encode v)" dpt6_decode 1
  by unfold_locales (auto simp: dpt6_encode_def dpt6_decode_def be_simps)

interpretation dpt7: payload_codec "\<lambda>_. True" "\<lambda>v. Inr (dpt7_encode v)" dpt7_decode 2
  by unfold_locales (auto simp: dpt7_encode_def dpt7_decode_def be_simps)

interpretation dpt8: payload_codec "\<lambda>_. True" "\<lambda>v. Inr (dpt8_encode v)" dpt8_decode 2
  by unfold_locales (auto simp: dpt8_encode_def dpt8_decode_def be_simps)

interpretation dpt12: payload_codec "\<lambda>_. True" "\<lambda>v. Inr (dpt12_encode v)" dpt12_decode 4
  by unfold_locales (auto simp: dpt12_encode_def dpt12_decode_def be_simps)

interpretation dpt13: payload_codec "\<lambda>_. True" "\<lambda>v. Inr (dpt13_encode v)" dpt13_decode 4
  by unfold_locales (auto simp: dpt13_encode_def dpt13_decode_def be_simps)

interpretation dpt14: payload_codec "\<lambda>_. True" dpt14_encode dpt14_decode 4
  by unfold_locales (auto simp: dpt14_encode_def dpt14_decode_def be_simps Let_def split: if_splits)

lemma takeWhile_padded: "x \<notin> set xs \<Longrightarrow> takeWhile (\<lambda>y. y \<noteq> x) (xs @ replicate n x) = xs"
  by (induction xs) (auto simp: takeWhile_eq_Nil_iff hd_replicate)

interpretation dpt16: payload_codec "\<lambda>s. utf8_valid (as_bytes s)" dpt16_encode dpt16_decode 14
  by unfold_locales
    (auto simp: dpt16_encode_def dpt16_decode_def Let_def takeWhile_padded split: if_splits)

text \<open>Values within a field are not changed by its mask, and have no bit above it.\<close>

lemma u8_low:
  fixes v :: u8
  shows "v \<le> 7 \<Longrightarrow> v AND 7 = v" and "v \<le> 15 \<Longrightarrow> v AND 0x0F = v" and "v \<le> 31 \<Longrightarrow> v AND 0x1F = v"
    and "v \<le> 63 \<Longrightarrow> v AND 0x3F = v" and "v \<le> 127 \<Longrightarrow> v AND 0x7F = v"
proof -
  have m: "(7 :: u8) = mask 3" "(0x0F :: u8) = mask 4" "(0x1F :: u8) = mask 5" "(0x3F :: u8) = mask 6" "(0x7F :: u8) = mask 7"
    by (simp_all add: mask_eq_exp_minus_1)
  have "v AND mask k = v \<longleftrightarrow> uint v < 2 ^ k" for k by (rule mask_eq_iff)
  from this [of 3] this [of 4] this [of 5] this [of 6] this [of 7]
  show "v \<le> 7 \<Longrightarrow> v AND 7 = v" and "v \<le> 15 \<Longrightarrow> v AND 0x0F = v" and "v \<le> 31 \<Longrightarrow> v AND 0x1F = v"
    and "v \<le> 63 \<Longrightarrow> v AND 0x3F = v" and "v \<le> 127 \<Longrightarrow> v AND 0x7F = v"
    by (simp_all add: word_le_def m [symmetric])
qed

lemma low_bit: "(v :: u8) AND mask k = v \<Longrightarrow> bit v n \<Longrightarrow> n < k"
  by (metis bit_and_iff bit_mask_iff)

lemma dpt3_fields:
  fixes s :: u8
  assumes "s \<le> 7"
  shows "8 OR s \<le> 0x0F" and "(8 OR s) AND 8 = 8" and "(8 OR s) AND 7 = s" and "s AND 8 = 0" and "s \<le> 0x0F"
proof -
  have "uint s = 0 \<or> uint s = 1 \<or> uint s = 2 \<or> uint s = 3 \<or> uint s = 4 \<or> uint s = 5 \<or> uint s = 6 \<or> uint s = 7"
  proof -
    have "0 \<le> uint s" "uint s \<le> 7" using assms by (simp_all add: word_le_def)
    then show ?thesis by presburger
  qed
  then have "s = 0 \<or> s = 1 \<or> s = 2 \<or> s = 3 \<or> s = 4 \<or> s = 5 \<or> s = 6 \<or> s = 7"
    by (simp add: word_uint_eq_iff)
  then show "8 OR s \<le> 0x0F" and "(8 OR s) AND 8 = 8" and "(8 OR s) AND 7 = s" and "s AND 8 = 0" and "s \<le> 0x0F"
    by (elim disjE; simp)+
qed

interpretation dpt3: small_codec dpt3_encode dpt3_decode
proof
  fix v b assume e: "dpt3_encode v = Inr b"
  then have s: "step_code v \<le> 7" by (auto simp: dpt3_encode_def split: if_splits)
  note f = dpt3_fields [OF s]
  have "b \<le> 15" using e s f(1,5) by (cases "direction v") (auto simp: dpt3_encode_def not_less split: if_splits)
  then show "b \<le> 0x3F" by (rule order_trans) simp
  have b: "b = (case direction v of Up \<Rightarrow> 8 OR step_code v | Down \<Rightarrow> step_code v)"
    using e by (auto simp: dpt3_encode_def split: if_splits Direction.splits)
  have "direction v = Up \<Longrightarrow> b AND 8 = 8" "direction v = Down \<Longrightarrow> b AND 8 = 0" "b AND 7 = step_code v"
    using f(2-4) u8_low(1) [OF s] by (simp_all add: b split: Direction.split)
  then show "dpt3_decode b = Inr v" using \<open>b \<le> 15\<close>
    by (cases v; cases "direction v") (simp_all add: dpt3_decode_def not_less)
qed

lemma dpt10_first:
  fixes d h :: u8
  assumes "d \<le> 7" "h \<le> 23"
  shows "drop_bit 5 (push_bit 5 d OR h) AND 7 = d" and "(push_bit 5 d OR h) AND 0x1F = h"
proof -
  have m: "(7 :: u8) = mask 3" "(0x1F :: u8) = mask 5" by (simp_all add: mask_eq_exp_minus_1)
  have d: "d AND mask 3 = d" unfolding m [symmetric] using assms(1) by (rule u8_low)
  have "h \<le> 31" using assms(2) by (rule order_trans) simp
  then have h: "h AND mask 5 = h" unfolding m [symmetric] by (rule u8_low)
  show "drop_bit 5 (push_bit 5 d OR h) AND 7 = d" unfolding m
    by (rule bit_word_eqI) (auto simp: bit_simps dest: low_bit [OF d] low_bit [OF h])
  show "(push_bit 5 d OR h) AND 0x1F = h" unfolding m
    by (rule bit_word_eqI) (auto simp: bit_simps dest: low_bit [OF d] low_bit [OF h])
qed

interpretation dpt10: payload_codec "\<lambda>_. True" dpt10_encode dpt10_decode 3
proof
  fix v bs assume e: "dpt10_encode v = Inr bs"
  then have r: "t_day v \<le> 7" "t_hour v \<le> 23" "t_minute v \<le> 59" "t_second v \<le> 59"
    by (auto simp: dpt10_encode_def split: if_splits)
  have bs: "bs = [push_bit 5 (t_day v) OR t_hour v, t_minute v, t_second v]"
    using e by (auto simp: dpt10_encode_def split: if_splits)
  have "t_minute v \<le> 63" "t_second v \<le> 63" using r(3,4) order_trans [of _ 59 "63 :: u8"] by auto
  note low = this [THEN u8_low(4)]
  have "\<lparr>t_day = drop_bit 5 (bs ! 0) AND 7, t_hour = bs ! 0 AND 0x1F, t_minute = bs ! 1 AND 0x3F, t_second = bs ! 2 AND 0x3F\<rparr> = v"
    unfolding bs using low by (simp add: dpt10_first [OF r(1,2), simplified])
  then show "dpt10_decode bs = Inr v" using e by (simp add: dpt10_decode_def Let_def bs expect_len_def)
qed (auto simp: dpt10_encode_def dpt10_decode_def expect_len_def split: if_splits)

lemma year_code_low:
  fixes y :: u16
  assumes "y \<le> 99"
  shows "ucast y AND (0x7F :: u8) = ucast y" and "ucast (ucast y :: u8) = y" and "(ucast y :: u8) \<le> n \<longleftrightarrow> y \<le> ucast n"
proof -
  have y: "unat y \<le> 99" using assms by (simp add: word_le_nat_alt)
  then have u: "unat (ucast y :: u8) = unat y" by (simp add: unsigned_ucast_eq unsigned_take_bit_eq take_bit_nat_eq_self)
  then have "(ucast y :: u8) \<le> 127" using y by (simp add: word_le_nat_alt)
  then show "ucast y AND (0x7F :: u8) = ucast y" by (rule u8_low)
  show "ucast (ucast y :: u8) = y" using u y by (simp add: word_unat_eq_iff unsigned_ucast_eq unsigned_take_bit_eq take_bit_nat_eq_self)
  have "unat n < 2 ^ 16" using unsigned_less [of n, where ?'a = nat] by simp
  then have "unat (ucast n :: u16) = unat n" by (simp add: unsigned_ucast_eq take_bit_nat_eq_self)
  then show "(ucast y :: u8) \<le> n \<longleftrightarrow> y \<le> ucast n" using u by (simp add: word_le_nat_alt)
qed

lemma dpt11_early:
  fixes y :: u16
  assumes "1990 \<le> y" "y \<le> 1999"
  shows "\<exists>c :: u8. ucast (y - 1990 + 90) = c \<and> c AND 0x7F = c \<and> \<not> c \<le> 89 \<and> 90 \<le> c \<and> c \<le> 99 \<and> 1990 + ucast (c - 90) = y"
proof -
  have "1990 \<le> uint y" "uint y \<le> 1999" using assms by (simp_all add: word_le_def)
  then have "uint y = 1990 \<or> uint y = 1991 \<or> uint y = 1992 \<or> uint y = 1993 \<or> uint y = 1994
      \<or> uint y = 1995 \<or> uint y = 1996 \<or> uint y = 1997 \<or> uint y = 1998 \<or> uint y = 1999" by presburger
  then have "y = 1990 \<or> y = 1991 \<or> y = 1992 \<or> y = 1993 \<or> y = 1994
      \<or> y = 1995 \<or> y = 1996 \<or> y = 1997 \<or> y = 1998 \<or> y = 1999" by (simp add: word_uint_eq_iff)
  then show ?thesis by (elim disjE) simp_all
qed

lemma dpt11_late:
  fixes y :: u16
  assumes "2000 \<le> y" "y \<le> 2089"
  shows "\<exists>c :: u8. ucast (y - 2000) = c \<and> c AND 0x7F = c \<and> c \<le> 89 \<and> 2000 + ucast c = y"
proof -
  have k: "y - 2000 \<le> 89" using assms by (simp add: word_le_nat_alt unat_sub)
  then have "y - 2000 \<le> 99" by (rule order_trans) simp
  then show ?thesis using year_code_low [of "y - 2000"] year_code_low(3) [of "y - 2000" 89] k by auto
qed

interpretation dpt11: payload_codec "\<lambda>_. True" dpt11_encode dpt11_decode 3
proof
  fix v bs assume e: "dpt11_encode v = Inr bs"
  have d: "1 \<le> d_day v" "d_day v \<le> 31" and m: "1 \<le> d_month v" "d_month v \<le> 12"
    using e by (auto simp: dpt11_encode_def split: if_splits)
  have dm: "d_day v AND 0x1F = d_day v" "d_month v AND 0x0F = d_month v"
    using d(2) m(2) by (auto intro!: u8_low intro: order_trans)
  consider (late) "2000 \<le> d_year v" "d_year v \<le> 2089" "bs = [d_day v, d_month v, ucast (d_year v - 2000)]"
    | (early) "1990 \<le> d_year v" "d_year v \<le> 1999" "bs = [d_day v, d_month v, ucast (d_year v - 1990 + 90)]"
    using e by (auto simp: dpt11_encode_def split: if_splits)
  then show "dpt11_decode bs = Inr v"
  proof cases
    case late
    then show ?thesis using dpt11_late [OF late(1,2)] d m dm
      by (cases v) (auto simp: dpt11_decode_def expect_len_def Let_def)
  next
    case early
    then show ?thesis using dpt11_early [OF early(1,2)] d m dm
      by (cases v) (auto simp: dpt11_decode_def expect_len_def Let_def)
  qed
qed (auto simp: dpt11_encode_def dpt11_decode_def expect_len_def split: if_splits)

section \<open>The sixteen-bit number keeps its value within one step\<close>

lemma half_round_near: "\<bar>2 * half_round s - s\<bar> \<le> 1"
  by (auto simp: half_round_def abs_if)

lemma half_round_range:
  assumes "- (2048 * 2 ^ Suc k) \<le> s" "s \<le> 2047 * 2 ^ Suc k"
  shows "- (2048 * 2 ^ k) \<le> half_round s" "half_round s \<le> 2047 * 2 ^ k"
  using assms by (auto simp: half_round_def)

text \<open>The mantissa found is within its window, and the value it stands for is less than one of its steps away.\<close>

lemma dpt9_fit_found:
  assumes "- (2048 * 2 ^ (15 - ex)) \<le> s" "s \<le> 2047 * 2 ^ (15 - ex)" "ex \<le> 15"
  shows "\<exists>m e. dpt9_fit s ex = Some (m, e) \<and> - 2048 \<le> m \<and> m \<le> 2047 \<and> ex \<le> e \<and> e \<le> 15 \<and> \<bar>m * 2 ^ (e - ex) - s\<bar> < 2 ^ (e - ex)"
  using assms
proof (induction s ex rule: dpt9_fit.induct)
  case (1 s ex)
  show ?case
  proof (cases "- 2048 \<le> s \<and> s \<le> 2047")
    case True
    then show ?thesis using 1(4) by (subst dpt9_fit.simps) simp
  next
    case False
    then have ex: "ex < 15" using 1(2-4) by (cases "ex = 15") auto
    then have k: "15 - ex = Suc (15 - Suc ex)" by simp
    obtain m e where f: "dpt9_fit (half_round s) (ex + 1) = Some (m, e)" "- 2048 \<le> m" "m \<le> 2047" "ex + 1 \<le> e" "e \<le> 15"
      and n: "\<bar>m * 2 ^ (e - (ex + 1)) - half_round s\<bar> < 2 ^ (e - (ex + 1))"
      using 1(1) [OF False] half_round_range [of "15 - Suc ex" s] 1(2,3) ex unfolding k by auto
    have p: "(2 :: int) ^ (e - ex) = 2 * 2 ^ (e - (ex + 1))" using f(4) by (simp flip: power_Suc add: Suc_diff_Suc)
    have "\<bar>m * 2 ^ (e - ex) - s\<bar> < 2 ^ (e - ex)" using n half_round_near [of s] unfolding p by (simp add: abs_if split: if_splits)
    then show ?thesis using False ex f by (subst dpt9_fit.simps) auto
  qed
qed

lemma dpt9_word:
  fixes e m :: u16 and s :: bool
  defines "w \<equiv> (if s then 0x8000 else 0) OR push_bit 11 (e AND 0x0F) OR (m AND 0x07FF)"
  shows "drop_bit 11 w AND 0x0F = e AND 0x0F" and "w AND 0x07FF = m AND 0x07FF" and "w AND 0x8000 \<noteq> 0 \<longleftrightarrow> s"
proof -
  have n: "(0x0F :: u16) = mask 4" "(0x07FF :: u16) = mask 11" by (simp_all add: mask_eq_exp_minus_1)
  have "(0x8000 :: u16) = 2 ^ 15" by simp
  then have h: "bit (0x8000 :: u16) k \<longleftrightarrow> k = 15" for k by (simp only: bit_exp_iff possible_bit_word) auto
  have b: "bit w k \<longleftrightarrow> k = 15 \<and> s \<or> 11 \<le> k \<and> k < 15 \<and> bit e (k - 11) \<or> k < 11 \<and> bit m k" for k
    unfolding w_def n by (auto simp: bit_or_iff bit_and_iff bit_push_bit_iff bit_mask_iff h simp del: bit_numeral_word_iff)
  show "drop_bit 11 w AND 0x0F = e AND 0x0F" unfolding n by (rule bit_word_eqI) (auto simp: bit_and_iff bit_mask_iff bit_drop_bit_eq b)
  show "w AND 0x07FF = m AND 0x07FF" unfolding n by (rule bit_word_eqI) (auto simp: bit_and_iff bit_mask_iff b)
  have "bit (w AND 0x8000) k \<longleftrightarrow> k = 15 \<and> s" for k by (auto simp: bit_and_iff h b simp del: bit_numeral_word_iff)
  then show "w AND 0x8000 \<noteq> 0 \<longleftrightarrow> s" by (metis bit_0_eq bot_apply bot_bool_def bit_word_eqI)
qed

lemma dpt9_unpack:
  assumes m: "- 2048 \<le> m" "m \<le> 2047" and e: "e \<le> 15"
    and w: "w = (if m < 0 then 0x8000 else 0) OR push_bit 11 (of_nat e AND 0x0F) OR (of_int m AND 0x07FF)"
  shows "dpt9_decode_parts (u16_to_be_bytes w) = Inr (m, e)"
proof -
  have x: "unat ((of_nat e :: u16) AND 0x0F) = e"
  proof -
    have "e AND 15 = take_bit 4 e" by (simp add: take_bit_eq_mask mask_eq_exp_minus_1)
    then show ?thesis using e by (simp add: unsigned_and_eq unsigned_of_nat take_bit_nat_eq_self)
  qed
  have y: "uint ((of_int m :: u16) AND 0x07FF) = m mod 2048"
  proof -
    have "(0x07FF :: u16) = mask 11" by (simp add: mask_eq_exp_minus_1)
    then have "(of_int m :: u16) AND 0x07FF = take_bit 11 (of_int m)" by (simp only: take_bit_eq_mask)
    moreover have "uint (take_bit 11 (of_int m :: u16)) = take_bit 11 m" by (simp add: unsigned_take_bit_eq unsigned_of_int)
    ultimately show ?thesis by (simp add: take_bit_eq_mod)
  qed
  have "(if m < 0 then m mod 2048 - 2048 else m mod 2048) = m"
  proof (cases "m < 0")
    case True
    then have "(m + 2048) mod 2048 = m + 2048" using m by (intro mod_pos_pos_trivial) auto
    then show ?thesis using True by (simp only: mod_add_self2) simp
  qed (use m in simp)
  moreover have "drop_bit 11 w AND 0x0F = of_nat e AND 0x0F" "w AND 0x07FF = of_int m AND 0x07FF" "w AND 0x8000 \<noteq> 0 \<longleftrightarrow> m < 0"
    unfolding w by (rule dpt9_word)+
  ultimately show ?thesis using x y by (simp add: dpt9_decode_parts_def be_simps Let_def split: if_splits)
qed

text \<open>C33. Every whole number of hundredths between the two limits is encoded, and what is decoded is a mantissa
  within its window and an exponent that stand for a value less than one step of that exponent away: at exponent
  zero, the value itself.\<close>

theorem dpt9_within_one_step:
  assumes "- 67108864 \<le> s" "s \<le> 67076096"
  shows "\<exists>bs m e. dpt9_encode_scaled s = Inr bs \<and> dpt9_decode_parts bs = Inr (m, e)
     \<and> - 2048 \<le> m \<and> m \<le> 2047 \<and> e \<le> 15 \<and> \<bar>m * 2 ^ e - s\<bar> < 2 ^ e"
proof (cases "s = 0")
  case True
  then show ?thesis
    by (intro exI [of _ "[0, 0]"] exI [of _ 0])
      (simp add: dpt9_encode_scaled_def dpt9_decode_parts_def expect_len_def u16_from_be_bytes_def)
next
  case False
  obtain m e where f: "dpt9_fit s 0 = Some (m, e)" "- 2048 \<le> m" "m \<le> 2047" "e \<le> 15" "\<bar>m * 2 ^ e - s\<bar> < 2 ^ e"
    using dpt9_fit_found [of 0 s] assms by auto
  define w :: u16 where "w = (if m < 0 then 0x8000 else 0) OR push_bit 11 (of_nat e AND 0x0F) OR (of_int m AND 0x07FF)"
  have "dpt9_encode_scaled s = Inr (u16_to_be_bytes w)"
    unfolding dpt9_encode_scaled_def w_def Let_def f(1) using False by (simp only: option.case prod.case if_False)
  then show ?thesis using dpt9_unpack [OF f(2-4) w_def] f(2-5) by blast
qed

theorem dpt9_within_one_step_witness:
  "\<exists>bs m e. dpt9_encode_scaled 2150 = Inr bs \<and> dpt9_decode_parts bs = Inr (m, e)
     \<and> - 2048 \<le> m \<and> m \<le> 2047 \<and> e \<le> 15 \<and> \<bar>m * 2 ^ e - 2150\<bar> < 2 ^ e"
  by (rule dpt9_within_one_step) simp_all

text \<open>
  Rounding at every halving does not give the nearest number: 80.05 is sent as the mantissa 2002 with exponent
  two, 80.08, although 2001 with the same exponent, 80.04, is nearer.\<close>

theorem dpt9_not_nearest:
  "dpt9_fit 8005 0 = Some (2002, 2) \<and> \<bar>2001 * 2 ^ 2 - (8005 :: int)\<bar> < \<bar>2002 * 2 ^ 2 - 8005\<bar>"
  by (simp add: dpt9_fit.simps half_round_def)

text \<open>
  A switch that is written to a group is the switch its receiver decodes.\<close>

theorem switch_arrives:
  "\<exists>t apdu. GT_write_small src dst (dpt1_encode v) = Inr t \<and> encode_apdu t = Inr apdu
     \<and> decode_apdu src dst apdu = Inr t \<and> gt_payload t = Small (dpt1_encode v) \<and> dpt1_decode (dpt1_encode v) = Inr v"
  by (rule dpt1.write_read) simp

text \<open>
  A priority command that is written to a group is the command its receiver decodes.\<close>

theorem priority_arrives:
  "\<exists>t apdu. GT_write_small src dst (dpt2_encode v) = Inr t \<and> encode_apdu t = Inr apdu
     \<and> decode_apdu src dst apdu = Inr t \<and> gt_payload t = Small (dpt2_encode v) \<and> dpt2_decode (dpt2_encode v) = Inr v"
  by (rule dpt2.write_read) simp

text \<open>
  A dimming or blind step that encodes is the step its receiver decodes, a stop among them.\<close>

theorem step_arrives:
  "dpt3_encode c = Inr b \<Longrightarrow>
   \<exists>t apdu. GT_write_small src dst b = Inr t \<and> encode_apdu t = Inr apdu
     \<and> decode_apdu src dst apdu = Inr t \<and> gt_payload t = Small b \<and> dpt3_decode b = Inr c"
  by (rule dpt3.write_read)

theorem step_arrives_witness:
  "\<exists>t apdu. GT_write_small \<lparr>ia_raw = 1\<rparr> (GA_from_raw 2) 9 = Inr t \<and> encode_apdu t = Inr apdu
     \<and> decode_apdu \<lparr>ia_raw = 1\<rparr> (GA_from_raw 2) apdu = Inr t \<and> gt_payload t = Small 9
     \<and> dpt3_decode 9 = Inr \<lparr>direction = Up, step_code = 1\<rparr>"
  by (rule step_arrives) (simp add: dpt3_encode_def)

text \<open>
  A time of day that encodes is carried by a telegram of five bytes and is the time its receiver decodes.\<close>

theorem time_arrives:
  "dpt10_encode t = Inr bs \<Longrightarrow>
   \<exists>apdu. encode_apdu (GT_write src dst bs) = Inr apdu \<and> length apdu = 2 + 3
     \<and> decode_apdu src dst apdu = Inr (GT_write src dst bs) \<and> dpt10_decode bs = Inr t"
  by (rule dpt10.write_read) simp_all

theorem time_arrives_witness:
  "\<exists>apdu. encode_apdu (GT_write \<lparr>ia_raw = 1\<rparr> (GA_from_raw 2) [0xAD, 30, 15]) = Inr apdu \<and> length apdu = 2 + 3
     \<and> decode_apdu \<lparr>ia_raw = 1\<rparr> (GA_from_raw 2) apdu = Inr (GT_write \<lparr>ia_raw = 1\<rparr> (GA_from_raw 2) [0xAD, 30, 15])
     \<and> dpt10_decode [0xAD, 30, 15] = Inr \<lparr>t_day = 5, t_hour = 13, t_minute = 30, t_second = 15\<rparr>"
  by (rule time_arrives) (simp add: dpt10_encode_def)

text \<open>
  The same holds of a date from 1990 to 2089.\<close>

theorem date_arrives:
  "dpt11_encode d = Inr bs \<Longrightarrow>
   \<exists>apdu. encode_apdu (GT_write src dst bs) = Inr apdu \<and> length apdu = 2 + 3
     \<and> decode_apdu src dst apdu = Inr (GT_write src dst bs) \<and> dpt11_decode bs = Inr d"
  by (rule dpt11.write_read) simp_all

theorem date_arrives_witness:
  "\<exists>apdu. encode_apdu (GT_write \<lparr>ia_raw = 1\<rparr> (GA_from_raw 2) [29, 2, 96]) = Inr apdu \<and> length apdu = 2 + 3
     \<and> decode_apdu \<lparr>ia_raw = 1\<rparr> (GA_from_raw 2) apdu = Inr (GT_write \<lparr>ia_raw = 1\<rparr> (GA_from_raw 2) [29, 2, 96])
     \<and> dpt11_decode [29, 2, 96] = Inr \<lparr>d_day = 29, d_month = 2, d_year = 1996\<rparr>"
  by (rule date_arrives) (simp add: dpt11_encode_def)

text \<open>
  And of a text: what encodes is at most fourteen bytes without a zero byte.\<close>

theorem text_arrives:
  "utf8_valid (as_bytes s) \<Longrightarrow> dpt16_encode s = Inr bs \<Longrightarrow>
   \<exists>apdu. encode_apdu (GT_write src dst bs) = Inr apdu \<and> length apdu = 2 + 14
     \<and> decode_apdu src dst apdu = Inr (GT_write src dst bs) \<and> dpt16_decode bs = Inr s"
  by (rule dpt16.write_read)

theorem text_arrives_witness:
  "\<exists>apdu. encode_apdu (GT_write \<lparr>ia_raw = 1\<rparr> (GA_from_raw 2) (as_bytes ''Hall'' @ replicate 10 0)) = Inr apdu \<and> length apdu = 2 + 14
     \<and> decode_apdu \<lparr>ia_raw = 1\<rparr> (GA_from_raw 2) apdu = Inr (GT_write \<lparr>ia_raw = 1\<rparr> (GA_from_raw 2) (as_bytes ''Hall'' @ replicate 10 0))
     \<and> dpt16_decode (as_bytes ''Hall'' @ replicate 10 0) = Inr ''Hall''"
  by (rule text_arrives) (simp_all add: dpt16_encode_def as_bytes_def)

text \<open>
  A text of one accented letter, which is one byte in Latin-1, is sent as the two bytes of its UTF-8 form, and the
  Latin-1 byte is refused.\<close>

theorem latin1_refused:
  "dpt16_encode [CHR 0xC3, CHR 0xBC] = Inr ([0xC3, 0xBC] @ replicate 12 0)
   \<and> dpt16_decode (0xFC # replicate 13 0) = Inl Conversion"
  by (simp add: dpt16_encode_def dpt16_decode_def as_bytes_def takeWhile_eq_Nil_iff)

end
