(* ===== verification/Spec2Isabelle.thy ===== *)
theory Spec2Isabelle
  imports Lock_Machine Alarm_Safety Kine_Lease Mqtt_Hub Reconcile_Loop Calendar_Agenda Flannel_Hostgw Flannel_Pods Sched_Loop Home_Config Cover_Machine Vacuum_Machine Knx_Dpt
begin

text \<open>
  A verification library for cave-home, a home-automation hub that also runs its own small
  Kubernetes-style control plane. The repository is a Rust workspace of some sixty crates under
  \<open>src/crates\<close>. The library covers the crates that carry the safety of the house and the
  consistency of its state:

  \<^item> \<open>cave-home-alarm\<close>: the burglar alarm panel and its keypad;
  \<^item> \<open>cave-home-lock\<close>: the door lock and its keypad;
  \<^item> \<open>cave-home-cover\<close>, \<open>cave-home-vacuum\<close>: blinds, garage doors and robot vacuums;
  \<^item> \<open>cave-home-knx\<close>: addresses, telegrams and values of the KNX bus;
  \<^item> \<open>cave-home-automation\<close>: entity states, the event bus, rules, scripts, scenes and services;
  \<^item> \<open>cave-home-kine-rs\<close>: the revisioned key-value store the control plane keeps its objects in;
  \<^item> \<open>cave-home-mqtt\<close>: the message broker through which devices and automations talk;
  \<^item> \<open>cave-home-controller-manager-rs\<close>: the work queue and reconcile loop under every controller;
  \<^item> \<open>cave-home-scheduler-rs\<close>: the scheduler that places pods on nodes;
  \<^item> \<open>cave-home-cni-flannel\<close>: the pod network, its leases, addresses and routes between nodes;
  \<^item> \<open>cave-home-calendar\<close>: dates, recurrence rules and the household agenda.

  The alarm and the lock are independent state machines driven by commands, sensors and a clock.
  The automation core keeps the states of all entities; a change fires an event on the bus, the event
  wakes the rules subscribed to it, and a rule runs a script that calls services and sets states again.
  The store serves range reads, watches, transactions and leases to the API server. The broker
  receives packets from a transport and answers with packets to send; automations observe and veto
  messages through a hook. A controller takes keys from its work queue, reconciles them and puts
  them back after failures. The scheduler takes pods from its own queue, filters and scores the nodes of
  its cache, assumes the pod on the winner and binds it. The calendar expands recurring events into the dates of a window.

  \<^bold>\<open>Shared material.\<close> \<open>Cave_Prelude\<close> holds the machine integer types with Rust's saturating
  operations, hash maps and B-tree maps as association lists (interface \<open>finite_map\<close>, interpreted
  for both), string splitting and the lemma collections. \<open>Std_Parse\<close> reads unsigned integers and trims
  text as the standard library does, and shows that a printed number reads as itself. \<open>Keypad_Spec\<close> is the contract of a keypad
  credential (locale \<open>keypad\<close>): attempts are counted, the limit locks, only matching codes pass.

  \<^bold>\<open>Alarm.\<close> \<open>Alarm_Code\<close> models \<open>code.rs\<close> (PIN parsing, FNV digest, constant-time comparison,
  the credential) and interprets \<open>keypad\<close>. \<open>Alarm_Panel\<close> models \<open>state.rs\<close>, \<open>config.rs\<close> and
  \<open>machine.rs\<close>: commands, coded commands, sensor trips and ticks, with the relation \<open>panel_run\<close>
  over event sequences. \<open>Alarm_Safety\<close> proves what a household relies on: a reachable-state
  invariant, disarming only with the right code, exact delays, a trip that always ends in the
  siren, lock-out.

  \<^bold>\<open>Lock.\<close> \<open>Lock_Code\<close> models the lock's own copy of the keypad and interprets \<open>keypad\<close> again;
  \<open>Lock_Machine\<close> models \<open>state.rs\<close> and \<open>machine.rs\<close> and proves when a door may be reported
  locked, how jams are cleared and what the keypad gate costs.

  \<^bold>\<open>Things that move.\<close> \<open>Cover_Machine\<close> models the machine of \<open>cave-home-cover\<close>: a cover reports where it
  is and a halt always wins. \<open>Vacuum_Machine\<close> models that of \<open>cave-home-vacuum\<close>: where a vacuum may be with
  a fault or a low battery, what its commands check, and that a faulted vacuum never docks.

  \<^bold>\<open>KNX.\<close> \<open>Knx_Address\<close> models \<open>address.rs\<close> of \<open>cave-home-knx\<close>: a printed address, in any notation, is read
  back as itself. \<open>Knx_Telegram\<close> models \<open>apci.rs\<close> and \<open>telegram.rs\<close> and says exactly which telegrams survive
  encoding and decoding. \<open>Knx_Dpt\<close> models the codecs of \<open>dpt.rs\<close>; the locales \<open>small_codec\<close> and
  \<open>payload_codec\<close> are their contracts, interpreted on each of them, and carry a value over the bus; the
  sixteen-bit number keeps its value within one step of its exponent.

  \<^bold>\<open>Automation core.\<close> \<open>Home_State\<close> models \<open>context.rs\<close>, \<open>error.rs\<close> and \<open>state.rs\<close>; \<open>Home_Facts\<close> proves,
  over any sequence of its operations, the typing of the table, that queries by domain equal scans, that
  the fired events tell the whole table, the order of a state's times and the round trip through its
  dictionary. \<open>Home_Bus\<close> models \<open>event_bus.rs\<close> and proves who hears an event (the table of listeners refines one
  list of subscriptions, the record \<open>Registry\<close>), that a one-event listener hears one, and what dropping a handle removes; the locale \<open>event_bus\<close> is what a subscriber relies on,
  interpreted for the bus. \<open>Home_Rules\<close> models \<open>automation/triggers.rs\<close>,
  \<open>automation/conditions.rs\<close> and the truth value of a rendered template, with the standard parsers of
  integers and binary64 numbers; \<open>Home_Script\<close> models \<open>service.rs\<close>, \<open>scene.rs\<close>, \<open>script.rs\<close> and the
  callback of a rule over one record of the home, and \<open>Home_Engine\<close> the rest of
  \<open>automation/engine.rs\<close>. Its theorems span the components: which rules an event starts, read off the history of
  registrations and what each kind of trigger answers, which of them a change of state starts, what a scene leaves behind, that a script is its unrolled
  steps. \<open>Home_Config\<close> models \<open>config_entry.rs\<close>. Service handlers, sleeps, what happens during a wait and
  the rendering of a template are parameters; a wait that never ends is the outcome \<open>Hang\<close>.

  \<^bold>\<open>Store.\<close> \<open>Kine_Store\<close> (clock, rows, writes), \<open>Kine_Range\<close> (reads), \<open>Kine_History\<close>
  (compaction and watches, runs, and the abstract specification \<open>kv_spec\<close>), \<open>Kine_Consistency\<close>
  (refinement, snapshots, repeatable reads, list-then-watch, compaction), \<open>Kine_Txn\<close> (transactions;
  the locale \<open>kv_delete\<close> isolates what range deletion needs of the store) and \<open>Kine_Lease\<close>.

  \<^bold>\<open>Broker.\<close> \<open>Mqtt_Topic\<close> (names, filters, matching), \<open>Mqtt_Packet\<close> (MQTT 5 packets, properties,
  reason codes), \<open>Mqtt_Session\<close> (sessions and packet identifiers, access rules, retained messages,
  counters, the hook), \<open>Mqtt_Broker\<close> (every handler of \<open>broker/mod.rs\<close>), \<open>Mqtt_Delivery\<close> (who
  receives a message, and the invariant that every operation keeps) and \<open>Mqtt_Guarantees\<close> (delivery,
  completion, exactly-once, offline queues, rejections). Around this core stand the wire codec and
  the connection hub. \<open>Mqtt_Wire\<close> models the byte readers and writers, \<open>Mqtt_Property_Codec\<close> the
  properties, \<open>Mqtt_Codec\<close> the packets; \<open>Mqtt_Codec_Correct\<close> states what a decoder owes its encoder
  (locales \<open>codec\<close> and \<open>codec_loop\<close>) and proves the round trip of every packet. \<open>Mqtt_Frame\<close> models
  the framing loop of the transports. \<open>Mqtt_Hub\<close> models the shared hub of \<open>runtime\<close>: every
  method is cut into its atomic steps (a lock held, or the connection number taken), and the tasks of
  the connections interleave at all of them. Its theorems assume that connection numbers have not wrapped.

  \<^bold>\<open>Controllers.\<close> \<open>Work_Queue\<close> models \<open>workqueue.rs\<close> and \<open>reconcile.rs\<close>; the locale \<open>work_queue\<close>
  is the contract that the loop relies on, interpreted for the queue. \<open>Reconcile_Loop\<close> shows that the
  queue refines a machine with one phase per key, that a key is never processed twice at once, that
  an added key is served, and what the backoff and the retry budget are exactly. The reconciler is
  a parameter.

  \<^bold>\<open>Scheduler.\<close> \<open>Sched_Cache\<close> models \<open>types.rs\<close> and \<open>cache\<close>, \<open>Sched_Framework\<close> the plugin traits as
  records of functions and the cycle of \<open>schedule_one.rs\<close>, \<open>Sched_Plugins\<close> the default plugins,
  \<open>preemption.rs\<close> and \<open>config.rs\<close>. \<open>Sched_Decision\<close> says declaratively when a pod fits a node (\<open>fits\<close>) and
  proves which node wins and which one preemption nominates. \<open>Sched_Account\<close> keeps the books of the
  cache: totals are exact, and placements of the cycle never commit more of a node than it has announced, whatever
  the node events (the locale \<open>released_property\<close> lifts what removing a pod keeps from a node to the cache). \<open>Sched_Queue\<close> models
  \<open>queue/priority_queue.rs\<close> and \<open>framework/events.rs\<close> (the locale \<open>queue_sort\<close> is the contract of the
  ordering plugin) and bounds how long a pod waits. \<open>Sched_Loop\<close> models \<open>scheduler.rs\<close>: the binding
  cycle is all or nothing while the informers leave the cache alone, a cycle drops no pod, draining ends. The theorems about totals take
  nonnegative requests whose sums fit an \<open>i64\<close>.

  \<^bold>\<open>Pod network.\<close> \<open>Flannel_Cidr\<close> models \<open>cidr.rs\<close> and reads address blocks as intervals of numbers;
  \<open>Flannel_Ipam\<close> models \<open>ipam.rs\<close> over the locale \<open>numbered_block\<close>, what an allocator needs of a
  block; \<open>Flannel_Subnet\<close> models \<open>subnet.rs\<close> and \<open>dualstack.rs\<close>, and \<open>Flannel_Leases\<close> proves that both
  refine simple pools and maps; \<open>Flannel_Pods\<close> puts the manager and the allocators of the nodes together and proves
  that the addresses handed to the running pods of a cluster are distinct. \<open>Flannel_Routes\<close>
  (\<open>backend.rs\<close>, \<open>mac.rs\<close>, \<open>routes.rs\<close>, \<open>neigh.rs\<close>) holds the declarative plans, \<open>Flannel_Network\<close>
  (\<open>datapath.rs\<close>, \<open>device.rs\<close>, \<open>vxlan_network.rs\<close>, \<open>route_network.rs\<close>, \<open>hostgw.rs\<close>) the event
  handlers over any datapath. \<open>Flannel_Delivery\<close> and \<open>Flannel_Hostgw\<close> walk packets through the kernel
  state these handlers program (the locale \<open>recording_datapath\<close> is the contract of the recorder; the kernel is a
  specification of what the requests mean). The allocator theorems leave out the prefix length zero, where the number of
  addresses does not fit a \<open>u128\<close>, the manager theorems only subnets of length 128 in a cluster of length zero.

  \<^bold>\<open>Calendar.\<close> \<open>Calendar_Date\<close> models \<open>date.rs\<close> with its casts; the locale \<open>day_numbering\<close> is what
  the rest needs of it. \<open>Calendar_Recurrence\<close> models \<open>rrule.rs\<close>, the expansion in \<open>event.rs\<close> and
  \<open>agenda.rs\<close>; \<open>Calendar_Agenda\<close> compares the period-by-period expansion with the set of dates a
  rule describes. The comparison takes intervals up to 1000 and starts within 100,000 years, so that
  no machine integer wraps in the first 1,000,000 periods, where \<open>MAX_PERIODS\<close> stops the scan.

  \<^bold>\<open>Conventions.\<close> A struct is a record, an enum a datatype, an error a value of a sum type, and a
  method on \<open>&mut self\<close> a function that returns the new state with its result. \<open>u8\<close> to \<open>u64\<close> are
  words of that width; revisions are integers with the saturation at \<open>i64::MAX\<close> written out. Sums
  that the code leaves unchecked wrap, as in a release build. Hash
  map iteration order is unspecified in Rust; the model iterates association lists, and theorems
  about the broker speak of one client at a time, so they do not depend on the order. The one loop
  that may not end, \<open>Session::next_id\<close>, is a partial function whose value \<open>None\<close> is the run that
  does not return; everything built on it is an option, and \<open>route_completes\<close> and \<open>packet_ids_fresh\<close>
  say when it returns. All other functions are total. A hook is code outside the broker; it is a
  function of the calls it has received, and no theorem assumes anything about it.

  \<^bold>\<open>Not modelled.\<close> Sockets, TLS, WebSocket framing and the async runtime around the broker, the
  MQTT 3.1.1 codec and the Home Assistant bridge; the SQL and gRPC layers around the store; the text
  parsers of the calendar (\<open>RRule::parse\<close>, \<open>ical\<close>) and of the pod network, its netlink encodings and
  socket; the task assembly of \<open>Scheduler::run\<close>; the template engine and the functions the automation
  core registers with it; what the KNX codecs compute in floating point; display strings of errors; and the
  remaining crates (API server, kubelet, radio protocols, media, energy, user interface).
\<close>

end
